(* ===== verification/Fava_Prelude.thy ===== *)
theory Fava_Prelude
  imports Main "HOL-Library.Word" "HOL-Library.List_Lexorder" "HOL-Library.Char_ord"
    "HOL-Library.Product_Lexorder" "HOL-Library.Option_ord"
begin

section \<open>Shared types, containers and lemmas\<close>

text \<open>
  The types every component of the engine shares and the containers of the Rust standard
  library the sources use: \<open>BTreeMap\<close> as an association list with strictly increasing
  keys, \<open>BTreeSet\<close> as a strictly increasing list (so that iteration order is the order of
  the source and structural equality is equality of the containers), checked addition on
  \<open>u64\<close> and the decimal parser behind \<open>str::parse::<u64>\<close>.
  Texts are byte strings: \<open>length\<close> is \<open>str::len\<close> and the lexicographic order of bytes is
  the order of \<open>String\<close>.
\<close>

named_theorems bt_simps \<open>lookup and membership after a container operation\<close>
named_theorems bt_wf_intros \<open>well-formedness of container operations\<close>

type_synonym u16 = "16 word"
type_synonym u32 = "32 word"
type_synonym u64 = "64 word"

text \<open>
  Values of the \<open>nostr\<close> crate. Event ids and public keys are 32 bytes, compared as byte
  arrays, that is as 256-bit big-endian numbers; a kind is compared through its 16-bit
  value; a relay URL and the tag strings are texts.
\<close>

type_synonym event_id = "256 word"
type_synonym public_key = "256 word"
type_synonym kind = u16
type_synonym timestamp = u64
type_synonym relay_url = string
type_synonym tag = "string list"
type_synonym single_letter_tag = "char \<times> bool"

subsection \<open>Standard-library arithmetic and parsing\<close>

definition checked_add_u64 :: "u64 \<Rightarrow> u64 \<Rightarrow> u64 option" where
  "checked_add_u64 a b = (if unat a + unat b < 2 ^ 64 then Some (a + b) else None)"

lemma checked_add_u64_Some_iff:
  "checked_add_u64 a b = Some c \<longleftrightarrow> unat a + unat b < 2 ^ 64 \<and> unat c = unat a + unat b"
proof -
  have "unat a + unat b < 2 ^ 64 \<Longrightarrow> unat (a + b) = unat a + unat b"
    by (simp add: unat_word_ariths)
  then show ?thesis
    by (auto simp: checked_add_u64_def word_unat_eq_iff)
qed

lemma checked_add_u64_one_greater:
  assumes "checked_add_u64 a 1 = Some c"
  shows "a < c"
  using assms by (simp add: checked_add_u64_Some_iff word_less_nat_alt)

lemma checked_add_u64_one_None: "checked_add_u64 a 1 = None \<longleftrightarrow> a = - 1"
proof -
  have "unat a < 2 ^ 64" using unsigned_less [of a, where ?'a = nat] by simp
  moreover have "unat (- 1 :: u64) = 2 ^ 64 - 1"
    by (simp add: unsigned_minus_1_eq_mask mask_eq_exp_minus_1)
  ultimately show ?thesis by (auto simp: checked_add_u64_def word_unat_eq_iff)
qed

text \<open>The comparison is evaluated on the integers, where numerals are binary.\<close>

lemma checked_add_u64_code [code]:
  "checked_add_u64 a b = (if uint a + uint b < 18446744073709551616 then Some (a + b) else None)"
proof -
  have "unat a + unat b < 2 ^ 64 \<longleftrightarrow> int (unat a + unat b) < int (2 ^ 64)" by (rule of_nat_less_iff [symmetric])
  also have "\<dots> \<longleftrightarrow> uint a + uint b < 18446744073709551616" by (simp only: of_nat_add uint_nat [symmetric]) simp
  finally show ?thesis by (simp add: checked_add_u64_def)
qed

definition digit_value :: "char \<Rightarrow> nat option" where
  "digit_value c = (let n = of_char c in if 48 \<le> n \<and> n \<le> (57 :: nat) then Some (n - 48) else None)"

text \<open>The digit loop of \<open>u64::from_str\<close>: each step checks the digit and the overflow.\<close>

fun parse_digits :: "nat \<Rightarrow> string \<Rightarrow> nat option" where
  "parse_digits acc [] = Some acc"
| "parse_digits acc (c # cs) =
     (case digit_value c of
        None \<Rightarrow> None
      | Some d \<Rightarrow> if acc * 10 + d < 2 ^ 64 then parse_digits (acc * 10 + d) cs else None)"

definition parse_u64 :: "string \<Rightarrow> u64 option" where
  "parse_u64 s =
     (let body = (case s of [] \<Rightarrow> [] | c # cs \<Rightarrow> if c = CHR ''+'' then cs else s)
      in if body = [] then None else map_option of_nat (parse_digits 0 body))"

lemma parse_digits_code [code]:
  "parse_digits acc [] = Some acc"
  "parse_digits acc (c # cs) =
     (case digit_value c of
        None \<Rightarrow> None
      | Some d \<Rightarrow> if int (acc * 10 + d) < 18446744073709551616 then parse_digits (acc * 10 + d) cs else None)"
proof -
  have "n < 2 ^ 64 \<longleftrightarrow> int n < 18446744073709551616" for n :: nat
    using of_nat_less_iff [of n "2 ^ 64", where ?'a = int] by simp
  then show "parse_digits acc (c # cs) =
     (case digit_value c of
        None \<Rightarrow> None
      | Some d \<Rightarrow> if int (acc * 10 + d) < 18446744073709551616 then parse_digits (acc * 10 + d) cs else None)"
    by (simp split: option.splits)
qed simp

lemma parse_digits_bound: "acc < 2 ^ 64 \<Longrightarrow> parse_digits acc s = Some n \<Longrightarrow> n < 2 ^ 64"
  by (induction s arbitrary: acc) (auto split: option.splits if_splits)

text \<open>Decimal rendering, as \<open>Display\<close> prints an unsigned integer.\<close>

fun show_nat :: "nat \<Rightarrow> string" where
  "show_nat n = (if n < 10 then [char_of (48 + n)] else show_nat (n div 10) @ [char_of (48 + n mod 10)])"

declare show_nat.simps [simp del]

definition ascii :: "string \<Rightarrow> bool" where
  "ascii s \<longleftrightarrow> (\<forall>c\<in>set s. (of_char c :: nat) < 128)"

lemma ascii_simps [simp]:
  "ascii []" "ascii (c # s) \<longleftrightarrow> (of_char c :: nat) < 128 \<and> ascii s"
  "ascii (s @ t) \<longleftrightarrow> ascii s \<and> ascii t"
  by (auto simp: ascii_def)

lemma ascii_show_nat [simp]: "ascii (show_nat n)"
  by (induction n rule: show_nat.induct) (subst show_nat.simps, auto)

lemma length_show_nat: "n < 10 ^ Suc k \<Longrightarrow> length (show_nat n) \<le> Suc k"
proof (induction k arbitrary: n)
  case 0
  then show ?case by (subst show_nat.simps) simp
next
  case (Suc k)
  then have "n div 10 < 10 ^ Suc k" by (simp add: less_mult_imp_div_less)
  from Suc.IH [OF this] show ?case by (subst show_nat.simps) simp
qed

text \<open>\<open>usize::saturating_add\<close> on a 64-bit target.\<close>

definition saturating_add :: "nat \<Rightarrow> nat \<Rightarrow> nat" where
  "saturating_add a b = min (a + b) (2 ^ 64 - 1)"

lemma saturating_add_bound: "saturating_add a b < 2 ^ 64"
  by (simp add: saturating_add_def)

lemma saturating_add_code [code]:
  "saturating_add a b = (if int (a + b) < 18446744073709551616 then a + b else 18446744073709551615)"
  by (simp add: saturating_add_def)

text \<open>The result of running code that may panic.\<close>

datatype 'a outcome = Panicked | Returned 'a

text \<open>The \<open>?\<close> operator in a stateful body: on a refusal the state stays as it is at that point.\<close>

definition try_in :: "'s \<Rightarrow> ('e + 'a) \<Rightarrow> ('a \<Rightarrow> ('e + 'b) \<times> 's) \<Rightarrow> ('e + 'b) \<times> 's" where
  "try_in s x f = (case x of Inl e \<Rightarrow> (Inl e, s) | Inr v \<Rightarrow> f v)"

lemma try_in_simps [simp]: "try_in s (Inl e) f = (Inl e, s)" "try_in s (Inr v) f = f v"
  by (simp_all add: try_in_def)

lemma try_in_cong [fundef_cong]: "s = s' \<Longrightarrow> x = x' \<Longrightarrow> (\<And>v. x' = Inr v \<Longrightarrow> f v = g v) \<Longrightarrow> try_in s x f = try_in s' x' g"
  by (cases x') simp_all

lemma try_in_split:
  "P (try_in s x f) \<longleftrightarrow> (\<forall>e. x = Inl e \<longrightarrow> P (Inl e, s)) \<and> (\<forall>v. x = Inr v \<longrightarrow> P (f v))"
  by (cases x) simp_all

lemma try_in_Inr_iff: "try_in m x f = (Inr v, m') \<longleftrightarrow> (\<exists>y. x = Inr y \<and> f y = (Inr v, m'))"
  by (cases x) auto

definition require :: "bool \<Rightarrow> 'e \<Rightarrow> 'e + unit" where
  "require b e = (if b then Inr () else Inl e)"

lemma require_Inr_iff [simp]: "require b e = Inr u \<longleftrightarrow> b"
  by (simp add: require_def)

lemma require_Inl_iff [simp]: "require b e = Inl e' \<longleftrightarrow> \<not> b \<and> e' = e"
  by (auto simp: require_def)

definition ok_or :: "'e \<Rightarrow> 'a option \<Rightarrow> 'e + 'a" where
  "ok_or e x = (case x of None \<Rightarrow> Inl e | Some v \<Rightarrow> Inr v)"

lemma ok_or_iff [simp]:
  "ok_or e x = Inr v \<longleftrightarrow> x = Some v" "ok_or e x = Inl e' \<longleftrightarrow> x = None \<and> e' = e"
  by (auto simp: ok_or_def split: option.splits)

text \<open>A loop of checks that stops at the first refusal.\<close>

fun check_all :: "('a \<Rightarrow> 'e + unit) \<Rightarrow> 'a list \<Rightarrow> 'e + unit" where
  "check_all f [] = Inr ()"
| "check_all f (x # xs) = (case f x of Inl e \<Rightarrow> Inl e | Inr _ \<Rightarrow> check_all f xs)"

lemma check_all_ok_iff: "check_all f xs = Inr () \<longleftrightarrow> (\<forall>x\<in>set xs. f x = Inr ())"
  by (induction xs) (auto split: sum.splits)

lemma check_all_InlD: "check_all f xs = Inl e \<Longrightarrow> \<exists>x\<in>set xs. f x = Inl e"
  by (induction xs) (auto split: sum.splits)

subsection \<open>Iterator helpers\<close>

fun find_map :: "('a \<Rightarrow> 'b option) \<Rightarrow> 'a list \<Rightarrow> 'b option" where
  "find_map f [] = None"
| "find_map f (x # xs) = (case f x of Some y \<Rightarrow> Some y | None \<Rightarrow> find_map f xs)"

lemma find_map_None_iff: "find_map f xs = None \<longleftrightarrow> (\<forall>x\<in>set xs. f x = None)"
  by (induction xs) (auto split: option.splits)

lemma find_map_SomeD: "find_map f xs = Some y \<Longrightarrow> \<exists>x\<in>set xs. f x = Some y"
  by (induction xs) (auto split: option.splits)

text \<open>\<open>values.get(i)\<close> on a slice.\<close>

definition nth_opt :: "'a list \<Rightarrow> nat \<Rightarrow> 'a option" where
  "nth_opt xs i = (if i < length xs then Some (xs ! i) else None)"

text \<open>\<open>Iterator::min_by_key\<close>: the first of the elements with a least key.\<close>

fun min_by_key :: "('a \<Rightarrow> 'b::linorder) \<Rightarrow> 'a list \<Rightarrow> 'a option" where
  "min_by_key f [] = None"
| "min_by_key f (x # xs) =
     (case min_by_key f xs of None \<Rightarrow> Some x | Some y \<Rightarrow> if f y < f x then Some y else Some x)"

lemma min_by_key_None_iff [simp]: "min_by_key f xs = None \<longleftrightarrow> xs = []"
  by (cases xs) (auto split: option.splits)

lemma min_by_key_Some: "min_by_key f xs = Some x \<Longrightarrow> x \<in> set xs \<and> (\<forall>y\<in>set xs. f x \<le> f y)"
proof (induction xs arbitrary: x)
  case Nil
  then show ?case by simp
next
  case (Cons a xs)
  then show ?case
    by (cases "min_by_key f xs") (auto split: if_splits intro: order_trans less_imp_le)
qed

text \<open>\<open>slice::sort_by\<close>: a stable sort by a comparator, \<open>le x y\<close> when it is not greater.\<close>

fun insert_by :: "('a \<Rightarrow> 'a \<Rightarrow> bool) \<Rightarrow> 'a \<Rightarrow> 'a list \<Rightarrow> 'a list" where
  "insert_by le x [] = [x]"
| "insert_by le x (y # ys) = (if le x y then x # y # ys else y # insert_by le x ys)"

definition sort_by :: "('a \<Rightarrow> 'a \<Rightarrow> bool) \<Rightarrow> 'a list \<Rightarrow> 'a list" where
  "sort_by le xs = foldr (insert_by le) xs []"

lemma set_insert_by [simp]: "set (insert_by le x xs) = insert x (set xs)"
  by (induction xs) auto

lemma length_insert_by [simp]: "length (insert_by le x xs) = Suc (length xs)"
  by (induction xs) auto

lemma set_sort_by [simp]: "set (sort_by le xs) = set xs"
  unfolding sort_by_def by (induction xs) auto

lemma length_sort_by [simp]: "length (sort_by le xs) = length xs"
  unfolding sort_by_def by (induction xs) auto

lemma distinct_insert_by [simp]: "distinct (map f (insert_by le x xs)) \<longleftrightarrow> distinct (map f (x # xs))"
  by (induction xs) (auto simp: image_iff)

lemma distinct_sort_by [simp]: "distinct (map f (sort_by le xs)) \<longleftrightarrow> distinct (map f xs)"
proof (induction xs)
  case Nil
  show ?case by (simp add: sort_by_def)
next
  case (Cons x xs)
  have "sort_by le (x # xs) = insert_by le x (sort_by le xs)" by (simp add: sort_by_def)
  with Cons show ?case by simp
qed

lemma sorted_insert_by:
  assumes "\<And>x y. le x y \<or> le y x" "\<And>x y z. le x y \<Longrightarrow> le y z \<Longrightarrow> le x z" "sorted_wrt le xs"
  shows "sorted_wrt le (insert_by le x xs)"
  using assms(3) by (induction xs) (auto dest: assms(1)[THEN disjE] assms(2) intro: assms(2), meson assms(1))

lemma sorted_sort_by:
  assumes "\<And>x y. le x y \<or> le y x" "\<And>x y z. le x y \<Longrightarrow> le y z \<Longrightarrow> le x z"
  shows "sorted_wrt le (sort_by le xs)"
proof (induction xs)
  case Nil
  show ?case by (simp add: sort_by_def)
next
  case (Cons x xs)
  have "sort_by le (x # xs) = insert_by le x (sort_by le xs)" by (simp add: sort_by_def)
  with sorted_insert_by [OF assms Cons] show ?case by simp
qed

text \<open>
  The loop that keeps the first occurrence of every element: \<open>seen.insert(x)\<close> answers
  whether the element is new.
\<close>

fun keep_first :: "'a list \<Rightarrow> 'a list \<Rightarrow> 'a list" where
  "keep_first seen [] = []"
| "keep_first seen (x # xs) =
     (if x \<in> set seen then keep_first seen xs else x # keep_first (x # seen) xs)"

lemma set_keep_first: "set (keep_first seen xs) = set xs - set seen"
  by (induction seen xs rule: keep_first.induct) auto

lemma distinct_keep_first: "distinct (keep_first seen xs)"
  by (induction seen xs rule: keep_first.induct) (auto simp: set_keep_first)

lemma keep_first_cong: "set seen = set seen' \<Longrightarrow> keep_first seen xs = keep_first seen' xs"
proof (induction xs arbitrary: seen seen')
  case Nil
  show ?case by simp
next
  case (Cons x xs)
  have "keep_first seen xs = keep_first seen' xs"
    by (rule Cons.IH) (rule Cons.prems)
  moreover have "keep_first (x # seen) xs = keep_first (x # seen') xs"
    by (rule Cons.IH) (simp add: Cons.prems)
  ultimately show ?case by (simp only: keep_first.simps Cons.prems)
qed

lemma find_Some_in: "List.find P xs = Some x \<Longrightarrow> x \<in> set xs \<and> P x"
  by (auto simp: find_Some_iff)

text \<open>Keeping the first element of every key, and the last entry of a sorted association list.\<close>

fun keep_first_by :: "('a \<Rightarrow> 'k) \<Rightarrow> 'k list \<Rightarrow> 'a list \<Rightarrow> 'a list" where
  "keep_first_by key seen [] = []"
| "keep_first_by key seen (x # xs) =
     (if key x \<in> set seen then keep_first_by key seen xs else x # keep_first_by key (key x # seen) xs)"

lemma keep_first_by_iff:
  "x \<in> set (keep_first_by key seen xs) \<longleftrightarrow> key x \<notin> set seen \<and> find (\<lambda>y. key y = key x) xs = Some x"
  by (induction key seen xs rule: keep_first_by.induct) auto

lemma keep_first_by_distinct: "distinct (map key (keep_first_by key seen xs))"
  by (induction key seen xs rule: keep_first_by.induct) (auto simp: keep_first_by_iff)

lemma find_last_iff:
  assumes "sorted_wrt (<) (map fst (kvs :: ('k::linorder \<times> 'v) list))"
  shows "find P (rev (map snd kvs)) = Some w \<longleftrightarrow>
    (\<exists>l. (l, w) \<in> set kvs \<and> P w \<and> (\<forall>j x. (j, x) \<in> set kvs \<longrightarrow> P x \<longrightarrow> j \<le> l))"
  using assms
proof (induction kvs rule: rev_induct)
  case (snoc kv kvs)
  obtain k v where kv: "kv = (k, v)" by (cases kv)
  have lt: "j < k" if "(j, x) \<in> set kvs" for j x
    using that snoc.prems by (auto simp: kv sorted_wrt_append)
  show ?case
  proof (cases "P v")
    case True
    then show ?thesis using lt by (auto simp: kv less_imp_le) (metis less_le_not_le)
  next
    case False
    with snoc show ?thesis by (simp add: kv sorted_wrt_append) blast
  qed
qed simp

lemma filter_sorted_keys: "sorted_wrt (<) (map fst kvs) \<Longrightarrow> sorted_wrt (<) (map fst (filter P kvs))"
  by (induction kvs) auto

subsection \<open>\<open>BTreeSet\<close>\<close>

type_synonym 'a btree_set = "'a list"

fun bs_insert :: "'a::linorder \<Rightarrow> 'a btree_set \<Rightarrow> 'a btree_set" where
  "bs_insert x [] = [x]"
| "bs_insert x (y # ys) =
     (if x < y then x # y # ys else if x = y then y # ys else y # bs_insert x ys)"

definition bs_of_list :: "'a::linorder list \<Rightarrow> 'a btree_set" where
  "bs_of_list xs = fold bs_insert xs []"

definition bs_wf :: "'a::linorder btree_set \<Rightarrow> bool" where
  "bs_wf s = sorted_wrt (<) s"

definition bs_diff :: "'a::linorder btree_set \<Rightarrow> 'a btree_set \<Rightarrow> 'a btree_set" where
  "bs_diff s t = filter (\<lambda>x. x \<notin> set t) s"

lemma set_bs_insert [simp, bt_simps]: "set (bs_insert x s) = insert x (set s)"
  by (induction s) auto

lemma bs_wf_Nil [simp, bt_wf_intros]: "bs_wf []"
  by (simp add: bs_wf_def)

lemma bs_wf_insert [bt_wf_intros]: "bs_wf s \<Longrightarrow> bs_wf (bs_insert x s)"
  unfolding bs_wf_def by (induction s) (auto dest: less_trans)

lemma bs_wf_filter [bt_wf_intros]: "bs_wf s \<Longrightarrow> bs_wf (filter P s)"
  by (simp add: bs_wf_def sorted_wrt_filter)

lemma bs_wf_distinct: "bs_wf s \<Longrightarrow> distinct s"
  by (simp add: bs_wf_def strict_sorted_iff)

lemma bs_fold_insert:
  "set (fold bs_insert xs s) = set s \<union> set xs"
  "bs_wf s \<Longrightarrow> bs_wf (fold bs_insert xs s)"
  by (induction xs arbitrary: s) (auto intro: bs_wf_insert)

lemma set_bs_of_list [simp, bt_simps]: "set (bs_of_list xs) = set xs"
  by (simp add: bs_of_list_def bs_fold_insert)

lemma bs_wf_of_list [simp, bt_wf_intros]: "bs_wf (bs_of_list xs)"
  by (simp add: bs_of_list_def bs_fold_insert)

lemma bs_of_list_empty_iff [simp]: "bs_of_list xs = [] \<longleftrightarrow> xs = []"
  using set_bs_of_list [of xs] by (metis set_empty)

lemma bs_eqI: "bs_wf s \<Longrightarrow> bs_wf t \<Longrightarrow> set s = set t \<Longrightarrow> s = t"
  unfolding bs_wf_def by (rule strict_sorted_equal)

lemma bs_of_list_wf_id: "bs_wf s \<Longrightarrow> bs_of_list s = s"
  by (intro bs_eqI) auto

lemma set_bs_diff [simp, bt_simps]: "set (bs_diff s t) = set s - set t"
  by (auto simp: bs_diff_def)

lemma bs_wf_diff [bt_wf_intros]: "bs_wf s \<Longrightarrow> bs_wf (bs_diff s t)"
  by (simp add: bs_diff_def bs_wf_filter)

subsection \<open>\<open>BTreeMap\<close>\<close>

type_synonym ('k, 'v) btree_map = "('k \<times> 'v) list"

definition bt_get :: "('k, 'v) btree_map \<Rightarrow> 'k \<Rightarrow> 'v option" where
  "bt_get m k = map_of m k"

fun bt_insert :: "'k::linorder \<Rightarrow> 'v \<Rightarrow> ('k, 'v) btree_map \<Rightarrow> ('k, 'v) btree_map" where
  "bt_insert k v [] = [(k, v)]"
| "bt_insert k v ((k', v') # m) =
     (if k < k' then (k, v) # (k', v') # m
      else if k = k' then (k, v) # m else (k', v') # bt_insert k v m)"

definition bt_remove :: "'k \<Rightarrow> ('k, 'v) btree_map \<Rightarrow> ('k, 'v) btree_map" where
  "bt_remove k m = filter (\<lambda>e. fst e \<noteq> k) m"

definition bt_keys :: "('k, 'v) btree_map \<Rightarrow> 'k list" where
  "bt_keys m = map fst m"

definition bt_values :: "('k, 'v) btree_map \<Rightarrow> 'v list" where
  "bt_values m = map snd m"

definition bt_wf :: "('k::linorder, 'v) btree_map \<Rightarrow> bool" where
  "bt_wf m = sorted_wrt (<) (map fst m)"

definition bt_of_list :: "('k::linorder \<times> 'v) list \<Rightarrow> ('k, 'v) btree_map" where
  "bt_of_list es = fold (\<lambda>(k, v). bt_insert k v) es []"

text \<open>\<open>entry(k).or_insert(v)\<close>: keep what is there, insert otherwise.\<close>

definition bt_or_insert :: "'k::linorder \<Rightarrow> 'v \<Rightarrow> ('k, 'v) btree_map \<Rightarrow> ('k, 'v) btree_map" where
  "bt_or_insert k v m = (case bt_get m k of Some _ \<Rightarrow> m | None \<Rightarrow> bt_insert k v m)"

lemma set_keys_bt_insert [simp]: "fst ` set (bt_insert k v m) = insert k (fst ` set m)"
  by (induction k v m rule: bt_insert.induct) auto

lemma bt_get_Nil [simp, bt_simps]: "bt_get [] k = None"
  by (simp add: bt_get_def)

lemma bt_get_insert [simp, bt_simps]:
  "bt_get (bt_insert k v m) k' = (if k' = k then Some v else bt_get m k')"
  unfolding bt_get_def by (induction k v m rule: bt_insert.induct) auto

lemma bt_get_remove [simp, bt_simps]:
  "bt_get (bt_remove k m) k' = (if k' = k then None else bt_get m k')"
  unfolding bt_get_def bt_remove_def by (induction m) auto

lemma bt_get_or_insert [simp, bt_simps]:
  "bt_get (bt_or_insert k v m) k' =
     (if k' = k then (case bt_get m k of Some w \<Rightarrow> Some w | None \<Rightarrow> Some v) else bt_get m k')"
  by (simp add: bt_or_insert_def split: option.splits)

lemma bt_wf_Nil [simp, bt_wf_intros]: "bt_wf []"
  by (simp add: bt_wf_def)

lemma bt_wf_insert [bt_wf_intros]: "bt_wf m \<Longrightarrow> bt_wf (bt_insert k v m)"
  unfolding bt_wf_def
  by (induction k v m rule: bt_insert.induct) (force dest: less_trans)+

lemma bt_wf_remove [bt_wf_intros]: "bt_wf m \<Longrightarrow> bt_wf (bt_remove k m)"
  unfolding bt_wf_def bt_remove_def by (induction m) auto

lemma bt_wf_or_insert [bt_wf_intros]: "bt_wf m \<Longrightarrow> bt_wf (bt_or_insert k v m)"
  by (simp add: bt_or_insert_def bt_wf_insert split: option.splits)

lemma bt_wf_distinct: "bt_wf m \<Longrightarrow> distinct (map fst m)"
  by (simp add: bt_wf_def strict_sorted_iff)

lemma bt_get_Some_iff: "bt_wf m \<Longrightarrow> bt_get m k = Some v \<longleftrightarrow> (k, v) \<in> set m"
  by (simp add: bt_get_def bt_wf_distinct)

lemma bt_get_SomeD: "bt_get m k = Some v \<Longrightarrow> (k, v) \<in> set m"
  by (simp add: bt_get_def map_of_SomeD)

lemma bt_get_None_iff: "bt_get m k = None \<longleftrightarrow> k \<notin> set (bt_keys m)"
  by (simp add: bt_get_def bt_keys_def map_of_eq_None_iff)

lemma set_bt_keys: "set (bt_keys m) = {k. \<exists>v. bt_get m k = Some v}"
  using bt_get_None_iff [of m] by (auto simp: set_eq_iff) (metis not_None_eq)+

lemma set_bt_values: "bt_wf m \<Longrightarrow> set (bt_values m) = {v. \<exists>k. bt_get m k = Some v}"
  by (force simp: bt_values_def bt_get_Some_iff)

lemma set_bt_keys_insert [simp]: "set (bt_keys (bt_insert k v m)) = insert k (set (bt_keys m))"
  unfolding set_bt_keys by auto

lemma bt_wf_keys [simp]: "bt_wf m \<Longrightarrow> bs_wf (bt_keys m)"
  by (simp add: bt_wf_def bs_wf_def bt_keys_def)

lemma bt_eqI:
  assumes "bt_wf m" "bt_wf m'" "\<And>k. bt_get m k = bt_get m' k"
  shows "m = m'"
proof -
  have "set m = set m'"
    using assms by (auto simp: bt_get_Some_iff [symmetric])
  moreover have "sorted (map fst m)" "sorted (map fst m')"
    "distinct (map fst m)" "distinct (map fst m')"
    using assms(1,2) by (simp_all add: bt_wf_def strict_sorted_iff)
  moreover have "inj_on fst (set m \<union> set m')"
    using assms(1) \<open>set m = set m'\<close> by (metis Un_absorb bt_wf_distinct distinct_map)
  ultimately show ?thesis by (metis map_sorted_distinct_set_unique)
qed

subsection \<open>The map interface the components rely on\<close>

text \<open>
  What a component uses of an ordered map: what a lookup returns after an insertion or a
  removal, and that both keep the representation well formed. The facts on whole batches
  (a loop of insertions, a loop of removals) are proved once from these laws.
\<close>

locale finite_map =
  fixes empty_map :: "'m"
    and lookup :: "'m \<Rightarrow> 'k \<Rightarrow> 'v option"
    and update :: "'k \<Rightarrow> 'v \<Rightarrow> 'm \<Rightarrow> 'm"
    and delete :: "'k \<Rightarrow> 'm \<Rightarrow> 'm"
    and invar :: "'m \<Rightarrow> bool"
  assumes lookup_empty: "lookup empty_map k = None"
    and lookup_update: "lookup (update k v m) k' = (if k' = k then Some v else lookup m k')"
    and lookup_delete: "lookup (delete k m) k' = (if k' = k then None else lookup m k')"
    and invar_empty: "invar empty_map"
    and invar_update: "invar m \<Longrightarrow> invar (update k v m)"
    and invar_delete: "invar m \<Longrightarrow> invar (delete k m)"
begin

lemma lookup_fold_delete:
  "lookup (fold delete ks m) k = (if k \<in> set ks then None else lookup m k)"
  by (induction ks arbitrary: m) (auto simp: lookup_delete)

lemma invar_fold_delete: "invar m \<Longrightarrow> invar (fold delete ks m)"
  by (induction ks arbitrary: m) (auto simp: invar_delete)

lemma lookup_fold_update:
  "lookup (fold (\<lambda>k. update k (f k)) ks m) k = (if k \<in> set ks then Some (f k) else lookup m k)"
  by (induction ks arbitrary: m) (auto simp: lookup_update)

lemma invar_fold_update: "invar m \<Longrightarrow> invar (fold (\<lambda>k. update k (f k)) ks m)"
  by (induction ks arbitrary: m) (auto simp: invar_update)

lemma lookup_fold_default:
  "lookup (fold (\<lambda>k m. case lookup m k of Some _ \<Rightarrow> m | None \<Rightarrow> update k v m) ks m) k =
     (case lookup m k of Some w \<Rightarrow> Some w | None \<Rightarrow> if k \<in> set ks then Some v else None)"
  by (induction ks arbitrary: m) (auto simp: lookup_update split: option.splits)

lemma invar_fold_default:
  "invar m \<Longrightarrow> invar (fold (\<lambda>k m. case lookup m k of Some _ \<Rightarrow> m | None \<Rightarrow> update k v m) ks m)"
  by (induction ks arbitrary: m) (auto simp: invar_update split: option.splits)

end

interpretation bt: finite_map "[]" bt_get bt_insert bt_remove bt_wf
  by unfold_locales (auto intro: bt_wf_intros)

lemmas bt_or_insert_fold = bt.lookup_fold_default bt.invar_fold_default

end
