(* ===== verification/Relay.thy ===== *)
theory Relay
  imports Fava_Prelude
begin

section \<open>Relay identity, authority and authentication facts (\<open>fava-relay\<close>)\<close>

text \<open>
  \<open>crates/fava-relay/src/lib.rs\<close>: the bounded text every retained relay message goes
  through, the authority a piece of work requires, and the decision whether a connection in
  a given authentication state can still serve it.
\<close>

subsection \<open>\<open>BoundedText\<close>\<close>

record bounded_text =
  bounded_str :: string
  truncated_bytes :: nat

definition MAX_BYTES :: nat where
  "MAX_BYTES = 512"

text \<open>\<open>str::is_char_boundary\<close>: both ends, and every byte that does not continue a character.\<close>

definition is_char_boundary :: "string \<Rightarrow> nat \<Rightarrow> bool" where
  "is_char_boundary s i =
     (i = 0 \<or> i = length s \<or>
      (i < length s \<and> (of_char (s ! i) < (128 :: nat) \<or> 192 \<le> (of_char (s ! i) :: nat))))"

text \<open>The backward loop of the constructor.\<close>

fun boundary_before :: "string \<Rightarrow> nat \<Rightarrow> nat" where
  "boundary_before s 0 = 0"
| "boundary_before s (Suc i) =
     (if is_char_boundary s (Suc i) then Suc i else boundary_before s i)"

definition bounded_text_new :: "string \<Rightarrow> bounded_text" where
  "bounded_text_new s =
     (let end = boundary_before s (min (length s) MAX_BYTES)
      in \<lparr>bounded_str = take end s, truncated_bytes = length s - end\<rparr>)"

lemma boundary_before_le: "boundary_before s i \<le> i"
  by (induction s i rule: boundary_before.induct) auto

lemma boundary_before_boundary: "is_char_boundary s (boundary_before s i)"
  by (induction s i rule: boundary_before.induct) (auto simp: is_char_boundary_def)

lemma boundary_before_greatest:
  "is_char_boundary s j \<Longrightarrow> j \<le> i \<Longrightarrow> j \<le> boundary_before s i"
  by (induction s i rule: boundary_before.induct) (auto simp: le_Suc_eq)

lemma bounded_text_new_short: "length s \<le> MAX_BYTES \<Longrightarrow> bounded_text_new s = \<lparr>bounded_str = s, truncated_bytes = 0\<rparr>"
  by (cases "length s") (auto simp: bounded_text_new_def min_def is_char_boundary_def)

subsection \<open>\<open>Authority\<close>, \<open>Connectivity\<close>, \<open>Authentication\<close>\<close>

datatype authority = Unauthenticated | As public_key

datatype connectivity =
    Disconnected bounded_text "nat option"
  | Connecting
  | Connected

datatype progress =
    Idle
  | Requested string
  | Answering public_key
  | Declined
  | Refused bounded_text
  | Unanswerable bounded_text

record authentication =
  established :: "public_key option"
  progress :: progress

definition unoffered :: authentication where
  "unoffered = \<lparr>established = None, progress = Idle\<rparr>"

fun can_serve :: "authentication \<Rightarrow> authority \<Rightarrow> bool" where
  "can_serve a Unauthenticated = (established a = None)"
| "can_serve a (As want) =
     (case established a of
        Some e \<Rightarrow> e = want
      | None \<Rightarrow> (case progress a of Answering as_of \<Rightarrow> as_of = want | _ \<Rightarrow> True))"

text \<open>Two accounts never share a connection one of them has been accepted on.\<close>

lemma can_serve_established:
  "established a = Some k \<Longrightarrow> can_serve a auth \<longleftrightarrow> auth = As k"
  by (cases auth) auto

lemma can_serve_unoffered: "can_serve unoffered auth"
  by (cases auth) (auto simp: unoffered_def)

subsection \<open>Properties\<close>

text \<open>
  Retained relay text is bounded without losing sight of what was cut: the kept bytes are
  a prefix of the message that ends at a character boundary, no longer prefix within the bound
  ends at one, and the recorded count is exactly the number of bytes cut.
\<close>

theorem bounded_text_new_spec:
  "let b = bounded_text_new s; n = length (bounded_str b) in
     n \<le> MAX_BYTES \<and> bounded_str b @ drop n s = s \<and> truncated_bytes b = length s - n
     \<and> is_char_boundary s n \<and> (\<forall>j. is_char_boundary s j \<longrightarrow> j \<le> MAX_BYTES \<longrightarrow> j \<le> n)"
proof -
  let ?e = "boundary_before s (min (length s) MAX_BYTES)"
  have "?e \<le> length s" "?e \<le> MAX_BYTES"
    using boundary_before_le [of s "min (length s) MAX_BYTES"] by auto
  moreover have "j \<le> ?e" if "is_char_boundary s j" "j \<le> MAX_BYTES" for j
    by (rule boundary_before_greatest [OF that(1)]) (use that in \<open>auto simp: is_char_boundary_def\<close>)
  ultimately show ?thesis
    using boundary_before_boundary [of s "min (length s) MAX_BYTES"]
    by (simp add: bounded_text_new_def Let_def min_absorb2)
qed

theorem bounded_text_new_spec_witness:
  "is_char_boundary ''closed'' 6 \<and> 6 \<le> length (bounded_str (bounded_text_new ''closed''))"
proof -
  have "is_char_boundary ''closed'' 6" "6 \<le> MAX_BYTES" by code_simp+
  with bounded_text_new_spec [of "''closed''"] show ?thesis unfolding Let_def by blast
qed

end
