(* ===== verification/Nostr_Lib.thy ===== *)
theory Nostr_Lib
  imports Fava_Prelude
begin

section \<open>The interface of the \<open>nostr\<close> crate\<close>

text \<open>
  The engine is built on values of the third-party \<open>nostr\<close> crate. Its data (events, filters,
  coordinates) are records with the fields the engine reads; its functions are not modelled:
  they are the fields of \<open>nostr_lib\<close>, the first argument of every definition that calls them.
  A theorem that relies on what such a function is documented to do says so in a hypothesis.
\<close>

record event =
  ev_id :: event_id
  ev_pubkey :: public_key
  ev_created_at :: timestamp
  ev_kind :: kind
  ev_tags :: "tag list"
  ev_content :: string
  ev_sig :: string

record unsigned_event =
  ue_id :: "event_id option"
  ue_pubkey :: public_key
  ue_created_at :: timestamp
  ue_kind :: kind
  ue_tags :: "tag list"
  ue_content :: string

record coordinate =
  co_kind :: kind
  co_public_key :: public_key
  co_identifier :: string

record filter =
  fl_ids :: "event_id btree_set option"
  fl_authors :: "public_key btree_set option"
  fl_kinds :: "kind btree_set option"
  fl_search :: "string option"
  fl_since :: "timestamp option"
  fl_until :: "timestamp option"
  fl_limit :: "nat option"
  fl_generic_tags :: "(single_letter_tag, string btree_set) btree_map"

record nostr_lib =
  kind_is_replaceable :: "kind \<Rightarrow> bool"
  kind_addressable :: "kind \<Rightarrow> bool"
  event_id_from_hex :: "string \<Rightarrow> event_id option"
  coordinate_parse :: "string \<Rightarrow> coordinate option"
  public_key_to_hex :: "public_key \<Rightarrow> string"
  event_verify :: "event \<Rightarrow> string + unit"
  tag_single_letter :: "tag \<Rightarrow> single_letter_tag option"
  tag_content :: "tag \<Rightarrow> string option"
  filter_match_event :: "filter \<Rightarrow> event \<Rightarrow> bool"
  unsigned_compute_id :: "unsigned_event \<Rightarrow> event_id"
  unsigned_verify_id :: "unsigned_event \<Rightarrow> string + unit"
  tags_expiration :: "tag list \<Rightarrow> timestamp option"
  unsigned_json_len :: "unsigned_event \<Rightarrow> string + nat"
  event_json_len :: "event \<Rightarrow> string + nat"
  public_key_parse :: "string \<Rightarrow> public_key option"
  event_id_parse :: "string \<Rightarrow> event_id option"
  relay_url_parse :: "string \<Rightarrow> relay_url option"
  event_id_to_hex :: "event_id \<Rightarrow> string"
  public_key_debug :: "public_key \<Rightarrow> string"
  event_id_debug :: "event_id \<Rightarrow> string"
  event_eq :: "event \<Rightarrow> event \<Rightarrow> bool"
  unsigned_event_eq :: "unsigned_event \<Rightarrow> unsigned_event \<Rightarrow> bool"

text \<open>\<open>UnsignedEvent::ensure_id\<close> fills a missing id and leaves a present one.\<close>

definition ensure_id :: "nostr_lib \<Rightarrow> unsigned_event \<Rightarrow> unsigned_event" where
  "ensure_id N u = (case ue_id u of Some _ \<Rightarrow> u | None \<Rightarrow> u\<lparr>ue_id := Some (unsigned_compute_id N u)\<rparr>)"

definition kind_event_deletion :: kind where
  "kind_event_deletion = 5"

text \<open>
  A concrete library for closed examples: the kind ranges of NIP-01, decimal digits in place
  of hexadecimal ones, every event verified, tags read from their first two strings.
\<close>

definition sample_lib :: nostr_lib where
  "sample_lib = \<lparr>
     kind_is_replaceable = (\<lambda>k. k = 0 \<or> k = 3 \<or> (10000 \<le> k \<and> k < 20000)),
     kind_addressable = (\<lambda>k. 30000 \<le> k \<and> k < 40000),
     event_id_from_hex = (\<lambda>s. map_option of_nat (parse_digits 0 s)),
     coordinate_parse = (\<lambda>s. None),
     public_key_to_hex = (\<lambda>k. ''k''),
     event_verify = (\<lambda>e. Inr ()),
     tag_single_letter = (\<lambda>t. case t of ((c # []) # _) \<Rightarrow> Some (c, False) | _ \<Rightarrow> None),
     tag_content = (\<lambda>t. nth_opt t 1),
     filter_match_event = (\<lambda>f e. True),
     unsigned_compute_id = (\<lambda>u. 100 + ucast (ue_created_at u)),
     unsigned_verify_id = (\<lambda>u. Inr ()),
     tags_expiration = (\<lambda>ts. None),
     unsigned_json_len = (\<lambda>u. Inr (200 + length (ue_content u))),
     event_json_len = (\<lambda>e. Inr (300 + length (ev_content e))),
     public_key_parse = (\<lambda>s. map_option of_nat (parse_digits 0 s)),
     event_id_parse = (\<lambda>s. map_option of_nat (parse_digits 0 s)),
     relay_url_parse = (\<lambda>s. if take 3 s = ''wss'' then Some s else None),
     event_id_to_hex = (\<lambda>i. show_nat (unat i)),
     public_key_debug = (\<lambda>k. show_nat (unat k)),
     event_id_debug = (\<lambda>i. show_nat (unat i)),
     event_eq = (\<lambda>a b. a = b),
     unsigned_event_eq = (\<lambda>a b. a = b)\<rparr>"

definition sample_event :: "event_id \<Rightarrow> public_key \<Rightarrow> timestamp \<Rightarrow> kind \<Rightarrow> tag list \<Rightarrow> event" where
  "sample_event i p t k ts =
     \<lparr>ev_id = i, ev_pubkey = p, ev_created_at = t, ev_kind = k, ev_tags = ts,
      ev_content = [], ev_sig = []\<rparr>"

end
