(* ===== verification/Event_State.thy ===== *)
theory Event_State
  imports Relay Nostr_Lib
begin

section \<open>Universal event state (\<open>fava-state\<close>)\<close>

text \<open>
  \<open>crates/fava-state/src/lib.rs\<close>: relay occurrences and their aggregation, event
  coordinates, the winner order, deletion and expiration, and the two decision functions
  that turn a finite set of retained contributions and an incoming one into mutations.
\<close>

subsection \<open>Occurrences\<close>

record relay_occurrence =
  occ_session :: relay_url
  occ_authority :: authority
  occ_observed_at :: timestamp

record relay_occurrences =
  ros_event_id :: event_id
  ros_occurrences :: "(relay_url, relay_occurrence) btree_map"

record relay_event =
  re_event :: event
  re_occurrence :: relay_occurrence

definition relay_event_new :: "event \<Rightarrow> relay_url \<Rightarrow> authority \<Rightarrow> timestamp \<Rightarrow> relay_event" where
  "relay_event_new e s a t =
     \<lparr>re_event = e, re_occurrence = \<lparr>occ_session = s, occ_authority = a, occ_observed_at = t\<rparr>\<rparr>"

definition merge_occurrence ::
  "relay_event \<Rightarrow> (relay_url, relay_occurrence) btree_map \<Rightarrow> (relay_url, relay_occurrence) btree_map" where
  "merge_occurrence c m =
     (let incoming = re_occurrence c in
      case bt_get m (occ_session incoming) of
        Some current \<Rightarrow>
          bt_insert (occ_session incoming)
            (if occ_observed_at incoming < occ_observed_at current
             then current\<lparr>occ_observed_at := occ_observed_at incoming\<rparr> else current) m
      | None \<Rightarrow> bt_insert (occ_session incoming) incoming m)"

definition relay_occurrences_for_event ::
  "event_id \<Rightarrow> relay_event list \<Rightarrow> relay_occurrences option" where
  "relay_occurrences_for_event i cs =
     (if \<exists>c\<in>set cs. ev_id (re_event c) \<noteq> i then None
      else Some \<lparr>ros_event_id = i, ros_occurrences = fold merge_occurrence cs []\<rparr>)"

definition ros_is_empty :: "relay_occurrences \<Rightarrow> bool" where
  "ros_is_empty r = (ros_occurrences r = [])"

definition ros_len :: "relay_occurrences \<Rightarrow> nat" where
  "ros_len r = length (ros_occurrences r)"

subsection \<open>Coordinates and the winner order\<close>

datatype event_coord =
    Event event_id
  | Replaceable public_key kind "string option"

text \<open>The derived order: variants in declaration order, then the fields from the left.\<close>

fun coordinate_key :: "event_coord \<Rightarrow> nat \<times> public_key \<times> kind \<times> string option" where
  "coordinate_key (Event i) = (0, i, 0, None)"
| "coordinate_key (Replaceable a k d) = (1, a, k, d)"

lemma coordinate_key_inject [simp]: "coordinate_key c = coordinate_key d \<longleftrightarrow> c = d"
  by (cases c; cases d) auto

instantiation event_coord :: linorder
begin

definition less_eq_event_coord :: "event_coord \<Rightarrow> event_coord \<Rightarrow> bool" where
  "less_eq_event_coord c d = (coordinate_key c \<le> coordinate_key d)"

definition less_event_coord :: "event_coord \<Rightarrow> event_coord \<Rightarrow> bool" where
  "less_event_coord c d = (coordinate_key c < coordinate_key d)"

instance
  by standard (auto simp: less_eq_event_coord_def less_event_coord_def less_le_not_le
      simp flip: coordinate_key_inject)

end

definition is_addressable :: "kind \<Rightarrow> bool" where
  "is_addressable k = (30000 \<le> k \<and> k < 40000)"

definition d_identifier :: "tag list \<Rightarrow> string" where
  "d_identifier tags =
     (case find_map (\<lambda>t. if nth_opt t 0 = Some ''d''
                         then Some (case nth_opt t 1 of Some v \<Rightarrow> v | None \<Rightarrow> []) else None) tags of
        Some v \<Rightarrow> v | None \<Rightarrow> [])"

definition event_coordinate ::
  "nostr_lib \<Rightarrow> event_id \<Rightarrow> public_key \<Rightarrow> kind \<Rightarrow> tag list \<Rightarrow> event_coord" where
  "event_coordinate N i author k tags =
     (if is_addressable k then Replaceable author k (Some (d_identifier tags))
      else if kind_is_replaceable N k then Replaceable author k None
      else Event i)"

definition coordinate_of :: "nostr_lib \<Rightarrow> event \<Rightarrow> event_coord" where
  "coordinate_of N e = event_coordinate N (ev_id e) (ev_pubkey e) (ev_kind e) (ev_tags e)"

fun is_Replaceable :: "event_coord \<Rightarrow> bool" where
  "is_Replaceable (Event _) = False"
| "is_Replaceable (Replaceable _ _ _) = True"

fun event_is_newer :: "timestamp \<times> event_id \<Rightarrow> timestamp \<times> event_id \<Rightarrow> bool" where
  "event_is_newer (ct, ci) (t, i) = (ct > t \<or> (ct = t \<and> ci < i))"

subsection \<open>Deletion and expiration\<close>

definition names_event :: "nostr_lib \<Rightarrow> event_id \<Rightarrow> tag \<Rightarrow> bool" where
  "names_event N i t \<longleftrightarrow>
     nth_opt t 0 = Some ''e'' \<and> Option.bind (nth_opt t 1) (event_id_from_hex N) = Some i"

definition names_coordinate :: "nostr_lib \<Rightarrow> event_coord \<Rightarrow> tag \<Rightarrow> bool" where
  "names_coordinate N c t =
     (if nth_opt t 0 \<noteq> Some ''a'' then False
      else case Option.bind (nth_opt t 1) (coordinate_parse N) of
             None \<Rightarrow> False
           | Some co \<Rightarrow> c = Replaceable (co_public_key co) (co_kind co)
                             (if is_addressable (co_kind co) then Some (co_identifier co) else None))"

definition deletion_applies :: "nostr_lib \<Rightarrow> event \<Rightarrow> event \<Rightarrow> bool" where
  "deletion_applies N del tgt =
     (if ev_kind del \<noteq> kind_event_deletion \<or> ev_kind tgt = kind_event_deletion
         \<or> ev_pubkey del \<noteq> ev_pubkey tgt then False
      else if \<exists>t\<in>set (ev_tags del). names_event N (ev_id tgt) t then True
      else if ev_created_at tgt > ev_created_at del then False
      else \<exists>t\<in>set (ev_tags del). names_coordinate N (coordinate_of N tgt) t)"

definition event_is_expired :: "tag list \<Rightarrow> timestamp \<Rightarrow> bool" where
  "event_is_expired tags now =
     (\<exists>t\<in>set tags. nth_opt t 0 = Some ''expiration'' \<and>
        (case Option.bind (nth_opt t 1) parse_u64 of None \<Rightarrow> False | Some expiry \<Rightarrow> expiry \<le> now))"

subsection \<open>Mutations\<close>

datatype retraction_cause =
    Deleted event_id
  | Superseded event_id
  | Expired
  | Evicted

datatype event_state_mutation =
    Upsert relay_event
  | Retract event_id relay_url retraction_cause

definition retract_of :: "retraction_cause \<Rightarrow> relay_event \<Rightarrow> event_state_mutation" where
  "retract_of cause known = Retract (ev_id (re_event known)) (occ_session (re_occurrence known)) cause"

definition mutations_for_event ::
  "nostr_lib \<Rightarrow> relay_event list \<Rightarrow> relay_event \<Rightarrow> timestamp \<Rightarrow> event_state_mutation list" where
  "mutations_for_event N current incoming now =
     (let ie = re_event incoming in
      if event_is_expired (ev_tags ie) now \<or> (\<exists>known\<in>set current. deletion_applies N (re_event known) ie)
      then []
      else if ev_kind ie = kind_event_deletion
      then map (retract_of (Deleted (ev_id ie)))
             (List.filter (\<lambda>known. deletion_applies N ie (re_event known)) current) @ [Upsert incoming]
      else let isession = occ_session (re_occurrence incoming); coord = coordinate_of N ie in
        case List.find (\<lambda>known. ev_id (re_event known) = ev_id ie
                          \<and> occ_session (re_occurrence known) = isession) current of
          Some existing \<Rightarrow>
            if occ_observed_at (re_occurrence incoming) < occ_observed_at (re_occurrence existing)
            then [Upsert incoming] else []
        | None \<Rightarrow>
            if is_Replaceable coord
            then let same = List.filter (\<lambda>known. occ_session (re_occurrence known) = isession
                               \<and> coordinate_of N (re_event known) = coord) current in
              if \<exists>known\<in>set same. \<not> event_is_newer (ev_created_at ie, ev_id ie)
                     (ev_created_at (re_event known), ev_id (re_event known))
              then []
              else map (retract_of (Superseded (ev_id ie)))
                     (List.filter (\<lambda>known. ev_id (re_event known) \<noteq> ev_id ie) same) @ [Upsert incoming]
            else [Upsert incoming])"

definition mutations_for_expiration ::
  "relay_event list \<Rightarrow> timestamp \<Rightarrow> event_state_mutation list" where
  "mutations_for_expiration current now =
     map (retract_of Expired) (List.filter (\<lambda>known. event_is_expired (ev_tags (re_event known)) now) current)"

subsection \<open>Facts on the winner order\<close>

lemma event_is_newer_irrefl: "\<not> event_is_newer p p"
  by (cases p) auto

lemma event_is_newer_trans: "event_is_newer p q \<Longrightarrow> event_is_newer q r \<Longrightarrow> event_is_newer p r"
  by (cases p; cases q; cases r) auto

lemma event_is_newer_total: "p \<noteq> q \<Longrightarrow> event_is_newer p q \<or> event_is_newer q p"
  by (cases p; cases q) auto

lemma event_is_newer_not_le: "\<not> event_is_newer p q \<Longrightarrow> p = q \<or> event_is_newer q p"
  using event_is_newer_total by blast

lemma deletion_applies_author: "deletion_applies N d t \<Longrightarrow> ev_pubkey d = ev_pubkey t"
  by (auto simp: deletion_applies_def split: if_splits)

lemma deletion_applies_kinds:
  "deletion_applies N d t \<Longrightarrow> ev_kind d = kind_event_deletion \<and> ev_kind t \<noteq> kind_event_deletion"
  by (auto simp: deletion_applies_def split: if_splits)

subsection \<open>Facts on aggregation\<close>

lemma merge_occurrence_wf: "bt_wf m \<Longrightarrow> bt_wf (merge_occurrence c m)"
  by (auto simp: merge_occurrence_def Let_def intro: bt_wf_intros split: option.splits)

lemma fold_merge_occurrence_wf: "bt_wf m \<Longrightarrow> bt_wf (fold merge_occurrence cs m)"
  by (induction cs arbitrary: m) (auto intro: merge_occurrence_wf)

lemma bt_get_merge_occurrence:
  "bt_get (merge_occurrence c m) s =
     (if s = occ_session (re_occurrence c)
      then Some (case bt_get m s of
                   None \<Rightarrow> re_occurrence c
                 | Some cur \<Rightarrow> cur\<lparr>occ_observed_at := min (occ_observed_at (re_occurrence c)) (occ_observed_at cur)\<rparr>)
      else bt_get m s)"
  by (auto simp: merge_occurrence_def Let_def min_def split: option.splits)

text \<open>
  The map after the loop: a key for every session seen, the time is a lower bound of the
  times of that session and one of them, the session and the authority are those of a
  contribution.
\<close>

definition occurrence_summary ::
  "relay_event list \<Rightarrow> relay_url \<Rightarrow> relay_occurrence option \<Rightarrow> bool" where
  "occurrence_summary cs s r =
     (case r of
        None \<Rightarrow> \<forall>c\<in>set cs. occ_session (re_occurrence c) \<noteq> s
      | Some occ \<Rightarrow>
          (\<exists>c\<in>set cs. re_occurrence c = \<lparr>occ_session = s, occ_authority = occ_authority occ,
              occ_observed_at = occ_observed_at (re_occurrence c)\<rparr>)
          \<and> (\<exists>c\<in>set cs. occ_session (re_occurrence c) = s
               \<and> occ_observed_at (re_occurrence c) = occ_observed_at occ)
          \<and> (\<forall>c\<in>set cs. occ_session (re_occurrence c) = s
               \<longrightarrow> occ_observed_at occ \<le> occ_observed_at (re_occurrence c))
          \<and> occ_session occ = s)"

lemma fold_merge_occurrence_summary:
  "occurrence_summary cs s (bt_get (fold merge_occurrence cs []) s)"
proof (induction cs rule: rev_induct)
  case Nil
  show ?case by (simp add: occurrence_summary_def)
next
  case (snoc c cs)
  show ?case
  proof (cases "bt_get (fold merge_occurrence cs []) s")
    case None
    with snoc show ?thesis
      by (cases "re_occurrence c") (auto simp: occurrence_summary_def bt_get_merge_occurrence)
  next
    case (Some occ)
    with snoc show ?thesis
      by (auto simp: occurrence_summary_def bt_get_merge_occurrence min_def) (meson order_trans linear)+
  qed
qed

subsection \<open>Properties\<close>

definition supersedes :: "nostr_lib \<Rightarrow> relay_event \<Rightarrow> relay_event \<Rightarrow> bool" where
  "supersedes N incoming known \<longleftrightarrow>
     occ_session (re_occurrence known) = occ_session (re_occurrence incoming)
     \<and> coordinate_of N (re_event known) = coordinate_of N (re_event incoming)
     \<and> is_Replaceable (coordinate_of N (re_event incoming))
     \<and> event_is_newer (ev_created_at (re_event incoming), ev_id (re_event incoming))
         (ev_created_at (re_event known), ev_id (re_event known))"

text \<open>
  Every mutation an incoming event causes is one a protocol rule justifies: the event is
  inserted only when it is neither expired nor covered by a retained deletion, and a retained
  contribution is retracted only when the event deletes it or, in the same session, replaces
  it at its coordinate as the newer one.
\<close>

theorem mutations_for_event_justified:
  assumes "m \<in> set (mutations_for_event N current incoming now)"
  shows "(m = Upsert incoming \<and> \<not> event_is_expired (ev_tags (re_event incoming)) now
      \<and> (\<forall>known\<in>set current. \<not> deletion_applies N (re_event known) (re_event incoming)))
    \<or> (\<exists>known\<in>set current. m = retract_of (Deleted (ev_id (re_event incoming))) known
         \<and> deletion_applies N (re_event incoming) (re_event known))
    \<or> (\<exists>known\<in>set current. m = retract_of (Superseded (ev_id (re_event incoming))) known
         \<and> supersedes N incoming known)"
  using assms
  by (auto simp: mutations_for_event_def Let_def supersedes_def simp del: event_is_newer.simps
      split: if_splits option.splits)

text \<open>
  The order that picks the current event of a coordinate is a strict total order on
  (time, id) pairs, so any two distinct candidates have exactly one winner.
\<close>

theorem event_is_newer_strict_total:
  assumes "p \<noteq> q"
  shows "event_is_newer p q \<longleftrightarrow> \<not> event_is_newer q p"
  using event_is_newer_total [OF assms] event_is_newer_irrefl event_is_newer_trans by blast

text \<open>
  Aggregating contributions to an occurrence map is a summary per session: a session is
  present exactly when a contribution came from it, with the earliest time it was observed and
  an authority it was observed under.
\<close>

theorem relay_occurrences_summary:
  assumes "relay_occurrences_for_event i cs = Some ros"
  shows "ros_event_id ros = i \<and> bt_wf (ros_occurrences ros)
    \<and> (\<forall>s. occurrence_summary cs s (bt_get (ros_occurrences ros) s))"
  using assms fold_merge_occurrence_summary fold_merge_occurrence_wf [of "[]" cs]
  by (auto simp: relay_occurrences_for_event_def split: if_splits)

definition sample_note_event :: relay_event where
  "sample_note_event = relay_event_new (sample_event 7 1 10 1 []) ''wss://a'' Unauthenticated 3"

definition sample_deletion_event :: relay_event where
  "sample_deletion_event = relay_event_new (sample_event 9 1 12 5 [[''e'', ''7'']]) ''wss://b'' Unauthenticated 4"

theorem mutations_for_event_justified_witness:
  "retract_of (Deleted 9) sample_note_event
     \<in> set (mutations_for_event sample_lib [sample_note_event] sample_deletion_event 20)
   \<and> deletion_applies sample_lib (re_event sample_deletion_event) (re_event sample_note_event)"
proof -
  have m: "retract_of (Deleted 9) sample_note_event
     \<in> set (mutations_for_event sample_lib [sample_note_event] sample_deletion_event 20)" by code_simp
  have "retract_of (Deleted 9) sample_note_event \<noteq> Upsert sample_deletion_event"
    "\<And>c known. retract_of (Deleted 9) sample_note_event \<noteq> retract_of (Superseded c) known"
    by (simp_all add: retract_of_def)
  with mutations_for_event_justified [OF m] have
    "\<exists>known\<in>set [sample_note_event]. deletion_applies sample_lib (re_event sample_deletion_event) (re_event known)"
    by blast
  with m show ?thesis by simp
qed

theorem event_is_newer_strict_total_witness:
  "event_is_newer (10, 3) (10, 4) \<and> \<not> event_is_newer (10, 4) (10, 3)"
  using event_is_newer_strict_total [of "(10, 3)" "(10, 4)"] by simp

theorem relay_occurrences_summary_witness:
  "\<exists>ros. relay_occurrences_for_event 7 [sample_note_event] = Some ros
     \<and> occurrence_summary [sample_note_event] ''wss://a'' (bt_get (ros_occurrences ros) ''wss://a'')"
proof -
  obtain ros where "relay_occurrences_for_event 7 [sample_note_event] = Some ros"
    by (simp add: relay_occurrences_for_event_def sample_note_event_def relay_event_new_def sample_event_def)
  with relay_occurrences_summary [OF this] show ?thesis by blast
qed

end
