(* ===== verification/Write_Values.thy ===== *)
theory Write_Values
  imports Event_State
begin

section \<open>Write values, routing and receipts (\<open>fava-write\<close>)\<close>

text \<open>
  \<open>crates/fava-write/src\<close>: identities, the event value a write currently holds, the write
  routing with its bounds, the validated intents, the event builder, and the receipt with the
  outcome of every destination. Lengths of Rust collections are natural numbers; the
  \<open>usize\<close> counter of the builder is bounded by the sum of two such lengths and its overflow
  branch is kept.
\<close>

type_synonym write_id = u64
type_synonym receipt_id = u64
type_synonym revision_id = u64

definition nonzero_u64 :: "u64 \<Rightarrow> u64 option" where
  "nonzero_u64 v = (if v = 0 then None else Some v)"

definition revision_first :: revision_id where
  "revision_first = 1"

definition revision_checked_next :: "revision_id \<Rightarrow> revision_id option" where
  "revision_checked_next r = Option.bind (checked_add_u64 r 1) nonzero_u64"

lemma revision_checked_next_greater: "revision_checked_next r = Some r' \<Longrightarrow> r < r'"
  by (auto simp: revision_checked_next_def nonzero_u64_def bind_eq_Some_conv
      dest: checked_add_u64_one_greater split: if_splits)

subsection \<open>\<open>EventValue\<close>\<close>

datatype event_value = Unsigned unsigned_event | Signed event

datatype invalid_event_value = MissingId

fun value_id :: "event_value \<Rightarrow> event_id option" where
  "value_id (Unsigned u) = ue_id u"
| "value_id (Signed e) = Some (ev_id e)"

fun value_author :: "event_value \<Rightarrow> public_key" where
  "value_author (Unsigned u) = ue_pubkey u"
| "value_author (Signed e) = ev_pubkey e"

fun value_kind :: "event_value \<Rightarrow> kind" where
  "value_kind (Unsigned u) = ue_kind u"
| "value_kind (Signed e) = ev_kind e"

fun value_created_at :: "event_value \<Rightarrow> timestamp" where
  "value_created_at (Unsigned u) = ue_created_at u"
| "value_created_at (Signed e) = ev_created_at e"

fun value_tags :: "event_value \<Rightarrow> tag list" where
  "value_tags (Unsigned u) = ue_tags u"
| "value_tags (Signed e) = ev_tags e"

fun value_content :: "event_value \<Rightarrow> string" where
  "value_content (Unsigned u) = ue_content u"
| "value_content (Signed e) = ev_content e"

fun is_Signed :: "event_value \<Rightarrow> bool" where
  "is_Signed (Signed _) = True"
| "is_Signed (Unsigned _) = False"

definition value_coordinate :: "nostr_lib \<Rightarrow> event_value \<Rightarrow> invalid_event_value + event_coord" where
  "value_coordinate N v =
     (case value_id v of
        None \<Rightarrow> Inl MissingId
      | Some i \<Rightarrow> Inr (event_coordinate N i (value_author v) (value_kind v) (value_tags v)))"

subsection \<open>\<open>WriteRouting\<close>\<close>

datatype write_routing = Automatic | Explicit "relay_url list"

datatype write_intent_error =
    EmptyExplicitRelays
  | TooManyExplicitRelays nat nat
  | TooManyRawExplicitRelays nat nat
  | DuplicateExplicitRelay relay_url
  | InvalidEvent string
  | IntentExpired
  | TooManyTags nat nat
  | TooLarge nat nat
  | Encoding string
  | ExplicitRoutingAttached
  | ConflictingExplicitRoutes

definition MAX_EXPLICIT_RELAYS :: nat where
  "MAX_EXPLICIT_RELAYS = 256"

definition MAX_RAW_EXPLICIT_RELAYS :: nat where
  "MAX_RAW_EXPLICIT_RELAYS = 1024"

definition refuse_raw_input :: "nat \<Rightarrow> write_intent_error + unit" where
  "refuse_raw_input actual =
     (if actual > MAX_RAW_EXPLICIT_RELAYS then Inl (TooManyRawExplicitRelays actual MAX_RAW_EXPLICIT_RELAYS)
      else Inr ())"

text \<open>The normalization loop: a new relay is appended, and the bound is checked at once.\<close>

fun normalize_loop :: "relay_url btree_set \<Rightarrow> relay_url list \<Rightarrow> relay_url list
    \<Rightarrow> write_intent_error + relay_url list" where
  "normalize_loop seen ordered [] = Inr ordered"
| "normalize_loop seen ordered (r # rs) =
     (if r \<in> set seen then normalize_loop seen ordered rs
      else let ordered' = ordered @ [r] in
        if length ordered' > MAX_EXPLICIT_RELAYS
        then Inl (TooManyExplicitRelays (length ordered') MAX_EXPLICIT_RELAYS)
        else normalize_loop (bs_insert r seen) ordered' rs)"

definition routing_explicit :: "relay_url list \<Rightarrow> write_intent_error + write_routing" where
  "routing_explicit relays =
     (case refuse_raw_input (length relays) of
        Inl e \<Rightarrow> Inl e
      | Inr _ \<Rightarrow>
          (case normalize_loop [] [] relays of
             Inl e \<Rightarrow> Inl e
           | Inr ordered \<Rightarrow> if ordered = [] then Inl EmptyExplicitRelays else Inr (Explicit ordered)))"

definition routing_append :: "write_routing \<Rightarrow> relay_url list \<Rightarrow> write_intent_error + write_routing" where
  "routing_append r relays =
     (let ordered = (case r of Automatic \<Rightarrow> [] | Explicit rs \<Rightarrow> rs) in
      case normalize_loop (bs_of_list ordered) ordered relays of
        Inl e \<Rightarrow> Inl e
      | Inr ordered' \<Rightarrow> if ordered' = [] then Inl EmptyExplicitRelays else Inr (Explicit ordered'))"

fun first_duplicate :: "relay_url btree_set \<Rightarrow> relay_url list \<Rightarrow> relay_url option" where
  "first_duplicate seen [] = None"
| "first_duplicate seen (r # rs) =
     (if r \<in> set seen then Some r else first_duplicate (bs_insert r seen) rs)"

fun routing_validate :: "write_routing \<Rightarrow> write_intent_error + unit" where
  "routing_validate Automatic = Inr ()"
| "routing_validate (Explicit relays) =
     (if relays = [] then Inl EmptyExplicitRelays
      else if length relays > MAX_EXPLICIT_RELAYS
      then Inl (TooManyExplicitRelays (length relays) MAX_EXPLICIT_RELAYS)
      else case first_duplicate [] relays of
             Some r \<Rightarrow> Inl (DuplicateExplicitRelay r)
           | None \<Rightarrow> Inr ())"

lemma first_duplicate_None_iff:
  "first_duplicate seen rs = None \<longleftrightarrow> distinct rs \<and> set rs \<inter> set seen = {}"
  by (induction seen rs rule: first_duplicate.induct) auto

lemma routing_validate_Explicit_iff:
  "routing_validate (Explicit rs) = Inr () \<longleftrightarrow> rs \<noteq> [] \<and> length rs \<le> MAX_EXPLICIT_RELAYS \<and> distinct rs"
  using first_duplicate_None_iff [of "[]" rs] by (auto split: option.splits)

lemma normalize_loop_eq:
  assumes "length ordered \<le> MAX_EXPLICIT_RELAYS"
  shows "normalize_loop seen ordered rs =
     (if length ordered + length (keep_first seen rs) \<le> MAX_EXPLICIT_RELAYS
      then Inr (ordered @ keep_first seen rs)
      else Inl (TooManyExplicitRelays (Suc MAX_EXPLICIT_RELAYS) MAX_EXPLICIT_RELAYS))"
  using assms
proof (induction seen ordered rs rule: normalize_loop.induct)
  case (1 seen ordered)
  then show ?case by simp
next
  case (2 seen ordered r rs)
  have cong: "keep_first (bs_insert r seen) rs = keep_first (r # seen) rs"
    by (rule keep_first_cong) simp
  show ?case
  proof (cases "r \<in> set seen \<or> length ordered = MAX_EXPLICIT_RELAYS")
    case True
    with 2 show ?thesis by (auto simp: Let_def)
  next
    case False
    with 2 have "length (ordered @ [r]) \<le> MAX_EXPLICIT_RELAYS" by simp
    with False 2 show ?thesis by (auto simp: Let_def cong)
  qed
qed

lemma routing_append_validates:
  assumes "routing_validate r = Inr ()" "routing_append r rs = Inr r'"
  shows "routing_validate r' = Inr ()"
proof -
  let ?o = "case r of Automatic \<Rightarrow> [] | Explicit os \<Rightarrow> os"
  have o: "length ?o \<le> MAX_EXPLICIT_RELAYS \<and> distinct ?o"
    using assms(1) by (cases r) (auto simp: routing_validate_Explicit_iff simp del: routing_validate.simps(2))
  with assms(2) have "r' = Explicit (?o @ keep_first (bs_of_list ?o) rs)"
    "?o @ keep_first (bs_of_list ?o) rs \<noteq> []"
    "length (?o @ keep_first (bs_of_list ?o) rs) \<le> MAX_EXPLICIT_RELAYS"
    by (auto simp: routing_append_def Let_def normalize_loop_eq split: if_splits)
  then show ?thesis
    using o by (auto simp: routing_validate_Explicit_iff set_keep_first distinct_keep_first
        simp del: routing_validate.simps(2))
qed

subsection \<open>Edits and intents\<close>

definition MAX_EVENT_BYTES :: nat where
  "MAX_EVENT_BYTES = 131072"

record event_edit =
  ed_kind :: kind
  ed_identifier :: "string option"
  ed_change :: "8 word list"

definition validate_coordinate :: "nostr_lib \<Rightarrow> kind \<Rightarrow> string option \<Rightarrow> write_intent_error + unit" where
  "validate_coordinate N k ident =
     (case ident of
        None \<Rightarrow> if kind_is_replaceable N k then Inr ()
                else Inl (InvalidEvent ''replaceable-event edit kind requires an addressable identifier'')
      | Some _ \<Rightarrow> if kind_addressable N k then Inr ()
                  else Inl (InvalidEvent ''replaceable-event edit identifier requires an addressable kind''))"

definition validate_bytes :: "8 word list \<Rightarrow> write_intent_error + unit" where
  "validate_bytes v =
     (if length v > MAX_EVENT_BYTES then Inl (TooLarge (length v) MAX_EVENT_BYTES) else Inr ())"

definition event_edit_new ::
  "nostr_lib \<Rightarrow> kind \<Rightarrow> string option \<Rightarrow> 8 word list \<Rightarrow> write_intent_error + event_edit" where
  "event_edit_new N k ident change =
     (case validate_coordinate N k ident of
        Inl e \<Rightarrow> Inl e
      | Inr _ \<Rightarrow> (case validate_bytes change of
                    Inl e \<Rightarrow> Inl e
                  | Inr _ \<Rightarrow> Inr \<lparr>ed_kind = k, ed_identifier = ident, ed_change = change\<rparr>))"

text \<open>
  Serialization goes through the struct \<open>EncodedEdit\<close> and the data model of \<open>serde\<close>. The derived
  visitor takes the fields in any order, refuses an unknown or repeated one and one that is missing:
  because of \<open>deserialize_with\<close> that includes the identifier, although it is an \<open>Option\<close>. It also takes a
  sequence of the three values. How a \<open>Kind\<close> is written is up to the \<open>nostr\<close> crate, a parameter.
  Decoding runs the checks of the constructor again.
\<close>

record encoded_edit =
  ee_kind :: kind
  ee_identifier :: "string option"
  ee_change :: "8 word list"

datatype serde_value = SerNull | SerNumber nat | SerString string | SerSeq "serde_value list" | SerMap "(string \<times> serde_value) list"

datatype serde_error =
    UnknownField string
  | DuplicateField string
  | MissingField string
  | InvalidValue
  | CustomError write_intent_error

record kind_serde =
  ks_serialize :: "kind \<Rightarrow> serde_value"
  ks_deserialize :: "serde_value \<Rightarrow> kind option"

record edit_fields =
  ef_kind :: "kind option"
  ef_identifier :: "string option option"
  ef_change :: "8 word list option"

fun deserialize_identifier :: "serde_value \<Rightarrow> string option option" where
  "deserialize_identifier SerNull = Some None"
| "deserialize_identifier (SerString s) = Some (Some s)"
| "deserialize_identifier _ = None"

fun deserialize_byte :: "serde_value \<Rightarrow> 8 word option" where
  "deserialize_byte (SerNumber n) = (if n < 256 then Some (of_nat n) else None)"
| "deserialize_byte _ = None"

fun deserialize_bytes :: "serde_value list \<Rightarrow> 8 word list option" where
  "deserialize_bytes [] = Some []"
| "deserialize_bytes (v # vs) =
     (case deserialize_byte v of None \<Rightarrow> None | Some b \<Rightarrow> map_option ((#) b) (deserialize_bytes vs))"

fun deserialize_change :: "serde_value \<Rightarrow> 8 word list option" where
  "deserialize_change (SerSeq vs) = deserialize_bytes vs"
| "deserialize_change _ = None"

definition visit_entry :: "kind_serde \<Rightarrow> string \<times> serde_value \<Rightarrow> edit_fields \<Rightarrow> serde_error + edit_fields" where
  "visit_entry K entry ef =
     (case entry of (key, v) \<Rightarrow>
        if key = ''kind'' then
          if ef_kind ef \<noteq> None then Inl (DuplicateField key)
          else (case ks_deserialize K v of None \<Rightarrow> Inl InvalidValue | Some k \<Rightarrow> Inr (ef\<lparr>ef_kind := Some k\<rparr>))
        else if key = ''identifier'' then
          if ef_identifier ef \<noteq> None then Inl (DuplicateField key)
          else (case deserialize_identifier v of None \<Rightarrow> Inl InvalidValue | Some i \<Rightarrow> Inr (ef\<lparr>ef_identifier := Some i\<rparr>))
        else if key = ''change'' then
          if ef_change ef \<noteq> None then Inl (DuplicateField key)
          else (case deserialize_change v of None \<Rightarrow> Inl InvalidValue | Some c \<Rightarrow> Inr (ef\<lparr>ef_change := Some c\<rparr>))
        else Inl (UnknownField key))"

fun visit_map :: "kind_serde \<Rightarrow> (string \<times> serde_value) list \<Rightarrow> edit_fields \<Rightarrow> serde_error + edit_fields" where
  "visit_map K [] ef = Inr ef"
| "visit_map K (entry # entries) ef = (case visit_entry K entry ef of Inl e \<Rightarrow> Inl e | Inr ef \<Rightarrow> visit_map K entries ef)"

definition collect_fields :: "edit_fields \<Rightarrow> serde_error + encoded_edit" where
  "collect_fields ef =
     (case (ef_kind ef, ef_identifier ef, ef_change ef) of
        (None, _, _) \<Rightarrow> Inl (MissingField ''kind'')
      | (_, None, _) \<Rightarrow> Inl (MissingField ''identifier'')
      | (_, _, None) \<Rightarrow> Inl (MissingField ''change'')
      | (Some k, Some i, Some c) \<Rightarrow> Inr \<lparr>ee_kind = k, ee_identifier = i, ee_change = c\<rparr>)"

fun encoded_edit_deserialize :: "kind_serde \<Rightarrow> serde_value \<Rightarrow> serde_error + encoded_edit" where
  "encoded_edit_deserialize K (SerMap entries) =
     (case visit_map K entries \<lparr>ef_kind = None, ef_identifier = None, ef_change = None\<rparr> of
        Inl e \<Rightarrow> Inl e
      | Inr ef \<Rightarrow> collect_fields ef)"
| "encoded_edit_deserialize K (SerSeq [k, i, c]) =
     (case (ks_deserialize K k, deserialize_identifier i, deserialize_change c) of
        (Some k, Some i, Some c) \<Rightarrow> Inr \<lparr>ee_kind = k, ee_identifier = i, ee_change = c\<rparr>
      | _ \<Rightarrow> Inl InvalidValue)"
| "encoded_edit_deserialize K _ = Inl InvalidValue"

definition event_edit_serialize :: "kind_serde \<Rightarrow> event_edit \<Rightarrow> serde_value" where
  "event_edit_serialize K e =
     SerMap [(''kind'', ks_serialize K (ed_kind e)),
             (''identifier'', case ed_identifier e of None \<Rightarrow> SerNull | Some i \<Rightarrow> SerString i),
             (''change'', SerSeq (map (\<lambda>b. SerNumber (unat b)) (ed_change e)))]"

definition event_edit_deserialize :: "nostr_lib \<Rightarrow> kind_serde \<Rightarrow> serde_value \<Rightarrow> serde_error + event_edit" where
  "event_edit_deserialize N K v =
     (case encoded_edit_deserialize K v of
        Inl e \<Rightarrow> Inl e
      | Inr encoded \<Rightarrow>
          (case event_edit_new N (ee_kind encoded) (ee_identifier encoded) (ee_change encoded) of
             Inl e \<Rightarrow> Inl (CustomError e)
           | Inr e \<Rightarrow> Inr e))"

datatype write_payload =
    PayloadEvent unsigned_event
  | PayloadEdit event_edit public_key
  | Presigned event

record write_intent =
  wi_payload :: write_payload
  wi_routing :: write_routing
  wi_access :: authority

definition intent_under :: "authority \<Rightarrow> write_intent \<Rightarrow> write_intent" where
  "intent_under a i = i\<lparr>wi_access := a\<rparr>"

fun payload_author :: "write_payload \<Rightarrow> public_key" where
  "payload_author (PayloadEvent u) = ue_pubkey u"
| "payload_author (PayloadEdit _ a) = a"
| "payload_author (Presigned e) = ev_pubkey e"

definition intent_author :: "write_intent \<Rightarrow> public_key" where
  "intent_author i = payload_author (wi_payload i)"

definition validate_event_size :: "string + nat \<Rightarrow> write_intent_error + unit" where
  "validate_event_size json =
     (case json of
        Inl e \<Rightarrow> Inl (Encoding e)
      | Inr bytes \<Rightarrow> if bytes > MAX_EVENT_BYTES then Inl (TooLarge bytes MAX_EVENT_BYTES) else Inr ())"

lemma validate_event_size_code [code]:
  "validate_event_size json =
     (case json of
        Inl e \<Rightarrow> Inl (Encoding e)
      | Inr bytes \<Rightarrow> if int bytes > 131072 then Inl (TooLarge bytes MAX_EVENT_BYTES) else Inr ())"
  by (simp add: validate_event_size_def MAX_EVENT_BYTES_def split: sum.splits)

definition is_due :: "timestamp option \<Rightarrow> timestamp \<Rightarrow> bool" where
  "is_due expiry now = (case expiry of None \<Rightarrow> False | Some t \<Rightarrow> t \<le> now)"

definition intent_event ::
  "nostr_lib \<Rightarrow> timestamp \<Rightarrow> unsigned_event \<Rightarrow> write_routing \<Rightarrow> write_intent_error + write_intent" where
  "intent_event N now u routing =
     (let u = ensure_id N u in
      case unsigned_verify_id N u of
        Inl e \<Rightarrow> Inl (InvalidEvent e)
      | Inr _ \<Rightarrow> (case routing_validate routing of
          Inl e \<Rightarrow> Inl e
        | Inr _ \<Rightarrow> (case validate_event_size (unsigned_json_len N u) of
            Inl e \<Rightarrow> Inl e
          | Inr _ \<Rightarrow> if is_due (tags_expiration N (ue_tags u)) now then Inl IntentExpired
                     else Inr \<lparr>wi_payload = PayloadEvent u, wi_routing = routing,
                                wi_access = Unauthenticated\<rparr>)))"

definition intent_presigned ::
  "nostr_lib \<Rightarrow> timestamp \<Rightarrow> event \<Rightarrow> write_routing \<Rightarrow> write_intent_error + write_intent" where
  "intent_presigned N now e routing =
     (case event_verify N e of
        Inl err \<Rightarrow> Inl (InvalidEvent err)
      | Inr _ \<Rightarrow> (case routing_validate routing of
          Inl err \<Rightarrow> Inl err
        | Inr _ \<Rightarrow> (case validate_event_size (event_json_len N e) of
            Inl err \<Rightarrow> Inl err
          | Inr _ \<Rightarrow> if is_due (tags_expiration N (ev_tags e)) now then Inl IntentExpired
                     else Inr \<lparr>wi_payload = Presigned e, wi_routing = routing,
                                wi_access = Unauthenticated\<rparr>)))"

definition intent_edit_as ::
  "event_edit \<Rightarrow> public_key \<Rightarrow> write_routing \<Rightarrow> write_intent_error + write_intent" where
  "intent_edit_as edit author routing =
     (case routing_validate routing of
        Inl e \<Rightarrow> Inl e
      | Inr _ \<Rightarrow> Inr \<lparr>wi_payload = PayloadEdit edit author, wi_routing = routing,
                       wi_access = Unauthenticated\<rparr>)"

subsection \<open>The event builder\<close>

datatype event_build_error =
    BuildTooManyTags nat nat
  | BuildTooLarge nat nat
  | BuildEncoding string
  | BuildExplicitRoutingAttached

fun intent_error_of_build :: "event_build_error \<Rightarrow> write_intent_error" where
  "intent_error_of_build (BuildTooManyTags a m) = TooManyTags a m"
| "intent_error_of_build (BuildTooLarge b m) = TooLarge b m"
| "intent_error_of_build (BuildEncoding r) = Encoding r"
| "intent_error_of_build BuildExplicitRoutingAttached = ExplicitRoutingAttached"

definition MAX_TAGS :: nat where
  "MAX_TAGS = 2000"

text \<open>\<open>AuthoredEventBuilder\<close> adds the author to the fields of \<open>EventBuilder\<close>.\<close>

record event_builder =
  eb_kind :: kind
  eb_created_at :: timestamp
  eb_content :: string
  eb_tags :: "tag list"
  eb_routing :: write_routing
  eb_raw_routing_inputs :: nat

record authored_event_builder = event_builder +
  eb_author :: public_key

definition builder_new :: "timestamp \<Rightarrow> kind \<Rightarrow> event_builder" where
  "builder_new now k = \<lparr>eb_kind = k, eb_created_at = now, eb_content = [], eb_tags = [],
     eb_routing = Automatic, eb_raw_routing_inputs = 0\<rparr>"

definition builder_tags :: "tag list \<Rightarrow> 'a event_builder_scheme \<Rightarrow> 'a event_builder_scheme" where
  "builder_tags ts b = b\<lparr>eb_tags := eb_tags b @ ts\<rparr>"

definition builder_created_at :: "timestamp \<Rightarrow> 'a event_builder_scheme \<Rightarrow> 'a event_builder_scheme" where
  "builder_created_at t b = b\<lparr>eb_created_at := t\<rparr>"

definition builder_content :: "string \<Rightarrow> 'a event_builder_scheme \<Rightarrow> 'a event_builder_scheme" where
  "builder_content c b = b\<lparr>eb_content := c\<rparr>"

definition builder_tag :: "tag \<Rightarrow> 'a event_builder_scheme \<Rightarrow> 'a event_builder_scheme" where
  "builder_tag t b = builder_tags [t] b"

definition builder_by :: "public_key \<Rightarrow> event_builder \<Rightarrow> authored_event_builder" where
  "builder_by a b = \<lparr>eb_kind = eb_kind b, eb_created_at = eb_created_at b, eb_content = eb_content b,
     eb_tags = eb_tags b, eb_routing = eb_routing b,
     eb_raw_routing_inputs = eb_raw_routing_inputs b, eb_author = a\<rparr>"

definition builder_from_parts ::
  "public_key \<Rightarrow> kind \<Rightarrow> timestamp \<Rightarrow> tag list \<Rightarrow> string \<Rightarrow> authored_event_builder" where
  "builder_from_parts a k t ts c = \<lparr>eb_kind = k, eb_created_at = t, eb_content = c, eb_tags = ts,
     eb_routing = Automatic, eb_raw_routing_inputs = 0, eb_author = a\<rparr>"

definition builder_from_event :: "unsigned_event \<Rightarrow> authored_event_builder" where
  "builder_from_event u =
     builder_from_parts (ue_pubkey u) (ue_kind u) (ue_created_at u) (ue_tags u) (ue_content u)"

definition builder_to_relays ::
  "relay_url list \<Rightarrow> 'a event_builder_scheme \<Rightarrow> write_intent_error + 'a event_builder_scheme" where
  "builder_to_relays relays b =
     (let raw = eb_raw_routing_inputs b + length relays in
      if raw \<ge> 2 ^ 64 then Inl (TooManyRawExplicitRelays (2 ^ 64 - 1) MAX_RAW_EXPLICIT_RELAYS)
      else case refuse_raw_input raw of
        Inl e \<Rightarrow> Inl e
      | Inr _ \<Rightarrow> (case routing_append (eb_routing b) relays of
          Inl e \<Rightarrow> Inl e
        | Inr r \<Rightarrow> Inr (b\<lparr>eb_routing := r, eb_raw_routing_inputs := raw\<rparr>)))"

definition build_event :: "nostr_lib \<Rightarrow> authored_event_builder \<Rightarrow> event_build_error + unsigned_event" where
  "build_event N b =
     (if length (eb_tags b) > MAX_TAGS then Inl (BuildTooManyTags (length (eb_tags b)) MAX_TAGS)
      else let u = ensure_id N \<lparr>ue_id = None, ue_pubkey = eb_author b, ue_created_at = eb_created_at b,
                     ue_kind = eb_kind b, ue_tags = eb_tags b, ue_content = eb_content b\<rparr> in
        case unsigned_json_len N u of
          Inl e \<Rightarrow> Inl (BuildEncoding e)
        | Inr bytes \<Rightarrow> if bytes > MAX_EVENT_BYTES then Inl (BuildTooLarge bytes MAX_EVENT_BYTES) else Inr u)"

definition builder_build :: "nostr_lib \<Rightarrow> authored_event_builder \<Rightarrow> event_build_error + unsigned_event" where
  "builder_build N b =
     (case eb_routing b of Explicit _ \<Rightarrow> Inl BuildExplicitRoutingAttached | Automatic \<Rightarrow> build_event N b)"

definition into_event_and_routing ::
  "nostr_lib \<Rightarrow> authored_event_builder \<Rightarrow> event_build_error + unsigned_event \<times> write_routing" where
  "into_event_and_routing N b =
     (case build_event N b of Inl e \<Rightarrow> Inl e | Inr u \<Rightarrow> Inr (u, eb_routing b))"

subsection \<open>Receipts\<close>

datatype signature_state =
    SigUnsigned
  | SigAuthorized
  | SigRetryable string
  | SigSigned
  | SigRefused string

datatype relay_delivery_outcome =
    Pending
  | Attempting
  | Retryable string
  | Acknowledged string
  | Rejected string
  | AuthenticationDenied string
  | GivenUp string
  | Unknown string
  | CancelledBeforeHandoff

fun outcome_is_terminal :: "relay_delivery_outcome \<Rightarrow> bool" where
  "outcome_is_terminal (Acknowledged _) = True"
| "outcome_is_terminal (Rejected _) = True"
| "outcome_is_terminal (AuthenticationDenied _) = True"
| "outcome_is_terminal (GivenUp _) = True"
| "outcome_is_terminal (Unknown _) = True"
| "outcome_is_terminal CancelledBeforeHandoff = True"
| "outcome_is_terminal _ = False"

record publication_evidence =
  pe_receipt_id :: receipt_id
  pe_write_id :: write_id
  pe_revision_id :: revision_id
  pe_revision_source :: "event_id option"
  pe_revision_failure :: "string option"
  pe_retired_revisions :: "(revision_id \<times> event_id \<times> event_id option \<times> string option) list"
  pe_signature :: signature_state
  pe_destinations :: "(relay_url, relay_delivery_outcome) btree_map"

record local_write_event =
  lw_id :: event_id
  lw_event :: event_value
  lw_publication :: publication_evidence

definition local_write_event_new ::
  "event_value \<Rightarrow> publication_evidence \<Rightarrow> invalid_event_value + local_write_event" where
  "local_write_event_new v p =
     (case value_id v of
        None \<Rightarrow> Inl MissingId
      | Some i \<Rightarrow> Inr \<lparr>lw_id = i, lw_event = v, lw_publication = p\<rparr>)"

datatype receipt_outcome = Open | Cancelled | Complete | NoDestination

record receipt =
  rc_write_id :: write_id
  rc_receipt_id :: receipt_id
  rc_current :: local_write_event
  rc_routing :: write_routing
  rc_access :: authority
  rc_outcome :: receipt_outcome
  rc_route_revision :: u64
  rc_route_settled :: bool
  rc_route_shortfalls :: "string list"
  rc_desired_destinations :: "relay_url btree_set"
  rc_attempts :: "(relay_url, u32) btree_map"

definition receipt_is_terminal :: "receipt \<Rightarrow> bool" where
  "receipt_is_terminal r = (rc_outcome r \<noteq> Open)"

definition receipt_destinations :: "receipt \<Rightarrow> (relay_url, relay_delivery_outcome) btree_map" where
  "receipt_destinations r = pe_destinations (lw_publication (rc_current r))"

definition update_destinations ::
  "((relay_url, relay_delivery_outcome) btree_map \<Rightarrow> (relay_url, relay_delivery_outcome) btree_map)
     \<Rightarrow> receipt \<Rightarrow> receipt" where
  "update_destinations f r =
     r\<lparr>rc_current := (rc_current r)\<lparr>lw_publication :=
          (lw_publication (rc_current r))\<lparr>pe_destinations := f (receipt_destinations r)\<rparr>\<rparr>\<rparr>"

definition receipt_acknowledged :: "receipt \<Rightarrow> nat" where
  "receipt_acknowledged r =
     length (List.filter (\<lambda>p. case p of Acknowledged _ \<Rightarrow> True | _ \<Rightarrow> False) (bt_values (receipt_destinations r)))"

definition receipt_rejected :: "receipt \<Rightarrow> nat" where
  "receipt_rejected r =
     length (List.filter (\<lambda>p. case p of Rejected _ \<Rightarrow> True | _ \<Rightarrow> False) (bt_values (receipt_destinations r)))"

definition receipt_desires :: "receipt \<Rightarrow> relay_url \<Rightarrow> bool" where
  "receipt_desires r s = (s \<in> set (rc_desired_destinations r))"

lemma receipt_destinations_update [simp]:
  "receipt_destinations (update_destinations f r) = f (receipt_destinations r)"
  by (simp add: receipt_destinations_def update_destinations_def)

lemma update_destinations_frame [simp]:
  "rc_write_id (update_destinations f r) = rc_write_id r"
  "rc_receipt_id (update_destinations f r) = rc_receipt_id r"
  "rc_routing (update_destinations f r) = rc_routing r"
  "rc_access (update_destinations f r) = rc_access r"
  "rc_outcome (update_destinations f r) = rc_outcome r"
  "rc_route_revision (update_destinations f r) = rc_route_revision r"
  "rc_route_settled (update_destinations f r) = rc_route_settled r"
  "rc_route_shortfalls (update_destinations f r) = rc_route_shortfalls r"
  "rc_desired_destinations (update_destinations f r) = rc_desired_destinations r"
  "rc_attempts (update_destinations f r) = rc_attempts r"
  "lw_id (rc_current (update_destinations f r)) = lw_id (rc_current r)"
  "lw_event (rc_current (update_destinations f r)) = lw_event (rc_current r)"
  by (simp_all add: update_destinations_def)

subsection \<open>Properties\<close>

lemma length_keep_first: "length (keep_first [] xs) = card (set xs)"
  using distinct_card [OF distinct_keep_first [of "[]" xs]] by (simp add: set_keep_first)

text \<open>
  \<open>WriteRouting::explicit\<close> accepts exactly the non-empty inputs of at most 1024 relays
  with at most 256 distinct ones, and its value is the input with later duplicates dropped.
\<close>

theorem routing_explicit_iff:
  "routing_explicit relays = Inr r \<longleftrightarrow>
     relays \<noteq> [] \<and> length relays \<le> MAX_RAW_EXPLICIT_RELAYS
     \<and> card (set relays) \<le> MAX_EXPLICIT_RELAYS \<and> r = Explicit (keep_first [] relays)"
proof -
  have "keep_first [] relays = [] \<longleftrightarrow> relays = []"
    using set_keep_first [of "[]" relays] by (cases relays) auto
  then show ?thesis
    by (auto simp: routing_explicit_def refuse_raw_input_def normalize_loop_eq length_keep_first
        split: if_splits)
qed

definition builder_routing_ok :: "'a event_builder_scheme \<Rightarrow> bool" where
  "builder_routing_ok b \<longleftrightarrow> routing_validate (eb_routing b) = Inr ()
     \<and> eb_raw_routing_inputs b \<le> MAX_RAW_EXPLICIT_RELAYS"

text \<open>
  A builder never holds a routing the intent constructors would refuse: whatever relays
  are added, in however many calls, an accepted builder has a normalized routing and its raw
  input counter bounds the relays it holds.
\<close>

theorem builder_to_relays_routing_ok:
  assumes "builder_routing_ok b" "builder_to_relays relays b = Inr b'"
  shows "builder_routing_ok b' \<and> eb_tags b' = eb_tags b \<and> eb_content b' = eb_content b
    \<and> (\<exists>rs. eb_routing b' = Explicit rs \<and> set relays \<subseteq> set rs)"
proof -
  let ?o = "case eb_routing b of Automatic \<Rightarrow> [] | Explicit os \<Rightarrow> os"
  have o: "length ?o \<le> MAX_EXPLICIT_RELAYS"
    using assms(1) by (cases "eb_routing b")
      (auto simp: builder_routing_ok_def routing_validate_Explicit_iff simp del: routing_validate.simps(2))
  from assms(2) obtain r where r: "routing_append (eb_routing b) relays = Inr r"
    "b' = b\<lparr>eb_routing := r, eb_raw_routing_inputs := eb_raw_routing_inputs b + length relays\<rparr>"
    "eb_raw_routing_inputs b + length relays \<le> MAX_RAW_EXPLICIT_RELAYS"
    by (auto simp: builder_to_relays_def refuse_raw_input_def Let_def split: if_splits sum.splits)
  moreover from r(1) o have "r = Explicit (?o @ keep_first (bs_of_list ?o) relays)"
    by (auto simp: routing_append_def Let_def normalize_loop_eq split: if_splits)
  ultimately show ?thesis
    using assms(1) routing_append_validates [OF _ r(1)]
    by (auto simp: builder_routing_ok_def set_keep_first)
qed

text \<open>
  Reopening a built event and building it again gives the same event, id included; the
  size and tag bounds hold of every built event.
\<close>

theorem builder_reopen_roundtrip:
  assumes "builder_build N b = Inr u"
  shows "builder_build N (builder_from_event u) = Inr u \<and> length (ue_tags u) \<le> MAX_TAGS
    \<and> ue_id u \<noteq> None \<and> ue_pubkey u = eb_author b"
  using assms
  by (auto simp: builder_build_def build_event_def builder_from_event_def builder_from_parts_def
      ensure_id_def Let_def split: write_routing.splits if_splits sum.splits)

lemma deserialize_bytes_serialize [simp]: "deserialize_bytes (map (\<lambda>b. SerNumber (unat b)) bs) = Some bs"
proof (induction bs)
  case (Cons b bs)
  have "unat b < 2 ^ LENGTH(8)" by (rule unsigned_less)
  with Cons show ?case by simp
qed simp

text \<open>The fields a map was decoded from: each at most once, and only those of the struct.\<close>

definition fields_seen :: "edit_fields \<Rightarrow> string set" where
  "fields_seen ef = (if ef_kind ef = None then {} else {''kind''}) \<union> (if ef_identifier ef = None then {} else {''identifier''})
     \<union> (if ef_change ef = None then {} else {''change''})"

lemma visit_entry_seen:
  assumes "visit_entry K (key, v) ef = Inr ef'"
  shows "key \<notin> fields_seen ef \<and> fields_seen ef' = insert key (fields_seen ef)"
proof -
  consider "key = ''kind''" | "key = ''identifier''" | "key = ''change''"
    using assms by (cases "key = ''kind'' \<or> key = ''identifier'' \<or> key = ''change''") (blast, simp add: visit_entry_def)
  then show ?thesis
  proof cases
    case 1
    with assms obtain k where "ef_kind ef = None" "ef' = ef\<lparr>ef_kind := Some k\<rparr>"
      by (auto simp: visit_entry_def split: if_splits option.splits)
    with 1 show ?thesis by (auto simp: fields_seen_def)
  next
    case 2
    with assms obtain i where "ef_identifier ef = None" "ef' = ef\<lparr>ef_identifier := Some i\<rparr>"
      by (auto simp: visit_entry_def split: if_splits option.splits)
    with 2 show ?thesis by (auto simp: fields_seen_def)
  next
    case 3
    with assms obtain c where "ef_change ef = None" "ef' = ef\<lparr>ef_change := Some c\<rparr>"
      by (auto simp: visit_entry_def split: if_splits option.splits)
    with 3 show ?thesis by (auto simp: fields_seen_def)
  qed
qed

lemma visit_map_seen:
  "visit_map K entries ef = Inr ef' \<Longrightarrow> distinct (map fst entries) \<and> set (map fst entries) \<inter> fields_seen ef = {}
     \<and> fields_seen ef' = fields_seen ef \<union> set (map fst entries)"
proof (induction entries arbitrary: ef)
  case (Cons entry entries)
  obtain key v where entry: "entry = (key, v)" by (cases entry)
  obtain ef1 where one: "visit_entry K (key, v) ef = Inr ef1" and rest: "visit_map K entries ef1 = Inr ef'"
    using Cons.prems by (auto simp: entry split: sum.splits)
  from visit_entry_seen [OF one] Cons.IH [OF rest] show ?case by (auto simp: entry)
qed simp

lemma collect_fields_seen: "collect_fields ef = Inr e \<Longrightarrow> fields_seen ef = {''kind'', ''identifier'', ''change''}"
  by (auto simp: collect_fields_def fields_seen_def split: option.splits)

text \<open>
  (C17) What the constructor accepted is decoded back from its encoding. A map is decoded only if it has
  the three fields of the struct, each once and in any order, and no other: a missing identifier is
  not taken for an absent one. Whatever is decoded is an edit the constructor accepts, so the bound
  and the coordinate rule hold for it.
\<close>

theorem event_edit_roundtrip:
  assumes "\<And>k. ks_deserialize K (ks_serialize K k) = Some k"
  shows "(event_edit_new N k ident change = Inr e \<longrightarrow> event_edit_deserialize N K (event_edit_serialize K e) = Inr e)
    \<and> (event_edit_deserialize N K (SerMap entries) = Inr e \<longrightarrow>
         distinct (map fst entries) \<and> set (map fst entries) = {''kind'', ''identifier'', ''change''})
    \<and> (event_edit_deserialize N K v = Inr e \<longrightarrow>
         event_edit_new N (ed_kind e) (ed_identifier e) (ed_change e) = Inr e \<and> length (ed_change e) \<le> MAX_EVENT_BYTES
         \<and> (if ed_identifier e = None then kind_is_replaceable N (ed_kind e) else kind_addressable N (ed_kind e)))"
proof (intro conjI impI)
  assume new: "event_edit_new N k ident change = Inr e"
  then have e: "e = \<lparr>ed_kind = k, ed_identifier = ident, ed_change = change\<rparr>"
    by (auto simp: event_edit_new_def split: sum.splits)
  then have "encoded_edit_deserialize K (event_edit_serialize K e) = Inr \<lparr>ee_kind = k, ee_identifier = ident, ee_change = change\<rparr>"
    by (cases ident) (simp_all add: event_edit_serialize_def visit_entry_def collect_fields_def assms)
  with new show "event_edit_deserialize N K (event_edit_serialize K e) = Inr e" by (simp add: event_edit_deserialize_def)
next
  assume "event_edit_deserialize N K (SerMap entries) = Inr e"
  then obtain ef x where "visit_map K entries \<lparr>ef_kind = None, ef_identifier = None, ef_change = None\<rparr> = Inr ef" "collect_fields ef = Inr x"
    by (auto simp: event_edit_deserialize_def split: sum.splits)
  from visit_map_seen [OF this(1)] collect_fields_seen [OF this(2)]
  show "distinct (map fst entries)" "set (map fst entries) = {''kind'', ''identifier'', ''change''}" by (simp_all add: fields_seen_def)
next
  assume "event_edit_deserialize N K v = Inr e"
  then obtain k i c where new: "event_edit_new N k i c = Inr e"
    by (auto simp: event_edit_deserialize_def split: sum.splits)
  then show "event_edit_new N (ed_kind e) (ed_identifier e) (ed_change e) = Inr e" "length (ed_change e) \<le> MAX_EVENT_BYTES"
    "if ed_identifier e = None then kind_is_replaceable N (ed_kind e) else kind_addressable N (ed_kind e)"
    by (auto simp: event_edit_new_def validate_coordinate_def validate_bytes_def split: option.splits if_splits)
qed

text \<open>
  Construction and acceptance agree: an event the builder built, with the routing the
  builder carried, is refused by the intent constructor only because it is due to expire,
  given that the library verifies the ids it computed.
\<close>

theorem built_event_accepted:
  assumes "into_event_and_routing N b = Inr (u, r)" "builder_routing_ok b"
    and "\<And>v. ue_id v = None \<Longrightarrow> unsigned_verify_id N (ensure_id N v) = Inr ()"
  shows "intent_event N now u r =
    (if is_due (tags_expiration N (ue_tags u)) now then Inl IntentExpired
     else Inr \<lparr>wi_payload = PayloadEvent u, wi_routing = eb_routing b, wi_access = Unauthenticated\<rparr>)"
proof -
  let ?v = "\<lparr>ue_id = None, ue_pubkey = eb_author b, ue_created_at = eb_created_at b,
    ue_kind = eb_kind b, ue_tags = eb_tags b, ue_content = eb_content b\<rparr>"
  from assms(1) obtain bytes where u: "u = ensure_id N ?v" "r = eb_routing b"
    "unsigned_json_len N u = Inr bytes" "bytes \<le> MAX_EVENT_BYTES"
    by (auto simp: into_event_and_routing_def build_event_def Let_def split: if_splits sum.splits)
  have "unsigned_verify_id N u = Inr ()" unfolding u(1) by (rule assms(3)) simp
  moreover have "ensure_id N u = u" unfolding u(1) by (simp add: ensure_id_def)
  ultimately show ?thesis
    using u(2-4) assms(2) by (simp add: intent_event_def validate_event_size_def builder_routing_ok_def)
qed

definition sample_builder :: authored_event_builder where
  "sample_builder = builder_by 7 (builder_content ''gm'' (builder_new 10 1))"

definition sample_built :: unsigned_event where
  "sample_built = \<lparr>ue_id = Some 110, ue_pubkey = 7, ue_created_at = 10, ue_kind = 1,
     ue_tags = [], ue_content = ''gm''\<rparr>"

lemma sample_builder_ok: "builder_routing_ok sample_builder"
  by (simp add: sample_builder_def builder_routing_ok_def builder_by_def builder_content_def builder_new_def)

lemma sample_builder_build:
  "build_event sample_lib sample_builder = Inr sample_built \<and> eb_routing sample_builder = Automatic"
  by (simp add: sample_builder_def sample_built_def build_event_def builder_by_def builder_content_def
      builder_new_def MAX_TAGS_def MAX_EVENT_BYTES_def ensure_id_def sample_lib_def)

theorem builder_to_relays_routing_ok_witness:
  "builder_to_relays [''wss://a'', ''wss://a''] sample_builder
     = Inr (sample_builder\<lparr>eb_routing := Explicit [''wss://a''], eb_raw_routing_inputs := 2\<rparr>)
   \<and> builder_routing_ok (sample_builder\<lparr>eb_routing := Explicit [''wss://a''], eb_raw_routing_inputs := 2\<rparr>)"
proof -
  have "builder_to_relays [''wss://a'', ''wss://a''] sample_builder
     = Inr (sample_builder\<lparr>eb_routing := Explicit [''wss://a''], eb_raw_routing_inputs := 2\<rparr>)"
    by (simp add: builder_to_relays_def sample_builder_def builder_by_def builder_content_def builder_new_def
        refuse_raw_input_def routing_append_def MAX_RAW_EXPLICIT_RELAYS_def MAX_EXPLICIT_RELAYS_def
        bs_of_list_def)
  with builder_to_relays_routing_ok [OF sample_builder_ok this] show ?thesis by blast
qed

theorem builder_reopen_roundtrip_witness:
  "builder_build sample_lib sample_builder = Inr sample_built
   \<and> builder_build sample_lib (builder_from_event sample_built) = Inr sample_built"
proof -
  have "builder_build sample_lib sample_builder = Inr sample_built"
    using sample_builder_build by (simp add: builder_build_def)
  with builder_reopen_roundtrip [OF this] show ?thesis by blast
qed

definition number_kind :: kind_serde where
  "number_kind = \<lparr>ks_serialize = (\<lambda>k. SerNumber (unat k)),
     ks_deserialize = (\<lambda>v. case v of SerNumber n \<Rightarrow> if n < 65536 then Some (of_nat n) else None | _ \<Rightarrow> None)\<rparr>"

lemma number_kind_law: "ks_deserialize number_kind (ks_serialize number_kind k) = Some k"
proof -
  have "unat k < 2 ^ LENGTH(16)" by (rule unsigned_less)
  then show ?thesis by (simp add: number_kind_def)
qed

text \<open>An edit, its decoding from another order of the fields, and the refusal of a map without the identifier.\<close>

theorem event_edit_roundtrip_witness:
  "event_edit_deserialize sample_lib number_kind
     (event_edit_serialize number_kind \<lparr>ed_kind = 10002, ed_identifier = None, ed_change = [1, 2]\<rparr>)
     = Inr \<lparr>ed_kind = 10002, ed_identifier = None, ed_change = [1, 2]\<rparr>
   \<and> event_edit_deserialize sample_lib number_kind
       (SerMap [(''change'', SerSeq [SerNumber 1, SerNumber 2]), (''identifier'', SerNull), (''kind'', SerNumber 10002)])
     = Inr \<lparr>ed_kind = 10002, ed_identifier = None, ed_change = [1, 2]\<rparr>
   \<and> (\<forall>e. event_edit_deserialize sample_lib number_kind (SerMap [(''kind'', SerNumber 10002), (''change'', SerSeq [])]) \<noteq> Inr e)"
proof -
  let ?e = "\<lparr>ed_kind = 10002, ed_identifier = None, ed_change = [1, 2]\<rparr>" and ?m = "[(''kind'', SerNumber 10002), (''change'', SerSeq [])]"
  note law = event_edit_roundtrip [of number_kind sample_lib 10002 None "[1, 2]", OF number_kind_law]
  have "event_edit_new sample_lib 10002 None [1, 2] = Inr ?e"
    by (simp add: event_edit_new_def validate_coordinate_def validate_bytes_def MAX_EVENT_BYTES_def sample_lib_def)
  with law have "event_edit_deserialize sample_lib number_kind (event_edit_serialize number_kind ?e) = Inr ?e" by (rule mp [OF conjunct1])
  moreover have "event_edit_deserialize sample_lib number_kind
      (SerMap [(''change'', SerSeq [SerNumber 1, SerNumber 2]), (''identifier'', SerNull), (''kind'', SerNumber 10002)]) = Inr ?e"
    by (simp add: event_edit_deserialize_def visit_entry_def collect_fields_def number_kind_def event_edit_new_def
        validate_coordinate_def validate_bytes_def MAX_EVENT_BYTES_def sample_lib_def)
  moreover have "event_edit_deserialize sample_lib number_kind (SerMap ?m) \<noteq> Inr e" for e
  proof
    assume "event_edit_deserialize sample_lib number_kind (SerMap ?m) = Inr e"
    then have "distinct (map fst ?m) \<and> set (map fst ?m) = {''kind'', ''identifier'', ''change''}" by (rule mp [OF conjunct1 [OF conjunct2 [OF law]]])
    then have "card (set (map fst ?m)) = card {''kind'', ''identifier'', ''change''}" by simp
    then show False by simp
  qed
  ultimately show ?thesis by (intro conjI allI)
qed

theorem built_event_accepted_witness:
  "intent_event sample_lib 20 sample_built Automatic
   = Inr \<lparr>wi_payload = PayloadEvent sample_built, wi_routing = Automatic, wi_access = Unauthenticated\<rparr>"
proof -
  have "into_event_and_routing sample_lib sample_builder = Inr (sample_built, Automatic)"
    using sample_builder_build by (simp add: into_event_and_routing_def)
  from built_event_accepted [OF this sample_builder_ok, of 20] show ?thesis
    using sample_builder_build by (simp add: sample_lib_def is_due_def)
qed

end
