(* ===== verification/Query.thy ===== *)
theory Query
  imports Write_Values
begin

section \<open>Queries, sources and snapshots (\<open>fava-query\<close>)\<close>

text \<open>
  \<open>crates/fava-query/src\<close>: the declarative query and its builder operations
  (\<open>lib.rs\<close>, \<open>selection.rs\<close>), the identities minted for observations and rounds
  (\<open>identity.rs\<close>), source snapshots, event records, and the evidence a snapshot carries
  (\<open>evidence.rs\<close>).
\<close>

subsection \<open>Query values\<close>

datatype query_acquisition = AcqAutomatic | AcqExplicit "relay_url btree_set"

datatype result_authority = AnyLocal | OnlyRelays "relay_url btree_set"

record query_source_policy =
  sp_acquisition :: query_acquisition
  sp_authority :: result_authority

text \<open>A \<open>Duration\<close> is counted in nanoseconds.\<close>

datatype freshness = CacheOnly | MaxAge nat | Live

datatype query_ordering = NewestFirst | OldestFirst

datatype query_error = QEmptyExplicitRelays | ZeroLimit

record filter_selection =
  sel_ids :: "event_id btree_set option"
  sel_authors :: "public_key btree_set option"
  sel_authors_current_account :: bool
  sel_kinds :: "kind btree_set option"
  sel_tag_values :: "(single_letter_tag, string btree_set) btree_map"
  sel_tag_values_current_account :: "single_letter_tag btree_set"

record query =
  q_selection :: filter_selection
  q_source :: query_source_policy
  q_access :: authority
  q_freshness :: freshness
  q_ordering :: query_ordering
  q_limit :: "nat option"

definition source_policy_default :: query_source_policy where
  "source_policy_default = \<lparr>sp_acquisition = AcqAutomatic, sp_authority = AnyLocal\<rparr>"

definition selection_default :: filter_selection where
  "selection_default = \<lparr>sel_ids = None, sel_authors = None, sel_authors_current_account = False,
     sel_kinds = None, sel_tag_values = [], sel_tag_values_current_account = []\<rparr>"

definition query_events :: query where
  "query_events = \<lparr>q_selection = selection_default, q_source = source_policy_default,
     q_access = Unauthenticated, q_freshness = Live, q_ordering = NewestFirst, q_limit = None\<rparr>"

definition with_relay_access :: "authority \<Rightarrow> query \<Rightarrow> query" where
  "with_relay_access a q = q\<lparr>q_access := a\<rparr>"

definition non_empty_relays :: "relay_url list \<Rightarrow> query_error + relay_url btree_set" where
  "non_empty_relays relays =
     (let s = bs_of_list relays in if s = [] then Inl QEmptyExplicitRelays else Inr s)"

definition from_relays :: "relay_url list \<Rightarrow> query \<Rightarrow> query_error + query" where
  "from_relays relays q =
     (case non_empty_relays relays of
        Inl e \<Rightarrow> Inl e
      | Inr rs \<Rightarrow> Inr (q\<lparr>q_source := \<lparr>sp_acquisition = AcqExplicit rs, sp_authority = AnyLocal\<rparr>\<rparr>))"

definition only_from_relays :: "relay_url list \<Rightarrow> query \<Rightarrow> query_error + query" where
  "only_from_relays relays q =
     (case non_empty_relays relays of
        Inl e \<Rightarrow> Inl e
      | Inr rs \<Rightarrow> Inr (q\<lparr>q_source := \<lparr>sp_acquisition = AcqExplicit rs, sp_authority = OnlyRelays rs\<rparr>\<rparr>))"

definition cache_only :: "query \<Rightarrow> query" where
  "cache_only q = q\<lparr>q_freshness := CacheOnly\<rparr>"

definition max_age :: "nat \<Rightarrow> query \<Rightarrow> query" where
  "max_age d q = q\<lparr>q_freshness := MaxAge d\<rparr>"

definition query_limit :: "nat \<Rightarrow> query \<Rightarrow> query_error + query" where
  "query_limit n q = (if n = 0 then Inl ZeroLimit else Inr (q\<lparr>q_limit := Some n\<rparr>))"

definition oldest_first :: "query \<Rightarrow> query" where
  "oldest_first q = q\<lparr>q_ordering := OldestFirst\<rparr>"

subsection \<open>Selection\<close>

definition query_authors :: "public_key list \<Rightarrow> query \<Rightarrow> query_error + query" where
  "query_authors as q = Inr (q\<lparr>q_selection := (q_selection q)\<lparr>sel_authors := Some (bs_of_list as)\<rparr>\<rparr>)"

definition authors_current_account :: "query \<Rightarrow> query" where
  "authors_current_account q =
     q\<lparr>q_selection := (q_selection q)\<lparr>sel_authors_current_account := True\<rparr>\<rparr>"

definition query_kinds :: "kind list \<Rightarrow> query \<Rightarrow> query_error + query" where
  "query_kinds ks q = Inr (q\<lparr>q_selection := (q_selection q)\<lparr>sel_kinds := Some (bs_of_list ks)\<rparr>\<rparr>)"

definition query_ids :: "event_id list \<Rightarrow> query \<Rightarrow> query_error + query" where
  "query_ids is q = Inr (q\<lparr>q_selection := (q_selection q)\<lparr>sel_ids := Some (bs_of_list is)\<rparr>\<rparr>)"

definition query_tag_values :: "single_letter_tag \<Rightarrow> string list \<Rightarrow> query \<Rightarrow> query_error + query" where
  "query_tag_values key vs q =
     (let sel = q_selection q;
          old = (case bt_get (sel_tag_values sel) key of Some s \<Rightarrow> s | None \<Rightarrow> [])
      in Inr (q\<lparr>q_selection := sel\<lparr>sel_tag_values :=
                 bt_insert key (fold bs_insert vs old) (sel_tag_values sel)\<rparr>\<rparr>))"

definition tag_value_current_account :: "single_letter_tag \<Rightarrow> query \<Rightarrow> query" where
  "tag_value_current_account key q =
     (let sel = q_selection q in
      q\<lparr>q_selection := sel\<lparr>sel_tag_values_current_account :=
          bs_insert key (sel_tag_values_current_account sel)\<rparr>\<rparr>)"

text \<open>The step shared by \<open>intersect_tag_values\<close> and by the binding of tag axes.\<close>

definition narrow_tag_axis :: "single_letter_tag \<Rightarrow> string btree_set
    \<Rightarrow> (single_letter_tag, string btree_set) btree_map \<Rightarrow> (single_letter_tag, string btree_set) btree_map" where
  "narrow_tag_axis key supplied m =
     (case bt_get m key of
        Some existing \<Rightarrow> bt_insert key (List.filter (\<lambda>v. v \<in> set supplied) existing) m
      | None \<Rightarrow> bt_insert key supplied m)"

definition intersect_tag_values :: "single_letter_tag \<Rightarrow> string list \<Rightarrow> query \<Rightarrow> query_error + query" where
  "intersect_tag_values key vs q =
     (let sel = q_selection q in
      Inr (q\<lparr>q_selection := sel\<lparr>sel_tag_values :=
             narrow_tag_axis key (bs_of_list vs) (sel_tag_values sel)\<rparr>\<rparr>))"

definition depends_on_current_account :: "query \<Rightarrow> bool" where
  "depends_on_current_account q =
     (sel_authors_current_account (q_selection q) \<or> sel_tag_values_current_account (q_selection q) \<noteq> [])"

definition bind_authors :: "public_key option \<Rightarrow> filter_selection \<Rightarrow> filter_selection" where
  "bind_authors current sel =
     (if sel_authors_current_account sel
      then let supplied = (case current of Some k \<Rightarrow> [k] | None \<Rightarrow> []) in
        sel\<lparr>sel_authors := Some (case sel_authors sel of
                                   Some existing \<Rightarrow> List.filter (\<lambda>v. v \<in> set supplied) existing
                                 | None \<Rightarrow> supplied),
            sel_authors_current_account := False\<rparr>
      else sel)"

definition bind_current_account :: "nostr_lib \<Rightarrow> public_key option \<Rightarrow> query \<Rightarrow> query" where
  "bind_current_account N current q =
     (let sel = bind_authors current (q_selection q);
          keys = sel_tag_values_current_account sel;
          supplied = (case current of Some k \<Rightarrow> [public_key_to_hex N k] | None \<Rightarrow> [])
      in q\<lparr>q_selection := sel\<lparr>sel_tag_values_current_account := [],
             sel_tag_values := fold (\<lambda>key. narrow_tag_axis key supplied) keys (sel_tag_values sel)\<rparr>\<rparr>)"

definition matches_nothing :: "query \<Rightarrow> bool" where
  "matches_nothing q =
     (depends_on_current_account q
      \<or> sel_ids (q_selection q) = Some []
      \<or> sel_authors (q_selection q) = Some []
      \<or> sel_kinds (q_selection q) = Some []
      \<or> (\<exists>vs\<in>set (bt_values (sel_tag_values (q_selection q))). vs = []))"

lemma bt_get_narrow_tag_axis:
  "bt_get (narrow_tag_axis key supplied m) k =
     (if k = key then Some (case bt_get m key of
                              Some e \<Rightarrow> List.filter (\<lambda>v. v \<in> set supplied) e | None \<Rightarrow> supplied)
      else bt_get m k)"
  by (simp add: narrow_tag_axis_def split: option.splits)

lemma bt_wf_narrow_tag_axis: "bt_wf m \<Longrightarrow> bt_wf (narrow_tag_axis key supplied m)"
  by (simp add: narrow_tag_axis_def bt_wf_insert split: option.splits)

lemma bt_wf_fold_narrow: "bt_wf m \<Longrightarrow> bt_wf (fold (\<lambda>key. narrow_tag_axis key supplied) keys m)"
  by (induction keys arbitrary: m) (auto intro: bt_wf_narrow_tag_axis)

lemma bt_get_fold_narrow:
  "bt_get (fold (\<lambda>key. narrow_tag_axis key supplied) keys m) k =
     (if k \<in> set keys then Some (case bt_get m k of
                                  Some e \<Rightarrow> List.filter (\<lambda>v. v \<in> set supplied) e | None \<Rightarrow> supplied)
      else bt_get m k)"
  by (induction keys arbitrary: m) (auto simp: bt_get_narrow_tag_axis split: option.splits)

subsection \<open>Identities\<close>

text \<open>
  \<open>ObservationIds\<close> and \<open>RoundIssuer\<close>: the atomic counters are the state threaded through;
  the counter of \<open>RoundIssuer::new\<close> is the process-wide one.
\<close>

type_synonym observation_id = u64
type_synonym query_branch_id = u32

definition observation_ids_allocate :: "u64 \<Rightarrow> observation_id option \<times> u64" where
  "observation_ids_allocate next =
     (case checked_add_u64 next 1 of
        None \<Rightarrow> (None, next)
      | Some next' \<Rightarrow> (Option.bind (checked_add_u64 next 1) nonzero_u64, next'))"

record round =
  rd_authority :: u64
  rd_sequence :: u64

record round_issuer =
  ri_authority :: u64
  ri_next :: "u64 option"

datatype rounds_exhausted = Authorities | Sequence

definition round_issuer_new :: "u64 \<Rightarrow> (rounds_exhausted + round_issuer) \<times> u64" where
  "round_issuer_new counter =
     (case checked_add_u64 counter 1 of
        None \<Rightarrow> (Inl Authorities, counter)
      | Some counter' \<Rightarrow>
          (case Option.bind (checked_add_u64 counter 1) nonzero_u64 of
             None \<Rightarrow> (Inl Authorities, counter')
           | Some a \<Rightarrow> (Inr \<lparr>ri_authority = a, ri_next = nonzero_u64 1\<rparr>, counter')))"

definition round_allocate :: "round_issuer \<Rightarrow> (rounds_exhausted + round) \<times> round_issuer" where
  "round_allocate ri =
     (case ri_next ri of
        None \<Rightarrow> (Inl Sequence, ri)
      | Some n \<Rightarrow> (Inr \<lparr>rd_authority = ri_authority ri, rd_sequence = n\<rparr>,
                   ri\<lparr>ri_next := Option.bind (checked_add_u64 n 1) nonzero_u64\<rparr>))"

text \<open>The rounds a sequence of calls mints.\<close>

fun round_allocations :: "nat \<Rightarrow> round_issuer \<Rightarrow> round list" where
  "round_allocations 0 ri = []"
| "round_allocations (Suc n) ri =
     (case round_allocate ri of
        (Inl _, ri') \<Rightarrow> round_allocations n ri'
      | (Inr r, ri') \<Rightarrow> r # round_allocations n ri')"

lemma checked_next_nonzero:
  "Option.bind (checked_add_u64 n 1) nonzero_u64 = Some m \<Longrightarrow> n < m \<and> m \<noteq> 0"
  by (auto simp: bind_eq_Some_conv nonzero_u64_def dest: checked_add_u64_one_greater split: if_splits)

lemma round_allocations_later:
  "r \<in> set (round_allocations n ri) \<Longrightarrow>
     \<exists>m. ri_next ri = Some m \<and> m \<le> rd_sequence r \<and> rd_authority r = ri_authority ri"
proof (induction n arbitrary: ri)
  case 0
  then show ?case by simp
next
  case (Suc n)
  show ?case
  proof (cases "ri_next ri")
    case None
    with Suc.prems have "r \<in> set (round_allocations n ri)" by (simp add: round_allocate_def)
    with Suc.IH None show ?thesis by fastforce
  next
    case (Some m)
    let ?ri = "ri\<lparr>ri_next := Option.bind (checked_add_u64 m 1) nonzero_u64\<rparr>"
    from Suc.prems Some consider "r = \<lparr>rd_authority = ri_authority ri, rd_sequence = m\<rparr>"
      | "r \<in> set (round_allocations n ?ri)"
      by (auto simp: round_allocate_def)
    then show ?thesis
    proof cases
      case 1
      with Some show ?thesis by simp
    next
      case 2
      from Suc.IH [OF this] obtain m' where "ri_next ?ri = Some m'" "m' \<le> rd_sequence r"
        "rd_authority r = ri_authority ri" by auto
      with Some checked_next_nonzero [of m m'] show ?thesis by auto
    qed
  qed
qed

subsection \<open>Sources, records and snapshots\<close>

datatype source_kind = EventCache | WriteStore | LiveRelay relay_url

datatype source_termination_cause =
    LocalClose
  | ProviderClosed
  | ProviderFailed bounded_text
  | Shutdown

datatype source_status = SourceOpen | SourceClosed source_termination_cause

record source_retraction =
  sr_event_id :: event_id
  sr_cause :: retraction_cause

definition is_protocol_rule :: "source_retraction \<Rightarrow> bool" where
  "is_protocol_rule r = (sr_cause r \<noteq> Evicted)"

datatype source_event = RelayContribution relay_event | LocalContribution local_write_event

record source_snapshot =
  ss_kind :: source_kind
  ss_revision :: u64
  ss_status :: source_status
  ss_events :: "source_event list"
  ss_retractions :: "source_retraction list"

definition source_snapshot_empty :: "source_kind \<Rightarrow> source_snapshot" where
  "source_snapshot_empty k =
     \<lparr>ss_kind = k, ss_revision = 0, ss_status = SourceOpen, ss_events = [], ss_retractions = []\<rparr>"

definition source_snapshot_current :: "source_kind \<Rightarrow> u64 \<Rightarrow> source_event list \<Rightarrow> source_snapshot" where
  "source_snapshot_current k r es =
     \<lparr>ss_kind = k, ss_revision = r, ss_status = SourceOpen, ss_events = es, ss_retractions = []\<rparr>"

record source_coverage =
  sc_session :: relay_url
  sc_filter :: filter
  sc_completed_at :: timestamp

record event_record =
  er_id :: event_id
  er_event :: event_value
  er_relay_occurrences :: relay_occurrences
  er_publication :: "publication_evidence option"

datatype query_evaluation_error =
    MissingEventId
  | RelayOccurrenceEventMismatch event_id event_id
  | EvaluatorRefused bounded_text

definition event_record_new :: "event_value \<Rightarrow> relay_occurrences \<Rightarrow> publication_evidence option
    \<Rightarrow> query_evaluation_error + event_record" where
  "event_record_new v ros p =
     (case value_id v of
        None \<Rightarrow> Inl MissingEventId
      | Some i \<Rightarrow>
          if i \<noteq> ros_event_id ros then Inl (RelayOccurrenceEventMismatch i (ros_event_id ros))
          else Inr \<lparr>er_id = i, er_event = v, er_relay_occurrences = ros, er_publication = p\<rparr>)"

definition er_created_at :: "event_record \<Rightarrow> timestamp" where
  "er_created_at r = value_created_at (er_event r)"

record source_evidence =
  se_kind :: source_kind
  se_revision :: u64
  se_status :: source_status
  se_retractions :: "source_retraction list"

definition source_evidence_of :: "source_snapshot \<Rightarrow> source_evidence" where
  "source_evidence_of s = \<lparr>se_kind = ss_kind s, se_revision = ss_revision s,
     se_status = ss_status s, se_retractions = ss_retractions s\<rparr>"

definition evidence_retraction :: "source_evidence \<Rightarrow> event_id \<Rightarrow> retraction_cause option" where
  "evidence_retraction se i =
     map_option sr_cause (List.find (\<lambda>r. sr_event_id r = i) (se_retractions se))"

text \<open>
  The evidence a snapshot carries. The evaluator fills the source part; the relay, plan and
  shortfall parts stay empty until the observation owner writes them.
\<close>

datatype relay_deadline = Establish | WriteDeadline | IdleDeadline | CloseDeadline

datatype relay_withdrawal = RouteWithdrawn | ObservationClosed | EngineShutdown

datatype route_origin = RouteExplicit | RouteAutomatic u64

datatype relay_source_state =
    Planned
  | StateConnecting
  | StateOpen timestamp
  | StoredEventsComplete timestamp
  | StateRefused bounded_text timestamp
  | AuthenticationRequired progress timestamp
  | TimedOut relay_deadline u64
  | StateDisconnected bounded_text
  | Unreachable nat bounded_text
  | OwnerRefused bounded_text
  | Withdrawn relay_withdrawal

record relay_shortfall =
  rs_branches :: "query_branch_id list"
  rs_detail :: bounded_text

record relay_query_evidence =
  rqe_session :: relay_url
  rqe_generation :: "round option"
  rqe_plan_revision :: u64
  rqe_branches :: "query_branch_id list"
  rqe_state :: relay_source_state
  rqe_shared_with :: "observation_id list"
  rqe_shortfall :: "relay_shortfall option"
  rqe_route :: route_origin

record desired_plan_evidence =
  dpe_revision :: u64
  dpe_relays :: "relay_url list"
  dpe_installed :: nat

datatype query_shortfall =
    CoalescedUpdates u64
  | ResultLimitApplied nat
  | LiveRetentionLimit relay_url nat u64
  | SourceUnavailable source_kind bounded_text

record query_evidence =
  qe_sources :: "source_evidence list"
  qe_relays :: "relay_query_evidence list"
  qe_plan :: "desired_plan_evidence option"
  qe_shortfalls :: "query_shortfall list"

definition stored_events_complete :: "relay_query_evidence \<Rightarrow> bool" where
  "stored_events_complete e = (case rqe_state e of StoredEventsComplete _ \<Rightarrow> True | _ \<Rightarrow> False)"

definition relay_is_live :: "relay_query_evidence \<Rightarrow> bool" where
  "relay_is_live e =
     (case rqe_state e of StateOpen _ \<Rightarrow> True | StoredEventsComplete _ \<Rightarrow> True | _ \<Rightarrow> False)"

definition evidence_relay :: "query_evidence \<Rightarrow> relay_url \<Rightarrow> relay_query_evidence option" where
  "evidence_relay e s = List.find (\<lambda>x. rqe_session x = s) (qe_relays e)"

definition evidence_source :: "query_evidence \<Rightarrow> source_kind \<Rightarrow> source_evidence option" where
  "evidence_source e k = List.find (\<lambda>x. se_kind x = k) (qe_sources e)"

definition all_relays_stored_events_complete :: "query_evidence \<Rightarrow> bool" where
  "all_relays_stored_events_complete e =
     (qe_relays e \<noteq> [] \<and> (\<forall>x\<in>set (qe_relays e). stored_events_complete x))"

record query_snapshot =
  qs_revision :: u64
  qs_events :: "event_record list"
  qs_evidence :: query_evidence

definition snapshot_evaluated :: "event_record list \<Rightarrow> source_snapshot list \<Rightarrow> query_snapshot" where
  "snapshot_evaluated es sources =
     \<lparr>qs_revision = 0, qs_events = es,
      qs_evidence = \<lparr>qe_sources = map source_evidence_of sources, qe_relays = [], qe_plan = None,
                     qe_shortfalls = []\<rparr>\<rparr>"

subsection \<open>Properties\<close>

text \<open>
  (C18) Binding the current account changes only the reactive axes, and each of them exactly. Afterwards
  no axis is reactive. A reactive author axis admits the current account, if the authors named beside
  it do, and no one else; a reactive tag axis admits the account's key in the same way; without an
  account both admit nothing, and the query matches nothing. Ids, kinds, every other axis and the rest
  of the query are as they were.
\<close>

theorem bind_current_account_narrows:
  "let q' = bind_current_account N current q; sel = q_selection q; sel' = q_selection q' in
    \<not> depends_on_current_account q'
    \<and> (depends_on_current_account q \<longrightarrow> current = None \<longrightarrow> matches_nothing q')
    \<and> q' = q\<lparr>q_selection := sel'\<rparr> \<and> sel_ids sel' = sel_ids sel \<and> sel_kinds sel' = sel_kinds sel
    \<and> (if sel_authors_current_account sel
        then \<exists>bs. sel_authors sel' = Some bs
          \<and> set bs = set_option current \<inter> (case sel_authors sel of None \<Rightarrow> UNIV | Some as \<Rightarrow> set as)
        else sel_authors sel' = sel_authors sel)
    \<and> (\<forall>k. if k \<in> set (sel_tag_values_current_account sel)
        then \<exists>ws. bt_get (sel_tag_values sel') k = Some ws
          \<and> set ws = public_key_to_hex N ` set_option current \<inter> (case bt_get (sel_tag_values sel) k of None \<Rightarrow> UNIV | Some vs \<Rightarrow> set vs)
        else bt_get (sel_tag_values sel') k = bt_get (sel_tag_values sel) k)"
proof -
  let ?q = "bind_current_account N current q"
  have tags: "\<exists>vs\<in>set (bt_values m). vs = []" if "bt_get m k = Some []" for m and k :: single_letter_tag
    using that by (force dest: bt_get_SomeD simp: bt_values_def)
  have "matches_nothing ?q" if dep: "depends_on_current_account q" and [simp]: "current = None"
  proof (cases "sel_authors_current_account (q_selection q)")
    case True
    then show ?thesis
      by (auto simp: bind_current_account_def bind_authors_def matches_nothing_def Let_def
          split: option.splits)
  next
    case False
    with dep obtain k where "k \<in> set (sel_tag_values_current_account (q_selection q))"
      by (metis depends_on_current_account_def list.set_intros(1) neq_Nil_conv)
    with False have "bt_get (sel_tag_values (q_selection ?q)) k = Some []"
      by (auto simp: bind_current_account_def bind_authors_def Let_def bt_get_fold_narrow
          split: option.splits)
    from tags [OF this] show ?thesis by (auto simp: matches_nothing_def)
  qed
  then show ?thesis
    unfolding Let_def
    by (auto simp: bind_current_account_def bind_authors_def depends_on_current_account_def
        Let_def bt_get_fold_narrow split: option.splits)
qed

lemma round_allocations_distinct: "distinct (round_allocations n ri)"
proof (induction n arbitrary: ri)
  case 0
  show ?case by simp
next
  case (Suc n)
  show ?case
  proof (cases "ri_next ri")
    case None
    with Suc show ?thesis by (simp add: round_allocate_def)
  next
    case (Some m)
    let ?ri = "ri\<lparr>ri_next := Option.bind (checked_add_u64 m 1) nonzero_u64\<rparr>"
    have "\<lparr>rd_authority = ri_authority ri, rd_sequence = m\<rparr> \<notin> set (round_allocations n ?ri)"
      using round_allocations_later [of _ n ?ri] checked_next_nonzero [of m] by fastforce
    with Suc Some show ?thesis by (simp add: round_allocate_def)
  qed
qed

lemma round_issuer_new_Inr:
  assumes "round_issuer_new c = (Inr ri, c')"
  shows "ri_authority ri = c' \<and> c < c' \<and> ri_next ri = Some 1"
  using assms checked_add_u64_one_greater [of c]
  by (auto simp: round_issuer_new_def nonzero_u64_def split: option.splits if_splits)

text \<open>
  A round is minted once: the rounds of one issuer are pairwise distinct however many are
  requested, and two issuers created from the process-wide counter, in either order of time,
  never mint a common round.
\<close>

theorem rounds_unique:
  assumes "round_issuer_new c = (Inr first, c1)" "c1 \<le> c2" "round_issuer_new c2 = (Inr second, c3)"
  shows "distinct (round_allocations n first @ round_allocations m second)"
proof -
  have "ri_authority first < ri_authority second"
    using round_issuer_new_Inr [OF assms(1)] round_issuer_new_Inr [OF assms(3)] assms(2) by auto
  then have "set (round_allocations n first) \<inter> set (round_allocations m second) = {}"
    by (metis disjoint_iff less_irrefl round_allocations_later)
  then show ?thesis by (simp add: round_allocations_distinct)
qed

theorem bind_current_account_narrows_witness:
  "depends_on_current_account (authors_current_account query_events)
   \<and> matches_nothing (bind_current_account sample_lib None (authors_current_account query_events))"
proof -
  have "depends_on_current_account (authors_current_account query_events)"
    by (simp add: depends_on_current_account_def authors_current_account_def query_events_def)
  with bind_current_account_narrows [of sample_lib None "authors_current_account query_events"]
  show ?thesis unfolding Let_def by blast
qed

theorem rounds_unique_witness:
  "distinct (round_allocations 2 \<lparr>ri_authority = 1, ri_next = Some 1\<rparr>
     @ round_allocations 2 \<lparr>ri_authority = 2, ri_next = Some 1\<rparr>)"
proof -
  have "round_issuer_new 0 = (Inr \<lparr>ri_authority = 1, ri_next = Some 1\<rparr>, 1)"
    "round_issuer_new 1 = (Inr \<lparr>ri_authority = 2, ri_next = Some 1\<rparr>, 2)" by code_simp+
  from rounds_unique [OF this(1) _ this(2)] show ?thesis by simp
qed

end
