(* ===== verification/Query_Standard.thy ===== *)
theory Query_Standard
  imports Query
begin

section \<open>The standard query evaluator (\<open>fava-query-standard\<close>)\<close>

text \<open>
  \<open>crates/fava-query-standard/src/lib.rs\<close>: the full re-evaluation that merges every source
  contribution by event id, keeps the newest record of every coordinate, orders the result
  and applies the bound.
\<close>

record candidate =
  cd_event :: event_value
  cd_relay :: "relay_event list"
  cd_publication :: "publication_evidence option"

definition into_record :: "event_id \<Rightarrow> candidate \<Rightarrow> query_evaluation_error + event_record" where
  "into_record i c =
     (case relay_occurrences_for_event i (cd_relay c) of
        None \<Rightarrow> Inl (RelayOccurrenceEventMismatch i
                  (case List.find (\<lambda>x. ev_id (re_event x) \<noteq> i) (cd_relay c) of
                     None \<Rightarrow> i | Some x \<Rightarrow> ev_id (re_event x)))
      | Some ros \<Rightarrow> event_record_new (cd_event c) ros (cd_publication c))"

definition relay_qualifies :: "query \<Rightarrow> relay_event \<Rightarrow> bool" where
  "relay_qualifies q re =
     (let occ = re_occurrence re in
      if occ_authority occ \<noteq> q_access q then False
      else case sp_authority (q_source q) of
             AnyLocal \<Rightarrow> True
           | OnlyRelays rs \<Rightarrow> occ_session occ \<in> set rs)"

fun merge_qualifying_contribution ::
  "query \<Rightarrow> source_event \<Rightarrow> (event_id, candidate) btree_map \<Rightarrow> (event_id, candidate) btree_map" where
  "merge_qualifying_contribution q (RelayContribution re) m =
     (if \<not> relay_qualifies q re then m
      else let e = re_event re;
               c = (case bt_get m (ev_id e) of
                      Some c \<Rightarrow> c
                    | None \<Rightarrow> \<lparr>cd_event = Signed e, cd_relay = [], cd_publication = None\<rparr>);
               c = c\<lparr>cd_relay := cd_relay c @ [re]\<rparr>;
               c = (if is_Signed (cd_event c) then c else c\<lparr>cd_event := Signed e\<rparr>)
           in bt_insert (ev_id e) c m)"
| "merge_qualifying_contribution q (LocalContribution l) m =
     (if sp_authority (q_source q) \<noteq> AnyLocal then m
      else let c = (case bt_get m (lw_id l) of
                      Some c \<Rightarrow> c
                    | None \<Rightarrow> \<lparr>cd_event = lw_event l, cd_relay = [], cd_publication = None\<rparr>);
               c = (case cd_publication c of
                      Some _ \<Rightarrow> c
                    | None \<Rightarrow> c\<lparr>cd_publication := Some (lw_publication l)\<rparr>);
               c = (if is_Signed (lw_event l) then c\<lparr>cd_event := lw_event l\<rparr> else c)
           in bt_insert (lw_id l) c m)"

definition insert_newest ::
  "'k::linorder \<Rightarrow> event_record \<Rightarrow> ('k, event_record) btree_map \<Rightarrow> ('k, event_record) btree_map" where
  "insert_newest k r m =
     (case bt_get m k of
        None \<Rightarrow> bt_insert k r m
      | Some old \<Rightarrow> if event_is_newer (er_created_at r, er_id r) (er_created_at old, er_id old)
                    then bt_insert k r m else m)"

definition record_coordinate :: "nostr_lib \<Rightarrow> event_record \<Rightarrow> event_coord" where
  "record_coordinate N r =
     event_coordinate N (er_id r) (value_author (er_event r)) (value_kind (er_event r)) (value_tags (er_event r))"

definition coordinate_winners :: "nostr_lib \<Rightarrow> event_record list \<Rightarrow> event_record list" where
  "coordinate_winners N rs =
     bt_values (fold (\<lambda>r. insert_newest (record_coordinate N r) r) rs [])"

definition axis_admits :: "'a btree_set option \<Rightarrow> 'a \<Rightarrow> bool" where
  "axis_admits axis x = (case axis of None \<Rightarrow> True | Some s \<Rightarrow> x \<in> set s)"

definition matches_value :: "nostr_lib \<Rightarrow> filter_selection \<Rightarrow> event_id \<Rightarrow> event_value \<Rightarrow> bool" where
  "matches_value N sel i v \<longleftrightarrow>
     axis_admits (sel_ids sel) i
     \<and> axis_admits (sel_authors sel) (value_author v)
     \<and> axis_admits (sel_kinds sel) (value_kind v)
     \<and> (\<forall>(key, vs)\<in>set (sel_tag_values sel). \<exists>t\<in>set (value_tags v).
          tag_single_letter N t = Some key
          \<and> (case tag_content N t of None \<Rightarrow> False | Some x \<Rightarrow> x \<in> set vs))"

definition matches_selection :: "nostr_lib \<Rightarrow> filter_selection \<Rightarrow> event_record \<Rightarrow> bool" where
  "matches_selection N sel r = matches_value N sel (er_id r) (er_event r)"

fun result_le :: "query_ordering \<Rightarrow> event_record \<Rightarrow> event_record \<Rightarrow> bool" where
  "result_le NewestFirst l r = ((er_created_at r, er_id r) \<le> (er_created_at l, er_id l))"
| "result_le OldestFirst l r = ((er_created_at l, er_id l) \<le> (er_created_at r, er_id r))"

text \<open>Collecting into a \<open>Result\<close>: the first error in key order is returned.\<close>

fun collect_records :: "(event_id, candidate) btree_map \<Rightarrow> query_evaluation_error + event_record list" where
  "collect_records [] = Inr []"
| "collect_records ((i, c) # m) =
     (case into_record i c of
        Inl e \<Rightarrow> Inl e
      | Inr r \<Rightarrow> (case collect_records m of Inl e \<Rightarrow> Inl e | Inr rs \<Rightarrow> Inr (r # rs)))"

definition merge_sources :: "query \<Rightarrow> source_snapshot list \<Rightarrow> (event_id, candidate) btree_map" where
  "merge_sources q sources =
     fold (\<lambda>s m. fold (merge_qualifying_contribution q) (ss_events s) m) sources []"

definition truncate_to :: "nat option \<Rightarrow> 'a list \<Rightarrow> 'a list" where
  "truncate_to limit xs = (case limit of None \<Rightarrow> xs | Some n \<Rightarrow> take n xs)"

definition evaluate ::
  "nostr_lib \<Rightarrow> query \<Rightarrow> source_snapshot list \<Rightarrow> query_evaluation_error + query_snapshot" where
  "evaluate N q sources =
     (if matches_nothing q then Inr (snapshot_evaluated [] sources)
      else case collect_records (merge_sources q sources) of
        Inl e \<Rightarrow> Inl e
      | Inr rs \<Rightarrow>
          let records = List.filter (matches_selection N (q_selection q)) rs;
              events = sort_by (result_le (q_ordering q)) (coordinate_winners N records)
          in Inr (snapshot_evaluated (truncate_to (q_limit q) events) sources))"

subsection \<open>The merge\<close>

text \<open>
  What the constructor of \<open>LocalWriteEvent\<close> establishes: the stored id is the id of the
  value.
\<close>

definition local_ok :: "local_write_event \<Rightarrow> bool" where
  "local_ok l \<longleftrightarrow> value_id (lw_event l) = Some (lw_id l)"

fun contribution_ok :: "source_event \<Rightarrow> bool" where
  "contribution_ok (RelayContribution _) = True"
| "contribution_ok (LocalContribution l) = local_ok l"

definition all_contributions :: "source_snapshot list \<Rightarrow> source_event list" where
  "all_contributions sources = concat (map ss_events sources)"

lemma merge_sources_fold:
  "merge_sources q sources = fold (merge_qualifying_contribution q) (all_contributions sources) []"
proof -
  have "fold (\<lambda>s m. fold (merge_qualifying_contribution q) (ss_events s) m) sources m =
        fold (merge_qualifying_contribution q) (all_contributions sources) m" for m
    unfolding all_contributions_def by (induction sources arbitrary: m) auto
  then show ?thesis by (simp add: merge_sources_def)
qed

text \<open>
  The invariant of a candidate: its value has the id it is filed under and is the value of a
  merged contribution, its relay contributions qualify and carry that id, and a query
  restricted to relays has a relay contribution behind every candidate.
\<close>

fun contribution_value :: "source_event \<Rightarrow> event_value" where
  "contribution_value (RelayContribution re) = Signed (re_event re)"
| "contribution_value (LocalContribution l) = lw_event l"

definition merged_value :: "source_event list \<Rightarrow> event_value \<Rightarrow> bool" where
  "merged_value cs v \<longleftrightarrow> (\<exists>c\<in>set cs. contribution_value c = v)"

definition candidate_ok :: "query \<Rightarrow> source_event list \<Rightarrow> event_id \<Rightarrow> candidate \<Rightarrow> bool" where
  "candidate_ok q cs i c \<longleftrightarrow>
     value_id (cd_event c) = Some i
     \<and> merged_value cs (cd_event c)
     \<and> (\<forall>re\<in>set (cd_relay c). ev_id (re_event re) = i \<and> relay_qualifies q re
            \<and> RelayContribution re \<in> set cs)
     \<and> (sp_authority (q_source q) \<noteq> AnyLocal \<longrightarrow> cd_relay c \<noteq> [])"

lemma candidate_ok_mono: "candidate_ok q cs i c \<Longrightarrow> set cs \<subseteq> set cs' \<Longrightarrow> candidate_ok q cs' i c"
  by (auto simp: candidate_ok_def merged_value_def)

lemma merge_step_wf: "bt_wf m \<Longrightarrow> bt_wf (merge_qualifying_contribution q c m)"
  by (cases c) (auto simp: Let_def intro: bt_wf_insert)

lemma merge_step_ok:
  assumes "contribution_ok c" "c \<in> set cs"
    and "\<And>i cd. bt_get m i = Some cd \<Longrightarrow> candidate_ok q cs i cd"
    and "bt_get (merge_qualifying_contribution q c m) i = Some cd"
  shows "candidate_ok q cs i cd"
proof (cases c)
  case (RelayContribution re)
  then have "merged_value cs (Signed (re_event re))"
    using assms(2) unfolding merged_value_def by force
  with RelayContribution assms show ?thesis
    by (cases "bt_get m (ev_id (re_event re))")
      (auto simp: candidate_ok_def Let_def split: if_splits)
next
  case (LocalContribution l)
  then have "merged_value cs (lw_event l)"
    using assms(2) unfolding merged_value_def by force
  with LocalContribution assms show ?thesis
    by (cases "bt_get m (lw_id l)")
      (auto simp: candidate_ok_def local_ok_def Let_def split: if_splits option.splits)
qed

lemma merge_fold_wf: "bt_wf m \<Longrightarrow> bt_wf (fold (merge_qualifying_contribution q) cs m)"
  by (induction cs arbitrary: m) (auto intro: merge_step_wf)

lemma merge_fold_ok:
  assumes "\<forall>c\<in>set cs'. contribution_ok c" "set cs' \<subseteq> set cs"
    and "\<And>i cd. bt_get m i = Some cd \<Longrightarrow> candidate_ok q cs i cd"
    and "bt_get (fold (merge_qualifying_contribution q) cs' m) i = Some cd"
  shows "candidate_ok q cs i cd"
  using assms
proof (induction cs' arbitrary: m)
  case Nil
  then show ?case by simp
next
  case (Cons c cs')
  have "candidate_ok q cs j d" if "bt_get (merge_qualifying_contribution q c m) j = Some d" for j d
    using Cons.prems(1-3) that by (intro merge_step_ok [of c cs m q j d]) auto
  with Cons show ?case by auto
qed

lemma merge_sources_wf [simp]: "bt_wf (merge_sources q sources)"
  by (simp add: merge_sources_fold merge_fold_wf)

lemma merge_sources_ok:
  assumes "\<forall>c\<in>set (all_contributions sources). contribution_ok c"
    and "(i, cd) \<in> set (merge_sources q sources)"
  shows "candidate_ok q (all_contributions sources) i cd"
proof -
  have "bt_get (merge_sources q sources) i = Some cd"
    using assms(2) by (simp add: bt_get_Some_iff)
  then show ?thesis
    using merge_fold_ok [OF assms(1), of "all_contributions sources" "[]" q i cd]
    by (simp add: merge_sources_fold)
qed

text \<open>Every qualifying contribution is filed under its id.\<close>

fun contribution_id :: "source_event \<Rightarrow> event_id" where
  "contribution_id (RelayContribution re) = ev_id (re_event re)"
| "contribution_id (LocalContribution l) = lw_id l"

fun contribution_qualifies :: "query \<Rightarrow> source_event \<Rightarrow> bool" where
  "contribution_qualifies q (RelayContribution re) = relay_qualifies q re"
| "contribution_qualifies q (LocalContribution _) = (sp_authority (q_source q) = AnyLocal)"

lemma contribution_id_value:
  "contribution_ok c \<Longrightarrow> value_id (contribution_value c) = Some i \<Longrightarrow> contribution_id c = i"
  by (cases c) (auto simp: local_ok_def)

lemma merge_step_keys:
  "set (bt_keys (merge_qualifying_contribution q c m)) =
     (if contribution_qualifies q c then insert (contribution_id c) (set (bt_keys m)) else set (bt_keys m))"
  by (cases c) (auto simp: bt_keys_def Let_def)

lemma merge_fold_keys:
  "set (bt_keys (fold (merge_qualifying_contribution q) cs m)) =
     set (bt_keys m) \<union> contribution_id ` {c \<in> set cs. contribution_qualifies q c}"
  by (induction cs arbitrary: m) (auto simp: merge_step_keys)

subsection \<open>Collecting the records\<close>

lemma into_record_ok:
  assumes "candidate_ok q cs i c"
  shows "into_record i c = Inr \<lparr>er_id = i, er_event = cd_event c,
    er_relay_occurrences = \<lparr>ros_event_id = i, ros_occurrences = fold merge_occurrence (cd_relay c) []\<rparr>,
    er_publication = cd_publication c\<rparr>"
  using assms
  by (auto simp: into_record_def relay_occurrences_for_event_def event_record_new_def candidate_ok_def)

definition record_of :: "event_id \<times> candidate \<Rightarrow> event_record" where
  "record_of e = \<lparr>er_id = fst e, er_event = cd_event (snd e),
    er_relay_occurrences = \<lparr>ros_event_id = fst e,
      ros_occurrences = fold merge_occurrence (cd_relay (snd e)) []\<rparr>,
    er_publication = cd_publication (snd e)\<rparr>"

lemma collect_records_ok:
  assumes "\<And>i c. (i, c) \<in> set m \<Longrightarrow> candidate_ok q cs i c"
  shows "collect_records m = Inr (map record_of m)"
  using assms
proof (induction m)
  case Nil
  show ?case by simp
next
  case (Cons e m)
  obtain i c where e: "e = (i, c)" by (cases e)
  have "candidate_ok q cs i c" by (rule Cons.prems) (simp add: e)
  then have "into_record i c = Inr (record_of e)"
    by (simp add: into_record_ok record_of_def e)
  moreover have "collect_records m = Inr (map record_of m)"
    by (rule Cons.IH) (simp add: Cons.prems)
  ultimately show ?case by (simp add: e)
qed

subsection \<open>Winners\<close>

definition record_dominates :: "event_record \<Rightarrow> event_record \<Rightarrow> bool" where
  "record_dominates r s \<longleftrightarrow> (er_created_at r, er_id r) = (er_created_at s, er_id s)
     \<or> event_is_newer (er_created_at r, er_id r) (er_created_at s, er_id s)"

lemma record_dominates_refl [simp]: "record_dominates r r"
  by (simp add: record_dominates_def)

lemma record_dominates_trans: "record_dominates r s \<Longrightarrow> record_dominates s t \<Longrightarrow> record_dominates r t"
  by (auto simp: record_dominates_def)

lemma insert_newest_eq:
  "insert_newest k r m =
     (case bt_get m k of None \<Rightarrow> bt_insert k r m
      | Some old \<Rightarrow> if record_dominates old r then m else bt_insert k r m)"
proof -
  have "\<not> event_is_newer p q \<longleftrightarrow> q = p \<or> event_is_newer q p" for p q
    using event_is_newer_irrefl event_is_newer_not_le [of p q] event_is_newer_trans [of p q p] by blast
  then have "record_dominates s r \<longleftrightarrow> \<not> event_is_newer (er_created_at r, er_id r) (er_created_at s, er_id s)" for s
    unfolding record_dominates_def by blast
  then show ?thesis by (simp add: insert_newest_def split: option.split del: event_is_newer.simps)
qed

lemma record_dominates_total: "record_dominates r s \<or> record_dominates s r"
  unfolding record_dominates_def
  using event_is_newer_not_le [of "(er_created_at r, er_id r)" "(er_created_at s, er_id s)"] by argo

definition winner_inv :: "nostr_lib \<Rightarrow> event_record list \<Rightarrow> (event_coord, event_record) btree_map \<Rightarrow> bool" where
  "winner_inv N rs m \<longleftrightarrow> bt_wf m
     \<and> (\<forall>k r. bt_get m k = Some r \<longrightarrow> r \<in> set rs \<and> record_coordinate N r = k)
     \<and> (\<forall>r\<in>set rs. \<exists>w. bt_get m (record_coordinate N r) = Some w \<and> record_dominates w r)"

lemma insert_newest_inv:
  assumes inv: "winner_inv N rs m"
  shows "winner_inv N (rs @ [r]) (insert_newest (record_coordinate N r) r m)"
proof (cases "bt_get m (record_coordinate N r)")
  case None
  with inv show ?thesis
    by (auto simp: winner_inv_def insert_newest_eq intro: bt_wf_insert)
next
  case (Some old)
  show ?thesis
  proof (cases "record_dominates old r")
    case True
    with inv Some show ?thesis by (auto simp: winner_inv_def insert_newest_eq)
  next
    case False
    then have dom: "record_dominates r old" using record_dominates_total by blast
    have "\<exists>w. bt_get (bt_insert (record_coordinate N r) r m) (record_coordinate N s) = Some w
        \<and> record_dominates w s" if s: "s \<in> set rs" for s
    proof -
      from inv s obtain w where w: "bt_get m (record_coordinate N s) = Some w" "record_dominates w s"
        by (auto simp: winner_inv_def)
      with Some dom record_dominates_trans show ?thesis by auto
    qed
    with inv Some False show ?thesis
      by (auto simp: winner_inv_def insert_newest_eq intro: bt_wf_insert)
  qed
qed

lemma fold_insert_newest_inv:
  "winner_inv N rs (fold (\<lambda>r. insert_newest (record_coordinate N r) r) rs [])"
proof (induction rs rule: rev_induct)
  case Nil
  show ?case by (simp add: winner_inv_def)
next
  case (snoc r rs)
  then show ?case using insert_newest_inv by simp
qed

lemma coordinate_winners_subset: "set (coordinate_winners N rs) \<subseteq> set rs"
  using fold_insert_newest_inv [of N rs]
  by (auto simp: coordinate_winners_def winner_inv_def set_bt_values)

lemma coordinate_winners_covers:
  assumes "r \<in> set rs"
  shows "\<exists>w\<in>set (coordinate_winners N rs).
    record_coordinate N w = record_coordinate N r \<and> record_dominates w r"
proof -
  let ?m = "fold (\<lambda>r. insert_newest (record_coordinate N r) r) rs []"
  have inv: "winner_inv N rs ?m" by (rule fold_insert_newest_inv)
  with assms obtain w where w: "bt_get ?m (record_coordinate N r) = Some w" "record_dominates w r"
    unfolding winner_inv_def by blast
  moreover have "record_coordinate N w = record_coordinate N r"
    using inv w(1) unfolding winner_inv_def by blast
  moreover have "w \<in> set (coordinate_winners N rs)"
    using inv w(1) unfolding winner_inv_def coordinate_winners_def by (simp add: set_bt_values) blast
  ultimately show ?thesis by blast
qed

lemma coordinate_winners_distinct: "distinct (map (record_coordinate N) (coordinate_winners N rs))"
proof -
  let ?m = "fold (\<lambda>r. insert_newest (record_coordinate N r) r) rs []"
  have inv: "winner_inv N rs ?m" by (rule fold_insert_newest_inv)
  then have wf: "bt_wf ?m" unfolding winner_inv_def by blast
  have "record_coordinate N (snd e) = fst e" if "e \<in> set ?m" for e
  proof -
    have "bt_get ?m (fst e) = Some (snd e)" using that wf by (simp add: bt_get_Some_iff)
    with inv show ?thesis unfolding winner_inv_def by blast
  qed
  then have "map (record_coordinate N) (map snd ?m) = map fst ?m" by simp
  moreover have "distinct (map fst ?m)" using wf by (rule bt_wf_distinct)
  ultimately show ?thesis by (simp only: coordinate_winners_def bt_values_def)
qed

lemma result_le_total: "result_le ord r s \<or> result_le ord s r"
  by (cases ord) (auto simp: linear)

lemma result_le_trans: "result_le ord r s \<Longrightarrow> result_le ord s t \<Longrightarrow> result_le ord r t"
  by (cases ord) (auto intro: order_trans)

subsection \<open>The evaluated result\<close>

text \<open>Under well-formed local contributions the evaluator computes exactly this list.\<close>

definition result_events :: "nostr_lib \<Rightarrow> query \<Rightarrow> source_snapshot list \<Rightarrow> event_record list" where
  "result_events N q sources =
     (if matches_nothing q then []
      else truncate_to (q_limit q) (sort_by (result_le (q_ordering q)) (coordinate_winners N
        (List.filter (matches_selection N (q_selection q)) (map record_of (merge_sources q sources))))))"

definition sources_ok :: "source_snapshot list \<Rightarrow> bool" where
  "sources_ok sources \<longleftrightarrow> (\<forall>c\<in>set (all_contributions sources). contribution_ok c)"

lemma evaluate_eq:
  assumes "sources_ok sources"
  shows "evaluate N q sources = Inr (snapshot_evaluated (result_events N q sources) sources)"
proof (cases "matches_nothing q")
  case True
  then show ?thesis by (simp add: evaluate_def result_events_def)
next
  case False
  have "collect_records (merge_sources q sources) = Inr (map record_of (merge_sources q sources))"
    using assms merge_sources_ok unfolding sources_ok_def
    by (intro collect_records_ok [where q = q and cs = "all_contributions sources"]) blast
  with False show ?thesis by (simp add: evaluate_def result_events_def Let_def)
qed

text \<open>A contribution that does not qualify leaves no trace in the merge.\<close>

lemma merge_fold_qualifying:
  "fold (merge_qualifying_contribution q) cs m = fold (merge_qualifying_contribution q) (List.filter (contribution_qualifies q) cs) m"
proof (induction cs arbitrary: m)
  case (Cons c cs)
  have "\<not> contribution_qualifies q c \<Longrightarrow> merge_qualifying_contribution q c m = m" by (cases c) auto
  with Cons show ?case by simp
qed simp

lemma merge_sources_qualifying:
  assumes "sources_ok sources" "(i, cd) \<in> set (merge_sources q sources)"
  shows "candidate_ok q (List.filter (contribution_qualifies q) (all_contributions sources)) i cd"
proof -
  let ?cs = "List.filter (contribution_qualifies q) (all_contributions sources)"
  have "bt_get (fold (merge_qualifying_contribution q) ?cs []) i = Some cd"
    using assms(2) merge_sources_wf [of q sources] by (simp add: merge_sources_fold merge_fold_qualifying [symmetric] bt_get_Some_iff)
  with merge_fold_ok [of ?cs ?cs "[]" q i cd] assms(1) show ?thesis by (auto simp: sources_ok_def)
qed

lemma qualifying_value:
  assumes "sources_ok sources" "(i, cd) \<in> set (merge_sources q sources)"
  shows "\<exists>c\<in>set (all_contributions sources). contribution_qualifies q c \<and> contribution_id c = i \<and> contribution_value c = cd_event cd"
proof -
  from merge_sources_qualifying [OF assms] obtain c where "c \<in> set (all_contributions sources)" "contribution_qualifies q c"
    "contribution_value c = cd_event cd" "value_id (cd_event cd) = Some i" by (auto simp: candidate_ok_def merged_value_def)
  then show ?thesis using assms(1) contribution_id_value [of c i] by (auto simp: sources_ok_def)
qed

text \<open>What a record's evidence consists of: the qualifying relay contributions of its id, and the first local one.\<close>

fun relay_of :: "source_event \<Rightarrow> relay_event option" where
  "relay_of (RelayContribution re) = Some re"
| "relay_of (LocalContribution _) = None"

definition qualifying_relays :: "query \<Rightarrow> event_id \<Rightarrow> source_event list \<Rightarrow> relay_event list" where
  "qualifying_relays q i cs = List.filter (\<lambda>re. relay_qualifies q re \<and> ev_id (re_event re) = i) (List.map_filter relay_of cs)"

fun local_evidence :: "query \<Rightarrow> event_id \<Rightarrow> source_event \<Rightarrow> publication_evidence option" where
  "local_evidence q i (RelayContribution _) = None"
| "local_evidence q i (LocalContribution l) = (if sp_authority (q_source q) = AnyLocal \<and> lw_id l = i then Some (lw_publication l) else None)"

lemma merge_step_evidence:
  "(case bt_get (merge_qualifying_contribution q c m) i of None \<Rightarrow> [] | Some cd \<Rightarrow> cd_relay cd)
      = (case bt_get m i of None \<Rightarrow> [] | Some cd \<Rightarrow> cd_relay cd) @ qualifying_relays q i [c]"
  "Option.bind (bt_get (merge_qualifying_contribution q c m) i) cd_publication
      = (case Option.bind (bt_get m i) cd_publication of Some p \<Rightarrow> Some p | None \<Rightarrow> local_evidence q i c)"
  by (cases c; auto simp: qualifying_relays_def List.map_filter_simps Let_def split: option.splits)+

lemma merge_fold_relays:
  "(case bt_get (fold (merge_qualifying_contribution q) cs m) i of None \<Rightarrow> [] | Some cd \<Rightarrow> cd_relay cd)
      = (case bt_get m i of None \<Rightarrow> [] | Some cd \<Rightarrow> cd_relay cd) @ qualifying_relays q i cs"
proof (induction cs arbitrary: m)
  case (Cons c cs)
  have "qualifying_relays q i (c # cs) = qualifying_relays q i [c] @ qualifying_relays q i cs"
    by (simp add: qualifying_relays_def List.map_filter_simps split: option.split)
  then show ?case by (simp add: Cons merge_step_evidence(1) del: merge_qualifying_contribution.simps)
qed (simp add: qualifying_relays_def List.map_filter_simps)

lemma merge_fold_publication:
  "Option.bind (bt_get (fold (merge_qualifying_contribution q) cs m) i) cd_publication
      = (case Option.bind (bt_get m i) cd_publication of Some p \<Rightarrow> Some p | None \<Rightarrow> find_map (local_evidence q i) cs)"
proof (induction cs arbitrary: m)
  case (Cons c cs)
  then show ?case by (simp add: merge_step_evidence(2) split: option.split del: merge_qualifying_contribution.simps)
qed (simp split: option.split)

lemma merge_sources_evidence:
  assumes "(i, cd) \<in> set (merge_sources q sources)"
  shows "cd_relay cd = qualifying_relays q i (all_contributions sources)"
    "cd_publication cd = find_map (local_evidence q i) (all_contributions sources)"
proof -
  have "bt_get (fold (merge_qualifying_contribution q) (all_contributions sources) []) i = Some cd"
    using assms merge_sources_wf [of q sources] by (simp add: merge_sources_fold bt_get_Some_iff)
  with merge_fold_relays [of q "all_contributions sources" "[]" i] merge_fold_publication [of q "all_contributions sources" "[]" i]
  show "cd_relay cd = qualifying_relays q i (all_contributions sources)"
    "cd_publication cd = find_map (local_evidence q i) (all_contributions sources)" by simp_all
qed

lemma truncate_to_subset: "set (truncate_to l xs) \<subseteq> set xs"
  by (auto simp: truncate_to_def dest: in_set_takeD split: option.splits)

lemma truncate_to_map: "map f (truncate_to l xs) = truncate_to l (map f xs)"
  by (simp add: truncate_to_def take_map split: option.splits)

lemma truncate_to_distinct: "distinct xs \<Longrightarrow> distinct (truncate_to l xs)"
  by (simp add: truncate_to_def split: option.splits)

lemma truncate_to_sorted: "sorted_wrt P xs \<Longrightarrow> sorted_wrt P (truncate_to l xs)"
  by (simp add: truncate_to_def sorted_wrt_take split: option.splits)

lemma result_events_from:
  assumes "r \<in> set (result_events N q sources)"
  shows "\<not> matches_nothing q \<and> matches_selection N (q_selection q) r
    \<and> (\<exists>e\<in>set (merge_sources q sources). r = record_of e)"
proof -
  let ?rs = "List.filter (matches_selection N (q_selection q)) (map record_of (merge_sources q sources))"
  have "r \<in> set ?rs"
    using assms truncate_to_subset coordinate_winners_subset [of N ?rs]
    by (fastforce simp: result_events_def split: if_splits)
  moreover have "\<not> matches_nothing q"
    using assms by (auto simp: result_events_def)
  ultimately show ?thesis by auto
qed

lemma record_of_occurrence:
  assumes "candidate_ok q cs i c" "(s, occ) \<in> set (ros_occurrences (er_relay_occurrences (record_of (i, c))))"
  shows "\<exists>re\<in>set (cd_relay c). occ_session (re_occurrence re) = s \<and> occ_session occ = s
    \<and> occ_authority occ = occ_authority (re_occurrence re)"
proof -
  let ?m = "fold merge_occurrence (cd_relay c) []"
  have "bt_get ?m s = Some occ"
    using assms(2) by (simp add: record_of_def bt_get_Some_iff fold_merge_occurrence_wf)
  with fold_merge_occurrence_summary [of "cd_relay c" s] show ?thesis
    by (auto simp: occurrence_summary_def) (metis relay_occurrence.select_convs(1,2))
qed

text \<open>
  Evaluation never fails on well-formed sources, and the answer's evidence repeats every
  source with its revision, status and retractions.
\<close>

theorem evaluate_total:
  assumes "sources_ok sources"
  shows "\<exists>s. evaluate N q sources = Inr s \<and> qe_sources (qs_evidence s) = map source_evidence_of sources"
  using assms by (simp add: evaluate_eq snapshot_evaluated_def)

text \<open>
  (C13) Exact provenance and no authority leak. Every record of the answer has the value of a contribution
  that qualifies under its id, and passes the selection. Its relay evidence is the summary of exactly
  the qualifying relay contributions of that id, its publication evidence that of the first
  qualifying local one, if there is one. So every occurrence carries the authority the query asked
  for, and when the query is restricted to a relay set there is one and all come from that set.
\<close>

theorem evaluate_provenance:
  assumes "sources_ok sources" "evaluate N q sources = Inr s" "r \<in> set (qs_events s)"
  shows "(\<exists>c\<in>set (all_contributions sources). contribution_qualifies q c \<and> contribution_id c = er_id r \<and> contribution_value c = er_event r)
         \<and> matches_selection N (q_selection q) r
         \<and> (\<forall>session. occurrence_summary (qualifying_relays q (er_id r) (all_contributions sources)) session
              (bt_get (ros_occurrences (er_relay_occurrences r)) session))
         \<and> er_publication r = find_map (local_evidence q (er_id r)) (all_contributions sources)
         \<and> (\<forall>(session, occ)\<in>set (ros_occurrences (er_relay_occurrences r)).
            occ_session occ = session \<and> occ_authority occ = q_access q
            \<and> (\<forall>rs. sp_authority (q_source q) = OnlyRelays rs \<longrightarrow> session \<in> set rs))
         \<and> (sp_authority (q_source q) \<noteq> AnyLocal \<longrightarrow> ros_occurrences (er_relay_occurrences r) \<noteq> [])"
proof -
  from assms have "r \<in> set (result_events N q sources)"
    by (auto simp: evaluate_eq snapshot_evaluated_def)
  then obtain i c where e: "(i, c) \<in> set (merge_sources q sources)" "r = record_of (i, c)" and sel: "matches_selection N (q_selection q) r"
    using result_events_from by (metis prod.collapse)
  have shown: "\<exists>c\<in>set (all_contributions sources). contribution_qualifies q c \<and> contribution_id c = er_id r \<and> contribution_value c = er_event r"
    using qualifying_value [OF assms(1) e(1)] by (simp add: e(2) record_of_def)
  have evidence: "occurrence_summary (qualifying_relays q (er_id r) (all_contributions sources)) session
      (bt_get (ros_occurrences (er_relay_occurrences r)) session)"
    "er_publication r = find_map (local_evidence q (er_id r)) (all_contributions sources)" for session
    using merge_sources_evidence [OF e(1)] fold_merge_occurrence_summary by (simp_all add: e(2) record_of_def)
  have ok: "candidate_ok q (all_contributions sources) i c"
    using assms(1) e(1) unfolding sources_ok_def by (rule merge_sources_ok)
  have "occ_session occ = session \<and> occ_authority occ = q_access q
      \<and> (\<forall>rs. sp_authority (q_source q) = OnlyRelays rs \<longrightarrow> session \<in> set rs)"
    if "(session, occ) \<in> set (ros_occurrences (er_relay_occurrences r))" for session occ
  proof -
    from record_of_occurrence [OF ok] that e(2) obtain re where "re \<in> set (cd_relay c)"
      "occ_session (re_occurrence re) = session" "occ_session occ = session"
      "occ_authority occ = occ_authority (re_occurrence re)" by blast
    moreover from this ok have "relay_qualifies q re" by (auto simp: candidate_ok_def)
    ultimately show ?thesis by (auto simp: relay_qualifies_def Let_def split: if_splits)
  qed
  moreover have "ros_occurrences (er_relay_occurrences r) \<noteq> []" if "sp_authority (q_source q) \<noteq> AnyLocal"
  proof -
    from ok that obtain re where "re \<in> set (cd_relay c)" by (cases "cd_relay c") (auto simp: candidate_ok_def)
    with fold_merge_occurrence_summary [of "cd_relay c" "occ_session (re_occurrence re)"]
    show ?thesis by (auto simp: e(2) record_of_def occurrence_summary_def)
  qed
  ultimately show ?thesis using shown sel evidence by blast
qed

lemma merge_records_ids: "distinct (map er_id (map record_of (merge_sources q sources)))"
proof -
  have "map er_id (map record_of m) = map fst m" for m
    by (simp add: record_of_def)
  then show ?thesis using bt_wf_distinct [OF merge_sources_wf] by metis
qed

lemma winners_distinct_ids:
  assumes "distinct (map er_id rs)"
  shows "distinct (map er_id (coordinate_winners N rs))"
proof -
  have "inj_on er_id (set (coordinate_winners N rs))"
    using assms coordinate_winners_subset inj_on_subset by (metis distinct_map)
  moreover have "distinct (coordinate_winners N rs)"
    using coordinate_winners_distinct distinct_map by blast
  ultimately show ?thesis by (simp add: distinct_map)
qed

text \<open>
  (C15) The answer is canonical: one record per event id and per coordinate, every record
  satisfies the selection, records appear in the requested order, and the whole-query bound
  holds.
\<close>

theorem evaluate_canonical:
  assumes "sources_ok sources" "evaluate N q sources = Inr s"
  shows "distinct (map er_id (qs_events s))
    \<and> distinct (map (record_coordinate N) (qs_events s))
    \<and> (\<forall>r\<in>set (qs_events s). matches_selection N (q_selection q) r)
    \<and> sorted_wrt (result_le (q_ordering q)) (qs_events s)
    \<and> (\<forall>n. q_limit q = Some n \<longrightarrow> length (qs_events s) \<le> n)"
proof -
  let ?rs = "List.filter (matches_selection N (q_selection q)) (map record_of (merge_sources q sources))"
  let ?es = "sort_by (result_le (q_ordering q)) (coordinate_winners N ?rs)"
  from assms have es: "qs_events s = result_events N q sources"
    by (auto simp: evaluate_eq snapshot_evaluated_def)
  have ids: "distinct (map er_id ?es)"
    using merge_records_ids by (simp add: winners_distinct_ids distinct_map_filter)
  have coords: "distinct (map (record_coordinate N) ?es)"
    by (simp add: coordinate_winners_distinct)
  have sorted: "sorted_wrt (result_le (q_ordering q)) ?es"
    by (rule sorted_sort_by) (use result_le_total result_le_trans in blast)+
  have re: "result_events N q sources = (if matches_nothing q then [] else truncate_to (q_limit q) ?es)"
    by (simp only: result_events_def)
  show ?thesis
  proof (intro conjI ballI allI impI)
    show "distinct (map er_id (qs_events s))"
      using ids by (simp only: es re truncate_to_map truncate_to_distinct split: if_split) simp
    show "distinct (map (record_coordinate N) (qs_events s))"
      using coords by (simp only: es re truncate_to_map truncate_to_distinct split: if_split) simp
    show "sorted_wrt (result_le (q_ordering q)) (qs_events s)"
      using sorted by (simp only: es re truncate_to_sorted split: if_split) simp
  next
    fix r
    assume "r \<in> set (qs_events s)"
    then show "matches_selection N (q_selection q) r" using result_events_from es by metis
  next
    fix n
    assume "q_limit q = Some n"
    then show "length (qs_events s) \<le> n" by (simp add: es re truncate_to_def)
  qed
qed

text \<open>
  (C14) Completeness: without a bound, an event that a qualifying contribution carries, from a relay or a
  local write, and that satisfies the selection is answered, by itself or by a newer event of the
  same coordinate. The hypothesis on ids says that the qualifying contributions of this id agree on
  author, kind, tags and time, which the verification of ids establishes.
\<close>

theorem evaluate_complete:
  assumes "sources_ok sources" "evaluate N q sources = Inr s"
    and "q_limit q = None" "\<not> matches_nothing q"
    and "c \<in> set (all_contributions sources)" "contribution_qualifies q c"
    and "matches_value N (q_selection q) (contribution_id c) (contribution_value c)"
    and ids: "\<forall>d\<in>set (all_contributions sources). contribution_qualifies q d \<longrightarrow> contribution_id d = contribution_id c \<longrightarrow>
        value_author (contribution_value d) = value_author (contribution_value c)
        \<and> value_kind (contribution_value d) = value_kind (contribution_value c)
        \<and> value_tags (contribution_value d) = value_tags (contribution_value c)
        \<and> value_created_at (contribution_value d) = value_created_at (contribution_value c)"
  shows "\<exists>r\<in>set (qs_events s).
      record_coordinate N r = event_coordinate N (contribution_id c) (value_author (contribution_value c))
        (value_kind (contribution_value c)) (value_tags (contribution_value c))
      \<and> (er_id r = contribution_id c
         \<or> event_is_newer (er_created_at r, er_id r) (value_created_at (contribution_value c), contribution_id c))"
proof -
  let ?i = "contribution_id c"
  let ?rs = "List.filter (matches_selection N (q_selection q)) (map record_of (merge_sources q sources))"
  from assms(1-4) have es: "set (qs_events s) = set (coordinate_winners N ?rs)"
    by (auto simp: evaluate_eq snapshot_evaluated_def result_events_def truncate_to_def)
  have "?i \<in> set (bt_keys (merge_sources q sources))"
    using assms(5,6) by (auto simp: merge_sources_fold merge_fold_keys)
  then obtain cd where cd: "(?i, cd) \<in> set (merge_sources q sources)"
    by (auto simp: bt_keys_def)
  obtain d where d: "d \<in> set (all_contributions sources)" "contribution_qualifies q d" "contribution_id d = ?i" "contribution_value d = cd_event cd"
    using qualifying_value [OF assms(1) cd] by blast
  then have same: "value_author (cd_event cd) = value_author (contribution_value c)"
    "value_kind (cd_event cd) = value_kind (contribution_value c)" "value_tags (cd_event cd) = value_tags (contribution_value c)"
    "value_created_at (cd_event cd) = value_created_at (contribution_value c)"
    using ids by metis+
  let ?r = "record_of (?i, cd)"
  have "matches_selection N (q_selection q) ?r"
    using assms(7) same by (simp add: matches_selection_def matches_value_def record_of_def)
  then have "?r \<in> set ?rs" using cd by force
  then obtain w where w: "w \<in> set (coordinate_winners N ?rs)"
    "record_coordinate N w = record_coordinate N ?r" "record_dominates w ?r"
    using coordinate_winners_covers by blast
  have "record_coordinate N ?r = event_coordinate N ?i (value_author (contribution_value c))
        (value_kind (contribution_value c)) (value_tags (contribution_value c))"
    using same by (simp add: record_coordinate_def record_of_def)
  with w same show ?thesis
    by (auto simp: es record_dominates_def record_of_def er_created_at_def simp del: event_is_newer.simps)
qed

subsection \<open>A concrete evaluation\<close>

definition sample_note :: event where
  "sample_note = sample_event 7 1 10 1 [[''t'', ''isabelle'']]"

definition sample_relay_note :: relay_event where
  "sample_relay_note = relay_event_new sample_note ''wss://a'' Unauthenticated 5"

definition sample_sources :: "source_snapshot list" where
  "sample_sources = [source_snapshot_current EventCache 1
     [RelayContribution sample_relay_note,
      RelayContribution (relay_event_new sample_note ''wss://b'' (As 9) 6)]]"

definition sample_query :: query where
  "sample_query = query_events\<lparr>q_source := \<lparr>sp_acquisition = AcqExplicit [''wss://a''],
     sp_authority = OnlyRelays [''wss://a'']\<rparr>\<rparr>"

definition sample_record :: event_record where
  "sample_record = record_of (7, \<lparr>cd_event = Signed sample_note, cd_relay = [sample_relay_note],
     cd_publication = None\<rparr>)"

definition sample_answer :: query_snapshot where
  "sample_answer = snapshot_evaluated [sample_record] sample_sources"

lemma sample_sources_ok: "sources_ok sample_sources"
  by code_simp

lemma sample_evaluate: "evaluate sample_lib sample_query sample_sources = Inr sample_answer"
  by code_simp

theorem evaluate_total_witness:
  "\<exists>s. evaluate sample_lib sample_query sample_sources = Inr s
     \<and> qe_sources (qs_evidence s) = map source_evidence_of sample_sources"
  using evaluate_total [OF sample_sources_ok] by blast

theorem evaluate_provenance_witness:
  "(''wss://a'', re_occurrence sample_relay_note) \<in> set (ros_occurrences (er_relay_occurrences sample_record))
   \<and> occ_authority (re_occurrence sample_relay_note) = q_access sample_query
   \<and> ros_occurrences (er_relay_occurrences sample_record) \<noteq> []"
proof -
  have r: "sample_record \<in> set (qs_events sample_answer)" by (simp add: sample_answer_def snapshot_evaluated_def)
  have occ: "(''wss://a'', re_occurrence sample_relay_note) \<in> set (ros_occurrences (er_relay_occurrences sample_record))"
    by code_simp
  have "sp_authority (q_source sample_query) \<noteq> AnyLocal" by code_simp
  with occ evaluate_provenance [OF sample_sources_ok sample_evaluate r] show ?thesis by fastforce
qed

theorem evaluate_canonical_witness:
  "distinct (map er_id (qs_events sample_answer))
   \<and> sorted_wrt (result_le (q_ordering sample_query)) (qs_events sample_answer)
   \<and> matches_selection sample_lib (q_selection sample_query) sample_record"
proof -
  have "sample_record \<in> set (qs_events sample_answer)" by (simp add: sample_answer_def snapshot_evaluated_def)
  with evaluate_canonical [OF sample_sources_ok sample_evaluate] show ?thesis by blast
qed

definition sample_local :: local_write_event where
  "sample_local = \<lparr>lw_id = 8, lw_event = Signed (sample_event 8 1 11 1 []),
     lw_publication = \<lparr>pe_receipt_id = 1, pe_write_id = 1, pe_revision_id = 1, pe_revision_source = None, pe_revision_failure = None,
       pe_retired_revisions = [], pe_signature = SigSigned, pe_destinations = []\<rparr>\<rparr>"

definition both_sources :: "source_snapshot list" where
  "both_sources = sample_sources @ [source_snapshot_current WriteStore 1 [LocalContribution sample_local]]"

text \<open>A relay event and a local write beside it: both qualify under any local authority, and both are answered.\<close>

theorem evaluate_complete_witness:
  "\<exists>s. evaluate sample_lib query_events both_sources = Inr s \<and> 7 \<in> er_id ` set (qs_events s) \<and> 8 \<in> er_id ` set (qs_events s)"
proof -
  have ok: "sources_ok both_sources" by code_simp
  then obtain s where s: "evaluate sample_lib query_events both_sources = Inr s" by (simp add: evaluate_eq)
  let ?c = "RelayContribution sample_relay_note" and ?l = "LocalContribution sample_local"
  have "q_limit query_events = None" "\<not> matches_nothing query_events" by code_simp+
  note complete = evaluate_complete [OF ok s this]
  have "?c \<in> set (all_contributions both_sources)" "contribution_qualifies query_events ?c"
    "matches_value sample_lib (q_selection query_events) (contribution_id ?c) (contribution_value ?c)"
    "\<forall>d\<in>set (all_contributions both_sources). contribution_qualifies query_events d \<longrightarrow> contribution_id d = contribution_id ?c \<longrightarrow>
        value_author (contribution_value d) = value_author (contribution_value ?c) \<and> value_kind (contribution_value d) = value_kind (contribution_value ?c)
        \<and> value_tags (contribution_value d) = value_tags (contribution_value ?c) \<and> value_created_at (contribution_value d) = value_created_at (contribution_value ?c)"
    by code_simp+
  from complete [OF this] obtain r where r: "r \<in> set (qs_events s)" "record_coordinate sample_lib r = event_coordinate sample_lib 7 1 1 [[''t'', ''isabelle'']]"
    by (auto simp: sample_relay_note_def relay_event_new_def sample_note_def sample_event_def)
  have "?l \<in> set (all_contributions both_sources)" "contribution_qualifies query_events ?l"
    "matches_value sample_lib (q_selection query_events) (contribution_id ?l) (contribution_value ?l)"
    "\<forall>d\<in>set (all_contributions both_sources). contribution_qualifies query_events d \<longrightarrow> contribution_id d = contribution_id ?l \<longrightarrow>
        value_author (contribution_value d) = value_author (contribution_value ?l) \<and> value_kind (contribution_value d) = value_kind (contribution_value ?l)
        \<and> value_tags (contribution_value d) = value_tags (contribution_value ?l) \<and> value_created_at (contribution_value d) = value_created_at (contribution_value ?l)"
    by code_simp+
  from complete [OF this] obtain r' where r': "r' \<in> set (qs_events s)" "record_coordinate sample_lib r' = event_coordinate sample_lib 8 1 1 []"
    by (auto simp: sample_local_def sample_event_def)
  have "event_coordinate sample_lib 7 1 1 [[''t'', ''isabelle'']] = Event 7" "event_coordinate sample_lib 8 1 1 [] = Event 8" by code_simp+
  with r(2) r'(2) have "er_id r = 7" "er_id r' = 8" by (simp_all add: record_coordinate_def event_coordinate_def split: if_splits)
  with r(1) r'(1) s show ?thesis by (metis image_eqI)
qed

end
