(* ===== verification/Event_Cache.thy ===== *)
theory Event_Cache
  imports Query
begin

section \<open>Ingestion and the bounded event cache (\<open>fava-ingest\<close>, \<open>fava-event-cache\<close>, \<open>fava-event-cache-memory\<close>)\<close>

text \<open>
  \<open>crates/fava-ingest/src/lib.rs\<close>, the provided methods of the trait in
  \<open>crates/fava-event-cache/src/lib.rs\<close> and the provider
  \<open>crates/fava-event-cache-memory/src/lib.rs\<close>. The state behind the mutex is threaded
  through the operations; each of them runs under the lock, so one operation is one step.
  A poisoned lock is not modelled: no operation panics while it holds it.
\<close>

subsection \<open>Admission of relay events\<close>

datatype relay_ingest_error =
    WrongSubscription
  | UnauthorizedSubscription
  | OffFilter
  | InvalidRelayEvent string

definition admit_subscription_event ::
  "nostr_lib \<Rightarrow> relay_url \<Rightarrow> authority \<Rightarrow> (string, filter list) btree_map \<Rightarrow> string \<Rightarrow> event \<Rightarrow> timestamp
     \<Rightarrow> relay_ingest_error + relay_event" where
  "admit_subscription_event N session auth accepted attributed e now =
     (case bt_get accepted attributed of
        None \<Rightarrow> Inl WrongSubscription
      | Some filters \<Rightarrow>
          if filters = [] then Inl UnauthorizedSubscription
          else case event_verify N e of
            Inl err \<Rightarrow> Inl (InvalidRelayEvent err)
          | Inr _ \<Rightarrow>
              if \<not> (\<exists>f\<in>set filters. filter_match_event N f e) then Inl OffFilter
              else Inr (relay_event_new e session auth now))"

subsection \<open>Cache state\<close>

type_synonym cache_key = "event_id \<times> relay_url"

record cache_state =
  cst_revision :: u64
  cst_events :: "(cache_key, relay_event) btree_map"
  cst_retractions :: "source_retraction list"
  cst_coverage :: "source_coverage list"

datatype event_cache_error = CacheClosed | CacheRefused string

record memory_event_cache =
  mc_capacity :: nat
  mc_state :: cache_state
  mc_latest :: source_snapshot

definition cache_state_default :: cache_state where
  "cache_state_default = \<lparr>cst_revision = 0, cst_events = [], cst_retractions = [], cst_coverage = []\<rparr>"

definition cache_bounded :: "nat \<Rightarrow> memory_event_cache" where
  "cache_bounded capacity = \<lparr>mc_capacity = capacity, mc_state = cache_state_default,
     mc_latest = source_snapshot_empty EventCache\<rparr>"

definition cache_snapshot :: "cache_state \<Rightarrow> source_snapshot" where
  "cache_snapshot st = \<lparr>ss_kind = EventCache, ss_revision = cst_revision st, ss_status = SourceOpen,
     ss_events = map RelayContribution (bt_values (cst_events st)), ss_retractions = cst_retractions st\<rparr>"

definition key_of :: "relay_event \<Rightarrow> cache_key" where
  "key_of re = (ev_id (re_event re), occ_session (re_occurrence re))"

subsection \<open>Applying a batch\<close>

text \<open>The first loop: retractions apply at once, insertions are set aside.\<close>

fun apply_retractions ::
  "event_state_mutation list \<Rightarrow> cache_state \<Rightarrow> relay_event list \<Rightarrow> cache_state \<times> relay_event list" where
  "apply_retractions [] next upserts = (next, upserts)"
| "apply_retractions (Retract i session cause # ms) next upserts =
     (if bt_get (cst_events next) (i, session) \<noteq> None
      then apply_retractions ms
             (next\<lparr>cst_events := bt_remove (i, session) (cst_events next),
                   cst_retractions := cst_retractions next @ [\<lparr>sr_event_id = i, sr_cause = cause\<rparr>]\<rparr>) upserts
      else apply_retractions ms next upserts)"
| "apply_retractions (Upsert incoming # ms) next upserts = apply_retractions ms next (upserts @ [incoming])"

definition eviction_candidate :: "(cache_key, relay_event) btree_map \<Rightarrow> cache_key option" where
  "eviction_candidate m =
     map_option fst (min_by_key (\<lambda>(k, re). (ev_created_at (re_event re), ev_id (re_event re)))
       (List.filter (\<lambda>(k, re). ev_kind (re_event re) \<noteq> kind_event_deletion) m))"

text \<open>One iteration of the second loop.\<close>

definition apply_upsert ::
  "nostr_lib \<Rightarrow> nat \<Rightarrow> relay_event \<Rightarrow> cache_state \<Rightarrow> event_cache_error + cache_state" where
  "apply_upsert N capacity incoming next =
     (case event_verify N (re_event incoming) of
        Inl e \<Rightarrow> Inl (CacheRefused (''invalid signed event: '' @ e))
      | Inr _ \<Rightarrow>
          (let key = key_of incoming in
           case bt_get (cst_events next) key of
             Some retained \<Rightarrow>
               Inr (if occ_observed_at (re_occurrence incoming) < occ_observed_at (re_occurrence retained)
                    then next\<lparr>cst_events := bt_insert key incoming (cst_events next)\<rparr> else next)
           | None \<Rightarrow>
               if length (cst_events next) \<ge> capacity
               then if ev_kind (re_event incoming) \<noteq> kind_event_deletion
                    then Inl (CacheRefused (''bounded event cache capacity '' @ show_nat capacity @ '' reached''))
                    else (case eviction_candidate (cst_events next) of
                            None \<Rightarrow> Inl (CacheRefused (''bounded event cache capacity '' @ show_nat capacity
                                          @ '' holds only deletions''))
                          | Some evicted \<Rightarrow>
                              Inr (next\<lparr>cst_events := bt_insert key incoming (bt_remove evicted (cst_events next)),
                                        cst_retractions := cst_retractions next
                                          @ [\<lparr>sr_event_id = fst evicted, sr_cause = Evicted\<rparr>]\<rparr>))
               else Inr (next\<lparr>cst_events := bt_insert key incoming (cst_events next)\<rparr>)))"

fun apply_upserts ::
  "nostr_lib \<Rightarrow> nat \<Rightarrow> relay_event list \<Rightarrow> cache_state \<Rightarrow> event_cache_error + cache_state" where
  "apply_upserts N capacity [] next = Inr next"
| "apply_upserts N capacity (incoming # us) next =
     (case apply_upsert N capacity incoming next of
        Inl e \<Rightarrow> Inl e
      | Inr next' \<Rightarrow> apply_upserts N capacity us next')"

definition cache_apply ::
  "nostr_lib \<Rightarrow> nat \<Rightarrow> cache_state \<Rightarrow> event_state_mutation list \<Rightarrow> event_cache_error + cache_state" where
  "cache_apply N capacity current mutations =
     (let (next, upserts) = apply_retractions mutations (current\<lparr>cst_retractions := []\<rparr>) [] in
      case apply_upserts N capacity upserts next of
        Inl e \<Rightarrow> Inl e
      | Inr next \<Rightarrow> Inr (if cst_events next \<noteq> cst_events current then next\<lparr>cst_coverage := []\<rparr> else next))"

definition cache_publish ::
  "cache_state \<Rightarrow> memory_event_cache \<Rightarrow> (event_cache_error + unit) \<times> memory_event_cache" where
  "cache_publish next c =
     (case checked_add_u64 (cst_revision next) 1 of
        None \<Rightarrow> (Inl (CacheRefused ''source revision exhausted''), c)
      | Some r \<Rightarrow> (let next = next\<lparr>cst_revision := r\<rparr> in
                    (Inr (), c\<lparr>mc_state := next, mc_latest := cache_snapshot next\<rparr>)))"

subsection \<open>Operations\<close>

definition cache_transact ::
  "nostr_lib \<Rightarrow> (relay_event list \<Rightarrow> event_state_mutation list) \<Rightarrow> memory_event_cache
     \<Rightarrow> (event_cache_error + nat) \<times> memory_event_cache" where
  "cache_transact N decide c =
     (let mutations = decide (bt_values (cst_events (mc_state c))); count = length mutations in
      if count = 0 then (Inr 0, c)
      else case cache_apply N (mc_capacity c) (mc_state c) mutations of
        Inl e \<Rightarrow> (Inl e, c)
      | Inr next \<Rightarrow> (case cache_publish next c of
                       (Inl e, c') \<Rightarrow> (Inl e, c')
                     | (Inr _, c') \<Rightarrow> (Inr count, c')))"

definition cache_commit ::
  "nostr_lib \<Rightarrow> event_state_mutation list \<Rightarrow> memory_event_cache
     \<Rightarrow> (event_cache_error + unit) \<times> memory_event_cache" where
  "cache_commit N mutations c =
     (case cache_apply N (mc_capacity c) (mc_state c) mutations of
        Inl e \<Rightarrow> (Inl e, c)
      | Inr next \<Rightarrow> cache_publish next c)"

text \<open>The provided methods \<open>admit\<close> and \<open>expire\<close> of the trait.\<close>

definition live_events :: "timestamp \<Rightarrow> relay_event list \<Rightarrow> relay_event list" where
  "live_events now current = List.filter (\<lambda>known. \<not> event_is_expired (ev_tags (re_event known)) now) current"

definition admission :: "nostr_lib \<Rightarrow> relay_event \<Rightarrow> timestamp \<Rightarrow> relay_event list \<Rightarrow> event_state_mutation list" where
  "admission N e now current = mutations_for_event N (live_events now current) e now"

definition admit_decision ::
  "nostr_lib \<Rightarrow> relay_event \<Rightarrow> timestamp \<Rightarrow> relay_event list \<Rightarrow> event_state_mutation list" where
  "admit_decision N e now current = mutations_for_expiration current now @ admission N e now current"

definition cache_admit ::
  "nostr_lib \<Rightarrow> relay_event \<Rightarrow> timestamp \<Rightarrow> memory_event_cache
     \<Rightarrow> (event_cache_error + bool) \<times> memory_event_cache" where
  "cache_admit N e now c =
     (case cache_transact N (admit_decision N e now) c of
        (Inl err, c') \<Rightarrow> (Inl err, c')
      | (Inr _, c') \<Rightarrow> (Inr (admission N e now (bt_values (cst_events (mc_state c))) \<noteq> []), c'))"

definition cache_expire ::
  "nostr_lib \<Rightarrow> timestamp \<Rightarrow> memory_event_cache \<Rightarrow> (event_cache_error + nat) \<times> memory_event_cache" where
  "cache_expire N now c = cache_transact N (\<lambda>current. mutations_for_expiration current now) c"

definition cache_event :: "event_id \<Rightarrow> memory_event_cache \<Rightarrow> relay_event option" where
  "cache_event i c = find_map (\<lambda>(k, re). if fst k = i then Some re else None) (cst_events (mc_state c))"

definition cache_len :: "memory_event_cache \<Rightarrow> nat" where
  "cache_len c = length (cst_events (mc_state c))"

definition cache_source_coverage :: "relay_url \<Rightarrow> filter \<Rightarrow> memory_event_cache \<Rightarrow> source_coverage option" where
  "cache_source_coverage session f c =
     List.find (\<lambda>cov. sc_session cov = session \<and> sc_filter cov = f) (cst_coverage (mc_state c))"

fun replace_first :: "('a \<Rightarrow> bool) \<Rightarrow> 'a \<Rightarrow> 'a list \<Rightarrow> 'a list" where
  "replace_first P y [] = []"
| "replace_first P y (x # xs) = (if P x then y # xs else x # replace_first P y xs)"

definition retain_source_coverage :: "source_coverage \<Rightarrow> memory_event_cache \<Rightarrow> memory_event_cache" where
  "retain_source_coverage cov c =
     (let st = mc_state c; same = (\<lambda>x. sc_session x = sc_session cov \<and> sc_filter x = sc_filter cov);
          cov' = (if \<exists>x\<in>set (cst_coverage st). same x then replace_first same cov (cst_coverage st)
                  else (if length (cst_coverage st) \<ge> mc_capacity c then tl (cst_coverage st)
                        else cst_coverage st) @ [cov])
      in c\<lparr>mc_state := st\<lparr>cst_coverage := cov'\<rparr>\<rparr>)"

text \<open>\<open>QuerySource::open\<close> hands out the latest published snapshot.\<close>

definition cache_open :: "query \<Rightarrow> memory_event_cache \<Rightarrow> source_snapshot" where
  "cache_open q c = mc_latest c"

subsection \<open>The two loops\<close>

fun retract_keys :: "event_state_mutation list \<Rightarrow> cache_key list" where
  "retract_keys [] = []"
| "retract_keys (Retract i s _ # ms) = (i, s) # retract_keys ms"
| "retract_keys (Upsert _ # ms) = retract_keys ms"

fun upserts_of :: "event_state_mutation list \<Rightarrow> relay_event list" where
  "upserts_of [] = []"
| "upserts_of (Retract _ _ _ # ms) = upserts_of ms"
| "upserts_of (Upsert re # ms) = re # upserts_of ms"

lemma retract_keys_append [simp]: "retract_keys (xs @ ys) = retract_keys xs @ retract_keys ys"
  by (induction xs rule: retract_keys.induct) auto

lemma upserts_of_append [simp]: "upserts_of (xs @ ys) = upserts_of xs @ upserts_of ys"
  by (induction xs rule: upserts_of.induct) auto

lemma retract_of_simps [simp]:
  "retract_keys (map (retract_of c) xs) = map key_of xs"
  "upserts_of (map (retract_of c) xs) = []"
  by (induction xs) (auto simp: retract_of_def key_of_def)

lemma bt_remove_absent: "bt_get m k = None \<Longrightarrow> bt_remove k m = m"
  by (force simp: bt_remove_def bt_get_def map_of_eq_None_iff filter_id_conv)

lemma apply_retractions_spec:
  "cst_events (fst (apply_retractions ms st us)) = fold bt_remove (retract_keys ms) (cst_events st)
   \<and> snd (apply_retractions ms st us) = us @ upserts_of ms
   \<and> cst_coverage (fst (apply_retractions ms st us)) = cst_coverage st
   \<and> cst_revision (fst (apply_retractions ms st us)) = cst_revision st"
  by (induction ms st us rule: apply_retractions.induct) (auto simp: bt_remove_absent)

lemma apply_retractions_reports:
  "set (cst_retractions st) \<subseteq> set (cst_retractions (fst (apply_retractions ms st us)))
   \<and> (\<forall>k. k \<in> set (retract_keys ms) \<longrightarrow> bt_get (cst_events st) k \<noteq> None \<longrightarrow>
        fst k \<in> sr_event_id ` set (cst_retractions (fst (apply_retractions ms st us))))"
proof (induction ms st us rule: apply_retractions.induct)
  case (1 st us)
  show ?case by simp
next
  case (2 i session cause ms st us)
  show ?case
  proof (cases "bt_get (cst_events st) (i, session)")
    case None
    with 2 show ?thesis by auto
  next
    case (Some re)
    let ?st = "st\<lparr>cst_events := bt_remove (i, session) (cst_events st),
      cst_retractions := cst_retractions st @ [\<lparr>sr_event_id = i, sr_cause = cause\<rparr>]\<rparr>"
    let ?R = "set (cst_retractions (fst (apply_retractions ms ?st us)))"
    have IH: "set (cst_retractions ?st) \<subseteq> ?R"
      "\<And>k. k \<in> set (retract_keys ms) \<Longrightarrow> bt_get (cst_events ?st) k \<noteq> None \<Longrightarrow> fst k \<in> sr_event_id ` ?R"
      using 2(1) Some by auto
    have "i \<in> sr_event_id ` set (cst_retractions ?st)" by (simp add: image_iff)
    with IH(1) have i: "i \<in> sr_event_id ` ?R" by blast
    have "fst k \<in> sr_event_id ` ?R"
      if "k \<in> set (retract_keys (Retract i session cause # ms))" "bt_get (cst_events st) k \<noteq> None" for k
    proof (cases "k = (i, session)")
      case True
      with i show ?thesis by simp
    next
      case False
      with that IH(2) [of k] show ?thesis by simp
    qed
    moreover have "set (cst_retractions st) \<subseteq> ?R" using IH(1) by simp
    moreover have "apply_retractions (Retract i session cause # ms) st us = apply_retractions ms ?st us"
      using Some by simp
    ultimately show ?thesis by (simp only: simp_thms) blast
  qed
next
  case (3 incoming ms st us)
  then show ?case by simp
qed

subsection \<open>Well-formedness\<close>

definition events_ok :: "nat \<Rightarrow> (cache_key, relay_event) btree_map \<Rightarrow> bool" where
  "events_ok capacity m \<longleftrightarrow> bt_wf m \<and> length m \<le> capacity \<and> (\<forall>(k, re)\<in>set m. k = key_of re)"

lemma length_bt_remove_le: "length (bt_remove k m) \<le> length m"
  by (simp add: bt_remove_def)

lemma length_bt_remove_less: "bt_get m k \<noteq> None \<Longrightarrow> length (bt_remove k m) < length m"
  unfolding bt_remove_def
  by (rule length_filter_less [of "(k, the (bt_get m k))"]) (auto dest: bt_get_SomeD)

lemma length_bt_insert: "bt_wf m \<Longrightarrow>
  length (bt_insert k v m) = (if bt_get m k = None then Suc (length m) else length m)"
  unfolding bt_get_def bt_wf_def
  by (induction k v m rule: bt_insert.induct) (auto simp: map_of_eq_None_iff)

lemma set_bt_insert_subset: "set (bt_insert k v m) \<subseteq> insert (k, v) (set m)"
  by (induction k v m rule: bt_insert.induct) auto

lemma set_bt_remove: "set (bt_remove k m) = {e \<in> set m. fst e \<noteq> k}"
  by (auto simp: bt_remove_def)

lemma events_ok_remove: "events_ok cap m \<Longrightarrow> events_ok cap (bt_remove k m)"
  using length_bt_remove_le [of k m]
  by (auto simp: events_ok_def set_bt_remove intro: bt_wf_remove)

lemma events_ok_fold_remove: "events_ok cap m \<Longrightarrow> events_ok cap (fold bt_remove ks m)"
  by (induction ks arbitrary: m) (auto intro: events_ok_remove)

lemma events_ok_insert:
  assumes "events_ok cap m" "bt_get m (key_of re) \<noteq> None \<or> length m < cap"
  shows "events_ok cap (bt_insert (key_of re) re m)"
  using assms set_bt_insert_subset [of "key_of re" re m]
  by (fastforce simp: events_ok_def length_bt_insert intro: bt_wf_insert)

lemma eviction_candidate_Some:
  assumes "eviction_candidate m = Some k"
  shows "\<exists>re. (k, re) \<in> set m \<and> ev_kind (re_event re) \<noteq> kind_event_deletion
    \<and> (\<forall>(k', re')\<in>set m. ev_kind (re_event re') \<noteq> kind_event_deletion \<longrightarrow>
         (ev_created_at (re_event re), ev_id (re_event re)) \<le> (ev_created_at (re_event re'), ev_id (re_event re')))"
proof -
  from assms obtain re where "min_by_key (\<lambda>(k, re). (ev_created_at (re_event re), ev_id (re_event re)))
       (List.filter (\<lambda>(k, re). ev_kind (re_event re) \<noteq> kind_event_deletion) m) = Some (k, re)"
    by (auto simp: eviction_candidate_def)
  from min_by_key_Some [OF this] show ?thesis by (intro exI [of _ re]) auto
qed

lemma eviction_candidate_None_iff:
  "eviction_candidate m = None \<longleftrightarrow> (\<forall>(k, re)\<in>set m. ev_kind (re_event re) = kind_event_deletion)"
  by (auto simp: eviction_candidate_def filter_empty_conv)

lemma eviction_candidate_bound: "eviction_candidate m = Some k \<Longrightarrow> bt_get m k \<noteq> None"
  using bt_get_None_iff [of m k] by (drule_tac eviction_candidate_Some) (auto simp: bt_keys_def image_iff)

lemma apply_upsert_events_ok:
  assumes "events_ok cap (cst_events st)" "apply_upsert N cap re st = Inr st'"
  shows "events_ok cap (cst_events st')"
proof (cases "bt_get (cst_events st) (key_of re)")
  case (Some retained)
  with assms show ?thesis
    by (auto simp: apply_upsert_def Let_def events_ok_insert split: sum.splits if_splits)
next
  case None
  show ?thesis
  proof (cases "length (cst_events st) < cap")
    case True
    with None assms show ?thesis
      by (auto simp: apply_upsert_def Let_def events_ok_insert split: sum.splits if_splits)
  next
    case False
    with None assms obtain k where k: "eviction_candidate (cst_events st) = Some k"
      "cst_events st' = bt_insert (key_of re) re (bt_remove k (cst_events st))"
      by (auto simp: apply_upsert_def Let_def split: sum.splits if_splits option.splits)
    have "length (bt_remove k (cst_events st)) < cap"
      using length_bt_remove_less [OF eviction_candidate_bound [OF k(1)]] assms(1)
      by (simp add: events_ok_def)
    with assms(1) show ?thesis unfolding k(2) by (intro events_ok_insert events_ok_remove) auto
  qed
qed

lemma apply_upserts_events_ok:
  "events_ok cap (cst_events st) \<Longrightarrow> apply_upserts N cap us st = Inr st' \<Longrightarrow> events_ok cap (cst_events st')"
  by (induction N cap us st rule: apply_upserts.induct)
    (auto dest: apply_upsert_events_ok split: sum.splits)

lemma cache_apply_cases:
  assumes "cache_apply N cap st ms = Inr st'"
  obtains mid where "apply_upserts N cap (upserts_of ms)
      (fst (apply_retractions ms (st\<lparr>cst_retractions := []\<rparr>) [])) = Inr mid"
    "cst_events st' = cst_events mid" "cst_retractions st' = cst_retractions mid"
    "cst_revision st' = cst_revision mid"
    "cst_coverage st' = (if cst_events mid = cst_events st then cst_coverage mid else [])"
  using assms apply_retractions_spec [of ms "st\<lparr>cst_retractions := []\<rparr>" "[]"]
  by (auto simp: cache_apply_def Let_def split: prod.splits sum.splits if_splits)

lemma cache_apply_events_ok:
  assumes "events_ok cap (cst_events st)" "cache_apply N cap st ms = Inr st'"
  shows "events_ok cap (cst_events st')"
proof -
  from assms(2) obtain mid where mid: "apply_upserts N cap (upserts_of ms)
      (fst (apply_retractions ms (st\<lparr>cst_retractions := []\<rparr>) [])) = Inr mid"
    "cst_events st' = cst_events mid" by (rule cache_apply_cases)
  have "events_ok cap (cst_events (fst (apply_retractions ms (st\<lparr>cst_retractions := []\<rparr>) [])))"
    using assms(1) by (simp add: apply_retractions_spec events_ok_fold_remove)
  with mid show ?thesis using apply_upserts_events_ok by metis
qed

text \<open>
  The representation invariant of the provider: keys are the keys of the retained events, the
  bound holds, the coverage list stays within the same bound, and the published snapshot is the
  snapshot of the current state.
\<close>

definition cache_inv :: "memory_event_cache \<Rightarrow> bool" where
  "cache_inv c \<longleftrightarrow> events_ok (mc_capacity c) (cst_events (mc_state c))
     \<and> length (cst_coverage (mc_state c)) \<le> mc_capacity c
     \<and> mc_latest c = cache_snapshot (mc_state c)"

lemma apply_upsert_coverage:
  "apply_upsert N cap re st = Inr st' \<Longrightarrow> cst_coverage st' = cst_coverage st \<and> cst_revision st' = cst_revision st"
  by (auto simp: apply_upsert_def Let_def split: sum.splits option.splits if_splits)

lemma apply_upserts_coverage:
  "apply_upserts N cap us st = Inr st' \<Longrightarrow> cst_coverage st' = cst_coverage st \<and> cst_revision st' = cst_revision st"
  by (induction N cap us st rule: apply_upserts.induct)
    (auto dest: apply_upsert_coverage split: sum.splits)

lemma cache_apply_coverage:
  assumes "cache_apply N cap st ms = Inr st'"
  shows "cst_coverage st' = (if cst_events st' = cst_events st then cst_coverage st else [])
    \<and> cst_revision st' = cst_revision st"
  using assms
  by (rule cache_apply_cases)
    (use apply_upserts_coverage apply_retractions_spec [of ms "st\<lparr>cst_retractions := []\<rparr>" "[]"] in fastforce)

lemma cache_publish_inv:
  assumes "cache_inv c" "cache_apply N (mc_capacity c) (mc_state c) ms = Inr next"
  shows "cache_inv (snd (cache_publish next c))"
  using assms cache_apply_events_ok [OF _ assms(2)] cache_apply_coverage [OF assms(2)]
  by (auto simp: cache_inv_def cache_publish_def Let_def split: option.splits if_splits)

lemma cache_transact_inv: "cache_inv c \<Longrightarrow> cache_inv (snd (cache_transact N decide c))"
  using cache_publish_inv [of c N "decide (bt_values (cst_events (mc_state c)))"]
  by (auto simp: cache_transact_def Let_def split: sum.splits prod.splits)

lemma cache_admit_state: "snd (cache_admit N e now c) = snd (cache_transact N (admit_decision N e now) c)"
  by (auto simp: cache_admit_def split: prod.splits sum.splits)

lemma length_replace_first [simp]: "length (replace_first P y xs) = length xs"
  by (induction xs) auto

lemma retain_source_coverage_inv:
  assumes "cache_inv c" "mc_capacity c > 0"
  shows "cache_inv (retain_source_coverage cov c)"
  using assms by (auto simp: cache_inv_def retain_source_coverage_def Let_def cache_snapshot_def)

text \<open>What a batch leaves behind: an old entry whose key was not retracted, or an inserted one.\<close>

lemma apply_upsert_values:
  assumes "apply_upsert N cap re st = Inr st'" "bt_get (cst_events st') k = Some v"
  shows "(v = re \<and> k = key_of re \<and> event_verify N (re_event re) = Inr ()) \<or> bt_get (cst_events st) k = Some v"
  using assms
  by (auto simp: apply_upsert_def Let_def split: sum.splits option.splits if_splits)

lemma apply_upserts_values:
  assumes "apply_upserts N cap us st = Inr st'" "bt_get (cst_events st') k = Some v"
  shows "(v \<in> set us \<and> k = key_of v \<and> event_verify N (re_event v) = Inr ())
    \<or> bt_get (cst_events st) k = Some v"
  using assms
proof (induction N cap us st rule: apply_upserts.induct)
  case (1 N cap st)
  then show ?case by simp
next
  case (2 N cap re us st)
  then obtain mid where mid: "apply_upsert N cap re st = Inr mid" "apply_upserts N cap us mid = Inr st'"
    by (auto split: sum.splits)
  with 2 have "(v \<in> set us \<and> k = key_of v \<and> event_verify N (re_event v) = Inr ())
      \<or> bt_get (cst_events mid) k = Some v" by blast
  with apply_upsert_values [OF mid(1), of k v] show ?case by auto
qed

lemma cache_apply_values:
  assumes "cache_apply N cap st ms = Inr st'" "bt_get (cst_events st') k = Some v"
  shows "(v \<in> set (upserts_of ms) \<and> k = key_of v \<and> event_verify N (re_event v) = Inr ())
    \<or> (k \<notin> set (retract_keys ms) \<and> bt_get (cst_events st) k = Some v)"
proof -
  from assms(1) obtain mid where mid: "apply_upserts N cap (upserts_of ms)
      (fst (apply_retractions ms (st\<lparr>cst_retractions := []\<rparr>) [])) = Inr mid"
    "cst_events st' = cst_events mid" by (rule cache_apply_cases)
  from apply_upserts_values [OF mid(1), of k v] assms(2) mid(2) show ?thesis
    by (auto simp: apply_retractions_spec bt.lookup_fold_delete split: if_splits)
qed

text \<open>A step of the provider on its events: nothing changes, or a batch was applied.\<close>

lemma cache_transact_events:
  obtains (same) "cst_events (mc_state (snd (cache_transact N decide c))) = cst_events (mc_state c)"
  | (batch) nxt where
      "cache_apply N (mc_capacity c) (mc_state c) (decide (bt_values (cst_events (mc_state c)))) = Inr nxt"
      "cst_events (mc_state (snd (cache_transact N decide c))) = cst_events nxt"
proof (cases "cache_apply N (mc_capacity c) (mc_state c) (decide (bt_values (cst_events (mc_state c))))")
  case (Inl e)
  show thesis by (rule same) (simp add: cache_transact_def Let_def Inl)
next
  case (Inr nxt)
  show thesis
  proof (cases "decide (bt_values (cst_events (mc_state c))) = [] \<or> checked_add_u64 (cst_revision nxt) 1 = None")
    case True
    show thesis by (rule same) (use True in \<open>auto simp: cache_transact_def cache_publish_def Let_def Inr\<close>)
  next
    case False
    show thesis
      by (rule batch [OF Inr]) (use False in \<open>auto simp: cache_transact_def cache_publish_def Let_def Inr\<close>)
  qed
qed

subsection \<open>What an admission decides\<close>

lemma mutations_for_expiration_keys [simp]:
  "retract_keys (mutations_for_expiration current now) =
     map key_of (List.filter (\<lambda>known. event_is_expired (ev_tags (re_event known)) now) current)"
  "upserts_of (mutations_for_expiration current now) = []"
  by (simp_all add: mutations_for_expiration_def)

lemma mutations_for_event_upserts: "set (upserts_of (mutations_for_event N current e now)) \<subseteq> {e}"
  by (auto simp: mutations_for_event_def Let_def split: if_splits option.splits)

lemma mutations_for_event_upserts_cases:
  assumes "upserts_of (mutations_for_event N current e now) \<noteq> []"
  shows "\<not> event_is_expired (ev_tags (re_event e)) now
    \<and> (\<forall>known\<in>set current. \<not> deletion_applies N (re_event known) (re_event e))"
  using assms by (auto simp: mutations_for_event_def Let_def split: if_splits)

lemma mutations_for_event_deletes:
  assumes "upserts_of (mutations_for_event N current e now) \<noteq> []" "known \<in> set current"
    and "deletion_applies N (re_event e) (re_event known)"
  shows "key_of known \<in> set (retract_keys (mutations_for_event N current e now))"
proof -
  have "ev_kind (re_event e) = kind_event_deletion" using assms(3) deletion_applies_kinds by blast
  with mutations_for_event_upserts_cases [OF assms(1)] assms(2,3) show ?thesis
    by (auto simp: mutations_for_event_def Let_def)
qed

lemma mutations_for_event_supersedes:
  assumes "upserts_of (mutations_for_event N current e now) \<noteq> []" "known \<in> set current"
    and "is_Replaceable (coordinate_of N (re_event e))" "ev_kind (re_event e) \<noteq> kind_event_deletion"
    and "occ_session (re_occurrence known) = occ_session (re_occurrence e)"
    and "coordinate_of N (re_event known) = coordinate_of N (re_event e)"
  shows "key_of known \<in> set (retract_keys (mutations_for_event N current e now))
    \<or> (\<exists>x\<in>set current. key_of x = key_of e)"
proof (cases "List.find (\<lambda>known. ev_id (re_event known) = ev_id (re_event e)
      \<and> occ_session (re_occurrence known) = occ_session (re_occurrence e)) current")
  case (Some x)
  then show ?thesis by (auto simp: key_of_def dest: find_Some_in)
next
  case None
  then have "ev_id (re_event known) \<noteq> ev_id (re_event e)"
    using assms(2,5) by (auto simp: find_None_iff)
  moreover have "mutations_for_event N current e now =
      map (retract_of (Superseded (ev_id (re_event e))))
        (List.filter (\<lambda>known. ev_id (re_event known) \<noteq> ev_id (re_event e))
          (List.filter (\<lambda>known. occ_session (re_occurrence known) = occ_session (re_occurrence e)
             \<and> coordinate_of N (re_event known) = coordinate_of N (re_event e)) current)) @ [Upsert e]"
    using None assms(1,3,4)
    by (simp add: mutations_for_event_def Let_def del: event_is_newer.simps split: if_splits)
  ultimately show ?thesis using assms(2,5,6) by simp
qed

lemma set_live_events: "set (live_events now current) = {x \<in> set current. \<not> event_is_expired (ev_tags (re_event x)) now}"
  by (auto simp: live_events_def)

lemma admit_decision_keys:
  "retract_keys (admit_decision N e now current) =
     map key_of (List.filter (\<lambda>known. event_is_expired (ev_tags (re_event known)) now) current)
     @ retract_keys (admission N e now current)"
  "upserts_of (admit_decision N e now current) = upserts_of (admission N e now current)"
  by (simp_all add: admit_decision_def)

subsection \<open>The contract of an event cache\<close>

text \<open>
  What the trait documents of \<open>transact\<close>, the single serialized writer: a refused or empty
  batch leaves the retained events as they are; otherwise every retained event was there
  before and its removal was not decided, or its insertion was decided and it verified. The
  provided methods \<open>admit\<close> and \<open>expire\<close> are proved correct from this contract alone.
\<close>

definition undeleted :: "nostr_lib \<Rightarrow> relay_event set \<Rightarrow> bool" where
  "undeleted N vs \<longleftrightarrow> (\<forall>d\<in>vs. \<forall>t\<in>vs. \<not> deletion_applies N (re_event d) (re_event t))"

definition one_winner :: "nostr_lib \<Rightarrow> relay_event set \<Rightarrow> bool" where
  "one_winner N vs \<longleftrightarrow> (\<forall>v\<in>vs. \<forall>w\<in>vs.
     occ_session (re_occurrence v) = occ_session (re_occurrence w) \<longrightarrow>
     coordinate_of N (re_event v) = coordinate_of N (re_event w) \<longrightarrow>
     is_Replaceable (coordinate_of N (re_event v)) \<longrightarrow> ev_id (re_event v) = ev_id (re_event w))"

definition verified :: "nostr_lib \<Rightarrow> relay_event set \<Rightarrow> bool" where
  "verified N vs \<longleftrightarrow> (\<forall>v\<in>vs. event_verify N (re_event v) = Inr ())"

text \<open>
  Documented behaviour of the \<open>nostr\<close> crate the winner rule relies on: a verified id is a
  hash of the event, so it determines the coordinate; a deletion is not a replaceable event.
\<close>

definition ids_bind :: "nostr_lib \<Rightarrow> bool" where
  "ids_bind N \<longleftrightarrow> (\<forall>e e'. event_verify N e = Inr () \<longrightarrow> event_verify N e' = Inr () \<longrightarrow> ev_id e = ev_id e' \<longrightarrow>
     coordinate_of N e = coordinate_of N e') \<and> \<not> kind_is_replaceable N kind_event_deletion"

lemma replaceable_not_deletion:
  assumes "ids_bind N" "is_Replaceable (coordinate_of N e)"
  shows "ev_kind e \<noteq> kind_event_deletion"
  using assms
  by (auto simp: ids_bind_def coordinate_of_def event_coordinate_def is_addressable_def
      kind_event_deletion_def split: if_splits)

locale event_cache =
  fixes N :: nostr_lib
    and transact :: "(relay_event list \<Rightarrow> event_state_mutation list) \<Rightarrow> 'c \<Rightarrow> (event_cache_error + nat) \<times> 'c"
    and contents :: "'c \<Rightarrow> relay_event list"
    and invar :: "'c \<Rightarrow> bool"
  assumes transact_invar: "invar c \<Longrightarrow> invar (snd (transact decide c))"
    and transact_contents: "invar c \<Longrightarrow>
      set (contents (snd (transact decide c))) = set (contents c)
      \<or> (\<forall>v\<in>set (contents (snd (transact decide c))).
           (v \<in> set (contents c) \<and> key_of v \<notin> set (retract_keys (decide (contents c))))
           \<or> (v \<in> set (upserts_of (decide (contents c))) \<and> event_verify N (re_event v) = Inr ()))"
begin

text \<open>
  One admission: every retained event is an old, unexpired, unretracted one, or the incoming
  one.
\<close>

lemma admit_step:
  assumes inv: "invar c"
  obtains (same) "set (contents (snd (transact (admit_decision N e now) c))) = set (contents c)"
  | (batch) "\<And>v. v \<in> set (contents (snd (transact (admit_decision N e now) c))) \<Longrightarrow>
      (v \<in> set (contents c) \<and> v \<in> set (live_events now (contents c))
         \<and> key_of v \<notin> set (retract_keys (admission N e now (contents c))))
      \<or> (v = e \<and> upserts_of (admission N e now (contents c)) \<noteq> [] \<and> event_verify N (re_event e) = Inr ())"
proof (cases "set (contents (snd (transact (admit_decision N e now) c))) = set (contents c)")
  case True
  then show thesis by (rule that(1))
next
  case False
  show thesis
  proof (rule that(2))
    fix v
    assume "v \<in> set (contents (snd (transact (admit_decision N e now) c)))"
    with False transact_contents [OF inv, of "admit_decision N e now"] consider
      "v \<in> set (contents c)" "key_of v \<notin> set (retract_keys (admit_decision N e now (contents c)))"
      | "v \<in> set (upserts_of (admission N e now (contents c)))" "event_verify N (re_event v) = Inr ()"
      unfolding admit_decision_keys(2) by blast
    then show "(v \<in> set (contents c) \<and> v \<in> set (live_events now (contents c))
         \<and> key_of v \<notin> set (retract_keys (admission N e now (contents c))))
      \<or> (v = e \<and> upserts_of (admission N e now (contents c)) \<noteq> [] \<and> event_verify N (re_event e) = Inr ())"
    proof cases
      case 1
      then show ?thesis by (auto simp: admit_decision_keys set_live_events)
    next
      case 2
      then show ?thesis
        using mutations_for_event_upserts [of N "live_events now (contents c)" e now]
        by (auto simp: admission_def)
    qed
  qed
qed

lemma admit_undeleted:
  assumes inv: "invar c" and safe: "undeleted N (set (contents c))"
  shows "undeleted N (set (contents (snd (transact (admit_decision N e now) c))))"
proof (cases rule: admit_step [OF inv, of e now])
  case 1
  with safe show ?thesis by simp
next
  case 2
  let ?live = "live_events now (contents c)"
  have "\<not> deletion_applies N (re_event d) (re_event t)"
    if "d \<in> set (contents (snd (transact (admit_decision N e now) c)))"
      "t \<in> set (contents (snd (transact (admit_decision N e now) c)))" for d t
  proof
    assume del: "deletion_applies N (re_event d) (re_event t)"
    note d = 2 [OF that(1)] and t = 2 [OF that(2)]
    have "\<not> (d \<in> set (contents c) \<and> t \<in> set (contents c))"
      using del safe by (auto simp: undeleted_def)
    then consider "t = e" "d \<in> set ?live" "upserts_of (admission N e now (contents c)) \<noteq> []"
      | "d = e" "t \<in> set ?live" "key_of t \<notin> set (retract_keys (admission N e now (contents c)))"
        "upserts_of (admission N e now (contents c)) \<noteq> []"
      | "d = e" "t = e"
      using d t by blast
    then show False
    proof cases
      case 1
      with del mutations_for_event_upserts_cases [of N ?live e now] show False
        by (auto simp: admission_def)
    next
      case 2
      with del mutations_for_event_deletes [of N ?live e now t] show False
        by (auto simp: admission_def)
    next
      case 3
      with del deletion_applies_kinds [of N "re_event e" "re_event e"] show False by simp
    qed
  qed
  then show ?thesis by (auto simp: undeleted_def)
qed

lemma admit_verified:
  assumes "invar c" "verified N (set (contents c))"
  shows "verified N (set (contents (snd (transact (admit_decision N e now) c))))"
proof (cases rule: admit_step [OF assms(1), of e now])
  case 1
  with assms(2) show ?thesis by simp
next
  case 2
  show ?thesis unfolding verified_def
  proof
    fix v
    assume "v \<in> set (contents (snd (transact (admit_decision N e now) c)))"
    from 2 [OF this] assms(2) show "event_verify N (re_event v) = Inr ()"
      unfolding verified_def by blast
  qed
qed

lemma admit_one_winner:
  assumes inv: "invar c" and bind: "ids_bind N" and ver: "verified N (set (contents c))"
    and win: "one_winner N (set (contents c))"
  shows "one_winner N (set (contents (snd (transact (admit_decision N e now) c))))"
proof (cases rule: admit_step [OF inv, of e now])
  case 1
  with win show ?thesis by simp
next
  case 2
  note step = this
  have new: "ev_id (re_event w) = ev_id (re_event e)"
    if w: "w \<in> set (contents c)" "w \<in> set (live_events now (contents c))"
        "key_of w \<notin> set (retract_keys (admission N e now (contents c)))"
      and e: "upserts_of (admission N e now (contents c)) \<noteq> []" "event_verify N (re_event e) = Inr ()"
      and same: "occ_session (re_occurrence w) = occ_session (re_occurrence e)"
        "coordinate_of N (re_event w) = coordinate_of N (re_event e)"
        "is_Replaceable (coordinate_of N (re_event e))" for w
  proof -
    from mutations_for_event_supersedes [OF e(1) [unfolded admission_def] w(2) same(3)
        replaceable_not_deletion [OF bind same(3)] same(1,2)] w(3) [unfolded admission_def]
    obtain x where "x \<in> set (live_events now (contents c))" and key: "key_of x = key_of e" by blast
    then have x: "x \<in> set (contents c)" by (simp add: set_live_events)
    from key have xe: "ev_id (re_event x) = ev_id (re_event e)"
      "occ_session (re_occurrence x) = occ_session (re_occurrence e)" by (simp_all add: key_of_def)
    have "event_verify N (re_event x) = Inr ()" using ver x unfolding verified_def by blast
    with bind e(2) xe(1) have "coordinate_of N (re_event x) = coordinate_of N (re_event e)"
      unfolding ids_bind_def by blast
    with same xe(2) have "ev_id (re_event w) = ev_id (re_event x)"
      using win w(1) x unfolding one_winner_def by metis
    with xe(1) show ?thesis by simp
  qed
  show ?thesis
    unfolding one_winner_def
  proof (intro ballI impI)
    fix v w
    assume v: "v \<in> set (contents (snd (transact (admit_decision N e now) c)))"
      and w: "w \<in> set (contents (snd (transact (admit_decision N e now) c)))"
      and same: "occ_session (re_occurrence v) = occ_session (re_occurrence w)"
        "coordinate_of N (re_event v) = coordinate_of N (re_event w)"
        "is_Replaceable (coordinate_of N (re_event v))"
    show "ev_id (re_event v) = ev_id (re_event w)"
    proof (cases "v \<in> set (contents c) \<and> w \<in> set (contents c)")
      case True
      with win same show ?thesis unfolding one_winner_def by blast
    next
      case False
      then have e: "v = e \<or> w = e" "upserts_of (admission N e now (contents c)) \<noteq> []"
        "event_verify N (re_event e) = Inr ()" using step [OF v] step [OF w] by blast+
      have "ev_id (re_event x) = ev_id (re_event e)"
        if "x \<in> set (contents (snd (transact (admit_decision N e now) c)))"
          "occ_session (re_occurrence x) = occ_session (re_occurrence e)"
          "coordinate_of N (re_event x) = coordinate_of N (re_event e)"
          "is_Replaceable (coordinate_of N (re_event e))" for x
        using step [OF that(1)] new [of x] e(2,3) that(2-4) by blast
      from e(1) this [OF v] this [OF w] same show ?thesis by auto
    qed
  qed
qed

text \<open>An expiration sweep only removes.\<close>

lemma expire_subset:
  assumes "invar c"
  shows "set (contents (snd (transact (\<lambda>current. mutations_for_expiration current now) c))) \<subseteq> set (contents c)"
  using transact_contents [OF assms, of "\<lambda>current. mutations_for_expiration current now"] by auto

end

subsection \<open>The memory provider fulfils the contract\<close>

definition retained :: "memory_event_cache \<Rightarrow> relay_event set" where
  "retained c = set (bt_values (cst_events (mc_state c)))"

lemma retained_iff:
  "cache_inv c \<Longrightarrow> re \<in> retained c \<longleftrightarrow> bt_get (cst_events (mc_state c)) (key_of re) = Some re"
proof -
  assume inv: "cache_inv c"
  let ?m = "cst_events (mc_state c)"
  have "bt_wf ?m" "\<And>k v. (k, v) \<in> set ?m \<Longrightarrow> k = key_of v"
    using inv unfolding cache_inv_def events_ok_def by blast+
  then show ?thesis unfolding retained_def by (force simp: bt_get_Some_iff bt_values_def)
qed

text \<open>
  What a transaction retains: either nothing changed, or every retained event was retained
  before and not retracted by the decision, or was inserted by it.
\<close>

lemma cache_transact_retained:
  assumes inv: "cache_inv c"
  obtains (same) "retained (snd (cache_transact N decide c)) = retained c"
  | (batch) "\<And>v. v \<in> retained (snd (cache_transact N decide c)) \<Longrightarrow>
      (v \<in> retained c \<and> key_of v \<notin> set (retract_keys (decide (bt_values (cst_events (mc_state c))))))
      \<or> (v \<in> set (upserts_of (decide (bt_values (cst_events (mc_state c)))))
         \<and> event_verify N (re_event v) = Inr ())"
proof (cases rule: cache_transact_events [of N decide c])
  case same
  then have "retained (snd (cache_transact N decide c)) = retained c" by (simp add: retained_def)
  then show thesis by (rule that(1))
next
  case (batch nxt)
  show thesis
  proof (rule that(2))
    fix v
    assume "v \<in> retained (snd (cache_transact N decide c))"
    then have "bt_get (cst_events nxt) (key_of v) = Some v"
      using retained_iff [OF cache_transact_inv [OF inv]] batch(2) by metis
    from cache_apply_values [OF batch(1) this]
    show "(v \<in> retained c \<and> key_of v \<notin> set (retract_keys (decide (bt_values (cst_events (mc_state c))))))
      \<or> (v \<in> set (upserts_of (decide (bt_values (cst_events (mc_state c)))))
         \<and> event_verify N (re_event v) = Inr ())"
      using retained_iff [OF inv] by blast
  qed
qed

definition cache_contents :: "memory_event_cache \<Rightarrow> relay_event list" where
  "cache_contents c = bt_values (cst_events (mc_state c))"

lemma retained_contents: "retained c = set (cache_contents c)"
  by (simp add: retained_def cache_contents_def)

interpretation mem_cache: event_cache N "cache_transact N" cache_contents cache_inv for N
proof unfold_locales
  fix c decide
  assume inv: "cache_inv c"
  then show "cache_inv (snd (cache_transact N decide c))" by (rule cache_transact_inv)
  show "set (cache_contents (snd (cache_transact N decide c))) = set (cache_contents c)
      \<or> (\<forall>v\<in>set (cache_contents (snd (cache_transact N decide c))).
           (v \<in> set (cache_contents c) \<and> key_of v \<notin> set (retract_keys (decide (cache_contents c))))
           \<or> (v \<in> set (upserts_of (decide (cache_contents c))) \<and> event_verify N (re_event v) = Inr ()))"
    by (cases rule: cache_transact_retained [OF inv, of N decide])
      (auto simp: retained_contents [symmetric], auto simp: cache_contents_def)
qed

subsection \<open>Reachable caches\<close>

inductive cache_reach :: "nostr_lib \<Rightarrow> nat \<Rightarrow> memory_event_cache \<Rightarrow> bool" for N capacity where
  bounded: "cache_reach N capacity (cache_bounded capacity)"
| admit: "cache_reach N capacity c \<Longrightarrow> cache_reach N capacity (snd (cache_admit N e now c))"
| expire: "cache_reach N capacity c \<Longrightarrow> cache_reach N capacity (snd (cache_expire N now c))"
| coverage: "cache_reach N capacity c \<Longrightarrow> cache_reach N capacity (retain_source_coverage cov c)"

lemma cache_bounded_inv: "cache_inv (cache_bounded capacity)"
  by (simp add: cache_inv_def cache_bounded_def events_ok_def cache_state_default_def cache_snapshot_def
      source_snapshot_empty_def bt_values_def)

lemma cache_transact_capacity [simp]: "mc_capacity (snd (cache_transact N decide c)) = mc_capacity c"
  by (auto simp: cache_transact_def cache_publish_def Let_def split: sum.splits prod.splits option.splits if_splits)

lemma retained_coverage [simp]: "retained (retain_source_coverage cov c) = retained c"
  by (simp add: retained_def retain_source_coverage_def Let_def)

lemma cache_capacity_coverage [simp]: "mc_capacity (retain_source_coverage cov c) = mc_capacity c"
  by (simp add: retain_source_coverage_def Let_def)

lemma undeleted_subset: "undeleted N vs \<Longrightarrow> ws \<subseteq> vs \<Longrightarrow> undeleted N ws"
  by (auto simp: undeleted_def)

lemma one_winner_subset: "one_winner N vs \<Longrightarrow> ws \<subseteq> vs \<Longrightarrow> one_winner N ws"
  unfolding one_winner_def by blast

lemma verified_subset: "verified N vs \<Longrightarrow> ws \<subseteq> vs \<Longrightarrow> verified N ws"
  unfolding verified_def by blast

lemma cache_reach_inv:
  assumes "cache_reach N capacity c" "capacity > 0"
  shows "cache_inv c \<and> mc_capacity c = capacity"
  using assms
proof (induction rule: cache_reach.induct)
  case bounded
  show ?case by (simp add: cache_bounded_inv) (simp add: cache_bounded_def)
next
  case (admit c e now)
  then show ?case by (simp add: cache_admit_state cache_transact_inv)
next
  case (expire c now)
  then show ?case by (simp add: cache_expire_def cache_transact_inv)
next
  case (coverage c cov)
  then show ?case by (simp add: retain_source_coverage_inv)
qed

lemma retained_bounded [simp]: "retained (cache_bounded capacity) = {}"
  by (simp add: retained_def cache_bounded_def cache_state_default_def bt_values_def)

lemma cache_expire_subset: "cache_inv c \<Longrightarrow> retained (snd (cache_expire N now c)) \<subseteq> retained c"
  unfolding cache_expire_def retained_contents by (rule mem_cache.expire_subset)

text \<open>
  Beside the admission rules the trait lets a caller decide a batch itself, in \<open>transact\<close> and
  \<open>commit\<close>. The provider applies it as it is, so such a batch must respect deletions on its own: what
  it leaves and what it inserts may not hold both a deletion and an event the deletion covers.
\<close>

definition respects_deletions :: "nostr_lib \<Rightarrow> event_state_mutation list \<Rightarrow> relay_event list \<Rightarrow> bool" where
  "respects_deletions N batch current \<longleftrightarrow>
     undeleted N ({v \<in> set current. key_of v \<notin> set (retract_keys batch)} \<union> {v \<in> set (upserts_of batch). event_verify N (re_event v) = Inr ()})"

inductive cache_history :: "nostr_lib \<Rightarrow> nat \<Rightarrow> memory_event_cache \<Rightarrow> bool" for N capacity where
  history_bounded: "cache_history N capacity (cache_bounded capacity)"
| history_admit: "cache_history N capacity c \<Longrightarrow> cache_history N capacity (snd (cache_admit N e now c))"
| history_expire: "cache_history N capacity c \<Longrightarrow> cache_history N capacity (snd (cache_expire N now c))"
| history_coverage: "cache_history N capacity c \<Longrightarrow> cache_history N capacity (retain_source_coverage cov c)"
| history_transact: "cache_history N capacity c \<Longrightarrow> respects_deletions N (decide (cache_contents c)) (cache_contents c) \<Longrightarrow>
    cache_history N capacity (snd (cache_transact N decide c))"
| history_commit: "cache_history N capacity c \<Longrightarrow> respects_deletions N batch (cache_contents c) \<Longrightarrow>
    cache_history N capacity (snd (cache_commit N batch c))"

lemma transact_undeleted:
  assumes "cache_inv c" "undeleted N (retained c)" "respects_deletions N (decide (cache_contents c)) (cache_contents c)"
  shows "undeleted N (retained (snd (cache_transact N decide c)))"
proof (rule cache_transact_retained [OF assms(1), of N decide])
  assume "retained (snd (cache_transact N decide c)) = retained c"
  then show ?thesis using assms(2) by simp
next
  assume batch: "\<And>v. v \<in> retained (snd (cache_transact N decide c)) \<Longrightarrow>
      (v \<in> retained c \<and> key_of v \<notin> set (retract_keys (decide (bt_values (cst_events (mc_state c))))))
      \<or> (v \<in> set (upserts_of (decide (bt_values (cst_events (mc_state c))))) \<and> event_verify N (re_event v) = Inr ())"
  have "retained (snd (cache_transact N decide c)) \<subseteq>
      {v \<in> set (cache_contents c). key_of v \<notin> set (retract_keys (decide (cache_contents c)))}
      \<union> {v \<in> set (upserts_of (decide (cache_contents c))). event_verify N (re_event v) = Inr ()}"
    using batch unfolding cache_contents_def retained_def by blast
  then show ?thesis by (rule undeleted_subset [OF assms(3) [unfolded respects_deletions_def]])
qed

lemma commit_step:
  assumes "cache_inv c" "undeleted N (retained c)" "respects_deletions N batch (cache_contents c)"
  shows "cache_inv (snd (cache_commit N batch c)) \<and> mc_capacity (snd (cache_commit N batch c)) = mc_capacity c
    \<and> undeleted N (retained (snd (cache_commit N batch c)))"
proof (cases "cache_apply N (mc_capacity c) (mc_state c) batch")
  case (Inl e)
  then show ?thesis using assms by (simp add: cache_commit_def)
next
  case (Inr nxt)
  let ?c = "snd (cache_publish nxt c)"
  have inv: "cache_inv ?c" using cache_publish_inv [OF assms(1) Inr] .
  have "undeleted N (retained ?c)"
  proof (cases "checked_add_u64 (cst_revision nxt) 1")
    case None
    then show ?thesis using assms(2) by (simp add: cache_publish_def)
  next
    case (Some r)
    then have same: "cst_events (mc_state ?c) = cst_events nxt" by (simp add: cache_publish_def Let_def)
    have "v \<in> {v \<in> set (cache_contents c). key_of v \<notin> set (retract_keys batch)}
        \<union> {v \<in> set (upserts_of batch). event_verify N (re_event v) = Inr ()}" if "v \<in> retained ?c" for v
    proof -
      have "bt_get (cst_events nxt) (key_of v) = Some v" using that retained_iff [OF inv] same by metis
      from cache_apply_values [OF Inr this] show ?thesis using retained_iff [OF assms(1)] by (auto simp: retained_contents [symmetric])
    qed
    then show ?thesis using assms(3) undeleted_subset unfolding respects_deletions_def by blast
  qed
  moreover have "mc_capacity ?c = mc_capacity c" by (simp add: cache_publish_def Let_def split: option.split)
  ultimately show ?thesis using inv Inr by (simp add: cache_commit_def)
qed

text \<open>
  (C16) No resurrection: in every state the cache reaches through admissions, expirations, coverage
  updates and externally decided batches that themselves respect deletions, no retained event is
  covered by a retained deletion, the bound holds and the published snapshot is current.
\<close>

theorem cache_no_resurrection:
  assumes "cache_history N capacity c" "capacity > 0"
  shows "undeleted N (retained c) \<and> cache_len c \<le> capacity \<and> cache_open q c = cache_snapshot (mc_state c)"
proof -
  have "cache_inv c \<and> mc_capacity c = capacity \<and> undeleted N (retained c)"
    using assms
  proof (induction rule: cache_history.induct)
    case history_bounded
    show ?case by (simp add: cache_bounded_inv undeleted_def) (simp add: cache_bounded_def)
  next
    case (history_admit c e now)
    then show ?case using mem_cache.admit_undeleted by (simp add: cache_admit_state cache_transact_inv retained_contents)
  next
    case (history_expire c now)
    then show ?case
      using cache_expire_subset [of c N now] undeleted_subset by (auto simp: cache_expire_def cache_transact_inv)
  next
    case (history_coverage c cov)
    then show ?case by (simp add: retain_source_coverage_inv)
  next
    case (history_transact c decide)
    then show ?case using transact_undeleted by (simp add: cache_transact_inv)
  next
    case (history_commit c batch)
    then show ?case using commit_step by simp
  qed
  then show ?thesis by (simp add: cache_inv_def events_ok_def cache_len_def cache_open_def)
qed

text \<open>
  One winner: in every reachable state at most one event is retained per relay session
  and replaceable coordinate, provided verified ids determine the coordinate.
\<close>

theorem cache_one_winner:
  assumes "cache_reach N capacity c" "capacity > 0" "ids_bind N"
  shows "one_winner N (retained c) \<and> verified N (retained c)"
  using assms
proof (induction rule: cache_reach.induct)
  case bounded
  show ?case by (simp add: one_winner_def verified_def)
next
  case (admit c e now)
  then have "cache_inv c" using cache_reach_inv by blast
  with admit show ?case
    using mem_cache.admit_one_winner mem_cache.admit_verified
    by (simp add: cache_admit_state retained_contents)
next
  case (expire c now)
  then show ?case
    using cache_expire_subset cache_reach_inv one_winner_subset verified_subset by metis
next
  case (coverage c cov)
  then show ?case by simp
qed

subsection \<open>Evidence and tombstones\<close>

lemma apply_upsert_reports:
  assumes "apply_upsert N cap re st = Inr st'"
  shows "set (cst_retractions st) \<subseteq> set (cst_retractions st')
    \<and> (\<forall>k. bt_get (cst_events st) k \<noteq> None \<longrightarrow> bt_get (cst_events st') k = None \<longrightarrow>
         fst k \<in> sr_event_id ` set (cst_retractions st'))"
  using assms
  by (auto simp: apply_upsert_def Let_def split: sum.splits option.splits if_splits)

lemma apply_upserts_reports:
  assumes "apply_upserts N cap us st = Inr st'"
  shows "set (cst_retractions st) \<subseteq> set (cst_retractions st')
    \<and> (\<forall>k. bt_get (cst_events st) k \<noteq> None \<longrightarrow> bt_get (cst_events st') k = None \<longrightarrow>
         fst k \<in> sr_event_id ` set (cst_retractions st'))"
  using assms
proof (induction N cap us st rule: apply_upserts.induct)
  case (1 N cap st)
  then show ?case by auto
next
  case (2 N cap re us st)
  then obtain mid where mid: "apply_upsert N cap re st = Inr mid" "apply_upserts N cap us mid = Inr st'"
    by (auto split: sum.splits)
  from mid have IH: "set (cst_retractions mid) \<subseteq> set (cst_retractions st')"
    "\<And>k. bt_get (cst_events mid) k \<noteq> None \<Longrightarrow> bt_get (cst_events st') k = None \<Longrightarrow>
         fst k \<in> sr_event_id ` set (cst_retractions st')"
    using 2 by blast+
  note step = apply_upsert_reports [OF mid(1)]
  have "fst k \<in> sr_event_id ` set (cst_retractions st')"
    if "bt_get (cst_events st) k \<noteq> None" "bt_get (cst_events st') k = None" for k
  proof (cases "bt_get (cst_events mid) k = None")
    case True
    with step that(1) IH(1) show ?thesis by blast
  next
    case False
    with IH(2) that(2) show ?thesis by blast
  qed
  with step IH(1) show ?case by blast
qed

text \<open>
  Removals are never silent: every key a committed batch loses, by a retraction or by an
  eviction, is named in the retractions of the new revision; and coverage proofs survive only
  a batch that left the events as they were.
\<close>

theorem cache_apply_evidence:
  assumes "cache_apply N capacity st ms = Inr st'"
  shows "(\<forall>k. bt_get (cst_events st) k \<noteq> None \<longrightarrow> bt_get (cst_events st') k = None \<longrightarrow>
            fst k \<in> sr_event_id ` set (cst_retractions st'))
    \<and> (cst_coverage st' = (if cst_events st' = cst_events st then cst_coverage st else []))"
proof -
  let ?mid0 = "fst (apply_retractions ms (st\<lparr>cst_retractions := []\<rparr>) [])"
  from assms obtain mid where mid: "apply_upserts N capacity (upserts_of ms) ?mid0 = Inr mid"
    "cst_events st' = cst_events mid" "cst_retractions st' = cst_retractions mid"
    by (rule cache_apply_cases)
  have "fst k \<in> sr_event_id ` set (cst_retractions st')"
    if k: "bt_get (cst_events st) k \<noteq> None" "bt_get (cst_events st') k = None" for k
  proof (cases "bt_get (cst_events ?mid0) k = None")
    case True
    then have "k \<in> set (retract_keys ms)"
      using k(1) by (simp add: apply_retractions_spec bt.lookup_fold_delete split: if_splits)
    then have "fst k \<in> sr_event_id ` set (cst_retractions ?mid0)"
      by (rule apply_retractions_reports [THEN conjunct2, rule_format]) (use k(1) in simp)
    then show ?thesis using apply_upserts_reports [OF mid(1)] mid(3) by auto
  next
    case False
    have "bt_get (cst_events mid) k = None" using k(2) mid(2) by simp
    with apply_upserts_reports [OF mid(1), THEN conjunct2, THEN spec [of _ k]] False
    show ?thesis unfolding mid(3) by blast
  qed
  with cache_apply_coverage [OF assms] show ?thesis by blast
qed

lemma fold_remove_cases: "fold bt_remove ks m = m \<or> length (fold bt_remove ks m) < length m"
proof (induction ks arbitrary: m)
  case Nil
  show ?case by simp
next
  case (Cons k ks)
  have "bt_remove k m = m \<or> length (bt_remove k m) < length m"
    using length_bt_remove_less [of m k] bt_remove_absent [of m k] by blast
  with Cons.IH [of "bt_remove k m"] show ?case by auto
qed

lemma apply_upsert_deletion:
  assumes "event_verify N (re_event e) = Inr ()" "ev_kind (re_event e) = kind_event_deletion"
    and "length (cst_events st) < cap \<or> (\<exists>(k, v)\<in>set (cst_events st). ev_kind (re_event v) \<noteq> kind_event_deletion)
      \<or> bt_get (cst_events st) (key_of e) \<noteq> None"
  shows "\<exists>st'. apply_upsert N cap e st = Inr st' \<and> bt_get (cst_events st') (key_of e) \<noteq> None"
proof (cases "bt_get (cst_events st) (key_of e) = None \<and> length (cst_events st) \<ge> cap")
  case True
  with assms(3) obtain evicted where "eviction_candidate (cst_events st) = Some evicted"
    using eviction_candidate_None_iff [of "cst_events st"] by fastforce
  with True assms(1,2) show ?thesis by (simp add: apply_upsert_def Let_def)
next
  case False
  with assms show ?thesis
    by (cases "bt_get (cst_events st) (key_of e)") (auto simp: apply_upsert_def Let_def)
qed

lemma admission_of_deletion:
  assumes "ev_kind (re_event e) = kind_event_deletion" "\<not> event_is_expired (ev_tags (re_event e)) now"
  shows "admission N e now cur = map (retract_of (Deleted (ev_id (re_event e))))
      (List.filter (\<lambda>known. deletion_applies N (re_event e) (re_event known)) (live_events now cur)) @ [Upsert e]"
  using assms deletion_applies_kinds
  by (fastforce simp: admission_def mutations_for_event_def Let_def)

lemma cache_apply_intro:
  assumes "apply_upserts N cap (upserts_of ms) (fst (apply_retractions ms (st\<lparr>cst_retractions := []\<rparr>) [])) = Inr mid"
  shows "cache_apply N cap st ms = Inr (if cst_events mid \<noteq> cst_events st then mid\<lparr>cst_coverage := []\<rparr> else mid)"
  using assms by (simp add: cache_apply_def case_prod_beta apply_retractions_spec)

lemma deletion_batch:
  assumes "cache_inv c" "ev_kind (re_event e) = kind_event_deletion"
    and "event_verify N (re_event e) = Inr ()" "\<not> event_is_expired (ev_tags (re_event e)) now"
    and "cache_len c < mc_capacity c \<or> (\<exists>v\<in>retained c. ev_kind (re_event v) \<noteq> kind_event_deletion)"
  shows "\<exists>nxt. cache_apply N (mc_capacity c) (mc_state c)
      (admit_decision N e now (bt_values (cst_events (mc_state c)))) = Inr nxt
    \<and> bt_get (cst_events nxt) (key_of e) \<noteq> None"
proof -
  let ?m = "cst_events (mc_state c)"
  let ?ms = "admit_decision N e now (bt_values ?m)"
  let ?st = "fst (apply_retractions ?ms ((mc_state c)\<lparr>cst_retractions := []\<rparr>) [])"
  have "cst_events ?st = fold bt_remove (retract_keys ?ms) ?m"
    by (simp add: apply_retractions_spec)
  then have "length (cst_events ?st) < mc_capacity c
      \<or> (\<exists>(k, v)\<in>set (cst_events ?st). ev_kind (re_event v) \<noteq> kind_event_deletion)"
    using fold_remove_cases [of "retract_keys ?ms" ?m] assms(1,5)
    by (force simp: cache_inv_def events_ok_def cache_len_def retained_def bt_values_def)
  then obtain mid where mid: "apply_upsert N (mc_capacity c) e ?st = Inr mid"
    "bt_get (cst_events mid) (key_of e) \<noteq> None"
    using apply_upsert_deletion [OF assms(3,2)] by blast
  then have "apply_upserts N (mc_capacity c) (upserts_of ?ms) ?st = Inr mid"
    by (simp add: admit_decision_keys admission_of_deletion [OF assms(2,4)])
  from cache_apply_intro [OF this] mid(2) show ?thesis
    by (cases "cst_events mid = cst_events (mc_state c)") auto
qed

lemma cache_admit_committed:
  assumes "cache_apply N (mc_capacity c) (mc_state c)
      (admit_decision N e now (bt_values (cst_events (mc_state c)))) = Inr nxt"
    and "admission N e now (bt_values (cst_events (mc_state c))) \<noteq> []" "cst_revision (mc_state c) \<noteq> - 1"
  shows "fst (cache_admit N e now c) = Inr True
    \<and> cst_events (mc_state (snd (cache_admit N e now c))) = cst_events nxt"
proof -
  have "checked_add_u64 (cst_revision nxt) 1 \<noteq> None"
    using cache_apply_coverage [OF assms(1)] assms(3) by (simp add: checked_add_u64_one_None)
  moreover have "admit_decision N e now (bt_values (cst_events (mc_state c))) \<noteq> []"
    using assms(2) by (simp add: admit_decision_def)
  ultimately show ?thesis
    using assms(1,2) by (auto simp: cache_admit_def cache_transact_def cache_publish_def Let_def)
qed

text \<open>
  A tombstone is never lost to the bound: a verified, unexpired deletion is admitted
  unless the cache is full of deletions only, it is retained afterwards, and nothing it covers
  is.
\<close>

theorem cache_admits_deletion:
  assumes "cache_inv c" "ev_kind (re_event e) = kind_event_deletion"
    and "event_verify N (re_event e) = Inr ()" "\<not> event_is_expired (ev_tags (re_event e)) now"
    and "cst_revision (mc_state c) \<noteq> - 1"
    and "cache_len c < mc_capacity c \<or> (\<exists>v\<in>retained c. ev_kind (re_event v) \<noteq> kind_event_deletion)"
  shows "fst (cache_admit N e now c) = Inr True
    \<and> (\<exists>v\<in>retained (snd (cache_admit N e now c)). key_of v = key_of e)
    \<and> (\<forall>t\<in>retained (snd (cache_admit N e now c)). \<not> deletion_applies N (re_event e) (re_event t))"
proof -
  let ?cur = "bt_values (cst_events (mc_state c))" and ?c = "snd (cache_admit N e now c)"
  let ?ms = "admit_decision N e now ?cur"
  note adm = admission_of_deletion [OF assms(2,4), of N ?cur]
  from deletion_batch [OF assms(1-4,6)] obtain nxt where
    nxt: "cache_apply N (mc_capacity c) (mc_state c) ?ms = Inr nxt"
      "bt_get (cst_events nxt) (key_of e) \<noteq> None" by blast
  from cache_admit_committed [OF nxt(1) _ assms(5)] adm
  have res: "fst (cache_admit N e now c) = Inr True" "cst_events (mc_state ?c) = cst_events nxt"
    by simp_all
  have inv': "cache_inv ?c"
    using assms(1) by (simp add: cache_admit_state cache_transact_inv)
  obtain v where "(key_of e, v) \<in> set (cst_events (mc_state ?c))"
    using nxt(2) res(2) bt_get_SomeD by (metis not_None_eq)
  then have "v \<in> retained ?c \<and> key_of v = key_of e"
    using inv' by (force simp: cache_inv_def events_ok_def retained_def bt_values_def)
  moreover have "\<not> deletion_applies N (re_event e) (re_event t)" if "t \<in> retained ?c" for t
  proof
    assume del: "deletion_applies N (re_event e) (re_event t)"
    then have "t \<noteq> e" using deletion_applies_kinds by blast
    have "bt_get (cst_events nxt) (key_of t) = Some t" using that retained_iff [OF inv'] res(2) by simp
    with cache_apply_values [OF nxt(1) this] \<open>t \<noteq> e\<close> have "key_of t \<notin> set (retract_keys ?ms)" "t \<in> set ?cur"
      using retained_iff [OF assms(1)] by (auto simp: admit_decision_keys adm retained_def)
    with del show False by (auto simp: admit_decision_keys adm set_live_events)
  qed
  ultimately show ?thesis using res(1) by blast
qed

text \<open>
  Attribution and verification: an EVENT frame becomes a contribution exactly when the
  relay attributed it to an accepted subscription that authorizes at least one filter, the
  event verifies, and one of that subscription's own filters matches; the contribution is bound
  to the session, the authority and the ingress time of the frame.
\<close>

theorem admit_subscription_event_iff:
  "admit_subscription_event N session auth accepted attributed e now = Inr re \<longleftrightarrow>
     re = relay_event_new e session auth now \<and> event_verify N e = Inr ()
     \<and> (\<exists>filters f. bt_get accepted attributed = Some filters \<and> f \<in> set filters \<and> filter_match_event N f e)"
  by (auto simp: admit_subscription_event_def split: option.splits sum.splits)

subsection \<open>A concrete cache\<close>

definition canonical_event :: "event_id \<Rightarrow> event" where
  "canonical_event i = sample_event i 1 10 (if i = 9 then 5 else 10002) (if i = 9 then [[''e'', ''7'']] else [])"

text \<open>A library whose verified events are determined by their ids.\<close>

definition binding_lib :: nostr_lib where
  "binding_lib = sample_lib\<lparr>event_verify :=
     (\<lambda>e. if e = canonical_event (ev_id e) then Inr () else Inl ''bad id'')\<rparr>"

definition sample_admission :: relay_event where
  "sample_admission = relay_event_new (canonical_event 7) ''wss://a'' Unauthenticated 3"

definition sample_tombstone :: relay_event where
  "sample_tombstone = relay_event_new (canonical_event 9) ''wss://a'' Unauthenticated 4"

definition sample_cache :: memory_event_cache where
  "sample_cache = snd (cache_admit binding_lib sample_admission 20 (cache_bounded 1))"

lemma sample_cache_reach: "cache_reach binding_lib 1 sample_cache"
  unfolding sample_cache_def by (intro cache_reach.intros)

lemma sample_cache_retained: "retained sample_cache = {sample_admission}"
  unfolding retained_def by code_simp

lemma binding_lib_ids: "ids_bind binding_lib"
  by (auto simp: ids_bind_def binding_lib_def kind_event_deletion_def sample_lib_def split: if_splits)

text \<open>The event, its deletion, and the event again: the deletion stays and the event does not come back.\<close>

definition deleted_cache :: memory_event_cache where
  "deleted_cache = snd (cache_admit binding_lib sample_admission 30
     (snd (cache_admit binding_lib sample_tombstone 25 (snd (cache_admit binding_lib sample_admission 20 (cache_bounded 2))))))"

theorem cache_no_resurrection_witness:
  "undeleted binding_lib (retained deleted_cache) \<and> retained deleted_cache = {sample_tombstone}
   \<and> deletion_applies binding_lib (re_event sample_tombstone) (re_event sample_admission)
   \<and> \<not> undeleted binding_lib {sample_tombstone, sample_admission} \<and> cache_len deleted_cache \<le> 2"
proof -
  have "cache_history binding_lib 2 deleted_cache" unfolding deleted_cache_def by (intro cache_history.intros)
  note kept = cache_no_resurrection [OF this]
  moreover have "retained deleted_cache = {sample_tombstone}" unfolding retained_def by code_simp
  moreover have covers: "deletion_applies binding_lib (re_event sample_tombstone) (re_event sample_admission)" by code_simp
  moreover have "\<not> undeleted binding_lib {sample_tombstone, sample_admission}" using covers by (auto simp: undeleted_def)
  ultimately show ?thesis by simp
qed

theorem cache_one_winner_witness:
  "one_winner binding_lib (retained sample_cache) \<and> retained sample_cache = {sample_admission}"
  using cache_one_winner [OF sample_cache_reach _ binding_lib_ids] sample_cache_retained by simp

definition sample_evicted_state :: cache_state where
  "sample_evicted_state = mc_state (snd (cache_admit binding_lib sample_tombstone 20 sample_cache))"

theorem cache_apply_evidence_witness:
  "bt_get (cst_events (mc_state sample_cache)) (7, ''wss://a'') \<noteq> None
   \<and> 7 \<in> sr_event_id ` set (cst_retractions sample_evicted_state)"
proof -
  let ?st = "sample_evicted_state\<lparr>cst_revision := 1\<rparr>"
  have "cache_apply binding_lib 1 (mc_state sample_cache)
      (admit_decision binding_lib sample_tombstone 20 (cache_contents sample_cache)) = Inr ?st"
    by code_simp
  from cache_apply_evidence [OF this]
  have "bt_get (cst_events (mc_state sample_cache)) (7, ''wss://a'') \<noteq> None \<longrightarrow>
      bt_get (cst_events ?st) (7, ''wss://a'') = None \<longrightarrow> fst (7 :: event_id, ''wss://a'') \<in> sr_event_id ` set (cst_retractions ?st)"
    by blast
  moreover have "bt_get (cst_events (mc_state sample_cache)) (7, ''wss://a'') \<noteq> None"
    "bt_get (cst_events ?st) (7, ''wss://a'') = None" by code_simp+
  ultimately show ?thesis by simp
qed

theorem cache_admits_deletion_witness:
  "fst (cache_admit binding_lib sample_tombstone 20 sample_cache) = Inr True
   \<and> (\<exists>v\<in>retained (snd (cache_admit binding_lib sample_tombstone 20 sample_cache)).
        key_of v = key_of sample_tombstone)"
proof -
  have "cache_inv sample_cache" using cache_reach_inv [OF sample_cache_reach] by simp
  moreover have "ev_kind (re_event sample_tombstone) = kind_event_deletion"
    "event_verify binding_lib (re_event sample_tombstone) = Inr ()"
    "\<not> event_is_expired (ev_tags (re_event sample_tombstone)) 20"
    "cst_revision (mc_state sample_cache) \<noteq> - 1"
    "ev_kind (re_event sample_admission) \<noteq> kind_event_deletion" by code_simp+
  ultimately show ?thesis
    using cache_admits_deletion [of sample_cache sample_tombstone binding_lib 20] sample_cache_retained by auto
qed

end
