(* ===== verification/Routing.thy ===== *)
theory Routing
  imports Query
begin

section \<open>Ordered routing (\<open>fava-routing\<close>)\<close>

text \<open>
  \<open>crates/fava-routing/src/lib.rs\<close> and \<open>chain.rs\<close>: requests and their targets, the
  contribution of one router, the plan built from a contribution, and the chain that composes
  an ordered list of routers while isolating the failures of each. A router is a parameter of
  the chain: a record of the methods of the two traits, whose calls may return, refuse or panic.
  A panic inside the chain itself, which nothing catches, is the value None of its operations.
\<close>

subsection \<open>Requests and targets\<close>

datatype route_request = Read query | Write event_value authority

datatype route_target =
    WholeRequest
  | Author public_key
  | Recipient public_key
  | ReferencedEvent event_id

text \<open>The derived order: variants in declaration order, then the key.\<close>

fun target_key :: "route_target \<Rightarrow> nat \<times> 256 word" where
  "target_key WholeRequest = (0, 0)"
| "target_key (Author k) = (1, k)"
| "target_key (Recipient k) = (2, k)"
| "target_key (ReferencedEvent i) = (3, i)"

lemma target_key_inject [simp]: "target_key s = target_key t \<longleftrightarrow> s = t"
  by (cases s; cases t) auto

instantiation route_target :: linorder
begin

definition less_eq_route_target :: "route_target \<Rightarrow> route_target \<Rightarrow> bool" where
  "less_eq_route_target s t = (target_key s \<le> target_key t)"

definition less_route_target :: "route_target \<Rightarrow> route_target \<Rightarrow> bool" where
  "less_route_target s t = (target_key s < target_key t)"

instance
  by standard (auto simp: less_eq_route_target_def less_route_target_def less_le_not_le
      simp flip: target_key_inject)

end

definition tag_targets :: "nostr_lib \<Rightarrow> tag \<Rightarrow> route_target btree_set \<Rightarrow> route_target btree_set" where
  "tag_targets N t targets =
     (let targets = (if nth_opt t 0 = Some ''p''
                     then (case Option.bind (nth_opt t 1) (public_key_parse N) of
                             Some k \<Rightarrow> bs_insert (Recipient k) targets | None \<Rightarrow> targets)
                     else targets)
      in if nth_opt t 0 = Some ''e''
         then (case Option.bind (nth_opt t 1) (event_id_parse N) of
                 Some i \<Rightarrow> bs_insert (ReferencedEvent i) targets | None \<Rightarrow> targets)
         else targets)"

fun request_targets :: "nostr_lib \<Rightarrow> route_request \<Rightarrow> route_target btree_set" where
  "request_targets N (Read q) =
     (case sel_authors (q_selection q) of
        Some (a # as) \<Rightarrow> bs_of_list (map Author (a # as))
      | _ \<Rightarrow> (case sel_ids (q_selection q) of
                Some (i # is) \<Rightarrow> bs_of_list (map ReferencedEvent (i # is))
              | _ \<Rightarrow> [WholeRequest]))"
| "request_targets N (Write v access) = fold (tag_targets N) (value_tags v) [Author (value_author v)]"

fun request_access :: "route_request \<Rightarrow> authority" where
  "request_access (Read q) = q_access q"
| "request_access (Write v access) = access"

fun request_event :: "route_request \<Rightarrow> event_value option" where
  "request_event (Read q) = None"
| "request_event (Write v access) = Some v"

fun is_read :: "route_request \<Rightarrow> bool" where
  "is_read (Read _) = True"
| "is_read (Write _ _) = False"

fun is_write :: "route_request \<Rightarrow> bool" where
  "is_write (Read _) = False"
| "is_write (Write _ _) = True"

subsection \<open>Contributions and plans\<close>

datatype coverage_state =
    Covered "relay_url btree_set"
  | Unresolved
  | SettledAbsent

record route_destination =
  ds_session :: relay_url
  ds_targets :: "route_target btree_set"
  ds_router :: string
  ds_reason :: string

definition destination_new :: "relay_url \<Rightarrow> route_target btree_set \<Rightarrow> string \<Rightarrow> route_destination" where
  "destination_new session targets reason =
     \<lparr>ds_session = session, ds_targets = targets, ds_router = [], ds_reason = reason\<rparr>"

definition set_router :: "string \<Rightarrow> route_destination \<Rightarrow> route_destination" where
  "set_router router d = d\<lparr>ds_router := router\<rparr>"

record route_contribution =
  ct_destinations :: "route_destination list"
  ct_coverage :: "(route_target, coverage_state) btree_map"
  ct_unresolved :: "route_target btree_set"
  ct_shortfalls :: "string list"

definition contribution_default :: route_contribution where
  "contribution_default =
     \<lparr>ct_destinations = [], ct_coverage = [], ct_unresolved = [], ct_shortfalls = []\<rparr>"

record planned_relay =
  pl_session :: relay_url
  pl_targets :: "route_target btree_set"
  pl_reasons :: "(string \<times> string) btree_set"

record route_plan =
  rp_revision :: u64
  rp_destinations :: "(relay_url, planned_relay) btree_map"
  rp_coverage :: "(route_target, coverage_state) btree_map"
  rp_unresolved :: "route_target btree_set"
  rp_shortfalls :: "string list"

definition plan_default :: route_plan where
  "plan_default = \<lparr>rp_revision = 0, rp_destinations = [], rp_coverage = [], rp_unresolved = [],
     rp_shortfalls = []\<rparr>"

definition plan_settled :: "route_plan \<Rightarrow> bool" where
  "plan_settled p = (rp_unresolved p = [])"

datatype router_error = Refused string | Closed

fun router_error_text :: "router_error \<Rightarrow> string" where
  "router_error_text (Refused t) = ''router refused work: '' @ t"
| "router_error_text Closed = ''router session closed''"

fun merge_coverage :: "coverage_state \<Rightarrow> coverage_state \<Rightarrow> coverage_state" where
  "merge_coverage current (Covered incoming) =
     (case current of
        Covered c \<Rightarrow> Covered (fold bs_insert incoming c)
      | _ \<Rightarrow> Covered incoming)"
| "merge_coverage current Unresolved = (case current of Covered c \<Rightarrow> Covered c | _ \<Rightarrow> Unresolved)"
| "merge_coverage current SettledAbsent = current"

text \<open>\<open>merge_coverage(coverage.entry(target).or_insert(Unresolved), state)\<close>\<close>

definition merge_target ::
  "route_target \<Rightarrow> coverage_state \<Rightarrow> (route_target, coverage_state) btree_map
     \<Rightarrow> (route_target, coverage_state) btree_map" where
  "merge_target t s m =
     bt_insert t (merge_coverage (case bt_get m t of Some c \<Rightarrow> c | None \<Rightarrow> Unresolved) s) m"

definition MAX_DESTINATIONS :: nat where
  "MAX_DESTINATIONS = 256"

definition MAX_COVERED_SESSIONS :: nat where
  "MAX_COVERED_SESSIONS = 256"

definition MAX_SHORTFALLS :: nat where
  "MAX_SHORTFALLS = 256"

definition MAX_TEXT_BYTES :: nat where
  "MAX_TEXT_BYTES = 4096"

definition bounded :: "string \<Rightarrow> nat \<Rightarrow> nat \<Rightarrow> router_error + unit" where
  "bounded label actual maximum =
     (if actual > maximum
      then Inl (Refused (label @ '' exceed bound: '' @ show_nat actual @ '' > '' @ show_nat maximum))
      else Inr ())"

definition validate_bounds :: "route_contribution \<Rightarrow> router_error + unit" where
  "validate_bounds c =
     (case bounded ''route destinations'' (length (bs_of_list (map ds_session (ct_destinations c)))) MAX_DESTINATIONS of
        Inl e \<Rightarrow> Inl e
      | Inr _ \<Rightarrow> (case check_all (\<lambda>d. bounded ''route reason'' (length (ds_reason d)) MAX_TEXT_BYTES) (ct_destinations c) of
          Inl e \<Rightarrow> Inl e
        | Inr _ \<Rightarrow> (case check_all (\<lambda>s. case s of
                          Covered sessions \<Rightarrow> bounded ''covered relay sessions'' (length sessions) MAX_COVERED_SESSIONS
                        | _ \<Rightarrow> Inr ()) (bt_values (ct_coverage c)) of
            Inl e \<Rightarrow> Inl e
          | Inr _ \<Rightarrow> check_all (\<lambda>s. bounded ''route shortfall'' (length s) MAX_TEXT_BYTES) (ct_shortfalls c))))"

text \<open>One destination of a contribution enters the plan.\<close>

definition plan_relay ::
  "route_destination \<Rightarrow> (relay_url, planned_relay) btree_map \<Rightarrow> (relay_url, planned_relay) btree_map" where
  "plan_relay d m =
     (let planned = (case bt_get m (ds_session d) of
                       Some p \<Rightarrow> p
                     | None \<Rightarrow> \<lparr>pl_session = ds_session d, pl_targets = [], pl_reasons = []\<rparr>)
      in bt_insert (ds_session d)
           (planned\<lparr>pl_targets := fold bs_insert (ds_targets d) (pl_targets planned),
                    pl_reasons := bs_insert (ds_router d, ds_reason d) (pl_reasons planned)\<rparr>) m)"

definition cover_targets ::
  "route_destination \<Rightarrow> (route_target, coverage_state) btree_map \<Rightarrow> (route_target, coverage_state) btree_map" where
  "cover_targets d m = fold (\<lambda>t. merge_target t (Covered [ds_session d])) (ds_targets d) m"

definition plan_from_contribution :: "u64 \<Rightarrow> route_contribution \<Rightarrow> router_error + route_plan" where
  "plan_from_contribution revision c =
     (case validate_bounds c of
        Inl e \<Rightarrow> Inl e
      | Inr _ \<Rightarrow> Inr \<lparr>rp_revision = revision,
          rp_destinations = fold plan_relay (ct_destinations c) [],
          rp_coverage = fold cover_targets (ct_destinations c) (ct_coverage c),
          rp_unresolved = fold bs_insert
             (map fst (List.filter (\<lambda>(t, s). s = Unresolved) (ct_coverage c))) (ct_unresolved c),
          rp_shortfalls = ct_shortfalls c\<rparr>)"

definition plan_shortfall :: "nostr_lib \<Rightarrow> u64 \<Rightarrow> route_request \<Rightarrow> string \<Rightarrow> route_plan" where
  "plan_shortfall N revision request reason =
     \<lparr>rp_revision = revision, rp_destinations = [],
      rp_coverage = bt_of_list (map (\<lambda>t. (t, Unresolved)) (request_targets N request)),
      rp_unresolved = request_targets N request, rp_shortfalls = [reason]\<rparr>"

definition plan_explicit :: "relay_url list \<Rightarrow> route_target btree_set \<Rightarrow> router_error + route_plan" where
  "plan_explicit relays targets =
     plan_from_contribution 1
       (contribution_default\<lparr>ct_destinations :=
          map (\<lambda>r. set_router ''explicit'' (destination_new r targets ''application-selected relay'')) relays\<rparr>)"

subsection \<open>Routers\<close>

record 's router =
  rt_name :: string
  rt_queries :: "route_request \<Rightarrow> route_plan \<Rightarrow> (router_error + query list) outcome"
  rt_preview :: "route_request \<Rightarrow> route_plan \<Rightarrow> query_snapshot list
    \<Rightarrow> (router_error + route_contribution) outcome"
  rt_open :: "route_request \<Rightarrow> route_plan \<Rightarrow> query_snapshot list \<Rightarrow> (router_error + 's) outcome"
  rt_current :: "'s \<Rightarrow> route_contribution outcome"
  rt_replace :: "'s \<Rightarrow> route_plan \<Rightarrow> query_snapshot list \<Rightarrow> (router_error + route_contribution) outcome \<times> 's"
  rt_close :: "'s \<Rightarrow> 's"

definition isolate :: "string \<Rightarrow> (router_error + 'a) outcome \<Rightarrow> router_error + 'a" where
  "isolate action call =
     (case call of
        Panicked \<Rightarrow> Inl (Refused (''router panicked while '' @ action))
      | Returned r \<Rightarrow> r)"

definition attribute :: "route_contribution \<Rightarrow> string \<Rightarrow> router_error + route_contribution" where
  "attribute c router =
     (let c = c\<lparr>ct_destinations := map (set_router router) (ct_destinations c)\<rparr> in
      case bounded ''route shortfalls'' (length (ct_shortfalls c)) MAX_SHORTFALLS of
        Inl e \<Rightarrow> Inl e
      | Inr _ \<Rightarrow> (case validate_bounds c of Inl e \<Rightarrow> Inl e | Inr _ \<Rightarrow> Inr c))"

text \<open>\<open>String::truncate\<close> panics inside a character.\<close>

definition bounded_error :: "string \<Rightarrow> router_error \<Rightarrow> string option" where
  "bounded_error router e =
     (let txt = router @ '': '' @ router_error_text e in
      if length txt \<le> MAX_TEXT_BYTES then Some txt
      else if is_char_boundary txt MAX_TEXT_BYTES then Some (take MAX_TEXT_BYTES txt)
      else None)"

fun validate_names_loop :: "string btree_set \<Rightarrow> string list \<Rightarrow> router_error + unit" where
  "validate_names_loop names [] = Inr ()"
| "validate_names_loop names (n # ns) =
     (if n = [] then Inl (Refused ''router name is empty'')
      else case bounded ''router name'' (length n) MAX_TEXT_BYTES of
        Inl e \<Rightarrow> Inl e
      | Inr _ \<Rightarrow> if n \<in> set names then Inl (Refused (''duplicate router name: '' @ n))
                 else validate_names_loop (bs_insert n names) ns)"

definition validate_names :: "'s router list \<Rightarrow> router_error + unit" where
  "validate_names routers = validate_names_loop [] (map rt_name routers)"

subsection \<open>The composer\<close>

record composer =
  cp_contributions :: "route_contribution list"
  cp_answered :: "bool list"
  cp_shortfalls :: "string list"
  cp_discarded :: nat
  cp_targets :: "route_target btree_set"

definition composer_new :: "nat \<Rightarrow> route_target btree_set \<Rightarrow> composer" where
  "composer_new routers targets =
     \<lparr>cp_contributions = replicate routers contribution_default, cp_answered = replicate routers False,
      cp_shortfalls = [], cp_discarded = 0, cp_targets = targets\<rparr>"

definition composer_record :: "string \<Rightarrow> composer \<Rightarrow> composer" where
  "composer_record shortfall c =
     (if length (cp_shortfalls c) < MAX_SHORTFALLS then c\<lparr>cp_shortfalls := cp_shortfalls c @ [shortfall]\<rparr>
      else c\<lparr>cp_discarded := saturating_add (cp_discarded c) 1\<rparr>)"

definition combine_step :: "route_contribution \<Rightarrow> route_contribution \<Rightarrow> route_contribution" where
  "combine_step c acc =
     \<lparr>ct_destinations = ct_destinations acc @ ct_destinations c,
      ct_coverage = fold (\<lambda>(t, s). merge_target t s) (ct_coverage c) (ct_coverage acc),
      ct_unresolved = fold bs_insert (ct_unresolved c) (ct_unresolved acc),
      ct_shortfalls = ct_shortfalls acc @ ct_shortfalls c\<rparr>"

definition combine :: "route_contribution list \<Rightarrow> route_contribution" where
  "combine cs = fold combine_step cs contribution_default"

definition complete_target :: "bool \<Rightarrow> route_target \<Rightarrow> route_contribution \<Rightarrow> route_contribution" where
  "complete_target all_answered t c =
     (case bt_get (ct_coverage c) t of
        Some _ \<Rightarrow> c
      | None \<Rightarrow>
          if all_answered then c\<lparr>ct_coverage := bt_insert t SettledAbsent (ct_coverage c)\<rparr>
          else c\<lparr>ct_unresolved := bs_insert t (ct_unresolved c),
                 ct_coverage := bt_insert t Unresolved (ct_coverage c)\<rparr>)"

definition complete_targets ::
  "route_contribution \<Rightarrow> route_target btree_set \<Rightarrow> bool \<Rightarrow> route_contribution" where
  "complete_targets c targets all_answered = fold (complete_target all_answered) targets c"

definition all_answered :: "composer \<Rightarrow> bool" where
  "all_answered c = list_all id (cp_answered c)"

definition merged :: "composer \<Rightarrow> route_contribution" where
  "merged c = complete_targets (combine (cp_contributions c)) (cp_targets c) (all_answered c)"

definition composer_accept :: "nat \<Rightarrow> string \<Rightarrow> route_contribution \<Rightarrow> composer \<Rightarrow> composer option" where
  "composer_accept index router contribution c =
     (let c' = c\<lparr>cp_contributions := (cp_contributions c)[index := contribution],
                 cp_answered := (cp_answered c)[index := True]\<rparr>
      in case validate_bounds (merged c') of
           Inl e \<Rightarrow> map_option (\<lambda>t. composer_record t c) (bounded_error router e)
         | Inr _ \<Rightarrow> Some c')"

definition discarded_text :: "nat \<Rightarrow> string" where
  "discarded_text discarded = ''chain: '' @ show_nat discarded
     @ '' further route shortfalls discarded beyond the '' @ show_nat MAX_SHORTFALLS @ ''-entry bound''"

definition combined :: "composer \<Rightarrow> route_contribution" where
  "combined c =
     (let m = merged c;
          ss = ct_shortfalls m @ cp_shortfalls c;
          full = length ss \<ge> MAX_SHORTFALLS;
          discarded = (if full then saturating_add (cp_discarded c) (length ss - MAX_SHORTFALLS + 1)
                       else cp_discarded c);
          ss = (if full then take (MAX_SHORTFALLS - 1) ss else ss)
      in m\<lparr>ct_shortfalls := (if discarded > 0 then ss @ [discarded_text discarded] else ss)\<rparr>)"

definition upstream_plan :: "nat \<Rightarrow> u64 \<Rightarrow> composer \<Rightarrow> route_plan" where
  "upstream_plan index revision c =
     (let answered = index \<ge> length (cp_contributions c) \<and> all_answered c;
          upstream = complete_targets (combine (take index (cp_contributions c))) (cp_targets c) answered
      in case plan_from_contribution revision upstream of Inl _ \<Rightarrow> plan_default | Inr p \<Rightarrow> p)"

definition composer_plan :: "u64 \<Rightarrow> composer \<Rightarrow> router_error + route_plan" where
  "composer_plan revision c = plan_from_contribution revision (combined c)"

text \<open>
  The tail the three loops share: an answer is attributed and accepted, a refusal is recorded.
\<close>

definition composer_settle ::
  "nat \<Rightarrow> string \<Rightarrow> router_error + route_contribution \<Rightarrow> composer \<Rightarrow> composer option" where
  "composer_settle index router answer c =
     (case (case answer of Inl e \<Rightarrow> Inl e | Inr v \<Rightarrow> attribute v router) of
        Inr v \<Rightarrow> composer_accept index router v c
      | Inl e \<Rightarrow> map_option (\<lambda>t. composer_record t c) (bounded_error router e))"

subsection \<open>Declaring, previewing and opening a chain\<close>

definition exact_inputs :: "query list \<Rightarrow> query_snapshot list \<Rightarrow> router_error + unit" where
  "exact_inputs declared inputs =
     (if length declared = length inputs then Inr ()
      else Inl (Refused ''router input count does not match declaration''))"

fun queries_loop ::
  "route_request \<Rightarrow> composer \<Rightarrow> nat \<Rightarrow> 's router list \<Rightarrow> router_error + query list list" where
  "queries_loop request c index [] = Inr []"
| "queries_loop request c index (r # rs) =
     (case isolate ''declaring queries'' (rt_queries r request (upstream_plan index 1 c)) of
        Inl e \<Rightarrow> Inl e
      | Inr qs \<Rightarrow> (case queries_loop request c (Suc index) rs of Inl e \<Rightarrow> Inl e | Inr qss \<Rightarrow> Inr (qs # qss)))"

definition chain_queries ::
  "nostr_lib \<Rightarrow> 's router list \<Rightarrow> route_request \<Rightarrow> router_error + query list list" where
  "chain_queries N routers request =
     (case validate_names routers of
        Inl e \<Rightarrow> Inl e
      | Inr _ \<Rightarrow> queries_loop request (composer_new (length routers) (request_targets N request)) 0 routers)"

definition preview_answer ::
  "'s router \<Rightarrow> route_request \<Rightarrow> route_plan \<Rightarrow> query_snapshot list \<Rightarrow> router_error + route_contribution" where
  "preview_answer r request upstream inputs =
     (case isolate ''declaring queries'' (rt_queries r request upstream) of
        Inl e \<Rightarrow> Inl e
      | Inr declared \<Rightarrow> (case exact_inputs declared inputs of
          Inl e \<Rightarrow> Inl e
        | Inr _ \<Rightarrow> isolate ''previewing'' (rt_preview r request upstream inputs)))"

fun preview_loop ::
  "route_request \<Rightarrow> nat \<Rightarrow> ('s router \<times> query_snapshot list) list \<Rightarrow> composer \<Rightarrow> composer option" where
  "preview_loop request index [] c = Some c"
| "preview_loop request index ((r, inputs) # rest) c =
     Option.bind (composer_settle index (rt_name r)
                    (preview_answer r request (upstream_plan index 1 c) inputs) c)
       (preview_loop request (Suc index) rest)"

definition chain_preview ::
  "nostr_lib \<Rightarrow> 's router list \<Rightarrow> route_request \<Rightarrow> query_snapshot list list
     \<Rightarrow> (router_error + route_plan) option" where
  "chain_preview N routers request inputs =
     (case validate_names routers of
        Inl e \<Rightarrow> Some (Inl e)
      | Inr _ \<Rightarrow>
          if length inputs \<noteq> length routers
          then Some (Inl (Refused ''router input groups do not match routers''))
          else map_option (composer_plan 1)
                 (preview_loop request 0 (zip routers inputs)
                    (composer_new (length routers) (request_targets N request))))"

text \<open>
  A session slot holds the router whose methods the session object has, and the state of the
  object. \<open>open_slot\<close> is the body of the loop of \<open>open\<close>: the declared count, the slot, and the
  answer given to the composer.
\<close>

type_synonym 's session_slot = "('s router \<times> 's) option"

record 's opened_chain =
  oc_sessions :: "'s session_slot list"
  oc_composer :: composer
  oc_counts :: "nat list"
  oc_closed :: bool

definition current_contribution :: "'s router \<Rightarrow> 's \<Rightarrow> router_error + route_contribution" where
  "current_contribution r s =
     (case isolate ''reading its current contribution''
             (case rt_current r s of Panicked \<Rightarrow> Panicked | Returned v \<Rightarrow> Returned (Inr v)) of
        Inl e \<Rightarrow> Inl e
      | Inr v \<Rightarrow> attribute v (rt_name r))"

definition open_session ::
  "'s router \<Rightarrow> route_request \<Rightarrow> route_plan \<Rightarrow> query_snapshot list \<Rightarrow> nat \<times> (router_error + 's)" where
  "open_session r request upstream inputs =
     (case isolate ''declaring queries'' (rt_queries r request upstream) of
        Inl e \<Rightarrow> (0, Inl e)
      | Inr declared \<Rightarrow>
          (length declared,
           case exact_inputs declared inputs of
             Inl e \<Rightarrow> Inl e
           | Inr _ \<Rightarrow> isolate ''opening'' (rt_open r request upstream inputs)))"

definition open_slot ::
  "nat \<Rightarrow> 's router \<Rightarrow> router_error + 's \<Rightarrow> composer \<Rightarrow> ('s session_slot \<times> composer) option" where
  "open_slot index r result c =
     (case result of
        Inl e \<Rightarrow> map_option (\<lambda>t. (None, composer_record t c)) (bounded_error (rt_name r) e)
      | Inr s \<Rightarrow>
          (case current_contribution r s of
             Inl e \<Rightarrow> map_option (\<lambda>t. (None, composer_record t c)) (bounded_error (rt_name r) e)
           | Inr v \<Rightarrow> map_option (\<lambda>c'. (Some (r, s), c')) (composer_accept index (rt_name r) v c)))"

fun open_loop ::
  "route_request \<Rightarrow> nat \<Rightarrow> ('s router \<times> query_snapshot list) list \<Rightarrow> 's session_slot list \<Rightarrow> nat list
     \<Rightarrow> composer \<Rightarrow> ('s session_slot list \<times> nat list \<times> composer) option" where
  "open_loop request index [] slots counts c = Some (slots, counts, c)"
| "open_loop request index ((r, inputs) # rest) slots counts c =
     (let (count, result) = open_session r request (upstream_plan index 1 c) inputs in
      case open_slot index r result c of
        None \<Rightarrow> None
      | Some (slot, c') \<Rightarrow> open_loop request (Suc index) rest (slots @ [slot]) (counts @ [count]) c')"

definition chain_open ::
  "nostr_lib \<Rightarrow> 's router list \<Rightarrow> route_request \<Rightarrow> query_snapshot list list
     \<Rightarrow> (router_error + 's opened_chain) option" where
  "chain_open N routers request inputs =
     (case validate_names routers of
        Inl e \<Rightarrow> Some (Inl e)
      | Inr _ \<Rightarrow>
          if length inputs \<noteq> length routers
          then Some (Inl (Refused ''router input groups do not match routers''))
          else map_option (\<lambda>(slots, counts, c).
                   Inr \<lparr>oc_sessions = slots, oc_composer = c, oc_counts = counts, oc_closed = False\<rparr>)
                 (open_loop request 0 (zip routers inputs) [] []
                    (composer_new (length routers) (request_targets N request))))"

definition chain_current :: "'s opened_chain \<Rightarrow> route_contribution" where
  "chain_current oc = combined (oc_composer oc)"

fun replace_loop ::
  "nat \<Rightarrow> ('s session_slot \<times> nat) list \<Rightarrow> query_snapshot list \<Rightarrow> 's session_slot list \<Rightarrow> composer
     \<Rightarrow> ('s session_slot list \<times> composer) option" where
  "replace_loop index [] inputs slots c = Some (slots, c)"
| "replace_loop index ((slot, count) # rest) inputs slots c =
     (case slot of
        None \<Rightarrow> replace_loop (Suc index) rest (drop count inputs) (slots @ [None]) c
      | Some (r, s) \<Rightarrow>
          (let (answer, s') = rt_replace r s (upstream_plan index 1 c) (take count inputs) in
           case composer_settle index (rt_name r) (isolate ''replacing'' answer) c of
             None \<Rightarrow> None
           | Some c' \<Rightarrow> replace_loop (Suc index) rest (drop count inputs) (slots @ [Some (r, s')]) c'))"

definition chain_replace ::
  "query_snapshot list \<Rightarrow> 's opened_chain
     \<Rightarrow> ((router_error + route_contribution) \<times> 's opened_chain) option" where
  "chain_replace inputs oc =
     (if oc_closed oc then Some (Inl Closed, oc)
      else if length inputs \<noteq> sum_list (oc_counts oc)
      then Some (Inl (Refused ''router replacement input count changed''), oc)
      else map_option (\<lambda>(slots, c). let oc' = oc\<lparr>oc_sessions := slots, oc_composer := c\<rparr>
                                      in (Inr (chain_current oc'), oc'))
             (replace_loop 0 (zip (oc_sessions oc) (oc_counts oc)) inputs [] (oc_composer oc)))"

definition chain_close :: "'s opened_chain \<Rightarrow> 's opened_chain" where
  "chain_close oc =
     (if oc_closed oc then oc
      else oc\<lparr>oc_closed := True,
              oc_sessions := map (map_option (\<lambda>(r, s). (r, rt_close r s))) (oc_sessions oc)\<rparr>)"

subsection \<open>Bounds\<close>

lemma length_bs_of_list: "length (bs_of_list xs) = card (set xs)"
  using distinct_card [OF bs_wf_distinct [OF bs_wf_of_list [of xs]]] by simp

lemma bounded_ok_iff [simp]: "bounded label n m = Inr () \<longleftrightarrow> n \<le> m"
  by (auto simp: bounded_def)

lemma bounded_Inl: "bounded label n m = Inl e \<Longrightarrow> ascii label \<Longrightarrow> \<exists>t. e = Refused t \<and> ascii t"
  by (auto simp: bounded_def split: if_splits)

definition coverage_bounded :: "coverage_state \<Rightarrow> bool" where
  "coverage_bounded s = (case s of Covered sessions \<Rightarrow> length sessions \<le> MAX_COVERED_SESSIONS | _ \<Rightarrow> True)"

lemma validate_bounds_ok_iff:
  "validate_bounds c = Inr () \<longleftrightarrow>
     card (ds_session ` set (ct_destinations c)) \<le> MAX_DESTINATIONS
     \<and> (\<forall>d\<in>set (ct_destinations c). length (ds_reason d) \<le> MAX_TEXT_BYTES)
     \<and> (\<forall>s\<in>set (bt_values (ct_coverage c)). coverage_bounded s)
     \<and> (\<forall>s\<in>set (ct_shortfalls c). length s \<le> MAX_TEXT_BYTES)"
proof -
  have step: "(case x of Inl e \<Rightarrow> Inl e | Inr _ \<Rightarrow> y) = Inr () \<longleftrightarrow> x = Inr () \<and> y = Inr ()"
    for x y :: "router_error + unit" by (cases x) auto
  have cov: "(case s of Covered ss \<Rightarrow> bounded l (length ss) MAX_COVERED_SESSIONS | _ \<Rightarrow> Inr ()) = Inr ()
      \<longleftrightarrow> coverage_bounded s" for s l
    by (cases s) (auto simp: coverage_bounded_def)
  show ?thesis
    unfolding validate_bounds_def by (simp add: step check_all_ok_iff cov length_bs_of_list)
qed

lemma validate_bounds_ascii:
  assumes "validate_bounds c = Inl e"
  shows "\<exists>t. e = Refused t \<and> ascii t"
  using assms unfolding validate_bounds_def
  by (auto split: sum.splits coverage_state.splits dest!: check_all_InlD bounded_Inl)

text \<open>Errors whose text can be cut at any byte past the name.\<close>

fun error_ascii :: "router_error \<Rightarrow> bool" where
  "error_ascii (Refused t) = ascii t"
| "error_ascii Closed = True"

lemma error_ascii_text: "error_ascii e \<Longrightarrow> ascii (router_error_text e)"
  by (cases e) auto

lemma bounded_error_Some:
  assumes "length router \<le> MAX_TEXT_BYTES" "error_ascii e"
  shows "bounded_error router e \<noteq> None"
proof -
  let ?t = "router @ '': '' @ router_error_text e"
  have "(of_char (?t ! MAX_TEXT_BYTES) :: nat) < 128" if "MAX_TEXT_BYTES < length ?t"
  proof -
    have "?t ! MAX_TEXT_BYTES = ('': '' @ router_error_text e) ! (MAX_TEXT_BYTES - length router)"
      using assms(1) by (simp only: nth_append) simp
    moreover have "('': '' @ router_error_text e) ! (MAX_TEXT_BYTES - length router)
        \<in> set ('': '' @ router_error_text e)"
      using that assms(1) by (intro nth_mem) simp
    moreover have "ascii ('': '' @ router_error_text e)" using error_ascii_text [OF assms(2)] by simp
    ultimately show ?thesis unfolding ascii_def by metis
  qed
  then show ?thesis by (auto simp: bounded_error_def Let_def is_char_boundary_def)
qed

lemma bounded_error_length: "bounded_error router e = Some t \<Longrightarrow> length t \<le> MAX_TEXT_BYTES"
  by (auto simp: bounded_error_def Let_def split: if_splits)

subsection \<open>Coverage\<close>

lemma bt_get_merge_target:
  "bt_get (merge_target t s m) u =
     (if u = t then Some (merge_coverage (case bt_get m t of Some c \<Rightarrow> c | None \<Rightarrow> Unresolved) s)
      else bt_get m u)"
  by (simp add: merge_target_def)

lemma bt_wf_merge_target [bt_wf_intros]: "bt_wf m \<Longrightarrow> bt_wf (merge_target t s m)"
  by (simp add: merge_target_def bt_wf_insert)

lemma complete_target_coverage:
  "bt_get (ct_coverage (complete_target a t c)) u =
     (if u = t \<and> bt_get (ct_coverage c) t = None then Some (if a then SettledAbsent else Unresolved)
      else bt_get (ct_coverage c) u)"
  by (auto simp: complete_target_def split: option.splits)

lemma complete_target_frame [simp]:
  "ct_destinations (complete_target a t c) = ct_destinations c"
  "ct_shortfalls (complete_target a t c) = ct_shortfalls c"
  by (simp_all add: complete_target_def split: option.splits)

lemma complete_targets_frame [simp]:
  "ct_destinations (complete_targets c ts a) = ct_destinations c"
  "ct_shortfalls (complete_targets c ts a) = ct_shortfalls c"
  unfolding complete_targets_def by (induction ts arbitrary: c) simp_all

lemma complete_targets_coverage:
  "bt_get (ct_coverage (complete_targets c ts a)) u =
     (if u \<in> set ts \<and> bt_get (ct_coverage c) u = None then Some (if a then SettledAbsent else Unresolved)
      else bt_get (ct_coverage c) u)"
  unfolding complete_targets_def
  by (induction ts arbitrary: c) (auto simp: complete_target_coverage)

lemma complete_targets_unresolved:
  "set (ct_unresolved (complete_targets c ts False)) =
     set (ct_unresolved c) \<union> {t \<in> set ts. bt_get (ct_coverage c) t = None}"
  unfolding complete_targets_def
proof (induction ts arbitrary: c)
  case Nil
  show ?case by simp
next
  case (Cons t ts)
  show ?case
    by (simp add: Cons.IH complete_target_coverage)
      (auto simp: complete_target_def split: option.splits)
qed

lemma values_coverage_bounded:
  assumes "\<And>u s. bt_get m u = Some s \<Longrightarrow> coverage_bounded s" "bt_wf m"
  shows "\<forall>s\<in>set (bt_values m). coverage_bounded s"
  using assms by (auto simp: set_bt_values)

lemma bt_wf_complete_targets: "bt_wf (ct_coverage c) \<Longrightarrow> bt_wf (ct_coverage (complete_targets c ts a))"
  unfolding complete_targets_def
proof (induction ts arbitrary: c)
  case Nil
  then show ?case by simp
next
  case (Cons t ts)
  have "bt_wf (ct_coverage (complete_target a t c))"
    using Cons.prems by (simp add: complete_target_def bt_wf_insert split: option.splits)
  from Cons.IH [OF this] show ?case by simp
qed

lemma combine_defaults: "combine (replicate n contribution_default) = contribution_default"
  unfolding combine_def by (induction n) (auto simp: combine_step_def contribution_default_def)

subsection \<open>The composer invariant\<close>

definition composer_ok :: "nat \<Rightarrow> composer \<Rightarrow> bool" where
  "composer_ok n c \<longleftrightarrow> length (cp_contributions c) = n \<and> length (cp_answered c) = n
     \<and> validate_bounds (merged c) = Inr ()
     \<and> (\<forall>s\<in>set (cp_shortfalls c). length s \<le> MAX_TEXT_BYTES) \<and> cp_discarded c < 2 ^ 64"

lemma merged_new: "merged (composer_new n ts) = complete_targets contribution_default ts (n = 0)"
proof -
  have "list_all id (replicate n False) \<longleftrightarrow> n = 0" by (cases n) auto
  then show ?thesis by (simp add: merged_def composer_new_def combine_defaults all_answered_def)
qed

lemma contribution_default_simps [simp]:
  "ct_destinations contribution_default = []" "ct_coverage contribution_default = []"
  "ct_unresolved contribution_default = []" "ct_shortfalls contribution_default = []"
  by (simp_all add: contribution_default_def)

lemma composer_new_ok: "composer_ok n (composer_new n targets)"
proof -
  let ?m = "merged (composer_new n targets)"
  have "coverage_bounded s" if "bt_get (ct_coverage ?m) u = Some s" for u s
    using that by (auto simp: merged_new complete_targets_coverage coverage_bounded_def split: if_splits)
  moreover have "bt_wf (ct_coverage ?m)" by (simp add: merged_new bt_wf_complete_targets)
  ultimately have "\<forall>s\<in>set (bt_values (ct_coverage ?m)). coverage_bounded s"
    by (rule values_coverage_bounded)
  then have "validate_bounds ?m = Inr ()"
    by (simp add: validate_bounds_ok_iff merged_new)
  then show ?thesis by (simp add: composer_ok_def composer_new_def)
qed

lemma composer_record_frame [simp]:
  "merged (composer_record t c) = merged c" "cp_contributions (composer_record t c) = cp_contributions c"
  "cp_targets (composer_record t c) = cp_targets c" "cp_answered (composer_record t c) = cp_answered c"
  by (simp_all add: composer_record_def merged_def all_answered_def)

lemma composer_record_ok: "composer_ok n c \<Longrightarrow> length t \<le> MAX_TEXT_BYTES \<Longrightarrow> composer_ok n (composer_record t c)"
  using saturating_add_bound [of "cp_discarded c" 1]
  by (simp add: composer_ok_def composer_record_def merged_def all_answered_def)

lemma composer_accept_cases:
  assumes "composer_accept index router v c = Some c'"
  obtains (accepted) "c' = c\<lparr>cp_contributions := (cp_contributions c)[index := v],
                 cp_answered := (cp_answered c)[index := True]\<rparr>" "validate_bounds (merged c') = Inr ()"
  | (refused) e t where "bounded_error router e = Some t" "c' = composer_record t c"
  using assms by (auto simp: composer_accept_def Let_def split: sum.splits)

lemma composer_settle_cases:
  assumes "composer_settle index router answer c = Some c'"
  obtains (accepted) v v' where "answer = Inr v" "attribute v router = Inr v'"
      "c' = c\<lparr>cp_contributions := (cp_contributions c)[index := v'],
              cp_answered := (cp_answered c)[index := True]\<rparr>" "validate_bounds (merged c') = Inr ()"
  | (refused) e t where "bounded_error router e = Some t" "c' = composer_record t c"
  using assms
  by (auto simp: composer_settle_def split: sum.splits elim!: composer_accept_cases)

lemma composer_settle_ok:
  assumes "composer_settle index router answer c = Some c'" "composer_ok n c"
  shows "composer_ok n c' \<and> cp_targets c' = cp_targets c"
  using assms(1)
proof (cases rule: composer_settle_cases)
  case (accepted v v')
  with assms(2) show ?thesis by (simp add: composer_ok_def)
next
  case (refused e t)
  with assms(2) bounded_error_length [OF refused(1)] show ?thesis by (simp add: composer_record_ok)
qed

lemma attribute_error: "attribute v router = Inl e \<Longrightarrow> error_ascii e"
  by (auto simp: attribute_def Let_def split: sum.splits dest!: validate_bounds_ascii bounded_Inl)

lemma composer_accept_returns:
  assumes "length router \<le> MAX_TEXT_BYTES"
  shows "composer_accept index router v c \<noteq> None"
  using bounded_error_Some [OF assms] validate_bounds_ascii
  by (fastforce simp: composer_accept_def Let_def split: sum.splits)

lemma composer_settle_returns:
  assumes "length router \<le> MAX_TEXT_BYTES" "\<And>e. answer = Inl e \<Longrightarrow> error_ascii e"
  shows "composer_settle index router answer c \<noteq> None"
  using bounded_error_Some [OF assms(1)] assms(2) composer_accept_returns [OF assms(1)] attribute_error
  by (auto simp: composer_settle_def split: sum.splits)

lemma length_discarded_text: "discarded < 2 ^ 64 \<Longrightarrow> length (discarded_text discarded) \<le> MAX_TEXT_BYTES"
  using length_show_nat [of discarded 19] length_show_nat [of MAX_SHORTFALLS 2]
  by (simp add: discarded_text_def MAX_TEXT_BYTES_def MAX_SHORTFALLS_def)

lemma combined_frame [simp]:
  "ct_destinations (combined c) = ct_destinations (merged c)" "ct_coverage (combined c) = ct_coverage (merged c)"
  "ct_unresolved (combined c) = ct_unresolved (merged c)"
  by (simp_all add: combined_def Let_def)

lemma combined_shortfalls:
  assumes "composer_ok n c"
  shows "length (ct_shortfalls (combined c)) \<le> MAX_SHORTFALLS
    \<and> (\<forall>s\<in>set (ct_shortfalls (combined c)). length s \<le> MAX_TEXT_BYTES)"
proof -
  let ?ss = "ct_shortfalls (merged c) @ cp_shortfalls c"
  have each: "\<forall>s\<in>set ?ss. length s \<le> MAX_TEXT_BYTES"
    using assms by (auto simp: composer_ok_def validate_bounds_ok_iff)
  have "length (discarded_text (cp_discarded c)) \<le> MAX_TEXT_BYTES"
    "\<And>k. length (discarded_text (saturating_add (cp_discarded c) k)) \<le> MAX_TEXT_BYTES"
    using assms length_discarded_text saturating_add_bound by (auto simp only: composer_ok_def)
  note lens = this
  show ?thesis
  proof (cases "length ?ss \<ge> MAX_SHORTFALLS")
    case True
    have "ct_shortfalls (combined c) = take (MAX_SHORTFALLS - 1) ?ss
        @ [discarded_text (saturating_add (cp_discarded c) (length ?ss - MAX_SHORTFALLS + 1))]"
      using True by (simp add: combined_def Let_def saturating_add_def)
    then show ?thesis
      using each lens(2) by (simp only: MAX_SHORTFALLS_def) (auto dest: in_set_takeD)
  next
    case False
    then have "ct_shortfalls (combined c) = ?ss @ (if cp_discarded c > 0 then [discarded_text (cp_discarded c)] else [])"
      by (simp add: combined_def Let_def)
    with False each lens(1) show ?thesis by auto
  qed
qed

lemma combined_bounds:
  assumes "composer_ok n c"
  shows "validate_bounds (combined c) = Inr ()"
proof -
  have "validate_bounds (merged c) = Inr ()" using assms by (simp only: composer_ok_def)
  then show ?thesis
    using combined_shortfalls [OF assms] unfolding validate_bounds_ok_iff combined_frame by blast
qed

subsection \<open>Isolation\<close>

text \<open>Routers whose refusals are ASCII texts; nothing is assumed about panics or answers.\<close>

definition speaks_ascii :: "'s router \<Rightarrow> bool" where
  "speaks_ascii r \<longleftrightarrow>
     (\<forall>request up. \<forall>e. rt_queries r request up = Returned (Inl e) \<longrightarrow> error_ascii e)
     \<and> (\<forall>request up inputs. \<forall>e. rt_preview r request up inputs = Returned (Inl e) \<longrightarrow> error_ascii e)"

lemma isolate_error:
  assumes "isolate action call = Inl e" "ascii action" "\<And>e. call = Returned (Inl e) \<Longrightarrow> error_ascii e"
  shows "error_ascii e"
  using assms by (auto simp: isolate_def split: outcome.splits)

lemma preview_answer_error:
  assumes "preview_answer r request up inputs = Inl e" "speaks_ascii r"
  shows "error_ascii e"
  using assms
  by (auto simp: preview_answer_def exact_inputs_def speaks_ascii_def split: sum.splits if_splits
      elim!: isolate_error)

lemma preview_loop_returns:
  assumes "\<forall>(r, i)\<in>set work. speaks_ascii r \<and> length (rt_name r) \<le> MAX_TEXT_BYTES" "composer_ok n c"
  shows "\<exists>c'. preview_loop request index work c = Some c'"
  using assms
proof (induction request index work c rule: preview_loop.induct)
  case (1 request index c)
  then show ?case by simp
next
  case (2 request index r inputs rest c)
  let ?answer = "preview_answer r request (upstream_plan index 1 c) inputs"
  from 2(2) have r: "speaks_ascii r" "length (rt_name r) \<le> MAX_TEXT_BYTES" by auto
  then obtain c' where c': "composer_settle index (rt_name r) ?answer c = Some c'"
    using composer_settle_returns [of "rt_name r" ?answer index c] preview_answer_error [OF _ r(1)] by blast
  moreover have "composer_ok n c'" using composer_settle_ok [OF c'] 2(3) by blast
  ultimately show ?case using 2(1) [OF _ , of c'] 2(2) by auto
qed

lemma preview_loop_ok:
  "preview_loop request index work c = Some c' \<Longrightarrow> composer_ok n c \<Longrightarrow>
     composer_ok n c' \<and> cp_targets c' = cp_targets c"
proof (induction request index work c rule: preview_loop.induct)
  case (1 request index c)
  then show ?case by simp
next
  case (2 request index r inputs rest c)
  then obtain mid where mid: "composer_settle index (rt_name r)
      (preview_answer r request (upstream_plan index 1 c) inputs) c = Some mid"
    "preview_loop request (Suc index) rest mid = Some c'" by (auto simp: bind_eq_Some_conv)
  with 2(1) [OF mid] 2(3) composer_settle_ok [OF mid(1)] show ?case by simp
qed

lemma validate_names_loop_ok:
  "validate_names_loop names ns = Inr () \<longleftrightarrow>
     distinct ns \<and> set ns \<inter> set names = {} \<and> (\<forall>n\<in>set ns. n \<noteq> [] \<and> length n \<le> MAX_TEXT_BYTES)"
  by (induction names ns rule: validate_names_loop.induct) (auto simp: bounded_def)

lemma validate_names_ok:
  "validate_names routers = Inr () \<longleftrightarrow>
     distinct (map rt_name routers) \<and> (\<forall>r\<in>set routers. rt_name r \<noteq> [] \<and> length (rt_name r) \<le> MAX_TEXT_BYTES)"
  by (simp add: validate_names_def validate_names_loop_ok)

lemma plan_from_contribution_Inr:
  assumes "plan_from_contribution revision c = Inr p"
  shows "rp_revision p = revision" "rp_destinations p = fold plan_relay (ct_destinations c) []"
    "rp_coverage p = fold cover_targets (ct_destinations c) (ct_coverage c)"
    "set (rp_unresolved p) = set (ct_unresolved c) \<union> {t. (t, Unresolved) \<in> set (ct_coverage c)}"
    "rp_shortfalls p = ct_shortfalls c" "validate_bounds c = Inr ()"
  using assms by (force simp: plan_from_contribution_def bs_fold_insert split: sum.splits)+

lemma cover_targets_present: "bt_get m t \<noteq> None \<Longrightarrow> bt_get (cover_targets d m) t \<noteq> None"
proof -
  have "bt_get m t \<noteq> None \<Longrightarrow> bt_get (fold (\<lambda>t. merge_target t s) ts m) t \<noteq> None" for ts s
    by (induction ts arbitrary: m) (auto simp: bt_get_merge_target)
  then show "bt_get m t \<noteq> None \<Longrightarrow> bt_get (cover_targets d m) t \<noteq> None"
    unfolding cover_targets_def .
qed

lemma fold_cover_targets_present: "bt_get m t \<noteq> None \<Longrightarrow> bt_get (fold cover_targets ds m) t \<noteq> None"
  by (induction ds arbitrary: m) (use cover_targets_present in auto)

lemma plan_relay_keys: "set (bt_keys (plan_relay d m)) = insert (ds_session d) (set (bt_keys m))"
  by (simp add: plan_relay_def Let_def)

lemma fold_plan_relay_keys:
  "set (bt_keys (fold plan_relay ds m)) = ds_session ` set ds \<union> set (bt_keys m)"
  by (induction ds arbitrary: m) (auto simp: plan_relay_keys)

lemma fold_plan_relay_reasons:
  "bt_get (fold plan_relay ds m) s = Some pl \<Longrightarrow>
     set (pl_reasons pl) = (\<lambda>d. (ds_router d, ds_reason d)) ` {d \<in> set ds. ds_session d = s}
       \<union> (case bt_get m s of Some p \<Rightarrow> set (pl_reasons p) | None \<Rightarrow> {})"
proof (induction ds arbitrary: m)
  case Nil
  then show ?case by simp
next
  case (Cons d ds)
  from Cons.IH [of "plan_relay d m"] Cons.prems show ?case
    by (cases "ds_session d = s") (auto simp: plan_relay_def Let_def split: option.splits)
qed

lemma combine_snoc: "combine (cs @ [c]) = combine_step c (combine cs)"
  by (simp add: combine_def)

lemma combine_destinations: "ct_destinations (combine cs) = concat (map ct_destinations cs)"
  by (induction cs rule: rev_induct) (auto simp: combine_snoc combine_step_def, simp add: combine_def)

lemma combine_unresolved: "set (ct_unresolved (combine cs)) = (\<Union>c\<in>set cs. set (ct_unresolved c))"
  by (induction cs rule: rev_induct) (auto simp: combine_snoc combine_step_def bs_fold_insert, simp add: combine_def)

lemma fold_merge_pairs:
  fixes m :: "(route_target, coverage_state) btree_map"
  defines "m' \<equiv> \<lambda>ps. fold (\<lambda>(t, s). merge_target t s) ps m"
  shows "bt_get (m' ps) t = None \<longleftrightarrow> bt_get m t = None \<and> t \<notin> fst ` set ps"
    and "bt_get m t \<noteq> Some SettledAbsent \<Longrightarrow> bt_get (m' ps) t \<noteq> Some SettledAbsent"
    and "bt_get (m' ps) t = Some (Covered ss) \<Longrightarrow>
      (\<exists>ss. bt_get m t = Some (Covered ss)) \<or> (\<exists>ss. (t, Covered ss) \<in> set ps)"
proof -
  show "bt_get (m' ps) t = None \<longleftrightarrow> bt_get m t = None \<and> t \<notin> fst ` set ps"
    unfolding m'_def
    by (induction ps rule: rev_induct) (auto simp: bt_get_merge_target split: if_splits)
  show "bt_get m t \<noteq> Some SettledAbsent \<Longrightarrow> bt_get (m' ps) t \<noteq> Some SettledAbsent"
  proof (induction ps rule: rev_induct)
    case Nil
    then show ?case by (simp add: m'_def)
  next
    case (snoc p ps)
    obtain u s where "p = (u, s)" by (cases p)
    with snoc show ?case
      by (cases s) (auto simp: m'_def bt_get_merge_target split: option.splits coverage_state.splits)
  qed
  show "bt_get (m' ps) t = Some (Covered ss) \<Longrightarrow>
      (\<exists>ss. bt_get m t = Some (Covered ss)) \<or> (\<exists>ss. (t, Covered ss) \<in> set ps)"
  proof (induction ps arbitrary: ss rule: rev_induct)
    case Nil
    then show ?case by (simp add: m'_def)
  next
    case (snoc p ps)
    obtain u s where "p = (u, s)" by (cases p)
    with snoc show ?case
      by (cases s)
        (auto simp: m'_def bt_get_merge_target split: if_splits option.splits coverage_state.splits)
  qed
qed

lemma combine_coverage_None:
  "bt_get (ct_coverage (combine cs)) t = None \<longleftrightarrow> (\<forall>c\<in>set cs. t \<notin> fst ` set (ct_coverage c))"
proof (induction cs rule: rev_induct)
  case Nil
  show ?case by (simp add: combine_def)
next
  case (snoc c cs)
  then show ?case by (simp add: combine_snoc combine_step_def fold_merge_pairs(1)) blast
qed

lemma combine_coverage_Covered:
  "bt_get (ct_coverage (combine cs)) t = Some (Covered ss) \<Longrightarrow>
     \<exists>c\<in>set cs. \<exists>ss. (t, Covered ss) \<in> set (ct_coverage c)"
proof (induction cs arbitrary: ss rule: rev_induct)
  case Nil
  then show ?case by (simp add: combine_def)
next
  case (snoc c cs)
  from snoc.prems fold_merge_pairs(3) [of "ct_coverage c" "ct_coverage (combine cs)" t ss]
  have "(\<exists>ss. bt_get (ct_coverage (combine cs)) t = Some (Covered ss)) \<or> (\<exists>ss. (t, Covered ss) \<in> set (ct_coverage c))"
    by (simp add: combine_snoc combine_step_def)
  with snoc.IH show ?case by auto
qed

lemma combine_coverage_not_absent: "bt_get (ct_coverage (combine cs)) t \<noteq> Some SettledAbsent"
proof (induction cs rule: rev_induct)
  case Nil
  show ?case by (simp add: combine_def)
next
  case (snoc c cs)
  then show ?case by (simp add: combine_snoc combine_step_def fold_merge_pairs(2))
qed

definition covered_by :: "(route_target, coverage_state) btree_map \<Rightarrow> route_target \<Rightarrow> relay_url set" where
  "covered_by m t = (case bt_get m t of Some (Covered ss) \<Rightarrow> set ss | _ \<Rightarrow> {})"

lemma covered_by_merge_target:
  "covered_by (merge_target t (Covered ss) m) u = (if u = t then set ss else {}) \<union> covered_by m u"
  by (auto simp: covered_by_def bt_get_merge_target bs_fold_insert split: option.splits coverage_state.splits)

lemma covered_by_fold: "covered_by (fold (\<lambda>t. merge_target t (Covered ss)) ts m) u =
    (if u \<in> set ts then set ss else {}) \<union> covered_by m u"
  by (induction ts arbitrary: m) (auto simp: covered_by_merge_target)

lemma covered_by_cover_targets:
  "covered_by (fold cover_targets ds m) u =
     ds_session ` {d \<in> set ds. u \<in> set (ds_targets d)} \<union> covered_by m u"
  by (induction ds arbitrary: m) (auto simp: cover_targets_def covered_by_fold split: if_splits)

subsection \<open>Attribution\<close>

text \<open>A destination of the composer is one a router of the chain answered with.\<close>

definition answered_with :: "'s router list \<Rightarrow> route_request \<Rightarrow> route_destination \<Rightarrow> bool" where
  "answered_with routers request d \<longleftrightarrow>
     (\<exists>r\<in>set routers. \<exists>up inputs v d'. rt_preview r request up inputs = Returned (Inr v)
        \<and> d' \<in> set (ct_destinations v) \<and> d = set_router (rt_name r) d')"

definition all_answered_with :: "'s router list \<Rightarrow> route_request \<Rightarrow> composer \<Rightarrow> bool" where
  "all_answered_with routers request c \<longleftrightarrow>
     (\<forall>v\<in>set (cp_contributions c). \<forall>d\<in>set (ct_destinations v). answered_with routers request d)"

lemma preview_answer_Inr:
  assumes "preview_answer r request up inputs = Inr v"
  shows "rt_preview r request up inputs = Returned (Inr v)"
  using assms by (auto simp: preview_answer_def exact_inputs_def isolate_def
      split: outcome.splits sum.splits if_splits)

lemma attribute_destinations:
  "attribute v router = Inr v' \<Longrightarrow> ct_destinations v' = map (set_router router) (ct_destinations v)"
  by (auto simp: attribute_def Let_def split: sum.splits)

lemma preview_settle_answered:
  assumes "composer_settle index (rt_name r) (preview_answer r request up inputs) c = Some c'"
    and "r \<in> set routers" "all_answered_with routers request c"
  shows "all_answered_with routers request c'"
  using assms(1)
proof (cases rule: composer_settle_cases)
  case (accepted v v')
  have "answered_with routers request d" if "d \<in> set (ct_destinations v')" for d
    using that preview_answer_Inr [OF accepted(1)] attribute_destinations [OF accepted(2)] assms(2)
    unfolding answered_with_def by fastforce
  with accepted(3) assms(3) show ?thesis
    using set_update_subset_insert [of "cp_contributions c" index v'] by (auto simp: all_answered_with_def)
next
  case (refused e t)
  with assms(3) show ?thesis by (simp add: all_answered_with_def)
qed

lemma preview_loop_answered:
  "preview_loop request index work c = Some c' \<Longrightarrow> fst ` set work \<subseteq> set routers \<Longrightarrow>
     all_answered_with routers request c \<Longrightarrow> all_answered_with routers request c'"
proof (induction request index work c rule: preview_loop.induct)
  case (1 request index c)
  then show ?case by simp
next
  case (2 request index r inputs rest c)
  then obtain mid where mid: "composer_settle index (rt_name r)
      (preview_answer r request (upstream_plan index 1 c) inputs) c = Some mid"
    "preview_loop request (Suc index) rest mid = Some c'" by (auto simp: bind_eq_Some_conv)
  with 2(1) [OF mid] 2(3,4) preview_settle_answered [OF mid(1)] show ?case by simp
qed

lemma chain_preview_cases:
  assumes "chain_preview N routers request inputs = Some (Inr p)"
  obtains c where "preview_loop request 0 (zip routers inputs)
      (composer_new (length routers) (request_targets N request)) = Some c" "composer_plan 1 c = Inr p"
  using assms by (auto simp: chain_preview_def split: sum.splits if_splits)

subsection \<open>The contract of a router\<close>

text \<open>
  What the two traits ask of a router: the live session shows what a preview of the same facts
  shows, at the opening and after every replacement, and a refused replacement leaves the
  session as it was.
\<close>

locale router_contract =
  fixes r :: "'s router"
    and contribute :: "route_request \<Rightarrow> route_plan \<Rightarrow> query_snapshot list \<Rightarrow> router_error + route_contribution"
    and live :: "route_request \<Rightarrow> 's \<Rightarrow> bool"
  assumes preview_contributes: "rt_preview r request up inputs = Returned (contribute request up inputs)"
    and open_refuses: "contribute request up inputs = Inl e \<Longrightarrow> rt_open r request up inputs = Returned (Inl e)"
    and open_contributes: "contribute request up inputs = Inr v \<Longrightarrow>
      \<exists>s. rt_open r request up inputs = Returned (Inr s) \<and> rt_current r s = Returned v \<and> live request s"
    and replace_contributes: "live request s \<Longrightarrow>
      fst (rt_replace r s up inputs) = Returned (contribute request up inputs)
      \<and> live request (snd (rt_replace r s up inputs))"
    and replace_current: "live request s \<Longrightarrow>
      rt_current r (snd (rt_replace r s up inputs)) =
        (case contribute request up inputs of Inr v \<Rightarrow> Returned v | Inl _ \<Rightarrow> rt_current r s)"
begin

text \<open>Opening a slot of the chain settles the composer as previewing the router does.\<close>

lemma open_slot_settles:
  "map_option snd (open_slot index r (snd (open_session r request up inputs)) c) =
     composer_settle index (rt_name r) (preview_answer r request up inputs) c"
proof (cases "isolate ''declaring queries'' (rt_queries r request up)")
  case (Inl e)
  then show ?thesis
    by (simp add: open_session_def open_slot_def preview_answer_def composer_settle_def option.map_comp comp_def)
next
  case (Inr declared)
  show ?thesis
  proof (cases "exact_inputs declared inputs = Inr () \<and> (\<exists>v. contribute request up inputs = Inr v)")
    case True
    then obtain v s where v: "exact_inputs declared inputs = Inr ()" "contribute request up inputs = Inr v"
      "rt_open r request up inputs = Returned (Inr s)" "rt_current r s = Returned v"
      using open_contributes by blast
    then have "current_contribution r s = attribute v (rt_name r)"
      by (simp add: current_contribution_def isolate_def)
    with v Inr show ?thesis
      by (cases "attribute v (rt_name r)")
        (simp_all add: open_session_def open_slot_def preview_answer_def composer_settle_def
          preview_contributes isolate_def option.map_comp comp_def option.map_ident)
  next
    case False
    then have "\<exists>e. snd (open_session r request up inputs) = Inl e \<and> preview_answer r request up inputs = Inl e"
      using Inr open_refuses preview_contributes
      by (cases "exact_inputs declared inputs"; cases "contribute request up inputs")
        (auto simp: open_session_def preview_answer_def isolate_def)
    then show ?thesis
      by (auto simp: open_slot_def composer_settle_def option.map_comp comp_def)
  qed
qed

text \<open>A replaced session shows what a session opened on the new facts shows.\<close>

lemma replace_like_fresh:
  assumes "live request s" "contribute request up inputs = Inr v"
  obtains fresh where "rt_open r request up inputs = Returned (Inr fresh)"
    "rt_current r (snd (rt_replace r s up inputs)) = rt_current r fresh"
  using open_contributes [OF assms(2)] replace_current [OF assms(1), of up inputs] assms(2) by auto

end

lemma open_loop_settles:
  assumes "\<forall>(r, i)\<in>set work. \<exists>contribute live. router_contract r contribute live"
  shows "map_option (\<lambda>(slots, counts, c). c) (open_loop request index work slots counts c) =
    preview_loop request index work c"
  using assms
proof (induction request index work slots counts c rule: open_loop.induct)
  case (1 request index slots counts c)
  show ?case by simp
next
  case (2 request index r inputs rest slots counts c)
  let ?o = "open_session r request (upstream_plan index 1 c) inputs"
  from 2(2) obtain contribute live where "router_contract r contribute live" by auto
  from router_contract.open_slot_settles [OF this]
  have settle: "composer_settle index (rt_name r) (preview_answer r request (upstream_plan index 1 c) inputs) c
      = map_option snd (open_slot index r (snd ?o) c)" by simp
  show ?case
  proof (cases "open_slot index r (snd ?o) c")
    case None
    with settle show ?thesis by (simp add: case_prod_beta)
  next
    case (Some sc)
    obtain slot c' where sc: "sc = (slot, c')" by (cases sc)
    have "map_option (\<lambda>(slots, counts, c). c)
        (open_loop request (Suc index) rest (slots @ [slot]) (counts @ [fst ?o]) c')
        = preview_loop request (Suc index) rest c'"
      by (rule 2(1) [of ?o "fst ?o" "snd ?o" sc slot c']) (use Some sc 2(2) in simp_all)
    moreover have "open_loop request index ((r, inputs) # rest) slots counts c
        = open_loop request (Suc index) rest (slots @ [slot]) (counts @ [fst ?o]) c'"
      using Some unfolding sc by (simp only: open_loop.simps Let_def case_prod_beta option.case fst_conv snd_conv)
    moreover have "preview_loop request index ((r, inputs) # rest) c = preview_loop request (Suc index) rest c'"
      by (simp only: preview_loop.simps settle Some sc option.map snd_conv Option.bind.simps)
    ultimately show ?thesis by simp
  qed
qed

subsection \<open>Properties\<close>

text \<open>
  (C19) Failures are isolated: a chain with valid names and matching input groups whose routers refuse
  with ASCII texts always yields a plan, whether its routers answer, panic, refuse or exceed the
  bounds. The plan respects every bound and states the coverage of every target of the request. The
  restriction is needed: \<open>bounded_error\<close> cuts a longer text at a byte and panics inside a multi-byte
  character.
\<close>

theorem chain_preview_isolates:
  assumes "validate_names routers = Inr ()" "length inputs = length routers"
    and "\<forall>r\<in>set routers. speaks_ascii r"
  shows "\<exists>p. chain_preview N routers request inputs = Some (Inr p)
    \<and> card (set (bt_keys (rp_destinations p))) \<le> MAX_DESTINATIONS
    \<and> length (rp_shortfalls p) \<le> MAX_SHORTFALLS
    \<and> (\<forall>t\<in>set (request_targets N request). bt_get (rp_coverage p) t \<noteq> None)"
proof -
  let ?c = "composer_new (length routers) (request_targets N request)"
  have "\<forall>(r, i)\<in>set (zip routers inputs). speaks_ascii r \<and> length (rt_name r) \<le> MAX_TEXT_BYTES"
    using assms(1,3) by (auto simp: validate_names_ok dest: set_zip_leftD)
  then obtain c where c: "preview_loop request 0 (zip routers inputs) ?c = Some c"
    using preview_loop_returns composer_new_ok by blast
  from preview_loop_ok [OF c composer_new_ok]
  have ok: "composer_ok (length routers) c" "cp_targets c = request_targets N request"
    by (simp_all add: composer_new_def)
  then obtain p where p: "composer_plan 1 c = Inr p"
    by (auto simp: composer_plan_def plan_from_contribution_def combined_bounds)
  note plan = plan_from_contribution_Inr [OF p [unfolded composer_plan_def]]
  have "bt_get (rp_coverage p) t \<noteq> None" if "t \<in> set (request_targets N request)" for t
    unfolding plan(3)
    by (rule fold_cover_targets_present) (use that ok(2) in \<open>auto simp: merged_def complete_targets_coverage\<close>)
  moreover have "card (set (bt_keys (rp_destinations p))) \<le> MAX_DESTINATIONS"
    using plan(6) unfolding plan(2) fold_plan_relay_keys validate_bounds_ok_iff by (simp add: bt_keys_def)
  moreover have "chain_preview N routers request inputs = Some (Inr p)"
    using assms(1,2) c p by (simp add: chain_preview_def)
  ultimately show ?thesis using plan(5) combined_shortfalls [OF ok(1)] by auto
qed

text \<open>
  Attribution is exact: every reason a plan gives for a relay is a reason the named router
  itself answered with, for that relay.
\<close>

theorem chain_preview_attribution:
  assumes "chain_preview N routers request inputs = Some (Inr p)"
    and "bt_get (rp_destinations p) session = Some planned" "(name, reason) \<in> set (pl_reasons planned)"
  shows "\<exists>r\<in>set routers. rt_name r = name
    \<and> (\<exists>up ins v d. rt_preview r request up ins = Returned (Inr v) \<and> d \<in> set (ct_destinations v)
         \<and> ds_session d = session \<and> ds_reason d = reason)"
proof -
  from assms(1) obtain c where c: "preview_loop request 0 (zip routers inputs)
      (composer_new (length routers) (request_targets N request)) = Some c" "composer_plan 1 c = Inr p"
    by (rule chain_preview_cases)
  have "all_answered_with routers request (composer_new (length routers) (request_targets N request))"
    by (auto simp: all_answered_with_def composer_new_def)
  moreover have "fst ` set (zip routers inputs) \<subseteq> set routers" by (auto dest: set_zip_leftD)
  ultimately have "all_answered_with routers request c" using preview_loop_answered [OF c(1)] by blast
  then have "answered_with routers request d" if "d \<in> set (ct_destinations (merged c))" for d
    using that by (auto simp: merged_def combine_destinations all_answered_with_def)
  moreover from assms(2,3) obtain d where "d \<in> set (ct_destinations (merged c))" "ds_session d = session"
    "ds_router d = name" "ds_reason d = reason"
    using fold_plan_relay_reasons [of "ct_destinations (merged c)" "[]" session planned]
      plan_from_contribution_Inr(2) [OF c(2) [unfolded composer_plan_def]] by auto
  ultimately have "answered_with routers request d" by blast
  then show ?thesis
    using \<open>ds_session d = session\<close> \<open>ds_router d = name\<close> \<open>ds_reason d = reason\<close>
    unfolding answered_with_def set_router_def by fastforce
qed

text \<open>
  Opening agrees with previewing: for routers that keep the contract of the traits, the
  plan built from the contribution of a freshly opened chain is the plan a preview of the same
  request and inputs gives, refusals and panics included.
\<close>

theorem chain_open_agrees_preview:
  assumes "\<forall>r\<in>set routers. \<exists>contribute live. router_contract r contribute live"
  shows "chain_preview N routers request inputs =
    (case chain_open N routers request inputs of
       None \<Rightarrow> None
     | Some (Inl e) \<Rightarrow> Some (Inl e)
     | Some (Inr oc) \<Rightarrow> Some (plan_from_contribution 1 (chain_current oc)))"
proof -
  let ?c = "composer_new (length routers) (request_targets N request)"
  have "\<forall>(r, i)\<in>set (zip routers inputs). \<exists>contribute live. router_contract r contribute live"
    using assms by (auto dest: set_zip_leftD)
  from open_loop_settles [OF this, of request 0 "[]" "[]" ?c, symmetric]
  show ?thesis
    by (cases "open_loop request 0 (zip routers inputs) [] [] ?c")
      (auto simp: chain_preview_def chain_open_def composer_plan_def chain_current_def split: sum.splits)
qed

text \<open>
  An explicit plan holds exactly the relays asked for, settled from the start, with every
  target covered by all of them; it is refused exactly when there are more than 256.
\<close>

theorem plan_explicit_spec:
  "(\<exists>p. plan_explicit relays targets = Inr p \<and> set (bt_keys (rp_destinations p)) = set relays
      \<and> plan_settled p \<and> (\<forall>t. covered_by (rp_coverage p) t = (if t \<in> set targets then set relays else {})))
   \<longleftrightarrow> card (set relays) \<le> MAX_DESTINATIONS"
proof -
  let ?d = "\<lambda>r. set_router ''explicit'' (destination_new r targets ''application-selected relay'')"
  let ?c = "contribution_default\<lparr>ct_destinations := map ?d relays\<rparr>"
  have ok: "validate_bounds ?c = Inr () \<longleftrightarrow> card (set relays) \<le> MAX_DESTINATIONS"
    by (auto simp: validate_bounds_ok_iff image_image set_router_def destination_new_def MAX_TEXT_BYTES_def
        bt_values_def)
  show ?thesis
  proof (cases "validate_bounds ?c")
    case (Inl e)
    with ok show ?thesis by (auto simp: plan_explicit_def plan_from_contribution_def)
  next
    case (Inr u)
    then obtain p where p: "plan_from_contribution 1 ?c = Inr p" by (simp add: plan_from_contribution_def)
    note plan = plan_from_contribution_Inr [OF p]
    have "set (bt_keys (rp_destinations p)) = set relays"
      unfolding plan(2) fold_plan_relay_keys
      by (auto simp: set_router_def destination_new_def image_image bt_keys_def)
    moreover have "plan_settled p"
      using plan(4) by (simp add: plan_settled_def)
    moreover have "covered_by (rp_coverage p) t = (if t \<in> set targets then set relays else {})" for t
    proof -
      have "{d \<in> set (ct_destinations ?c). t \<in> set (ds_targets d)} = (if t \<in> set targets then ?d ` set relays else {})"
        by (auto simp: set_router_def destination_new_def)
      then show ?thesis
        unfolding plan(3) covered_by_cover_targets
        by (simp add: image_image set_router_def destination_new_def covered_by_def bt_get_def)
    qed
    ultimately show ?thesis using ok Inr p by (auto simp: plan_explicit_def)
  qed
qed

text \<open>
  What the merge does with a reported absence: when a router of the chain reports that a
  target settled without a destination and none covers it, the plan still lists the target as
  unresolved and is not settled.
\<close>

theorem reported_absence_unresolved:
  assumes "composer_plan revision c = Inr p" "v \<in> set (cp_contributions c)"
    and "(t, SettledAbsent) \<in> set (ct_coverage v)"
    and "\<forall>w\<in>set (cp_contributions c). \<forall>ss. (t, Covered ss) \<notin> set (ct_coverage w)"
  shows "t \<in> set (rp_unresolved p) \<and> \<not> plan_settled p"
proof -
  let ?m = "combine (cp_contributions c)"
  have "bt_get (ct_coverage ?m) t \<noteq> None" 
    using assms(2,3) unfolding combine_coverage_None by force
  moreover have "bt_get (ct_coverage ?m) t \<noteq> Some (Covered ss)" for ss
    using assms(4) combine_coverage_Covered by blast
  ultimately have "bt_get (ct_coverage ?m) t = Some Unresolved"
    using combine_coverage_not_absent [of "cp_contributions c" t]
    by (metis coverage_state.exhaust option.exhaust)
  then have "bt_get (ct_coverage (merged c)) t = Some Unresolved"
    by (simp add: merged_def complete_targets_coverage)
  then have "(t, Unresolved) \<in> set (ct_coverage (combined c))" by (auto dest: bt_get_SomeD)
  with plan_from_contribution_Inr(4) [OF assms(1) [unfolded composer_plan_def]]
  have "t \<in> set (rp_unresolved p)" by simp
  then show ?thesis by (auto simp: plan_settled_def)
qed

end
