(* ===== verification/Routers.thy ===== *)
theory Routers
  imports Routing
begin

section \<open>The routing policies\<close>

text \<open>
  The four routers of the engine, \<open>crates/fava-router-app-relays\<close>,
  \<open>crates/fava-router-fallback-relays\<close>, \<open>crates/fava-router-hints\<close> and
  \<open>crates/fava-router-outbox\<close>, with the NIP-65 relay lists of \<open>crates/fava-nip65\<close>. Each is a
  value of the router record, and each is an instance of the contract the chain relies on.
\<close>

text \<open>The session objects of the four policies; a method only receives the state of its own object.\<close>

record fallback_session =
  fs_request :: route_request
  fs_upstream :: route_plan
  fs_current :: route_contribution
  fs_relays :: "relay_url btree_set"
  fs_minimum :: nat
  fs_reads :: bool
  fs_writes :: bool

record hint_session =
  hs_request :: route_request
  hs_current :: route_contribution

record outbox_session =
  os_request :: route_request
  os_inputs :: "query_snapshot list"
  os_current :: route_contribution
  os_closed :: bool

datatype router_session =
    StaticSession route_contribution
  | FallbackSession fallback_session
  | HintSession hint_session
  | OutboxSession outbox_session

subsection \<open>Application relays\<close>

record app_relay_router =
  ar_name :: string
  ar_relays :: "relay_url btree_set"
  ar_reads :: bool
  ar_writes :: bool

definition app_router_new :: "string \<Rightarrow> relay_url list \<Rightarrow> app_relay_router" where
  "app_router_new name relays =
     \<lparr>ar_name = name, ar_relays = bs_of_list relays, ar_reads = True, ar_writes = True\<rparr>"

definition app_router_reads :: "bool \<Rightarrow> app_relay_router \<Rightarrow> app_relay_router" where
  "app_router_reads enabled a = a\<lparr>ar_reads := enabled\<rparr>"

definition app_router_writes :: "bool \<Rightarrow> app_relay_router \<Rightarrow> app_relay_router" where
  "app_router_writes enabled a = a\<lparr>ar_writes := enabled\<rparr>"

definition app_contribution :: "nostr_lib \<Rightarrow> app_relay_router \<Rightarrow> route_request \<Rightarrow> route_contribution" where
  "app_contribution N a request =
     (if (is_read request \<and> \<not> ar_reads a) \<or> (is_write request \<and> \<not> ar_writes a)
      then contribution_default
      else let targets = request_targets N request; sessions = ar_relays a in
        \<lparr>ct_destinations = map (\<lambda>s. destination_new s targets ''configured application relay'') sessions,
         ct_coverage = bt_of_list (map (\<lambda>t. (t, Covered sessions)) targets),
         ct_unresolved = [], ct_shortfalls = []\<rparr>)"

definition app_inputs :: "query_snapshot list \<Rightarrow> router_error + unit" where
  "app_inputs inputs =
     (if inputs \<noteq> [] then Inl (Refused ''app-relay router accepts no query inputs'') else Inr ())"

definition app_router :: "nostr_lib \<Rightarrow> app_relay_router \<Rightarrow> router_session router" where
  "app_router N a =
     \<lparr>rt_name = ar_name a,
      rt_queries = (\<lambda>request upstream. Returned (Inr [])),
      rt_preview = (\<lambda>request upstream inputs. Returned (case app_inputs inputs of
         Inl e \<Rightarrow> Inl e | Inr _ \<Rightarrow> Inr (app_contribution N a request))),
      rt_open = (\<lambda>request upstream inputs. Returned (case app_inputs inputs of
         Inl e \<Rightarrow> Inl e | Inr _ \<Rightarrow> Inr (StaticSession (app_contribution N a request)))),
      rt_current = (\<lambda>s. case s of StaticSession c \<Rightarrow> Returned c | _ \<Rightarrow> Panicked),
      rt_replace = (\<lambda>s upstream inputs. (case s of
         StaticSession c \<Rightarrow> Returned (case app_inputs inputs of Inl e \<Rightarrow> Inl e | Inr _ \<Rightarrow> Inr c)
       | _ \<Rightarrow> Panicked, s)),
      rt_close = (\<lambda>s. s)\<rparr>"

subsection \<open>Fallback relays\<close>

record fallback_relay_router =
  fb_name :: string
  fb_relays :: "relay_url btree_set"
  fb_minimum :: nat
  fb_reads :: bool
  fb_writes :: bool

definition fallback_new :: "string \<Rightarrow> relay_url list \<Rightarrow> nat \<Rightarrow> fallback_relay_router" where
  "fallback_new name relays minimum = \<lparr>fb_name = name, fb_relays = bs_of_list relays,
     fb_minimum = minimum, fb_reads = True, fb_writes = True\<rparr>"

definition fallback_set_reads :: "bool \<Rightarrow> fallback_relay_router \<Rightarrow> fallback_relay_router" where
  "fallback_set_reads enabled f = f\<lparr>fb_reads := enabled\<rparr>"

definition fallback_set_writes :: "bool \<Rightarrow> fallback_relay_router \<Rightarrow> fallback_relay_router" where
  "fallback_set_writes enabled f = f\<lparr>fb_writes := enabled\<rparr>"

definition covered :: "route_plan \<Rightarrow> route_target \<Rightarrow> nat" where
  "covered p t = (case bt_get (rp_coverage p) t of Some (Covered relays) \<Rightarrow> length relays | _ \<Rightarrow> 0)"

definition fallback_contribution ::
  "nostr_lib \<Rightarrow> fallback_relay_router \<Rightarrow> route_request \<Rightarrow> route_plan \<Rightarrow> route_contribution" where
  "fallback_contribution N f request upstream =
     (if (is_read request \<and> \<not> fb_reads f) \<or> (is_write request \<and> \<not> fb_writes f)
      then contribution_default
      else let targets = List.filter (\<lambda>t. covered upstream t < fb_minimum f) (request_targets N request) in
        if targets = [] then contribution_default
        else let sessions = fb_relays f in
          \<lparr>ct_destinations = map (\<lambda>s. destination_new s targets
              (''upstream coverage below '' @ show_nat (fb_minimum f))) sessions,
           ct_coverage = bt_of_list (map (\<lambda>t. (t, if sessions = [] then SettledAbsent else Covered sessions)) targets),
           ct_unresolved = [], ct_shortfalls = []\<rparr>)"

definition fallback_inputs :: "query_snapshot list \<Rightarrow> router_error + unit" where
  "fallback_inputs inputs =
     (if inputs \<noteq> [] then Inl (Refused ''fallback router accepts no query inputs'') else Inr ())"

definition fallback_open ::
  "nostr_lib \<Rightarrow> fallback_relay_router \<Rightarrow> route_request \<Rightarrow> route_plan \<Rightarrow> fallback_session" where
  "fallback_open N f request upstream =
     \<lparr>fs_request = request, fs_upstream = upstream, fs_current = fallback_contribution N f request upstream,
      fs_relays = fb_relays f, fs_minimum = fb_minimum f, fs_reads = fb_reads f, fs_writes = fb_writes f\<rparr>"

definition fallback_replace ::
  "nostr_lib \<Rightarrow> fallback_session \<Rightarrow> route_plan \<Rightarrow> query_snapshot list
     \<Rightarrow> (router_error + route_contribution) \<times> fallback_session" where
  "fallback_replace N s upstream inputs =
     (case fallback_inputs inputs of
        Inl e \<Rightarrow> (Inl e, s)
      | Inr _ \<Rightarrow>
          let f = \<lparr>fb_name = [], fb_relays = fs_relays s, fb_minimum = fs_minimum s,
                   fb_reads = fs_reads s, fb_writes = fs_writes s\<rparr>;
              c = fallback_contribution N f (fs_request s) upstream
          in (Inr c, s\<lparr>fs_upstream := upstream, fs_current := c\<rparr>))"

definition fallback_router :: "nostr_lib \<Rightarrow> fallback_relay_router \<Rightarrow> router_session router" where
  "fallback_router N f =
     \<lparr>rt_name = fb_name f,
      rt_queries = (\<lambda>request upstream. Returned (Inr [])),
      rt_preview = (\<lambda>request upstream inputs. Returned (case fallback_inputs inputs of
         Inl e \<Rightarrow> Inl e | Inr _ \<Rightarrow> Inr (fallback_contribution N f request upstream))),
      rt_open = (\<lambda>request upstream inputs. Returned (case fallback_inputs inputs of
         Inl e \<Rightarrow> Inl e | Inr _ \<Rightarrow> Inr (FallbackSession (fallback_open N f request upstream)))),
      rt_current = (\<lambda>s. case s of FallbackSession st \<Rightarrow> Returned (fs_current st) | _ \<Rightarrow> Panicked),
      rt_replace = (\<lambda>s upstream inputs. case s of
         FallbackSession st \<Rightarrow> (let (answer, st') = fallback_replace N st upstream inputs
                                 in (Returned answer, FallbackSession st'))
       | _ \<Rightarrow> (Panicked, s)),
      rt_close = (\<lambda>s. s)\<rparr>"

subsection \<open>Reference hints\<close>

definition referenced_events :: "nostr_lib \<Rightarrow> route_request \<Rightarrow> event_id btree_set" where
  "referenced_events N request =
     bs_of_list (List.map_filter (\<lambda>t. case t of ReferencedEvent i \<Rightarrow> Some i | _ \<Rightarrow> None) (request_targets N request))"

text \<open>The \<open>Display\<close> texts of \<open>QueryError\<close>.\<close>

fun query_error_text :: "query_error \<Rightarrow> string" where
  "query_error_text QEmptyExplicitRelays = ''explicit relay acquisition requires a non-empty relay set''"
| "query_error_text ZeroLimit = ''query limit must be greater than zero''"

definition hint_queries :: "nostr_lib \<Rightarrow> route_request \<Rightarrow> router_error + query list" where
  "hint_queries N request =
     (let referenced = referenced_events N request in
      if referenced = [] then Inr []
      else case query_ids referenced query_events of
        Inl e \<Rightarrow> Inl (Refused (query_error_text e))
      | Inr q \<Rightarrow> Inr [with_relay_access (request_access request) (cache_only q)])"

definition insert_hint ::
  "route_target \<Rightarrow> relay_url list \<Rightarrow> (route_target, relay_url btree_set) btree_map
     \<Rightarrow> (route_target, relay_url btree_set) btree_map" where
  "insert_hint t relays m =
     bt_insert t (fold bs_insert relays (case bt_get m t of Some s \<Rightarrow> s | None \<Rightarrow> [])) m"

definition tag_hint ::
  "nostr_lib \<Rightarrow> tag \<Rightarrow> (route_target, relay_url btree_set) btree_map
     \<Rightarrow> (route_target, relay_url btree_set) btree_map" where
  "tag_hint N t m =
     (if nth_opt t 0 \<noteq> Some ''e'' then m
      else case Option.bind (nth_opt t 1) (event_id_parse N) of
        None \<Rightarrow> m
      | Some i \<Rightarrow> (case nth_opt t 2 of
          None \<Rightarrow> m
        | Some v \<Rightarrow> if v = [] then m
                    else (case relay_url_parse N v of
                            None \<Rightarrow> m
                          | Some relay \<Rightarrow> insert_hint (ReferencedEvent i) [relay] m)))"

definition record_hint ::
  "event_record \<Rightarrow> (route_target, relay_url btree_set) btree_map
     \<Rightarrow> (route_target, relay_url btree_set) btree_map" where
  "record_hint rec m =
     insert_hint (ReferencedEvent (er_id rec))
       (map occ_session (bt_values (ros_occurrences (er_relay_occurrences rec)))) m"

definition hint_sources ::
  "nostr_lib \<Rightarrow> route_request \<Rightarrow> query_snapshot list \<Rightarrow> (route_target, relay_url btree_set) btree_map" where
  "hint_sources N request inputs =
     (let m = (case request_event request of None \<Rightarrow> [] | Some v \<Rightarrow> fold (tag_hint N) (value_tags v) [])
      in case inputs of [] \<Rightarrow> m | snapshot # _ \<Rightarrow> fold record_hint (qs_events snapshot) m)"

text \<open>The loop over the referenced targets; entries are removed as they are used.\<close>

fun hint_targets ::
  "route_target list \<Rightarrow> (route_target, relay_url btree_set) btree_map \<Rightarrow> route_contribution \<Rightarrow> route_contribution" where
  "hint_targets [] m c = c"
| "hint_targets (t # ts) m c =
     (let sessions = (case bt_get m t of Some s \<Rightarrow> s | None \<Rightarrow> []) in
      hint_targets ts (bt_remove t m)
        (if sessions = [] then c\<lparr>ct_coverage := bt_insert t SettledAbsent (ct_coverage c)\<rparr>
         else c\<lparr>ct_coverage := bt_insert t (Covered sessions) (ct_coverage c),
                ct_destinations := ct_destinations c @ map (\<lambda>s. destination_new s [t]
                  ''Nostr reference hint or admitted relay evidence'') sessions\<rparr>))"

fun is_referenced :: "route_target \<Rightarrow> bool" where
  "is_referenced (ReferencedEvent _) = True"
| "is_referenced _ = False"

definition hint_project ::
  "nostr_lib \<Rightarrow> route_request \<Rightarrow> query_snapshot list \<Rightarrow> router_error + route_contribution" where
  "hint_project N request inputs =
     (if length inputs > 1 then Inl (Refused ''hint router declares at most one query'')
      else Inr (hint_targets (List.filter is_referenced (request_targets N request))
                  (hint_sources N request inputs) contribution_default))"

definition hint_replace ::
  "nostr_lib \<Rightarrow> hint_session \<Rightarrow> query_snapshot list \<Rightarrow> (router_error + route_contribution) \<times> hint_session" where
  "hint_replace N s inputs =
     (case hint_project N (hs_request s) inputs of
        Inl e \<Rightarrow> (Inl e, s)
      | Inr v \<Rightarrow> (Inr v, s\<lparr>hs_current := v\<rparr>))"

definition hint_router :: "nostr_lib \<Rightarrow> string \<Rightarrow> router_session router" where
  "hint_router N name =
     \<lparr>rt_name = name,
      rt_queries = (\<lambda>request upstream. Returned (hint_queries N request)),
      rt_preview = (\<lambda>request upstream inputs. Returned (hint_project N request inputs)),
      rt_open = (\<lambda>request upstream inputs. Returned (case hint_project N request inputs of
         Inl e \<Rightarrow> Inl e | Inr v \<Rightarrow> Inr (HintSession \<lparr>hs_request = request, hs_current = v\<rparr>))),
      rt_current = (\<lambda>s. case s of HintSession st \<Rightarrow> Returned (hs_current st) | _ \<Rightarrow> Panicked),
      rt_replace = (\<lambda>s upstream inputs. case s of
         HintSession st \<Rightarrow> (let (answer, st') = hint_replace N st inputs in (Returned answer, HintSession st'))
       | _ \<Rightarrow> (Panicked, s)),
      rt_close = (\<lambda>s. s)\<rparr>"

subsection \<open>NIP-65 relay lists\<close>

record relay_list =
  rl_author :: public_key
  rl_read_relays :: "relay_url btree_set"
  rl_write_relays :: "relay_url btree_set"

datatype relay_list_error = WrongKind kind

definition relay_list_error_text :: "relay_list_error \<Rightarrow> string" where
  "relay_list_error_text e =
     (case e of WrongKind actual \<Rightarrow> ''expected kind 10002, got '' @ show_nat (unat actual))"

definition relay_marker :: "string option \<Rightarrow> (bool \<times> bool) option" where
  "relay_marker m =
     (case m of
        None \<Rightarrow> Some (True, True)
      | Some v \<Rightarrow> if v = ''read'' then Some (True, False)
                  else if v = ''write'' then Some (False, True) else None)"

definition relay_tag ::
  "nostr_lib \<Rightarrow> tag \<Rightarrow> relay_url btree_set \<times> relay_url btree_set \<Rightarrow> relay_url btree_set \<times> relay_url btree_set" where
  "relay_tag N t rw =
     (if nth_opt t 0 \<noteq> Some ''r'' then rw
      else case Option.bind (nth_opt t 1) (relay_url_parse N) of
        None \<Rightarrow> rw
      | Some relay \<Rightarrow> (case relay_marker (nth_opt t 2) of
          None \<Rightarrow> rw
        | Some (read, write) \<Rightarrow> (if read then bs_insert relay (fst rw) else fst rw,
                                  if write then bs_insert relay (snd rw) else snd rw)))"

definition relay_list_from_event :: "nostr_lib \<Rightarrow> event_value \<Rightarrow> relay_list_error + relay_list" where
  "relay_list_from_event N v =
     (if value_kind v \<noteq> 10002 then Inl (WrongKind (value_kind v))
      else let rw = fold (relay_tag N) (value_tags v) ([], []) in
        Inr \<lparr>rl_author = value_author v, rl_read_relays = fst rw, rl_write_relays = snd rw\<rparr>)"

definition relay_lists :: "public_key list \<Rightarrow> query_error + query" where
  "relay_lists authors =
     (case query_kinds [10002] query_events of
        Inl e \<Rightarrow> Inl e
      | Inr q \<Rightarrow> (case query_authors authors q of Inl e \<Rightarrow> Inl e | Inr q \<Rightarrow> query_limit 4096 q))"

subsection \<open>The outbox router\<close>

record outbox_router =
  ob_name :: string
  ob_indexers :: "relay_url btree_set"

definition outbox_new :: "string \<Rightarrow> relay_url list \<Rightarrow> router_error + outbox_router" where
  "outbox_new name indexers = Inr \<lparr>ob_name = name, ob_indexers = bs_of_list indexers\<rparr>"

definition OUTBOX_MAX_AGE :: nat where
  "OUTBOX_MAX_AGE = 300"

definition requested_authors :: "nostr_lib \<Rightarrow> route_request \<Rightarrow> public_key btree_set" where
  "requested_authors N request =
     bs_of_list (List.map_filter (\<lambda>t. case t of Author a \<Rightarrow> Some a | Recipient a \<Rightarrow> Some a | _ \<Rightarrow> None)
       (request_targets N request))"

definition outbox_query :: "nostr_lib \<Rightarrow> outbox_router \<Rightarrow> route_request \<Rightarrow> router_error + query list" where
  "outbox_query N ob request =
     (let authors = requested_authors N request in
      if authors = [] \<or> ob_indexers ob = [] then Inr []
      else case relay_lists authors of
        Inl e \<Rightarrow> Inl (Refused (query_error_text e))
      | Inr q \<Rightarrow> (case from_relays (ob_indexers ob) q of
          Inl e \<Rightarrow> Inl (Refused (query_error_text e))
        | Inr q \<Rightarrow> Inr [max_age OUTBOX_MAX_AGE (with_relay_access (request_access request) q)]))"

definition bounded_push :: "string list \<Rightarrow> string \<Rightarrow> string list" where
  "bounded_push shortfalls v = (if length shortfalls < MAX_SHORTFALLS then shortfalls @ [v] else shortfalls)"

definition decode_record ::
  "nostr_lib \<Rightarrow> event_record \<Rightarrow> (public_key, relay_list \<times> timestamp \<times> event_id) btree_map \<times> string list
     \<Rightarrow> (public_key, relay_list \<times> timestamp \<times> event_id) btree_map \<times> string list" where
  "decode_record N rec st =
     (case relay_list_from_event N (er_event rec) of
        Inl e \<Rightarrow> (fst st, bounded_push (snd st) (relay_list_error_text e))
      | Inr l \<Rightarrow>
          (let replace = (case bt_get (fst st) (rl_author l) of
                            None \<Rightarrow> True
                          | Some (_, at, i) \<Rightarrow> (at, i) < (er_created_at rec, er_id rec))
           in (if replace then bt_insert (rl_author l) (l, er_created_at rec, er_id rec) (fst st) else fst st,
               snd st)))"

definition outbox_decode ::
  "nostr_lib \<Rightarrow> query_snapshot \<Rightarrow> (public_key, relay_list) btree_map \<times> string list" where
  "outbox_decode N snapshot =
     (let st = fold (decode_record N) (qs_events snapshot) ([], [])
      in (map (\<lambda>(a, l, _). (a, l)) (fst st), snd st))"

definition target_relays ::
  "(public_key, relay_list) btree_map \<Rightarrow> route_target \<Rightarrow> (relay_url btree_set option \<times> string) option" where
  "target_relays rls t =
     (case t of
        Author a \<Rightarrow> Some (map_option rl_write_relays (bt_get rls a), ''NIP-65 author write relay'')
      | Recipient a \<Rightarrow> Some (map_option rl_read_relays (bt_get rls a), ''NIP-65 recipient read relay'')
      | _ \<Rightarrow> None)"

definition outbox_target ::
  "(public_key, relay_list) btree_map \<Rightarrow> bool \<Rightarrow> route_target \<Rightarrow> route_contribution \<Rightarrow> route_contribution" where
  "outbox_target rls settled t c =
     (case target_relays rls t of
        None \<Rightarrow> c
      | Some (None, reason) \<Rightarrow>
          if settled then c\<lparr>ct_coverage := bt_insert t SettledAbsent (ct_coverage c)\<rparr>
          else c\<lparr>ct_unresolved := bs_insert t (ct_unresolved c),
                 ct_coverage := bt_insert t Unresolved (ct_coverage c)\<rparr>
      | Some (Some relays, reason) \<Rightarrow>
          let sessions = bs_of_list relays in
          if sessions = [] then c\<lparr>ct_coverage := bt_insert t SettledAbsent (ct_coverage c)\<rparr>
          else c\<lparr>ct_coverage := bt_insert t (Covered sessions) (ct_coverage c),
                 ct_destinations := ct_destinations c @ map (\<lambda>s. destination_new s [t] reason) sessions\<rparr>)"

definition outbox_contribution ::
  "nostr_lib \<Rightarrow> route_request \<Rightarrow> (public_key, relay_list) btree_map \<Rightarrow> bool \<Rightarrow> string list \<Rightarrow> route_contribution" where
  "outbox_contribution N request rls settled shortfalls =
     fold (outbox_target rls settled) (request_targets N request)
       (contribution_default\<lparr>ct_shortfalls := shortfalls\<rparr>)"

definition outbox_project ::
  "nostr_lib \<Rightarrow> route_request \<Rightarrow> query_snapshot list \<Rightarrow> router_error + route_contribution" where
  "outbox_project N request inputs =
     (if length inputs > 1 then Inl (Refused ''outbox router declares at most one query'')
      else if requested_authors N request = [] then Inr contribution_default
      else let (rls, shortfalls) = (case inputs of [] \<Rightarrow> ([], []) | s # _ \<Rightarrow> outbox_decode N s);
               settled = (case inputs of [] \<Rightarrow> False | s # _ \<Rightarrow> all_relays_stored_events_complete (qs_evidence s))
           in Inr (outbox_contribution N request rls settled shortfalls))"

definition outbox_replace ::
  "nostr_lib \<Rightarrow> outbox_session \<Rightarrow> query_snapshot list
     \<Rightarrow> (router_error + route_contribution) \<times> outbox_session" where
  "outbox_replace N s inputs =
     (if os_closed s then (Inl Closed, s)
      else case outbox_project N (os_request s) inputs of
        Inl e \<Rightarrow> (Inl e, s)
      | Inr v \<Rightarrow> (Inr v, s\<lparr>os_inputs := inputs, os_current := v\<rparr>))"

definition outbox_router_of :: "nostr_lib \<Rightarrow> outbox_router \<Rightarrow> router_session router" where
  "outbox_router_of N ob =
     \<lparr>rt_name = ob_name ob,
      rt_queries = (\<lambda>request upstream. Returned (outbox_query N ob request)),
      rt_preview = (\<lambda>request upstream inputs. Returned (outbox_project N request inputs)),
      rt_open = (\<lambda>request upstream inputs. Returned (case outbox_project N request inputs of
         Inl e \<Rightarrow> Inl e
       | Inr v \<Rightarrow> Inr (OutboxSession \<lparr>os_request = request, os_inputs = inputs, os_current = v, os_closed = False\<rparr>))),
      rt_current = (\<lambda>s. case s of OutboxSession st \<Rightarrow> Returned (os_current st) | _ \<Rightarrow> Panicked),
      rt_replace = (\<lambda>s upstream inputs. case s of
         OutboxSession st \<Rightarrow> (let (answer, st') = outbox_replace N st inputs in (Returned answer, OutboxSession st'))
       | _ \<Rightarrow> (Panicked, s)),
      rt_close = (\<lambda>s. case s of OutboxSession st \<Rightarrow> OutboxSession (st\<lparr>os_closed := True\<rparr>) | _ \<Rightarrow> s)\<rparr>"

subsection \<open>The policies keep the contract\<close>

interpretation app: router_contract "app_router N a"
  "\<lambda>request up inputs. case app_inputs inputs of Inl e \<Rightarrow> Inl e | Inr _ \<Rightarrow> Inr (app_contribution N a request)"
  "\<lambda>request s. s = StaticSession (app_contribution N a request)" for N a
  by unfold_locales (auto simp: app_router_def split: sum.splits)

definition fallback_live :: "fallback_relay_router \<Rightarrow> route_request \<Rightarrow> router_session \<Rightarrow> bool" where
  "fallback_live f request s \<longleftrightarrow> (\<exists>st. s = FallbackSession st \<and> fs_request st = request
     \<and> (fs_relays st, fs_minimum st, fs_reads st, fs_writes st) = (fb_relays f, fb_minimum f, fb_reads f, fb_writes f))"

lemma fallback_replace_live:
  assumes "(fs_relays st, fs_minimum st, fs_reads st, fs_writes st) = (fb_relays f, fb_minimum f, fb_reads f, fb_writes f)"
  shows "fallback_replace N st up inputs =
    (case fallback_inputs inputs of
       Inl e \<Rightarrow> (Inl e, st)
     | Inr _ \<Rightarrow> (Inr (fallback_contribution N f (fs_request st) up),
                 st\<lparr>fs_upstream := up, fs_current := fallback_contribution N f (fs_request st) up\<rparr>))"
  using assms by (simp add: fallback_replace_def fallback_contribution_def Let_def split: sum.splits)

interpretation fallback: router_contract "fallback_router N f"
  "\<lambda>request up inputs. case fallback_inputs inputs of Inl e \<Rightarrow> Inl e | Inr _ \<Rightarrow> Inr (fallback_contribution N f request up)"
  "fallback_live f" for N f
proof unfold_locales
  fix request up inputs s
  assume live: "fallback_live f request s"
  then obtain st where st: "s = FallbackSession st" "fs_request st = request"
    "(fs_relays st, fs_minimum st, fs_reads st, fs_writes st) = (fb_relays f, fb_minimum f, fb_reads f, fb_writes f)"
    by (auto simp: fallback_live_def)
  note replace = fallback_replace_live [OF st(3), of N up inputs]
  show "fst (rt_replace (fallback_router N f) s up inputs) = Returned
      (case fallback_inputs inputs of Inl e \<Rightarrow> Inl e | Inr _ \<Rightarrow> Inr (fallback_contribution N f request up))
    \<and> fallback_live f request (snd (rt_replace (fallback_router N f) s up inputs))"
    using st replace by (simp add: fallback_router_def fallback_live_def split: sum.splits)
  show "rt_current (fallback_router N f) (snd (rt_replace (fallback_router N f) s up inputs)) =
    (case (case fallback_inputs inputs of Inl e \<Rightarrow> Inl e | Inr _ \<Rightarrow> Inr (fallback_contribution N f request up)) of
       Inr v \<Rightarrow> Returned v | Inl _ \<Rightarrow> rt_current (fallback_router N f) s)"
    using st replace by (simp add: fallback_router_def split: sum.splits)
qed (auto simp: fallback_router_def fallback_open_def fallback_live_def split: sum.splits)

definition hint_live :: "route_request \<Rightarrow> router_session \<Rightarrow> bool" where
  "hint_live request s \<longleftrightarrow> (\<exists>st. s = HintSession st \<and> hs_request st = request)"

interpretation hint: router_contract "hint_router N name" "\<lambda>request up inputs. hint_project N request inputs"
  hint_live for N name
  by unfold_locales (auto simp: hint_router_def hint_replace_def hint_live_def split: sum.splits)

definition outbox_live :: "route_request \<Rightarrow> router_session \<Rightarrow> bool" where
  "outbox_live request s \<longleftrightarrow> (\<exists>st. s = OutboxSession st \<and> os_request st = request \<and> \<not> os_closed st)"

interpretation outbox: router_contract "outbox_router_of N ob" "\<lambda>request up inputs. outbox_project N request inputs"
  outbox_live for N ob
  by unfold_locales (auto simp: outbox_router_of_def outbox_replace_def outbox_live_def split: sum.splits)

lemmas policy_contracts =
  app.router_contract_axioms fallback.router_contract_axioms
  hint.router_contract_axioms outbox.router_contract_axioms

lemma query_error_ascii: "ascii (query_error_text e)"
  by (cases e) simp_all

lemma policies_speak_ascii:
  "speaks_ascii (app_router N a)" "speaks_ascii (fallback_router N f)"
  "speaks_ascii (hint_router N name)" "speaks_ascii (outbox_router_of N ob)"
  by (auto simp: speaks_ascii_def app_router_def app_inputs_def fallback_router_def fallback_inputs_def
      hint_router_def hint_queries_def hint_project_def outbox_router_of_def outbox_query_def
      outbox_project_def query_error_ascii Let_def split: if_splits sum.splits prod.splits)

subsection \<open>Relay lists\<close>

lemma relay_tag_sets:
  "relay \<in> set (fst (fold (relay_tag N) ts rw)) \<longleftrightarrow> relay \<in> set (fst rw) \<or>
     (\<exists>t\<in>set ts. nth_opt t 0 = Some ''r'' \<and> Option.bind (nth_opt t 1) (relay_url_parse N) = Some relay
        \<and> (nth_opt t 2 = None \<or> nth_opt t 2 = Some ''read''))"
  "relay \<in> set (snd (fold (relay_tag N) ts rw)) \<longleftrightarrow> relay \<in> set (snd rw) \<or>
     (\<exists>t\<in>set ts. nth_opt t 0 = Some ''r'' \<and> Option.bind (nth_opt t 1) (relay_url_parse N) = Some relay
        \<and> (nth_opt t 2 = None \<or> nth_opt t 2 = Some ''write''))"
  by (induction ts arbitrary: rw)
    (auto simp: relay_tag_def relay_marker_def split: option.splits if_splits)

text \<open>
  A relay list names exactly the relays its tags declare: a relay is read from when a tag
  lists it unmarked or marked \<open>read\<close>, written to when unmarked or marked \<open>write\<close>; malformed
  URLs and unknown markers are ignored, and only the kind is refused.
\<close>

theorem relay_list_from_event_spec:
  "case relay_list_from_event N v of
     Inl e \<Rightarrow> e = WrongKind (value_kind v) \<and> value_kind v \<noteq> 10002
   | Inr l \<Rightarrow> rl_author l = value_author v \<and> value_kind v = 10002
       \<and> (\<forall>relay. relay \<in> set (rl_read_relays l) \<longleftrightarrow>
            (\<exists>t\<in>set (value_tags v). nth_opt t 0 = Some ''r''
               \<and> Option.bind (nth_opt t 1) (relay_url_parse N) = Some relay
               \<and> (nth_opt t 2 = None \<or> nth_opt t 2 = Some ''read'')))
       \<and> (\<forall>relay. relay \<in> set (rl_write_relays l) \<longleftrightarrow>
            (\<exists>t\<in>set (value_tags v). nth_opt t 0 = Some ''r''
               \<and> Option.bind (nth_opt t 1) (relay_url_parse N) = Some relay
               \<and> (nth_opt t 2 = None \<or> nth_opt t 2 = Some ''write'')))"
  by (simp add: relay_list_from_event_def Let_def relay_tag_sets)

text \<open>The list kept for an author after the loop is the newest one decoded so far.\<close>

definition newest_list ::
  "nostr_lib \<Rightarrow> event_record list \<Rightarrow> public_key \<Rightarrow> (relay_list \<times> timestamp \<times> event_id) option \<Rightarrow> bool" where
  "newest_list N recs a kept =
     (case kept of
        None \<Rightarrow> \<forall>rec\<in>set recs. \<forall>l. relay_list_from_event N (er_event rec) = Inr l \<longrightarrow> rl_author l \<noteq> a
      | Some (l, at, i) \<Rightarrow>
          (\<exists>rec\<in>set recs. relay_list_from_event N (er_event rec) = Inr l \<and> rl_author l = a
             \<and> at = er_created_at rec \<and> i = er_id rec)
          \<and> (\<forall>rec\<in>set recs. \<forall>l'. relay_list_from_event N (er_event rec) = Inr l' \<longrightarrow> rl_author l' = a \<longrightarrow>
               (er_created_at rec, er_id rec) \<le> (at, i)))"

lemma decode_record_get:
  "bt_get (fst (decode_record N rec st)) a =
     (case relay_list_from_event N (er_event rec) of
        Inl e \<Rightarrow> bt_get (fst st) a
      | Inr l \<Rightarrow> if rl_author l = a \<and> (case bt_get (fst st) a of None \<Rightarrow> True
                        | Some (_, at, i) \<Rightarrow> (at, i) < (er_created_at rec, er_id rec))
                then Some (l, er_created_at rec, er_id rec) else bt_get (fst st) a)"
  by (auto simp: decode_record_def Let_def split: sum.splits)

lemma newest_list_step:
  assumes "newest_list N recs a (bt_get m a)"
  shows "newest_list N (recs @ [rec]) a (bt_get (fst (decode_record N rec (m, ss))) a)"
proof (cases "relay_list_from_event N (er_event rec)")
  case (Inl e)
  with assms show ?thesis by (auto simp: decode_record_get newest_list_def split: option.splits)
next
  case (Inr l)
  show ?thesis
  proof (cases "rl_author l = a \<and> bt_get m a \<noteq> None")
    case False
    with Inr assms show ?thesis by (auto simp: decode_record_get newest_list_def split: option.splits)
  next
    case True
    then obtain l0 at i where kept: "bt_get m a = Some (l0, at, i)" by auto
    let ?new = "(er_created_at rec, er_id rec)"
    have old: "\<exists>rec\<in>set recs. relay_list_from_event N (er_event rec) = Inr l0 \<and> rl_author l0 = a
        \<and> at = er_created_at rec \<and> i = er_id rec"
      "\<forall>rec\<in>set recs. \<forall>l'. relay_list_from_event N (er_event rec) = Inr l' \<longrightarrow> rl_author l' = a \<longrightarrow>
         (er_created_at rec, er_id rec) \<le> (at, i)"
      using assms unfolding kept newest_list_def option.case prod.case by blast+
    show ?thesis
    proof (cases "(at, i) < ?new")
      case newer: True
      then have "bt_get (fst (decode_record N rec (m, ss))) a = Some (l, ?new)"
        using True Inr kept by (simp only: decode_record_get sum.case option.case prod.case fst_conv simp_thms if_True)
      moreover have "p \<le> ?new" if "p \<le> (at, i)" for p
        using that newer order_trans order_less_imp_le by blast
      ultimately show ?thesis
        using old(2) True Inr unfolding newest_list_def
        by (auto simp del: less_eq_prod_simp less_prod_simp)
    next
      case False
      then have "bt_get (fst (decode_record N rec (m, ss))) a = Some (l0, at, i)"
        using True Inr kept by (simp only: decode_record_get sum.case option.case prod.case fst_conv simp_thms if_False)
      moreover have "?new \<le> (at, i)" using False by (rule leI)
      ultimately show ?thesis
        using old True Inr unfolding newest_list_def
        by (auto simp del: less_eq_prod_simp less_prod_simp)
    qed
  qed
qed

lemma decode_newest: "newest_list N recs a (bt_get (fst (fold (decode_record N) recs ([], []))) a)"
proof (induction recs rule: rev_induct)
  case Nil
  show ?case by (simp add: newest_list_def)
next
  case (snoc rec recs)
  from newest_list_step [OF this, of rec "snd (fold (decode_record N) recs ([], []))"]
  show ?case by simp
qed

lemma bt_get_map_fst: "bt_get (map (\<lambda>(a, l, _). (a, l)) m) a = map_option fst (bt_get m a)"
  by (induction m) (auto simp: bt_get_def)

text \<open>
  The relay list the outbox router uses for an author is one of the records it was given,
  parsed, and no record of that author with a valid list is later in (time, id) order.
\<close>

theorem outbox_decode_newest:
  assumes "bt_get (fst (outbox_decode N snapshot)) a = Some l"
  shows "\<exists>rec\<in>set (qs_events snapshot). relay_list_from_event N (er_event rec) = Inr l \<and> rl_author l = a
    \<and> (\<forall>rec'\<in>set (qs_events snapshot). \<forall>l'. relay_list_from_event N (er_event rec') = Inr l' \<longrightarrow>
         rl_author l' = a \<longrightarrow> (er_created_at rec', er_id rec') \<le> (er_created_at rec, er_id rec))"
proof -
  let ?m = "fst (fold (decode_record N) (qs_events snapshot) ([], []))"
  from assms obtain at i where kept: "bt_get ?m a = Some (l, at, i)"
    by (auto simp: outbox_decode_def Let_def bt_get_map_fst)
  from decode_newest [of N "qs_events snapshot" a] show ?thesis
    unfolding kept newest_list_def option.case prod.case by blast
qed

definition outbox_state :: "bool \<Rightarrow> relay_url btree_set option \<Rightarrow> coverage_state" where
  "outbox_state settled relays =
     (case relays of
        None \<Rightarrow> if settled then SettledAbsent else Unresolved
      | Some rs \<Rightarrow> if rs = [] then SettledAbsent else Covered (bs_of_list rs))"

lemma outbox_target_coverage:
  "bt_get (ct_coverage (outbox_target rls settled t c)) u =
     (if u = t then (case target_relays rls t of None \<Rightarrow> bt_get (ct_coverage c) t
                     | Some (relays, _) \<Rightarrow> Some (outbox_state settled relays))
      else bt_get (ct_coverage c) u)"
  by (auto simp: outbox_target_def outbox_state_def Let_def split: option.splits)

lemma outbox_fold_coverage:
  assumes "target_relays rls t = Some (relays, reason)" "t \<in> set ts"
  shows "bt_get (ct_coverage (fold (outbox_target rls settled) ts c)) t = Some (outbox_state settled relays)"
  using assms(2)
proof (induction ts rule: rev_induct)
  case Nil
  then show ?case by simp
next
  case (snoc u ts)
  with assms(1) show ?case by (cases "u = t") (auto simp: outbox_target_coverage)
qed

definition outbox_justified :: "(public_key, relay_list) btree_map \<Rightarrow> route_destination \<Rightarrow> bool" where
  "outbox_justified rls d \<longleftrightarrow> (\<exists>t relays. target_relays rls t = Some (Some relays, ds_reason d)
     \<and> ds_targets d = [t] \<and> ds_session d \<in> set relays)"

lemma outbox_fold_destinations:
  "\<forall>d\<in>set (ct_destinations c). outbox_justified rls d \<Longrightarrow>
   \<forall>d\<in>set (ct_destinations (fold (outbox_target rls settled) ts c)). outbox_justified rls d"
proof (induction ts arbitrary: c)
  case Nil
  then show ?case by simp
next
  case (Cons t ts)
  have "\<forall>d\<in>set (ct_destinations (outbox_target rls settled t c)). outbox_justified rls d"
    using Cons.prems
    by (auto simp: outbox_target_def Let_def outbox_justified_def destination_new_def split: option.splits if_splits)
  from Cons.IH [OF this] show ?case by simp
qed

text \<open>
  The outbox router sends work to the relays the lists name and nowhere else: an author is
  covered by its write relays, a recipient by its read relays, a missing list is unresolved
  until the indexers have answered and settled absent after, and every destination carries one
  target whose list names it.
\<close>

theorem outbox_contribution_spec:
  assumes "t \<in> set (request_targets N request)" "target_relays rls t = Some (relays, reason)"
  shows "bt_get (ct_coverage (outbox_contribution N request rls settled shortfalls)) t = Some (outbox_state settled relays)
    \<and> (\<forall>d\<in>set (ct_destinations (outbox_contribution N request rls settled shortfalls)). outbox_justified rls d)"
  unfolding outbox_contribution_def
  by (intro conjI outbox_fold_coverage [OF assms(2,1)] outbox_fold_destinations) simp

subsection \<open>Fallback\<close>

lemma covered_by_constant:
  "bt_get (bt_of_list (map (\<lambda>t. (t, s)) ts)) u = (if u \<in> set ts then Some s else None)"
proof -
  have "bt_get (fold (\<lambda>(k, v). bt_insert k v) (map (\<lambda>t. (t, s)) ts) m) u = (if u \<in> set ts then Some s else bt_get m u)" for m
    by (induction ts arbitrary: m) auto
  then show ?thesis by (simp add: bt_of_list_def)
qed

text \<open>
  The fallback router covers exactly the targets whose upstream coverage is below the
  minimum, each with all its relays, and it leaves the others alone.
\<close>

theorem fallback_contribution_spec:
  assumes "is_read request \<longrightarrow> fb_reads f" "is_write request \<longrightarrow> fb_writes f"
  shows "bt_get (ct_coverage (fallback_contribution N f request upstream)) t =
      (if t \<in> set (request_targets N request) \<and> covered upstream t < fb_minimum f
       then Some (if fb_relays f = [] then SettledAbsent else Covered (fb_relays f)) else None)
    \<and> (\<forall>d\<in>set (ct_destinations (fallback_contribution N f request upstream)).
         ds_session d \<in> set (fb_relays f) \<and> (\<forall>u\<in>set (ds_targets d). covered upstream u < fb_minimum f))"
  using assms
  by (auto simp: fallback_contribution_def Let_def covered_by_constant destination_new_def filter_empty_conv)

subsection \<open>Hints\<close>

text \<open>A relay is hinted for an event by a tag of the routed event or by an admitted record.\<close>

definition hinted :: "nostr_lib \<Rightarrow> route_request \<Rightarrow> query_snapshot list \<Rightarrow> event_id \<Rightarrow> relay_url \<Rightarrow> bool" where
  "hinted N request inputs i relay \<longleftrightarrow>
     (\<exists>v. \<exists>t\<in>set (value_tags v). request_event request = Some v \<and> nth_opt t 0 = Some ''e''
        \<and> Option.bind (nth_opt t 1) (event_id_parse N) = Some i
        \<and> Option.bind (nth_opt t 2) (relay_url_parse N) = Some relay)
     \<or> (\<exists>snapshot\<in>set inputs. \<exists>rec\<in>set (qs_events snapshot). er_id rec = i
        \<and> relay \<in> occ_session ` set (bt_values (ros_occurrences (er_relay_occurrences rec))))"

definition hints_ok ::
  "(event_id \<Rightarrow> relay_url \<Rightarrow> bool) \<Rightarrow> (route_target, relay_url btree_set) btree_map \<Rightarrow> bool" where
  "hints_ok P m \<longleftrightarrow> (\<forall>t ss s. bt_get m t = Some ss \<longrightarrow> s \<in> set ss \<longrightarrow> (\<exists>i. t = ReferencedEvent i \<and> P i s))"

lemma hints_ok_insert:
  "hints_ok P m \<Longrightarrow> \<forall>s\<in>set relays. P i s \<Longrightarrow> hints_ok P (insert_hint (ReferencedEvent i) relays m)"
  by (cases "bt_get m (ReferencedEvent i)") (auto simp: hints_ok_def insert_hint_def bs_fold_insert)

lemma hints_ok_fold_tags:
  assumes "request_event request = Some v" "set ts \<subseteq> set (value_tags v)" "hints_ok (hinted N request inputs) m"
  shows "hints_ok (hinted N request inputs) (fold (tag_hint N) ts m)"
  using assms(2,3)
proof (induction ts arbitrary: m)
  case Nil
  then show ?case by simp
next
  case (Cons t ts)
  have "hints_ok (hinted N request inputs) (tag_hint N t m)"
  proof (cases "tag_hint N t m = m")
    case True
    with Cons.prems show ?thesis by simp
  next
    case False
    then obtain i relay where "nth_opt t 0 = Some ''e''" "Option.bind (nth_opt t 1) (event_id_parse N) = Some i"
      "Option.bind (nth_opt t 2) (relay_url_parse N) = Some relay"
      "tag_hint N t m = insert_hint (ReferencedEvent i) [relay] m"
      by (auto simp: tag_hint_def split: option.splits if_splits)
    moreover from this have "hinted N request inputs i relay"
      using assms(1) Cons.prems(1) unfolding hinted_def by auto
    ultimately show ?thesis using Cons.prems(2) by (simp add: hints_ok_insert)
  qed
  with Cons show ?case by simp
qed

lemma hints_ok_fold_records:
  assumes "snapshot \<in> set inputs" "set recs \<subseteq> set (qs_events snapshot)" "hints_ok (hinted N request inputs) m"
  shows "hints_ok (hinted N request inputs) (fold record_hint recs m)"
  using assms(2,3)
proof (induction recs arbitrary: m)
  case Nil
  then show ?case by simp
next
  case (Cons rec recs)
  have "\<forall>s\<in>set (map occ_session (bt_values (ros_occurrences (er_relay_occurrences rec)))).
      hinted N request inputs (er_id rec) s"
    using assms(1) Cons.prems(1) unfolding hinted_def
    by (intro ballI disjI2 bexI [of _ snapshot] bexI [of _ rec]) auto
  from hints_ok_insert [OF Cons.prems(2) this] Cons show ?case by (simp add: record_hint_def)
qed

lemma hints_ok_sources: "hints_ok (hinted N request inputs) (hint_sources N request inputs)"
proof -
  have "hints_ok (hinted N request inputs) []" by (simp add: hints_ok_def)
  then have "hints_ok (hinted N request inputs)
      (case request_event request of None \<Rightarrow> [] | Some v \<Rightarrow> fold (tag_hint N) (value_tags v) [])"
    by (auto split: option.splits intro: hints_ok_fold_tags)
  then show ?thesis
    by (auto simp: hint_sources_def Let_def split: list.splits intro: hints_ok_fold_records)
qed

lemma hints_ok_remove: "hints_ok P m \<Longrightarrow> hints_ok P (bt_remove t m)"
  by (auto simp: hints_ok_def split: if_splits)

lemma hint_targets_sound:
  assumes "hints_ok P m" "d \<in> set (ct_destinations (hint_targets ts m c))"
  shows "d \<in> set (ct_destinations c) \<or>
    (\<exists>i. ds_targets d = [ReferencedEvent i] \<and> ReferencedEvent i \<in> set ts \<and> P i (ds_session d))"
  using assms
proof (induction ts m c rule: hint_targets.induct)
  case (1 m c)
  then show ?case by simp
next
  case (2 t ts m c)
  define ss where "ss = (case bt_get m t of Some s \<Rightarrow> s | None \<Rightarrow> [])"
  have step: "\<exists>i. t = ReferencedEvent i \<and> P i s" if "s \<in> set ss" for s
    using 2(2) that unfolding hints_ok_def ss_def by (cases "bt_get m t") auto
  let ?c = "if ss = [] then c\<lparr>ct_coverage := bt_insert t SettledAbsent (ct_coverage c)\<rparr>
         else c\<lparr>ct_coverage := bt_insert t (Covered ss) (ct_coverage c),
                ct_destinations := ct_destinations c @ map (\<lambda>s. destination_new s [t]
                  ''Nostr reference hint or admitted relay evidence'') ss\<rparr>"
  have "d \<in> set (ct_destinations ?c) \<or>
      (\<exists>i. ds_targets d = [ReferencedEvent i] \<and> ReferencedEvent i \<in> set ts \<and> P i (ds_session d))"
    by (rule 2(1) [OF ss_def hints_ok_remove [OF 2(2)]]) (use 2(3) in \<open>simp only: hint_targets.simps Let_def ss_def\<close>)
  then show ?case
    by (auto simp: destination_new_def split: if_splits dest: step)
qed

text \<open>
  Every destination of the hint router is evidence-based: it covers one referenced event
  of the request, at a relay that a reference tag of the routed event names for it or where an
  admitted record of that event was observed.
\<close>

theorem hint_project_sound:
  assumes "hint_project N request inputs = Inr v" "d \<in> set (ct_destinations v)"
  shows "\<exists>i. ds_targets d = [ReferencedEvent i] \<and> ReferencedEvent i \<in> set (request_targets N request)
    \<and> hinted N request inputs i (ds_session d)"
proof -
  from assms(1) have v: "v = hint_targets (List.filter is_referenced (request_targets N request))
      (hint_sources N request inputs) contribution_default"
    by (auto simp: hint_project_def split: if_splits)
  from hint_targets_sound [OF hints_ok_sources assms(2) [unfolded v]] show ?thesis by auto
qed

subsection \<open>A concrete chain\<close>

definition sample_app :: "router_session router" where
  "sample_app = app_router sample_lib (app_router_new ''app'' [''wss://a''])"

definition sample_chain :: "router_session router list" where
  "sample_chain = [sample_app, fallback_router sample_lib (fallback_new ''fb'' [''wss://b''] 2)]"

lemma sample_chain_names: "validate_names sample_chain = Inr ()"
  by (simp add: validate_names_ok sample_chain_def sample_app_def app_router_def app_router_new_def
      fallback_router_def fallback_new_def MAX_TEXT_BYTES_def)

theorem chain_preview_isolates_witness:
  "\<exists>p. chain_preview sample_lib sample_chain (Read query_events) [[], []] = Some (Inr p)
    \<and> length (rp_shortfalls p) \<le> MAX_SHORTFALLS"
proof -
  have "\<forall>r\<in>set sample_chain. speaks_ascii r"
    by (simp add: sample_chain_def sample_app_def policies_speak_ascii)
  from chain_preview_isolates [OF sample_chain_names _ this, where N = sample_lib
      and request = "Read query_events" and inputs = "[[], []]"] show ?thesis
    by (auto simp: sample_chain_def)
qed

theorem chain_open_agrees_preview_witness:
  "\<exists>oc. chain_open sample_lib [sample_app] (Read query_events) [[]] = Some (Inr oc)
    \<and> chain_preview sample_lib [sample_app] (Read query_events) [[]]
      = Some (plan_from_contribution 1 (chain_current oc))"
proof -
  have "\<forall>r\<in>set [sample_app]. \<exists>contribute live. router_contract r contribute live"
    using app.router_contract_axioms by (auto simp: sample_app_def)
  note agree = chain_open_agrees_preview [OF this, of sample_lib "Read query_events" "[[]]"]
  have "case chain_open sample_lib [sample_app] (Read query_events) [[]] of Some (Inr oc) \<Rightarrow> True | _ \<Rightarrow> False"
    by code_simp
  with agree show ?thesis by (auto split: option.splits sum.splits)
qed

definition sample_planned :: planned_relay where
  "sample_planned = \<lparr>pl_session = ''wss://a'', pl_targets = [WholeRequest],
     pl_reasons = [(''app'', ''configured application relay'')]\<rparr>"

definition sample_plan :: route_plan where
  "sample_plan = \<lparr>rp_revision = 1, rp_destinations = [(''wss://a'', sample_planned)],
     rp_coverage = [(WholeRequest, Covered [''wss://a''])], rp_unresolved = [], rp_shortfalls = []\<rparr>"

theorem chain_preview_attribution_witness:
  "chain_preview sample_lib [sample_app] (Read query_events) [[]] = Some (Inr sample_plan)
   \<and> (\<exists>up ins v d. rt_preview sample_app (Read query_events) up ins = Returned (Inr v)
        \<and> d \<in> set (ct_destinations v) \<and> ds_session d = ''wss://a'')"
proof -
  have p: "chain_preview sample_lib [sample_app] (Read query_events) [[]] = Some (Inr sample_plan)"
    by code_simp
  have "bt_get (rp_destinations sample_plan) ''wss://a'' = Some sample_planned"
    "(''app'', ''configured application relay'') \<in> set (pl_reasons sample_planned)"
    by (simp_all add: sample_plan_def sample_planned_def bt_get_def)
  from chain_preview_attribution [OF p this] p show ?thesis by auto
qed

definition sample_absence :: composer where
  "sample_absence = \<lparr>cp_contributions = [contribution_default\<lparr>ct_coverage := [(WholeRequest, SettledAbsent)]\<rparr>],
     cp_answered = [True], cp_shortfalls = [], cp_discarded = 0, cp_targets = [WholeRequest]\<rparr>"

theorem reported_absence_unresolved_witness:
  "\<exists>p. composer_plan 1 sample_absence = Inr p \<and> \<not> plan_settled p"
proof -
  have "case composer_plan 1 sample_absence of Inr p \<Rightarrow> True | Inl e \<Rightarrow> False" by code_simp
  then obtain p where p: "composer_plan 1 sample_absence = Inr p" by (auto split: sum.splits)
  from reported_absence_unresolved [OF this, of _ WholeRequest] have "\<not> plan_settled p"
    by (auto simp: sample_absence_def)
  with p show ?thesis by blast
qed

definition sample_list_event :: event where
  "sample_list_event = sample_event 5 1 10 10002 [[''r'', ''wss://w'', ''write'']]"

definition sample_list_snapshot :: query_snapshot where
  "sample_list_snapshot = snapshot_evaluated
     [\<lparr>er_id = 5, er_event = Signed sample_list_event,
       er_relay_occurrences = \<lparr>ros_event_id = 5, ros_occurrences = []\<rparr>, er_publication = None\<rparr>] []"

definition sample_relay_list :: relay_list where
  "sample_relay_list = \<lparr>rl_author = 1, rl_read_relays = [], rl_write_relays = [''wss://w'']\<rparr>"

theorem outbox_decode_newest_witness:
  "bt_get (fst (outbox_decode sample_lib sample_list_snapshot)) 1 = Some sample_relay_list
   \<and> (\<exists>rec\<in>set (qs_events sample_list_snapshot). relay_list_from_event sample_lib (er_event rec) = Inr sample_relay_list)"
proof -
  have "bt_get (fst (outbox_decode sample_lib sample_list_snapshot)) 1 = Some sample_relay_list" by code_simp
  with outbox_decode_newest [OF this] show ?thesis by blast
qed

definition sample_write :: route_request where
  "sample_write = Write (Signed (sample_event 8 1 11 1 [[''e'', ''7'', ''wss://h'']])) Unauthenticated"

theorem outbox_contribution_spec_witness:
  "bt_get (ct_coverage (outbox_contribution sample_lib sample_write [(1, sample_relay_list)] True [])) (Author 1)
     = Some (Covered [''wss://w''])"
proof -
  have "Author 1 \<in> set (request_targets sample_lib sample_write)" by code_simp
  moreover have "target_relays [(1, sample_relay_list)] (Author 1) = Some (Some [''wss://w''], ''NIP-65 author write relay'')"
    by (simp add: target_relays_def sample_relay_list_def bt_get_def)
  ultimately show ?thesis
    using outbox_contribution_spec [of "Author 1" sample_lib sample_write "[(1, sample_relay_list)]"
        "Some [''wss://w'']" "''NIP-65 author write relay''" True "[]"]
    by (simp add: outbox_state_def bs_of_list_def)
qed

theorem fallback_contribution_spec_witness:
  "bt_get (ct_coverage (fallback_contribution sample_lib (fallback_new ''fb'' [''wss://b''] 2) (Read query_events) plan_default))
     WholeRequest = Some (Covered [''wss://b''])"
  using fallback_contribution_spec [of "Read query_events" "fallback_new ''fb'' [''wss://b''] 2" sample_lib plan_default WholeRequest]
  by (simp add: fallback_new_def query_events_def selection_default_def covered_def plan_default_def bs_of_list_def bt_get_def)

theorem hint_project_sound_witness:
  "\<exists>v d. hint_project sample_lib sample_write [] = Inr v \<and> d \<in> set (ct_destinations v)
    \<and> hinted sample_lib sample_write [] 7 (ds_session d)"
proof -
  let ?d = "destination_new ''wss://h'' [ReferencedEvent 7] ''Nostr reference hint or admitted relay evidence''"
  let ?v = "contribution_default\<lparr>ct_destinations := [?d], ct_coverage := [(ReferencedEvent 7, Covered [''wss://h''])]\<rparr>"
  have v: "hint_project sample_lib sample_write [] = Inr ?v" by code_simp
  from hint_project_sound [OF v, of ?d] v show ?thesis
    by (intro exI [of _ ?v] exI [of _ ?d]) (simp add: destination_new_def)
qed

end
