(* ===== verification/Write_Store.thy ===== *)
theory Write_Store
  imports Routing
begin

section \<open>The write-store contract (\<open>fava-write-store\<close>)\<close>

text \<open>
  \<open>crates/fava-write-store/src\<close>: the errors, the bounds on receipt text, the currentness check
  every mutation starts with, the application of a route plan to a receipt, and the provided
  methods of the trait.
\<close>

record accepted_write =
  aw_write_id :: write_id
  aw_receipt_id :: receipt_id
  aw_current :: local_write_event

datatype write_store_error =
    StoreClosed
  | StoreInvalidEvent invalid_event_value
  | StoreInvalidIntent write_intent_error
  | StoreRefused string

definition MAX_RECEIPT_TEXT_BYTES :: nat where
  "MAX_RECEIPT_TEXT_BYTES = 4096"

definition DESTINATION_EVIDENCE_CAPACITY :: nat where
  "DESTINATION_EVIDENCE_CAPACITY = 256"

definition validate_receipt_text :: "string \<Rightarrow> write_store_error + unit" where
  "validate_receipt_text v =
     (if length v \<le> MAX_RECEIPT_TEXT_BYTES then Inr ()
      else Inl (StoreRefused (''receipt text exceeds bound: '' @ show_nat (length v) @ '' > ''
             @ show_nat MAX_RECEIPT_TEXT_BYTES)))"

lemma validate_receipt_text_code [code]:
  "validate_receipt_text v =
     (if int (length v) \<le> 4096 then Inr ()
      else Inl (StoreRefused (''receipt text exceeds bound: '' @ show_nat (length v) @ '' > ''
             @ show_nat MAX_RECEIPT_TEXT_BYTES)))"
  by (simp add: validate_receipt_text_def MAX_RECEIPT_TEXT_BYTES_def)

fun validate_delivery_outcome :: "relay_delivery_outcome \<Rightarrow> write_store_error + unit" where
  "validate_delivery_outcome (Retryable reason) = validate_receipt_text reason"
| "validate_delivery_outcome (AuthenticationDenied reason) = validate_receipt_text reason"
| "validate_delivery_outcome (GivenUp reason) = validate_receipt_text reason"
| "validate_delivery_outcome (Unknown reason) = validate_receipt_text reason"
| "validate_delivery_outcome (Acknowledged message) = validate_receipt_text message"
| "validate_delivery_outcome (Rejected message) = validate_receipt_text message"
| "validate_delivery_outcome _ = Inr ()"

definition validate_current_revision ::
  "receipt \<Rightarrow> write_id \<Rightarrow> revision_id \<Rightarrow> event_id \<Rightarrow> write_store_error + unit" where
  "validate_current_revision r write revision event =
     (if receipt_is_terminal r \<or> rc_write_id r \<noteq> write
         \<or> pe_revision_id (lw_publication (rc_current r)) \<noteq> revision \<or> lw_id (rc_current r) \<noteq> event
      then Inl (StoreRefused ''write revision is not current'') else Inr ())"

subsection \<open>Applying a route\<close>

text \<open>The derived \<open>Debug\<close> text of a target, over the texts of the library for its keys.\<close>

fun target_debug :: "nostr_lib \<Rightarrow> route_target \<Rightarrow> string" where
  "target_debug N WholeRequest = ''WholeRequest''"
| "target_debug N (Author k) = ''Author('' @ public_key_debug N k @ '')''"
| "target_debug N (Recipient k) = ''Recipient('' @ public_key_debug N k @ '')''"
| "target_debug N (ReferencedEvent i) = ''ReferencedEvent('' @ event_id_debug N i @ '')''"

definition settle_route :: "receipt \<Rightarrow> receipt" where
  "settle_route r =
     (if \<not> rc_route_settled r \<or> (\<exists>out\<in>set (bt_values (receipt_destinations r)). \<not> outcome_is_terminal out)
      then r\<lparr>rc_outcome := Open\<rparr>
      else if rc_desired_destinations r = [] then r\<lparr>rc_outcome := NoDestination\<rparr>
      else r\<lparr>rc_outcome := Complete\<rparr>)"

text \<open>One withdrawn destination: nothing that may have been handed off is forgotten.\<close>

definition withdraw_session :: "relay_url \<Rightarrow> receipt \<Rightarrow> receipt" where
  "withdraw_session session r =
     (case bt_get (receipt_destinations r) session of
        Some Pending \<Rightarrow>
          (update_destinations (bt_remove session) r)\<lparr>rc_attempts := bt_remove session (rc_attempts r)\<rparr>
      | Some (Retryable _) \<Rightarrow> update_destinations (bt_insert session CancelledBeforeHandoff) r
      | _ \<Rightarrow> r)"

definition route_shortfalls :: "nostr_lib \<Rightarrow> route_plan \<Rightarrow> string list" where
  "route_shortfalls N p = rp_shortfalls p
     @ map (\<lambda>(t, _). ''no relay destination for '' @ target_debug N t)
         (List.filter (\<lambda>(_, s). s = SettledAbsent) (rp_coverage p))"

definition apply_newer_route_to_receipt ::
  "nostr_lib \<Rightarrow> route_plan \<Rightarrow> receipt \<Rightarrow> write_store_error + receipt" where
  "apply_newer_route_to_receipt N p r =
     (if length (rp_destinations p) > DESTINATION_EVIDENCE_CAPACITY
      then Inl (StoreRefused (''route destination fan-out exceeds bound: '' @ show_nat (length (rp_destinations p))
             @ '' > '' @ show_nat DESTINATION_EVIDENCE_CAPACITY))
      else let desired = bt_keys (rp_destinations p); shortfalls = route_shortfalls N p in
        if length shortfalls > DESTINATION_EVIDENCE_CAPACITY
        then Inl (StoreRefused (''route shortfall count exceeds bound: '' @ show_nat (length shortfalls)
               @ '' > '' @ show_nat DESTINATION_EVIDENCE_CAPACITY))
        else case check_all validate_receipt_text shortfalls of
          Inl e \<Rightarrow> Inl e
        | Inr _ \<Rightarrow>
            let r1 = fold withdraw_session (bs_diff (rc_desired_destinations r) desired) r;
                r2 = update_destinations (fold (\<lambda>s. bt_or_insert s Pending) desired) r1
            in Inr (settle_route (r2\<lparr>rc_route_revision := rp_revision p, rc_route_settled := plan_settled p,
                      rc_route_shortfalls := shortfalls, rc_desired_destinations := desired\<rparr>)))"

definition persisted_route_effect_matches :: "nostr_lib \<Rightarrow> receipt \<Rightarrow> route_plan \<Rightarrow> bool" where
  "persisted_route_effect_matches N r p =
     (case apply_newer_route_to_receipt N p
             (update_destinations (\<lambda>_. []) (r\<lparr>rc_outcome := Open, rc_route_revision := 0, rc_route_settled := False,
                rc_route_shortfalls := [], rc_desired_destinations := [], rc_attempts := []\<rparr>)) of
        Inl _ \<Rightarrow> False
      | Inr c \<Rightarrow> rc_outcome c = rc_outcome r \<and> rc_route_revision c = rc_route_revision r
          \<and> rc_route_settled c = rc_route_settled r \<and> rc_route_shortfalls c = rc_route_shortfalls r
          \<and> rc_desired_destinations c = rc_desired_destinations r \<and> rc_attempts c = rc_attempts r
          \<and> receipt_destinations c = receipt_destinations r)"

definition apply_route_to_receipt :: "nostr_lib \<Rightarrow> route_plan \<Rightarrow> receipt \<Rightarrow> write_store_error + receipt" where
  "apply_route_to_receipt N p r =
     (if rc_routing r \<noteq> Automatic
      then Inl (StoreRefused ''automatic route cannot mutate an explicit receipt'')
      else if rp_revision p < rc_route_revision r
      then Inl (StoreRefused (''route revision is stale: '' @ show_nat (unat (rp_revision p)) @ '' < ''
             @ show_nat (unat (rc_route_revision r))))
      else if rp_revision p = rc_route_revision r
      then if rp_revision p = 0
           then Inl (StoreRefused ''route revision zero has no persisted effect to replay'')
           else if persisted_route_effect_matches N r p then Inr r
           else Inl (StoreRefused (''route revision '' @ show_nat (unat (rp_revision p))
                  @ '' has a different persisted effect''))
      else apply_newer_route_to_receipt N p r)"

subsection \<open>Provided methods\<close>

definition applied_intent :: "nostr_lib \<Rightarrow> timestamp \<Rightarrow> event_value \<Rightarrow> write_store_error + write_intent" where
  "applied_intent N now v =
     (case (case v of Unsigned u \<Rightarrow> intent_event N now u Automatic
                    | Signed e \<Rightarrow> intent_presigned N now e Automatic) of
        Inl e \<Rightarrow> Inl (StoreInvalidIntent e)
      | Inr i \<Rightarrow> Inr i)"

definition visible_event :: "receipt option \<Rightarrow> local_write_event option" where
  "visible_event r =
     (case r of
        None \<Rightarrow> None
      | Some r \<Rightarrow> if rc_outcome r = Cancelled then None else Some (rc_current r))"

subsection \<open>What a route changes\<close>

text \<open>A route touches the routing fields and the destinations, nothing else of the receipt.\<close>

definition route_frame :: "receipt \<Rightarrow> receipt \<Rightarrow> bool" where
  "route_frame r r' \<longleftrightarrow> rc_write_id r' = rc_write_id r \<and> rc_receipt_id r' = rc_receipt_id r
     \<and> rc_routing r' = rc_routing r \<and> rc_access r' = rc_access r
     \<and> rc_current r' = (rc_current r)\<lparr>lw_publication :=
         (lw_publication (rc_current r))\<lparr>pe_destinations := receipt_destinations r'\<rparr>\<rparr>"

lemma route_frame_refl: "route_frame r r"
  by (simp add: route_frame_def receipt_destinations_def)

lemma route_frame_trans: "route_frame a b \<Longrightarrow> route_frame b c \<Longrightarrow> route_frame a c"
  by (auto simp: route_frame_def)

lemma route_frame_update: "route_frame r (update_destinations f r)"
  by (simp add: route_frame_def update_destinations_def receipt_destinations_def)

lemma route_frame_fields:
  "route_frame r r' \<Longrightarrow> rc_current s = rc_current r' \<Longrightarrow> rc_write_id s = rc_write_id r' \<Longrightarrow>
   rc_receipt_id s = rc_receipt_id r' \<Longrightarrow> rc_routing s = rc_routing r' \<Longrightarrow> rc_access s = rc_access r' \<Longrightarrow> route_frame r s"
  by (simp add: route_frame_def receipt_destinations_def)

lemma route_frame_withdraw: "route_frame r (withdraw_session s r)"
proof -
  have "route_frame r ((update_destinations (bt_remove s) r)\<lparr>rc_attempts := a\<rparr>)" for a
    by (rule route_frame_fields [OF route_frame_update [of r "bt_remove s"]]) simp_all
  then show ?thesis
    by (auto simp: withdraw_session_def route_frame_refl route_frame_update
        split: option.splits relay_delivery_outcome.splits)
qed

lemma route_frame_fold_withdraw: "route_frame r (fold withdraw_session ss r)"
  by (induction ss arbitrary: r) (auto intro: route_frame_refl route_frame_trans [OF route_frame_withdraw])

lemma settle_route_frame [simp]:
  "receipt_destinations (settle_route r) = receipt_destinations r" "rc_current (settle_route r) = rc_current r"
  "rc_write_id (settle_route r) = rc_write_id r" "rc_receipt_id (settle_route r) = rc_receipt_id r"
  "rc_routing (settle_route r) = rc_routing r" "rc_access (settle_route r) = rc_access r"
  "rc_route_settled (settle_route r) = rc_route_settled r" "rc_route_revision (settle_route r) = rc_route_revision r"
  "rc_desired_destinations (settle_route r) = rc_desired_destinations r"
  "rc_route_shortfalls (settle_route r) = rc_route_shortfalls r" "rc_attempts (settle_route r) = rc_attempts r"
  by (simp_all add: settle_route_def receipt_destinations_def)

lemma settle_route_outcome:
  "rc_outcome (settle_route r) =
     (if \<not> rc_route_settled r \<or> (\<exists>out\<in>set (bt_values (receipt_destinations r)). \<not> outcome_is_terminal out) then Open
      else if rc_desired_destinations r = [] then NoDestination else Complete)"
  by (simp add: settle_route_def)

text \<open>What becomes of the outcome of a withdrawn session.\<close>

fun withdrawn :: "relay_delivery_outcome option \<Rightarrow> relay_delivery_outcome option" where
  "withdrawn (Some Pending) = None"
| "withdrawn (Some (Retryable _)) = Some CancelledBeforeHandoff"
| "withdrawn out = out"

lemma withdrawn_idem [simp]: "withdrawn (withdrawn out) = withdrawn out"
  by (cases out rule: withdrawn.cases) simp_all

lemma withdraw_session_destinations:
  "bt_get (receipt_destinations (withdraw_session s r)) t =
     (if t = s then withdrawn (bt_get (receipt_destinations r) s) else bt_get (receipt_destinations r) t)"
  by (cases "bt_get (receipt_destinations r) s" rule: withdrawn.cases)
    (auto simp: withdraw_session_def receipt_destinations_def update_destinations_def)

lemma fold_withdraw_destinations:
  "bt_get (receipt_destinations (fold withdraw_session ss r)) t =
     (if t \<in> set ss then withdrawn (bt_get (receipt_destinations r) t) else bt_get (receipt_destinations r) t)"
  by (induction ss arbitrary: r) (auto simp: withdraw_session_destinations)

lemma fold_or_insert: "bt_get (fold (\<lambda>s. bt_or_insert s v) ss m) t =
    (case bt_get m t of Some x \<Rightarrow> Some x | None \<Rightarrow> if t \<in> set ss then Some v else None)"
  by (induction ss arbitrary: m) (auto simp: bt_or_insert_def split: option.splits)

lemma apply_newer_cases:
  assumes "apply_newer_route_to_receipt N p r = Inr r'"
  obtains r2 where "r' = settle_route (r2\<lparr>rc_route_revision := rp_revision p, rc_route_settled := plan_settled p,
      rc_route_shortfalls := route_shortfalls N p, rc_desired_destinations := bt_keys (rp_destinations p)\<rparr>)"
    "r2 = update_destinations (fold (\<lambda>s. bt_or_insert s Pending) (bt_keys (rp_destinations p)))
       (fold withdraw_session (bs_diff (rc_desired_destinations r) (bt_keys (rp_destinations p))) r)"
    "length (rp_destinations p) \<le> DESTINATION_EVIDENCE_CAPACITY"
    "length (route_shortfalls N p) \<le> DESTINATION_EVIDENCE_CAPACITY"
    "\<forall>s\<in>set (route_shortfalls N p). length s \<le> MAX_RECEIPT_TEXT_BYTES"
proof -
  have "check_all validate_receipt_text ss = Inr () \<longleftrightarrow> (\<forall>s\<in>set ss. length s \<le> MAX_RECEIPT_TEXT_BYTES)" for ss
    by (auto simp: check_all_ok_iff validate_receipt_text_def)
  with assms that show ?thesis
    by (auto simp: apply_newer_route_to_receipt_def Let_def split: if_splits sum.splits)
qed

definition routed_outcome ::
  "receipt \<Rightarrow> route_plan \<Rightarrow> relay_url \<Rightarrow> relay_delivery_outcome option" where
  "routed_outcome r p s =
     (let out = bt_get (receipt_destinations r) s in
      if s \<in> set (bt_keys (rp_destinations p)) then Some (case out of Some x \<Rightarrow> x | None \<Rightarrow> Pending)
      else if s \<in> set (rc_desired_destinations r) then withdrawn out else out)"

lemma apply_newer_route_destinations:
  assumes "apply_newer_route_to_receipt N p r = Inr r'"
  shows "bt_get (receipt_destinations r') s = routed_outcome r p s"
  using assms
proof (cases rule: apply_newer_cases)
  case (1 r2)
  have "receipt_destinations r' = receipt_destinations r2"
    unfolding 1(1) by (simp add: receipt_destinations_def)
  then show ?thesis
    by (simp add: 1(2) routed_outcome_def fold_or_insert fold_withdraw_destinations split: option.splits)
qed

lemma apply_newer_route_terminal:
  assumes "apply_newer_route_to_receipt N p r = Inr r'"
  shows "receipt_is_terminal r' \<longleftrightarrow> plan_settled p
    \<and> (\<forall>out\<in>set (bt_values (receipt_destinations r')). outcome_is_terminal out)"
  using assms
  by (rule apply_newer_cases)
    (auto simp: receipt_is_terminal_def settle_route_outcome receipt_destinations_def split: if_splits)

lemma apply_newer_route_bounds:
  assumes "apply_newer_route_to_receipt N p r = Inr r'"
  shows "rc_desired_destinations r' = bt_keys (rp_destinations p)"
    "length (rc_desired_destinations r') \<le> DESTINATION_EVIDENCE_CAPACITY"
    "length (rc_route_shortfalls r') \<le> DESTINATION_EVIDENCE_CAPACITY"
  using assms by (auto simp: bt_keys_def elim!: apply_newer_cases)

lemma apply_newer_route_frame: "apply_newer_route_to_receipt N p r = Inr r' \<Longrightarrow> route_frame r r'"
proof (erule apply_newer_cases)
  fix r2
  assume r': "r' = settle_route (r2\<lparr>rc_route_revision := rp_revision p, rc_route_settled := plan_settled p,
      rc_route_shortfalls := route_shortfalls N p, rc_desired_destinations := bt_keys (rp_destinations p)\<rparr>)"
    and r2: "r2 = update_destinations (fold (\<lambda>s. bt_or_insert s Pending) (bt_keys (rp_destinations p)))
       (fold withdraw_session (bs_diff (rc_desired_destinations r) (bt_keys (rp_destinations p))) r)"
  have "route_frame r r2"
    unfolding r2 by (rule route_frame_trans [OF route_frame_fold_withdraw route_frame_update])
  then show "route_frame r r'"
    by (rule route_frame_fields) (simp_all add: r')
qed

subsection \<open>Properties\<close>

text \<open>
  A newer route keeps every fact that may have left the process: a desired session keeps
  the outcome it has and starts pending otherwise; a withdrawn one disappears only while
  pending, becomes cancelled when it was waiting for a retry, and keeps any other outcome;
  other history is untouched. The receipt is open exactly while the plan is unsettled or some
  outcome is not terminal, and the desired set and the shortfalls are bounded.
\<close>

theorem apply_newer_route_spec:
  assumes "apply_newer_route_to_receipt N p r = Inr r'"
  shows "(\<forall>s. bt_get (receipt_destinations r') s =
      (let out = bt_get (receipt_destinations r) s in
       if s \<in> set (bt_keys (rp_destinations p)) then Some (case out of Some x \<Rightarrow> x | None \<Rightarrow> Pending)
       else if s \<in> set (rc_desired_destinations r) then withdrawn out else out))
    \<and> rc_desired_destinations r' = bt_keys (rp_destinations p)
    \<and> (receipt_is_terminal r' \<longleftrightarrow> plan_settled p
         \<and> (\<forall>out\<in>set (bt_values (receipt_destinations r')). outcome_is_terminal out))
    \<and> length (rc_desired_destinations r') \<le> DESTINATION_EVIDENCE_CAPACITY
    \<and> length (rc_route_shortfalls r') \<le> DESTINATION_EVIDENCE_CAPACITY"
  using apply_newer_route_destinations [OF assms] apply_newer_route_terminal [OF assms]
    apply_newer_route_bounds [OF assms] by (simp add: routed_outcome_def)

lemma apply_newer_blank:
  assumes "apply_newer_route_to_receipt N p c = Inr c'"
    and "receipt_destinations c = []" "rc_desired_destinations c = []" "rc_attempts c = []"
  shows "receipt_destinations c' = fold (\<lambda>s. bt_or_insert s Pending) (bt_keys (rp_destinations p)) []
    \<and> rc_attempts c' = [] \<and> rc_desired_destinations c' = bt_keys (rp_destinations p)
    \<and> rc_route_shortfalls c' = route_shortfalls N p \<and> rc_route_settled c' = plan_settled p
    \<and> rc_route_revision c' = rp_revision p
    \<and> rc_outcome c' = (if \<not> plan_settled p \<or> (\<exists>out\<in>set (bt_values
          (fold (\<lambda>s. bt_or_insert s Pending) (bt_keys (rp_destinations p)) [])). \<not> outcome_is_terminal out) then Open
        else if bt_keys (rp_destinations p) = [] then NoDestination else Complete)"
  using assms(1)
proof (cases rule: apply_newer_cases)
  case (1 r2)
  have r2: "r2 = update_destinations (fold (\<lambda>s. bt_or_insert s Pending) (bt_keys (rp_destinations p))) c"
    using 1(2) assms(3) by (simp add: bs_diff_def)
  define F where "F = fold (\<lambda>s. bt_or_insert s Pending) (bt_keys (rp_destinations p)) []"
  have "pe_destinations (lw_publication (rc_current r2)) = F" "rc_attempts r2 = []"
    using assms(2,4) receipt_destinations_update [of _ c]
    by (simp_all add: r2 F_def receipt_destinations_def [symmetric])
  then show ?thesis
    unfolding 1(1) F_def [symmetric] by (simp add: settle_route_outcome receipt_destinations_def)
qed

lemma apply_newer_succeeds:
  "(\<exists>c'. apply_newer_route_to_receipt N p c = Inr c') \<longleftrightarrow> (\<exists>c'. apply_newer_route_to_receipt N p d = Inr c')"
  by (auto simp: apply_newer_route_to_receipt_def Let_def split: sum.splits)

text \<open>
  Replaying the plan that routed a fresh receipt is accepted and changes nothing, so a
  repeated delivery of the same route revision is harmless before any attempt.
\<close>

theorem route_replay_accepted:
  assumes "apply_route_to_receipt N p r = Inr r'" "rp_revision p > rc_route_revision r"
    and "receipt_destinations r = []" "rc_desired_destinations r = []" "rc_attempts r = []"
  shows "apply_route_to_receipt N p r' = Inr r'"
proof -
  have auto: "rc_routing r = Automatic" and app: "apply_newer_route_to_receipt N p r = Inr r'"
    using assms(1,2) by (auto simp: apply_route_to_receipt_def split: if_splits)
  note blank = apply_newer_blank [OF app assms(3-5)]
  let ?c = "update_destinations (\<lambda>_. []) (r'\<lparr>rc_outcome := Open, rc_route_revision := 0, rc_route_settled := False,
                rc_route_shortfalls := [], rc_desired_destinations := [], rc_attempts := []\<rparr>)"
  from app obtain c' where c': "apply_newer_route_to_receipt N p ?c = Inr c'"
    using apply_newer_succeeds [of N p r ?c] by blast
  have "receipt_destinations ?c = []" "rc_desired_destinations ?c = []" "rc_attempts ?c = []" by simp_all
  note blank' = apply_newer_blank [OF c' this]
  have "persisted_route_effect_matches N r' p"
    unfolding persisted_route_effect_matches_def c' sum.case using blank blank' by simp
  moreover have "rc_routing r' = Automatic"
    using apply_newer_route_frame [OF app] auto by (simp add: route_frame_def)
  moreover have "rp_revision p \<noteq> 0" using assms(2) by (auto simp: word_less_nat_alt)
  ultimately show ?thesis using blank by (simp add: apply_route_to_receipt_def)
qed

text \<open>
  Once an attempt was authorized under a route revision, a replay of that revision is
  refused, also when the plan is the one that was applied.
\<close>

theorem route_replay_refused_after_attempt:
  assumes "rc_routing r = Automatic" "rp_revision p = rc_route_revision r" "rc_attempts r \<noteq> []"
  shows "\<exists>e. apply_route_to_receipt N p r = Inl e"
proof -
  let ?c = "update_destinations (\<lambda>_. []) (r\<lparr>rc_outcome := Open, rc_route_revision := 0, rc_route_settled := False,
                rc_route_shortfalls := [], rc_desired_destinations := [], rc_attempts := []\<rparr>)"
  have "rc_attempts c' = []" if "apply_newer_route_to_receipt N p ?c = Inr c'" for c'
    using apply_newer_blank [OF that] by simp
  then have "\<not> persisted_route_effect_matches N r p"
    using assms(3) by (auto simp: persisted_route_effect_matches_def split: sum.splits)
  then show ?thesis using assms(1,2) by (simp add: apply_route_to_receipt_def)
qed

subsection \<open>A concrete receipt\<close>

definition sample_unsigned :: unsigned_event where
  "sample_unsigned = \<lparr>ue_id = Some 110, ue_pubkey = 7, ue_created_at = 10, ue_kind = 10002, ue_tags = [], ue_content = []\<rparr>"

definition sample_receipt :: receipt where
  "sample_receipt = \<lparr>rc_write_id = 1, rc_receipt_id = 1,
     rc_current = \<lparr>lw_id = 110, lw_event = Unsigned sample_unsigned,
       lw_publication = \<lparr>pe_receipt_id = 1, pe_write_id = 1, pe_revision_id = 1, pe_revision_source = None,
         pe_revision_failure = None, pe_retired_revisions = [], pe_signature = SigUnsigned, pe_destinations = []\<rparr>\<rparr>,
     rc_routing = Automatic, rc_access = Unauthenticated, rc_outcome = Open, rc_route_revision = 0,
     rc_route_settled = False, rc_route_shortfalls = [], rc_desired_destinations = [], rc_attempts = []\<rparr>"

definition sample_route :: route_plan where
  "sample_route = plan_default\<lparr>rp_revision := 1,
     rp_destinations := [(''wss://a'', \<lparr>pl_session = ''wss://a'', pl_targets = [], pl_reasons = []\<rparr>)]\<rparr>"

definition sample_routed :: receipt where
  "sample_routed = update_destinations (\<lambda>_. [(''wss://a'', Pending)])
     (sample_receipt\<lparr>rc_route_revision := 1, rc_route_settled := True, rc_desired_destinations := [''wss://a'']\<rparr>)"

lemma sample_routed_newer: "apply_newer_route_to_receipt sample_lib sample_route sample_receipt = Inr sample_routed"
  by (simp add: apply_newer_route_to_receipt_def sample_route_def sample_receipt_def sample_routed_def plan_default_def
      DESTINATION_EVIDENCE_CAPACITY_def route_shortfalls_def bs_diff_def update_destinations_def receipt_destinations_def
      bt_keys_def bt_or_insert_def bt_get_def settle_route_def plan_settled_def bt_values_def)

lemma sample_routed_applied: "apply_route_to_receipt sample_lib sample_route sample_receipt = Inr sample_routed"
  using sample_routed_newer
  by (simp add: apply_route_to_receipt_def) (simp add: sample_route_def sample_receipt_def plan_default_def)

theorem apply_newer_route_spec_witness:
  "apply_newer_route_to_receipt sample_lib sample_route sample_receipt = Inr sample_routed
   \<and> \<not> receipt_is_terminal sample_routed \<and> bt_get (receipt_destinations sample_routed) ''wss://a'' = Some Pending"
proof -
  have "bt_get (receipt_destinations sample_routed) ''wss://a'' = Some Pending"
    "\<not> (\<forall>out\<in>set (bt_values (receipt_destinations sample_routed)). outcome_is_terminal out)"
    by (simp_all add: sample_routed_def bt_get_def bt_values_def)
  with apply_newer_route_spec [OF sample_routed_newer] sample_routed_newer show ?thesis by blast
qed

theorem route_replay_accepted_witness:
  "apply_route_to_receipt sample_lib sample_route sample_routed = Inr sample_routed"
  by (rule route_replay_accepted [OF sample_routed_applied])
    (simp_all add: sample_route_def sample_receipt_def plan_default_def receipt_destinations_def)

theorem route_replay_refused_after_attempt_witness:
  "\<exists>e. apply_route_to_receipt sample_lib sample_route (sample_routed\<lparr>rc_attempts := [(''wss://a'', 1)]\<rparr>) = Inl e"
  by (rule route_replay_refused_after_attempt)
    (simp_all add: sample_route_def sample_routed_def sample_receipt_def plan_default_def)

end
