(* ===== verification/Memory_Write_Store.thy ===== *)
theory Memory_Write_Store
  imports Write_Store
begin

section \<open>The in-memory write store (\<open>fava-write-store-memory\<close>)\<close>

text \<open>
  \<open>crates/fava-write-store-memory/src\<close>. The ledger behind the mutex is threaded through the
  operations, with the snapshot the watch channel holds and the receipt changes sent on the
  broadcast channel, oldest first. Every operation holds the lock for its whole body, so one
  operation is one step; a refusal keeps the mutations the body made before it. The lock is
  never poisoned: the \<open>expect\<close> calls under it follow a successful lookup of the same key.
\<close>

subsection \<open>The ledger\<close>

type_synonym source_ref = "(event_id \<times> timestamp) option"
type_synonym successor = "event_edit option \<times> unsigned_event \<times> source_ref \<times> route_plan option"
type_synonym custody = "event_edit list \<times> public_key \<times> source_ref \<times> event_id option"

record write_state =
  ws_revision :: u64
  ws_next_identity :: u64
  ws_next_reservation :: u64
  ws_reservations :: "(u64, event_coord) btree_map"
  ws_writes :: "(receipt_id, receipt) btree_map"
  ws_coordinates :: "(event_coord, receipt_id) btree_map"
  ws_successors :: "(receipt_id, successor) btree_map"
  ws_edits :: "(receipt_id, custody) btree_map"

record memory_write_store =
  ms_capacity :: nat
  ms_state :: write_state
  ms_latest :: source_snapshot
  ms_changes :: "(receipt_id \<times> receipt option) list"

type_synonym 'a store_step = "(write_store_error + 'a) \<times> memory_write_store"

definition write_state_default :: write_state where
  "write_state_default = \<lparr>ws_revision = 0, ws_next_identity = 1, ws_next_reservation = 1,
     ws_reservations = [], ws_writes = [], ws_coordinates = [], ws_successors = [], ws_edits = []\<rparr>"

definition store_bounded :: "nat \<Rightarrow> memory_write_store" where
  "store_bounded capacity = \<lparr>ms_capacity = capacity, ms_state = write_state_default,
     ms_latest = source_snapshot_empty WriteStore, ms_changes = []\<rparr>"

subsection \<open>Publication\<close>

fun first_by_id :: "event_id list \<Rightarrow> receipt list \<Rightarrow> receipt list" where
  "first_by_id seen [] = []"
| "first_by_id seen (r # rs) =
     (if lw_id (rc_current r) \<in> set seen then first_by_id seen rs
      else r # first_by_id (lw_id (rc_current r) # seen) rs)"

definition store_snapshot :: "write_state \<Rightarrow> source_snapshot" where
  "store_snapshot st =
     \<lparr>ss_kind = WriteStore, ss_revision = ws_revision st, ss_status = SourceOpen,
      ss_events = rev (map (\<lambda>r. LocalContribution (rc_current r))
        (first_by_id [] (List.filter (\<lambda>r. rc_outcome r \<noteq> Cancelled) (rev (bt_values (ws_writes st)))))),
      ss_retractions = []\<rparr>"

definition publish_receipt_only :: "receipt \<Rightarrow> memory_write_store \<Rightarrow> memory_write_store" where
  "publish_receipt_only r m = m\<lparr>ms_changes := ms_changes m @ [(rc_receipt_id r, Some r)]\<rparr>"

text \<open>Install the mutated ledger, publish its snapshot and the receipt.\<close>

definition publish_receipt :: "write_state \<Rightarrow> receipt \<Rightarrow> memory_write_store \<Rightarrow> memory_write_store" where
  "publish_receipt st r m =
     publish_receipt_only r (m\<lparr>ms_state := st, ms_latest := store_snapshot st\<rparr>)"

subsection \<open>Bookkeeping (\<open>state.rs\<close>, \<open>model.rs\<close>)\<close>

definition edit_coordinate :: "event_edit \<Rightarrow> public_key \<Rightarrow> event_coord" where
  "edit_coordinate e author = Replaceable author (ed_kind e) (ed_identifier e)"

definition attributed_failure :: "nostr_lib \<Rightarrow> revision_id \<Rightarrow> event_id option \<Rightarrow> string \<Rightarrow> string" where
  "attributed_failure N revision source reason =
     (let src = (case source of None \<Rightarrow> ''empty state'' | Some i \<Rightarrow> event_id_to_hex N i);
          prefix = ''revision '' @ show_nat (unat revision) @ '' from source '' @ src @ '' failed'';
          attributed = prefix @ '': '' @ reason
      in case validate_receipt_text attributed of Inr _ \<Rightarrow> attributed | Inl _ \<Rightarrow> prefix)"

definition next_revision :: "write_state \<Rightarrow> write_store_error + u64" where
  "next_revision st =
     (case checked_add_u64 (ws_revision st) 1 of
        None \<Rightarrow> Inl (StoreRefused ''source revision exhausted'')
      | Some r \<Rightarrow> Inr r)"

definition next_identity :: "u64 \<Rightarrow> write_store_error + u64" where
  "next_identity current =
     (case checked_add_u64 current 1 of
        None \<Rightarrow> Inl (StoreRefused ''write identity exhausted'')
      | Some i \<Rightarrow> Inr i)"

definition active_count :: "write_state \<Rightarrow> nat" where
  "active_count st = length (List.filter (\<lambda>r. \<not> receipt_is_terminal r) (bt_values (ws_writes st)))"

definition reserved_new_coordinates :: "write_state \<Rightarrow> nat" where
  "reserved_new_coordinates st =
     length (List.filter (\<lambda>c. bt_get (ws_coordinates st) c = None) (bt_values (ws_reservations st)))"

definition capacity_reached :: "write_state \<Rightarrow> nat \<Rightarrow> bool" where
  "capacity_reached st capacity \<longleftrightarrow> active_count st + reserved_new_coordinates st \<ge> capacity"

definition release_semantic :: "receipt_id \<Rightarrow> write_state \<Rightarrow> write_state" where
  "release_semantic i st =
     (let st = st\<lparr>ws_successors := bt_remove i (ws_successors st)\<rparr> in
      case bt_get (ws_edits st) i of
        None \<Rightarrow> st
      | Some (edits, author, _, _) \<Rightarrow>
          let st = st\<lparr>ws_edits := bt_remove i (ws_edits st)\<rparr> in
          if edits = [] then st
          else st\<lparr>ws_coordinates := bt_remove (edit_coordinate (last edits) author) (ws_coordinates st)\<rparr>)"

definition require_qualified_source :: "source_ref \<Rightarrow> source_ref \<Rightarrow> write_store_error + unit" where
  "require_qualified_source current cand =
     (if (case (current, cand) of
            (None, None) \<Rightarrow> False
          | (Some (ci, ct), Some (i, t)) \<Rightarrow> event_is_newer (t, i) (ct, ci)
          | _ \<Rightarrow> True)
      then Inr () else Inl (StoreRefused ''source event is equal, older, or already consumed''))"

definition require_failure_source :: "source_ref \<Rightarrow> source_ref \<Rightarrow> write_store_error + unit" where
  "require_failure_source current failed =
     (if current = failed then Inr () else require_qualified_source current failed)"

definition destinations_of :: "write_routing \<Rightarrow> (relay_url, relay_delivery_outcome) btree_map" where
  "destinations_of routing =
     (case routing of
        Automatic \<Rightarrow> []
      | Explicit relays \<Rightarrow> bt_of_list (map (\<lambda>r. (r, Pending)) relays))"

definition settle :: "receipt \<Rightarrow> receipt" where
  "settle r =
     (if rc_route_settled r \<and> (\<forall>out\<in>set (bt_values (receipt_destinations r)). outcome_is_terminal out)
      then r\<lparr>rc_outcome := (if rc_desired_destinations r = [] then NoDestination else Complete)\<rparr>
      else r)"

text \<open>Equality of the two views of an event body.\<close>

definition unsigned_view_eq :: "unsigned_event \<Rightarrow> event \<Rightarrow> bool" where
  "unsigned_view_eq u e \<longleftrightarrow> ue_id u = Some (ev_id e) \<and> ue_pubkey u = ev_pubkey e
     \<and> ue_created_at u = ev_created_at e \<and> ue_kind u = ev_kind e \<and> ue_tags u = ev_tags e
     \<and> ue_content u = ev_content e"

text \<open>The derived equality of event values, over the equalities of the library.\<close>

fun value_eq :: "nostr_lib \<Rightarrow> event_value \<Rightarrow> event_value \<Rightarrow> bool" where
  "value_eq N (Unsigned u) (Unsigned v) = unsigned_event_eq N u v"
| "value_eq N (Signed e) (Signed f) = event_eq N e f"
| "value_eq N _ _ = False"

definition is_explicit :: "write_routing \<Rightarrow> bool" where
  "is_explicit routing = (case routing of Explicit _ \<Rightarrow> True | Automatic \<Rightarrow> False)"

text \<open>\<open>u64::from(explicit)\<close>\<close>

definition initial_route_revision :: "write_routing \<Rightarrow> u64" where
  "initial_route_revision routing = (if is_explicit routing then 1 else 0)"

subsection \<open>Acceptance\<close>

text \<open>The receipt a fresh acceptance starts from.\<close>

definition fresh_receipt ::
  "u64 \<Rightarrow> local_write_event \<Rightarrow> write_routing \<Rightarrow> authority \<Rightarrow> receipt" where
  "fresh_receipt identity current routing access =
     \<lparr>rc_write_id = identity, rc_receipt_id = identity, rc_current = current, rc_routing = routing,
      rc_access = access, rc_outcome = Open, rc_route_revision = initial_route_revision routing,
      rc_route_settled = is_explicit routing, rc_route_shortfalls = [],
      rc_desired_destinations = bt_keys (pe_destinations (lw_publication current)), rc_attempts = []\<rparr>"

definition fresh_publication ::
  "u64 \<Rightarrow> event_id option \<Rightarrow> signature_state \<Rightarrow> write_routing \<Rightarrow> publication_evidence" where
  "fresh_publication identity source signature routing =
     \<lparr>pe_receipt_id = identity, pe_write_id = identity, pe_revision_id = revision_first,
      pe_revision_source = source, pe_revision_failure = None, pe_retired_revisions = [],
      pe_signature = signature, pe_destinations = destinations_of routing\<rparr>"

definition accepted_of :: "receipt \<Rightarrow> accepted_write" where
  "accepted_of r = \<lparr>aw_write_id = rc_write_id r, aw_receipt_id = rc_receipt_id r, aw_current = rc_current r\<rparr>"

definition capacity_refusal :: "nat \<Rightarrow> write_store_error" where
  "capacity_refusal capacity =
     StoreRefused (''bounded write-store capacity '' @ show_nat capacity @ '' reached'')"

fun payload_value :: "write_payload \<Rightarrow> write_store_error + event_value \<times> signature_state" where
  "payload_value (PayloadEvent u) = Inr (Unsigned u, SigUnsigned)"
| "payload_value (PayloadEdit _ _) = Inl (StoreRefused ''replaceable-event edit requires revision before acceptance'')"
| "payload_value (Presigned e) = Inr (Signed e, SigSigned)"

definition local_event :: "event_value \<Rightarrow> publication_evidence \<Rightarrow> write_store_error + local_write_event" where
  "local_event v p = (case local_write_event_new v p of Inl e \<Rightarrow> Inl (StoreInvalidEvent e) | Inr l \<Rightarrow> Inr l)"

definition store_accept :: "write_intent \<Rightarrow> memory_write_store \<Rightarrow> accepted_write store_step" where
  "store_accept intent m =
     (let st = ms_state m; identity = ws_next_identity st; routing = wi_routing intent in
      try_in m (require (\<not> capacity_reached st (ms_capacity m)) (capacity_refusal (ms_capacity m))) (\<lambda>_.
      try_in m (next_identity identity) (\<lambda>following.
      try_in m (payload_value (wi_payload intent)) (\<lambda>(event, signature).
      try_in m (local_event event (fresh_publication identity None signature routing)) (\<lambda>current.
      try_in m (next_revision st) (\<lambda>revision.
        let r = fresh_receipt identity current routing (wi_access intent)
        in (Inr (accepted_of r),
            publish_receipt (st\<lparr>ws_next_identity := following, ws_revision := revision,
              ws_writes := bt_insert identity r (ws_writes st)\<rparr>) r m)))))))"

subsection \<open>Validation of semantic revisions (\<open>semantic_acceptance.rs\<close>)\<close>

definition refusal_of :: "string + unit \<Rightarrow> write_store_error + unit" where
  "refusal_of x = (case x of Inl e \<Rightarrow> Inl (StoreRefused e) | Inr u \<Rightarrow> Inr u)"

definition verify_value :: "nostr_lib \<Rightarrow> event_value \<Rightarrow> write_store_error + unit" where
  "verify_value N v =
     refusal_of (case v of Signed e \<Rightarrow> event_verify N e | Unsigned u \<Rightarrow> unsigned_verify_id N u)"

definition validate_source ::
  "nostr_lib \<Rightarrow> event_edit \<Rightarrow> public_key \<Rightarrow> event_value option \<Rightarrow> write_store_error + source_ref" where
  "validate_source N edit author source =
     (case source of
        None \<Rightarrow> Inr None
      | Some v \<Rightarrow>
          (case verify_value N v of
             Inl e \<Rightarrow> Inl e
           | Inr _ \<Rightarrow>
               (case value_id v of
                  None \<Rightarrow> Inl (StoreRefused ''revision source has no event id'')
                | Some i \<Rightarrow>
                    if event_coordinate N i (value_author v) (value_kind v) (value_tags v) \<noteq> edit_coordinate edit author
                    then Inl (StoreRefused ''revision source does not match edit coordinate'')
                    else Inr (Some (i, value_created_at v)))))"

definition event_coordinate_of_unsigned :: "nostr_lib \<Rightarrow> unsigned_event \<Rightarrow> write_store_error + event_coord" where
  "event_coordinate_of_unsigned N u =
     (case ue_id u of
        None \<Rightarrow> Inl (StoreRefused ''revision has no event id'')
      | Some i \<Rightarrow> Inr (event_coordinate N i (ue_pubkey u) (ue_kind u) (ue_tags u)))"

text \<open>The actor is compared first; the coordinate only when the actor matches.\<close>

definition revision_matches ::
  "nostr_lib \<Rightarrow> event_edit \<Rightarrow> public_key \<Rightarrow> unsigned_event \<Rightarrow> write_store_error + unit" where
  "revision_matches N edit author u =
     (if ue_pubkey u \<noteq> author then Inl (StoreRefused ''revision actor or coordinate does not match edit'')
      else case event_coordinate_of_unsigned N u of
        Inl e \<Rightarrow> Inl e
      | Inr c \<Rightarrow> require (c = edit_coordinate edit author)
                   (StoreRefused ''revision actor or coordinate does not match edit''))"

definition revision_newer :: "unsigned_event \<Rightarrow> source_ref \<Rightarrow> write_store_error + unit" where
  "revision_newer u selected =
     (case selected of
        None \<Rightarrow> Inr ()
      | Some (i, t) \<Rightarrow>
          (case ue_id u of
             None \<Rightarrow> Inl (StoreRefused ''revision has no stable id'')
           | Some ui \<Rightarrow> require (event_is_newer (ue_created_at u, ui) (t, i))
                          (StoreRefused ''revision is not newer than its selected source'')))"

definition validate_revision ::
  "nostr_lib \<Rightarrow> timestamp \<Rightarrow> event_edit \<Rightarrow> public_key \<Rightarrow> unsigned_event \<Rightarrow> event_value option \<Rightarrow> write_routing
     \<Rightarrow> write_store_error + source_ref" where
  "validate_revision N now edit author u source routing =
     (case intent_event N now u routing of
        Inl e \<Rightarrow> Inl (StoreInvalidIntent e)
      | Inr _ \<Rightarrow>
          (case revision_matches N edit author u of
             Inl e \<Rightarrow> Inl e
           | Inr _ \<Rightarrow>
               (case validate_source N edit author source of
                  Inl e \<Rightarrow> Inl e
                | Inr selected \<Rightarrow>
                    (case revision_newer u selected of Inl e \<Rightarrow> Inl e | Inr _ \<Rightarrow> Inr selected))))"

definition require_current ::
  "receipt \<Rightarrow> write_id \<Rightarrow> revision_id \<Rightarrow> event_id option \<Rightarrow> source_ref \<Rightarrow> write_store_error + unit" where
  "require_current r write expected expected_source current_source =
     require (\<not> receipt_is_terminal r \<and> rc_write_id r = write
        \<and> pe_revision_id (lw_publication (rc_current r)) = expected \<and> map_option fst current_source = expected_source)
       (StoreRefused ''semantic revision is not current'')"

subsection \<open>Successor revisions\<close>

definition retired_with :: "receipt \<Rightarrow> (revision_id \<times> event_id \<times> event_id option \<times> string option) list" where
  "retired_with r =
     (let p = lw_publication (rc_current r) in
      pe_retired_revisions p @ [(pe_revision_id p, lw_id (rc_current r), pe_revision_source p, pe_revision_failure p)])"

definition successor_publication ::
  "receipt_id \<Rightarrow> receipt \<Rightarrow> revision_id \<Rightarrow> event_id option
     \<Rightarrow> (relay_url, relay_delivery_outcome) btree_map \<Rightarrow> publication_evidence" where
  "successor_publication i r revision source dests =
     \<lparr>pe_receipt_id = i, pe_write_id = rc_write_id r, pe_revision_id = revision,
      pe_revision_source = source, pe_revision_failure = None, pe_retired_revisions = retired_with r,
      pe_signature = SigUnsigned, pe_destinations = dests\<rparr>"

text \<open>The receipt of the next revision, its routing state reset.\<close>

definition successor_receipt :: "local_write_event \<Rightarrow> receipt \<Rightarrow> receipt" where
  "successor_receipt current r =
     r\<lparr>rc_current := current, rc_outcome := Open, rc_route_revision := initial_route_revision (rc_routing r),
       rc_route_settled := is_explicit (rc_routing r), rc_route_shortfalls := [],
       rc_desired_destinations := bt_keys (pe_destinations (lw_publication current)), rc_attempts := []\<rparr>"

definition route_if :: "nostr_lib \<Rightarrow> route_plan option \<Rightarrow> receipt \<Rightarrow> write_store_error + receipt" where
  "route_if N plan r = (case plan of None \<Rightarrow> Inr r | Some p \<Rightarrow> apply_route_to_receipt N p r)"

definition next_revision_id :: "receipt \<Rightarrow> write_store_error + revision_id" where
  "next_revision_id r =
     ok_or (StoreRefused ''revision identity exhausted'')
       (revision_checked_next (pe_revision_id (lw_publication (rc_current r))))"

definition retired_room :: "receipt \<Rightarrow> write_store_error + unit" where
  "retired_room r =
     require (length (pe_retired_revisions (lw_publication (rc_current r))) < DESTINATION_EVIDENCE_CAPACITY)
       (StoreRefused ''retired revision evidence capacity reached'')"

text \<open>Every session a delivery may concern: the desired ones and those with an outcome.\<close>

definition correction_destinations :: "receipt \<Rightarrow> relay_url btree_set" where
  "correction_destinations r = fold bs_insert (bt_keys (receipt_destinations r)) (rc_desired_destinations r)"

definition pending_at :: "relay_url btree_set \<Rightarrow> (relay_url, relay_delivery_outcome) btree_map" where
  "pending_at sessions = bt_of_list (map (\<lambda>s. (s, Pending)) sessions)"

subsection \<open>Same-coordinate composition (\<open>semantic_composition.rs\<close>)\<close>

definition composition_source ::
  "nostr_lib \<Rightarrow> event_edit \<Rightarrow> public_key \<Rightarrow> event_value option \<Rightarrow> receipt \<Rightarrow> write_store_error + unit" where
  "composition_source N edit author source r =
     (case validate_source N edit author source of
        Inl e \<Rightarrow> Inl e
      | Inr selected \<Rightarrow>
          require ((case source of None \<Rightarrow> False | Some v \<Rightarrow> value_eq N v (lw_event (rc_current r)))
                   \<and> map_option fst selected = Some (lw_id (rc_current r)))
            (StoreRefused ''same-coordinate edit source is not the exact current generation''))"

definition successor_route ::
  "receipt \<Rightarrow> route_plan option \<Rightarrow> write_store_error + route_plan option" where
  "successor_route r initial =
     (case initial of
        None \<Rightarrow> Inr None
      | Some p \<Rightarrow>
          (case checked_add_u64 (rc_route_revision r) 1 of
             None \<Rightarrow> Inl (StoreRefused ''route revision exhausted'')
           | Some n \<Rightarrow> Inr (Some (p\<lparr>rp_revision := n\<rparr>))))"

definition is_unsigned :: "event_value \<Rightarrow> bool" where
  "is_unsigned v = (case v of Unsigned _ \<Rightarrow> True | Signed _ \<Rightarrow> False)"

definition compose_semantic ::
  "nostr_lib \<Rightarrow> receipt_id \<Rightarrow> event_edit \<Rightarrow> public_key \<Rightarrow> write_routing \<Rightarrow> unsigned_event \<Rightarrow> event_value option
     \<Rightarrow> route_plan option \<Rightarrow> memory_write_store \<Rightarrow> accepted_write store_step" where
  "compose_semantic N i edit author routing u source initial_route m =
     (let st = ms_state m in
      try_in m (ok_or (StoreRefused ''coordinate owner is missing'') (bt_get (ws_writes st) i)) (\<lambda>r.
      try_in m (ok_or (StoreRefused ''semantic custody is missing'') (bt_get (ws_edits st) i))
        (\<lambda>(edits, stored_author, current_source, _).
      try_in m (require (stored_author = author \<and> rc_routing r = routing)
        (StoreRefused ''same-coordinate edit author or routing differs from the active operation'')) (\<lambda>_.
      try_in m (require (is_unsigned (lw_event (rc_current r)))
        (StoreRefused ''same-coordinate edit composition requires an unsigned current generation'')) (\<lambda>_.
      try_in m (composition_source N edit author source r) (\<lambda>_.
      try_in m (retired_room r) (\<lambda>_.
      try_in m (successor_route r initial_route) (\<lambda>route.
      try_in m (route_if N route r) (\<lambda>_.
        if pe_signature (lw_publication (rc_current r)) = SigAuthorized
        then try_in m (require (bt_get (ws_successors st) i = None)
               (StoreRefused ''replaceable coordinate already has a durable successor'')) (\<lambda>_.
             (Inr (accepted_of r\<lparr>aw_receipt_id := i\<rparr>),
              publish_receipt_only r (m\<lparr>ms_state := st\<lparr>ws_successors :=
                bt_insert i (Some edit, u, current_source, route) (ws_successors st)\<rparr>\<rparr>)))
        else
          try_in m (next_revision_id r) (\<lambda>revision.
          try_in m (local_event (Unsigned u)
            (successor_publication i r revision (map_option fst current_source) (destinations_of routing))) (\<lambda>current.
          try_in m (route_if N route (successor_receipt current r)) (\<lambda>updated.
          try_in m (next_revision st) (\<lambda>next.
            let st = st\<lparr>ws_revision := next\<rparr>;
                st = (if receipt_is_terminal updated
                      then st\<lparr>ws_coordinates := bt_remove (edit_coordinate edit author) (ws_coordinates st),
                              ws_edits := bt_remove i (ws_edits st)\<rparr>
                      else st\<lparr>ws_edits := bt_insert i (edits @ [edit], author, current_source, None) (ws_edits st)\<rparr>);
                st = st\<lparr>ws_writes := bt_insert i updated (ws_writes st)\<rparr>
            in (Inr (accepted_of updated\<lparr>aw_receipt_id := i\<rparr>), publish_receipt st updated m))))))))))))))"

subsection \<open>Semantic acceptance, revision and failure (\<open>semantic.rs\<close>)\<close>

fun payload_edit :: "write_payload \<Rightarrow> write_store_error + event_edit \<times> public_key" where
  "payload_edit (PayloadEdit edit author) = Inr (edit, author)"
| "payload_edit _ = Inl (StoreRefused ''semantic acceptance requires a replaceable-event edit'')"

definition check_reservation ::
  "u64 option \<Rightarrow> event_coord \<Rightarrow> write_state \<Rightarrow> write_store_error + write_state" where
  "check_reservation reservation coord st =
     (case reservation of
        None \<Rightarrow> Inr st
      | Some n \<Rightarrow>
          (case bt_get (ws_reservations st) n of
             None \<Rightarrow> Inl (StoreRefused ''active reservation is not current'')
           | Some c \<Rightarrow>
               if c \<noteq> coord
               then Inl (StoreRefused ''active reservation belongs to a different replaceable coordinate'')
               else Inr (st\<lparr>ws_reservations := bt_remove n (ws_reservations st)\<rparr>)))"

text \<open>A repetition of the first edit of an operation, with the effect it already has.\<close>

definition is_replay ::
  "nostr_lib \<Rightarrow> receipt \<Rightarrow> custody \<Rightarrow> event_edit \<Rightarrow> public_key \<Rightarrow> source_ref \<Rightarrow> write_routing \<Rightarrow> unsigned_event
     \<Rightarrow> route_plan option \<Rightarrow> bool" where
  "is_replay N r stored edit author selected routing u initial_route \<longleftrightarrow>
     (case stored of (edits, a, source, _) \<Rightarrow>
        edits = [edit] \<and> a = author \<and> source = selected)
     \<and> rc_routing r = routing \<and> value_eq N (lw_event (rc_current r)) (Unsigned u)
     \<and> (case initial_route of
          None \<Rightarrow> True
        | Some p \<Rightarrow> rp_revision p = rc_route_revision r
            \<and> (case apply_route_to_receipt N p r of Inr _ \<Rightarrow> True | Inl _ \<Rightarrow> False))"

definition accept_semantic_inner ::
  "nostr_lib \<Rightarrow> timestamp \<Rightarrow> u64 option \<Rightarrow> write_intent \<Rightarrow> unsigned_event \<Rightarrow> event_value option \<Rightarrow> route_plan option
     \<Rightarrow> memory_write_store \<Rightarrow> accepted_write store_step" where
  "accept_semantic_inner N now reservation intent u source initial_route m =
     (let routing = wi_routing intent in
      try_in m (payload_edit (wi_payload intent)) (\<lambda>(edit, author).
      let coord = edit_coordinate edit author in
      try_in m (check_reservation reservation coord (ms_state m)) (\<lambda>st.
      let m = m\<lparr>ms_state := st\<rparr> in
      try_in m (validate_revision N now edit author u source routing) (\<lambda>selected.
      case bt_get (ws_coordinates st) coord of
        Some i \<Rightarrow>
          try_in m (ok_or (StoreRefused ''coordinate owner is missing'') (bt_get (ws_writes st) i)) (\<lambda>r.
          try_in m (ok_or (StoreRefused ''semantic custody is missing'') (bt_get (ws_edits st) i)) (\<lambda>stored.
            if is_replay N r stored edit author selected routing u initial_route
            then (Inr (accepted_of r), m)
            else compose_semantic N i edit author routing u source initial_route m))
      | None \<Rightarrow>
          try_in m (require (reservation \<noteq> None \<or> \<not> capacity_reached st (ms_capacity m))
            (capacity_refusal (ms_capacity m))) (\<lambda>_.
          let identity = ws_next_identity st in
          try_in m (next_identity identity) (\<lambda>following.
          try_in m (local_event (Unsigned u)
            (fresh_publication identity (map_option fst selected) SigUnsigned routing)) (\<lambda>current.
          try_in m (route_if N initial_route (fresh_receipt identity current routing (wi_access intent))) (\<lambda>r.
          try_in m (next_revision st) (\<lambda>revision.
            let st = st\<lparr>ws_next_identity := following, ws_revision := revision\<rparr>;
                st = (if \<not> receipt_is_terminal r
                      then st\<lparr>ws_coordinates := bt_insert coord identity (ws_coordinates st),
                              ws_edits := bt_insert identity ([edit], author, selected, None) (ws_edits st)\<rparr>
                      else st);
                st = st\<lparr>ws_writes := bt_insert identity r (ws_writes st)\<rparr>
            in (Inr (accepted_of r), publish_receipt st r m))))))))))"

definition accept_applied_edit ::
  "nostr_lib \<Rightarrow> timestamp \<Rightarrow> write_intent \<Rightarrow> unsigned_event \<Rightarrow> event_value option
     \<Rightarrow> memory_write_store \<Rightarrow> accepted_write store_step" where
  "accept_applied_edit N now intent u source m = accept_semantic_inner N now None intent u source None m"

definition accept_reserved_applied_edit ::
  "nostr_lib \<Rightarrow> timestamp \<Rightarrow> u64 \<Rightarrow> write_intent \<Rightarrow> unsigned_event \<Rightarrow> event_value option \<Rightarrow> route_plan option
     \<Rightarrow> memory_write_store \<Rightarrow> accepted_write store_step" where
  "accept_reserved_applied_edit N now reservation intent u source initial_route m =
     accept_semantic_inner N now (Some reservation) intent u source initial_route m"

definition install_semantic ::
  "nostr_lib \<Rightarrow> timestamp \<Rightarrow> write_id \<Rightarrow> receipt_id \<Rightarrow> revision_id \<Rightarrow> event_id option \<Rightarrow> event_edit list
     \<Rightarrow> unsigned_event \<Rightarrow> event_value option \<Rightarrow> route_plan option \<Rightarrow> memory_write_store \<Rightarrow> receipt store_step" where
  "install_semantic N now write i expected expected_source applied u source initial_route m =
     (let st = ms_state m in
      try_in m (ok_or (StoreRefused ''receipt does not exist'') (bt_get (ws_writes st) i)) (\<lambda>r.
      try_in m (ok_or (StoreRefused ''semantic custody does not exist'') (bt_get (ws_edits st) i))
        (\<lambda>(edits, author, current_source, _).
      try_in m (require_current r write expected expected_source current_source) (\<lambda>_.
      try_in m (require (edits = applied)
        (StoreRefused ''successor did not apply the complete durable semantic edit sequence'')) (\<lambda>_.
      try_in m (require (edits \<noteq> []) (StoreRefused ''semantic edit sequence is empty'')) (\<lambda>_.
      try_in m (validate_revision N now (last edits) author u source (rc_routing r)) (\<lambda>selected.
      if value_eq N (lw_event (rc_current r)) (Unsigned u)
         \<and> pe_revision_source (lw_publication (rc_current r)) = map_option fst selected
      then (Inr r, m)
      else
      try_in m (require_qualified_source current_source selected) (\<lambda>_.
      try_in m (ok_or (StoreRefused ''successor revision has no stable id'') (ue_id u)) (\<lambda>ui.
      try_in m (require (event_is_newer (ue_created_at u, ui)
                   (value_created_at (lw_event (rc_current r)), lw_id (rc_current r)))
        (StoreRefused ''successor revision is not newer than current event'')) (\<lambda>_.
      try_in m (retired_room r) (\<lambda>_.
      try_in m (route_if N initial_route r) (\<lambda>_.
        if pe_signature (lw_publication (rc_current r)) = SigAuthorized
        then try_in m (require (bt_get (ws_successors st) i = None)
               (StoreRefused ''replaceable coordinate already has a durable successor'')) (\<lambda>_.
             (Inr r, publish_receipt_only r (m\<lparr>ms_state := st\<lparr>ws_successors :=
                bt_insert i (None, u, selected, initial_route) (ws_successors st)\<rparr>\<rparr>)))
        else
          let corrections = correction_destinations r in
          try_in m (require (length corrections \<le> DESTINATION_EVIDENCE_CAPACITY)
            (StoreRefused ''correction destination capacity reached'')) (\<lambda>_.
          try_in m (next_revision_id r) (\<lambda>revision.
          try_in m (local_event (Unsigned u)
            (successor_publication i r revision (map_option fst selected) (pending_at corrections))) (\<lambda>current.
          try_in m (route_if N initial_route (r\<lparr>rc_current := current, rc_outcome := Open,
              rc_desired_destinations := corrections, rc_attempts := []\<rparr>)) (\<lambda>updated.
          try_in m (next_revision st) (\<lambda>next.
            let st = st\<lparr>ws_revision := next,
                        ws_edits := bt_insert i (edits, author, selected, None) (ws_edits st),
                        ws_writes := bt_insert i updated (ws_writes st)\<rparr>
            in (Inr updated, publish_receipt st updated m))))))))))))))))))"

definition set_revision_failure :: "string \<Rightarrow> receipt \<Rightarrow> receipt" where
  "set_revision_failure failure r =
     r\<lparr>rc_current := (rc_current r)\<lparr>lw_publication :=
        (lw_publication (rc_current r))\<lparr>pe_revision_failure := Some failure\<rparr>\<rparr>\<rparr>"

definition record_semantic_failure ::
  "nostr_lib \<Rightarrow> write_id \<Rightarrow> receipt_id \<Rightarrow> revision_id \<Rightarrow> event_id option \<Rightarrow> event_value option \<Rightarrow> string
     \<Rightarrow> memory_write_store \<Rightarrow> receipt store_step" where
  "record_semantic_failure N write i expected expected_source source reason m =
     (let st = ms_state m in
      try_in m (ok_or (StoreRefused ''receipt does not exist'') (bt_get (ws_writes st) i)) (\<lambda>r.
      try_in m (ok_or (StoreRefused ''semantic custody does not exist'') (bt_get (ws_edits st) i))
        (\<lambda>(edits, author, current_source, current_failed).
      try_in m (require_current r write expected expected_source current_source) (\<lambda>_.
      try_in m (require (edits \<noteq> []) (StoreRefused ''semantic edit sequence is empty'')) (\<lambda>_.
      try_in m (validate_source N (last edits) author source) (\<lambda>failed_source.
      try_in m (require_failure_source current_source failed_source) (\<lambda>_.
      let failed = map_option fst failed_source;
          failure = attributed_failure N expected failed reason in
      if current_failed = failed \<and> pe_revision_failure (lw_publication (rc_current r)) = Some failure
      then (Inr r, m)
      else
        let updated = set_revision_failure failure r in
        try_in m (next_revision st) (\<lambda>next.
          let st = st\<lparr>ws_revision := next,
                      ws_edits := bt_insert i (edits, author, current_source, failed) (ws_edits st),
                      ws_writes := bt_insert i updated (ws_writes st)\<rparr>
          in (Inr updated, publish_receipt st updated m)))))))))"

subsection \<open>Reservations (\<open>semantic_reservation.rs\<close>)\<close>

definition reserve_active :: "event_edit \<Rightarrow> public_key \<Rightarrow> memory_write_store \<Rightarrow> u64 store_step" where
  "reserve_active edit author m =
     (let st = ms_state m; coord = edit_coordinate edit author in
      try_in m (require (coord \<notin> set (bt_values (ws_reservations st)))
        (StoreRefused ''replaceable coordinate already has an active reservation'')) (\<lambda>_.
      try_in m (require (case bt_get (ws_coordinates st) coord of
                           None \<Rightarrow> True | Some i \<Rightarrow> bt_get (ws_successors st) i = None)
        (StoreRefused ''replaceable coordinate already has a durable successor'')) (\<lambda>_.
      try_in m (require (bt_get (ws_coordinates st) coord \<noteq> None \<or> \<not> capacity_reached st (ms_capacity m))
        (capacity_refusal (ms_capacity m))) (\<lambda>_.
      let reservation = ws_next_reservation st in
      try_in m (ok_or (StoreRefused ''active reservation exhausted'') (checked_add_u64 reservation 1)) (\<lambda>next.
        (Inr reservation, m\<lparr>ms_state := st\<lparr>ws_next_reservation := next,
           ws_reservations := bt_insert reservation coord (ws_reservations st)\<rparr>\<rparr>))))))"

definition release_active :: "u64 \<Rightarrow> memory_write_store \<Rightarrow> unit store_step" where
  "release_active reservation m =
     (let st = ms_state m in
      try_in m (ok_or (StoreRefused ''active reservation is not current'')
        (bt_get (ws_reservations st) reservation)) (\<lambda>coord.
        let m = m\<lparr>ms_state := st\<lparr>ws_reservations := bt_remove reservation (ws_reservations st)\<rparr>\<rparr>
        in (Inr (), case Option.bind (bt_get (ws_coordinates st) coord) (bt_get (ws_writes st)) of
                      None \<Rightarrow> m
                    | Some r \<Rightarrow> publish_receipt_only r m)))"

subsection \<open>Signing (\<open>lifecycle.rs\<close>)\<close>

definition set_signature :: "signature_state \<Rightarrow> receipt \<Rightarrow> receipt" where
  "set_signature sig r =
     r\<lparr>rc_current := (rc_current r)\<lparr>lw_publication := (lw_publication (rc_current r))\<lparr>pe_signature := sig\<rparr>\<rparr>\<rparr>"

definition signature_of :: "receipt \<Rightarrow> signature_state" where
  "signature_of r = pe_signature (lw_publication (rc_current r))"

text \<open>The receipt every operation on an identified revision starts from.\<close>

definition current_receipt ::
  "write_id \<Rightarrow> receipt_id \<Rightarrow> revision_id \<Rightarrow> event_id \<Rightarrow> write_state \<Rightarrow> write_store_error + receipt" where
  "current_receipt write i revision event st =
     (case bt_get (ws_writes st) i of
        None \<Rightarrow> Inl (StoreRefused ''receipt does not exist'')
      | Some r \<Rightarrow> (case validate_current_revision r write revision event of Inl e \<Rightarrow> Inl e | Inr _ \<Rightarrow> Inr r))"

definition commit_receipt :: "receipt_id \<Rightarrow> receipt \<Rightarrow> u64 \<Rightarrow> memory_write_store \<Rightarrow> receipt store_step" where
  "commit_receipt i r revision m =
     (Inr r, publish_receipt ((ms_state m)\<lparr>ws_writes := bt_insert i r (ws_writes (ms_state m)),
               ws_revision := revision\<rparr>) r m)"

definition successor_destinations :: "event_edit option \<Rightarrow> receipt \<Rightarrow> (relay_url, relay_delivery_outcome) btree_map" where
  "successor_destinations edit r =
     (case edit of
        None \<Rightarrow> pending_at (correction_destinations r)
      | Some _ \<Rightarrow> destinations_of (rc_routing r))"

definition promote_authorized_successor ::
  "nostr_lib \<Rightarrow> receipt_id \<Rightarrow> memory_write_store \<Rightarrow> receipt store_step" where
  "promote_authorized_successor N i m =
     (let st = ms_state m in
      try_in m (next_revision st) (\<lambda>next.
      try_in m (ok_or (StoreRefused ''durable semantic successor is missing'') (bt_get (ws_successors st) i))
        (\<lambda>(edit, u, source, route).
      let st = st\<lparr>ws_successors := bt_remove i (ws_successors st)\<rparr>; m = m\<lparr>ms_state := st\<rparr> in
      try_in m (ok_or (StoreRefused ''coordinate owner is missing'') (bt_get (ws_writes st) i)) (\<lambda>r.
      try_in m (ok_or (StoreRefused ''semantic custody is missing'') (bt_get (ws_edits st) i)) (\<lambda>(edits, author, _, _).
      try_in m (next_revision_id r) (\<lambda>revision.
      try_in m (local_event (Unsigned u)
        (successor_publication i r revision (map_option fst source) (successor_destinations edit r))) (\<lambda>current.
      try_in m (route_if N route (successor_receipt current r)) (\<lambda>updated.
        let edits = (case edit of None \<Rightarrow> edits | Some e \<Rightarrow> edits @ [e]);
            st = st\<lparr>ws_edits := bt_insert i (edits, author, source, None) (ws_edits st),
                    ws_writes := bt_insert i updated (ws_writes st), ws_revision := next\<rparr>
        in (Inr updated, publish_receipt st updated m)))))))))"

definition check_signature :: "nostr_lib \<Rightarrow> receipt \<Rightarrow> event \<Rightarrow> write_store_error + bool" where
  "check_signature N r e =
     (case lw_event (rc_current r) of
        Signed c \<Rightarrow> if event_eq N c e then Inr True
                    else Inl (StoreRefused ''event is already signed differently'')
      | Unsigned u \<Rightarrow> if unsigned_view_eq u e then Inr False
                      else Inl (StoreRefused ''signature does not match current unsigned event''))"

definition install_signed ::
  "nostr_lib \<Rightarrow> write_id \<Rightarrow> receipt_id \<Rightarrow> revision_id \<Rightarrow> event_id \<Rightarrow> event \<Rightarrow> memory_write_store \<Rightarrow> receipt store_step" where
  "install_signed N write i revision event e m =
     (let st = ms_state m in
      try_in m (refusal_of (event_verify N e)) (\<lambda>_.
      try_in m (current_receipt write i revision event st) (\<lambda>r.
      try_in m (check_signature N r e) (\<lambda>done.
      if done then (Inr r, m)
      else
      try_in m (require (signature_of r \<in> {SigAuthorized, SigSigned})
        (StoreRefused ''signature completion was not authorized'')) (\<lambda>_.
      try_in m (next_revision st) (\<lambda>next.
        if bt_get (ws_successors st) i \<noteq> None then promote_authorized_successor N i m
        else commit_receipt i (set_signature SigSigned (r\<lparr>rc_current := (rc_current r)\<lparr>lw_event := Signed e\<rparr>\<rparr>)) next m))))))"

definition check_refusal :: "string \<Rightarrow> signature_state \<Rightarrow> write_store_error + bool" where
  "check_refusal reason sig =
     (case sig of
        SigRefused current \<Rightarrow> if current = reason then Inr True else Inl (StoreRefused ''signer refusal is not current'')
      | SigAuthorized \<Rightarrow> Inr False
      | SigUnsigned \<Rightarrow> Inl (StoreRefused ''signer refusal was not authorized'')
      | SigRetryable _ \<Rightarrow> Inl (StoreRefused ''signer refusal was not authorized'')
      | SigSigned \<Rightarrow> Inl (StoreRefused ''signer refusal is not current''))"

definition record_signer_refusal ::
  "nostr_lib \<Rightarrow> write_id \<Rightarrow> receipt_id \<Rightarrow> revision_id \<Rightarrow> event_id \<Rightarrow> string \<Rightarrow> memory_write_store \<Rightarrow> receipt store_step" where
  "record_signer_refusal N write i revision event reason m =
     (let st = ms_state m in
      try_in m (validate_receipt_text reason) (\<lambda>_.
      try_in m (current_receipt write i revision event st) (\<lambda>r.
      try_in m (check_refusal reason (signature_of r)) (\<lambda>done.
      if done then (Inr r, m)
      else
      try_in m (next_revision st) (\<lambda>next.
        if bt_get (ws_successors st) i \<noteq> None then promote_authorized_successor N i m
        else commit_receipt i (set_signature (SigRefused reason) r) next m)))))"

definition coordinate_reserved :: "receipt_id \<Rightarrow> write_state \<Rightarrow> bool" where
  "coordinate_reserved i st =
     (case bt_get (ws_edits st) i of
        None \<Rightarrow> False
      | Some (edits, author, _, _) \<Rightarrow>
          edits \<noteq> [] \<and> edit_coordinate (last edits) author \<in> set (bt_values (ws_reservations st)))"

definition deferred_text :: "nostr_lib \<Rightarrow> write_id \<Rightarrow> receipt_id \<Rightarrow> revision_id \<Rightarrow> event_id \<Rightarrow> string" where
  "deferred_text N write i revision event =
     ''signing authorization for write '' @ show_nat (unat write) @ '' receipt '' @ show_nat (unat i)
     @ '' revision '' @ show_nat (unat revision) @ '' event '' @ event_id_to_hex N event
     @ '' deferred until its coordinate reservation resolves''"

fun is_retryable_signature :: "signature_state \<Rightarrow> bool" where
  "is_retryable_signature (SigRetryable _) = True"
| "is_retryable_signature _ = False"

definition authorize_signing ::
  "nostr_lib \<Rightarrow> write_id \<Rightarrow> receipt_id \<Rightarrow> revision_id \<Rightarrow> event_id \<Rightarrow> memory_write_store \<Rightarrow> receipt store_step" where
  "authorize_signing N write i revision event m =
     (let st = ms_state m in
      try_in m (current_receipt write i revision event st) (\<lambda>r.
      try_in m (require (is_unsigned (lw_event (rc_current r))) (StoreRefused ''event is already signed'')) (\<lambda>_.
      if signature_of r = SigAuthorized then (Inr r, m)
      else
      try_in m (require (signature_of r = SigUnsigned \<or> is_retryable_signature (signature_of r))
        (StoreRefused ''signing authorization is not current'')) (\<lambda>_.
      let sig = (if coordinate_reserved i st then SigRetryable (deferred_text N write i revision event)
                 else SigAuthorized) in
      if signature_of r = sig then (Inr r, m)
      else try_in m (next_revision st) (\<lambda>next. commit_receipt i (set_signature sig r) next m)))))"

definition record_signer_retryable ::
  "nostr_lib \<Rightarrow> write_id \<Rightarrow> receipt_id \<Rightarrow> revision_id \<Rightarrow> event_id \<Rightarrow> string \<Rightarrow> memory_write_store \<Rightarrow> receipt store_step" where
  "record_signer_retryable N write i revision event reason m =
     (let st = ms_state m in
      try_in m (validate_receipt_text reason) (\<lambda>_.
      try_in m (current_receipt write i revision event st) (\<lambda>r.
      try_in m (require (signature_of r \<in> {SigUnsigned, SigAuthorized} \<or> is_retryable_signature (signature_of r))
        (StoreRefused ''retryable signer failure is not current'')) (\<lambda>_.
      if signature_of r = SigAuthorized \<and> bt_get (ws_successors st) i \<noteq> None
      then promote_authorized_successor N i m
      else try_in m (next_revision st) (\<lambda>next. commit_receipt i (set_signature (SigRetryable reason) r) next m)))))"

definition signing_successor ::
  "write_id \<Rightarrow> receipt_id \<Rightarrow> revision_id \<Rightarrow> event_id \<Rightarrow> memory_write_store \<Rightarrow> write_store_error + bool" where
  "signing_successor write i revision event m =
     (case current_receipt write i revision event (ms_state m) of
        Inl e \<Rightarrow> Inl e
      | Inr _ \<Rightarrow> Inr (bt_get (ws_successors (ms_state m)) i \<noteq> None))"

subsection \<open>Routing and delivery (\<open>lifecycle.rs\<close>)\<close>

text \<open>Commit a receipt and, when it became terminal, release what its coordinate holds.\<close>

definition commit_settled :: "receipt_id \<Rightarrow> receipt \<Rightarrow> u64 \<Rightarrow> memory_write_store \<Rightarrow> receipt store_step" where
  "commit_settled i r revision m =
     (let st = (ms_state m)\<lparr>ws_writes := bt_insert i r (ws_writes (ms_state m)), ws_revision := revision\<rparr>
      in (Inr r, publish_receipt (if receipt_is_terminal r then release_semantic i st else st) r m))"

definition apply_route ::
  "nostr_lib \<Rightarrow> write_id \<Rightarrow> receipt_id \<Rightarrow> revision_id \<Rightarrow> event_id \<Rightarrow> route_plan \<Rightarrow> memory_write_store \<Rightarrow> receipt store_step" where
  "apply_route N write i revision event plan m =
     (let st = ms_state m in
      try_in m (current_receipt write i revision event st) (\<lambda>r.
      try_in m (apply_route_to_receipt N plan r) (\<lambda>updated.
      if updated = r then (Inr updated, m)
      else try_in m (next_revision st) (\<lambda>next. commit_settled i updated next m))))"

definition set_outcome :: "relay_url \<Rightarrow> relay_delivery_outcome \<Rightarrow> receipt \<Rightarrow> receipt" where
  "set_outcome session out r = update_destinations (bt_insert session out) r"

fun is_retryable :: "relay_delivery_outcome \<Rightarrow> bool" where
  "is_retryable (Retryable _) = True"
| "is_retryable _ = False"

fun is_given_up :: "relay_delivery_outcome \<Rightarrow> bool" where
  "is_given_up (GivenUp _) = True"
| "is_given_up _ = False"

definition attempt_of :: "relay_url \<Rightarrow> receipt \<Rightarrow> u32" where
  "attempt_of session r = (case bt_get (rc_attempts r) session of Some n \<Rightarrow> n | None \<Rightarrow> 0)"

definition checked_next_attempt :: "u32 \<Rightarrow> u32 option" where
  "checked_next_attempt n = (if n = - 1 then None else Some (n + 1))"

definition begin_attempt ::
  "write_id \<Rightarrow> receipt_id \<Rightarrow> revision_id \<Rightarrow> event_id \<Rightarrow> relay_url \<Rightarrow> u32 \<Rightarrow> memory_write_store \<Rightarrow> receipt store_step" where
  "begin_attempt write i revision event session attempt m =
     (let st = ms_state m in
      try_in m (current_receipt write i revision event st) (\<lambda>r.
      if attempt_of session r = attempt \<and> bt_get (receipt_destinations r) session = Some Attempting
      then (Inr r, m)
      else
      try_in m (ok_or (StoreRefused ''attempt count exhausted'') (checked_next_attempt (attempt_of session r))) (\<lambda>expected.
      try_in m (require (attempt = expected) (StoreRefused ''attempt is not current'')) (\<lambda>_.
      try_in m (ok_or (StoreRefused ''destination does not exist'') (bt_get (receipt_destinations r) session)) (\<lambda>out.
      try_in m (require (out = Pending \<or> is_retryable out) (StoreRefused ''destination is not pending'')) (\<lambda>_.
      try_in m (next_revision st) (\<lambda>next.
        commit_receipt i ((set_outcome session Attempting r)\<lparr>rc_attempts := bt_insert session attempt (rc_attempts r)\<rparr>)
          next m)))))))"

definition record_outcome ::
  "write_id \<Rightarrow> receipt_id \<Rightarrow> revision_id \<Rightarrow> event_id \<Rightarrow> relay_url \<Rightarrow> u32 \<Rightarrow> relay_delivery_outcome
     \<Rightarrow> memory_write_store \<Rightarrow> receipt store_step" where
  "record_outcome write i revision event session attempt out m =
     (let st = ms_state m in
      try_in m (validate_delivery_outcome out) (\<lambda>_.
      try_in m (require (outcome_is_terminal out \<or> is_retryable out)
        (StoreRefused ''recorded delivery outcome is not terminal or retryable'')) (\<lambda>_.
      try_in m (current_receipt write i revision event st) (\<lambda>r.
      try_in m (require (bt_get (rc_attempts r) session = Some attempt) (StoreRefused ''attempt is not current'')) (\<lambda>_.
      try_in m (ok_or (StoreRefused ''destination does not exist'') (bt_get (receipt_destinations r) session)) (\<lambda>current.
      if current = out then (Inr r, m)
      else
      try_in m (require (current = Attempting \<or> (is_retryable current \<and> is_given_up out))
        (StoreRefused ''attempt is not current'')) (\<lambda>_.
      try_in m (next_revision st) (\<lambda>next.
        commit_settled i (settle (set_outcome session out r)) next m))))))))"

subsection \<open>Cancellation, reading and removal (\<open>lib.rs\<close>, \<open>recovery.rs\<close>)\<close>

definition store_cancel :: "receipt_id \<Rightarrow> memory_write_store \<Rightarrow> receipt option store_step" where
  "store_cancel i m =
     (let st = ms_state m in
      try_in m (next_revision st) (\<lambda>next.
      case bt_get (ws_writes st) i of
        None \<Rightarrow> (Inr None, m)
      | Some r \<Rightarrow>
          if rc_outcome r = Cancelled then (Inr (Some r), m)
          else if receipt_is_terminal r
             \<or> (\<exists>out\<in>set (bt_values (receipt_destinations r)). \<not> (out = Pending \<or> is_retryable out))
          then (Inl (StoreRefused ''receipt can no longer be cancelled before handoff''), m)
          else
            let r = (update_destinations (map (\<lambda>(s, _). (s, CancelledBeforeHandoff))) r)\<lparr>rc_outcome := Cancelled\<rparr>;
                st = st\<lparr>ws_writes := bt_insert i r (ws_writes st), ws_revision := next\<rparr>
            in (Inr (Some r), publish_receipt (release_semantic i st) r m)))"

definition store_receipt :: "receipt_id \<Rightarrow> memory_write_store \<Rightarrow> receipt option" where
  "store_receipt i m = bt_get (ws_writes (ms_state m)) i"

definition recover_open :: "memory_write_store \<Rightarrow> receipt list" where
  "recover_open m = List.filter (\<lambda>r. \<not> receipt_is_terminal r) (bt_values (ws_writes (ms_state m)))"

definition remove_receipt :: "receipt_id \<Rightarrow> memory_write_store \<Rightarrow> bool store_step" where
  "remove_receipt i m =
     (let st = ms_state m in
      case bt_get (ws_writes st) i of
        None \<Rightarrow> (Inr False, m)
      | Some r \<Rightarrow>
          if \<not> receipt_is_terminal r then (Inl (StoreRefused ''active receipt cannot be removed''), m)
          else try_in m (next_revision st) (\<lambda>next.
            let st = release_semantic i st;
                st = st\<lparr>ws_writes := bt_remove i (ws_writes st), ws_revision := next\<rparr>
            in (Inr True, m\<lparr>ms_state := st, ms_latest := store_snapshot st, ms_changes := ms_changes m @ [(i, None)]\<rparr>)))"

definition store_len :: "memory_write_store \<Rightarrow> nat" where
  "store_len m = length (List.filter (\<lambda>r. rc_outcome r \<noteq> Cancelled) (bt_values (ws_writes (ms_state m))))"

definition recover_semantic :: "memory_write_store \<Rightarrow> (receipt \<times> custody) list" where
  "recover_semantic m =
     List.map_filter (\<lambda>(i, c). case bt_get (ws_writes (ms_state m)) i of
         None \<Rightarrow> None
       | Some r \<Rightarrow> if receipt_is_terminal r then None else Some (r, c)) (ws_edits (ms_state m))"

definition semantic_custody ::
  "receipt_id \<Rightarrow> revision_id \<Rightarrow> memory_write_store \<Rightarrow> write_store_error + custody option" where
  "semantic_custody i expected m =
     (case bt_get (ws_writes (ms_state m)) i of
        None \<Rightarrow> Inr None
      | Some r \<Rightarrow>
          if pe_revision_id (lw_publication (rc_current r)) \<noteq> expected
          then Inl (StoreRefused ''semantic custody generation is not current'')
          else Inr (bt_get (ws_edits (ms_state m)) i))"

definition store_open :: "query \<Rightarrow> memory_write_store \<Rightarrow> source_snapshot" where
  "store_open q m = ms_latest m"

end
