(* ===== verification/Write_Ledger.thy ===== *)
theory Write_Ledger
  imports Memory_Write_Store
begin

section \<open>The write ledger: an abstract specification and its refinement\<close>

text \<open>
  What a write store promises about its receipts, independently of how the operations of
  \<open>fava-write-store-memory\<close> reach it: an abstract step on the ledger, the refinement lemma of
  every operation, and what follows for all runs.
\<close>

subsection \<open>The abstract step\<close>

definition revision_of :: "receipt \<Rightarrow> revision_id" where
  "revision_of r = pe_revision_id (lw_publication (rc_current r))"

definition retired_of :: "receipt \<Rightarrow> (revision_id \<times> event_id \<times> event_id option \<times> string option) list" where
  "retired_of r = pe_retired_revisions (lw_publication (rc_current r))"

text \<open>The body of an event, which a signature leaves as it is.\<close>

definition body_kept :: "event_value \<Rightarrow> event_value \<Rightarrow> bool" where
  "body_kept v w \<longleftrightarrow> value_id w = value_id v \<and> value_author w = value_author v \<and> value_kind w = value_kind v
     \<and> value_created_at w = value_created_at v \<and> value_tags w = value_tags v \<and> value_content w = value_content v
     \<and> (is_Signed v \<longrightarrow> w = v)"

definition same_write :: "receipt \<Rightarrow> receipt \<Rightarrow> bool" where
  "same_write r r' \<longleftrightarrow> rc_write_id r' = rc_write_id r \<and> rc_receipt_id r' = rc_receipt_id r
     \<and> rc_routing r' = rc_routing r \<and> rc_access r' = rc_access r"

definition keeps_outcomes :: "receipt \<Rightarrow> receipt \<Rightarrow> bool" where
  "keeps_outcomes r r' \<longleftrightarrow> (\<forall>s out. bt_get (receipt_destinations r) s = Some out \<longrightarrow> outcome_is_terminal out \<longrightarrow>
     bt_get (receipt_destinations r') s = Some out)"

text \<open>Progress within a revision, and the move to the next one.\<close>

definition advances :: "receipt \<Rightarrow> receipt \<Rightarrow> bool" where
  "advances r r' \<longleftrightarrow> same_write r r' \<and> \<not> receipt_is_terminal r \<and> revision_of r' = revision_of r
     \<and> lw_id (rc_current r') = lw_id (rc_current r) \<and> body_kept (lw_event (rc_current r)) (lw_event (rc_current r'))
     \<and> retired_of r' = retired_of r \<and> keeps_outcomes r r'"

definition renews :: "receipt \<Rightarrow> receipt \<Rightarrow> bool" where
  "renews r r' \<longleftrightarrow> same_write r r' \<and> revision_of r < revision_of r' \<and> retired_of r' = retired_with r
     \<and> is_unsigned (lw_event (rc_current r'))"

inductive ledger_step :: "write_state \<Rightarrow> write_state \<Rightarrow> bool" where
  stay: "ws_writes st' = ws_writes st \<Longrightarrow> ws_next_identity st' = ws_next_identity st \<Longrightarrow>
    ws_revision st' = ws_revision st \<Longrightarrow> ledger_step st st'"
| fresh: "ws_writes st' = bt_insert (ws_next_identity st) r (ws_writes st) \<Longrightarrow>
    checked_add_u64 (ws_next_identity st) 1 = Some (ws_next_identity st') \<Longrightarrow>
    checked_add_u64 (ws_revision st) 1 = Some (ws_revision st') \<Longrightarrow>
    rc_receipt_id r = ws_next_identity st \<Longrightarrow> rc_write_id r = ws_next_identity st \<Longrightarrow>
    revision_of r = revision_first \<Longrightarrow> retired_of r = [] \<Longrightarrow> ledger_step st st'"
| update: "bt_get (ws_writes st) i = Some r \<Longrightarrow> advances r r' \<or> renews r r' \<Longrightarrow>
    ws_writes st' = bt_insert i r' (ws_writes st) \<Longrightarrow> ws_next_identity st' = ws_next_identity st \<Longrightarrow>
    checked_add_u64 (ws_revision st) 1 = Some (ws_revision st') \<Longrightarrow> ledger_step st st'"
| removal: "bt_get (ws_writes st) i = Some r \<Longrightarrow> receipt_is_terminal r \<Longrightarrow>
    ws_writes st' = bt_remove i (ws_writes st) \<Longrightarrow> ws_next_identity st' = ws_next_identity st \<Longrightarrow>
    checked_add_u64 (ws_revision st) 1 = Some (ws_revision st') \<Longrightarrow> ledger_step st st'"

text \<open>Receipts are filed under their own identity, below the next one to be issued.\<close>

definition ledger_wf :: "write_state \<Rightarrow> bool" where
  "ledger_wf st \<longleftrightarrow> bt_wf (ws_writes st) \<and> (\<forall>i r. bt_get (ws_writes st) i = Some r \<longrightarrow>
     rc_receipt_id r = i \<and> rc_write_id r = i \<and> i < ws_next_identity st)"

text \<open>What subscribers see: the current snapshot, and a truthful note of every receipt that changed.\<close>

definition published :: "memory_write_store \<Rightarrow> bool" where
  "published m \<longleftrightarrow> ms_latest m = store_snapshot (ms_state m)"

definition announces :: "memory_write_store \<Rightarrow> memory_write_store \<Rightarrow> bool" where
  "announces m m' \<longleftrightarrow> (\<exists>cs. ms_changes m' = ms_changes m @ cs
     \<and> (\<forall>i x. (i, x) \<in> set cs \<longrightarrow> bt_get (ws_writes (ms_state m')) i = x)
     \<and> (\<forall>i. bt_get (ws_writes (ms_state m')) i \<noteq> bt_get (ws_writes (ms_state m)) i \<longrightarrow> i \<in> fst ` set cs))"

inductive_simps ledger_step_iff: "ledger_step st st'"

lemma ledger_refl [simp]: "ledger_step st st"
  by (rule stay) simp_all

subsection \<open>Progress within a revision\<close>

lemma body_kept_refl [simp]: "body_kept v v"
  by (simp add: body_kept_def)

lemma advances_set_signature: "\<not> receipt_is_terminal r \<Longrightarrow> advances r (set_signature sig r)"
  by (simp add: advances_def set_signature_def same_write_def revision_of_def retired_of_def keeps_outcomes_def
      receipt_destinations_def)

lemma advances_signed:
  assumes "\<not> receipt_is_terminal r" "lw_event (rc_current r) = Unsigned u" "unsigned_view_eq u e"
  shows "advances r (set_signature sig (r\<lparr>rc_current := (rc_current r)\<lparr>lw_event := Signed e\<rparr>\<rparr>))"
  using assms
  by (simp add: advances_def set_signature_def same_write_def revision_of_def retired_of_def keeps_outcomes_def
      receipt_destinations_def body_kept_def unsigned_view_eq_def)

lemma keeps_set_outcome:
  assumes "bt_get (receipt_destinations r) s = Some current" "\<not> outcome_is_terminal current"
  shows "keeps_outcomes r (set_outcome s out r)"
  using assms by (auto simp: keeps_outcomes_def set_outcome_def)

lemma advances_set_outcome:
  assumes "\<not> receipt_is_terminal r" "bt_get (receipt_destinations r) s = Some current" "\<not> outcome_is_terminal current"
  shows "advances r (set_outcome s out r)"
  using assms keeps_set_outcome [OF assms(2,3)]
  by (simp add: advances_def same_write_def set_outcome_def revision_of_def retired_of_def update_destinations_def)

lemma advances_fields:
  "advances r r' \<Longrightarrow> rc_current s = rc_current r' \<Longrightarrow> rc_write_id s = rc_write_id r' \<Longrightarrow>
   rc_receipt_id s = rc_receipt_id r' \<Longrightarrow> rc_routing s = rc_routing r' \<Longrightarrow> rc_access s = rc_access r' \<Longrightarrow> advances r s"
  by (simp add: advances_def same_write_def revision_of_def retired_of_def keeps_outcomes_def receipt_destinations_def)

lemma advances_set_failure: "\<not> receipt_is_terminal r \<Longrightarrow> advances r (set_revision_failure reason r)"
  by (simp add: advances_def set_revision_failure_def same_write_def revision_of_def retired_of_def keeps_outcomes_def
      receipt_destinations_def)

lemma retryable_not_terminal: "is_retryable out \<Longrightarrow> \<not> outcome_is_terminal out"
  by (cases out) simp_all

lemma advances_cancelled:
  assumes "\<not> (receipt_is_terminal r \<or> (\<exists>out\<in>set (bt_values (receipt_destinations r)). \<not> (out = Pending \<or> is_retryable out)))"
  shows "advances r ((update_destinations f r)\<lparr>rc_outcome := Cancelled\<rparr>)"
proof -
  have "\<not> outcome_is_terminal out" if "bt_get (receipt_destinations r) s = Some out" for s out
  proof -
    have "out \<in> set (bt_values (receipt_destinations r))"
      using bt_get_SomeD [OF that] by (force simp: bt_values_def)
    with assms have "out = Pending \<or> is_retryable out" by blast
    then show ?thesis by (auto simp: retryable_not_terminal)
  qed
  with assms show ?thesis
    by (simp add: advances_def same_write_def revision_of_def retired_of_def keeps_outcomes_def update_destinations_def)
qed

lemma settle_frame [simp]:
  "rc_current (settle r) = rc_current r" "rc_write_id (settle r) = rc_write_id r"
  "rc_receipt_id (settle r) = rc_receipt_id r" "rc_routing (settle r) = rc_routing r" "rc_access (settle r) = rc_access r"
  by (simp_all add: settle_def)

lemma withdrawn_terminal: "out = Some x \<Longrightarrow> outcome_is_terminal x \<Longrightarrow> withdrawn out = Some x"
  by (cases x) auto

lemma routed_outcome_terminal:
  "bt_get (receipt_destinations r) s = Some out \<Longrightarrow> outcome_is_terminal out \<Longrightarrow> routed_outcome r p s = Some out"
  by (auto simp: routed_outcome_def Let_def withdrawn_terminal)

lemma route_keeps_outcomes: "apply_newer_route_to_receipt N p r = Inr r' \<Longrightarrow> keeps_outcomes r r'"
  by (auto simp: keeps_outcomes_def apply_newer_route_destinations routed_outcome_terminal)

lemma advances_route_frame:
  "route_frame r r' \<Longrightarrow> keeps_outcomes r r' \<Longrightarrow> \<not> receipt_is_terminal r \<Longrightarrow> advances r r'"
  by (simp add: advances_def route_frame_def same_write_def revision_of_def retired_of_def)

lemma apply_route_cases:
  "apply_route_to_receipt N p r = Inr r' \<Longrightarrow> r' = r \<or> apply_newer_route_to_receipt N p r = Inr r'"
  by (simp add: apply_route_to_receipt_def split: if_splits)

lemma advances_apply_route:
  assumes "apply_route_to_receipt N p r = Inr r'" "r' \<noteq> r" "\<not> receipt_is_terminal r"
  shows "advances r r'"
proof -
  from apply_route_cases [OF assms(1)] assms(2) have app: "apply_newer_route_to_receipt N p r = Inr r'" by simp
  show ?thesis
    by (rule advances_route_frame [OF apply_newer_route_frame [OF app] route_keeps_outcomes [OF app] assms(3)])
qed

lemma apply_route_frame: "apply_route_to_receipt N p r = Inr r' \<Longrightarrow> route_frame r r'"
  using apply_route_cases [of N p r r'] by (auto intro: route_frame_refl apply_newer_route_frame)

lemma route_if_frame: "route_if N plan r = Inr r' \<Longrightarrow> route_frame r r'"
  by (auto simp: route_if_def route_frame_refl apply_route_frame split: option.splits)

lemma current_receipt_Inr:
  "current_receipt w i g ev st = Inr r \<Longrightarrow> bt_get (ws_writes st) i = Some r \<and> \<not> receipt_is_terminal r"
  by (auto simp: current_receipt_def validate_current_revision_def split: option.splits sum.splits if_splits)

subsection \<open>The next revision\<close>

lemma local_event_Inr:
  "local_event v p = Inr l \<Longrightarrow> lw_event l = v \<and> lw_publication l = p \<and> value_id v = Some (lw_id l)"
  by (auto simp: local_event_def local_write_event_new_def split: option.splits)

lemma next_revision_id_greater: "next_revision_id r = Inr n \<Longrightarrow> revision_of r < n"
  by (auto simp: next_revision_id_def revision_of_def dest: revision_checked_next_greater)

lemma renews_successor:
  assumes "next_revision_id r = Inr n" "local_event (Unsigned u) (successor_publication i r n src dests) = Inr current"
    and "rc_current r' = current" "same_write r r'" "route_frame r' r''"
  shows "renews r r''"
  using assms next_revision_id_greater [OF assms(1)] local_event_Inr [OF assms(2)]
  by (auto simp: renews_def same_write_def route_frame_def revision_of_def retired_of_def successor_publication_def
      is_unsigned_def)

lemma same_write_successor: "same_write r (successor_receipt current r)"
  by (simp add: same_write_def successor_receipt_def)

subsection \<open>Every operation refines the abstract step\<close>

lemma publish_state [simp]:
  "ms_state (publish_receipt st r m) = st" "ms_state (publish_receipt_only r m) = ms_state m"
  "ms_capacity (publish_receipt st r m) = ms_capacity m" "ms_capacity (publish_receipt_only r m) = ms_capacity m"
  by (simp_all add: publish_receipt_def publish_receipt_only_def)

lemma release_semantic_frame [simp]:
  "ws_writes (release_semantic i st) = ws_writes st"
  "ws_next_identity (release_semantic i st) = ws_next_identity st"
  "ws_revision (release_semantic i st) = ws_revision st"
  by (auto simp: release_semantic_def Let_def split: option.splits)

lemma next_revision_Inr [simp]: "next_revision st = Inr n \<longleftrightarrow> checked_add_u64 (ws_revision st) 1 = Some n"
  by (auto simp: next_revision_def split: option.splits)

lemma next_identity_Inr [simp]: "next_identity c = Inr n \<longleftrightarrow> checked_add_u64 c 1 = Some n"
  by (auto simp: next_identity_def split: option.splits)

definition refines :: "memory_write_store \<Rightarrow> 'a store_step \<Rightarrow> bool" where
  "refines m x \<longleftrightarrow> ledger_step (ms_state m) (ms_state (snd x)) \<and> (published m \<longrightarrow> published (snd x))
     \<and> (ledger_wf (ms_state m) \<longrightarrow> announces m (snd x))"

text \<open>A change of the reservations, the coordinates or the custody alone.\<close>

definition quiet :: "memory_write_store \<Rightarrow> memory_write_store \<Rightarrow> bool" where
  "quiet m m' \<longleftrightarrow> ws_writes (ms_state m') = ws_writes (ms_state m)
     \<and> ws_next_identity (ms_state m') = ws_next_identity (ms_state m)
     \<and> ws_revision (ms_state m') = ws_revision (ms_state m) \<and> ms_latest m' = ms_latest m \<and> ms_changes m' = ms_changes m"

lemma quiet_refl [simp]: "quiet m m"
  by (simp add: quiet_def)

lemma quiet_snapshot: "quiet m m' \<Longrightarrow> store_snapshot (ms_state m') = store_snapshot (ms_state m)"
  by (simp add: store_snapshot_def quiet_def)

lemma refines_quiet: "quiet m m' \<Longrightarrow> refines m (res, m')"
  using quiet_snapshot [of m m'] by (simp add: refines_def quiet_def stay published_def announces_def)

lemma refines_quiet_publish:
  assumes "quiet m m'" "bt_get (ws_writes (ms_state m)) i = Some r"
  shows "refines m (res, publish_receipt_only r m')"
  using assms quiet_snapshot [OF assms(1)]
  by (auto simp: refines_def quiet_def stay published_def announces_def ledger_wf_def publish_receipt_only_def)

lemma refines_over:
  assumes "refines m1 x" "quiet m m1"
  shows "refines m x"
proof -
  have "ledger_step (ms_state m) (ms_state (snd x))"
    using assms by (simp add: refines_def quiet_def ledger_step_iff)
  moreover have "ledger_wf (ms_state m1) = ledger_wf (ms_state m)" "published m1 = published m"
    using assms(2) by (simp_all add: quiet_def ledger_wf_def published_def store_snapshot_def)
  ultimately show ?thesis
    using assms by (simp add: refines_def quiet_def announces_def)
qed

lemma refines_publish:
  assumes "ledger_step (ms_state m) st'" "ws_writes st' = bt_insert i r (ws_writes (ms_state m))"
    and "ledger_wf (ms_state m) \<Longrightarrow> rc_receipt_id r = i" "ms_changes m1 = ms_changes m"
  shows "refines m (res, publish_receipt st' r m1)"
  using assms
  by (auto simp: refines_def published_def announces_def publish_receipt_def publish_receipt_only_def)

lemma refines_replace:
  assumes "bt_get (ws_writes (ms_state m)) i = Some r" "advances r r' \<or> renews r r'"
    and "checked_add_u64 (ws_revision (ms_state m)) 1 = Some (ws_revision st')"
    and "ws_writes st' = bt_insert i r' (ws_writes (ms_state m))"
    and "ws_next_identity st' = ws_next_identity (ms_state m)" "ms_changes m1 = ms_changes m"
  shows "refines m (res, publish_receipt st' r' m1)"
proof (rule refines_publish [OF _ assms(4) _ assms(6)])
  show "ledger_step (ms_state m) st'" using assms(1-5) by (intro update)
  show "rc_receipt_id r' = i" if "ledger_wf (ms_state m)"
    using that assms(1,2) by (auto simp: ledger_wf_def advances_def renews_def same_write_def)
qed

lemma refines_commit:
  assumes "bt_get (ws_writes (ms_state m)) i = Some r" "advances r r'" "next_revision (ms_state m) = Inr n"
  shows "refines m (commit_receipt i r' n m)" "refines m (commit_settled i r' n m)"
  using assms
  by (auto simp: commit_receipt_def commit_settled_def Let_def intro!: refines_replace [of m i r])

lemma refines_renewed:
  assumes "bt_get (ws_writes (ms_state m)) i = Some r" "next_revision_id r = Inr n"
    and "local_event (Unsigned u) (successor_publication i r n src dests) = Inr current"
    and "route_if N plan r1 = Inr r'" "rc_current r1 = current" "same_write r r1"
    and "checked_add_u64 (ws_revision (ms_state m)) 1 = Some (ws_revision st')"
    and "ws_writes st' = bt_insert i r' (ws_writes (ms_state m))"
    and "ws_next_identity st' = ws_next_identity (ms_state m)" "ms_changes m1 = ms_changes m"
  shows "refines m (res, publish_receipt st' r' m1)"
  using renews_successor [OF assms(2,3,5,6) route_if_frame [OF assms(4)]]
  by (intro refines_replace [OF assms(1) _ assms(7-10)]) simp

lemma refines_fresh:
  assumes "local_event v (fresh_publication (ws_next_identity (ms_state m)) src sig routing) = Inr current"
    and "route_if N plan (fresh_receipt (ws_next_identity (ms_state m)) current routing access) = Inr r"
    and "ws_writes st' = bt_insert (ws_next_identity (ms_state m)) r (ws_writes (ms_state m))"
    and "checked_add_u64 (ws_next_identity (ms_state m)) 1 = Some (ws_next_identity st')"
    and "checked_add_u64 (ws_revision (ms_state m)) 1 = Some (ws_revision st')" "ms_changes m1 = ms_changes m"
  shows "refines m (res, publish_receipt st' r m1)"
  using local_event_Inr [OF assms(1)] route_if_frame [OF assms(2)] assms(3-6)
  by (intro refines_publish [where i = "ws_next_identity (ms_state m)"] fresh [of _ _ r])
    (auto simp: fresh_receipt_def fresh_publication_def revision_of_def retired_of_def route_frame_def)

lemma refines_try: "quiet m m1 \<Longrightarrow> (\<And>v. x = Inr v \<Longrightarrow> refines m (f v)) \<Longrightarrow> refines m (try_in m1 x f)"
  by (cases x) (simp_all add: refines_quiet)

lemma refines_if: "(c \<Longrightarrow> refines m a) \<Longrightarrow> (\<not> c \<Longrightarrow> refines m b) \<Longrightarrow> refines m (if c then a else b)"
  by simp

lemma refines_pair: "(\<And>a b. x = (a, b) \<Longrightarrow> refines m (f a b)) \<Longrightarrow> refines m (case x of (a, b) \<Rightarrow> f a b)"
  by (cases x) simp

lemma refines_option:
  "(x = None \<Longrightarrow> refines m a) \<Longrightarrow> (\<And>v. x = Some v \<Longrightarrow> refines m (f v)) \<Longrightarrow> refines m (case x of None \<Rightarrow> a | Some v \<Rightarrow> f v)"
  by (cases x) simp_all

lemma refines_stay: "refines m (res, m)"
  by (simp add: refines_quiet)

lemmas refines_rules = refines_try refines_if refines_pair refines_option refines_stay

subsubsection \<open>The operations\<close>

lemma store_accept_refines: "refines m (store_accept intent m)"
  unfolding store_accept_def Let_def
proof (intro refines_rules quiet_refl, goal_cases)
  case 1
  from 1(5) show ?case
    by (rule refines_fresh [where plan = None]) (use 1 in \<open>simp_all add: route_if_def\<close>)
qed

lemma reserve_active_refines: "refines m (reserve_active edit author m)"
  unfolding reserve_active_def Let_def
  by (intro refines_rules quiet_refl) (simp add: refines_quiet quiet_def)

lemma release_active_refines: "refines m (release_active reservation m)"
  unfolding release_active_def Let_def
  by (intro refines_rules quiet_refl)
    (auto simp: refines_quiet quiet_def bind_eq_Some_conv intro: refines_quiet_publish split: option.splits)

lemma promote_refines: "refines m (promote_authorized_successor N i m)"
  unfolding promote_authorized_successor_def Let_def
  by (intro refines_rules quiet_refl)
    (simp_all add: quiet_def, erule (3) refines_renewed, simp_all add: same_write_successor, simp_all add: successor_receipt_def)

lemma compose_refines: "refines m (compose_semantic N i edit author routing u source initial_route m)"
  unfolding compose_semantic_def Let_def
proof (intro refines_rules quiet_refl, simp_all split del: if_split, goal_cases)
  case 1
  show ?case by (rule refines_quiet_publish [OF _ 1(1)]) (simp add: quiet_def)
next
  case 2
  from 2(1,13-15) show ?case
    by (rule refines_renewed) (simp_all add: 2 same_write_successor, simp_all add: successor_receipt_def)
qed

lemma check_reservation_quiet: "check_reservation reservation coord (ms_state m) = Inr st \<Longrightarrow> quiet m (m\<lparr>ms_state := st\<rparr>)"
  by (auto simp: check_reservation_def quiet_def split: option.splits if_splits)

lemma accept_semantic_refines: "refines m (accept_semantic_inner N now reservation intent u source initial_route m)"
  unfolding accept_semantic_inner_def Let_def
proof (rule refines_try, simp, rule refines_pair, rule refines_try, simp, goal_cases)
  case (1 v edit author st)
  note keep = check_reservation_quiet [OF 1(3)]
  show ?case
  proof (rule refines_over [of "m\<lparr>ms_state := st\<rparr>"], intro refines_rules quiet_refl, goal_cases)
    case prems: (1 _ _ _ current r)
    from prems(5,6) show ?case
      by (rule refines_fresh [where m = "m\<lparr>ms_state := st\<rparr>", simplified]) (use prems(4,7) in simp_all)
  qed (simp_all add: keep compose_refines)
qed

lemma install_semantic_refines:
  "refines m (install_semantic N now write i expected expected_source applied u source initial_route m)"
  unfolding install_semantic_def Let_def
proof (intro refines_rules quiet_refl, simp_all split del: if_split, goal_cases)
  case 1
  show ?case by (rule refines_quiet_publish [OF _ 1(1)]) (simp add: quiet_def)
next
  case 2
  from 2(1,18-20) show ?case
    by (rule refines_renewed) (simp_all add: 2 same_write_def)
qed

lemma record_semantic_failure_refines:
  "refines m (record_semantic_failure N write i expected expected_source source reason m)"
  unfolding record_semantic_failure_def Let_def
proof (intro refines_rules quiet_refl, simp_all split del: if_split, goal_cases)
  case (1 r)
  from 1(6) have "advances r (set_revision_failure fault r)" for fault
    by (intro advances_set_failure) (simp add: require_current_def)
  then show ?case by (intro refines_replace [OF 1(1)]) (simp_all add: 1)
qed

lemma install_signed_refines: "refines m (install_signed N write i revision event e m)"
  unfolding install_signed_def Let_def
  by (intro refines_rules quiet_refl promote_refines refines_commit(1))
    (auto simp: check_signature_def dest!: current_receipt_Inr intro: advances_signed
      split: event_value.splits if_splits)

lemma record_signer_refusal_refines: "refines m (record_signer_refusal N write i revision event reason m)"
  unfolding record_signer_refusal_def Let_def
  by (intro refines_rules quiet_refl promote_refines refines_commit(1))
   (auto dest!: current_receipt_Inr intro: advances_set_signature)

lemma record_signer_retryable_refines: "refines m (record_signer_retryable N write i revision event reason m)"
  unfolding record_signer_retryable_def Let_def
  by (intro refines_rules quiet_refl promote_refines refines_commit(1))
   (auto dest!: current_receipt_Inr intro: advances_set_signature)

lemma authorize_signing_refines: "refines m (authorize_signing N write i revision event m)"
  unfolding authorize_signing_def Let_def
  by (intro refines_rules quiet_refl refines_commit(1))
   (auto dest!: current_receipt_Inr intro: advances_set_signature)

lemma apply_route_refines: "refines m (apply_route N write i revision event plan m)"
  unfolding apply_route_def Let_def
  by (intro refines_rules quiet_refl refines_commit(2))
   (auto dest!: current_receipt_Inr intro: advances_apply_route)

lemma begin_attempt_refines: "refines m (begin_attempt write i revision event session attempt m)"
  unfolding begin_attempt_def Let_def
proof (intro refines_rules quiet_refl, goal_cases)
  case prems: (1 r _ _ out)
  from current_receipt_Inr [OF prems(1)] prems(5,6,7) show ?case
    by (intro refines_commit(1) [of _ _ r] advances_fields [OF advances_set_outcome [of r session out]])
      (auto simp: set_outcome_def update_destinations_def retryable_not_terminal)
qed

lemma record_outcome_refines: "refines m (record_outcome write i revision event session attempt out m)"
  unfolding record_outcome_def Let_def
proof (intro refines_rules quiet_refl, goal_cases)
  case prems: (1 _ _ r _ current)
  from current_receipt_Inr [OF prems(3)] prems(5,7,8) show ?case
    by (intro refines_commit(2) [of _ _ r] advances_fields [OF advances_set_outcome [of r session current]])
      (auto simp: set_outcome_def update_destinations_def retryable_not_terminal)
qed

lemma store_cancel_refines: "refines m (store_cancel i m)"
  unfolding store_cancel_def Let_def
proof (intro refines_rules quiet_refl, goal_cases)
  case prems: (1 _ r)
  from prems(1) advances_cancelled [OF prems(4)] show ?case by (intro refines_replace [OF prems(2)]) simp_all
qed

lemma remove_receipt_refines: "refines m (remove_receipt i m)"
  unfolding remove_receipt_def Let_def
  by (intro refines_rules quiet_refl) (auto simp: refines_def published_def announces_def intro: removal)

end
