(* ===== verification/Write_Runs.thy ===== *)
theory Write_Runs
  imports Write_Ledger
begin

section \<open>Runs of the in-memory write store\<close>

text \<open>
  Sequences of operations of \<open>fava-write-store-memory\<close>, in any order and with any arguments.
  What holds of every run is proved once, for any store whose operations refine the abstract
  ledger step, and carried over by the interpretation on the operations of the model.
\<close>

subsection \<open>Progress of a receipt\<close>

text \<open>
  \<open>r'\<close> is a later state of the receipt \<open>r\<close>: while the revision is the same, the event body,
  the retired revisions and every terminal outcome are; a revision that was left is in the
  evidence with the event it had.
\<close>

definition later :: "receipt \<Rightarrow> receipt \<Rightarrow> bool" where
  "later r r' \<longleftrightarrow> same_write r r' \<and> revision_of r \<le> revision_of r'
     \<and> (\<exists>more. retired_of r' = retired_of r @ more)
     \<and> (revision_of r' = revision_of r \<longrightarrow> lw_id (rc_current r') = lw_id (rc_current r)
          \<and> body_kept (lw_event (rc_current r)) (lw_event (rc_current r'))
          \<and> retired_of r' = retired_of r \<and> keeps_outcomes r r')
     \<and> (revision_of r < revision_of r' \<longrightarrow>
          (\<exists>src fault. (revision_of r, lw_id (rc_current r), src, fault) \<in> set (retired_of r')))"

lemma body_kept_trans: "body_kept a b \<Longrightarrow> body_kept b c \<Longrightarrow> body_kept a c"
  by (auto simp: body_kept_def)

lemma later_refl: "later r r"
  by (simp add: later_def same_write_def keeps_outcomes_def)

lemma later_advances: "advances r r' \<Longrightarrow> later r r'"
  by (simp add: later_def advances_def)

lemma later_renews: "renews r r' \<Longrightarrow> later r r'"
  by (auto simp: later_def renews_def retired_with_def Let_def retired_of_def revision_of_def)

lemma later_trans:
  assumes "later a b" "later b c"
  shows "later a c"
proof -
  have le: "revision_of a \<le> revision_of b" "revision_of b \<le> revision_of c"
    using assms by (simp_all add: later_def)
  have same: "same_write a c" using assms by (simp add: later_def same_write_def)
  consider "revision_of b = revision_of a" | "revision_of a < revision_of b" using le by fastforce
  then show ?thesis
  proof cases
    case 1
    with assms same show ?thesis
      by (auto simp: later_def keeps_outcomes_def intro: body_kept_trans)
  next
    case 2
    with le have "revision_of a < revision_of c" by simp
    moreover have "\<exists>src fault. (revision_of a, lw_id (rc_current a), src, fault) \<in> set (retired_of c)"
      using 2 assms by (fastforce simp: later_def)
    ultimately show ?thesis using assms same by (auto simp: later_def)
  qed
qed

subsection \<open>Any store that refines the ledger step\<close>

locale ledger_store =
  fixes perform :: "'op \<Rightarrow> 's \<Rightarrow> 's" and ledger :: "'s \<Rightarrow> write_state"
  assumes step: "ledger_step (ledger m) (ledger (perform op m))"
begin

lemma next_identity_mono: "ws_next_identity (ledger m) \<le> ws_next_identity (ledger (fold perform ops m))"
proof (induction ops arbitrary: m)
  case (Cons op ops)
  have "ws_next_identity (ledger m) \<le> ws_next_identity (ledger (perform op m))"
    using step [of m op] by (cases rule: ledger_step.cases) (auto dest: checked_add_u64_one_greater)
  with Cons show ?case by (fastforce intro: order_trans)
qed simp

lemma step_wf: "ledger_wf (ledger m) \<Longrightarrow> ledger_wf (ledger (perform op m))"
  using step [of m op]
  by (cases rule: ledger_step.cases)
    (auto simp: ledger_wf_def advances_def renews_def same_write_def bt_wf_insert bt_wf_remove
      dest!: checked_add_u64_one_greater split: if_splits intro: less_trans)

lemma run_wf: "ledger_wf (ledger m) \<Longrightarrow> ledger_wf (ledger (fold perform ops m))"
  by (induction ops arbitrary: m) (simp_all add: step_wf)

lemma step_gone:
  "bt_get (ws_writes (ledger m)) i = None \<Longrightarrow> i < ws_next_identity (ledger m) \<Longrightarrow>
   bt_get (ws_writes (ledger (perform op m))) i = None"
  using step [of m op] by (cases rule: ledger_step.cases) auto

lemma run_gone:
  assumes "bt_get (ws_writes (ledger m)) i = None" "i < ws_next_identity (ledger m)"
  shows "bt_get (ws_writes (ledger (fold perform ops m))) i = None"
  using assms
proof (induction ops arbitrary: m)
  case (Cons op ops)
  from Cons.prems(2) next_identity_mono [of m "[op]"] have "i < ws_next_identity (ledger (perform op m))" by simp
  with step_gone [OF Cons.prems] Cons.IH show ?case by simp
qed simp

lemma step_later:
  assumes "bt_get (ws_writes (ledger m)) i = Some r" "bt_get (ws_writes (ledger (perform op m))) i = Some r'"
    and "ledger_wf (ledger m)"
  shows "later r r'"
  using step [of m op]
proof (cases rule: ledger_step.cases)
  case (update j s s')
  with assms show ?thesis by (auto simp: later_refl later_advances later_renews split: if_splits)
qed (use assms in \<open>auto simp: later_refl ledger_wf_def split: if_splits\<close>)

lemma run_later:
  assumes "bt_get (ws_writes (ledger m)) i = Some r" "bt_get (ws_writes (ledger (fold perform ops m))) i = Some r'"
    and "ledger_wf (ledger m)"
  shows "later r r'"
  using assms
proof (induction ops arbitrary: m r)
  case Nil
  then show ?case by (simp add: later_refl)
next
  case (Cons op ops)
  show ?case
  proof (cases "bt_get (ws_writes (ledger (perform op m))) i")
    case None
    have "i < ws_next_identity (ledger (perform op m))"
      using Cons.prems(1,3) next_identity_mono [of m "[op]"] by (auto simp: ledger_wf_def intro: less_le_trans)
    with None run_gone [of "perform op m" i ops] Cons.prems(2) show ?thesis by simp
  next
    case (Some s)
    from step_later [OF Cons.prems(1) Some Cons.prems(3)]
      Cons.IH [OF Some _ step_wf [OF Cons.prems(3)]] Cons.prems(2)
    show ?thesis by (auto intro: later_trans)
  qed
qed

end

subsection \<open>The operations of the in-memory store\<close>

datatype store_op =
    OpAccept write_intent
  | OpAcceptApplied timestamp write_intent unsigned_event "event_value option"
  | OpAcceptReserved timestamp u64 write_intent unsigned_event "event_value option" "route_plan option"
  | OpInstallSemantic timestamp write_id receipt_id revision_id "event_id option" "event_edit list" unsigned_event
      "event_value option" "route_plan option"
  | OpSemanticFailure write_id receipt_id revision_id "event_id option" "event_value option" string
  | OpReserve event_edit public_key
  | OpRelease u64
  | OpAuthorize write_id receipt_id revision_id event_id
  | OpInstallSigned write_id receipt_id revision_id event_id event
  | OpSignerRefusal write_id receipt_id revision_id event_id string
  | OpSignerRetryable write_id receipt_id revision_id event_id string
  | OpRoute write_id receipt_id revision_id event_id route_plan
  | OpBegin write_id receipt_id revision_id event_id relay_url u32
  | OpOutcome write_id receipt_id revision_id event_id relay_url u32 relay_delivery_outcome
  | OpCancel receipt_id
  | OpRemove receipt_id

fun perform :: "nostr_lib \<Rightarrow> store_op \<Rightarrow> memory_write_store \<Rightarrow> memory_write_store" where
  "perform N (OpAccept intent) m = snd (store_accept intent m)"
| "perform N (OpAcceptApplied now intent u source) m = snd (accept_applied_edit N now intent u source m)"
| "perform N (OpAcceptReserved now n intent u source route) m =
     snd (accept_reserved_applied_edit N now n intent u source route m)"
| "perform N (OpInstallSemantic now w i g src edits u source route) m =
     snd (install_semantic N now w i g src edits u source route m)"
| "perform N (OpSemanticFailure w i g src source reason) m = snd (record_semantic_failure N w i g src source reason m)"
| "perform N (OpReserve edit author) m = snd (reserve_active edit author m)"
| "perform N (OpRelease n) m = snd (release_active n m)"
| "perform N (OpAuthorize w i g ev) m = snd (authorize_signing N w i g ev m)"
| "perform N (OpInstallSigned w i g ev e) m = snd (install_signed N w i g ev e m)"
| "perform N (OpSignerRefusal w i g ev reason) m = snd (record_signer_refusal N w i g ev reason m)"
| "perform N (OpSignerRetryable w i g ev reason) m = snd (record_signer_retryable N w i g ev reason m)"
| "perform N (OpRoute w i g ev plan) m = snd (apply_route N w i g ev plan m)"
| "perform N (OpBegin w i g ev s n) m = snd (begin_attempt w i g ev s n m)"
| "perform N (OpOutcome w i g ev s n out) m = snd (record_outcome w i g ev s n out m)"
| "perform N (OpCancel i) m = snd (store_cancel i m)"
| "perform N (OpRemove i) m = snd (remove_receipt i m)"

definition run :: "nostr_lib \<Rightarrow> store_op list \<Rightarrow> memory_write_store \<Rightarrow> memory_write_store" where
  "run N ops m = fold (perform N) ops m"

lemmas operations_refine =
  store_accept_refines accept_semantic_refines install_semantic_refines record_semantic_failure_refines
  reserve_active_refines release_active_refines authorize_signing_refines install_signed_refines
  record_signer_refusal_refines record_signer_retryable_refines apply_route_refines begin_attempt_refines
  record_outcome_refines store_cancel_refines remove_receipt_refines

lemma perform_refines: "refines m (r, perform N op m)"
proof -
  have drop: "refines m x \<Longrightarrow> refines m (r, snd x)" for x :: "'z store_step"
    by (simp add: refines_def)
  show ?thesis
    by (cases op) (simp_all add: accept_applied_edit_def accept_reserved_applied_edit_def operations_refine [THEN drop])
qed

interpretation memory: ledger_store "perform N" ms_state for N
  by unfold_locales (use perform_refines in \<open>simp add: refines_def\<close>)

lemma initial_ledger: "ledger_wf (ms_state (store_bounded c))" "published (store_bounded c)"
  by (simp_all add: ledger_wf_def published_def store_bounded_def write_state_default_def store_snapshot_def
      source_snapshot_empty_def bt_values_def)

lemma run_ledger: "ledger_wf (ms_state (run N ops (store_bounded c)))"
  unfolding run_def by (rule memory.run_wf [OF initial_ledger(1)])

lemma run_published: "published m \<Longrightarrow> published (run N ops m)"
  unfolding run_def
proof (induction ops arbitrary: m)
  case (Cons op ops)
  have "published (perform N op m)"
    using perform_refines [of m "Inr ()" N op] Cons.prems by (simp add: refines_def)
  then show ?case by (simp add: Cons.IH)
qed simp

subsection \<open>Properties of every run\<close>

text \<open>
  (C1) Every operation of the store, with any arguments and from any state, is a step of the
  abstract ledger: it leaves the receipts as they are, files one fresh receipt under the next
  identity, moves one receipt forward within its revision or to the next one, or removes one
  terminal receipt; the revision of the store moves by one with every such change and stays otherwise.
\<close>

theorem store_refines_ledger: "ledger_step (ms_state m) (ms_state (perform N op m))"
  using perform_refines [of m "Inr ()" N op] by (simp add: refines_def)

text \<open>
  (C4) After every operation of every run, the snapshot a new observer reads is the one of the
  current ledger, and the operation announced every receipt it changed, with its current
  value; it announced nothing that is not the current value.
\<close>

theorem store_publishes_every_change:
  assumes "m = run N ops (store_bounded c)" "m' = perform N op m"
  shows "ms_latest m' = store_snapshot (ms_state m')
    \<and> (\<exists>cs. ms_changes m' = ms_changes m @ cs
        \<and> (\<forall>i x. (i, x) \<in> set cs \<longrightarrow> store_receipt i m' = x)
        \<and> (\<forall>i. store_receipt i m' \<noteq> store_receipt i m \<longrightarrow> (i, store_receipt i m') \<in> set cs))"
proof -
  have m': "published m'" "announces m m'"
    using perform_refines [of m "Inr ()" N op] run_published [OF initial_ledger(2)] run_ledger assms
    by (simp_all add: refines_def)
  from m'(2) obtain cs where cs: "ms_changes m' = ms_changes m @ cs"
    "\<And>i x. (i, x) \<in> set cs \<Longrightarrow> store_receipt i m' = x"
    "\<And>i. store_receipt i m' \<noteq> store_receipt i m \<Longrightarrow> i \<in> fst ` set cs"
    unfolding announces_def store_receipt_def by blast
  have "(i, store_receipt i m') \<in> set cs" if "store_receipt i m' \<noteq> store_receipt i m" for i
    using cs(2,3) that by fastforce
  with m'(1) cs show ?thesis unfolding published_def by blast
qed

text \<open>
  (C3) An identity names one write for ever: a receipt is filed under its own identity, which is
  below the next one to be issued, and an identity that was issued and is no longer in the
  ledger never comes back.
\<close>

theorem receipt_identities_never_reused:
  assumes "m = run N ops (store_bounded c)" "i < ws_next_identity (ms_state m)"
  shows "(\<forall>r. store_receipt i m = Some r \<longrightarrow> rc_receipt_id r = i \<and> rc_write_id r = i)
    \<and> (store_receipt i m = None \<longrightarrow> store_receipt i (run N further m) = None)"
  using run_ledger [of N ops c] assms memory.run_gone [of m i N further]
  by (auto simp: ledger_wf_def store_receipt_def run_def)

text \<open>
  (C2) Along every run a receipt keeps its identity, routing and authority, and its revision only
  grows. While the revision is the same, the event keeps its id and body (it may become
  signed, and then never changes), and every terminal outcome of a destination is final. A
  revision that was left stays in the retired evidence with the id of the event it had.
\<close>

theorem receipt_history:
  assumes "m = run N ops (store_bounded c)" "store_receipt i m = Some r" "store_receipt i (run N further m) = Some r'"
  shows "rc_routing r' = rc_routing r \<and> rc_access r' = rc_access r \<and> revision_of r \<le> revision_of r'
    \<and> (revision_of r' = revision_of r \<longrightarrow>
         lw_id (rc_current r') = lw_id (rc_current r)
         \<and> body_kept (lw_event (rc_current r)) (lw_event (rc_current r'))
         \<and> (\<forall>s out. bt_get (receipt_destinations r) s = Some out \<and> outcome_is_terminal out \<longrightarrow>
              bt_get (receipt_destinations r') s = Some out))
    \<and> (revision_of r < revision_of r' \<longrightarrow>
         (\<exists>src fault. (revision_of r, lw_id (rc_current r), src, fault) \<in> set (retired_of r')))
    \<and> (\<exists>later_revisions. retired_of r' = retired_of r @ later_revisions)"
proof -
  have "later r r'"
    using memory.run_later [of m i r N further r'] run_ledger [of N ops c] assms by (simp add: store_receipt_def run_def)
  then show ?thesis by (simp add: later_def same_write_def keeps_outcomes_def)
qed

subsection \<open>The snapshot\<close>

lemma first_by_id_eq: "first_by_id seen rs = keep_first_by (\<lambda>r. lw_id (rc_current r)) seen rs"
  by (induction seen rs rule: first_by_id.induct) simp_all

text \<open>
  The snapshot shows, for every event id, exactly the current event of the newest receipt
  with that id among those that were not cancelled, and no id twice.
\<close>

theorem snapshot_shows_newest:
  assumes "m = run N ops (store_bounded c)"
  shows "distinct (map (\<lambda>e. case e of LocalContribution l \<Rightarrow> Some (lw_id l) | _ \<Rightarrow> None) (ss_events (ms_latest m)))
    \<and> (\<forall>l. LocalContribution l \<in> set (ss_events (ms_latest m)) \<longleftrightarrow>
         (\<exists>i r. store_receipt i m = Some r \<and> rc_outcome r \<noteq> Cancelled \<and> rc_current r = l
            \<and> (\<forall>j s. store_receipt j m = Some s \<and> rc_outcome s \<noteq> Cancelled
                  \<and> lw_id (rc_current s) = lw_id (rc_current r) \<longrightarrow> j \<le> i)))"
proof -
  define W where "W = filter (\<lambda>(_, r). rc_outcome r \<noteq> Cancelled) (ws_writes (ms_state m))"
  have wf: "bt_wf (ws_writes (ms_state m))" using run_ledger [of N ops c] assms by (simp add: ledger_wf_def)
  then have sorted: "sorted_wrt (<) (map fst W)" by (simp add: W_def bt_wf_def filter_sorted_keys)
  have in_W: "(i, r) \<in> set W \<longleftrightarrow> store_receipt i m = Some r \<and> rc_outcome r \<noteq> Cancelled" for i r
    using bt_get_Some_iff [OF wf] by (auto simp: W_def store_receipt_def)
  have "filter (\<lambda>r. rc_outcome r \<noteq> Cancelled) (rev (map snd kvs)) =
      rev (map snd (filter (\<lambda>(_, r). rc_outcome r \<noteq> Cancelled) kvs))" for kvs :: "(u64 \<times> receipt) list"
    by (induction kvs) auto
  then have latest: "ss_events (ms_latest m) =
      rev (map (\<lambda>r. LocalContribution (rc_current r)) (keep_first_by (\<lambda>r. lw_id (rc_current r)) [] (rev (map snd W))))"
    using run_published [OF initial_ledger(2)] assms
    by (simp add: published_def store_snapshot_def W_def bt_values_def first_by_id_eq)
  have kept: "r \<in> set (keep_first_by (\<lambda>r. lw_id (rc_current r)) [] (rev (map snd W))) \<longleftrightarrow>
      (\<exists>i. (i, r) \<in> set W \<and> (\<forall>j s. (j, s) \<in> set W \<longrightarrow> lw_id (rc_current s) = lw_id (rc_current r) \<longrightarrow> j \<le> i))" for r
    by (simp add: keep_first_by_iff find_last_iff [OF sorted])
  have "LocalContribution l \<in> set (ss_events (ms_latest m)) \<longleftrightarrow>
      (\<exists>r\<in>set (keep_first_by (\<lambda>r. lw_id (rc_current r)) [] (rev (map snd W))). rc_current r = l)" for l
    by (auto simp: latest)
  then have "\<forall>l. LocalContribution l \<in> set (ss_events (ms_latest m)) \<longleftrightarrow>
         (\<exists>i r. store_receipt i m = Some r \<and> rc_outcome r \<noteq> Cancelled \<and> rc_current r = l
            \<and> (\<forall>j s. store_receipt j m = Some s \<and> rc_outcome s \<noteq> Cancelled
                  \<and> lw_id (rc_current s) = lw_id (rc_current r) \<longrightarrow> j \<le> i))"
    unfolding kept Bex_def in_W by blast
  moreover have "distinct (map Some (map (\<lambda>r. lw_id (rc_current r))
      (keep_first_by (\<lambda>r. lw_id (rc_current r)) [] (rev (map snd W)))))"
    by (rule distinct_map [THEN iffD2]) (simp add: keep_first_by_distinct)
  then have "distinct (rev (map (\<lambda>r. Some (lw_id (rc_current r)))
      (keep_first_by (\<lambda>r. lw_id (rc_current r)) [] (rev (map snd W)))))"
    by (simp add: comp_def)
  ultimately show ?thesis by (simp add: latest rev_map [symmetric] comp_def del: distinct_rev)
qed

subsection \<open>Operations on an identified revision\<close>

definition refused :: "memory_write_store \<Rightarrow> 'a store_step \<Rightarrow> bool" where
  "refused m x \<longleftrightarrow> (\<exists>e. x = (Inl e, m))"

lemma refused_rules:
  "refused m (try_in m (Inl e) f)" "(\<And>v. refused m (g v)) \<Longrightarrow> refused m (try_in m x g)"
  by (simp add: refused_def) (cases x, auto simp: refused_def)

text \<open>
  (C7) An operation that names a write, a revision and an event which are not the current ones of
  an open receipt is refused and changes nothing.
\<close>

theorem stale_identity_refused:
  assumes "\<nexists>r. store_receipt i m = Some r \<and> \<not> receipt_is_terminal r \<and> rc_write_id r = w
    \<and> revision_of r = g \<and> lw_id (rc_current r) = ev"
  shows "refused m (authorize_signing N w i g ev m) \<and> refused m (install_signed N w i g ev e m)
    \<and> refused m (record_signer_refusal N w i g ev reason m) \<and> refused m (record_signer_retryable N w i g ev reason m)
    \<and> refused m (apply_route N w i g ev plan m) \<and> refused m (begin_attempt w i g ev s n m)
    \<and> refused m (record_outcome w i g ev s n out m)"
proof -
  obtain fault where fault: "current_receipt w i g ev (ms_state m) = Inl fault"
    using assms
    by (cases "current_receipt w i g ev (ms_state m)")
      (auto simp: current_receipt_def validate_current_revision_def store_receipt_def revision_of_def
        split: option.splits sum.splits if_splits)
  show ?thesis
    unfolding authorize_signing_def install_signed_def record_signer_refusal_def record_signer_retryable_def
      apply_route_def begin_attempt_def record_outcome_def Let_def fault
    by (intro conjI refused_rules)
qed

lemma checked_next_attempt_Some: "checked_next_attempt a = Some n \<longleftrightarrow> unat n = unat a + 1"
proof (cases "a = - 1")
  case True
  have "unat n < 4294967296" using unsigned_less [of n, where ?'a = nat] by simp
  with True show ?thesis by (simp add: checked_next_attempt_def unsigned_minus_1_eq_mask mask_eq_exp_minus_1)
next
  case False
  then have "1 + a \<noteq> 0" by (metis add.commute add_eq_0_iff)
  with unatSuc [of a] have "unat (a + 1) = unat a + 1" by (simp add: add.commute)
  with False show ?thesis by (auto simp: checked_next_attempt_def word_unat_eq_iff)
qed

lemma receipt_destinations_other [simp]:
  "receipt_destinations (r\<lparr>rc_attempts := a\<rparr>) = receipt_destinations r"
  "receipt_destinations (r\<lparr>rc_outcome := x\<rparr>) = receipt_destinations r"
  by (simp_all add: receipt_destinations_def)

text \<open>
  An attempt is authorized only with the number after the last one, on a destination that is
  pending or waits for a retry; a repetition of the number in flight answers the receipt and
  changes nothing. A new attempt is recorded before anything is sent: the destination becomes
  attempting under that number, and no other destination or attempt changes.
\<close>

theorem begin_attempt_spec:
  assumes "begin_attempt w i g ev s n m = (Inr r', m')"
  shows "\<exists>r. store_receipt i m = Some r \<and> \<not> receipt_is_terminal r \<and> store_receipt i m' = Some r'
    \<and> (m' = m \<and> r' = r \<and> bt_get (receipt_destinations r) s = Some Attempting \<and> attempt_of s r = n
       \<or> unat n = unat (attempt_of s r) + 1
         \<and> (\<exists>out. bt_get (receipt_destinations r) s = Some out \<and> (out = Pending \<or> is_retryable out))
         \<and> (\<forall>t. bt_get (receipt_destinations r') t = (if t = s then Some Attempting else bt_get (receipt_destinations r) t))
         \<and> (\<forall>t. attempt_of t r' = (if t = s then n else attempt_of t r)))"
proof -
  from assms obtain r where r: "current_receipt w i g ev (ms_state m) = Inr r"
    by (auto simp: begin_attempt_def Let_def try_in_Inr_iff)
  note cur = current_receipt_Inr [OF r]
  let ?replay = "attempt_of s r = n \<and> bt_get (receipt_destinations r) s = Some Attempting"
  show ?thesis
  proof (cases ?replay)
    case True
    with assms cur show ?thesis by (simp add: begin_attempt_def r store_receipt_def)
  next
    case False
    define new where "new = (set_outcome s Attempting r)\<lparr>rc_attempts := bt_insert s n (rc_attempts r)\<rparr>"
    from False assms obtain rev out where
      "checked_next_attempt (attempt_of s r) = Some n" "bt_get (receipt_destinations r) s = Some out"
      "out = Pending \<or> is_retryable out" "commit_receipt i new rev m = (Inr r', m')"
      unfolding begin_attempt_def Let_def r new_def by (auto simp: try_in_Inr_iff)
    moreover from this(4) have "r' = new" "store_receipt i m' = Some new"
      by (auto simp: commit_receipt_def store_receipt_def)
    ultimately show ?thesis
      using cur
      by (intro exI [of _ r])
        (auto simp: store_receipt_def new_def set_outcome_def attempt_of_def checked_next_attempt_Some)
  qed
qed

text \<open>
  A write is cancelled only while nothing was handed off: every destination is pending or
  waits for a retry. Every destination then reads cancelled before handoff, the receipt is
  terminal and no longer counts as active, and the edits of its coordinate are released.
\<close>

theorem store_cancel_before_handoff:
  assumes "store_cancel i m = (Inr (Some r'), m')" "m' \<noteq> m"
  shows "\<exists>r. store_receipt i m = Some r \<and> \<not> receipt_is_terminal r
    \<and> (\<forall>s out. bt_get (receipt_destinations r) s = Some out \<longrightarrow> out = Pending \<or> is_retryable out)
    \<and> (\<forall>s. bt_get (receipt_destinations r') s = map_option (\<lambda>_. CancelledBeforeHandoff) (bt_get (receipt_destinations r) s))
    \<and> rc_outcome r' = Cancelled \<and> store_receipt i m' = Some r'
    \<and> bt_get (ws_edits (ms_state m')) i = None \<and> bt_get (ws_successors (ms_state m')) i = None"
proof -
  from assms obtain r n where r: "bt_get (ws_writes (ms_state m)) i = Some r" "rc_outcome r \<noteq> Cancelled"
    and open_: "\<not> (receipt_is_terminal r
        \<or> (\<exists>out\<in>set (bt_values (receipt_destinations r)). \<not> (out = Pending \<or> is_retryable out)))"
    and res: "r' = (update_destinations (map (\<lambda>(s, _). (s, CancelledBeforeHandoff))) r)\<lparr>rc_outcome := Cancelled\<rparr>"
      "m' = publish_receipt (release_semantic i ((ms_state m)\<lparr>ws_writes := bt_insert i r' (ws_writes (ms_state m)),
         ws_revision := n\<rparr>)) r' m"
    by (auto simp: store_cancel_def Let_def try_in_Inr_iff split: option.splits if_splits)
  have mapped: "bt_get (map (\<lambda>(s, _). (s, v)) d) t = map_option (\<lambda>_. v) (bt_get d t)" for d t and v :: relay_delivery_outcome
    unfolding bt_get_def by (induction d) auto
  have "out = Pending \<or> is_retryable out" if "bt_get (receipt_destinations r) s = Some out" for s out
    using open_ bt_get_SomeD [OF that] by (force simp: bt_values_def)
  moreover have "bt_get (ws_edits (ms_state m')) i = None" "bt_get (ws_successors (ms_state m')) i = None"
    unfolding res(2) by (auto simp: release_semantic_def Let_def split: option.splits)
  moreover have "store_receipt i m' = Some r'" unfolding res(2) by (simp add: store_receipt_def)
  ultimately show ?thesis
    using r open_ res(1) by (intro exI [of _ r]) (auto simp: store_receipt_def mapped)
qed

subsection \<open>Concrete runs\<close>

definition sample_edit :: event_edit where
  "sample_edit = \<lparr>ed_kind = 10002, ed_identifier = None, ed_change = []\<rparr>"

definition sample_edit_intent :: write_intent where
  "sample_edit_intent = \<lparr>wi_payload = PayloadEdit sample_edit 7, wi_routing = Automatic, wi_access = Unauthenticated\<rparr>"

definition sample_revision :: "timestamp \<Rightarrow> unsigned_event" where
  "sample_revision t = sample_unsigned\<lparr>ue_created_at := t, ue_id := Some (100 + ucast t)\<rparr>"

definition sample_plain_intent :: write_intent where
  "sample_plain_intent = \<lparr>wi_payload = PayloadEvent (sample_unsigned\<lparr>ue_kind := 1\<rparr>), wi_routing = Explicit [''wss://a''],
     wi_access = Unauthenticated\<rparr>"

text \<open>An edit, a revision of it whose route settles without a destination, a plain write, and a second edit.\<close>

definition reopening_run :: "store_op list" where
  "reopening_run =
     [OpAcceptApplied 5 sample_edit_intent (sample_revision 10) None,
      OpInstallSemantic 5 1 1 1 None [sample_edit] (sample_revision 12) (Some (Signed (sample_event 111 7 11 10002 [])))
        (Some (plan_default\<lparr>rp_revision := 1\<rparr>)),
      OpAccept sample_plain_intent,
      OpAcceptApplied 5 sample_edit_intent (sample_revision 13) (Some (Unsigned (sample_revision 12)))]"

text \<open>
  The capacity bounds fresh acceptances, not the open receipts. When the route given with a
  revision settles without a destination, the receipt is terminal but keeps its coordinate; an
  edit of that coordinate then reopens it without a capacity check, so that a store of
  capacity one holds two open receipts.
\<close>

theorem terminal_receipt_reopened_over_capacity:
  "map_option receipt_is_terminal (store_receipt 1 (run sample_lib (take 2 reopening_run) (store_bounded 1))) = Some True
   \<and> active_count (ms_state (run sample_lib (take 3 reopening_run) (store_bounded 1))) = 1
   \<and> capacity_reached (ms_state (run sample_lib (take 3 reopening_run) (store_bounded 1))) 1
   \<and> map_option receipt_is_terminal (store_receipt 1 (run sample_lib reopening_run (store_bounded 1))) = Some False
   \<and> active_count (ms_state (run sample_lib reopening_run (store_bounded 1))) = 2"
  by code_simp

text \<open>A plain write delivered to its one relay.\<close>

definition sample_run :: "store_op list" where
  "sample_run =
     [OpAccept sample_plain_intent, OpAuthorize 1 1 1 110,
      OpInstallSigned 1 1 1 110 (sample_event 110 7 10 1 []),
      OpBegin 1 1 1 110 ''wss://a'' 1, OpOutcome 1 1 1 110 ''wss://a'' 1 (Acknowledged ''ok''), OpRemove 1]"

abbreviation sample_at :: "nat \<Rightarrow> memory_write_store" where
  "sample_at k \<equiv> run sample_lib (take k sample_run) (store_bounded 4)"

theorem store_publishes_every_change_witness:
  "(1, store_receipt 1 (perform sample_lib (sample_run ! 3) (sample_at 3)))
     \<in> set (ms_changes (perform sample_lib (sample_run ! 3) (sample_at 3)))"
proof -
  have "store_receipt 1 (perform sample_lib (sample_run ! 3) (sample_at 3)) \<noteq> store_receipt 1 (sample_at 3)"
    by code_simp
  with store_publishes_every_change [OF refl refl, of sample_lib "sample_run ! 3" "take 3 sample_run" 4]
  show ?thesis by fastforce
qed

theorem receipt_identities_never_reused_witness:
  "store_receipt 1 (run sample_lib reopening_run (sample_at 6)) = None"
proof -
  have "1 < ws_next_identity (ms_state (sample_at 6))" "store_receipt 1 (sample_at 6) = None" by code_simp+
  with receipt_identities_never_reused [OF refl, of 1 sample_lib "take 6 sample_run" 4 reopening_run]
  show ?thesis by blast
qed

theorem receipt_history_witness:
  "bt_get (receipt_destinations (the (store_receipt 1 (run sample_lib [OpAccept sample_plain_intent] (sample_at 5))))) ''wss://a''
     = Some (Acknowledged ''ok'')"
proof -
  define r where "r = the (store_receipt 1 (sample_at 5))"
  define r' where "r' = the (store_receipt 1 (run sample_lib [OpAccept sample_plain_intent] (sample_at 5)))"
  have "bt_get (receipt_destinations (the (store_receipt 1 (sample_at 5)))) ''wss://a'' = Some (Acknowledged ''ok'')"
    "store_receipt 1 (sample_at 5) \<noteq> None"
    "store_receipt 1 (run sample_lib [OpAccept sample_plain_intent] (sample_at 5)) \<noteq> None"
    "revision_of (the (store_receipt 1 (run sample_lib [OpAccept sample_plain_intent] (sample_at 5))))
      = revision_of (the (store_receipt 1 (sample_at 5)))"
    by code_simp+
  then have "bt_get (receipt_destinations r) ''wss://a'' = Some (Acknowledged ''ok'')" "store_receipt 1 (sample_at 5) = Some r"
    "store_receipt 1 (run sample_lib [OpAccept sample_plain_intent] (sample_at 5)) = Some r'" "revision_of r' = revision_of r"
    by (simp_all add: r_def r'_def)
  with receipt_history [OF refl this(2,3)] show ?thesis unfolding r'_def [symmetric] by simp
qed

theorem snapshot_shows_newest_witness:
  "\<exists>i r. store_receipt i (sample_at 3) = Some r \<and> rc_outcome r \<noteq> Cancelled \<and> lw_id (rc_current r) = 110"
proof -
  obtain l where "ss_events (ms_latest (sample_at 3)) = [LocalContribution l]" "lw_id l = 110"
  proof -
    have "map (\<lambda>e. case e of LocalContribution l \<Rightarrow> Some (lw_id l) | _ \<Rightarrow> None) (ss_events (ms_latest (sample_at 3)))
      = [Some 110]" by code_simp
    then obtain z where "ss_events (ms_latest (sample_at 3)) = [z]"
      "(case z of LocalContribution l \<Rightarrow> Some (lw_id l) | _ \<Rightarrow> None) = Some 110" by (auto simp: map_eq_Cons_conv)
    then show ?thesis using that by (cases z) auto
  qed
  then have "LocalContribution l \<in> set (ss_events (ms_latest (sample_at 3)))" by simp
  with snapshot_shows_newest [OF refl, of sample_lib "take 3 sample_run" 4]
  obtain i r where "store_receipt i (sample_at 3) = Some r" "rc_outcome r \<noteq> Cancelled" "rc_current r = l" by blast
  with \<open>lw_id l = 110\<close> show ?thesis by auto
qed

theorem stale_identity_refused_witness: "refused (sample_at 5) (begin_attempt 1 1 1 110 ''wss://a'' 2 (sample_at 5))"
proof -
  have "receipt_is_terminal (the (store_receipt 1 (sample_at 5)))" by code_simp
  then have "\<nexists>r. store_receipt 1 (sample_at 5) = Some r \<and> \<not> receipt_is_terminal r \<and> rc_write_id r = 1
    \<and> revision_of r = 1 \<and> lw_id (rc_current r) = 110" by auto
  from stale_identity_refused [OF this, of sample_lib _ _ _ "''wss://a''" 2] show ?thesis by blast
qed

theorem begin_attempt_spec_witness:
  "\<exists>r r' m'. begin_attempt 1 1 1 110 ''wss://a'' 1 (sample_at 3) = (Inr r', m')
     \<and> store_receipt 1 (sample_at 3) = Some r \<and> store_receipt 1 m' = Some r'"
proof -
  have "(case fst (begin_attempt 1 1 1 110 ''wss://a'' 1 (sample_at 3)) of Inr _ \<Rightarrow> True | Inl _ \<Rightarrow> False)" by code_simp
  then obtain r' m' where "begin_attempt 1 1 1 110 ''wss://a'' 1 (sample_at 3) = (Inr r', m')"
    by (cases "begin_attempt 1 1 1 110 ''wss://a'' 1 (sample_at 3)") (auto split: sum.splits)
  with begin_attempt_spec [OF this] show ?thesis by blast
qed

theorem store_cancel_before_handoff_witness:
  "\<exists>r' m'. store_cancel 1 (sample_at 1) = (Inr (Some r'), m') \<and> rc_outcome r' = Cancelled \<and> store_receipt 1 m' = Some r'"
proof -
  have "(case store_cancel 1 (sample_at 1) of (Inr (Some _), m') \<Rightarrow> ws_revision (ms_state m') \<noteq> ws_revision (ms_state (sample_at 1))
      | _ \<Rightarrow> False)" by code_simp
  then obtain r' m' where "store_cancel 1 (sample_at 1) = (Inr (Some r'), m')" "m' \<noteq> sample_at 1"
    by (cases "store_cancel 1 (sample_at 1)") (auto split: sum.splits option.splits)
  with store_cancel_before_handoff [OF this] show ?thesis by blast
qed

end
