(* ===== verification/Subscriptions.thy ===== *)
theory Subscriptions
  imports Query
begin

section \<open>The subscription-planning contract (\<open>fava-subscriptions\<close>)\<close>

text \<open>
  \<open>crates/fava-subscriptions/src\<close>: logical demand, declared limits, what is installed on a
  relay session, the plan with its attribution and shortfalls, the containment test between
  two filters, the revision issuer and the conformance rules any planner has to pass. What
  \<open>serde_json\<close> and the derived order of \<open>nostr::Filter\<close> contribute is a parameter.
\<close>

subsection \<open>Values\<close>

type_synonym subscription_id = string
type_synonym demand_id = "observation_id \<times> query_branch_id"

record wire_lib =
  wl_filter_encoding :: "filter \<Rightarrow> string"
  wl_request_len :: "filter list \<Rightarrow> string + nat"
  wl_filters_le :: "filter list \<Rightarrow> filter list \<Rightarrow> bool"

datatype declared_limit = LimitUnknown | Declared nat

fun declared_get :: "declared_limit \<Rightarrow> nat option" where
  "declared_get LimitUnknown = None"
| "declared_get (Declared v) = Some v"

record relay_read_constraints =
  rrc_max_subscriptions :: declared_limit
  rrc_max_message_bytes :: declared_limit
  rrc_max_subscription_id_chars :: declared_limit
  rrc_max_filter_limit :: declared_limit
  rrc_default_filter_limit :: declared_limit

definition constraints_unknown :: relay_read_constraints where
  "constraints_unknown = \<lparr>rrc_max_subscriptions = LimitUnknown, rrc_max_message_bytes = LimitUnknown,
     rrc_max_subscription_id_chars = LimitUnknown, rrc_max_filter_limit = LimitUnknown,
     rrc_default_filter_limit = LimitUnknown\<rparr>"

record query_bounds =
  qb_since :: "timestamp option"
  qb_until :: "timestamp option"
  qb_limit :: "u32 option"

record relay_demand =
  dm_owner :: observation_id
  dm_branch :: query_branch_id
  dm_filter :: filter
  dm_bounds :: query_bounds

definition demand_id_of :: "relay_demand \<Rightarrow> demand_id" where
  "demand_id_of d = (dm_owner d, dm_branch d)"

record installed_subscription =
  is_filters :: "filter list"
  is_serves :: "demand_id btree_set"

type_synonym installed_subscriptions = "(subscription_id, installed_subscription) btree_map"

definition installed_from_entries ::
  "(subscription_id \<times> installed_subscription) list \<Rightarrow> installed_subscriptions" where
  "installed_from_entries es = fold (\<lambda>(k, v). bt_insert k v) es []"

datatype eose_completeness = Proven | LimitedRequest | RelayDefaultLimit

record planned_subscription =
  ps_filters :: "filter list"
  ps_serves :: "demand_id btree_set"
  ps_completeness :: eose_completeness

record attributed_subscription =
  as_filters :: "filter list"
  as_serves :: "demand_id btree_set"
  as_completeness :: eose_completeness

type_synonym subscription_attribution = "(subscription_id, attributed_subscription) btree_map"

definition attribution_from_entries ::
  "(subscription_id \<times> attributed_subscription) list \<Rightarrow> subscription_attribution" where
  "attribution_from_entries es = fold (\<lambda>(k, v). bt_insert k v) es []"

definition attribution_serves :: "subscription_attribution \<Rightarrow> subscription_id \<Rightarrow> demand_id btree_set" where
  "attribution_serves a i = (case bt_get a i of None \<Rightarrow> [] | Some x \<Rightarrow> as_serves x)"

datatype shortfall_reason =
    SubscriptionsExhausted nat nat
  | MessageTooLarge nat nat
  | FilterLimitExceeded nat nat
  | NotExpressible bounded_text

record subscription_shortfall =
  sf_demand :: demand_id
  sf_reason :: shortfall_reason

record plan_revision =
  pv_authority :: u64
  pv_sequence :: u64

record subscription_plan =
  spl_relay :: relay_url
  spl_revision :: plan_revision
  spl_open :: "planned_subscription list"
  spl_retain :: "subscription_id list"
  spl_close :: "subscription_id list"
  spl_attribution :: subscription_attribution
  spl_shortfalls :: "subscription_shortfall list"

definition is_noop :: "subscription_plan \<Rightarrow> bool" where
  "is_noop p \<longleftrightarrow> spl_open p = [] \<and> spl_close p = []"

definition installed_count :: "subscription_plan \<Rightarrow> nat" where
  "installed_count p = length (spl_open p) + length (spl_retain p)"

datatype subscription_plan_error = DuplicateDemand demand_id | ReqEncoding bounded_text

subsection \<open>Whole-query bounds (\<open>lib.rs\<close>)\<close>

text \<open>\<open>NonZeroU32::new(u32::try_from(n).unwrap_or(u32::MAX))\<close>\<close>

definition narrow_limit :: "nat \<Rightarrow> u32 option" where
  "narrow_limit n = (let v = (if n < 4294967296 then of_nat n else - 1 :: u32) in if v = 0 then None else Some v)"

definition bounds_for_query :: "query \<Rightarrow> query_bounds" where
  "bounds_for_query q = \<lparr>qb_since = None, qb_until = None, qb_limit = Option.bind (q_limit q) narrow_limit\<rparr>"

text \<open>The builder methods of \<open>nostr::Filter\<close> are a parameter.\<close>

record filter_builder =
  fb_new :: filter
  fb_ids :: "event_id list \<Rightarrow> filter \<Rightarrow> filter"
  fb_authors :: "public_key list \<Rightarrow> filter \<Rightarrow> filter"
  fb_kinds :: "kind list \<Rightarrow> filter \<Rightarrow> filter"
  fb_custom_tags :: "single_letter_tag \<Rightarrow> string list \<Rightarrow> filter \<Rightarrow> filter"
  fb_limit :: "nat \<Rightarrow> filter \<Rightarrow> filter"

definition demand_for_query :: "filter_builder \<Rightarrow> observation_id \<Rightarrow> query_branch_id \<Rightarrow> query \<Rightarrow> relay_demand" where
  "demand_for_query B own branch q =
     (let sel = q_selection q;
          f = fb_new B;
          f = (case sel_ids sel of Some xs \<Rightarrow> fb_ids B xs f | None \<Rightarrow> f);
          f = (case sel_authors sel of Some xs \<Rightarrow> fb_authors B xs f | None \<Rightarrow> f);
          f = (case sel_kinds sel of Some xs \<Rightarrow> fb_kinds B xs f | None \<Rightarrow> f);
          f = fold (\<lambda>(key, values). fb_custom_tags B key values) (sel_tag_values sel) f;
          f = (case q_limit q of Some n \<Rightarrow> fb_limit B n f | None \<Rightarrow> f)
      in \<lparr>dm_owner = own, dm_branch = branch, dm_filter = f, dm_bounds = bounds_for_query q\<rparr>)"

subsection \<open>Containment of filters (\<open>coverage.rs\<close>)\<close>

definition constrained :: "'a list option \<Rightarrow> 'a list option" where
  "constrained s = (case s of Some (x # xs) \<Rightarrow> Some (x # xs) | _ \<Rightarrow> None)"

definition covers_set :: "'a btree_set option \<Rightarrow> 'a btree_set option \<Rightarrow> bool" where
  "covers_set wide narrow =
     (case (constrained wide, constrained narrow) of
        (None, _) \<Rightarrow> True
      | (Some _, None) \<Rightarrow> False
      | (Some w, Some n) \<Rightarrow> set n \<subseteq> set w)"

definition covers_window :: "filter \<Rightarrow> filter \<Rightarrow> bool" where
  "covers_window wide narrow \<longleftrightarrow>
     (case (fl_since wide, fl_since narrow) of
        (None, _) \<Rightarrow> True | (Some _, None) \<Rightarrow> False | (Some w, Some n) \<Rightarrow> w \<le> n)
     \<and> (case (fl_until wide, fl_until narrow) of
        (None, _) \<Rightarrow> True | (Some _, None) \<Rightarrow> False | (Some w, Some n) \<Rightarrow> w \<ge> n)"

definition covers_tags :: "filter \<Rightarrow> filter \<Rightarrow> bool" where
  "covers_tags wide narrow \<longleftrightarrow>
     (\<forall>(name, wide_values)\<in>set (fl_generic_tags wide).
        case bt_get (fl_generic_tags narrow) name of
          None \<Rightarrow> False
        | Some narrow_values \<Rightarrow> set narrow_values \<subseteq> set wide_values)"

definition coverage_remainder_matches :: "filter \<Rightarrow> filter \<Rightarrow> bool" where
  "coverage_remainder_matches wide narrow \<longleftrightarrow> fl_search wide = fl_search narrow"

definition filter_covers :: "filter \<Rightarrow> filter \<Rightarrow> bool" where
  "filter_covers wide narrow =
     (if wide = narrow then True
      else if fl_limit wide \<noteq> None \<or> fl_limit narrow \<noteq> None then False
      else if \<not> coverage_remainder_matches wide narrow then False
      else covers_set (fl_ids wide) (fl_ids narrow) \<and> covers_set (fl_authors wide) (fl_authors narrow)
        \<and> covers_set (fl_kinds wide) (fl_kinds narrow) \<and> covers_window wide narrow \<and> covers_tags wide narrow)"

subsection \<open>Plan revisions (\<open>plan.rs\<close>)\<close>

record plan_revision_issuer =
  pri_authority :: u64
  pri_next :: "u64 option"

datatype plan_revision_exhausted = PlanAuthorities | PlanSequence

definition plan_revision_issuer_new :: "u64 \<Rightarrow> (plan_revision_exhausted + plan_revision_issuer) \<times> u64" where
  "plan_revision_issuer_new counter =
     (case checked_add_u64 counter 1 of
        None \<Rightarrow> (Inl PlanAuthorities, counter)
      | Some counter' \<Rightarrow>
          (case Option.bind (checked_add_u64 counter 1) nonzero_u64 of
             None \<Rightarrow> (Inl PlanAuthorities, counter')
           | Some a \<Rightarrow> (Inr \<lparr>pri_authority = a, pri_next = nonzero_u64 1\<rparr>, counter')))"

definition plan_revision_allocate ::
  "plan_revision_issuer \<Rightarrow> (plan_revision_exhausted + plan_revision) \<times> plan_revision_issuer" where
  "plan_revision_allocate i =
     (case pri_next i of
        None \<Rightarrow> (Inl PlanSequence, i)
      | Some n \<Rightarrow> (Inr \<lparr>pv_authority = pri_authority i, pv_sequence = n\<rparr>,
                   i\<lparr>pri_next := Option.bind (checked_add_u64 n 1) nonzero_u64\<rparr>))"

subsection \<open>Conformance (\<open>conformance.rs\<close>)\<close>

datatype plan_conformance_error =
    WrongRelay
  | OverlappingBuckets subscription_id
  | UnknownInstalled subscription_id
  | AttributionMismatch
  | EmptyFilters nat
  | FilterAttributionMismatch subscription_id
  | DemandUnaccounted demand_id
  | DemandInvented demand_id
  | DeclaredSubscriptionsExceeded nat nat
  | ServedDemandDisagrees subscription_id
  | UnknownSuccessor subscription_id subscription_id
  | RunningSubscriptionWithdrawn subscription_id demand_id
  | DuplicateFilters subscription_id nat
  | DuplicatePlannedFilters nat

definition check_relay :: "relay_url \<Rightarrow> subscription_plan \<Rightarrow> plan_conformance_error + unit" where
  "check_relay relay p = require (spl_relay p = relay) WrongRelay"

fun check_buckets_loop ::
  "installed_subscriptions \<Rightarrow> subscription_id btree_set \<Rightarrow> subscription_id list \<Rightarrow> plan_conformance_error + unit" where
  "check_buckets_loop inst seen [] = Inr ()"
| "check_buckets_loop inst seen (i # is) =
     (if i \<in> set seen then Inl (OverlappingBuckets i)
      else if bt_get inst i = None then Inl (UnknownInstalled i)
      else check_buckets_loop inst (bs_insert i seen) is)"

definition check_buckets ::
  "installed_subscriptions \<Rightarrow> subscription_plan \<Rightarrow> plan_conformance_error + subscription_id btree_set" where
  "check_buckets inst p =
     (case check_buckets_loop inst [] (spl_retain p @ spl_close p) of
        Inl e \<Rightarrow> Inl e
      | Inr _ \<Rightarrow> Inr (bs_of_list (spl_retain p)))"

definition check_attribution_keys ::
  "subscription_id btree_set \<Rightarrow> subscription_plan \<Rightarrow> plan_conformance_error + unit" where
  "check_attribution_keys resulting p =
     require (bs_of_list (bt_keys (spl_attribution p)) = resulting) AttributionMismatch"

fun check_open_filters :: "nat \<Rightarrow> planned_subscription list \<Rightarrow> plan_conformance_error + unit" where
  "check_open_filters pos [] = Inr ()"
| "check_open_filters pos (s # ss) =
     (if ps_filters s = [] then Inl (EmptyFilters pos) else check_open_filters (Suc pos) ss)"

definition check_filters :: "installed_subscriptions \<Rightarrow> subscription_plan \<Rightarrow> plan_conformance_error + unit" where
  "check_filters inst p =
     (case check_open_filters 0 (spl_open p) of
        Inl e \<Rightarrow> Inl e
      | Inr _ \<Rightarrow> check_all (\<lambda>i.
          case bt_get inst i of
            None \<Rightarrow> Inl (UnknownInstalled i)
          | Some entry \<Rightarrow>
              (case bt_get (spl_attribution p) i of
                 None \<Rightarrow> Inl AttributionMismatch
               | Some a \<Rightarrow> require (as_filters a = is_filters entry) (FilterAttributionMismatch i))) (spl_retain p))"

text \<open>Every demand the plan claims to serve, retained subscriptions first.\<close>

definition served_demand :: "subscription_plan \<Rightarrow> demand_id list" where
  "served_demand p =
     concat (map (attribution_serves (spl_attribution p)) (bt_keys (spl_attribution p)))
     @ concat (map ps_serves (spl_open p))"

definition check_demand :: "relay_demand list \<Rightarrow> subscription_plan \<Rightarrow> plan_conformance_error + unit" where
  "check_demand demand p =
     (let requested = bs_of_list (map demand_id_of demand);
          accounted = bs_of_list (map sf_demand (spl_shortfalls p) @ served_demand p) in
      case check_all (\<lambda>s. require (s \<in> set requested) (DemandInvented s)) (served_demand p) of
        Inl e \<Rightarrow> Inl e
      | Inr _ \<Rightarrow>
          (case check_all (\<lambda>i. require (i \<in> set accounted) (DemandUnaccounted i)) requested of
             Inl e \<Rightarrow> Inl e
           | Inr _ \<Rightarrow> check_all (\<lambda>e. require (sf_demand e \<in> set requested) (DemandInvented (sf_demand e)))
                        (spl_shortfalls p)))"

definition check_running_subscriptions ::
  "relay_demand list \<Rightarrow> installed_subscriptions \<Rightarrow> subscription_plan \<Rightarrow> plan_conformance_error + unit" where
  "check_running_subscriptions demand inst p =
     (let requested = bs_of_list (map demand_id_of demand) in
      check_all (\<lambda>withdrawn.
        case bt_get inst withdrawn of
          None \<Rightarrow> Inr ()
        | Some entry \<Rightarrow>
            (case find (\<lambda>served. served \<in> set requested) (is_serves entry) of
               None \<Rightarrow> Inr ()
             | Some retained \<Rightarrow> Inl (RunningSubscriptionWithdrawn withdrawn retained))) (spl_close p))"

fun check_distinct_loop ::
  "(subscription_id \<times> filter list) list \<Rightarrow> filter list list \<Rightarrow> nat \<Rightarrow> planned_subscription list
     \<Rightarrow> plan_conformance_error + unit" where
  "check_distinct_loop seen planned pos [] = Inr ()"
| "check_distinct_loop seen planned pos (s # ss) =
     (case find (\<lambda>(_, filters). filters = ps_filters s) seen of
        Some (first, _) \<Rightarrow> Inl (DuplicateFilters first pos)
      | None \<Rightarrow>
          if ps_filters s \<in> set planned then Inl (DuplicatePlannedFilters pos)
          else check_distinct_loop seen (planned @ [ps_filters s]) (Suc pos) ss)"

definition check_distinct_filters ::
  "installed_subscriptions \<Rightarrow> subscription_plan \<Rightarrow> plan_conformance_error + unit" where
  "check_distinct_filters inst p =
     check_distinct_loop
       (List.map_filter (\<lambda>i. map_option (\<lambda>entry. (i, is_filters entry)) (bt_get inst i)) (spl_retain p))
       [] 0 (spl_open p)"

definition check_declared_limits ::
  "relay_read_constraints \<Rightarrow> subscription_plan \<Rightarrow> plan_conformance_error + unit" where
  "check_declared_limits c p =
     (case declared_get (rrc_max_subscriptions c) of
        None \<Rightarrow> Inr ()
      | Some maximum \<Rightarrow>
          require (length (spl_open p) \<le> maximum - length (spl_retain p))
            (DeclaredSubscriptionsExceeded (installed_count p) maximum))"

definition and_then :: "'e + unit \<Rightarrow> 'e + unit \<Rightarrow> 'e + unit" where
  "and_then x y = (case x of Inl e \<Rightarrow> Inl e | Inr _ \<Rightarrow> y)"

definition validate_plan ::
  "relay_url \<Rightarrow> relay_demand list \<Rightarrow> relay_read_constraints \<Rightarrow> installed_subscriptions \<Rightarrow> subscription_plan
     \<Rightarrow> plan_conformance_error + unit" where
  "validate_plan relay demand c inst p =
     and_then (check_relay relay p)
      (case check_buckets inst p of
         Inl e \<Rightarrow> Inl e
       | Inr resulting \<Rightarrow>
           and_then (check_attribution_keys resulting p)
           (and_then (check_filters inst p)
           (and_then (check_demand demand p)
           (and_then (check_running_subscriptions demand inst p)
           (and_then (check_distinct_filters inst p) (check_declared_limits c p))))))"

subsection \<open>What the conformance rules mean\<close>

text \<open>The rules as one statement about the plan, without the order in which they are checked.\<close>

definition conforms ::
  "relay_url \<Rightarrow> relay_demand list \<Rightarrow> relay_read_constraints \<Rightarrow> installed_subscriptions \<Rightarrow> subscription_plan \<Rightarrow> bool" where
  "conforms relay demand c inst p \<longleftrightarrow>
     spl_relay p = relay
     \<and> distinct (spl_retain p @ spl_close p) \<and> set (spl_retain p @ spl_close p) \<subseteq> set (bt_keys inst)
     \<and> set (bt_keys (spl_attribution p)) = set (spl_retain p)
     \<and> (\<forall>s\<in>set (spl_open p). ps_filters s \<noteq> [])
     \<and> (\<forall>i\<in>set (spl_retain p). map_option as_filters (bt_get (spl_attribution p) i) = map_option is_filters (bt_get inst i))
     \<and> set (served_demand p) \<subseteq> demand_id_of ` set demand
     \<and> demand_id_of ` set demand \<subseteq> sf_demand ` set (spl_shortfalls p) \<union> set (served_demand p)
     \<and> sf_demand ` set (spl_shortfalls p) \<subseteq> demand_id_of ` set demand
     \<and> (\<forall>i entry. i \<in> set (spl_close p) \<longrightarrow> bt_get inst i = Some entry \<longrightarrow>
          set (is_serves entry) \<inter> demand_id_of ` set demand = {})
     \<and> distinct (map ps_filters (spl_open p))
     \<and> (\<forall>i entry s. i \<in> set (spl_retain p) \<longrightarrow> bt_get inst i = Some entry \<longrightarrow> s \<in> set (spl_open p) \<longrightarrow>
          ps_filters s \<noteq> is_filters entry)
     \<and> (\<forall>maximum. declared_get (rrc_max_subscriptions c) = Some maximum \<longrightarrow>
          length (spl_open p) \<le> maximum - length (spl_retain p))"

lemma and_then_Inr [simp]: "and_then x y = Inr () \<longleftrightarrow> x = Inr () \<and> y = Inr ()"
  by (auto simp: and_then_def split: sum.splits)

lemma check_buckets_loop_Inr:
  "check_buckets_loop inst seen is = Inr () \<longleftrightarrow> distinct is \<and> set is \<inter> set seen = {} \<and> set is \<subseteq> set (bt_keys inst)"
  by (induction inst seen "is" rule: check_buckets_loop.induct) (auto simp: bt_get_None_iff)

lemma check_open_filters_Inr: "check_open_filters pos ss = Inr () \<longleftrightarrow> (\<forall>s\<in>set ss. ps_filters s \<noteq> [])"
  by (induction pos ss rule: check_open_filters.induct) auto

lemma check_distinct_loop_Inr:
  "check_distinct_loop seen planned pos ss = Inr () \<longleftrightarrow>
     distinct (map ps_filters ss) \<and> (\<forall>s\<in>set ss. ps_filters s \<notin> snd ` set seen \<and> ps_filters s \<notin> set planned)"
proof (induction seen planned pos ss rule: check_distinct_loop.induct)
  case (2 seen planned pos s ss)
  show ?case
  proof (cases "find (\<lambda>(_, filters). filters = ps_filters s) seen")
    case None
    then have "ps_filters s \<notin> snd ` set seen" by (auto simp: find_None_iff)
    with None 2 [OF None] show ?thesis by (auto simp: image_iff)
  next
    case (Some x)
    then have "x \<in> set seen" "snd x = ps_filters s" by (auto simp: find_Some_iff) (metis nth_mem)
    then have "ps_filters s \<in> snd ` set seen" by force
    with Some show ?thesis by (auto split: prod.splits)
  qed
qed simp

lemma check_filters_Inr:
  assumes "set (spl_retain p) \<subseteq> set (bt_keys inst)" "set (bt_keys (spl_attribution p)) = set (spl_retain p)"
  shows "check_filters inst p = Inr () \<longleftrightarrow> (\<forall>s\<in>set (spl_open p). ps_filters s \<noteq> [])
     \<and> (\<forall>i\<in>set (spl_retain p). map_option as_filters (bt_get (spl_attribution p) i) = map_option is_filters (bt_get inst i))"
proof -
  have "(case bt_get inst i of None \<Rightarrow> Inl (UnknownInstalled i)
          | Some entry \<Rightarrow> (case bt_get (spl_attribution p) i of None \<Rightarrow> Inl AttributionMismatch
               | Some a \<Rightarrow> require (as_filters a = is_filters entry) (FilterAttributionMismatch i))) = Inr ()
    \<longleftrightarrow> map_option as_filters (bt_get (spl_attribution p) i) = map_option is_filters (bt_get inst i)"
    if "i \<in> set (spl_retain p)" for i
  proof -
    from that assms have "bt_get inst i \<noteq> None" "bt_get (spl_attribution p) i \<noteq> None"
      by (auto simp: bt_get_None_iff)
    then show ?thesis by auto
  qed
  then show ?thesis
    using check_open_filters_Inr [of 0 "spl_open p"]
    by (cases "check_open_filters 0 (spl_open p)") (auto simp: check_filters_def check_all_ok_iff)
qed

lemma check_demand_Inr:
  "check_demand demand p = Inr () \<longleftrightarrow> set (served_demand p) \<subseteq> demand_id_of ` set demand
     \<and> demand_id_of ` set demand \<subseteq> sf_demand ` set (spl_shortfalls p) \<union> set (served_demand p)
     \<and> sf_demand ` set (spl_shortfalls p) \<subseteq> demand_id_of ` set demand"
proof -
  have step: "(case x of Inl e \<Rightarrow> Inl e | Inr _ \<Rightarrow> y) = Inr () \<longleftrightarrow> x = Inr () \<and> y = Inr ()"
    for x y :: "plan_conformance_error + unit" by (cases x) auto
  show ?thesis
    by (simp add: check_demand_def Let_def step check_all_ok_iff) auto
qed

lemma check_running_Inr:
  "check_running_subscriptions demand inst p = Inr () \<longleftrightarrow>
     (\<forall>i entry. i \<in> set (spl_close p) \<longrightarrow> bt_get inst i = Some entry \<longrightarrow>
          set (is_serves entry) \<inter> demand_id_of ` set demand = {})"
proof -
  have "(case find (\<lambda>served. served \<in> R) xs of None \<Rightarrow> Inr () | Some r \<Rightarrow> Inl (RunningSubscriptionWithdrawn i r)) = Inr ()
      \<longleftrightarrow> set xs \<inter> R = {}" for R xs i
    using nth_mem by (fastforce simp: find_None_iff find_Some_iff split: option.splits)
  then show ?thesis
    by (simp add: check_running_subscriptions_def check_all_ok_iff Ball_def split: option.split) blast
qed

lemma check_distinct_Inr:
  "check_distinct_filters inst p = Inr () \<longleftrightarrow> distinct (map ps_filters (spl_open p))
     \<and> (\<forall>i entry s. i \<in> set (spl_retain p) \<longrightarrow> bt_get inst i = Some entry \<longrightarrow> s \<in> set (spl_open p) \<longrightarrow>
          ps_filters s \<noteq> is_filters entry)"
proof -
  have "snd ` set (List.map_filter (\<lambda>i. map_option (\<lambda>entry. (i, is_filters entry)) (bt_get inst i)) is) =
      {fs. \<exists>i\<in>set is. \<exists>entry. bt_get inst i = Some entry \<and> fs = is_filters entry}" for "is"
    by (induction "is") (auto simp: map_filter_simps split: option.splits)
  then show ?thesis
    by (auto simp: check_distinct_filters_def check_distinct_loop_Inr)
qed

text \<open>
  \<open>validate_plan\<close> accepts a plan exactly when it has the right relay, keeps or closes
  installed subscriptions only and each once, attributes exactly the kept ones with their
  installed filters, serves or reports every demand and no other, closes no subscription that
  still has an owner, opens no filters that are on the wire or twice, and opens no more than
  the declared maximum leaves room for.
\<close>

theorem validate_plan_iff: "validate_plan relay demand c inst p = Inr () \<longleftrightarrow> conforms relay demand c inst p"
proof (cases "check_buckets_loop inst [] (spl_retain p @ spl_close p)")
  case (Inl e)
  then have "\<not> (distinct (spl_retain p @ spl_close p) \<and> set (spl_retain p @ spl_close p) \<subseteq> set (bt_keys inst))"
    using check_buckets_loop_Inr [of inst "[]" "spl_retain p @ spl_close p"] by auto
  with Inl show ?thesis by (auto simp: validate_plan_def check_buckets_def conforms_def)
next
  case (Inr u)
  then have buckets: "distinct (spl_retain p @ spl_close p) \<and> set (spl_retain p @ spl_close p) \<subseteq> set (bt_keys inst)"
    using check_buckets_loop_Inr [of inst "[]" "spl_retain p @ spl_close p"] by simp
  have keys: "check_attribution_keys (bs_of_list (spl_retain p)) p = Inr () \<longleftrightarrow>
      set (bt_keys (spl_attribution p)) = set (spl_retain p)"
    unfolding check_attribution_keys_def require_Inr_iff
    using bs_eqI [of "bs_of_list (bt_keys (spl_attribution p))" "bs_of_list (spl_retain p)"]
    by (metis bs_wf_of_list set_bs_of_list)
  have limits: "check_declared_limits c p = Inr () \<longleftrightarrow> (\<forall>maximum. declared_get (rrc_max_subscriptions c) = Some maximum \<longrightarrow>
          length (spl_open p) \<le> maximum - length (spl_retain p))"
    by (simp add: check_declared_limits_def split: option.splits)
  show ?thesis
  proof (cases "set (bt_keys (spl_attribution p)) = set (spl_retain p)")
    case True
    with buckets have "set (spl_retain p) \<subseteq> set (bt_keys inst)" by auto
    from check_filters_Inr [OF this True] Inr buckets keys limits True show ?thesis
      unfolding validate_plan_def check_buckets_def conforms_def
      by (simp add: check_demand_Inr check_running_Inr check_distinct_Inr check_relay_def)
  next
    case False
    with Inr keys show ?thesis by (auto simp: validate_plan_def check_buckets_def conforms_def)
  qed
qed

subsection \<open>What containment means\<close>

lemma constrained_None [simp]: "constrained None = None" "constrained (Some []) = None"
  by (simp_all add: constrained_def)

lemma constrained_Some_iff: "constrained s = Some xs \<longleftrightarrow> s = Some xs \<and> xs \<noteq> []"
  by (auto simp: constrained_def split: option.splits list.splits)

lemma covers_set_refl: "covers_set s s"
  by (auto simp: covers_set_def split: option.splits)

lemma covers_set_trans: "covers_set a b \<Longrightarrow> covers_set b c \<Longrightarrow> covers_set a c"
  by (auto simp: covers_set_def split: option.splits)

lemma covers_window_trans: "covers_window a b \<Longrightarrow> covers_window b c \<Longrightarrow> covers_window a c"
  by (auto simp: covers_window_def split: option.splits)

lemma covers_tags_iff:
  "covers_tags wide narrow \<longleftrightarrow> (\<forall>name w. (name, w) \<in> set (fl_generic_tags wide) \<longrightarrow>
     (\<exists>n. bt_get (fl_generic_tags narrow) name = Some n \<and> set n \<subseteq> set w))"
  unfolding covers_tags_def by (simp add: split_beta Ball_def split: option.split) (metis not_None_eq option.inject)

lemma covers_tags_trans:
  assumes "covers_tags a b" "covers_tags b c"
  shows "covers_tags a c"
  unfolding covers_tags_iff
proof (intro allI impI)
  fix name w
  assume "(name, w) \<in> set (fl_generic_tags a)"
  with assms(1) obtain n where n: "bt_get (fl_generic_tags b) name = Some n" "set n \<subseteq> set w"
    unfolding covers_tags_iff by blast
  with assms(2) obtain m where "bt_get (fl_generic_tags c) name = Some m" "set m \<subseteq> set n"
    unfolding covers_tags_iff by (meson bt_get_SomeD)
  with n show "\<exists>n. bt_get (fl_generic_tags c) name = Some n \<and> set n \<subseteq> set w" by blast
qed

lemma filter_covers_refl [simp]: "filter_covers f f"
  by (simp add: filter_covers_def)

lemma filter_covers_trans:
  assumes "filter_covers a b" "filter_covers b c"
  shows "filter_covers a c"
proof (cases "a = b \<or> b = c")
  case True
  with assms show ?thesis by auto
next
  case False
  with assms show ?thesis
    by (auto simp: filter_covers_def coverage_remainder_matches_def split: if_splits
        intro: covers_set_trans covers_window_trans covers_tags_trans)
qed

lemma filter_covers_limited: "filter_covers a b \<Longrightarrow> fl_limit a \<noteq> None \<or> fl_limit b \<noteq> None \<Longrightarrow> a = b"
  by (auto simp: filter_covers_def split: if_splits)

text \<open>
  The documented behaviour of \<open>Filter::match_event\<close>: every axis has to admit the event, an
  absent or empty set of ids, authors or kinds admits every event, and a tag name admits an
  event that carries one of its values.
\<close>

definition set_admits :: "'a list option \<Rightarrow> 'a \<Rightarrow> bool" where
  "set_admits s x = (case constrained s of None \<Rightarrow> True | Some xs \<Rightarrow> x \<in> set xs)"

definition filter_admits ::
  "(event \<Rightarrow> single_letter_tag \<Rightarrow> string \<Rightarrow> bool) \<Rightarrow> (string option \<Rightarrow> event \<Rightarrow> bool) \<Rightarrow> filter \<Rightarrow> event \<Rightarrow> bool" where
  "filter_admits tagged found f e \<longleftrightarrow>
     set_admits (fl_ids f) (ev_id e) \<and> set_admits (fl_authors f) (ev_pubkey e) \<and> set_admits (fl_kinds f) (ev_kind e)
     \<and> (\<forall>t. fl_since f = Some t \<longrightarrow> t \<le> ev_created_at e) \<and> (\<forall>t. fl_until f = Some t \<longrightarrow> ev_created_at e \<le> t)
     \<and> (\<forall>(name, values)\<in>set (fl_generic_tags f). \<exists>v\<in>set values. tagged e name v) \<and> found (fl_search f) e"

definition match_law ::
  "nostr_lib \<Rightarrow> (event \<Rightarrow> single_letter_tag \<Rightarrow> string \<Rightarrow> bool) \<Rightarrow> (string option \<Rightarrow> event \<Rightarrow> bool) \<Rightarrow> bool" where
  "match_law N tagged found \<longleftrightarrow> (\<forall>f e. filter_match_event N f e = filter_admits tagged found f e)"

lemma covers_set_admits: "covers_set w n \<Longrightarrow> set_admits n x \<Longrightarrow> set_admits w x"
  by (auto simp: covers_set_def set_admits_def split: option.splits)

lemma covers_tags_admits:
  assumes "covers_tags w n" "\<forall>(name, values)\<in>set (fl_generic_tags n). \<exists>v\<in>set values. tagged e name v"
  shows "\<forall>(name, values)\<in>set (fl_generic_tags w). \<exists>v\<in>set values. tagged e name v"
proof (intro ballI, clarify)
  fix a b vs
  assume "((a, b), vs) \<in> set (fl_generic_tags w)"
  with assms(1) obtain ns where "bt_get (fl_generic_tags n) (a, b) = Some ns" "set ns \<subseteq> set vs"
    unfolding covers_tags_iff by blast
  with assms(2) bt_get_SomeD [of "fl_generic_tags n"] show "\<exists>v\<in>set vs. tagged e (a, b) v" by blast
qed

lemma covers_window_admits:
  assumes "covers_window w n" "\<forall>t. fl_since n = Some t \<longrightarrow> t \<le> x" "\<forall>t. fl_until n = Some t \<longrightarrow> x \<le> t"
  shows "(\<forall>t. fl_since w = Some t \<longrightarrow> t \<le> x) \<and> (\<forall>t. fl_until w = Some t \<longrightarrow> x \<le> t)"
  using assms by (auto simp: covers_window_def split: option.splits)

lemma filter_covers_admits:
  assumes "filter_covers w n" "filter_admits tagged found n e"
  shows "filter_admits tagged found w e"
proof (cases "w = n")
  case True
  with assms(2) show ?thesis by simp
next
  case False
  with assms(1) have cover: "covers_set (fl_ids w) (fl_ids n)" "covers_set (fl_authors w) (fl_authors n)"
    "covers_set (fl_kinds w) (fl_kinds n)" "covers_window w n" "covers_tags w n" "fl_search w = fl_search n"
    by (simp_all add: filter_covers_def coverage_remainder_matches_def split: if_splits)
  from assms(2) have n: "set_admits (fl_ids n) (ev_id e)" "set_admits (fl_authors n) (ev_pubkey e)"
    "set_admits (fl_kinds n) (ev_kind e)"
    "\<forall>t. fl_since n = Some t \<longrightarrow> t \<le> ev_created_at e" "\<forall>t. fl_until n = Some t \<longrightarrow> ev_created_at e \<le> t"
    "\<forall>(name, values)\<in>set (fl_generic_tags n). \<exists>v\<in>set values. tagged e name v" "found (fl_search n) e"
    by (simp_all add: filter_admits_def)
  show ?thesis
    unfolding filter_admits_def cover(6)
    using covers_window_admits [OF cover(4) n(4,5)]
    by (intro conjI covers_set_admits [OF cover(1) n(1)] covers_set_admits [OF cover(2) n(2)]
        covers_set_admits [OF cover(3) n(3)] covers_tags_admits [of w n tagged e, OF cover(5) n(6)] n(7)) blast+
qed

text \<open>
  A filter that covers another one is matched by every event the other one matches, so that a
  demand attached to a covering subscription misses nothing.
\<close>

theorem filter_covers_sound:
  assumes "match_law N tagged found" "filter_covers wide narrow" "filter_match_event N narrow e"
  shows "filter_match_event N wide e"
  using filter_covers_admits [OF assms(2)] assms(1,3) by (simp add: match_law_def)

subsection \<open>The planner interface\<close>

text \<open>
  What the engine relies on of a planner: its plans pass the conformance rules whenever the
  demand it refuses outright is not running, and every demand a plan claims to serve is
  covered by a filter of the subscription that serves it, given that this holds of what is
  already installed.
\<close>

definition baseline :: "relay_demand list \<Rightarrow> installed_subscriptions \<Rightarrow> bool" where
  "baseline demand inst \<longleftrightarrow> bt_wf inst \<and> (\<forall>i entry d. bt_get inst i = Some entry \<longrightarrow> d \<in> set demand \<longrightarrow>
     demand_id_of d \<in> set (is_serves entry) \<longrightarrow> (\<exists>f\<in>set (is_filters entry). filter_covers f (dm_filter d)))"

text \<open>The filters on the wire for a demand once the plan is executed.\<close>

definition serving_filters :: "subscription_plan \<Rightarrow> demand_id \<Rightarrow> filter set" where
  "serving_filters p i =
     {f. (\<exists>s\<in>set (spl_open p). i \<in> set (ps_serves s) \<and> f \<in> set (ps_filters s))
       \<or> (\<exists>k a. bt_get (spl_attribution p) k = Some a \<and> i \<in> set (as_serves a) \<and> f \<in> set (as_filters a))}"

definition over_limit :: "relay_read_constraints \<Rightarrow> relay_demand \<Rightarrow> bool" where
  "over_limit c d \<longleftrightarrow> (case (declared_get (rrc_max_filter_limit c), fl_limit (dm_filter d)) of
     (Some maximum, Some required) \<Rightarrow> required > maximum | _ \<Rightarrow> False)"

definition refusals_idle :: "relay_demand list \<Rightarrow> relay_read_constraints \<Rightarrow> installed_subscriptions \<Rightarrow> bool" where
  "refusals_idle demand c inst \<longleftrightarrow> (\<forall>d\<in>set demand. over_limit c d \<longrightarrow>
     (\<forall>i entry. bt_get inst i = Some entry \<longrightarrow> demand_id_of d \<notin> set (is_serves entry)))"

locale subscription_planner =
  fixes plan :: "relay_url \<Rightarrow> relay_demand list \<Rightarrow> relay_read_constraints \<Rightarrow> installed_subscriptions \<Rightarrow> plan_revision
      \<Rightarrow> subscription_plan_error + subscription_plan"
    and admissible :: "relay_demand list \<Rightarrow> bool"
  assumes conformance: "plan relay demand c inst revision = Inr p \<Longrightarrow> bt_wf inst \<Longrightarrow> refusals_idle demand c inst \<Longrightarrow>
      conforms relay demand c inst p"
    and coverage: "plan relay demand c inst revision = Inr p \<Longrightarrow> baseline demand inst \<Longrightarrow> admissible demand \<Longrightarrow>
      d \<in> set demand \<Longrightarrow> demand_id_of d \<in> set (served_demand p) \<Longrightarrow>
      \<exists>f\<in>serving_filters p (demand_id_of d). filter_covers f (dm_filter d)"
begin

lemma plan_validates:
  "plan relay demand c inst revision = Inr p \<Longrightarrow> bt_wf inst \<Longrightarrow> refusals_idle demand c inst \<Longrightarrow>
   validate_plan relay demand c inst p = Inr ()"
  by (simp add: validate_plan_iff conformance)

lemma demand_delivered:
  assumes "plan relay demand c inst revision = Inr p" "baseline demand inst" "refusals_idle demand c inst" "admissible demand"
    and "d \<in> set demand" "demand_id_of d \<notin> sf_demand ` set (spl_shortfalls p)"
    and "match_law N tagged found" "filter_match_event N (dm_filter d) e"
  shows "\<exists>f\<in>serving_filters p (demand_id_of d). filter_match_event N f e"
proof -
  from assms(2) have "bt_wf inst" by (simp add: baseline_def)
  from conformance [OF assms(1) this assms(3)] assms(5,6) have "demand_id_of d \<in> set (served_demand p)"
    by (auto simp: conforms_def)
  from coverage [OF assms(1,2,4,5) this] show ?thesis
    using filter_covers_sound [OF assms(7) _ assms(8)] by blast
qed

lemma running_kept:
  assumes "plan relay demand c inst revision = Inr p" "bt_wf inst" "refusals_idle demand c inst"
    and "bt_get inst i = Some entry" "d \<in> set demand" "demand_id_of d \<in> set (is_serves entry)"
  shows "i \<notin> set (spl_close p)"
  using conformance [OF assms(1-3)] assms(4-6) unfolding conforms_def by blast

end

end
