(* ===== verification/Subscription_Planning.thy ===== *)
theory Subscription_Planning
  imports Subscriptions
begin

section \<open>Steps the two planners share\<close>

text \<open>
  The steps that \<open>fava-subscriptions-standard\<close> and \<open>fava-subscriptions-no-grouping\<close> have in
  common (the sources repeat them): the refusal of duplicate demand, the declared filter
  limit, attaching demand to running subscriptions, the surviving owners and the assembly of
  the diff; with the lemma that an assembled plan conforms.
\<close>

fun refuse_duplicate_demand :: "demand_id btree_set \<Rightarrow> relay_demand list \<Rightarrow> subscription_plan_error + unit" where
  "refuse_duplicate_demand seen [] = Inr ()"
| "refuse_duplicate_demand seen (d # ds) =
     (if demand_id_of d \<in> set seen then Inl (DuplicateDemand (demand_id_of d))
      else refuse_duplicate_demand (bs_insert (demand_id_of d) seen) ds)"

fun admit_limits_loop :: "nat \<Rightarrow> relay_demand list \<Rightarrow> relay_demand list \<times> subscription_shortfall list" where
  "admit_limits_loop maximum [] = ([], [])"
| "admit_limits_loop maximum (d # ds) =
     (let (admissible, shortfalls) = admit_limits_loop maximum ds in
      case fl_limit (dm_filter d) of
        Some required \<Rightarrow>
          if required > maximum
          then (admissible, \<lparr>sf_demand = demand_id_of d, sf_reason = FilterLimitExceeded required maximum\<rparr> # shortfalls)
          else (d # admissible, shortfalls)
      | None \<Rightarrow> (d # admissible, shortfalls))"

definition admit_filter_limits ::
  "relay_demand list \<Rightarrow> relay_read_constraints \<Rightarrow> relay_demand list \<times> subscription_shortfall list" where
  "admit_filter_limits demand c =
     (case declared_get (rrc_max_filter_limit c) of
        None \<Rightarrow> (demand, [])
      | Some maximum \<Rightarrow> admit_limits_loop maximum demand)"

type_synonym attached_demand = "(subscription_id, demand_id btree_set) btree_map"

definition attach_to :: "subscription_id \<Rightarrow> demand_id list \<Rightarrow> attached_demand \<Rightarrow> attached_demand" where
  "attach_to i ds m = bt_insert i (fold bs_insert ds (case bt_get m i of Some s \<Rightarrow> s | None \<Rightarrow> [])) m"

text \<open>The loop that attaches demand with a running host and leaves the rest pending.\<close>

fun attach_loop ::
  "(relay_demand \<Rightarrow> subscription_id option) \<Rightarrow> relay_demand list \<Rightarrow> attached_demand \<times> relay_demand list
     \<Rightarrow> attached_demand \<times> relay_demand list" where
  "attach_loop host [] st = st"
| "attach_loop host (d # ds) (attached, pending) =
     attach_loop host ds (case host d of
       Some i \<Rightarrow> (attach_to i [demand_id_of d] attached, pending)
     | None \<Rightarrow> (attached, pending @ [d]))"

definition still_owners ::
  "demand_id btree_set \<Rightarrow> attached_demand \<Rightarrow> subscription_id \<Rightarrow> installed_subscription \<Rightarrow> demand_id btree_set" where
  "still_owners requested attached i entry =
     (let still = bs_of_list (List.filter (\<lambda>s. s \<in> set requested) (is_serves entry)) in
      case bt_get attached i of Some joined \<Rightarrow> fold bs_insert joined still | None \<Rightarrow> still)"

definition owner_step ::
  "demand_id btree_set \<Rightarrow> installed_subscriptions \<Rightarrow> attached_demand \<Rightarrow> subscription_id \<Rightarrow> attached_demand \<Rightarrow> attached_demand" where
  "owner_step requested inst attached i owners =
     (case bt_get inst i of
        None \<Rightarrow> owners
      | Some entry \<Rightarrow>
          let still = still_owners requested attached i entry in
          if still = [] then owners else bt_insert i still owners)"

definition surviving_owners ::
  "relay_demand list \<Rightarrow> installed_subscriptions \<Rightarrow> attached_demand \<Rightarrow> attached_demand" where
  "surviving_owners demand inst attached =
     fold (owner_step (bs_of_list (map demand_id_of demand)) inst attached) (bt_keys inst) []"

definition completeness :: "filter list \<Rightarrow> relay_read_constraints \<Rightarrow> eose_completeness" where
  "completeness filters c =
     (if \<exists>f\<in>set filters. fl_limit f \<noteq> None then LimitedRequest
      else if declared_get (rrc_default_filter_limit c) \<noteq> None then RelayDefaultLimit else Proven)"

definition withdrawals :: "installed_subscriptions \<Rightarrow> attached_demand \<Rightarrow> subscription_id list" where
  "withdrawals inst owners = List.filter (\<lambda>i. bt_get owners i = None) (bt_keys inst)"

definition retained_entries ::
  "relay_read_constraints \<Rightarrow> installed_subscriptions \<Rightarrow> attached_demand \<Rightarrow> (subscription_id \<times> attributed_subscription) list" where
  "retained_entries c inst owners =
     List.map_filter (\<lambda>(i, serves). map_option (\<lambda>entry.
       (i, \<lparr>as_filters = is_filters entry, as_serves = serves, as_completeness = completeness (is_filters entry) c\<rparr>))
       (bt_get inst i)) owners"

definition assemble ::
  "relay_url \<Rightarrow> plan_revision \<Rightarrow> planned_subscription list \<Rightarrow> relay_read_constraints \<Rightarrow> installed_subscriptions
     \<Rightarrow> attached_demand \<Rightarrow> subscription_shortfall list \<Rightarrow> subscription_plan" where
  "assemble relay revision opened c inst owners shortfalls =
     (let entries = retained_entries c inst owners in
      \<lparr>spl_relay = relay, spl_revision = revision, spl_open = opened, spl_retain = sort (map fst entries),
       spl_close = withdrawals inst owners, spl_attribution = attribution_from_entries entries,
       spl_shortfalls = shortfalls\<rparr>)"

subsection \<open>Lemmas\<close>

lemma set_map_filter: "set (List.map_filter f xs) = {y. \<exists>x\<in>set xs. f x = Some y}"
  by (induction xs) (auto simp: map_filter_simps split: option.splits)

lemma refuse_duplicate_demand_Inr:
  "refuse_duplicate_demand seen ds = Inr u \<longleftrightarrow> distinct (map demand_id_of ds) \<and> set (map demand_id_of ds) \<inter> set seen = {}"
  by (induction seen ds rule: refuse_duplicate_demand.induct) auto

lemma admit_limits_loop_spec:
  "admit_limits_loop maximum ds = (adm, sf) \<Longrightarrow>
     adm = List.filter (\<lambda>d. \<not> (\<exists>r. fl_limit (dm_filter d) = Some r \<and> r > maximum)) ds
     \<and> map sf_demand sf = map demand_id_of (List.filter (\<lambda>d. \<exists>r. fl_limit (dm_filter d) = Some r \<and> r > maximum) ds)"
  by (induction maximum ds arbitrary: adm sf rule: admit_limits_loop.induct)
    (auto split: prod.splits option.splits if_splits)

lemma admit_filter_limits_spec:
  assumes "admit_filter_limits demand c = (adm, sf)"
  shows "adm = List.filter (\<lambda>d. \<not> over_limit c d) demand"
    "map sf_demand sf = map demand_id_of (List.filter (over_limit c) demand)"
proof -
  have "adm = List.filter (\<lambda>d. \<not> over_limit c d) demand
    \<and> map sf_demand sf = map demand_id_of (List.filter (over_limit c) demand)"
  proof (cases "declared_get (rrc_max_filter_limit c)")
    case None
    with assms show ?thesis by (auto simp: admit_filter_limits_def over_limit_def)
  next
    case (Some maximum)
    then have "over_limit c d \<longleftrightarrow> (\<exists>r. fl_limit (dm_filter d) = Some r \<and> r > maximum)" for d
      by (simp add: over_limit_def split: option.splits)
    then have "over_limit c = (\<lambda>d. \<exists>r. fl_limit (dm_filter d) = Some r \<and> r > maximum)" by (rule ext)
    with Some assms admit_limits_loop_spec [of maximum demand adm sf] show ?thesis
      by (simp add: admit_filter_limits_def)
  qed
  then show "adm = List.filter (\<lambda>d. \<not> over_limit c d) demand"
    "map sf_demand sf = map demand_id_of (List.filter (over_limit c) demand)" by simp_all
qed

text \<open>Which demand a running subscription gained.\<close>

definition attached_of :: "attached_demand \<Rightarrow> subscription_id \<Rightarrow> demand_id set" where
  "attached_of m i = (case bt_get m i of Some s \<Rightarrow> set s | None \<Rightarrow> {})"

lemma attached_of_attach_to: "attached_of (attach_to i ds m) j = (if j = i then attached_of m i \<union> set ds else attached_of m j)"
  by (auto simp: attached_of_def attach_to_def bs_fold_insert split: option.splits)

lemma attached_of_Nil [simp]: "attached_of [] i = {}"
  by (simp add: attached_of_def)

lemma attach_loop_spec:
  "attach_loop host ds (m0, p0) = (m, p) \<Longrightarrow>
     p = p0 @ List.filter (\<lambda>d. host d = None) ds
     \<and> (\<forall>i. attached_of m i = attached_of m0 i \<union> demand_id_of ` {d\<in>set ds. host d = Some i})"
proof (induction ds arbitrary: m0 p0)
  case (Cons d ds)
  show ?case
  proof (cases "host d")
    case None
    with Cons.prems have "attach_loop host ds (m0, p0 @ [d]) = (m, p)" by simp
    from Cons.IH [OF this] None show ?thesis by auto
  next
    case (Some i)
    with Cons.prems have "attach_loop host ds (attach_to i [demand_id_of d] m0, p0) = (m, p)" by simp
    from Cons.IH [OF this] Some show ?thesis by (auto simp: attached_of_attach_to)
  qed
qed auto

lemma set_still_owners:
  "set (still_owners requested attached i entry) = set (is_serves entry) \<inter> set requested \<union> attached_of attached i"
  by (auto simp: still_owners_def Let_def bs_fold_insert attached_of_def split: option.splits)

definition still_owned ::
  "relay_demand list \<Rightarrow> installed_subscriptions \<Rightarrow> attached_demand \<Rightarrow> subscription_id \<Rightarrow> demand_id set" where
  "still_owned demand inst attached i =
     (case bt_get inst i of
        None \<Rightarrow> {}
      | Some entry \<Rightarrow> set (is_serves entry) \<inter> demand_id_of ` set demand \<union> attached_of attached i)"

lemma owner_step_get:
  fixes demand inst attached
  defines "S \<equiv> still_owned demand inst attached"
  defines "step \<equiv> owner_step (bs_of_list (map demand_id_of demand)) inst attached"
  shows "attached_of (step j m) k = (if k = j \<and> S j \<noteq> {} then S j else attached_of m k)"
    "bt_get (step j m) k = None \<longleftrightarrow> \<not> (k = j \<and> S j \<noteq> {}) \<and> bt_get m k = None"
    "bt_wf m \<Longrightarrow> bt_wf (step j m)"
proof -
  let ?still = "still_owners (bs_of_list (map demand_id_of demand)) attached j"
  have "?still entry = [] \<longleftrightarrow> set (?still entry) = {}" for entry by simp
  note still = set_still_owners [of "bs_of_list (map demand_id_of demand)" attached j, simplified] this
  have empty: "?still entry = [] \<longleftrightarrow> S j = {}" "set (?still entry) = S j" if "bt_get inst j = Some entry" for entry
    using that still [of entry] by (simp_all add: S_def still_owned_def)
  have none: "S j = {}" if "bt_get inst j = None"
    using that by (simp add: S_def still_owned_def)
  show "attached_of (step j m) k = (if k = j \<and> S j \<noteq> {} then S j else attached_of m k)"
    "bt_get (step j m) k = None \<longleftrightarrow> \<not> (k = j \<and> S j \<noteq> {}) \<and> bt_get m k = None"
    unfolding step_def owner_step_def Let_def
    using empty none by (auto simp: attached_of_def split: option.split)
  show "bt_wf m \<Longrightarrow> bt_wf (step j m)"
    unfolding step_def owner_step_def Let_def by (auto simp: bt_wf_insert split: option.split)
qed

lemma surviving_owners_spec:
  "attached_of (surviving_owners demand inst attached) i = still_owned demand inst attached i"
  "bt_get (surviving_owners demand inst attached) i = None \<longleftrightarrow> still_owned demand inst attached i = {}"
  "bt_wf (surviving_owners demand inst attached)"
proof -
  let ?S = "still_owned demand inst attached"
  let ?step = "owner_step (bs_of_list (map demand_id_of demand)) inst attached"
  have "attached_of (fold ?step ks m) i = (if i \<in> set ks \<and> ?S i \<noteq> {} then ?S i else attached_of m i)
      \<and> (bt_get (fold ?step ks m) i = None \<longleftrightarrow> \<not> (i \<in> set ks \<and> ?S i \<noteq> {}) \<and> bt_get m i = None)
      \<and> (bt_wf m \<longrightarrow> bt_wf (fold ?step ks m))" for ks m
    by (induction ks arbitrary: m) (simp_all add: owner_step_get, blast)
  from this [of "bt_keys inst" "[]"] have "attached_of (surviving_owners demand inst attached) i =
      (if i \<in> set (bt_keys inst) \<and> ?S i \<noteq> {} then ?S i else {})"
    "bt_get (surviving_owners demand inst attached) i = None \<longleftrightarrow> \<not> (i \<in> set (bt_keys inst) \<and> ?S i \<noteq> {})"
    "bt_wf (surviving_owners demand inst attached)"
    by (simp_all add: surviving_owners_def)
  moreover have "?S i = {}" if "i \<notin> set (bt_keys inst)"
    using that by (simp add: still_owned_def bt_get_None_iff [symmetric])
  ultimately show "attached_of (surviving_owners demand inst attached) i = ?S i"
    "bt_get (surviving_owners demand inst attached) i = None \<longleftrightarrow> ?S i = {}"
    "bt_wf (surviving_owners demand inst attached)" by auto
qed

text \<open>Who owns a kept subscription, when only admissible demand was attached to running ones.\<close>

lemma surviving_owners_facts:
  assumes "owners = surviving_owners adm inst attached"
    and "\<forall>i. attached_of attached i \<subseteq> demand_id_of ` set adm"
    and "\<forall>i. attached_of attached i \<noteq> {} \<longrightarrow> bt_get inst i \<noteq> None"
  shows "(\<Union>i. attached_of owners i) \<subseteq> demand_id_of ` set adm"
    "attached_of attached i \<subseteq> attached_of owners i"
    "\<forall>i. bt_get owners i \<noteq> None \<longrightarrow> bt_get inst i \<noteq> None"
    "\<forall>i entry. bt_get owners i = None \<longrightarrow> bt_get inst i = Some entry \<longrightarrow> set (is_serves entry) \<inter> demand_id_of ` set adm = {}"
    "bt_wf owners"
proof -
  note spec = surviving_owners_spec [of adm inst attached]
  have owned: "attached_of owners i = still_owned adm inst attached i" for i
    by (simp add: assms(1) spec)
  show "(\<Union>i. attached_of owners i) \<subseteq> demand_id_of ` set adm"
    unfolding owned using assms(2) by (fastforce simp: still_owned_def split: option.splits)
  show "attached_of attached i \<subseteq> attached_of owners i"
    unfolding owned using assms(3) by (fastforce simp: still_owned_def split: option.splits)
  show "\<forall>i. bt_get owners i \<noteq> None \<longrightarrow> bt_get inst i \<noteq> None"
    by (auto simp: assms(1) spec still_owned_def split: option.splits)
  show "\<forall>i entry. bt_get owners i = None \<longrightarrow> bt_get inst i = Some entry \<longrightarrow> set (is_serves entry) \<inter> demand_id_of ` set adm = {}"
    by (auto simp: assms(1) spec still_owned_def split: option.splits)
  show "bt_wf owners" by (simp add: assms(1) spec)
qed

subsection \<open>An assembled plan\<close>

lemma bt_get_from_entries:
  "distinct (map fst es) \<Longrightarrow> bt_get (fold (\<lambda>(k, v). bt_insert k v) es m) k =
     (case map_of es k of Some v \<Rightarrow> Some v | None \<Rightarrow> bt_get m k)"
proof (induction es arbitrary: m)
  case (Cons e es)
  obtain a b where e: "e = (a, b)" by (cases e)
  with Cons.prems have "map_of es a = None" by (simp add: map_of_eq_None_iff)
  with Cons e show ?case by (auto split: option.splits)
qed simp

lemma retained_entries_map:
  assumes "\<forall>i. bt_get owners i \<noteq> None \<longrightarrow> bt_get inst i \<noteq> None" "distinct (map fst owners)"
  shows "map fst (retained_entries c inst owners) = map fst owners"
    "map_of (retained_entries c inst owners) i = Option.bind (bt_get owners i) (\<lambda>serves. map_option (\<lambda>entry.
       \<lparr>as_filters = is_filters entry, as_serves = serves, as_completeness = completeness (is_filters entry) c\<rparr>) (bt_get inst i))"
proof -
  have "map fst (retained_entries c inst os) = map fst os \<and> map_of (retained_entries c inst os) i =
      Option.bind (map_of os i) (\<lambda>serves. map_option (\<lambda>entry.
       \<lparr>as_filters = is_filters entry, as_serves = serves, as_completeness = completeness (is_filters entry) c\<rparr>) (bt_get inst i))"
    if "\<forall>i\<in>fst ` set os. bt_get inst i \<noteq> None" for os
    using that
  proof (induction os)
    case (Cons p os)
    obtain k s where "p = (k, s)" by (cases p)
    with Cons show ?case by (auto simp: retained_entries_def map_filter_simps split: option.splits)
  qed (simp add: retained_entries_def map_filter_simps)
  moreover have "\<forall>i\<in>fst ` set owners. bt_get inst i \<noteq> None"
    using assms(1) by (auto simp: bt_get_None_iff bt_keys_def)
  ultimately show "map fst (retained_entries c inst owners) = map fst owners"
    "map_of (retained_entries c inst owners) i = Option.bind (bt_get owners i) (\<lambda>serves. map_option (\<lambda>entry.
       \<lparr>as_filters = is_filters entry, as_serves = serves, as_completeness = completeness (is_filters entry) c\<rparr>) (bt_get inst i))"
    by (auto simp: bt_get_def)
qed

lemma assemble_attribution:
  assumes "\<forall>i. bt_get owners i \<noteq> None \<longrightarrow> bt_get inst i \<noteq> None" "bt_wf owners"
  shows "bt_get (spl_attribution (assemble relay rv opened c inst owners sf)) i = Option.bind (bt_get owners i)
      (\<lambda>serves. map_option (\<lambda>entry.
       \<lparr>as_filters = is_filters entry, as_serves = serves, as_completeness = completeness (is_filters entry) c\<rparr>) (bt_get inst i))"
  using retained_entries_map [OF assms(1) bt_wf_distinct [OF assms(2)], of c] bt_wf_distinct [OF assms(2)]
  by (simp add: assemble_def Let_def attribution_from_entries_def bt_get_from_entries split: option.split)

lemma assemble_retain:
  assumes "\<forall>i. bt_get owners i \<noteq> None \<longrightarrow> bt_get inst i \<noteq> None" "bt_wf owners"
  shows "set (spl_retain (assemble relay rv opened c inst owners sf)) = set (bt_keys owners)"
    "distinct (spl_retain (assemble relay rv opened c inst owners sf))"
    "length (spl_retain (assemble relay rv opened c inst owners sf)) = length owners"
  using retained_entries_map(1) [OF assms(1) bt_wf_distinct [OF assms(2)], of c] bt_wf_distinct [OF assms(2)]
  by (simp_all add: assemble_def Let_def bt_keys_def)

lemma assemble_served:
  assumes "\<forall>i. bt_get owners i \<noteq> None \<longrightarrow> bt_get inst i \<noteq> None" "bt_wf owners"
  shows "set (served_demand (assemble relay rv opened c inst owners sf)) =
     (\<Union>i. attached_of owners i) \<union> (\<Union>s\<in>set opened. set (ps_serves s))"
proof -
  let ?p = "assemble relay rv opened c inst owners sf"
  have serves: "set (attribution_serves (spl_attribution ?p) i) = attached_of owners i" for i
    using assms(1) by (auto simp: attribution_serves_def assemble_attribution [OF assms] attached_of_def split: option.splits)
  have "attached_of owners i = {}" if "i \<notin> set (bt_keys (spl_attribution ?p))" for i
    using that serves [of i] by (simp add: bt_get_None_iff [symmetric] attribution_serves_def)
  then have "(\<Union>i. attached_of owners i) = (\<Union>i\<in>set (bt_keys (spl_attribution ?p)). attached_of owners i)" by blast
  then show ?thesis
    unfolding served_demand_def by (simp add: serves) (simp add: assemble_def Let_def)
qed

lemma assemble_conforms:
  assumes "bt_wf inst" "bt_wf owners" "\<forall>i. bt_get owners i \<noteq> None \<longrightarrow> bt_get inst i \<noteq> None"
    and "\<forall>s\<in>set opened. ps_filters s \<noteq> []" "distinct (map ps_filters opened)"
    and "\<forall>i entry s. bt_get inst i = Some entry \<longrightarrow> s \<in> set opened \<longrightarrow> ps_filters s \<noteq> is_filters entry"
    and "(\<Union>i. attached_of owners i) \<union> (\<Union>s\<in>set opened. set (ps_serves s)) \<subseteq> demand_id_of ` set demand"
    and "sf_demand ` set sf \<subseteq> demand_id_of ` set demand"
    and "demand_id_of ` set demand \<subseteq> sf_demand ` set sf \<union> (\<Union>i. attached_of owners i) \<union> (\<Union>s\<in>set opened. set (ps_serves s))"
    and "\<forall>i entry. bt_get owners i = None \<longrightarrow> bt_get inst i = Some entry \<longrightarrow>
       set (is_serves entry) \<inter> demand_id_of ` set demand = {}"
    and "\<forall>maximum. declared_get (rrc_max_subscriptions c) = Some maximum \<longrightarrow> length opened \<le> maximum - length owners"
  shows "conforms relay demand c inst (assemble relay rv opened c inst owners sf)"
proof -
  let ?p = "assemble relay rv opened c inst owners sf"
  note attr = assemble_attribution [OF assms(3,2), of relay rv opened c sf]
  note retain = assemble_retain [OF assms(3,2), of relay rv opened c sf]
  note served = assemble_served [OF assms(3,2), of relay rv opened c sf]
  have close: "spl_close ?p = withdrawals inst owners" and open_: "spl_open ?p = opened"
    and short: "spl_shortfalls ?p = sf" and rel: "spl_relay ?p = relay"
    by (simp_all add: assemble_def Let_def)
  have set_close: "set (withdrawals inst owners) = {i \<in> set (bt_keys inst). bt_get owners i = None}"
    by (simp add: withdrawals_def)
  have dist: "distinct (spl_retain ?p @ spl_close ?p)"
    using bt_wf_distinct [OF assms(1)] retain(1,2) set_close
    by (auto simp: close withdrawals_def bt_keys_def bt_get_None_iff)
  have sub: "set (spl_retain ?p @ spl_close ?p) \<subseteq> set (bt_keys inst)"
    using assms(3) by (auto simp: close retain(1) set_close bt_get_None_iff)
  have keys: "set (bt_keys (spl_attribution ?p)) = set (spl_retain ?p)"
    using assms(3) by (auto simp: retain(1) set_bt_keys attr bind_eq_Some_conv)
  have same: "\<forall>i\<in>set (spl_retain ?p). map_option as_filters (bt_get (spl_attribution ?p) i) = map_option is_filters (bt_get inst i)"
    using assms(3) by (auto simp: retain(1) set_bt_keys attr)
  have idle: "\<forall>i entry. i \<in> set (spl_close ?p) \<longrightarrow> bt_get inst i = Some entry \<longrightarrow>
      set (is_serves entry) \<inter> demand_id_of ` set demand = {}"
    using assms(10) unfolding close set_close by blast
  show ?thesis
    unfolding conforms_def
    using assms(4-6,11) by (intro conjI dist sub keys same idle) (use assms(7-9) in \<open>simp_all add: open_ short rel served retain(3) Un_assoc\<close>)
qed

subsection \<open>From the steps to the planner laws\<close>

text \<open>What the steps before the assembly leave, whichever planner ran them.\<close>

definition opened_ok :: "installed_subscriptions \<Rightarrow> planned_subscription list \<Rightarrow> bool" where
  "opened_ok inst opened \<longleftrightarrow> (\<forall>s\<in>set opened. ps_filters s \<noteq> []) \<and> distinct (map ps_filters opened)
     \<and> (\<forall>i entry s. bt_get inst i = Some entry \<longrightarrow> s \<in> set opened \<longrightarrow> ps_filters s \<noteq> is_filters entry)"

definition served_by :: "planned_subscription list \<Rightarrow> demand_id set" where
  "served_by ss = (\<Union>s\<in>set ss. set (ps_serves s))"

definition attached_ok :: "relay_demand list \<Rightarrow> installed_subscriptions \<Rightarrow> attached_demand \<Rightarrow> bool" where
  "attached_ok adm inst attached \<longleftrightarrow> (\<forall>i. attached_of attached i \<subseteq> demand_id_of ` set adm)
     \<and> (\<forall>i. attached_of attached i \<noteq> {} \<longrightarrow> bt_get inst i \<noteq> None)"

lemmas owners_facts = surviving_owners_facts [OF refl conjunct1 conjunct2, OF attached_ok_def [THEN iffD1] attached_ok_def [THEN iffD1]]

lemma distinct_demand: "distinct (map demand_id_of demand) \<Longrightarrow> x \<in> set demand \<Longrightarrow> y \<in> set demand \<Longrightarrow>
    demand_id_of x = demand_id_of y \<Longrightarrow> x = y"
  by (simp add: distinct_map inj_on_def)

lemma account_union: "A \<union> P = M \<Longrightarrow> R \<union> M = D \<Longrightarrow> F0 = R \<Longrightarrow> C \<union> F = F0 \<union> P \<Longrightarrow> F \<union> C \<union> A = D"
  by blast

lemma assembled_conforms:
  assumes "bt_wf inst" "refusals_idle demand c inst" "attached_ok adm inst attached" "opened_ok inst opened"
    and adm: "adm = List.filter (\<lambda>d. \<not> over_limit c d) demand"
    and owners: "owners = surviving_owners adm inst attached"
    and account: "sf_demand ` set sf \<union> served_by opened \<union> (\<Union>i. attached_of attached i) = demand_id_of ` set demand"
    and limit: "\<forall>maximum. declared_get (rrc_max_subscriptions c) = Some maximum \<longrightarrow> length opened \<le> maximum - length owners"
  shows "conforms relay demand c inst (assemble relay rv opened c inst owners sf)"
proof -
  note facts = owners_facts [OF assms(3,3), folded owners]
  have sub: "demand_id_of ` set adm \<subseteq> demand_id_of ` set demand" by (auto simp: adm)
  have idle: "\<forall>i entry. bt_get owners i = None \<longrightarrow> bt_get inst i = Some entry \<longrightarrow>
      set (is_serves entry) \<inter> demand_id_of ` set demand = {}"
  proof (intro allI impI)
    fix i entry
    assume e: "bt_get owners i = None" "bt_get inst i = Some entry"
    then have "set (is_serves entry) \<inter> demand_id_of ` set adm = {}" using facts(4) by blast
    then have "demand_id_of d \<notin> set (is_serves entry)" if "d \<in> set demand" for d
      using assms(2) e(2) that unfolding refusals_idle_def adm by (cases "over_limit c d") auto
    then show "set (is_serves entry) \<inter> demand_id_of ` set demand = {}" by blast
  qed
  have "(\<Union>i. attached_of attached i) \<subseteq> (\<Union>i. attached_of owners i)" by (rule UN_mono) (simp_all add: facts(2))
  then have acc: "demand_id_of ` set demand \<subseteq> sf_demand ` set sf \<union> (\<Union>i. attached_of owners i) \<union> (\<Union>s\<in>set opened. set (ps_serves s))"
    unfolding account [symmetric] served_by_def by (auto simp only:)
  have parts: "sf_demand ` set sf \<subseteq> demand_id_of ` set demand" "served_by opened \<subseteq> demand_id_of ` set demand"
    unfolding account [symmetric] by (auto simp only:)
  have srv: "(\<Union>i. attached_of owners i) \<union> (\<Union>s\<in>set opened. set (ps_serves s)) \<subseteq> demand_id_of ` set demand"
    by (rule Un_least [OF subset_trans [OF facts(1) sub] parts(2) [unfolded served_by_def]])
  note ok = assms(4) [unfolded opened_ok_def]
  show ?thesis
    by (rule assemble_conforms [OF assms(1) facts(5,3) conjunct1 [OF ok] conjunct1 [OF conjunct2 [OF ok]]
        conjunct2 [OF conjunct2 [OF ok]] srv parts(1) acc idle limit])
qed

lemma assembled_coverage:
  assumes "baseline demand inst" "attached_ok adm inst attached" "set adm \<subseteq> set demand"
    and owners: "owners = surviving_owners adm inst attached"
    and joined: "\<forall>i d entry. d \<in> set demand \<longrightarrow> demand_id_of d \<in> attached_of attached i \<longrightarrow> bt_get inst i = Some entry \<longrightarrow>
      (\<exists>f\<in>set (is_filters entry). filter_covers f (dm_filter d))"
    and fresh: "\<forall>s\<in>set opened. \<forall>d\<in>set demand. demand_id_of d \<in> set (ps_serves s) \<longrightarrow>
      (\<exists>f\<in>set (ps_filters s). filter_covers f (dm_filter d))"
    and d: "d \<in> set demand" "demand_id_of d \<in> set (served_demand (assemble relay rv opened c inst owners sf))"
  shows "\<exists>f\<in>serving_filters (assemble relay rv opened c inst owners sf) (demand_id_of d). filter_covers f (dm_filter d)"
proof -
  let ?p = "assemble relay rv opened c inst owners sf"
  note facts = owners_facts [OF assms(2,2), folded owners]
  have open_: "spl_open ?p = opened" by (simp add: assemble_def Let_def)
  from d(2) consider (kept) i where "demand_id_of d \<in> attached_of owners i"
    | (opened) s where "s \<in> set opened" "demand_id_of d \<in> set (ps_serves s)"
    unfolding assemble_served [OF facts(3,5)] by blast
  then show ?thesis
  proof cases
    case kept
    then obtain serves entry where e: "bt_get owners i = Some serves" "demand_id_of d \<in> set serves" "bt_get inst i = Some entry"
      using facts(3) by (fastforce simp: attached_of_def split: option.splits)
    from kept e(3) have "demand_id_of d \<in> set (is_serves entry) \<or> demand_id_of d \<in> attached_of attached i"
      by (auto simp: owners surviving_owners_spec still_owned_def)
    then obtain f where f: "f \<in> set (is_filters entry)" "filter_covers f (dm_filter d)"
      using assms(1) joined d(1) e(3) unfolding baseline_def by metis
    moreover from e have "bt_get (spl_attribution ?p) i =
        Some \<lparr>as_filters = is_filters entry, as_serves = serves, as_completeness = completeness (is_filters entry) c\<rparr>"
      by (simp add: assemble_attribution [OF facts(3,5)])
    with e f have "f \<in> serving_filters ?p (demand_id_of d)"
      unfolding serving_filters_def by fastforce
    with f(2) show ?thesis by blast
  next
    case opened
    with fresh d(1) obtain f where "f \<in> set (ps_filters s)" "filter_covers f (dm_filter d)" by blast
    moreover from this opened have "f \<in> serving_filters ?p (demand_id_of d)"
      unfolding serving_filters_def open_ by blast
    ultimately show ?thesis by blast
  qed
qed

end
