(* ===== verification/Subscription_Grouping.thy ===== *)
theory Subscription_Grouping
  imports Subscription_Planning "HOL-Library.Multiset"
begin

section \<open>Merging compatible unsent demand (\<open>fava-subscriptions-standard/src/grouping.rs\<close>)\<close>

text \<open>
  The grouping of the standard planner: canonical order, buckets of identical filters, the
  merge of candidates that differ on one axis to a fixed point, and the fold of identical
  unions. Shown: grouping neither loses nor invents demand, a merged filter covers both
  operands, so that the filter of a candidate covers every member; the merging terminates in
  a state with no mergeable pair; and the result does not depend on the order of the demand.
\<close>

type_synonym wire_candidate = "filter \<times> relay_demand list"

subsection \<open>Union on the sole differing axis\<close>

definition remainder_matches :: "filter \<Rightarrow> filter \<Rightarrow> bool" where
  "remainder_matches left right \<longleftrightarrow>
     fl_search left = fl_search right \<and> fl_since left = fl_since right \<and> fl_until left = fl_until right"

definition union_constrained :: "'a::linorder btree_set option \<Rightarrow> 'a btree_set option \<Rightarrow> 'a btree_set option" where
  "union_constrained left right =
     Option.bind (constrained left) (\<lambda>l. Option.bind (constrained right) (\<lambda>r. Some (bs_of_list (l @ r))))"

definition union_ids :: "filter \<Rightarrow> filter \<Rightarrow> filter option" where
  "union_ids left right =
     map_option (\<lambda>values. left\<lparr>fl_ids := Some values\<rparr>) (union_constrained (fl_ids left) (fl_ids right))"

definition union_authors :: "filter \<Rightarrow> filter \<Rightarrow> filter option" where
  "union_authors left right =
     map_option (\<lambda>values. left\<lparr>fl_authors := Some values\<rparr>) (union_constrained (fl_authors left) (fl_authors right))"

definition union_kinds :: "filter \<Rightarrow> filter \<Rightarrow> filter option" where
  "union_kinds left right =
     map_option (\<lambda>values. left\<lparr>fl_kinds := Some values\<rparr>) (union_constrained (fl_kinds left) (fl_kinds right))"

definition union_tag :: "filter \<Rightarrow> filter \<Rightarrow> single_letter_tag \<Rightarrow> filter option" where
  "union_tag left right name =
     Option.bind (bt_get (fl_generic_tags left) name) (\<lambda>l.
     Option.bind (bt_get (fl_generic_tags right) name) (\<lambda>r.
       Some (left\<lparr>fl_generic_tags := bt_insert name (bs_of_list (l @ r)) (fl_generic_tags left)\<rparr>)))"

definition differing_tags :: "filter \<Rightarrow> filter \<Rightarrow> single_letter_tag list" where
  "differing_tags left right =
     map fst (List.filter (\<lambda>(name, values). bt_get (fl_generic_tags right) name \<noteq> Some values) (fl_generic_tags left))"

definition merge_on_sole_differing_axis :: "filter \<Rightarrow> filter \<Rightarrow> filter option" where
  "merge_on_sole_differing_axis left right =
     (if fl_limit left \<noteq> None \<or> fl_limit right \<noteq> None then None
      else if \<not> remainder_matches left right then None
      else if bt_keys (fl_generic_tags left) \<noteq> bt_keys (fl_generic_tags right) then None
      else
        let tags = differing_tags left right;
            differing = of_bool (fl_ids left \<noteq> fl_ids right) + of_bool (fl_authors left \<noteq> fl_authors right)
              + of_bool (fl_kinds left \<noteq> fl_kinds right) + length tags in
        if differing \<noteq> 1 then None
        else if fl_ids left \<noteq> fl_ids right then union_ids left right
        else if fl_authors left \<noteq> fl_authors right then union_authors left right
        else if fl_kinds left \<noteq> fl_kinds right then union_kinds left right
        else (case tags of [] \<Rightarrow> None | name # _ \<Rightarrow> union_tag left right name))"

subsection \<open>Candidates\<close>

definition canonical_order :: "wire_lib \<Rightarrow> relay_demand list \<Rightarrow> relay_demand list" where
  "canonical_order W demand =
     map snd (sort_by (\<lambda>l r. fst l < fst r \<or> fst l = fst r \<and> demand_id_of (snd l) \<le> demand_id_of (snd r))
       (map (\<lambda>d. (wl_filter_encoding W (dm_filter d), d)) demand))"

definition uniform_bounds :: "relay_demand list \<Rightarrow> query_bounds option" where
  "uniform_bounds members =
     (case members of
        [] \<Rightarrow> None
      | d # _ \<Rightarrow> if \<forall>x\<in>set members. dm_bounds x = dm_bounds d then Some (dm_bounds d) else None)"

definition bucket_step ::
  "wire_lib \<Rightarrow> relay_demand \<Rightarrow> string list \<times> (string, wire_candidate) btree_map \<Rightarrow> string list \<times> (string, wire_candidate) btree_map" where
  "bucket_step W d st =
     (let (order, buckets) = st; key = wl_filter_encoding W (dm_filter d) in
      case bt_get buckets key of
        Some (f, members) \<Rightarrow> (order, bt_insert key (f, members @ [d]) buckets)
      | None \<Rightarrow> (order @ [key], bt_insert key (dm_filter d, [d]) buckets))"

fun drain_buckets :: "string list \<Rightarrow> (string, wire_candidate) btree_map \<Rightarrow> wire_candidate list" where
  "drain_buckets [] buckets = []"
| "drain_buckets (key # order) buckets =
     (case bt_get buckets key of
        Some c \<Rightarrow> c # drain_buckets order (bt_remove key buckets)
      | None \<Rightarrow> drain_buckets order buckets)"

definition bucket_by_filter :: "wire_lib \<Rightarrow> relay_demand list \<Rightarrow> wire_candidate list" where
  "bucket_by_filter W demand = (let (order, buckets) = fold (bucket_step W) demand ([], []) in drain_buckets order buckets)"

fun extend_seen :: "wire_candidate \<Rightarrow> wire_candidate list \<Rightarrow> wire_candidate list" where
  "extend_seen c [] = [c]"
| "extend_seen c (s # ss) = (if fst s = fst c then (fst s, snd s @ snd c) # ss else s # extend_seen c ss)"

definition fold_identical_unions :: "wire_candidate list \<Rightarrow> wire_candidate list" where
  "fold_identical_unions candidates = fold extend_seen candidates []"

definition first_mergeable_pair :: "wire_candidate list \<Rightarrow> (nat \<times> nat \<times> filter) option" where
  "first_mergeable_pair cs =
     find_map (\<lambda>left. case uniform_bounds (snd (cs ! left)) of
        None \<Rightarrow> None
      | Some bounds \<Rightarrow>
          find_map (\<lambda>right.
            if uniform_bounds (snd (cs ! right)) \<noteq> Some bounds then None
            else map_option (\<lambda>merged. (left, right, merged))
                   (merge_on_sole_differing_axis (fst (cs ! left)) (fst (cs ! right)))) [left + 1..<length cs])
       [0..<length cs]"

text \<open>\<open>remove(right)\<close>, then the left candidate takes the union and the absorbed members.\<close>

definition merge_pair :: "wire_candidate list \<Rightarrow> nat \<Rightarrow> nat \<Rightarrow> filter \<Rightarrow> wire_candidate list" where
  "merge_pair cs left right merged =
     (let absorbed = snd (cs ! right); rest = take right cs @ drop (Suc right) cs in
      rest[left := (merged, snd (rest ! left) @ absorbed)])"

lemma first_mergeable_pairD:
  assumes "first_mergeable_pair cs = Some (left, right, merged)"
  shows "left < right" "right < length cs"
    "merge_on_sole_differing_axis (fst (cs ! left)) (fst (cs ! right)) = Some merged"
    "uniform_bounds (snd (cs ! left)) \<noteq> None" "uniform_bounds (snd (cs ! right)) = uniform_bounds (snd (cs ! left))"
  using assms unfolding first_mergeable_pair_def
  by (auto dest!: find_map_SomeD split: option.splits if_splits)

lemma merge_pair_length [simp]: "right < length cs \<Longrightarrow> length (merge_pair cs left right merged) = length cs - 1"
  by (simp add: merge_pair_def Let_def)

function merge_to_fixed_point :: "wire_candidate list \<Rightarrow> wire_candidate list" where
  "merge_to_fixed_point cs =
     (case first_mergeable_pair cs of
        None \<Rightarrow> cs
      | Some (left, right, merged) \<Rightarrow> merge_to_fixed_point (merge_pair cs left right merged))"
  by pat_completeness auto

termination
proof (relation "measure length")
  fix cs x left y right merged
  assume "first_mergeable_pair cs = Some x" "(left, y) = x" "(right, merged) = y"
  then have "right < length cs" using first_mergeable_pairD(2) by blast
  then show "(merge_pair cs left right merged, cs) \<in> measure length" by simp
qed simp

declare merge_to_fixed_point.simps [simp del]

definition group :: "wire_lib \<Rightarrow> relay_demand list \<Rightarrow> relay_read_constraints \<Rightarrow> wire_candidate list" where
  "group W demand c =
     (let candidates = bucket_by_filter W (canonical_order W demand) in
      fold_identical_unions
        (if declared_get (rrc_default_filter_limit c) = None then merge_to_fixed_point candidates else candidates))"

subsection \<open>A union covers both operands\<close>

lemma union_constrained_Some:
  assumes "union_constrained l r = Some v"
  shows "covers_set (Some v) l" "covers_set (Some v) r"
proof -
  from assms obtain xs ys where "constrained l = Some xs" "constrained r = Some ys" "v = bs_of_list (xs @ ys)"
    by (auto simp: union_constrained_def bind_eq_Some_conv)
  moreover from this have "set v = set xs \<union> set ys" "v \<noteq> []" by (auto simp: constrained_Some_iff)
  then have "constrained (Some v) = Some v" by (simp add: constrained_Some_iff)
  ultimately show "covers_set (Some v) l" "covers_set (Some v) r"
    using \<open>set v = set xs \<union> set ys\<close> by (simp_all add: covers_set_def)
qed

lemma covers_window_refl [simp]: "covers_window f f"
  by (auto simp: covers_window_def split: option.splits)

lemma differing_tags_Nil:
  "differing_tags left right = [] \<longleftrightarrow> (\<forall>name v. (name, v) \<in> set (fl_generic_tags left) \<longrightarrow> bt_get (fl_generic_tags right) name = Some v)"
  by (auto simp: differing_tags_def filter_empty_conv)

lemma covers_tags_same:
  assumes "fl_generic_tags m = fl_generic_tags left" "differing_tags left right = []"
  shows "covers_tags m right"
  unfolding covers_tags_iff assms(1) using assms(2) unfolding differing_tags_Nil by auto

lemma covers_tags_self:
  assumes "fl_generic_tags m = fl_generic_tags left" "bt_wf (fl_generic_tags left)"
  shows "covers_tags m left"
  unfolding covers_tags_iff assms(1) using assms(2) by (auto simp: bt_get_def bt_wf_distinct map_of_is_SomeI)

lemma filter_covers_axes:
  assumes "fl_limit m = None" "fl_limit x = None" "fl_search m = fl_search x" "fl_since m = fl_since x" "fl_until m = fl_until x"
    and "covers_set (fl_ids m) (fl_ids x)" "covers_set (fl_authors m) (fl_authors x)" "covers_set (fl_kinds m) (fl_kinds x)"
    and "covers_tags m x"
  shows "filter_covers m x"
proof -
  have "covers_window m x" using assms(4,5) by (auto simp: covers_window_def split: option.splits)
  with assms show ?thesis by (simp add: filter_covers_def coverage_remainder_matches_def)
qed

lemma union_tag_covers:
  assumes "union_tag left right name = Some m" "differing_tags left right = [name]"
    and "bt_wf (fl_generic_tags left)" "bt_wf (fl_generic_tags right)" "bt_keys (fl_generic_tags left) = bt_keys (fl_generic_tags right)"
  shows "covers_tags m left" "covers_tags m right" "bt_wf (fl_generic_tags m)"
proof -
  let ?L = "fl_generic_tags left" and ?R = "fl_generic_tags right"
  from assms(1) obtain l r where lr: "bt_get ?L name = Some l" "bt_get ?R name = Some r"
    and m: "m = left\<lparr>fl_generic_tags := bt_insert name (bs_of_list (l @ r)) ?L\<rparr>"
    by (auto simp: union_tag_def bind_eq_Some_conv)
  have wf: "bt_wf (fl_generic_tags m)" using assms(3) by (simp add: m bt_wf_insert)
  then show "bt_wf (fl_generic_tags m)" .
  have get: "bt_get (fl_generic_tags m) k = (if k = name then Some (bs_of_list (l @ r)) else bt_get ?L k)" for k
    by (simp add: m)
  have mem: "k = name \<and> w = bs_of_list (l @ r) \<or> k \<noteq> name \<and> bt_get ?L k = Some w" if "(k, w) \<in> set (fl_generic_tags m)" for k w
    using that wf get [of k] by (auto simp: bt_get_def bt_wf_distinct split: if_splits)
  have other: "bt_get ?R k = Some w" if "bt_get ?L k = Some w" "k \<noteq> name" for k w
  proof (rule ccontr)
    assume "bt_get ?R k \<noteq> Some w"
    with that(1) have "k \<in> set (differing_tags left right)"
      by (force simp: differing_tags_def dest: bt_get_SomeD)
    with assms(2) that(2) show False by simp
  qed
  show "covers_tags m left" "covers_tags m right"
    unfolding covers_tags_iff using mem other lr by fastforce+
qed

text \<open>The sole differing axis, with the union on it.\<close>

lemma merge_cases:
  assumes "merge_on_sole_differing_axis left right = Some m"
  obtains (ids) v where "m = left\<lparr>fl_ids := Some v\<rparr>" "union_constrained (fl_ids left) (fl_ids right) = Some v"
      "fl_authors left = fl_authors right" "fl_kinds left = fl_kinds right" "differing_tags left right = []"
    | (authors) v where "m = left\<lparr>fl_authors := Some v\<rparr>" "union_constrained (fl_authors left) (fl_authors right) = Some v"
      "fl_ids left = fl_ids right" "fl_kinds left = fl_kinds right" "differing_tags left right = []"
    | (kinds) v where "m = left\<lparr>fl_kinds := Some v\<rparr>" "union_constrained (fl_kinds left) (fl_kinds right) = Some v"
      "fl_ids left = fl_ids right" "fl_authors left = fl_authors right" "differing_tags left right = []"
    | (tag) name where "union_tag left right name = Some m" "differing_tags left right = [name]"
      "fl_ids left = fl_ids right" "fl_authors left = fl_authors right" "fl_kinds left = fl_kinds right"
  using assms unfolding merge_on_sole_differing_axis_def Let_def union_ids_def union_authors_def union_kinds_def
  by (auto split: if_splits list.splits)

lemma merge_guards:
  assumes "merge_on_sole_differing_axis left right = Some m"
  shows "fl_limit left = None" "fl_limit right = None" "fl_search left = fl_search right"
    "fl_since left = fl_since right" "fl_until left = fl_until right"
    "bt_keys (fl_generic_tags left) = bt_keys (fl_generic_tags right)"
  using assms by (auto simp: merge_on_sole_differing_axis_def remainder_matches_def split: if_splits)

lemma union_tag_fields:
  assumes "union_tag left right name = Some m"
  shows "fl_ids m = fl_ids left" "fl_authors m = fl_authors left" "fl_kinds m = fl_kinds left" "fl_limit m = fl_limit left"
    "fl_search m = fl_search left" "fl_since m = fl_since left" "fl_until m = fl_until left"
  using assms by (auto simp: union_tag_def bind_eq_Some_conv)

lemma merge_covers:
  assumes "merge_on_sole_differing_axis left right = Some m" "bt_wf (fl_generic_tags left)" "bt_wf (fl_generic_tags right)"
  shows "filter_covers m left \<and> filter_covers m right \<and> bt_wf (fl_generic_tags m)"
  using assms(1)
proof (cases rule: merge_cases)
  case (tag name)
  note g = merge_guards [OF assms(1)]
  note f = union_tag_fields [OF tag(1)]
  note t = union_tag_covers [OF tag(1,2) assms(2,3) g(6)]
  from t(3) show ?thesis
    using t(1,2) by (simp add: filter_covers_axes f g tag(3-5) covers_set_refl)
qed (use merge_guards [OF assms(1)] assms(2) in \<open>simp_all add: filter_covers_axes covers_set_refl union_constrained_Some
    covers_tags_self [OF _ assms(2)] covers_tags_same\<close>)

subsection \<open>A union admits nothing else\<close>

definition tags_admit :: "(event \<Rightarrow> single_letter_tag \<Rightarrow> string \<Rightarrow> bool) \<Rightarrow> filter \<Rightarrow> event \<Rightarrow> bool" where
  "tags_admit tagged f e \<longleftrightarrow> (\<forall>(name, values)\<in>set (fl_generic_tags f). \<exists>v\<in>set values. tagged e name v)"

lemma tags_admit_get:
  "bt_wf (fl_generic_tags f) \<Longrightarrow>
     tags_admit tagged f e \<longleftrightarrow> (\<forall>name values. bt_get (fl_generic_tags f) name = Some values \<longrightarrow> (\<exists>v\<in>set values. tagged e name v))"
  by (auto simp: tags_admit_def bt_get_def bt_wf_distinct)

lemma union_constrained_admits:
  assumes "union_constrained l r = Some v"
  shows "set_admits (Some v) x \<longleftrightarrow> set_admits l x \<or> set_admits r x"
proof -
  from assms obtain xs ys where c: "constrained l = Some xs" "constrained r = Some ys" "v = bs_of_list (xs @ ys)"
    by (auto simp: union_constrained_def bind_eq_Some_conv)
  moreover from this have "constrained (Some v) = Some v" by (simp add: constrained_Some_iff)
  ultimately show ?thesis by (simp add: set_admits_def)
qed

lemma differing_tags_complete:
  assumes "bt_wf (fl_generic_tags left)" "bt_wf (fl_generic_tags right)"
    and "bt_keys (fl_generic_tags left) = bt_keys (fl_generic_tags right)" "k \<notin> set (differing_tags left right)"
  shows "bt_get (fl_generic_tags right) k = bt_get (fl_generic_tags left) k"
proof (cases "bt_get (fl_generic_tags left) k")
  case None
  with assms(3) have "bt_get (fl_generic_tags right) k = None" by (metis bt_get_None_iff)
  with None show ?thesis by simp
next
  case (Some w)
  with assms(4) show ?thesis by (force simp: differing_tags_def dest: bt_get_SomeD)
qed

lemma same_tags_admit:
  assumes "bt_wf (fl_generic_tags left)" "bt_wf (fl_generic_tags right)"
    and "bt_keys (fl_generic_tags left) = bt_keys (fl_generic_tags right)" "differing_tags left right = []"
  shows "tags_admit tagged right e = tags_admit tagged left e"
  using differing_tags_complete [OF assms(1-3)] assms(4) by (simp add: tags_admit_get [OF assms(1)] tags_admit_get [OF assms(2)])

lemma all_entries_split:
  assumes "g n = Some w" "\<And>k. k \<noteq> n \<Longrightarrow> g k = h k"
  shows "(\<forall>k v. g k = Some v \<longrightarrow> P k v) \<longleftrightarrow> P n w \<and> (\<forall>k v. k \<noteq> n \<longrightarrow> h k = Some v \<longrightarrow> P k v)"
  using assms by (metis option.inject)

lemma union_tag_admits:
  assumes "union_tag left right name = Some m" "differing_tags left right = [name]"
    and "bt_wf (fl_generic_tags left)" "bt_wf (fl_generic_tags right)" "bt_keys (fl_generic_tags left) = bt_keys (fl_generic_tags right)"
  shows "tags_admit tagged m e \<longleftrightarrow> tags_admit tagged left e \<or> tags_admit tagged right e"
proof -
  let ?L = "fl_generic_tags left" and ?R = "fl_generic_tags right" and ?hit = "\<lambda>k vs. \<exists>v\<in>set vs. tagged e k v"
  from assms(1) obtain l r where lr: "bt_get ?L name = Some l" "bt_get ?R name = Some r"
    and m: "fl_generic_tags m = bt_insert name (bs_of_list (l @ r)) ?L"
    by (auto simp: union_tag_def bind_eq_Some_conv)
  have same: "bt_get ?R k = bt_get ?L k" if "k \<noteq> name" for k
    using differing_tags_complete [OF assms(3-5)] assms(2) that by simp
  have split: "tags_admit tagged f e \<longleftrightarrow> ?hit name w \<and> (\<forall>k vs. k \<noteq> name \<longrightarrow> bt_get ?L k = Some vs \<longrightarrow> ?hit k vs)"
    if "bt_wf (fl_generic_tags f)" "bt_get (fl_generic_tags f) name = Some w"
      "\<And>k. k \<noteq> name \<Longrightarrow> bt_get (fl_generic_tags f) k = bt_get ?L k" for f w
    unfolding tags_admit_get [OF that(1)] using that(2,3) by (rule all_entries_split)
  have "bt_wf (fl_generic_tags m)" using assms(3) by (simp add: m bt_wf_insert)
  then have "tags_admit tagged m e \<longleftrightarrow> ?hit name (bs_of_list (l @ r)) \<and> (\<forall>k vs. k \<noteq> name \<longrightarrow> bt_get ?L k = Some vs \<longrightarrow> ?hit k vs)"
    by (rule split) (simp_all add: m)
  moreover have "?hit name (bs_of_list (l @ r)) \<longleftrightarrow> ?hit name l \<or> ?hit name r" by auto
  moreover note split [OF assms(3) lr(1) refl]
  moreover have "tags_admit tagged right e \<longleftrightarrow> ?hit name r \<and> (\<forall>k vs. k \<noteq> name \<longrightarrow> bt_get ?L k = Some vs \<longrightarrow> ?hit k vs)"
    by (rule split [OF assms(4) lr(2)]) (rule same)
  ultimately show ?thesis by argo
qed

lemma filter_admits_split:
  "filter_admits tagged found f e \<longleftrightarrow>
     set_admits (fl_ids f) (ev_id e) \<and> set_admits (fl_authors f) (ev_pubkey e) \<and> set_admits (fl_kinds f) (ev_kind e)
     \<and> tags_admit tagged f e \<and> ((\<forall>t. fl_since f = Some t \<longrightarrow> t \<le> ev_created_at e) \<and> (\<forall>t. fl_until f = Some t \<longrightarrow> ev_created_at e \<le> t)
     \<and> found (fl_search f) e)"
  unfolding filter_admits_def tags_admit_def by blast

lemma tags_admit_update [simp]:
  "tags_admit tagged (f\<lparr>fl_ids := i\<rparr>) e = tags_admit tagged f e" "tags_admit tagged (f\<lparr>fl_authors := a\<rparr>) e = tags_admit tagged f e"
  "tags_admit tagged (f\<lparr>fl_kinds := k\<rparr>) e = tags_admit tagged f e"
  by (simp_all add: tags_admit_def)

lemma merge_admits:
  assumes "merge_on_sole_differing_axis left right = Some m" "bt_wf (fl_generic_tags left)" "bt_wf (fl_generic_tags right)"
  shows "filter_admits tagged found m e \<longleftrightarrow> filter_admits tagged found left e \<or> filter_admits tagged found right e"
  using assms(1)
proof (cases rule: merge_cases)
  case (ids v)
  with merge_guards [OF assms(1)] show ?thesis
    by (auto simp: filter_admits_split union_constrained_admits [OF ids(2)] same_tags_admit [OF assms(2,3)])
next
  case (authors v)
  with merge_guards [OF assms(1)] show ?thesis
    by (auto simp: filter_admits_split union_constrained_admits [OF authors(2)] same_tags_admit [OF assms(2,3)])
next
  case (kinds v)
  with merge_guards [OF assms(1)] show ?thesis
    by (auto simp: filter_admits_split union_constrained_admits [OF kinds(2)] same_tags_admit [OF assms(2,3)])
next
  case (tag name)
  note g = merge_guards [OF assms(1)]
  from union_tag_fields [OF tag(1)] tag(3-5) g show ?thesis
    by (auto simp: filter_admits_split union_tag_admits [OF tag(1,2) assms(2,3) g(6)])
qed

subsection \<open>The candidates keep the demand\<close>

definition member_mset :: "wire_candidate list \<Rightarrow> relay_demand multiset" where
  "member_mset cs = mset (concat (map snd cs))"

lemma member_mset_simps [simp]:
  "member_mset [] = {#}" "member_mset (c # cs) = mset (snd c) + member_mset cs" "member_mset (as @ bs) = member_mset as + member_mset bs"
  by (simp_all add: member_mset_def)

lemma member_subset: "g \<in> set cs \<Longrightarrow> set (snd g) \<subseteq> set_mset (member_mset cs)"
  by (induction cs) auto

text \<open>What holds of every candidate: its filter asks for exactly what its members ask for.\<close>

definition candidate_ok :: "wire_candidate \<Rightarrow> bool" where
  "candidate_ok c \<longleftrightarrow> bt_wf (fl_generic_tags (fst c)) \<and> snd c \<noteq> [] \<and> (\<forall>d\<in>set (snd c). filter_covers (fst c) (dm_filter d))
     \<and> (\<forall>tagged found e. filter_admits tagged found (fst c) e \<longleftrightarrow> (\<exists>d\<in>set (snd c). filter_admits tagged found (dm_filter d) e))"

lemma candidate_ok_merge:
  assumes "merge_on_sole_differing_axis (fst a) (fst b) = Some m" "candidate_ok a" "candidate_ok b"
  shows "candidate_ok (m, snd a @ snd b)"
proof -
  have wf: "bt_wf (fl_generic_tags (fst a))" "bt_wf (fl_generic_tags (fst b))" using assms(2,3) by (auto simp: candidate_ok_def)
  note cover = merge_covers [OF assms(1) wf]
  have "filter_covers m (dm_filter d)" if "d \<in> set (snd a) \<union> set (snd b)" for d
    using that assms(2,3) cover filter_covers_trans unfolding candidate_ok_def by blast
  moreover have "snd a \<noteq> []" using assms(2) by (simp add: candidate_ok_def)
  ultimately show ?thesis
    using cover merge_admits [OF assms(1) wf] assms(2,3) unfolding candidate_ok_def by auto
qed

lemma candidate_ok_append:
  "candidate_ok (f, xs) \<Longrightarrow> candidate_ok (f, ys) \<Longrightarrow> candidate_ok (f, xs @ ys)"
  unfolding candidate_ok_def fst_conv snd_conv set_append ball_Un bex_Un by (simp only:) simp

lemma mset_sort_by [simp]: "mset (sort_by le xs) = mset xs"
proof -
  have "mset (insert_by le x ys) = add_mset x (mset ys)" for x ys by (induction ys) auto
  then show ?thesis unfolding sort_by_def by (induction xs) simp_all
qed

lemma mset_canonical_order [simp]: "mset (canonical_order W ds) = mset ds"
  by (simp add: canonical_order_def multiset.map_comp comp_def)

lemma set_canonical_order [simp]: "set (canonical_order W ds) = set ds"
  by (metis mset_canonical_order set_mset_mset)

subsubsection \<open>Merging\<close>

lemma split_at_two:
  assumes "left < right" "right < length cs"
  obtains xs ys zs where "cs = xs @ cs ! left # ys @ cs ! right # zs" "length xs = left" "length (xs @ cs ! left # ys) = right"
proof -
  have "cs = take left cs @ cs ! left # drop (Suc left) cs" using assms by (simp add: id_take_nth_drop)
  moreover have "drop (Suc left) cs = take (right - Suc left) (drop (Suc left) cs) @ cs ! right # drop (Suc right) cs"
    using assms id_take_nth_drop [of "right - Suc left" "drop (Suc left) cs"] by simp
  ultimately show thesis
    using assms by (intro that [of "take left cs" "take (right - Suc left) (drop (Suc left) cs)" "drop (Suc right) cs"]) simp_all
qed

lemma merge_pair_split:
  assumes "left < right" "right < length cs"
  obtains xs ys zs where "cs = xs @ cs ! left # ys @ cs ! right # zs"
    "merge_pair cs left right merged = xs @ (merged, snd (cs ! left) @ snd (cs ! right)) # ys @ zs"
proof -
  obtain xs ys zs where s: "cs = xs @ cs ! left # ys @ cs ! right # zs" "length xs = left" "length (xs @ cs ! left # ys) = right"
    by (rule split_at_two [OF assms])
  have "take right (xs @ cs ! left # ys @ cs ! right # zs) = xs @ cs ! left # ys"
    "drop (Suc right) (xs @ cs ! left # ys @ cs ! right # zs) = zs"
    using s(3) by auto
  then have "take right cs = xs @ cs ! left # ys" "drop (Suc right) cs = zs" by (simp_all only: s(1) [symmetric])
  then have "merge_pair cs left right merged = xs @ (merged, snd (cs ! left) @ snd (cs ! right)) # ys @ zs"
    using s(2) by (simp add: merge_pair_def Let_def nth_append list_update_append)
  with s(1) that show thesis by blast
qed

lemma merge_to_fixed_point_induct:
  assumes "P cs" and "\<And>cs xs a ys b zs m. P cs \<Longrightarrow> cs = xs @ a # ys @ b # zs \<Longrightarrow>
      merge_on_sole_differing_axis (fst a) (fst b) = Some m \<Longrightarrow> P (xs @ (m, snd a @ snd b) # ys @ zs)"
  shows "P (merge_to_fixed_point cs)"
  using assms(1)
proof (induction cs rule: merge_to_fixed_point.induct)
  case (1 cs)
  show ?case
  proof (cases "first_mergeable_pair cs")
    case None
    with 1 show ?thesis by (simp add: merge_to_fixed_point.simps)
  next
    case (Some x)
    then obtain left right merged where x: "x = (left, right, merged)" by (cases x)
    note pair = first_mergeable_pairD [OF Some [unfolded x]]
    obtain xs ys zs where s: "cs = xs @ cs ! left # ys @ cs ! right # zs"
      "merge_pair cs left right merged = xs @ (merged, snd (cs ! left) @ snd (cs ! right)) # ys @ zs"
      by (rule merge_pair_split [OF pair(1,2)])
    have "P (merge_pair cs left right merged)"
      unfolding s(2) by (rule assms(2) [OF 1(2) s(1) pair(3)])
    from 1(1) [OF Some _ _ this] x Some show ?thesis by (simp add: merge_to_fixed_point.simps [of cs])
  qed
qed

lemma merge_members [simp]: "member_mset (merge_to_fixed_point cs) = member_mset cs"
  by (rule merge_to_fixed_point_induct [where P = "\<lambda>x. member_mset x = member_mset cs"]) (auto simp: ac_simps)

lemma merge_ok:
  assumes "\<forall>c\<in>set cs. candidate_ok c"
  shows "\<forall>c\<in>set (merge_to_fixed_point cs). candidate_ok c"
  using assms by (rule merge_to_fixed_point_induct) (auto intro: candidate_ok_merge)

text \<open>No pair of the result can still be merged.\<close>

lemma first_mergeable_pair_None:
  assumes "first_mergeable_pair cs = None" "left < right" "right < length cs"
    and "uniform_bounds (snd (cs ! left)) = Some b" "uniform_bounds (snd (cs ! right)) = Some b"
  shows "merge_on_sole_differing_axis (fst (cs ! left)) (fst (cs ! right)) = None"
proof -
  have left: "left \<in> set [0..<length cs]" and right: "right \<in> set [left + 1..<length cs]" using assms(2,3) by simp_all
  note inner = bspec [OF assms(1) [unfolded first_mergeable_pair_def find_map_None_iff] left, unfolded assms(4) option.case find_map_None_iff]
  from bspec [OF inner right] assms(5) show ?thesis by simp
qed

lemma merge_fixed: "first_mergeable_pair (merge_to_fixed_point cs) = None"
proof (induction cs rule: merge_to_fixed_point.induct)
  case (1 cs)
  then show ?case
    by (cases "first_mergeable_pair cs") (auto simp: merge_to_fixed_point.simps [of cs])
qed

subsubsection \<open>Buckets\<close>

lemma drain_buckets_map:
  "distinct order \<Longrightarrow> \<forall>k\<in>set order. bt_get b k \<noteq> None \<Longrightarrow> drain_buckets order b = map (\<lambda>k. the (bt_get b k)) order"
proof (induction order arbitrary: b)
  case (Cons k order)
  then obtain c where "bt_get b k = Some c" by auto
  moreover have "\<forall>x\<in>set order. bt_get (bt_remove k b) x \<noteq> None" "\<forall>x\<in>set order. bt_get (bt_remove k b) x = bt_get b x"
    using Cons.prems by auto
  ultimately show ?case using Cons by simp
qed simp

definition bucket_inv ::
  "wire_lib \<Rightarrow> relay_demand list \<Rightarrow> string list \<times> (string, wire_candidate) btree_map \<Rightarrow> bool" where
  "bucket_inv W seen st \<longleftrightarrow> (let (order, b) = st in
     distinct order \<and> (\<forall>k. k \<in> set order \<longleftrightarrow> bt_get b k \<noteq> None)
     \<and> member_mset (map (\<lambda>k. the (bt_get b k)) order) = mset seen
     \<and> (\<forall>k c. bt_get b k = Some c \<longrightarrow> snd c \<noteq> [] \<and> fst c = dm_filter (hd (snd c))
          \<and> (\<forall>d\<in>set (snd c). wl_filter_encoding W (dm_filter d) = k)))"

lemma members_update:
  assumes "distinct order" "k \<in> set order" "\<And>x. x \<noteq> k \<Longrightarrow> g' x = g x" "mset (snd (g' k)) = add_mset d (mset (snd (g k)))"
  shows "member_mset (map g' order) = add_mset d (member_mset (map g order))"
proof -
  from assms(2) obtain xs ys where "order = xs @ k # ys" by (auto dest: split_list)
  moreover from this assms(1,3) have same: "map g' xs = map g xs" "map g' ys = map g ys" by (auto simp: map_eq_conv) (metis+)
  ultimately show ?thesis using assms(4) by (simp del: map_eq_conv add: same)
qed

lemma bucket_step_inv:
  assumes "bucket_inv W seen st"
  shows "bucket_inv W (d # seen) (bucket_step W d st)"
proof -
  obtain order b where st: "st = (order, b)" by (cases st)
  let ?k = "wl_filter_encoding W (dm_filter d)"
  from assms have inv: "distinct order" "\<forall>k. k \<in> set order \<longleftrightarrow> bt_get b k \<noteq> None"
    "member_mset (map (\<lambda>k. the (bt_get b k)) order) = mset seen"
    "\<forall>k c. bt_get b k = Some c \<longrightarrow> snd c \<noteq> [] \<and> fst c = dm_filter (hd (snd c))
          \<and> (\<forall>d\<in>set (snd c). wl_filter_encoding W (dm_filter d) = k)"
    by (simp_all add: bucket_inv_def st del: split_paired_All split_paired_Ex)
  show ?thesis
  proof (cases "bt_get b ?k")
    case None
    have "?k \<notin> set order" using inv(2) None by blast
    then have same: "map (\<lambda>k. the (bt_get (bt_insert ?k (dm_filter d, [d]) b) k)) order = map (\<lambda>k. the (bt_get b k)) order"
      by (auto simp: map_eq_conv)
    have "member_mset (map (\<lambda>k. the (bt_get (bt_insert ?k (dm_filter d, [d]) b) k)) order) = mset seen"
      unfolding same by (rule inv(3))
    moreover have "?k \<notin> set order" using inv(2) None by blast
    ultimately show ?thesis
      using inv None by (simp add: bucket_inv_def bucket_step_def st Let_def del: split_paired_All split_paired_Ex)
  next
    case (Some c)
    obtain f ms where c: "c = (f, ms)" by (cases c)
    have "?k \<in> set order" using inv(2) Some by blast
    from members_update [OF inv(1) this, of "\<lambda>k. the (bt_get (bt_insert ?k (f, ms @ [d]) b) k)" "\<lambda>k. the (bt_get b k)" d]
    have "member_mset (map (\<lambda>k. the (bt_get (bt_insert ?k (f, ms @ [d]) b) k)) order) = mset (d # seen)"
      using inv(3) Some c by simp
    moreover have "ms \<noteq> [] \<and> f = dm_filter (hd ms) \<and> (\<forall>d\<in>set ms. wl_filter_encoding W (dm_filter d) = ?k)"
      using inv(4) Some c by auto
    ultimately show ?thesis
      using inv(1,2,4) Some c by (simp add: bucket_inv_def bucket_step_def st Let_def del: split_paired_All split_paired_Ex)
  qed
qed

lemma bucket_fold_inv: "bucket_inv W seen st \<Longrightarrow> bucket_inv W (rev ds @ seen) (fold (bucket_step W) ds st)"
proof (induction ds arbitrary: seen st)
  case (Cons d ds)
  from Cons.IH [OF bucket_step_inv [OF Cons.prems, of d]] show ?case by simp
qed simp

lemma bucket_by_filter_spec:
  "member_mset (bucket_by_filter W ds) = mset ds"
  "c \<in> set (bucket_by_filter W ds) \<Longrightarrow> snd c \<noteq> [] \<and> fst c = dm_filter (hd (snd c))
     \<and> (\<forall>d\<in>set (snd c). wl_filter_encoding W (dm_filter d) = wl_filter_encoding W (fst c))"
proof -
  obtain order b where st: "fold (bucket_step W) ds ([], []) = (order, b)" by fastforce
  have "bucket_inv W [] ([], [])" by (simp add: bucket_inv_def)
  from bucket_fold_inv [OF this, of ds] have inv: "bucket_inv W (rev ds) (order, b)" by (simp add: st)
  then have drain: "bucket_by_filter W ds = map (\<lambda>k. the (bt_get b k)) order"
    unfolding bucket_by_filter_def st by (simp add: bucket_inv_def drain_buckets_map)
  with inv show "member_mset (bucket_by_filter W ds) = mset ds" by (simp add: bucket_inv_def)
  assume "c \<in> set (bucket_by_filter W ds)"
  with drain inv obtain k where "bt_get b k = Some c" by (auto simp: bucket_inv_def)
  with inv have "snd c \<noteq> [] \<and> fst c = dm_filter (hd (snd c)) \<and> (\<forall>d\<in>set (snd c). wl_filter_encoding W (dm_filter d) = k)"
    by (simp add: bucket_inv_def del: split_paired_All split_paired_Ex)
  then show "snd c \<noteq> [] \<and> fst c = dm_filter (hd (snd c))
     \<and> (\<forall>d\<in>set (snd c). wl_filter_encoding W (dm_filter d) = wl_filter_encoding W (fst c))" by simp
qed

subsubsection \<open>Folding\<close>

lemma extend_seen_members: "member_mset (extend_seen c ss) = member_mset ss + mset (snd c)"
  by (induction ss) (auto simp: ac_simps)

lemma extend_seen_filters: "set (map fst (extend_seen c ss)) = insert (fst c) (set (map fst ss))"
  by (induction ss) auto

lemma extend_seen_distinct: "distinct (map fst ss) \<Longrightarrow> distinct (map fst (extend_seen c ss))"
proof (induction ss)
  case (Cons s ss)
  then show ?case using extend_seen_filters [of c ss] by (cases "fst s = fst c") simp_all
qed simp

lemma extend_seen_ok:
  assumes "candidate_ok c" "\<forall>s\<in>set ss. candidate_ok s"
  shows "\<forall>s\<in>set (extend_seen c ss). candidate_ok s"
  using assms(2)
proof (induction ss)
  case (Cons s ss)
  have "candidate_ok (fst s, snd s @ snd c)" if "fst s = fst c"
    using candidate_ok_append [of "fst s" "snd s" "snd c"] Cons.prems assms(1) by (simp add: that prod.collapse del: prod.collapse)
      (metis prod.collapse that)
  with Cons show ?case by (cases "fst s = fst c") simp_all
qed (use assms(1) in simp)

lemma fold_identical_unions_members: "member_mset (fold_identical_unions cs) = member_mset cs"
proof -
  have "member_mset (fold extend_seen cs ss) = member_mset ss + member_mset cs" for ss
    by (induction cs arbitrary: ss) (simp_all add: extend_seen_members ac_simps)
  then show ?thesis by (simp add: fold_identical_unions_def)
qed

lemma fold_identical_unions_distinct: "distinct (map fst (fold_identical_unions cs))"
proof -
  have "distinct (map fst ss) \<Longrightarrow> distinct (map fst (fold extend_seen cs ss))" for ss
    by (induction cs arbitrary: ss) (simp_all add: extend_seen_distinct)
  then show ?thesis by (simp add: fold_identical_unions_def)
qed

lemma fold_identical_unions_ok:
  assumes "\<forall>c\<in>set cs. candidate_ok c"
  shows "\<forall>c\<in>set (fold_identical_unions cs). candidate_ok c"
proof -
  have "\<forall>c\<in>set ss. candidate_ok c \<Longrightarrow> \<forall>c\<in>set (fold extend_seen cs ss). candidate_ok c" for ss
    using assms
  proof (induction cs arbitrary: ss)
    case (Cons c cs)
    from Cons.prems have "candidate_ok c" by simp
    from Cons.IH [OF extend_seen_ok [OF this Cons.prems(1)]] Cons.prems(2) show ?case by simp
  qed simp
  from this [of "[]"] show ?thesis by (simp add: fold_identical_unions_def)
qed

subsection \<open>What grouping gives\<close>

text \<open>
  The demand a filter encoding can tell apart: well-formed tag maps and, among the filters in
  question, one encoding per filter.
\<close>

definition encodable :: "wire_lib \<Rightarrow> relay_demand list \<Rightarrow> bool" where
  "encodable W ds \<longleftrightarrow> (\<forall>d\<in>set ds. bt_wf (fl_generic_tags (dm_filter d))) \<and> inj_on (wl_filter_encoding W) (dm_filter ` set ds)"

lemma encodable_subset: "encodable W ds \<Longrightarrow> set es \<subseteq> set ds \<Longrightarrow> encodable W es"
  unfolding encodable_def by (meson image_mono inj_on_subset subsetD)

lemma bucket_ok:
  assumes "encodable W ds" "c \<in> set (bucket_by_filter W ds)"
  shows "candidate_ok c"
proof -
  note spec = bucket_by_filter_spec(2) [OF assms(2)]
  have sub: "set (snd c) \<subseteq> set ds"
    using member_subset [OF assms(2)] by (simp add: bucket_by_filter_spec(1))
  from spec have "hd (snd c) \<in> set (snd c)" by simp
  with sub have hd: "hd (snd c) \<in> set ds" by blast
  have inj: "inj_on (wl_filter_encoding W) (dm_filter ` set ds)" using assms(1) by (simp add: encodable_def)
  have "dm_filter d = fst c" if "d \<in> set (snd c)" for d
  proof (rule inj_onD [OF inj])
    show "wl_filter_encoding W (dm_filter d) = wl_filter_encoding W (fst c)" using spec that by blast
    show "dm_filter d \<in> dm_filter ` set ds" using sub that by blast
    show "fst c \<in> dm_filter ` set ds" using spec hd by simp
  qed
  moreover have "bt_wf (fl_generic_tags (fst c))" using assms(1) spec hd by (simp add: encodable_def)
  moreover have "snd c \<noteq> []" using spec by simp
  ultimately show ?thesis by (auto simp: candidate_ok_def neq_Nil_conv)
qed

lemma group_members [simp]: "member_mset (group W ds c) = mset ds"
  by (simp add: group_def Let_def fold_identical_unions_members bucket_by_filter_spec)

lemma group_distinct: "distinct (map fst (group W ds c))"
  by (simp add: group_def Let_def fold_identical_unions_distinct)

lemma group_ok:
  assumes "encodable W ds" "g \<in> set (group W ds c)"
  shows "candidate_ok g"
proof -
  have "encodable W (canonical_order W ds)" using assms(1) by (simp add: encodable_def)
  then have "\<forall>c\<in>set (bucket_by_filter W (canonical_order W ds)). candidate_ok c" using bucket_ok by blast
  then have "\<forall>g\<in>set (group W ds c). candidate_ok g"
    unfolding group_def Let_def by (intro fold_identical_unions_ok) (simp add: merge_ok)
  with assms(2) show ?thesis by blast
qed

lemma members_length: "c \<in> set cs \<Longrightarrow> length (snd c) \<le> size (member_mset cs)"
  by (induction cs) auto

lemma group_length: "g \<in> set (group W ds c) \<Longrightarrow> length (snd g) \<le> length ds"
  using members_length [of g "group W ds c"] by simp

subsubsection \<open>The order of the demand\<close>

definition canonical_key :: "wire_lib \<Rightarrow> relay_demand \<Rightarrow> string \<times> demand_id" where
  "canonical_key W d = (wl_filter_encoding W (dm_filter d), demand_id_of d)"

lemma canonical_order_sorted: "sorted (map (canonical_key W) (canonical_order W ds))"
proof -
  let ?le = "\<lambda>l r. fst l < fst r \<or> fst l = fst r \<and> demand_id_of (snd l) \<le> demand_id_of (snd r)"
  let ?xs = "sort_by ?le (map (\<lambda>d. (wl_filter_encoding W (dm_filter d), d)) ds)"
  have le: "?le l r \<longleftrightarrow> (fst l, demand_id_of (snd l)) \<le> (fst r, demand_id_of (snd r))" for l r :: "string \<times> relay_demand"
    by (auto simp: less_eq_prod_def)
  have "sorted_wrt ?le ?xs" by (rule sorted_sort_by) auto
  then have "sorted_wrt (\<lambda>l r. (fst l, demand_id_of (snd l)) \<le> (fst r, demand_id_of (snd r))) ?xs" unfolding le .
  then have "sorted (map (\<lambda>l. (fst l, demand_id_of (snd l))) ?xs)" by (simp add: sorted_map)
  moreover have "map (\<lambda>l. (fst l, demand_id_of (snd l))) ?xs = map (canonical_key W) (map snd ?xs)"
    unfolding map_map by (rule map_cong [OF refl]) (auto simp: canonical_key_def)
  ultimately show ?thesis by (simp add: canonical_order_def)
qed

lemma canonical_order_unique:
  assumes "mset ds = mset es" "distinct (map demand_id_of ds)"
  shows "canonical_order W ds = canonical_order W es"
proof -
  let ?K = "canonical_key W"
  have sets: "set ds = set es" by (rule mset_eq_setD [OF assms(1)])
  have inj: "inj_on ?K (set ds)"
    using assms(2) by (auto simp: distinct_map inj_on_def canonical_key_def)
  have "distinct ds" using assms(2) by (simp add: distinct_map)
  with assms(1) have "distinct es" by (metis mset_eq_imp_distinct_iff)
  with \<open>distinct ds\<close> have "distinct (canonical_order W ds)" "distinct (canonical_order W es)"
    by (metis mset_canonical_order mset_eq_imp_distinct_iff)+
  with inj sets have dist: "distinct (map ?K (canonical_order W ds))" "distinct (map ?K (canonical_order W es))"
    by (simp_all add: distinct_map)
  have keys: "map ?K (canonical_order W ds) = map ?K (canonical_order W es)"
    by (rule sorted_distinct_set_unique [OF canonical_order_sorted dist(1) canonical_order_sorted dist(2)]) (simp add: sets)
  show ?thesis by (rule map_inj_on [OF keys]) (use inj sets in simp)
qed

end
