(* ===== verification/Subscriptions_Standard.thy ===== *)
theory Subscriptions_Standard
  imports Subscription_Grouping
begin

section \<open>The standard planner (\<open>fava-subscriptions-standard\<close>)\<close>

text \<open>
  \<open>attach.rs\<close>, \<open>lib.rs\<close>, \<open>diff.rs\<close> and \<open>wire.rs\<close> of the planner that groups unsent demand:
  attaching to a covering subscription, splitting candidates to the declared message bound,
  folding duplicates and the residual subscription budget; with the proof that splitting
  terminates and that the planner keeps the planner interface.
\<close>

fun host_loop :: "installed_subscriptions \<Rightarrow> relay_demand \<Rightarrow> subscription_id list \<Rightarrow> subscription_id option \<Rightarrow> subscription_id option" where
  "host_loop inst d [] covering = covering"
| "host_loop inst d (i # is) covering =
     (case bt_get inst i of
        None \<Rightarrow> host_loop inst d is covering
      | Some entry \<Rightarrow>
          if demand_id_of d \<in> set (is_serves entry) then Some i
          else host_loop inst d is
            (if covering = None \<and> (\<exists>f\<in>set (is_filters entry). filter_covers f (dm_filter d)) then Some i else covering))"

definition host_for :: "relay_demand \<Rightarrow> installed_subscriptions \<Rightarrow> subscription_id option" where
  "host_for d inst = host_loop inst d (bt_keys inst) None"

definition encoded_bytes :: "wire_lib \<Rightarrow> filter list \<Rightarrow> subscription_plan_error + nat" where
  "encoded_bytes W fs = (case wl_request_len W fs of Inl e \<Rightarrow> Inl (ReqEncoding (bounded_text_new e)) | Inr n \<Rightarrow> Inr n)"

text \<open>\<open>div_ceil(2)\<close>\<close>

definition midpoint :: "relay_demand list \<Rightarrow> nat" where
  "midpoint members = (length members + 1) div 2"

text \<open>Splitting terminates: a candidate is replaced by candidates with fewer members.\<close>

lemma split_smaller:
  assumes "length ms \<noteq> 1" "ms \<noteq> []" "g \<in> set (group W (take (midpoint ms) ms) c @ group W (drop (midpoint ms) ms) c)"
  shows "length (snd g) < length ms"
proof -
  have "2 \<le> length ms" using assms(1,2) by (cases ms; cases "tl ms") auto
  then have "midpoint ms < length ms" "0 < midpoint ms" by (auto simp: midpoint_def)
  then have "length (take (midpoint ms) ms) < length ms" "length (drop (midpoint ms) ms) < length ms" by auto
  with assms(3) show ?thesis using group_length by (metis Un_iff le_less_trans set_append)
qed

function fit_message_bound ::
  "wire_lib \<Rightarrow> relay_read_constraints \<Rightarrow> wire_candidate list \<Rightarrow> attributed_subscription list \<Rightarrow> subscription_shortfall list
     \<Rightarrow> subscription_plan_error + attributed_subscription list \<times> subscription_shortfall list" where
  "fit_message_bound W c [] carried shortfalls = Inr (carried, shortfalls)"
| "fit_message_bound W c ((f, members) # queue) carried shortfalls =
     (if members = [] then fit_message_bound W c queue carried shortfalls
      else case encoded_bytes W [f] of
        Inl e \<Rightarrow> Inl e
      | Inr bytes \<Rightarrow>
          (case declared_get (rrc_max_message_bytes c) of
             None \<Rightarrow> fit_message_bound W c queue
               (carried @ [\<lparr>as_filters = [f], as_serves = bs_of_list (map demand_id_of members), as_completeness = completeness [f] c\<rparr>])
               shortfalls
           | Some maximum \<Rightarrow>
               if bytes \<le> maximum then fit_message_bound W c queue
                 (carried @ [\<lparr>as_filters = [f], as_serves = bs_of_list (map demand_id_of members), as_completeness = completeness [f] c\<rparr>])
                 shortfalls
               else if length members = 1 then fit_message_bound W c queue carried
                 (shortfalls @ [\<lparr>sf_demand = demand_id_of (hd members), sf_reason = MessageTooLarge bytes maximum\<rparr>])
               else fit_message_bound W c
                 (queue @ group W (take (midpoint members) members) c @ group W (drop (midpoint members) members) c)
                 carried shortfalls))"
  by pat_completeness auto

termination
proof (relation "inv_image (mult less_than) (\<lambda>(W, c, queue, carried, shortfalls). mset (map (length \<circ> snd) queue))")
  show "wf (inv_image (mult less_than) (\<lambda>(W, c, queue, carried, shortfalls). mset (map (length \<circ> snd) queue)))"
    by (intro wf_inv_image wf_mult wf_less_than)
  show "((W, c, queue @ group W (take (midpoint ms) ms) c @ group W (drop (midpoint ms) ms) c, carried, sf),
      (W, c, (f, ms) # queue, carried, sf)) \<in> inv_image (mult less_than)
        (\<lambda>(W, c, queue, carried, shortfalls). mset (map (length \<circ> snd) queue))"
    if "ms \<noteq> []" "length ms \<noteq> 1"
    for W c f ms queue and carried :: "attributed_subscription list" and sf :: "subscription_shortfall list"
  proof -
    let ?new = "group W (take (midpoint ms) ms) c @ group W (drop (midpoint ms) ms) c"
    have "\<forall>k\<in>set_mset (mset (map (length \<circ> snd) ?new)). \<exists>j\<in>set_mset {#length ms#}. (k, j) \<in> less_than"
      using split_smaller [OF that(2,1)] by auto
    from one_step_implies_mult [of "{#length ms#}" _ less_than "mset (map (length \<circ> snd) queue)", OF _ this]
    show ?thesis by simp
  qed
qed (auto intro: one_step_implies_mult [of "{#_#}" "{#}", simplified])

fun extend_serves :: "attributed_subscription \<Rightarrow> attributed_subscription list \<Rightarrow> attributed_subscription list" where
  "extend_serves a [] = [a]"
| "extend_serves a (s # ss) =
     (if as_filters s = as_filters a then s\<lparr>as_serves := fold bs_insert (as_serves a) (as_serves s)\<rparr> # ss
      else s # extend_serves a ss)"

definition fold_identical_filters :: "attributed_subscription list \<Rightarrow> attributed_subscription list" where
  "fold_identical_filters candidates = fold extend_serves candidates []"

definition running_with :: "installed_subscriptions \<Rightarrow> filter list \<Rightarrow> subscription_id option" where
  "running_with inst fs =
     find (\<lambda>i. case bt_get inst i of None \<Rightarrow> False | Some entry \<Rightarrow> is_filters entry = fs) (bt_keys inst)"

fun fold_into_running ::
  "installed_subscriptions \<Rightarrow> attributed_subscription list \<Rightarrow> attached_demand \<times> attributed_subscription list
     \<Rightarrow> attached_demand \<times> attributed_subscription list" where
  "fold_into_running inst [] st = st"
| "fold_into_running inst (a # as) (attached, kept) =
     fold_into_running inst as
      (case running_with inst (as_filters a) of
         Some i \<Rightarrow> (attach_to i (as_serves a) attached, kept)
       | None \<Rightarrow> (attached, kept @ [a]))"

definition fit_residual_count ::
  "attributed_subscription list \<Rightarrow> relay_read_constraints \<Rightarrow> nat \<Rightarrow> subscription_shortfall list
     \<Rightarrow> attributed_subscription list \<times> subscription_shortfall list" where
  "fit_residual_count candidates c running shortfalls =
     (case declared_get (rrc_max_subscriptions c) of
        None \<Rightarrow> (candidates, shortfalls)
      | Some maximum \<Rightarrow>
          let residual = maximum - running in
          if length candidates \<le> residual then (candidates, shortfalls)
          else (take residual candidates,
                shortfalls @ concat (map (\<lambda>dropped. map (\<lambda>i.
                  \<lparr>sf_demand = i, sf_reason = SubscriptionsExhausted (running + length candidates) maximum\<rparr>) (as_serves dropped))
                  (drop residual candidates))))"

definition planned_of :: "attributed_subscription \<Rightarrow> planned_subscription" where
  "planned_of a = \<lparr>ps_filters = as_filters a, ps_serves = as_serves a, ps_completeness = as_completeness a\<rparr>"

definition assemble_sorted ::
  "wire_lib \<Rightarrow> relay_url \<Rightarrow> plan_revision \<Rightarrow> attributed_subscription list \<Rightarrow> relay_read_constraints \<Rightarrow> installed_subscriptions
     \<Rightarrow> attached_demand \<Rightarrow> subscription_shortfall list \<Rightarrow> subscription_plan" where
  "assemble_sorted W relay revision opened c inst owners shortfalls =
     assemble relay revision
       (sort_by (\<lambda>l r. wl_filters_le W (ps_filters l) (ps_filters r)) (map planned_of opened)) c inst owners shortfalls"

definition standard_plan ::
  "wire_lib \<Rightarrow> relay_url \<Rightarrow> relay_demand list \<Rightarrow> relay_read_constraints \<Rightarrow> installed_subscriptions \<Rightarrow> plan_revision
     \<Rightarrow> subscription_plan_error + subscription_plan" where
  "standard_plan W relay demand c inst revision =
     (case refuse_duplicate_demand [] demand of
        Inl e \<Rightarrow> Inl e
      | Inr _ \<Rightarrow>
          let (admissible, shortfalls) = admit_filter_limits demand c;
              (attached, pending) = attach_loop (\<lambda>d. host_for d inst) admissible ([], [])
          in case fit_message_bound W c (group W pending c) [] shortfalls of
               Inl e \<Rightarrow> Inl e
             | Inr (candidates, shortfalls) \<Rightarrow>
                 let (attached, candidates) = fold_into_running inst (fold_identical_filters candidates) (attached, []);
                     owners = surviving_owners admissible inst attached;
                     (candidates, shortfalls) = fit_residual_count candidates c (length owners) shortfalls
                 in Inr (assemble_sorted W relay revision candidates c inst owners shortfalls))"

declare fit_message_bound.simps [simp del]

subsection \<open>Splitting to the message bound\<close>

definition carried_entry :: "filter \<Rightarrow> relay_demand list \<Rightarrow> relay_read_constraints \<Rightarrow> attributed_subscription" where
  "carried_entry f ms c = \<lparr>as_filters = [f], as_serves = bs_of_list (map demand_id_of ms), as_completeness = completeness [f] c\<rparr>"

text \<open>What every round of the loop keeps holds of the result.\<close>

lemma fit_message_bound_rule:
  assumes "fit_message_bound W c queue carried sf = Inr (carried', sf')" "P queue carried sf"
    and drop: "\<And>f q ca s. P ((f, []) # q) ca s \<Longrightarrow> P q ca s"
    and carry: "\<And>f ms q ca s. ms \<noteq> [] \<Longrightarrow> P ((f, ms) # q) ca s \<Longrightarrow> P q (ca @ [carried_entry f ms c]) s"
    and refuse: "\<And>f d q ca s b m. P ((f, [d]) # q) ca s \<Longrightarrow> P q ca (s @ [\<lparr>sf_demand = demand_id_of d, sf_reason = MessageTooLarge b m\<rparr>])"
    and split: "\<And>f ms q ca s. P ((f, ms) # q) ca s \<Longrightarrow>
      P (q @ group W (take (midpoint ms) ms) c @ group W (drop (midpoint ms) ms) c) ca s"
  shows "P [] carried' sf'"
  using assms
proof (induction W c queue carried sf rule: fit_message_bound.induct)
  case (1 W c carried sf)
  then show ?case by (simp add: fit_message_bound.simps)
next
  case (2 W c f ms q ca s)
  note laws = "2.prems"(3-6)
  show ?case
  proof (cases "ms = []")
    case True
    with "2.prems"(1) have "fit_message_bound W c q ca s = Inr (carried', sf')" by (simp add: fit_message_bound.simps)
    from "2.IH"(1) [OF True this laws(1) laws] "2.prems"(2) True show ?thesis by simp
  next
    case ms: False
    with "2.prems"(1) obtain bytes where bytes: "encoded_bytes W [f] = Inr bytes"
      by (cases "encoded_bytes W [f]") (simp_all add: fit_message_bound.simps)
    have carry: "P q (ca @ [carried_entry f ms c]) s" by (rule laws(2) [OF ms "2.prems"(2)])
    show ?thesis
    proof (cases "declared_get (rrc_max_message_bytes c)")
      case None
      with "2.prems"(1) ms bytes have "fit_message_bound W c q (ca @ [carried_entry f ms c]) s = Inr (carried', sf')"
        by (simp add: fit_message_bound.simps(2) carried_entry_def)
      from "2.IH"(2) [OF ms bytes None this [unfolded carried_entry_def] carry [unfolded carried_entry_def] laws] show ?thesis .
    next
      case (Some maximum)
      show ?thesis
      proof (cases "bytes \<le> maximum")
        case True
        with "2.prems"(1) ms bytes Some have "fit_message_bound W c q (ca @ [carried_entry f ms c]) s = Inr (carried', sf')"
          by (simp add: fit_message_bound.simps(2) carried_entry_def)
        from "2.IH"(3) [OF ms bytes Some True this [unfolded carried_entry_def] carry [unfolded carried_entry_def] laws] show ?thesis .
      next
        case big: False
        show ?thesis
        proof (cases "length ms = 1")
          case True
          then obtain d where d: "ms = [d]" by (cases ms) auto
          from "2.prems"(1) ms bytes Some big True have "fit_message_bound W c q ca
              (s @ [\<lparr>sf_demand = demand_id_of (hd ms), sf_reason = MessageTooLarge bytes maximum\<rparr>]) = Inr (carried', sf')"
            by (simp add: fit_message_bound.simps(2))
          from "2.IH"(4) [OF ms bytes Some big True this _ laws] laws(3) "2.prems"(2) d show ?thesis by simp
        next
          case False
          with "2.prems"(1) ms bytes Some big have "fit_message_bound W c
              (q @ group W (take (midpoint ms) ms) c @ group W (drop (midpoint ms) ms) c) ca s = Inr (carried', sf')"
            by (simp add: fit_message_bound.simps(2))
          from "2.IH"(5) [OF ms bytes Some big False this laws(4) [OF "2.prems"(2)] laws] show ?thesis .
        qed
      qed
    qed
  qed
qed

definition attr_served :: "attributed_subscription list \<Rightarrow> demand_id set" where
  "attr_served as = (\<Union>a\<in>set as. set (as_serves a))"

lemma attr_served_simps [simp]:
  "attr_served [] = {}" "attr_served (a # as) = set (as_serves a) \<union> attr_served as" "attr_served (as @ bs) = attr_served as \<union> attr_served bs"
  by (simp_all add: attr_served_def)

definition queued :: "wire_candidate list \<Rightarrow> demand_id set" where
  "queued q = demand_id_of ` set_mset (member_mset q)"

lemma queued_simps [simp]:
  "queued [] = {}" "queued (g # q) = demand_id_of ` set (snd g) \<union> queued q" "queued (p @ q) = queued p \<union> queued q"
  "queued (group W ds c) = demand_id_of ` set ds"
  by (simp_all add: queued_def image_Un)

lemma fit_account:
  assumes "fit_message_bound W c queue [] sf = Inr (carried, sf')"
  shows "attr_served carried \<union> sf_demand ` set sf' = sf_demand ` set sf \<union> queued queue"
proof -
  let ?P = "\<lambda>q ca s. attr_served ca \<union> sf_demand ` set s \<union> queued q = sf_demand ` set sf \<union> queued queue"
  have halves: "demand_id_of ` set (take n ms) \<union> demand_id_of ` set (drop n ms) = demand_id_of ` set ms" for n ms
    by (metis append_take_drop_id image_Un set_append)
  have "?P [] carried sf'"
    using assms
  proof (rule fit_message_bound_rule [where P = ?P])
    show "?P (q @ group W (take (midpoint ms) ms) c @ group W (drop (midpoint ms) ms) c) ca s" if "?P ((f, ms) # q) ca s" for f ms q ca s
      using that halves [of "midpoint ms" ms] by (simp add: Un_ac)
  qed (auto simp: carried_entry_def Un_ac)
  then show ?thesis by simp
qed

lemma fit_served:
  assumes "fit_message_bound W c queue [] sf = Inr (carried, sf')"
  shows "attr_served carried \<subseteq> queued queue"
proof -
  let ?P = "\<lambda>q ca s. attr_served ca \<union> queued q \<subseteq> queued queue"
  have "?P [] carried sf'"
    using assms
    by (rule fit_message_bound_rule [where P = ?P])
      (simp_all add: carried_entry_def order_trans [OF image_mono [OF set_take_subset]] order_trans [OF image_mono [OF set_drop_subset]])
  then show ?thesis by simp
qed

text \<open>
  A request to open is for the demand it serves and for no other: its filters cover every
  member, and an event that matches one of them matches a member.
\<close>

definition attr_ok :: "relay_demand list \<Rightarrow> attributed_subscription \<Rightarrow> bool" where
  "attr_ok ds a \<longleftrightarrow> as_filters a \<noteq> []
     \<and> (\<forall>i\<in>set (as_serves a). \<exists>d\<in>set ds. demand_id_of d = i \<and> (\<exists>f\<in>set (as_filters a). filter_covers f (dm_filter d)))
     \<and> (\<forall>tagged found e. \<forall>f\<in>set (as_filters a). filter_admits tagged found f e \<longrightarrow>
          (\<exists>d\<in>set ds. demand_id_of d \<in> set (as_serves a) \<and> filter_admits tagged found (dm_filter d) e))"

definition queue_ok :: "relay_demand list \<Rightarrow> wire_candidate list \<Rightarrow> bool" where
  "queue_ok ds q \<longleftrightarrow> (\<forall>g\<in>set q. set (snd g) \<subseteq> set ds \<and> (snd g \<noteq> [] \<longrightarrow> candidate_ok g))"

lemma queue_ok_simps [simp]:
  "queue_ok ds []" "queue_ok ds (g # q) \<longleftrightarrow> (set (snd g) \<subseteq> set ds \<and> (snd g \<noteq> [] \<longrightarrow> candidate_ok g)) \<and> queue_ok ds q"
  "queue_ok ds (p @ q) \<longleftrightarrow> queue_ok ds p \<and> queue_ok ds q"
  by (auto simp: queue_ok_def)

lemma queue_ok_group:
  assumes "encodable W ds" "set es \<subseteq> set ds"
  shows "queue_ok ds (group W es c)"
proof -
  have "set (snd g) \<subseteq> set es" if "g \<in> set (group W es c)" for g
    using member_subset [OF that] by simp
  with group_ok [OF encodable_subset [OF assms]] assms(2) show ?thesis unfolding queue_ok_def by blast
qed

lemma carried_entry_ok: "candidate_ok (f, ms) \<Longrightarrow> set ms \<subseteq> set ds \<Longrightarrow> attr_ok ds (carried_entry f ms c)"
  unfolding attr_ok_def candidate_ok_def carried_entry_def by (auto 4 3)

lemma fit_ok:
  assumes "fit_message_bound W c queue [] sf = Inr (carried, sf')" "encodable W ds" "queue_ok ds queue"
  shows "\<forall>a\<in>set carried. attr_ok ds a"
proof -
  let ?P = "\<lambda>q ca s. queue_ok ds q \<and> (\<forall>a\<in>set ca. attr_ok ds a)"
  have "?P [] carried sf'"
    using assms(1)
  proof (rule fit_message_bound_rule [where P = ?P])
    show "?P (q @ group W (take (midpoint ms) ms) c @ group W (drop (midpoint ms) ms) c) ca s" if "?P ((f, ms) # q) ca s"
      for f ms q ca and s :: "subscription_shortfall list"
    proof -
      have "set (take (midpoint ms) ms) \<subseteq> set ds" "set (drop (midpoint ms) ms) \<subseteq> set ds"
        using that by (auto dest: in_set_takeD in_set_dropD)
      with that show ?thesis by (simp add: queue_ok_group [OF assms(2)])
    qed
    show "?P q (ca @ [carried_entry f ms c]) s" if "ms \<noteq> []" "?P ((f, ms) # q) ca s" for f ms q ca and s :: "subscription_shortfall list"
      using that carried_entry_ok [of f ms ds c] by simp
  qed (use assms(3) in simp_all)
  then show ?thesis by simp
qed

subsection \<open>Folding\<close>

lemma extend_serves_served: "attr_served (extend_serves a ss) = attr_served ss \<union> set (as_serves a)"
  by (induction ss) (auto simp: bs_fold_insert)

lemma extend_serves_filters: "set (map as_filters (extend_serves a ss)) = insert (as_filters a) (set (map as_filters ss))"
  by (induction ss) auto

lemma extend_serves_distinct: "distinct (map as_filters ss) \<Longrightarrow> distinct (map as_filters (extend_serves a ss))"
proof (induction ss)
  case (Cons s ss)
  then show ?case using extend_serves_filters [of a ss] by (cases "as_filters s = as_filters a") simp_all
qed simp

lemma attr_ok_extend:
  assumes "attr_ok ds a" "attr_ok ds s" "as_filters s = as_filters a"
  shows "attr_ok ds (s\<lparr>as_serves := fold bs_insert (as_serves a) (as_serves s)\<rparr>)"
  using assms unfolding attr_ok_def by (auto simp: bs_fold_insert) (metis+)

lemma extend_serves_ok: "attr_ok ds a \<Longrightarrow> \<forall>s\<in>set ss. attr_ok ds s \<Longrightarrow> \<forall>s\<in>set (extend_serves a ss). attr_ok ds s"
  by (induction ss) (simp_all add: attr_ok_extend)

lemma fold_identical_filters_spec:
  "attr_served (fold_identical_filters as) = attr_served as"
  "distinct (map as_filters (fold_identical_filters as))"
  "set (map as_filters (fold_identical_filters as)) = set (map as_filters as)"
proof -
  have "attr_served (fold extend_serves as ss) = attr_served ss \<union> attr_served as" for ss
    by (induction as arbitrary: ss) (simp_all add: extend_serves_served Un_ac)
  moreover have "distinct (map as_filters ss) \<Longrightarrow> distinct (map as_filters (fold extend_serves as ss))" for ss
    by (induction as arbitrary: ss) (simp_all add: extend_serves_distinct)
  moreover have "set (map as_filters (fold extend_serves as ss)) = set (map as_filters ss) \<union> set (map as_filters as)" for ss
    by (induction as arbitrary: ss) (simp_all add: extend_serves_filters del: set_map)
  ultimately show "attr_served (fold_identical_filters as) = attr_served as"
    "distinct (map as_filters (fold_identical_filters as))"
    "set (map as_filters (fold_identical_filters as)) = set (map as_filters as)"
    by (simp_all add: fold_identical_filters_def)
qed

lemma fold_identical_filters_ok:
  assumes "\<forall>a\<in>set as. attr_ok ds a"
  shows "\<forall>a\<in>set (fold_identical_filters as). attr_ok ds a"
proof -
  have "\<forall>s\<in>set ss. attr_ok ds s \<Longrightarrow> \<forall>s\<in>set (fold extend_serves as ss). attr_ok ds s" for ss
    using assms
  proof (induction as arbitrary: ss)
    case (Cons a as)
    from Cons.prems have "attr_ok ds a" by simp
    from Cons.IH [OF extend_serves_ok [OF this Cons.prems(1)]] Cons.prems(2) show ?case by simp
  qed simp
  from this [of "[]"] show ?thesis by (simp add: fold_identical_filters_def)
qed

lemma running_with_SomeD: "running_with inst fs = Some i \<Longrightarrow> \<exists>entry. bt_get inst i = Some entry \<and> is_filters entry = fs"
  by (auto simp: running_with_def find_Some_iff split: option.splits)

lemma running_with_None: "running_with inst fs = None \<Longrightarrow> bt_get inst i = Some entry \<Longrightarrow> is_filters entry \<noteq> fs"
  unfolding running_with_def find_None_iff set_bt_keys by (simp only: not_ex, drule spec [of _ i]) auto

lemma fold_into_running_spec:
  "fold_into_running inst as (m0, k0) = (m, kept) \<Longrightarrow>
     kept = k0 @ List.filter (\<lambda>a. running_with inst (as_filters a) = None) as
     \<and> (\<forall>i. attached_of m i = attached_of m0 i \<union> attr_served (List.filter (\<lambda>a. running_with inst (as_filters a) = Some i) as))"
proof (induction as arbitrary: m0 k0)
  case (Cons a as)
  show ?case
  proof (cases "running_with inst (as_filters a)")
    case None
    with Cons.prems have "fold_into_running inst as (m0, k0 @ [a]) = (m, kept)" by simp
    from Cons.IH [OF this] None show ?thesis by auto
  next
    case (Some i)
    with Cons.prems have "fold_into_running inst as (attach_to i (as_serves a) m0, k0) = (m, kept)" by simp
    from Cons.IH [OF this] Some show ?thesis by (auto simp: attached_of_attach_to)
  qed
qed auto

lemma fit_residual_count_spec:
  assumes "fit_residual_count as c running sf = (as', sf')"
  shows "set as' \<subseteq> set as" "distinct (map as_filters as) \<Longrightarrow> distinct (map as_filters as')"
    "attr_served as' \<union> sf_demand ` set sf' = attr_served as \<union> sf_demand ` set sf"
    "\<forall>maximum. declared_get (rrc_max_subscriptions c) = Some maximum \<longrightarrow> length as' \<le> maximum - running"
proof -
  have pieces: "as' = as \<and> sf' = sf \<or> (\<exists>n reason. as' = take n as \<and> sf' = sf @ concat (map (\<lambda>a. map (\<lambda>i.
      \<lparr>sf_demand = i, sf_reason = reason\<rparr>) (as_serves a)) (drop n as)))"
    using assms by (auto simp: fit_residual_count_def Let_def split: option.splits if_splits)
  have served: "attr_served as = attr_served (take n as) \<union> attr_served (drop n as)" for n
    by (metis append_take_drop_id attr_served_simps(3))
  have dropped: "sf_demand ` set (concat (map (\<lambda>a. map (\<lambda>i. \<lparr>sf_demand = i, sf_reason = reason\<rparr>) (as_serves a)) xs)) = attr_served xs"
    for reason xs by (induction xs) (auto simp: image_Un image_image)
  show "set as' \<subseteq> set as" using pieces by (auto dest: in_set_takeD)
  show "distinct (map as_filters as) \<Longrightarrow> distinct (map as_filters as')"
    using pieces by (auto simp: take_map [symmetric] distinct_take)
  show "attr_served as' \<union> sf_demand ` set sf' = attr_served as \<union> sf_demand ` set sf"
    using pieces
  proof (elim disjE exE conjE)
    fix n reason
    assume new: "as' = take n as" "sf' = sf @ concat (map (\<lambda>a. map (\<lambda>i. \<lparr>sf_demand = i, sf_reason = reason\<rparr>) (as_serves a)) (drop n as))"
    show ?thesis unfolding new set_append image_Un dropped served [of n] by (simp only: Un_ac)
  qed simp
  show "\<forall>maximum. declared_get (rrc_max_subscriptions c) = Some maximum \<longrightarrow> length as' \<le> maximum - running"
    using assms by (auto simp: fit_residual_count_def Let_def split: if_splits)
qed

subsection \<open>Attaching\<close>

definition serves_or_covers :: "installed_subscriptions \<Rightarrow> relay_demand \<Rightarrow> subscription_id \<Rightarrow> bool" where
  "serves_or_covers inst d i \<longleftrightarrow> (\<exists>entry. bt_get inst i = Some entry \<and>
     (demand_id_of d \<in> set (is_serves entry) \<or> (\<exists>f\<in>set (is_filters entry). filter_covers f (dm_filter d))))"

lemma host_loop_Some: "host_loop inst d is covering = Some i \<Longrightarrow> covering = Some i \<or> serves_or_covers inst d i"
  by (induction "is" arbitrary: covering)
    (auto simp: serves_or_covers_def split: option.splits if_splits)

lemma host_for_Some: "host_for d inst = Some i \<Longrightarrow> serves_or_covers inst d i"
  unfolding host_for_def using host_loop_Some by fastforce

subsection \<open>The plan\<close>

lemma standard_plan_cases:
  assumes "standard_plan W relay demand c inst revision = Inr p"
  obtains adm and sf0 sf1 sf2 :: "subscription_shortfall list" and attached0 attached and pending :: "relay_demand list"
    and carried kept opened owners
  where "p = assemble_sorted W relay revision opened c inst owners sf2" "distinct (map demand_id_of demand)"
    "adm = List.filter (\<lambda>d. \<not> over_limit c d) demand" "sf_demand ` set sf0 = demand_id_of ` set (List.filter (over_limit c) demand)"
    "set pending = {d \<in> set adm. host_for d inst = None}"
    "\<forall>i. attached_of attached0 i = demand_id_of ` {d\<in>set adm. host_for d inst = Some i}"
    "fit_message_bound W c (group W pending c) [] sf0 = Inr (carried, sf1)"
    "fold_into_running inst (fold_identical_filters carried) (attached0, []) = (attached, kept)"
    "owners = surviving_owners adm inst attached" "fit_residual_count kept c (length owners) sf1 = (opened, sf2)"
proof -
  obtain adm sf0 where adm: "admit_filter_limits demand c = (adm, sf0)" by fastforce
  obtain attached0 pending where att: "attach_loop (\<lambda>d. host_for d inst) adm ([], []) = (attached0, pending)" by fastforce
  note spec = attach_loop_spec [OF att]
  have s0: "sf_demand ` set sf0 = demand_id_of ` set (List.filter (over_limit c) demand)"
    using arg_cong [OF admit_filter_limits_spec(2) [OF adm], of set] by (simp only: set_map)
  from assms obtain u where dup: "refuse_duplicate_demand [] demand = Inr u"
    by (cases "refuse_duplicate_demand [] demand") (simp_all add: standard_plan_def)
  from assms dup obtain carried sf1 where fit: "fit_message_bound W c (group W pending c) [] sf0 = Inr (carried, sf1)"
    by (cases "fit_message_bound W c (group W pending c) [] sf0") (auto simp: standard_plan_def adm att)
  obtain attached kept where run: "fold_into_running inst (fold_identical_filters carried) (attached0, []) = (attached, kept)" by fastforce
  obtain opened sf2 where res:
    "fit_residual_count kept c (length (surviving_owners adm inst attached)) sf1 = (opened, sf2)" by fastforce
  from assms dup have "p = assemble_sorted W relay revision opened c inst (surviving_owners adm inst attached) sf2"
    by (simp add: standard_plan_def adm att fit run res Let_def)
  from that [OF this _ admit_filter_limits_spec(1) [OF adm] s0 _ _ fit run refl res] spec dup
    refuse_duplicate_demand_Inr [of "[]" demand u]
  show thesis by simp
qed

lemma UN_by_option: "(\<Union>i. \<Union>a\<in>{a\<in>A. r a = Some i}. S a) \<union> (\<Union>a\<in>{a\<in>A. r a = None}. S a) = (\<Union>a\<in>A. S a)"
  by auto (metis option.exhaust)

lemma attr_served_by_option:
  "(\<Union>i. attr_served (List.filter (\<lambda>a. r a = Some i) as)) \<union> attr_served (List.filter (\<lambda>a. r a = None) as) = attr_served as"
  unfolding attr_served_def set_filter by (rule UN_by_option)

lemma image_by_option: "(\<Union>i. f ` {d\<in>A. h d = Some i}) = f ` {d\<in>A. h d \<noteq> None}"
  by auto

text \<open>The demand of the running subscriptions once candidates with running filters are attached.\<close>

lemma standard_attached:
  assumes "fold_into_running inst as (attached0, []) = (attached, kept)"
    and "\<forall>i. attached_of attached0 i = demand_id_of ` {d\<in>set adm. host_for d inst = Some i}"
    and "attr_served as \<subseteq> demand_id_of ` set adm"
  shows "attached_ok adm inst attached"
    "(\<Union>i. attached_of attached i) \<union> attr_served kept = demand_id_of ` {d\<in>set adm. host_for d inst \<noteq> None} \<union> attr_served as"
proof -
  note spec = fold_into_running_spec [OF assms(1)]
  have att: "attached_of attached i = demand_id_of ` {d\<in>set adm. host_for d inst = Some i}
      \<union> attr_served (List.filter (\<lambda>a. running_with inst (as_filters a) = Some i) as)" for i
    using spec assms(2) by simp
  have sub: "attr_served (List.filter P as) \<subseteq> attr_served as" for P by (auto simp: attr_served_def)
  show "attached_ok adm inst attached"
    unfolding attached_ok_def
  proof (intro conjI allI impI)
    show "attached_of attached i \<subseteq> demand_id_of ` set adm" for i
      unfolding att using subset_trans [OF sub assms(3)] by (simp add: image_mono)
    show "bt_get inst i \<noteq> None" if "attached_of attached i \<noteq> {}" for i
    proof -
      from that consider d where "host_for d inst = Some i"
        | a :: attributed_subscription where "running_with inst (as_filters a) = Some i"
        unfolding att by (auto simp: attr_served_def)
      then show ?thesis
        by cases (auto dest!: host_for_Some running_with_SomeD simp: serves_or_covers_def)
    qed
  qed
  have "kept = List.filter (\<lambda>a. running_with inst (as_filters a) = None) as" using spec by simp
  from attr_served_by_option [of "\<lambda>a. running_with inst (as_filters a)" as, folded this]
    image_by_option [of demand_id_of "set adm" "\<lambda>d. host_for d inst"]
  show "(\<Union>i. attached_of attached i) \<union> attr_served kept = demand_id_of ` {d\<in>set adm. host_for d inst \<noteq> None} \<union> attr_served as"
    unfolding att UN_Un_distrib by (simp only: Un_assoc)
qed

lemma standard_opened:
  assumes "fold_into_running inst (fold_identical_filters carried) (attached0, []) = (attached, kept)"
    and "fit_residual_count kept c n sf = (opened, sf')" "\<forall>a\<in>set carried. as_filters a \<noteq> []"
  shows "opened_ok inst (sort_by le (map planned_of opened))"
proof -
  have kept: "kept = List.filter (\<lambda>a. running_with inst (as_filters a) = None) (fold_identical_filters carried)"
    using fold_into_running_spec [OF assms(1)] by simp
  note res = fit_residual_count_spec [OF assms(2)]
  have filters: "set (map as_filters opened) \<subseteq> set (map as_filters carried)"
    using res(1) fold_identical_filters_spec(3) [of carried] by (auto simp: kept)
  have "distinct (map as_filters kept)"
    using fold_identical_filters_spec(2) [of carried] by (simp add: kept distinct_map_filter)
  then have "distinct (map as_filters opened)" by (rule res(2))
  then have dist: "distinct (map ps_filters (map planned_of opened))" by (simp add: planned_of_def comp_def)
  have "is_filters entry \<noteq> as_filters a" if "bt_get inst i = Some entry" "a \<in> set opened" for i entry a
    using that res(1) running_with_None [OF _ that(1)] by (auto simp: kept)
  then show ?thesis
    using dist filters assms(3) unfolding opened_ok_def distinct_sort_by set_sort_by
    by (fastforce simp: planned_of_def)
qed

lemma served_by_planned: "served_by (sort_by le (map planned_of as)) = attr_served as"
  by (auto simp: served_by_def attr_served_def planned_of_def)

lemma carried_entries_nonempty:
  assumes "fit_message_bound W c queue [] sf = Inr (carried, sf')"
  shows "\<forall>a\<in>set carried. as_filters a \<noteq> []"
  using fit_message_bound_rule [where P = "\<lambda>q ca s. \<forall>a\<in>set ca. as_filters a \<noteq> []", OF assms]
  by (simp add: carried_entry_def)

lemma account_union_running:
  "F0 = R \<Longrightarrow> R \<union> M = D \<Longrightarrow> H \<union> P = M \<Longrightarrow> C \<union> F1 = F0 \<union> P \<Longrightarrow> A \<union> K = H \<union> C \<Longrightarrow> S \<union> F2 = K \<union> F1 \<Longrightarrow> F2 \<union> S \<union> A = D"
  by blast

lemma standard_conforms:
  assumes "standard_plan W relay demand c inst revision = Inr p" "bt_wf inst" "refusals_idle demand c inst"
  shows "conforms relay demand c inst p"
  using assms(1)
proof (cases rule: standard_plan_cases)
  case (1 adm sf0 sf1 sf2 attached0 attached pending carried kept opened owners)
  let ?open = "sort_by (\<lambda>l r. wl_filters_le W (ps_filters l) (ps_filters r)) (map planned_of opened)"
  note folded = fold_identical_filters_spec(1) [of carried]
  have fit: "attr_served carried \<union> sf_demand ` set sf1 = sf_demand ` set sf0 \<union> demand_id_of ` set pending"
    using fit_account [OF 1(7)] by simp
  have pend: "demand_id_of ` {d\<in>set adm. host_for d inst \<noteq> None} \<union> demand_id_of ` set pending = demand_id_of ` set adm"
    unfolding 1(5) image_Un [symmetric] by (rule arg_cong [of _ _ "image demand_id_of"]) auto
  have over: "demand_id_of ` set (List.filter (over_limit c) demand) \<union> demand_id_of ` set adm = demand_id_of ` set demand"
    unfolding 1(3) image_Un [symmetric] by (rule arg_cong [of _ _ "image demand_id_of"]) auto
  have "demand_id_of ` set pending \<subseteq> demand_id_of ` set adm" unfolding pend [symmetric] by (rule Un_upper2)
  with fit_served [OF 1(7)] have "attr_served (fold_identical_filters carried) \<subseteq> demand_id_of ` set adm"
    unfolding folded queued_simps by (rule subset_trans)
  note att = standard_attached [OF 1(8,6) this, unfolded folded]
  note res = fit_residual_count_spec [OF 1(10)]
  have "sf_demand ` set sf2 \<union> served_by ?open \<union> (\<Union>i. attached_of attached i) = demand_id_of ` set demand"
    unfolding served_by_planned using 1(4) over pend fit att(2) res(3) by (rule account_union_running)
  moreover have "\<forall>maximum. declared_get (rrc_max_subscriptions c) = Some maximum \<longrightarrow> length ?open \<le> maximum - length owners"
    using res(4) by simp
  ultimately show ?thesis
    unfolding 1(1) assemble_sorted_def
    by (rule assembled_conforms [OF assms(2,3) att(1) standard_opened [OF 1(8,10) carried_entries_nonempty [OF 1(7)]] 1(3,9)])
qed

lemma standard_opened_ok:
  assumes "standard_plan W relay demand c inst revision = Inr p" "encodable W demand"
  obtains adm attached owners opened sf pending carried
  where "p = assemble_sorted W relay revision opened c inst owners sf" "distinct (map demand_id_of demand)" "set adm \<subseteq> set demand"
    "owners = surviving_owners adm inst attached" "set pending \<subseteq> set adm" "\<forall>a\<in>set carried. attr_ok pending a" "\<forall>a\<in>set opened. attr_ok pending a"
    "attached_ok adm inst attached"
    "\<forall>i. attached_of attached i = demand_id_of ` {d\<in>set adm. host_for d inst = Some i}
      \<union> attr_served (List.filter (\<lambda>a. running_with inst (as_filters a) = Some i) carried)"
  using assms(1)
proof (cases rule: standard_plan_cases)
  case (1 adm sf0 sf1 sf2 attached0 attached pending carried kept opened owners)
  have adm: "set adm \<subseteq> set demand" by (auto simp: 1(3))
  have pend: "set pending \<subseteq> set adm" by (auto simp: 1(5))
  with adm have "encodable W pending" by (intro encodable_subset [OF assms(2)]) (rule subset_trans)
  from fit_ok [OF 1(7) this queue_ok_group [OF this order_refl]] have "\<forall>a\<in>set carried. attr_ok pending a" .
  then have folded: "\<forall>a\<in>set (fold_identical_filters carried). attr_ok pending a" by (rule fold_identical_filters_ok)
  have "kept = List.filter (\<lambda>a. running_with inst (as_filters a) = None) (fold_identical_filters carried)"
    using fold_into_running_spec [OF 1(8)] by simp
  with folded fit_residual_count_spec(1) [OF 1(10)] have opened: "\<forall>a\<in>set opened. attr_ok pending a" by auto
  have "attr_served (fold_identical_filters carried) \<subseteq> demand_id_of ` set adm"
    using fit_served [OF 1(7)] pend unfolding fold_identical_filters_spec(1) queued_simps by (metis image_mono subset_trans)
  note att = standard_attached [OF 1(8,6) this]
  show thesis
    by (rule that [OF 1(1,2) adm 1(9) pend folded opened att(1)]) (use fold_into_running_spec [OF 1(8)] 1(6) in simp)
qed

lemma standard_coverage:
  assumes "standard_plan W relay demand c inst revision = Inr p" "baseline demand inst" "encodable W demand"
    and d: "d \<in> set demand" "demand_id_of d \<in> set (served_demand p)"
  shows "\<exists>f\<in>serving_filters p (demand_id_of d). filter_covers f (dm_filter d)"
  using assms(1,3)
proof (cases rule: standard_opened_ok)
  case (1 adm attached owners opened sf pending carried)
  have pend: "set pending \<subseteq> set demand" using 1(3,5) by (rule subset_trans [rotated])
  have same: "x = y" if "x \<in> set demand" "y \<in> set pending" "demand_id_of y = demand_id_of x" for x y
    using distinct_demand [OF 1(2) that(1), of y] that pend by auto
  have joined: "\<forall>i d entry. d \<in> set demand \<longrightarrow> demand_id_of d \<in> attached_of attached i \<longrightarrow> bt_get inst i = Some entry \<longrightarrow>
      (\<exists>f\<in>set (is_filters entry). filter_covers f (dm_filter d))"
  proof (intro allI impI)
    fix i d entry
    assume d: "d \<in> set demand" "demand_id_of d \<in> attached_of attached i" "bt_get inst i = Some entry"
    from d(2) consider (host) d' where "d' \<in> set adm" "host_for d' inst = Some i" "demand_id_of d = demand_id_of d'"
      | (running) a where "a \<in> set carried" "running_with inst (as_filters a) = Some i" "demand_id_of d \<in> set (as_serves a)"
      unfolding 1(9) [rule_format] by (auto simp: attr_served_def)
    then show "\<exists>f\<in>set (is_filters entry). filter_covers f (dm_filter d)"
    proof cases
      case host
      then have "d' = d" using distinct_demand [OF 1(2) d(1), of d'] 1(3) by auto
      with host_for_Some [OF host(2)] d show ?thesis
        using assms(2) by (auto simp: serves_or_covers_def baseline_def)
    next
      case running
      then obtain d' where "d' \<in> set pending" "demand_id_of d' = demand_id_of d" "\<exists>f\<in>set (as_filters a). filter_covers f (dm_filter d')"
        using 1(6) unfolding attr_ok_def by blast
      with same [OF d(1)] running_with_SomeD [OF running(2)] d(3) show ?thesis by auto
    qed
  qed
  have fresh: "\<forall>s\<in>set (sort_by le (map planned_of opened)). \<forall>d\<in>set demand. demand_id_of d \<in> set (ps_serves s) \<longrightarrow>
      (\<exists>f\<in>set (ps_filters s). filter_covers f (dm_filter d))" for le
  proof (intro ballI impI)
    fix s d
    assume s: "s \<in> set (sort_by le (map planned_of opened))" "d \<in> set demand" "demand_id_of d \<in> set (ps_serves s)"
    then obtain a where a: "a \<in> set opened" "s = planned_of a" by auto
    then have "demand_id_of d \<in> set (as_serves a)" using s(3) by (simp add: planned_of_def)
    with a(1) 1(7) obtain d' where "d' \<in> set pending" "demand_id_of d' = demand_id_of d" "\<exists>f\<in>set (as_filters a). filter_covers f (dm_filter d')"
      unfolding attr_ok_def by blast
    with same [OF s(2)] a show "\<exists>f\<in>set (ps_filters s). filter_covers f (dm_filter d)" by (auto simp: planned_of_def)
  qed
  from assembled_coverage [OF assms(2) 1(8,3,4) joined fresh d(1)] d(2)
  show ?thesis unfolding 1(1) assemble_sorted_def by blast
qed

interpretation standard: subscription_planner "standard_plan W" "encodable W"
  by unfold_locales (blast intro: standard_conforms, blast intro: standard_coverage)

end
