(* ===== verification/Subscriptions_No_Grouping.thy ===== *)
theory Subscriptions_No_Grouping
  imports Subscription_Planning
begin

section \<open>One subscription per demand (\<open>fava-subscriptions-no-grouping\<close>)\<close>

text \<open>
  \<open>crates/fava-subscriptions-no-grouping/src/lib.rs\<close>: the planner that never merges, with the
  proof that it keeps the planner interface.
\<close>

definition running_host :: "installed_subscriptions \<Rightarrow> relay_demand \<Rightarrow> subscription_id option" where
  "running_host inst d =
     find (\<lambda>i. case bt_get inst i of
                 None \<Rightarrow> False
               | Some entry \<Rightarrow> demand_id_of d \<in> set (is_serves entry) \<or> is_filters entry = [dm_filter d]) (bt_keys inst)"

text \<open>\<open>usize::MAX\<close>, the length of a request that cannot be encoded.\<close>

definition usize_max :: nat where
  "usize_max = 18446744073709551615"

definition encoded_bytes_or_max :: "wire_lib \<Rightarrow> filter \<Rightarrow> nat" where
  "encoded_bytes_or_max W f = (case wl_request_len W [f] of Inl _ \<Rightarrow> usize_max | Inr n \<Rightarrow> n)"

fun join_planned :: "filter list \<Rightarrow> demand_id \<Rightarrow> planned_subscription list \<Rightarrow> planned_subscription list" where
  "join_planned fs i [] = []"
| "join_planned fs i (s # ss) =
     (if ps_filters s = fs then s\<lparr>ps_serves := bs_insert i (ps_serves s)\<rparr> # ss else s # join_planned fs i ss)"

fun admit_pending_loop ::
  "wire_lib \<Rightarrow> relay_read_constraints \<Rightarrow> (nat \<times> nat) option \<Rightarrow> nat \<Rightarrow> relay_demand list
     \<Rightarrow> planned_subscription list \<times> filter list list \<times> subscription_shortfall list
     \<Rightarrow> planned_subscription list \<times> filter list list \<times> subscription_shortfall list" where
  "admit_pending_loop W c residual required [] st = st"
| "admit_pending_loop W c residual required (d # ds) (carried, running, shortfalls) =
     admit_pending_loop W c residual required ds
      (let fs = [dm_filter d]; bytes = encoded_bytes_or_max W (dm_filter d) in
       case (case residual of Some (left, maximum) \<Rightarrow> if length carried \<ge> left then Some maximum else None | None \<Rightarrow> None) of
         Some maximum \<Rightarrow> (carried, running,
           shortfalls @ [\<lparr>sf_demand = demand_id_of d, sf_reason = SubscriptionsExhausted required maximum\<rparr>])
       | None \<Rightarrow>
           if fs \<in> set (map ps_filters carried) then (join_planned fs (demand_id_of d) carried, running, shortfalls)
           else if fs \<in> set running then (carried, running, shortfalls)
           else case (case declared_get (rrc_max_message_bytes c) of
                        Some maximum \<Rightarrow> if bytes > maximum then Some maximum else None | None \<Rightarrow> None) of
             Some maximum \<Rightarrow> (carried, running,
               shortfalls @ [\<lparr>sf_demand = demand_id_of d, sf_reason = MessageTooLarge bytes maximum\<rparr>])
           | None \<Rightarrow> (carried @ [\<lparr>ps_filters = fs, ps_serves = [demand_id_of d], ps_completeness = completeness fs c\<rparr>],
                      running @ [fs], shortfalls))"

definition admit_pending ::
  "wire_lib \<Rightarrow> relay_demand list \<Rightarrow> relay_read_constraints \<Rightarrow> installed_subscriptions \<Rightarrow> nat \<Rightarrow> subscription_shortfall list
     \<Rightarrow> planned_subscription list \<times> subscription_shortfall list" where
  "admit_pending W pending c inst running shortfalls =
     (let residual = map_option (\<lambda>maximum. (maximum - running, maximum)) (declared_get (rrc_max_subscriptions c));
          (carried, _, shortfalls) =
            admit_pending_loop W c residual (running + length pending) pending
              ([], List.map_filter (\<lambda>i. map_option is_filters (bt_get inst i)) (bt_keys inst), shortfalls)
      in (carried, shortfalls))"

definition one_per_demand_plan ::
  "wire_lib \<Rightarrow> relay_url \<Rightarrow> relay_demand list \<Rightarrow> relay_read_constraints \<Rightarrow> installed_subscriptions \<Rightarrow> plan_revision
     \<Rightarrow> subscription_plan_error + subscription_plan" where
  "one_per_demand_plan W relay demand c inst revision =
     (case refuse_duplicate_demand [] demand of
        Inl e \<Rightarrow> Inl e
      | Inr _ \<Rightarrow>
          let (admissible, shortfalls) = admit_filter_limits demand c;
              (attached, pending) = attach_loop (running_host inst) admissible ([], []);
              pending = sort_by (\<lambda>x y. demand_id_of x \<le> demand_id_of y) pending;
              owners = surviving_owners admissible inst attached;
              (carried, shortfalls) = admit_pending W pending c inst (length owners) shortfalls
          in Inr (assemble relay revision carried c inst owners shortfalls))"

subsection \<open>The pending demand\<close>

lemma join_planned_filters [simp]: "map ps_filters (join_planned fs i ss) = map ps_filters ss"
  by (induction ss) auto

lemma join_planned_length [simp]: "length (join_planned fs i ss) = length ss"
  by (induction ss) auto

lemma join_planned_serves:
  "fs \<in> set (map ps_filters ss) \<Longrightarrow> (\<Union>s\<in>set (join_planned fs i ss). set (ps_serves s)) = insert i (\<Union>s\<in>set ss. set (ps_serves s))"
  by (induction ss) auto

lemma join_planned_members:
  "s \<in> set (join_planned fs i ss) \<Longrightarrow>
   (s \<in> set ss \<or> (\<exists>t\<in>set ss. ps_filters t = fs \<and> ps_filters s = fs \<and> set (ps_serves s) = insert i (set (ps_serves t))))"
  by (induction ss) (auto split: if_splits)

text \<open>What the loop keeps: the accounting of the pending demand and the filters it opens.\<close>

definition carried_ok :: "relay_demand list \<Rightarrow> filter list list \<Rightarrow> planned_subscription list \<Rightarrow> bool" where
  "carried_ok seen start carried \<longleftrightarrow> distinct (map ps_filters carried) \<and> set (map ps_filters carried) \<inter> set start = {}
     \<and> (\<forall>s\<in>set carried. ps_filters s \<noteq> [] \<and> ps_serves s \<noteq> [] \<and> (\<forall>i\<in>set (ps_serves s). \<exists>d\<in>set seen. demand_id_of d = i \<and> ps_filters s = [dm_filter d]))"

lemma carried_ok_mono: "carried_ok seen start carried \<Longrightarrow> carried_ok (seen @ [d]) start carried"
  by (fastforce simp: carried_ok_def)

lemma carried_ok_join:
  assumes "carried_ok seen start carried"
  shows "carried_ok (seen @ [d]) start (join_planned [dm_filter d] (demand_id_of d) carried)"
  unfolding carried_ok_def
proof (intro conjI ballI impI)
  note ok = assms [unfolded carried_ok_def]
  show "distinct (map ps_filters (join_planned [dm_filter d] (demand_id_of d) carried))"
    "set (map ps_filters (join_planned [dm_filter d] (demand_id_of d) carried)) \<inter> set start = {}" using ok by (simp_all del: set_map)
  fix s
  assume "s \<in> set (join_planned [dm_filter d] (demand_id_of d) carried)"
  from join_planned_members [OF this] consider "s \<in> set carried"
    | t where "t \<in> set carried" "ps_filters t = [dm_filter d]" "ps_filters s = [dm_filter d]" "set (ps_serves s) = insert (demand_id_of d) (set (ps_serves t))"
    by blast
  then have "ps_filters s \<noteq> [] \<and> ps_serves s \<noteq> [] \<and>
      (\<forall>i\<in>set (ps_serves s). \<exists>d\<in>set (seen @ [d]). demand_id_of d = i \<and> ps_filters s = [dm_filter d])"
    using ok by cases (fastforce, force)
  then show "ps_filters s \<noteq> []" "ps_serves s \<noteq> []"
    "\<And>i. i \<in> set (ps_serves s) \<Longrightarrow> \<exists>d\<in>set (seen @ [d]). demand_id_of d = i \<and> ps_filters s = [dm_filter d]" by blast+
qed

lemma carried_ok_push:
  assumes "carried_ok seen start carried" "[dm_filter d] \<notin> set (map ps_filters carried)" "[dm_filter d] \<notin> set start"
  shows "carried_ok (seen @ [d]) start (carried @ [\<lparr>ps_filters = [dm_filter d], ps_serves = [demand_id_of d], ps_completeness = k\<rparr>])"
  using assms unfolding carried_ok_def by fastforce

lemma admit_pending_loop_inv:
  assumes "admit_pending_loop W c residual required ds (carried, running, sf) = (carried', running', sf')"
    and "carried_ok seen start carried" "set running = set start \<union> set (map ps_filters carried)"
    and "\<forall>d\<in>set ds. [dm_filter d] \<notin> set start"
    and "\<forall>left maximum. residual = Some (left, maximum) \<longrightarrow> length carried \<le> left"
  shows "carried_ok (seen @ ds) start carried'
    \<and> (\<forall>left maximum. residual = Some (left, maximum) \<longrightarrow> length carried' \<le> left)
    \<and> served_by carried' \<union> sf_demand ` set sf' = served_by carried \<union> sf_demand ` set sf \<union> demand_id_of ` set ds"
  using assms
proof (induction ds arbitrary: seen carried running sf)
  case (Cons d ds)
  let ?fs = "[dm_filter d]"
  let ?full = "case residual of Some (left, maximum) \<Rightarrow> if length carried \<ge> left then Some maximum else None | None \<Rightarrow> None"
  let ?big = "case declared_get (rrc_max_message_bytes c) of
      Some maximum \<Rightarrow> if encoded_bytes_or_max W (dm_filter d) > maximum then Some maximum else None | None \<Rightarrow> None"
  have rest: "\<forall>d\<in>set ds. [dm_filter d] \<notin> set start" and new: "?fs \<notin> set start" using Cons.prems(4) by simp_all
  note mono = carried_ok_mono [OF Cons.prems(2), of d]
  have step: "carried_ok (seen @ d # ds) start carried'
      \<and> (\<forall>left maximum. residual = Some (left, maximum) \<longrightarrow> length carried' \<le> left)
      \<and> served_by carried' \<union> sf_demand ` set sf' = served_by carried2 \<union> sf_demand ` set sf2 \<union> demand_id_of ` set ds"
    if "admit_pending_loop W c residual required ds (carried2, running2, sf2) = (carried', running', sf')"
      "carried_ok (seen @ [d]) start carried2" "set running2 = set start \<union> set (map ps_filters carried2)"
      "\<forall>left maximum. residual = Some (left, maximum) \<longrightarrow> length carried2 \<le> left" for carried2 running2 sf2
    using Cons.IH [OF that(1,2,3) rest that(4)] by simp
  show ?case
  proof (cases ?full)
    case (Some maximum)
    with Cons.prems(1) have "admit_pending_loop W c residual required ds (carried, running,
        sf @ [\<lparr>sf_demand = demand_id_of d, sf_reason = SubscriptionsExhausted required maximum\<rparr>]) = (carried', running', sf')"
      by (simp add: Let_def)
    from step [OF this mono Cons.prems(3,5)] show ?thesis by auto
  next
    case room: None
    show ?thesis
    proof (cases "?fs \<in> set (map ps_filters carried)")
      case True
      with room Cons.prems(1) have "admit_pending_loop W c residual required ds
          (join_planned ?fs (demand_id_of d) carried, running, sf) = (carried', running', sf')"
        by (simp add: Let_def)
      from step [OF this carried_ok_join [OF Cons.prems(2)]] Cons.prems(3,5) join_planned_serves [OF True]
      show ?thesis by (auto simp: served_by_def simp del: set_map)
    next
      case False
      with Cons.prems(3) new have fresh: "?fs \<notin> set running" by simp
      show ?thesis
      proof (cases ?big)
        case (Some maximum)
        with room False fresh Cons.prems(1) have "admit_pending_loop W c residual required ds (carried, running,
            sf @ [\<lparr>sf_demand = demand_id_of d, sf_reason = MessageTooLarge (encoded_bytes_or_max W (dm_filter d)) maximum\<rparr>])
            = (carried', running', sf')"
          by (simp add: Let_def)
        from step [OF this mono Cons.prems(3,5)] show ?thesis by auto
      next
        case None
        with room False fresh Cons.prems(1) have "admit_pending_loop W c residual required ds
            (carried @ [\<lparr>ps_filters = ?fs, ps_serves = [demand_id_of d], ps_completeness = completeness ?fs c\<rparr>],
             running @ [?fs], sf) = (carried', running', sf')"
          by (simp add: Let_def)
        moreover have "\<forall>left maximum. residual = Some (left, maximum) \<longrightarrow> Suc (length carried) \<le> left"
          using room by (auto split: option.splits if_splits)
        ultimately show ?thesis
          using step [OF _ carried_ok_push [OF Cons.prems(2) False new]] Cons.prems(3) by (simp add: served_by_def Un_assoc)
      qed
    qed
  qed
qed auto

subsection \<open>The plan\<close>

lemma running_host_None:
  "running_host inst d = None \<Longrightarrow> bt_get inst i = Some entry \<Longrightarrow>
   demand_id_of d \<notin> set (is_serves entry) \<and> is_filters entry \<noteq> [dm_filter d]"
  unfolding running_host_def find_None_iff set_bt_keys by (simp only: not_ex, drule spec [of _ i]) auto

lemma running_host_Some:
  assumes "running_host inst d = Some i"
  obtains entry where "bt_get inst i = Some entry" "demand_id_of d \<in> set (is_serves entry) \<or> is_filters entry = [dm_filter d]"
  using assms unfolding running_host_def by (auto simp: find_Some_iff split: option.splits)

lemma running_filters_set:
  assumes "bt_get inst i = Some entry"
  shows "is_filters entry \<in> set (List.map_filter (\<lambda>i. map_option is_filters (bt_get inst i)) (bt_keys inst))"
  using assms by (auto simp: set_map_filter set_bt_keys)

text \<open>The pieces of a plan, with what the loops leave in them.\<close>

lemma one_per_demand_plan_cases:
  assumes "one_per_demand_plan W relay demand c inst revision = Inr p"
  obtains adm and sf0 sf :: "subscription_shortfall list" and attached and pending :: "relay_demand list" and owners carried
  where "p = assemble relay revision carried c inst owners sf" "distinct (map demand_id_of demand)"
    "adm = List.filter (\<lambda>d. \<not> over_limit c d) demand" "sf_demand ` set sf0 = demand_id_of ` set (List.filter (over_limit c) demand)"
    "set pending = {d \<in> set adm. running_host inst d = None}"
    "\<forall>i. attached_of attached i = demand_id_of ` {d\<in>set adm. running_host inst d = Some i}"
    "owners = surviving_owners adm inst attached"
    "carried_ok pending (List.map_filter (\<lambda>i. map_option is_filters (bt_get inst i)) (bt_keys inst)) carried"
    "\<forall>maximum. declared_get (rrc_max_subscriptions c) = Some maximum \<longrightarrow> length carried \<le> maximum - length owners"
    "served_by carried \<union> sf_demand ` set sf = sf_demand ` set sf0 \<union> demand_id_of ` set pending"
proof -
  obtain adm sf0 where adm: "admit_filter_limits demand c = (adm, sf0)" by fastforce
  obtain attached pend where att: "attach_loop (running_host inst) adm ([], []) = (attached, pend)" by fastforce
  define pending where "pending = sort_by (\<lambda>x y. demand_id_of x \<le> demand_id_of y) pend"
  define owners where "owners = surviving_owners adm inst attached"
  let ?start = "List.map_filter (\<lambda>i. map_option is_filters (bt_get inst i)) (bt_keys inst)"
  let ?residual = "map_option (\<lambda>maximum. (maximum - length owners, maximum)) (declared_get (rrc_max_subscriptions c))"
  obtain carried run sf where loop:
    "admit_pending_loop W c ?residual (length owners + length pending) pending ([], ?start, sf0) = (carried, run, sf)"
    by (rule prod_cases3)
  have len: "length pending = length pend" by (simp add: pending_def)
  have "one_per_demand_plan W relay demand c inst revision =
      (case refuse_duplicate_demand [] demand of Inl e \<Rightarrow> Inl e | Inr _ \<Rightarrow> Inr (assemble relay revision carried c inst owners sf))"
    by (cases "refuse_duplicate_demand [] demand")
      (simp_all add: one_per_demand_plan_def adm att pending_def [symmetric] owners_def [symmetric] admit_pending_def
        loop [unfolded len])
  with assms have dup: "distinct (map demand_id_of demand)" and p: "p = assemble relay revision carried c inst owners sf"
    using refuse_duplicate_demand_Inr [of "[]" demand] by (simp_all split: sum.splits)
  note spec = attach_loop_spec [OF att]
  have pend: "set pending = {d \<in> set adm. running_host inst d = None}"
    using spec by (auto simp: pending_def)
  have fresh: "\<forall>d\<in>set pending. [dm_filter d] \<notin> set ?start"
    using pend running_host_None [of inst] by (fastforce simp: set_map_filter)
  have "carried_ok [] ?start []" by (simp add: carried_ok_def)
  from admit_pending_loop_inv [OF loop this _ fresh]
  have inv: "carried_ok pending ?start carried"
    "\<And>left maximum. ?residual = Some (left, maximum) \<Longrightarrow> length carried \<le> left"
    "served_by carried \<union> sf_demand ` set sf = sf_demand ` set sf0 \<union> demand_id_of ` set pending"
    by (auto simp: served_by_def)
  have s0: "sf_demand ` set sf0 = demand_id_of ` set (List.filter (over_limit c) demand)"
    using arg_cong [OF admit_filter_limits_spec(2) [OF adm], of set] by (simp only: set_map)
  have lim: "\<forall>maximum. declared_get (rrc_max_subscriptions c) = Some maximum \<longrightarrow> length carried \<le> maximum - length owners"
    using inv(2) by simp
  have att2: "\<forall>i. attached_of attached i = demand_id_of ` {d\<in>set adm. running_host inst d = Some i}"
    using spec by simp
  show thesis
    by (rule that [OF p dup admit_filter_limits_spec(1) [OF adm] s0 pend att2 owners_def inv(1) lim inv(3)])
qed

lemma one_per_demand_attached:
  assumes "\<forall>i. attached_of attached i = demand_id_of ` {d\<in>set adm. running_host inst d = Some i}"
  shows "attached_ok adm inst attached"
  unfolding attached_ok_def using assms by (auto elim!: running_host_Some)

lemma carried_opened_ok:
  assumes "carried_ok pending (List.map_filter (\<lambda>i. map_option is_filters (bt_get inst i)) (bt_keys inst)) carried"
  shows "opened_ok inst carried"
proof -
  note ok = assms [unfolded carried_ok_def]
  have "ps_filters s \<noteq> is_filters entry" if "bt_get inst i = Some entry" "s \<in> set carried" for i entry s
    using running_filters_set [OF that(1)] that(2) ok by auto
  with ok show ?thesis by (simp add: opened_ok_def)
qed

lemma one_per_demand_conforms:
  assumes "one_per_demand_plan W relay demand c inst revision = Inr p" "bt_wf inst" "refusals_idle demand c inst"
  shows "conforms relay demand c inst p"
  using assms(1)
proof (cases rule: one_per_demand_plan_cases)
  case (1 adm sf0 sf attached pending owners carried)
  have "(\<Union>i. attached_of attached i) \<union> demand_id_of ` set pending = demand_id_of ` set adm"
  proof
    show "demand_id_of ` set adm \<subseteq> (\<Union>i. attached_of attached i) \<union> demand_id_of ` set pending"
    proof
      fix x
      assume "x \<in> demand_id_of ` set adm"
      then obtain d where "d \<in> set adm" "x = demand_id_of d" by blast
      then show "x \<in> (\<Union>i. attached_of attached i) \<union> demand_id_of ` set pending"
        by (cases "running_host inst d") (auto simp: 1(5) 1(6) [rule_format])
    qed
  qed (auto simp: 1(5) 1(6) [rule_format])
  moreover have "demand_id_of ` set (List.filter (over_limit c) demand) \<union> demand_id_of ` set adm = demand_id_of ` set demand"
    unfolding 1(3) by (auto simp: image_iff)
  ultimately have "sf_demand ` set sf \<union> served_by carried \<union> (\<Union>i. attached_of attached i) = demand_id_of ` set demand"
    using 1(4,10) by (rule account_union)
  from assembled_conforms [OF assms(2,3) one_per_demand_attached [OF 1(6)] carried_opened_ok [OF 1(8)] 1(3,7) this 1(9)]
  show ?thesis unfolding 1(1) .
qed

lemma one_per_demand_coverage:
  assumes "one_per_demand_plan W relay demand c inst revision = Inr p" "baseline demand inst"
    and d: "d \<in> set demand" "demand_id_of d \<in> set (served_demand p)"
  shows "\<exists>f\<in>serving_filters p (demand_id_of d). filter_covers f (dm_filter d)"
  using assms(1)
proof (cases rule: one_per_demand_plan_cases)
  case (1 adm sf0 sf attached pending owners carried)
  have adm: "set adm \<subseteq> set demand" by (auto simp: 1(3))
  have joined: "\<forall>i d entry. d \<in> set demand \<longrightarrow> demand_id_of d \<in> attached_of attached i \<longrightarrow> bt_get inst i = Some entry \<longrightarrow>
      (\<exists>f\<in>set (is_filters entry). filter_covers f (dm_filter d))"
  proof (intro allI impI)
    fix i d entry
    assume d: "d \<in> set demand" "demand_id_of d \<in> attached_of attached i" "bt_get inst i = Some entry"
    from d(2) obtain d' where d': "d' \<in> set adm" "running_host inst d' = Some i" "demand_id_of d = demand_id_of d'"
      unfolding 1(6) [rule_format] by blast
    with adm distinct_demand [OF 1(2) d(1)] have "running_host inst d = Some i" by auto
    then show "\<exists>f\<in>set (is_filters entry). filter_covers f (dm_filter d)"
      using assms(2) d by (auto elim!: running_host_Some simp: baseline_def)
  qed
  have fresh: "\<forall>s\<in>set carried. \<forall>d\<in>set demand. demand_id_of d \<in> set (ps_serves s) \<longrightarrow>
      (\<exists>f\<in>set (ps_filters s). filter_covers f (dm_filter d))"
  proof (intro ballI impI)
    fix s d
    assume s: "s \<in> set carried" "d \<in> set demand" "demand_id_of d \<in> set (ps_serves s)"
    with 1(8) obtain d' where d': "d' \<in> set pending" "demand_id_of d' = demand_id_of d" "ps_filters s = [dm_filter d']"
      unfolding carried_ok_def by blast
    with 1(5) adm distinct_demand [OF 1(2) s(2), of d'] have "d' = d" by auto
    with d'(3) show "\<exists>f\<in>set (ps_filters s). filter_covers f (dm_filter d)" by simp
  qed
  from assembled_coverage [OF assms(2) one_per_demand_attached [OF 1(6)] adm 1(7) joined fresh d(1)] d(2)
  show ?thesis unfolding 1(1) by blast
qed

interpretation one_per_demand: subscription_planner "one_per_demand_plan W" "\<lambda>_. True"
  by unfold_locales (blast intro: one_per_demand_conforms, blast intro: one_per_demand_coverage)

end
