(* ===== verification/Subscription_Properties.thy ===== *)
theory Subscription_Properties
  imports Subscriptions_Standard Subscriptions_No_Grouping
begin

section \<open>What the planners guarantee\<close>

text \<open>
  The properties of the two planners, each through its interpretation of the planner
  interface, their agreement on what the relay is asked for, and the case in which both
  break the rule that a wanted subscription keeps running.
\<close>

definition opened_match :: "nostr_lib \<Rightarrow> subscription_plan \<Rightarrow> event \<Rightarrow> bool" where
  "opened_match N p e \<longleftrightarrow> (\<exists>s\<in>set (spl_open p). \<exists>f\<in>set (ps_filters s). filter_match_event N f e)"

text \<open>Both planners ask for nothing but what a served demand wants.\<close>

lemma standard_opened_exact:
  assumes "standard_plan W relay demand c inst revision = Inr p" "encodable W demand"
    and "s \<in> set (spl_open p)" "f \<in> set (ps_filters s)" "filter_admits tagged found f e"
  shows "\<exists>d\<in>set demand. demand_id_of d \<in> set (ps_serves s) \<and> filter_admits tagged found (dm_filter d) e"
  using assms(1,2)
proof (cases rule: standard_opened_ok)
  case (1 adm attached owners opened sf pending carried)
  from assms(3) obtain a where a: "a \<in> set opened" "s = planned_of a"
    unfolding 1(1) by (auto simp: assemble_sorted_def assemble_def Let_def)
  with assms(4) have "f \<in> set (as_filters a)" by (simp add: planned_of_def)
  with a(1) 1(7) assms(5) obtain d where "d \<in> set pending" "demand_id_of d \<in> set (as_serves a)" "filter_admits tagged found (dm_filter d) e"
    unfolding attr_ok_def by blast
  with 1(3,5) a show ?thesis by (auto simp: planned_of_def)
qed

lemma one_per_demand_opened_exact:
  assumes "one_per_demand_plan W relay demand c inst revision = Inr p"
    and "s \<in> set (spl_open p)" "f \<in> set (ps_filters s)" "filter_admits tagged found f e"
  shows "\<exists>d\<in>set demand. demand_id_of d \<in> set (ps_serves s) \<and> filter_admits tagged found (dm_filter d) e"
  using assms(1)
proof (cases rule: one_per_demand_plan_cases)
  case (1 adm sf0 sf attached pending owners carried)
  from assms(2) have s: "s \<in> set carried" unfolding 1(1) by (simp add: assemble_def Let_def)
  with 1(8) obtain i where "i \<in> set (ps_serves s)" unfolding carried_ok_def by (metis list.set_intros(1) neq_Nil_conv)
  moreover from this s 1(8) obtain d where "d \<in> set pending" "demand_id_of d = i" "ps_filters s = [dm_filter d]"
    unfolding carried_ok_def by blast
  ultimately show ?thesis using assms(3,4) 1(3,5) by auto
qed

text \<open>With nothing running, only opened subscriptions serve.\<close>

lemma serving_filters_fresh:
  assumes "conforms relay demand c [] p" "f \<in> serving_filters p i"
  shows "\<exists>s\<in>set (spl_open p). i \<in> set (ps_serves s) \<and> f \<in> set (ps_filters s)"
proof -
  from assms(1) have "set (bt_keys (spl_attribution p)) = {}" by (simp add: conforms_def bt_keys_def)
  then have "bt_get (spl_attribution p) k = None" for k by (simp add: bt_get_None_iff)
  with assms(2) show ?thesis by (simp add: serving_filters_def)
qed

lemma fresh_baseline [simp]: "baseline demand []" "refusals_idle demand c []" "bt_wf ([] :: installed_subscriptions)"
  by (simp_all add: baseline_def refusals_idle_def bt_wf_def)

context subscription_planner
begin

lemma fresh_plan_asks_for_the_demand:
  assumes "plan relay demand c [] revision = Inr p" "admissible demand" "spl_shortfalls p = []" "match_law N tagged found"
    and exact: "\<And>s f e. s \<in> set (spl_open p) \<Longrightarrow> f \<in> set (ps_filters s) \<Longrightarrow> filter_admits tagged found f e \<Longrightarrow>
      \<exists>d\<in>set demand. demand_id_of d \<in> set (ps_serves s) \<and> filter_admits tagged found (dm_filter d) e"
  shows "opened_match N p e \<longleftrightarrow> (\<exists>d\<in>set demand. filter_match_event N (dm_filter d) e)"
proof
  assume "opened_match N p e"
  with exact assms(4) show "\<exists>d\<in>set demand. filter_match_event N (dm_filter d) e"
    unfolding opened_match_def match_law_def by meson
next
  assume "\<exists>d\<in>set demand. filter_match_event N (dm_filter d) e"
  then obtain d where "d \<in> set demand" "filter_match_event N (dm_filter d) e" by blast
  with demand_delivered [OF assms(1) _ _ assms(2) _ _ assms(4)] assms(3)
  obtain f where "f \<in> serving_filters p (demand_id_of d)" "filter_match_event N f e" by auto
  moreover have "conforms relay demand c [] p" by (rule conformance [OF assms(1)]) simp_all
  ultimately show "opened_match N p e" unfolding opened_match_def using serving_filters_fresh by blast
qed

end

subsection \<open>Totality\<close>

lemma fit_message_bound_total:
  assumes "\<And>f. \<exists>n. wl_request_len W [f] = Inr n"
  shows "\<exists>r. fit_message_bound W c queue carried sf = Inr r"
  using assms
proof (induction W c queue carried sf rule: fit_message_bound.induct)
  case (2 W c f ms q ca s)
  from "2.prems" obtain n where n: "encoded_bytes W [f] = Inr n" by (metis encoded_bytes_def sum.case(2))
  show ?case
    by (cases "ms = []"; cases "declared_get (rrc_max_message_bytes c)"; cases "n \<le> the (declared_get (rrc_max_message_bytes c))";
        cases "length ms = 1")
      (use n "2.IH" "2.prems" in \<open>simp_all add: fit_message_bound.simps(2)\<close>)
qed (simp add: fit_message_bound.simps)

subsection \<open>The properties\<close>

text \<open>
  (C10) Every plan of the standard planner passes \<open>validate_plan\<close>, whatever is running, as long as
  the demand the relay's declared filter limit refuses is not running.
\<close>

theorem standard_plan_validates:
  assumes "standard_plan W relay demand c inst revision = Inr p" "bt_wf inst" "refusals_idle demand c inst"
  shows "validate_plan relay demand c inst p = Inr ()"
  using assms by (rule standard.plan_validates)

text \<open>So does every plan of the planner that never merges.\<close>

theorem one_per_demand_plan_validates:
  assumes "one_per_demand_plan W relay demand c inst revision = Inr p" "bt_wf inst" "refusals_idle demand c inst"
  shows "validate_plan relay demand c inst p = Inr ()"
  using assms by (rule one_per_demand.plan_validates)

text \<open>
  (C8) No demand is lost by grouping, attaching, splitting or folding: an event that matches a
  demand which the plan does not report as a shortfall matches a filter of a subscription that
  is attributed to this demand.
\<close>

theorem standard_plan_delivers:
  assumes "standard_plan W relay demand c inst revision = Inr p" "baseline demand inst" "refusals_idle demand c inst" "encodable W demand"
    and "d \<in> set demand" "demand_id_of d \<notin> sf_demand ` set (spl_shortfalls p)"
    and "match_law N tagged found" "filter_match_event N (dm_filter d) e"
  shows "\<exists>f\<in>serving_filters p (demand_id_of d). filter_match_event N f e"
  using assms by (rule standard.demand_delivered)

text \<open>
  (C9) The differential that the planner without grouping exists for: on a session with nothing
  running and no shortfall, the two planners ask the relay for exactly the same events, those
  that some demand wants.
\<close>

theorem planners_ask_for_the_same_events:
  assumes "standard_plan W relay demand c [] revision = Inr p" "one_per_demand_plan W relay demand c [] revision = Inr q"
    and "encodable W demand" "spl_shortfalls p = []" "spl_shortfalls q = []" "match_law N tagged found"
  shows "opened_match N p e = opened_match N q e \<and> opened_match N p e = (\<exists>d\<in>set demand. filter_match_event N (dm_filter d) e)"
proof -
  have "opened_match N p e = (\<exists>d\<in>set demand. filter_match_event N (dm_filter d) e)"
    by (rule standard.fresh_plan_asks_for_the_demand [OF assms(1,3,4,6)]) (rule standard_opened_exact [OF assms(1,3)])
  moreover have "opened_match N q e = (\<exists>d\<in>set demand. filter_match_event N (dm_filter d) e)"
    by (rule one_per_demand.fresh_plan_asks_for_the_demand [OF assms(2) TrueI assms(5,6)]) (rule one_per_demand_opened_exact [OF assms(2)])
  ultimately show ?thesis by simp
qed

text \<open>
  (C12) The standard planner always answers: when every request can be encoded and no demand
  identity is given twice, the splitting ends and there is a plan.
\<close>

theorem standard_plan_total:
  assumes "distinct (map demand_id_of demand)" "\<And>f. \<exists>n. wl_request_len W [f] = Inr n"
  shows "\<exists>p. standard_plan W relay demand c inst revision = Inr p"
proof -
  have dup: "refuse_duplicate_demand [] demand = Inr ()"
    using assms(1) refuse_duplicate_demand_Inr [of "[]" demand "()"] by simp
  obtain adm sf where adm: "admit_filter_limits demand c = (adm, sf)" by fastforce
  obtain att pend where att: "attach_loop (\<lambda>d. host_for d inst) adm ([], []) = (att, pend)" by fastforce
  obtain r where "fit_message_bound W c (group W pend c) [] sf = Inr r"
    using fit_message_bound_total [OF assms(2)] by blast
  then show ?thesis
    by (cases r) (simp add: standard_plan_def dup adm att Let_def split_beta)
qed

text \<open>
  \<open>validate_plan\<close> accepts a plan exactly when it conforms: the right relay, every installed
  subscription kept or closed at most once, the kept ones attributed with their installed
  filters, every demand served or reported and no other, no wanted subscription closed, no
  filters requested twice, and no more subscriptions than declared.
\<close>

theorem validate_plan_decides_conformance:
  "validate_plan relay demand c inst p = Inr () \<longleftrightarrow> conforms relay demand c inst p"
  by (rule validate_plan_iff)

text \<open>
  RELAY-003: a merged filter covers both operands and is matched by exactly the events that
  match one of them: merging never narrows, and asks the relay for nothing more.
\<close>

theorem merge_matches_exactly_either:
  assumes "merge_on_sole_differing_axis left right = Some m"
    and "bt_wf (fl_generic_tags left)" "bt_wf (fl_generic_tags right)" "match_law N tagged found"
  shows "filter_covers m left \<and> filter_covers m right
    \<and> (\<forall>e. filter_match_event N m e \<longleftrightarrow> filter_match_event N left e \<or> filter_match_event N right e)"
  using merge_covers [OF assms(1-3)] merge_admits [OF assms(1-3)] assms(4) by (simp add: match_law_def)

text \<open>
  (C11) Grouping is exact: every demand is a member of one candidate and of one only, no two
  candidates carry the same filter, and the events that match the filter of a candidate are
  exactly those that match the filter of one of its members.
\<close>

theorem group_partitions_demand_exactly:
  assumes "encodable W ds" "match_law N tagged found"
  shows "mset (concat (map snd (group W ds c))) = mset ds \<and> distinct (map fst (group W ds c))
    \<and> (\<forall>(f, ms)\<in>set (group W ds c). \<forall>e. filter_match_event N f e \<longleftrightarrow> (\<exists>d\<in>set ms. filter_match_event N (dm_filter d) e))"
  using group_members [of W ds c] group_distinct [of W ds c] group_ok [OF assms(1), of _ c] assms(2)
  by (fastforce simp: member_mset_def candidate_ok_def match_law_def)

text \<open>
  CR-3: the groups are a function of the demand set, not of the sequence it is given in, and
  without a declared default limit no two of the merged candidates could still be merged.
\<close>

theorem group_ignores_order:
  assumes "mset ds = mset es" "distinct (map demand_id_of ds)"
  shows "group W ds c = group W es c"
  using canonical_order_unique [OF assms] by (simp add: group_def)

text \<open>
  The merging stops, and only in a state in which no two candidates with the same bounds
  differ on a single axis that can be unioned.
\<close>

theorem merge_reaches_fixed_point:
  assumes "left < right" "right < length (merge_to_fixed_point cs)"
    and "uniform_bounds (snd (merge_to_fixed_point cs ! left)) = Some b" "uniform_bounds (snd (merge_to_fixed_point cs ! right)) = Some b"
  shows "merge_on_sole_differing_axis (fst (merge_to_fixed_point cs ! left)) (fst (merge_to_fixed_point cs ! right)) = None"
  by (rule first_mergeable_pair_None [OF merge_fixed assms])

subsection \<open>Concrete sessions\<close>

definition sample_wire :: wire_lib where
  "sample_wire = \<lparr>
     wl_filter_encoding = (\<lambda>f. concat (map (\<lambda>a. show_nat (unat a) @ '','') (case fl_authors f of Some as \<Rightarrow> as | None \<Rightarrow> []))),
     wl_request_len = (\<lambda>fs. Inr (100 + length fs)), wl_filters_le = (\<lambda>l r. True)\<rparr>"

definition author_filter :: "public_key list \<Rightarrow> nat option \<Rightarrow> filter" where
  "author_filter as limit = \<lparr>fl_ids = None, fl_authors = Some as, fl_kinds = Some [1], fl_search = None, fl_since = None,
     fl_until = None, fl_limit = limit, fl_generic_tags = []\<rparr>"

definition author_demand :: "query_branch_id \<Rightarrow> public_key list \<Rightarrow> nat option \<Rightarrow> relay_demand" where
  "author_demand b as limit = \<lparr>dm_owner = 1, dm_branch = b, dm_filter = author_filter as limit,
     dm_bounds = \<lparr>qb_since = None, qb_until = None, qb_limit = None\<rparr>\<rparr>"

definition sample_demand :: "relay_demand list" where
  "sample_demand = [author_demand 1 [1] None, author_demand 2 [2] None, author_demand 3 [3] None]"

definition sample_installed :: installed_subscriptions where
  "sample_installed = [(''s'', \<lparr>is_filters = [author_filter [3, 4] None], is_serves = [(9, 9)]\<rparr>)]"

definition sample_revision :: plan_revision where
  "sample_revision = \<lparr>pv_authority = 1, pv_sequence = 1\<rparr>"

definition event_tagged :: "event \<Rightarrow> single_letter_tag \<Rightarrow> string \<Rightarrow> bool" where
  "event_tagged e name v \<longleftrightarrow> (\<exists>t\<in>set (ev_tags e). take 2 t = [[fst name], v])"

definition matching_lib :: nostr_lib where
  "matching_lib = sample_lib\<lparr>filter_match_event := filter_admits event_tagged (\<lambda>s e. True)\<rparr>"

lemma matching_lib_law: "match_law matching_lib event_tagged (\<lambda>s e. True)"
  by (simp add: match_law_def matching_lib_def)

lemma not_isl_Inr: "\<not> isl x \<Longrightarrow> x = Inr (projr x)"
  by (cases x) simp_all

definition sample_plan :: subscription_plan where
  "sample_plan = projr (standard_plan sample_wire ''wss://a'' sample_demand constraints_unknown sample_installed sample_revision)"

lemma sample_plan_eq:
  "standard_plan sample_wire ''wss://a'' sample_demand constraints_unknown sample_installed sample_revision = Inr sample_plan"
proof -
  have "\<not> isl (standard_plan sample_wire ''wss://a'' sample_demand constraints_unknown sample_installed sample_revision)" by code_simp
  then show ?thesis unfolding sample_plan_def by (rule not_isl_Inr)
qed

lemma sample_installed_wf: "bt_wf sample_installed"
  by (simp add: sample_installed_def bt_wf_def)

lemma sample_idle: "refusals_idle ds constraints_unknown inst"
  by (simp add: refusals_idle_def over_limit_def constraints_unknown_def)

lemma sample_baseline: "baseline sample_demand sample_installed"
  unfolding baseline_def using sample_installed_wf
  by (auto simp: sample_installed_def sample_demand_def author_demand_def demand_id_of_def bt_get_def)

lemma sample_encodable: "encodable sample_wire sample_demand"
proof -
  have "distinct (map (wl_filter_encoding sample_wire) (map dm_filter sample_demand))" by code_simp
  then have "inj_on (wl_filter_encoding sample_wire) (dm_filter ` set sample_demand)" by (simp add: distinct_map del: map_map)
  moreover have "\<forall>d\<in>set sample_demand. bt_wf (fl_generic_tags (dm_filter d))"
    by (simp add: sample_demand_def author_demand_def author_filter_def bt_wf_def)
  ultimately show ?thesis by (simp add: encodable_def)
qed

theorem standard_plan_validates_witness:
  "validate_plan ''wss://a'' sample_demand constraints_unknown sample_installed sample_plan = Inr ()
   \<and> map (length \<circ> ps_serves) (spl_open sample_plan) = [2] \<and> spl_retain sample_plan = [''s'']"
proof -
  have "map (length \<circ> ps_serves) (spl_open sample_plan) = [2] \<and> spl_retain sample_plan = [''s'']" by code_simp
  with standard_plan_validates [OF sample_plan_eq sample_installed_wf sample_idle] show ?thesis by blast
qed

theorem standard_plan_delivers_witness:
  "\<exists>f\<in>serving_filters sample_plan (1, 2). filter_match_event matching_lib f (sample_event 7 2 10 1 [])"
proof -
  have d: "author_demand 2 [2] None \<in> set sample_demand" "demand_id_of (author_demand 2 [2] None) = (1, 2)"
    by (simp_all add: sample_demand_def author_demand_def demand_id_of_def)
  have short: "spl_shortfalls sample_plan = []" by code_simp
  have "filter_match_event matching_lib (dm_filter (author_demand 2 [2] None)) (sample_event 7 2 10 1 [])"
    by (simp add: matching_lib_def filter_admits_def author_demand_def author_filter_def sample_event_def set_admits_def constrained_def)
  from standard_plan_delivers [OF sample_plan_eq sample_baseline sample_idle sample_encodable d(1) _ matching_lib_law this] short d(2)
  show ?thesis by simp
qed

definition fresh_standard :: subscription_plan where
  "fresh_standard = projr (standard_plan sample_wire ''wss://a'' sample_demand constraints_unknown [] sample_revision)"

definition fresh_one_per_demand :: subscription_plan where
  "fresh_one_per_demand = projr (one_per_demand_plan sample_wire ''wss://a'' sample_demand constraints_unknown [] sample_revision)"

lemma fresh_plans:
  "standard_plan sample_wire ''wss://a'' sample_demand constraints_unknown [] sample_revision = Inr fresh_standard"
  "one_per_demand_plan sample_wire ''wss://a'' sample_demand constraints_unknown [] sample_revision = Inr fresh_one_per_demand"
proof -
  have "\<not> isl (standard_plan sample_wire ''wss://a'' sample_demand constraints_unknown [] sample_revision)"
    "\<not> isl (one_per_demand_plan sample_wire ''wss://a'' sample_demand constraints_unknown [] sample_revision)" by code_simp+
  then show "standard_plan sample_wire ''wss://a'' sample_demand constraints_unknown [] sample_revision = Inr fresh_standard"
    "one_per_demand_plan sample_wire ''wss://a'' sample_demand constraints_unknown [] sample_revision = Inr fresh_one_per_demand"
    unfolding fresh_standard_def fresh_one_per_demand_def by (auto intro: not_isl_Inr)
qed

theorem one_per_demand_plan_validates_witness:
  "validate_plan ''wss://a'' sample_demand constraints_unknown [] fresh_one_per_demand = Inr () \<and> length (spl_open fresh_one_per_demand) = 3"
proof -
  have "length (spl_open fresh_one_per_demand) = 3" by code_simp
  with one_per_demand_plan_validates [OF fresh_plans(2) _ sample_idle] show ?thesis by simp
qed

theorem planners_ask_for_the_same_events_witness:
  "opened_match matching_lib fresh_standard (sample_event 7 2 10 1 []) = opened_match matching_lib fresh_one_per_demand (sample_event 7 2 10 1 [])
   \<and> length (spl_open fresh_standard) = 1 \<and> length (spl_open fresh_one_per_demand) = 3"
proof -
  have "spl_shortfalls fresh_standard = []" "spl_shortfalls fresh_one_per_demand = []" by code_simp+
  from planners_ask_for_the_same_events [OF fresh_plans sample_encodable this matching_lib_law]
  have "opened_match matching_lib fresh_standard (sample_event 7 2 10 1 []) = opened_match matching_lib fresh_one_per_demand (sample_event 7 2 10 1 [])"
    by blast
  moreover have "length (spl_open fresh_standard) = 1" "length (spl_open fresh_one_per_demand) = 3" by code_simp+
  ultimately show ?thesis by simp
qed

theorem standard_plan_total_witness:
  "\<exists>p. standard_plan sample_wire ''wss://a'' sample_demand (constraints_unknown\<lparr>rrc_max_message_bytes := Declared 50\<rparr>) [] sample_revision = Inr p"
  by (rule standard_plan_total) (code_simp, simp add: sample_wire_def)

subsection \<open>A declared limit that is lowered\<close>

definition limited_demand :: "relay_demand list" where
  "limited_demand = [author_demand 1 [1] (Some 5)]"

definition limited_installed :: installed_subscriptions where
  "limited_installed = [(''s'', \<lparr>is_filters = [author_filter [1] (Some 5)], is_serves = [(1, 1)]\<rparr>)]"

definition lowered_limit :: relay_read_constraints where
  "lowered_limit = constraints_unknown\<lparr>rrc_max_filter_limit := Declared 3\<rparr>"

definition withdraws_running :: "(relay_url \<Rightarrow> relay_demand list \<Rightarrow> relay_read_constraints \<Rightarrow> installed_subscriptions \<Rightarrow> plan_revision
      \<Rightarrow> subscription_plan_error + subscription_plan) \<Rightarrow> bool" where
  "withdraws_running plan =
     (case plan ''wss://a'' limited_demand lowered_limit limited_installed sample_revision of
        Inl e \<Rightarrow> False
      | Inr p \<Rightarrow> spl_close p = [''s''] \<and>
          validate_plan ''wss://a'' limited_demand lowered_limit limited_installed p = Inl (RunningSubscriptionWithdrawn ''s'' (1, 1)))"

text \<open>
  A demand with a limit of 5 runs on the session; the relay then declares a maximal limit of
  3. Both planners set the demand aside before they look for the subscriptions that have lost
  their last owner, so that the running subscription is closed although its demand is still
  requested, and \<open>validate_plan\<close> refuses the plan.
\<close>

theorem lowered_limit_withdraws_running:
  "withdraws_running (standard_plan sample_wire) \<and> withdraws_running (one_per_demand_plan sample_wire)"
proof -
  have "withdraws_running (standard_plan sample_wire)" "withdraws_running (one_per_demand_plan sample_wire)" by code_simp+
  then show ?thesis by simp
qed

subsection \<open>Grouping, concretely\<close>

theorem merge_matches_exactly_either_witness:
  "\<forall>e. filter_match_event matching_lib (author_filter [1, 2] None) e \<longleftrightarrow>
     filter_match_event matching_lib (author_filter [1] None) e \<or> filter_match_event matching_lib (author_filter [2] None) e"
proof -
  have "merge_on_sole_differing_axis (author_filter [1] None) (author_filter [2] None) = Some (author_filter [1, 2] None)"
    by code_simp
  from merge_matches_exactly_either [OF this _ _ matching_lib_law] show ?thesis
    by (simp add: author_filter_def bt_wf_def)
qed

theorem group_partitions_demand_exactly_witness:
  "mset (concat (map snd (group sample_wire sample_demand constraints_unknown))) = mset sample_demand
   \<and> length (group sample_wire sample_demand constraints_unknown) = 1"
proof -
  have "length (group sample_wire sample_demand constraints_unknown) = 1" by code_simp
  with group_partitions_demand_exactly [OF sample_encodable matching_lib_law, of constraints_unknown] show ?thesis by blast
qed

theorem group_ignores_order_witness:
  "group sample_wire (rev sample_demand) constraints_unknown = group sample_wire sample_demand constraints_unknown"
  by (rule group_ignores_order) (simp, code_simp)

definition limited_candidates :: "wire_candidate list" where
  "limited_candidates = [(author_filter [1] (Some 5), [author_demand 1 [1] (Some 5)]), (author_filter [2] None, [author_demand 2 [2] None])]"

theorem merge_reaches_fixed_point_witness:
  "merge_on_sole_differing_axis (fst (merge_to_fixed_point limited_candidates ! 0)) (fst (merge_to_fixed_point limited_candidates ! 1)) = None
   \<and> length (merge_to_fixed_point limited_candidates) = 2"
proof -
  have "length (merge_to_fixed_point limited_candidates) = 2"
    "uniform_bounds (snd (merge_to_fixed_point limited_candidates ! 0)) = Some \<lparr>qb_since = None, qb_until = None, qb_limit = None\<rparr>"
    "uniform_bounds (snd (merge_to_fixed_point limited_candidates ! 1)) = Some \<lparr>qb_since = None, qb_until = None, qb_limit = None\<rparr>"
    by code_simp+
  with merge_reaches_fixed_point [of 0 1 limited_candidates] show ?thesis by simp
qed

end
