(* ===== verification/Transport.thy ===== *)
theory Transport
  imports Nostr_Lib Relay "HOL-Library.Sublist"
begin

section \<open>Relay sessions (\<open>fava-transport\<close>)\<close>

text \<open>
  \<open>crates/fava-transport/src\<close>: the bounded mailboxes of the handles, the router that decides
  which handle owns a wire key (\<open>router.rs\<close>), the handles and the verbs that mint them
  (\<open>routed.rs\<close>) and the connection values (\<open>session.rs\<close>, \<open>handoff.rs\<close>). A mailbox is shared
  by the router and its handle: it lives in a store of the router state and is named by its
  address there, as an \<open>Arc\<close> names it in the code. Reading a handle is one poll of the loop in
  \<open>next\<close> and \<open>settled\<close>; \<open>None\<close> is the await. The socket, its clock and the encoding of frames
  are outside: the outcome of a handoff is an argument.
\<close>

subsection \<open>Mailboxes\<close>

record 'a mailbox =
  mb_capacity :: nat
  mb_items :: "'a list"
  mb_dropped :: u64
  mb_closed :: bool

definition mailbox_new :: "nat \<Rightarrow> 'a mailbox" where
  "mailbox_new capacity = \<lparr>mb_capacity = capacity, mb_items = [], mb_dropped = 0, mb_closed = False\<rparr>"

definition mailbox_offer :: "'a \<Rightarrow> 'a mailbox \<Rightarrow> 'a mailbox" where
  "mailbox_offer item mb =
     (if mb_closed mb then mb
      else if length (mb_items mb) \<ge> mb_capacity mb then mb\<lparr>mb_dropped := mb_dropped mb + 1\<rparr>
      else mb\<lparr>mb_items := mb_items mb @ [item]\<rparr>)"

definition mailbox_take :: "'a mailbox \<Rightarrow> 'a option \<times> 'a mailbox" where
  "mailbox_take mb = (case mb_items mb of [] \<Rightarrow> (None, mb) | x # xs \<Rightarrow> (Some x, mb\<lparr>mb_items := xs\<rparr>))"

definition mailbox_take_dropped :: "'a mailbox \<Rightarrow> u64 \<times> 'a mailbox" where
  "mailbox_take_dropped mb = (mb_dropped mb, mb\<lparr>mb_dropped := 0\<rparr>)"

definition mailbox_close :: "'a mailbox \<Rightarrow> 'a mailbox" where
  "mailbox_close mb = mb\<lparr>mb_closed := True\<rparr>"

subsection \<open>Messages and connections\<close>

type_synonym wire_id = string

datatype session_ended =
    EndedDisconnected bounded_text
  | ReconnectExhausted nat bounded_text

datatype subscription_item =
    ItemEvent event
  | EndOfStored
  | ItemClosed bounded_text
  | ItemLost u64
  | ItemEnded session_ended

datatype settlement =
    SettledAccepted bounded_text
  | SettledRejected bounded_text
  | SettledEnded session_ended

datatype relay_message =
    MsgEvent wire_id event
  | MsgEose wire_id
  | MsgClosed wire_id string
  | MsgCount wire_id nat
  | MsgNegMsg wire_id string
  | MsgNegErr wire_id string
  | MsgOk event_id bool string
  | MsgAuth string
  | MsgNotice string

record relay_session_identity =
  rsi_relay :: relay_url
  rsi_connection :: u64

definition relay_connection_new :: "u64 \<Rightarrow> u64 option" where
  "relay_connection_new v = (if v = 0 then None else Some v)"

definition relay_connection_next :: "u64 \<Rightarrow> u64 option" where
  "relay_connection_next c = checked_add_u64 c 1"

record connection =
  cn_identity :: relay_session_identity
  cn_connectivity :: connectivity
  cn_authentication :: authentication

definition connection_opening :: "relay_session_identity \<Rightarrow> connection" where
  "connection_opening i = \<lparr>cn_identity = i, cn_connectivity = Connecting, cn_authentication = unoffered\<rparr>"

definition connection_can_serve :: "connection \<Rightarrow> authority \<Rightarrow> bool" where
  "connection_can_serve c a \<longleftrightarrow> cn_connectivity c = Connected \<and> can_serve (cn_authentication c) a"

datatype transport_failure =
    SessionClosed
  | GenerationExhausted
  | OutboundQueueFull nat
  | FrameTooLarge nat nat
  | EstablishTimeout nat
  | IdleTimeout nat
  | FailedDisconnected bounded_text
  | ShuttingDown

datatype transport_ambiguity =
    FlushUnconfirmed bounded_text
  | WriteTimeout nat
  | DisconnectedInFlight bounded_text

datatype handoff_outcome =
    NotHandedOff relay_session_identity u64 transport_failure
  | HandedOff relay_session_identity u64
  | Ambiguous relay_session_identity u64 transport_ambiguity

fun handoff_identity :: "handoff_outcome \<Rightarrow> relay_session_identity" where
  "handoff_identity (NotHandedOff i _ _) = i"
| "handoff_identity (HandedOff i _) = i"
| "handoff_identity (Ambiguous i _ _) = i"

fun handoff_correlation :: "handoff_outcome \<Rightarrow> u64" where
  "handoff_correlation (NotHandedOff _ c _) = c"
| "handoff_correlation (HandedOff _ c) = c"
| "handoff_correlation (Ambiguous _ c _) = c"

subsection \<open>The router\<close>

text \<open>
  The version counts the wake-ups of the connection watch: \<open>send_if_modified\<close> wakes its
  readers only when the closure says that the value changed.
\<close>

record wire_router =
  rt_subscriptions :: "(wire_id, nat) btree_map"
  rt_acknowledgements :: "(event_id, nat list) btree_map"
  rt_sender :: "connection option"
  rt_last :: connection
  rt_version :: nat
  rt_sub_boxes :: "subscription_item mailbox list"
  rt_ack_boxes :: "settlement mailbox list"

definition router_new :: "connection \<Rightarrow> wire_router" where
  "router_new c = \<lparr>rt_subscriptions = [], rt_acknowledgements = [], rt_sender = Some c, rt_last = c, rt_version = 0,
     rt_sub_boxes = [], rt_ack_boxes = []\<rparr>"

definition update_box :: "('a mailbox \<Rightarrow> 'a mailbox) \<Rightarrow> nat \<Rightarrow> 'a mailbox list \<Rightarrow> 'a mailbox list" where
  "update_box f a boxes = (if a < length boxes then boxes[a := f (boxes ! a)] else boxes)"

definition open_subscription :: "wire_id \<Rightarrow> nat \<Rightarrow> wire_router \<Rightarrow> nat \<times> wire_router" where
  "open_subscription i capacity r =
     (let a = length (rt_sub_boxes r) in
      (a, r\<lparr>rt_sub_boxes := rt_sub_boxes r @ [mailbox_new capacity],
            rt_subscriptions := bt_insert i a (rt_subscriptions r)\<rparr>))"

definition release_subscription :: "wire_id \<Rightarrow> wire_router \<Rightarrow> wire_router" where
  "release_subscription i r =
     (case bt_get (rt_subscriptions r) i of
        None \<Rightarrow> r
      | Some a \<Rightarrow> r\<lparr>rt_subscriptions := bt_remove i (rt_subscriptions r),
                     rt_sub_boxes := update_box mailbox_close a (rt_sub_boxes r)\<rparr>)"

definition await_acknowledgement :: "event_id \<Rightarrow> wire_router \<Rightarrow> nat \<times> wire_router" where
  "await_acknowledgement e r =
     (let a = length (rt_ack_boxes r);
          waiting = (case bt_get (rt_acknowledgements r) e of Some w \<Rightarrow> w | None \<Rightarrow> []) in
      (a, r\<lparr>rt_ack_boxes := rt_ack_boxes r @ [mailbox_new 1],
            rt_acknowledgements := bt_insert e (waiting @ [a]) (rt_acknowledgements r)\<rparr>))"

definition release_acknowledgement :: "event_id \<Rightarrow> nat \<Rightarrow> wire_router \<Rightarrow> wire_router" where
  "release_acknowledgement e a r =
     (case bt_get (rt_acknowledgements r) e of
        None \<Rightarrow> r
      | Some waiting \<Rightarrow>
          let left = List.filter (\<lambda>x. x \<noteq> a) waiting in
          r\<lparr>rt_acknowledgements :=
              (if left = [] then bt_remove e (rt_acknowledgements r) else bt_insert e left (rt_acknowledgements r))\<rparr>)"

definition end_connection :: "session_ended \<Rightarrow> wire_router \<Rightarrow> wire_router" where
  "end_connection ended r =
     r\<lparr>rt_subscriptions := [], rt_acknowledgements := [],
       rt_sub_boxes := fold (\<lambda>a. update_box (mailbox_close \<circ> mailbox_offer (ItemEnded ended)) a)
         (bt_values (rt_subscriptions r)) (rt_sub_boxes r),
       rt_ack_boxes := fold (\<lambda>a. update_box (mailbox_close \<circ> mailbox_offer (SettledEnded ended)) a)
         (concat (bt_values (rt_acknowledgements r))) (rt_ack_boxes r)\<rparr>"

definition ended_by :: "connection \<Rightarrow> connection \<Rightarrow> session_ended option" where
  "ended_by before after =
     (case cn_connectivity after of
        Disconnected detail (Some attempts) \<Rightarrow> Some (ReconnectExhausted attempts detail)
      | Disconnected detail None \<Rightarrow> Some (EndedDisconnected detail)
      | _ \<Rightarrow>
          if cn_identity after \<noteq> cn_identity before \<and> cn_connectivity before = Connected
          then Some (EndedDisconnected (bounded_text_new ''session reconnected'')) else None)"

fun is_terminal :: "connectivity \<Rightarrow> bool" where
  "is_terminal (Disconnected _ (Some _)) = True"
| "is_terminal _ = False"

definition moved :: "(connection \<Rightarrow> connection) \<Rightarrow> wire_router \<Rightarrow> wire_router" where
  "moved change r =
     (case rt_sender r of
        None \<Rightarrow> r
      | Some before \<Rightarrow>
          let after = change before;
              r' = r\<lparr>rt_version := (if after = before then rt_version r else Suc (rt_version r)), rt_last := after,
                     rt_sender := (if is_terminal (cn_connectivity after) then None else Some after)\<rparr>
          in case ended_by before after of Some ended \<Rightarrow> end_connection ended r' | None \<Rightarrow> r')"

definition close_router :: "wire_router \<Rightarrow> wire_router" where
  "close_router =
     moved (\<lambda>c. if is_terminal (cn_connectivity c) then c
       else c\<lparr>cn_connectivity := Disconnected (bounded_text_new ''session closed'') (Some 0)\<rparr>)"

text \<open>\<open>Debug\<close> of a message the contract has no item for is a parameter.\<close>

fun subscription_item_of :: "(relay_message \<Rightarrow> string) \<Rightarrow> relay_message \<Rightarrow> subscription_item" where
  "subscription_item_of dbg (MsgEvent _ e) = ItemEvent e"
| "subscription_item_of dbg (MsgEose _) = EndOfStored"
| "subscription_item_of dbg (MsgClosed _ message) = ItemClosed (bounded_text_new message)"
| "subscription_item_of dbg other = ItemClosed (bounded_text_new (''unsupported relay message: '' @ dbg other))"

fun settlement_of :: "(relay_message \<Rightarrow> string) \<Rightarrow> relay_message \<Rightarrow> settlement" where
  "settlement_of dbg (MsgOk _ True message) = SettledAccepted (bounded_text_new message)"
| "settlement_of dbg (MsgOk _ False message) = SettledRejected (bounded_text_new message)"
| "settlement_of dbg other = SettledRejected (bounded_text_new (''unexpected acknowledgement: '' @ dbg other))"

definition deliver_item :: "wire_id \<Rightarrow> subscription_item \<Rightarrow> wire_router \<Rightarrow> wire_router" where
  "deliver_item i item r =
     (case bt_get (rt_subscriptions r) i of
        None \<Rightarrow> r
      | Some a \<Rightarrow> r\<lparr>rt_sub_boxes := update_box (mailbox_offer item) a (rt_sub_boxes r)\<rparr>)"

fun deliver :: "(relay_message \<Rightarrow> string) \<Rightarrow> relay_message \<Rightarrow> wire_router \<Rightarrow> wire_router" where
  "deliver dbg (MsgOk e status message) r =
     (case bt_get (rt_acknowledgements r) e of
        None \<Rightarrow> r
      | Some waiting \<Rightarrow> r\<lparr>rt_ack_boxes :=
          fold (\<lambda>a. update_box (mailbox_offer (settlement_of dbg (MsgOk e status message))) a) waiting (rt_ack_boxes r)\<rparr>)"
| "deliver dbg (MsgAuth challenge) r =
     moved (\<lambda>c. c\<lparr>cn_authentication := (cn_authentication c)\<lparr>progress := Requested challenge\<rparr>\<rparr>) r"
| "deliver dbg (MsgNotice _) r = r"
| "deliver dbg (MsgEvent i e) r = deliver_item i (subscription_item_of dbg (MsgEvent i e)) r"
| "deliver dbg (MsgEose i) r = deliver_item i (subscription_item_of dbg (MsgEose i)) r"
| "deliver dbg (MsgClosed i m) r = deliver_item i (subscription_item_of dbg (MsgClosed i m)) r"
| "deliver dbg (MsgCount i n) r = deliver_item i (subscription_item_of dbg (MsgCount i n)) r"
| "deliver dbg (MsgNegMsg i m) r = deliver_item i (subscription_item_of dbg (MsgNegMsg i m)) r"
| "deliver dbg (MsgNegErr i m) r = deliver_item i (subscription_item_of dbg (MsgNegErr i m)) r"

subsection \<open>Handles and verbs\<close>

definition subscription_next :: "nat \<Rightarrow> wire_router \<Rightarrow> subscription_item option \<times> wire_router" where
  "subscription_next a r =
     (if a \<ge> length (rt_sub_boxes r) then (None, r)
      else
        let mb = rt_sub_boxes r ! a; (item, mb1) = mailbox_take mb in
        case item of
          Some x \<Rightarrow> (Some x, r\<lparr>rt_sub_boxes := (rt_sub_boxes r)[a := mb1]\<rparr>)
        | None \<Rightarrow>
            let (dropped, mb2) = mailbox_take_dropped mb1; r2 = r\<lparr>rt_sub_boxes := (rt_sub_boxes r)[a := mb2]\<rparr> in
            if dropped > 0 then (Some (ItemLost dropped), r2)
            else if mb_closed mb2 then (Some (ItemEnded (EndedDisconnected (bounded_text_new ''session closed''))), r2)
            else (None, r2))"

definition acknowledgement_settled :: "event_id \<Rightarrow> nat \<Rightarrow> wire_router \<Rightarrow> settlement option \<times> wire_router" where
  "acknowledgement_settled e a r =
     (if a \<ge> length (rt_ack_boxes r) then (None, r)
      else
        let (item, mb) = mailbox_take (rt_ack_boxes r ! a); r1 = r\<lparr>rt_ack_boxes := (rt_ack_boxes r)[a := mb]\<rparr> in
        case item of
          Some x \<Rightarrow> (Some x, release_acknowledgement e a r1)
        | None \<Rightarrow>
            if mb_closed mb
            then (Some (SettledEnded (EndedDisconnected (bounded_text_new ''session closed''))), release_acknowledgement e a r1)
            else (None, r1))"

text \<open>
  The verbs register the handle, await the handoff and release the handle unless the frame
  was handed off; other steps of the router may come between the two halves.
\<close>

definition subscribe_settle :: "wire_id \<Rightarrow> handoff_outcome \<Rightarrow> wire_router \<Rightarrow> (handoff_outcome + unit) \<times> wire_router" where
  "subscribe_settle i outcome r =
     (case outcome of HandedOff _ _ \<Rightarrow> (Inr (), r) | refused \<Rightarrow> (Inl refused, release_subscription i r))"

definition publish_settle :: "event_id \<Rightarrow> nat \<Rightarrow> handoff_outcome \<Rightarrow> wire_router \<Rightarrow> (handoff_outcome + unit) \<times> wire_router" where
  "publish_settle e a outcome r =
     (case outcome of HandedOff _ _ \<Rightarrow> (Inr (), r) | refused \<Rightarrow> (Inl refused, release_acknowledgement e a r))"

fun is_requested :: "progress \<Rightarrow> bool" where
  "is_requested (Requested _) = True"
| "is_requested _ = False"

definition take_up :: "public_key \<Rightarrow> connection \<Rightarrow> connection" where
  "take_up as_of c =
     (if is_requested (progress (cn_authentication c))
      then c\<lparr>cn_authentication := (cn_authentication c)\<lparr>progress := Answering as_of\<rparr>\<rparr> else c)"

definition answer_begin ::
  "relay_session_identity \<Rightarrow> event \<Rightarrow> wire_router \<Rightarrow> (handoff_outcome + nat) \<times> wire_router" where
  "answer_begin identity e r =
     (let taken_up = (case rt_sender r of Some c \<Rightarrow> is_requested (progress (cn_authentication c)) | None \<Rightarrow> False);
          r1 = moved (take_up (ev_pubkey e)) r in
      if \<not> taken_up
      then (Inl (NotHandedOff identity 0 (FailedDisconnected (bounded_text_new
              ''the connection that was asked is gone; this answers a question it never received''))), r1)
      else let (a, r2) = await_acknowledgement (ev_id e) r1 in (Inr a, r2))"

definition record_progress :: "progress \<Rightarrow> wire_router \<Rightarrow> wire_router" where
  "record_progress p = moved (\<lambda>c. c\<lparr>cn_authentication := (cn_authentication c)\<lparr>progress := p\<rparr>\<rparr>)"

definition record_accepted :: "public_key \<Rightarrow> wire_router \<Rightarrow> wire_router" where
  "record_accepted account = moved (\<lambda>c. c\<lparr>cn_authentication := \<lparr>established = Some account, progress = Idle\<rparr>\<rparr>)"

definition subscription_drop :: "bool \<Rightarrow> bool \<Rightarrow> wire_id \<Rightarrow> wire_router \<Rightarrow> bool \<times> wire_router" where
  "subscription_drop armed encodes i r = (if \<not> armed then (False, r) else (encodes, release_subscription i r))"

text \<open>\<open>format!("fava-{counter:016x}")\<close>\<close>

definition hex_digit :: "nat \<Rightarrow> char" where
  "hex_digit n = ''0123456789abcdef'' ! n"

definition nibble :: "u64 \<Rightarrow> nat \<Rightarrow> nat" where
  "nibble c i = unat (take_bit 4 (drop_bit (4 * i) c))"

definition wire_subscription_id :: "u64 \<Rightarrow> wire_id" where
  "wire_subscription_id counter = ''fava-'' @ map (\<lambda>i. hex_digit (nibble counter i)) (rev [0..<16])"

text \<open>One round of \<open>publish_authentication_requests\<close>: whether the session is announced.\<close>

definition request_round ::
  "connection \<Rightarrow> relay_session_identity \<times> string option \<Rightarrow> bool \<times> relay_session_identity \<times> string option" where
  "request_round current st =
     (let (seen, asked) = st;
          asked = (if cn_identity current \<noteq> seen then None else asked)
      in case progress (cn_authentication current) of
           Requested challenge \<Rightarrow>
             if asked \<noteq> Some challenge then (True, cn_identity current, Some challenge) else (False, cn_identity current, asked)
         | _ \<Rightarrow> (False, cn_identity current, asked))"

subsection \<open>Mailbox lemmas\<close>

lemma mailbox_fields [simp]:
  "mb_capacity (mailbox_offer x mb) = mb_capacity mb" "mb_closed (mailbox_offer x mb) = mb_closed mb"
  "mb_closed (mailbox_close mb)" "mb_items (mailbox_close mb) = mb_items mb" "mb_capacity (mailbox_close mb) = mb_capacity mb"
  "mb_dropped (mailbox_close mb) = mb_dropped mb"
  by (simp_all add: mailbox_offer_def mailbox_close_def)

lemma length_update_box [simp]: "length (update_box f a boxes) = length boxes"
  by (simp add: update_box_def)

lemma nth_update_box: "b < length boxes \<Longrightarrow> update_box f a boxes ! b = (if b = a then f (boxes ! b) else boxes ! b)"
  by (simp add: update_box_def nth_list_update)

lemma length_fold_update [simp]: "length (fold (\<lambda>a. update_box f a) as boxes) = length boxes"
  by (induction as arbitrary: boxes) simp_all

lemma nth_fold_update:
  "distinct as \<Longrightarrow> b < length boxes \<Longrightarrow>
     fold (\<lambda>a. update_box f a) as boxes ! b = (if b \<in> set as then f (boxes ! b) else boxes ! b)"
  by (induction as arbitrary: boxes) (auto simp: nth_update_box)

text \<open>A property that every update keeps holds of every box after a sweep.\<close>

lemma fold_update_keeps:
  assumes "\<forall>mb\<in>set boxes. P mb" "\<And>mb. P mb \<Longrightarrow> P (f mb)"
  shows "\<forall>mb\<in>set (fold (\<lambda>a. update_box f a) as boxes). P mb"
proof -
  have one: "\<forall>mb\<in>set (update_box f a bs). P mb" if "\<forall>mb\<in>set bs. P mb" for a bs
    using that assms(2) by (auto simp: update_box_def dest!: set_update_subset_insert [THEN subsetD])
  show ?thesis
    using assms(1)
  proof (induction as arbitrary: boxes)
    case (Cons a as)
    from Cons.IH [OF one [OF Cons.prems]] show ?case by simp
  qed simp
qed

definition bounded_box :: "'a mailbox \<Rightarrow> bool" where
  "bounded_box mb \<longleftrightarrow> length (mb_items mb) \<le> mb_capacity mb"

lemma bounded_box_rules [simp, intro]:
  "bounded_box (mailbox_new n)" "bounded_box mb \<Longrightarrow> bounded_box (mailbox_offer x mb)"
  "bounded_box mb \<Longrightarrow> bounded_box (mailbox_close mb)" "bounded_box mb \<Longrightarrow> bounded_box (snd (mailbox_take mb))"
  by (auto simp: bounded_box_def mailbox_new_def mailbox_offer_def mailbox_take_def split: list.splits)

subsection \<open>The invariant\<close>

text \<open>
  The keys and the closed flags of the mailboxes: a live key owns one open mailbox, and every
  open mailbox is owned by a live key.
\<close>

definition keys_ok :: "(wire_id, nat) btree_map \<Rightarrow> bool list \<Rightarrow> bool" where
  "keys_ok subs closed \<longleftrightarrow> bt_wf subs
     \<and> (\<forall>i a. bt_get subs i = Some a \<longrightarrow> a < length closed \<and> \<not> closed ! a)
     \<and> (\<forall>i j a. bt_get subs i = Some a \<longrightarrow> bt_get subs j = Some a \<longrightarrow> i = j)
     \<and> (\<forall>a < length closed. \<not> closed ! a \<longrightarrow> (\<exists>i. bt_get subs i = Some a))"

lemma keys_okD:
  assumes "keys_ok subs closed"
  shows "bt_wf subs" "bt_get subs i = Some a \<Longrightarrow> a < length closed \<and> \<not> closed ! a"
    "bt_get subs i = Some a \<Longrightarrow> bt_get subs j = Some a \<Longrightarrow> i = j"
    "a < length closed \<Longrightarrow> \<not> closed ! a \<Longrightarrow> \<exists>i. bt_get subs i = Some a"
  using assms unfolding keys_ok_def by blast+

lemma keys_ok_insert:
  assumes "keys_ok subs closed" "bt_get subs i = None"
  shows "keys_ok (bt_insert i (length closed) subs) (closed @ [False])"
  unfolding keys_ok_def
proof (intro conjI allI impI)
  note ok = keys_okD [OF assms(1)]
  show "bt_wf (bt_insert i (length closed) subs)" using ok(1) by (rule bt_wf_insert)
  fix j k a
  show "a < length (closed @ [False])" "\<not> (closed @ [False]) ! a" if "bt_get (bt_insert i (length closed) subs) j = Some a"
    using that ok(2) [of j a] by (auto simp: nth_append split: if_splits)
  show "j = k" if "bt_get (bt_insert i (length closed) subs) j = Some a" "bt_get (bt_insert i (length closed) subs) k = Some a"
    using that ok(2) [of j a] ok(2) [of k a] ok(3) [of j a k] by (auto split: if_splits)
  show "\<exists>i'. bt_get (bt_insert i (length closed) subs) i' = Some a" if "a < length (closed @ [False])" "\<not> (closed @ [False]) ! a"
  proof (cases "a < length closed")
    case True
    with that ok(4) [of a] obtain k where "bt_get subs k = Some a" by (auto simp: nth_append)
    with assms(2) show ?thesis by (intro exI [of _ k]) auto
  next
    case False
    with that show ?thesis by (intro exI [of _ i]) auto
  qed
qed

lemma keys_ok_remove:
  assumes "keys_ok subs closed" "bt_get subs i = Some a"
  shows "keys_ok (bt_remove i subs) (closed[a := True])"
  unfolding keys_ok_def
proof (intro conjI allI impI)
  note ok = keys_okD [OF assms(1)]
  show "bt_wf (bt_remove i subs)" using ok(1) by (rule bt_wf_remove)
  fix j k b
  have other: "bt_get subs j = Some b \<and> j \<noteq> i \<and> b \<noteq> a" if "bt_get (bt_remove i subs) j = Some b" for j b
    using that ok(3) [of j b i] assms(2) by (auto split: if_splits)
  show "b < length (closed[a := True])" "\<not> closed[a := True] ! b" if "bt_get (bt_remove i subs) j = Some b"
    using other [OF that] ok(2) [of j b] by auto
  show "j = k" if "bt_get (bt_remove i subs) j = Some b" "bt_get (bt_remove i subs) k = Some b"
    using other [OF that(1)] other [OF that(2)] ok(3) by blast
  show "\<exists>i'. bt_get (bt_remove i subs) i' = Some b" if "b < length (closed[a := True])" "\<not> closed[a := True] ! b"
  proof -
    from that have "b < length closed" "b \<noteq> a" by auto
    with that have "\<not> closed ! b" by simp
    with ok(4) [OF \<open>b < length closed\<close>] obtain k where k: "bt_get subs k = Some b" by blast
    with assms(2) \<open>b \<noteq> a\<close> have "k \<noteq> i" by auto
    with k show ?thesis by (intro exI [of _ k]) simp
  qed
qed

text \<open>
  The invariant of a router: the keys own the open mailboxes, no queue is longer than its
  bound, and the connection watch is gone exactly in a terminal state.
\<close>

definition watch_ok :: "connection option \<Rightarrow> connection \<Rightarrow> bool" where
  "watch_ok sender latest = (case sender of None \<Rightarrow> is_terminal (cn_connectivity latest)
     | Some c \<Rightarrow> latest = c \<and> \<not> is_terminal (cn_connectivity c))"

definition boxes_bounded :: "'a mailbox list \<Rightarrow> bool" where
  "boxes_bounded boxes \<longleftrightarrow> (\<forall>mb\<in>set boxes. bounded_box mb)"

definition router_inv :: "wire_router \<Rightarrow> bool" where
  "router_inv r \<longleftrightarrow> keys_ok (rt_subscriptions r) (map mb_closed (rt_sub_boxes r))
     \<and> boxes_bounded (rt_sub_boxes r) \<and> boxes_bounded (rt_ack_boxes r) \<and> watch_ok (rt_sender r) (rt_last r)"

lemma boxes_bounded_simps [simp]:
  "boxes_bounded []" "boxes_bounded (boxes @ [mb]) \<longleftrightarrow> boxes_bounded boxes \<and> bounded_box mb"
  by (auto simp: boxes_bounded_def)

lemma boxes_bounded_fold [simp]:
  "boxes_bounded boxes \<Longrightarrow> (\<And>mb. bounded_box mb \<Longrightarrow> bounded_box (f mb)) \<Longrightarrow> boxes_bounded (fold (\<lambda>a. update_box f a) as boxes)"
  unfolding boxes_bounded_def by (rule fold_update_keeps)

lemma boxes_bounded_update [simp]:
  "boxes_bounded boxes \<Longrightarrow> (\<And>mb. bounded_box mb \<Longrightarrow> bounded_box (f mb)) \<Longrightarrow> boxes_bounded (update_box f a boxes)"
  using boxes_bounded_fold [of boxes f "[a]"] by simp

lemma boxes_bounded_list_update: "boxes_bounded boxes \<Longrightarrow> bounded_box mb \<Longrightarrow> boxes_bounded (boxes[a := mb])"
  unfolding boxes_bounded_def using set_update_subset_insert [of boxes a mb] by auto

lemma boxes_bounded_nth: "boxes_bounded boxes \<Longrightarrow> a < length boxes \<Longrightarrow> bounded_box (boxes ! a)"
  by (simp add: boxes_bounded_def)

lemma router_inv_new: "\<not> is_terminal (cn_connectivity c) \<Longrightarrow> router_inv (router_new c)"
  by (simp add: router_inv_def router_new_def keys_ok_def bt_wf_def watch_ok_def)

lemma closed_update_same: "(\<And>mb. mb_closed (f mb) = mb_closed mb) \<Longrightarrow> map mb_closed (update_box f a boxes) = map mb_closed boxes"
  by (auto simp: update_box_def map_update list_update_same_conv)

lemma closed_update_close: "map mb_closed (update_box mailbox_close a boxes) = (map mb_closed boxes)[a := True]"
  by (simp add: update_box_def map_update list_update_beyond)

lemma router_inv_open:
  assumes "router_inv r" "bt_get (rt_subscriptions r) i = None"
  shows "router_inv (snd (open_subscription i n r))"
  using assms keys_ok_insert [of "rt_subscriptions r" "map mb_closed (rt_sub_boxes r)" i]
  by (simp add: router_inv_def open_subscription_def Let_def) (simp add: mailbox_new_def)

lemma router_inv_release: "router_inv r \<Longrightarrow> router_inv (release_subscription i r)"
  by (cases "bt_get (rt_subscriptions r) i")
    (simp_all add: router_inv_def release_subscription_def closed_update_close keys_ok_remove)

lemma router_inv_await: "router_inv r \<Longrightarrow> router_inv (snd (await_acknowledgement e r))"
  by (simp add: router_inv_def await_acknowledgement_def Let_def)

lemma router_inv_release_ack: "router_inv r \<Longrightarrow> router_inv (release_acknowledgement e a r)"
  by (simp add: router_inv_def release_acknowledgement_def Let_def split: option.split)

lemma router_inv_deliver_item: "router_inv r \<Longrightarrow> router_inv (deliver_item i item r)"
  by (cases "bt_get (rt_subscriptions r) i") (simp_all add: router_inv_def deliver_item_def closed_update_same)

text \<open>After \<open>end_connection\<close> no key is live and every mailbox is closed.\<close>

lemma keys_values:
  assumes "keys_ok subs closed"
  shows "distinct (bt_values subs)" "set (bt_values subs) = {a. a < length closed \<and> \<not> closed ! a}"
proof -
  note ok = keys_okD [OF assms]
  have get: "(i, a) \<in> set subs \<Longrightarrow> bt_get subs i = Some a" for i a
    using ok(1) by (simp add: bt_get_def bt_wf_distinct)
  have "distinct subs" using bt_wf_distinct [OF ok(1)] by (simp add: distinct_map)
  moreover have "inj_on snd (set subs)"
  proof (rule inj_onI)
    fix x y
    assume "x \<in> set subs" "y \<in> set subs" "snd x = snd y"
    then show "x = y" using get ok(3) by (metis prod.collapse)
  qed
  ultimately show "distinct (bt_values subs)" by (simp add: bt_values_def distinct_map)
  show "set (bt_values subs) = {a. a < length closed \<and> \<not> closed ! a}"
  proof (intro equalityI subsetI)
    fix a
    assume "a \<in> set (bt_values subs)"
    then obtain i where "(i, a) \<in> set subs" by (auto simp: bt_values_def)
    then have "bt_get subs i = Some a" by (rule get)
    then show "a \<in> {a. a < length closed \<and> \<not> closed ! a}" using ok(2) by blast
  next
    fix a
    assume "a \<in> {a. a < length closed \<and> \<not> closed ! a}"
    then obtain i where "bt_get subs i = Some a" using ok(4) by blast
    then have "(i, a) \<in> set subs" by (rule bt_get_SomeD)
    then show "a \<in> set (bt_values subs)" by (force simp: bt_values_def)
  qed
qed

lemma end_connection_box:
  assumes "router_inv r" "a < length (rt_sub_boxes r)"
  shows "rt_sub_boxes (end_connection ended r) ! a =
    (if mb_closed (rt_sub_boxes r ! a) then rt_sub_boxes r ! a
     else mailbox_close (mailbox_offer (ItemEnded ended) (rt_sub_boxes r ! a)))"
  using keys_values [of "rt_subscriptions r" "map mb_closed (rt_sub_boxes r)"] assms
  by (simp add: end_connection_def nth_fold_update router_inv_def)

lemma router_inv_end:
  assumes "router_inv r"
  shows "router_inv (end_connection ended r)"
proof -
  let ?r = "end_connection ended r"
  have "mb_closed (rt_sub_boxes ?r ! a)" if "a < length (rt_sub_boxes r)" for a
    using end_connection_box [OF assms that] by simp
  moreover have "length (rt_sub_boxes ?r) = length (rt_sub_boxes r)" by (simp add: end_connection_def)
  ultimately have "keys_ok (rt_subscriptions ?r) (map mb_closed (rt_sub_boxes ?r))"
    by (simp add: keys_ok_def) (simp add: end_connection_def bt_wf_def)
  moreover have "boxes_bounded (rt_sub_boxes ?r)" "boxes_bounded (rt_ack_boxes ?r)"
    using assms by (simp_all add: end_connection_def router_inv_def)
  moreover have "rt_sender ?r = rt_sender r" "rt_last ?r = rt_last r" by (simp_all add: end_connection_def)
  ultimately show ?thesis
    using assms by (simp add: router_inv_def)
qed

lemma router_inv_moved:
  assumes "router_inv r"
  shows "router_inv (moved change r)"
proof (cases "rt_sender r")
  case None
  with assms show ?thesis by (simp add: moved_def)
next
  case (Some before)
  let ?after = "change before"
  let ?r = "r\<lparr>rt_version := (if ?after = before then rt_version r else Suc (rt_version r)), rt_last := ?after,
      rt_sender := (if is_terminal (cn_connectivity ?after) then None else Some ?after)\<rparr>"
  have "router_inv ?r" using assms by (simp add: router_inv_def watch_ok_def)
  moreover have "moved change r = (case ended_by before ?after of Some ended \<Rightarrow> end_connection ended ?r | None \<Rightarrow> ?r)"
    by (simp add: moved_def Some Let_def)
  ultimately show ?thesis by (cases "ended_by before ?after") (simp_all only: option.case router_inv_end)
qed

lemma router_inv_deliver: "router_inv r \<Longrightarrow> router_inv (deliver dbg msg r)"
proof (cases msg)
  case (MsgOk e status message)
  then show "router_inv r \<Longrightarrow> ?thesis"
    by (cases "bt_get (rt_acknowledgements r) e") (simp_all add: router_inv_def)
qed (simp_all add: router_inv_deliver_item router_inv_moved)

lemma box_replaced:
  assumes "router_inv r" "a < length (rt_sub_boxes r)" "mb_closed mb = mb_closed (rt_sub_boxes r ! a)" "bounded_box mb"
  shows "router_inv (r\<lparr>rt_sub_boxes := (rt_sub_boxes r)[a := mb]\<rparr>)"
proof -
  have "map mb_closed ((rt_sub_boxes r)[a := mb]) = map mb_closed (rt_sub_boxes r)"
    using assms(2,3) by (simp add: map_update) (metis length_map list_update_id nth_map)
  with assms(1,4) show ?thesis by (simp add: router_inv_def boxes_bounded_list_update)
qed

lemma mailbox_take_facts:
  assumes "mailbox_take mb = (x, mb')"
  shows "mb_closed mb' = mb_closed mb" "bounded_box mb \<Longrightarrow> bounded_box mb'" "mb_dropped mb' = mb_dropped mb"
    "mb_capacity mb' = mb_capacity mb" "mb_items mb = (case x of None \<Rightarrow> [] | Some y \<Rightarrow> y # mb_items mb')"
  using assms by (auto simp: mailbox_take_def bounded_box_def split: list.splits)

lemma router_inv_next:
  assumes "router_inv r"
  shows "router_inv (snd (subscription_next a r))"
proof (cases "a < length (rt_sub_boxes r)")
  case True
  obtain x mb where t: "mailbox_take (rt_sub_boxes r ! a) = (x, mb)" by fastforce
  have b: "bounded_box (rt_sub_boxes r ! a)" using assms True by (simp add: router_inv_def boxes_bounded_nth)
  note f = mailbox_take_facts [OF t]
  have "router_inv (r\<lparr>rt_sub_boxes := (rt_sub_boxes r)[a := mb]\<rparr>)"
    by (rule box_replaced [OF assms True]) (use f b in simp_all)
  moreover have "router_inv (r\<lparr>rt_sub_boxes := (rt_sub_boxes r)[a := mb\<lparr>mb_dropped := 0\<rparr>]\<rparr>)"
    by (rule box_replaced [OF assms True]) (use f b in \<open>simp_all add: bounded_box_def\<close>)
  ultimately show ?thesis
    by (cases x) (simp_all add: subscription_next_def t Let_def mailbox_take_dropped_def True assms)
qed (simp add: subscription_next_def assms)

lemma router_inv_settled:
  assumes "router_inv r"
  shows "router_inv (snd (acknowledgement_settled e a r))"
proof (cases "a < length (rt_ack_boxes r)")
  case True
  obtain x mb where t: "mailbox_take (rt_ack_boxes r ! a) = (x, mb)" by fastforce
  have "bounded_box (rt_ack_boxes r ! a)" using assms True by (simp add: router_inv_def boxes_bounded_nth)
  with assms mailbox_take_facts [OF t] have "router_inv (r\<lparr>rt_ack_boxes := (rt_ack_boxes r)[a := mb]\<rparr>)"
    by (simp add: router_inv_def boxes_bounded_list_update)
  then show ?thesis
    by (cases x) (simp_all add: acknowledgement_settled_def t Let_def True router_inv_release_ack assms)
qed (simp add: acknowledgement_settled_def assms)

subsection \<open>Runs\<close>

text \<open>Everything that can happen to a router, in any order.\<close>

datatype router_op =
    DoOpen wire_id nat
  | DoSubscribeSettle wire_id handoff_outcome
  | DoDrop wire_id
  | DoNext nat
  | DoAwait event_id
  | DoPublishSettle event_id nat handoff_outcome
  | DoSettled event_id nat
  | DoDeliver relay_message
  | DoMove "connection \<Rightarrow> connection"
  | DoAnswer relay_session_identity event
  | DoProgress progress
  | DoAccepted public_key
  | DoClose

fun router_perform :: "(relay_message \<Rightarrow> string) \<Rightarrow> router_op \<Rightarrow> wire_router \<Rightarrow> wire_router" where
  "router_perform dbg (DoOpen i n) r = snd (open_subscription i n r)"
| "router_perform dbg (DoSubscribeSettle i out) r = snd (subscribe_settle i out r)"
| "router_perform dbg (DoDrop i) r = release_subscription i r"
| "router_perform dbg (DoNext a) r = snd (subscription_next a r)"
| "router_perform dbg (DoAwait e) r = snd (await_acknowledgement e r)"
| "router_perform dbg (DoPublishSettle e a out) r = snd (publish_settle e a out r)"
| "router_perform dbg (DoSettled e a) r = snd (acknowledgement_settled e a r)"
| "router_perform dbg (DoDeliver m) r = deliver dbg m r"
| "router_perform dbg (DoMove f) r = moved f r"
| "router_perform dbg (DoAnswer i e) r = snd (answer_begin i e r)"
| "router_perform dbg (DoProgress p) r = record_progress p r"
| "router_perform dbg (DoAccepted k) r = record_accepted k r"
| "router_perform dbg DoClose r = close_router r"

text \<open>A session mints identifiers that are unique among its live subscriptions.\<close>

inductive router_reach :: "(relay_message \<Rightarrow> string) \<Rightarrow> wire_router \<Rightarrow> bool" for dbg where
  router_start: "router_reach dbg (router_new (connection_opening i))"
| router_next: "router_reach dbg r \<Longrightarrow> (\<And>i n. op = DoOpen i n \<Longrightarrow> bt_get (rt_subscriptions r) i = None) \<Longrightarrow>
    router_reach dbg (router_perform dbg op r)"

lemma router_inv_perform:
  assumes "router_inv r" "\<And>i n. op = DoOpen i n \<Longrightarrow> bt_get (rt_subscriptions r) i = None"
  shows "router_inv (router_perform dbg op r)"
proof (cases op)
  case (DoOpen i n)
  with assms show ?thesis by (simp add: router_inv_open)
next
  case (DoSubscribeSettle i out)
  with assms(1) show ?thesis by (cases out) (simp_all add: subscribe_settle_def router_inv_release)
next
  case (DoPublishSettle e a out)
  with assms(1) show ?thesis by (cases out) (simp_all add: publish_settle_def router_inv_release_ack)
next
  case (DoAnswer i e)
  with assms(1) show ?thesis
    by (auto simp: answer_begin_def Let_def split_beta router_inv_moved router_inv_await)
qed (use assms(1) in \<open>simp_all add: router_inv_release router_inv_next router_inv_await router_inv_settled router_inv_deliver
    router_inv_moved record_progress_def record_accepted_def close_router_def\<close>)

lemma router_reach_inv: "router_reach dbg r \<Longrightarrow> router_inv r"
  by (induction rule: router_reach.induct)
    (simp_all add: router_inv_new connection_opening_def router_inv_perform)

subsection \<open>Properties\<close>

text \<open>
  (C21) A handle never waits for a relay that has forgotten it: in every reachable router a read of
  a subscription whose wire key is no longer live returns, and while it waits its key is live.
\<close>

theorem released_handle_never_waits:
  assumes "router_reach dbg r" "a < length (rt_sub_boxes r)" "\<And>i. bt_get (rt_subscriptions r) i \<noteq> Some a"
  shows "\<exists>item. fst (subscription_next a r) = Some item"
proof -
  from router_reach_inv [OF assms(1)] have "keys_ok (rt_subscriptions r) (map mb_closed (rt_sub_boxes r))" by (simp add: router_inv_def)
  from keys_okD(4) [OF this, of a] assms(2,3) have closed: "mb_closed (rt_sub_boxes r ! a)" by auto
  obtain x mb where t: "mailbox_take (rt_sub_boxes r ! a) = (x, mb)" by fastforce
  from mailbox_take_facts(1) [OF t] closed assms(2) show ?thesis
    by (cases x) (auto simp: subscription_next_def t Let_def mailbox_take_dropped_def)
qed

text \<open>
  A frame reaches the handle that owns its wire key and no other: the mailbox of every other
  subscription, all acknowledgements, the keys and the connection stay as they are; the owner
  receives the event in order or counts it as lost, and a frame nobody owns changes nothing.
\<close>

theorem delivery_isolated:
  assumes "router_reach dbg r"
  shows "let r' = deliver dbg (MsgEvent i e) r in
    rt_subscriptions r' = rt_subscriptions r \<and> rt_acknowledgements r' = rt_acknowledgements r \<and> rt_ack_boxes r' = rt_ack_boxes r
    \<and> rt_sender r' = rt_sender r \<and> rt_last r' = rt_last r \<and> length (rt_sub_boxes r') = length (rt_sub_boxes r)
    \<and> (\<forall>a<length (rt_sub_boxes r). rt_sub_boxes r' ! a =
         (if bt_get (rt_subscriptions r) i \<noteq> Some a then rt_sub_boxes r ! a
          else if length (mb_items (rt_sub_boxes r ! a)) < mb_capacity (rt_sub_boxes r ! a)
          then (rt_sub_boxes r ! a)\<lparr>mb_items := mb_items (rt_sub_boxes r ! a) @ [ItemEvent e]\<rparr>
          else (rt_sub_boxes r ! a)\<lparr>mb_dropped := mb_dropped (rt_sub_boxes r ! a) + 1\<rparr>))"
proof (cases "bt_get (rt_subscriptions r) i")
  case None
  then show ?thesis by (simp add: deliver_item_def)
next
  case (Some k)
  from router_reach_inv [OF assms] have "keys_ok (rt_subscriptions r) (map mb_closed (rt_sub_boxes r))" by (simp add: router_inv_def)
  from keys_okD(2) [OF this Some] have "k < length (rt_sub_boxes r)" "\<not> mb_closed (rt_sub_boxes r ! k)" by auto
  with Some show ?thesis
    by (auto simp: deliver_item_def Let_def nth_update_box mailbox_offer_def)
qed

lemma moved_None [simp]: "rt_sender r = None \<Longrightarrow> moved f r = r"
  by (simp add: moved_def)

lemma release_ack_watch [simp]:
  "rt_sender (release_acknowledgement e a r) = rt_sender r" "rt_last (release_acknowledgement e a r) = rt_last r"
  "rt_version (release_acknowledgement e a r) = rt_version r"
  by (simp_all add: release_acknowledgement_def Let_def split: option.split)

lemma deliver_item_watch [simp]:
  "rt_sender (deliver_item i x r) = rt_sender r" "rt_last (deliver_item i x r) = rt_last r"
  "rt_version (deliver_item i x r) = rt_version r"
  by (simp_all add: deliver_item_def split: option.split)

lemma terminal_step:
  assumes "rt_sender r = None"
  shows "rt_sender (router_perform dbg op r) = None \<and> rt_last (router_perform dbg op r) = rt_last r
    \<and> rt_version (router_perform dbg op r) = rt_version r"
proof (cases op)
  case (DoDeliver m)
  then show ?thesis using assms by (cases m) (simp_all split: option.split)
next
  case (DoAnswer i e)
  then show ?thesis using assms by (simp add: answer_begin_def)
qed (use assms in \<open>simp_all add: open_subscription_def subscribe_settle_def publish_settle_def release_subscription_def
    subscription_next_def acknowledgement_settled_def await_acknowledgement_def record_progress_def record_accepted_def
    close_router_def Let_def split_beta split: option.split handoff_outcome.split\<close>)

text \<open>
  A connection that reached its terminal state is final: whatever happens to the router
  afterwards, the connection keeps its value, its watch stays gone and no reader is woken.
\<close>

theorem terminal_connection_final:
  assumes "rt_sender r = None"
  shows "rt_sender (fold (router_perform dbg) ops r) = None \<and> rt_last (fold (router_perform dbg) ops r) = rt_last r
    \<and> rt_version (fold (router_perform dbg) ops r) = rt_version r"
  using assms
proof (induction ops arbitrary: r)
  case (Cons op ops)
  from terminal_step [OF Cons.prems, of dbg op] Cons.IH [of "router_perform dbg op r"] show ?case by simp
qed simp

subsubsection \<open>Loss is exact\<close>

datatype 'a mailbox_op = Offer 'a | Take | TakeDropped

fun offered :: "'a mailbox_op list \<Rightarrow> 'a list" where
  "offered [] = []"
| "offered (Offer x # ops) = x # offered ops"
| "offered (_ # ops) = offered ops"

text \<open>The items a reader takes, the losses it is told of, and the mailbox that is left.\<close>

fun mailbox_run :: "'a mailbox_op list \<Rightarrow> 'a mailbox \<Rightarrow> 'a list \<times> nat \<times> 'a mailbox" where
  "mailbox_run [] mb = ([], 0, mb)"
| "mailbox_run (Offer x # ops) mb = mailbox_run ops (mailbox_offer x mb)"
| "mailbox_run (Take # ops) mb =
     (let (item, mb') = mailbox_take mb; (taken, lost, mb'') = mailbox_run ops mb'
      in (case item of Some x \<Rightarrow> x # taken | None \<Rightarrow> taken, lost, mb''))"
| "mailbox_run (TakeDropped # ops) mb =
     (let (n, mb') = mailbox_take_dropped mb; (taken, lost, mb'') = mailbox_run ops mb' in (taken, unat n + lost, mb''))"

lemma unat_dropped_Suc: "unat (d :: u64) + Suc n < 2 ^ 64 \<Longrightarrow> unat (d + 1) = Suc (unat d)"
  by (simp add: unat_word_ariths)

lemma mailbox_run_accounts:
  assumes "mailbox_run ops mb = (taken, lost, mb')" "\<not> mb_closed mb" "unat (mb_dropped mb) + length (offered ops) < 2 ^ 64"
  shows "subseq (taken @ mb_items mb') (mb_items mb @ offered ops)
    \<and> length (mb_items mb) + unat (mb_dropped mb) + length (offered ops) = length taken + length (mb_items mb') + lost + unat (mb_dropped mb')"
  using assms
proof (induction ops mb arbitrary: taken lost mb' rule: mailbox_run.induct)
  case (2 x ops mb)
  let ?mb = "mailbox_offer x mb"
  show ?case
  proof (cases "length (mb_items mb) \<ge> mb_capacity mb")
    case True
    with "2.prems"(2) have mb: "?mb = mb\<lparr>mb_dropped := mb_dropped mb + 1\<rparr>" by (simp add: mailbox_offer_def)
    have n: "unat (mb_dropped mb + 1) = Suc (unat (mb_dropped mb))"
      using "2.prems"(3) by (intro unat_dropped_Suc [of _ "length (offered ops)"]) simp
    from "2.IH" [OF _ _ _] "2.prems" mb n have ih: "subseq (taken @ mb_items mb') (mb_items mb @ offered ops)"
      "length (mb_items mb) + Suc (unat (mb_dropped mb)) + length (offered ops) = length taken + length (mb_items mb') + lost + unat (mb_dropped mb')"
      by simp_all
    have "subseq (mb_items mb @ offered ops) (mb_items mb @ x # offered ops)"
      by (intro list_emb_append_mono) (auto intro: list_emb_Cons)
    with ih show ?thesis by (auto intro: subseq_order.trans)
  next
    case False
    with "2.prems"(2) have "?mb = mb\<lparr>mb_items := mb_items mb @ [x]\<rparr>" by (simp add: mailbox_offer_def)
    with "2.IH" [of taken lost mb'] "2.prems" show ?thesis by simp
  qed
next
  case (3 ops mb)
  obtain item mb1 where t: "mailbox_take mb = (item, mb1)" by fastforce
  obtain taken1 lost1 mb2 where run: "mailbox_run ops mb1 = (taken1, lost1, mb2)" by (rule prod_cases3)
  note f = mailbox_take_facts [OF t]
  have ih: "subseq (taken1 @ mb_items mb2) (mb_items mb1 @ offered ops)"
    "length (mb_items mb1) + unat (mb_dropped mb1) + length (offered ops) = length taken1 + length (mb_items mb2) + lost1 + unat (mb_dropped mb2)"
    using "3.IH" [OF t [symmetric] refl run] "3.prems"(2,3) f by simp_all
  from "3.prems"(1) t run have "taken = (case item of Some x \<Rightarrow> x # taken1 | None \<Rightarrow> taken1)" "lost = lost1" "mb' = mb2"
    by (simp_all add: Let_def)
  moreover have "mb_items mb1 = []" if "item = None" using t that by (auto simp: mailbox_take_def split: list.splits)
  ultimately show ?case using ih f(3,5) by (cases item) auto
next
  case (4 ops mb)
  obtain taken1 lost1 mb2 where run: "mailbox_run ops (mb\<lparr>mb_dropped := 0\<rparr>) = (taken1, lost1, mb2)" by (rule prod_cases3)
  with "4.prems" "4.IH" [OF mailbox_take_dropped_def [symmetric] refl run] show ?case
    by (simp add: mailbox_take_dropped_def Let_def)
qed simp

text \<open>
  (C22) A bounded queue records exact loss: whatever the order of offers and reads, what is read and
  still queued is what was offered, in order, less exactly as many items as the reader has
  been told of or will be told of.
\<close>

theorem mailbox_loss_exact:
  assumes "mailbox_run ops (mailbox_new capacity) = (taken, lost, mb)" "length (offered ops) < 2 ^ 64"
  shows "subseq (taken @ mb_items mb) (offered ops)
    \<and> length (offered ops) = length (taken @ mb_items mb) + lost + unat (mb_dropped mb)"
  using mailbox_run_accounts [OF assms(1)] assms(2) by (simp add: mailbox_new_def)

subsubsection \<open>How a handle learns that its connection ended\<close>

fun reads :: "nat \<Rightarrow> nat \<Rightarrow> wire_router \<Rightarrow> subscription_item list" where
  "reads 0 a r = []"
| "reads (Suc n) a r =
     (case subscription_next a r of (None, r') \<Rightarrow> [] | (Some x, r') \<Rightarrow> x # reads n a r')"

lemma reads_items:
  assumes "a < length (rt_sub_boxes r)" "mb_items (rt_sub_boxes r ! a) = xs"
  shows "reads (length xs + n) a r = xs @ reads n a (r\<lparr>rt_sub_boxes := (rt_sub_boxes r)[a := (rt_sub_boxes r ! a)\<lparr>mb_items := []\<rparr>]\<rparr>)"
  using assms
proof (induction xs arbitrary: r)
  case Nil
  then have "(rt_sub_boxes r ! a)\<lparr>mb_items := []\<rparr> = rt_sub_boxes r ! a" by simp
  then show ?case by simp
next
  case (Cons x xs)
  let ?r = "r\<lparr>rt_sub_boxes := (rt_sub_boxes r)[a := (rt_sub_boxes r ! a)\<lparr>mb_items := xs\<rparr>]\<rparr>"
  have "subscription_next a r = (Some x, ?r)"
    using Cons.prems by (simp add: subscription_next_def Let_def mailbox_take_def)
  moreover have "reads (length xs + n) a ?r = xs @ reads n a
      (?r\<lparr>rt_sub_boxes := (rt_sub_boxes ?r)[a := (rt_sub_boxes ?r ! a)\<lparr>mb_items := []\<rparr>]\<rparr>)"
    by (rule Cons.IH) (use Cons.prems in simp_all)
  ultimately show ?case using Cons.prems by simp
qed

lemma moved_ended_box:
  assumes "router_inv r" "rt_sender r = Some before" "ended_by before (change before) = Some ended"
    and "bt_get (rt_subscriptions r) i = Some a"
  shows "a < length (rt_sub_boxes (moved change r))"
    "rt_sub_boxes (moved change r) ! a = mailbox_close (mailbox_offer (ItemEnded ended) (rt_sub_boxes r ! a))"
proof -
  let ?after = "change before"
  let ?r = "r\<lparr>rt_version := (if ?after = before then rt_version r else Suc (rt_version r)), rt_last := ?after,
      rt_sender := (if is_terminal (cn_connectivity ?after) then None else Some ?after)\<rparr>"
  from assms(1) have "keys_ok (rt_subscriptions r) (map mb_closed (rt_sub_boxes r))" by (simp add: router_inv_def)
  from keys_okD(2) [OF this assms(4)] have a: "a < length (rt_sub_boxes r)" "\<not> mb_closed (rt_sub_boxes r ! a)" by auto
  have "router_inv ?r" using assms(1) by (simp add: router_inv_def watch_ok_def)
  from end_connection_box [OF this, of a ended] a
  have "rt_sub_boxes (end_connection ended ?r) ! a = mailbox_close (mailbox_offer (ItemEnded ended) (rt_sub_boxes r ! a))"
    by simp
  moreover have "moved change r = end_connection ended ?r" by (simp add: moved_def assms(2,3) Let_def)
  ultimately show "rt_sub_boxes (moved change r) ! a = mailbox_close (mailbox_offer (ItemEnded ended) (rt_sub_boxes r ! a))"
    "a < length (rt_sub_boxes (moved change r))"
    using a by (simp_all add: end_connection_def)
qed

text \<open>
  A live subscription whose queue has room reads out everything it still holds and then the
  exact reason its connection ended, whether the connection dropped, was replaced or ran out
  of reconnect attempts.
\<close>

theorem ending_reported:
  assumes "router_reach dbg r" "rt_sender r = Some before" "ended_by before (change before) = Some ended"
    and "bt_get (rt_subscriptions r) i = Some a" "mb_items (rt_sub_boxes r ! a) = items" "length items < mb_capacity (rt_sub_boxes r ! a)"
  shows "reads (length items + 1) a (moved change r) = items @ [ItemEnded ended]"
proof -
  note inv = router_reach_inv [OF assms(1)]
  note box = moved_ended_box [where change = change, OF inv assms(2,3,4)]
  from inv have "keys_ok (rt_subscriptions r) (map mb_closed (rt_sub_boxes r))" by (simp add: router_inv_def)
  from keys_okD(2) [OF this assms(4)] have "\<not> mb_closed (rt_sub_boxes r ! a)" by auto
  with assms(5,6) box(2) have "mb_items (rt_sub_boxes (moved change r) ! a) = items @ [ItemEnded ended]"
    by (simp add: mailbox_offer_def)
  from reads_items [OF box(1) this, of 0] show ?thesis by simp
qed

text \<open>
  A subscription whose queue is full does not: the ending is counted as one more lost item,
  and what the handle reads last is a disconnect that says \<open>session closed\<close>, even when the
  reconnect budget was spent and no further connection will appear.
\<close>

theorem full_mailbox_hides_exhaustion:
  assumes "router_reach dbg r" "rt_sender r = Some before" "cn_connectivity (change before) = Disconnected detail (Some attempts)"
    and "bt_get (rt_subscriptions r) i = Some a" "mb_items (rt_sub_boxes r ! a) = items"
    and "length items = mb_capacity (rt_sub_boxes r ! a)" "mb_dropped (rt_sub_boxes r ! a) \<noteq> - 1"
  shows "reads (length items + 2) a (moved change r) =
    items @ [ItemLost (mb_dropped (rt_sub_boxes r ! a) + 1), ItemEnded (EndedDisconnected (bounded_text_new ''session closed''))]"
proof -
  note inv = router_reach_inv [OF assms(1)]
  have "ended_by before (change before) = Some (ReconnectExhausted attempts detail)" by (simp add: ended_by_def assms(3))
  note box = moved_ended_box [where change = change, OF inv assms(2) this assms(4)]
  from inv have "keys_ok (rt_subscriptions r) (map mb_closed (rt_sub_boxes r))" by (simp add: router_inv_def)
  from keys_okD(2) [OF this assms(4)] have "\<not> mb_closed (rt_sub_boxes r ! a)" by auto
  with assms(5,6) box(2) have mb: "mb_items (rt_sub_boxes (moved change r) ! a) = items"
    "mb_dropped (rt_sub_boxes (moved change r) ! a) = mb_dropped (rt_sub_boxes r ! a) + 1" "mb_closed (rt_sub_boxes (moved change r) ! a)"
    by (simp_all add: mailbox_offer_def)
  have "mb_dropped (rt_sub_boxes r ! a) + 1 \<noteq> 0" using assms(7) by (metis add_eq_0_iff2)
  then have "mb_dropped (rt_sub_boxes r ! a) + 1 > 0" by (simp add: word_gt_0)
  with reads_items [OF box(1) mb(1), of 2] mb box(1) show ?thesis
    by (simp add: numeral_2_eq_2 subscription_next_def Let_def mailbox_take_def mailbox_take_dropped_def)
qed

subsubsection \<open>Answering a challenge\<close>

text \<open>
  A challenge is answered once: an answer is sent only on a connection that is asking, and
  after it no second answer is sent until the relay asks again.
\<close>

theorem challenge_answered_once:
  assumes "answer_begin identity e r = (Inr a, r1)"
  shows "(\<exists>c challenge. rt_sender r = Some c \<and> progress (cn_authentication c) = Requested challenge)
    \<and> (\<exists>c. rt_last r1 = c \<and> progress (cn_authentication c) = Answering (ev_pubkey e))
    \<and> (\<exists>out. fst (answer_begin identity e' r1) = Inl out)"
proof -
  from assms obtain c where c: "rt_sender r = Some c" "is_requested (progress (cn_authentication c))"
    by (auto simp: answer_begin_def Let_def split: if_splits option.splits)
  let ?c = "take_up (ev_pubkey e) c"
  have up: "cn_connectivity ?c = cn_connectivity c" "cn_identity ?c = cn_identity c"
    "progress (cn_authentication ?c) = Answering (ev_pubkey e)"
    using c(2) by (simp_all add: take_up_def)
  have r1: "r1 = snd (await_acknowledgement (ev_id e) (moved (take_up (ev_pubkey e)) r))"
    using assms c by (auto simp: answer_begin_def Let_def split_beta)
  have moved: "rt_last (moved f r) = f c" "rt_sender (moved f r) = (if is_terminal (cn_connectivity (f c)) then None else Some (f c))" for f
    by (simp_all add: moved_def c(1) Let_def end_connection_def split: option.split)
  have "rt_last r1 = ?c" "rt_sender r1 = (if is_terminal (cn_connectivity ?c) then None else Some ?c)"
    by (simp_all add: r1 await_acknowledgement_def Let_def moved)
  moreover from c(2) obtain challenge where "progress (cn_authentication c) = Requested challenge"
    by (cases "progress (cn_authentication c)") simp_all
  ultimately show ?thesis
    using c(1) up by (auto simp: answer_begin_def Let_def)
qed

subsubsection \<open>Wire identifiers\<close>

lemma nibble_bound: "nibble c i < 16"
proof -
  have "take_bit 4 (unat (drop_bit (4 * i) c)) < (2 ^ 4 :: nat)" by (rule take_bit_nat_less_exp)
  then show ?thesis by (simp add: nibble_def unsigned_take_bit_eq)
qed

lemma hex_digit_inj: "m < 16 \<Longrightarrow> n < 16 \<Longrightarrow> hex_digit m = hex_digit n \<Longrightarrow> m = n"
proof -
  have "distinct ''0123456789abcdef''" "length ''0123456789abcdef'' = 16" by simp_all
  then show "m < 16 \<Longrightarrow> n < 16 \<Longrightarrow> hex_digit m = hex_digit n \<Longrightarrow> m = n"
    unfolding hex_digit_def by (metis nth_eq_iff_index_eq)
qed

lemma nibbles_determine:
  assumes "\<And>i. i < 16 \<Longrightarrow> nibble c i = nibble d i"
  shows "c = d"
proof (rule bit_word_eqI)
  fix n
  assume "n < LENGTH(64)"
  then have "n div 4 < 16" by (simp add: less_mult_imp_div_less)
  from assms [OF this] have "take_bit 4 (drop_bit (4 * (n div 4)) c) = take_bit 4 (drop_bit (4 * (n div 4)) d)"
    unfolding nibble_def by (simp only: word_unat_eq_iff)
  then have "bit (take_bit 4 (drop_bit (4 * (n div 4)) c)) (n mod 4) = bit (take_bit 4 (drop_bit (4 * (n div 4)) d)) (n mod 4)" by simp
  then show "bit c n = bit d n" by (simp add: bit_take_bit_iff bit_drop_bit_eq)
qed

text \<open>
  Every identifier a session mints is exactly as wide as \<open>SUBSCRIPTION_ID_BYTES\<close>, and two
  counters never give the same one.
\<close>

theorem wire_ids_fixed_width_unique:
  "length (wire_subscription_id c) = 21 \<and> (wire_subscription_id c = wire_subscription_id d \<longleftrightarrow> c = d)"
proof -
  have "c = d" if "wire_subscription_id c = wire_subscription_id d"
  proof (rule nibbles_determine)
    fix i :: nat
    assume "i < 16"
    from that have "\<forall>j\<in>set (rev [0..<16]). hex_digit (nibble c j) = hex_digit (nibble d j)"
      unfolding wire_subscription_id_def by (simp only: append_same_eq same_append_eq map_eq_conv)
    with \<open>i < 16\<close> have "hex_digit (nibble c i) = hex_digit (nibble d i)" by simp
    then show "nibble c i = nibble d i" by (rule hex_digit_inj [OF nibble_bound nibble_bound])
  qed
  then show ?thesis by (auto simp: wire_subscription_id_def)
qed

subsection \<open>A concrete session\<close>

definition sample_identity :: relay_session_identity where
  "sample_identity = \<lparr>rsi_relay = ''wss://a'', rsi_connection = 1\<rparr>"

definition session_ops :: "router_op list" where
  "session_ops = [DoMove (\<lambda>c. c\<lparr>cn_connectivity := Connected\<rparr>), DoOpen ''s'' 1, DoOpen ''t'' 2, DoDrop ''t'',
     DoDeliver (MsgEvent ''s'' (sample_event 7 1 10 1 []))]"

definition session_router :: wire_router where
  "session_router = fold (router_perform (\<lambda>_. [])) session_ops (router_new (connection_opening sample_identity))"

definition lost :: "connection \<Rightarrow> connection" where
  "lost c = c\<lparr>cn_connectivity := Disconnected \<lparr>bounded_str = ''budget spent'', truncated_bytes = 0\<rparr> (Some 3)\<rparr>"

lemma session_reach: "router_reach (\<lambda>_. []) session_router"
proof -
  let ?R = "router_reach (\<lambda>_. [])" and ?P = "router_perform (\<lambda>_. [])" and ?r0 = "router_new (connection_opening sample_identity)"
  let ?r1 = "?P (DoMove (\<lambda>c. c\<lparr>cn_connectivity := Connected\<rparr>)) ?r0"
  let ?r2 = "?P (DoOpen ''s'' 1) ?r1" and ?e = "DoDeliver (MsgEvent ''s'' (sample_event 7 1 10 1 []))"
  have "?R ?r1" by (rule router_next [OF router_start]) simp
  then have "?R ?r2" by (rule router_next) (simp, code_simp)
  then have "?R (?P (DoOpen ''t'' 2) ?r2)" by (rule router_next) (simp, code_simp)
  then have "?R (?P (DoDrop ''t'') (?P (DoOpen ''t'' 2) ?r2))" by (rule router_next) simp
  then have "?R (?P ?e (?P (DoDrop ''t'') (?P (DoOpen ''t'' 2) ?r2)))" by (rule router_next) simp
  then show ?thesis by (simp only: session_router_def session_ops_def fold.simps id_apply comp_apply)
qed

lemma session_facts:
  "bt_get (rt_subscriptions session_router) ''s'' = Some 0" "length (rt_sub_boxes session_router) = 2"
  "mb_items (rt_sub_boxes session_router ! 0) = [ItemEvent (sample_event 7 1 10 1 [])]" "mb_capacity (rt_sub_boxes session_router ! 0) = 1"
  "mb_dropped (rt_sub_boxes session_router ! 0) = 0" "bt_keys (rt_subscriptions session_router) = [''s'']"
  by code_simp+

lemma session_sender: "rt_sender session_router = Some \<lparr>cn_identity = sample_identity, cn_connectivity = Connected, cn_authentication = unoffered\<rparr>"
  by code_simp

theorem released_handle_never_waits_witness: "\<exists>item. fst (subscription_next 1 session_router) = Some item"
proof -
  have "bt_get (rt_subscriptions session_router) i \<noteq> Some 1" for i
  proof (cases "i = ''s''")
    case False
    then have "i \<notin> set (bt_keys (rt_subscriptions session_router))" using session_facts(6) by simp
    then show ?thesis by (simp add: bt_get_None_iff [symmetric])
  qed (simp add: session_facts(1))
  then show ?thesis by (intro released_handle_never_waits [OF session_reach]) (simp_all add: session_facts(2))
qed

theorem delivery_isolated_witness:
  "mb_dropped (rt_sub_boxes (deliver (\<lambda>_. []) (MsgEvent ''s'' (sample_event 8 1 11 1 [])) session_router) ! 0) = 1
   \<and> rt_sub_boxes (deliver (\<lambda>_. []) (MsgEvent ''s'' (sample_event 8 1 11 1 [])) session_router) ! 1 = rt_sub_boxes session_router ! 1"
  using delivery_isolated [OF session_reach, of "''s''" "sample_event 8 1 11 1 []"] session_facts by (simp add: Let_def)

theorem full_mailbox_hides_exhaustion_witness:
  "reads 3 0 (moved lost session_router) = [ItemEvent (sample_event 7 1 10 1 []), ItemLost 1,
     ItemEnded (EndedDisconnected (bounded_text_new ''session closed''))]"
proof -
  have "cn_connectivity (lost \<lparr>cn_identity = sample_identity, cn_connectivity = Connected, cn_authentication = unoffered\<rparr>) =
      Disconnected \<lparr>bounded_str = ''budget spent'', truncated_bytes = 0\<rparr> (Some 3)" by (simp add: lost_def)
  from full_mailbox_hides_exhaustion [where change = lost, OF session_reach session_sender this session_facts(1,3)] session_facts(4,5)
  show ?thesis by (simp add: eval_nat_numeral)
qed

definition drained_router :: wire_router where
  "drained_router = router_perform (\<lambda>_. []) (DoNext 0) session_router"

theorem ending_reported_witness:
  "reads 1 0 (moved lost drained_router) = [ItemEnded (ReconnectExhausted 3 \<lparr>bounded_str = ''budget spent'', truncated_bytes = 0\<rparr>)]"
proof -
  have "router_reach (\<lambda>_. []) drained_router"
    unfolding drained_router_def by (rule router_next [OF session_reach]) simp
  moreover have "rt_sender drained_router = Some \<lparr>cn_identity = sample_identity, cn_connectivity = Connected, cn_authentication = unoffered\<rparr>"
    "bt_get (rt_subscriptions drained_router) ''s'' = Some 0" "mb_items (rt_sub_boxes drained_router ! 0) = []"
    "mb_capacity (rt_sub_boxes drained_router ! 0) = 1" by code_simp+
  ultimately show ?thesis
    using ending_reported [of "\<lambda>_. []" drained_router _ lost _ "''s''" 0 "[]"] by (simp add: lost_def ended_by_def)
qed

theorem terminal_connection_final_witness:
  "rt_last (fold (router_perform (\<lambda>_. [])) session_ops (moved lost session_router)) = rt_last (moved lost session_router)"
proof -
  have "rt_sender (moved lost session_router) = None" by code_simp
  from terminal_connection_final [OF this] show ?thesis by blast
qed

theorem mailbox_loss_exact_witness:
  "subseq [1, 3] [1, 2, 3 :: nat] \<and> mailbox_run [Offer 1, Offer 2, Take, TakeDropped, Offer 3] (mailbox_new 1) =
     ([1], 1, \<lparr>mb_capacity = 1, mb_items = [3 :: nat], mb_dropped = 0, mb_closed = False\<rparr>)"
proof -
  have run: "mailbox_run [Offer 1, Offer 2, Take, TakeDropped, Offer 3] (mailbox_new 1) =
     ([1], 1, \<lparr>mb_capacity = 1, mb_items = [3 :: nat], mb_dropped = 0, mb_closed = False\<rparr>)" by code_simp
  from mailbox_loss_exact [OF run] run show ?thesis by simp
qed

definition asked_router :: wire_router where
  "asked_router = router_perform (\<lambda>_. []) (DoDeliver (MsgAuth ''c'')) session_router"

theorem challenge_answered_once_witness:
  "\<exists>out. fst (answer_begin sample_identity (sample_event 9 4 12 22242 [])
       (snd (answer_begin sample_identity (sample_event 9 4 12 22242 []) asked_router))) = Inl out"
proof -
  have "fst (answer_begin sample_identity (sample_event 9 4 12 22242 []) asked_router) = Inr 0" by code_simp
  then have "answer_begin sample_identity (sample_event 9 4 12 22242 []) asked_router =
      (Inr 0, snd (answer_begin sample_identity (sample_event 9 4 12 22242 []) asked_router))" by (metis prod.collapse)
  from challenge_answered_once [OF this] show ?thesis by blast
qed

end
