(* ===== verification/Delivery.thy ===== *)
theory Delivery
  imports Write_Runs Transport
begin

section \<open>Delivering a write\<close>

text \<open>
  The delivery policy (\<open>fava-delivery-standard\<close>), the NIP-01 publisher
  (\<open>fava-publisher-nip01\<close>) and the destination lanes of \<open>fava-publication/src/delivery.rs\<close>, over
  the write store and the relay sessions. The environment of one publication is a list of
  rounds: the outcome of the handoff, what the acknowledgement handle returned within the
  deadline, and the connection state the publisher waited for. \<open>None\<close> is an attempt that is
  still pending when the list ends.
\<close>

subsection \<open>The policy\<close>

datatype delivery_decision = AttemptNow | GiveUp string | DecisionSettled

fun standard_decide :: "u32 \<Rightarrow> u32 \<Rightarrow> relay_delivery_outcome \<Rightarrow> delivery_decision" where
  "standard_decide maximum attempts Pending = (if attempts < maximum then AttemptNow else DecisionSettled)"
| "standard_decide maximum attempts (Retryable reason) =
     (if attempts < maximum then AttemptNow
      else GiveUp (''attempt ceiling '' @ show_nat (unat maximum) @ '' reached after: '' @ reason))"
| "standard_decide maximum attempts _ = DecisionSettled"

subsection \<open>The publisher\<close>

datatype publish_outcome =
    PubAcknowledged string
  | PubRejected string
  | AuthenticationRequired string
  | PubNotHandedOff string
  | OutcomeUnknown string

definition AUTH_REQUIRED :: string where
  "AUTH_REQUIRED = ''auth-required:''"

definition arrived :: "connection \<Rightarrow> public_key \<Rightarrow> bool" where
  "arrived c account \<longleftrightarrow> cn_connectivity c = Connected \<and> established (cn_authentication c) = Some account"

definition blocked :: "connection \<Rightarrow> bool" where
  "blocked c \<longleftrightarrow>
     (case progress (cn_authentication c) of Declined \<Rightarrow> True | progress.Refused _ \<Rightarrow> True | Unanswerable _ \<Rightarrow> True | _ \<Rightarrow> False)
     \<or> is_terminal (cn_connectivity c)"

definition describe_block :: "connection \<Rightarrow> string" where
  "describe_block c =
     (case progress (cn_authentication c) of
        Declined \<Rightarrow> ''the application declined to authenticate''
      | progress.Refused reason \<Rightarrow> ''the relay refused authentication: '' @ bounded_str reason
      | Unanswerable reason \<Rightarrow> ''authentication could not be answered: '' @ bounded_str reason
      | _ \<Rightarrow>
          (case cn_connectivity c of
             Disconnected detail (Some attempts) \<Rightarrow>
               ''the reconnect budget of '' @ show_nat attempts @ '' was exhausted before authentication completed: '' @ bounded_str detail
           | _ \<Rightarrow> ''authentication did not complete''))"

fun describe_ended :: "session_ended \<Rightarrow> string" where
  "describe_ended (EndedDisconnected detail) = ''connection ended before the relay answered: '' @ bounded_str detail"
| "describe_ended (ReconnectExhausted attempts detail) =
     ''reconnect budget of '' @ show_nat attempts @ '' exhausted before the relay answered: '' @ bounded_str detail"

text \<open>
  \<open>wait_for\<close> returns with the first connection value it accepts, and fails when the watch is
  gone: the argument is the sequence of values, \<open>None\<close> its end.
\<close>

fun wait_for_authentication :: "public_key \<Rightarrow> connection option list \<Rightarrow> (string + unit) option" where
  "wait_for_authentication account [] = None"
| "wait_for_authentication account (None # _) = Some (Inl ''the connection ended while authentication was outstanding'')"
| "wait_for_authentication account (Some c # cs) =
     (if arrived c account then Some (Inr ())
      else if blocked c then Some (Inl (describe_block c))
      else wait_for_authentication account cs)"

record publish_round =
  pr_handoff :: "handoff_outcome + unit"
  pr_settled :: "settlement option"
  pr_watch :: "connection option list"

fun send_until_settled ::
  "(transport_failure \<Rightarrow> string) \<Rightarrow> (handoff_outcome \<Rightarrow> string) \<Rightarrow> authority \<Rightarrow> publish_round list \<Rightarrow> publish_outcome option" where
  "send_until_settled failed undecided auth [] = None"
| "send_until_settled failed undecided auth (p # ps) =
     (case pr_handoff p of
        Inl (NotHandedOff _ _ reason) \<Rightarrow> Some (PubNotHandedOff (failed reason))
      | Inl other \<Rightarrow> Some (OutcomeUnknown (undecided other))
      | Inr _ \<Rightarrow>
          (case pr_settled p of
             None \<Rightarrow> Some (OutcomeUnknown ''publication deadline elapsed after handoff'')
           | Some (SettledAccepted message) \<Rightarrow> Some (PubAcknowledged (bounded_str message))
           | Some (SettledEnded ended) \<Rightarrow> Some (OutcomeUnknown (describe_ended ended))
           | Some (SettledRejected message) \<Rightarrow>
               if take (length AUTH_REQUIRED) (bounded_str message) \<noteq> AUTH_REQUIRED then Some (PubRejected (bounded_str message))
               else (case auth of
                  Unauthenticated \<Rightarrow> Some (AuthenticationRequired (bounded_str message))
                | As account \<Rightarrow>
                    (case wait_for_authentication account (pr_watch p) of
                       None \<Rightarrow> None
                     | Some (Inr _) \<Rightarrow> send_until_settled failed undecided auth ps
                     | Some (Inl reason) \<Rightarrow> Some (AuthenticationRequired
                         (bounded_str message @ ''; authentication was required and did not happen: '' @ reason))))))"

text \<open>
  The whole publication: the lease first, whose error is reported with its text; it is held
  over every round and released at the end.
\<close>

definition nip01_publish ::
  "(transport_failure \<Rightarrow> string) \<Rightarrow> (handoff_outcome \<Rightarrow> string) \<Rightarrow> string + unit \<Rightarrow> authority \<Rightarrow> publish_round list
     \<Rightarrow> publish_outcome option" where
  "nip01_publish failed undecided acquired auth rounds =
     (case acquired of
        Inl reason \<Rightarrow> Some (PubNotHandedOff reason)
      | Inr _ \<Rightarrow> send_until_settled failed undecided auth rounds)"

subsection \<open>The lanes\<close>

fun delivery_outcome :: "publish_outcome \<Rightarrow> relay_delivery_outcome" where
  "delivery_outcome (PubAcknowledged message) = Acknowledged message"
| "delivery_outcome (PubRejected message) = Rejected message"
| "delivery_outcome (AuthenticationRequired message) = AuthenticationDenied message"
| "delivery_outcome (PubNotHandedOff reason) = Retryable reason"
| "delivery_outcome (OutcomeUnknown reason) = Unknown reason"

text \<open>The identity of the generation a lane was started for.\<close>

record lane =
  ln_write_id :: write_id
  ln_receipt_id :: receipt_id
  ln_revision_id :: revision_id
  ln_event_id :: event_id
  ln_session :: relay_url

text \<open>Which lanes \<open>start_lanes\<close> starts for a receipt, given the sessions that have one.\<close>

definition start_lanes :: "receipt \<Rightarrow> relay_url list \<Rightarrow> lane list" where
  "start_lanes r active =
     (if \<not> is_Signed (lw_event (rc_current r)) then []
      else map (\<lambda>s. \<lparr>ln_write_id = rc_write_id r, ln_receipt_id = rc_receipt_id r,
                      ln_revision_id = pe_revision_id (lw_publication (rc_current r)),
                      ln_event_id = lw_id (rc_current r), ln_session = s\<rparr>)
        (List.filter (\<lambda>s. (case bt_get (receipt_destinations r) s of
             Some Pending \<Rightarrow> True | Some (Retryable _) \<Rightarrow> True | _ \<Rightarrow> False) \<and> s \<notin> set active)
           (rc_desired_destinations r)))"

datatype lane_action = LaneStop | LaneGiveUp u32 string | LaneAttempt u32

text \<open>What one round of \<open>run_destination\<close> does with the receipt it read.\<close>

definition lane_decide :: "(u32 \<Rightarrow> relay_delivery_outcome \<Rightarrow> delivery_decision) \<Rightarrow> lane \<Rightarrow> receipt option \<Rightarrow> lane_action" where
  "lane_decide decide l read =
     (case read of
        None \<Rightarrow> LaneStop
      | Some r \<Rightarrow>
          if rc_write_id r \<noteq> ln_write_id l \<or> pe_revision_id (lw_publication (rc_current r)) \<noteq> ln_revision_id l
             \<or> lw_id (rc_current r) \<noteq> ln_event_id l \<or> \<not> receipt_desires r (ln_session l)
          then LaneStop
          else case bt_get (receipt_destinations r) (ln_session l) of
            None \<Rightarrow> LaneStop
          | Some out \<Rightarrow>
              (case decide (attempt_of (ln_session l) r) out of
                 DecisionSettled \<Rightarrow> LaneStop
               | GiveUp reason \<Rightarrow> LaneGiveUp (attempt_of (ln_session l) r) reason
               | AttemptNow \<Rightarrow> LaneAttempt (attempt_of (ln_session l) r)))"

text \<open>
  \<open>attempt\<close>: authorize the next attempt durably, publish, record what was observed. The
  publisher's answer to attempt number \<open>n\<close> is \<open>publish n\<close>, \<open>None\<close> when it never answers. The
  flag says whether the call returned.
\<close>

definition lane_attempt ::
  "(u32 \<Rightarrow> publish_outcome option) \<Rightarrow> lane \<Rightarrow> u32 \<Rightarrow> memory_write_store \<Rightarrow> bool \<times> memory_write_store" where
  "lane_attempt publish l prior m =
     (case checked_next_attempt prior of
        None \<Rightarrow> (True, m)
      | Some n \<Rightarrow>
          (case begin_attempt (ln_write_id l) (ln_receipt_id l) (ln_revision_id l) (ln_event_id l) (ln_session l) n m of
             (Inl _, m1) \<Rightarrow> (True, m1)
           | (Inr r, m1) \<Rightarrow>
               if \<not> is_Signed (lw_event (rc_current r)) then (True, m1)
               else case publish n of
                 None \<Rightarrow> (False, m1)
               | Some out \<Rightarrow>
                   (True, snd (record_outcome (ln_write_id l) (ln_receipt_id l) (ln_revision_id l) (ln_event_id l)
                      (ln_session l) n (delivery_outcome out) m1))))"

datatype lane_step = LaneReturned | LaneAgain | LanePending

text \<open>One round of \<open>run_destination\<close>.\<close>

definition lane_round ::
  "(u32 \<Rightarrow> relay_delivery_outcome \<Rightarrow> delivery_decision) \<Rightarrow> (u32 \<Rightarrow> publish_outcome option) \<Rightarrow> lane
     \<Rightarrow> memory_write_store \<Rightarrow> lane_step \<times> memory_write_store" where
  "lane_round decide publish l m =
     (case lane_decide decide l (store_receipt (ln_receipt_id l) m) of
        LaneStop \<Rightarrow> (LaneReturned, m)
      | LaneGiveUp attempts reason \<Rightarrow>
          (LaneReturned, snd (record_outcome (ln_write_id l) (ln_receipt_id l) (ln_revision_id l) (ln_event_id l)
             (ln_session l) attempts (GivenUp reason) m))
      | LaneAttempt attempts \<Rightarrow>
          (case lane_attempt publish l attempts m of
             (True, m') \<Rightarrow> (LaneAgain, m')
           | (False, m') \<Rightarrow> (LanePending, m')))"

text \<open>\<open>run_destination\<close>; the fuel bounds the rounds. \<open>None\<close>: it has not returned.\<close>

fun run_destination ::
  "(u32 \<Rightarrow> relay_delivery_outcome \<Rightarrow> delivery_decision) \<Rightarrow> (u32 \<Rightarrow> publish_outcome option) \<Rightarrow> lane \<Rightarrow> nat
     \<Rightarrow> memory_write_store \<Rightarrow> memory_write_store option" where
  "run_destination decide publish l 0 m = None"
| "run_destination decide publish l (Suc fuel) m =
     (case lane_round decide publish l m of
        (LaneReturned, m') \<Rightarrow> Some m'
      | (LaneAgain, m') \<Rightarrow> run_destination decide publish l fuel m'
      | (LanePending, m') \<Rightarrow> None)"

subsection \<open>The publisher's answer\<close>

definition outcome_text :: "publish_outcome \<Rightarrow> string" where
  "outcome_text out =
     (case out of PubAcknowledged t \<Rightarrow> t | PubRejected t \<Rightarrow> t | AuthenticationRequired t \<Rightarrow> t
      | PubNotHandedOff t \<Rightarrow> t | OutcomeUnknown t \<Rightarrow> t)"

lemma length_show_u32: "length (show_nat (unat (n :: u32))) \<le> 10"
proof -
  have "unat n < 2 ^ LENGTH(32)" by (rule unsigned_less)
  then have "unat n < 10 ^ Suc 9" by simp
  from length_show_nat [OF this] show ?thesis by simp
qed

text \<open>The bounds the constructors of these values keep: relay text is a \<open>BoundedText\<close>, a count a \<open>usize\<close>.\<close>

definition fits :: "bounded_text \<Rightarrow> bool" where
  "fits t \<longleftrightarrow> length (bounded_str t) \<le> MAX_BYTES"

definition connection_fits :: "connection \<Rightarrow> bool" where
  "connection_fits c \<longleftrightarrow>
     (case progress (cn_authentication c) of progress.Refused t \<Rightarrow> fits t | Unanswerable t \<Rightarrow> fits t | _ \<Rightarrow> True)
     \<and> (case cn_connectivity c of Disconnected t (Some n) \<Rightarrow> fits t \<and> n < 2 ^ 64 | _ \<Rightarrow> True)"

fun settlement_fits :: "settlement \<Rightarrow> bool" where
  "settlement_fits (SettledAccepted t) = fits t"
| "settlement_fits (SettledRejected t) = fits t"
| "settlement_fits (SettledEnded (EndedDisconnected t)) = fits t"
| "settlement_fits (SettledEnded (ReconnectExhausted n t)) = (fits t \<and> n < 2 ^ 64)"

definition round_fits :: "publish_round \<Rightarrow> bool" where
  "round_fits p \<longleftrightarrow> pred_option settlement_fits (pr_settled p) \<and> list_all (pred_option connection_fits) (pr_watch p)"

lemma length_show_usize: "n < 18446744073709551616 \<Longrightarrow> length (show_nat n) \<le> 20"
  using length_show_nat [of n 19] by simp

lemma describe_block_fits: "connection_fits c \<Longrightarrow> length (describe_block c) \<le> 700"
  by (auto simp: describe_block_def connection_fits_def fits_def MAX_BYTES_def
      split: progress.splits connectivity.splits option.splits dest: length_show_usize)

lemma wait_for_authentication_fits:
  "wait_for_authentication account watch = Some (Inl reason) \<Longrightarrow> list_all (pred_option connection_fits) watch
     \<Longrightarrow> length reason \<le> 700"
  by (induction account watch rule: wait_for_authentication.induct) (auto split: if_splits dest: describe_block_fits)

lemma describe_ended_fits: "settlement_fits (SettledEnded ended) \<Longrightarrow> length (describe_ended ended) \<le> 700"
  by (cases ended) (auto simp: fits_def MAX_BYTES_def dest: length_show_usize)

lemma send_until_settled_fits:
  assumes "\<And>x. length (failed x) \<le> MAX_RECEIPT_TEXT_BYTES - 42" "\<And>x. length (undecided x) \<le> MAX_RECEIPT_TEXT_BYTES - 42"
  shows "send_until_settled failed undecided auth rounds = Some out \<Longrightarrow> list_all round_fits rounds
    \<Longrightarrow> length (outcome_text out) \<le> MAX_RECEIPT_TEXT_BYTES - 42"
proof (induction rounds)
  case (Cons p ps)
  note round = Cons.prems(1) [unfolded send_until_settled.simps]
  have p: "pred_option settlement_fits (pr_settled p)" "list_all (pred_option connection_fits) (pr_watch p)"
    using Cons.prems(2) by (simp_all add: round_fits_def)
  show ?case
  proof (cases "pr_handoff p")
    case (Inl h)
    with round assms show ?thesis by (auto simp: outcome_text_def split: handoff_outcome.splits)
  next
    case (Inr u)
    show ?thesis
    proof (cases "pr_settled p")
      case None
      with Inr round show ?thesis by (auto simp: outcome_text_def MAX_RECEIPT_TEXT_BYTES_def)
    next
      case (Some v)
      with p(1) have v: "settlement_fits v" by simp
      show ?thesis
      proof (cases v)
        case (SettledRejected t)
        with v have "length (bounded_str t) \<le> 512" by (simp add: fits_def MAX_BYTES_def)
        with Inr Some SettledRejected round Cons.IH Cons.prems(2) show ?thesis
          by (auto simp: outcome_text_def MAX_RECEIPT_TEXT_BYTES_def
              split: if_splits authority.splits option.splits sum.splits dest!: wait_for_authentication_fits [OF _ p(2)])
      next
        case (SettledEnded ended)
        with v describe_ended_fits have "length (describe_ended ended) \<le> 700" by blast
        with Inr Some SettledEnded round show ?thesis by (auto simp: outcome_text_def MAX_RECEIPT_TEXT_BYTES_def)
      qed (use Inr Some v round in \<open>auto simp: outcome_text_def MAX_RECEIPT_TEXT_BYTES_def fits_def MAX_BYTES_def\<close>)
    qed
  qed
qed simp

text \<open>A relay that keeps refusing on a connection it already accepted as the account.\<close>

definition refuses_accepted :: "public_key \<Rightarrow> publish_round \<Rightarrow> bool" where
  "refuses_accepted account p \<longleftrightarrow>
     pr_handoff p = Inr ()
     \<and> (case pr_settled p of Some (SettledRejected t) \<Rightarrow> take (length AUTH_REQUIRED) (bounded_str t) = AUTH_REQUIRED | _ \<Rightarrow> False)
     \<and> (case pr_watch p of Some c # _ \<Rightarrow> arrived c account | _ \<Rightarrow> False)"

lemma refuses_accepted_again:
  "refuses_accepted account p \<Longrightarrow>
     send_until_settled failed undecided (As account) (p # ps) = send_until_settled failed undecided (As account) ps"
  by (auto simp: refuses_accepted_def split: option.splits settlement.splits list.splits)

subsection \<open>A lane over the store\<close>

text \<open>The receipt a lane is working on: stored, current, open, signed and still desired.\<close>

definition lane_current :: "lane \<Rightarrow> receipt \<Rightarrow> bool" where
  "lane_current l r \<longleftrightarrow>
     \<not> receipt_is_terminal r \<and> rc_write_id r = ln_write_id l
     \<and> pe_revision_id (lw_publication (rc_current r)) = ln_revision_id l \<and> lw_id (rc_current r) = ln_event_id l
     \<and> is_Signed (lw_event (rc_current r)) \<and> receipt_desires r (ln_session l)"

lemma set_outcome_frame [simp]:
  "receipt_is_terminal (set_outcome s out r) = receipt_is_terminal r"
  "rc_write_id (set_outcome s out r) = rc_write_id r"
  "pe_revision_id (lw_publication (rc_current (set_outcome s out r))) = pe_revision_id (lw_publication (rc_current r))"
  "lw_id (rc_current (set_outcome s out r)) = lw_id (rc_current r)"
  "lw_event (rc_current (set_outcome s out r)) = lw_event (rc_current r)"
  "receipt_desires (set_outcome s out r) t = receipt_desires r t"
  "rc_attempts (set_outcome s out r) = rc_attempts r"
  "receipt_destinations (set_outcome s out r) = bt_insert s out (receipt_destinations r)"
  by (simp_all add: set_outcome_def receipt_is_terminal_def receipt_desires_def update_destinations_def
      receipt_destinations_def)

definition begun :: "relay_url \<Rightarrow> u32 \<Rightarrow> receipt \<Rightarrow> receipt" where
  "begun s n r = (set_outcome s Attempting r)\<lparr>rc_attempts := bt_insert s n (rc_attempts r)\<rparr>"

lemma lane_current_begun [simp]: "lane_current l (begun s n r) = lane_current l r"
  by (simp add: lane_current_def begun_def receipt_is_terminal_def receipt_desires_def set_outcome_def
      update_destinations_def)

lemma lane_current_set_outcome [simp]: "lane_current l (set_outcome s out r) = lane_current l r"
  by (simp add: lane_current_def)

lemma begun_facts [simp]:
  "bt_get (receipt_destinations (begun s n r)) t = (if t = s then Some Attempting else bt_get (receipt_destinations r) t)"
  "bt_get (rc_attempts (begun s n r)) t = (if t = s then Some n else bt_get (rc_attempts r) t)"
  by (simp_all add: begun_def receipt_destinations_def set_outcome_def update_destinations_def)

lemma lane_current_receipt:
  assumes "lane_current l r" "store_receipt (ln_receipt_id l) m = Some r"
  shows "current_receipt (ln_write_id l) (ln_receipt_id l) (ln_revision_id l) (ln_event_id l) (ms_state m) = Inr r"
  using assms by (simp add: current_receipt_def store_receipt_def validate_current_revision_def lane_current_def)

lemma next_revision_room: "unat (ws_revision st) + 1 < 2 ^ 64 \<Longrightarrow> next_revision st = Inr (ws_revision st + 1)"
  by (simp add: next_revision_def checked_add_u64_def)

lemma unat_next_revision:
  fixes v :: u64
  shows "unat v + 1 < 2 ^ 64 \<Longrightarrow> unat (v + 1) = unat v + 1"
  by (simp add: unat_word_ariths)

lemma checked_next_attempt_below: "n < maximum \<Longrightarrow> checked_next_attempt n = Some (n + 1)"
  using word_order.extremum_strict [of maximum] by (auto simp: checked_next_attempt_def)

lemma unat_next_attempt:
  fixes n maximum :: u32
  assumes "n < maximum"
  shows "unat (n + 1) = unat n + 1"
proof -
  have "unat maximum < 2 ^ LENGTH(32)" by (rule unsigned_less)
  with assms have "unat n + 1 < 2 ^ 32" by (simp add: word_less_nat_alt)
  then show ?thesis by (simp add: unat_word_ariths)
qed

lemma lane_begin:
  assumes "lane_current l r" "store_receipt (ln_receipt_id l) m = Some r"
    "bt_get (receipt_destinations r) (ln_session l) = Some out" "out = Pending \<or> is_retryable out"
    "attempt_of (ln_session l) r < maximum" "unat (ws_revision (ms_state m)) + 1 < 2 ^ 64"
    "n = attempt_of (ln_session l) r + 1"
  shows "begin_attempt (ln_write_id l) (ln_receipt_id l) (ln_revision_id l) (ln_event_id l) (ln_session l) n m
     = commit_receipt (ln_receipt_id l) (begun (ln_session l) n r) (ws_revision (ms_state m) + 1) m"
  using assms
  by (auto simp: begin_attempt_def Let_def lane_current_receipt next_revision_room begun_def require_def ok_or_def
      checked_next_attempt_below [OF assms(5)])

text \<open>Recording what an attempt, or the policy, concluded.\<close>

definition concluded :: "relay_url \<Rightarrow> relay_delivery_outcome \<Rightarrow> receipt \<Rightarrow> receipt" where
  "concluded s out r = settle (set_outcome s out r)"

lemma concluded_facts [simp]:
  "receipt_destinations (concluded s out r) = bt_insert s out (receipt_destinations r)"
  "rc_attempts (concluded s out r) = rc_attempts r"
  by (simp_all add: concluded_def settle_def receipt_destinations_def set_outcome_def update_destinations_def)

lemma concluded_retryable: "is_retryable out \<Longrightarrow> concluded s out r = set_outcome s out r"
proof -
  assume out: "is_retryable out"
  then have "\<not> outcome_is_terminal out" by (cases out) auto
  moreover have "out \<in> set (bt_values (bt_insert s out (receipt_destinations r)))"
    using bt_get_SomeD [of "bt_insert s out (receipt_destinations r)" s out] by (force simp: bt_values_def)
  ultimately show ?thesis by (auto simp: concluded_def settle_def)
qed

lemma lane_record:
  assumes "lane_current l r" "store_receipt (ln_receipt_id l) m = Some r"
    "bt_get (rc_attempts r) (ln_session l) = Some n" "bt_get (receipt_destinations r) (ln_session l) = Some current"
    "current = Attempting \<or> (is_retryable current \<and> is_given_up out)"
    "outcome_is_terminal out \<or> is_retryable out" "validate_delivery_outcome out = Inr ()"
    "unat (ws_revision (ms_state m)) + 1 < 2 ^ 64"
  shows "record_outcome (ln_write_id l) (ln_receipt_id l) (ln_revision_id l) (ln_event_id l) (ln_session l) n out m
     = commit_settled (ln_receipt_id l) (concluded (ln_session l) out r) (ws_revision (ms_state m) + 1) m"
proof -
  have "current \<noteq> out" using assms(5,6) by (cases current; cases out) auto
  with assms show ?thesis
    by (simp add: record_outcome_def Let_def lane_current_receipt next_revision_room require_def ok_or_def concluded_def)
qed

lemma store_receipt_commits [simp]:
  "store_receipt i (snd (commit_receipt i r v m)) = Some r"
  "store_receipt i (snd (commit_settled i r v m)) = Some r"
  "ws_revision (ms_state (snd (commit_receipt i r v m))) = v"
  "ws_revision (ms_state (snd (commit_settled i r v m))) = v"
  by (auto simp: commit_receipt_def commit_settled_def store_receipt_def publish_receipt_def publish_receipt_only_def
      release_semantic_def Let_def split: option.splits)

lemma delivery_outcome_kind [simp]: "outcome_is_terminal (delivery_outcome out) \<or> is_retryable (delivery_outcome out)"
  by (cases out) auto

lemma validate_delivery_outcome_short:
  "length (outcome_text out) \<le> MAX_RECEIPT_TEXT_BYTES \<Longrightarrow> validate_delivery_outcome (delivery_outcome out) = Inr ()"
  by (cases out) (simp_all add: outcome_text_def validate_receipt_text_def)

lemma standard_decide_attempt:
  "out = Pending \<or> is_retryable out \<Longrightarrow> n < maximum \<Longrightarrow> standard_decide maximum n out = AttemptNow"
  by (cases out) auto

lemma lane_decide_current:
  assumes "lane_current l r" "bt_get (receipt_destinations r) (ln_session l) = Some out"
  shows "lane_decide decide l (Some r) =
     (case decide (attempt_of (ln_session l) r) out of
        DecisionSettled \<Rightarrow> LaneStop
      | GiveUp reason \<Rightarrow> LaneGiveUp (attempt_of (ln_session l) r) reason
      | AttemptNow \<Rightarrow> LaneAttempt (attempt_of (ln_session l) r))"
  using assms by (simp add: lane_decide_def lane_current_def)

lemma lane_round_attempt:
  fixes m :: memory_write_store
  assumes cur: "lane_current l r" and stored: "store_receipt (ln_receipt_id l) m = Some r"
    and out: "bt_get (receipt_destinations r) (ln_session l) = Some out" "out = Pending \<or> is_retryable out"
    and below: "attempt_of (ln_session l) r < maximum"
    and room: "unat (ws_revision (ms_state m)) + 2 < 2 ^ 64"
    and n: "n = attempt_of (ln_session l) r + 1"
    and answer: "publish n = Some answer" "length (outcome_text answer) \<le> MAX_RECEIPT_TEXT_BYTES"
  shows "\<exists>m'. lane_round (standard_decide maximum) publish l m = (LaneAgain, m')
    \<and> store_receipt (ln_receipt_id l) m' = Some (concluded (ln_session l) (delivery_outcome answer) (begun (ln_session l) n r))
    \<and> unat (ws_revision (ms_state m')) = unat (ws_revision (ms_state m)) + 2"
proof -
  let ?rev = "ws_revision (ms_state m)" and ?i = "ln_receipt_id l" and ?s = "ln_session l"
  let ?m1 = "snd (commit_receipt ?i (begun ?s n r) (?rev + 1) m)"
  let ?m2 = "snd (commit_settled ?i (concluded ?s (delivery_outcome answer) (begun ?s n r)) (?rev + 1 + 1) ?m1)"
  have rev1: "unat (?rev + 1) = unat ?rev + 1" using room by (simp add: unat_next_revision)
  moreover have "unat (?rev + 1 + 1) = unat (?rev + 1) + 1"
    by (rule unat_next_revision) (simp only: rev1, use room in simp)
  ultimately have rev: "unat (?rev + 1) = unat ?rev + 1" "unat (?rev + 1 + 1) = unat ?rev + 2" by simp_all
  have began: "begin_attempt (ln_write_id l) ?i (ln_revision_id l) (ln_event_id l) ?s n m = (Inr (begun ?s n r), ?m1)"
    using lane_begin [OF cur stored out below _ n] room by (simp add: commit_receipt_def)
  have "record_outcome (ln_write_id l) ?i (ln_revision_id l) (ln_event_id l) ?s n (delivery_outcome answer) ?m1
      = commit_settled ?i (concluded ?s (delivery_outcome answer) (begun ?s n r)) (ws_revision (ms_state ?m1) + 1) ?m1"
    by (rule lane_record [of l "begun ?s n r" _ _ Attempting])
      (use cur answer room rev in \<open>simp_all add: validate_delivery_outcome_short\<close>)
  moreover have "is_Signed (lw_event (rc_current (begun ?s n r)))"
    using lane_current_begun [of l ?s n r] cur by (simp add: lane_current_def)
  ultimately have "lane_attempt publish l (attempt_of ?s r) m = (True, ?m2)"
    using answer by (simp add: lane_attempt_def checked_next_attempt_below [OF below] began n [symmetric])
  then have "lane_round (standard_decide maximum) publish l m = (LaneAgain, ?m2)"
    by (simp add: lane_round_def stored lane_decide_current [OF cur out(1)] standard_decide_attempt [OF out(2) below])
  with rev(2) show ?thesis by (intro exI [of _ ?m2]) (simp only: store_receipt_commits simp_thms)
qed

text \<open>
  What the lane concludes, as a function of the publisher's answers alone: with \<open>k\<close> attempts
  left after \<open>a\<close> of them, the first answer that is not a definite failure before the handoff
  is recorded, and the policy gives up with the last reason when none is left.
\<close>

fun lane_verdict :: "u32 \<Rightarrow> (u32 \<Rightarrow> publish_outcome) \<Rightarrow> nat \<Rightarrow> u32 \<Rightarrow> string \<Rightarrow> u32 \<times> relay_delivery_outcome" where
  "lane_verdict maximum publish 0 a reason =
     (a, GivenUp (''attempt ceiling '' @ show_nat (unat maximum) @ '' reached after: '' @ reason))"
| "lane_verdict maximum publish (Suc k) a reason =
     (case publish (a + 1) of
        PubNotHandedOff why \<Rightarrow> lane_verdict maximum publish k (a + 1) why
      | out \<Rightarrow> (a + 1, delivery_outcome out))"

lemma lane_verdict_terminal: "outcome_is_terminal (snd (lane_verdict maximum publish k a reason))"
  by (induction k arbitrary: a reason) (auto split: publish_outcome.splits)

lemma lane_verdict_ceiling:
  "a \<le> maximum \<Longrightarrow> k = unat maximum - unat a \<Longrightarrow> fst (lane_verdict maximum publish k a reason) \<le> maximum"
proof (induction k arbitrary: a reason)
  case (Suc k)
  then have "a < maximum" by (simp add: word_less_nat_alt)
  then have "unat (a + 1) = unat a + 1" by (rule unat_next_attempt)
  with \<open>a < maximum\<close> Suc.prems have "a + 1 \<le> maximum" "k = unat maximum - unat (a + 1)"
    by (simp_all add: word_le_nat_alt word_less_nat_alt)
  with Suc.IH [OF this] show ?case by (auto split: publish_outcome.splits)
qed simp

text \<open>The receipt at the end: the verdict at the lane's destination, nothing else moved.\<close>

definition lane_left :: "relay_url \<Rightarrow> receipt \<Rightarrow> u32 \<times> relay_delivery_outcome \<Rightarrow> receipt \<Rightarrow> bool" where
  "lane_left s r verdict r' \<longleftrightarrow>
     attempt_of s r' = fst verdict \<and> bt_get (receipt_destinations r') s = Some (snd verdict)
     \<and> (\<forall>t. t \<noteq> s \<longrightarrow> attempt_of t r' = attempt_of t r \<and> bt_get (receipt_destinations r') t = bt_get (receipt_destinations r) t)"

lemma lane_round_settled:
  assumes "store_receipt (ln_receipt_id l) m = Some r"
    "bt_get (receipt_destinations r) (ln_session l) = Some out" "outcome_is_terminal out"
  shows "lane_round (standard_decide maximum) publish l m = (LaneReturned, m)"
  using assms by (cases out) (auto simp: lane_round_def lane_decide_def)

lemma lane_round_give_up:
  fixes m :: memory_write_store
  assumes cur: "lane_current l r" and stored: "store_receipt (ln_receipt_id l) m = Some r"
    and out: "bt_get (receipt_destinations r) (ln_session l) = Some (Retryable reason)"
    and spent: "bt_get (rc_attempts r) (ln_session l) = Some maximum"
    and room: "unat (ws_revision (ms_state m)) + 1 < 2 ^ 64"
    and short: "length reason \<le> MAX_RECEIPT_TEXT_BYTES - 42"
  shows "\<exists>m'. lane_round (standard_decide maximum) publish l m = (LaneReturned, m')
    \<and> store_receipt (ln_receipt_id l) m'
       = Some (concluded (ln_session l) (snd (lane_verdict maximum answers 0 maximum reason)) r)"
proof -
  let ?why = "''attempt ceiling '' @ show_nat (unat maximum) @ '' reached after: '' @ reason"
  have n: "attempt_of (ln_session l) r = maximum" using spent by (simp add: attempt_of_def)
  have "length ?why \<le> MAX_RECEIPT_TEXT_BYTES"
    using short length_show_u32 [of maximum] by (simp add: MAX_RECEIPT_TEXT_BYTES_def)
  then have "validate_delivery_outcome (GivenUp ?why) = Inr ()" by (simp add: validate_receipt_text_def)
  from lane_record [OF cur stored spent out _ _ this room] show ?thesis
    by (simp add: lane_round_def stored lane_decide_current [OF cur out] n)
qed

lemma lane_runs:
  fixes m :: memory_write_store
  assumes "lane_current l r" "store_receipt (ln_receipt_id l) m = Some r"
    "bt_get (receipt_destinations r) (ln_session l) = Some out"
    "out = Pending \<and> attempt_of (ln_session l) r < maximum
       \<or> out = Retryable reason \<and> bt_get (rc_attempts r) (ln_session l) = Some a \<and> a \<le> maximum"
    "length reason \<le> MAX_RECEIPT_TEXT_BYTES - 42"
    "k = unat maximum - unat (attempt_of (ln_session l) r)"
    "unat (ws_revision (ms_state m)) + 2 * k + 1 < 2 ^ 64"
    "\<And>n. length (outcome_text (publish n)) \<le> MAX_RECEIPT_TEXT_BYTES - 42"
  shows "\<exists>m' r'. run_destination (standard_decide maximum) (\<lambda>n. Some (publish n)) l (k + 2) m = Some m'
    \<and> store_receipt (ln_receipt_id l) m' = Some r'
    \<and> lane_left (ln_session l) r (lane_verdict maximum publish k (attempt_of (ln_session l) r) reason) r'"
  using assms
proof (induction k arbitrary: r m out reason a)
  case 0
  then have "out = Retryable reason" "bt_get (rc_attempts r) (ln_session l) = Some maximum"
    by (auto simp: attempt_of_def word_less_nat_alt word_le_nat_alt word_unat_eq_iff)
  with lane_round_give_up [of l r m reason maximum "\<lambda>n. Some (publish n)" publish] 0 obtain m' where
    "lane_round (standard_decide maximum) (\<lambda>n. Some (publish n)) l m = (LaneReturned, m')"
    "store_receipt (ln_receipt_id l) m' = Some (concluded (ln_session l) (snd (lane_verdict maximum publish 0 maximum reason)) r)"
    by auto
  then show ?case
    using \<open>bt_get (rc_attempts r) (ln_session l) = Some maximum\<close>
    by (simp add: lane_left_def attempt_of_def)
next
  case (Suc k)
  let ?s = "ln_session l" and ?run = "run_destination (standard_decide maximum) (\<lambda>n. Some (publish n)) l"
  define n where "n = attempt_of ?s r + 1"
  define r1 where "r1 = concluded ?s (delivery_outcome (publish n)) (begun ?s n r)"
  have below: "attempt_of ?s r < maximum" using Suc.prems(6) by (simp add: word_less_nat_alt)
  then have next_n: "unat n = unat (attempt_of ?s r) + 1"
    unfolding n_def by (rule unat_next_attempt)
  have short: "length (outcome_text (publish n)) \<le> MAX_RECEIPT_TEXT_BYTES"
    using Suc.prems(8) [of n] by (rule le_trans) simp
  have "out = Pending \<or> is_retryable out" using Suc.prems(4) by auto
  from lane_round_attempt [OF Suc.prems(1,2,3) this below _ n_def, of "\<lambda>n. Some (publish n)" "publish n"] Suc.prems(7) short
  obtain m1 where m1: "lane_round (standard_decide maximum) (\<lambda>n. Some (publish n)) l m = (LaneAgain, m1)"
    "store_receipt (ln_receipt_id l) m1 = Some r1" "unat (ws_revision (ms_state m1)) = unat (ws_revision (ms_state m)) + 2"
    by (auto simp: r1_def)
  have r1: "bt_get (receipt_destinations r1) ?s = Some (delivery_outcome (publish n))"
    "bt_get (rc_attempts r1) ?s = Some n" "attempt_of ?s r1 = n"
    "\<And>t. t \<noteq> ?s \<Longrightarrow> attempt_of t r1 = attempt_of t r \<and> bt_get (receipt_destinations r1) t = bt_get (receipt_destinations r) t"
    by (simp_all add: r1_def attempt_of_def)
  show ?case
  proof (cases "\<exists>why. publish n = PubNotHandedOff why")
    case True
    then obtain why where why: "publish n = PubNotHandedOff why" by blast
    have "\<exists>m' r'. ?run (k + 2) m1 = Some m' \<and> store_receipt (ln_receipt_id l) m' = Some r'
        \<and> lane_left ?s r1 (lane_verdict maximum publish k (attempt_of ?s r1) why) r'"
    proof (rule Suc.IH [where out = "Retryable why" and a = n])
      show "lane_current l r1" using Suc.prems(1) by (simp add: r1_def why concluded_retryable)
      show "k = unat maximum - unat (attempt_of ?s r1)" using Suc.prems(6) r1 next_n by simp
      show "length why \<le> MAX_RECEIPT_TEXT_BYTES - 42" using Suc.prems(8) [of n] by (simp add: why outcome_text_def)
      show "Retryable why = Pending \<and> attempt_of ?s r1 < maximum
        \<or> Retryable why = Retryable why \<and> bt_get (rc_attempts r1) ?s = Some n \<and> n \<le> maximum"
        using r1 below next_n by (simp add: word_le_nat_alt word_less_nat_alt)
    qed (use m1 r1 why Suc.prems(7,8) in simp_all)
    with m1 r1 why show ?thesis by (auto simp: lane_left_def n_def)
  next
    case False
    then have "outcome_is_terminal (delivery_outcome (publish n))"
      "lane_verdict maximum publish (Suc k) (attempt_of ?s r) reason = (n, delivery_outcome (publish n))"
      by (cases "publish n"; simp add: n_def)+
    with m1 r1 lane_round_settled [OF m1(2) r1(1)] show ?thesis by (simp add: lane_left_def)
  qed
qed

subsection \<open>Properties\<close>

text \<open>
  (C20) A lane whose publisher answers ends. Started on a current, signed and desired destination that is
  pending and still has attempts left, with a policy that allows \<open>maximum\<close> of them, answers to every
  attempt that fit a receipt and room for the revisions the store writes, it returns within one round
  for each attempt left and two more. The receipt then holds exactly the verdict of the publisher's
  answers: the first one that is not a failure before the handoff, or the policy giving up after the
  last attempt. The verdict is terminal, the ceiling is kept, and no other destination is touched. A
  publisher that does not answer is the subject of \<open>accepted_account_refused_forever\<close> below.
\<close>

theorem lane_settles:
  fixes m :: memory_write_store
  assumes "lane_current l r" "store_receipt (ln_receipt_id l) m = Some r"
    "bt_get (receipt_destinations r) (ln_session l) = Some Pending" "attempt_of (ln_session l) r < maximum"
    "k = unat maximum - unat (attempt_of (ln_session l) r)"
    "unat (ws_revision (ms_state m)) + 2 * k + 1 < 2 ^ 64"
    "\<And>n. length (outcome_text (publish n)) \<le> MAX_RECEIPT_TEXT_BYTES - 42"
  shows "\<exists>m' r' n out. run_destination (standard_decide maximum) (\<lambda>n. Some (publish n)) l (k + 2) m = Some m'
    \<and> store_receipt (ln_receipt_id l) m' = Some r'
    \<and> lane_verdict maximum publish k (attempt_of (ln_session l) r) [] = (n, out) \<and> outcome_is_terminal out \<and> n \<le> maximum
    \<and> attempt_of (ln_session l) r' = n \<and> bt_get (receipt_destinations r') (ln_session l) = Some out
    \<and> (\<forall>t. t \<noteq> ln_session l \<longrightarrow>
         attempt_of t r' = attempt_of t r \<and> bt_get (receipt_destinations r') t = bt_get (receipt_destinations r) t)"
proof -
  let ?v = "lane_verdict maximum publish k (attempt_of (ln_session l) r) []"
  from lane_runs [OF assms(1-3), of maximum "[]" 0 k publish] assms(4-7) obtain m' r' where
    "run_destination (standard_decide maximum) (\<lambda>n. Some (publish n)) l (k + 2) m = Some m'"
    "store_receipt (ln_receipt_id l) m' = Some r'" "lane_left (ln_session l) r ?v r'" by auto
  moreover have "fst ?v \<le> maximum" by (rule lane_verdict_ceiling) (use assms(4,5) in simp_all)
  ultimately show ?thesis
    using lane_verdict_terminal [of maximum publish k "attempt_of (ln_session l) r" "[]"]
    by (intro exI [of _ m'] exI [of _ r'] exI [of _ "fst ?v"] exI [of _ "snd ?v"]) (simp add: lane_left_def)
qed

text \<open>
  Whatever the relay and the connection did, the standard publisher's answer fits a
  receipt, even with the text of a policy that gives up in front of it: no answer is lost because
  the store refuses its length. The texts that derived \<open>Debug\<close> instances and the transport's
  error produce are parameters, assumed to fit.
\<close>

theorem publisher_answer_fits:
  assumes "nip01_publish failed undecided acquired auth rounds = Some out" "list_all round_fits rounds"
    "\<And>x. length (failed x) \<le> MAX_RECEIPT_TEXT_BYTES - 42" "\<And>x. length (undecided x) \<le> MAX_RECEIPT_TEXT_BYTES - 42"
    "\<And>t. acquired = Inl t \<Longrightarrow> length t \<le> MAX_RECEIPT_TEXT_BYTES - 42"
  shows "length (outcome_text out) \<le> MAX_RECEIPT_TEXT_BYTES - 42
    \<and> validate_delivery_outcome (delivery_outcome out) = Inr ()"
proof -
  have "length (outcome_text out) \<le> MAX_RECEIPT_TEXT_BYTES - 42"
    using assms send_until_settled_fits [of failed undecided auth rounds out]
    by (cases acquired) (auto simp: nip01_publish_def outcome_text_def)
  moreover from this have "length (outcome_text out) \<le> MAX_RECEIPT_TEXT_BYTES" by (rule le_trans) simp
  ultimately show ?thesis by (simp add: validate_delivery_outcome_short)
qed

text \<open>
  A relay that goes on answering \<open>auth-required:\<close> on a connection it already
  accepted as the account keeps the publication in its loop: however many rounds pass, the call
  has not returned and the event has been sent once more in each. A lane whose attempt this is
  does not return either; its destination stays \<open>Attempting\<close>.
\<close>

theorem accepted_account_refused_forever:
  fixes m :: memory_write_store
  assumes "refuses_accepted account p" "lane_current l r" "store_receipt (ln_receipt_id l) m = Some r"
    "bt_get (receipt_destinations r) (ln_session l) = Some Pending" "attempt_of (ln_session l) r < maximum"
    "unat (ws_revision (ms_state m)) + 1 < 2 ^ 64"
    "publish = (\<lambda>n. nip01_publish failed undecided (Inr ()) (As account) (replicate rounds p))"
  shows "publish n = None \<and> run_destination (standard_decide maximum) publish l fuel m = None
    \<and> (\<exists>m' r'. lane_round (standard_decide maximum) publish l m = (LanePending, m')
         \<and> store_receipt (ln_receipt_id l) m' = Some r'
         \<and> bt_get (receipt_destinations r') (ln_session l) = Some Attempting)"
proof -
  let ?n = "attempt_of (ln_session l) r + 1"
  let ?m = "snd (commit_receipt (ln_receipt_id l) (begun (ln_session l) ?n r) (ws_revision (ms_state m) + 1) m)"
  have none: "publish n = None" for n
    unfolding assms(7) by (induction rounds) (simp_all add: nip01_publish_def refuses_accepted_again [OF assms(1)] del: send_until_settled.simps(2))
  have "begin_attempt (ln_write_id l) (ln_receipt_id l) (ln_revision_id l) (ln_event_id l) (ln_session l) ?n m
      = (Inr (begun (ln_session l) ?n r), ?m)"
    using lane_begin [OF assms(2,3,4) _ assms(5,6) refl] by (simp add: commit_receipt_def)
  moreover have "is_Signed (lw_event (rc_current (begun (ln_session l) ?n r)))"
    using lane_current_begun [of l "ln_session l" ?n r] assms(2) by (simp add: lane_current_def)
  ultimately have step: "lane_round (standard_decide maximum) publish l m = (LanePending, ?m)"
    using none
    by (simp add: lane_round_def assms(3) lane_decide_current [OF assms(2,4)] assms(5) lane_attempt_def
        checked_next_attempt_below [OF assms(5)])
  then have "run_destination (standard_decide maximum) publish l fuel m = None" by (cases fuel) simp_all
  with step none show ?thesis by simp
qed

subsection \<open>Witnesses\<close>

definition sample_lane :: lane where
  "sample_lane = \<lparr>ln_write_id = 1, ln_receipt_id = 1, ln_revision_id = 1, ln_event_id = 110, ln_session = ''wss://a''\<rparr>"

definition sample_answers :: "u32 \<Rightarrow> publish_outcome" where
  "sample_answers n = (if n = 1 then PubNotHandedOff ''offline'' else PubAcknowledged ''ok'')"

definition accepting_connection :: connection where
  "accepting_connection =
     \<lparr>cn_identity = undefined, cn_connectivity = Connected, cn_authentication = \<lparr>established = Some 7, progress = Idle\<rparr>\<rparr>"

definition refusing_round :: publish_round where
  "refusing_round = \<lparr>pr_handoff = Inr (), pr_settled = Some (SettledRejected (bounded_text_new ''auth-required: who are you'')),
     pr_watch = [Some accepting_connection]\<rparr>"

lemma sample_lane_current:
  "\<exists>r. lane_current sample_lane r \<and> store_receipt (ln_receipt_id sample_lane) (sample_at 3) = Some r
     \<and> bt_get (receipt_destinations r) (ln_session sample_lane) = Some Pending \<and> attempt_of (ln_session sample_lane) r = 0
     \<and> unat (ws_revision (ms_state (sample_at 3))) = 3"
proof -
  have "(case store_receipt (ln_receipt_id sample_lane) (sample_at 3) of None \<Rightarrow> False
      | Some r \<Rightarrow> lane_current sample_lane r \<and> bt_get (receipt_destinations r) (ln_session sample_lane) = Some Pending
          \<and> attempt_of (ln_session sample_lane) r = 0)"
    "uint (ws_revision (ms_state (sample_at 3))) = 3" by code_simp+
  then show ?thesis by (auto simp: unat_eq_nat_uint split: option.splits)
qed

theorem lane_settles_witness:
  "\<exists>m' r'. run_destination (standard_decide 3) (\<lambda>n. Some (sample_answers n)) sample_lane 5 (sample_at 3) = Some m'
     \<and> store_receipt 1 m' = Some r' \<and> attempt_of ''wss://a'' r' = 2
     \<and> bt_get (receipt_destinations r') ''wss://a'' = Some (Acknowledged ''ok'')"
proof -
  obtain r where r: "lane_current sample_lane r" "store_receipt (ln_receipt_id sample_lane) (sample_at 3) = Some r"
    "bt_get (receipt_destinations r) (ln_session sample_lane) = Some Pending" "attempt_of (ln_session sample_lane) r = 0"
    "unat (ws_revision (ms_state (sample_at 3))) = 3" using sample_lane_current by blast
  have "length (outcome_text (sample_answers n)) \<le> MAX_RECEIPT_TEXT_BYTES - 42" for n
    by (simp add: sample_answers_def outcome_text_def MAX_RECEIPT_TEXT_BYTES_def)
  with lane_settles [OF r(1-3), of 3 3 sample_answers] r(4,5) obtain m' r' n out where
    "run_destination (standard_decide 3) (\<lambda>n. Some (sample_answers n)) sample_lane (3 + 2) (sample_at 3) = Some m'"
    "store_receipt (ln_receipt_id sample_lane) m' = Some r'" "lane_verdict 3 sample_answers 3 0 [] = (n, out)"
    "attempt_of (ln_session sample_lane) r' = n" "bt_get (receipt_destinations r') (ln_session sample_lane) = Some out" by auto
  moreover have "lane_verdict 3 sample_answers 3 0 [] = (2, Acknowledged ''ok'')" by code_simp
  ultimately show ?thesis by (simp add: sample_lane_def)
qed

theorem publisher_answer_fits_witness:
  "length (outcome_text (PubRejected ''blocked'')) \<le> MAX_RECEIPT_TEXT_BYTES - 42"
proof -
  let ?round = "\<lparr>pr_handoff = Inr (), pr_settled = Some (SettledRejected (bounded_text_new ''blocked'')), pr_watch = []\<rparr>"
  have "nip01_publish (\<lambda>_. ''failed'') (\<lambda>_. ''unknown'') (Inr ()) Unauthenticated [?round] = Some (PubRejected ''blocked'')"
    by code_simp
  moreover have "bounded_text_new ''blocked'' = \<lparr>bounded_str = ''blocked'', truncated_bytes = 0\<rparr>" by code_simp
  then have "list_all round_fits [?round]" by (simp add: round_fits_def fits_def MAX_BYTES_def)
  ultimately have both: "nip01_publish (\<lambda>_. ''failed'') (\<lambda>_. ''unknown'') (Inr ()) Unauthenticated [?round] = Some (PubRejected ''blocked'')"
    "list_all round_fits [?round]" by blast+
  from publisher_answer_fits [OF both] show ?thesis by (simp add: MAX_RECEIPT_TEXT_BYTES_def)
qed

theorem accepted_account_refused_forever_witness:
  "run_destination (standard_decide 3)
     (\<lambda>n. nip01_publish (\<lambda>_. ''failed'') (\<lambda>_. ''unknown'') (Inr ()) (As 7) (replicate 1000 refusing_round)) sample_lane 1000 (sample_at 3) = None"
proof -
  obtain r where r: "lane_current sample_lane r" "store_receipt (ln_receipt_id sample_lane) (sample_at 3) = Some r"
    "bt_get (receipt_destinations r) (ln_session sample_lane) = Some Pending" "attempt_of (ln_session sample_lane) r = 0"
    "unat (ws_revision (ms_state (sample_at 3))) = 3" using sample_lane_current by blast
  have "take (length AUTH_REQUIRED) (bounded_str (bounded_text_new ''auth-required: who are you'')) = AUTH_REQUIRED"
    by code_simp
  then have "refuses_accepted 7 refusing_round"
    by (simp add: refuses_accepted_def refusing_round_def accepting_connection_def arrived_def)
  moreover have "attempt_of (ln_session sample_lane) r < 3" "unat (ws_revision (ms_state (sample_at 3))) + 1 < 2 ^ 64"
    using r(4,5) by simp_all
  ultimately show ?thesis by (rule accepted_account_refused_forever [OF _ r(1-3) _ _ refl, THEN conjunct2, THEN conjunct1])
qed

end
