(* ===== verification/Observation_Registry.thy ===== *)
theory Observation_Registry
  imports Subscriptions Event_Cache
begin

section \<open>Installed observations (\<open>fava-observe/src/registry.rs\<close>)\<close>

text \<open>
  The registry owns which observations exist, the logical demand each holds at each relay and
  what is known about every relay that serves it. Every method holds the one mutex for its whole
  body and is one step here. A cancellation token and the final value \<open>u64::MAX\<close> on the wake
  channel always go together when an observation ends: \<open>rg_ended\<close> is the log of both.
\<close>

subsection \<open>State\<close>

definition saturating_add_u64 :: "u64 \<Rightarrow> u64 \<Rightarrow> u64" where
  "saturating_add_u64 a b = (case checked_add_u64 a b of Some c \<Rightarrow> c | None \<Rightarrow> - 1)"

record assigned =
  ag_demand :: relay_demand
  ag_evidence :: relay_query_evidence

record live_state =
  lv_revision :: u64
  lv_events :: "(event_id, relay_event) btree_map"
  lv_retractions :: "source_retraction list"
  lv_refused :: u64

definition live_default :: live_state where
  "live_default = \<lparr>lv_revision = 0, lv_events = [], lv_retractions = [], lv_refused = 0\<rparr>"

definition LIVE_EVENTS_PER_SESSION :: nat where
  "LIVE_EVENTS_PER_SESSION = 4096"

record observation =
  ob_public :: observation_id
  ob_active :: bool
  ob_active_child :: "observation_id option"
  ob_children :: "observation_id btree_set"
  ob_relays :: "(relay_url, assigned) btree_map"
  ob_access :: authority
  ob_plan :: "desired_plan_evidence option"
  ob_route_revision :: "u64 option"
  ob_coalesced :: u64
  ob_live :: "(relay_url, live_state) btree_map"
  ob_wake :: u64
  ob_tasks :: "nat list"

record registry =
  rg_next :: observation_id
  rg_revision :: u64
  rg_observations :: "(observation_id, observation) btree_map"
  rg_demand_changed :: u64
  rg_ended :: "observation_id list"

definition registry_default :: registry where
  "registry_default = \<lparr>rg_next = 0, rg_revision = 0, rg_observations = [], rg_demand_changed = 0, rg_ended = []\<rparr>"

definition registry_bump :: "registry \<Rightarrow> registry" where
  "registry_bump r = r\<lparr>rg_revision := saturating_add_u64 (rg_revision r) 1\<rparr>"

text \<open>Writing through \<open>get_mut\<close>, and sending the new revision to an observation's reader.\<close>

definition put_observation :: "observation_id \<Rightarrow> observation \<Rightarrow> registry \<Rightarrow> registry" where
  "put_observation i ob r = r\<lparr>rg_observations := bt_insert i ob (rg_observations r)\<rparr>"

definition modify_observation :: "observation_id \<Rightarrow> (observation \<Rightarrow> observation) \<Rightarrow> registry \<Rightarrow> registry" where
  "modify_observation i f r =
     (case bt_get (rg_observations r) i of None \<Rightarrow> r | Some ob \<Rightarrow> put_observation i (f ob) r)"

definition wake_observation :: "observation_id \<Rightarrow> registry \<Rightarrow> registry" where
  "wake_observation i r = modify_observation i (\<lambda>ob. ob\<lparr>ob_wake := rg_revision r\<rparr>) r"

definition announce_demand :: "registry \<Rightarrow> registry" where
  "announce_demand r = r\<lparr>rg_demand_changed := rg_revision r\<rparr>"

text \<open>Removing one observation cancels its work and wakes its reader for the last time.\<close>

definition end_observation :: "observation_id \<Rightarrow> registry \<Rightarrow> registry" where
  "end_observation i r =
     (case bt_get (rg_observations r) i of
        None \<Rightarrow> r
      | Some _ \<Rightarrow> r\<lparr>rg_observations := bt_remove i (rg_observations r), rg_ended := rg_ended r @ [i]\<rparr>)"

subsection \<open>Installation and generations\<close>

definition fresh_observation :: "observation_id \<Rightarrow> observation_id option \<Rightarrow> observation" where
  "fresh_observation i public =
     \<lparr>ob_public = (case public of Some p \<Rightarrow> p | None \<Rightarrow> i), ob_active = (public = None), ob_active_child = None,
      ob_children = [], ob_relays = [], ob_access = Unauthenticated, ob_plan = None, ob_route_revision = None,
      ob_coalesced = 0, ob_live = [], ob_wake = 0, ob_tasks = []\<rparr>"

definition install_for :: "observation_id option \<Rightarrow> registry \<Rightarrow> observation_id option \<times> registry" where
  "install_for public r =
     (if (case public of Some p \<Rightarrow> bt_get (rg_observations r) p = None | None \<Rightarrow> False) then (None, r)
      else
        let i = saturating_add_u64 (rg_next r) 1;
            r = put_observation i (fresh_observation i public) (r\<lparr>rg_next := i\<rparr>);
            r = (case public of
                   None \<Rightarrow> r
                 | Some p \<Rightarrow> modify_observation p (\<lambda>ob. ob\<lparr>ob_children := bs_insert i (ob_children ob)\<rparr>) r)
        in (Some i, r))"

definition registry_install :: "registry \<Rightarrow> observation_id option \<times> registry" where
  "registry_install r = install_for None r"

definition registry_install_child :: "observation_id \<Rightarrow> registry \<Rightarrow> observation_id option \<times> registry" where
  "registry_install_child public r = install_for (Some public) r"

definition remove_child :: "observation_id \<Rightarrow> observation \<Rightarrow> observation" where
  "remove_child c ob = ob\<lparr>ob_children := bs_diff (ob_children ob) [c]\<rparr>"

definition activate_child :: "observation_id \<Rightarrow> observation_id \<Rightarrow> registry \<Rightarrow> bool \<times> registry" where
  "activate_child public child r =
     (case (bt_get (rg_observations r) child, bt_get (rg_observations r) public) of
        (Some c, Some p) \<Rightarrow>
          if ob_public c \<noteq> public \<or> ob_active c \<or> child \<notin> set (ob_children p) then (False, r)
          else
            let retired = ob_active_child p;
                r = modify_observation public (\<lambda>ob. ob\<lparr>ob_active_child := Some child\<rparr>) r;
                r = modify_observation child (\<lambda>ob. ob\<lparr>ob_active := True\<rparr>) r;
                r = (case retired of
                       None \<Rightarrow> r
                     | Some old \<Rightarrow>
                         if old = child then r
                         else end_observation old (modify_observation public (remove_child old) r))
            in (True, announce_demand (registry_bump r))
      | _ \<Rightarrow> (False, r))"

subsection \<open>Evidence\<close>

record observation_evidence =
  oe_relays :: "relay_query_evidence list"
  oe_plan :: "desired_plan_evidence option"
  oe_coalesced :: u64
  oe_live_shortfalls :: "query_shortfall list"
  oe_route_revision :: "u64 option"

definition evidence_default :: observation_evidence where
  "evidence_default = \<lparr>oe_relays = [], oe_plan = None, oe_coalesced = 0, oe_live_shortfalls = [], oe_route_revision = None\<rparr>"

definition public_ids :: "observation_id list \<Rightarrow> registry \<Rightarrow> observation_id list" where
  "public_ids is r = bs_of_list (List.map_filter (\<lambda>i. map_option ob_public (bt_get (rg_observations r) i)) is)"

definition evidence_for :: "registry \<Rightarrow> observation \<Rightarrow> observation_evidence" where
  "evidence_for r ob =
     \<lparr>oe_relays = map (\<lambda>a. (ag_evidence a)\<lparr>rqe_shared_with := public_ids (rqe_shared_with (ag_evidence a)) r\<rparr>)
        (bt_values (ob_relays ob)),
      oe_plan = ob_plan ob,
      oe_coalesced = ob_coalesced ob,
      oe_live_shortfalls = map (\<lambda>(session, lv). LiveRetentionLimit session LIVE_EVENTS_PER_SESSION (lv_refused lv))
        (List.filter (\<lambda>(_, lv). lv_refused lv > 0) (ob_live ob)),
      oe_route_revision = ob_route_revision ob\<rparr>"

definition registry_evidence :: "observation_id \<Rightarrow> registry \<Rightarrow> observation_evidence" where
  "registry_evidence i r =
     (case bt_get (rg_observations r) i of None \<Rightarrow> evidence_default | Some ob \<Rightarrow> evidence_for r ob)"

definition publishable :: "observation_id \<Rightarrow> observation_id \<Rightarrow> registry \<Rightarrow> bool" where
  "publishable public i r =
     (case bt_get (rg_observations r) i of
        None \<Rightarrow> False
      | Some ob \<Rightarrow>
          if public = i then ob_active ob
          else ob_active ob \<and> ob_public ob = public
            \<and> (case bt_get (rg_observations r) public of None \<Rightarrow> False | Some p \<Rightarrow> ob_active_child p = Some i))"

definition with_publication_evidence ::
  "observation_id \<Rightarrow> observation_id \<Rightarrow> (observation_evidence \<Rightarrow> 'a) \<Rightarrow> registry \<Rightarrow> 'a option" where
  "with_publication_evidence public i act r =
     (if publishable public i r then map_option (\<lambda>ob. act (evidence_for r ob)) (bt_get (rg_observations r) i) else None)"

subsection \<open>Demand\<close>

definition is_withdrawn :: "relay_source_state \<Rightarrow> bool" where
  "is_withdrawn st = (case st of Withdrawn _ \<Rightarrow> True | _ \<Rightarrow> False)"

definition retain_withdrawn :: "relay_withdrawal \<Rightarrow> bool" where
  "retain_withdrawn w = (w = RouteWithdrawn)"

definition planned_evidence :: "relay_url \<Rightarrow> query_branch_id \<Rightarrow> route_origin \<Rightarrow> relay_query_evidence" where
  "planned_evidence session branch route =
     \<lparr>rqe_session = session, rqe_generation = None, rqe_plan_revision = 0, rqe_branches = [branch], rqe_state = Planned,
      rqe_shared_with = [], rqe_shortfall = None, rqe_route = route\<rparr>"

definition set_state :: "relay_source_state \<Rightarrow> assigned \<Rightarrow> assigned" where
  "set_state st a = a\<lparr>ag_evidence := (ag_evidence a)\<lparr>rqe_state := st\<rparr>\<rparr>"

type_synonym wanted_relays = "(relay_url, relay_demand \<times> route_origin) btree_map"

definition withdraw_unwanted :: "wanted_relays \<Rightarrow> relay_withdrawal \<Rightarrow> (relay_url, assigned) btree_map \<Rightarrow> (relay_url, assigned) btree_map" where
  "withdraw_unwanted wanted withdrawal relays =
     List.filter (\<lambda>(s, _). s \<in> set (bt_keys wanted) \<or> retain_withdrawn withdrawal)
       (map (\<lambda>(s, a). (s, if s \<in> set (bt_keys wanted) then a else set_state (Withdrawn withdrawal) a)) relays)"

definition take_wanted ::
  "query_branch_id \<Rightarrow> relay_url \<times> relay_demand \<times> route_origin \<Rightarrow> observation \<times> bool \<Rightarrow> observation \<times> bool" where
  "take_wanted branch w acc =
     (case (w, acc) of ((session, demand, route), (ob, changed)) \<Rightarrow>
        let ob = ob\<lparr>ob_live := bt_or_insert session live_default (ob_live ob)\<rparr> in
        case bt_get (ob_relays ob) session of
          Some a \<Rightarrow>
            (ob\<lparr>ob_relays := bt_insert session
               (a\<lparr>ag_demand := demand, ag_evidence := (ag_evidence a)\<lparr>rqe_route := route\<rparr>\<rparr>) (ob_relays ob)\<rparr>, changed)
        | None \<Rightarrow>
            (ob\<lparr>ob_relays := bt_insert session \<lparr>ag_demand = demand, ag_evidence = planned_evidence session branch route\<rparr>
               (ob_relays ob)\<rparr>, True))"

definition assign_observation ::
  "query_branch_id \<Rightarrow> authority \<Rightarrow> wanted_relays \<Rightarrow> u64 option \<Rightarrow> relay_withdrawal \<Rightarrow> observation \<Rightarrow> observation \<times> bool" where
  "assign_observation branch acc wanted route_revision withdrawal ob =
     (let changed = (\<exists>s\<in>set (bt_keys (ob_relays ob)). s \<notin> set (bt_keys wanted));
          ob = ob\<lparr>ob_route_revision := route_revision, ob_access := acc,
                  ob_relays := withdraw_unwanted wanted withdrawal (ob_relays ob),
                  ob_live := List.filter (\<lambda>(s, _). s \<in> set (bt_keys wanted)) (ob_live ob)\<rparr>
      in fold (take_wanted branch) wanted (ob, changed))"

definition registry_assign ::
  "observation_id \<Rightarrow> query_branch_id \<Rightarrow> authority \<Rightarrow> wanted_relays \<Rightarrow> u64 option \<Rightarrow> relay_withdrawal \<Rightarrow> registry \<Rightarrow> registry" where
  "registry_assign i branch acc wanted route_revision withdrawal r =
     (case bt_get (rg_observations r) i of
        None \<Rightarrow> r
      | Some ob \<Rightarrow>
          let (ob, changed) = assign_observation branch acc wanted route_revision withdrawal ob;
              r = wake_observation i (registry_bump (put_observation i ob r))
          in if changed then announce_demand r else r)"

definition registry_attach :: "observation_id \<Rightarrow> nat \<Rightarrow> registry \<Rightarrow> registry" where
  "registry_attach i task r = modify_observation i (\<lambda>ob. ob\<lparr>ob_tasks := ob_tasks ob @ [task]\<rparr>) r"

definition leave_parent :: "observation_id \<Rightarrow> observation \<Rightarrow> observation" where
  "leave_parent i p =
     (let p = remove_child i p in if ob_active_child p = Some i then p\<lparr>ob_active_child := None\<rparr> else p)"

definition registry_withdraw :: "observation_id \<Rightarrow> registry \<Rightarrow> registry" where
  "registry_withdraw i r =
     (case bt_get (rg_observations r) i of
        None \<Rightarrow> r
      | Some ob \<Rightarrow>
          let r = end_observation i r;
              r = (if ob_public ob \<noteq> i then modify_observation (ob_public ob) (leave_parent i) r else r);
              r = fold end_observation (ob_children ob) r
          in announce_demand (registry_bump r))"

text \<open>The demand an observation contributes, and the demand of every relay in the order of identities.\<close>

definition contributions :: "observation \<Rightarrow> (relay_url \<times> relay_demand \<times> authority) list" where
  "contributions ob =
     (if ob_active ob
      then map (\<lambda>(s, a). (s, ag_demand a, ob_access ob))
             (List.filter (\<lambda>(_, a). \<not> is_withdrawn (rqe_state (ag_evidence a))) (ob_relays ob))
      else [])"

definition push_desired ::
  "relay_url \<times> relay_demand \<times> authority \<Rightarrow> (relay_url, (relay_demand \<times> authority) list) btree_map
     \<Rightarrow> (relay_url, (relay_demand \<times> authority) list) btree_map" where
  "push_desired x m =
     (case x of (s, d) \<Rightarrow> bt_insert s ((case bt_get m s of None \<Rightarrow> [] | Some ds \<Rightarrow> ds) @ [d]) m)"

definition registry_desired :: "registry \<Rightarrow> (relay_url, (relay_demand \<times> authority) list) btree_map" where
  "registry_desired r = fold push_desired (concat (map contributions (bt_values (rg_observations r)))) []"

definition filter_for :: "observation_id \<Rightarrow> relay_url \<Rightarrow> registry \<Rightarrow> filter option" where
  "filter_for i session r =
     Option.bind (bt_get (rg_observations r) i) (\<lambda>ob. map_option (\<lambda>a. dm_filter (ag_demand a)) (bt_get (ob_relays ob) session))"

definition demand_id_at :: "observation_id \<Rightarrow> relay_url \<Rightarrow> registry \<Rightarrow> demand_id option" where
  "demand_id_at i session r =
     Option.bind (bt_get (rg_observations r) i)
       (\<lambda>ob. map_option (\<lambda>a. demand_id_of (ag_demand a)) (bt_get (ob_relays ob) session))"

definition open_observations :: "registry \<Rightarrow> observation_id list" where
  "open_observations r = bt_keys (rg_observations r)"

subsection \<open>What is known about a relay\<close>

text \<open>The owner's reader is woken only by a change that says so; the write itself always stays.\<close>

definition registry_update :: "observation_id \<Rightarrow> (observation \<Rightarrow> observation \<times> bool) \<Rightarrow> registry \<Rightarrow> registry" where
  "registry_update i change r =
     (case bt_get (rg_observations r) i of
        None \<Rightarrow> r
      | Some ob \<Rightarrow>
          let (ob, changed) = change ob; r = put_observation i ob r
          in if changed then wake_observation i (registry_bump r) else r)"

definition update_relay ::
  "relay_url \<Rightarrow> (relay_query_evidence \<Rightarrow> relay_query_evidence) \<Rightarrow> (relay_query_evidence \<Rightarrow> bool) \<Rightarrow> observation \<Rightarrow> observation \<times> bool" where
  "update_relay session f differs ob =
     (case bt_get (ob_relays ob) session of
        None \<Rightarrow> (ob, False)
      | Some a \<Rightarrow>
          (ob\<lparr>ob_relays := bt_insert session (a\<lparr>ag_evidence := f (ag_evidence a)\<rparr>) (ob_relays ob)\<rparr>, differs (ag_evidence a)))"

definition record_state :: "observation_id \<Rightarrow> relay_url \<Rightarrow> round option \<Rightarrow> relay_source_state \<Rightarrow> registry \<Rightarrow> registry" where
  "record_state i session generation st r =
     registry_update i (update_relay session
       (\<lambda>e. e\<lparr>rqe_generation := generation, rqe_state := st\<rparr>)
       (\<lambda>e. rqe_state e \<noteq> st \<or> rqe_generation e \<noteq> generation)) r"

definition record_sharing ::
  "observation_id \<Rightarrow> relay_url \<Rightarrow> u64 \<Rightarrow> observation_id list \<Rightarrow> relay_shortfall option \<Rightarrow> registry \<Rightarrow> registry" where
  "record_sharing i session plan_revision shared_with shortfall r =
     registry_update i (update_relay session
       (\<lambda>e. e\<lparr>rqe_plan_revision := plan_revision, rqe_shared_with := shared_with, rqe_shortfall := shortfall\<rparr>)
       (\<lambda>e. rqe_plan_revision e \<noteq> plan_revision \<or> rqe_shared_with e \<noteq> shared_with \<or> rqe_shortfall e \<noteq> shortfall)) r"

definition record_plan :: "observation_id \<Rightarrow> desired_plan_evidence \<Rightarrow> registry \<Rightarrow> registry" where
  "record_plan i plan r = registry_update i (\<lambda>ob. (ob\<lparr>ob_plan := Some plan\<rparr>, ob_plan ob \<noteq> Some plan)) r"

definition record_coalesced :: "observation_id \<Rightarrow> u64 \<Rightarrow> registry \<Rightarrow> registry" where
  "record_coalesced i dropped r =
     registry_update i (\<lambda>ob. (ob\<lparr>ob_coalesced := saturating_add_u64 (ob_coalesced ob) dropped\<rparr>, False)) r"

subsection \<open>Live relay events\<close>

fun live_mutation ::
  "relay_url \<Rightarrow> event_state_mutation \<Rightarrow> (event_id, relay_event) btree_map \<times> source_retraction list
     \<Rightarrow> (event_id, relay_event) btree_map \<times> source_retraction list" where
  "live_mutation session (Upsert incoming) (events, retractions) =
     (bt_insert (ev_id (re_event incoming)) incoming events, retractions)"
| "live_mutation session (Retract i retracted cause) (events, retractions) =
     (if retracted = session \<and> bt_get events i \<noteq> None
      then (bt_remove i events, retractions @ [\<lparr>sr_event_id = i, sr_cause = cause\<rparr>])
      else (events, retractions))"

definition live_apply :: "nostr_lib \<Rightarrow> relay_event \<Rightarrow> live_state \<Rightarrow> live_state \<times> bool" where
  "live_apply N re lv =
     (let session = occ_session (re_occurrence re);
          mutations = mutations_for_event N (bt_values (lv_events lv)) re (occ_observed_at (re_occurrence re)) in
      if mutations = [] then (lv, False)
      else
        let (events, retractions) = fold (live_mutation session) mutations (lv_events lv, []);
            lv = lv\<lparr>lv_retractions := []\<rparr> in
        if length events > LIVE_EVENTS_PER_SESSION
        then (lv\<lparr>lv_refused := saturating_add_u64 (lv_refused lv) 1, lv_revision := saturating_add_u64 (lv_revision lv) 1\<rparr>, True)
        else (lv\<lparr>lv_events := events, lv_retractions := retractions, lv_revision := saturating_add_u64 (lv_revision lv) 1\<rparr>, True))"

definition record_live_event :: "nostr_lib \<Rightarrow> observation_id \<Rightarrow> relay_event \<Rightarrow> registry \<Rightarrow> registry" where
  "record_live_event N i re r =
     registry_update i (\<lambda>ob.
       let session = occ_session (re_occurrence re) in
       case bt_get (ob_live ob) session of
         None \<Rightarrow> (ob, False)
       | Some lv \<Rightarrow> let (lv', changed) = live_apply N re lv in (ob\<lparr>ob_live := bt_insert session lv' (ob_live ob)\<rparr>, changed)) r"

definition live_snapshots :: "observation_id \<Rightarrow> registry \<Rightarrow> source_snapshot list" where
  "live_snapshots i r =
     (case bt_get (rg_observations r) i of
        None \<Rightarrow> []
      | Some ob \<Rightarrow> map (\<lambda>(session, lv).
          \<lparr>ss_kind = LiveRelay session, ss_revision = lv_revision lv, ss_status = SourceOpen,
           ss_events = map RelayContribution (bt_values (lv_events lv)), ss_retractions = lv_retractions lv\<rparr>) (ob_live ob))"

subsection \<open>Every operation as a step\<close>

datatype registry_op =
    RegInstall
  | RegInstallChild observation_id
  | RegActivate observation_id observation_id
  | RegAssign observation_id query_branch_id authority wanted_relays "u64 option" relay_withdrawal
  | RegAttach observation_id nat
  | RegWithdraw observation_id
  | RegState observation_id relay_url "round option" relay_source_state
  | RegSharing observation_id relay_url u64 "observation_id list" "relay_shortfall option"
  | RegPlan observation_id desired_plan_evidence
  | RegCoalesced observation_id u64
  | RegLive observation_id relay_event

fun registry_perform :: "nostr_lib \<Rightarrow> registry_op \<Rightarrow> registry \<Rightarrow> registry" where
  "registry_perform N RegInstall r = snd (registry_install r)"
| "registry_perform N (RegInstallChild p) r = snd (registry_install_child p r)"
| "registry_perform N (RegActivate p c) r = snd (activate_child p c r)"
| "registry_perform N (RegAssign i b a w v x) r = registry_assign i b a w v x r"
| "registry_perform N (RegAttach i t) r = registry_attach i t r"
| "registry_perform N (RegWithdraw i) r = registry_withdraw i r"
| "registry_perform N (RegState i s g st) r = record_state i s g st r"
| "registry_perform N (RegSharing i s v sh sf) r = record_sharing i s v sh sf r"
| "registry_perform N (RegPlan i p) r = record_plan i p r"
| "registry_perform N (RegCoalesced i n) r = record_coalesced i n r"
| "registry_perform N (RegLive i e) r = record_live_event N i e r"

text \<open>
  What the callers in \<open>observer.rs\<close> keep to: a generation is installed for an observation the
  application opened, never for another generation, and the identity counter has not run out.
\<close>

definition registry_allowed :: "registry_op \<Rightarrow> registry \<Rightarrow> bool" where
  "registry_allowed op r =
     (case op of
        RegInstall \<Rightarrow> rg_next r \<noteq> - 1
      | RegInstallChild p \<Rightarrow> rg_next r \<noteq> - 1
          \<and> (case bt_get (rg_observations r) p of None \<Rightarrow> True | Some ob \<Rightarrow> ob_public ob = p)
      | RegAssign i b a w v x \<Rightarrow> bt_wf w
      | _ \<Rightarrow> True)"

inductive registry_reach :: "nostr_lib \<Rightarrow> registry \<Rightarrow> bool" for N where
  "registry_reach N registry_default"
| "registry_reach N r \<Longrightarrow> registry_allowed op r \<Longrightarrow> registry_reach N (registry_perform N op r)"

inductive_cases registry_reachE: "registry_reach N r"

subsection \<open>The invariant\<close>

text \<open>
  One observation with its identity, seen from the map of all of them: a root is active and owns
  its children; a generation belongs to an open root, is listed there, and is active exactly when
  the root names it.
\<close>

definition family_ok :: "(observation_id \<Rightarrow> observation option) \<Rightarrow> observation_id \<Rightarrow> observation \<Rightarrow> bool" where
  "family_ok m i ob \<longleftrightarrow>
     (if ob_public ob = i
      then ob_active ob \<and> bs_wf (ob_children ob)
        \<and> (\<forall>c\<in>set (ob_children ob). \<exists>cb. m c = Some cb \<and> ob_public cb = i \<and> c \<noteq> i)
        \<and> (\<forall>c. ob_active_child ob = Some c \<longrightarrow> c \<in> set (ob_children ob))
      else ob_children ob = [] \<and> ob_active_child ob = None
        \<and> (\<exists>p. m (ob_public ob) = Some p \<and> ob_public p = ob_public ob \<and> i \<in> set (ob_children p)
             \<and> (ob_active ob \<longleftrightarrow> ob_active_child p = Some i)))"

definition live_ok :: "live_state \<Rightarrow> bool" where
  "live_ok lv \<longleftrightarrow> bt_wf (lv_events lv) \<and> length (lv_events lv) \<le> LIVE_EVENTS_PER_SESSION"

definition observation_ok :: "observation \<Rightarrow> bool" where
  "observation_ok ob \<longleftrightarrow> bt_wf (ob_relays ob) \<and> bt_wf (ob_live ob) \<and> list_all live_ok (bt_values (ob_live ob))"

definition registry_inv :: "registry \<Rightarrow> bool" where
  "registry_inv r \<longleftrightarrow>
     bt_wf (rg_observations r)
     \<and> (\<forall>i ob. bt_get (rg_observations r) i = Some ob \<longrightarrow>
          i \<le> rg_next r \<and> observation_ok ob \<and> family_ok (bt_get (rg_observations r)) i ob)"

lemma registry_invI:
  assumes "bt_wf (rg_observations r)"
    "\<And>i ob. bt_get (rg_observations r) i = Some ob \<Longrightarrow> i \<le> rg_next r"
    "\<And>i ob. bt_get (rg_observations r) i = Some ob \<Longrightarrow> observation_ok ob"
    "\<And>i ob. bt_get (rg_observations r) i = Some ob \<Longrightarrow> family_ok (bt_get (rg_observations r)) i ob"
  shows "registry_inv r"
  using assms by (auto simp: registry_inv_def)

lemma registry_invD:
  assumes "registry_inv r"
  shows "bt_wf (rg_observations r)"
    "bt_get (rg_observations r) i = Some ob \<Longrightarrow> i \<le> rg_next r"
    "bt_get (rg_observations r) i = Some ob \<Longrightarrow> observation_ok ob"
    "bt_get (rg_observations r) i = Some ob \<Longrightarrow> family_ok (bt_get (rg_observations r)) i ob"
  using assms by (auto simp: registry_inv_def)

text \<open>The part of an observation the families are made of.\<close>

definition same_family :: "observation \<Rightarrow> observation \<Rightarrow> bool" where
  "same_family a b \<longleftrightarrow>
     ob_public a = ob_public b \<and> ob_active a = ob_active b \<and> ob_active_child a = ob_active_child b
     \<and> ob_children a = ob_children b"

lemma family_ok_cong:
  assumes "family_ok m i ob" "same_family ob' ob" "rel_fun (=) (rel_option same_family) m' m"
  shows "family_ok m' i ob'"
proof -
  have m: "m j = Some b \<Longrightarrow> \<exists>b'. m' j = Some b' \<and> same_family b' b" for j b
    using rel_funD [OF assms(3) refl, of j] by (auto elim: option.rel_cases)
  show ?thesis
  proof (cases "ob_public ob = i")
    case True
    with assms(1,2) m show ?thesis by (fastforce simp: family_ok_def same_family_def)
  next
    case False
    with assms(1) obtain p where p: "m (ob_public ob) = Some p" "ob_public p = ob_public ob" "i \<in> set (ob_children p)"
      "ob_active ob \<longleftrightarrow> ob_active_child p = Some i" "ob_children ob = []" "ob_active_child ob = None"
      by (auto simp: family_ok_def)
    from m [OF p(1)] obtain p' where "m' (ob_public ob) = Some p'" "same_family p' p" by blast
    with p False assms(2) show ?thesis by (auto simp: family_ok_def same_family_def)
  qed
qed

lemma put_observation_get [simp]:
  "bt_get (rg_observations (put_observation i ob r)) j = (if j = i then Some ob else bt_get (rg_observations r) j)"
  by (simp add: put_observation_def)

lemma put_observation_frame [simp]:
  "rg_next (put_observation i ob r) = rg_next r" "rg_revision (put_observation i ob r) = rg_revision r"
  "rg_demand_changed (put_observation i ob r) = rg_demand_changed r" "rg_ended (put_observation i ob r) = rg_ended r"
  by (simp_all add: put_observation_def)

lemma put_observation_wf [simp]:
  "bt_wf (rg_observations r) \<Longrightarrow> bt_wf (rg_observations (put_observation i ob r))"
  by (simp add: put_observation_def bt_wf_insert)

lemma registry_bump_frame [simp]:
  "rg_next (registry_bump r) = rg_next r" "rg_observations (registry_bump r) = rg_observations r"
  "rg_ended (registry_bump r) = rg_ended r" "rg_demand_changed (registry_bump r) = rg_demand_changed r"
  by (simp_all add: registry_bump_def)

lemma announce_demand_frame [simp]:
  "rg_next (announce_demand r) = rg_next r" "rg_observations (announce_demand r) = rg_observations r"
  "rg_ended (announce_demand r) = rg_ended r"
  by (simp_all add: announce_demand_def)

lemma modify_observation_get [simp]:
  "bt_get (rg_observations (modify_observation i f r)) j =
     (if j = i then map_option f (bt_get (rg_observations r) i) else bt_get (rg_observations r) j)"
  by (simp add: modify_observation_def split: option.split)

lemma modify_observation_frame [simp]:
  "rg_next (modify_observation i f r) = rg_next r" "rg_ended (modify_observation i f r) = rg_ended r"
  "bt_wf (rg_observations r) \<Longrightarrow> bt_wf (rg_observations (modify_observation i f r))"
  by (simp_all add: modify_observation_def split: option.split)

lemma end_observation_get [simp]:
  "bt_get (rg_observations (end_observation i r)) j = (if j = i then None else bt_get (rg_observations r) j)"
  by (auto simp: end_observation_def split: option.split)

lemma end_observation_frame [simp]:
  "rg_next (end_observation i r) = rg_next r"
  "bt_wf (rg_observations r) \<Longrightarrow> bt_wf (rg_observations (end_observation i r))"
  by (simp_all add: end_observation_def bt_wf_remove split: option.split)

lemma fold_end_observation [simp]:
  "bt_get (rg_observations (fold end_observation is r)) j = (if j \<in> set is then None else bt_get (rg_observations r) j)"
  "rg_next (fold end_observation is r) = rg_next r"
  by (induction "is" arbitrary: r) auto

lemma fold_end_observation_ended:
  "distinct cs \<Longrightarrow> (\<And>c. c \<in> set cs \<Longrightarrow> bt_get (rg_observations r) c \<noteq> None)
     \<Longrightarrow> rg_ended (fold end_observation cs r) = rg_ended r @ cs"
proof (induction cs arbitrary: r)
  case (Cons c cs)
  have "rg_ended (end_observation c r) = rg_ended r @ [c]"
    using Cons.prems(2) [of c] by (auto simp: end_observation_def)
  moreover have "bt_get (rg_observations (end_observation c r)) x \<noteq> None" if "x \<in> set cs" for x
    using Cons.prems that by auto
  ultimately show ?case using Cons.prems(1) Cons.IH [of "end_observation c r"] by simp
qed simp

lemma fold_end_observation_wf [simp]:
  "bt_wf (rg_observations r) \<Longrightarrow> bt_wf (rg_observations (fold end_observation is r))"
  by (induction "is" arbitrary: r) auto

text \<open>An operation that rewrites one observation without touching its family.\<close>

lemma registry_inv_replace:
  assumes inv: "registry_inv r" and get: "bt_get (rg_observations r) i = Some ob"
    and same: "same_family ob' ob" and ok: "observation_ok ob'"
    and r': "\<And>j. bt_get (rg_observations r') j = (if j = i then Some ob' else bt_get (rg_observations r) j)"
      "bt_wf (rg_observations r')" "rg_next r' = rg_next r"
  shows "registry_inv r'"
proof (rule registry_invI [OF r'(2)])
  have rel: "rel_fun (=) (rel_option same_family) (bt_get (rg_observations r')) (bt_get (rg_observations r))"
    using same get by (auto simp: rel_fun_def r'(1) same_family_def option.rel_refl)
  fix j b assume b: "bt_get (rg_observations r') j = Some b"
  show "j \<le> rg_next r'" "observation_ok b"
    using b get ok registry_invD [OF inv] by (auto simp: r'(1,3) split: if_splits)
  show "family_ok (bt_get (rg_observations r')) j b"
  proof (cases "j = i")
    case True
    with b r'(1) have "b = ob'" by simp
    with family_ok_cong [OF registry_invD(4) [OF inv get] same rel] True show ?thesis by simp
  next
    case False
    with b r'(1) have "bt_get (rg_observations r) j = Some b" by simp
    from family_ok_cong [OF registry_invD(4) [OF inv this] _ rel] show ?thesis by (simp add: same_family_def)
  qed
qed

lemma registry_inv_frame:
  assumes "registry_inv r" "rg_observations r' = rg_observations r" "rg_next r' = rg_next r"
  shows "registry_inv r'"
  using assms by (simp add: registry_inv_def)

subsection \<open>Each operation keeps it\<close>

lemma wake_observation_get [simp]:
  "bt_get (rg_observations (wake_observation i r)) j =
     (if j = i then map_option (\<lambda>ob. ob\<lparr>ob_wake := rg_revision r\<rparr>) (bt_get (rg_observations r) i) else bt_get (rg_observations r) j)"
  "rg_next (wake_observation i r) = rg_next r"
  "bt_wf (rg_observations r) \<Longrightarrow> bt_wf (rg_observations (wake_observation i r))"
  by (simp_all add: wake_observation_def)

lemma observation_ok_frame [simp]:
  "observation_ok (ob\<lparr>ob_wake := w\<rparr>) = observation_ok ob" "observation_ok (ob\<lparr>ob_children := cs\<rparr>) = observation_ok ob"
  "observation_ok (ob\<lparr>ob_active_child := ac\<rparr>) = observation_ok ob" "observation_ok (ob\<lparr>ob_active := act\<rparr>) = observation_ok ob"
  "observation_ok (remove_child c ob) = observation_ok ob" "observation_ok (leave_parent c ob) = observation_ok ob"
  by (simp_all add: observation_ok_def remove_child_def leave_parent_def Let_def)

lemma registry_inv_update:
  assumes inv: "registry_inv r"
    and change: "\<And>ob ob' c. change ob = (ob', c) \<Longrightarrow> observation_ok ob \<Longrightarrow> same_family ob' ob \<and> observation_ok ob'"
  shows "registry_inv (registry_update i change r)"
proof (cases "bt_get (rg_observations r) i")
  case None
  with inv show ?thesis by (simp add: registry_update_def)
next
  case (Some ob)
  obtain ob' c where c: "change ob = (ob', c)" by (cases "change ob")
  from change [OF c registry_invD(3) [OF inv Some]] have ob': "same_family ob' ob" "observation_ok ob'" by auto
  let ?ob = "if c then ob'\<lparr>ob_wake := rg_revision (registry_bump (put_observation i ob' r))\<rparr> else ob'"
  show ?thesis
    by (rule registry_inv_replace [OF inv Some, of ?ob])
      (use ob' c Some registry_invD(1) [OF inv] in \<open>auto simp: registry_update_def Let_def same_family_def\<close>)
qed

lemma update_relay_ok:
  "update_relay s f d ob = (ob', c) \<Longrightarrow> observation_ok ob \<Longrightarrow> same_family ob' ob \<and> observation_ok ob'"
  by (auto simp: update_relay_def same_family_def observation_ok_def bt_wf_insert split: option.splits)

lemma set_bt_values_insert: "bt_wf m \<Longrightarrow> set (bt_values (bt_insert k v m)) \<subseteq> insert v (set (bt_values m))"
  by (auto simp: set_bt_values bt_wf_insert split: if_splits)

lemma live_mutation_wf:
  "bt_wf (fst acc) \<Longrightarrow> bt_wf (fst (live_mutation s m acc))"
  by (cases m; cases acc) (auto simp: bt_wf_insert bt_wf_remove)

lemma fold_live_mutation_wf: "bt_wf (fst acc) \<Longrightarrow> bt_wf (fst (fold (live_mutation s) ms acc))"
  by (induction ms arbitrary: acc) (simp_all add: live_mutation_wf)

lemma live_apply_ok: "live_ok lv \<Longrightarrow> live_ok (fst (live_apply N re lv))"
  using fold_live_mutation_wf [of "(lv_events lv, [])"]
  by (auto simp: live_apply_def Let_def live_ok_def split: prod.splits) (metis fst_conv)

lemma live_update_ok:
  assumes "observation_ok ob" "bt_get (ob_live ob) s = Some lv"
  shows "observation_ok (ob\<lparr>ob_live := bt_insert s (fst (live_apply N re lv)) (ob_live ob)\<rparr>)"
proof -
  from assms have "live_ok lv" by (auto simp: observation_ok_def list_all_iff set_bt_values)
  with live_apply_ok assms(1) set_bt_values_insert [of "ob_live ob" s "fst (live_apply N re lv)"] show ?thesis
    by (auto simp: observation_ok_def list_all_iff bt_wf_insert)
qed

lemma take_wanted_ok:
  assumes "observation_ok (fst acc)"
  shows "observation_ok (fst (take_wanted branch w acc)) \<and> same_family (fst (take_wanted branch w acc)) (fst acc)"
proof -
  obtain s d route ob c where w: "w = (s, d, route)" "acc = (ob, c)" by (metis prod.collapse)
  have "list_all live_ok (bt_values (bt_or_insert s live_default (ob_live ob)))" "bt_wf (bt_or_insert s live_default (ob_live ob))"
    using assms w set_bt_values_insert [of "ob_live ob" s live_default]
    by (auto simp: observation_ok_def bt_or_insert_def list_all_iff bt_wf_insert live_ok_def live_default_def split: option.split)
  with assms w show ?thesis
    by (auto simp: take_wanted_def Let_def observation_ok_def same_family_def bt_wf_insert split: option.split)
qed

lemma fold_take_wanted_ok:
  "observation_ok (fst acc) \<Longrightarrow>
     observation_ok (fst (fold (take_wanted branch) ws acc)) \<and> same_family (fst (fold (take_wanted branch) ws acc)) (fst acc)"
proof (induction ws arbitrary: acc)
  case (Cons w ws)
  from take_wanted_ok [OF Cons.prems, of branch w] Cons.IH [of "take_wanted branch w acc"] show ?case
    by (auto simp: same_family_def)
qed (simp add: same_family_def)

lemma bt_wf_filter: "bt_wf m \<Longrightarrow> bt_wf (List.filter P m)"
  by (simp add: bt_wf_def filter_sorted_keys)

lemma withdraw_unwanted_wf: "bt_wf m \<Longrightarrow> bt_wf (withdraw_unwanted wanted x m)"
  unfolding withdraw_unwanted_def by (rule bt_wf_filter) (simp add: bt_wf_def comp_def case_prod_beta)

lemma assign_observation_ok:
  assumes "assign_observation b acc wanted v x ob = (ob', c)" "observation_ok ob"
  shows "observation_ok ob' \<and> same_family ob' ob"
proof -
  let ?start = "ob\<lparr>ob_route_revision := v, ob_access := acc, ob_relays := withdraw_unwanted wanted x (ob_relays ob),
      ob_live := List.filter (\<lambda>(s, _). s \<in> set (bt_keys wanted)) (ob_live ob)\<rparr>"
  have "observation_ok ?start"
    using assms(2) by (auto simp: observation_ok_def bt_wf_filter withdraw_unwanted_wf list_all_iff bt_values_def)
  from fold_take_wanted_ok [of "(?start, \<exists>s\<in>set (bt_keys (ob_relays ob)). s \<notin> set (bt_keys wanted))" b wanted, simplified, OF this]
    assms(1) show ?thesis
    by (simp add: assign_observation_def Let_def same_family_def)
qed

lemma registry_inv_assign:
  assumes inv: "registry_inv r"
  shows "registry_inv (registry_assign i b a w v x r)"
proof (cases "bt_get (rg_observations r) i")
  case None
  with inv show ?thesis by (simp add: registry_assign_def)
next
  case (Some ob)
  obtain ob' c where c: "assign_observation b a w v x ob = (ob', c)" by fastforce
  note ok = assign_observation_ok [OF c registry_invD(3) [OF inv Some]]
  let ?ob = "ob'\<lparr>ob_wake := rg_revision (registry_bump (put_observation i ob' r))\<rparr>"
  show ?thesis
    by (rule registry_inv_replace [OF inv Some, of ?ob])
      (use ok c Some registry_invD(1) [OF inv] in \<open>auto simp: registry_assign_def Let_def same_family_def\<close>)
qed

lemma registry_inv_attach: "registry_inv r \<Longrightarrow> registry_inv (registry_attach i t r)"
proof (cases "bt_get (rg_observations r) i")
  case (Some ob)
  assume inv: "registry_inv r"
  show ?thesis
    by (rule registry_inv_replace [OF inv Some, of "ob\<lparr>ob_tasks := ob_tasks ob @ [t]\<rparr>"])
      (use Some registry_invD [OF inv] in \<open>auto simp: registry_attach_def same_family_def observation_ok_def\<close>)
qed (simp add: registry_attach_def modify_observation_def)

lemma registry_inv_live: "registry_inv r \<Longrightarrow> registry_inv (record_live_event N i re r)"
  unfolding record_live_event_def
proof (rule registry_inv_update)
  fix ob ob' c
  assume change: "(let session = occ_session (re_occurrence re) in
       case bt_get (ob_live ob) session of
         None \<Rightarrow> (ob, False)
       | Some lv \<Rightarrow> let (lv', changed) = live_apply N re lv in (ob\<lparr>ob_live := bt_insert session lv' (ob_live ob)\<rparr>, changed)) = (ob', c)"
    and ok: "observation_ok ob"
  show "same_family ob' ob \<and> observation_ok ob'"
  proof (cases "bt_get (ob_live ob) (occ_session (re_occurrence re))")
    case None
    with change ok show ?thesis by (simp add: same_family_def)
  next
    case (Some lv)
    with change live_update_ok [OF ok Some, of N re] show ?thesis
      by (auto simp: same_family_def split: prod.splits)
  qed
qed

lemma next_id_fresh:
  assumes "registry_inv r" "rg_next r \<noteq> - 1" "i = saturating_add_u64 (rg_next r) 1"
  shows "bt_get (rg_observations r) i = None" "rg_next r < i"
proof -
  have "checked_add_u64 (rg_next r) 1 \<noteq> None" using assms(2) by (simp add: checked_add_u64_one_None)
  with assms(3) show less: "rg_next r < i" by (auto simp: saturating_add_u64_def dest: checked_add_u64_one_greater)
  show "bt_get (rg_observations r) i = None"
  proof (rule ccontr)
    assume "bt_get (rg_observations r) i \<noteq> None"
    then obtain ob where "bt_get (rg_observations r) i = Some ob" by blast
    from registry_invD(2) [OF assms(1) this] less show False by simp
  qed
qed

lemma fresh_observation_simps [simp]:
  "observation_ok (fresh_observation i p)" "ob_children (fresh_observation i p) = []"
  "ob_active_child (fresh_observation i p) = None" "ob_active (fresh_observation i p) = (p = None)"
  "ob_public (fresh_observation i p) = (case p of Some q \<Rightarrow> q | None \<Rightarrow> i)"
  by (simp_all add: fresh_observation_def observation_ok_def bt_values_def)

lemma registry_inv_install:
  assumes inv: "registry_inv r" and room: "rg_next r \<noteq> - 1"
  shows "registry_inv (snd (registry_install r))"
proof -
  define i where "i = saturating_add_u64 (rg_next r) 1"
  let ?r = "put_observation i (fresh_observation i None) (r\<lparr>rg_next := i\<rparr>)"
  note new = next_id_fresh [OF inv room i_def]
  have r': "snd (registry_install r) = ?r" by (simp add: registry_install_def install_for_def Let_def i_def)
  have get: "bt_get (rg_observations ?r) j = (if j = i then Some (fresh_observation i None) else bt_get (rg_observations r) j)" for j
    by (simp add: put_observation_def)
  show ?thesis unfolding r'
  proof (rule registry_invI)
    show "bt_wf (rg_observations ?r)" using registry_invD(1) [OF inv] by (simp add: put_observation_def bt_wf_insert)
    fix j b assume b: "bt_get (rg_observations ?r) j = Some b"
    show "j \<le> rg_next ?r" "observation_ok b"
      using b new(2) registry_invD(2,3) [OF inv, of j b] by (auto simp: get split: if_splits)
    show "family_ok (bt_get (rg_observations ?r)) j b"
    proof (cases "j = i")
      case True
      with b show ?thesis by (auto simp: get family_ok_def)
    next
      case False
      with b have old: "bt_get (rg_observations r) j = Some b" by (simp add: get)
      from registry_invD(4) [OF inv old] new(1) show ?thesis
        unfolding family_ok_def get by (auto split: if_splits)
    qed
  qed
qed

text \<open>Identities of one family never meet another family.\<close>

lemma child_public:
  assumes "registry_inv r" "bt_get (rg_observations r) p = Some pb" "c \<in> set (ob_children pb)"
  shows "ob_public pb = p" "\<exists>cb. bt_get (rg_observations r) c = Some cb \<and> ob_public cb = p \<and> c \<noteq> p"
  using registry_invD(4) [OF assms(1,2)] assms(3) by (auto simp: family_ok_def split: if_splits)

lemma registry_inv_install_child:
  assumes inv: "registry_inv r" and room: "rg_next r \<noteq> - 1"
    and root: "\<And>ob. bt_get (rg_observations r) p = Some ob \<Longrightarrow> ob_public ob = p"
  shows "registry_inv (snd (registry_install_child p r))"
proof (cases "bt_get (rg_observations r) p")
  case None
  with inv show ?thesis by (simp add: registry_install_child_def install_for_def)
next
  case (Some pb)
  define i where "i = saturating_add_u64 (rg_next r) 1"
  note new = next_id_fresh [OF inv room i_def]
  let ?pb = "pb\<lparr>ob_children := bs_insert i (ob_children pb)\<rparr>"
  let ?r = "snd (registry_install_child p r)"
  have pi: "p \<noteq> i" using Some new(1) by auto
  have get: "bt_get (rg_observations ?r) j =
      (if j = i then Some (fresh_observation i (Some p)) else if j = p then Some ?pb else bt_get (rg_observations r) j)" for j
    using Some pi by (simp add: registry_install_child_def install_for_def Let_def i_def put_observation_def)
  have nxt: "rg_next ?r = i" using Some by (simp add: registry_install_child_def install_for_def Let_def i_def)
  have pub: "ob_public pb = p" by (rule root [OF Some])
  have notin: "i \<notin> set (ob_children pb)" using child_public(2) [OF inv Some, of i] new(1) by auto
  show ?thesis
  proof (rule registry_invI)
    show "bt_wf (rg_observations ?r)"
      using Some registry_invD(1) [OF inv]
      by (simp add: registry_install_child_def install_for_def Let_def put_observation_def bt_wf_insert)
    fix j b assume b: "bt_get (rg_observations ?r) j = Some b"
    show "j \<le> rg_next ?r" "observation_ok b"
      using b new(2) registry_invD(2,3) [OF inv, of j] Some registry_invD(2,3) [OF inv Some]
      by (auto simp: get nxt split: if_splits)
    show "family_ok (bt_get (rg_observations ?r)) j b"
    proof -
      consider "j = i" | "j = p" "j \<noteq> i" | "j \<noteq> i" "j \<noteq> p" by blast
      then show ?thesis
      proof cases
        case 1
        with b pi pub notin registry_invD(4) [OF inv Some] show ?thesis
          by (auto simp: family_ok_def get)
      next
        case 2
        with b pi pub registry_invD(4) [OF inv Some] new(1) show ?thesis
          by (auto simp: family_ok_def get bt_wf_intros)
      next
        case 3
        with b have old: "bt_get (rg_observations r) j = Some b" by (simp add: get)
        from registry_invD(4) [OF inv old] new(1) 3 Some pub show ?thesis
          unfolding family_ok_def get by (auto split: if_splits)
      qed
    qed
  qed
qed

lemma registry_inv_withdraw_root:
  assumes inv: "registry_inv r" and get: "bt_get (rg_observations r) i = Some ob" and root: "ob_public ob = i"
    and r': "\<And>j. bt_get (rg_observations r') j = (if j = i \<or> j \<in> set (ob_children ob) then None else bt_get (rg_observations r) j)"
      "bt_wf (rg_observations r')" "rg_next r' = rg_next r"
  shows "registry_inv r'"
proof (rule registry_invI [OF r'(2)])
  fix j b assume b: "bt_get (rg_observations r') j = Some b"
  then have old: "bt_get (rg_observations r) j = Some b" and out: "j \<noteq> i" "j \<notin> set (ob_children ob)"
    by (auto simp: r'(1) split: if_splits)
  show "j \<le> rg_next r'" "observation_ok b" using registry_invD(2,3) [OF inv old] r'(3) by auto
  note fam = registry_invD(4) [OF inv old]
  show "family_ok (bt_get (rg_observations r')) j b"
  proof (cases "ob_public b = j")
    case True
    have "c \<noteq> i \<and> c \<notin> set (ob_children ob)" if "c \<in> set (ob_children b)" for c
      using child_public(2) [OF inv old that] child_public(2) [OF inv get, of c] get root out by auto
    with True fam show ?thesis by (auto simp: family_ok_def r'(1))
  next
    case False
    with fam obtain p where p: "bt_get (rg_observations r) (ob_public b) = Some p" "ob_public p = ob_public b" "j \<in> set (ob_children p)"
      by (auto simp: family_ok_def)
    have "ob_public b \<noteq> i" using p get out by auto
    moreover have "ob_public b \<notin> set (ob_children ob)"
      using child_public(2) [OF inv get, of "ob_public b"] p by auto
    ultimately show ?thesis using False fam by (auto simp: family_ok_def r'(1))
  qed
qed

lemma leave_parent_simps [simp]:
  "ob_public (leave_parent i p) = ob_public p" "ob_active (leave_parent i p) = ob_active p"
  "ob_children (leave_parent i p) = bs_diff (ob_children p) [i]"
  "ob_active_child (leave_parent i p) = (if ob_active_child p = Some i then None else ob_active_child p)"
  by (simp_all add: leave_parent_def remove_child_def Let_def)

lemma registry_inv_drop_child:
  assumes inv: "registry_inv r" and get: "bt_get (rg_observations r) i = Some ob" and child: "ob_public ob \<noteq> i"
    and pb: "bt_get (rg_observations r) (ob_public ob) = Some pb"
    and pb': "ob_public pb' = ob_public pb" "ob_active pb' = ob_active pb" "ob_children pb' = bs_diff (ob_children pb) [i]"
      "ob_active_child pb' = (if ob_active_child pb = Some i then None else ob_active_child pb)" "observation_ok pb'"
    and r': "\<And>j. bt_get (rg_observations r') j =
        (if j = i then None else if j = ob_public ob then Some pb' else bt_get (rg_observations r) j)"
      "bt_wf (rg_observations r')" "rg_next r' = rg_next r"
  shows "registry_inv r'"
proof (rule registry_invI [OF r'(2)])
  have parent: "ob_public pb = ob_public ob" "i \<in> set (ob_children pb)" "ob_children ob = []"
    using registry_invD(4) [OF inv get] child pb by (auto simp: family_ok_def)
  fix j b assume b: "bt_get (rg_observations r') j = Some b"
  show "j \<le> rg_next r'" "observation_ok b"
    using b registry_invD(2,3) [OF inv, of j] registry_invD(2) [OF inv pb] pb'(5) r'(3) by (auto simp: r'(1) split: if_splits)
  consider (par) "j = ob_public ob" "b = pb'" | (other) "j \<noteq> ob_public ob" "j \<noteq> i" "bt_get (rg_observations r) j = Some b"
    using b by (auto simp: r'(1) split: if_splits)
  then show "family_ok (bt_get (rg_observations r')) j b"
  proof cases
    case par
    with registry_invD(4) [OF inv pb] parent pb' child show ?thesis
      by (auto simp: family_ok_def r'(1) bs_wf_diff)
  next
    case other
    note fam = registry_invD(4) [OF inv other(3)]
    show ?thesis
    proof (cases "ob_public b = j")
      case True
      have "c \<noteq> i \<and> c \<noteq> ob_public ob" if "c \<in> set (ob_children b)" for c
        using child_public(2) [OF inv other(3) that] get pb parent(1) other by auto
      with True fam show ?thesis by (auto simp: family_ok_def r'(1))
    next
      case False
      with fam get parent(3) other pb pb' show ?thesis by (auto simp: family_ok_def r'(1))
    qed
  qed
qed

lemma registry_inv_withdraw:
  assumes inv: "registry_inv r"
  shows "registry_inv (registry_withdraw i r)"
proof (cases "bt_get (rg_observations r) i")
  case None
  with inv show ?thesis by (simp add: registry_withdraw_def)
next
  case (Some ob)
  note wf = registry_invD(1) [OF inv]
  show ?thesis
  proof (cases "ob_public ob = i")
    case True
    show ?thesis
      by (rule registry_inv_withdraw_root [OF inv Some True])
        (use Some True wf in \<open>auto simp: registry_withdraw_def Let_def\<close>)
  next
    case False
    from registry_invD(4) [OF inv Some] False obtain pb where pb: "bt_get (rg_observations r) (ob_public ob) = Some pb"
      "ob_children ob = []" by (auto simp: family_ok_def)
    show ?thesis
      by (rule registry_inv_drop_child [OF inv Some False pb(1), of "leave_parent i pb"])
        (use Some False pb wf registry_invD(3) [OF inv pb(1)] in \<open>auto simp: registry_withdraw_def Let_def\<close>)
  qed
qed

lemma registry_inv_activate:
  assumes inv: "registry_inv r"
  shows "registry_inv (snd (activate_child p c r))"
proof (cases "\<exists>pb cb. bt_get (rg_observations r) p = Some pb \<and> bt_get (rg_observations r) c = Some cb
    \<and> ob_public cb = p \<and> \<not> ob_active cb \<and> c \<in> set (ob_children pb)")
  case False
  with inv show ?thesis by (auto simp: activate_child_def split: option.splits)
next
  case True
  then obtain pb cb where pb: "bt_get (rg_observations r) p = Some pb" and cb: "bt_get (rg_observations r) c = Some cb"
    and c: "ob_public cb = p" "\<not> ob_active cb" "c \<in> set (ob_children pb)" by blast
  note root = child_public(1) [OF inv pb c(3)] and wf = registry_invD(1) [OF inv]
  have cp: "c \<noteq> p" using child_public(2) [OF inv pb c(3)] by auto
  have cc: "ob_children cb = []" "ob_active_child cb = None"
    using registry_invD(4) [OF inv cb] c(1) cp by (auto simp: family_ok_def)
  define gone where "gone = (case ob_active_child pb of None \<Rightarrow> [] | Some old \<Rightarrow> [old])"
  have old: "x \<in> set (ob_children pb) \<and> x \<noteq> c \<and> x \<noteq> p" if "x \<in> set gone" for x
  proof -
    from that have x: "ob_active_child pb = Some x" by (auto simp: gone_def split: option.splits)
    with registry_invD(4) [OF inv pb] root have "x \<in> set (ob_children pb)" by (auto simp: family_ok_def)
    moreover have "x \<noteq> c" using registry_invD(4) [OF inv cb] c cp pb x by (auto simp: family_ok_def)
    ultimately show ?thesis using child_public(2) [OF inv pb] by auto
  qed
  let ?pb = "pb\<lparr>ob_active_child := Some c, ob_children := bs_diff (ob_children pb) gone\<rparr>" and ?cb = "cb\<lparr>ob_active := True\<rparr>"
  let ?r = "snd (activate_child p c r)"
  have get: "bt_get (rg_observations ?r) j =
      (if j \<in> set gone then None else if j = p then Some ?pb else if j = c then Some ?cb else bt_get (rg_observations r) j)" for j
    using pb cb c cp old by (auto simp: activate_child_def Let_def gone_def remove_child_def bs_diff_def split: option.splits)
  have "bt_wf (rg_observations ?r)" "rg_next ?r = rg_next r"
    using pb cb c wf by (auto simp: activate_child_def Let_def split: option.splits)
  then show ?thesis
  proof (rule_tac registry_invI)
    fix j b assume b: "bt_get (rg_observations ?r) j = Some b"
    show "j \<le> rg_next ?r" "observation_ok b"
      using b registry_invD(2,3) [OF inv, of j] registry_invD(2,3) [OF inv pb] registry_invD(2,3) [OF inv cb] \<open>rg_next ?r = rg_next r\<close>
      by (auto simp: get split: if_splits)
    consider (par) "j = p" "b = ?pb" | (chi) "j = c" "b = ?cb"
      | (other) "j \<noteq> p" "j \<noteq> c" "j \<notin> set gone" "bt_get (rg_observations r) j = Some b"
      using b cp by (auto simp: get split: if_splits)
    then show "family_ok (bt_get (rg_observations ?r)) j b"
    proof cases
      case par
      have "\<exists>xb. bt_get (rg_observations ?r) x = Some xb \<and> ob_public xb = p \<and> x \<noteq> p" if "x \<in> set (ob_children pb)" "x \<notin> set gone" for x
        using child_public(2) [OF inv pb that(1)] that(2) c(1) by (auto simp: get)
      moreover have "c \<notin> set gone" using old by blast
      ultimately show ?thesis
        using par registry_invD(4) [OF inv pb] root c(3) by (auto simp: family_ok_def bs_wf_diff)
    next
      case chi
      with c cp old cc root show ?thesis by (auto simp: family_ok_def get)
    next
      case other
      note fam = registry_invD(4) [OF inv other(4)]
      show ?thesis
      proof (cases "ob_public b = j")
        case True
        have "x \<noteq> c \<and> x \<noteq> p \<and> x \<notin> set gone" if "x \<in> set (ob_children b)" for x
          using child_public(2) [OF inv other(4) that] old [of x] child_public(2) [OF inv pb, of x] cb c(1) pb root other(1) by auto
        with True fam show ?thesis by (auto simp: family_ok_def get)
      next
        case False
        show ?thesis
        proof (cases "ob_public b = p")
          case True
          with False fam pb have "j \<in> set (ob_children pb)" "ob_active b \<longleftrightarrow> ob_active_child pb = Some j"
            "ob_children b = []" "ob_active_child b = None" by (auto simp: family_ok_def)
          moreover have "\<not> ob_active b" using calculation(2) other(3) by (auto simp: gone_def)
          ultimately show ?thesis using True False other root old by (auto simp: family_ok_def get)
        next
          case pub: False
          from fam False obtain q where q: "bt_get (rg_observations r) (ob_public b) = Some q" "ob_public q = ob_public b"
            "j \<in> set (ob_children q)" by (auto simp: family_ok_def)
          have "ob_public b \<noteq> c" using q cb c(1) pub by auto
          moreover have "ob_public b \<notin> set gone"
            using old [of "ob_public b"] child_public(2) [OF inv pb, of "ob_public b"] q pub by auto
          ultimately show ?thesis using False fam pub by (auto simp: family_ok_def get)
        qed
      qed
    qed
  qed
qed

lemma registry_inv_perform:
  assumes "registry_inv r" "registry_allowed op r"
  shows "registry_inv (registry_perform N op r)"
proof (cases op)
  case (RegInstallChild p)
  with assms show ?thesis by (auto simp: registry_allowed_def intro!: registry_inv_install_child split: option.splits)
next
  case (RegState i s g st)
  with assms(1) show ?thesis by (auto simp: record_state_def intro!: registry_inv_update dest: update_relay_ok)
next
  case (RegSharing i s v sh sf)
  with assms(1) show ?thesis by (auto simp: record_sharing_def intro!: registry_inv_update dest: update_relay_ok)
next
  case (RegPlan i pl)
  with assms(1) show ?thesis by (auto simp: record_plan_def same_family_def observation_ok_def intro!: registry_inv_update)
next
  case (RegCoalesced i n)
  with assms(1) show ?thesis by (auto simp: record_coalesced_def same_family_def observation_ok_def intro!: registry_inv_update)
qed (use assms in \<open>simp_all add: registry_allowed_def registry_inv_install registry_inv_activate registry_inv_assign registry_inv_attach
    registry_inv_withdraw registry_inv_live\<close>)

lemma registry_reach_inv: "registry_reach N r \<Longrightarrow> registry_inv r"
proof (induction rule: registry_reach.induct)
  case 1
  show ?case by (simp add: registry_inv_def registry_default_def)
qed (rule registry_inv_perform)

subsection \<open>The demand of a relay\<close>

definition demand_at :: "relay_url \<Rightarrow> registry \<Rightarrow> (relay_demand \<times> authority) list" where
  "demand_at s r = (case bt_get (registry_desired r) s of None \<Rightarrow> [] | Some ds \<Rightarrow> ds)"

lemma fold_push_desired:
  "(case bt_get (fold push_desired xs m) s of None \<Rightarrow> [] | Some ds \<Rightarrow> ds) =
     (case bt_get m s of None \<Rightarrow> [] | Some ds \<Rightarrow> ds) @ map snd (List.filter (\<lambda>x. fst x = s) xs)"
  by (induction xs arbitrary: m) (auto simp: push_desired_def)

lemma demand_at_contributions:
  "demand_at s r = concat (map (\<lambda>ob. map snd (List.filter (\<lambda>x. fst x = s) (contributions ob))) (bt_values (rg_observations r)))"
  unfolding demand_at_def registry_desired_def fold_push_desired
  by (simp add: filter_concat map_concat comp_def)

text \<open>The relay an observation contributes demand to.\<close>

definition contributes :: "relay_url \<Rightarrow> observation \<Rightarrow> bool" where
  "contributes s ob \<longleftrightarrow>
     ob_active ob \<and> (\<exists>a. bt_get (ob_relays ob) s = Some a \<and> \<not> is_withdrawn (rqe_state (ag_evidence a)))"

lemma contributions_at:
  assumes "bt_wf (ob_relays ob)"
  shows "map snd (List.filter (\<lambda>x. fst x = s) (contributions ob)) =
    (if contributes s ob then [(ag_demand (the (bt_get (ob_relays ob) s)), ob_access ob)] else [])"
proof -
  have key: "List.filter (\<lambda>(k, v). k = s) m = (case bt_get m s of None \<Rightarrow> [] | Some v \<Rightarrow> [(s, v)])"
    if "distinct (map fst m)" for m :: "(relay_url, assigned) btree_map"
    using that by (induction m) (auto simp: bt_get_def filter_empty_conv image_iff split: option.splits)
  have "List.filter (\<lambda>x. fst x = s) (contributions ob) =
      (if ob_active ob then map (\<lambda>(s, a). (s, ag_demand a, ob_access ob))
         (List.filter (\<lambda>(_, a). \<not> is_withdrawn (rqe_state (ag_evidence a))) (List.filter (\<lambda>(k, v). k = s) (ob_relays ob))) else [])"
    by (auto simp: contributions_def filter_map comp_def case_prod_beta conj_commute)
  with key [OF bt_wf_distinct [OF assms]] show ?thesis
    by (auto simp: contributes_def split: option.split)
qed

lemma concat_map_if: "concat (map (\<lambda>x. if P x then [f x] else []) xs) = map f (List.filter P xs)"
  by (induction xs) auto

lemma demand_at_eq:
  assumes "registry_inv r"
  shows "demand_at s r = map (\<lambda>ob. (ag_demand (the (bt_get (ob_relays ob) s)), ob_access ob))
    (List.filter (contributes s) (bt_values (rg_observations r)))"
proof -
  have "bt_wf (ob_relays ob)" if "ob \<in> set (bt_values (rg_observations r))" for ob
    using that registry_invD(3) [OF assms] set_bt_values [OF registry_invD(1) [OF assms]] by (auto simp: observation_ok_def)
  then have "demand_at s r = concat (map (\<lambda>ob. if contributes s ob
      then [(ag_demand (the (bt_get (ob_relays ob) s)), ob_access ob)] else []) (bt_values (rg_observations r)))"
    unfolding demand_at_contributions by (auto intro!: arg_cong [of _ _ concat] simp: contributions_at)
  then show ?thesis by (simp add: concat_map_if)
qed

subsection \<open>Assignment\<close>

definition take_assigned :: "query_branch_id \<Rightarrow> relay_url \<Rightarrow> relay_demand \<times> route_origin \<Rightarrow> assigned option \<Rightarrow> assigned" where
  "take_assigned branch s w old =
     (case old of
        Some a \<Rightarrow> a\<lparr>ag_demand := fst w, ag_evidence := (ag_evidence a)\<lparr>rqe_route := snd w\<rparr>\<rparr>
      | None \<Rightarrow> \<lparr>ag_demand = fst w, ag_evidence = planned_evidence s branch (snd w)\<rparr>)"

lemma take_wanted_relays:
  "bt_get (ob_relays (fst (take_wanted branch (s, w) acc))) t =
     (if t = s then Some (take_assigned branch s w (bt_get (ob_relays (fst acc)) s)) else bt_get (ob_relays (fst acc)) t)"
  by (cases acc; cases w) (auto simp: take_wanted_def take_assigned_def Let_def split: option.split)

lemma take_wanted_frame [simp]:
  "ob_access (fst (take_wanted branch w acc)) = ob_access (fst acc)"
  by (cases acc; cases w) (auto simp: take_wanted_def Let_def split: option.split)

lemma bt_get_Cons: "bt_get ((k, v) # m) t = (if t = k then Some v else bt_get m t)"
  by (simp add: bt_get_def)

lemma fold_take_wanted_relays:
  assumes "distinct (map fst ws)"
  shows "bt_get (ob_relays (fst (fold (take_wanted branch) ws acc))) t =
     (case bt_get ws t of None \<Rightarrow> bt_get (ob_relays (fst acc)) t
      | Some w \<Rightarrow> Some (take_assigned branch t w (bt_get (ob_relays (fst acc)) t)))"
  using assms
proof (induction ws arbitrary: acc)
  case (Cons x ws)
  obtain s w where x: "x = (s, w)" by (cases x)
  have "bt_get ws s = None" using Cons.prems x by (auto simp: bt_get_def map_of_eq_None_iff)
  with Cons.prems Cons.IH [of "take_wanted branch x acc"] x show ?case
    by (auto simp: take_wanted_relays bt_get_Cons split: option.split)
qed simp

lemma fold_take_wanted_access [simp]: "ob_access (fst (fold (take_wanted branch) ws acc)) = ob_access (fst acc)"
  by (induction ws arbitrary: acc) auto

lemma withdraw_unwanted_get:
  "bt_get (withdraw_unwanted wanted x m) t =
     (if t \<in> set (bt_keys wanted) then bt_get m t
      else if retain_withdrawn x then map_option (set_state (Withdrawn x)) (bt_get m t) else None)"
  unfolding withdraw_unwanted_def bt_get_def by (induction m) auto

lemma assign_observation_relays:
  assumes "bt_wf wanted" "assign_observation b acc wanted v x ob = (ob', c)"
  shows "bt_get (ob_relays ob') t =
     (case bt_get wanted t of
        Some w \<Rightarrow> Some (take_assigned b t w (bt_get (ob_relays ob) t))
      | None \<Rightarrow> if retain_withdrawn x then map_option (set_state (Withdrawn x)) (bt_get (ob_relays ob) t) else None)"
    "ob_access ob' = acc"
proof -
  let ?start = "ob\<lparr>ob_route_revision := v, ob_access := acc, ob_relays := withdraw_unwanted wanted x (ob_relays ob),
      ob_live := List.filter (\<lambda>(s, _). s \<in> set (bt_keys wanted)) (ob_live ob)\<rparr>"
  have ob': "ob' = fst (fold (take_wanted b) wanted (?start, \<exists>s\<in>set (bt_keys (ob_relays ob)). s \<notin> set (bt_keys wanted)))"
    using assms(2) by (simp add: assign_observation_def Let_def)
  show "ob_access ob' = acc" by (simp add: ob')
  show "bt_get (ob_relays ob') t =
     (case bt_get wanted t of
        Some w \<Rightarrow> Some (take_assigned b t w (bt_get (ob_relays ob) t))
      | None \<Rightarrow> if retain_withdrawn x then map_option (set_state (Withdrawn x)) (bt_get (ob_relays ob) t) else None)"
    unfolding ob' fold_take_wanted_relays [OF bt_wf_distinct [OF assms(1)]]
    by (auto simp: withdraw_unwanted_get bt_get_None_iff set_bt_keys split: option.split)
qed

lemma registry_assign_get:
  assumes "bt_get (rg_observations r) i = Some ob" "assign_observation b acc wanted v x ob = (ob', c)"
  shows "\<exists>ob''. bt_get (rg_observations (registry_assign i b acc wanted v x r)) i = Some ob''
    \<and> ob_relays ob'' = ob_relays ob' \<and> ob_access ob'' = ob_access ob' \<and> ob_active ob'' = ob_active ob'"
  using assms by (auto simp: registry_assign_def Let_def)

subsection \<open>Properties\<close>

text \<open>
  (C27) One generation of an observation contributes at a time. In every reachable registry an
  active observation is either one the application opened or the generation its open root names;
  two active generations of one root are the same, and closing a root never leaves one behind.
\<close>

theorem generations_exclusive:
  assumes "registry_reach N r" "bt_get (rg_observations r) i = Some ob"
  shows "(ob_active ob \<longleftrightarrow> publishable (ob_public ob) i r)
    \<and> (\<exists>p. bt_get (rg_observations r) (ob_public ob) = Some p \<and> ob_public p = ob_public ob)
    \<and> (\<forall>j ob'. bt_get (rg_observations r) j = Some ob' \<longrightarrow> ob_public ob' = ob_public ob
         \<longrightarrow> ob_active ob \<longrightarrow> ob_active ob' \<longrightarrow> i \<noteq> ob_public ob \<longrightarrow> j \<noteq> ob_public ob \<longrightarrow> i = j)"
proof -
  note inv = registry_reach_inv [OF assms(1)]
  note fam = registry_invD(4) [OF inv assms(2)]
  have "i = j" if "bt_get (rg_observations r) j = Some ob'" "ob_public ob' = ob_public ob" "ob_active ob" "ob_active ob'"
    "i \<noteq> ob_public ob" "j \<noteq> ob_public ob" for j ob'
    using registry_invD(4) [OF inv that(1)] fam that(2-6) by (auto simp: family_ok_def split: if_splits)
  moreover have "ob_active ob \<longleftrightarrow> publishable (ob_public ob) i r"
    using fam assms(2) by (auto simp: family_ok_def publishable_def split: if_splits option.splits)
  moreover have "\<exists>p. bt_get (rg_observations r) (ob_public ob) = Some p \<and> ob_public p = ob_public ob"
    using fam assms(2) by (auto simp: family_ok_def split: if_splits)
  ultimately show ?thesis by blast
qed

text \<open>
  The demand of a relay is complete and never merged: it has exactly one entry for each
  active observation with demand there that was not withdrawn, that observation's own demand under
  the authority its query requires, in the order of identities.
\<close>

theorem desired_exact:
  assumes "registry_reach N r"
  shows "demand_at s r = map (\<lambda>i. let ob = the (bt_get (rg_observations r) i) in (ag_demand (the (bt_get (ob_relays ob) s)), ob_access ob))
      (List.filter (\<lambda>i. contributes s (the (bt_get (rg_observations r) i))) (open_observations r))"
proof -
  note inv = registry_reach_inv [OF assms]
  have wf: "distinct (map fst (rg_observations r))" using registry_invD(1) [OF inv] by (rule bt_wf_distinct)
  have "bt_values (rg_observations r) = map (\<lambda>i. the (bt_get (rg_observations r) i)) (open_observations r)"
    using wf by (auto simp: bt_values_def open_observations_def bt_keys_def bt_get_def)
  then show ?thesis unfolding demand_at_eq [OF inv] by (simp add: filter_map comp_def Let_def)
qed

text \<open>
  Closing an observation releases it and its generations, cancels exactly their work, and
  touches the demand of nobody else.
\<close>

theorem withdraw_releases_exactly:
  assumes "registry_reach N r" "bt_get (rg_observations r) i = Some ob" "r' = registry_withdraw i r"
  shows "rg_ended r' = rg_ended r @ i # ob_children ob \<and> rg_demand_changed r' = rg_revision r'
    \<and> (\<forall>j. bt_get (rg_observations r') j = None \<longleftrightarrow> bt_get (rg_observations r) j = None \<or> j = i \<or> j \<in> set (ob_children ob))
    \<and> (\<forall>j b b'. bt_get (rg_observations r) j = Some b \<longrightarrow> bt_get (rg_observations r') j = Some b' \<longrightarrow> contributions b' = contributions b)"
proof -
  note inv = registry_reach_inv [OF assms(1)]
  let ?r = "if ob_public ob \<noteq> i then modify_observation (ob_public ob) (leave_parent i) (end_observation i r) else end_observation i r"
  have r': "r' = announce_demand (registry_bump (fold end_observation (ob_children ob) ?r))"
    using assms(2,3) by (simp add: registry_withdraw_def Let_def)
  have present: "bt_get (rg_observations ?r) c \<noteq> None" if "c \<in> set (ob_children ob)" for c
    using child_public [OF inv assms(2) that] by auto
  have "distinct (ob_children ob)"
    using registry_invD(4) [OF inv assms(2)] by (auto simp: family_ok_def bs_wf_def strict_sorted_iff split: if_splits)
  from fold_end_observation_ended [OF this present] have "rg_ended r' = rg_ended r @ i # ob_children ob"
    using assms(2) by (simp add: r' end_observation_def)
  moreover have "rg_demand_changed r' = rg_revision r'" by (simp add: r' announce_demand_def)
  moreover have "contributions (leave_parent i b) = contributions b" for b
    by (simp add: contributions_def leave_parent_def remove_child_def Let_def)
  ultimately show ?thesis by (auto simp: r' split: if_splits)
qed

text \<open>
  A relay that a route withdrew and later names again never gets its demand back: the
  retained evidence still says withdrawn, the new demand is stored behind it, and the relay's
  complete demand does not contain it.
\<close>

theorem readded_relay_stays_withdrawn:
  assumes "registry_reach N r" "bt_get (rg_observations r) i = Some ob" "bt_get (ob_relays ob) s \<noteq> None"
    "bt_wf without" "bt_get without s = None" "bt_wf again" "bt_get again s = Some (d, route)"
    "r1 = registry_assign i b acc without v1 RouteWithdrawn r" "r2 = registry_assign i b acc again v2 RouteWithdrawn r1"
  shows "(\<exists>ob2 a2. bt_get (rg_observations r2) i = Some ob2 \<and> bt_get (ob_relays ob2) s = Some a2 \<and> ag_demand a2 = d
      \<and> rqe_state (ag_evidence a2) = Withdrawn RouteWithdrawn \<and> \<not> contributes s ob2)"
proof -
  obtain ob1 c1 where o1: "assign_observation b acc without v1 RouteWithdrawn ob = (ob1, c1)" by fastforce
  from registry_assign_get [OF assms(2) o1] obtain ob1' where ob1': "bt_get (rg_observations r1) i = Some ob1'"
    "ob_relays ob1' = ob_relays ob1" unfolding assms(8) by blast
  obtain ob2 c2 where o2: "assign_observation b acc again v2 RouteWithdrawn ob1' = (ob2, c2)" by fastforce
  from registry_assign_get [OF ob1'(1) o2] obtain ob2' where ob2': "bt_get (rg_observations r2) i = Some ob2'"
    "ob_relays ob2' = ob_relays ob2" unfolding assms(9) by blast
  from assms(3) obtain a where a: "bt_get (ob_relays ob) s = Some a" by blast
  have "bt_get (ob_relays ob1) s = Some (set_state (Withdrawn RouteWithdrawn) a)"
    using assign_observation_relays(1) [OF assms(4) o1, of s] a assms(5) by (simp add: retain_withdrawn_def)
  with assign_observation_relays(1) [OF assms(6) o2, of s] assms(7) ob1'(2)
  have "bt_get (ob_relays ob2) s = Some (take_assigned b s (d, route) (Some (set_state (Withdrawn RouteWithdrawn) a)))" by simp
  with ob2' show ?thesis
    by (auto simp: take_assigned_def set_state_def contributes_def is_withdrawn_def)
qed

text \<open>
  A report about a relay overwrites its withdrawal: a state recorded after a route
  withdrew the relay puts the withdrawn demand back into the relay's complete demand.
\<close>

theorem report_revives_withdrawn_demand:
  assumes "registry_reach N r" "bt_get (rg_observations r) i = Some ob" "ob_active ob" "bt_get (ob_relays ob) s = Some a"
    "bt_wf without" "bt_get without s = None" "r1 = registry_assign i b acc without v RouteWithdrawn r"
    "\<not> is_withdrawn st"
  shows "(ag_demand a, acc) \<in> set (demand_at s (record_state i s g st r1))"
proof -
  note inv = registry_reach_inv [OF assms(1)]
  obtain ob1 c1 where o1: "assign_observation b acc without v RouteWithdrawn ob = (ob1, c1)" by fastforce
  from registry_assign_get [OF assms(2) o1] obtain ob1' where ob1': "bt_get (rg_observations r1) i = Some ob1'"
    "ob_relays ob1' = ob_relays ob1" "ob_access ob1' = ob_access ob1" "ob_active ob1' = ob_active ob1" unfolding assms(7) by blast
  have act: "ob_active ob1" using assign_observation_ok [OF o1 registry_invD(3) [OF inv assms(2)]] assms(3) by (simp add: same_family_def)
  have a1: "bt_get (ob_relays ob1') s = Some (set_state (Withdrawn RouteWithdrawn) a)" "ob_access ob1' = acc"
    using assign_observation_relays(1) [OF assms(5) o1, of s] assign_observation_relays(2) [OF assms(5) o1] assms(4,6) ob1' by (simp_all add: retain_withdrawn_def)
  let ?a = "(set_state (Withdrawn RouteWithdrawn) a)\<lparr>ag_evidence := (ag_evidence (set_state (Withdrawn RouteWithdrawn) a))\<lparr>rqe_generation := g, rqe_state := st\<rparr>\<rparr>"
  have inv2: "registry_inv (record_state i s g st r1)"
    unfolding assms(7) using registry_inv_perform [where op = "RegState i s g st", OF registry_inv_assign [OF inv]]
    by (simp add: registry_allowed_def)
  have "\<exists>ob2. bt_get (rg_observations (record_state i s g st r1)) i = Some ob2 \<and> bt_get (ob_relays ob2) s = Some ?a
      \<and> ob_access ob2 = acc \<and> ob_active ob2"
    using ob1' a1 act by (auto simp: record_state_def registry_update_def update_relay_def Let_def)
  then obtain ob2 where ob2: "bt_get (rg_observations (record_state i s g st r1)) i = Some ob2" "bt_get (ob_relays ob2) s = Some ?a"
    "ob_access ob2 = acc" "ob_active ob2" by blast
  have "contributes s ob2" using ob2 assms(8) by (simp add: contributes_def)
  moreover have "ob2 \<in> set (bt_values (rg_observations (record_state i s g st r1)))"
    using ob2(1) by (force simp: set_bt_values [OF registry_invD(1) [OF inv2]])
  ultimately show ?thesis
    unfolding demand_at_eq [OF inv2] using ob2(2,3) by (force simp: set_state_def)
qed

text \<open>What an event would leave of a live source without the bound.\<close>

definition live_next :: "nostr_lib \<Rightarrow> relay_event \<Rightarrow> live_state \<Rightarrow> (event_id, relay_event) btree_map" where
  "live_next N re lv =
     fst (fold (live_mutation (occ_session (re_occurrence re)))
       (mutations_for_event N (bt_values (lv_events lv)) re (occ_observed_at (re_occurrence re))) (lv_events lv, []))"

text \<open>
  The live events of an observation never exceed the bound at any relay, whatever
  arrives: an event is taken whole, with everything it replaces or deletes, or it is refused
  because the bound would be exceeded, changes nothing and is counted.
\<close>

theorem live_events_bounded:
  assumes "registry_reach N r" "bt_get (rg_observations r) i = Some ob" "bt_get (ob_live ob) s = Some lv"
    "live_apply N re lv = (lv', changed)"
  shows "length (lv_events lv) \<le> LIVE_EVENTS_PER_SESSION
    \<and> (if length (live_next N re lv) \<le> LIVE_EVENTS_PER_SESSION
       then lv_events lv' = live_next N re lv \<and> lv_refused lv' = lv_refused lv
       else lv_events lv' = lv_events lv \<and> lv_refused lv' = saturating_add_u64 (lv_refused lv) 1 \<and> changed)"
proof -
  from registry_invD(3) [OF registry_reach_inv [OF assms(1)] assms(2)] assms(3) have "live_ok lv"
    by (auto simp: observation_ok_def list_all_iff set_bt_values)
  then have "length (lv_events lv) \<le> LIVE_EVENTS_PER_SESSION" by (simp add: live_ok_def)
  with assms(4) show ?thesis
    by (auto simp: live_apply_def live_next_def Let_def split: prod.splits if_splits)
qed

subsection \<open>Witnesses\<close>

definition any_filter :: filter where
  "any_filter = \<lparr>fl_ids = None, fl_authors = None, fl_kinds = None, fl_search = None, fl_since = None, fl_until = None,
     fl_limit = None, fl_generic_tags = []\<rparr>"

definition sample_demand :: "observation_id \<Rightarrow> relay_demand" where
  "sample_demand i = \<lparr>dm_owner = i, dm_branch = 0, dm_filter = any_filter,
     dm_bounds = \<lparr>qb_since = None, qb_until = None, qb_limit = None\<rparr>\<rparr>"

definition wants :: "observation_id \<Rightarrow> relay_url list \<Rightarrow> wanted_relays" where
  "wants i relays = bt_of_list (map (\<lambda>s. (s, sample_demand i, RouteAutomatic 1)) relays)"

text \<open>A root with a generation in use and another one being prepared, both with demand at one relay.\<close>

definition sample_registry :: registry where
  "sample_registry = fold (registry_perform sample_lib)
     [RegInstall, RegInstallChild 1, RegAssign 2 0 Unauthenticated (wants 2 [''wss://a'']) (Some 1) RouteWithdrawn,
      RegActivate 1 2, RegInstallChild 1, RegAssign 3 0 Unauthenticated (wants 3 [''wss://a'']) (Some 1) RouteWithdrawn]
     registry_default"

lemma sample_registry_reach: "registry_reach sample_lib sample_registry"
  unfolding sample_registry_def fold.simps comp_def id_def
  by (intro registry_reach.intros) code_simp+

lemma sample_registry_two:
  "\<exists>ob a. bt_get (rg_observations sample_registry) 2 = Some ob \<and> ob_active ob \<and> ob_public ob = 1 \<and> ob_children ob = []
     \<and> bt_get (ob_relays ob) ''wss://a'' = Some a \<and> ag_demand a = sample_demand 2
     \<and> bt_get (ob_live ob) ''wss://a'' = Some live_default"
proof -
  have "case bt_get (rg_observations sample_registry) 2 of None \<Rightarrow> False | Some ob \<Rightarrow> ob_active ob \<and> ob_public ob = 1
      \<and> ob_children ob = [] \<and> (case bt_get (ob_relays ob) ''wss://a'' of None \<Rightarrow> False | Some a \<Rightarrow> ag_demand a = sample_demand 2)
      \<and> bt_get (ob_live ob) ''wss://a'' = Some live_default"
    by code_simp
  then show ?thesis by (auto split: option.splits)
qed

theorem generations_exclusive_witness: "publishable 1 2 sample_registry"
  using generations_exclusive [OF sample_registry_reach] sample_registry_two by metis

theorem desired_exact_witness: "demand_at ''wss://a'' sample_registry = [(sample_demand 2, Unauthenticated)]"
proof -
  have "map (\<lambda>i. let ob = the (bt_get (rg_observations sample_registry) i) in
      (ag_demand (the (bt_get (ob_relays ob) ''wss://a'')), ob_access ob)) [2] = [(sample_demand 2, Unauthenticated)]"
    "List.filter (\<lambda>i. ob_active (the (bt_get (rg_observations sample_registry) i))
       \<and> (case bt_get (ob_relays (the (bt_get (rg_observations sample_registry) i))) ''wss://a'' of None \<Rightarrow> False
          | Some a \<Rightarrow> \<not> is_withdrawn (rqe_state (ag_evidence a)))) (open_observations sample_registry) = [2]"
    by code_simp+
  moreover have "contributes s ob \<longleftrightarrow> ob_active ob \<and> (case bt_get (ob_relays ob) s of None \<Rightarrow> False
      | Some a \<Rightarrow> \<not> is_withdrawn (rqe_state (ag_evidence a)))" for s ob
    by (simp add: contributes_def split: option.split)
  ultimately show ?thesis by (simp only: desired_exact [OF sample_registry_reach])
qed

theorem withdraw_releases_exactly_witness: "rg_ended (registry_withdraw 2 sample_registry) = rg_ended sample_registry @ [2]"
  using withdraw_releases_exactly [OF sample_registry_reach _ refl] sample_registry_two by metis

theorem readded_relay_stays_withdrawn_witness:
  "\<exists>ob. bt_get (rg_observations (registry_assign 2 0 Unauthenticated (wants 2 [''wss://a'', ''wss://b'']) (Some 3) RouteWithdrawn
       (registry_assign 2 0 Unauthenticated (wants 2 [''wss://b'']) (Some 2) RouteWithdrawn sample_registry))) 2 = Some ob
     \<and> \<not> contributes ''wss://a'' ob"
proof -
  have "bt_wf (wants 2 [''wss://b''])" "bt_get (wants 2 [''wss://b'']) ''wss://a'' = None" "bt_wf (wants 2 [''wss://a'', ''wss://b''])"
    "bt_get (wants 2 [''wss://a'', ''wss://b'']) ''wss://a'' = Some (sample_demand 2, RouteAutomatic 1)" by code_simp+
  from readded_relay_stays_withdrawn [OF sample_registry_reach _ _ this refl refl, of 2] sample_registry_two
  show ?thesis by (metis option.distinct(1))
qed

theorem report_revives_withdrawn_demand_witness:
  "(sample_demand 2, Unauthenticated) \<in> set (demand_at ''wss://a'' (record_state 2 ''wss://a'' None (StoredEventsComplete 9)
     (registry_assign 2 0 Unauthenticated (wants 2 []) (Some 2) RouteWithdrawn sample_registry)))"
proof -
  have "bt_wf (wants 2 [])" "bt_get (wants 2 []) ''wss://a'' = None" "\<not> is_withdrawn (StoredEventsComplete 9)"
    by (simp_all add: wants_def bt_of_list_def is_withdrawn_def)
  with report_revives_withdrawn_demand [OF sample_registry_reach _ _ _ this(1,2) refl] sample_registry_two show ?thesis by metis
qed

theorem live_events_bounded_witness:
  "lv_events (fst (live_apply sample_lib sample_note_event live_default)) = live_next sample_lib sample_note_event live_default"
proof -
  have "length (live_next sample_lib sample_note_event live_default) = 1" by code_simp
  then have "length (live_next sample_lib sample_note_event live_default) \<le> LIVE_EVENTS_PER_SESSION"
    by (simp add: LIVE_EVENTS_PER_SESSION_def)
  moreover obtain lv c where lv: "live_apply sample_lib sample_note_event live_default = (lv, c)" by fastforce
  ultimately show ?thesis
    using live_events_bounded [OF sample_registry_reach _ _ lv] sample_registry_two by auto
qed

end
