(* ===== verification/Observation_Engine.thy ===== *)
theory Observation_Engine
  imports Observation_Registry Transport
begin

section \<open>Reconciling demand into relay work (\<open>fava-observe\<close>)\<close>

text \<open>
  \<open>slot.rs\<close>, \<open>plan.rs\<close>, \<open>facts.rs\<close>, \<open>engine.rs\<close> and \<open>completions.rs\<close>: the one owner that turns
  the registry's demand into leases, plans and subscriptions. A reconciliation pass and the
  handling of one report are one step each. The tasks the owner spawns are the log
  \<open>en_effects\<close>; what they later report is a \<open>report\<close>. A cancellation token is named by the
  generation it was made for, the token of one subscription's handle by a number. A leased session
  is a number as well: what its connection says at the time of a step is the environment's
  \<open>ee_live\<close>, and the clock its \<open>ee_now\<close>. The planner, the \<open>nostr\<close> crate and the texts of derived
  \<open>Debug\<close> and \<open>Display\<close> instances are the fields of \<open>engine_lib\<close>.
\<close>

subsection \<open>State\<close>

datatype relay_session_state =
    SessionConnecting
  | SessionOpen
  | SessionReconnecting bounded_text
  | SessionUnreachable bounded_text
  | SessionClosedDown

record slot =
  sl_generation :: round
  sl_lease :: "nat option"
  sl_session :: "nat option"
  sl_requested :: authority
  sl_constraints :: relay_read_constraints
  sl_installed :: installed_subscriptions
  sl_attending :: "(subscription_id, nat) btree_map"
  sl_completeness :: "(subscription_id, eose_completeness) btree_map"
  sl_settled :: "(subscription_id, bool) btree_map"
  sl_revision :: "plan_revision option"
  sl_armed :: bool
  sl_busy :: bool
  sl_state :: relay_session_state
  sl_reconnects :: nat

datatype engine_effect =
    EffAcquire relay_url authority round
  | EffArm relay_url round
  | EffInstall relay_url round subscription_plan
  | EffListen relay_url round nat
  | EffFetchConstraints relay_url round
  | EffRelease nat round
  | EffCancel round
  | EffDropHandle nat

record wire_subscription_fact =
  wf_id :: subscription_id
  wf_serves :: "observation_id list"
  wf_stored_events_complete :: bool
  wf_closed :: "bounded_text option"

record relay_fact =
  rf_session :: relay_url
  rf_generation :: "round option"
  rf_state :: relay_session_state
  rf_holders :: nat
  rf_subscriptions :: "wire_subscription_fact list"
  rf_reconnect_attempts :: nat
  rf_authentication :: authentication

datatype diagnostic_fact =
    FactRelay relay_fact
  | FactForgetRelay relay_url
  | FactInboundLoss relay_url nat

record engine_lib =
  el_nostr :: nostr_lib
  el_plan :: "relay_url \<Rightarrow> relay_demand list \<Rightarrow> relay_read_constraints \<Rightarrow> installed_subscriptions \<Rightarrow> plan_revision
    \<Rightarrow> subscription_plan_error + subscription_plan"
  el_plan_error :: "subscription_plan_error \<Rightarrow> string"
  el_conformance_error :: "plan_conformance_error \<Rightarrow> string"
  el_shortfall_debug :: "shortfall_reason \<Rightarrow> string"
  el_completeness_debug :: "eose_completeness \<Rightarrow> string"

record engine_env =
  ee_now :: timestamp
  ee_live :: "nat \<Rightarrow> authentication"

record engine =
  en_registry :: registry
  en_cache :: memory_event_cache
  en_slots :: "(relay_url, slot list) btree_map"
  en_rounds :: round_issuer
  en_plan_revisions :: plan_revision_issuer
  en_effects :: "engine_effect list"
  en_facts :: "diagnostic_fact list"

definition effect :: "engine_effect \<Rightarrow> engine \<Rightarrow> engine" where
  "effect e en = en\<lparr>en_effects := en_effects en @ [e]\<rparr>"

definition fact :: "diagnostic_fact \<Rightarrow> engine \<Rightarrow> engine" where
  "fact f en = en\<lparr>en_facts := en_facts en @ [f]\<rparr>"

definition on_registry :: "(registry \<Rightarrow> registry) \<Rightarrow> engine \<Rightarrow> engine" where
  "on_registry f en = en\<lparr>en_registry := f (en_registry en)\<rparr>"

subsection \<open>One slot (\<open>slot.rs\<close>)\<close>

definition slot_new :: "round \<Rightarrow> authority \<Rightarrow> slot" where
  "slot_new generation requested =
     \<lparr>sl_generation = generation, sl_lease = None, sl_session = None, sl_requested = requested,
      sl_constraints = constraints_unknown, sl_installed = [], sl_attending = [], sl_completeness = [], sl_settled = [],
      sl_revision = None, sl_armed = False, sl_busy = False, sl_state = SessionConnecting, sl_reconnects = 0\<rparr>"

definition slot_can_serve :: "engine_env \<Rightarrow> slot \<Rightarrow> authority \<Rightarrow> bool" where
  "slot_can_serve env sl auth =
     (case sl_session sl of None \<Rightarrow> sl_requested sl = auth | Some s \<Rightarrow> can_serve (ee_live env s) auth)"

definition slot_advance :: "round \<Rightarrow> slot \<Rightarrow> slot" where
  "slot_advance generation sl =
     sl\<lparr>sl_attending := [], sl_installed := [], sl_completeness := [], sl_settled := [], sl_armed := False, sl_busy := False,
        sl_generation := generation\<rparr>"

definition slot_covers :: "slot \<Rightarrow> relay_demand \<Rightarrow> bool" where
  "slot_covers sl d =
     (\<exists>e\<in>set (bt_values (sl_installed sl)).
        demand_id_of d \<in> set (is_serves e) \<or> (\<exists>f\<in>set (is_filters e). filter_covers f (dm_filter d)))"

definition slot_uncovered :: "slot \<Rightarrow> relay_demand list \<Rightarrow> relay_demand list" where
  "slot_uncovered sl demand = List.filter (\<lambda>d. \<not> slot_covers sl d) demand"

definition slot_orphaned :: "slot \<Rightarrow> relay_demand list \<Rightarrow> bool" where
  "slot_orphaned sl demand =
     (\<exists>e\<in>set (bt_values (sl_installed sl)). \<forall>held\<in>set (is_serves e). held \<notin> demand_id_of ` set demand)"

definition slot_owners :: "slot \<Rightarrow> subscription_id \<Rightarrow> observation_id list" where
  "slot_owners sl i = (case bt_get (sl_installed sl) i of None \<Rightarrow> [] | Some e \<Rightarrow> bs_of_list (map fst (is_serves e)))"

definition slot_serving :: "slot \<Rightarrow> demand_id \<Rightarrow> subscription_id option" where
  "slot_serving sl d = map_option fst (List.find (\<lambda>(_, e). d \<in> set (is_serves e)) (sl_installed sl))"

definition proves_completeness :: "slot \<Rightarrow> subscription_id \<Rightarrow> eose_completeness" where
  "proves_completeness sl i = (case bt_get (sl_completeness sl) i of None \<Rightarrow> Proven | Some c \<Rightarrow> c)"

definition is_settled :: "slot \<Rightarrow> subscription_id \<Rightarrow> bool" where
  "is_settled sl i = (case bt_get (sl_settled sl) i of None \<Rightarrow> False | Some b \<Rightarrow> b)"

subsection \<open>Finding slots (\<open>engine.rs\<close>)\<close>

definition slots_at :: "relay_url \<Rightarrow> engine \<Rightarrow> slot list" where
  "slots_at relay en = (case bt_get (en_slots en) relay of None \<Rightarrow> [] | Some b \<Rightarrow> b)"

definition engine_slot :: "relay_url \<Rightarrow> round \<Rightarrow> engine \<Rightarrow> slot option" where
  "engine_slot relay g en = List.find (\<lambda>sl. sl_generation sl = g) (slots_at relay en)"

fun update_first :: "('a \<Rightarrow> bool) \<Rightarrow> ('a \<Rightarrow> 'a) \<Rightarrow> 'a list \<Rightarrow> 'a list" where
  "update_first P f [] = []"
| "update_first P f (x # xs) = (if P x then f x # xs else x # update_first P f xs)"

definition modify_slot :: "relay_url \<Rightarrow> round \<Rightarrow> (slot \<Rightarrow> slot) \<Rightarrow> engine \<Rightarrow> engine" where
  "modify_slot relay g f en =
     (case bt_get (en_slots en) relay of
        None \<Rightarrow> en
      | Some b \<Rightarrow> en\<lparr>en_slots := bt_insert relay (update_first (\<lambda>sl. sl_generation sl = g) f b) (en_slots en)\<rparr>)"

definition slot_index_for :: "engine_env \<Rightarrow> relay_url \<Rightarrow> authority \<Rightarrow> engine \<Rightarrow> slot option" where
  "slot_index_for env relay auth en = List.find (\<lambda>sl. slot_can_serve env sl auth) (slots_at relay en)"

definition demand_for_slot :: "engine_env \<Rightarrow> relay_url \<Rightarrow> round \<Rightarrow> engine \<Rightarrow> relay_demand list" where
  "demand_for_slot env relay g en =
     (case engine_slot relay g en of
        None \<Rightarrow> []
      | Some sl \<Rightarrow>
          let attached = concat (map is_serves (bt_values (sl_installed sl))) in
          map fst (List.filter (\<lambda>(d, auth).
              demand_id_of d \<in> set attached
              \<or> (case slot_index_for env relay auth en of None \<Rightarrow> False | Some c \<Rightarrow> sl_generation c = g))
            (demand_at relay (en_registry en))))"

subsection \<open>Published facts (\<open>facts.rs\<close>, \<open>diagnostics.rs\<close>)\<close>

definition publish_states :: "relay_url \<Rightarrow> relay_demand list \<Rightarrow> round \<Rightarrow> relay_source_state \<Rightarrow> engine \<Rightarrow> engine" where
  "publish_states relay demand g st en =
     on_registry (fold (\<lambda>d. record_state (dm_owner d) relay (Some g) st) demand) en"

definition publish_state_for_relay :: "engine_env \<Rightarrow> relay_url \<Rightarrow> round \<Rightarrow> relay_source_state \<Rightarrow> engine \<Rightarrow> engine" where
  "publish_state_for_relay env relay g st en = publish_states relay (demand_for_slot env relay g en) g st en"

definition publish_for_subscription :: "relay_url \<Rightarrow> round \<Rightarrow> subscription_id \<Rightarrow> relay_source_state \<Rightarrow> engine \<Rightarrow> engine" where
  "publish_for_subscription relay g i st en =
     (case engine_slot relay g en of
        None \<Rightarrow> en
      | Some sl \<Rightarrow> on_registry (fold (\<lambda>own. record_state own relay (Some g) st) (slot_owners sl i)) en)"

definition revision_number :: "plan_revision option \<Rightarrow> u64" where
  "revision_number r = (case r of None \<Rightarrow> 0 | Some v \<Rightarrow> pv_sequence v)"

definition publish_plan_item :: "engine_lib \<Rightarrow> relay_url \<Rightarrow> slot \<Rightarrow> subscription_plan option \<Rightarrow> relay_demand \<Rightarrow> registry \<Rightarrow> registry" where
  "publish_plan_item L relay sl planned d r =
     (let v = (case planned of None \<Rightarrow> revision_number (sl_revision sl) | Some p \<Rightarrow> pv_sequence (spl_revision p));
          shared = (case slot_serving sl (demand_id_of d) of None \<Rightarrow> [] | Some wire \<Rightarrow> slot_owners sl wire);
          short = Option.bind planned (\<lambda>p. map_option
            (\<lambda>e. \<lparr>rs_branches = [dm_branch d], rs_detail = bounded_text_new (el_shortfall_debug L (sf_reason e))\<rparr>)
            (List.find (\<lambda>e. sf_demand e = demand_id_of d) (spl_shortfalls p)))
      in record_plan (dm_owner d) \<lparr>dpe_revision = v, dpe_relays = [relay], dpe_installed = length (sl_installed sl)\<rparr>
           (record_sharing (dm_owner d) relay v shared short r))"

definition publish_plan :: "engine_lib \<Rightarrow> relay_url \<Rightarrow> round \<Rightarrow> relay_demand list \<Rightarrow> subscription_plan option \<Rightarrow> engine \<Rightarrow> engine" where
  "publish_plan L relay g cohort planned en =
     (case engine_slot relay g en of
        None \<Rightarrow> en
      | Some sl \<Rightarrow> on_registry (fold (publish_plan_item L relay sl planned) cohort) en)"

definition publish_shortfall :: "engine_lib \<Rightarrow> engine_env \<Rightarrow> relay_url \<Rightarrow> round \<Rightarrow> subscription_id \<Rightarrow> eose_completeness \<Rightarrow> engine \<Rightarrow> engine" where
  "publish_shortfall L env relay g i c en =
     (case engine_slot relay g en of
        None \<Rightarrow> en
      | Some sl \<Rightarrow> on_registry (fold (\<lambda>own r.
          let branches = (case demand_id_at own relay r of None \<Rightarrow> [] | Some d \<Rightarrow> [snd d]) in
          record_state own relay (Some g) (StateOpen (ee_now env))
            (record_sharing own relay (revision_number (sl_revision sl)) (slot_owners sl i)
               (Some \<lparr>rs_branches = branches, rs_detail = bounded_text_new (el_completeness_debug L c)\<rparr>) r))
          (slot_owners sl i)) en)"

definition slot_authentication :: "engine_env \<Rightarrow> slot \<Rightarrow> authentication" where
  "slot_authentication env sl = (case sl_session sl of None \<Rightarrow> unoffered | Some s \<Rightarrow> ee_live env s)"

definition wire_fact :: "subscription_id \<Rightarrow> observation_id list \<Rightarrow> bool \<Rightarrow> wire_subscription_fact" where
  "wire_fact i serves complete = \<lparr>wf_id = i, wf_serves = serves, wf_stored_events_complete = complete, wf_closed = None\<rparr>"

definition publish_relay_diagnostic :: "engine_env \<Rightarrow> relay_url \<Rightarrow> round \<Rightarrow> engine \<Rightarrow> engine" where
  "publish_relay_diagnostic env relay g en =
     (case engine_slot relay g en of
        None \<Rightarrow> en
      | Some sl \<Rightarrow> fact (FactRelay \<lparr>rf_session = relay, rf_generation = Some (sl_generation sl), rf_state = sl_state sl,
          rf_holders = (if sl_lease sl = None then 0 else 1),
          rf_subscriptions = map (\<lambda>i. wire_fact i (public_ids (slot_owners sl i) (en_registry en)) (is_settled sl i))
            (bt_keys (sl_installed sl)),
          rf_reconnect_attempts = sl_reconnects sl, rf_authentication = slot_authentication env sl\<rparr>) en)"

definition refused_plan :: "relay_url \<Rightarrow> string \<Rightarrow> diagnostic_fact" where
  "refused_plan relay detail =
     FactRelay \<lparr>rf_session = relay, rf_generation = None, rf_state = SessionUnreachable (bounded_text_new detail),
       rf_holders = 0, rf_subscriptions = [], rf_reconnect_attempts = 0, rf_authentication = unoffered\<rparr>"

fun round_error :: "rounds_exhausted \<Rightarrow> string" where
  "round_error Authorities = ''round authority space is exhausted''"
| "round_error Sequence = ''round sequence is exhausted''"

fun revision_error :: "plan_revision_exhausted \<Rightarrow> string" where
  "revision_error PlanAuthorities = ''plan-revision authority space is exhausted''"
| "revision_error PlanSequence = ''plan-revision sequence is exhausted''"

definition publish_owner_refusal :: "relay_url \<Rightarrow> relay_demand list \<Rightarrow> round option \<Rightarrow> string \<Rightarrow> engine \<Rightarrow> engine" where
  "publish_owner_refusal relay demand g detail en =
     on_registry (fold (\<lambda>d. record_state (dm_owner d) relay g (OwnerRefused (bounded_text_new detail))) demand) en"

text \<open>\<open>str::contains\<close>.\<close>

fun str_contains :: "string \<Rightarrow> string \<Rightarrow> bool" where
  "str_contains [] part = (part = [])"
| "str_contains (c # cs) part = (take (length part) (c # cs) = part \<or> str_contains cs part)"

definition failure_state :: "bounded_text \<Rightarrow> relay_source_state" where
  "failure_state detail =
     (if str_contains (bounded_str detail) ''EstablishTimeout'' then TimedOut Establish 0
      else if str_contains (bounded_str detail) ''IdleTimeout'' then TimedOut IdleDeadline 0
      else StateDisconnected detail)"

subsection \<open>Turning an executed plan into a baseline (\<open>plan.rs\<close>)\<close>

definition baseline_entries ::
  "(installed_subscription \<Rightarrow> attributed_subscription \<Rightarrow> filter list) \<Rightarrow> installed_subscriptions \<Rightarrow> subscription_plan
     \<Rightarrow> subscription_id btree_set \<Rightarrow> (subscription_id \<times> installed_subscription) list" where
  "baseline_entries filters_of before p closed =
     List.map_filter (\<lambda>(i, current).
       if i \<in> set closed then None
       else map_option (\<lambda>a. (i, \<lparr>is_filters = filters_of current a, is_serves = as_serves a\<rparr>)) (bt_get (spl_attribution p) i)) before"

definition opened_entries :: "subscription_plan \<Rightarrow> subscription_id option list \<Rightarrow> (subscription_id \<times> installed_subscription) list" where
  "opened_entries p opened =
     List.map_filter (\<lambda>(pos, c). case nth_opt opened pos of
         Some (Some i) \<Rightarrow> Some (i, \<lparr>is_filters = ps_filters c, is_serves = ps_serves c\<rparr>)
       | _ \<Rightarrow> None) (enumerate 0 (spl_open p))"

definition accepted :: "installed_subscriptions \<Rightarrow> subscription_plan \<Rightarrow> subscription_id option list \<Rightarrow> subscription_id btree_set
    \<Rightarrow> installed_subscriptions" where
  "accepted before p opened closed =
     installed_from_entries (baseline_entries (\<lambda>current a. is_filters current) before p closed @ opened_entries p opened)"

text \<open>The reference reducer of \<open>fava-subscriptions-testkit/src/scenario.rs\<close>.\<close>

definition apply_plan :: "installed_subscriptions \<Rightarrow> subscription_plan \<Rightarrow> subscription_id option list \<Rightarrow> installed_subscriptions" where
  "apply_plan before p opened =
     installed_from_entries (baseline_entries (\<lambda>current a. as_filters a) before p (bs_of_list (spl_close p)) @ opened_entries p opened)"

subsection \<open>Reconciliation (\<open>engine.rs\<close>)\<close>

definition next_round :: "engine \<Rightarrow> (rounds_exhausted + round) \<times> engine" where
  "next_round en = (case round_allocate (en_rounds en) of (res, ri) \<Rightarrow> (res, en\<lparr>en_rounds := ri\<rparr>))"

definition next_plan_revision :: "engine \<Rightarrow> (plan_revision_exhausted + plan_revision) \<times> engine" where
  "next_plan_revision en =
     (case plan_revision_allocate (en_plan_revisions en) of (res, ri) \<Rightarrow> (res, en\<lparr>en_plan_revisions := ri\<rparr>))"

definition arm :: "relay_url \<Rightarrow> round \<Rightarrow> engine \<Rightarrow> engine" where
  "arm relay g en = effect (EffArm relay g) en"

definition release_lease :: "nat \<Rightarrow> round \<Rightarrow> engine \<Rightarrow> engine" where
  "release_lease lease g en = effect (EffRelease lease g) en"

definition teardown_slot :: "slot \<Rightarrow> engine \<Rightarrow> engine" where
  "teardown_slot sl en =
     (let en = effect (EffCancel (sl_generation sl)) en in
      case sl_lease sl of None \<Rightarrow> en | Some lease \<Rightarrow> release_lease lease (sl_generation sl) en)"

definition release_relay :: "relay_url \<Rightarrow> engine \<Rightarrow> engine" where
  "release_relay relay en =
     (case bt_get (en_slots en) relay of
        None \<Rightarrow> en
      | Some b \<Rightarrow> fact (FactForgetRelay relay) (fold teardown_slot b (en\<lparr>en_slots := bt_remove relay (en_slots en)\<rparr>)))"

fun remove_first :: "('a \<Rightarrow> bool) \<Rightarrow> 'a list \<Rightarrow> 'a list" where
  "remove_first P [] = []"
| "remove_first P (x # xs) = (if P x then xs else x # remove_first P xs)"

definition release_slot :: "relay_url \<Rightarrow> round \<Rightarrow> engine \<Rightarrow> engine" where
  "release_slot relay g en =
     (case bt_get (en_slots en) relay of
        None \<Rightarrow> en
      | Some b \<Rightarrow>
          (case List.find (\<lambda>sl. sl_generation sl = g) b of
             None \<Rightarrow> en
           | Some sl \<Rightarrow>
               let b = remove_first (\<lambda>sl. sl_generation sl = g) b;
                   en = (if b = [] then fact (FactForgetRelay relay) (en\<lparr>en_slots := bt_remove relay (en_slots en)\<rparr>)
                         else en\<lparr>en_slots := bt_insert relay b (en_slots en)\<rparr>)
               in teardown_slot sl en))"

definition record_installed ::
  "relay_url \<Rightarrow> round \<Rightarrow> subscription_plan \<Rightarrow> subscription_id option list \<Rightarrow> subscription_id btree_set \<Rightarrow> engine \<Rightarrow> engine" where
  "record_installed relay g planned opened closed en =
     modify_slot relay g (\<lambda>sl.
       let installed = accepted (sl_installed sl) planned opened closed;
           alive = bt_keys installed in
       sl\<lparr>sl_installed := installed,
          sl_settled := List.filter (\<lambda>(i, _). i \<in> set alive) (sl_settled sl),
          sl_completeness := List.filter (\<lambda>(i, _). i \<in> set alive) (sl_completeness sl)\<rparr>) en"

definition execute_plan :: "engine_lib \<Rightarrow> engine_env \<Rightarrow> relay_url \<Rightarrow> round \<Rightarrow> relay_demand list \<Rightarrow> subscription_plan \<Rightarrow> engine \<Rightarrow> engine" where
  "execute_plan L env relay g demand planned en =
     (case engine_slot relay g en of
        None \<Rightarrow> en
      | Some _ \<Rightarrow>
          let en = modify_slot relay g (\<lambda>sl. sl\<lparr>sl_completeness :=
                fold (\<lambda>(i, a). bt_insert i (as_completeness a)) (spl_attribution planned) (sl_completeness sl)\<rparr>) en in
          if is_noop planned
          then publish_relay_diagnostic env relay g (publish_plan L relay g demand (Some planned)
                 (record_installed relay g planned [] [] en))
          else publish_relay_diagnostic env relay g (effect (EffInstall relay g planned) en))"

definition checked_plan ::
  "engine_lib \<Rightarrow> relay_url \<Rightarrow> relay_demand list \<Rightarrow> relay_read_constraints \<Rightarrow> installed_subscriptions \<Rightarrow> plan_revision
     \<Rightarrow> string + subscription_plan" where
  "checked_plan L relay demand c inst revision =
     (case el_plan L relay demand c inst revision of
        Inl e \<Rightarrow> Inl (el_plan_error L e)
      | Inr p \<Rightarrow>
          (case validate_plan relay demand c inst p of
             Inl e \<Rightarrow> Inl (el_plan_error L (ReqEncoding (bounded_text_new (el_conformance_error L e))))
           | Inr _ \<Rightarrow> Inr p))"

definition engine_flush :: "engine_lib \<Rightarrow> engine_env \<Rightarrow> relay_url \<Rightarrow> round \<Rightarrow> engine \<Rightarrow> engine" where
  "engine_flush L env relay g en =
     (let demand = demand_for_slot env relay g en in
      case engine_slot relay g en of
        None \<Rightarrow> en
      | Some sl \<Rightarrow>
          let en = modify_slot relay g (\<lambda>sl. sl\<lparr>sl_armed := False\<rparr>) en in
          if slot_uncovered sl demand = [] \<and> \<not> slot_orphaned sl demand then en
          else case sl_session sl of
            None \<Rightarrow> arm relay g (modify_slot relay g (\<lambda>sl. sl\<lparr>sl_armed := True\<rparr>) en)
          | Some _ \<Rightarrow>
              (case next_plan_revision en of
                 (Inl e, en) \<Rightarrow> publish_owner_refusal relay demand (Some g) (revision_error e) en
               | (Inr revision, en) \<Rightarrow>
                   let en = modify_slot relay g (\<lambda>sl. sl\<lparr>sl_revision := Some revision\<rparr>) en in
                   case checked_plan L relay demand (sl_constraints sl) (sl_installed sl) revision of
                     Inr planned \<Rightarrow> execute_plan L env relay g demand planned en
                   | Inl detail \<Rightarrow> fact (refused_plan relay detail) en))"

definition attach_item ::
  "slot \<Rightarrow> relay_demand \<Rightarrow> installed_subscriptions \<times> bool \<times> demand_id list \<Rightarrow> installed_subscriptions \<times> bool \<times> demand_id list" where
  "attach_item sl d acc =
     (case acc of (entries, changed, credited) \<Rightarrow>
        let i = demand_id_of d; fits = (\<lambda>(w, e). \<exists>f\<in>set (is_filters e). filter_covers f (dm_filter d)) in
        if \<exists>e\<in>set (bt_values entries). i \<in> set (is_serves e) then (entries, changed, credited)
        else case List.find fits entries of
          None \<Rightarrow> (entries, changed, credited)
        | Some (wire, _) \<Rightarrow>
            (update_first fits (\<lambda>(w, e). (w, e\<lparr>is_serves := bs_insert i (is_serves e)\<rparr>)) entries, True,
             if is_settled sl wire then credited @ [i] else credited))"

definition engine_attach :: "engine_lib \<Rightarrow> engine_env \<Rightarrow> relay_url \<Rightarrow> round \<Rightarrow> relay_demand list \<Rightarrow> engine \<Rightarrow> engine" where
  "engine_attach L env relay g demand en =
     (case engine_slot relay g en of
        None \<Rightarrow> en
      | Some sl \<Rightarrow>
          (case fold (attach_item sl) demand (sl_installed sl, False, []) of
             (entries, changed, credited) \<Rightarrow>
               if \<not> changed then en
               else
                 let en = modify_slot relay g (\<lambda>sl. sl\<lparr>sl_installed := installed_from_entries entries\<rparr>) en;
                     en = publish_plan L relay g demand None en;
                     en = on_registry (fold (\<lambda>i. record_state (fst i) relay (Some g) (StoredEventsComplete (ee_now env))) credited) en
                 in publish_relay_diagnostic env relay g en))"

definition open_slot_for :: "engine_env \<Rightarrow> relay_url \<Rightarrow> authority \<Rightarrow> engine \<Rightarrow> (rounds_exhausted + round) \<times> engine" where
  "open_slot_for env relay auth en =
     (case slot_index_for env relay auth en of
        Some sl \<Rightarrow> (Inr (sl_generation sl), en)
      | None \<Rightarrow>
          (case next_round en of
             (Inl e, en) \<Rightarrow> (Inl e, en)
           | (Inr g, en) \<Rightarrow> (Inr g, en\<lparr>en_slots := bt_insert relay (slots_at relay en @ [slot_new g auth]) (en_slots en)\<rparr>)))"

definition establish :: "engine_env \<Rightarrow> relay_url \<Rightarrow> authority \<Rightarrow> relay_demand list \<Rightarrow> engine \<Rightarrow> engine" where
  "establish env relay auth demand en =
     (case open_slot_for env relay auth en of
        (Inl e, en) \<Rightarrow> publish_owner_refusal relay demand None (round_error e) en
      | (Inr g, en) \<Rightarrow>
          (case engine_slot relay g en of
             None \<Rightarrow> en
           | Some sl \<Rightarrow>
               if sl_busy sl \<or> sl_session sl \<noteq> None then en
               else publish_states relay demand g StateConnecting
                 (effect (EffAcquire relay auth g) (modify_slot relay g (\<lambda>sl. sl\<lparr>sl_busy := True, sl_state := SessionConnecting\<rparr>) en))))"

definition reconcile_slot :: "engine_lib \<Rightarrow> engine_env \<Rightarrow> relay_url \<Rightarrow> round \<Rightarrow> engine \<Rightarrow> engine" where
  "reconcile_slot L env relay g en =
     (let demand = demand_for_slot env relay g en in
      if demand = [] then release_slot relay g en
      else
        let en = engine_attach L env relay g demand en in
        case engine_slot relay g en of
          None \<Rightarrow> en
        | Some sl \<Rightarrow>
            if slot_orphaned sl demand then engine_flush L env relay g en
            else if slot_uncovered sl demand = [] \<or> sl_armed sl then en
            else arm relay g (modify_slot relay g (\<lambda>sl. sl\<lparr>sl_armed := True\<rparr>) en))"

definition reconcile_relay :: "engine_lib \<Rightarrow> engine_env \<Rightarrow> relay_url \<Rightarrow> (relay_demand \<times> authority) list \<Rightarrow> engine \<Rightarrow> engine" where
  "reconcile_relay L env relay items en =
     (let en = fold (\<lambda>(d, auth) en. if slot_index_for env relay auth en = None then establish env relay auth [d] en else en) items en
      in fold (reconcile_slot L env relay) (map sl_generation (slots_at relay en)) en)"

definition engine_reconcile :: "engine_lib \<Rightarrow> engine_env \<Rightarrow> engine \<Rightarrow> engine" where
  "engine_reconcile L env en =
     (let desired = registry_desired (en_registry en);
          vacated = List.filter (\<lambda>relay. bt_get desired relay = None) (bt_keys (en_slots en));
          en = fold release_relay vacated en
      in fold (\<lambda>(relay, items). reconcile_relay L env relay items) desired en)"

subsection \<open>Completions (\<open>completions.rs\<close>)\<close>

datatype report =
    RepAcquired relay_url round nat
  | RepRefused relay_url round bounded_text
  | RepInstalled relay_url round plan_revision subscription_plan "subscription_id option list" "(subscription_id \<times> nat) list"
      "subscription_id btree_set"
  | RepFlush relay_url round
  | RepConnection relay_url round connection
  | RepConnectionReplaced relay_url round
  | RepConnectionEnded
  | RepCarried relay_url round subscription_id subscription_item
  | RepConstraints relay_url round relay_read_constraints

definition report_acquired :: "engine_env \<Rightarrow> relay_url \<Rightarrow> round \<Rightarrow> nat \<Rightarrow> engine \<Rightarrow> engine" where
  "report_acquired env relay g lease en =
     (case engine_slot relay g en of
        None \<Rightarrow> release_lease lease g en
      | Some sl \<Rightarrow>
          let en = modify_slot relay g (\<lambda>sl. sl\<lparr>sl_lease := Some lease, sl_session := Some lease, sl_busy := False,
                     sl_state := SessionOpen, sl_armed := True\<rparr>) en;
              en = effect (EffFetchConstraints relay g) (effect (EffListen relay g lease) en);
              en = (if \<not> sl_armed sl then arm relay g en else en)
          in publish_relay_diagnostic env relay g en)"

definition report_refused :: "engine_env \<Rightarrow> relay_url \<Rightarrow> round \<Rightarrow> bounded_text \<Rightarrow> engine \<Rightarrow> bool \<times> engine" where
  "report_refused env relay g detail en =
     (case next_round en of
        (Inl e, en) \<Rightarrow> (False, publish_owner_refusal relay (demand_for_slot env relay g en) (Some g) (round_error e) en)
      | (Inr g', en) \<Rightarrow>
          (case engine_slot relay g en of
             None \<Rightarrow> (False, en)
           | Some sl \<Rightarrow>
               let en = effect (EffCancel g) (modify_slot relay g (\<lambda>sl.
                     slot_advance g' (sl\<lparr>sl_state := SessionUnreachable detail, sl_lease := None, sl_session := None\<rparr>)) en);
                   en = (case sl_lease sl of None \<Rightarrow> en | Some lease \<Rightarrow> release_lease lease g en);
                   en = publish_state_for_relay env relay g' (failure_state detail) en
               in (True, publish_relay_diagnostic env relay g' en)))"

definition drop_handles :: "subscription_id btree_set \<Rightarrow> (subscription_id, nat) btree_map \<Rightarrow> engine \<Rightarrow> engine" where
  "drop_handles closed attending en =
     fold (\<lambda>i. case bt_get attending i of None \<Rightarrow> id | Some token \<Rightarrow> effect (EffDropHandle token)) closed en"

definition report_installed ::
  "engine_lib \<Rightarrow> engine_env \<Rightarrow> relay_url \<Rightarrow> round \<Rightarrow> plan_revision \<Rightarrow> subscription_plan \<Rightarrow> subscription_id option list
     \<Rightarrow> (subscription_id \<times> nat) list \<Rightarrow> subscription_id btree_set \<Rightarrow> engine \<Rightarrow> engine" where
  "report_installed L env relay g revision planned opened attending closed en =
     (case engine_slot relay g en of
        None \<Rightarrow> en
      | Some sl \<Rightarrow>
          if sl_revision sl \<noteq> Some revision then en
          else
            let held = fold (\<lambda>(i, token). bt_insert i token) attending (sl_attending sl);
                en = drop_handles closed held (modify_slot relay g (\<lambda>sl. sl\<lparr>sl_attending := fold bt_remove closed held\<rparr>) en);
                en = record_installed relay g planned opened closed en;
                en = publish_plan L relay g (demand_for_slot env relay g en) (Some planned) en
            in case engine_slot relay g en of
                 None \<Rightarrow> en
               | Some sl \<Rightarrow>
                   publish_relay_diagnostic env relay g
                     (on_registry (fold (\<lambda>own. record_state own relay (Some g) (StateOpen (ee_now env)))
                        (concat (map (slot_owners sl) (List.map_filter id opened)))) en))"

definition set_slot_state :: "relay_url \<Rightarrow> round \<Rightarrow> relay_session_state \<Rightarrow> engine \<Rightarrow> engine" where
  "set_slot_state relay g st en = modify_slot relay g (\<lambda>sl. sl\<lparr>sl_state := st\<rparr>) en"

definition report_connection :: "engine_env \<Rightarrow> relay_url \<Rightarrow> round \<Rightarrow> connection \<Rightarrow> engine \<Rightarrow> engine" where
  "report_connection env relay g c en =
     (case engine_slot relay g en of
        None \<Rightarrow> en
      | Some sl \<Rightarrow>
          let en = (case (sl_requested sl, progress (cn_authentication c)) of
                (As _, Requested challenge) \<Rightarrow>
                  publish_relay_diagnostic env relay g
                    (publish_state_for_relay env relay g (relay_source_state.AuthenticationRequired (Requested challenge) (ee_now env)) en)
              | _ \<Rightarrow> en)
          in case cn_connectivity c of
               Disconnected detail spent \<Rightarrow>
                 (let (st, src) = (case spent of
                        None \<Rightarrow> (SessionReconnecting detail, StateDisconnected detail)
                      | Some attempts \<Rightarrow> (SessionUnreachable detail, Unreachable attempts detail))
                  in publish_relay_diagnostic env relay g (publish_state_for_relay env relay g src (set_slot_state relay g st en)))
             | _ \<Rightarrow> en)"

definition report_reconnected :: "engine_env \<Rightarrow> relay_url \<Rightarrow> round \<Rightarrow> engine \<Rightarrow> engine" where
  "report_reconnected env relay g en =
     (case engine_slot relay g en of
        None \<Rightarrow> en
      | Some sl \<Rightarrow>
          (case next_round en of
             (Inl e, en) \<Rightarrow> publish_owner_refusal relay (demand_for_slot env relay g en) (Some g) (round_error e) en
           | (Inr g', en) \<Rightarrow>
               let en = effect (EffCancel g) (modify_slot relay g (\<lambda>sl.
                     slot_advance g' (sl\<lparr>sl_reconnects := saturating_add (sl_reconnects sl) 1, sl_state := SessionOpen\<rparr>)) en);
                   en = (case sl_session sl of None \<Rightarrow> en | Some s \<Rightarrow> effect (EffListen relay g' s) en);
                   demand = demand_for_slot env relay g' en
               in case engine_slot relay g' en of
                    None \<Rightarrow> en
                  | Some sl \<Rightarrow>
                      let armed = (slot_uncovered sl demand \<noteq> []);
                          en = modify_slot relay g' (\<lambda>sl. sl\<lparr>sl_armed := armed\<rparr>) en;
                          en = (if armed then arm relay g' en else en)
                      in publish_relay_diagnostic env relay g' (publish_state_for_relay env relay g' StateConnecting en)))"

definition current_authority :: "engine_env \<Rightarrow> slot \<Rightarrow> authority" where
  "current_authority env sl =
     (case sl_session sl of
        None \<Rightarrow> Unauthenticated
      | Some s \<Rightarrow> (case established (ee_live env s) of None \<Rightarrow> Unauthenticated | Some k \<Rightarrow> As k))"

definition carried_event :: "engine_lib \<Rightarrow> engine_env \<Rightarrow> relay_url \<Rightarrow> round \<Rightarrow> subscription_id \<Rightarrow> event \<Rightarrow> engine \<Rightarrow> engine" where
  "carried_event L env relay g i e en =
     (case engine_slot relay g en of
        None \<Rightarrow> en
      | Some sl \<Rightarrow>
          (case bt_get (sl_installed sl) i of
             None \<Rightarrow> en
           | Some entry \<Rightarrow>
               (case admit_subscription_event (el_nostr L) relay (current_authority env sl) [(i, is_filters entry)] i e (ee_now env) of
                  Inl _ \<Rightarrow> en
                | Inr re \<Rightarrow>
                    let en = on_registry (fold (\<lambda>own. record_live_event (el_nostr L) own re) (slot_owners sl i)) en
                    in en\<lparr>en_cache := snd (cache_admit (el_nostr L) re (occ_observed_at (re_occurrence re)) (en_cache en))\<rparr>)))"

definition retain_coverage :: "relay_url \<Rightarrow> timestamp \<Rightarrow> observation_id \<Rightarrow> engine \<Rightarrow> engine" where
  "retain_coverage relay at own en =
     (case filter_for own relay (en_registry en) of
        None \<Rightarrow> en
      | Some f \<Rightarrow> en\<lparr>en_cache := retain_source_coverage \<lparr>sc_session = relay, sc_filter = f, sc_completed_at = at\<rparr> (en_cache en)\<rparr>)"

definition stored_complete :: "engine_lib \<Rightarrow> engine_env \<Rightarrow> relay_url \<Rightarrow> round \<Rightarrow> subscription_id \<Rightarrow> engine \<Rightarrow> engine" where
  "stored_complete L env relay g i en =
     (case engine_slot relay g en of
        None \<Rightarrow> en
      | Some sl \<Rightarrow>
          let proves = proves_completeness sl i;
              en = modify_slot relay g (\<lambda>sl. sl\<lparr>sl_settled := bt_insert i True (sl_settled sl)\<rparr>) en;
              en = (if proves = Proven
                    then publish_for_subscription relay g i (StoredEventsComplete (ee_now env))
                      (fold (retain_coverage relay (ee_now env))
                         (case bt_get (sl_installed sl) i of None \<Rightarrow> [] | Some entry \<Rightarrow> map fst (is_serves entry)) en)
                    else publish_shortfall L env relay g i proves en)
          in publish_relay_diagnostic env relay g en)"

definition report_carried :: "engine_lib \<Rightarrow> engine_env \<Rightarrow> relay_url \<Rightarrow> round \<Rightarrow> subscription_id \<Rightarrow> subscription_item \<Rightarrow> engine \<Rightarrow> engine" where
  "report_carried L env relay g i item en =
     (case engine_slot relay g en of
        None \<Rightarrow> en
      | Some _ \<Rightarrow>
          (case item of
             ItemEvent e \<Rightarrow> carried_event L env relay g i e en
           | EndOfStored \<Rightarrow> stored_complete L env relay g i en
           | ItemClosed reason \<Rightarrow>
               publish_relay_diagnostic env relay g (publish_for_subscription relay g i (StateRefused reason (ee_now env)) en)
           | ItemLost dropped \<Rightarrow> fact (FactInboundLoss relay (unat dropped)) en
           | ItemEnded _ \<Rightarrow> en))"

text \<open>One report; the flag says that a reconciliation pass follows.\<close>

fun engine_accept :: "engine_lib \<Rightarrow> engine_env \<Rightarrow> report \<Rightarrow> engine \<Rightarrow> bool \<times> engine" where
  "engine_accept L env (RepAcquired relay g lease) en = (False, report_acquired env relay g lease en)"
| "engine_accept L env (RepRefused relay g detail) en = report_refused env relay g detail en"
| "engine_accept L env (RepInstalled relay g v p opened attending closed) en =
     (False, report_installed L env relay g v p opened attending closed en)"
| "engine_accept L env (RepFlush relay g) en = (False, engine_flush L env relay g en)"
| "engine_accept L env (RepConnection relay g c) en = (False, report_connection env relay g c en)"
| "engine_accept L env (RepConnectionReplaced relay g) en = (False, report_reconnected env relay g en)"
| "engine_accept L env RepConnectionEnded en = (False, en)"
| "engine_accept L env (RepCarried relay g i item) en = (False, report_carried L env relay g i item en)"
| "engine_accept L env (RepConstraints relay g c) en = (False, modify_slot relay g (\<lambda>sl. sl\<lparr>sl_constraints := c\<rparr>) en)"

text \<open>One turn of the owner's loop: demand changed, or a report arrived.\<close>

datatype engine_input = DemandChanged | Reported report

fun engine_turn :: "engine_lib \<Rightarrow> engine_env \<Rightarrow> engine_input \<Rightarrow> engine \<Rightarrow> engine" where
  "engine_turn L env DemandChanged en = engine_reconcile L env en"
| "engine_turn L env (Reported rep) en =
     (case engine_accept L env rep en of (dirty, en) \<Rightarrow> if dirty then engine_reconcile L env en else en)"

end
