(* ===== verification/Observation_Runs.thy ===== *)
theory Observation_Runs
  imports Observation_Engine
begin

section \<open>Runs of the observation engine\<close>

text \<open>
  Reachable engines: turns of the owner's loop interleaved with what the application does to the
  registry. The two invariants are that every round names at most one slot, ever, and that the
  registry stays well formed.
\<close>

subsection \<open>What a step leaves alone\<close>

lemma log_frame [simp]:
  "en_slots (effect e en) = en_slots en" "en_rounds (effect e en) = en_rounds en"
  "en_registry (effect e en) = en_registry en" "en_cache (effect e en) = en_cache en"
  "en_plan_revisions (effect e en) = en_plan_revisions en" "en_facts (effect e en) = en_facts en"
  "en_slots (fact f en) = en_slots en" "en_rounds (fact f en) = en_rounds en"
  "en_registry (fact f en) = en_registry en" "en_cache (fact f en) = en_cache en"
  "en_plan_revisions (fact f en) = en_plan_revisions en" "en_effects (fact f en) = en_effects en"
  "en_slots (on_registry h en) = en_slots en" "en_rounds (on_registry h en) = en_rounds en"
  "en_cache (on_registry h en) = en_cache en" "en_plan_revisions (on_registry h en) = en_plan_revisions en"
  "en_effects (on_registry h en) = en_effects en" "en_facts (on_registry h en) = en_facts en"
  "en_registry (on_registry h en) = h (en_registry en)"
  by (simp_all add: effect_def fact_def on_registry_def)

lemma modify_slot_frame [simp]:
  "en_rounds (modify_slot r g f en) = en_rounds en" "en_registry (modify_slot r g f en) = en_registry en"
  "en_cache (modify_slot r g f en) = en_cache en" "en_plan_revisions (modify_slot r g f en) = en_plan_revisions en"
  "en_effects (modify_slot r g f en) = en_effects en" "en_facts (modify_slot r g f en) = en_facts en"
  "bt_wf (en_slots en) \<Longrightarrow> bt_wf (en_slots (modify_slot r g f en))"
  by (simp_all add: modify_slot_def bt_wf_insert split: option.split)

lemma slots_at_cong: "en_slots a = en_slots b \<Longrightarrow> slots_at r a = slots_at r b"
  by (simp add: slots_at_def)

lemma slots_at_frame [simp]:
  "slots_at r (effect e en) = slots_at r en" "slots_at r (fact f en) = slots_at r en"
  "slots_at r (on_registry h en) = slots_at r en"
  by (simp_all cong: slots_at_cong add: slots_at_def)

lemma slots_at_modify [simp]:
  "slots_at t (modify_slot r g f en) = (if t = r then update_first (\<lambda>sl. sl_generation sl = g) f (slots_at r en) else slots_at t en)"
  by (simp add: slots_at_def modify_slot_def split: option.split)

lemma publish_frame [simp]:
  "en_slots (publish_states r d g st en) = en_slots en" "en_rounds (publish_states r d g st en) = en_rounds en"
  "en_slots (publish_state_for_relay env r g st en) = en_slots en" "en_rounds (publish_state_for_relay env r g st en) = en_rounds en"
  "en_slots (publish_for_subscription r g i st en) = en_slots en" "en_rounds (publish_for_subscription r g i st en) = en_rounds en"
  "en_slots (publish_plan L r g d p en) = en_slots en" "en_rounds (publish_plan L r g d p en) = en_rounds en"
  "en_slots (publish_shortfall L env r g i c en) = en_slots en" "en_rounds (publish_shortfall L env r g i c en) = en_rounds en"
  "en_slots (publish_relay_diagnostic env r g en) = en_slots en" "en_rounds (publish_relay_diagnostic env r g en) = en_rounds en"
  "en_slots (publish_owner_refusal r d og t en) = en_slots en" "en_rounds (publish_owner_refusal r d og t en) = en_rounds en"
  by (simp_all add: publish_states_def publish_state_for_relay_def publish_for_subscription_def publish_plan_def
      publish_shortfall_def publish_relay_diagnostic_def publish_owner_refusal_def split: option.split)

lemma teardown_frame [simp]:
  "en_slots (teardown_slot sl en) = en_slots en" "en_rounds (teardown_slot sl en) = en_rounds en"
  by (simp_all add: teardown_slot_def release_lease_def Let_def split: option.split)

lemma fold_teardown_frame [simp]:
  "en_slots (fold teardown_slot b en) = en_slots en" "en_rounds (fold teardown_slot b en) = en_rounds en"
  by (induction b arbitrary: en) simp_all

subsection \<open>Rounds identify slots\<close>

definition gens_at :: "relay_url \<Rightarrow> engine \<Rightarrow> round list" where
  "gens_at r en = map sl_generation (slots_at r en)"

definition issued :: "round_issuer \<Rightarrow> round \<Rightarrow> bool" where
  "issued ri g \<longleftrightarrow> rd_authority g = ri_authority ri \<and> (case ri_next ri of None \<Rightarrow> True | Some n \<Rightarrow> rd_sequence g < n)"

definition slots_ok :: "engine \<Rightarrow> bool" where
  "slots_ok en \<longleftrightarrow> (\<forall>r. \<forall>sl\<in>set (slots_at r en). bt_wf (sl_installed sl))"

definition gen_inv :: "engine \<Rightarrow> bool" where
  "gen_inv en \<longleftrightarrow>
     bt_wf (en_slots en) \<and> slots_ok en \<and> (\<forall>r. distinct (gens_at r en)) \<and> (\<forall>r g. g \<in> set (gens_at r en) \<longrightarrow> issued (en_rounds en) g)
     \<and> (\<forall>r r' g. g \<in> set (gens_at r en) \<longrightarrow> g \<in> set (gens_at r' en) \<longrightarrow> r = r')"

text \<open>A step of the engine never brings back a round that was issued before and is gone.\<close>

definition advances_rounds :: "engine \<Rightarrow> engine \<Rightarrow> bool" where
  "advances_rounds en en' \<longleftrightarrow>
     (\<forall>g. issued (en_rounds en) g \<longrightarrow> issued (en_rounds en') g)
     \<and> (\<forall>r g. g \<in> set (gens_at r en') \<longrightarrow> g \<in> set (gens_at r en) \<or> \<not> issued (en_rounds en) g)"

lemma advances_rounds_refl [simp, intro]: "advances_rounds en en"
  by (simp add: advances_rounds_def)

lemma advances_rounds_trans: "advances_rounds a b \<Longrightarrow> advances_rounds b c \<Longrightarrow> advances_rounds a c"
  unfolding advances_rounds_def by blast

definition good_step :: "engine \<Rightarrow> engine \<Rightarrow> bool" where
  "good_step en en' \<longleftrightarrow> (gen_inv en \<longrightarrow> gen_inv en' \<and> advances_rounds en en')"

lemma good_step_refl [simp, intro]: "good_step en en"
  by (simp add: good_step_def)

lemma good_step_trans: "good_step a b \<Longrightarrow> good_step b c \<Longrightarrow> good_step a c"
  unfolding good_step_def by (blast intro: advances_rounds_trans)

lemma good_step_frame: "en_slots en' = en_slots en \<Longrightarrow> en_rounds en' = en_rounds en \<Longrightarrow> good_step en en'"
  by (simp add: good_step_def gen_inv_def slots_ok_def advances_rounds_def gens_at_def slots_at_def)

lemma good_step_then_frame: "good_step a b \<Longrightarrow> en_slots c = en_slots b \<Longrightarrow> en_rounds c = en_rounds b \<Longrightarrow> good_step a c"
  by (rule good_step_trans [OF _ good_step_frame])

lemma update_first_map:
  assumes "\<And>x. h (f x) = h x"
  shows "map h (update_first P f xs) = map h xs"
  using assms by (induction xs) auto

lemma update_first_all: "\<forall>x\<in>set xs. Q x \<Longrightarrow> (\<And>x. Q x \<Longrightarrow> Q (f x)) \<Longrightarrow> \<forall>x\<in>set (update_first P f xs). Q x"
  by (induction xs) auto

lemma slots_ok_modify:
  assumes "slots_ok en" "\<And>sl. bt_wf (sl_installed sl) \<Longrightarrow> bt_wf (sl_installed (f sl))"
  shows "slots_ok (modify_slot r g f en)"
proof -
  have "\<forall>sl\<in>set (update_first (\<lambda>sl. sl_generation sl = g) f (slots_at r en)). bt_wf (sl_installed sl)"
    by (rule update_first_all) (use assms in \<open>auto simp: slots_ok_def\<close>)
  with assms(1) show ?thesis by (auto simp: slots_ok_def)
qed

lemma good_step_modify:
  assumes "\<And>sl. sl_generation (f sl) = sl_generation sl"
    and "\<And>sl. bt_wf (sl_installed sl) \<Longrightarrow> bt_wf (sl_installed (f sl))"
  shows "good_step en (modify_slot r g f en)"
proof -
  have "gens_at t (modify_slot r g f en) = gens_at t en" for t
    by (simp add: gens_at_def update_first_map [where h = sl_generation and f = f, OF assms(1)])
  then show ?thesis using assms(2) by (auto simp: good_step_def gen_inv_def advances_rounds_def intro: slots_ok_modify)
qed

lemma next_round_issued:
  assumes "next_round en = (res, en')"
  shows "en_slots en' = en_slots en"
    "issued (en_rounds en) g \<Longrightarrow> issued (en_rounds en') g"
    "res = Inr g' \<Longrightarrow> \<not> issued (en_rounds en) g' \<and> issued (en_rounds en') g'"
  using assms checked_next_nonzero
  by (auto simp: next_round_def round_allocate_def issued_def split: option.splits prod.splits)
    (meson less_trans)+

lemma good_step_round:
  assumes "next_round en = (res, en')"
  shows "good_step en en'"
  using next_round_issued [OF assms]
  by (auto simp: good_step_def gen_inv_def slots_ok_def advances_rounds_def gens_at_def slots_at_def)

lemma update_first_fresh:
  assumes "distinct (map h xs)" "g' \<notin> set (map h xs)" "\<And>x. h (f x) = g'"
  shows "distinct (map h (update_first P f xs))" "set (map h (update_first P f xs)) \<subseteq> insert g' (set (map h xs))"
  using assms by (induction xs) auto

lemma remove_first_map:
  assumes "distinct (map h xs)"
  shows "map h (remove_first (\<lambda>x. h x = g) xs) = List.filter (\<lambda>k. k \<noteq> g) (map h xs)"
  using assms by (induction xs) (auto intro!: filter_True [symmetric])

text \<open>A fresh round may name a slot; slots may disappear. Those are all the ways the rounds change.\<close>

lemma good_step_gens:
  assumes round: "next_round en = (res, en1)"
    and wf: "bt_wf (en_slots en) \<Longrightarrow> bt_wf (en_slots en')"
    and ok: "slots_ok en \<Longrightarrow> slots_ok en'"
    and rounds: "en_rounds en' = en_rounds en1"
    and other: "\<And>t. t \<noteq> r \<Longrightarrow> gens_at t en' = gens_at t en"
    and here: "gen_inv en \<Longrightarrow> distinct (gens_at r en') \<and> (\<forall>g\<in>set (gens_at r en'). g \<in> set (gens_at r en) \<or> res = Inr g)"
  shows "good_step en en'"
proof -
  note iss = next_round_issued [OF round]
  have "gen_inv en' \<and> advances_rounds en en'" if inv: "gen_inv en"
  proof -
    have was: "g \<in> set (gens_at t en) \<or> t = r \<and> res = Inr g" if "g \<in> set (gens_at t en')" for g t
      using that here [OF inv] other [of t] by (cases "t = r") auto
    have old: "issued (en_rounds en) g" if "g \<in> set (gens_at t en)" for g t
      using inv that unfolding gen_inv_def by blast
    have "distinct (gens_at t en')" for t
      using inv here [OF inv] other [of t] unfolding gen_inv_def by (cases "t = r") auto
    moreover have "issued (en_rounds en') g" if "g \<in> set (gens_at t en')" for g t
      using was [OF that] old iss(2,3) rounds by auto
    moreover have "t = t'" if "g \<in> set (gens_at t en')" "g \<in> set (gens_at t' en')" for g t t'
      using was [OF that(1)] was [OF that(2)] old iss(3) inv unfolding gen_inv_def by blast
    moreover have "g \<in> set (gens_at t en) \<or> \<not> issued (en_rounds en) g" if "g \<in> set (gens_at t en')" for g t
      using was [OF that] iss(3) by blast
    ultimately show ?thesis
      using inv wf ok iss(2) rounds unfolding gen_inv_def advances_rounds_def by simp
  qed
  then show ?thesis by (simp add: good_step_def)
qed

lemma good_step_relabel:
  assumes "next_round en = (Inr g', en1)" "\<And>sl. sl_generation (f sl) = g'"
    and "\<And>sl. bt_wf (sl_installed sl) \<Longrightarrow> bt_wf (sl_installed (f sl))"
  shows "good_step en (modify_slot r g f en1)"
proof (rule good_step_gens [OF assms(1), where r = r])
  have slots: "slots_at t en1 = slots_at t en" for t
    by (rule slots_at_cong) (rule next_round_issued(1) [OF assms(1)])
  show "bt_wf (en_slots en) \<Longrightarrow> bt_wf (en_slots (modify_slot r g f en1))"
    using next_round_issued(1) [OF assms(1)] by simp
  show "slots_ok en \<Longrightarrow> slots_ok (modify_slot r g f en1)"
    using slots assms(3) by (auto simp: slots_ok_def [of en] slots_ok_def [of en1] intro!: slots_ok_modify)
  show "en_rounds (modify_slot r g f en1) = en_rounds en1" by simp
  show "gens_at t (modify_slot r g f en1) = gens_at t en" if "t \<noteq> r" for t
    using that by (simp add: gens_at_def slots)
  assume inv: "gen_inv en"
  have "distinct (map sl_generation (slots_at r en))" "g' \<notin> set (map sl_generation (slots_at r en))"
    using inv next_round_issued(3) [OF assms(1)] unfolding gen_inv_def gens_at_def by blast+
  from update_first_fresh [where h = sl_generation and f = f, OF this assms(2), of "\<lambda>sl. sl_generation sl = g"]
  show "distinct (gens_at r (modify_slot r g f en1)) \<and>
      (\<forall>ga\<in>set (gens_at r (modify_slot r g f en1)). ga \<in> set (gens_at r en) \<or> Inr g' = Inr ga)"
    by (auto simp: gens_at_def slots)
qed

lemma good_step_drop:
  assumes "bt_wf (en_slots en) \<Longrightarrow> bt_wf (en_slots en')" "en_rounds en' = en_rounds en"
    and "\<And>t. set (slots_at t en') \<subseteq> set (slots_at t en)"
    and "\<And>t. t \<noteq> r \<Longrightarrow> gens_at t en' = gens_at t en"
    and "gen_inv en \<Longrightarrow> distinct (gens_at r en') \<and> set (gens_at r en') \<subseteq> set (gens_at r en)"
  shows "good_step en en'"
proof -
  have "gen_inv en' \<and> advances_rounds en en'" if inv: "gen_inv en"
  proof -
    have sub: "distinct (gens_at t en') \<and> set (gens_at t en') \<subseteq> set (gens_at t en)" for t
      using inv assms(4) [of t] assms(5) [OF inv] by (cases "t = r") (auto simp: gen_inv_def)
    then have "g \<in> set (gens_at t en)" if "g \<in> set (gens_at t en')" for g t using that by blast
    moreover have "slots_ok en'" using inv assms(3) unfolding gen_inv_def slots_ok_def by blast
    ultimately show ?thesis using inv sub assms(1,2) unfolding gen_inv_def advances_rounds_def by simp blast
  qed
  then show ?thesis by (simp add: good_step_def)
qed

lemma good_step_fold:
  assumes "\<And>x en. x \<in> set xs \<Longrightarrow> good_step en (h x en)"
  shows "good_step en (fold h xs en)"
  using assms by (induction xs arbitrary: en) (auto intro: good_step_trans)

subsection \<open>Every operation is such a step\<close>

lemma next_plan_revision_frame:
  assumes "next_plan_revision en = (res, en')"
  shows "en_slots en' = en_slots en" "en_rounds en' = en_rounds en" "en_registry en' = en_registry en"
    "en_effects en' = en_effects en" "en_facts en' = en_facts en" "en_cache en' = en_cache en"
  using assms by (auto simp: next_plan_revision_def split: prod.splits)

lemma good_step_release_relay: "good_step en (release_relay r en)"
  by (rule good_step_drop [where r = r]) (auto simp: release_relay_def bt_wf_remove gens_at_def slots_at_def split: option.split)

lemma set_remove_first: "set (remove_first P xs) \<subseteq> set xs"
  by (induction xs) auto

lemma good_step_release_slot: "good_step en (release_slot r g en)"
proof (cases "bt_get (en_slots en) r")
  case (Some b)
  show ?thesis
  proof (rule good_step_drop [where r = r])
    show "bt_wf (en_slots en) \<Longrightarrow> bt_wf (en_slots (release_slot r g en))"
      by (auto simp: release_slot_def Let_def bt_wf_remove bt_wf_insert split: option.split)
    show "en_rounds (release_slot r g en) = en_rounds en"
      by (auto simp: release_slot_def Let_def split: option.split)
    show "set (slots_at t (release_slot r g en)) \<subseteq> set (slots_at t en)" for t
      using set_remove_first [of "\<lambda>sl. sl_generation sl = g" b] Some
      by (auto simp: release_slot_def Let_def slots_at_def split: option.split)
    show "gens_at t (release_slot r g en) = gens_at t en" if "t \<noteq> r" for t
      using that by (auto simp: release_slot_def Let_def gens_at_def slots_at_def split: option.split)
    assume "gen_inv en"
    then have "distinct (map sl_generation b)"
      using Some unfolding gen_inv_def gens_at_def slots_at_def by (metis option.simps(5))
    note rest = remove_first_map [where h = sl_generation, OF this, of g]
    have "gens_at r (release_slot r g en) = List.filter (\<lambda>k. k \<noteq> g) (map sl_generation b) \<or>
        gens_at r (release_slot r g en) = map sl_generation b"
      using Some rest by (auto simp: release_slot_def Let_def gens_at_def slots_at_def split: option.split)
    with \<open>distinct (map sl_generation b)\<close> Some
    show "distinct (gens_at r (release_slot r g en)) \<and> set (gens_at r (release_slot r g en)) \<subseteq> set (gens_at r en)"
      by (auto simp: gens_at_def [of r en] slots_at_def)
  qed
qed (simp add: release_slot_def)

lemma wf_installed_from_entries [simp]: "bt_wf (installed_from_entries es)"
proof -
  have "bt_wf m \<Longrightarrow> bt_wf (fold (\<lambda>(k, v). bt_insert k v) es m)" for m
    by (induction es arbitrary: m) (auto simp: bt_wf_insert)
  then show ?thesis by (simp add: installed_from_entries_def)
qed

lemma good_step_record_installed: "good_step en (record_installed r g p opened closed en)"
  unfolding record_installed_def by (rule good_step_modify) (simp_all add: Let_def accepted_def wf_installed_from_entries)

lemma good_step_execute: "good_step en (execute_plan L env r g d p en)"
proof (cases "engine_slot r g en")
  case (Some sl)
  define en1 where "en1 = modify_slot r g (\<lambda>sl. sl\<lparr>sl_completeness :=
      fold (\<lambda>(i, a). bt_insert i (as_completeness a)) (spl_attribution p) (sl_completeness sl)\<rparr>) en"
  have one: "good_step en en1" unfolding en1_def by (rule good_step_modify) simp_all
  have two: "good_step en (record_installed r g p [] [] en1)"
    by (rule good_step_trans [OF one good_step_record_installed])
  from Some show ?thesis
    by (auto simp: execute_plan_def Let_def en1_def [symmetric] intro: good_step_then_frame [OF one] good_step_then_frame [OF two])
qed (simp add: execute_plan_def)

lemma good_step_flush: "good_step en (engine_flush L env r g en)"
proof (cases "engine_slot r g en")
  case (Some sl)
  define d where "d = demand_for_slot env r g en"
  define en1 where "en1 = modify_slot r g (\<lambda>sl. sl\<lparr>sl_armed := False\<rparr>) en"
  have one: "good_step en en1" unfolding en1_def by (rule good_step_modify) simp_all
  have two: "good_step en (modify_slot r g (\<lambda>sl. sl\<lparr>sl_armed := True\<rparr>) en1)"
    by (rule good_step_trans [OF one good_step_modify]) simp_all
  obtain res en2 where rev: "next_plan_revision en1 = (res, en2)" by (cases "next_plan_revision en1")
  have three: "good_step en en2"
    by (rule good_step_then_frame [OF one]) (simp_all add: next_plan_revision_frame [OF rev])
  have four: "good_step en (modify_slot r g (\<lambda>sl. sl\<lparr>sl_revision := Some v\<rparr>) en2)" for v
    by (rule good_step_trans [OF three good_step_modify]) simp_all
  from Some show ?thesis
    by (auto simp: engine_flush_def Let_def d_def [symmetric] en1_def [symmetric] rev arm_def
        intro: one good_step_then_frame [OF two] good_step_then_frame [OF three] good_step_then_frame [OF four]
          good_step_trans [OF four good_step_execute] split: option.split sum.split)
qed (simp add: engine_flush_def)

lemma good_step_attach: "good_step en (engine_attach L env r g d en)"
proof -
  have one: "good_step en (modify_slot r g (\<lambda>sl. sl\<lparr>sl_installed := installed_from_entries e\<rparr>) en)" for e
    by (rule good_step_modify) simp_all
  show ?thesis
    by (auto simp: engine_attach_def Let_def intro: good_step_then_frame [OF one] split: option.split prod.split)
qed

lemma good_step_open_slot:
  assumes "open_slot_for env r a en = (res, en')"
  shows "good_step en en'"
proof (cases "slot_index_for env r a en")
  case None
  obtain nr en1 where round: "next_round en = (nr, en1)" by (cases "next_round en")
  have slots: "slots_at t en1 = slots_at t en" for t
    by (rule slots_at_cong) (rule next_round_issued(1) [OF round])
  show ?thesis
  proof (cases nr)
    case (Inl e)
    with assms None round show ?thesis by (auto simp: open_slot_for_def intro: good_step_round)
  next
    case (Inr g)
    with assms None round have en': "en' = en1\<lparr>en_slots := bt_insert r (slots_at r en1 @ [slot_new g a]) (en_slots en1)\<rparr>"
      by (auto simp: open_slot_for_def)
    have gens: "gens_at t en' = gens_at t en @ (if t = r then [g] else [])" for t
      using slots next_round_issued(1) [OF round]
      by (auto simp: en' gens_at_def slots_at_def slot_new_def split: option.split)
    show ?thesis
    proof (rule good_step_gens [OF round, where r = r])
      show "bt_wf (en_slots en) \<Longrightarrow> bt_wf (en_slots en')"
        using next_round_issued(1) [OF round] by (simp add: en' bt_wf_insert)
      show "slots_ok en \<Longrightarrow> slots_ok en'"
        using slots next_round_issued(1) [OF round]
        by (auto simp: en' slots_ok_def slots_at_def slot_new_def split: option.splits if_splits)
      show "en_rounds en' = en_rounds en1" by (simp add: en')
      assume "gen_inv en"
      with next_round_issued(3) [OF round] Inr have "g \<notin> set (gens_at r en)" "distinct (gens_at r en)"
        unfolding gen_inv_def by blast+
      then show "distinct (gens_at r en') \<and> (\<forall>ga\<in>set (gens_at r en'). ga \<in> set (gens_at r en) \<or> nr = Inr ga)"
        by (simp add: gens Inr)
    qed (simp add: gens)
  qed
qed (use assms in \<open>simp add: open_slot_for_def\<close>)

lemma good_step_establish: "good_step en (establish env r a d en)"
proof -
  obtain res en1 where op: "open_slot_for env r a en = (res, en1)" by (cases "open_slot_for env r a en")
  note one = good_step_open_slot [OF op]
  have two: "good_step en (modify_slot r g (\<lambda>sl. sl\<lparr>sl_busy := True, sl_state := SessionConnecting\<rparr>) en1)" for g
    by (rule good_step_trans [OF one good_step_modify]) simp_all
  show ?thesis
    by (auto simp: establish_def op intro: one good_step_then_frame [OF one] good_step_then_frame [OF two] split: sum.split option.split)
qed

lemma good_step_reconcile_slot: "good_step en (reconcile_slot L env r g en)"
proof -
  define d where "d = demand_for_slot env r g en"
  have one: "good_step en (engine_attach L env r g d en)" by (rule good_step_attach)
  have two: "good_step en (modify_slot r g (\<lambda>sl. sl\<lparr>sl_armed := True\<rparr>) (engine_attach L env r g d en))"
    by (rule good_step_trans [OF one good_step_modify]) simp_all
  show ?thesis
    by (auto simp: reconcile_slot_def Let_def d_def [symmetric] arm_def intro: one good_step_release_slot
        good_step_trans [OF one good_step_flush] good_step_then_frame [OF two] split: option.split)
qed

lemma good_step_reconcile: "good_step en (engine_reconcile L env en)"
proof -
  have "good_step en (reconcile_relay L env r items en)" for r items en
    unfolding reconcile_relay_def Let_def
    by (intro good_step_trans [OF good_step_fold good_step_fold]) (auto intro: good_step_establish good_step_reconcile_slot)
  then show ?thesis
    unfolding engine_reconcile_def Let_def
    by (intro good_step_trans [OF good_step_fold good_step_fold]) (auto intro: good_step_release_relay)
qed

lemma good_step_acquired: "good_step en (report_acquired env r g l en)"
proof -
  have one: "good_step en (modify_slot r g (\<lambda>sl. sl\<lparr>sl_lease := Some l, sl_session := Some l, sl_busy := False,
      sl_state := SessionOpen, sl_armed := True\<rparr>) en)"
    by (rule good_step_modify) simp_all
  show ?thesis
    by (auto simp: report_acquired_def Let_def arm_def release_lease_def intro: good_step_frame good_step_then_frame [OF one]
        split: option.split)
qed

lemma slot_advance_generation [simp]: "sl_generation (slot_advance g sl) = g" "sl_installed (slot_advance g sl) = []"
  by (simp_all add: slot_advance_def)

lemma good_step_refused: "good_step en (snd (report_refused env r g detail en))"
proof -
  obtain res en1 where round: "next_round en = (res, en1)" by (cases "next_round en")
  note one = good_step_round [OF round]
  show ?thesis
  proof (cases res)
    case (Inl e)
    with round show ?thesis by (auto simp: report_refused_def intro: good_step_then_frame [OF one])
  next
    case (Inr g')
    have two: "good_step en (modify_slot r g (\<lambda>sl. slot_advance g' (f sl)) en1)" for f
      using round Inr by (intro good_step_relabel) simp_all
    show ?thesis
      using round Inr
      by (auto simp: report_refused_def Let_def release_lease_def intro: one good_step_then_frame [OF two] split: option.split)
  qed
qed

lemma drop_handles_frame [simp]:
  "en_slots (drop_handles c a en) = en_slots en" "en_rounds (drop_handles c a en) = en_rounds en"
  "en_registry (drop_handles c a en) = en_registry en" "en_cache (drop_handles c a en) = en_cache en"
  "en_facts (drop_handles c a en) = en_facts en"
  unfolding drop_handles_def by (induction c arbitrary: en) (auto split: option.split)

lemma good_step_installed: "good_step en (report_installed L env r g v p opened attending closed en)"
proof -
  have one: "good_step en (drop_handles closed h (modify_slot r g (\<lambda>sl. sl\<lparr>sl_attending := m\<rparr>) en))" for h m
    by (rule good_step_then_frame [OF good_step_modify]) simp_all
  have two: "good_step en (record_installed r g p opened closed (drop_handles closed h (modify_slot r g (\<lambda>sl. sl\<lparr>sl_attending := m\<rparr>) en)))" for h m
    by (rule good_step_trans [OF one good_step_record_installed])
  show ?thesis
    by (auto simp: report_installed_def Let_def intro: good_step_then_frame [OF two] split: option.split)
qed

lemma good_step_connection: "good_step en (report_connection env r g c en)"
proof -
  have one: "good_step en (set_slot_state r g st en')" if "good_step en en'" for st en'
    unfolding set_slot_state_def by (rule good_step_trans [OF that good_step_modify]) simp_all
  have two: "good_step en (publish_relay_diagnostic env r g (publish_state_for_relay env r g st en))" for st
    by (rule good_step_frame) simp_all
  show ?thesis
    by (auto simp: report_connection_def Let_def intro: one two good_step_then_frame [OF one [OF two]]
        good_step_then_frame [OF one [OF good_step_refl]]
        split: option.split authority.split progress.split connectivity.split)
qed

lemma good_step_reconnected: "good_step en (report_reconnected env r g en)"
proof -
  obtain res en1 where round: "next_round en = (res, en1)" by (cases "next_round en")
  note one = good_step_round [OF round]
  show ?thesis
  proof (cases res)
    case (Inl e)
    with round show ?thesis by (auto simp: report_reconnected_def intro: good_step_then_frame [OF one] split: option.split)
  next
    case (Inr g')
    have two: "good_step en (modify_slot r g (\<lambda>sl. slot_advance g' (f sl)) en1)" for f
      using round Inr by (intro good_step_relabel) simp_all
    have three: "good_step en (effect e (modify_slot r g (\<lambda>sl. slot_advance g' (f sl)) en1))" for f e
      by (rule good_step_then_frame [OF two]) simp_all
    have four: "good_step en (effect e' (effect e (modify_slot r g (\<lambda>sl. slot_advance g' (f sl)) en1)))" for f e e'
      by (rule good_step_then_frame [OF two]) simp_all
    have armed: "good_step en (modify_slot r g' (\<lambda>sl. sl\<lparr>sl_armed := b\<rparr>) en')" if "good_step en en'" for b en'
      by (rule good_step_trans [OF that good_step_modify]) simp_all
    show ?thesis
      using round Inr
      by (auto simp: report_reconnected_def Let_def arm_def intro: two three four good_step_then_frame [OF armed [OF three]]
          good_step_then_frame [OF armed [OF four]] split: option.split)
  qed
qed

lemma retain_coverage_frame [simp]:
  "en_slots (fold (retain_coverage r t) os en) = en_slots en" "en_rounds (fold (retain_coverage r t) os en) = en_rounds en"
  "en_registry (fold (retain_coverage r t) os en) = en_registry en"
  by (induction os arbitrary: en) (auto simp: retain_coverage_def split: option.split)

lemma good_step_carried: "good_step en (report_carried L env r g i item en)"
proof -
  have one: "good_step en (modify_slot r g (\<lambda>sl. sl\<lparr>sl_settled := bt_insert i True (sl_settled sl)\<rparr>) en)"
    by (rule good_step_modify) simp_all
  have "good_step en (stored_complete L env r g i en)"
    by (auto simp: stored_complete_def Let_def intro: good_step_then_frame [OF one] split: option.split)
  moreover have "good_step en (carried_event L env r g i e en)" for e
    by (auto simp: carried_event_def Let_def intro!: good_step_frame split: option.split sum.split)
  ultimately show ?thesis
    by (auto simp: report_carried_def intro: good_step_frame split: option.split subscription_item.split)
qed

lemma good_step_accept: "good_step en (snd (engine_accept L env rep en))"
  by (cases rep) (auto intro: good_step_acquired good_step_refused good_step_installed good_step_flush good_step_connection
      good_step_reconnected good_step_carried good_step_modify)

lemma good_step_turn: "good_step en (engine_turn L env x en)"
proof (cases x)
  case (Reported rep)
  then show ?thesis
    using good_step_accept [of en L env rep]
    by (auto split: prod.split intro: good_step_trans [OF _ good_step_reconcile])
qed (simp add: good_step_reconcile)

subsection \<open>Runs\<close>

definition engine_start :: "registry \<Rightarrow> memory_event_cache \<Rightarrow> round_issuer \<Rightarrow> plan_revision_issuer \<Rightarrow> engine" where
  "engine_start r c ri pi = \<lparr>en_registry = r, en_cache = c, en_slots = [], en_rounds = ri, en_plan_revisions = pi, en_effects = [], en_facts = []\<rparr>"

text \<open>When its inbox or the registry closes, the owner cancels the work of every slot and ends.\<close>

definition engine_stop :: "engine \<Rightarrow> engine" where
  "engine_stop en =
     fold (\<lambda>sl. effect (EffCancel (sl_generation sl))) (concat (bt_values (en_slots en))) (en\<lparr>en_slots := []\<rparr>)"

text \<open>The owner takes a turn, or the application changes the registry.\<close>

inductive engine_step :: "engine_lib \<Rightarrow> engine \<Rightarrow> engine \<Rightarrow> bool" for L where
  turn: "engine_step L en (engine_turn L env x en)"
| application: "registry_allowed op (en_registry en) \<Longrightarrow> engine_step L en (on_registry (registry_perform (el_nostr L) op) en)"

inductive_cases engine_stepE: "engine_step L en en'"

abbreviation engine_runs :: "engine_lib \<Rightarrow> engine \<Rightarrow> engine \<Rightarrow> bool" where
  "engine_runs L \<equiv> (engine_step L)\<^sup>*\<^sup>*"

definition engine_reach :: "engine_lib \<Rightarrow> engine \<Rightarrow> bool" where
  "engine_reach L en = (\<exists>r c ri pi. registry_reach (el_nostr L) r \<and> engine_runs L (engine_start r c ri pi) en)"

lemma engine_runs_good: "engine_runs L en en' \<Longrightarrow> good_step en en'"
proof (induction rule: rtranclp_induct)
  case (step b c)
  from step.hyps(2) have "good_step b c"
    by (cases rule: engine_stepE) (auto intro: good_step_turn good_step_frame)
  then show ?case by (rule good_step_trans [OF step.IH])
qed simp

lemma engine_reach_gen_inv: "engine_reach L en \<Longrightarrow> gen_inv en"
proof -
  have "gen_inv (engine_start r c ri pi)" for r c ri pi
    by (simp add: gen_inv_def slots_ok_def engine_start_def gens_at_def slots_at_def)
  then show "engine_reach L en \<Longrightarrow> gen_inv en"
    using engine_runs_good unfolding engine_reach_def good_step_def by blast
qed

lemma engine_slot_None_iff: "engine_slot r g en = None \<longleftrightarrow> g \<notin> set (gens_at r en)"
  by (auto simp: engine_slot_def gens_at_def find_None_iff)

lemma engine_slot_SomeD:
  assumes "engine_slot r g en = Some sl"
  shows "sl \<in> set (slots_at r en)" "sl_generation sl = g"
  using assms unfolding engine_slot_def by (auto simp: find_Some_iff)

lemma gone_round_stays_gone:
  assumes "gen_inv en" "good_step en en'" "good_step en' en''" "g \<in> set (gens_at r en)" "g \<notin> set (gens_at r en')"
  shows "g \<notin> set (gens_at t en'')"
proof
  assume "g \<in> set (gens_at t en'')"
  moreover from assms have one: "gen_inv en'" "advances_rounds en en'" "advances_rounds en' en''"
    unfolding good_step_def by auto
  moreover have now: "issued (en_rounds en) g" using assms(1,4) unfolding gen_inv_def by blast
  ultimately have "g \<in> set (gens_at t en')" unfolding advances_rounds_def by blast
  with one(2) now have "g \<in> set (gens_at t en)" unfolding advances_rounds_def by blast
  with assms(1,4) have "t = r" unfolding gen_inv_def by blast
  with \<open>g \<in> set (gens_at t en')\<close> assms(5) show False by simp
qed

subsection \<open>Reports of superseded work\<close>

fun report_round :: "report \<Rightarrow> (relay_url \<times> round) option" where
  "report_round (RepAcquired r g _) = Some (r, g)"
| "report_round (RepRefused r g _) = Some (r, g)"
| "report_round (RepInstalled r g _ _ _ _ _) = Some (r, g)"
| "report_round (RepFlush r g) = Some (r, g)"
| "report_round (RepConnection r g _) = Some (r, g)"
| "report_round (RepConnectionReplaced r g) = Some (r, g)"
| "report_round RepConnectionEnded = None"
| "report_round (RepCarried r g _ _) = Some (r, g)"
| "report_round (RepConstraints r g _) = Some (r, g)"

fun report_lease :: "report \<Rightarrow> engine_effect list" where
  "report_lease (RepAcquired r g lease) = [EffRelease lease g]"
| "report_lease _ = []"

lemma bt_insert_same: "bt_wf m \<Longrightarrow> bt_get m k = Some v \<Longrightarrow> bt_insert k v m = m"
  by (rule bt_eqI) (auto simp: bt_wf_insert)

lemma update_first_none: "\<forall>x\<in>set xs. \<not> P x \<Longrightarrow> update_first P f xs = xs"
  by (induction xs) auto

lemma modify_slot_absent:
  assumes "bt_wf (en_slots en)" "engine_slot r g en = None"
  shows "modify_slot r g f en = en"
proof (cases "bt_get (en_slots en) r")
  case (Some b)
  with assms(2) have "\<forall>sl\<in>set b. sl_generation sl \<noteq> g" by (auto simp: engine_slot_def slots_at_def find_None_iff)
  with assms(1) Some show ?thesis by (simp add: modify_slot_def update_first_none bt_insert_same)
qed (simp add: modify_slot_def)

lemma report_absent:
  assumes "bt_wf (en_slots en)" "report_round rep = Some (r, g)" "engine_slot r g en = None"
    and "engine_accept L env rep en = (dirty, en')"
  shows "\<not> dirty" "en' = en\<lparr>en_effects := en_effects en @ report_lease rep, en_rounds := en_rounds en'\<rparr>"
proof -
  have slot: "engine_slot r g en1 = None" if "next_round en = (res, en1)" for res en1
    using assms(3) slots_at_cong [OF next_round_issued(1) [OF that]] by (simp add: engine_slot_def)
  have rounds: "en1 = en\<lparr>en_rounds := en_rounds en1\<rparr>" if "next_round en = (res, en1)" for res en1
    using that by (auto simp: next_round_def split: prod.splits)
  have "\<not> dirty \<and> en' = en\<lparr>en_effects := en_effects en @ report_lease rep, en_rounds := en_rounds en'\<rparr>"
  proof (cases rep)
    case (RepRefused r' g' detail)
    with assms(2) have [simp]: "r' = r" "g' = g" by auto
    obtain res en1 where round: "next_round en = (res, en1)" by (cases "next_round en")
    from RepRefused assms(4) round slot [OF round] have "\<not> dirty" "en' = en1"
      by (auto simp: report_refused_def demand_for_slot_def publish_owner_refusal_def on_registry_def split: sum.splits)
    with rounds [OF round] RepRefused show ?thesis by simp
  next
    case (RepAcquired r' g' l)
    with assms show ?thesis by (auto simp: report_acquired_def release_lease_def effect_def)
  next
    case (RepFlush r' g')
    with assms show ?thesis by (auto simp: engine_flush_def Let_def)
  qed (use assms modify_slot_absent in \<open>auto simp: report_installed_def report_connection_def report_reconnected_def report_carried_def\<close>)
  then show "\<not> dirty" "en' = en\<lparr>en_effects := en_effects en @ report_lease rep, en_rounds := en_rounds en'\<rparr>" by auto
qed

text \<open>
  (C23) A report carries the round of the slot it was issued for. Once that slot is gone, in every
  continuation of the run and whatever relay the report names, the report changes no slot, no
  observation, no cached event and no published fact, asks for no reconciliation, and its only
  effect is that a lease it brought is released.
\<close>

theorem superseded_reports_ignored:
  assumes "engine_reach L en" "engine_slot relay g en = Some sl" "engine_runs L en en'" "engine_slot relay g en' = None"
    and "engine_runs L en' en''" "report_round rep = Some (r, g)" "engine_accept L env rep en'' = (dirty, result)"
  shows "\<not> dirty \<and> en_slots result = en_slots en'' \<and> en_registry result = en_registry en'' \<and> en_cache result = en_cache en''
     \<and> en_facts result = en_facts en'' \<and> en_effects result = en_effects en'' @ report_lease rep"
proof -
  have inv: "gen_inv en" by (rule engine_reach_gen_inv [OF assms(1)])
  note steps = engine_runs_good [OF assms(3)] engine_runs_good [OF assms(5)]
  have "g \<notin> set (gens_at r en'')"
    using gone_round_stays_gone [OF inv steps] assms(2,4) engine_slot_None_iff by (metis option.distinct(1))
  then have "engine_slot r g en'' = None" by (simp add: engine_slot_None_iff)
  moreover have "bt_wf (en_slots en'')" using inv steps unfolding good_step_def gen_inv_def by blast
  ultimately have "\<not> dirty" "result = en''\<lparr>en_effects := en_effects en'' @ report_lease rep, en_rounds := en_rounds result\<rparr>"
    using report_absent assms(6,7) by blast+
  then obtain ri where "\<not> dirty" "result = en''\<lparr>en_effects := en_effects en'' @ report_lease rep, en_rounds := ri\<rparr>"
    by blast
  then show ?thesis by simp
qed

end
