(* ===== verification/Observation_Properties.thy ===== *)
theory Observation_Properties
  imports Observation_Runs Subscription_Properties
begin

section \<open>What the observation engine guarantees\<close>

text \<open>
  Plans that reach the wire, the baseline they leave behind, and what an incoming event may touch;
  and three behaviours in which the engine falls short of its own comments. The engine is composed
  with the planners of \<open>fava-subscriptions-standard\<close> here.
\<close>

subsection \<open>Plans\<close>

lemma effects_frame [simp]:
  "en_effects (publish_states r d g st en) = en_effects en"
  "en_effects (publish_state_for_relay env r g st en) = en_effects en"
  "en_effects (publish_plan L r g d p en) = en_effects en"
  "en_effects (publish_relay_diagnostic env r g en) = en_effects en"
  "en_effects (publish_owner_refusal r d og t en) = en_effects en"
  "en_effects (record_installed r g q os cs en) = en_effects en"
  by (simp_all add: publish_states_def publish_state_for_relay_def publish_plan_def publish_relay_diagnostic_def
      publish_owner_refusal_def record_installed_def split: option.split)

lemma effect_log: "en_effects (effect e en) = en_effects en @ [e]"
  by (simp add: effect_def)

lemma engine_slot_modify:
  assumes "\<And>sl. sl_generation (f sl) = sl_generation sl" "engine_slot r g en = Some sl"
  shows "engine_slot r g (modify_slot r g f en) = Some (f sl)"
proof -
  have "List.find (\<lambda>sl. sl_generation sl = g) xs = Some sl \<Longrightarrow>
      List.find (\<lambda>sl. sl_generation sl = g) (update_first (\<lambda>sl. sl_generation sl = g) f xs) = Some (f sl)" for xs
    using assms(1) by (induction xs) auto
  with assms(2) show ?thesis by (simp add: engine_slot_def)
qed

lemma execute_effects:
  assumes "EffInstall r' g' p' \<in> set (drop n (en_effects (execute_plan L env r g d p en)))" "n = length (en_effects en)"
  shows "r' = r \<and> g' = g \<and> p' = p"
  using assms by (auto simp: execute_plan_def Let_def effect_log split: option.splits if_splits)

lemma flush_effects:
  assumes "EffInstall r' g' p \<in> set (drop n (en_effects (engine_flush L env r g en)))" "n = length (en_effects en)"
  obtains sl v where "r' = r" "g' = g" "engine_slot r g en = Some sl" "sl_session sl \<noteq> None"
    "checked_plan L r (demand_for_slot env r g en) (sl_constraints sl) (sl_installed sl) v = Inr p"
proof -
  from assms obtain sl where sl: "engine_slot r g en = Some sl"
    by (cases "engine_slot r g en") (auto simp: engine_flush_def)
  define en1 where "en1 = modify_slot r g (\<lambda>sl. sl\<lparr>sl_armed := False\<rparr>) en"
  obtain res en2 where rev: "next_plan_revision en1 = (res, en2)" by (cases "next_plan_revision en1")
  have len: "en_effects en2 = en_effects en"
    using next_plan_revision_frame(4) [OF rev] by (simp add: en1_def)
  from assms sl obtain v where v: "res = Inr v" "sl_session sl \<noteq> None"
    and planned: "EffInstall r' g' p \<in> set (drop n (en_effects (case checked_plan L r (demand_for_slot env r g en)
        (sl_constraints sl) (sl_installed sl) v of
         Inr planned \<Rightarrow> execute_plan L env r g (demand_for_slot env r g en) planned (modify_slot r g (\<lambda>sl. sl\<lparr>sl_revision := Some v\<rparr>) en2)
       | Inl detail \<Rightarrow> fact (refused_plan r detail) (modify_slot r g (\<lambda>sl. sl\<lparr>sl_revision := Some v\<rparr>) en2))))"
    using len
    by (auto simp: engine_flush_def Let_def en1_def [symmetric] rev arm_def effect_log split: if_splits option.splits sum.splits)
      (auto simp: en1_def)
  show thesis
  proof (cases "checked_plan L r (demand_for_slot env r g en) (sl_constraints sl) (sl_installed sl) v")
    case (Inl detail)
    with planned len assms(2) show thesis by simp
  next
    case (Inr q)
    with planned len assms(2) have "r' = r \<and> g' = g \<and> p = q" by (auto dest!: execute_effects)
    with that sl v Inr show thesis by blast
  qed
qed

text \<open>
  (C24) A plan is handed to the wire only for a slot that holds a session, and only when it conforms to
  the demand the slot has at that moment: everything wanted is served or reported short, nothing
  running that still serves a wanted demand is closed, and the relay's declared maximum is kept.
\<close>

theorem flush_installs_conforming:
  assumes "EffInstall r' g' p \<in> set (drop (length (en_effects en)) (en_effects (engine_flush L env relay g en)))"
  shows "\<exists>sl. r' = relay \<and> g' = g \<and> engine_slot relay g en = Some sl \<and> sl_session sl \<noteq> None
     \<and> conforms relay (demand_for_slot env relay g en) (sl_constraints sl) (sl_installed sl) p
     \<and> (\<forall>d\<in>set (demand_for_slot env relay g en). demand_id_of d \<in> set (served_demand p) \<union> sf_demand ` set (spl_shortfalls p))
     \<and> (\<forall>i\<in>set (spl_close p). \<forall>entry d. bt_get (sl_installed sl) i = Some entry \<longrightarrow> d \<in> set (demand_for_slot env relay g en) \<longrightarrow>
          demand_id_of d \<notin> set (is_serves entry))"
proof -
  from assms obtain sl v where sl: "r' = relay" "g' = g" "engine_slot relay g en = Some sl" "sl_session sl \<noteq> None"
    and checked: "checked_plan L relay (demand_for_slot env relay g en) (sl_constraints sl) (sl_installed sl) v = Inr p"
    by (elim flush_effects) simp_all
  from checked have ok: "conforms relay (demand_for_slot env relay g en) (sl_constraints sl) (sl_installed sl) p"
    by (auto simp: checked_plan_def validate_plan_iff [symmetric] split: sum.splits)
  then have "demand_id_of d \<in> set (served_demand p) \<union> sf_demand ` set (spl_shortfalls p)"
    if "d \<in> set (demand_for_slot env relay g en)" for d
    using that unfolding conforms_def by blast
  moreover have "demand_id_of d \<notin> set (is_serves entry)"
    if "i \<in> set (spl_close p)" "bt_get (sl_installed sl) i = Some entry" "d \<in> set (demand_for_slot env relay g en)" for i entry d
    using ok that unfolding conforms_def by blast
  ultimately show ?thesis using sl ok by blast
qed

text \<open>
  With the standard planner a reachable engine never turns a plan away: the check of conformance
  passes on every plan the planner gives, as long as no demand over the declared filter limit is
  still served by a running subscription.
\<close>

theorem standard_plans_accepted:
  assumes "engine_reach L en" "el_plan L = standard_plan W" "engine_slot relay g en = Some sl"
    and "refusals_idle demand c (sl_installed sl)" "standard_plan W relay demand c (sl_installed sl) v = Inr p"
  shows "checked_plan L relay demand c (sl_installed sl) v = Inr p"
proof -
  have "bt_wf (sl_installed sl)"
    using engine_reach_gen_inv [OF assms(1)] engine_slot_SomeD(1) [OF assms(3)] unfolding gen_inv_def slots_ok_def by blast
  from standard.plan_validates [OF assms(5) this assms(4)] assms(2,5) show ?thesis
    by (simp add: checked_plan_def)
qed

subsection \<open>The baseline\<close>




subsection \<open>Events\<close>

lemma registry_update_other [simp]:
  "j \<noteq> i \<Longrightarrow> bt_get (rg_observations (registry_update i f r)) j = bt_get (rg_observations r) j"
  by (simp add: registry_update_def put_observation_def registry_bump_def wake_observation_def Let_def split: option.split prod.split)

lemma live_fold_other:
  "j \<notin> set os \<Longrightarrow> bt_get (rg_observations (fold (\<lambda>own. record_live_event N own re) os r)) j = bt_get (rg_observations r) j"
  by (induction os arbitrary: r) (simp_all add: record_live_event_def)

text \<open>
  (C26) An event a relay sends changes something only if the slot that receives it still has the
  subscription it came in on, the event verifies, and one of the filters that subscription asked for
  matches it. Even then only the observations the subscription serves see it, and no slot, fact or
  effect changes.
\<close>

theorem only_solicited_events_enter:
  assumes "report_carried L env relay g i (ItemEvent e) en \<noteq> en"
  shows "\<exists>sl entry f. engine_slot relay g en = Some sl \<and> bt_get (sl_installed sl) i = Some entry
     \<and> event_verify (el_nostr L) e = Inr () \<and> f \<in> set (is_filters entry) \<and> filter_match_event (el_nostr L) f e
     \<and> (\<exists>reg' cache'. report_carried L env relay g i (ItemEvent e) en = en\<lparr>en_registry := reg', en_cache := cache'\<rparr>
          \<and> (\<forall>own. own \<notin> fst ` set (is_serves entry) \<longrightarrow>
               bt_get (rg_observations reg') own = bt_get (rg_observations (en_registry en)) own))"
proof -
  from assms obtain sl entry re where sl: "engine_slot relay g en = Some sl" "bt_get (sl_installed sl) i = Some entry"
    and re: "admit_subscription_event (el_nostr L) relay (current_authority env sl) [(i, is_filters entry)] i e (ee_now env) = Inr re"
    by (auto simp: report_carried_def carried_event_def split: option.splits sum.splits)
  from re obtain f where "event_verify (el_nostr L) e = Inr ()" "f \<in> set (is_filters entry)" "filter_match_event (el_nostr L) f e"
    by (auto simp: admit_subscription_event_def bt_get_def split: option.splits sum.splits if_splits)
  moreover have "report_carried L env relay g i (ItemEvent e) en =
      en\<lparr>en_registry := fold (\<lambda>own. record_live_event (el_nostr L) own re) (slot_owners sl i) (en_registry en),
         en_cache := snd (cache_admit (el_nostr L) re (occ_observed_at (re_occurrence re)) (en_cache en))\<rparr>"
    using sl re by (simp add: report_carried_def carried_event_def on_registry_def)
  moreover have "set (slot_owners sl i) = fst ` set (is_serves entry)" using sl by (simp add: slot_owners_def)
  ultimately show ?thesis using sl live_fold_other by blast
qed

subsection \<open>Where the engine falls short of its comments\<close>

lemma attach_effects [simp]: "en_effects (engine_attach L env r g d en) = en_effects en"
  by (simp add: engine_attach_def Let_def split: option.split prod.split)

definition acquires :: "engine \<Rightarrow> engine \<Rightarrow> bool" where
  "acquires en en' \<longleftrightarrow> (\<exists>es r a g. en_effects en' = en_effects en @ es \<and> EffAcquire r a g \<in> set es)"

definition quiet :: "engine \<Rightarrow> engine \<Rightarrow> bool" where
  "quiet en en' \<longleftrightarrow> (\<exists>es. en_effects en' = en_effects en @ es \<and> (\<forall>r a g. EffAcquire r a g \<notin> set es))"

lemma quiet_self [simp, intro]: "quiet en en" by (simp add: quiet_def)

lemma quiet_trans: "quiet a b \<Longrightarrow> quiet b c \<Longrightarrow> quiet a c"
  by (fastforce simp: quiet_def)

lemma quiet_not_acquires: "quiet en en' \<Longrightarrow> \<not> acquires en en'"
  by (auto simp: quiet_def acquires_def)

lemma quiet_fold: "(\<And>x en. quiet en (h x en)) \<Longrightarrow> quiet en (fold h xs en)"
  by (induction xs arbitrary: en) (auto intro: quiet_trans)

lemma quiet_same: "en_effects en' = en_effects en \<Longrightarrow> quiet en en'"
  by (simp add: quiet_def)

lemma quiet_effect: "quiet en en' \<Longrightarrow> (\<And>r a g. e \<noteq> EffAcquire r a g) \<Longrightarrow> quiet en (effect e en')"
  by (fastforce simp: quiet_def effect_log)

lemma quiet_teardown: "quiet en en' \<Longrightarrow> quiet en (teardown_slot sl en')"
  by (auto simp: teardown_slot_def Let_def release_lease_def intro!: quiet_effect split: option.split)

lemma quiet_release_slot: "quiet en (release_slot r g en)"
  by (auto simp: release_slot_def Let_def intro!: quiet_teardown [OF quiet_same] split: option.split)

lemma quiet_flush: "quiet en (engine_flush L env r g en)"
proof -
  define en1 where "en1 = modify_slot r g (\<lambda>sl. sl\<lparr>sl_armed := False\<rparr>) en"
  have one: "en_effects en1 = en_effects en" by (simp add: en1_def)
  obtain res en2 where rev: "next_plan_revision en1 = (res, en2)" by (cases "next_plan_revision en1")
  have two: "en_effects en2 = en_effects en" using next_plan_revision_frame(4) [OF rev] one by simp
  have execute: "quiet en (execute_plan L env r g d p en')" if "en_effects en' = en_effects en" for d p en'
    using that by (auto simp: execute_plan_def Let_def quiet_def effect_log split: option.split)
  show ?thesis
    using one two
    by (auto simp: engine_flush_def Let_def en1_def [symmetric] rev arm_def intro: quiet_same quiet_effect [OF quiet_same] execute
        split: option.split sum.split)
qed

lemma quiet_reconcile_slot: "quiet en (reconcile_slot L env r g en)"
  by (auto simp: reconcile_slot_def Let_def arm_def intro: quiet_release_slot quiet_effect [OF quiet_same] quiet_same
      quiet_trans [OF quiet_same quiet_flush] split: option.split)

text \<open>
  A slot whose acquisition was refused keeps its place: it has no session and is not busy, so it
  still answers for the authority it was opened for. A relay all of whose demand has such a slot is
  never acquired again by a reconciliation, whatever the demand; the admission timer only re-arms
  itself.
\<close>

theorem refused_acquisition_never_retried:
  assumes "\<forall>(d, auth)\<in>set items. \<exists>sl\<in>set (slots_at relay en). sl_session sl = None \<and> sl_requested sl = auth"
  shows "\<not> acquires en (reconcile_relay L env relay items en)"
proof -
  have found: "slot_index_for env relay auth en \<noteq> None" if "(d, auth) \<in> set items" for d auth
  proof -
    from bspec [OF assms that] obtain sl where "sl \<in> set (slots_at relay en)" "sl_session sl = None" "sl_requested sl = auth" by auto
    then have "slot_can_serve env sl auth" by (simp add: slot_can_serve_def)
    with \<open>sl \<in> set (slots_at relay en)\<close> show ?thesis by (auto simp: slot_index_for_def find_None_iff)
  qed
  have "fold (\<lambda>(d, auth) en'. if slot_index_for env relay auth en' = None then establish env relay auth [d] en' else en') xs en = en"
    if "set xs \<subseteq> set items" for xs
    using that
  proof (induction xs)
    case (Cons x xs)
    obtain d auth where x: "x = (d, auth)" by (cases x)
    with Cons.prems found have "slot_index_for env relay auth en \<noteq> None" by auto
    with Cons x show ?case by auto
  qed simp
  then have "reconcile_relay L env relay items en = fold (reconcile_slot L env relay) (map sl_generation (slots_at relay en)) en"
    by (simp add: reconcile_relay_def)
  with quiet_fold [of "reconcile_slot L env relay", OF quiet_reconcile_slot] show ?thesis
    by (simp add: quiet_not_acquires)
qed

lemma engine_slot_map:
  assumes "\<And>sl. sl_generation (f sl) = sl_generation sl"
  shows "engine_slot r g (modify_slot r g f en) = map_option f (engine_slot r g en)"
proof (cases "engine_slot r g en")
  case None
  then have "g \<notin> set (gens_at r en)" by (simp add: engine_slot_None_iff)
  then have "g \<notin> set (gens_at r (modify_slot r g f en))"
    by (simp add: gens_at_def update_first_map [where h = sl_generation and f = f, OF assms])
  with None show ?thesis by (metis engine_slot_None_iff option.map_disc_iff)
next
  case (Some sl)
  with engine_slot_modify [OF assms Some] show ?thesis by simp
qed

lemma engine_slot_cong: "en_slots a = en_slots b \<Longrightarrow> engine_slot r g a = engine_slot r g b"
  by (simp add: engine_slot_def slots_at_def)

lemma engine_slot_frame [simp]:
  "engine_slot r g (effect e en) = engine_slot r g en" "engine_slot r g (publish_plan L r' g' d q en) = engine_slot r g en"
  "engine_slot r g (publish_relay_diagnostic env r' g' en) = engine_slot r g en"
  "engine_slot r g (on_registry h en) = engine_slot r g en"
  "engine_slot r g (drop_handles c a en) = engine_slot r g en"
  by (rule engine_slot_cong; simp)+

lemma bt_get_filter_None: "bt_get m i = None \<Longrightarrow> bt_get (List.filter P m) i = None"
  by (auto simp: bt_get_None_iff bt_keys_def)

lemma fold_insert_keeps: "bt_get m i \<noteq> None \<Longrightarrow> bt_get (fold (\<lambda>(k, v). bt_insert k v) es m) i \<noteq> None"
  by (induction es arbitrary: m) auto

lemma installed_from_entries_has:
  assumes "(i, e) \<in> set es"
  shows "bt_get (installed_from_entries es) i \<noteq> None"
proof -
  from assms obtain xs ys where "es = xs @ (i, e) # ys" by (meson split_list)
  then show ?thesis using fold_insert_keeps [of _ i ys] by (simp add: installed_from_entries_def)
qed

lemma execute_slot:
  assumes "engine_slot r g en = Some sl" "bt_get (sl_completeness sl) i = None" "bt_get (spl_attribution p) i = None"
  obtains sl1 where "engine_slot r g (execute_plan L env r g d p en) = Some sl1" "sl_revision sl1 = sl_revision sl"
    "bt_get (sl_completeness sl1) i = None"
proof -
  define c where "c = fold (\<lambda>(i, a). bt_insert i (as_completeness a)) (spl_attribution p) (sl_completeness sl)"
  have "bt_get (fold (\<lambda>(i, a). bt_insert i (as_completeness a)) m c0) i = None"
    if "bt_get m i = None" "bt_get c0 i = None" for m c0
    using that by (induction m arbitrary: c0) (auto simp: bt_get_Cons split: if_splits)
  then have c: "bt_get c i = None" using assms unfolding c_def by blast
  have "case engine_slot r g (execute_plan L env r g d p en) of None \<Rightarrow> False
    | Some sl1 \<Rightarrow> sl_revision sl1 = sl_revision sl \<and> bt_get (sl_completeness sl1) i = None"
    using assms(1) c bt_get_filter_None [OF c]
    by (auto simp: execute_plan_def Let_def record_installed_def engine_slot_map c_def [symmetric])
  with that show thesis by (auto split: option.splits)
qed

text \<open>
  The completeness a planner states for a subscription it opens is never recorded: once the
  transport reports it open, the end of its stored events counts as proof that the relay sent
  everything, also for a request that was limited.
\<close>

theorem opened_request_claims_completeness:
  assumes "engine_slot relay g en = Some sl" "sl_revision sl = Some v"
    and "bt_get (sl_completeness sl) i = None" "bt_get (spl_attribution p) i = None"
    and "pos < length (spl_open p)" "nth_opt opened pos = Some (Some i)"
  shows "\<exists>sl'. engine_slot relay g (report_installed L env relay g v p opened attending closed
        (execute_plan L env relay g demand p en)) = Some sl'
     \<and> bt_get (sl_installed sl') i \<noteq> None \<and> proves_completeness sl' i = Proven"
proof -
  obtain sl1 where sl1: "engine_slot relay g (execute_plan L env relay g demand p en) = Some sl1" "sl_revision sl1 = Some v"
    "bt_get (sl_completeness sl1) i = None"
    using execute_slot [OF assms(1,3,4)] assms(2) by metis
  have "(i, \<lparr>is_filters = ps_filters (spl_open p ! pos), is_serves = ps_serves (spl_open p ! pos)\<rparr>) \<in> set (opened_entries p opened)"
    using assms(5,6) by (force simp: opened_entries_def List.map_filter_def in_set_enumerate_eq image_iff intro!: bexI [of _ "(pos, spl_open p ! pos)"])
  then have "bt_get (accepted b p opened closed) i \<noteq> None" for b
    unfolding accepted_def by (intro installed_from_entries_has) auto
  with sl1 bt_get_filter_None [OF sl1(3)] show ?thesis
    by (auto simp: report_installed_def Let_def record_installed_def engine_slot_map proves_completeness_def split: option.split)
qed

subsection \<open>A concrete engine\<close>

definition sample_engine_lib :: engine_lib where
  "sample_engine_lib =
     \<lparr>el_nostr = sample_lib, el_plan = standard_plan sample_wire, el_plan_error = (\<lambda>_. ''plan''), el_conformance_error = (\<lambda>_. ''nonconforming''),
      el_shortfall_debug = (\<lambda>_. ''short''), el_completeness_debug = (\<lambda>_. ''limited'')\<rparr>"

definition sample_env :: engine_env where
  "sample_env = \<lparr>ee_now = 50, ee_live = (\<lambda>_. unoffered)\<rparr>"

definition sample_engine_start :: engine where
  "sample_engine_start =
     engine_start sample_registry (cache_bounded 4) \<lparr>ri_authority = 1, ri_next = Some 1\<rparr> \<lparr>pri_authority = 1, pri_next = Some 1\<rparr>"

definition first_round :: round where
  "first_round = \<lparr>rd_authority = 1, rd_sequence = 1\<rparr>"

text \<open>Demand arrives and is acquired; the lease arrives; the admission window closes.\<close>

definition acquiring_engine :: engine where
  "acquiring_engine = engine_turn sample_engine_lib sample_env DemandChanged sample_engine_start"

definition leased_engine :: engine where
  "leased_engine = engine_turn sample_engine_lib sample_env (Reported (RepAcquired ''wss://a'' first_round 7)) acquiring_engine"

definition flushed_engine :: engine where
  "flushed_engine = engine_turn sample_engine_lib sample_env (Reported (RepFlush ''wss://a'' first_round)) leased_engine"

definition flushed_plan :: subscription_plan where
  "flushed_plan = \<lparr>spl_relay = ''wss://a'', spl_revision = \<lparr>pv_authority = 1, pv_sequence = 1\<rparr>,
     spl_open = [\<lparr>ps_filters = [any_filter], ps_serves = [(2, 0)], ps_completeness = Proven\<rparr>], spl_retain = [], spl_close = [],
     spl_attribution = [], spl_shortfalls = []\<rparr>"

definition serving_engine :: engine where
  "serving_engine = engine_turn sample_engine_lib sample_env
     (Reported (RepInstalled ''wss://a'' first_round (spl_revision flushed_plan) flushed_plan [Some ''s''] [(''s'', 9)] [])) flushed_engine"

definition refused_engine :: engine where
  "refused_engine = engine_turn sample_engine_lib sample_env (Reported (RepRefused ''wss://a'' first_round (bounded_text_new ''down''))) acquiring_engine"

definition vacated_engine :: engine where
  "vacated_engine = engine_turn sample_engine_lib sample_env DemandChanged
     (on_registry (registry_perform sample_lib (RegWithdraw 1)) acquiring_engine)"

lemma sample_reach:
  "engine_reach sample_engine_lib acquiring_engine" "engine_reach sample_engine_lib leased_engine"
  "engine_runs sample_engine_lib acquiring_engine vacated_engine"
proof -
  have lib: "el_nostr sample_engine_lib = sample_lib" by (simp add: sample_engine_lib_def)
  have start: "engine_runs sample_engine_lib sample_engine_start acquiring_engine"
    unfolding acquiring_engine_def by (rule r_into_rtranclp) (rule engine_step.turn)
  moreover have lease: "engine_step sample_engine_lib acquiring_engine leased_engine"
    unfolding leased_engine_def by (rule engine_step.turn)
  ultimately show "engine_reach sample_engine_lib acquiring_engine" "engine_reach sample_engine_lib leased_engine"
    unfolding engine_reach_def sample_engine_start_def lib by (blast intro: sample_registry_reach rtranclp.rtrancl_into_rtrancl)+
  have "engine_step sample_engine_lib acquiring_engine (on_registry (registry_perform sample_lib (RegWithdraw 1)) acquiring_engine)"
    using engine_step.application [of "RegWithdraw 1" acquiring_engine sample_engine_lib] by (simp add: lib registry_allowed_def)
  then show "engine_runs sample_engine_lib acquiring_engine vacated_engine"
    unfolding vacated_engine_def by (meson engine_step.turn r_into_rtranclp rtranclp.rtrancl_into_rtrancl)
qed

theorem superseded_reports_ignored_witness:
  "en_effects (snd (engine_accept sample_engine_lib sample_env (RepAcquired ''wss://a'' first_round 7) vacated_engine)) =
     en_effects vacated_engine @ [EffRelease 7 first_round]"
proof -
  have "engine_slot ''wss://a'' first_round acquiring_engine \<noteq> None" "engine_slot ''wss://a'' first_round vacated_engine = None"
    by code_simp+
  from this(2) superseded_reports_ignored [OF sample_reach(1) _ sample_reach(3) this(2) rtranclp.rtrancl_refl, of _ "RepAcquired ''wss://a'' first_round 7"]
    this(1)
  show ?thesis by (metis option.exhaust prod.collapse report_lease.simps(1) report_round.simps(1))
qed

theorem flush_installs_conforming_witness:
  "\<exists>sl p. engine_slot ''wss://a'' first_round leased_engine = Some sl
     \<and> conforms ''wss://a'' (demand_for_slot sample_env ''wss://a'' first_round leased_engine) (sl_constraints sl) (sl_installed sl) p"
proof -
  define log where "log = drop (length (en_effects leased_engine))
    (en_effects (engine_flush sample_engine_lib sample_env ''wss://a'' first_round leased_engine))"
  have "list_ex (\<lambda>e. case e of EffInstall _ _ _ \<Rightarrow> True | _ \<Rightarrow> False) log" unfolding log_def by code_simp
  then obtain e where e: "e \<in> set log" "case e of EffInstall _ _ _ \<Rightarrow> True | _ \<Rightarrow> False" by (auto simp: list_ex_iff)
  from e(2) obtain r' g' p where "e = EffInstall r' g' p" by (cases e) auto
  with e(1) have "EffInstall r' g' p \<in> set log" by simp
  from flush_installs_conforming [OF this [unfolded log_def]] show ?thesis by blast
qed

theorem standard_plans_accepted_witness:
  "\<exists>p. checked_plan sample_engine_lib ''wss://a'' [Observation_Registry.sample_demand 2] constraints_unknown [] sample_revision = Inr p"
proof -
  obtain sl where sl: "engine_slot ''wss://a'' first_round leased_engine = Some sl" "sl_installed sl = []"
  proof -
    have "case engine_slot ''wss://a'' first_round leased_engine of None \<Rightarrow> False | Some sl \<Rightarrow> sl_installed sl = []" by code_simp
    with that show thesis by (auto split: option.splits)
  qed
  have "\<not> Option.is_none (case standard_plan sample_wire ''wss://a'' [Observation_Registry.sample_demand 2] constraints_unknown [] sample_revision of
      Inl _ \<Rightarrow> None | Inr p \<Rightarrow> Some p)" by code_simp
  then obtain p where p: "standard_plan sample_wire ''wss://a'' [Observation_Registry.sample_demand 2] constraints_unknown [] sample_revision = Inr p"
    by (auto split: sum.splits)
  have "refusals_idle [Observation_Registry.sample_demand 2] constraints_unknown (sl_installed sl)"
    by (simp add: refusals_idle_def sl)
  from standard_plans_accepted [OF sample_reach(2) _ sl(1) this, where W = sample_wire and v = sample_revision and p = p] p sl(2) show ?thesis
    by (auto simp: sample_engine_lib_def)
qed




theorem refused_acquisition_never_retried_witness:
  "\<not> acquires refused_engine (reconcile_relay sample_engine_lib sample_env ''wss://a'' [(Observation_Registry.sample_demand 2, Unauthenticated)] refused_engine)"
proof -
  have "list_ex (\<lambda>sl. sl_session sl = None \<and> sl_requested sl = Unauthenticated) (slots_at ''wss://a'' refused_engine)" by code_simp
  then show ?thesis by (intro refused_acquisition_never_retried) (auto simp: list_ex_iff)
qed

lemma flushed_engine_installs: "en_effects flushed_engine = en_effects leased_engine @ [EffInstall ''wss://a'' first_round flushed_plan]"
  by code_simp

theorem only_solicited_events_enter_witness:
  "\<exists>sl entry f. engine_slot ''wss://a'' first_round serving_engine = Some sl \<and> bt_get (sl_installed sl) ''s'' = Some entry
     \<and> f \<in> set (is_filters entry) \<and> filter_match_event sample_lib f (re_event sample_note_event)"
proof -
  have "cst_events (mc_state (en_cache (report_carried sample_engine_lib sample_env ''wss://a'' first_round ''s''
      (ItemEvent (re_event sample_note_event)) serving_engine))) \<noteq> []" "cst_events (mc_state (en_cache serving_engine)) = []"
    by code_simp+
  then have "report_carried sample_engine_lib sample_env ''wss://a'' first_round ''s'' (ItemEvent (re_event sample_note_event)) serving_engine
      \<noteq> serving_engine" by metis
  from only_solicited_events_enter [OF this] show ?thesis by (auto simp: sample_engine_lib_def)
qed

definition limited_plan :: subscription_plan where
  "limited_plan = flushed_plan\<lparr>spl_open := [\<lparr>ps_filters = [any_filter], ps_serves = [(2, 0)], ps_completeness = LimitedRequest\<rparr>]\<rparr>"

theorem opened_request_claims_completeness_witness:
  "\<exists>sl. engine_slot ''wss://a'' first_round (report_installed sample_engine_lib sample_env ''wss://a'' first_round (spl_revision flushed_plan)
       limited_plan [Some ''s''] [] []
       (execute_plan sample_engine_lib sample_env ''wss://a'' first_round [Observation_Registry.sample_demand 2] limited_plan flushed_engine)) = Some sl
     \<and> proves_completeness sl ''s'' = Proven"
proof -
  have "case engine_slot ''wss://a'' first_round flushed_engine of None \<Rightarrow> False
    | Some sl \<Rightarrow> sl_revision sl = Some (spl_revision flushed_plan) \<and> bt_get (sl_completeness sl) ''s'' = None" by code_simp
  then obtain sl where "engine_slot ''wss://a'' first_round flushed_engine = Some sl" "sl_revision sl = Some (spl_revision flushed_plan)"
    "bt_get (sl_completeness sl) ''s'' = None" by (auto split: option.splits)
  moreover have "bt_get (spl_attribution limited_plan) ''s'' = None" "0 < length (spl_open limited_plan)" "nth_opt [Some ''s''] 0 = Some (Some ''s'')"
    by code_simp+
  ultimately show ?thesis
    using opened_request_claims_completeness [of "''wss://a''" first_round flushed_engine sl "spl_revision flushed_plan" "''s''" limited_plan 0 "[Some ''s'']"]
    by blast
qed

end
