(* ===== verification/Edit_Protocols.thy ===== *)
theory Edit_Protocols
  imports Write_Values Query
begin

section \<open>What the protocol crates share\<close>

text \<open>
  The crates \<open>fava-nip02\<close>, \<open>fava-bookmarks\<close> and \<open>fava-simple-groups\<close> each own one replaceable
  list: they encode a change into the opaque bytes of an \<open>EventEdit\<close>, decode it, and apply it to
  the previous event of the list. This theory holds what they use of the standard library (UTF-8,
  big-endian lengths, checked sizes), the functions of the \<open>nostr\<close> crate they call, the loop over the
  tags all of them write, and the contract of \<open>trait EditApplier\<close> in \<open>fava-write\<close> as a locale.
\<close>

type_synonym u8 = "8 word"

subsection \<open>Results\<close>

text \<open>The operator \<open>?\<close> of a function without state.\<close>

definition try_then :: "'e + 'a \<Rightarrow> ('a \<Rightarrow> 'e + 'b) \<Rightarrow> 'e + 'b" where
  "try_then x f = (case x of Inl e \<Rightarrow> Inl e | Inr v \<Rightarrow> f v)"

definition map_err :: "('e \<Rightarrow> 'f) \<Rightarrow> 'e + 'a \<Rightarrow> 'f + 'a" where
  "map_err f x = (case x of Inl e \<Rightarrow> Inl (f e) | Inr v \<Rightarrow> Inr v)"

lemma try_then_simps [simp]: "try_then (Inl e) f = Inl e" "try_then (Inr v) f = f v"
  by (simp_all add: try_then_def)

lemma try_then_Inr_iff: "try_then x f = Inr y \<longleftrightarrow> (\<exists>v. x = Inr v \<and> f v = Inr y)"
  by (cases x) auto

lemma map_err_simps [simp]: "map_err f (Inl e) = Inl (f e)" "map_err f (Inr v) = Inr v"
  by (simp_all add: map_err_def)

lemma map_err_Inr_iff [simp]: "map_err f x = Inr v \<longleftrightarrow> x = Inr v"
  by (cases x) auto

lemma ok_or_values [simp]: "ok_or e (Some v) = Inr v" "ok_or e None = Inl e"
  by (simp_all add: ok_or_def)

text \<open>An iterator of results collected into a result.\<close>

fun collect_results :: "('e + 'a) list \<Rightarrow> 'e + 'a list" where
  "collect_results [] = Inr []"
| "collect_results (x # xs) = try_then x (\<lambda>v. try_then (collect_results xs) (\<lambda>vs. Inr (v # vs)))"

lemma collect_results_map:
  "(\<And>x. x \<in> set xs \<Longrightarrow> f x = Inr (g x)) \<Longrightarrow> collect_results (map f xs) = Inr (map g xs)"
  by (induction xs) auto

subsection \<open>Sizes\<close>

definition checked_add_usize :: "nat \<Rightarrow> nat \<Rightarrow> nat option" where
  "checked_add_usize a b = (if a + b < 2 ^ 64 then Some (a + b) else None)"

definition checked_sub_usize :: "nat \<Rightarrow> nat \<Rightarrow> nat option" where
  "checked_sub_usize a b = (if b \<le> a then Some (a - b) else None)"

definition u32_try_from :: "nat \<Rightarrow> nat option" where
  "u32_try_from n = (if n < 2 ^ 32 then Some n else None)"

definition u16_try_from :: "nat \<Rightarrow> nat option" where
  "u16_try_from n = (if n < 2 ^ 16 then Some n else None)"

text \<open>Evaluation goes through the integers.\<close>

lemma sizes_code [code]:
  "checked_add_usize a b = (if int (a + b) < 18446744073709551616 then Some (a + b) else None)"
  "u32_try_from n = (if int n < 4294967296 then Some n else None)"
  "u16_try_from n = (if int n < 65536 then Some n else None)"
proof -
  have "m < 2 ^ k \<longleftrightarrow> int m < 2 ^ k" for m k :: nat
    using of_nat_less_iff [of m "2 ^ k", where ?'a = int] by simp
  from this [of _ 64] this [of _ 32] this [of _ 16]
  show "checked_add_usize a b = (if int (a + b) < 18446744073709551616 then Some (a + b) else None)"
    "u32_try_from n = (if int n < 4294967296 then Some n else None)"
    "u16_try_from n = (if int n < 65536 then Some n else None)"
    by (simp_all add: checked_add_usize_def u32_try_from_def u16_try_from_def)
qed

subsection \<open>Bytes\<close>

definition str_bytes :: "string \<Rightarrow> u8 list" where
  "str_bytes s = map of_char s"

definition bytes_str :: "u8 list \<Rightarrow> string" where
  "bytes_str bs = map (\<lambda>b. char_of (unat b)) bs"

lemma char_of_byte: "char_of (unat (of_char c :: u8)) = c"
proof -
  have "(of_char c :: u8) = of_nat (of_char c)" by (simp add: of_char_def)
  then have "unat (of_char c :: u8) = of_char c mod 256" by (simp add: unat_of_nat)
  then show ?thesis by simp
qed

lemma bytes_str_bytes [simp]: "bytes_str (str_bytes s) = s"
  by (simp add: bytes_str_def str_bytes_def comp_def char_of_byte map_idI)

lemma length_str_bytes [simp]: "length (str_bytes s) = length s"
  by (simp add: str_bytes_def)

text \<open>\<open>to_be_bytes\<close> and \<open>from_be_bytes\<close> of a 32-bit and a 16-bit length.\<close>

definition be32 :: "nat \<Rightarrow> u8 list" where
  "be32 n = [of_nat (n div 2 ^ 24), of_nat (n div 2 ^ 16), of_nat (n div 2 ^ 8), of_nat n]"

definition be16 :: "nat \<Rightarrow> u8 list" where
  "be16 n = [of_nat (n div 2 ^ 8), of_nat n]"

lemma be_code [code]:
  "be32 n = (let i = int n in [of_int (i div 16777216), of_int (i div 65536), of_int (i div 256), of_int i])"
  "be16 n = (let i = int n in [of_int (i div 256), of_int i])"
proof -
  have "(of_nat (n div m) :: u8) = of_int (int n div int m)" for m by (simp flip: of_nat_div)
  from this [of 16777216] this [of 65536] this [of 256]
  show "be32 n = (let i = int n in [of_int (i div 16777216), of_int (i div 65536), of_int (i div 256), of_int i])"
    "be16 n = (let i = int n in [of_int (i div 256), of_int i])"
    by (simp_all add: be32_def be16_def Let_def)
qed

fun from_be :: "nat \<Rightarrow> u8 list \<Rightarrow> nat" where
  "from_be acc [] = acc"
| "from_be acc (b # bs) = from_be (acc * 256 + unat b) bs"

lemma length_be [simp]: "length (be32 n) = 4" "length (be16 n) = 2"
  by (simp_all add: be32_def be16_def)

lemma from_be32 [simp]:
  assumes "n < 2 ^ 32"
  shows "from_be 0 (be32 n) = n"
proof -
  have split: "k = k div 256 * 256 + k mod 256" for k :: nat by simp
  have eq: "n div 65536 = n div 256 div 256" "n div 16777216 = n div 256 div 256 div 256"
    by (simp_all add: div_mult2_eq [symmetric])
  have "n div 256 div 256 div 256 mod 256 = n div 256 div 256 div 256"
    using assms by (simp add: eq [symmetric])
  then show ?thesis
    using split [of n] split [of "n div 256"] split [of "n div 256 div 256"]
    by (simp add: be32_def unat_of_nat eq)
qed

lemma from_be16 [simp]:
  assumes "n < 2 ^ 16"
  shows "from_be 0 (be16 n) = n"
proof -
  have "n div 256 mod 256 = n div 256" using assms by simp
  moreover have "n = n div 256 * 256 + n mod 256" by simp
  ultimately show ?thesis by (simp add: be16_def unat_of_nat)
qed

text \<open>The checks of \<open>str::from_utf8\<close>: no overlong form, no surrogate, nothing beyond U+10FFFF.\<close>

definition continuation :: "u8 \<Rightarrow> bool" where
  "continuation b \<longleftrightarrow> 0x80 \<le> b \<and> b \<le> 0xBF"

definition second_of_three :: "u8 \<Rightarrow> u8 \<Rightarrow> bool" where
  "second_of_three a b \<longleftrightarrow>
     (a = 0xE0 \<and> 0xA0 \<le> b \<and> b \<le> 0xBF) \<or> (a = 0xED \<and> 0x80 \<le> b \<and> b \<le> 0x9F)
     \<or> (((0xE1 \<le> a \<and> a \<le> 0xEC) \<or> (0xEE \<le> a \<and> a \<le> 0xEF)) \<and> continuation b)"

definition second_of_four :: "u8 \<Rightarrow> u8 \<Rightarrow> bool" where
  "second_of_four a b \<longleftrightarrow>
     (a = 0xF0 \<and> 0x90 \<le> b \<and> b \<le> 0xBF) \<or> (a = 0xF4 \<and> 0x80 \<le> b \<and> b \<le> 0x8F)
     \<or> (0xF1 \<le> a \<and> a \<le> 0xF3 \<and> continuation b)"

fun utf8 :: "u8 list \<Rightarrow> bool" where
  "utf8 [] = True"
| "utf8 [a] = (a \<le> 0x7F)"
| "utf8 [a, b] = ((a \<le> 0x7F \<and> b \<le> 0x7F) \<or> (0xC2 \<le> a \<and> a \<le> 0xDF \<and> continuation b))"
| "utf8 [a, b, c] =
     (if a \<le> 0x7F then utf8 [b, c]
      else if 0xC2 \<le> a \<and> a \<le> 0xDF then continuation b \<and> c \<le> 0x7F
      else second_of_three a b \<and> continuation c)"
| "utf8 (a # b # c # d # bs) =
     (if a \<le> 0x7F then utf8 (b # c # d # bs)
      else if 0xC2 \<le> a \<and> a \<le> 0xDF then continuation b \<and> utf8 (c # d # bs)
      else if second_of_three a b then continuation c \<and> utf8 (d # bs)
      else second_of_four a b \<and> continuation c \<and> continuation d \<and> utf8 bs)"

definition from_utf8 :: "u8 list \<Rightarrow> string option" where
  "from_utf8 bs = (if utf8 bs then Some (bytes_str bs) else None)"

text \<open>What the type \<open>str\<close> guarantees.\<close>

definition is_str :: "string \<Rightarrow> bool" where
  "is_str s \<longleftrightarrow> utf8 (str_bytes s)"

lemma from_utf8_str [simp]: "is_str s \<Longrightarrow> from_utf8 (str_bytes s) = Some s"
  by (simp add: from_utf8_def is_str_def)

lemma utf8_ascii: "(\<And>b. b \<in> set bs \<Longrightarrow> b \<le> 0x7F) \<Longrightarrow> utf8 bs"
  by (induction bs rule: utf8.induct) auto

subsection \<open>Functions of the \<open>nostr\<close> crate\<close>

record protocol_lib =
  pl_nostr :: nostr_lib
  pl_key_from_hex :: "string \<Rightarrow> public_key option"
  pl_key_from_slice :: "u8 list \<Rightarrow> public_key option"
  pl_key_bytes :: "public_key \<Rightarrow> u8 list"
  pl_id_from_slice :: "u8 list \<Rightarrow> event_id option"
  pl_id_bytes :: "event_id \<Rightarrow> u8 list"
  pl_tag_parse :: "string list \<Rightarrow> string + tag"
  pl_tag_event :: "event_id \<Rightarrow> tag"
  pl_tag_le :: "tag \<Rightarrow> tag \<Rightarrow> bool"

text \<open>
  What that crate documents of them: a key and an id have 32 bytes and a hexadecimal text, both of
  which read back; a parsed tag is its values; a relay URL reads back from its text.
\<close>

definition protocol_laws :: "protocol_lib \<Rightarrow> bool" where
  "protocol_laws P \<longleftrightarrow>
     (\<forall>k. length (pl_key_bytes P k) = 32 \<and> pl_key_from_slice P (pl_key_bytes P k) = Some k
        \<and> pl_key_from_hex P (public_key_to_hex (pl_nostr P) k) = Some k)
     \<and> (\<forall>i. length (pl_id_bytes P i) = 32 \<and> pl_id_from_slice P (pl_id_bytes P i) = Some i
        \<and> nth_opt (pl_tag_event P i) 0 = Some ''e'' \<and> Option.bind (nth_opt (pl_tag_event P i) 1) (event_id_from_hex (pl_nostr P)) = Some i)
     \<and> (\<forall>vs t. pl_tag_parse P vs = Inr t \<longrightarrow> t = vs)"

definition a_relay :: "protocol_lib \<Rightarrow> relay_url \<Rightarrow> bool" where
  "a_relay P r \<longleftrightarrow> r \<noteq> [] \<and> is_str r \<and> relay_url_parse (pl_nostr P) r = Some r"

text \<open>A library that keeps them: the 32 bytes of a key are its text as well.\<close>

fun to_bytes :: "nat \<Rightarrow> nat \<Rightarrow> u8 list" where
  "to_bytes 0 n = []"
| "to_bytes (Suc m) n = to_bytes m (n div 256) @ [of_nat n]"

lemma length_to_bytes [simp]: "length (to_bytes m n) = m"
  by (induction m arbitrary: n) simp_all

lemma from_be_append: "from_be a (xs @ ys) = from_be (from_be a xs) ys"
  by (induction xs arbitrary: a) simp_all

lemma from_be_to_bytes: "from_be 0 (to_bytes m n) = n mod 256 ^ m"
proof (induction m arbitrary: n)
  case (Suc m)
  then show ?case by (simp add: from_be_append unat_of_nat mod_mult2_eq [symmetric] mult.commute)
qed simp

lemma from_be_word [simp]: "of_nat (from_be 0 (to_bytes 32 (unat (w :: 256 word)))) = w"
proof -
  have "unat w < 256 ^ 32" using unsigned_less [where ?'a = nat and w = w] by simp
  then show ?thesis by (simp add: from_be_to_bytes)
qed

lemma str_bytes_str [simp]: "str_bytes (bytes_str bs) = bs"
proof -
  have "(of_char (char_of (unat b)) :: u8) = b" for b :: u8
  proof -
    have "unat b < 256" using unsigned_less [where ?'a = nat and w = b] by simp
    then have "(of_char (char_of (unat b)) :: nat) = unat b" by simp
    moreover have "(of_char c :: u8) = of_nat (of_char c)" for c by (simp add: of_char_def)
    ultimately show ?thesis by simp
  qed
  then show ?thesis by (simp add: str_bytes_def bytes_str_def map_idI)
qed

definition word_bytes :: "256 word \<Rightarrow> u8 list" where
  "word_bytes w = (if w < 256 then replicate 31 0 @ [ucast w] else to_bytes 32 (unat w))"

definition word_of_slice :: "u8 list \<Rightarrow> 256 word option" where
  "word_of_slice bs =
     (if length bs \<noteq> 32 then None
      else if take 31 bs = replicate 31 0 then Some (ucast (bs ! 31)) else Some (of_nat (from_be 0 bs)))"

definition word_text :: "256 word \<Rightarrow> string" where
  "word_text w = (if w < 10 then [char_of (48 + unat w)] else bytes_str (to_bytes 32 (unat w)))"

definition word_of_text :: "string \<Rightarrow> 256 word option" where
  "word_of_text s = (if length s = 1 then map_option of_nat (digit_value (hd s)) else Some (of_nat (from_be 0 (str_bytes s))))"

lemma from_be_zeros: "from_be 0 (replicate n 0) = 0"
  by (induction n) simp_all

lemma word_of_bytes [simp]: "word_of_slice (word_bytes w) = Some w"
proof (cases "w < 256")
  case True
  then have "unat w < 256" by (simp add: word_less_nat_alt)
  then have "unat (ucast (ucast w :: u8) :: 256 word) = unat w"
    by (simp add: unsigned_ucast_eq take_bit_eq_mod unat_mod_distrib)
  then have "ucast (ucast w :: u8) = w" by (simp add: word_unat_eq_iff)
  with True show ?thesis by (simp add: word_bytes_def word_of_slice_def nth_append)
next
  case False
  have small: "unat w div 256 < 256 ^ 31" using unsigned_less [where ?'a = nat and w = w] by (simp add: less_mult_imp_div_less)
  from False have "unat w div 256 \<noteq> 0" by (simp add: word_less_nat_alt)
  with small have "from_be 0 (to_bytes 31 (unat w div 256)) \<noteq> 0" by (simp add: from_be_to_bytes)
  then have "to_bytes 31 (unat w div 256) \<noteq> replicate 31 0" by (metis from_be_zeros)
  moreover have "take 31 (to_bytes 32 (unat w)) = to_bytes 31 (unat w div 256)"
    using to_bytes.simps(2) [of 31 "unat w"] by simp
  ultimately show ?thesis using False by (simp add: word_bytes_def word_of_slice_def)
qed

lemma length_word_bytes [simp]: "length (word_bytes w) = 32"
  by (simp add: word_bytes_def)

lemma word_of_word_text [simp]: "word_of_text (word_text w) = Some w"
proof (cases "w < 10")
  case True
  then have "unat w < 10" by (simp add: word_less_nat_alt)
  then have "digit_value (char_of (48 + unat w)) = Some (unat w)" by (simp add: digit_value_def)
  with True show ?thesis by (simp add: word_text_def word_of_text_def)
next
  case False
  have "length (bytes_str (to_bytes 32 (unat w))) = 32" by (simp add: bytes_str_def)
  with False show ?thesis by (simp add: word_text_def word_of_text_def)
qed

definition sample_protocol :: protocol_lib where
  "sample_protocol =
     \<lparr>pl_nostr = sample_lib\<lparr>public_key_to_hex := word_text, event_id_to_hex := word_text,
        event_id_from_hex := word_of_text, relay_url_parse := (\<lambda>s. if s = [] then None else Some s)\<rparr>,
      pl_key_from_hex = word_of_text, pl_key_from_slice = word_of_slice, pl_key_bytes = word_bytes,
      pl_id_from_slice = word_of_slice, pl_id_bytes = word_bytes,
      pl_tag_parse = (\<lambda>vs. if vs = [] then Inl ''empty tag'' else Inr vs), pl_tag_event = (\<lambda>i. [''e'', word_text i]), pl_tag_le = (\<lambda>s t. length s \<le> length t)\<rparr>"

lemma sample_protocol_laws: "protocol_laws sample_protocol"
  by (auto simp: protocol_laws_def sample_protocol_def nth_opt_def split: if_splits)

text \<open>The texts of \<open>WriteIntentError\<close> (\<open>fava-write\<close>).\<close>

fun write_intent_error_text :: "write_intent_error \<Rightarrow> string" where
  "write_intent_error_text EmptyExplicitRelays = ''explicit publication requires at least one relay''"
| "write_intent_error_text (TooManyExplicitRelays a m) = ''explicit relay count exceeds bound: '' @ show_nat a @ '' > '' @ show_nat m"
| "write_intent_error_text (TooManyRawExplicitRelays a m) = ''raw explicit relay input exceeds bound: '' @ show_nat a @ '' > '' @ show_nat m"
| "write_intent_error_text (DuplicateExplicitRelay r) = ''explicit publication route repeats relay identity '' @ r"
| "write_intent_error_text (InvalidEvent r) = ''event verification failed: '' @ r"
| "write_intent_error_text IntentExpired = ''event is already expired''"
| "write_intent_error_text (TooManyTags a m) = ''event tags exceed bound: '' @ show_nat a @ '' > '' @ show_nat m"
| "write_intent_error_text (TooLarge b m) = ''event bytes exceed bound: '' @ show_nat b @ '' > '' @ show_nat m"
| "write_intent_error_text (Encoding r) = ''event encoding failed: '' @ r"
| "write_intent_error_text ExplicitRoutingAttached = ''event-only construction cannot discard explicit publication routing''"
| "write_intent_error_text ConflictingExplicitRoutes = ''builder and facade cannot both select an explicit publication route''"

definition kind_contact_list :: kind where
  "kind_contact_list = 3"

fun value_verify :: "nostr_lib \<Rightarrow> event_value \<Rightarrow> string + unit" where
  "value_verify N (Unsigned u) = unsigned_verify_id N u"
| "value_verify N (Signed e) = event_verify N e"

subsection \<open>One entry among the tags\<close>

text \<open>
  The loop of all three crates: tags that name the target collapse into the first of them, or
  disappear; \<open>pick\<close> says which of them stays.
\<close>

fun collapse_matching :: "('t \<Rightarrow> bool) \<Rightarrow> ('t \<Rightarrow> 't) \<Rightarrow> bool \<Rightarrow> bool \<Rightarrow> 't list \<Rightarrow> 't list \<times> bool" where
  "collapse_matching targets pick keep found [] = ([], found)"
| "collapse_matching targets pick keep found (t # ts) =
     (if targets t then
        if keep \<and> \<not> found then (case collapse_matching targets pick keep True ts of (out, f) \<Rightarrow> (pick t # out, f))
        else collapse_matching targets pick keep found ts
      else case collapse_matching targets pick keep found ts of (out, f) \<Rightarrow> (t # out, f))"

lemma collapse_found: "collapse_matching targets pick keep True ts = (List.filter (\<lambda>t. \<not> targets t) ts, True)"
  by (induction ts) auto

lemma collapse_drop: "collapse_matching targets pick False found ts = (List.filter (\<lambda>t. \<not> targets t) ts, found)"
  by (induction ts) auto

lemma collapse_none: "\<forall>t\<in>set ts. \<not> targets t \<Longrightarrow> collapse_matching targets pick keep found ts = (ts, found)"
  by (induction ts) auto

lemma collapse_first:
  assumes "\<forall>t\<in>set xs. \<not> targets t" "targets x"
  shows "collapse_matching targets pick True False (xs @ x # ys) = (xs @ pick x # List.filter (\<lambda>t. \<not> targets t) ys, True)"
  using assms by (induction xs) (auto simp: collapse_found)

lemma first_match_split:
  assumes "\<exists>t\<in>set ts. P t"
  obtains xs x ys where "ts = xs @ x # ys" "P x" "\<forall>t\<in>set xs. \<not> P t"
  using assms split_list_first_prop [of ts P] by blast

text \<open>Whatever stays, the other tags keep their order and the entry occurs as often as it should.\<close>

lemma collapse_spec:
  assumes "collapse_matching targets pick keep False ts = (out, f)" "\<And>t. targets t \<Longrightarrow> targets (pick t)"
  shows "List.filter (\<lambda>t. \<not> targets t) out = List.filter (\<lambda>t. \<not> targets t) ts"
    "length (List.filter targets out) = (if keep \<and> (\<exists>t\<in>set ts. targets t) then 1 else 0)"
    "f \<longleftrightarrow> keep \<and> (\<exists>t\<in>set ts. targets t)"
proof -
  have "List.filter (\<lambda>t. \<not> targets t) out = List.filter (\<lambda>t. \<not> targets t) ts
      \<and> length (List.filter targets out) = (if keep \<and> (\<exists>t\<in>set ts. targets t) then 1 else 0)
      \<and> (f \<longleftrightarrow> keep \<and> (\<exists>t\<in>set ts. targets t))"
  proof (cases "keep \<and> (\<exists>t\<in>set ts. targets t)")
    case True
    then obtain xs x ys where "ts = xs @ x # ys" "targets x" "\<forall>t\<in>set xs. \<not> targets t"
      using first_match_split by metis
    with assms True collapse_first [of xs targets x pick ys] show ?thesis by (auto simp: filter_empty_conv)
  next
    case False
    then have "keep = False \<or> (\<forall>t\<in>set ts. \<not> targets t)" by blast
    with assms(1) show ?thesis by (auto simp: collapse_drop collapse_none filter_empty_conv)
  qed
  then show "List.filter (\<lambda>t. \<not> targets t) out = List.filter (\<lambda>t. \<not> targets t) ts"
    "length (List.filter targets out) = (if keep \<and> (\<exists>t\<in>set ts. targets t) then 1 else 0)"
    "f \<longleftrightarrow> keep \<and> (\<exists>t\<in>set ts. targets t)" by blast+
qed

text \<open>The loop, and the new row when nothing matched.\<close>

definition upsert_row :: "('t \<Rightarrow> bool) \<Rightarrow> ('t \<Rightarrow> 't) \<Rightarrow> bool \<Rightarrow> 'e + 't \<Rightarrow> 't list \<Rightarrow> 'e + 't list" where
  "upsert_row targets pick keep row source =
     (case collapse_matching targets pick keep False source of (tags, found) \<Rightarrow>
        if keep \<and> \<not> found then try_then row (\<lambda>r. Inr (tags @ [r])) else Inr tags)"

lemma upsert_row_spec:
  assumes "upsert_row targets pick keep row source = Inr out"
    and "\<And>t. targets t \<Longrightarrow> targets (pick t)" "\<And>r. row = Inr r \<Longrightarrow> targets r"
  shows "List.filter (\<lambda>t. \<not> targets t) out = List.filter (\<lambda>t. \<not> targets t) source"
    "length (List.filter targets out) = (if keep then 1 else 0)"
    "length out = length source - length (List.filter targets source) + (if keep then 1 else 0)"
proof -
  obtain tags found where loop: "collapse_matching targets pick keep False source = (tags, found)"
    by (cases "collapse_matching targets pick keep False source")
  note spec = collapse_spec [OF loop assms(2)]
  from assms(1) loop have out: "out = tags \<and> (keep \<longrightarrow> found) \<or> (\<exists>r. row = Inr r \<and> out = tags @ [r] \<and> keep \<and> \<not> found)"
    by (auto simp: upsert_row_def try_then_Inr_iff split: if_splits)
  show one: "List.filter (\<lambda>t. \<not> targets t) out = List.filter (\<lambda>t. \<not> targets t) source"
    using out spec(1) assms(3) by auto
  show two: "length (List.filter targets out) = (if keep then 1 else 0)"
    using out spec(2,3) assms(3) by (auto split: if_splits)
  have "length (List.filter (\<lambda>t. \<not> targets t) xs) + length (List.filter targets xs) = length xs" for xs
    using sum_length_filter_compl [of targets xs] by simp
  from this [of out] this [of source] one two
  show "length out = length source - length (List.filter targets source) + (if keep then 1 else 0)" by simp
qed

text \<open>A list with the right number of rows is left alone.\<close>

lemma upsert_row_stable:
  assumes "length (List.filter targets out) = (if keep then 1 else 0)" "\<And>t. t \<in> set out \<Longrightarrow> targets t \<Longrightarrow> pick t = t"
  shows "upsert_row targets pick keep row out = Inr out"
proof (cases keep)
  case True
  with assms(1) have "List.filter targets out \<noteq> []" by auto
  then obtain xs x ys where o: "out = xs @ x # ys" "targets x" "\<forall>t\<in>set xs. \<not> targets t"
    using first_match_split [of out targets] by (auto simp: filter_empty_conv)
  with assms(1) True have "List.filter targets ys = []" by (auto simp: filter_empty_conv)
  then have "List.filter (\<lambda>t. \<not> targets t) ys = ys" by (auto simp: filter_empty_conv filter_id_conv)
  with o True assms(2) [of x] show ?thesis by (simp add: upsert_row_def collapse_first)
next
  case False
  with assms(1) have "\<forall>t\<in>set out. \<not> targets t" by (auto simp: filter_empty_conv)
  with False show ?thesis by (simp add: upsert_row_def collapse_none)
qed

subsection \<open>The contract of an applier\<close>

text \<open>
  What \<open>trait EditApplier\<close> asks of a provider: it supports edits of its own kind only, an
  accepted revision has the author, kind and time it was given and the content of its source, its id
  verifies, and it succeeds a source of the same author and kind.
\<close>

locale edit_applier =
  fixes N :: nostr_lib
    and kind :: kind
    and supports :: "event_edit \<Rightarrow> bool"
    and revise :: "event_edit \<Rightarrow> public_key \<Rightarrow> event_value option \<Rightarrow> timestamp \<Rightarrow> write_intent_error + unsigned_event"
  assumes supported: "revise e a src t = Inr u \<Longrightarrow> supports e"
    and own_coordinate: "supports e \<Longrightarrow> ed_kind e = kind \<and> ed_identifier e = None"
    and revision: "revise e a src t = Inr u \<Longrightarrow> ue_pubkey u = a \<and> ue_kind u = kind \<and> ue_created_at u = t \<and> ue_id u \<noteq> None
        \<and> ue_content u = (case src of None \<Rightarrow> [] | Some s \<Rightarrow> value_content s) \<and> length (ue_tags u) \<le> MAX_TAGS"
    and verified: "revise e a src t = Inr u \<Longrightarrow> unsigned_verify_id N u = Inr ()"
    and successor: "revise e a (Some s) t = Inr u \<Longrightarrow>
        value_author s = a \<and> value_kind s = kind \<and> value_verify N s = Inr () \<and> value_created_at s < t"
begin

text \<open>A revision wins over its source whatever their ids are.\<close>

lemma revision_newer:
  assumes "revise e a (Some s) t = Inr u"
  shows "event_is_newer (ue_created_at u, i) (value_created_at s, j)"
  using successor [OF assms] revision [OF assms] by simp

lemma refuses_same_time:
  assumes "value_created_at s = t"
  shows "\<exists>err. revise e a (Some s) t = Inl err"
  using successor [of e a s t] assms by (cases "revise e a (Some s) t") auto

lemma unsupported_refused: "\<not> supports e \<Longrightarrow> \<exists>err. revise e a src t = Inl err"
  using supported by (cases "revise e a src t") auto

end

text \<open>Building the revision, as all three crates do.\<close>

definition build_revision :: "nostr_lib \<Rightarrow> kind \<Rightarrow> public_key \<Rightarrow> string \<Rightarrow> tag list \<Rightarrow> timestamp \<Rightarrow> write_intent_error + unsigned_event" where
  "build_revision N k author content tags created_at =
     map_err intent_error_of_build (builder_build N (builder_from_parts author k created_at tags content))"

lemma build_revision_Inr:
  assumes "build_revision N k a content tags t = Inr u"
  shows "ue_pubkey u = a" "ue_kind u = k" "ue_created_at u = t" "ue_id u \<noteq> None" "ue_content u = content" "ue_tags u = tags"
    "length tags \<le> MAX_TAGS"
  using assms
  by (auto simp: build_revision_def builder_build_def builder_from_parts_def build_event_def ensure_id_def Let_def split: if_splits sum.splits)

text \<open>
  Two of them go through \<open>EventBuilder\<close> and add the tags one by one. The clock \<open>EventBuilder::new\<close>
  reads is overwritten by \<open>created_at\<close>.
\<close>

definition build_tagwise :: "nostr_lib \<Rightarrow> kind \<Rightarrow> public_key \<Rightarrow> string \<Rightarrow> tag list \<Rightarrow> timestamp \<Rightarrow> write_intent_error + unsigned_event" where
  "build_tagwise N k author content tags created_at =
     map_err intent_error_of_build (builder_build N
       (fold builder_tag tags (builder_by author (builder_content content (builder_created_at created_at (builder_new created_at k))))))"

lemma fold_builder_tag: "fold builder_tag tags b = b\<lparr>eb_tags := eb_tags b @ tags\<rparr>"
  by (induction tags arbitrary: b) (simp_all add: builder_tag_def builder_tags_def)

lemma build_tagwise_eq: "build_tagwise N k a content tags t = build_revision N k a content tags t"
  by (simp add: build_tagwise_def build_revision_def fold_builder_tag builder_by_def builder_content_def builder_created_at_def
      builder_new_def builder_from_parts_def)

end
