(* ===== verification/Contact_Lists.thy ===== *)
theory Contact_Lists
  imports Edit_Protocols "HOL-Library.Multiset"
begin

section \<open>Contact lists (\<open>fava-nip02\<close>)\<close>

text \<open>
  \<open>bounds.rs\<close>, \<open>contact_list.rs\<close>, \<open>edit.rs\<close> and \<open>query.rs\<close>: the encoded size of a source event,
  the decoding of a kind-3 event into follows and evidence about every other row, the edits that
  follow and unfollow with their bytes, and the applier. Public keys, relay URLs and tags are parsed
  by the \<open>nostr\<close> crate.
\<close>

subsection \<open>Bounds (\<open>bounds.rs\<close>)\<close>

definition NIP02_MAX_EVENT_BYTES :: nat where "NIP02_MAX_EVENT_BYTES = 131072"
definition MIN_EVENT_WITH_ONE_TAG_BYTES :: nat where "MIN_EVENT_WITH_ONE_TAG_BYTES = 334"
definition MAX_TAG_VALUES :: nat where "MAX_TAG_VALUES = (NIP02_MAX_EVENT_BYTES - MIN_EVENT_WITH_ONE_TAG_BYTES) div 3"
definition EMPTY_EVENT_OBJECT_BYTES :: nat where "EMPTY_EVENT_OBJECT_BYTES = 71"
definition FIXED_HEX_BYTES :: nat where "FIXED_HEX_BYTES = 64 + 64 + 128"

definition add_bytes :: "nat \<Rightarrow> nat \<Rightarrow> write_intent_error + nat" where
  "add_bytes bytes amount =
     (case checked_add_usize bytes amount of
        None \<Rightarrow> Inl (Encoding ''NIP-02 source encoded-size overflow'')
      | Some b \<Rightarrow> if b > NIP02_MAX_EVENT_BYTES then Inl (TooLarge b NIP02_MAX_EVENT_BYTES) else Inr b)"

lemma add_bytes_code [code]:
  "add_bytes bytes amount =
     (if int (bytes + amount) < 18446744073709551616
      then if int (bytes + amount) > 131072 then Inl (TooLarge (bytes + amount) NIP02_MAX_EVENT_BYTES) else Inr (bytes + amount)
      else Inl (Encoding ''NIP-02 source encoded-size overflow''))"
  by (auto simp: add_bytes_def NIP02_MAX_EVENT_BYTES_def sizes_code(1))

definition decimal_len :: "u64 \<Rightarrow> nat" where
  "decimal_len v = length (show_nat (unat v))"

text \<open>
  The encoded length of one byte of a string: a control character has an escape of two or six
  bytes, and the bytes of a longer character count one each.
\<close>

definition json_byte_len :: "char \<Rightarrow> nat" where
  "json_byte_len c =
     (let n = (of_char c :: nat) in
      if n = 34 \<or> n = 92 \<or> n = 8 \<or> n = 9 \<or> n = 10 \<or> n = 12 \<or> n = 13 then 2
      else if n < 32 then 6 else 1)"

fun add_json_chars :: "nat \<Rightarrow> string \<Rightarrow> write_intent_error + nat" where
  "add_json_chars bytes [] = Inr bytes"
| "add_json_chars bytes (c # cs) = try_then (add_bytes bytes (json_byte_len c)) (\<lambda>b. add_json_chars b cs)"

definition add_json_string :: "nat \<Rightarrow> string \<Rightarrow> write_intent_error + nat" where
  "add_json_string bytes s = try_then (add_bytes bytes 2) (\<lambda>b. add_json_chars b s)"

fun add_tag_values :: "bool \<Rightarrow> nat \<times> nat \<Rightarrow> string list \<Rightarrow> write_intent_error + nat \<times> nat" where
  "add_tag_values first st [] = Inr st"
| "add_tag_values first (bytes, values) (v # vs) =
     (case checked_add_usize values 1 of
        None \<Rightarrow> Inl (Encoding ''NIP-02 source tag-value count overflow'')
      | Some values \<Rightarrow>
          if values > MAX_TAG_VALUES then Inl (TooLarge values MAX_TAG_VALUES)
          else try_then (if first then Inr bytes else add_bytes bytes 1) (\<lambda>b.
               try_then (add_json_string b v) (\<lambda>b. add_tag_values False (b, values) vs)))"

fun add_tags :: "bool \<Rightarrow> nat \<times> nat \<Rightarrow> tag list \<Rightarrow> write_intent_error + nat \<times> nat" where
  "add_tags first st [] = Inr st"
| "add_tags first (bytes, values) (t # ts) =
     try_then (if first then Inr bytes else add_bytes bytes 1) (\<lambda>b.
     try_then (add_bytes b 2) (\<lambda>b.
     try_then (add_tag_values True (b, values) t) (\<lambda>st. add_tags False st ts)))"

definition encoded_len_parts :: "timestamp \<Rightarrow> kind \<Rightarrow> tag list \<Rightarrow> string \<Rightarrow> write_intent_error + nat" where
  "encoded_len_parts created_at k tags content =
     try_then (add_bytes EMPTY_EVENT_OBJECT_BYTES FIXED_HEX_BYTES) (\<lambda>b.
     try_then (add_bytes b (decimal_len created_at)) (\<lambda>b.
     try_then (add_bytes b (decimal_len (ucast k))) (\<lambda>b.
     try_then (add_bytes b 2) (\<lambda>b.
     try_then (add_tags True (b, 0) tags) (\<lambda>(b, _).
     add_json_string b content)))))"

definition encoded_len :: "event \<Rightarrow> write_intent_error + nat" where
  "encoded_len e = encoded_len_parts (ev_created_at e) (ev_kind e) (ev_tags e) (ev_content e)"

lemma add_tag_values_code [code]:
  "add_tag_values first st [] = Inr st"
  "add_tag_values first (bytes, values) (v # vs) =
     (case checked_add_usize values 1 of
        None \<Rightarrow> Inl (Encoding ''NIP-02 source tag-value count overflow'')
      | Some values \<Rightarrow>
          if int values > 43579 then Inl (TooLarge values MAX_TAG_VALUES)
          else try_then (if first then Inr bytes else add_bytes bytes 1) (\<lambda>b.
               try_then (add_json_string b v) (\<lambda>b. add_tag_values False (b, values) vs)))"
  by (auto simp: MAX_TAG_VALUES_def NIP02_MAX_EVENT_BYTES_def MIN_EVENT_WITH_ONE_TAG_BYTES_def split: option.split)

definition validate_signed_source :: "event \<Rightarrow> write_intent_error + unit" where
  "validate_signed_source e = try_then (encoded_len e) (\<lambda>_. Inr ())"

definition validate_value_source :: "event_value \<Rightarrow> write_intent_error + unit" where
  "validate_value_source v =
     try_then (encoded_len_parts (value_created_at v) (value_kind v) (value_tags v) (value_content v)) (\<lambda>_. Inr ())"

subsection \<open>Decoding a contact list (\<open>contact_list.rs\<close>)\<close>

record follow =
  fo_source_index :: nat
  fo_pubkey :: public_key
  fo_relay :: "relay_url option"
  fo_petname :: "string option"

datatype row_evidence =
    MissingTarget nat "string list"
  | InvalidPublicKey nat "string list"
  | InvalidRelayHint nat "string list"
  | DuplicateTarget nat "string list" public_key
  | UninterpretedExtraColumns nat "string list"

fun evidence_source_index :: "row_evidence \<Rightarrow> nat" where
  "evidence_source_index (MissingTarget i _) = i"
| "evidence_source_index (InvalidPublicKey i _) = i"
| "evidence_source_index (InvalidRelayHint i _) = i"
| "evidence_source_index (DuplicateTarget i _ _) = i"
| "evidence_source_index (UninterpretedExtraColumns i _) = i"

fun evidence_raw_row :: "row_evidence \<Rightarrow> string list" where
  "evidence_raw_row (MissingTarget _ r) = r"
| "evidence_raw_row (InvalidPublicKey _ r) = r"
| "evidence_raw_row (InvalidRelayHint _ r) = r"
| "evidence_raw_row (DuplicateTarget _ r _) = r"
| "evidence_raw_row (UninterpretedExtraColumns _ r) = r"

record contact_list =
  cl_author :: public_key
  cl_follows :: "follow list"
  cl_evidence :: "row_evidence list"

datatype contact_list_error =
    CLWrongKind u16
  | CLMissingEventId
  | CLInvalidEvent string
  | CLTooManyTags nat nat
  | CLTooLarge nat nat
  | CLEncoding string
  | CLDuplicateRelay relay_url
  | CLInvalidRoute string
  | CLUnreachable

definition parse_row :: "protocol_lib \<Rightarrow> nat \<Rightarrow> string list \<Rightarrow> public_key btree_set \<Rightarrow> row_evidence + follow" where
  "parse_row P source_index vs seen =
     try_then (ok_or (MissingTarget source_index vs) (nth_opt vs 1)) (\<lambda>raw_pubkey.
     try_then (ok_or (InvalidPublicKey source_index vs) (pl_key_from_hex P raw_pubkey)) (\<lambda>pubkey.
     try_then (case nth_opt vs 2 of
         None \<Rightarrow> Inr None
       | Some raw_relay \<Rightarrow>
           if raw_relay = [] then Inr None
           else try_then (ok_or (InvalidRelayHint source_index vs) (relay_url_parse (pl_nostr P) raw_relay)) (\<lambda>r. Inr (Some r))) (\<lambda>relay.
     if length vs > 4 then Inl (UninterpretedExtraColumns source_index vs)
     else if pubkey \<in> set seen then Inl (DuplicateTarget source_index vs pubkey)
     else Inr \<lparr>fo_source_index = source_index, fo_pubkey = pubkey, fo_relay = relay, fo_petname = nth_opt vs 3\<rparr>)))"

fun decode_rows :: "protocol_lib \<Rightarrow> (nat \<times> tag) list \<Rightarrow> public_key btree_set \<Rightarrow> follow list \<times> row_evidence list" where
  "decode_rows P [] seen = ([], [])"
| "decode_rows P ((i, vs) # rows) seen =
     (if nth_opt vs 0 \<noteq> Some ''p'' then decode_rows P rows seen
      else case parse_row P i vs seen of
        Inr f \<Rightarrow> (case decode_rows P rows (bs_insert (fo_pubkey f) seen) of (fs, es) \<Rightarrow> (f # fs, es))
      | Inl e \<Rightarrow> (case decode_rows P rows seen of (fs, es) \<Rightarrow> (fs, e # es)))"

text \<open>\<open>unreachable!\<close> is the error \<open>CLUnreachable\<close>; \<open>from_event\<close> never returns it.\<close>

fun map_build_error :: "event_build_error \<Rightarrow> contact_list_error" where
  "map_build_error (BuildTooManyTags a m) = CLTooManyTags a m"
| "map_build_error (BuildTooLarge b m) = CLTooLarge b m"
| "map_build_error (BuildEncoding r) = CLEncoding r"
| "map_build_error BuildExplicitRoutingAttached = CLUnreachable"

fun map_write_error :: "write_intent_error \<Rightarrow> contact_list_error" where
  "map_write_error (TooManyTags a m) = CLTooManyTags a m"
| "map_write_error (TooLarge b m) = CLTooLarge b m"
| "map_write_error (Encoding r) = CLEncoding r"
| "map_write_error (DuplicateExplicitRelay r) = CLDuplicateRelay r"
| "map_write_error EmptyExplicitRelays = CLInvalidRoute (write_intent_error_text EmptyExplicitRelays)"
| "map_write_error (TooManyExplicitRelays a m) = CLInvalidRoute (write_intent_error_text (TooManyExplicitRelays a m))"
| "map_write_error (TooManyRawExplicitRelays a m) = CLInvalidRoute (write_intent_error_text (TooManyRawExplicitRelays a m))"
| "map_write_error ExplicitRoutingAttached = CLInvalidRoute (write_intent_error_text ExplicitRoutingAttached)"
| "map_write_error ConflictingExplicitRoutes = CLInvalidRoute (write_intent_error_text ConflictingExplicitRoutes)"
| "map_write_error (InvalidEvent r) = CLInvalidEvent r"
| "map_write_error IntentExpired = CLInvalidEvent (write_intent_error_text IntentExpired)"

definition validate_unsigned_bound :: "protocol_lib \<Rightarrow> unsigned_event \<Rightarrow> contact_list_error + unit" where
  "validate_unsigned_bound P u =
     try_then (map_err map_build_error (builder_build (pl_nostr P)
       (builder_from_parts (ue_pubkey u) (ue_kind u) (ue_created_at u) (ue_tags u) (ue_content u)))) (\<lambda>_. Inr ())"

fun validate_contact_event :: "protocol_lib \<Rightarrow> event_value \<Rightarrow> contact_list_error + unit" where
  "validate_contact_event P (Unsigned u) =
     try_then (validate_unsigned_bound P u) (\<lambda>_.
     if ue_id u = None then Inl CLMissingEventId
     else map_err CLInvalidEvent (unsigned_verify_id (pl_nostr P) u))"
| "validate_contact_event P (Signed e) =
     try_then (map_err map_write_error (validate_signed_source e)) (\<lambda>_. map_err CLInvalidEvent (event_verify (pl_nostr P) e))"

definition contact_list_from_event :: "protocol_lib \<Rightarrow> event_value \<Rightarrow> contact_list_error + contact_list" where
  "contact_list_from_event P v =
     (if value_kind v \<noteq> kind_contact_list then Inl (CLWrongKind (value_kind v))
      else try_then (validate_contact_event P v) (\<lambda>_.
           try_then (ok_or CLMissingEventId (value_id v)) (\<lambda>_.
           let (follows, evidence) = decode_rows P (enumerate 0 (value_tags v)) [] in
           Inr \<lparr>cl_author = value_author v, cl_follows = follows, cl_evidence = evidence\<rparr>)))"

subsection \<open>Edits (\<open>edit.rs\<close>)\<close>

definition CODEC_LEN :: nat where "CODEC_LEN = 33"
definition MAX_EDIT_BYTES :: nat where "MAX_EDIT_BYTES = 131072"
definition MAX_TARGET_TEXT_BYTES :: nat where "MAX_TARGET_TEXT_BYTES = 69"

datatype contact_operation =
    AddContact
  | AddContactWith "relay_url option" "string option"
  | RemoveContact

fun contact_code :: "contact_operation \<Rightarrow> u8" where
  "contact_code AddContact = 1"
| "contact_code RemoveContact = 2"
| "contact_code (AddContactWith _ _) = 3"

record contact_change =
  ch_operation :: contact_operation
  ch_target :: public_key

definition edit_too_large :: "nat \<Rightarrow> write_intent_error" where
  "edit_too_large bytes = TooLarge bytes MAX_EDIT_BYTES"

definition metadata_encoded_len :: "relay_url option \<Rightarrow> string option \<Rightarrow> write_intent_error + nat" where
  "metadata_encoded_len relay petname =
     (let relay_len = (case relay of None \<Rightarrow> 0 | Some r \<Rightarrow> length r);
          petname_len = (case petname of None \<Rightarrow> 0 | Some p \<Rightarrow> length p);
          total = Option.bind (checked_add_usize CODEC_LEN 4) (\<lambda>len.
                  Option.bind (checked_add_usize len relay_len) (\<lambda>len.
                  Option.bind (checked_add_usize len 1) (\<lambda>len.
                  Option.bind (checked_add_usize len (if petname = None then 0 else 4)) (\<lambda>len.
                  checked_add_usize len petname_len))))
      in case total of
           None \<Rightarrow> Inl (Encoding ''NIP-02 edit size overflow'')
         | Some n \<Rightarrow> if n > MAX_EDIT_BYTES then Inl (edit_too_large n) else Inr n)"

definition encode_petname :: "string option \<Rightarrow> write_intent_error + u8 list" where
  "encode_petname petname =
     (case petname of
        None \<Rightarrow> Inr [0]
      | Some p \<Rightarrow> try_then (ok_or (edit_too_large (length p)) (u32_try_from (length p))) (\<lambda>n. Inr (1 # be32 n @ str_bytes p)))"

definition contact_encode :: "protocol_lib \<Rightarrow> contact_change \<Rightarrow> write_intent_error + u8 list" where
  "contact_encode P ch =
     (case ch_operation ch of
        AddContactWith relay petname \<Rightarrow>
          try_then (metadata_encoded_len relay petname) (\<lambda>_.
          let relay = (case relay of None \<Rightarrow> [] | Some r \<Rightarrow> r) in
          try_then (ok_or (edit_too_large (length relay)) (u32_try_from (length relay))) (\<lambda>relay_len.
          try_then (encode_petname petname) (\<lambda>pet.
          Inr (contact_code (ch_operation ch) # pl_key_bytes P (ch_target ch) @ be32 relay_len @ str_bytes relay @ pet))))
      | _ \<Rightarrow> Inr (contact_code (ch_operation ch) # pl_key_bytes P (ch_target ch)))"

definition contact_edit :: "protocol_lib \<Rightarrow> public_key \<Rightarrow> contact_operation \<Rightarrow> write_intent_error + event_edit" where
  "contact_edit P target operation =
     try_then (contact_encode P \<lparr>ch_operation = operation, ch_target = target\<rparr>) (\<lambda>change.
     event_edit_new (pl_nostr P) kind_contact_list None change)"

text \<open>\<open>BoundedTargetText\<close>: what a \<open>Display\<close> value writes arrives in pieces, and may end in an error.\<close>

fun write_target :: "string \<Rightarrow> string list \<Rightarrow> nat + string" where
  "write_target value [] = Inr value"
| "write_target value (piece # pieces) =
     (let attempted = saturating_add (length value) (length piece) in
      if attempted > MAX_TARGET_TEXT_BYTES then Inl attempted else write_target (value @ piece) pieces)"

definition parse_target :: "protocol_lib \<Rightarrow> string list \<times> bool \<Rightarrow> write_intent_error + public_key" where
  "parse_target P shown =
     (case shown of (pieces, fails) \<Rightarrow>
        case write_target [] pieces of
          Inl attempted \<Rightarrow> Inl (TooLarge attempted MAX_TARGET_TEXT_BYTES)
        | Inr value \<Rightarrow>
            if fails then Inl (InvalidEvent ''invalid NIP-02 target public key'')
            else ok_or (InvalidEvent ''invalid NIP-02 target public key'') (public_key_parse (pl_nostr P) value))"

definition follow_edit :: "protocol_lib \<Rightarrow> string list \<times> bool \<Rightarrow> write_intent_error + event_edit" where
  "follow_edit P shown = try_then (parse_target P shown) (\<lambda>target. contact_edit P target AddContact)"

definition unfollow_edit :: "protocol_lib \<Rightarrow> string list \<times> bool \<Rightarrow> write_intent_error + event_edit" where
  "unfollow_edit P shown = try_then (parse_target P shown) (\<lambda>target. contact_edit P target RemoveContact)"

definition follow_with_edit ::
  "protocol_lib \<Rightarrow> string list \<times> bool \<Rightarrow> relay_url option \<Rightarrow> string option \<Rightarrow> write_intent_error + event_edit" where
  "follow_with_edit P shown relay petname =
     try_then (parse_target P shown) (\<lambda>target.
     if relay = None \<and> petname = None then contact_edit P target AddContact
     else try_then (metadata_encoded_len relay petname) (\<lambda>_. contact_edit P target (AddContactWith relay petname)))"

definition take_length_prefixed :: "u8 list \<Rightarrow> write_intent_error + u8 list \<times> u8 list" where
  "take_length_prefixed bytes =
     (if length bytes < 4 then Inl (Encoding ''truncated NIP-02 metadata length'')
      else case checked_add_usize 4 (from_be 0 (take 4 bytes)) of
        None \<Rightarrow> Inl (Encoding ''NIP-02 metadata length overflow'')
      | Some stop \<Rightarrow>
          if length bytes < stop then Inl (Encoding ''truncated NIP-02 metadata value'')
          else Inr (drop 4 (take stop bytes), drop stop bytes))"

definition decode_relay :: "protocol_lib \<Rightarrow> u8 list \<Rightarrow> write_intent_error + relay_url option" where
  "decode_relay P bytes =
     try_then (ok_or (Encoding ''invalid NIP-02 relay encoding'') (from_utf8 bytes)) (\<lambda>text.
     if text = [] then Inr None
     else try_then (ok_or (Encoding ''invalid NIP-02 relay hint'') (relay_url_parse (pl_nostr P) text)) (\<lambda>r. Inr (Some r)))"

definition decode_petname :: "u8 list \<Rightarrow> write_intent_error + string option" where
  "decode_petname bytes =
     (case bytes of
        [] \<Rightarrow> Inl (Encoding ''malformed NIP-02 metadata edit'')
      | presence # remaining \<Rightarrow>
          if presence = 0 \<and> remaining = [] then Inr None
          else if presence = 1
          then try_then (take_length_prefixed remaining) (\<lambda>(petname, trailing).
               if trailing \<noteq> [] then Inl (Encoding ''trailing NIP-02 metadata edit bytes'')
               else try_then (ok_or (Encoding ''invalid NIP-02 petname encoding'') (from_utf8 petname)) (\<lambda>t. Inr (Some t)))
          else Inl (Encoding ''invalid NIP-02 petname presence''))"

definition decode_metadata :: "protocol_lib \<Rightarrow> u8 list \<Rightarrow> write_intent_error + contact_operation" where
  "decode_metadata P bytes =
     try_then (take_length_prefixed bytes) (\<lambda>(relay_bytes, remaining).
     try_then (decode_relay P relay_bytes) (\<lambda>relay.
     try_then (decode_petname remaining) (\<lambda>petname. Inr (AddContactWith relay petname))))"

definition contact_decode :: "protocol_lib \<Rightarrow> u8 list \<Rightarrow> write_intent_error + contact_change" where
  "contact_decode P bytes =
     (if length bytes < CODEC_LEN then Inl (Encoding ''malformed NIP-02 edit'')
      else try_then (ok_or (Encoding ''invalid NIP-02 target public key'') (pl_key_from_slice P (drop 1 (take CODEC_LEN bytes)))) (\<lambda>target.
           try_then (if hd bytes = 1 \<and> length bytes = CODEC_LEN then Inr AddContact
             else if hd bytes = 2 \<and> length bytes = CODEC_LEN then Inr RemoveContact
             else if hd bytes = 3 then decode_metadata P (drop CODEC_LEN bytes)
             else Inl (Encoding ''unknown NIP-02 edit operation'')) (\<lambda>operation.
           Inr \<lparr>ch_operation = operation, ch_target = target\<rparr>)))"

definition contact_validate_coordinate :: "event_edit \<Rightarrow> write_intent_error + unit" where
  "contact_validate_coordinate e =
     (if ed_kind e = kind_contact_list \<and> ed_identifier e = None then Inr ()
      else Inl (InvalidEvent ''NIP-02 edit requires a non-addressable kind-3 coordinate''))"

definition contact_decode_edit :: "protocol_lib \<Rightarrow> event_edit \<Rightarrow> write_intent_error + contact_change" where
  "contact_decode_edit P e = try_then (contact_validate_coordinate e) (\<lambda>_. contact_decode P (ed_change e))"

definition contact_supports :: "protocol_lib \<Rightarrow> event_edit \<Rightarrow> bool" where
  "contact_supports P e = (case contact_decode_edit P e of Inl _ \<Rightarrow> False | Inr _ \<Rightarrow> True)"

definition contact_source :: "protocol_lib \<Rightarrow> public_key \<Rightarrow> event_value option \<Rightarrow> timestamp \<Rightarrow> write_intent_error + string \<times> tag list" where
  "contact_source P author source created_at =
     (case source of
        None \<Rightarrow> Inr ([], [])
      | Some v \<Rightarrow>
          try_then (validate_value_source v) (\<lambda>_.
          try_then (map_err InvalidEvent (value_verify (pl_nostr P) v)) (\<lambda>_.
          if value_author v \<noteq> author \<or> value_kind v \<noteq> kind_contact_list
          then Inl (InvalidEvent ''NIP-02 source author or kind does not match accepted write'')
          else if created_at \<le> value_created_at v
          then Inl (InvalidEvent ''NIP-02 revision timestamp must succeed its source'')
          else Inr (value_content v, value_tags v))))"

definition contact_targets :: "protocol_lib \<Rightarrow> public_key \<Rightarrow> tag \<Rightarrow> bool" where
  "contact_targets P target t \<longleftrightarrow> nth_opt t 0 = Some ''p'' \<and> Option.bind (nth_opt t 1) (pl_key_from_hex P) = Some target"

definition contact_row_values :: "protocol_lib \<Rightarrow> contact_change \<Rightarrow> string list" where
  "contact_row_values P ch =
     [''p'', public_key_to_hex (pl_nostr P) (ch_target ch)]
     @ (case ch_operation ch of
          AddContactWith relay petname \<Rightarrow>
            (if relay \<noteq> None \<or> petname \<noteq> None then [case relay of None \<Rightarrow> [] | Some r \<Rightarrow> r] else [])
            @ (case petname of None \<Rightarrow> [] | Some p \<Rightarrow> [p])
        | _ \<Rightarrow> [])"

definition contact_canonical_row :: "protocol_lib \<Rightarrow> contact_change \<Rightarrow> write_intent_error + tag" where
  "contact_canonical_row P ch = map_err (\<lambda>_. Encoding ''invalid NIP-02 contact row'') (pl_tag_parse P (contact_row_values P ch))"

definition contact_apply_tags :: "protocol_lib \<Rightarrow> tag list \<Rightarrow> contact_change \<Rightarrow> write_intent_error + tag list" where
  "contact_apply_tags P source ch =
     (let matching = length (List.filter (contact_targets P (ch_target ch)) source);
          keep = (ch_operation ch \<noteq> RemoveContact) in
      try_then (ok_or (Encoding ''NIP-02 output tag count overflow'')
        (Option.bind (checked_sub_usize (length source) matching) (\<lambda>n. checked_add_usize n (if keep then 1 else 0)))) (\<lambda>capacity.
      upsert_row (contact_targets P (ch_target ch)) id keep (contact_canonical_row P ch) source))"

definition contact_apply ::
  "protocol_lib \<Rightarrow> event_edit \<Rightarrow> public_key \<Rightarrow> event_value option \<Rightarrow> timestamp \<Rightarrow> write_intent_error + unsigned_event" where
  "contact_apply P e author source created_at =
     try_then (contact_decode_edit P e) (\<lambda>ch.
     try_then (contact_source P author source created_at) (\<lambda>(content, source_tags).
     try_then (contact_apply_tags P source_tags ch) (\<lambda>tags.
     try_then (build_tagwise (pl_nostr P) kind_contact_list author content tags created_at) (\<lambda>u.
     try_then (map_err InvalidEvent (unsigned_verify_id (pl_nostr P) u)) (\<lambda>_. Inr u)))))"

subsection \<open>Queries (\<open>query.rs\<close>)\<close>

definition contact_list_query :: "public_key list \<Rightarrow> query_error + query" where
  "contact_list_query authors = try_then (query_kinds [kind_contact_list] query_events) (query_authors authors)"

definition followers_of :: "protocol_lib \<Rightarrow> public_key \<Rightarrow> query_error + query" where
  "followers_of P subject =
     try_then (query_kinds [kind_contact_list] query_events)
       (query_tag_values (CHR ''p'', False) [public_key_to_hex (pl_nostr P) subject])"

definition follows_of :: "protocol_lib \<Rightarrow> event_value list \<Rightarrow> public_key list" where
  "follows_of P events =
     concat (map (\<lambda>v. case contact_list_from_event P v of Inl _ \<Rightarrow> [] | Inr l \<Rightarrow> map fo_pubkey (cl_follows l)) events)"

subsection \<open>The applier keeps the contract\<close>

lemma contact_decode_edit_coordinate:
  "contact_decode_edit P e = Inr ch \<Longrightarrow> ed_kind e = kind_contact_list \<and> ed_identifier e = None"
  by (auto simp: contact_decode_edit_def contact_validate_coordinate_def try_then_Inr_iff split: if_splits)

lemma contact_apply_Inr:
  assumes "contact_apply P e a src t = Inr u"
  obtains ch content tags where "contact_decode_edit P e = Inr ch" "contact_source P a src t = Inr (content, tags)"
    "contact_apply_tags P tags ch = Inr (ue_tags u)" "build_revision (pl_nostr P) kind_contact_list a content (ue_tags u) t = Inr u"
    "unsigned_verify_id (pl_nostr P) u = Inr ()"
proof -
  from assms obtain ch content tags out where "contact_decode_edit P e = Inr ch" "contact_source P a src t = Inr (content, tags)"
    "contact_apply_tags P tags ch = Inr out" "build_revision (pl_nostr P) kind_contact_list a content out t = Inr u"
    "unsigned_verify_id (pl_nostr P) u = Inr ()"
    by (auto simp: contact_apply_def try_then_Inr_iff build_tagwise_eq)
  with build_revision_Inr(6) that show thesis by metis
qed

lemma contact_source_Inr:
  assumes "contact_source P a src t = Inr (content, tags)"
  shows "case src of None \<Rightarrow> content = [] \<and> tags = []
    | Some v \<Rightarrow> content = value_content v \<and> tags = value_tags v \<and> value_author v = a \<and> value_kind v = kind_contact_list
        \<and> value_verify (pl_nostr P) v = Inr () \<and> value_created_at v < t"
  using assms by (auto simp: contact_source_def try_then_Inr_iff not_le split: option.splits if_splits)

interpretation contact: edit_applier "pl_nostr P" kind_contact_list "contact_supports P" "contact_apply P" for P
proof
  fix e a src t u s
  show "contact_supports P e \<Longrightarrow> ed_kind e = kind_contact_list \<and> ed_identifier e = None"
    using contact_decode_edit_coordinate by (auto simp: contact_supports_def split: sum.splits)
  assume ok: "contact_apply P e a src t = Inr u"
  from contact_apply_Inr [OF ok] obtain ch content tags where parts: "contact_decode_edit P e = Inr ch"
    "contact_source P a src t = Inr (content, tags)"
    "build_revision (pl_nostr P) kind_contact_list a content (ue_tags u) t = Inr u" "unsigned_verify_id (pl_nostr P) u = Inr ()" .
  from parts(1) show "contact_supports P e" by (simp add: contact_supports_def)
  from parts(4) show "unsigned_verify_id (pl_nostr P) u = Inr ()" .
  from contact_source_Inr [OF parts(2)] build_revision_Inr [OF parts(3)]
  show "ue_pubkey u = a \<and> ue_kind u = kind_contact_list \<and> ue_created_at u = t \<and> ue_id u \<noteq> None
      \<and> ue_content u = (case src of None \<Rightarrow> [] | Some s \<Rightarrow> value_content s) \<and> length (ue_tags u) \<le> MAX_TAGS"
    by (simp split: option.splits)
next
  fix e a s t u
  assume "contact_apply P e a (Some s) t = Inr u"
  then obtain ch content tags where "contact_source P a (Some s) t = Inr (content, tags)" by (elim contact_apply_Inr)
  from contact_source_Inr [OF this]
  show "value_author s = a \<and> value_kind s = kind_contact_list \<and> value_verify (pl_nostr P) s = Inr () \<and> value_created_at s < t"
    by simp
qed

subsection \<open>Rows\<close>

lemma contact_canonical_targets:
  assumes "protocol_laws P" "contact_canonical_row P ch = Inr row"
  shows "contact_targets P (ch_target ch) row"
proof -
  from assms have "row = contact_row_values P ch" by (auto simp: contact_canonical_row_def protocol_laws_def)
  with assms(1) show ?thesis by (auto simp: protocol_laws_def contact_targets_def contact_row_values_def nth_opt_def)
qed

text \<open>
  (C33) An edit that follows leaves exactly one row for its target and an edit that unfollows leaves none;
  every other tag of the source stays, in its order, and the output has exactly the length the code
  reserves. Applying the same edit again changes nothing.
\<close>

theorem contact_apply_tags_spec:
  assumes "protocol_laws P" "contact_apply_tags P source ch = Inr out"
  shows "List.filter (\<lambda>t. \<not> contact_targets P (ch_target ch) t) out = List.filter (\<lambda>t. \<not> contact_targets P (ch_target ch) t) source
     \<and> length (List.filter (contact_targets P (ch_target ch)) out) = (if ch_operation ch = RemoveContact then 0 else 1)
     \<and> length out = length source - length (List.filter (contact_targets P (ch_target ch)) source)
         + (if ch_operation ch = RemoveContact then 0 else 1)
     \<and> contact_apply_tags P out ch = Inr out"
proof -
  let ?m = "contact_targets P (ch_target ch)" and ?keep = "ch_operation ch \<noteq> RemoveContact"
  from assms(2) have up: "upsert_row ?m id ?keep (contact_canonical_row P ch) source = Inr out"
    and cap: "length source - length (List.filter ?m source) + (if ?keep then 1 else 0) < 2 ^ 64"
    by (auto simp: contact_apply_tags_def Let_def try_then_Inr_iff checked_add_usize_def checked_sub_usize_def bind_eq_Some_conv split: if_splits)
  note spec = upsert_row_spec [OF up, simplified, OF contact_canonical_targets [OF assms(1)]]
  have "upsert_row ?m id ?keep (contact_canonical_row P ch) out = Inr out"
    using spec(2) by (intro upsert_row_stable) simp_all
  moreover have "length (List.filter ?m out) \<le> length out" by (rule length_filter_le)
  ultimately have "contact_apply_tags P out ch = Inr out"
    using spec cap by (auto simp: contact_apply_tags_def Let_def checked_add_usize_def checked_sub_usize_def ok_or_def)
  with spec show ?thesis by auto
qed

text \<open>A follow comes from a row that names its key.\<close>

lemma parse_row_Inr:
  assumes "parse_row P i vs seen = Inr f"
  shows "fo_source_index f = i" "Option.bind (nth_opt vs 1) (pl_key_from_hex P) = Some (fo_pubkey f)" "fo_pubkey f \<notin> set seen"
    "fo_petname f = nth_opt vs 3" "length vs \<le> 4"
  using assms by (auto simp: parse_row_def try_then_Inr_iff split: if_splits)

lemma parse_row_Inl: "parse_row P i vs seen = Inl e \<Longrightarrow> evidence_source_index e = i \<and> evidence_raw_row e = vs"
  by (auto simp: parse_row_def ok_or_def try_then_def split: option.splits if_splits)

definition is_p_row :: "tag \<Rightarrow> bool" where
  "is_p_row vs \<longleftrightarrow> nth_opt vs 0 = Some ''p''"

lemma decode_rows_conserves:
  assumes "decode_rows P rows seen = (fs, es)"
  shows "mset (map fo_source_index fs @ map evidence_source_index es) = mset (map fst (List.filter (is_p_row \<circ> snd) rows))"
    and "e \<in> set es \<Longrightarrow> (evidence_source_index e, evidence_raw_row e) \<in> set rows"
    and "distinct (map fo_pubkey fs) \<and> fo_pubkey ` set fs \<inter> set seen = {}"
    and "f \<in> set fs \<Longrightarrow> \<exists>vs. (fo_source_index f, vs) \<in> set rows \<and> contact_targets P (fo_pubkey f) vs \<and> fo_petname f = nth_opt vs 3 \<and> length vs \<le> 4"
proof -
  have "mset (map fo_source_index fs @ map evidence_source_index es) = mset (map fst (List.filter (is_p_row \<circ> snd) rows))
      \<and> (\<forall>e\<in>set es. (evidence_source_index e, evidence_raw_row e) \<in> set rows)
      \<and> distinct (map fo_pubkey fs) \<and> fo_pubkey ` set fs \<inter> set seen = {}
      \<and> (\<forall>f\<in>set fs. \<exists>vs. (fo_source_index f, vs) \<in> set rows \<and> contact_targets P (fo_pubkey f) vs \<and> fo_petname f = nth_opt vs 3 \<and> length vs \<le> 4)"
    using assms
  proof (induction P rows seen arbitrary: fs es rule: decode_rows.induct)
    case (2 P i vs rows seen)
    show ?case
    proof (cases "nth_opt vs 0 = Some ''p''")
      case False
      with 2 show ?thesis by (auto simp: is_p_row_def)
    next
      case p: True
      show ?thesis
      proof (cases "parse_row P i vs seen")
        case (Inl e)
        obtain fs' es' where rest: "decode_rows P rows seen = (fs', es')" by (cases "decode_rows P rows seen")
        with 2(2) [OF _ Inl rest] 2(4) Inl p parse_row_Inl [OF Inl] show ?thesis by (auto simp: is_p_row_def)
      next
        case (Inr f)
        obtain fs' es' where rest: "decode_rows P rows (bs_insert (fo_pubkey f) seen) = (fs', es')"
          by (cases "decode_rows P rows (bs_insert (fo_pubkey f) seen)")
        note f = parse_row_Inr [OF Inr]
        from 2(3) [OF _ Inr rest] p
        have ih: "mset (map fo_source_index fs' @ map evidence_source_index es') = mset (map fst (List.filter (is_p_row \<circ> snd) rows))"
          "\<forall>e\<in>set es'. (evidence_source_index e, evidence_raw_row e) \<in> set rows"
          "distinct (map fo_pubkey fs')" "fo_pubkey ` set fs' \<inter> set (bs_insert (fo_pubkey f) seen) = {}"
          "\<forall>f\<in>set fs'. \<exists>vs. (fo_source_index f, vs) \<in> set rows \<and> contact_targets P (fo_pubkey f) vs \<and> fo_petname f = nth_opt vs 3 \<and> length vs \<le> 4"
          by simp_all
        have out: "fs = f # fs'" "es = es'" using 2(4) Inr p rest by simp_all
        have "contact_targets P (fo_pubkey f) vs" using p f(2) by (simp add: contact_targets_def)
        with ih out f p show ?thesis by (auto simp: is_p_row_def)
      qed
    qed
  qed simp
  then show "mset (map fo_source_index fs @ map evidence_source_index es) = mset (map fst (List.filter (is_p_row \<circ> snd) rows))"
    "e \<in> set es \<Longrightarrow> (evidence_source_index e, evidence_raw_row e) \<in> set rows"
    "distinct (map fo_pubkey fs) \<and> fo_pubkey ` set fs \<inter> set seen = {}"
    "f \<in> set fs \<Longrightarrow> \<exists>vs. (fo_source_index f, vs) \<in> set rows \<and> contact_targets P (fo_pubkey f) vs \<and> fo_petname f = nth_opt vs 3 \<and> length vs \<le> 4"
    by blast+
qed

lemma contact_list_never_panics: "contact_list_from_event P v \<noteq> Inl CLUnreachable"
proof -
  have "map_build_error e \<noteq> CLUnreachable" if "builder_build N (builder_from_parts a k t ts c) = Inl e" for N a k t ts c e
    using that by (auto simp: builder_build_def builder_from_parts_def build_event_def Let_def split: if_splits sum.splits)
  moreover have "map_write_error e \<noteq> CLUnreachable" for e by (cases e) auto
  ultimately show ?thesis
    by (cases v) (auto simp: contact_list_from_event_def validate_unsigned_bound_def try_then_def map_err_def ok_or_def
        split: if_splits sum.splits option.splits prod.splits)
qed

text \<open>
  Decoding loses no row and invents none: the positions of the follows and of the evidence together
  are exactly the positions of the \<open>p\<close> rows, once each, evidence carries the row as it was, every
  follow names the key of its row, and no key is followed twice.
\<close>

theorem contact_list_conserves_rows:
  assumes "contact_list_from_event P v = Inr l"
  shows "mset (map fo_source_index (cl_follows l) @ map evidence_source_index (cl_evidence l)) =
       mset (List.filter (\<lambda>i. is_p_row (value_tags v ! i)) [0..<length (value_tags v)])
     \<and> (\<forall>e\<in>set (cl_evidence l). nth_opt (value_tags v) (evidence_source_index e) = Some (evidence_raw_row e))
     \<and> (\<forall>f\<in>set (cl_follows l). \<exists>vs. nth_opt (value_tags v) (fo_source_index f) = Some vs \<and> contact_targets P (fo_pubkey f) vs)
     \<and> distinct (map fo_pubkey (cl_follows l))"
proof -
  obtain fs es where rows: "decode_rows P (enumerate 0 (value_tags v)) [] = (fs, es)"
    by (cases "decode_rows P (enumerate 0 (value_tags v)) []")
  with assms have l: "cl_follows l = fs" "cl_evidence l = es"
    by (auto simp: contact_list_from_event_def try_then_Inr_iff split: if_splits)
  have at: "(i, vs) \<in> set (enumerate 0 (value_tags v)) \<longleftrightarrow> nth_opt (value_tags v) i = Some vs" for i vs
    by (auto simp: in_set_enumerate_eq nth_opt_def)
  have "map fst (List.filter (is_p_row \<circ> snd) (enumerate 0 ts)) = List.filter (\<lambda>i. is_p_row (ts ! i)) [0..<length ts]" for ts
  proof -
    have "enumerate 0 ts = map (\<lambda>i. (i, ts ! i)) [0..<length ts]"
      by (rule nth_equalityI) (simp_all add: nth_enumerate_eq)
    then show ?thesis by (simp add: filter_map comp_def)
  qed
  with decode_rows_conserves(1) [OF rows] decode_rows_conserves(3) [OF rows] decode_rows_conserves(2) [OF rows, unfolded at]
  have "mset (map fo_source_index fs @ map evidence_source_index es) =
      mset (List.filter (\<lambda>i. is_p_row (value_tags v ! i)) [0..<length (value_tags v)])"
    "distinct (map fo_pubkey fs)" "\<forall>e\<in>set es. nth_opt (value_tags v) (evidence_source_index e) = Some (evidence_raw_row e)"
    by simp_all
  moreover have "\<forall>f\<in>set fs. \<exists>vs. nth_opt (value_tags v) (fo_source_index f) = Some vs \<and> contact_targets P (fo_pubkey f) vs"
    using decode_rows_conserves(4) [OF rows, unfolded at] by blast
  ultimately show ?thesis unfolding l by blast
qed

text \<open>
  Following a key whose first row the decoder refuses, because it has extra columns, keeps that row
  and drops every other row of the key: the key is not followed afterwards, even when a valid row
  made it followed before.
\<close>

theorem follow_keeps_refused_row:
  assumes "protocol_laws P" "contact_apply_tags P source \<lparr>ch_operation = operation, ch_target = target\<rparr> = Inr out"
    and "operation \<noteq> RemoveContact" "source = xs @ x # ys" "\<forall>t\<in>set xs. \<not> contact_targets P target t"
    and "contact_targets P target x" "length x > 4"
  shows "target \<notin> fo_pubkey ` set (fst (decode_rows P (enumerate 0 out) []))"
proof
  assume "target \<in> fo_pubkey ` set (fst (decode_rows P (enumerate 0 out) []))"
  then obtain f where f: "f \<in> set (fst (decode_rows P (enumerate 0 out) []))" "fo_pubkey f = target" by blast
  obtain fs es where rows: "decode_rows P (enumerate 0 out) [] = (fs, es)" by (cases "decode_rows P (enumerate 0 out) []")
  have out: "out = xs @ x # List.filter (\<lambda>t. \<not> contact_targets P target t) ys"
    using assms(2-6) by (auto simp: contact_apply_tags_def Let_def try_then_Inr_iff upsert_row_def collapse_first)
  have "f \<in> set fs" using f(1) rows by simp
  from decode_rows_conserves(4) [OF rows this] f(2) obtain vs where vs: "(fo_source_index f, vs) \<in> set (enumerate 0 out)"
    "contact_targets P target vs" "length vs \<le> 4" by blast
  then have "vs \<in> set out" by (auto simp: in_set_enumerate_eq)
  with vs(2,3) assms(5,7) out show False by auto
qed

subsection \<open>Bytes of an edit\<close>

lemma take_length_prefixed_append:
  assumes "length xs < 2 ^ 32"
  shows "take_length_prefixed (be32 (length xs) @ xs @ ys) = Inr (xs, ys)"
  using assms by (simp add: take_length_prefixed_def checked_add_usize_def)

lemma contact_encode_metadata:
  assumes "contact_encode P \<lparr>ch_operation = AddContactWith relay petname, ch_target = k\<rparr> = Inr bytes"
  obtains pet where "encode_petname petname = Inr pet" "length (case relay of None \<Rightarrow> [] | Some r \<Rightarrow> r) < 2 ^ 32"
    "bytes = 3 # pl_key_bytes P k @ be32 (length (case relay of None \<Rightarrow> [] | Some r \<Rightarrow> r)) @ str_bytes (case relay of None \<Rightarrow> [] | Some r \<Rightarrow> r) @ pet"
  using assms by (auto simp: contact_encode_def try_then_Inr_iff u32_try_from_def Let_def split: if_splits)

lemma decode_petname_encode:
  assumes "encode_petname petname = Inr pet" "case petname of None \<Rightarrow> True | Some p \<Rightarrow> is_str p"
  shows "decode_petname pet = Inr petname"
proof (cases petname)
  case None
  with assms show ?thesis by (auto simp: encode_petname_def decode_petname_def)
next
  case (Some p)
  with assms have pet: "pet = 1 # be32 (length p) @ str_bytes p" "length p < 2 ^ 32" "is_str p"
    by (auto simp: encode_petname_def try_then_Inr_iff u32_try_from_def split: if_splits)
  have "take_length_prefixed (be32 (length p) @ str_bytes p) = Inr (str_bytes p, [])"
    using take_length_prefixed_append [of "str_bytes p" "[]"] pet(2) by simp
  with pet Some show ?thesis by (simp add: decode_petname_def)
qed

lemma decode_relay_encode:
  assumes "case relay of None \<Rightarrow> True | Some r \<Rightarrow> a_relay P r"
  shows "decode_relay P (str_bytes (case relay of None \<Rightarrow> [] | Some r \<Rightarrow> r)) = Inr relay"
proof -
  have "is_str []" by (simp add: is_str_def str_bytes_def)
  with assms show ?thesis by (auto simp: decode_relay_def a_relay_def split: option.splits)
qed

text \<open>
  Every edit the crate produces decodes to the operation and the target it was made from, is
  supported by the applier, and fits the bound of an edit.
\<close>

theorem contact_edit_roundtrip:
  assumes "protocol_laws P" "contact_edit P target operation = Inr e"
    and "\<And>r pet. operation = AddContactWith (Some r) pet \<Longrightarrow> a_relay P r" "\<And>r p. operation = AddContactWith r (Some p) \<Longrightarrow> is_str p"
  shows "contact_decode_edit P e = Inr \<lparr>ch_operation = operation, ch_target = target\<rparr> \<and> contact_supports P e
     \<and> length (ed_change e) \<le> MAX_EDIT_BYTES"
proof -
  from assms(2) obtain bytes where bytes: "contact_encode P \<lparr>ch_operation = operation, ch_target = target\<rparr> = Inr bytes"
    and e: "event_edit_new (pl_nostr P) kind_contact_list None bytes = Inr e"
    by (auto simp: contact_edit_def try_then_Inr_iff)
  from e have fields: "ed_kind e = kind_contact_list" "ed_identifier e = None" "ed_change e = bytes" "length bytes \<le> MAX_EDIT_BYTES"
    by (auto simp: event_edit_new_def validate_bytes_def MAX_EVENT_BYTES_def MAX_EDIT_BYTES_def split: sum.splits if_splits)
  have key: "length (pl_key_bytes P target) = 32" "pl_key_from_slice P (pl_key_bytes P target) = Some target"
    using assms(1) by (simp_all add: protocol_laws_def)
  have "contact_decode P bytes = Inr \<lparr>ch_operation = operation, ch_target = target\<rparr>"
  proof (cases operation)
    case (AddContactWith relay petname)
    from bytes [unfolded AddContactWith] obtain pet where pet: "encode_petname petname = Inr pet"
      and len: "length (case relay of None \<Rightarrow> [] | Some r \<Rightarrow> r) < 2 ^ 32"
      and b: "bytes = 3 # pl_key_bytes P target @ be32 (length (case relay of None \<Rightarrow> [] | Some r \<Rightarrow> r)) @ str_bytes (case relay of None \<Rightarrow> [] | Some r \<Rightarrow> r) @ pet"
      by (rule contact_encode_metadata)
    have "decode_petname pet = Inr petname"
      using decode_petname_encode [OF pet] assms(4) AddContactWith by (cases petname) auto
    moreover have "decode_relay P (str_bytes (case relay of None \<Rightarrow> [] | Some r \<Rightarrow> r)) = Inr relay"
      using decode_relay_encode [where relay = relay and P = P] assms(3) AddContactWith by (cases relay) auto
    moreover have "take_length_prefixed (drop CODEC_LEN bytes) = Inr (str_bytes (case relay of None \<Rightarrow> [] | Some r \<Rightarrow> r), pet)"
      using take_length_prefixed_append [of "str_bytes (case relay of None \<Rightarrow> [] | Some r \<Rightarrow> r)" pet] len key(1)
      by (simp add: b CODEC_LEN_def)
    ultimately have "decode_metadata P (drop CODEC_LEN bytes) = Inr operation"
      by (simp add: decode_metadata_def AddContactWith)
    with key show ?thesis by (simp add: contact_decode_def b CODEC_LEN_def AddContactWith)
  qed (use bytes key in \<open>auto simp: contact_encode_def contact_decode_def CODEC_LEN_def\<close>)
  with fields show ?thesis by (simp add: contact_decode_edit_def contact_validate_coordinate_def contact_supports_def)
qed

subsection \<open>The encoded size\<close>

definition json_len :: "string \<Rightarrow> nat" where
  "json_len s = 2 + sum_list (map json_byte_len s)"

definition values_len :: "bool \<Rightarrow> string list \<Rightarrow> nat" where
  "values_len first vs = sum_list (map json_len vs) + (if first then length vs - 1 else length vs)"

definition tags_len :: "bool \<Rightarrow> tag list \<Rightarrow> nat" where
  "tags_len first ts = sum_list (map (\<lambda>t. 2 + values_len True t) ts) + (if first then length ts - 1 else length ts)"

definition event_len :: "timestamp \<Rightarrow> kind \<Rightarrow> tag list \<Rightarrow> string \<Rightarrow> nat" where
  "event_len created_at k tags content =
     EMPTY_EVENT_OBJECT_BYTES + FIXED_HEX_BYTES + decimal_len created_at + decimal_len (ucast k) + 2 + tags_len True tags + json_len content"

lemma add_bytes_Inr: "add_bytes b n = Inr b' \<longleftrightarrow> b' = b + n \<and> b + n \<le> NIP02_MAX_EVENT_BYTES"
  by (auto simp: add_bytes_def checked_add_usize_def NIP02_MAX_EVENT_BYTES_def)

lemma add_json_chars_Inr:
  "b \<le> NIP02_MAX_EVENT_BYTES \<Longrightarrow>
     add_json_chars b s = Inr b' \<longleftrightarrow> b' = b + sum_list (map json_byte_len s) \<and> b' \<le> NIP02_MAX_EVENT_BYTES"
  by (induction s arbitrary: b) (auto simp: try_then_Inr_iff add_bytes_Inr)

lemma add_json_string_Inr: "add_json_string b s = Inr b' \<longleftrightarrow> b' = b + json_len s \<and> b' \<le> NIP02_MAX_EVENT_BYTES"
  by (auto simp: add_json_string_def try_then_Inr_iff add_bytes_Inr add_json_chars_Inr json_len_def)

lemma add_tag_values_Inr:
  assumes "b \<le> NIP02_MAX_EVENT_BYTES" "c \<le> MAX_TAG_VALUES"
  shows "add_tag_values first (b, c) vs = Inr (b', c') \<longleftrightarrow>
     b' = b + values_len first vs \<and> c' = c + length vs \<and> b' \<le> NIP02_MAX_EVENT_BYTES \<and> c' \<le> MAX_TAG_VALUES"
  using assms
proof (induction vs arbitrary: first b c)
  case (Cons v vs)
  have small: "c + 1 < 2 ^ 64" using Cons.prems(2) by (simp add: MAX_TAG_VALUES_def NIP02_MAX_EVENT_BYTES_def MIN_EVENT_WITH_ONE_TAG_BYTES_def)
  have step: "add_tag_values first (b, c) (v # vs) = Inr (b', c') \<longleftrightarrow>
      c + 1 \<le> MAX_TAG_VALUES \<and> b + (if first then 0 else 1) + json_len v \<le> NIP02_MAX_EVENT_BYTES
      \<and> add_tag_values False (b + (if first then 0 else 1) + json_len v, c + 1) vs = Inr (b', c')"
    using small Cons.prems(1)
    by (auto simp: checked_add_usize_def try_then_Inr_iff add_bytes_Inr add_json_string_Inr not_less)
  show ?case
  proof (cases "c + 1 \<le> MAX_TAG_VALUES \<and> b + (if first then 0 else 1) + json_len v \<le> NIP02_MAX_EVENT_BYTES")
    case True
    with Cons.IH [of "b + (if first then 0 else 1) + json_len v" "c + 1" False] step show ?thesis
      by (auto simp: values_len_def)
  next
    case False
    with step show ?thesis by (auto simp: values_len_def)
  qed
qed (auto simp: values_len_def)

lemma add_tags_Inr:
  assumes "b \<le> NIP02_MAX_EVENT_BYTES" "c \<le> MAX_TAG_VALUES"
  shows "add_tags first (b, c) ts = Inr (b', c') \<longleftrightarrow>
     b' = b + tags_len first ts \<and> c' = c + length (concat ts) \<and> b' \<le> NIP02_MAX_EVENT_BYTES \<and> c' \<le> MAX_TAG_VALUES"
  using assms
proof (induction ts arbitrary: first b c)
  case (Cons t ts)
  define b1 where "b1 = b + (if first then 0 else 1) + 2"
  have step: "add_tags first (b, c) (t # ts) = Inr (b', c') \<longleftrightarrow>
      b1 \<le> NIP02_MAX_EVENT_BYTES \<and> (\<exists>st. add_tag_values True (b1, c) t = Inr st \<and> add_tags False st ts = Inr (b', c'))"
    using Cons.prems(1) by (auto simp: try_then_Inr_iff add_bytes_Inr b1_def)
  have vals: "(\<exists>st. add_tag_values True (b1, c) t = Inr st \<and> add_tags False st ts = Inr (b', c')) \<longleftrightarrow>
      b1 + values_len True t \<le> NIP02_MAX_EVENT_BYTES \<and> c + length t \<le> MAX_TAG_VALUES
      \<and> add_tags False (b1 + values_len True t, c + length t) ts = Inr (b', c')" if "b1 \<le> NIP02_MAX_EVENT_BYTES"
    by (auto simp: split_paired_Ex add_tag_values_Inr [OF that Cons.prems(2)])
  show ?case
  proof (cases "b1 + values_len True t \<le> NIP02_MAX_EVENT_BYTES \<and> c + length t \<le> MAX_TAG_VALUES")
    case True
    with Cons.IH [of "b1 + values_len True t" "c + length t" False] step vals show ?thesis by (auto simp: tags_len_def b1_def)
  next
    case False
    with step vals have "add_tags first (b, c) (t # ts) \<noteq> Inr (b', c')" by blast
    moreover have "\<not> (b' = b + tags_len first (t # ts) \<and> c' = c + length (concat (t # ts)) \<and> b' \<le> NIP02_MAX_EVENT_BYTES \<and> c' \<le> MAX_TAG_VALUES)"
      using False by (auto simp: tags_len_def b1_def)
    ultimately show ?thesis by blast
  qed
qed (auto simp: tags_len_def)

text \<open>Three bytes for every tag value, and the smallest event.\<close>

lemma tag_values_cost: "ts \<noteq> [] \<Longrightarrow> 3 * length (concat ts) \<le> tags_len True ts"
proof -
  have "3 * length t \<le> 1 + values_len True t" for t
  proof -
    have "2 * length t \<le> sum_list (map json_len t)" by (induction t) (auto simp: json_len_def)
    then show ?thesis by (cases t) (auto simp: values_len_def)
  qed
  then have "3 * length (concat ts) \<le> sum_list (map (\<lambda>t. 2 + values_len True t) ts) " for ts
    by (induction ts) (auto simp: add_mono le_SucI intro: le_trans [OF add_mono])
  then show ?thesis by (simp add: tags_len_def trans_le_add1)
qed

text \<open>
  The incremental measure accepts an event exactly when the length of its JSON encoding fits the
  bound, and then is that length. In particular the bound on the number of tag values refuses no
  event that fits.
\<close>

theorem encoded_len_exact:
  "encoded_len_parts created_at k tags content = Inr n \<longleftrightarrow>
     n = event_len created_at k tags content \<and> event_len created_at k tags content \<le> NIP02_MAX_EVENT_BYTES"
proof -
  define b where "b = EMPTY_EVENT_OBJECT_BYTES + FIXED_HEX_BYTES + decimal_len created_at + decimal_len (ucast k) + 2"
  have "show_nat m \<noteq> []" for m by (subst show_nat.simps) simp
  then have dec: "1 \<le> decimal_len v" for v by (simp add: decimal_len_def Suc_le_eq)
  have parts: "encoded_len_parts created_at k tags content = Inr n \<longleftrightarrow>
      b \<le> NIP02_MAX_EVENT_BYTES \<and> (\<exists>st. add_tags True (b, 0) tags = Inr st \<and> add_json_string (fst st) content = Inr n)"
    by (auto simp: encoded_len_parts_def try_then_Inr_iff add_bytes_Inr b_def split: prod.splits)
  have counted: "length (concat tags) \<le> MAX_TAG_VALUES" if "event_len created_at k tags content \<le> NIP02_MAX_EVENT_BYTES"
  proof (cases "tags = []")
    case False
    with that tag_values_cost [OF False] dec [of created_at] dec [of "ucast k"] show ?thesis
      by (simp add: event_len_def EMPTY_EVENT_OBJECT_BYTES_def FIXED_HEX_BYTES_def NIP02_MAX_EVENT_BYTES_def MAX_TAG_VALUES_def
          MIN_EVENT_WITH_ONE_TAG_BYTES_def json_len_def)
  qed simp
  show ?thesis
  proof (cases "b \<le> NIP02_MAX_EVENT_BYTES")
    case True
    have "0 \<le> MAX_TAG_VALUES" by simp
    from parts True add_tags_Inr [OF True this, of True tags] counted show ?thesis
      by (auto simp: add_json_string_Inr event_len_def b_def)
  next
    case False
    with parts show ?thesis by (simp add: event_len_def b_def)
  qed
qed

subsection \<open>A concrete list\<close>

definition contact_row :: "public_key \<Rightarrow> string list \<Rightarrow> tag" where
  "contact_row k extra = [''p'', word_text k] @ extra"

definition sample_contacts :: event_value where
  "sample_contacts = Signed (sample_event 9 7 10 3
     [contact_row 1 [[], ''al'', ''x''], [''t'', ''cats''], contact_row 2 [''wss://a'', ''bo''], contact_row 1 [], contact_row 2 []])"

definition follow_one :: contact_change where
  "follow_one = \<lparr>ch_operation = AddContact, ch_target = 1\<rparr>"

theorem contact_apply_tags_spec_witness:
  "contact_apply_tags sample_protocol [contact_row 2 [], contact_row 1 [''wss://a''], contact_row 1 []] follow_one =
     Inr [contact_row 2 [], contact_row 1 [''wss://a'']]
   \<and> contact_apply_tags sample_protocol [contact_row 2 [], contact_row 1 [''wss://a'']] follow_one =
     Inr [contact_row 2 [], contact_row 1 [''wss://a'']]"
proof -
  have "contact_apply_tags sample_protocol [contact_row 2 [], contact_row 1 [''wss://a''], contact_row 1 []] follow_one =
     Inr [contact_row 2 [], contact_row 1 [''wss://a'']]" by code_simp
  with contact_apply_tags_spec [OF sample_protocol_laws this] show ?thesis by blast
qed

theorem contact_list_conserves_rows_witness:
  "\<exists>l. contact_list_from_event sample_protocol sample_contacts = Inr l \<and> map fo_pubkey (cl_follows l) = [2, 1]
     \<and> mset (map fo_source_index (cl_follows l) @ map evidence_source_index (cl_evidence l)) = {#0, 2, 3, 4#}"
proof -
  have "case contact_list_from_event sample_protocol sample_contacts of Inl _ \<Rightarrow> False | Inr l \<Rightarrow> map fo_pubkey (cl_follows l) = [2, 1]"
    by code_simp
  then obtain l where l: "contact_list_from_event sample_protocol sample_contacts = Inr l" "map fo_pubkey (cl_follows l) = [2, 1]"
    by (auto split: sum.splits)
  have "List.filter (\<lambda>i. is_p_row (value_tags sample_contacts ! i)) [0..<length (value_tags sample_contacts)] = [0, 2, 3, 4]" by code_simp
  with contact_list_conserves_rows [OF l(1)] l show ?thesis by (simp del: map_append mset_append)
qed

theorem follow_keeps_refused_row_witness:
  "1 \<in> fo_pubkey ` set (fst (decode_rows sample_protocol (enumerate 0 (value_tags sample_contacts)) []))
   \<and> (\<exists>out. contact_apply_tags sample_protocol (value_tags sample_contacts) follow_one = Inr out
        \<and> 1 \<notin> fo_pubkey ` set (fst (decode_rows sample_protocol (enumerate 0 out) [])))"
proof -
  have before: "1 \<in> set (map fo_pubkey (fst (decode_rows sample_protocol (enumerate 0 (value_tags sample_contacts)) [])))"
    by code_simp
  define out where "out = [contact_row 1 [[], ''al'', ''x''], [''t'', ''cats''], contact_row 2 [''wss://a'', ''bo''], contact_row 2 []]"
  have applied: "contact_apply_tags sample_protocol (value_tags sample_contacts) \<lparr>ch_operation = AddContact, ch_target = 1\<rparr> = Inr out"
    unfolding out_def by code_simp
  have "value_tags sample_contacts = [] @ contact_row 1 [[], ''al'', ''x''] #
      [[''t'', ''cats''], contact_row 2 [''wss://a'', ''bo''], contact_row 1 [], contact_row 2 []]"
    "contact_targets sample_protocol 1 (contact_row 1 [[], ''al'', ''x''])" "4 < length (contact_row 1 [[], ''al'', ''x''])"
    by code_simp+
  from follow_keeps_refused_row [OF sample_protocol_laws applied _ this(1) _ this(2,3)] before applied show ?thesis
    by (auto simp: follow_one_def)
qed

theorem contact_edit_roundtrip_witness:
  "\<exists>e. contact_edit sample_protocol 5 (AddContactWith (Some ''wss://a'') (Some ''bo'')) = Inr e
     \<and> contact_decode_edit sample_protocol e = Inr \<lparr>ch_operation = AddContactWith (Some ''wss://a'') (Some ''bo''), ch_target = 5\<rparr>"
proof -
  have "case contact_edit sample_protocol 5 (AddContactWith (Some ''wss://a'') (Some ''bo'')) of Inl _ \<Rightarrow> False | Inr _ \<Rightarrow> True"
    by (simp add: contact_edit_def contact_encode_def metadata_encoded_len_def checked_add_usize_def CODEC_LEN_def MAX_EDIT_BYTES_def
        u32_try_from_def encode_petname_def event_edit_new_def validate_coordinate_def validate_bytes_def MAX_EVENT_BYTES_def
        sample_protocol_def sample_lib_def kind_contact_list_def Let_def)
  then obtain e where e: "contact_edit sample_protocol 5 (AddContactWith (Some ''wss://a'') (Some ''bo'')) = Inr e"
    by (auto split: sum.splits)
  have "a_relay sample_protocol ''wss://a''" "is_str ''bo''" unfolding a_relay_def is_str_def by code_simp+
  with contact_edit_roundtrip [OF sample_protocol_laws e] e show ?thesis by auto
qed

end
