(* ===== verification/Bookmarks.thy ===== *)
theory Bookmarks
  imports Edit_Protocols
begin

section \<open>Public bookmarks (\<open>fava-bookmarks\<close>)\<close>

text \<open>
  The edits that add and remove one bookmark of an event or of a replaceable coordinate in a kind-10003
  list, with their bytes, and the applier. Of several tags for one target the applier keeps the
  longest, and the least of those in the order of the \<open>nostr\<close> crate's tags.
\<close>

subsection \<open>Changes and their bytes\<close>

definition BOOKMARK_KIND :: kind where "BOOKMARK_KIND = 10003"

datatype bookmark_operation = AddBookmark | RemoveBookmark

datatype bookmark_target = BookmarkEvent event_id | BookmarkCoordinate event_coord

record bookmark_change =
  bm_operation :: bookmark_operation
  bm_target :: bookmark_target

fun bookmark_code :: "bookmark_operation \<Rightarrow> u8" where
  "bookmark_code AddBookmark = 1"
| "bookmark_code RemoveBookmark = 2"

definition invalid_coordinate :: write_intent_error where
  "invalid_coordinate = InvalidEvent ''bookmark target requires a valid replaceable coordinate''"

fun validate_target_coordinate :: "protocol_lib \<Rightarrow> event_coord \<Rightarrow> write_intent_error + unit" where
  "validate_target_coordinate P (Event _) = Inl invalid_coordinate"
| "validate_target_coordinate P (Replaceable author k identifier) =
     (if (case identifier of None \<Rightarrow> kind_is_replaceable (pl_nostr P) k | Some _ \<Rightarrow> kind_addressable (pl_nostr P) k)
      then Inr () else Inl invalid_coordinate)"

fun encode_coordinate :: "protocol_lib \<Rightarrow> event_coord \<Rightarrow> write_intent_error + u8 list" where
  "encode_coordinate P (Event _) = Inl invalid_coordinate"
| "encode_coordinate P (Replaceable author k identifier) =
     (let text = (case identifier of None \<Rightarrow> [] | Some t \<Rightarrow> t) in
      try_then (ok_or (Encoding ''identifier exceeds bookmark encoding capacity'') (u32_try_from (length text))) (\<lambda>n.
      Inr (be16 (unat k) @ [if identifier = None then 0 else 1] @ pl_key_bytes P author @ be32 n @ str_bytes text)))"

definition bookmark_encode :: "protocol_lib \<Rightarrow> bookmark_change \<Rightarrow> write_intent_error + u8 list" where
  "bookmark_encode P ch =
     (case bm_target ch of
        BookmarkEvent i \<Rightarrow> Inr (bookmark_code (bm_operation ch) # 1 # pl_id_bytes P i)
      | BookmarkCoordinate c \<Rightarrow>
          try_then (encode_coordinate P c) (\<lambda>bs. Inr (bookmark_code (bm_operation ch) # 2 # bs)))"

definition bookmark_edit :: "protocol_lib \<Rightarrow> bookmark_target \<Rightarrow> bookmark_operation \<Rightarrow> write_intent_error + event_edit" where
  "bookmark_edit P target operation =
     try_then (bookmark_encode P \<lparr>bm_operation = operation, bm_target = target\<rparr>) (\<lambda>change.
     event_edit_new (pl_nostr P) BOOKMARK_KIND None change)"

definition bookmark_event :: "protocol_lib \<Rightarrow> event_id \<Rightarrow> write_intent_error + event_edit" where
  "bookmark_event P target = bookmark_edit P (BookmarkEvent target) AddBookmark"

definition unbookmark_event :: "protocol_lib \<Rightarrow> event_id \<Rightarrow> write_intent_error + event_edit" where
  "unbookmark_event P target = bookmark_edit P (BookmarkEvent target) RemoveBookmark"

definition bookmark_coordinate :: "protocol_lib \<Rightarrow> event_coord \<Rightarrow> write_intent_error + event_edit" where
  "bookmark_coordinate P target =
     try_then (validate_target_coordinate P target) (\<lambda>_. bookmark_edit P (BookmarkCoordinate target) AddBookmark)"

definition unbookmark_coordinate :: "protocol_lib \<Rightarrow> event_coord \<Rightarrow> write_intent_error + event_edit" where
  "unbookmark_coordinate P target =
     try_then (validate_target_coordinate P target) (\<lambda>_. bookmark_edit P (BookmarkCoordinate target) RemoveBookmark)"

definition decode_coordinate :: "protocol_lib \<Rightarrow> u8 list \<Rightarrow> write_intent_error + event_coord" where
  "decode_coordinate P bytes =
     (if length bytes < 39 then Inl (Encoding ''malformed bookmark coordinate'')
      else
        let k = of_nat (from_be 0 (take 2 bytes)) in
        try_then (if bytes ! 2 = 0 then Inr False else if bytes ! 2 = 1 then Inr True
          else Inl (Encoding ''invalid bookmark coordinate identifier flag'')) (\<lambda>has_identifier.
        try_then (ok_or (Encoding ''invalid bookmark coordinate author'') (pl_key_from_slice P (take 32 (drop 3 bytes)))) (\<lambda>author.
        if length bytes \<noteq> 39 + from_be 0 (take 4 (drop 35 bytes)) then Inl (Encoding ''invalid bookmark coordinate identifier length'')
        else try_then (ok_or (Encoding ''bookmark coordinate identifier is not UTF-8'') (from_utf8 (drop 39 bytes))) (\<lambda>identifier.
        let c = Replaceable author k (if has_identifier then Some identifier else None) in
        try_then (validate_target_coordinate P c) (\<lambda>_. Inr c)))))"

definition bookmark_decode :: "protocol_lib \<Rightarrow> u8 list \<Rightarrow> write_intent_error + bookmark_change" where
  "bookmark_decode P bytes =
     (if length bytes < 2 then Inl (Encoding ''malformed bookmark edit'')
      else try_then (if bytes ! 0 = 1 then Inr AddBookmark else if bytes ! 0 = 2 then Inr RemoveBookmark
             else Inl (Encoding ''unknown bookmark edit operation'')) (\<lambda>operation.
           try_then (if bytes ! 1 = 1 \<and> length bytes = 34
               then try_then (ok_or (Encoding ''invalid bookmark event id'') (pl_id_from_slice P (drop 2 bytes))) (\<lambda>i. Inr (BookmarkEvent i))
             else if bytes ! 1 = 2 then try_then (decode_coordinate P (drop 2 bytes)) (\<lambda>c. Inr (BookmarkCoordinate c))
             else if bytes ! 1 = 1 then Inl (Encoding ''malformed bookmark event target'')
             else Inl (Encoding ''unknown bookmark target kind'')) (\<lambda>target.
           Inr \<lparr>bm_operation = operation, bm_target = target\<rparr>)))"

definition bookmark_decode_edit :: "protocol_lib \<Rightarrow> event_edit \<Rightarrow> write_intent_error + bookmark_change" where
  "bookmark_decode_edit P e =
     try_then (if ed_kind e = BOOKMARK_KIND \<and> ed_identifier e = None then Inr ()
       else Inl (InvalidEvent ''bookmark edit requires a non-addressable kind-10003 coordinate'')) (\<lambda>_.
     bookmark_decode P (ed_change e))"

subsection \<open>The applier\<close>

definition bookmark_supports :: "protocol_lib \<Rightarrow> event_edit \<Rightarrow> bool" where
  "bookmark_supports P e = (case bookmark_decode_edit P e of Inl _ \<Rightarrow> False | Inr _ \<Rightarrow> True)"

definition bookmark_source :: "public_key \<Rightarrow> event_value option \<Rightarrow> timestamp \<Rightarrow> write_intent_error + string \<times> tag list" where
  "bookmark_source author source created_at =
     (case source of
        None \<Rightarrow> Inr ([], [])
      | Some v \<Rightarrow>
          if value_author v \<noteq> author \<or> value_kind v \<noteq> BOOKMARK_KIND
          then Inl (InvalidEvent ''bookmark source author or kind does not match accepted write'')
          else if created_at \<le> value_created_at v
          then Inl (InvalidEvent ''bookmark revision timestamp must succeed its source'')
          else Inr (value_content v, value_tags v))"

definition bookmark_verify_source :: "protocol_lib \<Rightarrow> event_value option \<Rightarrow> write_intent_error + unit" where
  "bookmark_verify_source P source =
     (case source of None \<Rightarrow> Inr () | Some v \<Rightarrow> map_err InvalidEvent (value_verify (pl_nostr P) v))"

fun coordinate_text :: "protocol_lib \<Rightarrow> event_coord \<Rightarrow> string" where
  "coordinate_text P (Event _) = []"
| "coordinate_text P (Replaceable author k identifier) =
     show_nat (unat k) @ '':'' @ public_key_to_hex (pl_nostr P) author @ '':'' @ (case identifier of None \<Rightarrow> [] | Some t \<Rightarrow> t)"

fun bookmark_targets :: "protocol_lib \<Rightarrow> bookmark_target \<Rightarrow> tag \<Rightarrow> bool" where
  "bookmark_targets P (BookmarkEvent i) t \<longleftrightarrow>
     nth_opt t 0 = Some ''e'' \<and> Option.bind (nth_opt t 1) (event_id_from_hex (pl_nostr P)) = Some i"
| "bookmark_targets P (BookmarkCoordinate c) t \<longleftrightarrow> nth_opt t 0 = Some ''a'' \<and> nth_opt t 1 = Some (coordinate_text P c)"

definition canonical_tag :: "protocol_lib \<Rightarrow> tag \<Rightarrow> tag \<Rightarrow> tag" where
  "canonical_tag P left right =
     (if length left > length right then left
      else if length left = length right \<and> pl_tag_le P left right then left
      else right)"

fun scan_matching :: "protocol_lib \<Rightarrow> nat \<times> tag option \<Rightarrow> tag list \<Rightarrow> write_intent_error + nat \<times> tag option" where
  "scan_matching P st [] = Inr st"
| "scan_matching P (matching, retained) (t # ts) =
     (case checked_add_usize matching 1 of
        None \<Rightarrow> Inl (Encoding ''bookmark target count overflow'')
      | Some m \<Rightarrow> scan_matching P (m, Some (case retained of None \<Rightarrow> t | Some current \<Rightarrow> canonical_tag P current t)) ts)"

fun bookmark_tag :: "protocol_lib \<Rightarrow> bookmark_target \<Rightarrow> write_intent_error + tag" where
  "bookmark_tag P (BookmarkEvent i) = Inr (pl_tag_event P i)"
| "bookmark_tag P (BookmarkCoordinate c) = map_err Encoding (pl_tag_parse P [''a'', coordinate_text P c])"

definition bookmark_apply_tags :: "protocol_lib \<Rightarrow> tag list \<Rightarrow> bookmark_change \<Rightarrow> write_intent_error + tag list" where
  "bookmark_apply_tags P source ch =
     (let targets = bookmark_targets P (bm_target ch); keep = (bm_operation ch = AddBookmark) in
      try_then (scan_matching P (0, None) (List.filter targets source)) (\<lambda>(matching, retained).
      try_then (ok_or (Encoding ''bookmark output tag count overflow'')
        (Option.bind (checked_sub_usize (length source) matching) (\<lambda>n. checked_add_usize n (if keep then 1 else 0)))) (\<lambda>capacity.
      upsert_row targets (\<lambda>t. case retained of None \<Rightarrow> t | Some r \<Rightarrow> r) keep (bookmark_tag P (bm_target ch)) source)))"

definition bookmark_apply ::
  "protocol_lib \<Rightarrow> event_edit \<Rightarrow> public_key \<Rightarrow> event_value option \<Rightarrow> timestamp \<Rightarrow> write_intent_error + unsigned_event" where
  "bookmark_apply P e author source created_at =
     try_then (bookmark_decode_edit P e) (\<lambda>ch.
     try_then (bookmark_source author source created_at) (\<lambda>(content, source_tags).
     try_then (bookmark_apply_tags P source_tags ch) (\<lambda>tags.
     try_then (build_tagwise (pl_nostr P) BOOKMARK_KIND author content tags created_at) (\<lambda>u.
     try_then (bookmark_verify_source P source) (\<lambda>_.
     try_then (map_err InvalidEvent (unsigned_verify_id (pl_nostr P) u)) (\<lambda>_. Inr u))))))"

lemma bookmark_decode_edit_coordinate:
  "bookmark_decode_edit P e = Inr ch \<Longrightarrow> ed_kind e = BOOKMARK_KIND \<and> ed_identifier e = None"
  by (auto simp: bookmark_decode_edit_def try_then_Inr_iff split: if_splits)

lemma bookmark_apply_Inr:
  assumes "bookmark_apply P e a src t = Inr u"
  obtains ch content tags where "bookmark_decode_edit P e = Inr ch" "bookmark_source a src t = Inr (content, tags)"
    "bookmark_apply_tags P tags ch = Inr (ue_tags u)" "build_revision (pl_nostr P) BOOKMARK_KIND a content (ue_tags u) t = Inr u"
    "bookmark_verify_source P src = Inr ()" "unsigned_verify_id (pl_nostr P) u = Inr ()"
proof -
  from assms obtain ch content tags out where "bookmark_decode_edit P e = Inr ch" "bookmark_source a src t = Inr (content, tags)"
    "bookmark_apply_tags P tags ch = Inr out" "build_revision (pl_nostr P) BOOKMARK_KIND a content out t = Inr u"
    "bookmark_verify_source P src = Inr ()" "unsigned_verify_id (pl_nostr P) u = Inr ()"
    by (auto simp: bookmark_apply_def try_then_Inr_iff build_tagwise_eq)
  with build_revision_Inr(6) that show thesis by metis
qed

lemma bookmark_source_Inr:
  assumes "bookmark_source a src t = Inr (content, tags)"
  shows "case src of None \<Rightarrow> content = [] \<and> tags = []
    | Some v \<Rightarrow> content = value_content v \<and> tags = value_tags v \<and> value_author v = a \<and> value_kind v = BOOKMARK_KIND
        \<and> value_created_at v < t"
  using assms by (auto simp: bookmark_source_def not_le split: option.splits if_splits)

interpretation bookmark: edit_applier "pl_nostr P" BOOKMARK_KIND "bookmark_supports P" "bookmark_apply P" for P
proof
  fix e a src t u s
  show "bookmark_supports P e \<Longrightarrow> ed_kind e = BOOKMARK_KIND \<and> ed_identifier e = None"
    using bookmark_decode_edit_coordinate by (auto simp: bookmark_supports_def split: sum.splits)
  assume ok: "bookmark_apply P e a src t = Inr u"
  from bookmark_apply_Inr [OF ok] obtain ch content tags where parts: "bookmark_decode_edit P e = Inr ch"
    "bookmark_source a src t = Inr (content, tags)"
    "build_revision (pl_nostr P) BOOKMARK_KIND a content (ue_tags u) t = Inr u" "unsigned_verify_id (pl_nostr P) u = Inr ()" .
  from parts(1) show "bookmark_supports P e" by (simp add: bookmark_supports_def)
  from parts(4) show "unsigned_verify_id (pl_nostr P) u = Inr ()" .
  from bookmark_source_Inr [OF parts(2)] build_revision_Inr [OF parts(3)]
  show "ue_pubkey u = a \<and> ue_kind u = BOOKMARK_KIND \<and> ue_created_at u = t \<and> ue_id u \<noteq> None
      \<and> ue_content u = (case src of None \<Rightarrow> [] | Some s \<Rightarrow> value_content s) \<and> length (ue_tags u) \<le> MAX_TAGS"
    by (simp split: option.splits)
next
  fix e a s t u
  assume "bookmark_apply P e a (Some s) t = Inr u"
  then obtain ch content tags where "bookmark_source a (Some s) t = Inr (content, tags)" "bookmark_verify_source P (Some s) = Inr ()"
    by (elim bookmark_apply_Inr)
  with bookmark_source_Inr [OF this(1)]
  show "value_author s = a \<and> value_kind s = BOOKMARK_KIND \<and> value_verify (pl_nostr P) s = Inr () \<and> value_created_at s < t"
    by (simp add: bookmark_verify_source_def)
qed

subsection \<open>Which tag stays\<close>

lemma canonical_tag_cases: "canonical_tag P a b = a \<or> canonical_tag P a b = b"
  by (simp add: canonical_tag_def)

lemma scan_matching_Inr:
  assumes "scan_matching P (m, retained) ts = Inr (n, r)"
  shows "n = m + length ts"
    "r = (case retained of
        None \<Rightarrow> (case ts of [] \<Rightarrow> None | t # ts' \<Rightarrow> Some (fold (\<lambda>t c. canonical_tag P c t) ts' t))
      | Some c \<Rightarrow> Some (fold (\<lambda>t c. canonical_tag P c t) ts c))"
proof -
  have "n = m + length ts \<and> r = (case retained of
        None \<Rightarrow> (case ts of [] \<Rightarrow> None | t # ts' \<Rightarrow> Some (fold (\<lambda>t c. canonical_tag P c t) ts' t))
      | Some c \<Rightarrow> Some (fold (\<lambda>t c. canonical_tag P c t) ts c))"
    using assms
  proof (induction ts arbitrary: m retained)
    case (Cons t ts)
    then have "scan_matching P (m + 1, Some (case retained of None \<Rightarrow> t | Some current \<Rightarrow> canonical_tag P current t)) ts = Inr (n, r)"
      by (auto simp: checked_add_usize_def split: option.splits if_splits)
    from Cons.IH [OF this] show ?case by (cases retained) auto
  qed (simp split: option.split)
  then show "n = m + length ts"
    "r = (case retained of
        None \<Rightarrow> (case ts of [] \<Rightarrow> None | t # ts' \<Rightarrow> Some (fold (\<lambda>t c. canonical_tag P c t) ts' t))
      | Some c \<Rightarrow> Some (fold (\<lambda>t c. canonical_tag P c t) ts c))" by blast+
qed

lemma fold_canonical_mem: "fold (\<lambda>t c. canonical_tag P c t) ts c \<in> insert c (set ts)"
proof (induction ts arbitrary: c)
  case (Cons t ts)
  from Cons [of "canonical_tag P c t"] canonical_tag_cases [of P c t] show ?case by auto
qed simp

lemma scan_matching_mem:
  assumes "scan_matching P (0, None) ts = Inr (n, Some r)"
  shows "r \<in> set ts"
proof -
  from scan_matching_Inr(2) [OF assms] obtain t ts' where "ts = t # ts'" "r = fold (\<lambda>t c. canonical_tag P c t) ts' t"
    by (auto split: list.splits)
  with fold_canonical_mem [of P ts' t] show ?thesis by simp
qed

lemma bookmark_tag_targets:
  assumes "protocol_laws P" "bookmark_tag P target = Inr row"
  shows "bookmark_targets P target row"
proof (cases target)
  case (BookmarkEvent i)
  with assms show ?thesis unfolding protocol_laws_def by auto
next
  case (BookmarkCoordinate c)
  with assms(2) have "pl_tag_parse P [''a'', coordinate_text P c] = Inr row" by simp
  with assms(1) have "row = [''a'', coordinate_text P c]" unfolding protocol_laws_def by blast
  with BookmarkCoordinate show ?thesis by (simp add: nth_opt_def)
qed

text \<open>
  Adding a bookmark leaves exactly one tag for its target and removing it leaves none; every other
  tag of the source stays, in its order, and applying the edit again changes nothing. The tag that
  stays is one of the source's tags for the target, when there is one.
\<close>

theorem bookmark_apply_tags_spec:
  assumes "protocol_laws P" "bookmark_apply_tags P source ch = Inr out"
  shows "List.filter (\<lambda>t. \<not> bookmark_targets P (bm_target ch) t) out = List.filter (\<lambda>t. \<not> bookmark_targets P (bm_target ch) t) source
     \<and> length (List.filter (bookmark_targets P (bm_target ch)) out) = (if bm_operation ch = AddBookmark then 1 else 0)
     \<and> (bm_operation ch = AddBookmark \<longrightarrow> (\<exists>t\<in>set source. bookmark_targets P (bm_target ch) t) \<longrightarrow>
          (\<forall>t\<in>set out. bookmark_targets P (bm_target ch) t \<longrightarrow> t \<in> set source))
     \<and> bookmark_apply_tags P out ch = Inr out"
proof -
  let ?m = "bookmark_targets P (bm_target ch)" and ?keep = "bm_operation ch = AddBookmark"
  from assms(2) obtain n r where scan: "scan_matching P (0, None) (List.filter ?m source) = Inr (n, r)"
    and up: "upsert_row ?m (\<lambda>t. case r of None \<Rightarrow> t | Some r \<Rightarrow> r) ?keep (bookmark_tag P (bm_target ch)) source = Inr out"
    and cap: "length source - n + (if ?keep then 1 else 0) < 2 ^ 64"
    by (auto simp: bookmark_apply_tags_def Let_def try_then_Inr_iff checked_add_usize_def checked_sub_usize_def bind_eq_Some_conv split: if_splits)
  have n: "n = length (List.filter ?m source)" using scan_matching_Inr(1) [OF scan] by simp
  have r: "?m x \<and> x \<in> set source" if "r = Some x" for x
    using scan_matching_mem [OF scan [unfolded that]] by simp
  have pick: "?m (case r of None \<Rightarrow> t | Some r \<Rightarrow> r)" if "?m t" for t using r that by (cases r) auto
  note spec = upsert_row_spec [OF up pick bookmark_tag_targets [OF assms(1)]]
  have "t \<in> set source" if "\<exists>t\<in>set source. ?m t" ?keep "t \<in> set out" "?m t" for t
  proof -
    obtain tags f where loop: "collapse_matching ?m (\<lambda>t. case r of None \<Rightarrow> t | Some r \<Rightarrow> r) True False source = (tags, f)"
      by (cases "collapse_matching ?m (\<lambda>t. case r of None \<Rightarrow> t | Some r \<Rightarrow> r) True False source")
    from that(1) obtain xs x ys where src: "source = xs @ x # ys" "?m x" "\<forall>t\<in>set xs. \<not> ?m t" using first_match_split by metis
    from collapse_first [OF src(3,2)] src(1) up that(2)
    have "out = xs @ (case r of None \<Rightarrow> x | Some r \<Rightarrow> r) # List.filter (\<lambda>t. \<not> ?m t) ys" by (simp add: upsert_row_def)
    with that(3) src r show ?thesis by (cases r) auto
  qed
  moreover have "bookmark_apply_tags P out ch = Inr out"
  proof -
    have one: "length (List.filter ?m out) \<le> 1" using spec(2) by simp
    obtain n' r' where again: "scan_matching P (0, None) (List.filter ?m out) = Inr (n', r')" "n' = length (List.filter ?m out)"
      "\<forall>t\<in>set out. ?m t \<longrightarrow> r' = Some t \<or> r' = None"
    proof (cases "List.filter ?m out")
      case Nil
      with that [of 0 None] show thesis by simp
    next
      case (Cons y ys)
      with one have "ys = []" by simp
      with Cons have f: "List.filter ?m out = [y]" by simp
      have "t \<in> set (List.filter ?m out)" if "t \<in> set out" "?m t" for t using that by simp
      with f have "\<forall>t\<in>set out. ?m t \<longrightarrow> t = y" by simp
      with f that [of 1 "Some y"] show thesis by (auto simp: checked_add_usize_def)
    qed
    have "upsert_row ?m (\<lambda>t. case r' of None \<Rightarrow> t | Some r \<Rightarrow> r) ?keep (bookmark_tag P (bm_target ch)) out = Inr out"
      using spec(2) again(3) by (intro upsert_row_stable) (auto split: option.splits)
    moreover have "length (List.filter ?m out) \<le> length out" by (rule length_filter_le)
    ultimately show ?thesis
      using again(1,2) spec(2,3) cap n
      by (auto simp: bookmark_apply_tags_def Let_def checked_add_usize_def checked_sub_usize_def ok_or_def)
  qed
  ultimately show ?thesis using spec(1,2) by blast
qed

text \<open>Of two tags the shorter one loses, and of equal lengths the greater one.\<close>

definition tag_order :: "protocol_lib \<Rightarrow> bool" where
  "tag_order P \<longleftrightarrow> (\<forall>a b. pl_tag_le P a b \<or> pl_tag_le P b a) \<and> (\<forall>a b. pl_tag_le P a b \<and> pl_tag_le P b a \<longrightarrow> a = b)
     \<and> (\<forall>a b c. pl_tag_le P a b \<and> pl_tag_le P b c \<longrightarrow> pl_tag_le P a c)"

definition tag_beats :: "protocol_lib \<Rightarrow> tag \<Rightarrow> tag \<Rightarrow> bool" where
  "tag_beats P a b \<longleftrightarrow> length a > length b \<or> (length a = length b \<and> pl_tag_le P a b)"

lemma tag_beats_order:
  assumes "tag_order P"
  shows "tag_beats P a b \<or> tag_beats P b a" "tag_beats P a b \<Longrightarrow> tag_beats P b a \<Longrightarrow> a = b"
    "tag_beats P a b \<Longrightarrow> tag_beats P b c \<Longrightarrow> tag_beats P a c"
proof -
  show "tag_beats P a b \<or> tag_beats P b a" using assms unfolding tag_order_def tag_beats_def by (metis linorder_neqE_nat)
  show "tag_beats P a b \<Longrightarrow> tag_beats P b a \<Longrightarrow> a = b" using assms unfolding tag_order_def tag_beats_def by (metis less_asym less_irrefl)
  show "tag_beats P a b \<Longrightarrow> tag_beats P b c \<Longrightarrow> tag_beats P a c" using assms unfolding tag_order_def tag_beats_def by (metis less_trans)
qed

lemma canonical_tag_beats:
  assumes "tag_order P"
  shows "tag_beats P (canonical_tag P a b) a \<and> tag_beats P (canonical_tag P a b) b"
proof -
  have self: "tag_beats P x x" for x using tag_beats_order(1) [OF assms] by blast
  show ?thesis
  proof (cases "tag_beats P a b")
    case True
    then have "canonical_tag P a b = a" by (auto simp: tag_beats_def canonical_tag_def)
    with True self show ?thesis by simp
  next
    case False
    then have "canonical_tag P a b = b" by (auto simp: tag_beats_def canonical_tag_def)
    with False self tag_beats_order(1) [OF assms, of a b] show ?thesis by simp
  qed
qed

lemma fold_canonical_beats:
  assumes "tag_order P" "t \<in> insert c (set ts)"
  shows "tag_beats P (fold (\<lambda>t c. canonical_tag P c t) ts c) t"
  using assms(2)
proof (induction ts arbitrary: c t)
  case Nil
  with tag_beats_order(1) [OF assms(1)] show ?case by simp blast
next
  case (Cons x ts)
  have top: "tag_beats P (fold (\<lambda>t c. canonical_tag P c t) ts (canonical_tag P c x)) (canonical_tag P c x)" by (rule Cons.IH) simp
  show ?case
  proof (cases "t \<in> set ts")
    case True
    then have "t \<in> insert (canonical_tag P c x) (set ts)" by simp
    from Cons.IH [OF this] show ?thesis by simp
  next
    case False
    with Cons.prems have "t = c \<or> t = x" by auto
    with canonical_tag_beats [OF assms(1), of c x] have "tag_beats P (canonical_tag P c x) t" by auto
    with top tag_beats_order(3) [OF assms(1)] show ?thesis by simp
  qed
qed

text \<open>
  The tag that is kept does not depend on the order of the source: two lists with the same tags for
  a target keep the same one, the longest and among those the least.
\<close>

theorem bookmark_keeps_canonical:
  assumes "tag_order P" "scan_matching P (0, None) ts = Inr (n, r)" "scan_matching P (0, None) ts' = Inr (n', r')" "set ts = set ts'"
  shows "r = r' \<and> (\<forall>t\<in>set ts. \<exists>x\<in>set ts. r = Some x \<and> tag_beats P x t)"
proof (cases "ts = []")
  case True
  with assms show ?thesis by auto
next
  case False
  have top: "\<exists>x\<in>set us. q = Some x \<and> (\<forall>t\<in>set us. tag_beats P x t)" if "scan_matching P (0, None) us = Inr (m, q)" "us \<noteq> []" for us m q
  proof -
    obtain u us' where us: "us = u # us'" using \<open>us \<noteq> []\<close> by (cases us) auto
    with scan_matching_Inr(2) [OF that(1)] have "q = Some (fold (\<lambda>t c. canonical_tag P c t) us' u)" by simp
    with us fold_canonical_mem [of P us' u] fold_canonical_beats [OF assms(1), of _ u us'] show ?thesis by auto
  qed
  from False assms(4) have "ts' \<noteq> []" by auto
  from top [OF assms(2) False] top [OF assms(3) this] assms(4) tag_beats_order(2) [OF assms(1)] show ?thesis by metis
qed

subsection \<open>Bytes of an edit\<close>

lemma decode_encode_coordinate:
  assumes "protocol_laws P" "encode_coordinate P c = Inr bs" "validate_target_coordinate P c = Inr ()"
    and "\<And>a k t. c = Replaceable a k (Some t) \<Longrightarrow> is_str t"
  shows "decode_coordinate P bs = Inr c"
proof (cases c)
  case (Replaceable a k ident)
  define idt where "idt = (case ident of None \<Rightarrow> [] | Some t \<Rightarrow> t)"
  from assms(2) Replaceable have len: "length idt < 2 ^ 32"
    and bs: "bs = be16 (unat k) @ [if ident = None then 0 else 1] @ pl_key_bytes P a @ be32 (length idt) @ str_bytes idt"
    by (auto simp: idt_def [symmetric] Let_def try_then_Inr_iff u32_try_from_def split: if_splits)
  have key: "length (pl_key_bytes P a) = 32" "pl_key_from_slice P (pl_key_bytes P a) = Some a"
    using assms(1) by (simp_all add: protocol_laws_def)
  have "is_str []" by (simp add: is_str_def str_bytes_def)
  with assms(4) Replaceable have str: "is_str idt" by (cases ident) (auto simp: idt_def)
  have k: "of_nat (from_be 0 (be16 (unat k))) = k"
    using unsigned_less [where ?'a = nat and w = k] by simp
  have parts: "take 2 bs = be16 (unat k)" "bs ! 2 = (if ident = None then 0 else 1)" "take 32 (drop 3 bs) = pl_key_bytes P a"
    "take 4 (drop 35 bs) = be32 (length idt)" "drop 39 bs = str_bytes idt" "length bs = 39 + length idt"
    using key(1) by (simp_all add: bs nth_append)
  have "validate_target_coordinate P (Replaceable a k ident) = Inr ()" using assms(3) Replaceable by simp
  moreover have "(if ident \<noteq> None then Some idt else None) = ident" by (cases ident) (simp_all add: idt_def)
  ultimately show ?thesis
    using k key(2) len str unfolding decode_coordinate_def Let_def parts
    by (cases ident) (simp_all add: Replaceable idt_def)
qed (use assms in simp)

text \<open>
  Every edit made from a valid target decodes to its operation and target and is supported by the
  applier.
\<close>

theorem bookmark_edit_roundtrip:
  assumes "protocol_laws P" "bookmark_edit P target operation = Inr e"
    and "\<And>c. target = BookmarkCoordinate c \<Longrightarrow> validate_target_coordinate P c = Inr ()"
    and "\<And>a k t. target = BookmarkCoordinate (Replaceable a k (Some t)) \<Longrightarrow> is_str t"
  shows "bookmark_decode_edit P e = Inr \<lparr>bm_operation = operation, bm_target = target\<rparr> \<and> bookmark_supports P e"
proof -
  from assms(2) obtain bytes where bytes: "bookmark_encode P \<lparr>bm_operation = operation, bm_target = target\<rparr> = Inr bytes"
    and e: "event_edit_new (pl_nostr P) BOOKMARK_KIND None bytes = Inr e"
    by (auto simp: bookmark_edit_def try_then_Inr_iff)
  from e have fields: "ed_kind e = BOOKMARK_KIND" "ed_identifier e = None" "ed_change e = bytes"
    by (auto simp: event_edit_new_def split: sum.splits if_splits)
  have "bookmark_decode P bytes = Inr \<lparr>bm_operation = operation, bm_target = target\<rparr>"
  proof (cases target)
    case (BookmarkEvent i)
    with bytes have b: "bytes = bookmark_code operation # 1 # pl_id_bytes P i" by (simp add: bookmark_encode_def)
    have "length (pl_id_bytes P i) = 32" "pl_id_from_slice P (pl_id_bytes P i) = Some i"
      using assms(1) by (simp_all add: protocol_laws_def)
    with BookmarkEvent b show ?thesis by (cases operation) (simp_all add: bookmark_decode_def)
  next
    case (BookmarkCoordinate c)
    with bytes obtain bs where bs: "encode_coordinate P c = Inr bs" "bytes = bookmark_code operation # 2 # bs"
      by (auto simp: bookmark_encode_def try_then_Inr_iff)
    with decode_encode_coordinate [OF assms(1) bs(1)] assms(3,4) BookmarkCoordinate have "decode_coordinate P bs = Inr c" by blast
    with BookmarkCoordinate bs(2) show ?thesis by (cases operation) (simp_all add: bookmark_decode_def)
  qed
  with fields show ?thesis by (simp add: bookmark_decode_edit_def bookmark_supports_def)
qed

subsection \<open>A concrete list\<close>

definition bookmark_one :: bookmark_change where
  "bookmark_one = \<lparr>bm_operation = AddBookmark, bm_target = BookmarkEvent 1\<rparr>"

definition sample_bookmarks :: "tag list" where
  "sample_bookmarks = [[''e'', word_text 1], [''t'', ''x''], [''e'', word_text 1, ''wss://a''], [''e'', word_text 2]]"

theorem bookmark_apply_tags_spec_witness:
  "bookmark_apply_tags sample_protocol [[''e'', word_text 1, ''wss://a''], [''t'', ''x''], [''e'', word_text 2]] bookmark_one =
     Inr [[''e'', word_text 1, ''wss://a''], [''t'', ''x''], [''e'', word_text 2]]"
proof -
  have "bookmark_apply_tags sample_protocol sample_bookmarks bookmark_one =
      Inr [[''e'', word_text 1, ''wss://a''], [''t'', ''x''], [''e'', word_text 2]]" by code_simp
  with bookmark_apply_tags_spec [OF sample_protocol_laws this] show ?thesis by blast
qed

text \<open>The lexicographic order of the values, from the order of lists in the library.\<close>

definition ordered_protocol :: protocol_lib where
  "ordered_protocol = sample_protocol\<lparr>pl_tag_le := (\<le>)\<rparr>"

theorem bookmark_keeps_canonical_witness:
  "\<exists>n r n' r'. scan_matching ordered_protocol (0, None) [[''e'', ''1''], [''e'', ''1'', ''b''], [''e'', ''1'', ''a'']] = Inr (n, r)
     \<and> scan_matching ordered_protocol (0, None) [[''e'', ''1'', ''a''], [''e'', ''1'', ''b''], [''e'', ''1'']] = Inr (n', r') \<and> r = r'"
proof -
  have "tag_order ordered_protocol" by (auto simp: tag_order_def ordered_protocol_def)
  moreover have "\<exists>n r. scan_matching ordered_protocol (0, None) [a, b, c] = Inr (n, r)" for a b c
    by (simp add: checked_add_usize_def)
  moreover have "set [[''e'', ''1''], [''e'', ''1'', ''b''], [''e'', ''1'', ''a'']] = set [[''e'', ''1'', ''a''], [''e'', ''1'', ''b''], [''e'', ''1'']]"
    by auto
  ultimately show ?thesis using bookmark_keeps_canonical by metis
qed

theorem bookmark_edit_roundtrip_witness:
  "\<exists>e. bookmark_edit sample_protocol (BookmarkCoordinate (Replaceable 3 30023 (Some ''d''))) AddBookmark = Inr e
     \<and> bookmark_decode_edit sample_protocol e =
         Inr \<lparr>bm_operation = AddBookmark, bm_target = BookmarkCoordinate (Replaceable 3 30023 (Some ''d''))\<rparr>"
proof -
  have ok: "validate_target_coordinate sample_protocol (Replaceable 3 30023 (Some ''d'')) = Inr ()"
    by (simp add: sample_protocol_def sample_lib_def)
  have "case bookmark_edit sample_protocol (BookmarkCoordinate (Replaceable 3 30023 (Some ''d''))) AddBookmark of Inl _ \<Rightarrow> False | Inr _ \<Rightarrow> True"
    by (simp add: bookmark_edit_def bookmark_encode_def u32_try_from_def event_edit_new_def validate_coordinate_def validate_bytes_def
        MAX_EVENT_BYTES_def sample_protocol_def sample_lib_def BOOKMARK_KIND_def Let_def)
  then obtain e where e: "bookmark_edit sample_protocol (BookmarkCoordinate (Replaceable 3 30023 (Some ''d''))) AddBookmark = Inr e"
    by (auto split: sum.splits)
  have "is_str ''d''" unfolding is_str_def by code_simp
  with bookmark_edit_roundtrip [OF sample_protocol_laws e] ok e show ?thesis by auto
qed

end
