(* ===== verification/Saved_Groups.thy ===== *)
theory Saved_Groups
  imports Edit_Protocols
begin

section \<open>Simple groups and the saved list of them (\<open>fava-simple-groups\<close>)\<close>

text \<open>
  A group is an opaque id and the relays that host it. This theory holds the group value
  (\<open>simple_group.rs\<close>), the edits of the kind-10009 list with their bytes and its applier
  (\<open>edit.rs\<close>), and the reader of that list (\<open>saved.rs\<close>). Names at the end of \<open>take_\<close> are the readers
  that advance the input slice: they return the value and the rest.
\<close>

subsection \<open>The group value\<close>

record simple_group =
  sg_id :: string
  sg_relays :: "relay_url list"

datatype group_construction_error = EmptyId | EmptyRelays

fun normalize_group_relays :: "relay_url btree_set \<Rightarrow> relay_url list \<Rightarrow> relay_url list" where
  "normalize_group_relays seen [] = []"
| "normalize_group_relays seen (r # rs) =
     (if r \<in> set seen then normalize_group_relays seen rs else r # normalize_group_relays (bs_insert r seen) rs)"

definition simple_group_new :: "string \<Rightarrow> relay_url list \<Rightarrow> group_construction_error + simple_group" where
  "simple_group_new ident relays =
     (if ident = [] then Inl EmptyId
      else if relays = [] then Inl EmptyRelays
      else Inr \<lparr>sg_id = ident, sg_relays = normalize_group_relays [] relays\<rparr>)"

text \<open>What the private fields of \<open>SimpleGroup\<close> satisfy.\<close>

definition group_ok :: "simple_group \<Rightarrow> bool" where
  "group_ok g \<longleftrightarrow> sg_id g \<noteq> [] \<and> sg_relays g \<noteq> [] \<and> distinct (sg_relays g)"

lemma normalize_group_relays_eq: "normalize_group_relays seen rs = keep_first seen rs"
proof (induction seen rs rule: normalize_group_relays.induct)
  case (2 seen r rs)
  have "keep_first (bs_insert r seen) rs = keep_first (r # seen) rs" by (rule keep_first_cong) simp
  with 2 show ?case by simp
qed simp

subsection \<open>Edits and their bytes\<close>

definition saved_kind :: kind where "saved_kind = 10009"

definition SAVE_SIMPLE_GROUP :: u8 where "SAVE_SIMPLE_GROUP = 1"
definition REMOVE_SIMPLE_GROUP :: u8 where "REMOVE_SIMPLE_GROUP = 2"
definition RENAME_SIMPLE_GROUP :: u8 where "RENAME_SIMPLE_GROUP = 3"
definition SAVE_RELAY :: u8 where "SAVE_RELAY = 4"
definition REMOVE_RELAY :: u8 where "REMOVE_RELAY = 5"

lemmas saved_operations = SAVE_SIMPLE_GROUP_def REMOVE_SIMPLE_GROUP_def RENAME_SIMPLE_GROUP_def SAVE_RELAY_def REMOVE_RELAY_def

definition codec_refusal :: "string \<Rightarrow> write_intent_error" where
  "codec_refusal reason = Encoding reason"

definition encode_text :: "string \<Rightarrow> write_intent_error + u8 list" where
  "encode_text v =
     try_then (ok_or (codec_refusal ''edit text is too long'') (u32_try_from (length v))) (\<lambda>n. Inr (be32 n @ str_bytes v))"

definition encode_optional :: "string option \<Rightarrow> write_intent_error + u8 list" where
  "encode_optional v =
     (case v of Some s \<Rightarrow> try_then (encode_text s) (\<lambda>bs. Inr (1 # bs)) | None \<Rightarrow> Inr [0])"

definition encode_simple_group :: "string \<Rightarrow> relay_url list \<Rightarrow> write_intent_error + u8 list" where
  "encode_simple_group ident relays =
     try_then (encode_text ident) (\<lambda>a.
     try_then (ok_or (codec_refusal ''too many simple group relays'') (u16_try_from (length relays))) (\<lambda>n.
     try_then (collect_results (map encode_text relays)) (\<lambda>rs. Inr (a @ be16 n @ concat rs))))"

definition saved_encode :: "u8 \<Rightarrow> string \<Rightarrow> relay_url list \<Rightarrow> string option \<Rightarrow> write_intent_error + u8 list" where
  "saved_encode operation ident relays display_name =
     (if operation = SAVE_SIMPLE_GROUP then
        try_then (encode_simple_group ident relays) (\<lambda>g.
        try_then (encode_optional display_name) (\<lambda>d. Inr (SAVE_SIMPLE_GROUP # g @ d)))
      else if operation = REMOVE_SIMPLE_GROUP then
        try_then (encode_simple_group ident relays) (\<lambda>g. Inr (REMOVE_SIMPLE_GROUP # g))
      else if operation = RENAME_SIMPLE_GROUP then
        try_then (encode_simple_group ident relays) (\<lambda>g.
        try_then (ok_or (codec_refusal ''missing saved-list display name'') display_name) (\<lambda>name.
        try_then (encode_text name) (\<lambda>d. Inr (RENAME_SIMPLE_GROUP # g @ d))))
      else if operation = SAVE_RELAY \<or> operation = REMOVE_RELAY then
        try_then (ok_or (codec_refusal ''missing saved-list relay'') (nth_opt relays 0)) (\<lambda>relay.
        try_then (encode_text relay) (\<lambda>d. Inr (operation # d)))
      else Inl (codec_refusal ''unknown saved-list edit operation''))"

definition saved_edit :: "protocol_lib \<Rightarrow> u8 \<Rightarrow> string \<Rightarrow> relay_url list \<Rightarrow> string option \<Rightarrow> write_intent_error + event_edit" where
  "saved_edit P operation ident relays display_name =
     try_then (saved_encode operation ident relays display_name) (\<lambda>bytes. event_edit_new (pl_nostr P) saved_kind None bytes)"

definition save_simple_group :: "protocol_lib \<Rightarrow> simple_group \<Rightarrow> string option \<Rightarrow> write_intent_error + event_edit" where
  "save_simple_group P g display_name = saved_edit P SAVE_SIMPLE_GROUP (sg_id g) (sg_relays g) display_name"

definition remove_saved_simple_group :: "protocol_lib \<Rightarrow> simple_group \<Rightarrow> write_intent_error + event_edit" where
  "remove_saved_simple_group P g = saved_edit P REMOVE_SIMPLE_GROUP (sg_id g) (sg_relays g) None"

definition rename_saved_simple_group :: "protocol_lib \<Rightarrow> simple_group \<Rightarrow> string \<Rightarrow> write_intent_error + event_edit" where
  "rename_saved_simple_group P g display_name = saved_edit P RENAME_SIMPLE_GROUP (sg_id g) (sg_relays g) (Some display_name)"

definition save_relay :: "protocol_lib \<Rightarrow> relay_url \<Rightarrow> write_intent_error + event_edit" where
  "save_relay P relay = saved_edit P SAVE_RELAY [] [relay] None"

definition remove_saved_relay :: "protocol_lib \<Rightarrow> relay_url \<Rightarrow> write_intent_error + event_edit" where
  "remove_saved_relay P relay = saved_edit P REMOVE_RELAY [] [relay] None"

definition take_byte :: "u8 list \<Rightarrow> write_intent_error + u8 \<times> u8 list" where
  "take_byte input = (case input of [] \<Rightarrow> Inl (codec_refusal ''truncated saved-list edit'') | b # rest \<Rightarrow> Inr (b, rest))"

definition take_text :: "u8 list \<Rightarrow> write_intent_error + string \<times> u8 list" where
  "take_text input =
     (if length input < 4 then Inl (codec_refusal ''truncated saved-list text length'')
      else try_then (ok_or (codec_refusal ''saved-list text length overflow'') (checked_add_usize 4 (from_be 0 (take 4 input)))) (\<lambda>end_at.
        if length input < end_at then Inl (codec_refusal ''truncated saved-list text'')
        else try_then (ok_or (codec_refusal ''saved-list text is not UTF-8'') (from_utf8 (drop 4 (take end_at input)))) (\<lambda>s.
          Inr (s, drop end_at input))))"

definition take_optional_text :: "u8 list \<Rightarrow> write_intent_error + string option \<times> u8 list" where
  "take_optional_text input =
     try_then (take_byte input) (\<lambda>(flag, rest).
       if flag = 0 then Inr (None, rest)
       else if flag = 1 then try_then (take_text rest) (\<lambda>(s, rest). Inr (Some s, rest))
       else Inl (codec_refusal ''invalid saved-list optional text flag''))"

definition take_relay :: "protocol_lib \<Rightarrow> u8 list \<Rightarrow> write_intent_error + relay_url \<times> u8 list" where
  "take_relay P input =
     try_then (take_text input) (\<lambda>(s, rest).
     try_then (ok_or (codec_refusal ''invalid saved-list relay'') (relay_url_parse (pl_nostr P) s)) (\<lambda>r. Inr (r, rest)))"

fun take_relays :: "protocol_lib \<Rightarrow> nat \<Rightarrow> relay_url btree_set \<Rightarrow> u8 list \<Rightarrow> write_intent_error + relay_url list \<times> u8 list" where
  "take_relays P 0 seen input = Inr ([], input)"
| "take_relays P (Suc n) seen input =
     try_then (take_relay P input) (\<lambda>(relay, rest).
       if relay \<in> set seen then Inl (codec_refusal ''duplicate saved-list simple-group relay'')
       else try_then (take_relays P n (bs_insert relay seen) rest) (\<lambda>(relays, rest). Inr (relay # relays, rest)))"

definition take_simple_group :: "protocol_lib \<Rightarrow> u8 list \<Rightarrow> write_intent_error + (string \<times> relay_url list) \<times> u8 list" where
  "take_simple_group P input =
     try_then (take_text input) (\<lambda>(ident, rest).
       if length rest < 2 then Inl (codec_refusal ''truncated saved-list relay count'')
       else
         let count = from_be 0 (take 2 rest) in
         if count = 0 then Inl (codec_refusal ''invalid saved-list relay count'')
         else try_then (take_relays P count [] (drop 2 rest)) (\<lambda>(relays, rest). Inr ((ident, relays), rest)))"

type_synonym saved_change = "u8 \<times> string \<times> relay_url list \<times> string option"

definition saved_decode_operation :: "protocol_lib \<Rightarrow> u8 \<Rightarrow> u8 list \<Rightarrow> write_intent_error + (string \<times> relay_url list \<times> string option) \<times> u8 list" where
  "saved_decode_operation P operation input =
     (if operation = SAVE_SIMPLE_GROUP then
        try_then (take_simple_group P input) (\<lambda>((ident, relays), rest).
        try_then (take_optional_text rest) (\<lambda>(name, rest). Inr ((ident, relays, name), rest)))
      else if operation = REMOVE_SIMPLE_GROUP then
        try_then (take_simple_group P input) (\<lambda>((ident, relays), rest). Inr ((ident, relays, None), rest))
      else if operation = RENAME_SIMPLE_GROUP then
        try_then (take_simple_group P input) (\<lambda>((ident, relays), rest).
        try_then (take_text rest) (\<lambda>(name, rest). Inr ((ident, relays, Some name), rest)))
      else if operation = SAVE_RELAY \<or> operation = REMOVE_RELAY then
        try_then (take_relay P input) (\<lambda>(relay, rest). Inr (([], [relay], None), rest))
      else Inl (codec_refusal ''unknown saved-list edit operation''))"

definition saved_decode_edit :: "protocol_lib \<Rightarrow> event_edit \<Rightarrow> write_intent_error + saved_change" where
  "saved_decode_edit P e =
     (if ed_kind e \<noteq> saved_kind \<or> ed_identifier e \<noteq> None
      then Inl (codec_refusal ''saved-list edit requires a non-addressable kind-10009 coordinate'')
      else try_then (take_byte (ed_change e)) (\<lambda>(operation, input).
        try_then (saved_decode_operation P operation input) (\<lambda>((ident, relays, name), rest).
          if rest = [] then Inr (operation, ident, relays, name)
          else Inl (codec_refusal ''trailing saved-list edit bytes''))))"

subsection \<open>The applier\<close>

definition simple_group_target :: "protocol_lib \<Rightarrow> string \<Rightarrow> tag \<Rightarrow> relay_url option" where
  "simple_group_target P ident t =
     (if length t \<ge> 3 \<and> nth_opt t 0 = Some ''group'' \<and> nth_opt t 1 = Some ident
      then Option.bind (nth_opt t 2) (relay_url_parse (pl_nostr P)) else None)"

definition relay_target :: "protocol_lib \<Rightarrow> tag \<Rightarrow> relay_url option" where
  "relay_target P t =
     (if length t \<ge> 2 \<and> nth_opt t 0 = Some ''r'' then Option.bind (nth_opt t 1) (relay_url_parse (pl_nostr P)) else None)"

definition renamed_tag :: "protocol_lib \<Rightarrow> tag \<Rightarrow> string \<Rightarrow> write_intent_error + tag" where
  "renamed_tag P t name =
     map_err codec_refusal (pl_tag_parse P (if length t = 3 then t @ [name] else t[3 := name]))"

definition simple_group_tag :: "protocol_lib \<Rightarrow> string \<Rightarrow> relay_url \<Rightarrow> string option \<Rightarrow> write_intent_error + tag" where
  "simple_group_tag P ident host name =
     map_err codec_refusal (pl_tag_parse P ([''group'', ident, host] @ (case name of None \<Rightarrow> [] | Some n \<Rightarrow> [n])))"

text \<open>The first loop of \<open>apply_simple_group\<close>, over the tags of the source.\<close>

fun replay_groups :: "protocol_lib \<Rightarrow> string \<Rightarrow> relay_url list \<Rightarrow> u8 \<Rightarrow> string option \<Rightarrow> relay_url btree_set \<Rightarrow> tag list
    \<Rightarrow> write_intent_error + tag list \<times> relay_url btree_set" where
  "replay_groups P ident relays operation name found [] = Inr ([], found)"
| "replay_groups P ident relays operation name found (t # ts) =
     (case simple_group_target P ident t of
        Some relay \<Rightarrow>
          if relay \<notin> set (bs_of_list relays) then
            try_then (replay_groups P ident relays operation name found ts) (\<lambda>(tags, found). Inr (t # tags, found))
          else if relay \<in> set found then replay_groups P ident relays operation name found ts
          else try_then
            (if operation = SAVE_SIMPLE_GROUP then Inr [t]
             else if operation = REMOVE_SIMPLE_GROUP then Inr []
             else if operation = RENAME_SIMPLE_GROUP then
               try_then (ok_or (codec_refusal ''missing saved-list display name'') name) (\<lambda>n.
               try_then (renamed_tag P t n) (\<lambda>t'. Inr [t']))
             else Inl (codec_refusal ''invalid saved-list simple-group operation'')) (\<lambda>kept.
            try_then (replay_groups P ident relays operation name (bs_insert relay found) ts) (\<lambda>(tags, found).
            Inr (kept @ tags, found)))
      | None \<Rightarrow>
          try_then (replay_groups P ident relays operation name found ts) (\<lambda>(tags, found). Inr (t # tags, found)))"

text \<open>The second loop, over the relays that had no tag.\<close>

fun append_groups :: "protocol_lib \<Rightarrow> string \<Rightarrow> string option \<Rightarrow> relay_url btree_set \<Rightarrow> relay_url list \<Rightarrow> write_intent_error + tag list" where
  "append_groups P ident name found [] = Inr []"
| "append_groups P ident name found (r # rs) =
     (if r \<in> set found then append_groups P ident name found rs
      else try_then (simple_group_tag P ident r name) (\<lambda>t.
        try_then (append_groups P ident name (bs_insert r found) rs) (\<lambda>ts. Inr (t # ts))))"

definition apply_simple_group :: "protocol_lib \<Rightarrow> tag list \<Rightarrow> string \<Rightarrow> relay_url list \<Rightarrow> u8 \<Rightarrow> string option \<Rightarrow> write_intent_error + tag list" where
  "apply_simple_group P source ident relays operation name =
     try_then (replay_groups P ident relays operation name [] source) (\<lambda>(tags, found).
       if operation = SAVE_SIMPLE_GROUP then
         try_then (append_groups P ident name found relays) (\<lambda>added. Inr (tags @ added))
       else if operation = RENAME_SIMPLE_GROUP then
         try_then (ok_or (codec_refusal ''missing saved-list display name'') name) (\<lambda>n.
         try_then (append_groups P ident (Some n) found relays) (\<lambda>added. Inr (tags @ added)))
       else if operation = REMOVE_SIMPLE_GROUP then Inr tags
       else Inl (codec_refusal ''invalid saved-list simple-group operation''))"

definition apply_relay :: "protocol_lib \<Rightarrow> tag list \<Rightarrow> relay_url \<Rightarrow> bool \<Rightarrow> write_intent_error + tag list" where
  "apply_relay P source relay save =
     upsert_row (\<lambda>t. relay_target P t = Some relay) (\<lambda>t. t) save
       (map_err codec_refusal (pl_tag_parse P [''r'', relay])) source"

definition saved_apply_tags :: "protocol_lib \<Rightarrow> tag list \<Rightarrow> saved_change \<Rightarrow> write_intent_error + tag list" where
  "saved_apply_tags P source ch =
     (case ch of (operation, ident, relays, name) \<Rightarrow>
        if operation = SAVE_SIMPLE_GROUP \<or> operation = REMOVE_SIMPLE_GROUP \<or> operation = RENAME_SIMPLE_GROUP
        then apply_simple_group P source ident relays operation name
        else if operation = SAVE_RELAY \<or> operation = REMOVE_RELAY then
          try_then (ok_or (codec_refusal ''missing saved-list relay'') (nth_opt relays 0)) (\<lambda>relay.
          apply_relay P source relay (operation = SAVE_RELAY))
        else Inl (codec_refusal ''unknown saved-list edit operation''))"

definition qualified_source :: "protocol_lib \<Rightarrow> public_key \<Rightarrow> event_value option \<Rightarrow> timestamp \<Rightarrow> write_intent_error + string \<times> tag list" where
  "qualified_source P author source created_at =
     (case source of
        None \<Rightarrow> Inr ([], [])
      | Some v \<Rightarrow>
          try_then (map_err InvalidEvent (value_verify (pl_nostr P) v)) (\<lambda>_.
            if value_author v \<noteq> author \<or> value_kind v \<noteq> saved_kind
            then Inl (InvalidEvent ''saved-list source author or kind does not match accepted write'')
            else if created_at \<le> value_created_at v
            then Inl (InvalidEvent ''saved-list revision timestamp must succeed its source'')
            else Inr (value_content v, value_tags v)))"

definition saved_supports :: "protocol_lib \<Rightarrow> event_edit \<Rightarrow> bool" where
  "saved_supports P e = (case saved_decode_edit P e of Inl _ \<Rightarrow> False | Inr _ \<Rightarrow> True)"

definition saved_apply ::
  "protocol_lib \<Rightarrow> event_edit \<Rightarrow> public_key \<Rightarrow> event_value option \<Rightarrow> timestamp \<Rightarrow> write_intent_error + unsigned_event" where
  "saved_apply P e author source created_at =
     try_then (saved_decode_edit P e) (\<lambda>ch.
     try_then (qualified_source P author source created_at) (\<lambda>(content, source_tags).
     try_then (saved_apply_tags P source_tags ch) (\<lambda>tags.
     try_then (build_revision (pl_nostr P) saved_kind author content tags created_at) (\<lambda>u.
     try_then (map_err InvalidEvent (unsigned_verify_id (pl_nostr P) u)) (\<lambda>_. Inr u)))))"

subsection \<open>The reader\<close>

record saved_simple_group =
  ssg_id :: string
  ssg_relay :: string
  ssg_display_name :: "string option"

datatype saved_list_decode_error =
    SavedWrongEventKind kind kind
  | SavedMissingTagValue nat nat

record saved_group_list =
  sgl_author :: public_key
  sgl_simple_groups :: "(saved_list_decode_error + saved_simple_group) list"
  sgl_relays :: "(saved_list_decode_error + string) list"

definition saved_required :: "tag \<Rightarrow> nat \<Rightarrow> nat \<Rightarrow> saved_list_decode_error + string" where
  "saved_required t tag_index value_index = ok_or (SavedMissingTagValue tag_index value_index) (nth_opt t value_index)"

definition parse_group :: "tag \<Rightarrow> nat \<Rightarrow> saved_list_decode_error + saved_simple_group" where
  "parse_group t tag_index =
     try_then (saved_required t tag_index 1) (\<lambda>ident.
     try_then (saved_required t tag_index 2) (\<lambda>relay.
     Inr \<lparr>ssg_id = ident, ssg_relay = relay, ssg_display_name = nth_opt t 3\<rparr>))"

definition parse_saved_relay :: "tag \<Rightarrow> nat \<Rightarrow> saved_list_decode_error + string" where
  "parse_saved_relay t tag_index = saved_required t tag_index 1"

definition saved_list_from_event :: "event_value \<Rightarrow> saved_list_decode_error + saved_group_list" where
  "saved_list_from_event v =
     (if value_kind v \<noteq> saved_kind then Inl (SavedWrongEventKind saved_kind (value_kind v))
      else let rows = List.enumerate 0 (value_tags v) in
        Inr \<lparr>sgl_author = value_author v,
             sgl_simple_groups = map (\<lambda>(i, t). parse_group t i) (List.filter (\<lambda>(i, t). nth_opt t 0 = Some ''group'') rows),
             sgl_relays = map (\<lambda>(i, t). parse_saved_relay t i) (List.filter (\<lambda>(i, t). nth_opt t 0 = Some ''r'') rows)\<rparr>)"

subsection \<open>The applier keeps the contract\<close>

lemma saved_decode_edit_coordinate: "saved_decode_edit P e = Inr ch \<Longrightarrow> ed_kind e = saved_kind \<and> ed_identifier e = None"
  by (auto simp: saved_decode_edit_def split: if_splits)

lemma saved_apply_Inr:
  assumes "saved_apply P e a src t = Inr u"
  obtains ch content tags where "saved_decode_edit P e = Inr ch" "qualified_source P a src t = Inr (content, tags)"
    "saved_apply_tags P tags ch = Inr (ue_tags u)" "build_revision (pl_nostr P) saved_kind a content (ue_tags u) t = Inr u"
    "unsigned_verify_id (pl_nostr P) u = Inr ()"
proof -
  from assms obtain ch content tags out where "saved_decode_edit P e = Inr ch" "qualified_source P a src t = Inr (content, tags)"
    "saved_apply_tags P tags ch = Inr out" "build_revision (pl_nostr P) saved_kind a content out t = Inr u"
    "unsigned_verify_id (pl_nostr P) u = Inr ()"
    by (auto simp: saved_apply_def try_then_Inr_iff)
  with build_revision_Inr(6) that show thesis by metis
qed

lemma qualified_source_Inr:
  assumes "qualified_source P a src t = Inr (content, tags)"
  shows "case src of None \<Rightarrow> content = [] \<and> tags = []
    | Some v \<Rightarrow> content = value_content v \<and> tags = value_tags v \<and> value_author v = a \<and> value_kind v = saved_kind
        \<and> value_verify (pl_nostr P) v = Inr () \<and> value_created_at v < t"
  using assms by (auto simp: qualified_source_def not_le try_then_Inr_iff split: option.splits if_splits)

interpretation saved: edit_applier "pl_nostr P" saved_kind "saved_supports P" "saved_apply P" for P
proof
  fix e a src t u s
  show "saved_supports P e \<Longrightarrow> ed_kind e = saved_kind \<and> ed_identifier e = None"
    using saved_decode_edit_coordinate by (fastforce simp: saved_supports_def split: sum.splits)
  assume ok: "saved_apply P e a src t = Inr u"
  from saved_apply_Inr [OF ok] obtain ch content tags where parts: "saved_decode_edit P e = Inr ch"
    "qualified_source P a src t = Inr (content, tags)"
    "build_revision (pl_nostr P) saved_kind a content (ue_tags u) t = Inr u" "unsigned_verify_id (pl_nostr P) u = Inr ()" .
  from parts(1) show "saved_supports P e" by (simp add: saved_supports_def)
  from parts(4) show "unsigned_verify_id (pl_nostr P) u = Inr ()" .
  from qualified_source_Inr [OF parts(2)] build_revision_Inr [OF parts(3)]
  show "ue_pubkey u = a \<and> ue_kind u = saved_kind \<and> ue_created_at u = t \<and> ue_id u \<noteq> None
      \<and> ue_content u = (case src of None \<Rightarrow> [] | Some s \<Rightarrow> value_content s) \<and> length (ue_tags u) \<le> MAX_TAGS"
    by (simp split: option.splits)
next
  fix e a s t u
  assume "saved_apply P e a (Some s) t = Inr u"
  then obtain content tags where "qualified_source P a (Some s) t = Inr (content, tags)" by (elim saved_apply_Inr)
  from qualified_source_Inr [OF this]
  show "value_author s = a \<and> value_kind s = saved_kind \<and> value_verify (pl_nostr P) s = Inr () \<and> value_created_at s < t" by simp
qed

subsection \<open>One entry per relay\<close>

definition selects :: "protocol_lib \<Rightarrow> string \<Rightarrow> relay_url list \<Rightarrow> tag \<Rightarrow> bool" where
  "selects P ident relays t \<longleftrightarrow> (case simple_group_target P ident t of Some r \<Rightarrow> r \<in> set relays | None \<Rightarrow> False)"

lemma selects_iff: "selects P ident relays t \<longleftrightarrow> (\<exists>r\<in>set relays. simple_group_target P ident t = Some r)"
  by (simp add: selects_def split: option.splits)

definition entries :: "protocol_lib \<Rightarrow> string \<Rightarrow> relay_url \<Rightarrow> tag list \<Rightarrow> tag list" where
  "entries P ident r ts = List.filter (\<lambda>t. simple_group_target P ident t = Some r) ts"

lemma entries_simps [simp]:
  "entries P ident r [] = []" "entries P ident r (ts @ us) = entries P ident r ts @ entries P ident r us"
  "entries P ident r (t # ts) = (if simple_group_target P ident t = Some r then t # entries P ident r ts else entries P ident r ts)"
  by (simp_all add: entries_def)

definition group_operation :: "u8 \<Rightarrow> bool" where
  "group_operation operation \<longleftrightarrow> operation = SAVE_SIMPLE_GROUP \<or> operation = REMOVE_SIMPLE_GROUP \<or> operation = RENAME_SIMPLE_GROUP"

lemma tag_parse_id: "protocol_laws P \<Longrightarrow> pl_tag_parse P vs = Inr t \<Longrightarrow> t = vs \<and> pl_tag_parse P t = Inr t"
  unfolding protocol_laws_def by blast

lemma renamed_tag_Inr:
  assumes "protocol_laws P" "renamed_tag P t n = Inr t'" "simple_group_target P ident t = Some r"
  shows "simple_group_target P ident t' = Some r" "nth_opt t' 3 = Some n" "pl_tag_parse P t' = Inr t'"
    "nth_opt t 3 = Some n \<Longrightarrow> t' = t"
proof -
  from assms(3) have len: "length t \<ge> 3" by (simp add: simple_group_target_def split: if_splits)
  from assms(2) have p: "pl_tag_parse P (if length t = 3 then t @ [n] else t[3 := n]) = Inr t'" by (simp add: renamed_tag_def)
  from tag_parse_id [OF assms(1) p] have t': "t' = (if length t = 3 then t @ [n] else t[3 := n])" "pl_tag_parse P t' = Inr t'" by blast+
  from t'(2) show "pl_tag_parse P t' = Inr t'" .
  from t'(1) len have keep: "nth_opt t' i = nth_opt t i" if "i < 3" for i using that by (auto simp: nth_opt_def nth_append)
  with len t'(1) assms(3) show "simple_group_target P ident t' = Some r"
    by (simp add: simple_group_target_def split: if_splits)
  from t'(1) len show "nth_opt t' 3 = Some n" by (simp add: nth_opt_def nth_append)
  from t'(1) len show "nth_opt t 3 = Some n \<Longrightarrow> t' = t" by (auto simp: nth_opt_def split: if_splits)
qed

lemma simple_group_tag_Inr:
  assumes "protocol_laws P" "simple_group_tag P ident r name = Inr t" "relay_url_parse (pl_nostr P) r = Some r"
  shows "simple_group_target P ident t = Some r" "nth_opt t 3 = name" "pl_tag_parse P t = Inr t"
proof -
  from assms(2) have p: "pl_tag_parse P ([''group'', ident, r] @ (case name of None \<Rightarrow> [] | Some n \<Rightarrow> [n])) = Inr t"
    by (simp add: simple_group_tag_def)
  from tag_parse_id [OF assms(1) p] assms(3)
  show "simple_group_target P ident t = Some r" "nth_opt t 3 = name" "pl_tag_parse P t = Inr t"
    by (auto simp: simple_group_target_def nth_opt_def split: option.splits)
qed

text \<open>What an edit leaves behind for a relay it has met.\<close>

definition named :: "protocol_lib \<Rightarrow> u8 \<Rightarrow> string option \<Rightarrow> tag \<Rightarrow> bool" where
  "named P operation name t \<longleftrightarrow> (operation = RENAME_SIMPLE_GROUP \<longrightarrow> nth_opt t 3 = name \<and> pl_tag_parse P t = Inr t)"

lemma replay_groups_spec:
  assumes "protocol_laws P" "replay_groups P ident relays operation name found ts = Inr (tags, found')"
  shows "List.filter (\<lambda>t. \<not> selects P ident relays t) tags = List.filter (\<lambda>t. \<not> selects P ident relays t) ts
     \<and> set found' = set found \<union> {r \<in> set relays. entries P ident r ts \<noteq> []}
     \<and> (\<forall>r\<in>set relays. length (entries P ident r tags) =
           (if operation \<noteq> REMOVE_SIMPLE_GROUP \<and> r \<notin> set found \<and> entries P ident r ts \<noteq> [] then 1 else 0))
     \<and> (\<forall>t\<in>set tags. selects P ident relays t \<longrightarrow> named P operation name t)"
  using assms(2)
proof (induction ts arbitrary: found tags found')
  case (Cons t ts)
  consider (other) "\<not> selects P ident relays t"
    | (again) r where "simple_group_target P ident t = Some r" "r \<in> set relays" "r \<in> set found"
    | (first) r where "simple_group_target P ident t = Some r" "r \<in> set relays" "r \<notin> set found"
    unfolding selects_iff by blast
  then show ?case
  proof cases
    case other
    then have no: "simple_group_target P ident t \<noteq> Some r" if "r \<in> set relays" for r using that by (auto simp: selects_iff)
    from other Cons.prems obtain tags1 where rest: "replay_groups P ident relays operation name found ts = Inr (tags1, found')" "tags = t # tags1"
      by (auto simp: selects_def try_then_Inr_iff split: option.splits)
    from Cons.IH [OF rest(1)] other no rest(2) show ?thesis by auto
  next
    case again
    with Cons.prems have "replay_groups P ident relays operation name found ts = Inr (tags, found')" by simp
    from Cons.IH [OF this] again show ?thesis by (auto simp: selects_def)
  next
    case first
    from first Cons.prems obtain kept tags1 where rest: "replay_groups P ident relays operation name (bs_insert r found) ts = Inr (tags1, found')"
        "tags = kept @ tags1"
      and kept: "(operation = REMOVE_SIMPLE_GROUP \<and> kept = []) \<or> (operation = SAVE_SIMPLE_GROUP \<and> kept = [t])
        \<or> (operation = RENAME_SIMPLE_GROUP \<and> (\<exists>n t'. name = Some n \<and> renamed_tag P t n = Inr t' \<and> kept = [t']))"
      by (auto simp: try_then_Inr_iff ok_or_def split: if_splits option.splits)
    from kept renamed_tag_Inr [OF assms(1) _ first(1)]
    have k: "List.filter (\<lambda>t. \<not> selects P ident relays t) kept = []" "\<forall>q\<in>set relays. length (entries P ident q kept) = (if operation \<noteq> REMOVE_SIMPLE_GROUP \<and> q = r then 1 else 0)"
      "\<forall>t\<in>set kept. named P operation name t"
      using first by (auto simp: selects_def named_def saved_operations)
    from Cons.IH [OF rest(1)] k first rest(2) show ?thesis by (auto simp: selects_def)
  qed
qed simp

lemma append_groups_spec:
  assumes "protocol_laws P" "\<forall>r\<in>set rs. relay_url_parse (pl_nostr P) r = Some r"
    and "append_groups P ident name found rs = Inr added"
  shows "(\<forall>r. length (entries P ident r added) = (if r \<in> set rs - set found then 1 else 0))
     \<and> (\<forall>t\<in>set added. selects P ident rs t \<and> nth_opt t 3 = name \<and> pl_tag_parse P t = Inr t)"
  using assms(2,3)
proof (induction rs arbitrary: found added)
  case (Cons r rs)
  show ?case
  proof (cases "r \<in> set found")
    case True
    with Cons.prems(2) have "append_groups P ident name found rs = Inr added" by simp
    from Cons.IH [OF _ this] Cons.prems(1) True show ?thesis by (auto simp: selects_iff)
  next
    case False
    with Cons.prems(2) obtain t ts where parts: "simple_group_tag P ident r name = Inr t"
      "append_groups P ident name (bs_insert r found) rs = Inr ts" "added = t # ts"
      by (auto simp: try_then_Inr_iff)
    from simple_group_tag_Inr [OF assms(1) parts(1)] Cons.prems(1)
    have t: "simple_group_target P ident t = Some r" "nth_opt t 3 = name" "pl_tag_parse P t = Inr t" by simp_all
    have rest: "length (entries P ident q ts) = (if q \<in> set rs - set (bs_insert r found) then 1 else 0)"
      "x \<in> set ts \<Longrightarrow> selects P ident rs x \<and> nth_opt x 3 = name \<and> pl_tag_parse P x = Inr x" for q x
      using Cons.IH [OF _ parts(2)] Cons.prems(1) by simp_all
    have "length (entries P ident q added) = (if q \<in> set (r # rs) - set found then 1 else 0)" for q
      using rest(1) [of q] t(1) False parts(3) by (cases "q = r") (auto split: if_splits)
    with rest(2) t parts(3) show ?thesis by (auto simp: selects_iff)
  qed
qed simp

text \<open>A list that already has its entries is left as it is.\<close>

lemma replay_groups_stable:
  assumes "protocol_laws P" "group_operation operation" "operation = RENAME_SIMPLE_GROUP \<Longrightarrow> name \<noteq> None"
    and "operation = REMOVE_SIMPLE_GROUP \<Longrightarrow> \<forall>t\<in>set ts. \<not> selects P ident relays t"
    and "\<forall>t\<in>set ts. selects P ident relays t \<longrightarrow> named P operation name t"
    and "\<forall>r\<in>set relays. length (entries P ident r ts) \<le> (if r \<in> set found then 0 else 1)"
  shows "\<exists>found'. replay_groups P ident relays operation name found ts = Inr (ts, found')"
  using assms(4-)
proof (induction ts arbitrary: found)
  case (Cons t ts)
  show ?case
  proof (cases "selects P ident relays t")
    case False
    then have "entries P ident r (t # ts) = entries P ident r ts" if "r \<in> set relays" for r using that by (auto simp: selects_iff)
    with Cons.prems(3) have "\<forall>r\<in>set relays. length (entries P ident r ts) \<le> (if r \<in> set found then 0 else 1)"
      by (simp del: entries_simps)
    with Cons.IH [of found] Cons.prems obtain found' where "replay_groups P ident relays operation name found ts = Inr (ts, found')" by auto
    with False show ?thesis by (auto simp: selects_def split: option.splits)
  next
    case True
    then obtain r where r: "simple_group_target P ident t = Some r" "r \<in> set relays" by (auto simp: selects_def split: option.splits)
    with Cons.prems(3) have fresh: "r \<notin> set found" "entries P ident r ts = []" by (auto split: if_splits)
    have not_remove: "operation \<noteq> REMOVE_SIMPLE_GROUP" using Cons.prems(1) True by auto
    have "length (entries P ident q ts) \<le> (if q \<in> set (bs_insert r found) then 0 else 1)" if "q \<in> set relays" for q
      using bspec [OF Cons.prems(3) that] fresh(2) by (auto split: if_splits)
    with Cons.IH [of "bs_insert r found"] Cons.prems(1,2) obtain found' where
      rest: "replay_groups P ident relays operation name (bs_insert r found) ts = Inr (ts, found')" by auto
    have "named P operation name t" using Cons.prems(2) True by simp
    then have "renamed_tag P t n = Inr t" if "operation = RENAME_SIMPLE_GROUP" "name = Some n" for n
      using that r(1) by (auto simp: named_def renamed_tag_def simple_group_target_def nth_opt_def split: if_splits)
    with rest r fresh(1) not_remove assms(2,3) show ?thesis
      by (auto simp: group_operation_def saved_operations)
  qed
qed simp

lemma append_groups_none: "set rs \<subseteq> set found \<Longrightarrow> append_groups P ident name found rs = Inr []"
  by (induction rs) auto

text \<open>
  Saving a group leaves exactly one entry for each of its relays, renaming one as well, with the new
  name, and removing leaves none. Every other tag of the list stays in its place, and applying the
  edit again changes nothing.
\<close>

lemma apply_simple_group_spec:
  assumes "protocol_laws P" "group_operation operation" "\<forall>r\<in>set relays. relay_url_parse (pl_nostr P) r = Some r"
    and "apply_simple_group P source ident relays operation name = Inr out"
  shows "List.filter (\<lambda>t. \<not> selects P ident relays t) out = List.filter (\<lambda>t. \<not> selects P ident relays t) source
     \<and> (\<forall>r\<in>set relays. length (entries P ident r out) = (if operation = REMOVE_SIMPLE_GROUP then 0 else 1))
     \<and> (operation = RENAME_SIMPLE_GROUP \<longrightarrow> (\<forall>t\<in>set out. selects P ident relays t \<longrightarrow> nth_opt t 3 = name))
     \<and> apply_simple_group P out ident relays operation name = Inr out"
proof -
  from assms(2,4) obtain tags found added where replay: "replay_groups P ident relays operation name [] source = Inr (tags, found)"
    and out: "out = tags @ added" and added: "if operation = REMOVE_SIMPLE_GROUP then added = [] else append_groups P ident name found relays = Inr added"
    and named: "operation = RENAME_SIMPLE_GROUP \<Longrightarrow> name \<noteq> None"
    by (auto simp: apply_simple_group_def try_then_Inr_iff group_operation_def ok_or_def saved_operations split: option.splits)
  note first = replay_groups_spec [OF assms(1) replay]
  have second: "(\<forall>r. length (entries P ident r added) = (if operation \<noteq> REMOVE_SIMPLE_GROUP \<and> r \<in> set relays - set found then 1 else 0))
      \<and> (\<forall>t\<in>set added. selects P ident relays t \<and> named P operation name t)"
  proof (cases "operation = REMOVE_SIMPLE_GROUP")
    case False
    with added have "append_groups P ident name found relays = Inr added" by simp
    from append_groups_spec [OF assms(1,3) this] False show ?thesis by (simp add: named_def)
  qed (use added in simp)
  have a: "List.filter (\<lambda>t. \<not> selects P ident relays t) out = List.filter (\<lambda>t. \<not> selects P ident relays t) source"
    using first second out by (auto simp: filter_empty_conv)
  have b: "length (entries P ident r out) = (if operation = REMOVE_SIMPLE_GROUP then 0 else 1)" if "r \<in> set relays" for r
    using first second out that by auto
  have c: "named P operation name t" if "t \<in> set out" "selects P ident relays t" for t using first second out that by auto
  have none: "\<not> selects P ident relays t" if "operation = REMOVE_SIMPLE_GROUP" "t \<in> set out" for t
    using b that by (auto simp: selects_def entries_def filter_empty_conv split: option.splits)
  obtain found' where again: "replay_groups P ident relays operation name [] out = Inr (out, found')"
  proof -
    have "\<forall>r\<in>set relays. length (entries P ident r out) \<le> (if r \<in> set [] then 0 else 1)" using b by simp
    from replay_groups_stable [OF assms(1,2) named _ _ this] none c that show thesis by blast
  qed
  have "set relays \<subseteq> set found'" if "operation \<noteq> REMOVE_SIMPLE_GROUP"
    using replay_groups_spec [OF assms(1) again] b that by fastforce
  then have "apply_simple_group P out ident relays operation name = Inr out"
    using again named assms(2) append_groups_none [of relays found' P ident name]
    by (auto simp: apply_simple_group_def group_operation_def ok_or_def saved_operations)
  with a b c show ?thesis by (auto simp: named_def)
qed

text \<open>Saving or removing a bare relay touches the \<open>r\<close> tags of that relay only.\<close>

lemma apply_relay_spec:
  assumes "protocol_laws P" "relay_url_parse (pl_nostr P) relay = Some relay" "apply_relay P source relay save = Inr out"
  shows "List.filter (\<lambda>t. relay_target P t \<noteq> Some relay) out = List.filter (\<lambda>t. relay_target P t \<noteq> Some relay) source"
    "length (List.filter (\<lambda>t. relay_target P t = Some relay) out) = (if save then 1 else 0)"
    "apply_relay P out relay save = Inr out"
proof -
  have row: "relay_target P r = Some relay" if "map_err codec_refusal (pl_tag_parse P [''r'', relay]) = Inr r" for r
    using tag_parse_id [OF assms(1), of "[''r'', relay]" r] that assms(2) by (auto simp: relay_target_def nth_opt_def)
  note spec = upsert_row_spec [OF assms(3) [unfolded apply_relay_def] _ row, simplified]
  show "List.filter (\<lambda>t. relay_target P t \<noteq> Some relay) out = List.filter (\<lambda>t. relay_target P t \<noteq> Some relay) source" by (rule spec(1))
  show "length (List.filter (\<lambda>t. relay_target P t = Some relay) out) = (if save then 1 else 0)" by (simp add: spec(2))
  then show "apply_relay P out relay save = Inr out" unfolding apply_relay_def by (rule upsert_row_stable) simp
qed

subsection \<open>Bytes of an edit\<close>

lemma take_encode_text:
  assumes "encode_text v = Inr bs" "is_str v"
  shows "take_text (bs @ rest) = Inr (v, rest)"
proof -
  from assms(1) have bs: "bs = be32 (length v) @ str_bytes v" "length v < 2 ^ 32"
    by (auto simp: encode_text_def try_then_Inr_iff u32_try_from_def split: if_splits)
  moreover have "4 + length v < 2 ^ 64" using bs(2) by simp
  ultimately show ?thesis using assms(2) by (simp add: take_text_def checked_add_usize_def)
qed

lemma take_encode_relays:
  assumes "collect_results (map encode_text rs) = Inr bss" "\<forall>r\<in>set rs. a_relay P r" "distinct rs" "set rs \<inter> set seen = {}"
  shows "take_relays P (length rs) seen (concat bss @ rest) = Inr (rs, rest)"
  using assms
proof (induction rs arbitrary: bss seen)
  case (Cons r rs)
  then obtain b bss' where b: "encode_text r = Inr b" "collect_results (map encode_text rs) = Inr bss'" "bss = b # bss'"
    by (auto simp: try_then_Inr_iff)
  from Cons.prems(2) have r: "is_str r" "relay_url_parse (pl_nostr P) r = Some r" by (simp_all add: a_relay_def)
  have "take_relay P (b @ concat bss' @ rest) = Inr (r, concat bss' @ rest)"
    using take_encode_text [OF b(1) r(1)] r(2) by (simp add: take_relay_def)
  moreover have "take_relays P (length rs) (bs_insert r seen) (concat bss' @ rest) = Inr (rs, rest)"
    using Cons.IH [OF b(2)] Cons.prems by auto
  ultimately show ?case using b(3) Cons.prems(4) by simp
qed simp

lemma take_encode_simple_group:
  assumes "encode_simple_group ident rs = Inr bs" "is_str ident" "\<forall>r\<in>set rs. a_relay P r" "distinct rs" "rs \<noteq> []"
  shows "take_simple_group P (bs @ rest) = Inr ((ident, rs), rest)"
proof -
  from assms(1) obtain a bss where parts: "encode_text ident = Inr a" "length rs < 2 ^ 16" "collect_results (map encode_text rs) = Inr bss"
    "bs = a @ be16 (length rs) @ concat bss"
    by (auto simp: encode_simple_group_def try_then_Inr_iff u16_try_from_def split: if_splits)
  have "take_relays P (length rs) [] (concat bss @ rest) = Inr (rs, rest)"
    using take_encode_relays [OF parts(3) assms(3,4)] by simp
  moreover have "take_text (bs @ rest) = Inr (ident, be16 (length rs) @ concat bss @ rest)"
    using take_encode_text [OF parts(1) assms(2)] parts(4) by simp
  ultimately show ?thesis using parts(2) assms(5) by (simp add: take_simple_group_def Let_def)
qed

lemma take_encode_optional:
  assumes "encode_optional v = Inr bs" "\<And>s. v = Some s \<Longrightarrow> is_str s"
  shows "take_optional_text (bs @ rest) = Inr (v, rest)"
proof (cases v)
  case None
  with assms(1) show ?thesis by (auto simp: encode_optional_def take_optional_text_def take_byte_def)
next
  case (Some t)
  with assms(1) obtain d where "encode_text t = Inr d" "bs = 1 # d" by (auto simp: encode_optional_def try_then_Inr_iff)
  with take_encode_text [of t d rest] assms(2) Some show ?thesis by (simp add: take_optional_text_def take_byte_def)
qed

lemma saved_edit_fields:
  assumes "saved_edit P operation ident relays name = Inr e"
  obtains bytes where "saved_encode operation ident relays name = Inr bytes" "ed_kind e = saved_kind" "ed_identifier e = None" "ed_change e = bytes"
proof -
  from assms obtain bytes where "saved_encode operation ident relays name = Inr bytes"
    and e: "event_edit_new (pl_nostr P) saved_kind None bytes = Inr e"
    by (auto simp: saved_edit_def try_then_Inr_iff)
  moreover have "e = \<lparr>ed_kind = saved_kind, ed_identifier = None, ed_change = bytes\<rparr>"
    using e by (cases "validate_coordinate (pl_nostr P) saved_kind None"; cases "validate_bytes bytes") (simp_all add: event_edit_new_def)
  ultimately show thesis using that by simp
qed

text \<open>
  The five constructors and the decoder agree: an edit made from a group, with texts that are
  \<open>str\<close> values, decodes to its operation, id, relays and name, and the applier supports it.
\<close>

lemma saved_edit_roundtrip:
  assumes "saved_edit P operation (sg_id g) (sg_relays g) name = Inr e" "group_operation operation"
    and "group_ok g" "is_str (sg_id g)" "\<forall>r\<in>set (sg_relays g). a_relay P r" "\<And>n. name = Some n \<Longrightarrow> is_str n"
    and "operation = REMOVE_SIMPLE_GROUP \<Longrightarrow> name = None"
  shows "saved_decode_edit P e = Inr (operation, sg_id g, sg_relays g, name) \<and> saved_supports P e"
proof -
  from assms(1) obtain bytes where bytes: "saved_encode operation (sg_id g) (sg_relays g) name = Inr bytes"
    and fields: "ed_kind e = saved_kind" "ed_identifier e = None" "ed_change e = bytes" by (rule saved_edit_fields)
  note group = take_encode_simple_group [OF _ assms(4,5)]
  have ok: "distinct (sg_relays g)" "sg_relays g \<noteq> []" using assms(3) by (simp_all add: group_ok_def)
  from assms(2) consider "operation = SAVE_SIMPLE_GROUP" | "operation = REMOVE_SIMPLE_GROUP" | "operation = RENAME_SIMPLE_GROUP"
    by (auto simp: group_operation_def)
  then have "\<exists>input. bytes = operation # input \<and> saved_decode_operation P operation input = Inr ((sg_id g, sg_relays g, name), [])"
  proof cases
    case 1
    with bytes obtain gs d where "encode_simple_group (sg_id g) (sg_relays g) = Inr gs" "encode_optional name = Inr d" "bytes = operation # gs @ d"
      by (auto simp: saved_encode_def try_then_Inr_iff)
    with 1 group [OF _ ok] take_encode_optional [of name d "[]"] assms(6) show ?thesis by (simp add: saved_decode_operation_def)
  next
    case 2
    with bytes obtain gs where "encode_simple_group (sg_id g) (sg_relays g) = Inr gs" "bytes = operation # gs"
      by (auto simp: saved_encode_def try_then_Inr_iff saved_operations)
    with 2 group [OF _ ok, where rest = "[]"] assms(7) show ?thesis by (simp add: saved_decode_operation_def saved_operations)
  next
    case 3
    with bytes obtain gs d n where "encode_simple_group (sg_id g) (sg_relays g) = Inr gs" "name = Some n" "encode_text n = Inr d"
      "bytes = operation # gs @ d"
      by (auto simp: saved_encode_def try_then_Inr_iff ok_or_def saved_operations split: option.splits)
    with 3 group [OF _ ok] take_encode_text [of n d "[]"] assms(6) show ?thesis by (simp add: saved_decode_operation_def saved_operations)
  qed
  with fields show ?thesis by (auto simp: saved_decode_edit_def take_byte_def saved_supports_def)
qed

lemma saved_relay_roundtrip:
  assumes "saved_edit P operation [] [relay] None = Inr e" "operation = SAVE_RELAY \<or> operation = REMOVE_RELAY" "a_relay P relay"
  shows "saved_decode_edit P e = Inr (operation, [], [relay], None)"
proof -
  from assms(1) obtain bytes where bytes: "saved_encode operation [] [relay] None = Inr bytes"
    and fields: "ed_kind e = saved_kind" "ed_identifier e = None" "ed_change e = bytes" by (rule saved_edit_fields)
  from bytes assms(2) obtain d where d: "encode_text relay = Inr d" "bytes = operation # d"
    by (auto simp: saved_encode_def try_then_Inr_iff nth_opt_def saved_operations split: if_splits)
  from assms(3) have "take_relay P d = Inr (relay, [])"
    using take_encode_text [OF d(1), of "[]"] by (simp add: take_relay_def a_relay_def)
  with fields d(2) assms(2) show ?thesis
    by (auto simp: saved_decode_edit_def saved_decode_operation_def take_byte_def saved_operations)
qed

subsection \<open>What the list reads like\<close>

lemma filter_enumerate_from: "map snd (List.filter (\<lambda>(i, t). Q t) (List.enumerate n ts)) = List.filter Q ts"
  by (induction ts arbitrary: n) auto

lemma parse_group_target:
  assumes "simple_group_target P ident t = Some r"
  shows "\<exists>s. parse_group t i = Inr s \<and> ssg_id s = ident \<and> relay_url_parse (pl_nostr P) (ssg_relay s) = Some r
     \<and> ssg_display_name s = nth_opt t 3"
  using assms by (auto simp: simple_group_target_def parse_group_def saved_required_def ok_or_def bind_eq_Some_conv nth_opt_def split: if_splits)

lemma reader_lists_entry:
  assumes "saved_list_from_event v = Inr l" "t \<in> set (value_tags v)" "simple_group_target P ident t = Some r"
  shows "\<exists>s. Inr s \<in> set (sgl_simple_groups l) \<and> ssg_id s = ident \<and> relay_url_parse (pl_nostr P) (ssg_relay s) = Some r
     \<and> ssg_display_name s = nth_opt t 3"
proof -
  from assms(2) obtain i where i: "i < length (value_tags v)" "value_tags v ! i = t" by (auto simp: in_set_conv_nth)
  then have mem: "(i, t) \<in> set (List.enumerate 0 (value_tags v))" by (auto simp: in_set_enumerate_eq)
  from assms(3) have "nth_opt t 0 = Some ''group''" by (simp add: simple_group_target_def split: if_splits)
  with mem assms(1) have "parse_group t i \<in> set (sgl_simple_groups l)"
    by (force simp: saved_list_from_event_def Let_def split: if_splits)
  with parse_group_target [OF assms(3), of i] show ?thesis by auto
qed

text \<open>
  End to end: the revision made from a rename of a group, read back, lists the group on every one
  of its relays under the new name.
\<close>

theorem rename_is_listed:
  assumes "protocol_laws P" "group_ok g" "is_str (sg_id g)" "\<forall>r\<in>set (sg_relays g). a_relay P r" "is_str name"
    and "rename_saved_simple_group P g name = Inr e" "saved_apply P e author source created_at = Inr u" "r \<in> set (sg_relays g)"
  shows "\<exists>l s. saved_list_from_event (Unsigned u) = Inr l \<and> sgl_author l = author \<and> Inr s \<in> set (sgl_simple_groups l)
     \<and> ssg_id s = sg_id g \<and> relay_url_parse (pl_nostr P) (ssg_relay s) = Some r \<and> ssg_display_name s = Some name"
proof -
  have decoded: "saved_decode_edit P e = Inr (RENAME_SIMPLE_GROUP, sg_id g, sg_relays g, Some name)"
    using saved_edit_roundtrip [OF assms(6) [unfolded rename_saved_simple_group_def] _ assms(2-4)] assms(5)
    by (simp add: group_operation_def saved_operations)
  from assms(7) obtain ch tags where "saved_decode_edit P e = Inr ch" "saved_apply_tags P tags ch = Inr (ue_tags u)"
    by (elim saved_apply_Inr)
  with decoded have applied: "apply_simple_group P tags (sg_id g) (sg_relays g) RENAME_SIMPLE_GROUP (Some name) = Inr (ue_tags u)"
    by (simp add: saved_apply_tags_def)
  have "group_operation RENAME_SIMPLE_GROUP" "RENAME_SIMPLE_GROUP \<noteq> REMOVE_SIMPLE_GROUP" "\<forall>r\<in>set (sg_relays g). relay_url_parse (pl_nostr P) r = Some r"
    using assms(4) by (simp_all add: group_operation_def saved_operations a_relay_def)
  from apply_simple_group_spec [OF assms(1) this(1,3) applied] this(2) assms(8)
  have "length (entries P (sg_id g) r (ue_tags u)) = 1" "\<forall>t\<in>set (ue_tags u). selects P (sg_id g) (sg_relays g) t \<longrightarrow> nth_opt t 3 = Some name"
    by auto
  then have one: "entries P (sg_id g) r (ue_tags u) \<noteq> []" and all: "selects P (sg_id g) (sg_relays g) t \<Longrightarrow> t \<in> set (ue_tags u) \<Longrightarrow> nth_opt t 3 = Some name" for t
    by auto
  from one obtain t where t: "t \<in> set (ue_tags u)" "simple_group_target P (sg_id g) t = Some r"
    by (auto simp: entries_def filter_empty_conv)
  with all [of t] assms(8) have name: "nth_opt t 3 = Some name" by (auto simp: selects_iff)
  have "\<exists>l. saved_list_from_event (Unsigned u) = Inr l \<and> sgl_author l = author"
    using saved.revision [OF assms(7)] by (simp add: saved_list_from_event_def Let_def)
  then obtain l where "saved_list_from_event (Unsigned u) = Inr l" "sgl_author l = author" by blast
  with reader_lists_entry [OF this(1) _ t(2)] t name show ?thesis by auto
qed

subsection \<open>A concrete list\<close>

text \<open>The bounds are compared as integers when they are evaluated.\<close>

lemma validate_bytes_code [code]:
  "validate_bytes v = (if int (length v) > 131072 then Inl (TooLarge (length v) MAX_EVENT_BYTES) else Inr ())"
  by (auto simp: validate_bytes_def MAX_EVENT_BYTES_def)

lemma build_event_code [code]:
  "build_event N b =
     (if int (length (eb_tags b)) > 2000 then Inl (BuildTooManyTags (length (eb_tags b)) MAX_TAGS)
      else let u = ensure_id N \<lparr>ue_id = None, ue_pubkey = eb_author b, ue_created_at = eb_created_at b,
                     ue_kind = eb_kind b, ue_tags = eb_tags b, ue_content = eb_content b\<rparr> in
        case unsigned_json_len N u of
          Inl e \<Rightarrow> Inl (BuildEncoding e)
        | Inr bytes \<Rightarrow> if int bytes > 131072 then Inl (BuildTooLarge bytes MAX_EVENT_BYTES) else Inr u)"
  by (auto simp: build_event_def MAX_EVENT_BYTES_def MAX_TAGS_def Let_def split: sum.splits)

definition sample_group :: simple_group where
  "sample_group = \<lparr>sg_id = ''cats'', sg_relays = [''wss://a'', ''wss://b'']\<rparr>"

definition sample_list :: unsigned_event where
  "sample_list = ensure_id sample_lib \<lparr>ue_id = None, ue_pubkey = 7, ue_created_at = 1, ue_kind = saved_kind,
     ue_tags = [[''group'', ''cats'', ''wss://b''], [''r'', ''wss://c''], [''group'', ''cats'', ''wss://b'', ''old'']], ue_content = ''x''\<rparr>"

theorem rename_is_listed_witness:
  "\<exists>e u l s. rename_saved_simple_group sample_protocol sample_group ''Cats'' = Inr e
     \<and> saved_apply sample_protocol e 7 (Some (Unsigned sample_list)) 2 = Inr u
     \<and> saved_list_from_event (Unsigned u) = Inr l \<and> Inr s \<in> set (sgl_simple_groups l)
     \<and> ssg_id s = ''cats'' \<and> ssg_display_name s = Some ''Cats''"
proof -
  have "case rename_saved_simple_group sample_protocol sample_group ''Cats'' of Inl _ \<Rightarrow> False | Inr e \<Rightarrow>
      (case saved_apply sample_protocol e 7 (Some (Unsigned sample_list)) 2 of Inl _ \<Rightarrow> False | Inr u \<Rightarrow> True)"
    by code_simp
  then obtain e u where eu: "rename_saved_simple_group sample_protocol sample_group ''Cats'' = Inr e"
    "saved_apply sample_protocol e 7 (Some (Unsigned sample_list)) 2 = Inr u" by (auto split: sum.splits)
  have ok: "group_ok sample_group" "is_str (sg_id sample_group)" "\<forall>r\<in>set (sg_relays sample_group). a_relay sample_protocol r" "is_str ''Cats''"
    "''wss://a'' \<in> set (sg_relays sample_group)" unfolding group_ok_def is_str_def a_relay_def by code_simp+
  from rename_is_listed [OF sample_protocol_laws ok(1-4) eu ok(5)] eu show ?thesis by (auto simp: sample_group_def)
qed

end
