(* ===== verification/Simple_Groups.thy ===== *)
theory Simple_Groups
  imports Saved_Groups
begin

section \<open>Group queries, state events and management events (\<open>fava-simple-groups\<close>)\<close>

text \<open>
  The queries over a group and the builder that addresses an event to it (\<open>simple_group.rs\<close>,
  \<open>query.rs\<close>), the constructors of management events (\<open>management.rs\<close>), and the decoders of the
  relay-published state of a group, kinds 39000 to 39005 (\<open>records.rs\<close>, \<open>metadata.rs\<close>,
  \<open>people.rs\<close>, \<open>pins.rs\<close>).
\<close>

subsection \<open>Queries\<close>

datatype state_event_kind = Metadata | Admins | Members | Roles | LivekitParticipants | Pins

definition all_state_kinds :: "state_event_kind list" where
  "all_state_kinds = [Metadata, Admins, Members, Roles, LivekitParticipants, Pins]"

fun state_kind_number :: "state_event_kind \<Rightarrow> kind" where
  "state_kind_number Metadata = 39000"
| "state_kind_number Admins = 39001"
| "state_kind_number Members = 39002"
| "state_kind_number Roles = 39003"
| "state_kind_number LivekitParticipants = 39004"
| "state_kind_number Pins = 39005"

definition state_kind_try_from :: "kind \<Rightarrow> kind + state_event_kind" where
  "state_kind_try_from k =
     (if k = 39000 then Inr Metadata else if k = 39001 then Inr Admins else if k = 39002 then Inr Members
      else if k = 39003 then Inr Roles else if k = 39004 then Inr LivekitParticipants else if k = 39005 then Inr Pins
      else Inl k)"

definition saved_group_lists :: "public_key list \<Rightarrow> query_error + query" where
  "saved_group_lists authors = try_then (query_kinds [10009] query_events) (query_authors authors)"

definition group_events :: "simple_group \<Rightarrow> query \<Rightarrow> query_error + query" where
  "group_events g selection =
     try_then (intersect_tag_values (CHR ''h'', False) [sg_id g] selection) (from_relays (sg_relays g))"

definition group_meta_events :: "simple_group \<Rightarrow> state_event_kind list \<Rightarrow> query_error + query" where
  "group_meta_events g kinds =
     try_then (query_kinds (map state_kind_number kinds) query_events) (\<lambda>q.
     try_then (query_tag_values (CHR ''d'', False) [sg_id g] q) (only_from_relays (sg_relays g)))"

definition exact_group_tag :: "tag \<Rightarrow> string \<Rightarrow> bool" where
  "exact_group_tag t ident \<longleftrightarrow> length t = 2 \<and> nth_opt t 0 = Some ''h'' \<and> nth_opt t 1 = Some ident"

text \<open>\<open>Tag::parse\<close> of \<open>["h", id]\<close> is expected to succeed; \<open>None\<close> is the panic.\<close>

definition builder_simple_group :: "protocol_lib \<Rightarrow> simple_group \<Rightarrow> event_builder \<Rightarrow> (write_intent_error + event_builder) option" where
  "builder_simple_group P g b =
     (case pl_tag_parse P [''h'', sg_id g] of
        Inl _ \<Rightarrow> None
      | Inr t \<Rightarrow> Some (try_then (builder_to_relays (sg_relays g) b) (\<lambda>b.
          if \<exists>u\<in>set (eb_tags b). exact_group_tag u (sg_id g) then Inr b else Inr (builder_tag t b))))"

subsection \<open>Management events\<close>

definition KIND_PUT_USER :: kind where "KIND_PUT_USER = 9000"
definition KIND_REMOVE_USER :: kind where "KIND_REMOVE_USER = 9001"
definition KIND_EDIT_METADATA :: kind where "KIND_EDIT_METADATA = 9002"
definition KIND_DELETE_EVENT :: kind where "KIND_DELETE_EVENT = 9005"
definition KIND_CREATE_GROUP :: kind where "KIND_CREATE_GROUP = 9007"
definition KIND_DELETE_GROUP :: kind where "KIND_DELETE_GROUP = 9008"
definition KIND_INVITE :: kind where "KIND_INVITE = 9009"
definition KIND_JOIN_REQUEST :: kind where "KIND_JOIN_REQUEST = 9021"
definition KIND_LEAVE_GROUP :: kind where "KIND_LEAVE_GROUP = 9022"

datatype group_visibility = Public | Private

datatype group_access = OpenAccess | ClosedAccess

record metadata_edit =
  me_name :: "string option"
  me_about :: "string option"
  me_picture :: "string option"
  me_visibility :: "group_visibility option"
  me_access :: "group_access option"
  me_supported_kinds :: "kind list option"

definition parse_tag :: "protocol_lib \<Rightarrow> string list \<Rightarrow> write_intent_error + tag" where
  "parse_tag P vs = map_err Encoding (pl_tag_parse P vs)"

text \<open>\<open>now\<close> is the clock \<open>EventBuilder::new\<close> reads.\<close>

definition management_build :: "protocol_lib \<Rightarrow> timestamp \<Rightarrow> kind \<Rightarrow> simple_group \<Rightarrow> tag list \<Rightarrow> write_intent_error + event_builder" where
  "management_build P now k g extra =
     try_then (parse_tag P [''h'', sg_id g]) (\<lambda>h_tag.
     builder_to_relays (sg_relays g) (builder_tags ([h_tag] @ extra) (builder_new now k)))"

definition create_group :: "protocol_lib \<Rightarrow> timestamp \<Rightarrow> simple_group \<Rightarrow> write_intent_error + event_builder" where
  "create_group P now g = management_build P now KIND_CREATE_GROUP g []"

text \<open>\<open>extra.push(parse_tag(values)?)\<close> under a condition.\<close>

definition push_tag :: "protocol_lib \<Rightarrow> string list option \<Rightarrow> tag list \<Rightarrow> write_intent_error + tag list" where
  "push_tag P vs extra = (case vs of None \<Rightarrow> Inr extra | Some vs \<Rightarrow> try_then (parse_tag P vs) (\<lambda>t. Inr (extra @ [t])))"

definition metadata_edit_tags :: "protocol_lib \<Rightarrow> metadata_edit \<Rightarrow> write_intent_error + tag list" where
  "metadata_edit_tags P e =
     try_then (push_tag P (map_option (\<lambda>v. [''name'', v]) (me_name e)) []) (\<lambda>extra.
     try_then (push_tag P (map_option (\<lambda>v. [''about'', v]) (me_about e)) extra) (\<lambda>extra.
     try_then (push_tag P (map_option (\<lambda>v. [''picture'', v]) (me_picture e)) extra) (\<lambda>extra.
     try_then (push_tag P (if me_visibility e = Some Private then Some [''private''] else None) extra) (\<lambda>extra.
     try_then (push_tag P (if me_access e = Some ClosedAccess then Some [''closed''] else None) extra) (\<lambda>extra.
     push_tag P (map_option (\<lambda>ks. ''supported_kinds'' # map (\<lambda>k. show_nat (unat k)) ks) (me_supported_kinds e)) extra)))))"

definition edit_metadata :: "protocol_lib \<Rightarrow> timestamp \<Rightarrow> simple_group \<Rightarrow> metadata_edit \<Rightarrow> write_intent_error + event_builder" where
  "edit_metadata P now g e =
     try_then (metadata_edit_tags P e) (\<lambda>extra. management_build P now KIND_EDIT_METADATA g extra)"

definition invite :: "protocol_lib \<Rightarrow> timestamp \<Rightarrow> simple_group \<Rightarrow> string \<Rightarrow> write_intent_error + event_builder" where
  "invite P now g code_text =
     try_then (parse_tag P [''code'', code_text]) (\<lambda>t. management_build P now KIND_INVITE g [t])"

definition join_request :: "protocol_lib \<Rightarrow> timestamp \<Rightarrow> simple_group \<Rightarrow> string option \<Rightarrow> write_intent_error + event_builder" where
  "join_request P now g code_text =
     try_then (case code_text of Some c \<Rightarrow> try_then (parse_tag P [''code'', c]) (\<lambda>t. Inr [t]) | None \<Rightarrow> Inr []) (\<lambda>extra.
     management_build P now KIND_JOIN_REQUEST g extra)"

definition put_user :: "protocol_lib \<Rightarrow> timestamp \<Rightarrow> simple_group \<Rightarrow> public_key list \<Rightarrow> string list \<Rightarrow> write_intent_error + event_builder" where
  "put_user P now g users roles =
     try_then (collect_results (map (\<lambda>u. parse_tag P ([''p'', public_key_to_hex (pl_nostr P) u] @ roles)) users)) (\<lambda>p_tags.
     management_build P now KIND_PUT_USER g p_tags)"

definition remove_user :: "protocol_lib \<Rightarrow> timestamp \<Rightarrow> simple_group \<Rightarrow> public_key list \<Rightarrow> write_intent_error + event_builder" where
  "remove_user P now g users =
     try_then (collect_results (map (\<lambda>u. parse_tag P [''p'', public_key_to_hex (pl_nostr P) u]) users)) (\<lambda>p_tags.
     management_build P now KIND_REMOVE_USER g p_tags)"

definition group_delete_event :: "protocol_lib \<Rightarrow> timestamp \<Rightarrow> simple_group \<Rightarrow> event_id \<Rightarrow> write_intent_error + event_builder" where
  "group_delete_event P now g i =
     try_then (parse_tag P [''e'', event_id_to_hex (pl_nostr P) i]) (\<lambda>t. management_build P now KIND_DELETE_EVENT g [t])"

definition delete_group :: "protocol_lib \<Rightarrow> timestamp \<Rightarrow> simple_group \<Rightarrow> write_intent_error + event_builder" where
  "delete_group P now g = management_build P now KIND_DELETE_GROUP g []"

definition leave_group :: "protocol_lib \<Rightarrow> timestamp \<Rightarrow> simple_group \<Rightarrow> write_intent_error + event_builder" where
  "leave_group P now g = management_build P now KIND_LEAVE_GROUP g []"

subsection \<open>State events\<close>

datatype group_decode_error =
    GroupWrongEventKind kind kind
  | MissingIdentifierTag
  | GroupMissingTagValue nat nat
  | InvalidLivekitParticipantPublicKey nat nat

definition state_event :: "event_value \<Rightarrow> kind \<Rightarrow> group_decode_error + string \<times> public_key \<times> tag list" where
  "state_event v expected =
     (if value_kind v \<noteq> expected then Inl (GroupWrongEventKind expected (value_kind v))
      else case List.find (\<lambda>(i, t). nth_opt t 0 = Some ''d'') (List.enumerate 0 (value_tags v)) of
        None \<Rightarrow> Inl MissingIdentifierTag
      | Some (i, t) \<Rightarrow> try_then (ok_or (GroupMissingTagValue i 1) (nth_opt t 1)) (\<lambda>ident. Inr (ident, value_author v, value_tags v)))"

definition required_value :: "tag \<Rightarrow> nat \<Rightarrow> nat \<Rightarrow> group_decode_error + string" where
  "required_value t tag_index value_index = ok_or (GroupMissingTagValue tag_index value_index) (nth_opt t value_index)"

text \<open>
  \<open>iter().enumerate().filter(..).map(..)\<close>: the rows of a state event, each with its position in the
  event's tags.
\<close>

definition state_rows :: "(tag \<Rightarrow> bool) \<Rightarrow> (tag \<Rightarrow> nat \<Rightarrow> 'a) \<Rightarrow> tag list \<Rightarrow> 'a list" where
  "state_rows keep parse ts = map (\<lambda>(i, t). parse t i) (List.filter (\<lambda>(i, t). keep t) (List.enumerate 0 ts))"

record group_metadata =
  gm_id :: string
  gm_author :: public_key
  gm_name :: "string option"
  gm_picture :: "string option"
  gm_banner :: "string option"
  gm_about :: "string option"
  gm_private :: bool
  gm_restricted :: bool
  gm_hidden :: bool
  gm_closed :: bool
  gm_livekit :: bool
  gm_supported_kinds :: "string list option"
  gm_parent :: "string option"
  gm_children :: "(group_decode_error + string) list"

definition set_first :: "string option \<Rightarrow> string option \<Rightarrow> string option" where
  "set_first target candidate = (if target = None then candidate else target)"

definition metadata_tag :: "nat \<times> tag \<Rightarrow> group_metadata \<Rightarrow> group_metadata" where
  "metadata_tag row m =
     (case row of (i, t) \<Rightarrow> case nth_opt t 0 of
        None \<Rightarrow> m
      | Some key \<Rightarrow>
          if key = ''name'' then m\<lparr>gm_name := set_first (gm_name m) (nth_opt t 1)\<rparr>
          else if key = ''picture'' then m\<lparr>gm_picture := set_first (gm_picture m) (nth_opt t 1)\<rparr>
          else if key = ''banner'' then m\<lparr>gm_banner := set_first (gm_banner m) (nth_opt t 1)\<rparr>
          else if key = ''about'' then m\<lparr>gm_about := set_first (gm_about m) (nth_opt t 1)\<rparr>
          else if key = ''private'' then m\<lparr>gm_private := True\<rparr>
          else if key = ''restricted'' then m\<lparr>gm_restricted := True\<rparr>
          else if key = ''hidden'' then m\<lparr>gm_hidden := True\<rparr>
          else if key = ''closed'' then m\<lparr>gm_closed := True\<rparr>
          else if key = ''livekit'' then m\<lparr>gm_livekit := True\<rparr>
          else if key = ''supported_kinds'' \<and> gm_supported_kinds m = None then m\<lparr>gm_supported_kinds := Some (drop 1 t)\<rparr>
          else if key = ''parent'' then m\<lparr>gm_parent := set_first (gm_parent m) (nth_opt t 1)\<rparr>
          else if key = ''child'' then m\<lparr>gm_children := gm_children m @ [required_value t i 1]\<rparr>
          else m)"

definition metadata_empty :: "string \<Rightarrow> public_key \<Rightarrow> group_metadata" where
  "metadata_empty ident author =
     \<lparr>gm_id = ident, gm_author = author, gm_name = None, gm_picture = None, gm_banner = None, gm_about = None,
      gm_private = False, gm_restricted = False, gm_hidden = False, gm_closed = False, gm_livekit = False,
      gm_supported_kinds = None, gm_parent = None, gm_children = []\<rparr>"

definition metadata_from_event :: "event_value \<Rightarrow> group_decode_error + group_metadata" where
  "metadata_from_event v =
     try_then (state_event v 39000) (\<lambda>(ident, author, tags).
     Inr (fold metadata_tag (List.enumerate 0 tags) (metadata_empty ident author)))"

record 'row group_people =
  gp_id :: string
  gp_author :: public_key
  gp_rows :: "(group_decode_error + 'row) list"

definition people_from_event ::
  "kind \<Rightarrow> (tag \<Rightarrow> bool) \<Rightarrow> (tag \<Rightarrow> nat \<Rightarrow> group_decode_error + 'row) \<Rightarrow> event_value \<Rightarrow> group_decode_error + 'row group_people" where
  "people_from_event k keep parse v =
     try_then (state_event v k) (\<lambda>(ident, author, tags).
     Inr \<lparr>gp_id = ident, gp_author = author, gp_rows = state_rows keep parse tags\<rparr>)"

definition parse_admin :: "tag \<Rightarrow> nat \<Rightarrow> group_decode_error + string \<times> string list" where
  "parse_admin t tag_index =
     try_then (required_value t tag_index 1) (\<lambda>key.
     try_then (required_value t tag_index 2) (\<lambda>_. Inr (key, drop 2 t)))"

definition admins_from_event :: "event_value \<Rightarrow> group_decode_error + (string \<times> string list) group_people" where
  "admins_from_event = people_from_event 39001 (\<lambda>t. nth_opt t 0 = Some ''p'') parse_admin"

definition members_from_event :: "event_value \<Rightarrow> group_decode_error + string group_people" where
  "members_from_event = people_from_event 39002 (\<lambda>t. nth_opt t 0 = Some ''p'') (\<lambda>t i. required_value t i 1)"

definition roles_from_event :: "event_value \<Rightarrow> group_decode_error + (string \<times> string option) group_people" where
  "roles_from_event =
     people_from_event 39003 (\<lambda>t. nth_opt t 0 = Some ''role'')
       (\<lambda>t i. try_then (required_value t i 1) (\<lambda>name. Inr (name, nth_opt t 2)))"

text \<open>
  \<open>raw != raw.to_lowercase()\<close>. Only ASCII letters are folded here: a text with any other letter is
  no hexadecimal key and is refused with the same error by either check.
\<close>

definition lowercase :: "char \<Rightarrow> char" where
  "lowercase c = (if 65 \<le> (of_char c :: nat) \<and> (of_char c :: nat) \<le> 90 then char_of (of_char c + 32 :: nat) else c)"

definition parse_livekit_key :: "protocol_lib \<Rightarrow> tag \<Rightarrow> nat \<Rightarrow> group_decode_error + public_key" where
  "parse_livekit_key P t tag_index =
     try_then (required_value t tag_index 1) (\<lambda>raw.
       if raw \<noteq> map lowercase raw then Inl (InvalidLivekitParticipantPublicKey tag_index 1)
       else ok_or (InvalidLivekitParticipantPublicKey tag_index 1) (pl_key_from_hex P raw))"

definition livekit_from_event :: "protocol_lib \<Rightarrow> event_value \<Rightarrow> group_decode_error + public_key group_people" where
  "livekit_from_event P = people_from_event 39004 (\<lambda>t. nth_opt t 0 = Some ''participant'') (parse_livekit_key P)"

definition parse_pin :: "tag \<Rightarrow> nat \<Rightarrow> group_decode_error + tag" where
  "parse_pin t tag_index = try_then (required_value t tag_index 1) (\<lambda>_. Inr t)"

definition pins_from_event :: "event_value \<Rightarrow> group_decode_error + tag group_people" where
  "pins_from_event =
     people_from_event 39005 (\<lambda>t. nth_opt t 0 = Some ''e'' \<or> nth_opt t 0 = Some ''a'') parse_pin"

subsection \<open>Group values and queries\<close>

lemma simple_group_new_ok:
  assumes "simple_group_new ident relays = Inr g"
  shows "group_ok g \<and> set (sg_relays g) = set relays \<and> sg_id g = ident"
proof -
  have "keep_first [] relays \<noteq> []" if "relays \<noteq> []" using set_keep_first [of "[]" relays] that by (cases relays) auto
  with assms show ?thesis
    by (auto simp: simple_group_new_def group_ok_def normalize_group_relays_eq set_keep_first distinct_keep_first split: if_splits)
qed

lemma state_kind_roundtrip:
  "state_kind_try_from (state_kind_number s) = Inr s" "state_kind_try_from k = Inr s \<Longrightarrow> state_kind_number s = k"
  "state_kind_try_from k = Inl k' \<Longrightarrow> k' = k \<and> k \<notin> set (map state_kind_number all_state_kinds)"
  by (cases s) (auto simp: state_kind_try_from_def all_state_kinds_def split: if_splits)

text \<open>
  The state query of a group trusts the group's relays only and asks for nothing but the kinds given
  and the group's identifier.
\<close>

lemma group_meta_events_spec:
  assumes "group_ok g"
  shows "\<exists>q. group_meta_events g kinds = Inr q \<and> sel_kinds (q_selection q) = Some (bs_of_list (map state_kind_number kinds))
     \<and> sel_tag_values (q_selection q) = [((CHR ''d'', False), [sg_id g])] \<and> sp_authority (q_source q) = OnlyRelays (bs_of_list (sg_relays g))
     \<and> sp_acquisition (q_source q) = AcqExplicit (bs_of_list (sg_relays g))"
  using assms
  by (simp add: group_meta_events_def query_kinds_def query_tag_values_def only_from_relays_def non_empty_relays_def group_ok_def
      query_events_def selection_default_def Let_def)

subsection \<open>Management events address their group\<close>

lemma keep_first_distinct: "distinct xs \<Longrightarrow> set xs \<inter> set seen = {} \<Longrightarrow> keep_first seen xs = xs"
  by (induction xs arbitrary: seen) auto

lemma parse_tag_Inr: "protocol_laws P \<Longrightarrow> parse_tag P vs = Inr t \<Longrightarrow> t = vs"
  using tag_parse_id by (auto simp: parse_tag_def)

lemma collect_parse_tags:
  assumes "protocol_laws P" "collect_results (map (\<lambda>u. parse_tag P (f u)) us) = Inr ts"
  shows "ts = map f us"
  using assms(2)
  by (induction us arbitrary: ts) (auto simp: try_then_Inr_iff dest: parse_tag_Inr [OF assms(1)])

lemma management_build_Inr:
  assumes "protocol_laws P" "group_ok g" "management_build P now k g extra = Inr b"
  shows "eb_kind b = k" "eb_tags b = [''h'', sg_id g] # extra" "eb_routing b = Explicit (sg_relays g)" "builder_routing_ok b"
    "eb_created_at b = now" "eb_content b = []"
proof -
  from assms(3) obtain h where h: "parse_tag P [''h'', sg_id g] = Inr h"
    and b: "builder_to_relays (sg_relays g) (builder_tags (h # extra) (builder_new now k)) = Inr b"
    by (auto simp: management_build_def try_then_Inr_iff)
  from parse_tag_Inr [OF assms(1) h] have "h = [''h'', sg_id g]" .
  moreover have "keep_first [] (sg_relays g) = sg_relays g" using assms(2) by (simp add: group_ok_def keep_first_distinct)
  ultimately show "eb_kind b = k" "eb_tags b = [''h'', sg_id g] # extra" "eb_routing b = Explicit (sg_relays g)"
    "eb_created_at b = now" "eb_content b = []"
    using b by (auto simp: builder_to_relays_def builder_tags_def builder_new_def routing_append_def normalize_loop_eq bs_of_list_def
        Let_def split: if_splits sum.splits)
  have "builder_routing_ok (builder_tags (h # extra) (builder_new now k))"
    by (simp add: builder_routing_ok_def builder_tags_def builder_new_def)
  with builder_to_relays_routing_ok [OF _ b] show "builder_routing_ok b" by simp
qed

text \<open>
  Every management constructor yields an event whose first tag names the group, which is routed to
  exactly the group's relays, in their order, with a routing the intent constructors accept.
\<close>

theorem management_addresses_group:
  assumes "protocol_laws P" "group_ok g"
    and "Inr b \<in> {create_group P now g, edit_metadata P now g me, invite P now g c, join_request P now g oc,
      put_user P now g users roles, remove_user P now g users, group_delete_event P now g i, delete_group P now g, leave_group P now g}"
  shows "\<exists>extra. eb_tags b = [''h'', sg_id g] # extra \<and> eb_routing b = Explicit (sg_relays g) \<and> builder_routing_ok b
     \<and> 9000 \<le> eb_kind b \<and> eb_kind b \<le> 9022"
proof -
  have built: "eb_kind b = k \<and> eb_tags b = [''h'', sg_id g] # extra \<and> eb_routing b = Explicit (sg_relays g) \<and> builder_routing_ok b"
    if "management_build P now k g extra = Inr b" for k extra
    using management_build_Inr [OF assms(1,2) that] by simp
  show ?thesis
    using assms(3)
    unfolding create_group_def edit_metadata_def invite_def join_request_def put_user_def remove_user_def group_delete_event_def
      delete_group_def leave_group_def insert_iff empty_iff eq_commute [of "Inr b"] try_then_Inr_iff
    by (elim disjE exE conjE) (auto dest!: built simp: KIND_PUT_USER_def KIND_REMOVE_USER_def KIND_EDIT_METADATA_def
        KIND_DELETE_EVENT_def KIND_CREATE_GROUP_def KIND_DELETE_GROUP_def KIND_INVITE_def KIND_JOIN_REQUEST_def KIND_LEAVE_GROUP_def)
qed

subsection \<open>What the relay publishes reads back\<close>

text \<open>The tags an edit writes, when parsing accepts them.\<close>

definition option_tag :: "string list option \<Rightarrow> tag list" where
  "option_tag vs = (case vs of None \<Rightarrow> [] | Some vs \<Rightarrow> [vs])"

lemma push_tag_Inr: "protocol_laws P \<Longrightarrow> push_tag P vs extra = Inr out \<Longrightarrow> out = extra @ option_tag vs"
  using parse_tag_Inr by (auto simp: push_tag_def option_tag_def try_then_Inr_iff split: option.splits)

lemma metadata_edit_tags_Inr:
  assumes "protocol_laws P" "metadata_edit_tags P e = Inr extra"
  shows "extra = option_tag (map_option (\<lambda>v. [''name'', v]) (me_name e)) @ option_tag (map_option (\<lambda>v. [''about'', v]) (me_about e))
     @ option_tag (map_option (\<lambda>v. [''picture'', v]) (me_picture e))
     @ option_tag (if me_visibility e = Some Private then Some [''private''] else None)
     @ option_tag (if me_access e = Some ClosedAccess then Some [''closed''] else None)
     @ option_tag (map_option (\<lambda>ks. ''supported_kinds'' # map (\<lambda>k. show_nat (unat k)) ks) (me_supported_kinds e))"
  using assms(2) unfolding metadata_edit_tags_def try_then_Inr_iff by (auto dest!: push_tag_Inr [OF assms(1)])

text \<open>Positions do not matter to a row that is not a child.\<close>

fun step_simple :: "tag \<Rightarrow> group_metadata \<Rightarrow> group_metadata" where
  "step_simple t m = metadata_tag (0, t) m"

lemma fold_enumerate_childless:
  assumes "\<forall>t\<in>set ts. nth_opt t 0 \<noteq> Some ''child''"
  shows "fold metadata_tag (List.enumerate n ts) m = fold step_simple ts m"
  using assms
proof (induction ts arbitrary: n m)
  case (Cons t ts)
  then have "metadata_tag (n, t) m = step_simple t m" by (auto simp: metadata_tag_def split: option.splits)
  with Cons show ?case by simp
qed simp

lemma fold_option_tag: "fold step_simple (option_tag vs) m = (case vs of None \<Rightarrow> m | Some t \<Rightarrow> step_simple t m)"
  by (simp add: option_tag_def split: option.split)

text \<open>
  (C34) A relay applies a metadata edit by publishing its tags, after the identifier, as the kind-39000
  event of the group. Decoding that event gives back every field of the edit: the texts, the private
  and closed flags exactly when they were asked for, and the supported kinds in order.
\<close>

theorem metadata_edit_roundtrip:
  assumes "protocol_laws P" "group_ok g" "edit_metadata P now g e = Inr b"
    and "value_kind v = 39000" "value_tags v = [''d'', sg_id g] # tl (eb_tags b)"
  shows "metadata_from_event v = Inr ((metadata_empty (sg_id g) (value_author v))\<lparr>gm_name := me_name e, gm_about := me_about e,
     gm_picture := me_picture e, gm_private := (me_visibility e = Some Private), gm_closed := (me_access e = Some ClosedAccess),
     gm_supported_kinds := map_option (map (\<lambda>k. show_nat (unat k))) (me_supported_kinds e)\<rparr>)"
proof -
  from assms(3) obtain extra where extra: "metadata_edit_tags P e = Inr extra" "management_build P now KIND_EDIT_METADATA g extra = Inr b"
    by (auto simp: edit_metadata_def try_then_Inr_iff)
  have tags: "value_tags v = [''d'', sg_id g] # extra" using management_build_Inr(2) [OF assms(1,2) extra(2)] assms(5) by simp
  have childless: "\<forall>t\<in>set (value_tags v). nth_opt t 0 \<noteq> Some ''child''"
    unfolding tags metadata_edit_tags_Inr [OF assms(1) extra(1)] by (auto simp: option_tag_def nth_opt_def split: option.splits)
  have "state_event v 39000 = Inr (sg_id g, value_author v, value_tags v)"
    using assms(4) tags by (simp add: state_event_def nth_opt_def)
  then have "metadata_from_event v = Inr (fold step_simple (value_tags v) (metadata_empty (sg_id g) (value_author v)))"
    using fold_enumerate_childless [OF childless] by (simp add: metadata_from_event_def)
  then show ?thesis
    unfolding tags metadata_edit_tags_Inr [OF assms(1) extra(1)]
    by (cases "me_name e"; cases "me_about e"; cases "me_picture e"; cases "me_supported_kinds e")
      (simp_all add: fold_option_tag metadata_tag_def nth_opt_def set_first_def metadata_empty_def)
qed

text \<open>
  The users of a \<open>put_user\<close> event, published as kind-39001 rows, decode to their keys with all
  the roles given, and as kind-39002 rows to their keys, in order and none lost; without a role an
  administrator row is refused.
\<close>

lemma state_rows_all: "\<forall>t\<in>set ts. keep t \<Longrightarrow> (\<And>t i. t \<in> set ts \<Longrightarrow> parse t i = f t) \<Longrightarrow> state_rows keep parse ts = map f ts"
proof -
  assume keep: "\<forall>t\<in>set ts. keep t" and f: "\<And>t i. t \<in> set ts \<Longrightarrow> parse t i = f t"
  have snds: "t \<in> set ts" if "(i, t) \<in> set (List.enumerate 0 ts)" for i t using that by (auto simp: in_set_enumerate_eq)
  with keep have "List.filter (\<lambda>(i, t). keep t) (List.enumerate 0 ts) = List.enumerate 0 ts" by (auto simp: filter_id_conv)
  then have "state_rows keep parse ts = map (\<lambda>(i, t). f t) (List.enumerate 0 ts)"
    using snds f by (auto simp: state_rows_def)
  also have "\<dots> = map f (map snd (List.enumerate 0 ts))" by (simp add: case_prod_unfold comp_def del: map_snd_enumerate)
  finally show ?thesis by (simp only: map_snd_enumerate)
qed

lemma state_rows_skip: "\<not> keep t \<Longrightarrow> (\<And>t i j. parse t i = parse t j \<or> t \<notin> set ts) \<Longrightarrow> state_rows keep parse (t # ts) = state_rows keep parse ts"
proof -
  assume "\<not> keep t" and same: "\<And>t i j. parse t i = parse t j \<or> t \<notin> set ts"
  have "map (\<lambda>(i, t). parse t i) (List.filter (\<lambda>(i, t). keep t) (List.enumerate n us)) =
      map (\<lambda>(i, t). parse t i) (List.filter (\<lambda>(i, t). keep t) (List.enumerate m us))" if "set us \<subseteq> set ts" for n m us
    using that
  proof (induction us arbitrary: n m)
    case (Cons u us)
    have "parse u n = parse u m" using same [of u n m] Cons.prems by auto
    with Cons show ?case by auto
  qed simp
  from this [of ts 1 0] \<open>\<not> keep t\<close> show ?thesis by (simp add: state_rows_def)
qed

theorem put_user_roundtrip:
  assumes "protocol_laws P" "group_ok g" "put_user P now g users roles = Inr b"
    and "value_kind v = 39001" "value_tags v = [''d'', sg_id g] # tl (eb_tags b)" "roles \<noteq> []"
    and "value_kind w = 39002" "value_tags w = value_tags v"
  shows "admins_from_event v = Inr \<lparr>gp_id = sg_id g, gp_author = value_author v,
       gp_rows = map (\<lambda>u. Inr (public_key_to_hex (pl_nostr P) u, roles)) users\<rparr>
     \<and> members_from_event w = Inr \<lparr>gp_id = sg_id g, gp_author = value_author w,
       gp_rows = map (\<lambda>u. Inr (public_key_to_hex (pl_nostr P) u)) users\<rparr>"
proof -
  let ?rows = "map (\<lambda>u. [''p'', public_key_to_hex (pl_nostr P) u] @ roles) users"
  from assms(3) obtain rows where r: "collect_results (map (\<lambda>u. parse_tag P ([''p'', public_key_to_hex (pl_nostr P) u] @ roles)) users) = Inr rows"
    "management_build P now KIND_PUT_USER g rows = Inr b"
    by (auto simp: put_user_def try_then_Inr_iff)
  from collect_parse_tags [OF assms(1) r(1)] management_build_Inr(2) [OF assms(1,2) r(2)] assms(5)
  have tags: "value_tags v = [''d'', sg_id g] # ?rows" by simp
  have states: "state_event v 39001 = Inr (sg_id g, value_author v, value_tags v)" "state_event w 39002 = Inr (sg_id g, value_author w, value_tags v)"
    using assms(4,7,8) tags by (simp_all add: state_event_def nth_opt_def)
  have two: "nth_opt ([''p'', k] @ roles) 2 \<noteq> None" for k using assms(6) by (simp add: nth_opt_def)
  have admin: "parse_admin ([''p'', k] @ roles) i = Inr (k, roles)" for k i
    using two [of k] by (auto simp: parse_admin_def required_value_def nth_opt_def ok_or_def)
  have member: "required_value ([''p'', k] @ roles) i 1 = Inr k" for k i by (simp add: required_value_def nth_opt_def)
  have skip: "state_rows (\<lambda>t. nth_opt t 0 = Some ''p'') parse (value_tags v) = map f ?rows"
    if "\<And>k i. parse ([''p'', k] @ roles) i = f ([''p'', k] @ roles)" for parse :: "tag \<Rightarrow> nat \<Rightarrow> 'r" and f
  proof -
    have "state_rows (\<lambda>t. nth_opt t 0 = Some ''p'') parse ([''d'', sg_id g] # ?rows) = state_rows (\<lambda>t. nth_opt t 0 = Some ''p'') parse ?rows"
      by (rule state_rows_skip) (use that in \<open>auto simp: nth_opt_def\<close>)
    also have "\<dots> = map f ?rows" by (rule state_rows_all) (use that in \<open>auto simp: nth_opt_def\<close>)
    finally show ?thesis by (simp only: tags)
  qed
  have "state_rows (\<lambda>t. nth_opt t 0 = Some ''p'') parse_admin (value_tags v) = map (\<lambda>t. Inr (t ! 1, roles)) ?rows"
    by (rule skip) (use admin in simp)
  moreover have "state_rows (\<lambda>t. nth_opt t 0 = Some ''p'') (\<lambda>t i. required_value t i 1) (value_tags v) = map (\<lambda>t. Inr (t ! 1)) ?rows"
    by (rule skip) (use member in simp)
  ultimately show ?thesis using states by (simp add: admins_from_event_def members_from_event_def people_from_event_def comp_def)
qed

subsection \<open>Concrete events\<close>

definition sample_edit_fields :: metadata_edit where
  "sample_edit_fields = \<lparr>me_name = Some ''Cats'', me_about = None, me_picture = None, me_visibility = Some Private,
     me_access = Some OpenAccess, me_supported_kinds = Some [1, 9]\<rparr>"

definition state_value :: "kind \<Rightarrow> tag list \<Rightarrow> event_value" where
  "state_value k tags = Signed (sample_event 1 2 3 k tags)"

lemma sample_group_ok: "group_ok sample_group"
  unfolding group_ok_def by code_simp

lemma sample_constructors:
  "\<exists>b. edit_metadata sample_protocol 5 sample_group sample_edit_fields = Inr b"
  "\<exists>b. put_user sample_protocol 5 sample_group [1, 2] [''admin''] = Inr b"
  by (simp_all add: edit_metadata_def metadata_edit_tags_def push_tag_def parse_tag_def sample_edit_fields_def management_build_def put_user_def
      sample_protocol_def builder_to_relays_def builder_tags_def builder_new_def refuse_raw_input_def routing_append_def sample_group_def
      MAX_RAW_EXPLICIT_RELAYS_def MAX_EXPLICIT_RELAYS_def bs_of_list_def Let_def)

theorem management_addresses_group_witness:
  "\<exists>b. edit_metadata sample_protocol 5 sample_group sample_edit_fields = Inr b \<and> hd (eb_tags b) = [''h'', ''cats'']
     \<and> eb_routing b = Explicit [''wss://a'', ''wss://b'']"
proof -
  obtain b where b: "edit_metadata sample_protocol 5 sample_group sample_edit_fields = Inr b" using sample_constructors(1) by blast
  have "\<exists>extra. eb_tags b = [''h'', sg_id sample_group] # extra \<and> eb_routing b = Explicit (sg_relays sample_group) \<and> builder_routing_ok b
     \<and> 9000 \<le> eb_kind b \<and> eb_kind b \<le> 9022"
    by (rule management_addresses_group [OF sample_protocol_laws sample_group_ok, where now = 5 and me = sample_edit_fields]) (simp add: b)
  with b show ?thesis by (auto simp: sample_group_def)
qed

theorem metadata_edit_roundtrip_witness:
  "\<exists>b m. edit_metadata sample_protocol 5 sample_group sample_edit_fields = Inr b
     \<and> metadata_from_event (state_value 39000 ([''d'', ''cats''] # tl (eb_tags b))) = Inr m
     \<and> gm_name m = Some ''Cats'' \<and> gm_private m \<and> \<not> gm_closed m \<and> gm_supported_kinds m = Some [show_nat 1, show_nat 9]"
proof -
  obtain b where b: "edit_metadata sample_protocol 5 sample_group sample_edit_fields = Inr b" using sample_constructors(1) by blast
  have "value_kind (state_value 39000 ts) = 39000" "value_tags (state_value 39000 ts) = ts" for ts
    by (simp_all add: state_value_def sample_event_def)
  from metadata_edit_roundtrip [OF sample_protocol_laws sample_group_ok b this] b show ?thesis
    by (auto simp: sample_group_def sample_edit_fields_def)
qed

theorem put_user_roundtrip_witness:
  "\<exists>b l. put_user sample_protocol 5 sample_group [1, 2] [''admin''] = Inr b
     \<and> admins_from_event (state_value 39001 ([''d'', ''cats''] # tl (eb_tags b))) = Inr l
     \<and> gp_rows l = [Inr (word_text 1, [''admin'']), Inr (word_text 2, [''admin''])]"
proof -
  obtain b where b: "put_user sample_protocol 5 sample_group [1, 2] [''admin''] = Inr b" using sample_constructors(2) by blast
  have "value_kind (state_value k ts) = k" "value_tags (state_value k ts) = ts" for k ts
    by (simp_all add: state_value_def sample_event_def)
  with put_user_roundtrip [OF sample_protocol_laws sample_group_ok b, of "state_value 39001 ([''d'', ''cats''] # tl (eb_tags b))"
    "state_value 39002 ([''d'', ''cats''] # tl (eb_tags b))"] b show ?thesis
    by (auto simp: sample_group_def sample_protocol_def)
qed

end
