(* ===== verification/Publication_Edits.thy ===== *)
theory Publication_Edits
  imports Write_Runs Routers Query_Standard Contact_Lists Bookmarks Saved_Groups
begin

section \<open>Applying edits to current state (\<open>fava-publication\<close>)\<close>

text \<open>
  \<open>fava-publication/src/edit_application.rs\<close>, the part of \<open>run.rs\<close> that reapplies an edit
  sequence when its source changes, \<open>recovery.rs\<close>, \<open>semantic_refresh.rs\<close> and the operations of
  \<open>lib.rs\<close>. The owner runs over the in-memory write store. The providers it is assembled from are
  the fields of \<open>publication\<close>; an applier may panic, which the owner catches. \<open>now\<close> is the clock.
\<close>

subsection \<open>Providers\<close>

record edit_provider =
  ap_kind :: kind
  ap_supports :: "event_edit \<Rightarrow> bool"
  ap_apply :: "event_edit \<Rightarrow> public_key \<Rightarrow> event_value option \<Rightarrow> timestamp \<Rightarrow> (write_intent_error + unsigned_event) outcome"

record publication =
  pb_nostr :: nostr_lib
  pb_runtime :: bool
  pb_appliers :: "(kind, edit_provider) btree_map"
  pb_routers :: "router_session router list"
  pb_evaluate :: "query \<Rightarrow> source_snapshot list \<Rightarrow> query_evaluation_error + query_snapshot"

datatype publication_error =
    NotConfigured
  | RuntimeUnavailable
  | ReceiptMissing receipt_id
  | ReceiptChangesClosed
  | PublicationRouting string
  | PublicationStore write_store_error

fun evaluation_error_text :: "nostr_lib \<Rightarrow> query_evaluation_error \<Rightarrow> string" where
  "evaluation_error_text N MissingEventId = ''query source supplied an event without a stable id''"
| "evaluation_error_text N (RelayOccurrenceEventMismatch event os) =
     ''event '' @ event_id_to_hex N event @ '' cannot carry relay occurrences for '' @ event_id_to_hex N os"
| "evaluation_error_text N (EvaluatorRefused t) = ''query evaluator refused current sources: '' @ bounded_str t"

fun store_error_text :: "write_store_error \<Rightarrow> string" where
  "store_error_text StoreClosed = ''write store is closed''"
| "store_error_text (StoreInvalidEvent MissingId) = ''unsigned event has no computed event id''"
| "store_error_text (StoreInvalidIntent e) = write_intent_error_text e"
| "store_error_text (StoreRefused r) = ''write store refused operation: '' @ r"

fun publication_error_text :: "publication_error \<Rightarrow> string" where
  "publication_error_text NotConfigured = ''publication is not configured''"
| "publication_error_text RuntimeUnavailable = ''publication requires a running Tokio runtime''"
| "publication_error_text (ReceiptMissing i) = ''receipt ReceiptId('' @ show_nat (unat i) @ '') does not exist''"
| "publication_error_text ReceiptChangesClosed = ''receipt change delivery closed''"
| "publication_error_text (PublicationRouting r) = ''publication routing refused: '' @ r"
| "publication_error_text (PublicationStore e) = store_error_text e"

definition MAX_APPLIERS :: nat where "MAX_APPLIERS = 64"

fun index_loop :: "(kind, edit_provider) btree_map \<Rightarrow> edit_provider list \<Rightarrow> publication_error + (kind, edit_provider) btree_map" where
  "index_loop indexed [] = Inr indexed"
| "index_loop indexed (a # as) =
     (if length indexed = MAX_APPLIERS
      then Inl (PublicationRouting (''applier selection exceeds bound: '' @ show_nat (length indexed + 1) @ '' > '' @ show_nat MAX_APPLIERS))
      else if bt_get indexed (ap_kind a) \<noteq> None
      then Inl (PublicationRouting (''duplicate applier for kind '' @ show_nat (unat (ap_kind a))))
      else index_loop (bt_insert (ap_kind a) a indexed) as)"

definition index_appliers :: "edit_provider list \<Rightarrow> publication_error + (kind, edit_provider) btree_map" where
  "index_appliers as = index_loop [] as"

definition find_applier :: "publication \<Rightarrow> event_edit \<Rightarrow> publication_error + edit_provider" where
  "find_applier pb e =
     (case bt_get (pb_appliers pb) (ed_kind e) of
        None \<Rightarrow> Inl (PublicationRouting (''no selected applier for kind '' @ show_nat (unat (ed_kind e))))
      | Some a \<Rightarrow>
          if \<not> ap_supports a e
          then Inl (PublicationRouting (''selected applier does not support kind '' @ show_nat (unat (ed_kind e)) @ '' edit''))
          else Inr a)"

subsection \<open>Selecting the source of an edit\<close>

definition exact_query :: "event_edit \<Rightarrow> public_key \<Rightarrow> query" where
  "exact_query e author =
     cache_only (query_events\<lparr>q_selection := selection_default\<lparr>sel_kinds := Some [ed_kind e], sel_authors := Some [author]\<rparr>\<rparr>)"

definition at_coordinate :: "nostr_lib \<Rightarrow> event_coord \<Rightarrow> receipt_id option \<Rightarrow> source_event \<Rightarrow> bool" where
  "at_coordinate N coord exclude event =
     (case event of
        RelayContribution r \<Rightarrow>
          event_coordinate N (ev_id (re_event r)) (ev_pubkey (re_event r)) (ev_kind (re_event r)) (ev_tags (re_event r)) = coord
      | LocalContribution l \<Rightarrow>
          value_coordinate N (lw_event l) = Inr coord
          \<and> (case exclude of None \<Rightarrow> True | Some i \<Rightarrow> pe_receipt_id (lw_publication l) \<noteq> i))"

definition select_source ::
  "publication \<Rightarrow> event_edit \<Rightarrow> public_key \<Rightarrow> source_snapshot list \<Rightarrow> receipt_id option \<Rightarrow> publication_error + event_value option" where
  "select_source pb e author sources exclude =
     (let N = pb_nostr pb;
          qualified = map (\<lambda>s. s\<lparr>ss_events := List.filter (at_coordinate N (edit_coordinate e author) exclude) (ss_events s)\<rparr>) sources in
      case pb_evaluate pb (exact_query e author) qualified of
        Inl err \<Rightarrow> Inl (PublicationRouting (evaluation_error_text N err))
      | Inr snapshot \<Rightarrow> Inr (map_option er_event (nth_opt (qs_events snapshot) 0)))"

subsection \<open>Applying and routing\<close>

definition injected_timestamp :: "timestamp \<Rightarrow> event_value option \<Rightarrow> event_value option \<Rightarrow> publication_error + timestamp" where
  "injected_timestamp now source current =
     (let newest = (case (map_option value_created_at source, map_option value_created_at current) of
           (Some a, Some b) \<Rightarrow> Some (max a b) | (Some a, None) \<Rightarrow> Some a | (None, b) \<Rightarrow> b) in
      try_then (case newest of
          Some t \<Rightarrow> ok_or (PublicationRouting ''revision timestamp exhausted'') (checked_add_u64 t 1)
        | None \<Rightarrow> Inr 0) (\<lambda>minimum. Inr (max now minimum)))"

definition publication_validate_revision ::
  "nostr_lib \<Rightarrow> event_edit \<Rightarrow> public_key \<Rightarrow> unsigned_event \<Rightarrow> timestamp \<Rightarrow> publication_error + unit" where
  "publication_validate_revision N e author u injected =
     try_then (ok_or (PublicationRouting ''semantic revision has no event id'') (ue_id u)) (\<lambda>i.
       if ue_created_at u \<noteq> injected then Inl (PublicationRouting ''semantic revision ignored the injected timestamp'')
       else if ue_pubkey u \<noteq> author
         \<or> event_coordinate N i (ue_pubkey u) (ue_kind u) (ue_tags u) \<noteq> edit_coordinate e author
       then Inl (PublicationRouting ''semantic revision author or coordinate does not match accepted write'')
       else Inr ())"

definition edit_failure :: "nat \<Rightarrow> nat \<Rightarrow> string \<Rightarrow> publication_error" where
  "edit_failure index edits_len reason =
     PublicationRouting (''semantic edit '' @ show_nat (index + 1) @ '' of '' @ show_nat edits_len @ reason)"

text \<open>The loop over the edits: the revision one edit produces is the source of the next.\<close>

fun apply_edits ::
  "publication \<Rightarrow> nat \<Rightarrow> nat \<Rightarrow> public_key \<Rightarrow> timestamp \<Rightarrow> event_value option \<Rightarrow> event_edit list \<Rightarrow> publication_error + event_value option" where
  "apply_edits pb index edits_len author created_at source [] = Inr source"
| "apply_edits pb index edits_len author created_at source (e # es) =
     try_then (find_applier pb e) (\<lambda>a.
     try_then (case ap_apply a e author source created_at of
         Returned (Inr u) \<Rightarrow> Inr u
       | Returned (Inl err) \<Rightarrow> Inl (edit_failure index edits_len ('' revision refused: '' @ write_intent_error_text err))
       | Panicked \<Rightarrow> Inl (edit_failure index edits_len '' applier panicked'')) (\<lambda>u.
     try_then (publication_validate_revision (pb_nostr pb) e author u created_at) (\<lambda>_.
     apply_edits pb (Suc index) edits_len author created_at (Some (Unsigned u)) es)))"

definition write_request :: "unsigned_event \<Rightarrow> authority \<Rightarrow> route_request" where
  "write_request u access = Write (Unsigned u) access"

text \<open>\<open>None\<close> is a panic inside the router chain.\<close>

definition route_for :: "publication \<Rightarrow> unsigned_event \<Rightarrow> write_routing \<Rightarrow> authority \<Rightarrow> (publication_error + route_plan) option" where
  "route_for pb u routing access =
     (let request = write_request u access in
      case routing of
        Explicit relays \<Rightarrow>
          Some (map_err (\<lambda>e. PublicationRouting (router_error_text e)) (plan_explicit relays (request_targets (pb_nostr pb) request)))
      | Automatic \<Rightarrow>
          map_option (map_err (\<lambda>e. PublicationRouting (router_error_text e)))
            (chain_preview (pb_nostr pb) (pb_routers pb) request (replicate (length (pb_routers pb)) [])))"

definition apply_sequence_and_route ::
  "publication \<Rightarrow> timestamp \<Rightarrow> event_edit list \<Rightarrow> public_key \<Rightarrow> event_value option \<Rightarrow> event_value option \<Rightarrow> write_routing \<Rightarrow> authority
     \<Rightarrow> (publication_error + unsigned_event \<times> route_plan) option" where
  "apply_sequence_and_route pb now edits author source current routing access =
     (if edits = [] then Some (Inl (PublicationRouting ''semantic edit sequence is empty''))
      else case injected_timestamp now source current of
        Inl e \<Rightarrow> Some (Inl e)
      | Inr created_at \<Rightarrow>
          (case apply_edits pb 0 (length edits) author created_at source edits of
             Inl e \<Rightarrow> Some (Inl e)
           | Inr (Some (Unsigned u)) \<Rightarrow> map_option (\<lambda>r. try_then r (\<lambda>route. Inr (u, route))) (route_for pb u routing access)
           | Inr _ \<Rightarrow> None))"

definition apply_and_route ::
  "publication \<Rightarrow> timestamp \<Rightarrow> write_intent \<Rightarrow> event_value option \<Rightarrow> event_value option
     \<Rightarrow> (publication_error + unsigned_event \<times> route_plan) option" where
  "apply_and_route pb now intent source current =
     (case wi_payload intent of
        PayloadEdit e author \<Rightarrow>
          apply_sequence_and_route pb now [e] author source current (wi_routing intent) (wi_access intent)
      | _ \<Rightarrow> Some (Inl (PublicationRouting ''semantic preparation requires a replaceable-event edit'')))"

subsection \<open>The sources an edit follows\<close>

text \<open>
  The event cache and the write store, with the last snapshot of each and whether its change stream
  is still open. A closed handle has no further effect on the model.
\<close>

record semantic_sources =
  so_cache :: source_snapshot
  so_writes :: source_snapshot
  so_cache_live :: bool
  so_writes_live :: bool

definition sources_new :: "source_snapshot \<Rightarrow> source_snapshot \<Rightarrow> semantic_sources" where
  "sources_new cache writes = \<lparr>so_cache = cache, so_writes = writes, so_cache_live = True, so_writes_live = True\<rparr>"

definition so_snapshots :: "semantic_sources \<Rightarrow> source_snapshot list" where
  "so_snapshots so = [so_cache so, so_writes so]"

datatype source_change = Waiting | AllClosed | Changed source_kind | ClosedSource source_kind

text \<open>
  \<open>next_change\<close> with what each stream has ready: nothing, a snapshot, or its closing status. The
  selection is biased to the cache.
\<close>

type_synonym source_ready = "(source_status + source_snapshot) option"

definition next_change :: "source_ready \<Rightarrow> source_ready \<Rightarrow> semantic_sources \<Rightarrow> source_change \<times> semantic_sources" where
  "next_change cache writes so =
     (if \<not> so_cache_live so \<and> \<not> so_writes_live so then (AllClosed, so)
      else case (if so_cache_live so then cache else None) of
        Some (Inr s) \<Rightarrow> (Changed EventCache, so\<lparr>so_cache := s\<rparr>)
      | Some (Inl status) \<Rightarrow> (ClosedSource EventCache, so\<lparr>so_cache_live := False, so_cache := (so_cache so)\<lparr>ss_status := status\<rparr>\<rparr>)
      | None \<Rightarrow>
          (case (if so_writes_live so then writes else None) of
             Some (Inr s) \<Rightarrow> (Changed WriteStore, so\<lparr>so_writes := s\<rparr>)
           | Some (Inl status) \<Rightarrow> (ClosedSource WriteStore, so\<lparr>so_writes_live := False, so_writes := (so_writes so)\<lparr>ss_status := status\<rparr>\<rparr>)
           | None \<Rightarrow> (Waiting, so)))"

definition selected_value :: "event_id option \<Rightarrow> semantic_sources \<Rightarrow> event_value option" where
  "selected_value selected so =
     (case selected of
        None \<Rightarrow> None
      | Some i \<Rightarrow> List.find (\<lambda>v. value_id v = Some i) (concat (map (\<lambda>s. map contribution_value (ss_events s)) (so_snapshots so))))"

definition source_is_present :: "source_snapshot list \<Rightarrow> event_id \<Rightarrow> bool" where
  "source_is_present sources selected \<longleftrightarrow>
     (\<exists>s\<in>set sources. \<exists>e\<in>set (ss_events s). value_id (contribution_value e) = Some selected)"

definition open_semantic_sources ::
  "(query \<Rightarrow> string + source_snapshot) \<Rightarrow> event_edit \<Rightarrow> public_key \<Rightarrow> memory_write_store \<Rightarrow> publication_error + semantic_sources" where
  "open_semantic_sources cache e author m =
     try_then (map_err PublicationRouting (cache (exact_query e author))) (\<lambda>c.
     Inr (sources_new c (store_open (exact_query e author) m)))"

record prepared_semantic =
  ps_event :: unsigned_event
  ps_source :: "event_value option"
  ps_route :: route_plan
  ps_sources :: semantic_sources

definition prepare_semantic ::
  "publication \<Rightarrow> (query \<Rightarrow> string + source_snapshot) \<Rightarrow> timestamp \<Rightarrow> write_intent \<Rightarrow> event_value option \<Rightarrow> memory_write_store
     \<Rightarrow> (publication_error + prepared_semantic) option" where
  "prepare_semantic pb cache now intent current m =
     (case wi_payload intent of
        PayloadEdit e author \<Rightarrow>
          (case try_then (find_applier pb e) (\<lambda>_. try_then (open_semantic_sources cache e author m) (\<lambda>so.
              try_then (select_source pb e author (so_snapshots so) None) (\<lambda>source. Inr (so, source)))) of
             Inl err \<Rightarrow> Some (Inl err)
           | Inr (so, source) \<Rightarrow>
               map_option (\<lambda>r. try_then r (\<lambda>(u, route).
                   Inr \<lparr>ps_event = u, ps_source = source, ps_route = route, ps_sources = so\<rparr>))
                 (apply_and_route pb now intent source current))
      | _ \<Rightarrow> Some (Inl (PublicationRouting ''semantic preparation requires a replaceable-event edit'')))"

subsection \<open>The state a running edit follows\<close>

record semantic_state =
  st_edits :: "event_edit list"
  st_author :: public_key
  st_revision_id :: revision_id
  st_selected_id :: "event_id option"
  st_source_floor :: "timestamp option"
  st_failed_id :: "event_id option"
  st_sources :: semantic_sources

definition semantic_recovered ::
  "event_edit list \<Rightarrow> public_key \<Rightarrow> revision_id \<Rightarrow> event_id option \<Rightarrow> timestamp option \<Rightarrow> semantic_sources \<Rightarrow> semantic_state" where
  "semantic_recovered edits author revision selected floor so =
     \<lparr>st_edits = edits, st_author = author, st_revision_id = revision, st_selected_id = selected,
      st_source_floor = floor, st_failed_id = None, st_sources = so\<rparr>"

definition refresh_custody ::
  "revision_id \<Rightarrow> event_edit list \<Rightarrow> public_key \<Rightarrow> source_ref \<Rightarrow> event_id option \<Rightarrow> semantic_state \<Rightarrow> semantic_state" where
  "refresh_custody revision edits author selected failed st =
     st\<lparr>st_edits := edits, st_author := author, st_revision_id := revision, st_selected_id := map_option fst selected,
        st_source_floor := (case selected of None \<Rightarrow> st_source_floor st | Some (_, t) \<Rightarrow> Some t), st_failed_id := failed\<rparr>"

text \<open>Whether the revision has to be made again, and from what.\<close>

definition semantic_successor ::
  "publication \<Rightarrow> semantic_state \<Rightarrow> receipt_id \<Rightarrow> publication_error + bool \<times> event_value option" where
  "semantic_successor pb st i =
     try_then (if st_edits st = [] then Inl (PublicationRouting ''semantic edit sequence is empty'') else Inr (last (st_edits st))) (\<lambda>e.
     try_then (select_source pb e (st_author st) (so_snapshots (st_sources st)) (Some i)) (\<lambda>cand.
       let cand_id = Option.bind cand value_id in
       if cand_id = st_selected_id st then Inr (False, None)
       else if cand_id = st_failed_id st then Inr (False, None)
       else
         let present = (case st_selected_id st of None \<Rightarrow> False | Some s \<Rightarrow> source_is_present (so_snapshots (st_sources st)) s) in
         case cand of
           Some v \<Rightarrow>
             if (case st_source_floor st of
                   None \<Rightarrow> True
                 | Some floor \<Rightarrow> (case value_id v of
                       None \<Rightarrow> False
                     | Some vi \<Rightarrow> event_is_newer (value_created_at v, vi) (floor, case st_selected_id st of None \<Rightarrow> vi | Some s \<Rightarrow> s)))
             then Inr (True, Some v)
             else if st_selected_id st \<noteq> None \<and> \<not> present then Inr (True, None)
             else Inr (False, None)
         | None \<Rightarrow> if st_selected_id st \<noteq> None then Inr (True, None) else Inr (False, None)))"

text \<open>
  Reapplying the edits of a receipt. A failure is recorded with the store and remembered, so that
  the same source is not tried again.
\<close>

definition reapply_failed ::
  "publication \<Rightarrow> receipt \<Rightarrow> event_value option \<Rightarrow> string \<Rightarrow> semantic_state \<Rightarrow> memory_write_store \<Rightarrow> semantic_state \<times> memory_write_store" where
  "reapply_failed pb r successor reason st m =
     (let p = lw_publication (rc_current r) in
      (st\<lparr>st_failed_id := Option.bind successor value_id\<rparr>,
       snd (record_semantic_failure (pb_nostr pb) (rc_write_id r) (rc_receipt_id r) (pe_revision_id p) (pe_revision_source p)
              successor reason m)))"

definition reapply :: "publication \<Rightarrow> timestamp \<Rightarrow> receipt \<Rightarrow> semantic_state \<Rightarrow> memory_write_store \<Rightarrow> (semantic_state \<times> memory_write_store) option" where
  "reapply pb now r st m =
     (let p = lw_publication (rc_current r) in
      case semantic_successor pb st (rc_receipt_id r) of
        Inr (True, successor) \<Rightarrow>
          (case apply_sequence_and_route pb now (st_edits st) (st_author st) successor (Some (lw_event (rc_current r)))
                  (rc_routing r) (rc_access r) of
             None \<Rightarrow> None
           | Some (Inl err) \<Rightarrow> Some (reapply_failed pb r successor (publication_error_text err) st m)
           | Some (Inr (u, route)) \<Rightarrow>
               if rc_routing r = Automatic \<and> checked_add_u64 (rc_route_revision r) 1 = None then Some (st, m)
               else
                 let initial = (if rc_routing r = Automatic
                       then Some (route\<lparr>rp_revision := rc_route_revision r + 1\<rparr>) else None) in
                 (case install_semantic (pb_nostr pb) now (rc_write_id r) (rc_receipt_id r) (pe_revision_id p) (pe_revision_source p)
                         (st_edits st) u successor initial m of
                    (Inl err, m') \<Rightarrow> Some (reapply_failed pb r successor (store_error_text err) st m')
                  | (Inr installed, m') \<Rightarrow>
                      Some (st\<lparr>st_selected_id := Option.bind successor value_id,
                               st_revision_id := pe_revision_id (lw_publication (rc_current installed)),
                               st_source_floor := (case successor of None \<Rightarrow> st_source_floor st | Some v \<Rightarrow> Some (value_created_at v)),
                               st_failed_id := None\<rparr>, m')))
      | _ \<Rightarrow> Some (st, m))"

subsection \<open>Accepting, recovering and cancelling\<close>

text \<open>
  The owner: its store and the receipts whose work is running, with the state of the edits they
  follow.
\<close>

record publication_owner =
  po_store :: memory_write_store
  po_running :: "(receipt_id, semantic_state option) btree_map"

definition start_owned :: "receipt_id \<Rightarrow> semantic_state option \<Rightarrow> publication_owner \<Rightarrow> publication_owner" where
  "start_owned i semantic po =
     (if bt_get (po_running po) i \<noteq> None then po else po\<lparr>po_running := bt_insert i semantic (po_running po)\<rparr>)"

definition finished :: "receipt_id \<Rightarrow> publication_owner \<Rightarrow> publication_owner" where
  "finished i po = po\<lparr>po_running := bt_remove i (po_running po)\<rparr>"

definition semantic_of_custody ::
  "custody \<Rightarrow> revision_id \<Rightarrow> semantic_sources \<Rightarrow> semantic_state" where
  "semantic_of_custody c revision so =
     (case c of (edits, author, selected, _) \<Rightarrow>
        semantic_recovered edits author revision (map_option fst selected) (map_option snd selected) so)"

definition accept_edit ::
  "publication \<Rightarrow> (query \<Rightarrow> string + source_snapshot) \<Rightarrow> timestamp \<Rightarrow> write_intent \<Rightarrow> event_edit \<Rightarrow> public_key \<Rightarrow> publication_owner
     \<Rightarrow> ((publication_error + accepted_write) \<times> publication_owner) option" where
  "accept_edit pb cache now intent e author po =
     (case reserve_active e author (po_store po) of
        (Inl err, m) \<Rightarrow> Some (Inl (PublicationStore err), po\<lparr>po_store := m\<rparr>)
      | (Inr reservation, m) \<Rightarrow>
          (case prepare_semantic pb cache now intent None m of
             None \<Rightarrow> None
           | Some (Inl err) \<Rightarrow>
               (case release_active reservation m of
                  (Inl release, m') \<Rightarrow>
                    Some (Inl (PublicationStore (StoreRefused (''semantic preparation failed ('' @ publication_error_text err
                       @ ''); active reservation release also failed ('' @ store_error_text release @ '')''))), po\<lparr>po_store := m'\<rparr>)
                | (Inr _, m') \<Rightarrow> Some (Inl err, po\<lparr>po_store := m'\<rparr>))
           | Some (Inr ps) \<Rightarrow>
               (case accept_reserved_applied_edit (pb_nostr pb) now reservation intent (ps_event ps) (ps_source ps)
                       (if wi_routing intent = Automatic then Some (ps_route ps) else None) m of
                  (Inl err, m') \<Rightarrow> Some (Inl (PublicationStore err), po\<lparr>po_store := m'\<rparr>)
                | (Inr accepted, m') \<Rightarrow>
                    let po = po\<lparr>po_store := m'\<rparr>; revision = pe_revision_id (lw_publication (aw_current accepted)) in
                    (case semantic_custody (aw_receipt_id accepted) revision m' of
                       Inl err \<Rightarrow> Some (Inl (PublicationStore err), po)
                     | Inr None \<Rightarrow>
                         if (case store_receipt (aw_receipt_id accepted) m' of None \<Rightarrow> False | Some r \<Rightarrow> receipt_is_terminal r)
                         then Some (Inr accepted, po)
                         else Some (Inl (PublicationStore (StoreRefused ''accepted semantic custody is missing'')), po)
                     | Inr (Some c) \<Rightarrow>
                         Some (Inr accepted,
                           start_owned (aw_receipt_id accepted) (Some (semantic_of_custody c revision (ps_sources ps))) po)))))"

definition publication_accept ::
  "publication \<Rightarrow> (query \<Rightarrow> string + source_snapshot) \<Rightarrow> timestamp \<Rightarrow> write_intent \<Rightarrow> publication_owner
     \<Rightarrow> ((publication_error + accepted_write) \<times> publication_owner) option" where
  "publication_accept pb cache now intent po =
     (if \<not> pb_runtime pb then Some (Inl RuntimeUnavailable, po)
      else case wi_payload intent of
        PayloadEdit e author \<Rightarrow> accept_edit pb cache now intent e author po
      | _ \<Rightarrow>
          (case store_accept intent (po_store po) of
             (Inl err, m) \<Rightarrow> Some (Inl (PublicationStore err), po\<lparr>po_store := m\<rparr>)
           | (Inr accepted, m) \<Rightarrow> Some (Inr accepted, start_owned (aw_receipt_id accepted) None (po\<lparr>po_store := m\<rparr>))))"

definition preview_semantic_routes ::
  "publication \<Rightarrow> (query \<Rightarrow> string + source_snapshot) \<Rightarrow> timestamp \<Rightarrow> write_intent \<Rightarrow> memory_write_store
     \<Rightarrow> (publication_error + route_plan) option" where
  "preview_semantic_routes pb cache now intent m =
     map_option (\<lambda>r. try_then r (\<lambda>ps. Inr (ps_route ps))) (prepare_semantic pb cache now intent None m)"

definition publication_cancel :: "receipt_id \<Rightarrow> publication_owner \<Rightarrow> (publication_error + receipt option) \<times> publication_owner" where
  "publication_cancel i po =
     (case store_cancel i (po_store po) of
        (Inl err, m) \<Rightarrow> (Inl (PublicationStore err), po\<lparr>po_store := m\<rparr>)
      | (Inr r, m) \<Rightarrow>
          let po = po\<lparr>po_store := m\<rparr> in
          (Inr r, if (case r of None \<Rightarrow> False | Some r \<Rightarrow> rc_outcome r = Cancelled) then finished i po else po))"

definition publication_remove_receipt :: "receipt_id \<Rightarrow> publication_owner \<Rightarrow> (publication_error + bool) \<times> publication_owner" where
  "publication_remove_receipt i po =
     (case remove_receipt i (po_store po) of (r, m) \<Rightarrow> (map_err PublicationStore r, po\<lparr>po_store := m\<rparr>))"

subsection \<open>Recovery\<close>

definition missing_receipt :: "string \<Rightarrow> publication_error" where
  "missing_receipt label = PublicationStore (StoreRefused (label @ '' semantic receipt is missing''))"

definition refresh_recovered_custody ::
  "receipt \<Rightarrow> semantic_state \<Rightarrow> memory_write_store \<Rightarrow> publication_error + semantic_state" where
  "refresh_recovered_custody r st m =
     (let revision = pe_revision_id (lw_publication (rc_current r));
          retry = (revision = st_revision_id st \<and> st_failed_id st = None) in
      case semantic_custody (rc_receipt_id r) revision m of
        Inl err \<Rightarrow> Inl (PublicationStore err)
      | Inr None \<Rightarrow> Inl (PublicationStore (StoreRefused ''recovered semantic custody is missing''))
      | Inr (Some (edits, author, selected, failed)) \<Rightarrow>
          if edits = [] then Inl (PublicationStore (StoreRefused ''recovered semantic edit sequence is empty''))
          else let st = refresh_custody revision edits author selected failed st
               in Inr (if retry then st\<lparr>st_failed_id := None\<rparr> else st))"

text \<open>
  \<open>reconcile_recovered\<close>, which runs before the owner is exposed: nothing else changes the store
  between its reads, so the receipt it read is the current one whenever it compares them.
\<close>

fun reconcile_recovered ::
  "publication \<Rightarrow> timestamp \<Rightarrow> nat \<Rightarrow> receipt_id \<Rightarrow> semantic_state \<Rightarrow> memory_write_store
     \<Rightarrow> ((publication_error + semantic_state) \<times> memory_write_store) option" where
  "reconcile_recovered pb now 0 i st m =
     Some (Inl (PublicationStore (StoreRefused (''semantic recovery reconciliation exceeds bound ''
        @ show_nat (DESTINATION_EVIDENCE_CAPACITY + 1)))), m)"
| "reconcile_recovered pb now (Suc n) i st m =
     (case store_receipt i m of
        None \<Rightarrow> Some (Inl (missing_receipt ''recovered''), m)
      | Some r \<Rightarrow>
          if receipt_is_terminal r then Some (Inr st, m)
          else case refresh_recovered_custody r st m of
            Inl err \<Rightarrow> Some (Inl err, m)
          | Inr st \<Rightarrow>
              (case reapply pb now r st m of
                 None \<Rightarrow> None
               | Some (st, m) \<Rightarrow>
                   (case store_receipt i m of
                      None \<Rightarrow> Some (Inl (missing_receipt ''reconciled''), m)
                    | Some applied \<Rightarrow>
                        if pe_revision_id (lw_publication (rc_current applied)) = st_revision_id st then Some (Inr st, m)
                        else reconcile_recovered pb now n i st m)))"

text \<open>The first failure, in order; an error stops the loop.\<close>

fun check_appliers :: "publication \<Rightarrow> event_edit list \<Rightarrow> publication_error + unit" where
  "check_appliers pb [] = Inr ()"
| "check_appliers pb (e # es) = try_then (find_applier pb e) (\<lambda>_. check_appliers pb es)"

fun prepare_recovered ::
  "(query \<Rightarrow> string + source_snapshot) \<Rightarrow> memory_write_store \<Rightarrow> (receipt \<times> custody) list
     \<Rightarrow> publication_error + (receipt_id \<times> semantic_state) list" where
  "prepare_recovered cache m [] = Inr []"
| "prepare_recovered cache m ((r, c) # rest) =
     try_then (case c of (edits, author, _, _) \<Rightarrow>
       if edits = [] then Inl (PublicationStore (StoreRefused ''recovered semantic edit sequence is empty''))
       else open_semantic_sources cache (last edits) author m) (\<lambda>so.
     try_then (prepare_recovered cache m rest) (\<lambda>prepared.
     Inr ((rc_receipt_id r, semantic_of_custody c (pe_revision_id (lw_publication (rc_current r))) so) # prepared)))"

fun reconcile_all ::
  "publication \<Rightarrow> timestamp \<Rightarrow> (receipt_id \<times> semantic_state) list \<Rightarrow> memory_write_store
     \<Rightarrow> ((publication_error + (receipt_id \<times> semantic_state) list) \<times> memory_write_store) option" where
  "reconcile_all pb now [] m = Some (Inr [], m)"
| "reconcile_all pb now ((i, st) # rest) m =
     (case reconcile_recovered pb now (DESTINATION_EVIDENCE_CAPACITY + 1) i st m of
        None \<Rightarrow> None
      | Some (Inl err, m) \<Rightarrow> Some (Inl err, m)
      | Some (Inr st, m) \<Rightarrow>
          (case reconcile_all pb now rest m of
             None \<Rightarrow> None
           | Some (Inl err, m) \<Rightarrow> Some (Inl err, m)
           | Some (Inr sts, m) \<Rightarrow> Some (Inr ((i, st) # sts), m)))"

definition publication_recover ::
  "publication \<Rightarrow> (query \<Rightarrow> string + source_snapshot) \<Rightarrow> timestamp \<Rightarrow> publication_owner
     \<Rightarrow> ((publication_error + nat) \<times> publication_owner) option" where
  "publication_recover pb cache now po =
     (if \<not> pb_runtime pb then Some (Inl RuntimeUnavailable, po)
      else
        let m = po_store po; receipts = recover_open m; semantic = recover_semantic m in
        case try_then (check_appliers pb (concat (map (\<lambda>(r, edits, _). edits) semantic))) (\<lambda>_. prepare_recovered cache m semantic) of
          Inl err \<Rightarrow> Some (Inl err, po)
        | Inr prepared \<Rightarrow>
            (case reconcile_all pb now prepared m of
               None \<Rightarrow> None
             | Some (Inl err, m) \<Rightarrow> Some (Inl err, po\<lparr>po_store := m\<rparr>)
             | Some (Inr sts, m) \<Rightarrow>
                 let po = fold (\<lambda>(i, st). start_owned i (Some st)) sts (po\<lparr>po_store := m\<rparr>);
                     po = fold (\<lambda>r. start_owned (rc_receipt_id r) None)
                            (List.filter (\<lambda>r. rc_receipt_id r \<notin> set (map fst sts)) receipts) po
                 in Some (Inr (length receipts), po)))"

subsection \<open>Edits in sequence\<close>

text \<open>An applier that keeps the contract, as a provider: it returns, and never panics.\<close>

definition provider :: "kind \<Rightarrow> (event_edit \<Rightarrow> bool)
    \<Rightarrow> (event_edit \<Rightarrow> public_key \<Rightarrow> event_value option \<Rightarrow> timestamp \<Rightarrow> write_intent_error + unsigned_event) \<Rightarrow> edit_provider" where
  "provider k supp revised = \<lparr>ap_kind = k, ap_supports = supp, ap_apply = (\<lambda>e a src t. Returned (revised e a src t))\<rparr>"

definition shipped_appliers :: "protocol_lib \<Rightarrow> edit_provider list" where
  "shipped_appliers P = [provider kind_contact_list (contact_supports P) (contact_apply P),
     provider BOOKMARK_KIND (bookmark_supports P) (bookmark_apply P), provider saved_kind (saved_supports P) (saved_apply P)]"

context edit_applier
begin

text \<open>The second edit of a sequence meets the first one's time and is refused.\<close>

lemma second_edit_refused:
  assumes "find_applier pb e2 = Inr (provider kind supports revise)"
    and "publication_validate_revision (pb_nostr pb) e1 author u created_at = Inr ()"
  shows "\<exists>err. apply_edits pb i n author created_at (Some (Unsigned u)) (e2 # es) = Inl err"
proof -
  from assms(2) have "ue_created_at u = created_at"
    by (auto simp: publication_validate_revision_def try_then_Inr_iff split: if_splits)
  then have "value_created_at (Unsigned u) = created_at" by simp
  from refuses_same_time [OF this] obtain err where "revise e2 author (Some (Unsigned u)) created_at = Inl err" by blast
  with assms(1) show ?thesis by (simp add: provider_def)
qed

end

lemma shipped_index:
  "index_appliers (shipped_appliers P) = Inr (bt_of_list [(kind_contact_list, provider kind_contact_list (contact_supports P) (contact_apply P)),
     (BOOKMARK_KIND, provider BOOKMARK_KIND (bookmark_supports P) (bookmark_apply P)), (saved_kind, provider saved_kind (saved_supports P) (saved_apply P))])"
  by (simp add: index_appliers_def shipped_appliers_def provider_def MAX_APPLIERS_def bt_of_list_def bt_get_def kind_contact_list_def
      BOOKMARK_KIND_def saved_kind_def)

lemma shipped_find:
  assumes "index_appliers (shipped_appliers P) = Inr (pb_appliers pb)" "find_applier pb e = Inr a"
  shows "a \<in> set (shipped_appliers P)"
proof -
  from assms(1) shipped_index have map: "pb_appliers pb = bt_of_list [(kind_contact_list, provider kind_contact_list (contact_supports P) (contact_apply P)),
     (BOOKMARK_KIND, provider BOOKMARK_KIND (bookmark_supports P) (bookmark_apply P)), (saved_kind, provider saved_kind (saved_supports P) (saved_apply P))]"
    by simp
  from assms(2) have "bt_get (pb_appliers pb) (ed_kind e) = Some a" by (simp add: find_applier_def split: option.splits if_splits)
  then show ?thesis
    by (auto simp: map bt_get_def bt_of_list_def kind_contact_list_def BOOKMARK_KIND_def saved_kind_def shipped_appliers_def split: if_splits)
qed

text \<open>
  A sequence of two or more edits is refused with the appliers the repository ships, whatever the
  edits, the source and the clock are: every edit of a sequence is given the same timestamp, the
  revision of the first is the source of the second, and each of the appliers refuses a revision
  that is not later than its source.
\<close>

lemma shipped_sequence_refused:
  assumes "index_appliers (shipped_appliers P) = Inr (pb_appliers pb)"
  shows "\<exists>err. apply_edits pb i n author created_at source (e1 # e2 # es) = Inl err"
proof (cases "apply_edits pb i n author created_at source [e1]")
  case (Inl err)
  then show ?thesis by (auto simp: try_then_def split: sum.splits outcome.splits)
next
  case (Inr v)
  then obtain u where u: "publication_validate_revision (pb_nostr pb) e1 author u created_at = Inr ()"
    and step: "apply_edits pb i n author created_at source (e1 # e2 # es) = apply_edits pb (Suc i) n author created_at (Some (Unsigned u)) (e2 # es)"
    by (auto simp: try_then_def split: sum.splits outcome.splits)
  show ?thesis
  proof (cases "find_applier pb e2")
    case (Inl err)
    then show ?thesis using step by simp
  next
    case (Inr a)
    with shipped_find [OF assms] consider "a = provider kind_contact_list (contact_supports P) (contact_apply P)"
      | "a = provider BOOKMARK_KIND (bookmark_supports P) (bookmark_apply P)" | "a = provider saved_kind (saved_supports P) (saved_apply P)"
      by (auto simp: shipped_appliers_def)
    then have "\<exists>err. apply_edits pb (Suc i) n author created_at (Some (Unsigned u)) (e2 # es) = Inl err"
    proof cases
      case 1
      with Inr contact.second_edit_refused u show ?thesis by blast
    next
      case 2
      with Inr bookmark.second_edit_refused u show ?thesis by blast
    next
      case 3
      with Inr saved.second_edit_refused u show ?thesis by blast
    qed
    with step show ?thesis by simp
  qed
qed

end
