(* ===== verification/Publication_Properties.thy ===== *)
theory Publication_Properties
  imports Publication_Edits
begin

section \<open>What the edits of a publication amount to\<close>

text \<open>
  The source an edit is applied to, the revision that comes out of it, and what the owner does when
  the source changes or a preparation fails.
\<close>

subsection \<open>The selected source\<close>

text \<open>What an edit may be applied to.\<close>

definition usable :: "publication \<Rightarrow> event_edit \<Rightarrow> public_key \<Rightarrow> receipt_id option \<Rightarrow> source_event \<Rightarrow> bool" where
  "usable pb e author exclude c \<longleftrightarrow>
     at_coordinate (pb_nostr pb) (edit_coordinate e author) exclude c \<and> contribution_qualifies (exact_query e author) c"

definition qualified_sources :: "publication \<Rightarrow> event_edit \<Rightarrow> public_key \<Rightarrow> receipt_id option \<Rightarrow> source_snapshot list \<Rightarrow> source_snapshot list" where
  "qualified_sources pb e author exclude sources =
     map (\<lambda>s. s\<lparr>ss_events := List.filter (at_coordinate (pb_nostr pb) (edit_coordinate e author) exclude) (ss_events s)\<rparr>) sources"

lemma qualified_contributions:
  "all_contributions (qualified_sources pb e author exclude sources) =
     List.filter (at_coordinate (pb_nostr pb) (edit_coordinate e author) exclude) (all_contributions sources)"
  by (simp add: all_contributions_def qualified_sources_def filter_concat comp_def)

lemma qualified_ok: "sources_ok sources \<Longrightarrow> sources_ok (qualified_sources pb e author exclude sources)"
  by (auto simp: sources_ok_def qualified_contributions)

lemma exact_query_fields [simp]:
  "q_selection (exact_query e author) = selection_default\<lparr>sel_kinds := Some [ed_kind e], sel_authors := Some [author]\<rparr>"
  "q_access (exact_query e author) = Unauthenticated" "q_limit (exact_query e author) = None"
  "sp_authority (q_source (exact_query e author)) = AnyLocal" "q_ordering (exact_query e author) = NewestFirst"
  by (simp_all add: exact_query_def cache_only_def query_events_def source_policy_default_def)

lemma exact_query_matches [simp]: "\<not> matches_nothing (exact_query e author)"
  by (simp add: matches_nothing_def depends_on_current_account_def selection_default_def bt_values_def)

lemma at_coordinate_value:
  assumes "at_coordinate N (edit_coordinate e author) exclude c" "contribution_ok c"
  shows "event_coordinate N (contribution_id c) (value_author (contribution_value c)) (value_kind (contribution_value c))
      (value_tags (contribution_value c)) = edit_coordinate e author"
    "value_author (contribution_value c) = author" "value_kind (contribution_value c) = ed_kind e"
proof -
  show 1: "event_coordinate N (contribution_id c) (value_author (contribution_value c)) (value_kind (contribution_value c))
      (value_tags (contribution_value c)) = edit_coordinate e author"
    using assms by (cases c) (auto simp: at_coordinate_def value_coordinate_def local_ok_def split: option.splits)
  then show "value_author (contribution_value c) = author" "value_kind (contribution_value c) = ed_kind e"
    by (auto simp: event_coordinate_def edit_coordinate_def split: if_splits)
qed

lemma select_source_standard:
  assumes "pb_evaluate pb = evaluate (pb_nostr pb)" "sources_ok sources"
  shows "select_source pb e author sources exclude =
     Inr (map_option er_event (nth_opt (result_events (pb_nostr pb) (exact_query e author) (qualified_sources pb e author exclude sources)) 0))"
  using evaluate_eq [OF qualified_ok [OF assms(2)]] assms(1)
  by (simp add: select_source_def Let_def qualified_sources_def [symmetric] snapshot_evaluated_def)

lemma selected_record:
  assumes "sources_ok sources" "r \<in> set (result_events (pb_nostr pb) (exact_query e author) (qualified_sources pb e author exclude sources))"
  shows "\<exists>c\<in>set (all_contributions sources). usable pb e author exclude c \<and> contribution_value c = er_event r \<and> contribution_id c = er_id r
     \<and> record_coordinate (pb_nostr pb) r = edit_coordinate e author"
proof -
  let ?q = "exact_query e author" and ?src = "qualified_sources pb e author exclude sources"
  from result_events_from [OF assms(2)] obtain i cd where cd: "(i, cd) \<in> set (merge_sources ?q ?src)" "r = record_of (i, cd)" by auto
  note ok = merge_sources_qualifying [OF qualified_ok [OF assms(1)] cd(1)]
  then obtain c where c: "c \<in> set (all_contributions ?src)" "contribution_value c = cd_event cd" "contribution_qualifies ?q c"
    by (auto simp: candidate_ok_def merged_value_def)
  have "contribution_ok c" using c(1) qualified_ok [OF assms(1)] by (auto simp: sources_ok_def)
  then have i: "contribution_id c = i" using contribution_id_value c(2) ok by (auto simp: candidate_ok_def)
  from c(1) have "c \<in> set (all_contributions sources)" "at_coordinate (pb_nostr pb) (edit_coordinate e author) exclude c"
    by (auto simp: qualified_contributions)
  with at_coordinate_value(1) [OF this(2) \<open>contribution_ok c\<close>] c i cd(2) show ?thesis
    by (auto simp: usable_def record_of_def record_coordinate_def)
qed

text \<open>
  The source of an edit is the newest usable event of its coordinate: no other event that the cache
  or the write store holds for it, obtained without authentication and not of the excluded
  receipt, is newer. There is no source exactly when there is no usable event.
\<close>

theorem select_source_newest:
  assumes "pb_evaluate pb = evaluate (pb_nostr pb)" "sources_ok sources" "select_source pb e author sources exclude = Inr source"
    and "\<forall>c\<in>set (all_contributions sources). \<forall>d\<in>set (all_contributions sources).
        contribution_id c = contribution_id d \<longrightarrow> value_created_at (contribution_value c) = value_created_at (contribution_value d)"
  shows "case source of
      None \<Rightarrow> \<forall>c\<in>set (all_contributions sources). \<not> usable pb e author exclude c
    | Some v \<Rightarrow> \<exists>c\<in>set (all_contributions sources). usable pb e author exclude c \<and> contribution_value c = v
        \<and> (\<forall>d\<in>set (all_contributions sources). usable pb e author exclude d \<longrightarrow>
             \<not> event_is_newer (value_created_at (contribution_value d), contribution_id d) (value_created_at v, contribution_id c))"
proof -
  let ?N = "pb_nostr pb" and ?q = "exact_query e author" and ?src = "qualified_sources pb e author exclude sources"
  let ?rs = "List.filter (matches_selection ?N (q_selection ?q)) (map record_of (merge_sources ?q ?src))"
  let ?events = "result_events ?N ?q ?src"
  have events: "set ?events = set (coordinate_winners ?N ?rs)" by (simp add: result_events_def truncate_to_def)
  have source: "source = map_option er_event (nth_opt ?events 0)"
    using select_source_standard [OF assms(1,2)] assms(3) by simp
  have covers: "\<exists>w\<in>set ?events. \<exists>r. er_id r = contribution_id d \<and> er_created_at r = value_created_at (contribution_value d) \<and> record_dominates w r"
    if d: "d \<in> set (all_contributions sources)" "usable pb e author exclude d" for d
  proof -
    have mem: "d \<in> set (all_contributions ?src)" using d by (simp add: qualified_contributions usable_def)
    then have "contribution_id d \<in> set (bt_keys (merge_sources ?q ?src))"
      using d(2) by (auto simp: merge_sources_fold merge_fold_keys usable_def)
    then obtain cd where cd: "(contribution_id d, cd) \<in> set (merge_sources ?q ?src)" by (auto simp: bt_keys_def)
    let ?r = "record_of (contribution_id d, cd)"
    from merge_sources_qualifying [OF qualified_ok [OF assms(2)] cd] obtain c where c: "c \<in> set (all_contributions ?src)" "contribution_value c = cd_event cd"
      and cid: "value_id (cd_event cd) = Some (contribution_id d)"
      by (auto simp: candidate_ok_def merged_value_def)
    have okc: "contribution_ok c" using c(1) qualified_ok [OF assms(2)] by (auto simp: sources_ok_def)
    from c(1) have c': "c \<in> set (all_contributions sources)" "at_coordinate ?N (edit_coordinate e author) exclude c" by (auto simp: qualified_contributions)
    have same: "contribution_id c = contribution_id d" using contribution_id_value [OF okc] c(2) cid by simp
    have "value_created_at (contribution_value c) = value_created_at (contribution_value d)" using assms(4) c'(1) d(1) same by blast
    with c(2) have at: "er_created_at ?r = value_created_at (contribution_value d)" by (simp add: er_created_at_def record_of_def)
    have "matches_selection ?N (q_selection ?q) ?r"
      using at_coordinate_value(2,3) [OF c'(2) okc] c(2)
      by (simp add: matches_selection_def matches_value_def record_of_def axis_admits_def selection_default_def)
    then have "?r \<in> set ?rs" using cd by force
    from coordinate_winners_covers [OF this, of ?N] obtain w where "w \<in> set ?events" "record_dominates w ?r" using events by blast
    with at show ?thesis by (intro bexI [of _ w] exI [of _ ?r]) (simp_all add: record_of_def)
  qed
  show ?thesis
  proof (cases ?events)
    case Nil
    with source covers show ?thesis by (auto simp: nth_opt_def)
  next
    case (Cons r rest)
    have one: "rest = []"
    proof (rule ccontr)
      assume "rest \<noteq> []"
      then obtain x where x: "x \<in> set rest" by (cases rest) auto
      have "record_coordinate ?N y = edit_coordinate e author" if "y \<in> set ?events" for y using selected_record [OF assms(2) that] by blast
      with x Cons have "record_coordinate ?N x = record_coordinate ?N r" by simp
      moreover have "distinct (map (record_coordinate ?N) ?events)"
        by (simp add: result_events_def truncate_to_def coordinate_winners_distinct)
      ultimately show False using x Cons by (auto simp: rev_image_eqI)
    qed
    from selected_record [OF assms(2), of r pb e author exclude] Cons obtain c where c: "c \<in> set (all_contributions sources)"
      "usable pb e author exclude c" "contribution_value c = er_event r" "contribution_id c = er_id r" by auto
    have "\<not> event_is_newer (value_created_at (contribution_value d), contribution_id d) (value_created_at (er_event r), contribution_id c)"
      if d: "d \<in> set (all_contributions sources)" "usable pb e author exclude d" for d
      using covers [OF d] Cons one c(4) by (auto simp: record_dominates_def er_created_at_def)
    with c source Cons show ?thesis by (auto simp: nth_opt_def)
  qed
qed

text \<open>
  Only contributions obtained without authentication count: a list that the cache holds from
  authenticated sessions alone is no source, and the edit is applied to the empty list.
\<close>

theorem authenticated_source_ignored:
  assumes "pb_evaluate pb = evaluate (pb_nostr pb)" "sources_ok sources"
    and "\<forall>c\<in>set (all_contributions sources). \<exists>re. c = RelayContribution re \<and> occ_authority (re_occurrence re) \<noteq> Unauthenticated"
  shows "select_source pb e author sources exclude = Inr None"
proof -
  have "\<not> contribution_qualifies (exact_query e author) c" if "c \<in> set (all_contributions sources)" for c
    using assms(3) that by (auto simp: relay_qualifies_def Let_def)
  then have "\<not> usable pb e author exclude c" if "c \<in> set (all_contributions sources)" for c using that by (simp add: usable_def)
  then have "result_events (pb_nostr pb) (exact_query e author) (qualified_sources pb e author exclude sources) = []"
    using selected_record [OF assms(2)] by (metis list.set_intros(1) neq_Nil_conv)
  then show ?thesis using select_source_standard [OF assms(1,2)] by (simp add: nth_opt_def)
qed

subsection \<open>The revision\<close>

lemma injected_timestamp_Inr:
  assumes "injected_timestamp now source current = Inr t"
  shows "source = Some v \<Longrightarrow> value_created_at v < t" "current = Some v \<Longrightarrow> value_created_at v < t" "now \<le> t"
proof -
  have add: "x < y" if "checked_add_u64 x 1 = Some y" for x y :: u64 using that by (rule checked_add_u64_one_greater)
  have "(source = Some v \<longrightarrow> value_created_at v < t) \<and> (current = Some v \<longrightarrow> value_created_at v < t)"
    using assms
    by (auto simp: injected_timestamp_def Let_def try_then_Inr_iff ok_or_def max_def split: option.splits if_splits dest!: add)
  then show "source = Some v \<Longrightarrow> value_created_at v < t" "current = Some v \<Longrightarrow> value_created_at v < t" by blast+
  show "now \<le> t" using assms by (auto simp: injected_timestamp_def Let_def try_then_Inr_iff)
qed

lemma apply_one:
  assumes "apply_sequence_and_route pb now [e] author source current routing access = Some (Inr (u, route))"
  obtains t where "injected_timestamp now source current = Inr t" "publication_validate_revision (pb_nostr pb) e author u t = Inr ()"
    "route_for pb u routing access = Some (Inr route)"
proof -
  from assms obtain t where t: "injected_timestamp now source current = Inr t"
    and a: "apply_edits pb 0 1 author t source [e] = Inr (Some (Unsigned u))"
    and r: "route_for pb u routing access = Some (Inr route)"
    by (auto simp: apply_sequence_and_route_def try_then_Inr_iff simp del: apply_edits.simps split: sum.splits option.splits event_value.splits)
  from a have "publication_validate_revision (pb_nostr pb) e author u t = Inr ()"
    by (auto simp: try_then_Inr_iff)
  with t r that show thesis by blast
qed

text \<open>
  A revision the owner makes passes the store's checks of its author, its coordinate and its order:
  it names the author and the coordinate of the edit and is newer than the source it was made from
  and than the receipt's current event.
\<close>

theorem revision_fits_store:
  assumes "apply_sequence_and_route pb now [e] author source current routing access = Some (Inr (u, route))"
    and "validate_source (pb_nostr pb) e author source = Inr selected"
  shows "revision_matches (pb_nostr pb) e author u = Inr () \<and> revision_newer u selected = Inr ()
     \<and> (\<forall>v ui vi. current = Some v \<longrightarrow> ue_id u = Some ui \<longrightarrow> event_is_newer (ue_created_at u, ui) (value_created_at v, vi))"
proof -
  from assms(1) obtain t where t: "injected_timestamp now source current = Inr t"
    and v: "publication_validate_revision (pb_nostr pb) e author u t = Inr ()"
    by (rule apply_one)
  from v obtain i where i: "ue_id u = Some i" "ue_created_at u = t" "ue_pubkey u = author"
    "event_coordinate (pb_nostr pb) i (ue_pubkey u) (ue_kind u) (ue_tags u) = edit_coordinate e author"
    by (auto simp: publication_validate_revision_def try_then_Inr_iff ok_or_def split: option.splits if_splits)
  have "revision_newer u selected = Inr ()"
  proof (cases source)
    case None
    with assms(2) show ?thesis by (simp add: validate_source_def revision_newer_def)
  next
    case (Some s)
    with assms(2) obtain si where "selected = Some (si, value_created_at s)"
      by (auto simp: validate_source_def split: sum.splits option.splits if_splits)
    with i injected_timestamp_Inr(1) [OF t Some] show ?thesis by (simp add: revision_newer_def require_def)
  qed
  with i injected_timestamp_Inr(2) [OF t] show ?thesis
    by (auto simp: revision_matches_def event_coordinate_of_unsigned_def require_def)
qed

subsection \<open>Routing a write\<close>

text \<open>
  A router that has nothing to say about a write when it is given no query results. The owner never
  gives any: \<open>route_for\<close> and \<open>open_generation\<close> pass an empty list of inputs per router.
\<close>

definition silent :: "router_session router \<Rightarrow> route_request \<Rightarrow> bool" where
  "silent r request \<longleftrightarrow> (\<forall>up v. preview_answer r request up [] = Inr v \<longrightarrow> ct_destinations v = [])"

lemma outbox_target_empty: "ct_destinations c = [] \<Longrightarrow> ct_destinations (outbox_target [] settled t c) = []"
  by (auto simp: outbox_target_def target_relays_def bt_get_def split: route_target.splits)

lemma outbox_silent: "silent (outbox_router_of N ob) request"
proof -
  have "ct_destinations (fold (outbox_target [] settled) ts c) = []" if "ct_destinations c = []" for ts settled c
    using that by (induction ts arbitrary: c) (simp_all add: outbox_target_empty)
  then show ?thesis
    by (auto simp: silent_def preview_answer_def outbox_router_of_def outbox_project_def outbox_contribution_def isolate_def
        split: sum.splits if_splits)
qed

lemma silent_settle:
  assumes "silent r request" "composer_settle index (rt_name r) (preview_answer r request up []) c = Some c'"
    and "\<forall>v\<in>set (cp_contributions c). ct_destinations v = []"
  shows "\<forall>v\<in>set (cp_contributions c'). ct_destinations v = []"
  using assms(2)
proof (cases rule: composer_settle_cases)
  case (accepted v v')
  have "ct_destinations v' = []" using assms(1) accepted(1) attribute_destinations [OF accepted(2)] by (auto simp: silent_def)
  with accepted(3) assms(3) set_update_subset_insert [of "cp_contributions c" index v'] show ?thesis by auto
next
  case (refused e t)
  with assms(3) show ?thesis by simp
qed

lemma silent_loop:
  "preview_loop request index work c = Some c' \<Longrightarrow> \<forall>(r, inputs)\<in>set work. silent r request \<and> inputs = [] \<Longrightarrow>
     \<forall>v\<in>set (cp_contributions c). ct_destinations v = [] \<Longrightarrow> \<forall>v\<in>set (cp_contributions c'). ct_destinations v = []"
proof (induction request index work c rule: preview_loop.induct)
  case (2 request index r inputs rest c)
  then obtain mid where mid: "composer_settle index (rt_name r) (preview_answer r request (upstream_plan index 1 c) []) c = Some mid"
    "preview_loop request (Suc index) rest mid = Some c'" "silent r request" "inputs = []" by (auto simp: bind_eq_Some_conv)
  from silent_settle [OF mid(3,1) 2(4)] have "\<forall>v\<in>set (cp_contributions mid). ct_destinations v = []" .
  with 2(1) [of mid] mid 2(3) show ?case by auto
qed simp

text \<open>
  An automatic write through outbox routers has no destination, whatever relay lists the author and
  the recipients have published: the lists never reach the routers.
\<close>

theorem outbox_write_unrouted:
  assumes "\<forall>r\<in>set (pb_routers pb). \<exists>ob. r = outbox_router_of (pb_nostr pb) ob"
    and "route_for pb u Automatic access = Some (Inr plan)"
  shows "rp_destinations plan = []"
proof -
  let ?n = "length (pb_routers pb)" and ?request = "write_request u access"
  from assms(2) have "chain_preview (pb_nostr pb) (pb_routers pb) ?request (replicate ?n []) = Some (Inr plan)"
    by (auto simp: route_for_def)
  then obtain c where c: "preview_loop ?request 0 (zip (pb_routers pb) (replicate ?n [])) (composer_new ?n (request_targets (pb_nostr pb) ?request)) = Some c"
    "composer_plan 1 c = Inr plan" by (rule chain_preview_cases)
  have "\<forall>(r, inputs)\<in>set (zip (pb_routers pb) (replicate ?n [])). silent r ?request \<and> inputs = []"
    using assms(1) outbox_silent by (fastforce dest: set_zip_leftD set_zip_rightD)
  with silent_loop [OF c(1)] have "\<forall>v\<in>set (cp_contributions c). ct_destinations v = []" by (auto simp: composer_new_def)
  then have "ct_destinations (combined c) = []" by (simp add: merged_def combine_destinations)
  with c(2) plan_from_contribution_Inr(2) show ?thesis by (fastforce simp: composer_plan_def)
qed

subsection \<open>Reservations\<close>

definition reserved :: "memory_write_store \<Rightarrow> (u64, event_coord) btree_map" where
  "reserved m = ws_reservations (ms_state m)"

lemma reserved_intros:
  "reserved s = R \<Longrightarrow> (\<And>v. reserved (snd (f v)) = R) \<Longrightarrow> reserved (snd (try_in s x f)) = R"
  "(\<And>a b. reserved (snd (g a b)) = R) \<Longrightarrow> reserved (snd (case p of (a, b) \<Rightarrow> g a b)) = R"
  "reserved (snd t) = R \<Longrightarrow> reserved (snd e) = R \<Longrightarrow> reserved (snd (if b then t else e)) = R"
  by (cases x, simp_all) (cases p, simp)

lemma reserved_publish [simp]:
  "reserved (publish_receipt_only r m) = reserved m" "reserved (publish_receipt st r m) = ws_reservations st"
  "reserved (m\<lparr>ms_state := st\<rparr>) = ws_reservations st"
  by (simp_all add: reserved_def publish_receipt_only_def publish_receipt_def)

lemma compose_reserved: "reserved (snd (compose_semantic N i edit author routing u source initial_route m)) = reserved m"
  unfolding compose_semantic_def Let_def
  by (intro reserved_intros refl) (simp_all add: reserved_def publish_receipt_only_def publish_receipt_def)

lemma store_accept_reserved: "reserved (snd (store_accept intent m)) = reserved m"
  unfolding store_accept_def Let_def
  by (intro reserved_intros refl) (simp_all add: reserved_def publish_receipt_only_def publish_receipt_def)

lemma reserve_active_reserved:
  assumes "reserve_active e author m = (r, m')"
  shows "case r of Inl _ \<Rightarrow> m' = m
    | Inr n \<Rightarrow> n = ws_next_reservation (ms_state m) \<and> reserved m' = bt_insert n (edit_coordinate e author) (reserved m)"
  using assms unfolding reserve_active_def Let_def
  by (auto simp: try_in_def reserved_def split: sum.splits)

lemma release_active_reserved:
  assumes "bt_get (reserved m) n = Some coord"
  shows "\<exists>m'. release_active n m = (Inr (), m') \<and> reserved m' = bt_remove n (reserved m)"
  using assms by (auto simp: release_active_def Let_def reserved_def publish_receipt_only_def split: option.split)

lemma accept_reserved_reserved:
  assumes "bt_get (reserved m) n = Some (edit_coordinate e author)" "wi_payload intent = PayloadEdit e author"
  shows "reserved (snd (accept_reserved_applied_edit N now n intent u source initial_route m)) = bt_remove n (reserved m)"
proof -
  let ?st = "(ms_state m)\<lparr>ws_reservations := bt_remove n (ws_reservations (ms_state m))\<rparr>"
  have check: "check_reservation (Some n) (edit_coordinate e author) (ms_state m) = Inr ?st"
    using assms(1) by (simp add: check_reservation_def reserved_def)
  have case_coord: "reserved (snd (case bt_get (ws_coordinates ?st) k of None \<Rightarrow> a | Some i \<Rightarrow> b i)) = R"
    if "reserved (snd a) = R" "\<And>i. reserved (snd (b i)) = R" for k a b R using that by (simp split: option.split)
  show ?thesis
    unfolding accept_reserved_applied_edit_def accept_semantic_inner_def Let_def assms(2) payload_edit.simps try_in_simps prod.case check
    by (intro reserved_intros case_coord compose_reserved [THEN trans] refl)
      (simp_all add: reserved_def publish_receipt_only_def publish_receipt_def)
qed

text \<open>
  Whatever comes of an acceptance, refusal or success, it leaves no reservation of its own: the
  reservations of the store afterwards are those before.
\<close>

theorem accept_leaves_no_reservation:
  assumes "publication_accept pb cache now intent po = Some (res, po')"
    and "bt_wf (reserved (po_store po))" "bt_get (reserved (po_store po)) (ws_next_reservation (ms_state (po_store po))) = None"
  shows "bt_get (reserved (po_store po')) n = bt_get (reserved (po_store po)) n"
proof (cases "\<exists>e author. pb_runtime pb \<and> wi_payload intent = PayloadEdit e author")
  case False
  then have "reserved (po_store po') = reserved (po_store po)"
    using assms(1) store_accept_reserved [of intent "po_store po"]
    by (auto simp: publication_accept_def start_owned_def split: if_splits write_payload.splits prod.splits sum.splits)
  then show ?thesis by simp
next
  case True
  then obtain e author where e: "pb_runtime pb" "wi_payload intent = PayloadEdit e author" by blast
  obtain r m where res: "reserve_active e author (po_store po) = (r, m)" by (cases "reserve_active e author (po_store po)")
  show ?thesis
  proof (cases r)
    case (Inl err)
    with assms(1) e res reserve_active_reserved [OF res] show ?thesis by (auto simp: publication_accept_def accept_edit_def)
  next
    case (Inr k)
    with reserve_active_reserved [OF res] have k: "k = ws_next_reservation (ms_state (po_store po))"
      "reserved m = bt_insert k (edit_coordinate e author) (reserved (po_store po))" by simp_all
    then have held: "bt_get (reserved m) k = Some (edit_coordinate e author)" by simp
    have restored: "bt_get (bt_remove k (reserved m)) n = bt_get (reserved (po_store po)) n"
      using k assms(2,3) by (cases "n = k") (simp_all add: bt_wf_insert)
    have accepted: "reserved m' = bt_remove k (reserved m)"
      if "accept_reserved_applied_edit (pb_nostr pb) now k intent u source route m = (x, m')" for u source route x m'
      using accept_reserved_reserved [OF held e(2)] that by (metis snd_conv)
    have "reserved (po_store po') = bt_remove k (reserved m)"
      using assms(1) e res Inr release_active_reserved [OF held]
      by (auto simp: publication_accept_def accept_edit_def start_owned_def Let_def dest: accepted
          split: option.splits sum.splits prod.splits if_splits)
    with restored show ?thesis by simp
  qed
qed

subsection \<open>Following the source\<close>

text \<open>A recorded failure changes no event.\<close>

definition current_events :: "memory_write_store \<Rightarrow> receipt_id \<Rightarrow> event_value option" where
  "current_events m i = map_option (\<lambda>r. lw_event (rc_current r)) (store_receipt i m)"

lemma record_semantic_failure_events:
  assumes "bt_wf (ws_writes (ms_state m))"
  shows "current_events (snd (record_semantic_failure N write i expected expected_source source reason m)) j = current_events m j"
  using assms unfolding record_semantic_failure_def Let_def
  by (auto simp: try_in_def current_events_def store_receipt_def publish_receipt_def publish_receipt_only_def set_revision_failure_def
      ok_or_def split: sum.split option.split)

text \<open>
  Two or more composed edits are never made again from a newer source when their applier is one of
  those the repository ships: the revision and every receipt's current event stay what they were,
  and the failure is remembered.
\<close>

theorem composed_edits_never_rebased:
  assumes "index_appliers (shipped_appliers P) = Inr (pb_appliers pb)" "2 \<le> length (st_edits st)"
    and "reapply pb now r st m = Some (st', m')" "bt_wf (ws_writes (ms_state m))"
  shows "st_revision_id st' = st_revision_id st \<and> st_selected_id st' = st_selected_id st \<and> current_events m' = current_events m"
proof (cases "\<exists>successor. semantic_successor pb st (rc_receipt_id r) = Inr (True, successor)")
  case False
  with assms(3) have "st' = st \<and> m' = m" by (auto simp: reapply_def Let_def split: sum.splits prod.splits if_splits bool.splits)
  then show ?thesis by simp
next
  case True
  then obtain successor where succ: "semantic_successor pb st (rc_receipt_id r) = Inr (True, successor)" by blast
  from assms(2) obtain e1 e2 es where edits: "st_edits st = e1 # e2 # es"
    by (metis One_nat_def Suc_1 Suc_le_length_iff)
  have "\<exists>err. apply_sequence_and_route pb now (st_edits st) (st_author st) successor (Some (lw_event (rc_current r))) (rc_routing r) (rc_access r)
      = Some (Inl err)"
    using shipped_sequence_refused [OF assms(1)]
    unfolding apply_sequence_and_route_def edits by (auto split: sum.split simp del: apply_edits.simps) (metis Inl_Inr_False)+
  with assms(3) succ obtain err where "reapply_failed pb r successor (publication_error_text err) st m = (st', m')"
    by (auto simp: reapply_def Let_def)
  with record_semantic_failure_events [OF assms(4)] show ?thesis
    by (auto simp: reapply_failed_def Let_def)
qed

text \<open>
  A failed source is not tried again while it stays the candidate: the owner does not spin.
\<close>

theorem failed_source_not_retried:
  assumes "semantic_successor pb st i = Inr (True, successor)" "st' = st\<lparr>st_failed_id := Option.bind successor value_id\<rparr>"
    and "successor = None \<longrightarrow> select_source pb (last (st_edits st)) (st_author st) (so_snapshots (st_sources st)) (Some i) = Inr None"
  shows "semantic_successor pb st' i = Inr (False, None)"
proof -
  from assms(1) obtain cand where cand: "st_edits st \<noteq> []" "select_source pb (last (st_edits st)) (st_author st) (so_snapshots (st_sources st)) (Some i) = Inr cand"
    by (auto simp: semantic_successor_def try_then_Inr_iff split: if_splits)
  have "Option.bind cand value_id = Option.bind successor value_id"
    using assms(1,3) cand by (auto simp: semantic_successor_def Let_def try_then_Inr_iff split: if_splits option.splits)
  with cand assms(2) show ?thesis by (simp add: semantic_successor_def Let_def)
qed

text \<open>
  When the source disappears and nothing takes its place, the revision is not made again from the
  empty list: the owner compares the missing candidate with the missing failure and finds them
  equal.
\<close>

theorem vanished_source_ignored:
  assumes "st_edits st \<noteq> []" "st_failed_id st = None"
    and "select_source pb (last (st_edits st)) (st_author st) (so_snapshots (st_sources st)) (Some i) = Inr None"
  shows "semantic_successor pb st i = Inr (False, None)"
  using assms by (simp add: semantic_successor_def Let_def)

subsection \<open>Recovery\<close>

lemma start_owned_running: "set (bt_keys (po_running (start_owned i st po))) = insert i (set (bt_keys (po_running po)))"
proof (cases "bt_get (po_running po) i")
  case None
  then show ?thesis by (simp add: start_owned_def)
next
  case (Some x)
  then have "i \<in> set (bt_keys (po_running po))" by (simp add: set_bt_keys)
  with Some show ?thesis by (auto simp: start_owned_def)
qed

lemma fold_start_running:
  "set (bt_keys (po_running (fold (\<lambda>x. start_owned (f x) (g x)) xs po))) = f ` set xs \<union> set (bt_keys (po_running po))"
  by (induction xs arbitrary: po) (auto simp: start_owned_running)

lemma prepare_recovered_ids:
  "prepare_recovered cache m rs = Inr sts \<Longrightarrow> map fst sts = map (\<lambda>(r, c). rc_receipt_id r) rs"
  by (induction cache m rs arbitrary: sts rule: prepare_recovered.induct) (auto simp: try_then_Inr_iff)

lemma reconcile_all_ids:
  "reconcile_all pb now sts m = Some (Inr sts', m') \<Longrightarrow> map fst sts' = map fst sts"
proof (induction sts arbitrary: sts' m m')
  case (Cons x sts)
  obtain i st where x: "x = (i, st)" by (cases x)
  from Cons.prems obtain st1 m1 sts1 where "reconcile_recovered pb now (DESTINATION_EVIDENCE_CAPACITY + 1) i st m = Some (Inr st1, m1)"
    "reconcile_all pb now sts m1 = Some (Inr sts1, m')" "sts' = (i, st1) # sts1"
    by (auto simp: x simp del: reconcile_recovered.simps split: option.splits sum.splits prod.splits)
  with Cons.IH x show ?case by auto
qed simp

lemma bt_get_mem: "bt_get m k = Some v \<Longrightarrow> (k, v) \<in> set m"
  by (simp add: bt_get_def map_of_SomeD)

text \<open>
  A successful recovery resumes every obligation the store holds open and nothing else, and counts
  them.
\<close>

theorem recover_resumes_open:
  assumes "publication_recover pb cache now po = Some (Inr n, po')"
  shows "set (bt_keys (po_running po')) = set (bt_keys (po_running po)) \<union> rc_receipt_id ` set (recover_open (po_store po))
     \<and> n = length (recover_open (po_store po))"
proof -
  let ?m = "po_store po"
  from assms obtain prepared sts m' where p: "prepare_recovered cache ?m (recover_semantic ?m) = Inr prepared"
    "reconcile_all pb now prepared ?m = Some (Inr sts, m')" "n = length (recover_open ?m)"
    and po': "po' = fold (\<lambda>r. start_owned (rc_receipt_id r) None) (List.filter (\<lambda>r. rc_receipt_id r \<notin> set (map fst sts)) (recover_open ?m))
        (fold (\<lambda>(i, st). start_owned i (Some st)) sts (po\<lparr>po_store := m'\<rparr>))"
    by (auto simp: publication_recover_def Let_def try_then_Inr_iff split: if_splits option.splits sum.splits prod.splits)
  have ids: "map fst sts = map (\<lambda>(r, c). rc_receipt_id r) (recover_semantic ?m)"
    using prepare_recovered_ids [OF p(1)] reconcile_all_ids [OF p(2)] by simp
  have opened: "r \<in> set (recover_open ?m)" if "(r, c) \<in> set (recover_semantic ?m)" for r c
    using that by (auto simp: recover_semantic_def recover_open_def List.map_filter_def bt_values_def split: option.splits if_splits
        dest!: bt_get_mem intro: rev_image_eqI)
  have "fst ` set sts = (\<lambda>(r, c). rc_receipt_id r) ` set (recover_semantic ?m)"
    using ids by (metis set_map)
  with opened have sub: "fst ` set sts \<subseteq> rc_receipt_id ` set (recover_open ?m)" by auto
  have first: "set (bt_keys (po_running (fold (\<lambda>(i, st). start_owned i (Some st)) sts (po\<lparr>po_store := m'\<rparr>)))) = fst ` set sts \<union> set (bt_keys (po_running po))"
    using fold_start_running [of fst "\<lambda>x. Some (snd x)" sts "po\<lparr>po_store := m'\<rparr>"] by (simp add: case_prod_unfold)
  show ?thesis
    using sub p(3) unfolding po' fold_start_running first by auto
qed

end
