(* ===== verification/Session.thy ===== *)
theory Session
  imports Nostr_Lib Write_Values
begin

section \<open>Accounts and signer attachments (\<open>fava-session\<close>, \<open>fava-signer\<close>, \<open>fava-signer-local\<close>)\<close>

text \<open>
  The session holds the retained accounts, the signer attached for each exact key with the
  generation of its attachment, and the current account. Every method takes the lock for its whole
  body, so each is one step from a state to the answer and the next state. A signer is a provider:
  its key is data, whether it is available and whether its invocation panics are arguments, and
  the result of the future it returns comes later, as the argument of the step that receives it.
\<close>

subsection \<open>Signers\<close>

datatype signer_availability = Available | Unavailable

datatype signer_error =
    SignerUnavailable string
  | SignerRejected string
  | SignerCancelled
  | InvalidOutput string

fun signer_error_text :: "signer_error \<Rightarrow> string" where
  "signer_error_text (SignerUnavailable r) = ''signer unavailable: '' @ r"
| "signer_error_text (SignerRejected r) = ''signer rejected event: '' @ r"
| "signer_error_text SignerCancelled = ''signing cancelled''"
| "signer_error_text (InvalidOutput r) = ''signer returned invalid event: '' @ r"

text \<open>
  The local signer: \<open>finalize\<close> of the \<open>nostr\<close> crate is a parameter, and so is whether the
  cancellation channel is ready when the future is polled, which the biased selection asks first.
\<close>

definition local_sign_event ::
  "public_key \<Rightarrow> (unsigned_event \<Rightarrow> string + event) \<Rightarrow> bool \<Rightarrow> unsigned_event \<Rightarrow> signer_error + event" where
  "local_sign_event key finalize cancelled u =
     (if ue_pubkey u \<noteq> key then Inl (InvalidOutput ''unsigned event author does not match signer'')
      else if cancelled then Inl SignerCancelled
      else case finalize u of Inl e \<Rightarrow> Inl (InvalidOutput e) | Inr e \<Rightarrow> Inr e)"

subsection \<open>The state\<close>

record 's attachment =
  at_generation :: u64
  at_signer :: 's

record 's session =
  ses_accounts :: "public_key btree_set"
  ses_signers :: "(public_key, 's attachment) btree_map"
  ses_current_account :: "public_key option"
  ses_current_account_revision :: u64
  ses_revision :: u64
  ses_signal :: u64

datatype session_error =
    DuplicateAccount public_key
  | MissingAccount public_key
  | AccountCapacityExceeded nat
  | DuplicateSigner public_key
  | MissingSigner public_key
  | GenerationExhausted

definition ACCOUNT_CAPACITY :: nat where "ACCOUNT_CAPACITY = 64"

definition session_next_revision :: "u64 \<Rightarrow> session_error + u64" where
  "session_next_revision current = ok_or GenerationExhausted (checked_add_u64 current 1)"

definition commit_revision :: "u64 \<Rightarrow> 's session \<Rightarrow> 's session" where
  "commit_revision revision s = s\<lparr>ses_revision := revision, ses_signal := revision\<rparr>"

type_synonym ('a, 's) session_step = "(session_error + 'a) \<times> 's session"

subsection \<open>The operations\<close>

fun session_new_loop ::
  "public_key btree_set \<Rightarrow> (public_key, 's attachment) btree_map \<Rightarrow> u64 \<Rightarrow> (public_key \<times> 's) list
     \<Rightarrow> session_error + public_key btree_set \<times> (public_key, 's attachment) btree_map \<times> u64" where
  "session_new_loop accounts indexed revision [] = Inr (accounts, indexed, revision)"
| "session_new_loop accounts indexed revision ((key, signer) # rest) =
     (if bt_get indexed key \<noteq> None then Inl (DuplicateSigner key)
      else if length accounts = ACCOUNT_CAPACITY then Inl (AccountCapacityExceeded ACCOUNT_CAPACITY)
      else case session_next_revision revision of
        Inl e \<Rightarrow> Inl e
      | Inr revision \<Rightarrow>
          session_new_loop (bs_insert key accounts)
            (bt_insert key \<lparr>at_generation = revision, at_signer = signer\<rparr> indexed) revision rest)"

definition session_new :: "(public_key \<times> 's) list \<Rightarrow> session_error + 's session" where
  "session_new signers =
     (case session_new_loop [] [] 0 signers of
        Inl e \<Rightarrow> Inl e
      | Inr (accounts, indexed, revision) \<Rightarrow>
          Inr \<lparr>ses_accounts = accounts, ses_signers = indexed, ses_current_account = None,
               ses_current_account_revision = 0, ses_revision = revision, ses_signal = revision\<rparr>)"

definition add_account :: "public_key \<Rightarrow> 's session \<Rightarrow> (unit, 's) session_step" where
  "add_account key s =
     (if key \<in> set (ses_accounts s) then (Inl (DuplicateAccount key), s)
      else if length (ses_accounts s) = ACCOUNT_CAPACITY then (Inl (AccountCapacityExceeded ACCOUNT_CAPACITY), s)
      else try_in s (session_next_revision (ses_revision s)) (\<lambda>revision.
        (Inr (), commit_revision revision (s\<lparr>ses_accounts := bs_insert key (ses_accounts s)\<rparr>))))"

definition select_account :: "public_key \<Rightarrow> 's session \<Rightarrow> (unit, 's) session_step" where
  "select_account key s =
     (if key \<notin> set (ses_accounts s) then (Inl (MissingAccount key), s)
      else if ses_current_account s = Some key then (Inr (), s)
      else try_in s (session_next_revision (ses_revision s)) (\<lambda>revision.
        (Inr (), commit_revision revision (s\<lparr>ses_current_account := Some key, ses_current_account_revision := revision\<rparr>))))"

definition clear_current_account :: "'s session \<Rightarrow> (unit, 's) session_step" where
  "clear_current_account s =
     (if ses_current_account s = None then (Inr (), s)
      else try_in s (session_next_revision (ses_revision s)) (\<lambda>revision.
        (Inr (), commit_revision revision (s\<lparr>ses_current_account := None, ses_current_account_revision := revision\<rparr>))))"

definition current_account_snapshot :: "'s session \<Rightarrow> public_key option \<times> u64" where
  "current_account_snapshot s = (ses_current_account s, ses_current_account_revision s)"

definition if_current_account :: "public_key option \<times> u64 \<Rightarrow> 'r \<Rightarrow> 's session \<Rightarrow> 'r option" where
  "if_current_account expected action s = (if current_account_snapshot s = expected then Some action else None)"

definition remove_account :: "public_key \<Rightarrow> 's session \<Rightarrow> (unit, 's) session_step" where
  "remove_account key s =
     (if key \<notin> set (ses_accounts s) then (Inl (MissingAccount key), s)
      else try_in s (session_next_revision (ses_revision s)) (\<lambda>revision.
        let s1 = s\<lparr>ses_accounts := bs_diff (ses_accounts s) [key], ses_signers := bt_remove key (ses_signers s)\<rparr>;
            s2 = (if ses_current_account s1 = Some key
                  then s1\<lparr>ses_current_account := None, ses_current_account_revision := revision\<rparr> else s1)
        in (Inr (), commit_revision revision s2)))"

definition attach :: "public_key \<Rightarrow> 's \<Rightarrow> u64 \<Rightarrow> 's session \<Rightarrow> 's session" where
  "attach key signer revision s =
     s\<lparr>ses_signers := bt_insert key \<lparr>at_generation = revision, at_signer = signer\<rparr> (ses_signers s)\<rparr>"

definition add_signer :: "public_key \<Rightarrow> 's \<Rightarrow> 's session \<Rightarrow> (unit, 's) session_step" where
  "add_signer key signer s =
     (if bt_get (ses_signers s) key \<noteq> None then (Inl (DuplicateSigner key), s)
      else if key \<notin> set (ses_accounts s) \<and> length (ses_accounts s) = ACCOUNT_CAPACITY
      then (Inl (AccountCapacityExceeded ACCOUNT_CAPACITY), s)
      else try_in s (session_next_revision (ses_revision s)) (\<lambda>revision.
        (Inr (), commit_revision revision (attach key signer revision (s\<lparr>ses_accounts := bs_insert key (ses_accounts s)\<rparr>)))))"

definition replace_signer :: "public_key \<Rightarrow> 's \<Rightarrow> 's session \<Rightarrow> (unit, 's) session_step" where
  "replace_signer key signer s =
     (if bt_get (ses_signers s) key = None then (Inl (MissingSigner key), s)
      else try_in s (session_next_revision (ses_revision s)) (\<lambda>revision.
        (Inr (), commit_revision revision (attach key signer revision s))))"

definition remove_signer :: "public_key \<Rightarrow> 's session \<Rightarrow> (unit, 's) session_step" where
  "remove_signer key s =
     (if bt_get (ses_signers s) key = None then (Inl (MissingSigner key), s)
      else try_in s (session_next_revision (ses_revision s)) (\<lambda>revision.
        (Inr (), commit_revision revision (s\<lparr>ses_signers := bt_remove key (ses_signers s)\<rparr>))))"

definition session_signer :: "('s \<Rightarrow> signer_availability) \<Rightarrow> public_key \<Rightarrow> 's session \<Rightarrow> (u64 \<times> signer_availability) option" where
  "session_signer availability key s =
     map_option (\<lambda>a. (at_generation a, availability (at_signer a))) (bt_get (ses_signers s) key)"

text \<open>A future that runs at the provider, or the ready refusal a panic is turned into.\<close>

datatype signing = Running u64 unsigned_event | Ready signer_error

definition invoke_signer ::
  "nostr_lib \<Rightarrow> ('s \<Rightarrow> bool) \<Rightarrow> public_key \<Rightarrow> u64 \<Rightarrow> unsigned_event \<Rightarrow> 's session \<Rightarrow> signing option" where
  "invoke_signer N panics key generation u s =
     (case bt_get (ses_signers s) key of
        None \<Rightarrow> None
      | Some a \<Rightarrow>
          if at_generation a \<noteq> generation then None
          else if panics (at_signer a)
          then Some (Ready (SignerUnavailable (''signer attachment generation '' @ show_nat (unat generation) @ '' for ''
                 @ public_key_to_hex N key @ '' panicked during provider invocation'')))
          else Some (Running generation u))"

definition is_current :: "public_key \<Rightarrow> u64 \<Rightarrow> 's session \<Rightarrow> bool" where
  "is_current key generation s \<longleftrightarrow> (case bt_get (ses_signers s) key of None \<Rightarrow> False | Some a \<Rightarrow> at_generation a = generation)"

subsection \<open>Runs\<close>

datatype 's session_op =
    AddAccount public_key
  | SelectAccount public_key
  | ClearAccount
  | RemoveAccount public_key
  | AddSigner public_key 's
  | ReplaceSigner public_key 's
  | RemoveSigner public_key

fun session_perform :: "'s session_op \<Rightarrow> 's session \<Rightarrow> 's session" where
  "session_perform (AddAccount key) s = snd (add_account key s)"
| "session_perform (SelectAccount key) s = snd (select_account key s)"
| "session_perform ClearAccount s = snd (clear_current_account s)"
| "session_perform (RemoveAccount key) s = snd (remove_account key s)"
| "session_perform (AddSigner key signer) s = snd (add_signer key signer s)"
| "session_perform (ReplaceSigner key signer) s = snd (replace_signer key signer s)"
| "session_perform (RemoveSigner key) s = snd (remove_signer key s)"

inductive session_reach :: "'s session \<Rightarrow> bool" where
  session_start: "session_new signers = Inr s \<Longrightarrow> session_reach s"
| session_next: "session_reach s \<Longrightarrow> session_reach (session_perform op s)"


subsection \<open>The invariant\<close>

text \<open>
  At most the capacity of accounts is retained; every attached key and the current account is a
  retained account; generations are distinct and, like the revision of the selection, not newer
  than the session revision, which is what the change signal holds.
\<close>

definition session_inv :: "'s session \<Rightarrow> bool" where
  "session_inv s \<longleftrightarrow> bs_wf (ses_accounts s) \<and> length (ses_accounts s) \<le> ACCOUNT_CAPACITY
     \<and> bt_wf (ses_signers s) \<and> set (bt_keys (ses_signers s)) \<subseteq> set (ses_accounts s)
     \<and> (\<forall>key. ses_current_account s = Some key \<longrightarrow> key \<in> set (ses_accounts s))
     \<and> ses_current_account_revision s \<le> ses_revision s \<and> ses_signal s = ses_revision s
     \<and> (\<forall>key a. bt_get (ses_signers s) key = Some a \<longrightarrow> at_generation a \<le> ses_revision s)
     \<and> (\<forall>k l a b. bt_get (ses_signers s) k = Some a \<longrightarrow> bt_get (ses_signers s) l = Some b \<longrightarrow>
          at_generation a = at_generation b \<longrightarrow> k = l)"

lemma session_next_revision_greater: "session_next_revision r = Inr r' \<Longrightarrow> r < r'"
  by (auto simp: session_next_revision_def ok_or_def split: option.splits dest: checked_add_u64_one_greater)

lemma length_bs_insert: "length (bs_insert x s) = (if x \<in> set s then length s else Suc (length s))" if "bs_wf s"
proof -
  have "length (bs_insert x s) = card (set (bs_insert x s))" "length s = card (set s)"
    using that bs_wf_distinct bs_wf_insert distinct_card by metis+
  then show ?thesis by (simp add: insert_absorb card_insert_if)
qed

text \<open>What a commit of a newer revision needs.\<close>

lemma session_inv_commit:
  assumes "session_inv s" "session_next_revision (ses_revision s) = Inr r"
    and "bs_wf (ses_accounts s')" "length (ses_accounts s') \<le> ACCOUNT_CAPACITY" "bt_wf (ses_signers s')"
    and "set (bt_keys (ses_signers s')) \<subseteq> set (ses_accounts s')"
    and "\<And>key. ses_current_account s' = Some key \<Longrightarrow> key \<in> set (ses_accounts s')"
    and "ses_current_account_revision s' \<in> {r, ses_current_account_revision s}"
    and "\<And>key a. bt_get (ses_signers s') key = Some a \<Longrightarrow> (key, a) \<noteq> (key_new, new) \<Longrightarrow> bt_get (ses_signers s) key = Some a"
    and "at_generation new = r"
  shows "session_inv (commit_revision r s')"
proof -
  from session_next_revision_greater [OF assms(2)] have r: "ses_revision s < r" .
  have old: "at_generation a \<le> ses_revision s" if "bt_get (ses_signers s) key = Some a" for key a
    using assms(1) that by (auto simp: session_inv_def)
  have inj: "k = l" if "bt_get (ses_signers s) k = Some a" "bt_get (ses_signers s) l = Some b" "at_generation a = at_generation b" for k l a b
    using assms(1) that unfolding session_inv_def by blast
  have gens: "at_generation a \<le> r" if "bt_get (ses_signers s') key = Some a" for key a
    using assms(9) [OF that] assms(10) old r by fastforce
  have "k = l" if k: "bt_get (ses_signers s') k = Some a" and l: "bt_get (ses_signers s') l = Some b"
    and eq: "at_generation a = at_generation b" for k l a b
  proof -
    have "(k, a) = (key_new, new) \<or> at_generation a \<le> ses_revision s" "(l, b) = (key_new, new) \<or> at_generation b \<le> ses_revision s"
      using assms(9) [OF k] assms(9) [OF l] old by blast+
    then show ?thesis
      using eq r assms(9) [OF k] assms(9) [OF l] assms(10) inj by (metis Pair_inject leD)
  qed
  moreover have "ses_current_account_revision s' \<le> r"
    using assms(1,8) r by (auto simp: session_inv_def)
  ultimately show ?thesis
    using assms(3-7) gens by (auto simp: session_inv_def commit_revision_def)
qed


definition session_built :: "public_key btree_set \<Rightarrow> (public_key, 's attachment) btree_map \<Rightarrow> u64 \<Rightarrow> 's session" where
  "session_built accounts indexed revision =
     \<lparr>ses_accounts = accounts, ses_signers = indexed, ses_current_account = None, ses_current_account_revision = 0,
      ses_revision = revision, ses_signal = revision\<rparr>"

lemma attach_inv:
  assumes "session_inv s" "session_next_revision (ses_revision s) = Inr r"
    and "key \<in> set (ses_accounts s) \<or> length (ses_accounts s) \<noteq> ACCOUNT_CAPACITY"
  shows "session_inv (commit_revision r (attach key signer r (s\<lparr>ses_accounts := bs_insert key (ses_accounts s)\<rparr>)))"
  by (rule session_inv_commit [OF assms(1,2), where key_new = key and new = "\<lparr>at_generation = r, at_signer = signer\<rparr>"])
    (use assms in \<open>auto simp: attach_def session_inv_def bs_wf_insert bt_wf_insert length_bs_insert set_bt_keys split: if_splits\<close>)

text \<open>Building a session attaches the given signers one after another.\<close>

lemma session_new_loop_inv:
  "session_new_loop accounts indexed revision signers = Inr (accounts', indexed', revision') \<Longrightarrow>
     session_inv (session_built accounts indexed revision) \<Longrightarrow> session_inv (session_built accounts' indexed' revision')"
proof (induction accounts indexed revision signers rule: session_new_loop.induct)
  case (2 accounts indexed revision key signer rest)
  from "2.prems"(1) obtain r where r: "session_next_revision revision = Inr r" "length accounts \<noteq> ACCOUNT_CAPACITY" "bt_get indexed key = None"
    by (auto split: if_splits sum.splits)
  let ?s = "session_built accounts indexed revision" and ?a = "\<lparr>at_generation = r, at_signer = signer\<rparr>"
  have "session_inv (commit_revision r (attach key signer r (?s\<lparr>ses_accounts := bs_insert key (ses_accounts ?s)\<rparr>)))"
    by (rule attach_inv) (use "2.prems"(2) r in \<open>simp_all add: session_built_def\<close>)
  also have "commit_revision r (attach key signer r (?s\<lparr>ses_accounts := bs_insert key (ses_accounts ?s)\<rparr>)) =
      session_built (bs_insert key accounts) (bt_insert key ?a indexed) r"
    by (simp add: session_built_def commit_revision_def attach_def)
  finally show ?case using "2.IH" [OF _ _ r(1)] "2.prems"(1) r by simp
qed simp

lemma session_new_inv: "session_new signers = Inr s \<Longrightarrow> session_inv s"
proof -
  assume new: "session_new signers = Inr s"
  have "session_inv (session_built [] [] 0)" by (simp add: session_inv_def session_built_def bt_keys_def)
  with new show ?thesis using session_new_loop_inv [of "[]" "[]" 0 signers]
    by (auto simp: session_new_def session_built_def split: sum.splits)
qed

lemma session_inv_perform:
  assumes "session_inv s"
  shows "session_inv (session_perform op s)"
proof -
  note commit = session_inv_commit [OF assms, where key_new = 0 and new = "\<lparr>at_generation = r, at_signer = undefined\<rparr>" for r]
  show ?thesis
  proof (cases op)
    case (AddAccount key)
    show ?thesis using assms
      by (auto simp: AddAccount add_account_def try_in_def split: sum.split intro!: commit)
         (auto simp: session_inv_def bs_wf_insert length_bs_insert)
  next
    case (SelectAccount key)
    show ?thesis using assms
      by (auto simp: SelectAccount select_account_def try_in_def split: sum.split intro!: commit) (auto simp: session_inv_def)
  next
    case ClearAccount
    show ?thesis using assms
      by (auto simp: ClearAccount clear_current_account_def try_in_def split: sum.split intro!: commit) (auto simp: session_inv_def)
  next
    case (RemoveAccount key)
    show ?thesis using assms
      by (auto simp: RemoveAccount remove_account_def try_in_def Let_def split: sum.split intro!: commit)
         (auto simp: session_inv_def bs_wf_filter bt_wf_remove bs_diff_def set_bt_keys intro: le_trans [OF length_filter_le] split: if_splits)
  next
    case (AddSigner key signer)
    show ?thesis using assms
      by (auto simp: AddSigner add_signer_def try_in_def attach_inv split: sum.split)
  next
    case (ReplaceSigner key signer)
    have held: "key \<in> set (ses_accounts s)" "s\<lparr>ses_accounts := bs_insert key (ses_accounts s)\<rparr> = s" if "bt_get (ses_signers s) key \<noteq> None"
    proof -
      show key: "key \<in> set (ses_accounts s)" using assms that by (auto simp: session_inv_def set_bt_keys)
      then have "bs_insert key (ses_accounts s) = ses_accounts s"
        using assms by (intro bs_eqI) (auto simp: session_inv_def bs_wf_insert)
      then show "s\<lparr>ses_accounts := bs_insert key (ses_accounts s)\<rparr> = s" by simp
    qed
    show ?thesis using assms attach_inv [OF assms, of _ key signer] held
      by (auto simp: ReplaceSigner replace_signer_def try_in_def split: sum.split)
  next
    case (RemoveSigner key)
    show ?thesis using assms
      by (auto simp: RemoveSigner remove_signer_def try_in_def split: sum.split intro!: commit)
         (auto simp: session_inv_def bt_wf_remove set_bt_keys split: if_splits)
  qed
qed

lemma session_reach_inv: "session_reach s \<Longrightarrow> session_inv s"
  by (induction rule: session_reach.induct) (simp_all add: session_new_inv session_inv_perform)


subsection \<open>What the session promises its clients\<close>

text \<open>
  An owner that hands out generations: its clients compare the generation they worked for with the
  current one. A step may retire a generation, and what it makes current is newer than everything
  issued before.
\<close>

locale generation_source =
  fixes perform :: "'op \<Rightarrow> 's \<Rightarrow> 's"
    and current :: "'k \<Rightarrow> u64 \<Rightarrow> 's \<Rightarrow> bool"
    and issued :: "'s \<Rightarrow> u64"
    and reach :: "'s \<Rightarrow> bool"
  assumes reach_step: "reach s \<Longrightarrow> reach (perform op s)"
    and issued_mono: "reach s \<Longrightarrow> issued s \<le> issued (perform op s)"
    and fresh: "reach s \<Longrightarrow> current k g (perform op s) \<Longrightarrow> current k g s \<or> issued s < g"
begin

lemma run_reach: "reach s \<Longrightarrow> reach (fold perform ops s)"
  by (induction ops arbitrary: s) (simp_all add: reach_step)

lemma retired_forever:
  "reach s \<Longrightarrow> g \<le> issued s \<Longrightarrow> \<not> current k g s \<Longrightarrow> \<not> current k g (fold perform ops s)"
proof (induction ops arbitrary: s)
  case (Cons op ops)
  have "\<not> current k g (perform op s)" using Cons.prems fresh by fastforce
  moreover have "g \<le> issued (perform op s)" using Cons.prems issued_mono order_trans by blast
  ultimately show ?case using Cons.IH [of "perform op s"] Cons.prems(1) reach_step by simp
qed simp

end

lemma session_next_current:
  assumes "session_reach s" "is_current k g (session_perform op s)"
  shows "is_current k g s \<or> ses_revision s < g"
  using assms(2)
  by (cases op)
    (auto simp: is_current_def add_account_def select_account_def clear_current_account_def remove_account_def add_signer_def
       replace_signer_def remove_signer_def attach_def commit_revision_def try_in_def Let_def
       split: if_splits sum.splits option.splits dest: session_next_revision_greater)

lemma session_perform_effect:
  "session_perform op s = s \<or> (\<exists>r. session_next_revision (ses_revision s) = Inr r \<and> ses_revision (session_perform op s) = r
     \<and> (current_account_snapshot (session_perform op s) = current_account_snapshot s \<or> ses_current_account_revision (session_perform op s) = r))"
  by (cases op)
    (auto simp: add_account_def select_account_def clear_current_account_def remove_account_def add_signer_def
       replace_signer_def remove_signer_def attach_def commit_revision_def try_in_def Let_def current_account_snapshot_def
       split: sum.split)

lemma session_perform_cases:
  obtains "session_perform op s = s"
  | r where "session_next_revision (ses_revision s) = Inr r" "ses_revision (session_perform op s) = r"
      "current_account_snapshot (session_perform op s) = current_account_snapshot s \<or> ses_current_account_revision (session_perform op s) = r"
  using session_perform_effect [of op s] by blast

lemma session_revision_mono: "ses_revision s \<le> ses_revision (session_perform op s)"
  by (rule session_perform_cases [of op s]) (auto dest: session_next_revision_greater)

interpretation gens: generation_source session_perform is_current ses_revision session_reach
  by unfold_locales (auto intro: session_next session_revision_mono dest: session_next_current)

text \<open>
  (C30) A signer attachment that was replaced or removed never becomes current again, whatever follows:
  a completion that was requested from it stays recognizable for ever.
\<close>

theorem retired_attachment_never_returns:
  assumes "session_reach s" "generation \<le> ses_revision s" "\<not> is_current key generation s"
  shows "\<not> is_current key generation (fold session_perform ops s)"
  using assms by (rule gens.retired_forever)

text \<open>
  (C31) Every reachable session keeps the capacity, attaches signers only for retained accounts, selects
  only a retained account, has distinct generations and signals its own revision.
\<close>

theorem session_well_formed:
  assumes "session_reach s"
  shows "length (ses_accounts s) \<le> ACCOUNT_CAPACITY \<and> set (bt_keys (ses_signers s)) \<subseteq> set (ses_accounts s)
     \<and> (\<forall>key. ses_current_account s = Some key \<longrightarrow> key \<in> set (ses_accounts s))
     \<and> (\<forall>k l g. is_current k g s \<longrightarrow> is_current l g s \<longrightarrow> k = l) \<and> ses_signal s = ses_revision s"
proof -
  from session_reach_inv [OF assms] have inv: "session_inv s" .
  then have "k = l" if "is_current k g s" "is_current l g s" for k l g
    using that unfolding session_inv_def by (fastforce simp: is_current_def split: option.splits)
  with inv show ?thesis by (auto simp: session_inv_def)
qed

lemma snapshot_revision:
  assumes "session_reach s"
  shows "current_account_snapshot (fold session_perform ops s) = current_account_snapshot s
     \<or> ses_revision s < ses_current_account_revision (fold session_perform ops s)"
proof (induction ops rule: rev_induct)
  case (snoc op ops)
  let ?t = "fold session_perform ops s"
  have "ses_revision s \<le> ses_revision ?t" by (induction ops arbitrary: s) (auto intro: order_trans session_revision_mono)
  then have "current_account_snapshot (session_perform op ?t) = current_account_snapshot ?t
      \<or> ses_revision s < ses_current_account_revision (session_perform op ?t)"
    using session_perform_effect [of op ?t] by (auto dest: session_next_revision_greater)
  with snoc show ?case by (auto simp: current_account_snapshot_def)
qed simp

text \<open>
  The selection snapshot cannot be fooled: when two snapshots agree, every snapshot between them
  agrees too, so an action run under \<open>if_current_account\<close> runs in the selection it was prepared for.
\<close>

theorem selection_snapshot_exact:
  assumes "session_reach s"
    and "if_current_account (current_account_snapshot s) action (fold session_perform (before @ after) s) = Some r"
  shows "current_account_snapshot (fold session_perform before s) = current_account_snapshot s"
proof (rule ccontr)
  let ?mid = "fold session_perform before s"
  assume "current_account_snapshot ?mid \<noteq> current_account_snapshot s"
  with snapshot_revision [OF assms(1), of before] have later: "ses_revision s < ses_current_account_revision ?mid" by simp
  have same: "current_account_snapshot (fold session_perform after ?mid) = current_account_snapshot s"
    using assms(2) by (simp add: if_current_account_def split: if_splits)
  have reach: "session_reach ?mid" using assms(1) by (rule gens.run_reach)
  have "ses_current_account_revision s \<le> ses_revision s" "ses_current_account_revision ?mid \<le> ses_revision ?mid"
    using session_reach_inv [OF assms(1)] session_reach_inv [OF reach] by (simp_all add: session_inv_def)
  with snapshot_revision [OF reach, of after] same later show False by (auto simp: current_account_snapshot_def)
qed

subsection \<open>A concrete session\<close>

definition sample_session :: "nat session" where
  "sample_session = session_perform (AddSigner 7 1) (session_built [] [] 0)"

lemma sample_session_reach: "session_reach sample_session"
proof -
  have "session_new ([] :: (public_key \<times> nat) list) = Inr (session_built [] [] 0)" by code_simp
  then show ?thesis unfolding sample_session_def by (intro session_next session_start)
qed

theorem retired_attachment_never_returns_witness:
  "\<not> is_current 7 1 (fold session_perform [AddSigner 7 5, AddAccount 9] (session_perform (RemoveSigner 7) sample_session))"
  by (rule retired_attachment_never_returns [OF session_next [OF sample_session_reach]]) code_simp+

theorem session_well_formed_witness:
  "length (ses_accounts sample_session) \<le> ACCOUNT_CAPACITY \<and> set (bt_keys (ses_signers sample_session)) \<subseteq> set (ses_accounts sample_session)
     \<and> ses_signal sample_session = ses_revision sample_session"
  using session_well_formed [OF sample_session_reach] by blast

theorem selection_snapshot_exact_witness:
  "current_account_snapshot (fold session_perform [AddAccount 9] sample_session) = current_account_snapshot sample_session"
proof -
  have "if_current_account (current_account_snapshot sample_session) () (fold session_perform ([AddAccount 9] @ [RemoveSigner 7]) sample_session) = Some ()"
    by code_simp
  from selection_snapshot_exact [OF sample_session_reach this] show ?thesis .
qed

end
