(* ===== verification/Publication_Signing.thy ===== *)
theory Publication_Signing
  imports Session Publication_Edits
begin

section \<open>Signing a write (\<open>fava-publication/src/sign.rs\<close>)\<close>

text \<open>
  The owner asks the session for the attachment of the author, lets the store authorize the exact
  revision, invokes the signer, and admits the completion. The session and the store are separate
  objects: between two calls of an operation either may move. A definition that asks the session
  twice takes the session of both moments, and the store of an operation is the one its store call
  meets. \<open>availability\<close> and \<open>panics\<close> are the provider's answers.
\<close>

definition STALE_COMPLETION_CAPACITY :: nat where "STALE_COMPLETION_CAPACITY = 256"

type_synonym stale_completion = "receipt_id \<times> write_id \<times> revision_id \<times> event_id \<times> string"

record signing_owner =
  sw_store :: memory_write_store
  sw_stale :: "stale_completion list"

definition stale_signer_completions :: "'w signing_owner_scheme \<Rightarrow> stale_completion list" where
  "stale_signer_completions sw = sw_stale sw"

definition reject_stale_completion ::
  "receipt_id \<Rightarrow> write_id \<Rightarrow> revision_id \<Rightarrow> event_id \<Rightarrow> string \<Rightarrow> 'w signing_owner_scheme \<Rightarrow> 'w signing_owner_scheme" where
  "reject_stale_completion i w g ev reason sw =
     sw\<lparr>sw_stale := (if length (sw_stale sw) = STALE_COMPLETION_CAPACITY then tl (sw_stale sw) else sw_stale sw) @ [(i, w, g, ev, reason)]\<rparr>"

definition signer_generation :: "('s \<Rightarrow> signer_availability) \<Rightarrow> 's session \<Rightarrow> receipt \<Rightarrow> u64 option" where
  "signer_generation availability s r =
     (case lw_event (rc_current r) of
        Signed _ \<Rightarrow> None
      | Unsigned u \<Rightarrow> map_option fst (session_signer availability (ue_pubkey u) s))"

text \<open>The store calls that keep their refusal as stale evidence.\<close>

definition retryable_or_stale ::
  "nostr_lib \<Rightarrow> receipt \<Rightarrow> string \<Rightarrow> (string \<Rightarrow> string) \<Rightarrow> 'w signing_owner_scheme \<Rightarrow> 'w signing_owner_scheme" where
  "retryable_or_stale N r reason evidence sw =
     (let w = rc_write_id r; i = rc_receipt_id r; g = pe_revision_id (lw_publication (rc_current r)); ev = lw_id (rc_current r) in
      case record_signer_retryable N w i g ev reason (sw_store sw) of
        (Inr _, m) \<Rightarrow> sw\<lparr>sw_store := m\<rparr>
      | (Inl e, m) \<Rightarrow> reject_stale_completion i w g ev (evidence (store_error_text e)) (sw\<lparr>sw_store := m\<rparr>))"

text \<open>
  The generation the owner follows from now on, the future it spawned with the receipt that was
  authorized for it, and the next state.
\<close>

definition start_signing ::
  "nostr_lib \<Rightarrow> ('s \<Rightarrow> signer_availability) \<Rightarrow> ('s \<Rightarrow> bool) \<Rightarrow> 's session \<Rightarrow> 's session \<Rightarrow> receipt \<Rightarrow> 'w signing_owner_scheme
     \<Rightarrow> u64 option \<times> (receipt \<times> signing) option \<times> 'w signing_owner_scheme" where
  "start_signing N availability panics s s' r sw =
     (case lw_event (rc_current r) of
        Signed _ \<Rightarrow> (None, None, sw)
      | Unsigned u \<Rightarrow>
          (case session_signer availability (ue_pubkey u) s of
             None \<Rightarrow> (None, None, sw)
           | Some (generation, av) \<Rightarrow>
               if av \<noteq> Available then (Some generation, None, sw)
               else
                 (case authorize_signing N (rc_write_id r) (rc_receipt_id r) (pe_revision_id (lw_publication (rc_current r)))
                         (lw_id (rc_current r)) (sw_store sw) of
                    (Inl _, m) \<Rightarrow> (None, None, sw\<lparr>sw_store := m\<rparr>)
                  | (Inr authorized, m) \<Rightarrow>
                      let sw = sw\<lparr>sw_store := m\<rparr> in
                      if signature_of authorized \<noteq> SigAuthorized then (None, None, sw)
                      else case invoke_signer N panics (ue_pubkey u) generation u s' of
                        Some future \<Rightarrow> (Some generation, Some (authorized, future), sw)
                      | None \<Rightarrow>
                          (Some generation, None,
                           retryable_or_stale N authorized
                             (''authorized signer attachment generation '' @ show_nat (unat generation) @ '' for ''
                                @ public_key_to_hex N (ue_pubkey u)
                                @ '' was retired before provider invocation; retry is permitted'')
                             (\<lambda>e. ''retired pre-invocation transition was rejected: '' @ e) sw))))"

definition signing_operation_text :: "nostr_lib \<Rightarrow> receipt \<Rightarrow> string \<Rightarrow> string" where
  "signing_operation_text N r generation =
     ''authorized signer operation for write '' @ show_nat (unat (rc_write_id r)) @ '' receipt '' @ show_nat (unat (rc_receipt_id r))
     @ '' revision '' @ show_nat (unat (pe_revision_id (lw_publication (rc_current r))))
     @ '' event '' @ event_id_to_hex N (lw_id (rc_current r)) @ '' attachment generation '' @ generation"

text \<open>The cancellation of the future itself is the owner's: it sends \<open>true\<close> on its channel.\<close>

definition cancel_authorized_signing :: "nostr_lib \<Rightarrow> receipt \<Rightarrow> u64 option \<Rightarrow> string \<Rightarrow> 'w signing_owner_scheme \<Rightarrow> 'w signing_owner_scheme" where
  "cancel_authorized_signing N r generation cause sw =
     (if signature_of r = SigAuthorized
      then retryable_or_stale N r
        (signing_operation_text N r (case generation of None \<Rightarrow> ''unknown'' | Some g \<Rightarrow> show_nat (unat g))
           @ '' cancelled before effect because '' @ cause @ ''; retry is permitted'')
        (\<lambda>e. ''authorized cancellation transition was rejected: '' @ e) sw
      else sw)"

definition refuse_signing :: "nostr_lib \<Rightarrow> receipt \<Rightarrow> string \<Rightarrow> 'w signing_owner_scheme \<Rightarrow> 'w signing_owner_scheme" where
  "refuse_signing N r refusal sw =
     (let w = rc_write_id r; i = rc_receipt_id r; g = pe_revision_id (lw_publication (rc_current r)); ev = lw_id (rc_current r) in
      case record_signer_refusal N w i g ev refusal (sw_store sw) of
        (Inr _, m) \<Rightarrow> sw\<lparr>sw_store := m\<rparr>
      | (Inl e, m) \<Rightarrow> reject_stale_completion i w g ev
          (''signer completion rejected ('' @ refusal @ ''); evidence refused ('' @ store_error_text e @ '')'') (sw\<lparr>sw_store := m\<rparr>))"

definition finish_signing ::
  "nostr_lib \<Rightarrow> 's session \<Rightarrow> receipt \<Rightarrow> public_key \<Rightarrow> u64 \<Rightarrow> signer_error + event \<Rightarrow> 'w signing_owner_scheme \<Rightarrow> 'w signing_owner_scheme" where
  "finish_signing N s r key generation completion sw =
     (let w = rc_write_id r; i = rc_receipt_id r; g = pe_revision_id (lw_publication (rc_current r)); ev = lw_id (rc_current r) in
      if \<not> is_current key generation s
      then reject_stale_completion i w g ev
        (''signer attachment generation '' @ show_nat (unat generation) @ '' for '' @ public_key_to_hex N key
           @ '' was retired before its completion arrived'') sw
      else case completion of
        Inr e \<Rightarrow>
          (case install_signed N w i g ev e (sw_store sw) of
             (Inr _, m) \<Rightarrow> sw\<lparr>sw_store := m\<rparr>
           | (Inl err, m) \<Rightarrow> refuse_signing N r (store_error_text err) (sw\<lparr>sw_store := m\<rparr>))
      | Inl SignerCancelled \<Rightarrow>
          sw\<lparr>sw_store := snd (record_signer_retryable N w i g ev
            (signing_operation_text N r (show_nat (unat generation)) @ '' cancelled before effect; retry is permitted'') (sw_store sw))\<rparr>
      | Inl (SignerUnavailable reason) \<Rightarrow>
          sw\<lparr>sw_store := snd (record_signer_retryable N w i g ev
            (''signer unavailable before effect: '' @ reason @ ''; retry is permitted'') (sw_store sw))\<rparr>
      | Inl err \<Rightarrow> refuse_signing N r (signer_error_text err) sw)"

subsection \<open>The evidence is bounded\<close>

lemma reject_stale_store [simp]: "sw_store (reject_stale_completion i w g ev reason sw) = sw_store sw"
  by (simp add: reject_stale_completion_def)

lemma reject_stale_bound:
  "length (sw_stale sw) \<le> STALE_COMPLETION_CAPACITY \<Longrightarrow> length (sw_stale (reject_stale_completion i w g ev reason sw)) \<le> STALE_COMPLETION_CAPACITY"
  by (auto simp: reject_stale_completion_def STALE_COMPLETION_CAPACITY_def)


lemma retryable_or_stale_bound:
  "length (sw_stale sw) \<le> STALE_COMPLETION_CAPACITY \<Longrightarrow> length (sw_stale (retryable_or_stale N r reason evidence sw)) \<le> STALE_COMPLETION_CAPACITY"
  by (auto simp: retryable_or_stale_def Let_def reject_stale_bound split: sum.split prod.split)

lemma refuse_signing_bound:
  "length (sw_stale sw) \<le> STALE_COMPLETION_CAPACITY \<Longrightarrow> length (sw_stale (refuse_signing N r refusal sw)) \<le> STALE_COMPLETION_CAPACITY"
  by (auto simp: refuse_signing_def Let_def reject_stale_bound split: sum.split prod.split)

text \<open>The three operations keep the bound of the evidence.\<close>

lemma stale_evidence_bounded:
  assumes "length (sw_stale sw) \<le> STALE_COMPLETION_CAPACITY"
  shows "length (sw_stale (finish_signing N s r key generation completion sw)) \<le> STALE_COMPLETION_CAPACITY"
    "length (sw_stale (cancel_authorized_signing N r g cause sw)) \<le> STALE_COMPLETION_CAPACITY"
    "length (sw_stale (snd (snd (start_signing N availability panics s1 s2 r sw)))) \<le> STALE_COMPLETION_CAPACITY"
  using assms
  by (auto simp: finish_signing_def cancel_authorized_signing_def start_signing_def Let_def reject_stale_bound refuse_signing_bound
      retryable_or_stale_bound split: sum.split prod.split signer_error.split event_value.split option.split)

subsection \<open>Where signatures come from\<close>

definition signed_as :: "memory_write_store \<Rightarrow> receipt_id \<Rightarrow> event \<Rightarrow> bool" where
  "signed_as m j e \<longleftrightarrow> (\<exists>r. store_receipt j m = Some r \<and> lw_event (rc_current r) = Signed e)"

definition no_new_signature :: "memory_write_store \<Rightarrow> 'a store_step \<Rightarrow> bool" where
  "no_new_signature m x \<longleftrightarrow> (\<forall>j e. signed_as (snd x) j e \<longrightarrow> signed_as m j e)"

lemma no_new_signature_rules:
  "no_new_signature m (res, m)"
  "(\<And>v. x = Inr v \<Longrightarrow> no_new_signature m (f v)) \<Longrightarrow> no_new_signature m (try_in m x f)"
  "(c \<Longrightarrow> no_new_signature m a) \<Longrightarrow> (\<not> c \<Longrightarrow> no_new_signature m b) \<Longrightarrow> no_new_signature m (if c then a else b)"
  by (simp_all add: no_new_signature_def) (cases x, simp_all)

lemma no_new_signature_commit:
  assumes "bt_get (ws_writes (ms_state m)) i = Some r" "lw_event (rc_current r') = lw_event (rc_current r)"
  shows "no_new_signature m (commit_receipt i r' n m)"
  using assms
  by (auto simp: no_new_signature_def signed_as_def store_receipt_def commit_receipt_def Let_def publish_receipt_def publish_receipt_only_def
      split: if_splits)

lemma route_if_event: "route_if N plan r = Inr r' \<Longrightarrow> lw_event (rc_current r') = lw_event (rc_current r)"
  using route_if_frame by (fastforce simp: route_frame_def)

lemma promote_unsigned: "no_new_signature m (promote_authorized_successor N i m)"
  by (auto simp: promote_authorized_successor_def Let_def no_new_signature_def signed_as_def store_receipt_def publish_receipt_def
      publish_receipt_only_def try_in_def ok_or_def successor_receipt_def split: sum.splits option.splits if_splits prod.splits
      dest!: route_if_event local_event_Inr)

lemma retryable_unsigned: "no_new_signature m (record_signer_retryable N w i g ev reason m)"
  unfolding record_signer_retryable_def Let_def
  by (intro no_new_signature_rules promote_unsigned no_new_signature_commit) (auto dest: current_receipt_Inr simp: set_signature_def)

lemma refusal_unsigned: "no_new_signature m (record_signer_refusal N w i g ev reason m)"
  unfolding record_signer_refusal_def Let_def
  by (intro no_new_signature_rules promote_unsigned no_new_signature_commit) (auto dest: current_receipt_Inr simp: set_signature_def)


lemma install_signed_effect:
  assumes "install_signed N w i g ev e m = (x, m')" "signed_as m' j e'" "\<not> signed_as m j e'"
  shows "x = Inr (the (store_receipt j m')) \<and> j = i \<and> e' = e \<and> event_verify N e = Inr ()
     \<and> (\<exists>r u. store_receipt j m = Some r \<and> rc_write_id r = w \<and> revision_of r = g \<and> lw_id (rc_current r) = ev
          \<and> lw_event (rc_current r) = Unsigned u \<and> unsigned_view_eq u e \<and> signature_of r \<in> {SigAuthorized, SigSigned})"
proof -
  let ?st = "ms_state m"
  have promoted: "signed_as m j e'" if "promote_authorized_successor N i m = (x, m')"
    using promote_unsigned [of m N i] assms(2) that by (auto simp: no_new_signature_def)
  have ne: "m' \<noteq> m" using assms(2,3) by auto
  obtain r where r: "refusal_of (event_verify N e) = Inr ()" "current_receipt w i g ev ?st = Inr r" "check_signature N r e = Inr False"
    "signature_of r \<in> {SigAuthorized, SigSigned}"
    "\<exists>n. commit_receipt i (set_signature SigSigned (r\<lparr>rc_current := (rc_current r)\<lparr>lw_event := Signed e\<rparr>\<rparr>)) n m = (x, m')"
    using assms(1) ne promoted assms(3)
    unfolding install_signed_def Let_def by (auto simp: try_in_def require_def split: sum.splits if_splits)
  from r(2) have cur: "bt_get (ws_writes ?st) i = Some r" "rc_write_id r = w" "revision_of r = g" "lw_id (rc_current r) = ev"
    by (auto simp: current_receipt_def validate_current_revision_def revision_of_def split: option.splits sum.splits if_splits)
  from r(3) obtain u where u: "lw_event (rc_current r) = Unsigned u" "unsigned_view_eq u e"
    by (auto simp: check_signature_def split: event_value.splits if_splits)
  have v: "event_verify N e = Inr ()" using r(1) by (cases "event_verify N e") (simp_all add: refusal_of_def)
  from r(5) obtain n where m': "x = Inr (set_signature SigSigned (r\<lparr>rc_current := (rc_current r)\<lparr>lw_event := Signed e\<rparr>\<rparr>))"
    "m' = snd (commit_receipt i (set_signature SigSigned (r\<lparr>rc_current := (rc_current r)\<lparr>lw_event := Signed e\<rparr>\<rparr>)) n m)"
    by (auto simp: commit_receipt_def)
  have "j = i \<and> e' = e \<and> x = Inr (the (store_receipt j m'))"
    using assms(2,3) m' by (auto simp: signed_as_def store_receipt_def commit_receipt_def publish_receipt_def publish_receipt_only_def
        set_signature_def split: if_splits)
  with cur u v r(4) show ?thesis by (auto simp: store_receipt_def)
qed

text \<open>
  (C29) A signature enters the store only from the completion of the attachment that is current when the
  completion arrives: the event verifies, the receipt it is stored at is the authorized one, still
  at the authorized revision and event, and the signed event has the body that was authorized.
\<close>

theorem signature_only_from_current_signer:
  assumes "signed_as (sw_store (finish_signing N s r key generation completion sw)) j e" "\<not> signed_as (sw_store sw) j e"
  shows "is_current key generation s \<and> completion = Inr e \<and> event_verify N e = Inr () \<and> j = rc_receipt_id r
     \<and> (\<exists>r0 u. store_receipt j (sw_store sw) = Some r0 \<and> rc_write_id r0 = rc_write_id r \<and> revision_of r0 = revision_of r
          \<and> lw_id (rc_current r0) = lw_id (rc_current r) \<and> lw_event (rc_current r0) = Unsigned u \<and> unsigned_view_eq u e
          \<and> signature_of r0 \<in> {SigAuthorized, SigSigned})"
proof -
  let ?w = "rc_write_id r" and ?i = "rc_receipt_id r" and ?g = "pe_revision_id (lw_publication (rc_current r))" and ?ev = "lw_id (rc_current r)"
  have refused: "signed_as m j e" if "signed_as (sw_store (refuse_signing N r t (sw\<lparr>sw_store := m\<rparr>))) j e" for t m
    using that refusal_unsigned [of m N ?w ?i ?g ?ev t]
    by (auto simp: refuse_signing_def Let_def no_new_signature_def split: prod.splits sum.splits)
  have refused': "signed_as (sw_store sw) j e" if "signed_as (sw_store (refuse_signing N r t sw)) j e" for t
    using refused [of t "sw_store sw"] that by simp
  have retried: "\<not> signed_as (snd (record_signer_retryable N ?w ?i ?g ?ev t (sw_store sw))) j e" for t
    using retryable_unsigned [of "sw_store sw"] assms(2) by (auto simp: no_new_signature_def)
  obtain x m e' where i: "is_current key generation s" "completion = Inr e'" "install_signed N ?w ?i ?g ?ev e' (sw_store sw) = (x, m)" "signed_as m j e"
    using assms retried refused'
    by (auto simp: finish_signing_def Let_def split: if_splits sum.splits prod.splits signer_error.splits dest!: refused)
  from install_signed_effect [OF i(3,4) assms(2)] i(1,2) show ?thesis by (auto simp: revision_of_def)
qed

text \<open>
  The completion of an attachment that was replaced or removed changes nothing in the store: it is
  kept as evidence, newest last, within the bound.
\<close>

theorem retired_completion_only_evidence:
  assumes "session_reach s" "generation \<le> ses_revision s" "\<not> is_current key generation s"
    and "length (sw_stale sw) \<le> STALE_COMPLETION_CAPACITY"
    and "sw' = finish_signing N (fold session_perform ops s) r key generation completion sw"
  shows "sw_store sw' = sw_store sw \<and> length (stale_signer_completions sw') \<le> STALE_COMPLETION_CAPACITY
     \<and> (\<exists>kept reason. stale_signer_completions sw' = kept @ [(rc_receipt_id r, rc_write_id r, revision_of r, lw_id (rc_current r), reason)]
          \<and> (\<exists>dropped. stale_signer_completions sw = dropped @ kept))"
proof -
  have gone: "\<not> is_current key generation (fold session_perform ops s)" using assms(1-3) by (rule gens.retired_forever)
  have "\<exists>dropped. xs = dropped @ tl xs" for xs :: "stale_completion list" by (cases xs) auto
  moreover obtain reason where "sw' = reject_stale_completion (rc_receipt_id r) (rc_write_id r) (revision_of r) (lw_id (rc_current r)) reason sw"
    using gone by (simp add: assms(5) finish_signing_def Let_def revision_of_def)
  ultimately show ?thesis
    using reject_stale_bound [OF assms(4)] by (auto simp: reject_stale_completion_def stale_signer_completions_def)
qed

text \<open>
  A signer is invoked only after the store recorded the authorization of exactly the revision and
  event it is asked to sign, and only through the attachment that is current at the invocation.
\<close>

theorem signer_invoked_authorized:
  assumes "start_signing N availability panics s s' r sw = (g, Some (authorized, future), sw')"
  shows "store_receipt (rc_receipt_id r) (sw_store sw') = Some authorized \<and> signature_of authorized = SigAuthorized
     \<and> \<not> receipt_is_terminal authorized \<and> rc_write_id authorized = rc_write_id r \<and> revision_of authorized = revision_of r
     \<and> lw_id (rc_current authorized) = lw_id (rc_current r)
     \<and> (\<exists>u generation. lw_event (rc_current r) = Unsigned u \<and> g = Some generation \<and> is_current (ue_pubkey u) generation s'
          \<and> (future = Running generation u \<or> (\<exists>reason. future = Ready (SignerUnavailable reason))))"
proof -
  from assms obtain u generation m where u: "lw_event (rc_current r) = Unsigned u" "g = Some generation" "signature_of authorized = SigAuthorized"
    and auth: "authorize_signing N (rc_write_id r) (rc_receipt_id r) (pe_revision_id (lw_publication (rc_current r)))
      (lw_id (rc_current r)) (sw_store sw) = (Inr authorized, m)"
    and inv: "invoke_signer N panics (ue_pubkey u) generation u s' = Some future" and sw': "sw' = sw\<lparr>sw_store := m\<rparr>"
    by (auto simp: start_signing_def Let_def split: event_value.splits option.splits prod.splits sum.splits if_splits)
  from inv have "is_current (ue_pubkey u) generation s'" "future = Running generation u \<or> (\<exists>reason. future = Ready (SignerUnavailable reason))"
    by (auto simp: invoke_signer_def is_current_def split: option.splits if_splits)
  moreover have "store_receipt (rc_receipt_id r) m = Some authorized \<and> \<not> receipt_is_terminal authorized \<and> rc_write_id authorized = rc_write_id r
      \<and> revision_of authorized = revision_of r \<and> lw_id (rc_current authorized) = lw_id (rc_current r)"
    using auth unfolding authorize_signing_def Let_def
    by (auto simp: try_in_def current_receipt_def validate_current_revision_def store_receipt_def commit_receipt_def publish_receipt_def
        publish_receipt_only_def set_signature_def revision_of_def receipt_is_terminal_def split: sum.splits option.splits if_splits)
  ultimately show ?thesis using u sw' by auto
qed

text \<open>
  A signer that rejects with a reason longer than a receipt may hold leaves no trace in the store:
  the write keeps the signature state it had, authorized, and only the stale evidence tells of it.
\<close>

theorem oversized_rejection_strands_write:
  assumes "is_current key generation s" "length reason > MAX_RECEIPT_TEXT_BYTES"
  shows "sw_store (finish_signing N s r key generation (Inl (SignerRejected reason)) sw) = sw_store sw
     \<and> sw_store (finish_signing N s r key generation (Inl (SignerUnavailable reason)) sw) = sw_store sw"
proof -
  have "validate_receipt_text (t @ reason @ t') \<noteq> Inr ()" for t t' using assms(2) by (simp add: validate_receipt_text_def)
  then have "\<exists>e. validate_receipt_text (t @ reason @ t') = Inl e" for t t' by (metis (full_types) old.unit.exhaust sum.exhaust)
  then obtain e1 e2 where "validate_receipt_text (''signer rejected event: '' @ reason) = Inl e1"
    "validate_receipt_text (''signer unavailable before effect: '' @ reason @ ''; retry is permitted'') = Inl e2" by (metis append_Nil2)
  with assms(1) show ?thesis
    by (simp add: finish_signing_def refuse_signing_def Let_def record_signer_refusal_def record_signer_retryable_def)
qed


subsection \<open>A concrete write\<close>

definition signed_note :: event where "signed_note = sample_event 110 7 10 1 []"

definition waiting_write :: "nat \<Rightarrow> signing_owner" where "waiting_write k = \<lparr>sw_store = sample_at k, sw_stale = []\<rparr>"

definition note_receipt :: "nat \<Rightarrow> receipt" where "note_receipt k = the (store_receipt 1 (sample_at k))"

theorem signature_only_from_current_signer_witness:
  "is_current 7 1 sample_session \<and> event_verify sample_lib signed_note = Inr () \<and> rc_receipt_id (note_receipt 2) = 1"
proof -
  let ?sw = "finish_signing sample_lib sample_session (note_receipt 2) 7 1 (Inr signed_note) (waiting_write 2)"
  have "case store_receipt 1 (sw_store ?sw) of None \<Rightarrow> False | Some r \<Rightarrow> (case lw_event (rc_current r) of Signed e \<Rightarrow> e = signed_note | Unsigned _ \<Rightarrow> False)"
    by code_simp
  then have signed: "signed_as (sw_store ?sw) 1 signed_note" by (auto simp: signed_as_def split: option.splits event_value.splits)
  have "case store_receipt 1 (sw_store (waiting_write 2)) of None \<Rightarrow> False | Some r \<Rightarrow> (case lw_event (rc_current r) of Signed _ \<Rightarrow> False | Unsigned _ \<Rightarrow> True)" by code_simp
  then have "\<not> signed_as (sw_store (waiting_write 2)) 1 signed_note" by (auto simp: signed_as_def split: option.splits)
  from signature_only_from_current_signer [OF signed this] show ?thesis by simp
qed

theorem retired_completion_only_evidence_witness:
  "sw_store (finish_signing sample_lib (fold session_perform [AddSigner 7 5] (session_perform (RemoveSigner 7) sample_session))
     (note_receipt 2) 7 1 (Inr signed_note) (waiting_write 2)) = sample_at 2"
proof -
  have "1 \<le> ses_revision (session_perform (RemoveSigner 7) sample_session)" "\<not> is_current 7 1 (session_perform (RemoveSigner 7) sample_session)"
    by code_simp+
  from retired_completion_only_evidence [OF session_next [OF sample_session_reach] this _ refl, of "waiting_write 2" sample_lib "[AddSigner 7 5]" "note_receipt 2" "Inr signed_note"]
  show ?thesis by (simp add: waiting_write_def)
qed

theorem signer_invoked_authorized_witness:
  "\<exists>authorized. signature_of authorized = SigAuthorized \<and> store_receipt (rc_receipt_id (note_receipt 1))
     (sw_store (snd (snd (start_signing sample_lib (\<lambda>_. Available) (\<lambda>_. False) sample_session sample_session (note_receipt 1) (waiting_write 1)))))
       = Some authorized"
proof -
  let ?x = "start_signing sample_lib (\<lambda>_. Available) (\<lambda>_. False) sample_session sample_session (note_receipt 1) (waiting_write 1)"
  have "fst (snd ?x) \<noteq> None" by code_simp
  then obtain g authorized future sw' where "?x = (g, Some (authorized, future), sw')" by (cases ?x) auto
  from signer_invoked_authorized [OF this] this show ?thesis by auto
qed

theorem oversized_rejection_strands_write_witness:
  "sw_store (finish_signing sample_lib sample_session (note_receipt 2) 7 1 (Inl (SignerRejected (replicate 4097 CHR ''x''))) (waiting_write 2)) = sample_at 2"
proof -
  have current: "is_current 7 1 sample_session" by code_simp
  have long: "length (replicate 4097 CHR ''x'') > MAX_RECEIPT_TEXT_BYTES" by (simp add: MAX_RECEIPT_TEXT_BYTES_def)
  from oversized_rejection_strands_write [OF current long, of sample_lib "note_receipt 2" "waiting_write 2"] show ?thesis
    by (simp add: waiting_write_def)
qed

end
