(* ===== verification/Publication_Runs.thy ===== *)
theory Publication_Runs
  imports Publication_Signing Publication_Properties Delivery
begin

section \<open>The owner of one receipt (\<open>fava-publication/src/run.rs\<close>)\<close>

text \<open>
  One task per receipt: it opens the routers of the current revision (\<open>generation.rs\<close>), refreshes
  and reapplies the edits it follows (\<open>semantic_refresh.rs\<close>, \<open>recovery.rs\<close>), starts the signer and
  the destination lanes, and waits for whichever of its inputs moves. Other tasks work on the same
  store: \<open>others\<close> is what they did up to the next read of the store, and may set the
  cancellation. \<open>None\<close> as a result stands for a panic of the router chain, which ends the task.
  Reading the in-memory store does not fail, so the retry after a failed read is not reached. The
  routers are never asked again: \<open>next_route\<close> is a future that is never ready, and its arm with
  \<open>apply_route_change\<close> is dead.
\<close>

record world = signing_owner +
  wd_cancelled :: bool

type_synonym others = "world \<Rightarrow> world"

definition read_receipt :: "receipt_id \<Rightarrow> world \<Rightarrow> receipt option" where
  "read_receipt i w = (if wd_cancelled w then None else store_receipt i (sw_store w))"

subsection \<open>Semantic custody\<close>

definition record_activation_exhaustion :: "nostr_lib \<Rightarrow> receipt \<Rightarrow> world \<Rightarrow> world" where
  "record_activation_exhaustion N r w =
     (if is_Signed (lw_event (rc_current r)) then w
      else w\<lparr>sw_store := snd (record_signer_retryable N (rc_write_id r) (rc_receipt_id r)
          (pe_revision_id (lw_publication (rc_current r))) (lw_id (rc_current r))
          (''generation activation retry bound '' @ show_nat (DESTINATION_EVIDENCE_CAPACITY + 1) @ '' exhausted for write ''
             @ show_nat (unat (rc_write_id r)) @ '' receipt '' @ show_nat (unat (rc_receipt_id r)) @ '' revision ''
             @ show_nat (unat (pe_revision_id (lw_publication (rc_current r)))) @ '' event '' @ event_id_to_hex N (lw_id (rc_current r))
             @ ''; retry is permitted after a receipt or provider change'') (sw_store w))\<rparr>)"

fun refresh_semantic ::
  "others \<Rightarrow> nat \<Rightarrow> receipt \<Rightarrow> semantic_state \<Rightarrow> world \<Rightarrow> receipt option \<times> semantic_state \<times> world" where
  "refresh_semantic others 0 r st w = (None, st, w)"
| "refresh_semantic others (Suc n) r st w =
     (if wd_cancelled w then (None, st, w)
      else case semantic_custody (rc_receipt_id r) (pe_revision_id (lw_publication (rc_current r))) (sw_store w) of
        Inr (Some (edits, author, selected, failed)) \<Rightarrow>
          if edits = [] then (None, st, w)
          else
            let st = refresh_custody (pe_revision_id (lw_publication (rc_current r))) edits author selected failed st;
                w = others w
            in (case read_receipt (rc_receipt_id r) w of
                  None \<Rightarrow> (None, st, w)
                | Some current \<Rightarrow>
                    if current = r then (Some current, st, w)
                    else if receipt_is_terminal current then (None, st, w)
                    else refresh_semantic others n current st w)
      | Inr None \<Rightarrow> (None, st, w)
      | Inl _ \<Rightarrow>
          let w = others w in
          (case read_receipt (rc_receipt_id r) w of
             None \<Rightarrow> (None, st, w)
           | Some current \<Rightarrow>
               if receipt_is_terminal current then (None, st, w) else refresh_semantic others n current st w))"

fun initialize_semantic ::
  "publication \<Rightarrow> timestamp \<Rightarrow> others \<Rightarrow> nat \<Rightarrow> receipt \<Rightarrow> semantic_state \<Rightarrow> world
     \<Rightarrow> (receipt option \<times> semantic_state \<times> world) option" where
  "initialize_semantic pb now others 0 r st w = Some (None, st, record_activation_exhaustion (pb_nostr pb) r w)"
| "initialize_semantic pb now others (Suc n) r st w =
     (case refresh_semantic others (DESTINATION_EVIDENCE_CAPACITY + 1) r st w of
        (None, st, w) \<Rightarrow> Some (None, st, w)
      | (Some r, st, w) \<Rightarrow>
          (case reapply pb now r st (sw_store w) of
             None \<Rightarrow> None
           | Some (st, m) \<Rightarrow>
               let w = others (w\<lparr>sw_store := m\<rparr>) in
               (case read_receipt (rc_receipt_id r) w of
                  None \<Rightarrow> Some (None, st, w)
                | Some current \<Rightarrow>
                    if pe_revision_id (lw_publication (rc_current current)) = st_revision_id st then Some (Some current, st, w)
                    else initialize_semantic pb now others n current st w)))"

subsection \<open>Opening a generation\<close>

definition next_route_revision :: "receipt \<Rightarrow> u64" where
  "next_route_revision r = (case checked_add_u64 (rc_route_revision r) 1 of Some n \<Rightarrow> n | None \<Rightarrow> - 1)"

definition receipt_request :: "receipt \<Rightarrow> route_request" where
  "receipt_request r = Write (lw_event (rc_current r)) (rc_access r)"

text \<open>The plan of an opened chain, or the shortfall that stands for a chain that did not open.\<close>

definition generation_plan :: "publication \<Rightarrow> receipt \<Rightarrow> router_error + router_session opened_chain \<Rightarrow> route_plan" where
  "generation_plan pb r opened =
     (let revision = next_route_revision r; short = plan_shortfall (pb_nostr pb) revision (receipt_request r) in
      case opened of
        Inl e \<Rightarrow> short (router_error_text e)
      | Inr chain \<Rightarrow> (case plan_from_contribution revision (chain_current chain) of Inl e \<Rightarrow> short (router_error_text e) | Inr p \<Rightarrow> p))"

definition apply_generation :: "publication \<Rightarrow> receipt \<Rightarrow> router_error + router_session opened_chain \<Rightarrow> world \<Rightarrow> receipt option \<times> world" where
  "apply_generation pb r opened w =
     (case apply_route (pb_nostr pb) (rc_write_id r) (rc_receipt_id r) (pe_revision_id (lw_publication (rc_current r)))
             (lw_id (rc_current r)) (generation_plan pb r opened) (sw_store w) of
        (Inr committed, m) \<Rightarrow> (Some committed, w\<lparr>sw_store := m\<rparr>)
      | (Inl _, m) \<Rightarrow> (None, w\<lparr>sw_store := m\<rparr>))"

text \<open>
  One round: the receipt of the next round, or the answer. The flag of an answer says whether a
  router session stays open.
\<close>

definition generation_round ::
  "publication \<Rightarrow> others \<Rightarrow> receipt \<Rightarrow> world \<Rightarrow> ((receipt + (receipt \<times> bool) option) \<times> world) option" where
  "generation_round pb others r w =
     (if rc_routing r \<noteq> Automatic
      then let w = others w in
        Some (case read_receipt (rc_receipt_id r) w of
                None \<Rightarrow> (Inr None, w)
              | Some current \<Rightarrow> if current = r then (Inr (Some (current, False)), w) else (Inl current, w))
      else map_option (\<lambda>opened.
          let w = others w in
          case read_receipt (rc_receipt_id r) w of
            None \<Rightarrow> (Inr None, w)
          | Some current \<Rightarrow>
              if current \<noteq> r then (Inl current, w)
              else case apply_generation pb r opened w of
                (Some committed, w) \<Rightarrow> (Inr (Some (committed, \<not> isl opened)), w)
              | (None, w) \<Rightarrow>
                  let w = others w in
                  (case read_receipt (rc_receipt_id r) w of None \<Rightarrow> (Inr None, w) | Some current \<Rightarrow> (Inl current, w)))
        (chain_open (pb_nostr pb) (pb_routers pb) (receipt_request r) (replicate (length (pb_routers pb)) [])))"

definition activate_semantic ::
  "publication \<Rightarrow> timestamp \<Rightarrow> others \<Rightarrow> receipt \<Rightarrow> semantic_state option \<Rightarrow> world
     \<Rightarrow> (receipt option \<times> semantic_state option \<times> world) option" where
  "activate_semantic pb now others r semantic w =
     (case semantic of
        None \<Rightarrow> Some (Some r, None, w)
      | Some st \<Rightarrow> map_option (\<lambda>(r, st, w). (r, Some st, w))
          (initialize_semantic pb now others (DESTINATION_EVIDENCE_CAPACITY + 1) r st w))"

fun open_generation ::
  "publication \<Rightarrow> timestamp \<Rightarrow> others \<Rightarrow> nat \<Rightarrow> receipt \<Rightarrow> semantic_state option \<Rightarrow> world
     \<Rightarrow> ((receipt \<times> bool) option \<times> semantic_state option \<times> world) option" where
  "open_generation pb now others 0 r semantic w = Some (None, semantic, record_activation_exhaustion (pb_nostr pb) r w)"
| "open_generation pb now others (Suc n) r semantic w =
     (if receipt_is_terminal r then Some (None, semantic, w)
      else case activate_semantic pb now others r semantic w of
        None \<Rightarrow> None
      | Some (None, semantic, w) \<Rightarrow> Some (None, semantic, w)
      | Some (Some r, semantic, w) \<Rightarrow>
          (case generation_round pb others r w of
             None \<Rightarrow> None
           | Some (Inr answer, w) \<Rightarrow> Some (answer, semantic, w)
           | Some (Inl current, w) \<Rightarrow> open_generation pb now others n current semantic w))"


subsection \<open>The loop\<close>

text \<open>
  What the providers answer during one turn: the clock, the signers' availability and whether they
  panic, the session when it is asked and when the signer is invoked, and what other tasks do.
\<close>

record 's moment =
  mt_now :: timestamp
  mt_availability :: "'s \<Rightarrow> signer_availability"
  mt_panics :: "'s \<Rightarrow> bool"
  mt_session :: "'s session"
  mt_invocation :: "'s session"
  mt_others :: others

text \<open>
  Every signing runs under a channel of its own; replacing the channel drops its sender, which a
  signer sees as a cancellation too.
\<close>

datatype owner_effect =
    SpawnSigning nat receipt signing
  | CancelSigning nat
  | SpawnLane lane
  | CloseRoutes

type_synonym lane_key = "write_id \<times> receipt_id \<times> revision_id \<times> event_id \<times> u64"

record owner_loop =
  ol_receipt :: receipt_id
  ol_semantic :: "semantic_state option"
  ol_routes :: bool
  ol_generation :: "u64 option"
  ol_revision :: revision_id
  ol_route_revision :: u64
  ol_active :: "(relay_url, lane_key) btree_map"
  ol_channel :: nat
  ol_effects :: "owner_effect list"

definition effect :: "owner_effect list \<Rightarrow> owner_loop \<Rightarrow> owner_loop" where
  "effect es ol = ol\<lparr>ol_effects := ol_effects ol @ es\<rparr>"

definition begin_signing :: "publication \<Rightarrow> 's moment \<Rightarrow> receipt \<Rightarrow> owner_loop \<times> world \<Rightarrow> owner_loop \<times> world" where
  "begin_signing pb mt r = (\<lambda>(ol, w).
     let channel = Suc (ol_channel ol) in
     case start_signing (pb_nostr pb) (mt_availability mt) (mt_panics mt) (mt_session mt) (mt_invocation mt) r w of
       (generation, future, w) \<Rightarrow>
         (effect (CancelSigning (ol_channel ol) # (case future of None \<Rightarrow> [] | Some (authorized, f) \<Rightarrow> [SpawnSigning channel authorized f]))
            (ol\<lparr>ol_generation := generation, ol_channel := channel\<rparr>), w))"

definition cancel_signing :: "publication \<Rightarrow> receipt \<Rightarrow> string \<Rightarrow> owner_loop \<times> world \<Rightarrow> owner_loop \<times> world" where
  "cancel_signing pb r cause = (\<lambda>(ol, w).
     (effect [CancelSigning (ol_channel ol)] ol, cancel_authorized_signing (pb_nostr pb) r (ol_generation ol) cause w))"

text \<open>\<open>initialize\<close> and the lines up to the loop. \<open>None\<close> inside: the owner is finished.\<close>

definition owner_start :: "publication \<Rightarrow> 's moment \<Rightarrow> receipt_id \<Rightarrow> semantic_state option \<Rightarrow> world \<Rightarrow> (owner_loop option \<times> world) option" where
  "owner_start pb mt i semantic w =
     (case read_receipt i w of
        None \<Rightarrow> Some (None, w)
      | Some r \<Rightarrow>
          (case open_generation pb (mt_now mt) (mt_others mt) (DESTINATION_EVIDENCE_CAPACITY + 1) r semantic w of
             None \<Rightarrow> None
           | Some (None, _, w) \<Rightarrow> Some (None, w)
           | Some (Some (r, routes), semantic, w) \<Rightarrow>
               if receipt_is_terminal r then Some (None, w)
               else
                 let (ol, w) = begin_signing pb mt r
                       (\<lparr>ol_receipt = i, ol_semantic = semantic, ol_routes = routes, ol_generation = None,
                         ol_revision = pe_revision_id (lw_publication (rc_current r)), ol_route_revision = rc_route_revision r,
                         ol_active = [], ol_channel = 0, ol_effects = []\<rparr>, w)
                 in Some (Some ol, w)))"

definition lane_key_of :: "receipt \<Rightarrow> lane_key" where
  "lane_key_of r = (rc_write_id r, rc_receipt_id r, pe_revision_id (lw_publication (rc_current r)), lw_id (rc_current r), rc_route_revision r)"

definition run_lanes :: "receipt \<Rightarrow> owner_loop \<Rightarrow> owner_loop" where
  "run_lanes r ol =
     (let lanes = start_lanes r (bt_keys (ol_active ol)) in
      effect (map SpawnLane lanes) (ol\<lparr>ol_active := fold (\<lambda>l. bt_insert (ln_session l) (lane_key_of r)) lanes (ol_active ol)\<rparr>))"

text \<open>
  The head of a turn: the receipt is read, a new revision opens a new generation, and the lanes of
  a signed event are started. \<open>None\<close> inside: the loop is left.
\<close>

definition owner_head :: "publication \<Rightarrow> 's moment \<Rightarrow> owner_loop \<Rightarrow> world \<Rightarrow> ((receipt \<times> owner_loop) option \<times> world) option" where
  "owner_head pb mt ol w =
     (case read_receipt (ol_receipt ol) w of
        None \<Rightarrow> Some (None, w)
      | Some r \<Rightarrow>
          if receipt_is_terminal r then Some (None, w)
          else
            let revision = pe_revision_id (lw_publication (rc_current r));
                rest = (\<lambda>(r, ol, w).
                  let ol = (if is_Signed (lw_event (rc_current r)) then ol\<lparr>ol_generation := None\<rparr> else ol)
                  in (Some (r, run_lanes r ol), w))
            in if ol_revision ol < revision
               then (case open_generation pb (mt_now mt) (mt_others mt) (DESTINATION_EVIDENCE_CAPACITY + 1) r (ol_semantic ol) w of
                       None \<Rightarrow> None
                     | Some (None, _, w) \<Rightarrow> Some (None, w)
                     | Some (Some (r, routes), semantic, w) \<Rightarrow>
                         if receipt_is_terminal r then Some (None, w)
                         else
                           let (ol, w) = begin_signing pb mt r
                                 (effect (CancelSigning (ol_channel ol) # (if ol_routes ol then [CloseRoutes] else []))
                                    (ol\<lparr>ol_semantic := semantic, ol_routes := routes\<rparr>), w)
                           in Some (rest (r, ol\<lparr>ol_revision := pe_revision_id (lw_publication (rc_current r)), ol_route_revision := rc_route_revision r\<rparr>, w)))
               else Some (rest (r, (if revision = ol_revision ol then ol\<lparr>ol_route_revision := max (ol_route_revision ol) (rc_route_revision r)\<rparr> else ol), w)))"

subsection \<open>What the loop waits for\<close>

datatype owner_event =
    CancelChanged
  | CancelClosed
  | SignerChanged
  | SignerClosed
  | SourceReady source_ready source_ready
  | ReceiptChange receipt_id "receipt option"
  | ReceiptLagged
  | ReceiptClosed
  | LaneFinished relay_url lane_key

fun source_label :: "source_kind \<Rightarrow> string" where
  "source_label EventCache = ''event-cache''"
| "source_label WriteStore = ''write-store''"
| "source_label _ = ''live-relay''"

definition record_source_failure :: "publication \<Rightarrow> receipt \<Rightarrow> semantic_state \<Rightarrow> source_kind \<Rightarrow> world \<Rightarrow> world" where
  "record_source_failure pb r st kind w =
     w\<lparr>sw_store := snd (record_semantic_failure (pb_nostr pb) (rc_write_id r) (rc_receipt_id r)
        (pe_revision_id (lw_publication (rc_current r))) (pe_revision_source (lw_publication (rc_current r)))
        (selected_value (st_selected_id st) (st_sources st)) (source_label kind @ '' source observation closed'') (sw_store w))\<rparr>"

fun contains_text :: "string \<Rightarrow> string \<Rightarrow> bool" where
  "contains_text p [] = (p = [])"
| "contains_text p (c # s) = (take (length p) (c # s) = p \<or> contains_text p s)"

definition deferred_by_reservation :: "signature_state \<Rightarrow> bool" where
  "deferred_by_reservation sig = (case sig of SigRetryable reason \<Rightarrow> contains_text ''coordinate reservation resolves'' reason | _ \<Rightarrow> False)"

definition on_signer_change :: "publication \<Rightarrow> 's moment \<Rightarrow> receipt \<Rightarrow> owner_loop \<Rightarrow> world \<Rightarrow> owner_loop option \<times> world" where
  "on_signer_change pb mt current ol w =
     (case read_receipt (ol_receipt ol) w of
        None \<Rightarrow> (None, w)
      | Some r \<Rightarrow>
          if pe_revision_id (lw_publication (rc_current r)) \<noteq> ol_revision ol \<or> lw_id (rc_current r) \<noteq> lw_id (rc_current current)
             \<or> signer_generation (mt_availability mt) (mt_session mt) r = ol_generation ol
          then (Some ol, w)
          else
            let (ol, w) = begin_signing pb mt r (cancel_signing pb r ''its signer attachment was replaced or removed'' (ol, w))
            in (Some ol, w))"

definition on_source :: "publication \<Rightarrow> 's moment \<Rightarrow> receipt \<Rightarrow> source_ready \<Rightarrow> source_ready \<Rightarrow> owner_loop \<Rightarrow> world \<Rightarrow> (owner_loop option \<times> world) option" where
  "on_source pb mt current cache writes ol w =
     (case ol_semantic ol of
        None \<Rightarrow> Some (Some ol, w)
      | Some st \<Rightarrow>
          (case next_change cache writes (st_sources st) of
             (change, so) \<Rightarrow>
               let st = st\<lparr>st_sources := so\<rparr> in
               (case change of
                  Waiting \<Rightarrow> Some (Some ol, w)
                | AllClosed \<Rightarrow> Some (Some (ol\<lparr>ol_semantic := None\<rparr>), w)
                | ClosedSource kind \<Rightarrow> Some (Some (ol\<lparr>ol_semantic := Some st\<rparr>), record_source_failure pb current st kind w)
                | Changed _ \<Rightarrow>
                    (case refresh_semantic (mt_others mt) (DESTINATION_EVIDENCE_CAPACITY + 1) current st w of
                       (None, _, w) \<Rightarrow> Some (None, w)
                     | (Some r, st, w) \<Rightarrow>
                         map_option (\<lambda>(st, m). (Some (ol\<lparr>ol_semantic := Some st\<rparr>), w\<lparr>sw_store := m\<rparr>))
                           (reapply pb (mt_now mt) r st (sw_store w))))))"

definition on_receipt_change :: "publication \<Rightarrow> 's moment \<Rightarrow> receipt_id \<Rightarrow> receipt option \<Rightarrow> owner_loop \<Rightarrow> world \<Rightarrow> owner_loop option \<times> world" where
  "on_receipt_change pb mt changed latest ol w =
     (if changed \<noteq> ol_receipt ol then (Some ol, w)
      else case latest of
        None \<Rightarrow> (None, w)
      | Some r \<Rightarrow>
          if receipt_is_terminal r then (None, w)
          else
            let revision = pe_revision_id (lw_publication (rc_current r));
                (ol, w) =
                  (if revision \<noteq> ol_revision ol then (ol, w)
                   else
                     let ol = ol\<lparr>ol_route_revision := max (ol_route_revision ol) (rc_route_revision r)\<rparr>;
                         (ol, w) =
                           (if signature_of r = SigAuthorized
                               \<and> signing_successor (rc_write_id r) (rc_receipt_id r) revision (lw_id (rc_current r)) (sw_store w) = Inr True
                            then cancel_signing pb r ''a bounded durable successor became ready'' (ol, w) else (ol, w))
                     in if ol_generation ol = None \<and> deferred_by_reservation (signature_of r) then begin_signing pb mt r (ol, w) else (ol, w))
            in (Some (if is_Signed (lw_event (rc_current r)) then ol\<lparr>ol_generation := None\<rparr> else ol), w))"

definition owner_select :: "publication \<Rightarrow> 's moment \<Rightarrow> owner_event \<Rightarrow> receipt \<Rightarrow> owner_loop \<Rightarrow> world \<Rightarrow> (owner_loop option \<times> world) option" where
  "owner_select pb mt ev current ol w =
     (case ev of
        CancelChanged \<Rightarrow> Some (if wd_cancelled w then None else Some ol, w)
      | CancelClosed \<Rightarrow> Some (None, w)
      | SignerChanged \<Rightarrow> Some (on_signer_change pb mt current ol (mt_others mt w))
      | SignerClosed \<Rightarrow> Some (None, w)
      | SourceReady cache writes \<Rightarrow> on_source pb mt current cache writes ol w
      | ReceiptChange changed latest \<Rightarrow> Some (on_receipt_change pb mt changed latest ol w)
      | ReceiptLagged \<Rightarrow> Some (Some ol, w)
      | ReceiptClosed \<Rightarrow> Some (None, w)
      | LaneFinished session key \<Rightarrow>
          Some (Some (if bt_get (ol_active ol) session = Some key then ol\<lparr>ol_active := bt_remove session (ol_active ol)\<rparr> else ol), w))"

text \<open>One turn: the head, what others do while the loop waits, and the event that wakes it.\<close>

definition owner_turn :: "publication \<Rightarrow> 's moment \<Rightarrow> owner_event \<Rightarrow> owner_loop \<Rightarrow> world \<Rightarrow> (owner_loop option \<times> world) option" where
  "owner_turn pb mt ev ol w =
     (case owner_head pb mt ol w of
        None \<Rightarrow> None
      | Some (None, w) \<Rightarrow> Some (None, w)
      | Some (Some (current, ol), w) \<Rightarrow> owner_select pb mt ev current ol (mt_others mt w))"


subsection \<open>Every action is a run of the store\<close>

definition store_run :: "nostr_lib \<Rightarrow> memory_write_store \<Rightarrow> memory_write_store \<Rightarrow> bool" where
  "store_run N m m' \<longleftrightarrow> (\<exists>ops. m' = Write_Runs.run N ops m)"

lemma store_run_refl [simp]: "store_run N m m"
  unfolding store_run_def Write_Runs.run_def by (rule exI [of _ "[]"]) simp

lemma store_run_trans: "store_run N m1 m2 \<Longrightarrow> store_run N m2 m3 \<Longrightarrow> store_run N m1 m3"
  unfolding store_run_def Write_Runs.run_def by (metis fold_append comp_apply)

lemma store_run_perform: "store_run N m (perform N op m)"
  unfolding store_run_def Write_Runs.run_def by (rule exI [of _ "[op]"]) simp

lemmas store_run_ops = store_run_perform [of N m "OpAccept intent" for N m intent, simplified]
  store_run_perform [of N m "OpAcceptReserved now n intent u source route" for N m now n intent u source route, simplified]
  store_run_perform [of N m "OpInstallSemantic now w i g src edits u source route" for N m now w i g src edits u source route, simplified]
  store_run_perform [of N m "OpSemanticFailure w i g src source reason" for N m w i g src source reason, simplified]
  store_run_perform [of N m "OpReserve edit author" for N m edit author, simplified]
  store_run_perform [of N m "OpRelease n" for N m n, simplified]
  store_run_perform [of N m "OpAuthorize w i g ev" for N m w i g ev, simplified]
  store_run_perform [of N m "OpInstallSigned w i g ev e" for N m w i g ev e, simplified]
  store_run_perform [of N m "OpSignerRefusal w i g ev reason" for N m w i g ev reason, simplified]
  store_run_perform [of N m "OpSignerRetryable w i g ev reason" for N m w i g ev reason, simplified]
  store_run_perform [of N m "OpRoute w i g ev plan" for N m w i g ev plan, simplified]
  store_run_perform [of N m "OpBegin w i g ev s n" for N m w i g ev s n, simplified]
  store_run_perform [of N m "OpOutcome w i g ev s n out" for N m w i g ev s n out, simplified]
  store_run_perform [of N m "OpCancel i" for N m i, simplified]
  store_run_perform [of N m "OpRemove i" for N m i, simplified]

text \<open>The store after an operation that was taken apart into its answer and the store.\<close>

lemma store_run_pairs:
  "store_accept intent m = (x1, m') \<Longrightarrow> store_run N m m'"
  "accept_reserved_applied_edit N now n intent u source route m = (x2, m') \<Longrightarrow> store_run N m m'"
  "install_semantic N now w i g src edits u source route m = (x3, m') \<Longrightarrow> store_run N m m'"
  "reserve_active edit author m = (x4, m') \<Longrightarrow> store_run N m m'"
  "release_active n m = (x5, m') \<Longrightarrow> store_run N m m'"
  "authorize_signing N w i g ev m = (x6, m') \<Longrightarrow> store_run N m m'"
  "install_signed N w i g ev e m = (x7, m') \<Longrightarrow> store_run N m m'"
  "record_signer_refusal N w i g ev reason m = (x8, m') \<Longrightarrow> store_run N m m'"
  "record_signer_retryable N w i g ev reason m = (x9, m') \<Longrightarrow> store_run N m m'"
  "apply_route N w i g ev plan m = (x10, m') \<Longrightarrow> store_run N m m'"
  "begin_attempt w i g ev sess att m = (x11, m') \<Longrightarrow> store_run N m m'"
  "store_cancel i m = (x12, m') \<Longrightarrow> store_run N m m'"
  "remove_receipt i m = (x13, m') \<Longrightarrow> store_run N m m'"
  using store_run_ops [of N m] by (metis snd_conv)+

lemma reapply_store_run: "reapply pb now r st m = Some (st', m') \<Longrightarrow> store_run (pb_nostr pb) m m'"
  by (auto simp: reapply_def reapply_failed_def Let_def split: sum.splits prod.splits bool.splits if_splits option.splits
      intro: store_run_ops store_run_pairs store_run_trans [OF store_run_pairs(3) store_run_ops(4)])

lemma signing_store_run:
  "store_run N (sw_store w) (sw_store (retryable_or_stale N r reason evidence w))"
  "store_run N (sw_store w) (sw_store (refuse_signing N r refusal w))"
  "store_run N (sw_store w) (sw_store (cancel_authorized_signing N r g cause w))"
proof -
  show 1: "store_run N (sw_store w) (sw_store (retryable_or_stale N r reason evidence w))" for r reason evidence
    by (auto simp: retryable_or_stale_def Let_def split: prod.split sum.split intro: store_run_pairs)
  show "store_run N (sw_store w) (sw_store (refuse_signing N r refusal w))"
    by (auto simp: refuse_signing_def Let_def split: prod.split sum.split intro: store_run_pairs)
  show "store_run N (sw_store w) (sw_store (cancel_authorized_signing N r g cause w))"
    by (simp add: cancel_authorized_signing_def 1)
qed

lemma finish_signing_store_run: "store_run N (sw_store w) (sw_store (finish_signing N s r key g completion w))"
proof -
  have "store_run N (sw_store w) (sw_store (refuse_signing N r t (w\<lparr>sw_store := m\<rparr>)))" if "store_run N (sw_store w) m" for t m
    using store_run_trans [OF that] signing_store_run(2) [of N "w\<lparr>sw_store := m\<rparr>"] by simp
  then show ?thesis
    by (auto simp: finish_signing_def Let_def signing_store_run split: sum.split prod.split signer_error.split intro: store_run_ops store_run_pairs)
qed

lemma start_signing_store_run:
  "start_signing N availability panics s s' r w = (g, f, w') \<Longrightarrow> store_run N (sw_store w) (sw_store w')"
  by (auto simp: start_signing_def Let_def split: event_value.splits option.splits prod.splits sum.splits if_splits
      intro: store_run_pairs store_run_trans [OF store_run_pairs(6) signing_store_run(1) [of _ "w\<lparr>sw_store := m\<rparr>" for m, simplified]])


text \<open>Other tasks only run the store too.\<close>

definition others_run :: "nostr_lib \<Rightarrow> others \<Rightarrow> bool" where
  "others_run N others \<longleftrightarrow> (\<forall>w. store_run N (sw_store w) (sw_store (others w)))"

lemma others_run_after: "others_run N others \<Longrightarrow> store_run N m (sw_store w) \<Longrightarrow> store_run N m (sw_store (others w))"
  unfolding others_run_def using store_run_trans by blast

lemma refresh_semantic_store_run:
  "refresh_semantic others n r st w = (x, st', w') \<Longrightarrow> others_run N others \<Longrightarrow> store_run N m (sw_store w) \<Longrightarrow> store_run N m (sw_store w')"
proof (induction others n r st w arbitrary: x st' w' rule: refresh_semantic.induct)
  case (2 others n r st w)
  have next_run: "store_run N m (sw_store (others w))" using "2.prems" by (simp add: others_run_after)
  show ?case
    using "2.prems" next_run "2.IH"
    by (auto simp: Let_def split: if_splits sum.splits option.splits prod.splits)
qed simp

lemma exhaustion_store_run: "store_run N m (sw_store w) \<Longrightarrow> store_run N m (sw_store (record_activation_exhaustion N r w))"
  by (auto simp: record_activation_exhaustion_def intro: store_run_trans store_run_ops)

lemma initialize_semantic_store_run:
  "initialize_semantic pb now others n r st w = Some (x, st', w') \<Longrightarrow> others_run (pb_nostr pb) others \<Longrightarrow>
     store_run (pb_nostr pb) m (sw_store w) \<Longrightarrow> store_run (pb_nostr pb) m (sw_store w')"
proof (induction n arbitrary: r st w)
  case (Suc n)
  obtain y st1 w1 where ref: "refresh_semantic others (DESTINATION_EVIDENCE_CAPACITY + 1) r st w = (y, st1, w1)"
    by (cases "refresh_semantic others (DESTINATION_EVIDENCE_CAPACITY + 1) r st w")
  then have ref': "refresh_semantic others (Suc DESTINATION_EVIDENCE_CAPACITY) r st w = (y, st1, w1)" by (simp del: refresh_semantic.simps)
  have w1: "store_run (pb_nostr pb) m (sw_store w1)" using refresh_semantic_store_run [OF ref Suc.prems(2,3)] .
  have "store_run (pb_nostr pb) m (sw_store (others (w1\<lparr>sw_store := m1\<rparr>)))" if "reapply pb now r1 st1 (sw_store w1) = Some (st2, m1)" for r1 st2 m1
    using others_run_after [OF Suc.prems(2)] store_run_trans [OF w1 reapply_store_run [OF that]] by simp
  with Suc w1 show ?case
    by (auto simp: ref' Let_def simp del: refresh_semantic.simps split: option.splits if_splits prod.splits)
qed (auto intro: exhaustion_store_run)

lemma generation_round_store_run:
  assumes "generation_round pb others r w = Some (x, w')" "others_run (pb_nostr pb) others" "store_run (pb_nostr pb) m (sw_store w)"
  shows "store_run (pb_nostr pb) m (sw_store w')"
proof -
  have ow: "store_run (pb_nostr pb) m (sw_store (others w))" using assms(2,3) by (rule others_run_after)
  have ap: "store_run (pb_nostr pb) m (sw_store w2)" if "apply_generation pb r opened (others w) = (y, w2)" for opened y w2
    using that store_run_trans [OF ow store_run_pairs(10)] by (auto simp: apply_generation_def split: prod.splits sum.splits)
  show ?thesis using assms(1) ow
    by (auto simp: generation_round_def Let_def split: if_splits option.splits prod.splits dest: ap intro: others_run_after [OF assms(2)])
qed

lemma activate_semantic_store_run:
  assumes "activate_semantic pb now others r semantic w = Some (x, semantic', w')" "others_run (pb_nostr pb) others" "store_run (pb_nostr pb) m (sw_store w)"
  shows "store_run (pb_nostr pb) m (sw_store w')"
  using assms by (auto simp: activate_semantic_def simp del: initialize_semantic.simps split: option.splits dest!: initialize_semantic_store_run)

lemma open_generation_store_run:
  "open_generation pb now others n r semantic w = Some (x, semantic', w') \<Longrightarrow> others_run (pb_nostr pb) others \<Longrightarrow>
     store_run (pb_nostr pb) m (sw_store w) \<Longrightarrow> store_run (pb_nostr pb) m (sw_store w')"
proof (induction n arbitrary: r semantic w)
  case (Suc n)
  note act = activate_semantic_store_run [OF _ Suc.prems(2,3)]
  have rnd: "store_run (pb_nostr pb) m (sw_store w2)"
    if "activate_semantic pb now others r semantic w = Some (y, sem1, w1)" "generation_round pb others r1 w1 = Some (z, w2)" for y sem1 w1 r1 z w2
    using generation_round_store_run [OF that(2) Suc.prems(2) act [OF that(1)]] .
  from Suc.prems(1) Suc.prems(3) show ?case
    by (auto split: if_splits option.splits prod.splits sum.splits dest: act intro: rnd Suc.IH [OF _ Suc.prems(2)])
qed (auto intro: exhaustion_store_run)

lemma begin_signing_store_run:
  "begin_signing pb mt r (ol, w) = (ol', w') \<Longrightarrow> store_run (pb_nostr pb) m (sw_store w) \<Longrightarrow> store_run (pb_nostr pb) m (sw_store w')"
  by (auto simp: begin_signing_def Let_def split: prod.splits dest!: start_signing_store_run intro: store_run_trans)

lemma cancel_signing_store_run:
  "cancel_signing pb r cause (ol, w) = (ol', w') \<Longrightarrow> store_run (pb_nostr pb) m (sw_store w) \<Longrightarrow> store_run (pb_nostr pb) m (sw_store w')"
  by (auto simp: cancel_signing_def intro: store_run_trans signing_store_run)


lemma owner_start_store_run:
  assumes "owner_start pb mt i semantic w = Some (x, w')" "others_run (pb_nostr pb) (mt_others mt)"
  shows "store_run (pb_nostr pb) (sw_store w) (sw_store w')"
  using assms(1)
  by (auto simp: owner_start_def Let_def simp del: open_generation.simps split: option.splits prod.splits if_splits
      dest!: open_generation_store_run [OF _ assms(2) store_run_refl] begin_signing_store_run)

lemma owner_head_store_run:
  assumes "owner_head pb mt ol w = Some (x, w')" "others_run (pb_nostr pb) (mt_others mt)"
  shows "store_run (pb_nostr pb) (sw_store w) (sw_store w')"
  using assms(1)
  by (auto simp: owner_head_def Let_def simp del: open_generation.simps split: option.splits prod.splits if_splits
      dest!: open_generation_store_run [OF _ assms(2) store_run_refl] begin_signing_store_run)

lemma signing_pair_store_run:
  assumes "begin_signing pb mt r (cancel_signing pb r cause (ol, w)) = (ol', w')" "store_run (pb_nostr pb) m (sw_store w)"
  shows "store_run (pb_nostr pb) m (sw_store w')"
proof -
  obtain ol1 w1 where c: "cancel_signing pb r cause (ol, w) = (ol1, w1)" by (cases "cancel_signing pb r cause (ol, w)")
  show ?thesis using begin_signing_store_run [OF assms(1) [unfolded c] cancel_signing_store_run [OF c assms(2)]] .
qed

lemma on_signer_change_store_run:
  assumes "on_signer_change pb mt current ol w = (x, w')" "store_run (pb_nostr pb) m (sw_store w)"
  shows "store_run (pb_nostr pb) m (sw_store w')"
  using assms
  by (auto simp: on_signer_change_def Let_def split: option.splits if_splits prod.splits dest: signing_pair_store_run)

lemma on_source_store_run:
  assumes "on_source pb mt current cache writes ol w = Some (x, w')" "others_run (pb_nostr pb) (mt_others mt)"
  shows "store_run (pb_nostr pb) (sw_store w) (sw_store w')"
proof -
  note refreshed = refresh_semantic_store_run [OF _ assms(2) store_run_refl]
  have "store_run (pb_nostr pb) (sw_store w) m1"
    if "refresh_semantic (mt_others mt) n current st w = (y, st1, w1)" "reapply pb now r st1 (sw_store w1) = Some (st2, m1)" for n st y st1 w1 now r st2 m1
    using store_run_trans [OF refreshed [OF that(1)] reapply_store_run [OF that(2)]] .
  with assms(1) show ?thesis
    by (auto simp: on_source_def Let_def record_source_failure_def simp del: refresh_semantic.simps
        split: option.splits prod.splits source_change.splits intro: store_run_ops refreshed)
qed

lemma on_receipt_change_store_run:
  assumes "on_receipt_change pb mt changed latest ol w = (x, w')"
  shows "store_run (pb_nostr pb) (sw_store w) (sw_store w')"
proof -
  note cs = cancel_signing_store_run [OF _ store_run_refl] and bs = begin_signing_store_run
  show ?thesis
    using assms unfolding on_receipt_change_def Let_def
    by (auto split: option.splits if_splits prod.splits dest: cs bs [OF _ store_run_refl] bs [OF _ cs])
qed

lemma owner_turn_store_run:
  assumes "owner_turn pb mt ev ol w = Some (x, w')" "others_run (pb_nostr pb) (mt_others mt)"
  shows "store_run (pb_nostr pb) (sw_store w) (sw_store w')"
proof -
  from assms(1) obtain y w1 where head: "owner_head pb mt ol w = Some (y, w1)"
    by (auto simp: owner_turn_def split: option.splits prod.splits)
  have h: "store_run (pb_nostr pb) (sw_store w) (sw_store w1)" using owner_head_store_run [OF head assms(2)] .
  have waited: "store_run (pb_nostr pb) (sw_store w) (sw_store (mt_others mt w1))" using others_run_after [OF assms(2) h] .
  have sel: "store_run (pb_nostr pb) (sw_store w) (sw_store w2)" if "owner_select pb mt ev current ol1 (mt_others mt w1) = Some (z, w2)" for current ol1 z w2
    using that waited on_signer_change_store_run [OF _ others_run_after [OF assms(2) waited]]
      store_run_trans [OF waited on_source_store_run [OF _ assms(2)]] store_run_trans [OF waited on_receipt_change_store_run]
    by (auto simp: owner_select_def split: owner_event.splits)
  from assms(1) head h show ?thesis by (auto simp: owner_turn_def split: option.splits prod.splits dest: sel)
qed


lemma accept_edit_store_run:
  assumes "accept_edit pb cache now intent e author po = Some (x, po')"
  shows "store_run (pb_nostr pb) (po_store po) (po_store po')"
proof -
  obtain y m where res: "reserve_active e author (po_store po) = (y, m)" by (cases "reserve_active e author (po_store po)")
  have m: "store_run (pb_nostr pb) (po_store po) m" using store_run_pairs(4) [OF res] .
  note after = store_run_trans [OF m store_run_pairs(5)] store_run_trans [OF m store_run_pairs(2)]
  show ?thesis
    using assms m
    by (auto simp: accept_edit_def res start_owned_def Let_def split: sum.splits option.splits prod.splits if_splits intro: after)
qed

lemma publication_accept_store_run:
  assumes "publication_accept pb cache now intent po = Some (x, po')"
  shows "store_run (pb_nostr pb) (po_store po) (po_store po')"
  using assms
  by (auto simp: publication_accept_def start_owned_def split: if_splits write_payload.splits prod.splits sum.splits
      intro: store_run_pairs dest: accept_edit_store_run)

lemma cancel_remove_store_run:
  "store_run N (po_store po) (po_store (snd (publication_cancel i po)))"
  "store_run N (po_store po) (po_store (snd (publication_remove_receipt i po)))"
  by (auto simp: publication_cancel_def publication_remove_receipt_def finished_def Let_def split: prod.split sum.split intro: store_run_pairs)

lemma reconcile_recovered_store_run:
  "reconcile_recovered pb now n i st m = Some (x, m') \<Longrightarrow> store_run (pb_nostr pb) m m'"
proof (induction n arbitrary: st m)
  case (Suc n)
  have "store_run (pb_nostr pb) m m'"
    if "reapply pb now r st1 m = Some (st2, m1)" "reconcile_recovered pb now n i st2 m1 = Some (x, m')" for r st1 st2 m1
    using store_run_trans [OF reapply_store_run [OF that(1)] Suc.IH [OF that(2)]] .
  with Suc.prems show ?case
    by (auto split: option.splits sum.splits prod.splits if_splits dest: reapply_store_run)
qed simp

lemma reconcile_all_store_run:
  "reconcile_all pb now sts m = Some (x, m') \<Longrightarrow> store_run (pb_nostr pb) m m'"
proof (induction sts arbitrary: m x)
  case (Cons st sts)
  obtain i s where st: "st = (i, s)" by (cases st)
  note rec = reconcile_recovered_store_run [of pb now "DESTINATION_EVIDENCE_CAPACITY + 1" i s m]
  from Cons.prems show ?case
    using rec by (auto simp: st simp del: reconcile_recovered.simps split: option.splits sum.splits prod.splits
        intro: store_run_trans Cons.IH)
qed simp

lemma fold_start_store [simp]:
  "po_store (fold (\<lambda>x. start_owned (f x) (g x)) xs po) = po_store po"
  by (induction xs arbitrary: po) (simp_all add: start_owned_def)

lemma publication_recover_store_run:
  assumes "publication_recover pb cache now po = Some (x, po')"
  shows "store_run (pb_nostr pb) (po_store po) (po_store po')"
proof -
  have pairs: "fold (\<lambda>(i, st). start_owned i (Some st)) sts po1 = fold (\<lambda>y. start_owned (fst y) (Some (snd y))) sts po1" for sts po1
    by (simp add: case_prod_unfold)
  show ?thesis using assms
    by (auto simp: publication_recover_def Let_def pairs split: if_splits sum.splits option.splits prod.splits dest: reconcile_all_store_run)
qed

lemma lane_round_store_run: "lane_round decide publish l m = (x, m') \<Longrightarrow> store_run N m m'"
  by (auto simp: lane_round_def lane_attempt_def split: lane_action.splits prod.splits sum.splits option.splits if_splits bool.splits
      intro: store_run_ops store_run_pairs store_run_trans [OF store_run_pairs(11) store_run_ops(13)])

subsection \<open>The whole publication\<close>

text \<open>
  Everything the publication does to its store, in any order: what the application asks for,
  recovery, the start and the turns of the owners, the completions of signers and the rounds of
  lanes. What happens to the store while an owner works is any run of the store. Signers are told
  apart by a number.
\<close>

inductive publication_steps :: "publication \<Rightarrow> memory_write_store \<Rightarrow> memory_write_store \<Rightarrow> bool" for pb m where
  nothing: "publication_steps pb m m"
| accepting: "publication_steps pb m (po_store po) \<Longrightarrow> publication_accept pb cache now intent po = Some (x, po') \<Longrightarrow>
    publication_steps pb m (po_store po')"
| cancelling: "publication_steps pb m (po_store po) \<Longrightarrow> publication_steps pb m (po_store (snd (publication_cancel i po)))"
| removing: "publication_steps pb m (po_store po) \<Longrightarrow> publication_steps pb m (po_store (snd (publication_remove_receipt i po)))"
| recovering: "publication_steps pb m (po_store po) \<Longrightarrow> publication_recover pb cache now po = Some (x, po') \<Longrightarrow>
    publication_steps pb m (po_store po')"
| starting: "publication_steps pb m (sw_store w) \<Longrightarrow> others_run (pb_nostr pb) (mt_others mt) \<Longrightarrow>
    owner_start pb (mt :: nat moment) i semantic w = Some (y, w') \<Longrightarrow> publication_steps pb m (sw_store w')"
| turning: "publication_steps pb m (sw_store w) \<Longrightarrow> others_run (pb_nostr pb) (mt_others mt) \<Longrightarrow>
    owner_turn pb (mt :: nat moment) ev ol w = Some (y, w') \<Longrightarrow> publication_steps pb m (sw_store w')"
| completing: "publication_steps pb m (sw_store w) \<Longrightarrow>
    publication_steps pb m (sw_store (finish_signing (pb_nostr pb) (s :: nat session) r key g completion (w :: world)))"
| delivering: "publication_steps pb m m1 \<Longrightarrow> lane_round decide publish l m1 = (z, m2) \<Longrightarrow> publication_steps pb m m2"

lemma publication_steps_run: "publication_steps pb m m' \<Longrightarrow> store_run (pb_nostr pb) m m'"
  by (induction rule: publication_steps.induct)
    (auto intro: store_run_trans publication_accept_store_run cancel_remove_store_run publication_recover_store_run
      owner_start_store_run owner_turn_store_run finish_signing_store_run lane_round_store_run)

text \<open>
  (C28) Whatever the publication does, in whatever order its tasks interleave, a receipt keeps its
  routing and authority, its revision only grows, and within a revision its body, its id and every
  terminal outcome of a destination are final; a revision that was left stays in the evidence.
\<close>

theorem publication_keeps_receipt_history:
  assumes "publication_steps pb (store_bounded c) m" "publication_steps pb m m'"
    and "store_receipt i m = Some r" "store_receipt i m' = Some r'"
  shows "rc_routing r' = rc_routing r \<and> rc_access r' = rc_access r \<and> revision_of r \<le> revision_of r'
    \<and> (revision_of r' = revision_of r \<longrightarrow>
         lw_id (rc_current r') = lw_id (rc_current r) \<and> body_kept (lw_event (rc_current r)) (lw_event (rc_current r'))
         \<and> (\<forall>s out. bt_get (receipt_destinations r) s = Some out \<and> outcome_is_terminal out \<longrightarrow>
              bt_get (receipt_destinations r') s = Some out))
    \<and> (revision_of r < revision_of r' \<longrightarrow> (\<exists>src fault. (revision_of r, lw_id (rc_current r), src, fault) \<in> set (retired_of r')))"
proof -
  from publication_steps_run [OF assms(1)] obtain ops where m: "m = Write_Runs.run (pb_nostr pb) ops (store_bounded c)"
    by (auto simp: store_run_def)
  from publication_steps_run [OF assms(2)] obtain further where m': "m' = Write_Runs.run (pb_nostr pb) further m"
    by (auto simp: store_run_def)
  have "later r r'"
    using memory.run_later [of m i r "pb_nostr pb" further r'] run_ledger [of "pb_nostr pb" ops c] assms(3,4) m m'
    by (simp add: store_receipt_def Write_Runs.run_def)
  then show ?thesis by (simp add: later_def same_write_def keeps_outcomes_def)
qed


subsection \<open>When a signer is asked\<close>

definition spawns :: "owner_loop \<Rightarrow> owner_loop \<Rightarrow> bool" where
  "spawns ol ol' \<longleftrightarrow> (\<exists>n r f. SpawnSigning n r f \<in> set (drop (length (ol_effects ol)) (ol_effects ol')))"

lemma effect_fields [simp]:
  "ol_effects (effect es ol) = ol_effects ol @ es" "ol_generation (effect es ol) = ol_generation ol" "ol_receipt (effect es ol) = ol_receipt ol"
  "ol_revision (effect es ol) = ol_revision ol" "ol_channel (effect es ol) = ol_channel ol"
  by (simp_all add: effect_def)

lemma run_lanes_effects: "ol_effects (run_lanes r ol) = ol_effects ol @ map SpawnLane (start_lanes r (bt_keys (ol_active ol)))"
  by (simp add: run_lanes_def Let_def)

text \<open>
  The head of a turn asks a signer only for a revision that is newer than the one the owner worked
  on; a revision it already worked on is never asked for again there.
\<close>

lemma owner_head_spawns:
  assumes "owner_head pb mt ol w = Some (Some (current, ol'), w')" "spawns ol ol'"
  shows "\<exists>r. store_receipt (ol_receipt ol) (sw_store w) = Some r \<and> ol_revision ol < revision_of r"
  using assms
  by (auto simp: owner_head_def Let_def spawns_def run_lanes_effects revision_of_def read_receipt_def simp del: open_generation.simps
      split: option.splits if_splits prod.splits)

text \<open>
  While the loop waits, a signer is asked again only when the attachment of the author is another
  one than before, or when the store had deferred the authorization to a reservation. A signer
  that was unavailable is therefore not asked again until the session changes, although the
  receipt says that a retry is permitted.
\<close>

theorem signer_asked_again_only_if:
  assumes "owner_select pb mt ev current ol w = Some (Some ol', w')" "spawns ol ol'"
  shows "(ev = SignerChanged \<and> (\<exists>r. store_receipt (ol_receipt ol) (sw_store (mt_others mt w)) = Some r
            \<and> signer_generation (mt_availability mt) (mt_session mt) r \<noteq> ol_generation ol))
     \<or> (\<exists>r. ev = ReceiptChange (ol_receipt ol) (Some r) \<and> ol_generation ol = None \<and> deferred_by_reservation (signature_of r))"
proof -
  have quiet: "\<not> spawns ol ol" by (simp add: spawns_def)
  have "spawns ol ol' \<Longrightarrow> ev = SignerChanged \<or> (\<exists>r. ev = ReceiptChange (ol_receipt ol) (Some r))"
    using assms(1) by (auto simp: owner_select_def on_source_def on_receipt_change_def Let_def spawns_def simp del: refresh_semantic.simps
        split: owner_event.splits option.splits prod.splits if_splits source_change.splits)
  moreover have "\<exists>r. store_receipt (ol_receipt ol) (sw_store (mt_others mt w)) = Some r
      \<and> signer_generation (mt_availability mt) (mt_session mt) r \<noteq> ol_generation ol" if "ev = SignerChanged"
    using assms quiet that by (auto simp: owner_select_def on_signer_change_def read_receipt_def split: option.splits if_splits)
  moreover have "ol_generation ol = None \<and> deferred_by_reservation (signature_of r)" if "ev = ReceiptChange (ol_receipt ol) (Some r)" for r
    using assms that
    by (auto simp: owner_select_def on_receipt_change_def cancel_signing_def Let_def spawns_def
        split: if_splits prod.splits)
  ultimately show ?thesis using assms(2) by blast
qed


subsection \<open>A concrete owner\<close>

definition sample_publication :: publication where
  "sample_publication = \<lparr>pb_nostr = sample_lib, pb_runtime = True, pb_appliers = [], pb_routers = [], pb_evaluate = evaluate sample_lib\<rparr>"

definition accepted_owner :: "publication_owner option" where
  "accepted_owner = map_option snd (publication_accept sample_publication (\<lambda>_. Inl []) 5 sample_plain_intent \<lparr>po_store = store_bounded 8, po_running = []\<rparr>)"

theorem publication_keeps_receipt_history_witness:
  "\<exists>r r'. store_receipt 1 (po_store (the accepted_owner)) = Some r \<and> store_receipt 1 (po_store (snd (publication_cancel 1 (the accepted_owner)))) = Some r'
     \<and> rc_routing r' = rc_routing r"
proof -
  let ?po = "the accepted_owner"
  have computed: "accepted_owner \<noteq> None" "store_receipt 1 (po_store ?po) \<noteq> None" "store_receipt 1 (po_store (snd (publication_cancel 1 ?po))) \<noteq> None"
    by code_simp+
  let ?start = "\<lparr>po_store = store_bounded 8, po_running = []\<rparr>"
  from computed obtain x where accepted: "publication_accept sample_publication (\<lambda>_. Inl []) 5 sample_plain_intent ?start = Some (x, ?po)"
    by (auto simp: accepted_owner_def)
  have "publication_steps sample_publication (store_bounded 8) (po_store ?start)" unfolding publication_owner.select_convs by (rule publication_steps.nothing)
  then have first: "publication_steps sample_publication (store_bounded 8) (po_store ?po)" using accepted by (rule publication_steps.accepting)
  have second: "publication_steps sample_publication (po_store ?po) (po_store (snd (publication_cancel 1 ?po)))"
    by (rule publication_steps.cancelling [OF publication_steps.nothing])
  from computed(2,3) obtain r r' where "store_receipt 1 (po_store ?po) = Some r" "store_receipt 1 (po_store (snd (publication_cancel 1 ?po))) = Some r'"
    by auto
  with publication_keeps_receipt_history [OF first second] show ?thesis by blast
qed

definition sample_moment :: "nat moment" where
  "sample_moment = \<lparr>mt_now = 5, mt_availability = (\<lambda>_. Available), mt_panics = (\<lambda>_. False), mt_session = sample_session,
     mt_invocation = sample_session, mt_others = (\<lambda>w. w)\<rparr>"

definition sample_loop :: owner_loop where
  "sample_loop = \<lparr>ol_receipt = 1, ol_semantic = None, ol_routes = False, ol_generation = None, ol_revision = 1, ol_route_revision = 1,
     ol_active = [], ol_channel = 0, ol_effects = []\<rparr>"

definition sample_world :: world where "sample_world = \<lparr>sw_store = sample_at 1, sw_stale = [], wd_cancelled = False\<rparr>"

fun is_spawn :: "owner_effect \<Rightarrow> bool" where
  "is_spawn (SpawnSigning _ _ _) = True"
| "is_spawn _ = False"

theorem signer_asked_again_only_if_witness:
  "\<exists>r. store_receipt 1 (sample_at 1) = Some r \<and> signer_generation (\<lambda>_. Available) sample_session r \<noteq> None"
proof -
  let ?x = "owner_select sample_publication sample_moment SignerChanged (note_receipt 1) sample_loop sample_world"
  have "case ?x of Some (Some ol', _) \<Rightarrow> list_ex is_spawn (ol_effects ol') | _ \<Rightarrow> False" by code_simp
  then obtain ol' w' where x: "?x = Some (Some ol', w')" "list_ex is_spawn (ol_effects ol')"
    by (auto split: option.splits)
  then have "spawns sample_loop ol'" by (auto simp: spawns_def sample_loop_def list_ex_iff elim!: is_spawn.elims)
  from signer_asked_again_only_if [OF x(1) this] show ?thesis
    by (auto simp: sample_loop_def sample_moment_def sample_world_def)
qed

end
