(* ===== verification/Authentication.thy ===== *)
theory Authentication
  imports Transport Session Saved_Groups
begin

section \<open>Answering relay challenges (\<open>fava-auth\<close>)\<close>

text \<open>
  The owner of every NIP-42 lifecycle. It answers on connections other components opened: a session
  is a number under which the transport's identity cell and wire router are found while somebody
  holds it. The application's policy, the signers' answers and the transport's announcements are
  arguments. Signing, the handoff and the relay's verdict are awaited, so the handling of one
  challenge is several steps; where a step asks the identity and then moves the router,
  \<open>others\<close> is what happens in between.
\<close>

subsection \<open>Challenges and responses\<close>

definition CHALLENGE_MAX_BYTES :: nat where "CHALLENGE_MAX_BYTES = 512"

datatype challenge_error = ChallengeEmpty | ChallengeTooLarge nat nat

fun challenge_error_text :: "challenge_error \<Rightarrow> string" where
  "challenge_error_text ChallengeEmpty = ''relay challenge was empty''"
| "challenge_error_text (ChallengeTooLarge b m) = ''relay challenge is '' @ show_nat b @ '' bytes, maximum '' @ show_nat m"

definition challenge_new :: "string \<Rightarrow> challenge_error + string" where
  "challenge_new t =
     (if t = [] then Inl ChallengeEmpty
      else if length t > CHALLENGE_MAX_BYTES then Inl (ChallengeTooLarge (length t) CHALLENGE_MAX_BYTES)
      else Inr t)"

definition AUTHENTICATION :: kind where "AUTHENTICATION = 22242"

fun build_error_text :: "event_build_error \<Rightarrow> string" where
  "build_error_text (BuildTooManyTags a m) = ''event tags exceed bound: '' @ show_nat a @ '' > '' @ show_nat m"
| "build_error_text (BuildTooLarge b m) = ''event bytes exceed bound: '' @ show_nat b @ '' > '' @ show_nat m"
| "build_error_text (BuildEncoding r) = ''event encoding failed: '' @ r"
| "build_error_text BuildExplicitRoutingAttached = ''event-only construction cannot discard explicit publication routing''"

definition auth_event ::
  "protocol_lib \<Rightarrow> timestamp \<Rightarrow> public_key \<Rightarrow> relay_url \<Rightarrow> string \<Rightarrow> event_build_error + unsigned_event" where
  "auth_event P now account relay challenge =
     try_then (map_err BuildEncoding (pl_tag_parse P [''relay'', relay])) (\<lambda>relay_tag.
     try_then (map_err BuildEncoding (pl_tag_parse P [''challenge'', challenge])) (\<lambda>challenge_tag.
     build_event (pl_nostr P) (builder_by account (builder_tag challenge_tag (builder_tag relay_tag (builder_new now AUTHENTICATION))))))"

datatype authentication_decision = Authenticate public_key | Decline | Defer

record authentication_demand =
  dm_session :: relay_session_identity
  dm_challenge :: string

subsection \<open>The owner\<close>

definition MAX_ATTEMPTS :: u32 where "MAX_ATTEMPTS = 8"

record link =
  lk_identity :: relay_session_identity
  lk_router :: wire_router

type_synonym identity_key = "relay_url \<times> u64"

definition identity_key :: "relay_session_identity \<Rightarrow> identity_key" where
  "identity_key i = (rsi_relay i, rsi_connection i)"

record authenticator =
  au_attempts :: "(identity_key, u32 \<times> nat) btree_map"
  au_lagged :: nat
  au_links :: "(nat, link) btree_map"

type_synonym interference = "authenticator \<Rightarrow> authenticator"

definition identity_still_live :: "identity_key \<Rightarrow> nat \<Rightarrow> authenticator \<Rightarrow> bool" where
  "identity_still_live key session au =
     (case bt_get (au_links au) session of None \<Rightarrow> False | Some l \<Rightarrow> identity_key (lk_identity l) = key)"

definition prune_stale :: "authenticator \<Rightarrow> authenticator" where
  "prune_stale au = au\<lparr>au_attempts := List.filter (\<lambda>(key, _, session). identity_still_live key session au) (au_attempts au)\<rparr>"

definition attempts_of :: "relay_session_identity \<Rightarrow> authenticator \<Rightarrow> u32" where
  "attempts_of i au = (case bt_get (au_attempts au) (identity_key i) of None \<Rightarrow> 0 | Some (spent, _) \<Rightarrow> spent)"

definition saturating_next :: "u32 \<Rightarrow> u32" where
  "saturating_next n = (if n = - 1 then n else n + 1)"

definition move_link :: "(wire_router \<Rightarrow> wire_router) \<Rightarrow> nat \<Rightarrow> authenticator \<Rightarrow> authenticator" where
  "move_link f session au =
     (case bt_get (au_links au) session of
        None \<Rightarrow> au
      | Some l \<Rightarrow> au\<lparr>au_links := bt_insert session (l\<lparr>lk_router := f (lk_router l)\<rparr>) (au_links au)\<rparr>)"

definition link_identity :: "nat \<Rightarrow> authenticator \<Rightarrow> relay_session_identity option" where
  "link_identity session au = map_option lk_identity (bt_get (au_links au) session)"

definition link_connection :: "nat \<Rightarrow> authenticator \<Rightarrow> connection option" where
  "link_connection session au = map_option (rt_last \<circ> lk_router) (bt_get (au_links au) session)"

definition pending :: "nat list \<Rightarrow> authenticator \<Rightarrow> nat list" where
  "pending sessions au =
     List.filter (\<lambda>s. case link_connection s au of None \<Rightarrow> False | Some c \<Rightarrow> is_requested (progress (cn_authentication c))) sessions"

definition record_lagged :: "nat \<Rightarrow> authenticator \<Rightarrow> authenticator" where
  "record_lagged skipped au = au\<lparr>au_lagged := saturating_add (au_lagged au) skipped\<rparr>"

text \<open>\<open>Authenticator::record\<close> and \<open>record_accepted\<close>: whether the verdict applied, and the next state.\<close>

definition count_answer :: "relay_session_identity \<Rightarrow> nat \<Rightarrow> authenticator \<Rightarrow> authenticator" where
  "count_answer i session au =
     (let au = prune_stale au; (spent, held) = (case bt_get (au_attempts au) (identity_key i) of None \<Rightarrow> (0, session) | Some e \<Rightarrow> e) in
      au\<lparr>au_attempts := bt_insert (identity_key i) (saturating_next spent, held) (au_attempts au)\<rparr>)"

definition auth_record :: "interference \<Rightarrow> relay_session_identity \<Rightarrow> nat \<Rightarrow> progress \<Rightarrow> authenticator \<Rightarrow> bool \<times> authenticator" where
  "auth_record others i session p au =
     (if link_identity session au \<noteq> Some i then (False, au)
      else
        let au = others au;
            au = (case p of Answering _ \<Rightarrow> count_answer i session au | _ \<Rightarrow> au)
        in (True, move_link (record_progress p) session au))"

definition auth_record_accepted :: "interference \<Rightarrow> relay_session_identity \<Rightarrow> nat \<Rightarrow> public_key \<Rightarrow> authenticator \<Rightarrow> bool \<times> authenticator" where
  "auth_record_accepted others i session account au =
     (if link_identity session au \<noteq> Some i then (False, au)
      else (True, move_link (record_accepted account) session (others au)))"

text \<open>A signing that was invoked for a demand, and what the signer answers with later.\<close>

record signing_task =
  tk_demand :: authentication_demand
  tk_account :: public_key
  tk_session :: nat
  tk_signing :: signing

definition unanswerable :: "interference \<Rightarrow> relay_session_identity \<Rightarrow> nat \<Rightarrow> string \<Rightarrow> authenticator \<Rightarrow> authenticator" where
  "unanswerable others i session reason au = snd (auth_record others i session (Unanswerable (bounded_text_new reason)) au)"

record 's auth_moment =
  am_now :: timestamp
  am_panics :: "'s \<Rightarrow> bool"
  am_session :: "'s session"
  am_invocation :: "'s session"
  am_others :: interference

text \<open>\<open>authenticate\<close> up to the invocation of the signer.\<close>

definition authenticate_begin ::
  "protocol_lib \<Rightarrow> 's auth_moment \<Rightarrow> authentication_demand \<Rightarrow> public_key \<Rightarrow> nat \<Rightarrow> authenticator \<Rightarrow> signing_task option \<times> authenticator" where
  "authenticate_begin P am d account session au =
     (let i = dm_session d; refuse = (\<lambda>reason. (None, unanswerable (am_others am) i session reason au)) in
      case auth_event P (am_now am) account (rsi_relay i) (dm_challenge d) of
        Inl e \<Rightarrow> refuse (build_error_text e)
      | Inr u \<Rightarrow>
          (case session_signer (\<lambda>_. Available) account (am_session am) of
             None \<Rightarrow> refuse ''no signer is attached for this account''
           | Some (generation, _) \<Rightarrow>
               (case invoke_signer (pl_nostr P) (am_panics am) account generation u (am_invocation am) of
                  None \<Rightarrow> refuse ''the signer was detached before the response was signed''
                | Some future \<Rightarrow> (Some \<lparr>tk_demand = d, tk_account = account, tk_session = session, tk_signing = future\<rparr>, au))))"

definition resolve ::
  "protocol_lib \<Rightarrow> (authentication_demand \<Rightarrow> authentication_decision) \<Rightarrow> 's auth_moment \<Rightarrow> relay_session_identity \<Rightarrow> string \<Rightarrow> nat
     \<Rightarrow> authenticator \<Rightarrow> signing_task option \<times> authenticator" where
  "resolve P policy am i challenge session au =
     (let d = \<lparr>dm_session = i, dm_challenge = challenge\<rparr> in
      if attempts_of i au \<ge> MAX_ATTEMPTS
      then (None, unanswerable (am_others am) i session
              (''relay re-challenged past the '' @ show_nat (unat MAX_ATTEMPTS) @ '' attempt bound'') au)
      else case policy d of
        Decline \<Rightarrow> (None, snd (auth_record (am_others am) i session Declined au))
      | Defer \<Rightarrow> (None, au)
      | Authenticate account \<Rightarrow> authenticate_begin P am d account session au)"

definition asked ::
  "protocol_lib \<Rightarrow> (authentication_demand \<Rightarrow> authentication_decision) \<Rightarrow> 's auth_moment \<Rightarrow> nat \<Rightarrow> authenticator
     \<Rightarrow> signing_task option \<times> authenticator" where
  "asked P policy am session au =
     (case link_connection session au of
        None \<Rightarrow> (None, au)
      | Some c \<Rightarrow>
          (case progress (cn_authentication c) of
             Requested t \<Rightarrow>
               (case challenge_new t of
                  Inl e \<Rightarrow> (None, unanswerable (am_others am) (cn_identity c) session (challenge_error_text e) au)
                | Inr challenge \<Rightarrow> resolve P policy am (cn_identity c) challenge session au)
           | _ \<Rightarrow> (None, au)))"

text \<open>
  The signer answered: the response is handed to the connection, which takes up whatever it is
  asked. \<open>dbg\<close> renders a refused handoff.
\<close>

definition authenticate_signed ::
  "(handoff_outcome \<Rightarrow> string) \<Rightarrow> interference \<Rightarrow> signer_error + event \<Rightarrow> signing_task \<Rightarrow> authenticator \<Rightarrow> nat option \<times> authenticator" where
  "authenticate_signed dbg others completion t au =
     (let i = dm_session (tk_demand t); session = tk_session t in
      case completion of
        Inl e \<Rightarrow> (None, unanswerable others i session (signer_error_text e) au)
      | Inr e \<Rightarrow>
          (case bt_get (au_links au) session of
             None \<Rightarrow> (None, au)
           | Some l \<Rightarrow>
               (case answer_begin (lk_identity l) e (lk_router l) of
                  (Inl refused, r) \<Rightarrow> (None, unanswerable others i session (dbg refused) (move_link (\<lambda>_. r) session au))
                | (Inr handle, r) \<Rightarrow> (Some handle, move_link (\<lambda>_. r) session au))))"

definition authenticate_sent ::
  "(handoff_outcome \<Rightarrow> string) \<Rightarrow> interference \<Rightarrow> handoff_outcome \<Rightarrow> event_id \<Rightarrow> nat \<Rightarrow> signing_task \<Rightarrow> authenticator \<Rightarrow> bool \<times> authenticator" where
  "authenticate_sent dbg others outcome event handle t au =
     (let i = dm_session (tk_demand t); session = tk_session t in
      case outcome of
        HandedOff _ _ \<Rightarrow> (True, snd (auth_record others i session (Answering (tk_account t)) au))
      | refused \<Rightarrow> (False, unanswerable others i session (dbg refused) (move_link (release_acknowledgement event handle) session au)))"

definition authenticate_verdict :: "interference \<Rightarrow> settlement \<Rightarrow> signing_task \<Rightarrow> authenticator \<Rightarrow> authenticator" where
  "authenticate_verdict others s t au =
     (let i = dm_session (tk_demand t); session = tk_session t in
      case s of
        SettledAccepted _ \<Rightarrow> snd (auth_record_accepted others i session (tk_account t) au)
      | SettledRejected message \<Rightarrow> snd (auth_record others i session (Refused message) au)
      | SettledEnded _ \<Rightarrow> au)"


subsection \<open>A person's answer and the watch\<close>

datatype answer_error = AnswerUnknown | DeferredAgain

text \<open>\<open>sessions\<close> are those the transport lists; a challenge may be answered or replaced after the list was read.\<close>

definition person_answer ::
  "protocol_lib \<Rightarrow> 's auth_moment \<Rightarrow> nat list \<Rightarrow> relay_session_identity \<Rightarrow> authentication_decision \<Rightarrow> authenticator
     \<Rightarrow> (answer_error + unit) \<times> signing_task option \<times> authenticator" where
  "person_answer P am sessions i decision au =
     (if decision = Defer then (Inl DeferredAgain, None, au)
      else case List.find (\<lambda>s. link_identity s au = Some i) (pending sessions au) of
        None \<Rightarrow> (Inl AnswerUnknown, None, au)
      | Some session \<Rightarrow>
          let au = am_others am au in
          (case map_option (progress \<circ> cn_authentication) (link_connection session au) of
             Some (Requested t) \<Rightarrow>
               (case challenge_new t of
                  Inl e \<Rightarrow> (Inr (), None, unanswerable (am_others am) i session (challenge_error_text e) au)
                | Inr challenge \<Rightarrow>
                    (case decision of
                       Authenticate account \<Rightarrow>
                         (case authenticate_begin P am \<lparr>dm_session = i, dm_challenge = challenge\<rparr> account session au of
                            (t, au) \<Rightarrow> (Inr (), t, au))
                     | _ \<Rightarrow> (Inr (), None, snd (auth_record (am_others am) i session Declined au))))
           | _ \<Rightarrow> (Inl AnswerUnknown, None, au)))"

datatype watch_event = Asked nat | WatchLagged nat | WatchClosed

text \<open>One turn of \<open>answer_requests\<close>: the sessions whose handling is spawned, unless the watch ended.\<close>

definition watch_turn :: "nat list \<Rightarrow> watch_event \<Rightarrow> authenticator \<Rightarrow> nat list option \<times> authenticator" where
  "watch_turn sessions ev au =
     (case ev of
        Asked session \<Rightarrow> (Some [session], au)
      | WatchLagged skipped \<Rightarrow> (let au = record_lagged skipped au in (Some (pending sessions au), au))
      | WatchClosed \<Rightarrow> (None, au))"

subsection \<open>What is signed\<close>

lemma auth_event_Inr:
  assumes "protocol_laws P" "auth_event P now account relay challenge = Inr u"
  shows "ue_pubkey u = account \<and> ue_kind u = AUTHENTICATION \<and> ue_tags u = [[''relay'', relay], [''challenge'', challenge]] \<and> ue_content u = []"
proof -
  from assms(1) have id: "pl_tag_parse P vs = Inr t \<Longrightarrow> t = vs" for vs t by (auto simp: protocol_laws_def)
  from assms(2) show ?thesis
    by (auto simp: auth_event_def try_then_Inr_iff build_event_def builder_by_def builder_tag_def builder_tags_def builder_new_def Let_def
        ensure_id_def split: if_splits sum.splits option.splits dest!: id)
qed

lemma authenticate_begin_Some:
  assumes "authenticate_begin P am d account session au = (Some t, au')"
  shows "au' = au \<and> tk_demand t = d \<and> tk_account t = account \<and> tk_session t = session
     \<and> (\<exists>u generation. auth_event P (am_now am) account (rsi_relay (dm_session d)) (dm_challenge d) = Inr u
          \<and> is_current account generation (am_invocation am)
          \<and> (tk_signing t = Running generation u \<or> (\<exists>reason. tk_signing t = Ready (SignerUnavailable reason))))"
  using assms
  by (auto simp: authenticate_begin_def Let_def invoke_signer_def is_current_def split: sum.splits option.splits prod.splits if_splits)

lemma begun_signs_exactly:
  assumes "protocol_laws P" "authenticate_begin P am \<lparr>dm_session = i, dm_challenge = challenge\<rparr> account session au = (Some t, au')"
    "tk_signing t = Running generation u"
  shows "is_current account generation (am_invocation am) \<and> ue_pubkey u = account \<and> ue_kind u = AUTHENTICATION
     \<and> ue_tags u = [[''relay'', rsi_relay i], [''challenge'', challenge]]"
  using authenticate_begin_Some [OF assms(2)] auth_event_Inr [OF assms(1)] assms(3) by auto

text \<open>
  (C32) What a signer is asked to sign for a challenge, on both ways to it. When a connection asks, it is one
  kind-22242 event of the account the policy named for this demand, and only while the connection
  has answers left. When a person answers a deferred challenge, it is one of the account the person
  chose, for a session that was pending under that identity; neither the policy nor the bound is
  consulted. Both events name the relay and echo the challenge the connection carries, which is not
  empty and within the bound, and both are signed by the current attachment of the account.
\<close>

theorem challenge_signed_exactly:
  assumes "protocol_laws P"
  shows "(asked P policy am session au = (Some t, au') \<longrightarrow>
       (\<exists>c challenge account. link_connection session au = Some c \<and> progress (cn_authentication c) = Requested challenge
         \<and> challenge \<noteq> [] \<and> length challenge \<le> CHALLENGE_MAX_BYTES
         \<and> policy \<lparr>dm_session = cn_identity c, dm_challenge = challenge\<rparr> = Authenticate account \<and> attempts_of (cn_identity c) au < MAX_ATTEMPTS
         \<and> (\<forall>generation u. tk_signing t = Running generation u \<longrightarrow>
              is_current account generation (am_invocation am) \<and> ue_pubkey u = account \<and> ue_kind u = AUTHENTICATION
              \<and> ue_tags u = [[''relay'', rsi_relay (cn_identity c)], [''challenge'', challenge]])))
    \<and> (person_answer P am sessions i decision au = (answer, Some t, au') \<longrightarrow>
       (\<exists>s c challenge account. decision = Authenticate account \<and> s \<in> set (pending sessions au) \<and> link_identity s au = Some i
         \<and> link_connection s (am_others am au) = Some c \<and> progress (cn_authentication c) = Requested challenge
         \<and> challenge \<noteq> [] \<and> length challenge \<le> CHALLENGE_MAX_BYTES
         \<and> (\<forall>generation u. tk_signing t = Running generation u \<longrightarrow>
              is_current account generation (am_invocation am) \<and> ue_pubkey u = account \<and> ue_kind u = AUTHENTICATION
              \<and> ue_tags u = [[''relay'', rsi_relay i], [''challenge'', challenge]])))"
proof (intro conjI impI)
  assume "asked P policy am session au = (Some t, au')"
  then obtain c challenge where c: "link_connection session au = Some c" "progress (cn_authentication c) = Requested challenge"
    "challenge \<noteq> []" "length challenge \<le> CHALLENGE_MAX_BYTES" "resolve P policy am (cn_identity c) challenge session au = (Some t, au')"
    by (auto simp: asked_def challenge_new_def not_less split: option.splits progress.splits sum.splits if_splits)
  let ?d = "\<lparr>dm_session = cn_identity c, dm_challenge = challenge\<rparr>"
  from c(5) obtain account where a: "attempts_of (cn_identity c) au < MAX_ATTEMPTS" "policy ?d = Authenticate account"
    "authenticate_begin P am ?d account session au = (Some t, au')"
    by (auto simp: resolve_def Let_def not_le split: if_splits authentication_decision.splits)
  with c begun_signs_exactly [OF assms a(3)]
  show "\<exists>c challenge account. link_connection session au = Some c \<and> progress (cn_authentication c) = Requested challenge
      \<and> challenge \<noteq> [] \<and> length challenge \<le> CHALLENGE_MAX_BYTES
      \<and> policy \<lparr>dm_session = cn_identity c, dm_challenge = challenge\<rparr> = Authenticate account \<and> attempts_of (cn_identity c) au < MAX_ATTEMPTS
      \<and> (\<forall>generation u. tk_signing t = Running generation u \<longrightarrow>
           is_current account generation (am_invocation am) \<and> ue_pubkey u = account \<and> ue_kind u = AUTHENTICATION
           \<and> ue_tags u = [[''relay'', rsi_relay (cn_identity c)], [''challenge'', challenge]])" by blast
next
  assume answered: "person_answer P am sessions i decision au = (answer, Some t, au')"
  then obtain s where s: "List.find (\<lambda>s. link_identity s au = Some i) (pending sessions au) = Some s"
    by (auto simp: person_answer_def split: if_splits option.splits)
  let ?au = "am_others am au"
  from answered s obtain c challenge account where c: "link_connection s ?au = Some c" "progress (cn_authentication c) = Requested challenge"
    "challenge \<noteq> []" "length challenge \<le> CHALLENGE_MAX_BYTES" "decision = Authenticate account"
    "authenticate_begin P am \<lparr>dm_session = i, dm_challenge = challenge\<rparr> account s ?au = (Some t, au')"
    by (auto simp: person_answer_def Let_def challenge_new_def not_less
        split: if_splits option.splits progress.splits sum.splits authentication_decision.splits prod.splits)
  moreover have "s \<in> set (pending sessions au)" "link_identity s au = Some i" using s by (auto simp: find_Some_iff)
  ultimately show "\<exists>s c challenge account. decision = Authenticate account \<and> s \<in> set (pending sessions au) \<and> link_identity s au = Some i
      \<and> link_connection s ?au = Some c \<and> progress (cn_authentication c) = Requested challenge
      \<and> challenge \<noteq> [] \<and> length challenge \<le> CHALLENGE_MAX_BYTES
      \<and> (\<forall>generation u. tk_signing t = Running generation u \<longrightarrow>
           is_current account generation (am_invocation am) \<and> ue_pubkey u = account \<and> ue_kind u = AUTHENTICATION
           \<and> ue_tags u = [[''relay'', rsi_relay i], [''challenge'', challenge]])"
    using begun_signs_exactly [OF assms c(6)] by blast
qed

subsection \<open>How often\<close>

lemma unat_saturating_next: "unat (saturating_next n) = min (Suc (unat n)) (2 ^ 32 - 1)"
proof (cases "n = - 1")
  case True
  then show ?thesis by (simp add: saturating_next_def unsigned_minus_1_eq_mask mask_eq_exp_minus_1)
next
  case False
  then have ne: "1 + n \<noteq> 0" by (metis add.commute add_eq_0_iff)
  have "unat n < 2 ^ 32" using unsigned_less [of n, where ?'a = nat] by simp
  moreover have "unat (1 + n) = Suc (unat n)" using ne by (rule unatSuc)
  moreover have "unat (1 + n) < 2 ^ 32" using unsigned_less [of "1 + n", where ?'a = nat] by simp
  ultimately show ?thesis using False by (simp add: saturating_next_def add.commute)
qed

lemma saturating_next_le: "n < m \<Longrightarrow> saturating_next n \<le> m" for n m :: u32
  by (auto simp: saturating_next_def inc_le)

lemma prune_attempts: "bt_wf (au_attempts au) \<Longrightarrow> attempts_of i (prune_stale au) \<le> attempts_of i au"
proof -
  assume wf: "bt_wf (au_attempts au)"
  have "bt_get (au_attempts au) k = Some v" if "bt_get (au_attempts (prune_stale au)) k = Some v" for k v
    using that map_of_SomeD wf by (fastforce simp: prune_stale_def bt_get_def [of "List.filter _ _"] bt_get_Some_iff)
  then show ?thesis by (auto simp: attempts_of_def word_le_nat_alt split: option.split)
qed

lemma count_answer_attempts:
  assumes "bt_wf (au_attempts au)"
  shows "attempts_of j (count_answer i session au) \<le> (if identity_key j = identity_key i then saturating_next (attempts_of i au) else attempts_of j au)"
proof -
  have mono: "saturating_next a \<le> saturating_next b" if "a \<le> b" for a b :: u32
    using that by (simp add: word_le_nat_alt unat_saturating_next)
  have "attempts_of j (count_answer i session au) = (if identity_key j = identity_key i then saturating_next (attempts_of i (prune_stale au)) else attempts_of j (prune_stale au))"
    by (auto simp: count_answer_def Let_def attempts_of_def split: prod.split option.split)
  with mono prune_attempts [OF assms] show ?thesis by simp
qed

lemma move_link_attempts [simp]: "au_attempts (move_link f session au) = au_attempts au"
  by (simp add: move_link_def split: option.split)

definition keeps_attempts :: "interference \<Rightarrow> bool" where
  "keeps_attempts others \<longleftrightarrow> (\<forall>au. au_attempts (others au) = au_attempts au)"

lemma attempts_cong: "au_attempts au = au_attempts au' \<Longrightarrow> attempts_of i au = attempts_of i au'"
  by (simp add: attempts_of_def)

lemma auth_record_attempts:
  assumes "keeps_attempts others" "\<And>k. p \<noteq> Answering k"
  shows "au_attempts (snd (auth_record others i session p au)) = au_attempts au"
  using assms by (auto simp: auth_record_def Let_def keeps_attempts_def split: progress.split)

lemma authenticate_signed_attempts:
  "keeps_attempts others \<Longrightarrow> au_attempts (snd (authenticate_signed dbg others completion t au)) = au_attempts au"
  by (auto simp: authenticate_signed_def unanswerable_def Let_def auth_record_attempts split: sum.split option.split prod.split)

text \<open>
  As long as the answer to one challenge is handed over before the next one is looked at, a
  connection is sent at most the bound of answers, whatever it asks and however often.
\<close>

theorem sequential_answers_bounded:
  assumes "bt_wf (au_attempts au)" "\<And>i. attempts_of i au \<le> MAX_ATTEMPTS" "keeps_attempts others"
    and "asked P policy am session au = (Some t, au1)" "au_attempts au2 = au_attempts au1"
    and "authenticate_signed dbg others completion t au2 = (handle, au3)" "au_attempts au4 = au_attempts au3"
    and "authenticate_sent dbg others outcome event h t au4 = (ok, au5)"
  shows "attempts_of i au5 \<le> MAX_ATTEMPTS"
proof -
  let ?i = "dm_session (tk_demand t)"
  from assms(4) have below: "attempts_of ?i au < MAX_ATTEMPTS" and same1: "au1 = au"
    by (auto simp: asked_def resolve_def Let_def not_le split: option.splits progress.splits sum.splits if_splits authentication_decision.splits
        dest!: authenticate_begin_Some)
  have same: "au_attempts au4 = au_attempts au"
    using assms(5-7) same1 authenticate_signed_attempts [OF assms(3), of dbg completion t au2] by simp
  let ?a = "others au4"
  have others: "au_attempts ?a = au_attempts au" using assms(3) same by (simp add: keeps_attempts_def)
  have counted: "attempts_of i (count_answer ?i (tk_session t) ?a) \<le> MAX_ATTEMPTS"
    using count_answer_attempts [of ?a i ?i "tk_session t"] assms(1,2) below others saturating_next_le
      attempts_cong [OF others] by (auto split: if_splits intro: order_trans)
  have quiet: "attempts_of i (snd (auth_record others ?i (tk_session t) p au6)) \<le> MAX_ATTEMPTS" if "\<And>k. p \<noteq> Answering k" "au_attempts au6 = au_attempts au" for p au6
    using attempts_cong [OF auth_record_attempts [OF assms(3) that(1)]] that(2) assms(2) by (metis attempts_cong)
  have answered: "attempts_of i (snd (auth_record others ?i (tk_session t) (Answering k) au4)) \<le> MAX_ATTEMPTS" for k
    using counted assms(2) same by (auto simp: auth_record_def Let_def attempts_of_def)
  from assms(8) show ?thesis
    using quiet answered same by (auto simp: authenticate_sent_def unanswerable_def Let_def split: handoff_outcome.splits)
qed


text \<open>The relay asks again and again, and each question is looked at before an answer is signed.\<close>

fun burst ::
  "protocol_lib \<Rightarrow> (authentication_demand \<Rightarrow> authentication_decision) \<Rightarrow> 's auth_moment \<Rightarrow> nat \<Rightarrow> string list \<Rightarrow> authenticator
     \<Rightarrow> signing_task list \<times> authenticator" where
  "burst P policy am session [] au = ([], au)"
| "burst P policy am session (c # cs) au =
     (case asked P policy am session (move_link (deliver (\<lambda>_. []) (MsgAuth c)) session au) of
        (t, au) \<Rightarrow> (case burst P policy am session cs au of
          (ts, au) \<Rightarrow> (case t of None \<Rightarrow> ts | Some t \<Rightarrow> t # ts, au)))"

lemma moved_connected:
  assumes "rt_sender r = Some c" "cn_connectivity c = Connected" "cn_connectivity (f c) = Connected" "cn_identity (f c) = cn_identity c"
  shows "rt_sender (moved f r) = Some (f c)" "rt_last (moved f r) = f c"
  using assms by (simp_all add: moved_def Let_def ended_by_def)

text \<open>
  While the signer has not answered, nothing counts: every further challenge of the same connection
  invokes the signer once more, however many there are. The bound on answers does not bound the
  signatures a relay can ask for.
\<close>

theorem pending_challenges_unbounded:
  assumes "bt_get (au_links au) session = Some l" "rt_sender (lk_router l) = Some c" "cn_connectivity c = Connected"
    and "attempts_of (cn_identity c) au < MAX_ATTEMPTS" "\<forall>d. policy d = Authenticate account"
    and "\<forall>ch\<in>set cs. ch \<noteq> [] \<and> length ch \<le> CHALLENGE_MAX_BYTES \<and> (\<exists>u. auth_event P (am_now am) account (rsi_relay (cn_identity c)) ch = Inr u)"
    and "bt_get (ses_signers (am_session am)) account = Some a" "am_invocation am = am_session am" "\<not> am_panics am (at_signer a)"
  shows "length (fst (burst P policy am session cs au)) = length cs \<and> au_attempts (snd (burst P policy am session cs au)) = au_attempts au"
  using assms(1-4,6)
proof (induction cs arbitrary: au l c)
  case (Cons ch cs)
  let ?f = "\<lambda>c. c\<lparr>cn_authentication := (cn_authentication c)\<lparr>progress := Requested ch\<rparr>\<rparr>"
  let ?l = "l\<lparr>lk_router := moved ?f (lk_router l)\<rparr>"
  let ?au = "move_link (deliver (\<lambda>_. []) (MsgAuth ch)) session au"
  have au: "?au = au\<lparr>au_links := bt_insert session ?l (au_links au)\<rparr>" using Cons.prems(1) by (simp add: move_link_def)
  note m = moved_connected [OF Cons.prems(2,3), of ?f, simplified, OF Cons.prems(3)]
  have link: "bt_get (au_links ?au) session = Some ?l" by (simp add: au)
  have attempts: "attempts_of (cn_identity c) ?au < MAX_ATTEMPTS" using Cons.prems(4) by (simp add: attempts_of_def)
  obtain u where u: "auth_event P (am_now am) account (rsi_relay (cn_identity c)) ch = Inr u" "ch \<noteq> []" "length ch \<le> CHALLENGE_MAX_BYTES"
    using Cons.prems(5) by auto
  obtain t where t: "asked P policy am session ?au = (Some t, ?au)"
    using link m u attempts assms(5,7-9)
    by (simp add: asked_def link_connection_def challenge_new_def resolve_def Let_def not_le authenticate_begin_def session_signer_def invoke_signer_def not_less)
  have "length (fst (burst P policy am session cs ?au)) = length cs \<and> au_attempts (snd (burst P policy am session cs ?au)) = au_attempts ?au"
    by (rule Cons.IH [OF link, where c = "?f c"]) (use m attempts Cons.prems(3,5) in simp_all)
  then show ?case by (cases "burst P policy am session cs ?au") (simp add: t)
qed simp

text \<open>
  The response is not bound to the question it was signed for: as soon as the connection is asked
  anything, also another challenge or on a connection that replaced the one that asked, the
  response to the old challenge is sent and the connection counts as answering.
\<close>

theorem response_takes_up_any_challenge:
  assumes "bt_get (au_links au) (tk_session t) = Some l" "rt_sender (lk_router l) = Some c" "cn_connectivity c = Connected"
    and "progress (cn_authentication c) = Requested newer"
  shows "\<exists>handle au' c'. authenticate_signed dbg others (Inr e) t au = (Some handle, au')
     \<and> link_connection (tk_session t) au' = Some c' \<and> progress (cn_authentication c') = Answering (ev_pubkey e)"
proof -
  note m = moved_connected [OF assms(2,3), of "take_up (ev_pubkey e)"]
  show ?thesis
    using assms m
    by (auto simp: authenticate_signed_def answer_begin_def await_acknowledgement_def take_up_def Let_def move_link_def link_connection_def)
qed

subsection \<open>A concrete connection\<close>

definition asking_link :: "u64 \<Rightarrow> string \<Rightarrow> link" where
  "asking_link n ch = (let i = \<lparr>rsi_relay = ''wss://a'', rsi_connection = n\<rparr>;
     c = \<lparr>cn_identity = i, cn_connectivity = Connected, cn_authentication = \<lparr>established = None, progress = Requested ch\<rparr>\<rparr>
   in \<lparr>lk_identity = i, lk_router = router_new c\<rparr>)"

definition asking :: "u64 \<Rightarrow> string \<Rightarrow> authenticator" where
  "asking n ch = \<lparr>au_attempts = [], au_lagged = 0, au_links = [(0, asking_link n ch)]\<rparr>"

definition calm_moment :: "nat auth_moment" where
  "calm_moment = \<lparr>am_now = 5, am_panics = (\<lambda>_. False), am_session = sample_session, am_invocation = sample_session, am_others = (\<lambda>a. a)\<rparr>"

definition always :: "authentication_demand \<Rightarrow> authentication_decision" where "always d = Authenticate 7"

text \<open>
  The identity is asked before the router is moved: a reconnect in between gets the acceptance of
  the connection it replaced, and counts as authenticated although nobody answered on it.
\<close>

lemma replaced_connection_accepted:
  "let t = \<lparr>tk_demand = \<lparr>dm_session = \<lparr>rsi_relay = ''wss://a'', rsi_connection = 1\<rparr>, dm_challenge = ''c''\<rparr>, tk_account = 7, tk_session = 0,
           tk_signing = Ready SignerCancelled\<rparr>;
       au = authenticate_verdict (\<lambda>_. asking 2 ''d'') (SettledAccepted (bounded_text_new [])) t (asking 1 ''c'')
   in map_option (\<lambda>c. (rsi_connection (cn_identity c), established (cn_authentication c))) (link_connection 0 au) = Some (2, Some 7)"
  by code_simp

definition nonces :: "string list" where
  "nonces = [''a'', ''b'', ''c'', ''d'', ''e'', ''f'', ''g'', ''h'', ''i'', ''j'']"

theorem pending_challenges_unbounded_witness:
  "length (fst (burst sample_protocol always calm_moment 0 nonces (asking 1 ''z''))) = 10 \<and> MAX_ATTEMPTS = 8"
proof -
  let ?c = "rt_last (lk_router (asking_link 1 ''z''))"
  have "bt_get (au_links (asking 1 ''z'')) 0 = Some (asking_link 1 ''z'')" by (simp add: asking_def bt_get_def)
  moreover have "rt_sender (lk_router (asking_link 1 ''z'')) = Some ?c" "cn_connectivity ?c = Connected"
    "attempts_of (cn_identity ?c) (asking 1 ''z'') < MAX_ATTEMPTS"
    by (simp_all add: asking_link_def router_new_def Let_def attempts_of_def asking_def MAX_ATTEMPTS_def bt_get_def)
  moreover have "list_all (\<lambda>ch. case auth_event sample_protocol 5 7 ''wss://a'' ch of Inr _ \<Rightarrow> True | Inl _ \<Rightarrow> False) nonces" by code_simp
  then have "\<forall>ch\<in>set nonces. \<exists>u. auth_event sample_protocol (am_now calm_moment) 7 (rsi_relay (cn_identity ?c)) ch = Inr u"
    by (auto simp: list_all_iff calm_moment_def asking_link_def router_new_def Let_def split: sum.splits) (meson sum.exhaust)
  then have "\<forall>ch\<in>set nonces. ch \<noteq> [] \<and> length ch \<le> CHALLENGE_MAX_BYTES
      \<and> (\<exists>u. auth_event sample_protocol (am_now calm_moment) 7 (rsi_relay (cn_identity ?c)) ch = Inr u)"
    by (auto simp: nonces_def CHALLENGE_MAX_BYTES_def)
  moreover have "bt_get (ses_signers (am_session calm_moment)) 7 = Some \<lparr>at_generation = 1, at_signer = 1\<rparr>" by code_simp
  ultimately have "length (fst (burst sample_protocol always calm_moment 0 nonces (asking 1 ''z''))) = length nonces"
    using pending_challenges_unbounded [of "asking 1 ''z''" 0 "asking_link 1 ''z''" ?c always 7 nonces sample_protocol calm_moment]
    by (simp add: always_def calm_moment_def)
  then show ?thesis by (simp add: nonces_def MAX_ATTEMPTS_def)
qed

theorem response_takes_up_any_challenge_witness:
  "\<exists>handle au'. authenticate_signed (\<lambda>_. []) (\<lambda>a. a) (Inr (sample_event 9 7 12 22242 []))
     \<lparr>tk_demand = \<lparr>dm_session = \<lparr>rsi_relay = ''wss://a'', rsi_connection = 1\<rparr>, dm_challenge = ''c''\<rparr>, tk_account = 7, tk_session = 0,
       tk_signing = Ready SignerCancelled\<rparr> (asking 2 ''d'') = (Some handle, au')"
proof -
  let ?t = "\<lparr>tk_demand = \<lparr>dm_session = \<lparr>rsi_relay = ''wss://a'', rsi_connection = 1\<rparr>, dm_challenge = ''c''\<rparr>, tk_account = 7, tk_session = 0,
       tk_signing = Ready SignerCancelled\<rparr>"
  let ?c = "rt_last (lk_router (asking_link 2 ''d''))"
  have "bt_get (au_links (asking 2 ''d'')) (tk_session ?t) = Some (asking_link 2 ''d'')" by (simp add: asking_def bt_get_def)
  moreover have "rt_sender (lk_router (asking_link 2 ''d'')) = Some ?c" "cn_connectivity ?c = Connected" "progress (cn_authentication ?c) = Requested ''d''"
    by (simp_all add: asking_link_def router_new_def Let_def)
  ultimately show ?thesis
    using response_takes_up_any_challenge [of "asking 2 ''d''" ?t] by blast
qed


theorem challenge_signed_exactly_witness:
  "(\<exists>t au'. asked sample_protocol always calm_moment 0 (asking 1 ''z'') = (Some t, au')
     \<and> (\<forall>generation u. tk_signing t = Running generation u \<longrightarrow> ue_tags u = [[''relay'', ''wss://a''], [''challenge'', ''z'']]))
   \<and> (\<exists>answer t au'. person_answer sample_protocol calm_moment [0] \<lparr>rsi_relay = ''wss://a'', rsi_connection = 1\<rparr> (Authenticate 7) (asking 1 ''z'')
         = (answer, Some t, au')
     \<and> (\<forall>generation u. tk_signing t = Running generation u \<longrightarrow> ue_pubkey u = 7))"
proof -
  let ?x = "asked sample_protocol always calm_moment 0 (asking 1 ''z'')"
  let ?y = "person_answer sample_protocol calm_moment [0] \<lparr>rsi_relay = ''wss://a'', rsi_connection = 1\<rparr> (Authenticate 7) (asking 1 ''z'')"
  have "fst ?x \<noteq> None" "fst (snd ?y) \<noteq> None" by code_simp+
  then obtain t au' answer t' au'' where x: "?x = (Some t, au')" and y: "?y = (answer, Some t', au'')"
    by (cases ?x; cases ?y) auto
  have "link_connection 0 (asking 1 ''z'') = Some (rt_last (lk_router (asking_link 1 ''z'')))" by (simp add: asking_def link_connection_def bt_get_def)
  then have "\<forall>generation u. tk_signing t = Running generation u \<longrightarrow> ue_tags u = [[''relay'', ''wss://a''], [''challenge'', ''z'']]"
    using challenge_signed_exactly [OF sample_protocol_laws, THEN conjunct1, rule_format, OF x]
    by (auto simp: asking_link_def router_new_def Let_def)
  moreover have "\<forall>generation u. tk_signing t' = Running generation u \<longrightarrow> ue_pubkey u = 7"
    using challenge_signed_exactly [OF sample_protocol_laws, THEN conjunct2, rule_format, OF y] by auto
  ultimately show ?thesis using x y by blast
qed

theorem sequential_answers_bounded_witness:
  "\<exists>au5. attempts_of \<lparr>rsi_relay = ''wss://a'', rsi_connection = 1\<rparr> au5 = 1 \<and> (\<forall>i. attempts_of i au5 \<le> MAX_ATTEMPTS)"
proof -
  let ?au = "asking 1 ''z''" and ?e = "sample_event 9 7 12 22242 []"
  let ?x = "asked sample_protocol always calm_moment 0 ?au"
  have "fst ?x \<noteq> None" by code_simp
  then obtain t au1 where x: "?x = (Some t, au1)" by (cases ?x) auto
  obtain h au3 where y: "authenticate_signed (\<lambda>_. []) (\<lambda>a. a) (Inr ?e) t au1 = (h, au3)" by fastforce
  let ?out = "HandedOff \<lparr>rsi_relay = ''wss://a'', rsi_connection = 1\<rparr> 0"
  obtain ok au5 where z: "authenticate_sent (\<lambda>_. []) (\<lambda>a. a) ?out 9 0 t au3 = (ok, au5)" by fastforce
  have start: "bt_wf (au_attempts ?au)" "\<And>i. attempts_of i ?au \<le> MAX_ATTEMPTS" by (simp_all add: asking_def attempts_of_def bt_get_def)
  have "attempts_of i au5 \<le> MAX_ATTEMPTS" for i
    by (rule sequential_answers_bounded [OF start _ x refl y refl z]) (simp add: keeps_attempts_def)
  moreover have "attempts_of \<lparr>rsi_relay = ''wss://a'', rsi_connection = 1\<rparr>
      (snd (authenticate_sent (\<lambda>_. []) (\<lambda>a. a) ?out 9 0 (the (fst ?x)) (snd (authenticate_signed (\<lambda>_. []) (\<lambda>a. a) (Inr ?e) (the (fst ?x)) (snd ?x))))) = 1"
    by code_simp
  then have "attempts_of \<lparr>rsi_relay = ''wss://a'', rsi_connection = 1\<rparr> au5 = 1" using x y z by simp
  ultimately show ?thesis by blast
qed

end
