(* ===== verification/Diagnostics.thy ===== *)
theory Diagnostics
  imports Observation_Engine
begin

section \<open>Bounded facts (\<open>fava-diagnostics\<close>)\<close>

text \<open>
  Five categories of current facts, each a queue with a bound and a count of what the bound
  discarded. A category is the same code for every kind of fact, so its laws are proved once, in the
  locale of a keyed category, and hold for the five by interpretation. A \<open>Duration\<close> is counted in
  nanoseconds.
\<close>

subsection \<open>Facts\<close>

record logical_demand_diagnostic =
  ld_session :: relay_url
  ld_branch :: query_branch_id
  ld_state :: relay_source_state

record provider_operation =
  po_instance :: bounded_text
  po_generation :: round

record observation_wire_binding =
  wb_session :: relay_url
  wb_subscription :: subscription_id
  wb_shared_holders :: nat

record query_diagnostic =
  qd_observation :: observation_id
  qd_route_revision :: "u64 option"
  qd_route_relays :: "relay_url list"
  qd_demand :: "logical_demand_diagnostic list"
  qd_plan_revision :: "u64 option"
  qd_wire :: "observation_wire_binding list"
  qd_shortfalls :: "bounded_text list"
  qd_pending_operation :: "provider_operation option"
  qd_coalesced_updates :: u64

datatype write_stall =
    Unrouted
  | Unsignable
  | AwaitingDelivery
  | Retrying nat
  | Undeliverable bounded_text

record write_diagnostic =
  wd_receipt :: bounded_text
  wd_classification :: write_stall
  wd_stuck_for :: nat

datatype provider_kind =
    KindEventCache | KindWriteStore | KindFetchCache | KindQueryEvaluator | KindRouter | KindSubscriptionPlanner
  | KindTransport | KindPublisher | KindDeliveryPolicy | KindSigner | KindService

datatype provider_operation_state =
    OperationRunning nat nat
  | OperationCompleted
  | OperationTimedOut nat
  | OperationFailed bounded_text
  | OperationPanicked bounded_text
  | OperationCancelled

record provider_diagnostic =
  pd_provider :: provider_kind
  pd_operation :: provider_operation
  pd_state :: provider_operation_state

datatype bound_kind =
    RelaySessions | WireSubscriptions | OutboundFrameBytes | InboundFrameBytes | OutboundQueue | InboundQueue | RouteFanOut
  | EventCacheCapacity | WriteStoreActiveWork | ObservationDelivery | DiagnosticsRetention | ProviderOperations

datatype limit_scope =
    ScopeEngine
  | ScopeRelay relay_url
  | ScopeObservation observation_id
  | ScopeProvider provider_operation

record limit_diagnostic =
  lm_bound :: bound_kind
  lm_limit :: nat
  lm_required :: nat
  lm_scope :: limit_scope

subsection \<open>One category\<close>

record 'a category =
  cg_facts :: "'a list"
  cg_dropped :: u64

definition category_default :: "'a category" where
  "category_default = \<lparr>cg_facts = [], cg_dropped = 0\<rparr>"

definition category_publish :: "nat \<Rightarrow> 'a \<Rightarrow> ('a \<Rightarrow> bool) \<Rightarrow> 'a category \<Rightarrow> 'a category" where
  "category_publish capacity f same c =
     (if \<exists>x\<in>set (cg_facts c). same x then c\<lparr>cg_facts := replace_first same f (cg_facts c)\<rparr>
      else
        let c = (if length (cg_facts c) \<ge> capacity
                 then c\<lparr>cg_facts := tl (cg_facts c), cg_dropped := saturating_add_u64 (cg_dropped c) 1\<rparr> else c)
        in c\<lparr>cg_facts := cg_facts c @ [f]\<rparr>)"

definition category_forget :: "('a \<Rightarrow> bool) \<Rightarrow> 'a category \<Rightarrow> 'a category" where
  "category_forget same c = c\<lparr>cg_facts := List.filter (\<lambda>x. \<not> same x) (cg_facts c)\<rparr>"

subsection \<open>The five categories\<close>

record diagnostics =
  dg_capacity :: nat
  dg_relays :: "relay_fact category"
  dg_queries :: "query_diagnostic category"
  dg_writes :: "write_diagnostic category"
  dg_providers :: "provider_diagnostic category"
  dg_limits :: "limit_diagnostic category"

record dropped_facts =
  df_relays :: u64
  df_queries :: u64
  df_writes :: u64
  df_providers :: u64
  df_limits :: u64

record diagnostics_snapshot =
  sn_relays :: "relay_fact list"
  sn_queries :: "query_diagnostic list"
  sn_writes :: "write_diagnostic list"
  sn_providers :: "provider_diagnostic list"
  sn_limits :: "limit_diagnostic list"
  sn_dropped_facts :: dropped_facts

definition diagnostics_bounded :: "nat \<Rightarrow> diagnostics" where
  "diagnostics_bounded capacity =
     \<lparr>dg_capacity = capacity, dg_relays = category_default, dg_queries = category_default, dg_writes = category_default,
      dg_providers = category_default, dg_limits = category_default\<rparr>"

definition diagnostics_default :: diagnostics where
  "diagnostics_default = diagnostics_bounded 256"

definition diagnostics_snapshot_of :: "diagnostics \<Rightarrow> diagnostics_snapshot" where
  "diagnostics_snapshot_of d =
     \<lparr>sn_relays = cg_facts (dg_relays d), sn_queries = cg_facts (dg_queries d), sn_writes = cg_facts (dg_writes d),
      sn_providers = cg_facts (dg_providers d), sn_limits = cg_facts (dg_limits d),
      sn_dropped_facts = \<lparr>df_relays = cg_dropped (dg_relays d), df_queries = cg_dropped (dg_queries d),
        df_writes = cg_dropped (dg_writes d), df_providers = cg_dropped (dg_providers d), df_limits = cg_dropped (dg_limits d)\<rparr>\<rparr>"

text \<open>What identifies a fact of each category.\<close>

definition relay_key :: "relay_fact \<Rightarrow> relay_url \<times> round option" where
  "relay_key f = (rf_session f, rf_generation f)"

definition provider_key :: "provider_diagnostic \<Rightarrow> provider_kind \<times> bounded_text" where
  "provider_key f = (pd_provider f, po_instance (pd_operation f))"

definition limit_key :: "limit_diagnostic \<Rightarrow> bound_kind \<times> limit_scope" where
  "limit_key f = (lm_bound f, lm_scope f)"

definition publish_relay :: "relay_fact \<Rightarrow> diagnostics \<Rightarrow> diagnostics" where
  "publish_relay f d = d\<lparr>dg_relays := category_publish (dg_capacity d) f (\<lambda>x. relay_key x = relay_key f) (dg_relays d)\<rparr>"

definition forget_relay :: "relay_url \<Rightarrow> diagnostics \<Rightarrow> diagnostics" where
  "forget_relay session d = d\<lparr>dg_relays := category_forget (\<lambda>x. rf_session x = session) (dg_relays d)\<rparr>"

definition publish_query :: "query_diagnostic \<Rightarrow> diagnostics \<Rightarrow> diagnostics" where
  "publish_query f d = d\<lparr>dg_queries := category_publish (dg_capacity d) f (\<lambda>x. qd_observation x = qd_observation f) (dg_queries d)\<rparr>"

definition forget_query :: "observation_id \<Rightarrow> diagnostics \<Rightarrow> diagnostics" where
  "forget_query i d = d\<lparr>dg_queries := category_forget (\<lambda>x. qd_observation x = i) (dg_queries d)\<rparr>"

definition publish_write :: "write_diagnostic \<Rightarrow> diagnostics \<Rightarrow> diagnostics" where
  "publish_write f d = d\<lparr>dg_writes := category_publish (dg_capacity d) f (\<lambda>x. wd_receipt x = wd_receipt f) (dg_writes d)\<rparr>"

definition forget_write :: "bounded_text \<Rightarrow> diagnostics \<Rightarrow> diagnostics" where
  "forget_write receipt d = d\<lparr>dg_writes := category_forget (\<lambda>x. wd_receipt x = receipt) (dg_writes d)\<rparr>"

definition publish_provider :: "provider_diagnostic \<Rightarrow> diagnostics \<Rightarrow> diagnostics" where
  "publish_provider f d = d\<lparr>dg_providers := category_publish (dg_capacity d) f (\<lambda>x. provider_key x = provider_key f) (dg_providers d)\<rparr>"

definition forget_provider :: "provider_kind \<Rightarrow> bounded_text \<Rightarrow> diagnostics \<Rightarrow> diagnostics" where
  "forget_provider kind inst d = d\<lparr>dg_providers := category_forget (\<lambda>x. provider_key x = (kind, inst)) (dg_providers d)\<rparr>"

definition publish_limit :: "limit_diagnostic \<Rightarrow> diagnostics \<Rightarrow> diagnostics" where
  "publish_limit f d = d\<lparr>dg_limits := category_publish (dg_capacity d) f (\<lambda>x. limit_key x = limit_key f) (dg_limits d)\<rparr>"

definition forget_limit :: "bound_kind \<Rightarrow> limit_scope \<Rightarrow> diagnostics \<Rightarrow> diagnostics" where
  "forget_limit bound scope d = d\<lparr>dg_limits := category_forget (\<lambda>x. limit_key x = (bound, scope)) (dg_limits d)\<rparr>"

subsection \<open>Operations as a log\<close>

text \<open>
  The specification of a category: the last fact published under every key and not forgotten since,
  with no bound.
\<close>

datatype ('a, 'k) category_op = Publish 'a | Forget "'k \<Rightarrow> bool"

fun category_perform :: "('a \<Rightarrow> 'k) \<Rightarrow> nat \<Rightarrow> ('a, 'k) category_op \<Rightarrow> 'a category \<Rightarrow> 'a category" where
  "category_perform key capacity (Publish f) c = category_publish capacity f (\<lambda>x. key x = key f) c"
| "category_perform key capacity (Forget P) c = category_forget (\<lambda>x. P (key x)) c"

fun current_perform :: "('a \<Rightarrow> 'k) \<Rightarrow> ('a, 'k) category_op \<Rightarrow> ('k \<rightharpoonup> 'a) \<Rightarrow> ('k \<rightharpoonup> 'a)" where
  "current_perform key (Publish f) m = m(key f \<mapsto> f)"
| "current_perform key (Forget P) m = (\<lambda>k. if P k then None else m k)"

definition current_facts :: "('a \<Rightarrow> 'k) \<Rightarrow> ('a, 'k) category_op list \<Rightarrow> ('k \<rightharpoonup> 'a)" where
  "current_facts key ops = fold (current_perform key) ops Map.empty"

definition category_map :: "('a \<Rightarrow> 'k) \<Rightarrow> 'a category \<Rightarrow> ('k \<rightharpoonup> 'a)" where
  "category_map key c = map_of (map (\<lambda>f. (key f, f)) (cg_facts c))"

text \<open>
  What a bounded category keeps of the specification: nothing stale, one fact per key, at most the
  capacity, and everything as long as nothing was counted as dropped.
\<close>

definition holds_current :: "('a \<Rightarrow> 'k) \<Rightarrow> nat \<Rightarrow> ('k \<rightharpoonup> 'a) \<Rightarrow> 'a category \<Rightarrow> bool" where
  "holds_current key capacity m c \<longleftrightarrow>
     length (cg_facts c) \<le> capacity \<and> distinct (map key (cg_facts c)) \<and> category_map key c \<subseteq>\<^sub>m m
     \<and> (cg_dropped c = 0 \<longrightarrow> category_map key c = m)"

datatype diagnostics_op =
    OpRelay relay_fact
  | OpForgetRelay relay_url
  | OpQuery query_diagnostic
  | OpForgetQuery observation_id
  | OpWrite write_diagnostic
  | OpForgetWrite bounded_text
  | OpProvider provider_diagnostic
  | OpForgetProvider provider_kind bounded_text
  | OpLimit limit_diagnostic
  | OpForgetLimit bound_kind limit_scope

fun diagnostics_perform :: "diagnostics_op \<Rightarrow> diagnostics \<Rightarrow> diagnostics" where
  "diagnostics_perform (OpRelay f) = publish_relay f"
| "diagnostics_perform (OpForgetRelay s) = forget_relay s"
| "diagnostics_perform (OpQuery f) = publish_query f"
| "diagnostics_perform (OpForgetQuery i) = forget_query i"
| "diagnostics_perform (OpWrite f) = publish_write f"
| "diagnostics_perform (OpForgetWrite t) = forget_write t"
| "diagnostics_perform (OpProvider f) = publish_provider f"
| "diagnostics_perform (OpForgetProvider k t) = forget_provider k t"
| "diagnostics_perform (OpLimit f) = publish_limit f"
| "diagnostics_perform (OpForgetLimit b s) = forget_limit b s"

fun relay_op :: "diagnostics_op \<Rightarrow> (relay_fact, relay_url \<times> round option) category_op option" where
  "relay_op (OpRelay f) = Some (Publish f)"
| "relay_op (OpForgetRelay s) = Some (Forget (\<lambda>(session, _). session = s))"
| "relay_op _ = None"

fun query_op :: "diagnostics_op \<Rightarrow> (query_diagnostic, observation_id) category_op option" where
  "query_op (OpQuery f) = Some (Publish f)"
| "query_op (OpForgetQuery i) = Some (Forget (\<lambda>k. k = i))"
| "query_op _ = None"

fun write_op :: "diagnostics_op \<Rightarrow> (write_diagnostic, bounded_text) category_op option" where
  "write_op (OpWrite f) = Some (Publish f)"
| "write_op (OpForgetWrite t) = Some (Forget (\<lambda>k. k = t))"
| "write_op _ = None"

fun provider_op :: "diagnostics_op \<Rightarrow> (provider_diagnostic, provider_kind \<times> bounded_text) category_op option" where
  "provider_op (OpProvider f) = Some (Publish f)"
| "provider_op (OpForgetProvider p t) = Some (Forget (\<lambda>k. k = (p, t)))"
| "provider_op _ = None"

fun limit_op :: "diagnostics_op \<Rightarrow> (limit_diagnostic, bound_kind \<times> limit_scope) category_op option" where
  "limit_op (OpLimit f) = Some (Publish f)"
| "limit_op (OpForgetLimit b s) = Some (Forget (\<lambda>k. k = (b, s)))"
| "limit_op _ = None"

text \<open>What the reconciliation owner reports, as operations on the shared facts.\<close>

fun fact_op :: "diagnostic_fact \<Rightarrow> diagnostics_op" where
  "fact_op (FactRelay f) = OpRelay f"
| "fact_op (FactForgetRelay s) = OpForgetRelay s"
| "fact_op (FactInboundLoss s n) = OpLimit \<lparr>lm_bound = InboundQueue, lm_limit = 0, lm_required = n, lm_scope = ScopeRelay s\<rparr>"

subsection \<open>A keyed category keeps current facts\<close>

lemma category_map_replace:
  assumes "distinct (map key fs)" "x \<in> set fs" "key x = key f"
  shows "map_of (map (\<lambda>f. (key f, f)) (replace_first (\<lambda>x. key x = key f) f fs)) = (map_of (map (\<lambda>f. (key f, f)) fs))(key f \<mapsto> f)"
  using assms by (induction fs) (auto simp: fun_upd_twist fun_eq_iff)

lemma map_key_replace:
  "map key (replace_first (\<lambda>x. key x = key f) f fs) = map key fs"
  by (induction fs) auto

lemma map_of_filter_keys:
  "map_of (map (\<lambda>f. (key f, f)) (List.filter (\<lambda>x. \<not> P (key x)) fs)) = (\<lambda>k. if P k then None else map_of (map (\<lambda>f. (key f, f)) fs) k)"
  by (induction fs) (auto simp: fun_eq_iff)

lemma saturating_next_nonzero: "saturating_add_u64 n 1 \<noteq> 0"
proof (cases "unat n + 1 < 2 ^ 64")
  case True
  then have "unat (n + 1) = unat n + 1" by (subst unat_add_lem [THEN iffD1]) simp_all
  then have "n + 1 \<noteq> 0" by (metis add_eq_0_iff_both_eq_0 one_neq_zero unat_0)
  with True show ?thesis by (simp add: saturating_add_u64_def checked_add_u64_def)
qed (simp add: saturating_add_u64_def checked_add_u64_def)

locale keyed_category =
  fixes key :: "'a \<Rightarrow> 'k" and capacity :: nat
  assumes capacity_positive: "0 < capacity"
begin

lemma publish_current:
  assumes "holds_current key capacity m c"
  shows "holds_current key capacity (current_perform key (Publish f) m) (category_perform key capacity (Publish f) c)"
proof -
  let ?map = "\<lambda>fs. map_of (map (\<lambda>f. (key f, f)) fs)"
  from assms have bound: "length (cg_facts c) \<le> capacity" and dist: "distinct (map key (cg_facts c))"
    and sub: "?map (cg_facts c) \<subseteq>\<^sub>m m" and all: "cg_dropped c = 0 \<longrightarrow> ?map (cg_facts c) = m"
    by (auto simp: holds_current_def category_map_def)
  show ?thesis
  proof (cases "\<exists>x\<in>set (cg_facts c). key x = key f")
    case True
    then have "?map (replace_first (\<lambda>x. key x = key f) f (cg_facts c)) = (?map (cg_facts c))(key f \<mapsto> f)"
      using category_map_replace [OF dist] by blast
    then show ?thesis using True bound dist sub all
      by (simp add: holds_current_def category_map_def category_publish_def map_key_replace)
  next
    case False
    have new: "?map (fs @ [f]) = (?map fs)(key f \<mapsto> f)" if "key f \<notin> key ` set fs" for fs
      using that by (induction fs) (auto simp: fun_upd_twist)
    have fresh: "key f \<notin> key ` set (cg_facts c)" "key f \<notin> key ` set (tl (cg_facts c))"
      using False by (cases "cg_facts c"; force)+
    have tail: "?map (tl (cg_facts c)) \<subseteq>\<^sub>m ?map (cg_facts c)" if "cg_facts c \<noteq> []"
      using that dist by (cases "cg_facts c") (auto simp: map_le_def dest!: map_of_SomeD)
    show ?thesis
    proof (cases "capacity \<le> length (cg_facts c)")
      case True
      then have "cg_facts c \<noteq> []" using capacity_positive by auto
      then have "?map (tl (cg_facts c)) \<subseteq>\<^sub>m m" using map_le_trans [OF tail sub] by blast
      then have "?map (tl (cg_facts c) @ [f]) \<subseteq>\<^sub>m m(key f \<mapsto> f)" unfolding new [OF fresh(2)] by (rule map_le_upd)
      moreover have "distinct (map key (tl (cg_facts c) @ [f]))" using dist fresh(2) by (cases "cg_facts c") auto
      ultimately show ?thesis using True False bound fresh saturating_next_nonzero capacity_positive
        by (auto simp: holds_current_def category_map_def category_publish_def Let_def simp del: map_append)
    next
      case small: False
      have "?map (cg_facts c @ [f]) \<subseteq>\<^sub>m m(key f \<mapsto> f)" "cg_dropped c = 0 \<longrightarrow> ?map (cg_facts c @ [f]) = m(key f \<mapsto> f)"
        using map_le_upd [OF sub] all by (simp_all only: new [OF fresh(1)]) simp
      moreover have "distinct (map key (cg_facts c @ [f]))" using dist fresh(1) by simp
      ultimately show ?thesis using small False
        by (auto simp: holds_current_def category_map_def category_publish_def Let_def simp del: map_append)
    qed
  qed
qed

lemma forget_current:
  assumes "holds_current key capacity m c"
  shows "holds_current key capacity (current_perform key (Forget P) m) (category_perform key capacity (Forget P) c)"
  using assms
  by (auto simp: holds_current_def category_forget_def category_map_def map_of_filter_keys map_le_def distinct_map_filter
      intro: order_trans[OF length_filter_le] split: if_splits)

lemma log_current:
  "holds_current key capacity (current_facts key ops) (fold (category_perform key capacity) ops category_default)"
proof -
  have "holds_current key capacity (fold (current_perform key) ops m) (fold (category_perform key capacity) ops c)"
    if "holds_current key capacity m c" for m c
    using that
  proof (induction ops arbitrary: m c)
    case (Cons x ops)
    then show ?case by (cases x) (simp_all only: fold_simps publish_current forget_current)
  qed simp
  then show ?thesis by (simp add: current_facts_def holds_current_def category_map_def category_default_def)
qed

end

subsection \<open>The facts of a running program\<close>

text \<open>The capacity is a non-zero number (\<open>NonZeroUsize\<close>), at most what the default holds unless it is configured.\<close>

interpretation relay_facts: keyed_category relay_key "Suc n" for n by unfold_locales simp
interpretation query_facts: keyed_category qd_observation "Suc n" for n by unfold_locales simp
interpretation write_facts: keyed_category wd_receipt "Suc n" for n by unfold_locales simp
interpretation provider_facts: keyed_category provider_key "Suc n" for n by unfold_locales simp
interpretation limit_facts: keyed_category limit_key "Suc n" for n by unfold_locales simp

lemma diagnostics_categories:
  "dg_capacity (fold diagnostics_perform ops d) = dg_capacity d"
  "dg_relays (fold diagnostics_perform ops d) = fold (category_perform relay_key (dg_capacity d)) (List.map_filter relay_op ops) (dg_relays d)"
  "dg_queries (fold diagnostics_perform ops d) = fold (category_perform qd_observation (dg_capacity d)) (List.map_filter query_op ops) (dg_queries d)"
  "dg_writes (fold diagnostics_perform ops d) = fold (category_perform wd_receipt (dg_capacity d)) (List.map_filter write_op ops) (dg_writes d)"
  "dg_providers (fold diagnostics_perform ops d) = fold (category_perform provider_key (dg_capacity d)) (List.map_filter provider_op ops) (dg_providers d)"
  "dg_limits (fold diagnostics_perform ops d) = fold (category_perform limit_key (dg_capacity d)) (List.map_filter limit_op ops) (dg_limits d)"
proof (induction ops arbitrary: d)
  case (Cons x ops)
  note defs = publish_relay_def forget_relay_def publish_query_def forget_query_def publish_write_def forget_write_def
    publish_provider_def forget_provider_def publish_limit_def forget_limit_def
  case 1 show ?case by (cases x) (simp_all add: Cons.IH defs)
  case 2 show ?case by (cases x) (simp_all add: Cons.IH defs List.map_filter_simps relay_key_def)
  case 3 show ?case by (cases x) (simp_all add: Cons.IH defs List.map_filter_simps)
  case 4 show ?case by (cases x) (simp_all add: Cons.IH defs List.map_filter_simps)
  case 5 show ?case by (cases x) (simp_all add: Cons.IH defs List.map_filter_simps)
  case 6 show ?case by (cases x) (simp_all add: Cons.IH defs List.map_filter_simps)
qed (simp_all add: List.map_filter_simps)

text \<open>
  (C35) Whatever owners publish and forget, in any order: each category holds at most the capacity, one
  fact per identity, only facts that are the last published under their identity and were not
  forgotten since, and all of them as long as its count of dropped facts is zero.
\<close>

theorem diagnostics_hold_current_facts:
  assumes "capacity \<noteq> 0" "d = fold diagnostics_perform ops (diagnostics_bounded capacity)"
  shows "holds_current relay_key capacity (current_facts relay_key (List.map_filter relay_op ops)) (dg_relays d)
     \<and> holds_current qd_observation capacity (current_facts qd_observation (List.map_filter query_op ops)) (dg_queries d)
     \<and> holds_current wd_receipt capacity (current_facts wd_receipt (List.map_filter write_op ops)) (dg_writes d)
     \<and> holds_current provider_key capacity (current_facts provider_key (List.map_filter provider_op ops)) (dg_providers d)
     \<and> holds_current limit_key capacity (current_facts limit_key (List.map_filter limit_op ops)) (dg_limits d)"
proof -
  obtain n where "capacity = Suc n" using assms(1) by (cases capacity) simp
  then show ?thesis
    by (simp add: assms(2) diagnostics_categories diagnostics_bounded_def relay_facts.log_current query_facts.log_current
        write_facts.log_current provider_facts.log_current limit_facts.log_current)
qed

definition query_note :: "observation_id \<Rightarrow> u64 \<Rightarrow> query_diagnostic" where
  "query_note i n = \<lparr>qd_observation = i, qd_route_revision = None, qd_route_relays = [], qd_demand = [], qd_plan_revision = None,
     qd_wire = [], qd_shortfalls = [], qd_pending_operation = None, qd_coalesced_updates = n\<rparr>"

theorem diagnostics_hold_current_facts_witness:
  "\<exists>d. d = fold diagnostics_perform [OpQuery (query_note 1 0), OpQuery (query_note 2 0), OpQuery (query_note 1 5), OpForgetQuery 2] (diagnostics_bounded 1)
     \<and> cg_facts (dg_queries d) = [query_note 1 5] \<and> cg_dropped (dg_queries d) = 2 \<and> length (cg_facts (dg_queries d)) \<le> 1"
proof (intro exI conjI)
  let ?d = "fold diagnostics_perform [OpQuery (query_note 1 0), OpQuery (query_note 2 0), OpQuery (query_note 1 5), OpForgetQuery 2] (diagnostics_bounded 1)"
  show "?d = ?d" ..
  show "cg_facts (dg_queries ?d) = [query_note 1 5]" "cg_dropped (dg_queries ?d) = 2" by code_simp+
  show "length (cg_facts (dg_queries ?d)) \<le> 1"
    using diagnostics_hold_current_facts [of 1 ?d, OF _ refl] by (simp add: holds_current_def)
qed

subsection \<open>A replaced connection stays listed\<close>

text \<open>
  A fact is forgotten only for a whole relay. A reconnect gives a slot a new generation and with it a
  new identity, so the record of the connection that is gone stays beside the new one.
\<close>

lemma publish_keeps_other_relay:
  assumes "x \<in> set (cg_facts (dg_relays d))" "relay_key x \<noteq> relay_key f" "length (cg_facts (dg_relays d)) < dg_capacity d"
  shows "x \<in> set (cg_facts (dg_relays (publish_relay f d))) \<and> f \<in> set (cg_facts (dg_relays (publish_relay f d)))"
proof -
  have keeps: "x \<in> set (replace_first P f xs)" if "x \<in> set xs" "\<not> P x" for P and xs :: "relay_fact list"
    using that by (induction xs) auto
  have adds: "f \<in> set (replace_first P f xs)" if "\<exists>y\<in>set xs. P y" for P and xs :: "relay_fact list"
    using that by (induction xs) auto
  show ?thesis using assms
    by (auto simp: publish_relay_def category_publish_def Let_def intro: keeps adds)
qed

text \<open>
  Two records of one slot: after a connection is replaced, what is published for the new generation
  leaves the record of the old one in place.
\<close>

theorem replaced_connection_stays_listed:
  assumes "old \<in> set (cg_facts (dg_relays d))" "rf_session old = relay" "rf_generation old = Some g"
    and "engine_slot relay g' en = Some sl" "sl_generation sl \<noteq> g" "length (cg_facts (dg_relays d)) < dg_capacity d"
  shows "\<exists>f. en_facts (publish_relay_diagnostic env relay g' en) = en_facts en @ [f]
     \<and> old \<in> set (cg_facts (dg_relays (diagnostics_perform (fact_op f) d)))
     \<and> (\<exists>new\<in>set (cg_facts (dg_relays (diagnostics_perform (fact_op f) d))). rf_session new = relay \<and> rf_generation new = Some (sl_generation sl))"
proof -
  obtain f where published: "publish_relay_diagnostic env relay g' en = fact (FactRelay f) en"
    and f: "rf_session f = relay" "rf_generation f = Some (sl_generation sl)"
    using assms(4) by (simp add: publish_relay_diagnostic_def)
  have "relay_key old \<noteq> relay_key f" using assms(3,5) f by (auto simp: relay_key_def)
  from publish_keeps_other_relay [OF assms(1) this assms(6)] f published show ?thesis
    by (intro exI [of _ "FactRelay f"]) (auto simp: fact_def)
qed

end
