(* ===== verification/Redb_Write_Store.thy ===== *)
theory Redb_Write_Store
  imports Write_Runs Edit_Protocols
begin

section \<open>The durable write store (\<open>fava-write-store-redb\<close>)\<close>

text \<open>
  \<open>crates/fava-write-store-redb/src\<close>. The ledger in memory is the one behind the mutex; the file is
  the two tables of \<open>schema.rs\<close>. Every operation commits at most one transaction before it changes
  the ledger, and a transaction that fails leaves the file as it was: \<open>io\<close> is the error of that
  transaction, if it has one. The bytes of a row are what \<open>serde_json\<close> writes: \<open>redb_lib\<close> holds its
  two functions and the text of \<open>redb\<close>'s error for a table that does not exist. The crate repeats
  the validation of \<open>fava-write-store-memory\<close> line by line (\<open>semantic_acceptance.rs\<close>, \<open>settle\<close>,
  \<open>destinations\<close>, \<open>attributed_failure\<close>); those definitions are shared.
\<close>

subsection \<open>Ledger and file\<close>

type_synonym redb_custody = "event_edit list \<times> public_key \<times> source_ref \<times> event_id option \<times> successor option"

record redb_state =
  rs_revision :: u64
  rs_next_identity :: u64
  rs_next_reservation :: u64
  rs_reservations :: "(u64, event_coord) btree_map"
  rs_receipts :: "(receipt_id, receipt) btree_map"
  rs_coordinates :: "(event_coord, receipt_id) btree_map"
  rs_semantics :: "(receipt_id, redb_custody) btree_map"

record persisted_receipt =
  pr_receipt :: receipt
  pr_semantic :: "redb_custody option"

record redb_lib =
  rl_encode :: "persisted_receipt \<Rightarrow> string + string"
  rl_decode :: "string \<Rightarrow> string + persisted_receipt"
  rl_no_table :: string

text \<open>The file: whether the tables exist, the two numbers of \<open>META\<close>, and the rows.\<close>

record durable =
  du_tables :: bool
  du_version :: "u64 option"
  du_next_id :: "u64 option"
  du_rows :: "(u64, string) btree_map"

record redb_store =
  rd_active :: nat
  rd_terminal :: nat
  rd_state :: redb_state
  rd_disk :: durable
  rd_latest :: source_snapshot
  rd_changes :: "(receipt_id \<times> receipt option) list"

type_synonym 'a redb_step = "(write_store_error + 'a) \<times> redb_store"

text \<open>\<open>Result::map\<close> on the answer of an operation.\<close>

definition map_step :: "('a \<Rightarrow> 'b) \<Rightarrow> 'a redb_step \<Rightarrow> 'b redb_step" where
  "map_step f step = (map_sum id f (fst step), snd step)"

definition redb_snapshot :: "redb_state \<Rightarrow> source_snapshot" where
  "redb_snapshot st =
     \<lparr>ss_kind = WriteStore, ss_revision = rs_revision st, ss_status = SourceOpen,
      ss_events = map (\<lambda>r. LocalContribution (rc_current r)) (List.filter (\<lambda>r. rc_outcome r \<noteq> Cancelled) (bt_values (rs_receipts st))),
      ss_retractions = []\<rparr>"

subsection \<open>Transactions (\<open>schema.rs\<close>)\<close>

definition SCHEMA_VERSION :: u64 where "SCHEMA_VERSION = 1"

definition write_row :: "redb_lib \<Rightarrow> receipt \<Rightarrow> redb_custody option \<Rightarrow> durable \<Rightarrow> write_store_error + durable" where
  "write_row L r semantic d =
     (case rl_encode L \<lparr>pr_receipt = r, pr_semantic = semantic\<rparr> of
        Inl e \<Rightarrow> Inl (StoreRefused e)
      | Inr b \<Rightarrow> Inr (d\<lparr>du_rows := bt_insert (rc_receipt_id r) b (du_rows d)\<rparr>))"

definition finish_transaction :: "string option \<Rightarrow> durable \<Rightarrow> write_store_error + durable" where
  "finish_transaction io d = (case io of Some e \<Rightarrow> Inl (StoreRefused e) | None \<Rightarrow> Inr d)"

definition redb_commit ::
  "redb_lib \<Rightarrow> string option \<Rightarrow> u64 option \<Rightarrow> (receipt \<times> redb_custody option) option \<Rightarrow> receipt_id list \<Rightarrow> durable
     \<Rightarrow> write_store_error + durable" where
  "redb_commit L io next_id row removals d =
     try_then (case row of None \<Rightarrow> Inr d | Some (r, semantic) \<Rightarrow> write_row L r semantic d) (\<lambda>d.
       let d = d\<lparr>du_rows := fold bt_remove removals (du_rows d)\<rparr>;
           d = (case next_id of None \<Rightarrow> d | Some n \<Rightarrow> d\<lparr>du_next_id := Some n\<rparr>)
       in finish_transaction io d)"

fun persist_rows :: "redb_lib \<Rightarrow> redb_state \<Rightarrow> receipt_id list \<Rightarrow> durable \<Rightarrow> write_store_error + durable" where
  "persist_rows L st [] d = Inr d"
| "persist_rows L st (i # is) d =
     try_then (ok_or (StoreRefused ''recovered receipt disappeared'') (bt_get (rs_receipts st) i)) (\<lambda>r.
     try_then (write_row L r (bt_get (rs_semantics st) i) d) (\<lambda>d. persist_rows L st is d))"

definition persist_existing :: "redb_lib \<Rightarrow> string option \<Rightarrow> redb_state \<Rightarrow> receipt_id list \<Rightarrow> durable \<Rightarrow> write_store_error + durable" where
  "persist_existing L io st is d = try_then (persist_rows L st is d) (finish_transaction io)"

subsection \<open>Bookkeeping (\<open>lifecycle.rs\<close>, \<open>lib.rs\<close>)\<close>

definition redb_next_revision :: "redb_state \<Rightarrow> write_store_error + u64" where
  "redb_next_revision st = ok_or (StoreRefused ''source revision exhausted'') (checked_add_u64 (rs_revision st) 1)"

definition redb_active_count :: "redb_state \<Rightarrow> nat" where
  "redb_active_count st = length (List.filter (\<lambda>r. \<not> receipt_is_terminal r) (bt_values (rs_receipts st)))"

definition redb_capacity_reached :: "redb_state \<Rightarrow> nat \<Rightarrow> bool" where
  "redb_capacity_reached st capacity \<longleftrightarrow>
     redb_active_count st + length (List.filter (\<lambda>c. bt_get (rs_coordinates st) c = None) (bt_values (rs_reservations st))) \<ge> capacity"

definition redb_capacity_refusal :: "nat \<Rightarrow> write_store_error" where
  "redb_capacity_refusal n = StoreRefused (''active write bound '' @ show_nat n @ '' reached'')"

text \<open>Identities are sorted, so the oldest terminal receipts leave first.\<close>

definition terminal_evictions :: "redb_state \<Rightarrow> receipt \<Rightarrow> nat \<Rightarrow> receipt_id list" where
  "terminal_evictions st updated maximum =
     (let terminal = sort (map rc_receipt_id
            (List.filter (\<lambda>r. receipt_is_terminal r \<and> rc_receipt_id r \<noteq> rc_receipt_id updated) (bt_values (rs_receipts st))));
          projected = length terminal + (if receipt_is_terminal updated then 1 else 0)
      in take (projected - maximum) terminal)"

definition release_semantic_coordinate :: "receipt_id \<Rightarrow> redb_state \<Rightarrow> redb_state" where
  "release_semantic_coordinate i st =
     (case bt_get (rs_semantics st) i of
        None \<Rightarrow> st
      | Some (edits, author, _, _, _) \<Rightarrow>
          if edits = [] then st
          else st\<lparr>rs_coordinates := bt_remove (edit_coordinate (last edits) author) (rs_coordinates st)\<rparr>)"

definition redb_release_semantic :: "receipt_id \<Rightarrow> redb_state \<Rightarrow> redb_state" where
  "redb_release_semantic i st = (release_semantic_coordinate i st)\<lparr>rs_semantics := bt_remove i (rs_semantics st)\<rparr>"

definition evict_receipt :: "receipt_id \<Rightarrow> redb_state \<Rightarrow> redb_state" where
  "evict_receipt i st = (let st = redb_release_semantic i st in st\<lparr>rs_receipts := bt_remove i (rs_receipts st)\<rparr>)"

text \<open>The ledger after a commit, its snapshot, the evictions and the receipt announced in this order.\<close>

definition redb_publish :: "durable \<Rightarrow> redb_state \<Rightarrow> (receipt_id \<times> receipt option) list \<Rightarrow> redb_store \<Rightarrow> redb_store" where
  "redb_publish disk st changes s =
     s\<lparr>rd_disk := disk, rd_state := st, rd_latest := redb_snapshot st, rd_changes := rd_changes s @ changes\<rparr>"

definition evicted_changes :: "receipt_id list \<Rightarrow> (receipt_id \<times> receipt option) list" where
  "evicted_changes removals = map (\<lambda>i. (i, None)) removals"

definition set_receipt :: "receipt_id \<Rightarrow> receipt \<Rightarrow> u64 \<Rightarrow> redb_state \<Rightarrow> redb_state" where
  "set_receipt i r revision st = st\<lparr>rs_receipts := bt_insert i r (rs_receipts st), rs_revision := revision\<rparr>"

definition redb_update ::
  "redb_lib \<Rightarrow> string option \<Rightarrow> receipt_id \<Rightarrow> (receipt \<Rightarrow> write_store_error + receipt) \<Rightarrow> redb_store \<Rightarrow> receipt redb_step" where
  "redb_update L io i mutation s =
     (let st = rd_state s in
      try_in s (ok_or (StoreRefused ''receipt does not exist'') (bt_get (rs_receipts st) i)) (\<lambda>original.
      try_in s (mutation original) (\<lambda>r.
      if r = original then (Inr r, s)
      else
        let removals = terminal_evictions st r (rd_terminal s) in
        try_in s (redb_next_revision st) (\<lambda>next.
        try_in s (redb_commit L io None (Some (r, bt_get (rs_semantics st) i)) removals (rd_disk s)) (\<lambda>disk.
          let st = fold evict_receipt removals st;
              st = (if receipt_is_terminal r then release_semantic_coordinate i st else st)
          in (Inr r, redb_publish disk (set_receipt i r next st) (evicted_changes removals @ [(i, Some r)]) s))))))"

text \<open>\<open>commit_receipt\<close> of \<open>signing.rs\<close>: no eviction, the custody written as it is.\<close>

definition redb_commit_receipt :: "redb_lib \<Rightarrow> string option \<Rightarrow> receipt \<Rightarrow> redb_store \<Rightarrow> receipt redb_step" where
  "redb_commit_receipt L io r s =
     (let st = rd_state s; i = rc_receipt_id r in
      try_in s (redb_next_revision st) (\<lambda>next.
      try_in s (redb_commit L io None (Some (r, bt_get (rs_semantics st) i)) [] (rd_disk s)) (\<lambda>disk.
        (Inr r, redb_publish disk (set_receipt i r next st) [(i, Some r)] s))))"

text \<open>A revision and the custody it has from now on.\<close>

definition install_custody ::
  "redb_lib \<Rightarrow> string option \<Rightarrow> receipt_id \<Rightarrow> receipt \<Rightarrow> redb_custody \<Rightarrow> redb_store \<Rightarrow> receipt redb_step" where
  "install_custody L io i r custody s =
     (let st = rd_state s in
      try_in s (redb_next_revision st) (\<lambda>next.
      try_in s (redb_commit L io None (Some (r, Some custody)) [] (rd_disk s)) (\<lambda>disk.
        (Inr r, redb_publish disk (set_receipt i r next (st\<lparr>rs_semantics := bt_insert i custody (rs_semantics st)\<rparr>)) [(i, Some r)] s))))"

text \<open>A successor recorded beside an authorized revision, which itself does not change.\<close>

definition install_successor ::
  "redb_lib \<Rightarrow> string option \<Rightarrow> receipt_id \<Rightarrow> receipt \<Rightarrow> redb_custody \<Rightarrow> redb_store \<Rightarrow> receipt redb_step" where
  "install_successor L io i r custody s =
     (let st = rd_state s in
      try_in s (redb_commit L io None (Some (r, Some custody)) [] (rd_disk s)) (\<lambda>disk.
        (Inr r, s\<lparr>rd_disk := disk, rd_state := st\<lparr>rs_semantics := bt_insert i custody (rs_semantics st)\<rparr>,
                  rd_changes := rd_changes s @ [(i, Some r)]\<rparr>)))"

definition has_successor :: "receipt_id \<Rightarrow> redb_state \<Rightarrow> bool" where
  "has_successor i st = (case bt_get (rs_semantics st) i of Some (_, _, _, _, Some _) \<Rightarrow> True | _ \<Rightarrow> False)"

subsection \<open>Acceptance (\<open>ops.rs\<close>)\<close>

definition redb_accept :: "redb_lib \<Rightarrow> string option \<Rightarrow> write_intent \<Rightarrow> redb_store \<Rightarrow> accepted_write redb_step" where
  "redb_accept L io intent s =
     (let st = rd_state s; identity = rs_next_identity st; routing = wi_routing intent in
      try_in s (require (\<not> redb_capacity_reached st (rd_active s)) (redb_capacity_refusal (rd_active s))) (\<lambda>_.
      try_in s (next_identity identity) (\<lambda>following.
      try_in s (payload_value (wi_payload intent)) (\<lambda>(event, signature).
      try_in s (local_event event (fresh_publication identity None signature routing)) (\<lambda>current.
      let r = fresh_receipt identity current routing (wi_access intent) in
      try_in s (redb_next_revision st) (\<lambda>next.
      try_in s (redb_commit L io (Some following) (Some (r, None)) [] (rd_disk s)) (\<lambda>disk.
        (Inr (accepted_of r), redb_publish disk (set_receipt identity r next (st\<lparr>rs_next_identity := following\<rparr>)) [(identity, Some r)] s))))))))"

subsection \<open>Same-coordinate composition (\<open>semantic_composition.rs\<close>)\<close>

definition redb_compose_semantic ::
  "redb_lib \<Rightarrow> string option \<Rightarrow> nostr_lib \<Rightarrow> receipt_id \<Rightarrow> event_edit \<Rightarrow> public_key \<Rightarrow> write_routing \<Rightarrow> unsigned_event \<Rightarrow> event_value option
     \<Rightarrow> route_plan option \<Rightarrow> redb_store \<Rightarrow> accepted_write redb_step" where
  "redb_compose_semantic L io N i edit author routing u source initial_route s =
     (let st = rd_state s in
      try_in s (ok_or (StoreRefused ''coordinate owner is missing'') (bt_get (rs_receipts st) i)) (\<lambda>r.
      try_in s (ok_or (StoreRefused ''semantic custody is missing'') (bt_get (rs_semantics st) i))
        (\<lambda>(edits, stored_author, current_source, _, successor).
      try_in s (require (stored_author = author \<and> rc_routing r = routing)
        (StoreRefused ''same-coordinate edit author or routing differs from the active operation'')) (\<lambda>_.
      try_in s (require (is_unsigned (lw_event (rc_current r)))
        (StoreRefused ''same-coordinate edit composition requires an unsigned current generation'')) (\<lambda>_.
      try_in s (composition_source N edit author source r) (\<lambda>_.
      try_in s (retired_room r) (\<lambda>_.
      try_in s (successor_route r initial_route) (\<lambda>route.
      try_in s (route_if N route r) (\<lambda>_.
        if signature_of r = SigAuthorized
        then try_in s (require (successor = None) (StoreRefused ''replaceable coordinate already has a durable successor'')) (\<lambda>_.
          map_step (\<lambda>r. accepted_of r\<lparr>aw_receipt_id := i\<rparr>)
            (install_successor L io i r (edits, author, current_source, None, Some (Some edit, u, current_source, route)) s))
        else
          try_in s (next_revision_id r) (\<lambda>revision.
          try_in s (local_event (Unsigned u)
            (successor_publication i r revision (map_option fst current_source) (destinations_of routing))) (\<lambda>current.
          try_in s (route_if N route (successor_receipt current r)) (\<lambda>updated.
          let custody = (edits @ [edit], author, current_source, None, None) in
          try_in s (redb_next_revision st) (\<lambda>next.
          try_in s (redb_commit L io None (Some (updated, if receipt_is_terminal updated then None else Some custody)) [] (rd_disk s)) (\<lambda>disk.
            let st = (if receipt_is_terminal updated then redb_release_semantic i st
                      else st\<lparr>rs_semantics := bt_insert i custody (rs_semantics st)\<rparr>)
            in (Inr (accepted_of updated\<lparr>aw_receipt_id := i\<rparr>),
                redb_publish disk (set_receipt i updated next st) [(i, Some updated)] s)))))))))))))))"

subsection \<open>Semantic acceptance, revision and failure (\<open>semantic.rs\<close>)\<close>

definition redb_check_reservation :: "u64 option \<Rightarrow> event_coord \<Rightarrow> redb_state \<Rightarrow> write_store_error + redb_state" where
  "redb_check_reservation reservation coord st =
     (case reservation of
        None \<Rightarrow> Inr st
      | Some n \<Rightarrow>
          (case bt_get (rs_reservations st) n of
             None \<Rightarrow> Inl (StoreRefused ''active reservation is not current'')
           | Some c \<Rightarrow>
               if c \<noteq> coord
               then Inl (StoreRefused ''active reservation belongs to a different replaceable coordinate'')
               else Inr (st\<lparr>rs_reservations := bt_remove n (rs_reservations st)\<rparr>)))"

text \<open>The end of \<open>accept_semantic_inner\<close>: a write at a coordinate nobody owns.\<close>

definition redb_accept_new ::
  "redb_lib \<Rightarrow> string option \<Rightarrow> nostr_lib \<Rightarrow> bool \<Rightarrow> write_intent \<Rightarrow> event_edit \<Rightarrow> public_key \<Rightarrow> unsigned_event \<Rightarrow> source_ref
     \<Rightarrow> route_plan option \<Rightarrow> redb_store \<Rightarrow> accepted_write redb_step" where
  "redb_accept_new L io N reserved intent edit author u selected initial_route s =
     (let st = rd_state s; routing = wi_routing intent; identity = rs_next_identity st in
      try_in s (require (reserved \<or> \<not> redb_capacity_reached st (rd_active s)) (redb_capacity_refusal (rd_active s))) (\<lambda>_.
      try_in s (next_identity identity) (\<lambda>following.
      try_in s (local_event (Unsigned u)
        (fresh_publication identity (map_option fst selected) SigUnsigned routing)) (\<lambda>current.
      try_in s (route_if N initial_route (fresh_receipt identity current routing (wi_access intent))) (\<lambda>r.
      let custody = ([edit], author, selected, None, None); removals = terminal_evictions st r (rd_terminal s) in
      try_in s (redb_next_revision st) (\<lambda>next.
      try_in s (redb_commit L io (Some following) (Some (r, Some custody)) removals (rd_disk s)) (\<lambda>disk.
        let st = fold evict_receipt removals st;
            st = st\<lparr>rs_next_identity := following, rs_semantics := bt_insert identity custody (rs_semantics st)\<rparr>;
            st = (if receipt_is_terminal r then st
                  else st\<lparr>rs_coordinates := bt_insert (edit_coordinate edit author) identity (rs_coordinates st)\<rparr>)
        in (Inr (accepted_of r),
            redb_publish disk (set_receipt identity r next st) (evicted_changes removals @ [(identity, Some r)]) s))))))))"

definition redb_accept_semantic_inner ::
  "redb_lib \<Rightarrow> string option \<Rightarrow> nostr_lib \<Rightarrow> timestamp \<Rightarrow> u64 option \<Rightarrow> write_intent \<Rightarrow> unsigned_event \<Rightarrow> event_value option
     \<Rightarrow> route_plan option \<Rightarrow> redb_store \<Rightarrow> accepted_write redb_step" where
  "redb_accept_semantic_inner L io N now reservation intent u source initial_route s =
     (let routing = wi_routing intent in
      try_in s (payload_edit (wi_payload intent)) (\<lambda>(edit, author).
      let coord = edit_coordinate edit author in
      try_in s (redb_check_reservation reservation coord (rd_state s)) (\<lambda>st.
      let s = s\<lparr>rd_state := st\<rparr> in
      try_in s (validate_revision N now edit author u source routing) (\<lambda>selected.
      case bt_get (rs_coordinates st) coord of
        Some i \<Rightarrow>
          try_in s (ok_or (StoreRefused ''coordinate owner is missing'') (bt_get (rs_receipts st) i)) (\<lambda>r.
          try_in s (ok_or (StoreRefused ''semantic custody is missing'') (bt_get (rs_semantics st) i))
            (\<lambda>(edits, a, current_source, failed, _).
            if is_replay N r (edits, a, current_source, failed) edit author selected routing u initial_route
            then (Inr (accepted_of r), s)
            else redb_compose_semantic L io N i edit author routing u source initial_route s))
      | None \<Rightarrow> redb_accept_new L io N (reservation \<noteq> None) intent edit author u selected initial_route s))))"

definition redb_reserve_active :: "event_edit \<Rightarrow> public_key \<Rightarrow> redb_store \<Rightarrow> u64 redb_step" where
  "redb_reserve_active edit author s =
     (let st = rd_state s; coord = edit_coordinate edit author in
      try_in s (require (coord \<notin> set (bt_values (rs_reservations st)))
        (StoreRefused ''replaceable coordinate already has an active reservation'')) (\<lambda>_.
      try_in s (require (case bt_get (rs_coordinates st) coord of None \<Rightarrow> True | Some i \<Rightarrow> \<not> has_successor i st)
        (StoreRefused ''replaceable coordinate already has a durable successor'')) (\<lambda>_.
      try_in s (require (bt_get (rs_coordinates st) coord \<noteq> None \<or> \<not> redb_capacity_reached st (rd_active s))
        (redb_capacity_refusal (rd_active s))) (\<lambda>_.
      let reservation = rs_next_reservation st in
      try_in s (ok_or (StoreRefused ''active reservation exhausted'') (checked_add_u64 reservation 1)) (\<lambda>next.
        (Inr reservation, s\<lparr>rd_state := st\<lparr>rs_next_reservation := next,
           rs_reservations := bt_insert reservation coord (rs_reservations st)\<rparr>\<rparr>))))))"

definition redb_release_active :: "u64 \<Rightarrow> redb_store \<Rightarrow> unit redb_step" where
  "redb_release_active reservation s =
     (let st = rd_state s in
      try_in s (ok_or (StoreRefused ''active reservation is not current'') (bt_get (rs_reservations st) reservation)) (\<lambda>coord.
        let s = s\<lparr>rd_state := st\<lparr>rs_reservations := bt_remove reservation (rs_reservations st)\<rparr>\<rparr>
        in (Inr (), case Option.bind (bt_get (rs_coordinates st) coord) (\<lambda>i. map_option (Pair i) (bt_get (rs_receipts st) i)) of
              None \<Rightarrow> s
            | Some (i, r) \<Rightarrow> s\<lparr>rd_changes := rd_changes s @ [(i, Some r)]\<rparr>)))"

definition redb_install_semantic ::
  "redb_lib \<Rightarrow> string option \<Rightarrow> nostr_lib \<Rightarrow> timestamp \<Rightarrow> write_id \<Rightarrow> receipt_id \<Rightarrow> revision_id \<Rightarrow> event_id option \<Rightarrow> event_edit list
     \<Rightarrow> unsigned_event \<Rightarrow> event_value option \<Rightarrow> route_plan option \<Rightarrow> redb_store \<Rightarrow> receipt redb_step" where
  "redb_install_semantic L io N now write i expected expected_source applied u source initial_route s =
     (let st = rd_state s in
      try_in s (ok_or (StoreRefused ''receipt does not exist'') (bt_get (rs_receipts st) i)) (\<lambda>r.
      try_in s (ok_or (StoreRefused ''semantic custody does not exist'') (bt_get (rs_semantics st) i))
        (\<lambda>(edits, author, current_source, _, successor).
      try_in s (require_current r write expected expected_source current_source) (\<lambda>_.
      try_in s (require (edits = applied)
        (StoreRefused ''successor did not apply the complete durable semantic edit sequence'')) (\<lambda>_.
      try_in s (require (edits \<noteq> []) (StoreRefused ''semantic edit sequence is empty'')) (\<lambda>_.
      try_in s (validate_revision N now (last edits) author u source (rc_routing r)) (\<lambda>selected.
      if value_eq N (lw_event (rc_current r)) (Unsigned u)
         \<and> pe_revision_source (lw_publication (rc_current r)) = map_option fst selected
      then (Inr r, s)
      else
      try_in s (require_qualified_source current_source selected) (\<lambda>_.
      try_in s (ok_or (StoreRefused ''successor revision has no stable id'') (ue_id u)) (\<lambda>ui.
      try_in s (require (event_is_newer (ue_created_at u, ui)
                   (value_created_at (lw_event (rc_current r)), lw_id (rc_current r)))
        (StoreRefused ''successor revision is not newer than current event'')) (\<lambda>_.
      try_in s (retired_room r) (\<lambda>_.
      try_in s (route_if N initial_route r) (\<lambda>_.
        if signature_of r = SigAuthorized
        then try_in s (require (successor = None) (StoreRefused ''replaceable coordinate already has a durable successor'')) (\<lambda>_.
          install_successor L io i r (edits, author, current_source, None, Some (None, u, selected, initial_route)) s)
        else
          let corrections = correction_destinations r in
          try_in s (require (length corrections \<le> DESTINATION_EVIDENCE_CAPACITY)
            (StoreRefused ''correction destination capacity reached'')) (\<lambda>_.
          try_in s (next_revision_id r) (\<lambda>revision.
          try_in s (local_event (Unsigned u)
            (successor_publication i r revision (map_option fst selected) (pending_at corrections))) (\<lambda>current.
          try_in s (route_if N initial_route (r\<lparr>rc_current := current, rc_outcome := Open,
              rc_desired_destinations := corrections, rc_attempts := []\<rparr>)) (\<lambda>updated.
            install_custody L io i updated (edits, author, selected, None, None) s))))))))))))))))"

definition redb_record_semantic_failure ::
  "redb_lib \<Rightarrow> string option \<Rightarrow> nostr_lib \<Rightarrow> write_id \<Rightarrow> receipt_id \<Rightarrow> revision_id \<Rightarrow> event_id option \<Rightarrow> event_value option \<Rightarrow> string
     \<Rightarrow> redb_store \<Rightarrow> receipt redb_step" where
  "redb_record_semantic_failure L io N write i expected expected_source source reason s =
     (let st = rd_state s in
      try_in s (ok_or (StoreRefused ''receipt does not exist'') (bt_get (rs_receipts st) i)) (\<lambda>r.
      try_in s (ok_or (StoreRefused ''semantic custody does not exist'') (bt_get (rs_semantics st) i))
        (\<lambda>(edits, author, current_source, current_failed, successor).
      try_in s (require_current r write expected expected_source current_source) (\<lambda>_.
      try_in s (require (edits \<noteq> []) (StoreRefused ''semantic edit sequence is empty'')) (\<lambda>_.
      try_in s (validate_source N (last edits) author source) (\<lambda>failed_source.
      try_in s (require_failure_source current_source failed_source) (\<lambda>_.
      let failed = map_option fst failed_source;
          failure = attributed_failure N expected failed reason in
      if current_failed = failed \<and> pe_revision_failure (lw_publication (rc_current r)) = Some failure
      then (Inr r, s)
      else install_custody L io i (set_revision_failure failure r) (edits, author, current_source, failed, successor) s)))))))"

subsection \<open>Signing (\<open>signing.rs\<close>)\<close>

definition redb_current ::
  "write_id \<Rightarrow> receipt_id \<Rightarrow> revision_id \<Rightarrow> event_id \<Rightarrow> redb_state \<Rightarrow> write_store_error + receipt" where
  "redb_current write i revision event st =
     (case bt_get (rs_receipts st) i of
        None \<Rightarrow> Inl (StoreRefused ''receipt does not exist'')
      | Some r \<Rightarrow> (case validate_current_revision r write revision event of Inl e \<Rightarrow> Inl e | Inr _ \<Rightarrow> Inr r))"

definition redb_promote_successor :: "redb_lib \<Rightarrow> string option \<Rightarrow> nostr_lib \<Rightarrow> receipt_id \<Rightarrow> redb_store \<Rightarrow> receipt redb_step" where
  "redb_promote_successor L io N i s =
     (let st = rd_state s in
      case bt_get (rs_semantics st) i of
        Some (edits, author, _, _, Some (edit, u, source, route)) \<Rightarrow>
          try_in s (ok_or (StoreRefused ''coordinate owner is missing'') (bt_get (rs_receipts st) i)) (\<lambda>r.
          try_in s (require (signature_of r = SigAuthorized)
            (StoreRefused ''durable successor predecessor is not authorized'')) (\<lambda>_.
          try_in s (next_revision_id r) (\<lambda>revision.
          try_in s (local_event (Unsigned u)
            (successor_publication i r revision (map_option fst source) (successor_destinations edit r))) (\<lambda>current.
          try_in s (route_if N route (successor_receipt current r)) (\<lambda>updated.
            install_custody L io i updated
              (case edit of None \<Rightarrow> edits | Some e \<Rightarrow> edits @ [e], author, source, None, None) s)))))
      | _ \<Rightarrow> (Inl (StoreRefused ''durable semantic successor is missing''), s))"

definition redb_coordinate_reserved :: "receipt_id \<Rightarrow> redb_state \<Rightarrow> bool" where
  "redb_coordinate_reserved i st =
     (case bt_get (rs_semantics st) i of
        None \<Rightarrow> False
      | Some (edits, author, _) \<Rightarrow> edits \<noteq> [] \<and> edit_coordinate (last edits) author \<in> set (bt_values (rs_reservations st)))"

definition redb_authorize_signing ::
  "redb_lib \<Rightarrow> string option \<Rightarrow> nostr_lib \<Rightarrow> write_id \<Rightarrow> receipt_id \<Rightarrow> revision_id \<Rightarrow> event_id \<Rightarrow> redb_store \<Rightarrow> receipt redb_step" where
  "redb_authorize_signing L io N write i revision event s =
     (let st = rd_state s in
      try_in s (redb_current write i revision event st) (\<lambda>r.
      try_in s (require (is_unsigned (lw_event (rc_current r))) (StoreRefused ''event is already signed'')) (\<lambda>_.
      if signature_of r = SigAuthorized then (Inr r, s)
      else
      try_in s (require (signature_of r = SigUnsigned \<or> is_retryable_signature (signature_of r))
        (StoreRefused ''signing authorization is not current'')) (\<lambda>_.
      let sig = (if redb_coordinate_reserved i st then SigRetryable (deferred_text N write i revision event) else SigAuthorized) in
      if signature_of r = sig then (Inr r, s)
      else redb_commit_receipt L io (set_signature sig r) s))))"

definition redb_record_signer_retryable ::
  "redb_lib \<Rightarrow> string option \<Rightarrow> nostr_lib \<Rightarrow> write_id \<Rightarrow> receipt_id \<Rightarrow> revision_id \<Rightarrow> event_id \<Rightarrow> string \<Rightarrow> redb_store \<Rightarrow> receipt redb_step" where
  "redb_record_signer_retryable L io N write i revision event reason s =
     (let st = rd_state s in
      try_in s (validate_receipt_text reason) (\<lambda>_.
      try_in s (redb_current write i revision event st) (\<lambda>r.
      try_in s (require (signature_of r \<in> {SigUnsigned, SigAuthorized} \<or> is_retryable_signature (signature_of r))
        (StoreRefused ''retryable signer failure is not current'')) (\<lambda>_.
      if signature_of r = SigAuthorized \<and> has_successor i st then redb_promote_successor L io N i s
      else redb_commit_receipt L io (set_signature (SigRetryable reason) r) s))))"

definition redb_signing_successor ::
  "write_id \<Rightarrow> receipt_id \<Rightarrow> revision_id \<Rightarrow> event_id \<Rightarrow> redb_store \<Rightarrow> write_store_error + bool" where
  "redb_signing_successor write i revision event s =
     (case redb_current write i revision event (rd_state s) of Inl e \<Rightarrow> Inl e | Inr _ \<Rightarrow> Inr (has_successor i (rd_state s)))"

definition redb_install_signed ::
  "redb_lib \<Rightarrow> string option \<Rightarrow> nostr_lib \<Rightarrow> write_id \<Rightarrow> receipt_id \<Rightarrow> revision_id \<Rightarrow> event_id \<Rightarrow> event \<Rightarrow> redb_store \<Rightarrow> receipt redb_step" where
  "redb_install_signed L io N write i revision event e s =
     (let st = rd_state s in
      try_in s (refusal_of (event_verify N e)) (\<lambda>_.
      try_in s (redb_current write i revision event st) (\<lambda>r.
      try_in s (check_signature N r e) (\<lambda>done.
      if done then (Inr r, s)
      else
      try_in s (require (signature_of r = SigAuthorized) (StoreRefused ''signature completion was not authorized'')) (\<lambda>_.
        if has_successor i st then redb_promote_successor L io N i s
        else redb_commit_receipt L io (set_signature SigSigned (r\<lparr>rc_current := (rc_current r)\<lparr>lw_event := Signed e\<rparr>\<rparr>)) s)))))"

definition redb_record_signer_refusal ::
  "redb_lib \<Rightarrow> string option \<Rightarrow> nostr_lib \<Rightarrow> write_id \<Rightarrow> receipt_id \<Rightarrow> revision_id \<Rightarrow> event_id \<Rightarrow> string \<Rightarrow> redb_store \<Rightarrow> receipt redb_step" where
  "redb_record_signer_refusal L io N write i revision event reason s =
     (let st = rd_state s in
      try_in s (validate_receipt_text reason) (\<lambda>_.
      try_in s (redb_current write i revision event st) (\<lambda>r.
      if signature_of r = SigRefused reason then (Inr r, s)
      else
      try_in s (require (signature_of r = SigAuthorized) (StoreRefused ''signer refusal was not authorized'')) (\<lambda>_.
        if has_successor i st then redb_promote_successor L io N i s
        else redb_commit_receipt L io (set_signature (SigRefused reason) r) s))))"

subsection \<open>Routing, delivery, cancellation and removal (\<open>ops.rs\<close>)\<close>

definition redb_apply_route ::
  "redb_lib \<Rightarrow> string option \<Rightarrow> nostr_lib \<Rightarrow> write_id \<Rightarrow> receipt_id \<Rightarrow> revision_id \<Rightarrow> event_id \<Rightarrow> route_plan \<Rightarrow> redb_store \<Rightarrow> receipt redb_step" where
  "redb_apply_route L io N write i revision event plan s =
     redb_update L io i (\<lambda>r. try_then (validate_current_revision r write revision event) (\<lambda>_. apply_route_to_receipt N plan r)) s"

definition attempt_mutation :: "relay_url \<Rightarrow> u32 \<Rightarrow> receipt \<Rightarrow> write_store_error + receipt" where
  "attempt_mutation session attempt r =
     try_then (require (\<not> is_unsigned (lw_event (rc_current r))) (StoreRefused ''event is not signed'')) (\<lambda>_.
     if attempt_of session r = attempt \<and> bt_get (receipt_destinations r) session = Some Attempting then Inr r
     else
     try_then (ok_or (StoreRefused ''attempt count exhausted'') (checked_next_attempt (attempt_of session r))) (\<lambda>expected.
     try_then (require (attempt = expected) (StoreRefused ''attempt is not current'')) (\<lambda>_.
     try_then (ok_or (StoreRefused ''destination does not exist'') (bt_get (receipt_destinations r) session)) (\<lambda>out.
     try_then (require (out = Pending \<or> is_retryable out) (StoreRefused ''destination is not pending'')) (\<lambda>_.
       Inr ((set_outcome session Attempting r)\<lparr>rc_attempts := bt_insert session attempt (rc_attempts r)\<rparr>))))))"

definition redb_begin_attempt ::
  "redb_lib \<Rightarrow> string option \<Rightarrow> write_id \<Rightarrow> receipt_id \<Rightarrow> revision_id \<Rightarrow> event_id \<Rightarrow> relay_url \<Rightarrow> u32 \<Rightarrow> redb_store \<Rightarrow> receipt redb_step" where
  "redb_begin_attempt L io write i revision event session attempt s =
     redb_update L io i (\<lambda>r. try_then (validate_current_revision r write revision event) (\<lambda>_. attempt_mutation session attempt r)) s"

definition outcome_mutation :: "relay_url \<Rightarrow> u32 \<Rightarrow> relay_delivery_outcome \<Rightarrow> receipt \<Rightarrow> write_store_error + receipt" where
  "outcome_mutation session attempt out r =
     try_then (require (bt_get (rc_attempts r) session = Some attempt) (StoreRefused ''attempt is not current'')) (\<lambda>_.
     try_then (ok_or (StoreRefused ''destination does not exist'') (bt_get (receipt_destinations r) session)) (\<lambda>current.
     if current = out then Inr r
     else
     try_then (require (current = Attempting \<or> (is_retryable current \<and> is_given_up out)) (StoreRefused ''attempt is not current'')) (\<lambda>_.
       Inr (settle (set_outcome session out r)))))"

definition redb_record_outcome ::
  "redb_lib \<Rightarrow> string option \<Rightarrow> write_id \<Rightarrow> receipt_id \<Rightarrow> revision_id \<Rightarrow> event_id \<Rightarrow> relay_url \<Rightarrow> u32 \<Rightarrow> relay_delivery_outcome
     \<Rightarrow> redb_store \<Rightarrow> receipt redb_step" where
  "redb_record_outcome L io write i revision event session attempt out s =
     try_in s (validate_delivery_outcome out) (\<lambda>_.
     try_in s (require (outcome_is_terminal out \<or> is_retryable out)
       (StoreRefused ''recorded delivery outcome is not terminal or retryable'')) (\<lambda>_.
     redb_update L io i (\<lambda>r. try_then (validate_current_revision r write revision event) (\<lambda>_. outcome_mutation session attempt out r)) s))"

definition cancel_mutation :: "receipt \<Rightarrow> write_store_error + receipt" where
  "cancel_mutation r =
     (if receipt_is_terminal r \<or> (\<exists>out\<in>set (bt_values (receipt_destinations r)). \<not> (out = Pending \<or> is_retryable out))
      then Inl (StoreRefused ''receipt can no longer be cancelled before handoff'')
      else Inr ((update_destinations (map (\<lambda>(s, _). (s, CancelledBeforeHandoff))) r)\<lparr>rc_outcome := Cancelled\<rparr>))"

definition redb_cancel :: "redb_lib \<Rightarrow> string option \<Rightarrow> receipt_id \<Rightarrow> redb_store \<Rightarrow> receipt option redb_step" where
  "redb_cancel L io i s =
     (case bt_get (rs_receipts (rd_state s)) i of
        None \<Rightarrow> (Inr None, s)
      | Some r \<Rightarrow>
          if rc_outcome r = Cancelled then (Inr (Some r), s)
          else map_step Some (redb_update L io i cancel_mutation s))"

definition redb_receipt :: "receipt_id \<Rightarrow> redb_store \<Rightarrow> receipt option" where
  "redb_receipt i s = bt_get (rs_receipts (rd_state s)) i"

definition redb_recover_open :: "redb_store \<Rightarrow> receipt list" where
  "redb_recover_open s = List.filter (\<lambda>r. \<not> receipt_is_terminal r) (bt_values (rs_receipts (rd_state s)))"

definition redb_remove_receipt :: "redb_lib \<Rightarrow> string option \<Rightarrow> receipt_id \<Rightarrow> redb_store \<Rightarrow> bool redb_step" where
  "redb_remove_receipt L io i s =
     (let st = rd_state s in
      case bt_get (rs_receipts st) i of
        None \<Rightarrow> (Inr False, s)
      | Some r \<Rightarrow>
          if \<not> receipt_is_terminal r then (Inl (StoreRefused ''active receipt cannot be removed''), s)
          else
            try_in s (redb_next_revision st) (\<lambda>next.
            try_in s (redb_commit L io None None [i] (rd_disk s)) (\<lambda>disk.
              (Inr True, redb_publish disk ((evict_receipt i st)\<lparr>rs_revision := next\<rparr>) [(i, None)] s))))"

definition redb_len :: "redb_store \<Rightarrow> nat" where
  "redb_len s = length (List.filter (\<lambda>r. rc_outcome r \<noteq> Cancelled) (bt_values (rs_receipts (rd_state s))))"

subsection \<open>Reading custody (\<open>recovery.rs\<close>)\<close>

definition redb_recover_semantic :: "redb_store \<Rightarrow> (receipt \<times> custody) list" where
  "redb_recover_semantic s =
     List.map_filter (\<lambda>(i, (edits, author, source, failed, _)). case bt_get (rs_receipts (rd_state s)) i of
         None \<Rightarrow> None
       | Some r \<Rightarrow> if receipt_is_terminal r then None else Some (r, edits, author, source, failed)) (rs_semantics (rd_state s))"

definition redb_semantic_custody :: "receipt_id \<Rightarrow> revision_id \<Rightarrow> redb_store \<Rightarrow> write_store_error + custody option" where
  "redb_semantic_custody i expected s =
     (case bt_get (rs_receipts (rd_state s)) i of
        None \<Rightarrow> Inr None
      | Some r \<Rightarrow>
          if pe_revision_id (lw_publication (rc_current r)) \<noteq> expected
          then Inl (StoreRefused ''semantic custody generation is not current'')
          else Inr (map_option (\<lambda>(edits, author, source, failed, _). (edits, author, source, failed)) (bt_get (rs_semantics (rd_state s)) i)))"

definition redb_source_open :: "query \<Rightarrow> redb_store \<Rightarrow> source_snapshot" where
  "redb_source_open q s = rd_latest s"

end
