(* ===== verification/Redb_Recovery.thy ===== *)
theory Redb_Recovery
  imports Redb_Write_Store
begin

section \<open>Opening the durable write store\<close>

text \<open>
  \<open>validation.rs\<close>, \<open>load\<close> of \<open>schema.rs\<close> and \<open>open_bounded\<close> of \<open>lib.rs\<close>: what a process that
  starts accepts from the file of the one before it.
\<close>

subsection \<open>Validation of a row (\<open>validation.rs\<close>)\<close>

definition incoherent :: "string \<Rightarrow> write_store_error + 'a" where
  "incoherent reason = Inl (StoreRefused reason)"

definition validate_routing :: "receipt \<Rightarrow> write_store_error + unit" where
  "validate_routing r =
     (case rc_routing r of
        Automatic \<Rightarrow> Inr ()
      | Explicit relays \<Rightarrow>
          if relays = [] then incoherent ''durable explicit route is empty''
          else if \<not> distinct relays then incoherent ''durable explicit route repeats a relay identity''
          else if bt_keys (receipt_destinations r) \<noteq> bs_of_list relays \<or> rc_desired_destinations r \<noteq> bs_of_list relays
          then incoherent ''durable explicit route disagrees with its destination lanes''
          else Inr ())"

definition validate_event_and_signature :: "nostr_lib \<Rightarrow> receipt \<Rightarrow> write_store_error + unit" where
  "validate_event_and_signature N r =
     (case (lw_event (rc_current r), signature_of r) of
        (Unsigned u, SigUnsigned) \<Rightarrow> refusal_of (unsigned_verify_id N u)
      | (Unsigned u, SigAuthorized) \<Rightarrow> refusal_of (unsigned_verify_id N u)
      | (Unsigned u, SigRetryable reason) \<Rightarrow> try_then (refusal_of (unsigned_verify_id N u)) (\<lambda>_. validate_receipt_text reason)
      | (Unsigned u, SigRefused reason) \<Rightarrow> try_then (refusal_of (unsigned_verify_id N u)) (\<lambda>_. validate_receipt_text reason)
      | (Signed e, SigSigned) \<Rightarrow> refusal_of (event_verify N e)
      | _ \<Rightarrow> incoherent ''durable signature state disagrees with current event'')"

definition evidence_over_bound :: "receipt \<Rightarrow> bool" where
  "evidence_over_bound r \<longleftrightarrow>
     length (receipt_destinations r) > DESTINATION_EVIDENCE_CAPACITY
     \<or> length (pe_retired_revisions (lw_publication (rc_current r))) > DESTINATION_EVIDENCE_CAPACITY
     \<or> length (rc_desired_destinations r) > DESTINATION_EVIDENCE_CAPACITY \<or> length (rc_attempts r) > DESTINATION_EVIDENCE_CAPACITY
     \<or> length (rc_route_shortfalls r) > DESTINATION_EVIDENCE_CAPACITY
     \<or> (case rc_routing r of Explicit relays \<Rightarrow> length relays > DESTINATION_EVIDENCE_CAPACITY | Automatic \<Rightarrow> False)"

definition validate_bounds_and_text :: "receipt \<Rightarrow> write_store_error + unit" where
  "validate_bounds_and_text r =
     (if evidence_over_bound r then incoherent ''durable destination or evidence count exceeds bound''
      else if (\<exists>s\<in>set (rc_desired_destinations r). bt_get (receipt_destinations r) s = None)
         \<or> (\<exists>(s, attempt)\<in>set (rc_attempts r). attempt = 0 \<or> bt_get (receipt_destinations r) s = None)
      then incoherent ''durable destination ownership is incoherent''
      else
        try_then (check_all validate_delivery_outcome (bt_values (receipt_destinations r))) (\<lambda>_.
        try_then (check_all validate_receipt_text (rc_route_shortfalls r)) (\<lambda>_.
        case pe_revision_failure (lw_publication (rc_current r)) of None \<Rightarrow> Inr () | Some failure \<Rightarrow> validate_receipt_text failure)))"

definition validate_outcome :: "receipt \<Rightarrow> write_store_error + unit" where
  "validate_outcome r =
     (let settled = rc_route_settled r \<and> (\<forall>out\<in>set (bt_values (receipt_destinations r)). outcome_is_terminal out) in
      if (case rc_outcome r of
            Open \<Rightarrow> \<not> settled
          | Cancelled \<Rightarrow> \<forall>out\<in>set (bt_values (receipt_destinations r)). out = CancelledBeforeHandoff
          | Complete \<Rightarrow> settled \<and> rc_desired_destinations r \<noteq> []
          | NoDestination \<Rightarrow> settled \<and> rc_desired_destinations r = [])
      then Inr () else incoherent ''durable receipt outcome disagrees with route evidence'')"

definition starts_with :: "string \<Rightarrow> string \<Rightarrow> bool" where
  "starts_with prefix text \<longleftrightarrow> take (length prefix) text = prefix"

definition validate_semantic :: "nostr_lib \<Rightarrow> receipt \<Rightarrow> redb_custody \<Rightarrow> write_store_error + unit" where
  "validate_semantic N r custody =
     (case custody of (edits, author, current_source, failed_source, successor) \<Rightarrow>
      let p = lw_publication (rc_current r) in
      if edits = [] \<or> length edits > length (pe_retired_revisions p) + 1
      then incoherent ''durable semantic edit sequence and generations disagree''
      else
        try_then (case successor of
            None \<Rightarrow> Inr ()
          | Some (_, u, source, route) \<Rightarrow>
              try_then (refusal_of (unsigned_verify_id N u)) (\<lambda>_.
              if ue_pubkey u \<noteq> author \<or> (case source of None \<Rightarrow> False | Some (_, time) \<Rightarrow> time \<ge> ue_created_at u)
                 \<or> \<not> (signature_of r = SigAuthorized \<or> is_retryable_signature (signature_of r))
              then incoherent ''durable semantic successor disagrees with current custody''
              else case route of None \<Rightarrow> Inr () | Some plan \<Rightarrow> try_then (apply_route_to_receipt N plan r) (\<lambda>_. Inr ()))) (\<lambda>_.
        let v = lw_event (rc_current r) in
        if value_author v \<noteq> author then incoherent ''durable semantic custody is incoherent''
        else case value_coordinate N v of
          Inl e \<Rightarrow> Inl (StoreRefused ''unsigned event has no computed event id'')
        | Inr c \<Rightarrow>
            if c \<noteq> edit_coordinate (last edits) author \<or> pe_revision_source p \<noteq> map_option fst current_source
               \<or> (case current_source of
                    None \<Rightarrow> False
                  | Some (i, time) \<Rightarrow> \<not> event_is_newer (value_created_at v, lw_id (rc_current r)) (time, i))
            then incoherent ''durable semantic custody is incoherent''
            else
              (case pe_revision_failure p of
                 None \<Rightarrow> if failed_source \<noteq> None then incoherent ''durable failed source and failure evidence disagree'' else Inr ()
               | Some reason \<Rightarrow>
                   let source = (case failed_source of None \<Rightarrow> ''empty state'' | Some i \<Rightarrow> event_id_to_hex N i);
                       prefix = ''revision '' @ show_nat (unat (pe_revision_id p)) @ '' from source '' @ source @ '' failed''
                   in if reason \<noteq> prefix \<and> \<not> starts_with (prefix @ '': '') reason
                      then incoherent ''durable failed-source attribution is incoherent'' else Inr ())))"

fun validate_retired :: "nat \<Rightarrow> event_id list \<Rightarrow> (revision_id \<times> event_id \<times> event_id option \<times> string option) list \<Rightarrow> write_store_error + unit" where
  "validate_retired index seen [] = Inr ()"
| "validate_retired index seen ((i, event, _, failure) # rest) =
     (if unat i \<noteq> index + 1 \<or> event \<in> set seen then incoherent ''durable retired revision identity is incoherent''
      else
        try_then (case failure of
            None \<Rightarrow> Inr ()
          | Some f \<Rightarrow>
              try_then (validate_receipt_text f) (\<lambda>_.
              if starts_with (''revision '' @ show_nat (unat i) @ '' from source '') f then Inr ()
              else incoherent ''durable retired failure attribution is incoherent'')) (\<lambda>_.
        validate_retired (Suc index) (event # seen) rest))"

definition validate_revisions :: "nostr_lib \<Rightarrow> receipt \<Rightarrow> redb_custody option \<Rightarrow> write_store_error + unit" where
  "validate_revisions N r semantic =
     (let p = lw_publication (rc_current r); current = unat (pe_revision_id p) in
      if current = 0 \<or> current - 1 \<noteq> length (pe_retired_revisions p)
      then incoherent ''durable revision generations are not contiguous''
      else
        try_then (validate_retired 0 [lw_id (rc_current r)] (pe_retired_revisions p)) (\<lambda>_.
        case semantic of
          Some custody \<Rightarrow> validate_semantic N r custody
        | None \<Rightarrow>
            if pe_revision_source p \<noteq> None \<or> pe_revision_failure p \<noteq> None \<or> current \<noteq> 1
            then incoherent ''durable publication evidence has no semantic custody'' else Inr ()))"

definition validate_receipt :: "nostr_lib \<Rightarrow> receipt_id \<Rightarrow> receipt \<Rightarrow> redb_custody option \<Rightarrow> write_store_error + unit" where
  "validate_receipt N row r semantic =
     (let p = lw_publication (rc_current r) in
      if rc_receipt_id r \<noteq> row \<or> rc_write_id r \<noteq> row \<or> pe_receipt_id p \<noteq> rc_receipt_id r \<or> pe_write_id p \<noteq> rc_write_id r
      then incoherent ''durable receipt and publication identities disagree''
      else if value_id (lw_event (rc_current r)) \<noteq> Some (lw_id (rc_current r))
      then incoherent ''durable current event identity disagrees with its body''
      else
        try_then (validate_event_and_signature N r) (\<lambda>_.
        try_then (validate_routing r) (\<lambda>_.
        try_then (validate_bounds_and_text r) (\<lambda>_.
        try_then (validate_outcome r) (\<lambda>_.
        validate_revisions N r semantic)))))"

definition reconstructed ::
  "nostr_lib \<Rightarrow> u64 \<Rightarrow> (receipt_id, receipt) btree_map \<Rightarrow> (receipt_id, redb_custody) btree_map \<Rightarrow> write_store_error + unit" where
  "reconstructed N next_id receipts semantics =
     try_then (check_all (\<lambda>(i, r). try_then (validate_receipt N i r (bt_get semantics i)) (\<lambda>_.
         if i \<ge> next_id then incoherent ''durable next identity does not exceed every receipt row'' else Inr ())) receipts) (\<lambda>_.
     if \<exists>i\<in>set (bt_keys semantics). bt_get receipts i = None then incoherent ''durable semantic custody has no receipt'' else Inr ())"

subsection \<open>Loading the file (\<open>schema.rs\<close>)\<close>

definition initialize_file :: "redb_lib \<Rightarrow> string option \<Rightarrow> bool \<Rightarrow> durable \<Rightarrow> write_store_error + durable" where
  "initialize_file L io is_new d =
     (if is_new
      then finish_transaction io (d\<lparr>du_tables := True, du_next_id := Some 1, du_version := Some SCHEMA_VERSION\<rparr>)
      else if \<not> du_tables d then Inl (StoreRefused (rl_no_table L))
      else case du_version d of
        None \<Rightarrow> Inl (StoreRefused ''write-store schema version missing'')
      | Some v \<Rightarrow>
          if v \<noteq> SCHEMA_VERSION
          then Inl (StoreRefused (''write-store schema version mismatch: '' @ show_nat (unat v) @ '' != '' @ show_nat (unat SCHEMA_VERSION)))
          else Inr d)"

type_synonym loaded = "(receipt_id, receipt) btree_map \<times> (event_coord, receipt_id) btree_map \<times> (receipt_id, redb_custody) btree_map"

definition load_custody :: "receipt_id \<Rightarrow> receipt \<Rightarrow> redb_custody option \<Rightarrow> loaded \<Rightarrow> write_store_error + loaded" where
  "load_custody i r semantic = (\<lambda>(receipts, coordinates, semantics).
     case semantic of
       None \<Rightarrow> Inr (receipts, coordinates, semantics)
     | Some (edits, author, current_source, failed, successor) \<Rightarrow>
         if pe_revision_source (lw_publication (rc_current r)) \<noteq> map_option fst current_source
         then Inl (StoreRefused ''durable semantic custody is incoherent'')
         else
           try_then (if receipt_is_terminal r then Inr coordinates
             else if edits = [] then Inl (StoreRefused ''durable semantic edit sequence is empty'')
             else if bt_get coordinates (edit_coordinate (last edits) author) \<noteq> None
             then Inl (StoreRefused ''duplicate durable semantic coordinate owner'')
             else Inr (bt_insert (edit_coordinate (last edits) author) i coordinates)) (\<lambda>coordinates.
           Inr (receipts, coordinates, bt_insert i (edits, author, current_source, failed, successor) semantics)))"

definition load_row :: "redb_lib \<Rightarrow> u64 \<Rightarrow> string \<Rightarrow> loaded \<Rightarrow> write_store_error + loaded" where
  "load_row L key value acc =
     (case rl_decode L value of
        Inl e \<Rightarrow> Inl (StoreRefused e)
      | Inr row \<Rightarrow>
          let r = pr_receipt row in
          if key = 0 then Inl (StoreRefused ''durable receipt identity is zero'')
          else if rc_receipt_id r \<noteq> key \<or> rc_write_id r \<noteq> key
          then Inl (StoreRefused ''durable receipt identity does not match its row'')
          else
            try_then (load_custody key r (pr_semantic row) acc) (\<lambda>(receipts, coordinates, semantics).
            if bt_get receipts key \<noteq> None then Inl (StoreRefused ''duplicate durable receipt identity'')
            else Inr (bt_insert key r receipts, coordinates, semantics)))"

fun load_rows :: "redb_lib \<Rightarrow> (u64 \<times> string) list \<Rightarrow> loaded \<Rightarrow> write_store_error + loaded" where
  "load_rows L [] acc = Inr acc"
| "load_rows L ((key, value) # rows) acc = try_then (load_row L key value acc) (load_rows L rows)"

definition redb_load :: "redb_lib \<Rightarrow> nostr_lib \<Rightarrow> durable \<Rightarrow> write_store_error + u64 \<times> loaded" where
  "redb_load L N d =
     try_then (ok_or (StoreRefused ''write identity metadata missing'') (du_next_id d)) (\<lambda>next_id.
     if next_id = 0 then Inl (StoreRefused ''durable next identity is zero'')
     else
       try_then (load_rows L (du_rows d) ([], [], [])) (\<lambda>(receipts, coordinates, semantics).
       try_then (reconstructed N next_id receipts semantics) (\<lambda>_. Inr (next_id, receipts, coordinates, semantics))))"

subsection \<open>Recovery (\<open>lib.rs\<close>)\<close>

definition ended_text :: string where
  "ended_text = ''process ended after attempt authorization before outcome commit''"

definition ambiguous :: "receipt \<Rightarrow> bool" where
  "ambiguous r \<longleftrightarrow> Attempting \<in> set (bt_values (receipt_destinations r))"

definition recover_receipt :: "receipt \<Rightarrow> receipt" where
  "recover_receipt r =
     (if ambiguous r
      then settle (update_destinations (map (\<lambda>(s, out). (s, if out = Attempting then Unknown ended_text else out))) r)
      else r)"

definition recover_ambiguous_delivery :: "redb_state \<Rightarrow> receipt_id list \<times> redb_state" where
  "recover_ambiguous_delivery st =
     (let changed = List.filter ambiguous (bt_values (rs_receipts st));
          released = map rc_receipt_id (List.filter (receipt_is_terminal \<circ> recover_receipt) changed)
      in (map rc_receipt_id changed,
          fold release_semantic_coordinate released
            (st\<lparr>rs_receipts := map (\<lambda>(i, r). (i, recover_receipt r)) (rs_receipts st)\<rparr>)))"

definition validate_recovered_bounds :: "redb_state \<Rightarrow> nat \<Rightarrow> nat \<Rightarrow> write_store_error + unit" where
  "validate_recovered_bounds st active terminal =
     (let active_count = redb_active_count st;
          terminal_count = length (List.filter receipt_is_terminal (bt_values (rs_receipts st))) in
      if active_count > active
      then Inl (StoreRefused (''recovered active write count exceeds bound: '' @ show_nat active_count @ '' > '' @ show_nat active))
      else if terminal_count > terminal
      then Inl (StoreRefused (''recovered terminal receipt count exceeds bound: '' @ show_nat terminal_count @ '' > '' @ show_nat terminal))
      else Inr ())"

definition interrupted_text :: "nostr_lib \<Rightarrow> receipt \<Rightarrow> string" where
  "interrupted_text N r =
     ''process ended after signing authorization for write '' @ show_nat (unat (rc_write_id r)) @ '' receipt ''
     @ show_nat (unat (rc_receipt_id r)) @ '' revision '' @ show_nat (unat (pe_revision_id (lw_publication (rc_current r))))
     @ '' event '' @ event_id_to_hex N (lw_id (rc_current r)) @ ''; retry is permitted''"

fun recover_signings :: "redb_lib \<Rightarrow> (nat \<Rightarrow> string option) \<Rightarrow> nostr_lib \<Rightarrow> nat \<Rightarrow> receipt list \<Rightarrow> redb_store \<Rightarrow> unit redb_step" where
  "recover_signings L io N n [] s = (Inr (), s)"
| "recover_signings L io N n (r # rs) s =
     (case redb_record_signer_retryable L (io n) N (rc_write_id r) (rc_receipt_id r)
             (pe_revision_id (lw_publication (rc_current r))) (lw_id (rc_current r)) (interrupted_text N r) s of
        (Inl e, s) \<Rightarrow> (Inl e, s)
      | (Inr _, s) \<Rightarrow> recover_signings L io N (Suc n) rs s)"

definition recover_authorized_signing :: "redb_lib \<Rightarrow> (nat \<Rightarrow> string option) \<Rightarrow> nostr_lib \<Rightarrow> nat \<Rightarrow> redb_store \<Rightarrow> unit redb_step" where
  "recover_authorized_signing L io N n s =
     recover_signings L io N n (List.filter (\<lambda>r. signature_of r = SigAuthorized) (bt_values (rs_receipts (rd_state s)))) s"

text \<open>
  \<open>open_bounded\<close>: the answer and the file it leaves. \<open>io n\<close> is the error of the n-th transaction.
\<close>

definition redb_open_bounded ::
  "redb_lib \<Rightarrow> (nat \<Rightarrow> string option) \<Rightarrow> nostr_lib \<Rightarrow> bool \<Rightarrow> nat \<Rightarrow> nat \<Rightarrow> durable \<Rightarrow> (write_store_error + redb_store) \<times> durable" where
  "redb_open_bounded L io N is_new active terminal d =
     try_in d (initialize_file L (io 0) is_new d) (\<lambda>d.
     try_in d (redb_load L N d) (\<lambda>(next_id, receipts, coordinates, semantics).
     let (recovered, st) = recover_ambiguous_delivery \<lparr>rs_revision = 0, rs_next_identity = next_id, rs_next_reservation = 1,
           rs_reservations = [], rs_receipts = receipts, rs_coordinates = coordinates, rs_semantics = semantics\<rparr> in
     try_in d (validate_recovered_bounds st active terminal) (\<lambda>_.
     try_in d (if recovered = [] then Inr d else persist_existing L (io 1) st recovered d) (\<lambda>d.
     case recover_authorized_signing L io N 2 \<lparr>rd_active = active, rd_terminal = terminal, rd_state = st, rd_disk = d,
            rd_latest = redb_snapshot st, rd_changes = []\<rparr> of
       (Inl e, s) \<Rightarrow> (Inl e, rd_disk s)
     | (Inr _, s) \<Rightarrow> (Inr s, rd_disk s)))))"

definition redb_open :: "redb_lib \<Rightarrow> (nat \<Rightarrow> string option) \<Rightarrow> nostr_lib \<Rightarrow> bool \<Rightarrow> durable \<Rightarrow> (write_store_error + redb_store) \<times> durable" where
  "redb_open L io N is_new d = redb_open_bounded L io N is_new 10000 10000 d"

end
