(* ===== verification/Redb_Durability.thy ===== *)
theory Redb_Durability
  imports Redb_Recovery
begin

section \<open>What the durable store keeps\<close>

text \<open>
  The file always holds exactly the ledger in memory, whichever transactions fail; a refused
  operation changes neither; and a process that opens the file finds every receipt again.
\<close>

subsection \<open>The file mirrors the ledger\<close>

text \<open>What \<open>serde_json\<close> documents for types that derive both traits: what was written reads back.\<close>

definition codec_laws :: "redb_lib \<Rightarrow> bool" where
  "codec_laws L \<longleftrightarrow> (\<forall>p b. rl_encode L p = Inr b \<longrightarrow> rl_decode L b = Inr p)"

definition file_mirrors :: "redb_lib \<Rightarrow> redb_state \<Rightarrow> durable \<Rightarrow> bool" where
  "file_mirrors L st d \<longleftrightarrow>
     du_tables d \<and> du_version d = Some SCHEMA_VERSION \<and> du_next_id d = Some (rs_next_identity st)
     \<and> bt_wf (du_rows d) \<and> bt_wf (rs_receipts st) \<and> bt_wf (rs_semantics st)
     \<and> (\<forall>i. map_option (rl_decode L) (bt_get (du_rows d) i)
              = map_option (\<lambda>r. Inr \<lparr>pr_receipt = r, pr_semantic = bt_get (rs_semantics st) i\<rparr>) (bt_get (rs_receipts st) i))
     \<and> (\<forall>i r. bt_get (rs_receipts st) i = Some r \<longrightarrow> rc_receipt_id r = i)
     \<and> (\<forall>i. bt_get (rs_semantics st) i \<noteq> None \<longrightarrow> bt_get (rs_receipts st) i \<noteq> None)
     \<and> (\<forall>i. bt_get (rs_receipts st) i \<noteq> None \<longrightarrow> i < rs_next_identity st)"

definition mirrored :: "redb_lib \<Rightarrow> redb_store \<Rightarrow> bool" where
  "mirrored L s \<longleftrightarrow> file_mirrors L (rd_state s) (rd_disk s) \<and> rd_latest s = redb_snapshot (rd_state s)"

lemma release_coordinate_frame [simp]:
  "rs_receipts (release_semantic_coordinate i st) = rs_receipts st" "rs_semantics (release_semantic_coordinate i st) = rs_semantics st"
  "rs_next_identity (release_semantic_coordinate i st) = rs_next_identity st" "rs_revision (release_semantic_coordinate i st) = rs_revision st"
  by (auto simp: release_semantic_coordinate_def split: option.split)

lemma redb_release_frame [simp]:
  "rs_receipts (redb_release_semantic i st) = rs_receipts st" "rs_semantics (redb_release_semantic i st) = bt_remove i (rs_semantics st)"
  "rs_next_identity (redb_release_semantic i st) = rs_next_identity st"
  by (simp_all add: redb_release_semantic_def)

lemma evict_frame [simp]:
  "rs_receipts (evict_receipt i st) = bt_remove i (rs_receipts st)" "rs_semantics (evict_receipt i st) = bt_remove i (rs_semantics st)"
  "rs_next_identity (evict_receipt i st) = rs_next_identity st"
  by (simp_all add: evict_receipt_def Let_def)

lemma fold_evict [simp]:
  "rs_receipts (fold evict_receipt is st) = fold bt_remove is (rs_receipts st)"
  "rs_semantics (fold evict_receipt is st) = fold bt_remove is (rs_semantics st)"
  "rs_next_identity (fold evict_receipt is st) = rs_next_identity st"
  by (induction "is" arbitrary: st) simp_all

text \<open>One transaction with one row: the file follows the ledger.\<close>

lemma commit_mirrors:
  assumes "codec_laws L" "file_mirrors L st d" "redb_commit L io next_id (Some (r, semantic)) removals d = Inr d'"
    and "rc_receipt_id r < rs_next_identity st'" "rs_next_identity st \<le> rs_next_identity st'"
    and "rc_receipt_id r \<notin> set removals" "rs_next_identity st' = (case next_id of None \<Rightarrow> rs_next_identity st | Some n \<Rightarrow> n)"
    and "rs_receipts st' = bt_insert (rc_receipt_id r) r (fold bt_remove removals (rs_receipts st))"
    and "bt_wf (rs_semantics st')" "\<And>i. bt_get (rs_semantics st') i = (if i = rc_receipt_id r then semantic
           else if i \<in> set removals then None else bt_get (rs_semantics st) i)"
  shows "file_mirrors L st' d'"
proof -
  obtain b where b: "rl_encode L \<lparr>pr_receipt = r, pr_semantic = semantic\<rparr> = Inr b"
    and d': "d' = d\<lparr>du_rows := fold bt_remove removals (bt_insert (rc_receipt_id r) b (du_rows d)),
                 du_next_id := (case next_id of None \<Rightarrow> du_next_id d | Some n \<Rightarrow> Some n)\<rparr>"
    using assms(3) by (auto simp: redb_commit_def write_row_def finish_transaction_def Let_def split: sum.splits option.splits)
  have "rl_decode L b = Inr \<lparr>pr_receipt = r, pr_semantic = semantic\<rparr>" using assms(1) b by (simp add: codec_laws_def)
  moreover have "i < rs_next_identity st'" if "bt_get (rs_receipts st) i \<noteq> None" for i
    using that assms(2,5) by (auto simp: file_mirrors_def intro: order.strict_trans2)
  ultimately show ?thesis using assms(2,4,6-10)
    by (auto simp: file_mirrors_def d' bt.lookup_fold_delete bt.invar_fold_delete bt_wf_insert split: option.splits)
qed

subsection \<open>Operations\<close>

text \<open>What a refused operation leaves as it was: everything but the reservation it consumed.\<close>

definition same_ledger :: "redb_store \<Rightarrow> redb_store \<Rightarrow> bool" where
  "same_ledger s s' \<longleftrightarrow> rd_disk s' = rd_disk s \<and> rd_latest s' = rd_latest s \<and> rd_changes s' = rd_changes s
     \<and> rd_active s' = rd_active s \<and> rd_terminal s' = rd_terminal s
     \<and> rs_receipts (rd_state s') = rs_receipts (rd_state s) \<and> rs_semantics (rd_state s') = rs_semantics (rd_state s)
     \<and> rs_coordinates (rd_state s') = rs_coordinates (rd_state s) \<and> rs_revision (rd_state s') = rs_revision (rd_state s)
     \<and> rs_next_identity (rd_state s') = rs_next_identity (rd_state s)
     \<and> rs_next_reservation (rd_state s') = rs_next_reservation (rd_state s)
     \<and> (\<forall>n c. bt_get (rs_reservations (rd_state s')) n = Some c \<longrightarrow> bt_get (rs_reservations (rd_state s)) n = Some c)"

definition durable_step :: "redb_lib \<Rightarrow> redb_store \<Rightarrow> 'a redb_step \<Rightarrow> bool" where
  "durable_step L s step \<longleftrightarrow> mirrored L (snd step) \<and> (isl (fst step) \<longrightarrow> same_ledger s (snd step))"

lemma same_ledger_refl [simp]: "same_ledger s s"
  by (simp add: same_ledger_def)

lemma same_ledger_mirrored: "same_ledger s s' \<Longrightarrow> mirrored L s \<Longrightarrow> mirrored L s'"
  by (simp add: same_ledger_def mirrored_def file_mirrors_def redb_snapshot_def)

lemma durable_refusal: "mirrored L s \<Longrightarrow> same_ledger s s' \<Longrightarrow> durable_step L s (x, s')"
  by (simp add: durable_step_def same_ledger_mirrored)

lemma durable_same [intro]: "mirrored L s \<Longrightarrow> durable_step L s (x, s)"
  by (rule durable_refusal) simp_all

lemma durable_try:
  assumes "mirrored L s" "same_ledger s s2" "\<And>v. x = Inr v \<Longrightarrow> durable_step L s (f v)"
  shows "durable_step L s (try_in s2 x f)"
  using assms by (cases x) (auto intro: durable_refusal)

lemma durable_try_same:
  assumes "mirrored L s" "\<And>v. x = Inr v \<Longrightarrow> durable_step L s (f v)"
  shows "durable_step L s (try_in s x f)"
  by (rule durable_try [OF assms(1) same_ledger_refl assms(2)])

lemma durable_done: "mirrored L s' \<Longrightarrow> durable_step L s (Inr x, s')"
  by (simp add: durable_step_def)

lemma durable_map [simp]: "durable_step L s (map_step f step) \<longleftrightarrow> durable_step L s step"
  by (cases step; cases "fst step") (auto simp: durable_step_def map_step_def)

lemma mirrored_id: "mirrored L s \<Longrightarrow> bt_get (rs_receipts (rd_state s)) i = Some r \<Longrightarrow> rc_receipt_id r = i"
  by (simp add: mirrored_def file_mirrors_def)

lemma mirrored_bound: "mirrored L s \<Longrightarrow> bt_get (rs_receipts (rd_state s)) i \<noteq> None \<Longrightarrow> i < rs_next_identity (rd_state s)"
  by (simp add: mirrored_def file_mirrors_def)

lemma publish_fields [simp]:
  "rd_state (redb_publish d st cs s) = st" "rd_disk (redb_publish d st cs s) = d" "rd_latest (redb_publish d st cs s) = redb_snapshot st"
  by (simp_all add: redb_publish_def)

lemma durable_publish:
  assumes "file_mirrors L st d"
  shows "durable_step L s (Inr x, redb_publish d st cs s2)"
  using assms by (simp add: durable_step_def mirrored_def)

lemma evictions_spare: "rc_receipt_id r \<notin> set (terminal_evictions st r n)"
  using set_take_subset by (fastforce simp: terminal_evictions_def Let_def)

lemma set_receipt_fields [simp]:
  "rs_receipts (set_receipt i r n st) = bt_insert i r (rs_receipts st)" "rs_semantics (set_receipt i r n st) = rs_semantics st"
  "rs_next_identity (set_receipt i r n st) = rs_next_identity st"
  by (simp_all add: set_receipt_def)

lemma semantics_wf: "file_mirrors L st d \<Longrightarrow> bt_wf (rs_semantics st)"
  by (simp add: file_mirrors_def)

lemma durable_update:
  assumes "codec_laws L" "mirrored L s" "\<And>r r'. mutation r = Inr r' \<Longrightarrow> rc_receipt_id r' = rc_receipt_id r"
  shows "durable_step L s (redb_update L io i mutation s)"
proof -
  have mir: "file_mirrors L (rd_state s) (rd_disk s)" using assms(2) by (simp add: mirrored_def)
  show ?thesis unfolding redb_update_def Let_def
  proof (rule durable_try_same [OF assms(2)], rule durable_try_same [OF assms(2)])
    fix original r
    assume "ok_or (StoreRefused ''receipt does not exist'') (bt_get (rs_receipts (rd_state s)) i) = Inr original" "mutation original = Inr r"
    then have i: "rc_receipt_id r = i" "i < rs_next_identity (rd_state s)"
      using assms(3) mirrored_id [OF assms(2)] mirrored_bound [OF assms(2)] by auto
    show "durable_step L s (if r = original then (Inr r, s) else try_in s (redb_next_revision (rd_state s)) (\<lambda>next.
        try_in s (redb_commit L io None (Some (r, bt_get (rs_semantics (rd_state s)) i)) (terminal_evictions (rd_state s) r (rd_terminal s)) (rd_disk s))
          (\<lambda>disk. (Inr r, redb_publish disk (set_receipt i r next (if receipt_is_terminal r
              then release_semantic_coordinate i (fold evict_receipt (terminal_evictions (rd_state s) r (rd_terminal s)) (rd_state s))
              else fold evict_receipt (terminal_evictions (rd_state s) r (rd_terminal s)) (rd_state s)))
            (evicted_changes (terminal_evictions (rd_state s) r (rd_terminal s)) @ [(i, Some r)]) s))))"
      using assms(2) evictions_spare [of r "rd_state s" "rd_terminal s"]
      by (auto intro!: durable_try_same durable_publish commit_mirrors [OF assms(1) mir] bt.invar_fold_delete semantics_wf [OF mir]
          simp: i bt.lookup_fold_delete)
  qed
qed

lemma durable_commit_receipt:
  assumes "codec_laws L" "mirrored L s" "bt_get (rs_receipts (rd_state s)) (rc_receipt_id r) \<noteq> None"
  shows "durable_step L s (redb_commit_receipt L io r s)"
proof -
  have mir: "file_mirrors L (rd_state s) (rd_disk s)" using assms(2) by (simp add: mirrored_def)
  show ?thesis using assms(2) mirrored_bound [OF assms(2,3)] unfolding redb_commit_receipt_def Let_def
    by (auto intro!: durable_try_same durable_publish commit_mirrors [OF assms(1) mir] semantics_wf [OF mir])
qed

lemma durable_install_custody:
  assumes "codec_laws L" "mirrored L s" "rc_receipt_id r = i" "bt_get (rs_receipts (rd_state s)) i \<noteq> None"
  shows "durable_step L s (install_custody L io i r custody s)"
proof -
  have mir: "file_mirrors L (rd_state s) (rd_disk s)" using assms(2) by (simp add: mirrored_def)
  show ?thesis using assms(2,3) mirrored_bound [OF assms(2,4)] unfolding install_custody_def Let_def
    by (auto intro!: durable_try_same durable_publish commit_mirrors [OF assms(1) mir] bt_wf_insert semantics_wf [OF mir])
qed

lemma durable_install_successor:
  assumes "codec_laws L" "mirrored L s" "bt_get (rs_receipts (rd_state s)) i = Some r"
  shows "durable_step L s (install_successor L io i r custody s)"
proof -
  have mir: "file_mirrors L (rd_state s) (rd_disk s)" using assms(2) by (simp add: mirrored_def)
  have i: "rc_receipt_id r = i" using mirrored_id [OF assms(2,3)] .
  have same: "bt_insert i r (rs_receipts (rd_state s)) = rs_receipts (rd_state s)"
    using mir assms(3) by (intro bt_eqI) (auto simp: file_mirrors_def bt_wf_insert)
  have "file_mirrors L ((rd_state s)\<lparr>rs_semantics := bt_insert i custody (rs_semantics (rd_state s))\<rparr>) d"
    if "redb_commit L io None (Some (r, Some custody)) [] (rd_disk s) = Inr d" for d
    using mirrored_bound [OF assms(2), of i] assms(3)
    by (intro commit_mirrors [OF assms(1) mir that]) (auto simp: i same bt_wf_insert semantics_wf [OF mir])
  then show ?thesis using assms(2) unfolding install_successor_def Let_def
    by (intro durable_try_same) (auto simp: durable_step_def mirrored_def redb_snapshot_def)
qed

subsection \<open>Every operation keeps the mirror\<close>

lemma route_if_id: "route_if N p r = Inr r' \<Longrightarrow> rc_receipt_id r' = rc_receipt_id r"
  using route_if_frame by (simp add: route_frame_def)

lemma route_id: "apply_route_to_receipt N p r = Inr r' \<Longrightarrow> rc_receipt_id r' = rc_receipt_id r"
  using apply_route_frame by (simp add: route_frame_def)

lemma mutation_ids [simp]:
  "rc_receipt_id (update_destinations f r) = rc_receipt_id r" "rc_receipt_id (settle r) = rc_receipt_id r"
  "rc_receipt_id (successor_receipt c r) = rc_receipt_id r" "rc_receipt_id (set_revision_failure t r) = rc_receipt_id r"
  "rc_receipt_id (fresh_receipt i c w a) = i" "rc_receipt_id (set_outcome x y r) = rc_receipt_id r"
  by (simp_all add: update_destinations_def settle_def successor_receipt_def set_revision_failure_def fresh_receipt_def set_outcome_def)

lemma durable_apply_route:
  "codec_laws L \<Longrightarrow> mirrored L s \<Longrightarrow> durable_step L s (redb_apply_route L io N write i revision event plan s)"
  unfolding redb_apply_route_def by (rule durable_update) (auto simp: try_then_def route_id split: sum.splits)

lemma durable_begin_attempt:
  "codec_laws L \<Longrightarrow> mirrored L s \<Longrightarrow> durable_step L s (redb_begin_attempt L io write i revision event session attempt s)"
  unfolding redb_begin_attempt_def
  by (rule durable_update) (auto simp: try_then_def attempt_mutation_def split: sum.splits if_splits)

lemma durable_record_outcome:
  "codec_laws L \<Longrightarrow> mirrored L s \<Longrightarrow> durable_step L s (redb_record_outcome L io write i revision event session attempt out s)"
  unfolding redb_record_outcome_def
  by (intro durable_try_same durable_update) (auto simp: try_then_def outcome_mutation_def split: sum.splits if_splits)

lemma durable_cancel:
  assumes "codec_laws L" "mirrored L s"
  shows "durable_step L s (redb_cancel L io i s)"
proof -
  have "durable_step L s (redb_update L io i cancel_mutation s)"
    using assms by (rule durable_update) (auto simp: cancel_mutation_def split: if_splits)
  then show ?thesis using assms(2) by (auto simp: redb_cancel_def split: option.split)
qed

lemma durable_remove_receipt:
  assumes "codec_laws L" "mirrored L s"
  shows "durable_step L s (redb_remove_receipt L io i s)"
proof -
  have mir: "file_mirrors L (rd_state s) (rd_disk s)" using assms(2) by (simp add: mirrored_def)
  have "file_mirrors L ((evict_receipt i (rd_state s))\<lparr>rs_revision := n\<rparr>) d"
    if "redb_commit L io None None [i] (rd_disk s) = Inr d" for d n
    using that mir by (auto simp: redb_commit_def finish_transaction_def file_mirrors_def bt_wf_remove split: option.splits)
  then show ?thesis using assms(2)
    by (auto simp: redb_remove_receipt_def Let_def intro!: durable_try_same durable_publish split: option.split)
qed

lemma fresh_identity:
  assumes "file_mirrors L st d"
  shows "bt_get (rs_receipts st) (rs_next_identity st) = None" "bt_get (rs_semantics st) (rs_next_identity st) = None"
proof -
  have "bt_get (rs_receipts st) (rs_next_identity st) \<noteq> None \<longrightarrow> rs_next_identity st < rs_next_identity st"
    using assms unfolding file_mirrors_def by blast
  then show "bt_get (rs_receipts st) (rs_next_identity st) = None" by auto
  then show "bt_get (rs_semantics st) (rs_next_identity st) = None"
    using assms unfolding file_mirrors_def by blast
qed

lemma next_identity_le: "checked_add_u64 a 1 = Some c \<Longrightarrow> a \<le> c"
  using checked_add_u64_one_greater by (rule less_imp_le)

lemma durable_accept:
  assumes "codec_laws L" "mirrored L s"
  shows "durable_step L s (redb_accept L io intent s)"
proof -
  have mir: "file_mirrors L (rd_state s) (rd_disk s)" using assms(2) by (simp add: mirrored_def)
  show ?thesis using assms(2) fresh_identity [OF mir] unfolding redb_accept_def Let_def
    by (auto intro!: durable_try_same durable_publish commit_mirrors [OF assms(1) mir] semantics_wf [OF mir]
        intro: checked_add_u64_one_greater next_identity_le split: prod.split)
qed

lemma durable_compose:
  assumes "codec_laws L" "mirrored L s"
  shows "durable_step L s (redb_compose_semantic L io N i edit author routing u source initial_route s)"
proof -
  have mir: "file_mirrors L (rd_state s) (rd_disk s)" using assms(2) by (simp add: mirrored_def)
  have terminal: "file_mirrors L (set_receipt i updated n (redb_release_semantic i (rd_state s))) d"
    if "redb_commit L io None (Some (updated, None)) [] (rd_disk s) = Inr d" "rc_receipt_id updated = i" "i < rs_next_identity (rd_state s)"
    for i updated n d
    using that by (intro commit_mirrors [OF assms(1) mir that(1)]) (auto simp: bt_wf_remove semantics_wf [OF mir])
  have kept: "file_mirrors L (set_receipt i updated n ((rd_state s)\<lparr>rs_semantics := bt_insert i c (rs_semantics (rd_state s))\<rparr>)) d"
    if "redb_commit L io None (Some (updated, Some c)) [] (rd_disk s) = Inr d" "rc_receipt_id updated = i" "i < rs_next_identity (rd_state s)"
    for i updated n d c
    using that by (intro commit_mirrors [OF assms(1) mir that(1)]) (auto simp: bt_wf_insert semantics_wf [OF mir])
  show ?thesis unfolding redb_compose_semantic_def Let_def
    using assms(2) mirrored_bound [OF assms(2), of i] mirrored_id [OF assms(2), of i]
    by (auto intro!: durable_try_same durable_publish durable_install_successor terminal kept assms(1) simp: route_if_id split: prod.split)
qed

lemma durable_accept_new:
  assumes "codec_laws L" "mirrored L s"
  shows "durable_step L s (redb_accept_new L io N reserved intent edit author u selected initial_route s)"
proof -
  have mir: "file_mirrors L (rd_state s) (rd_disk s)" using assms(2) by (simp add: mirrored_def)
  have spare: "rs_next_identity (rd_state s) \<notin> set (terminal_evictions (rd_state s) r n)" if "rc_receipt_id r = rs_next_identity (rd_state s)" for r n
    using evictions_spare [of r "rd_state s" n] that by simp
  show ?thesis using assms(2) unfolding redb_accept_new_def Let_def
    by (auto intro!: durable_try_same durable_publish commit_mirrors [OF assms(1) mir] bt_wf_insert bt.invar_fold_delete semantics_wf [OF mir]
        intro: checked_add_u64_one_greater next_identity_le simp: route_if_id spare bt.lookup_fold_delete)
qed

lemma durable_accept_semantic:
  assumes "codec_laws L" "mirrored L s"
  shows "durable_step L s (redb_accept_semantic_inner L io N now reservation intent u source initial_route s)"
proof -
  have checked: "same_ledger s (s\<lparr>rd_state := st\<rparr>)" if "redb_check_reservation reservation coord (rd_state s) = Inr st" for coord st
    using that by (auto simp: redb_check_reservation_def same_ledger_def split: option.splits if_splits)
  have lift: "durable_step L s step" if "same_ledger s s2" "durable_step L s2 step" for s2 and step :: "accepted_write redb_step"
    using that by (auto simp: durable_step_def same_ledger_def)
  have tail: "durable_step L s (case bt_get (rs_coordinates st) coord of
        Some i \<Rightarrow> try_in s2 (ok_or e1 (bt_get (rs_receipts st) i)) (\<lambda>r. try_in s2 (ok_or e2 (bt_get (rs_semantics st) i))
            (\<lambda>(edits, a, current_source, failed, _).
            if is_replay N r (edits, a, current_source, failed) edit author selected routing u initial_route
            then (Inr (accepted_of r), s2)
            else redb_compose_semantic L io N i edit author routing u source initial_route s2))
      | None \<Rightarrow> redb_accept_new L io N reserved intent edit author u selected initial_route s2)"
    if same: "same_ledger s s2" for s2 st coord e1 e2 edit author selected routing reserved
  proof -
    have mir: "mirrored L s2" using same_ledger_mirrored [OF same assms(2)] .
    show ?thesis
      by (auto intro!: durable_try [OF assms(2) same] durable_refusal [OF assms(2) same] lift [OF same durable_accept_new [OF assms(1) mir]]
          lift [OF same durable_compose [OF assms(1) mir]] split: option.split)
  qed
  show ?thesis unfolding redb_accept_semantic_inner_def Let_def
    by (rule durable_try_same [OF assms(2)], clarify, rule durable_try_same [OF assms(2)], rule durable_try [OF assms(2)])
      (simp_all add: checked tail)
qed

lemma durable_install_semantic:
  assumes "codec_laws L" "mirrored L s"
  shows "durable_step L s (redb_install_semantic L io N now write i expected expected_source applied u source initial_route s)"
  unfolding redb_install_semantic_def Let_def
  using assms mirrored_id [OF assms(2), of i]
  by (auto intro!: durable_try_same durable_install_custody durable_install_successor simp: route_if_id split: prod.split)

lemma durable_semantic_failure:
  assumes "codec_laws L" "mirrored L s"
  shows "durable_step L s (redb_record_semantic_failure L io N write i expected expected_source source reason s)"
  unfolding redb_record_semantic_failure_def Let_def
  using assms mirrored_id [OF assms(2), of i]
  by (auto intro!: durable_try_same durable_install_custody split: prod.split)

lemma durable_promote:
  assumes "codec_laws L" "mirrored L s"
  shows "durable_step L s (redb_promote_successor L io N i s)"
  unfolding redb_promote_successor_def Let_def
  using assms mirrored_id [OF assms(2), of i]
  by (auto intro!: durable_try_same durable_install_custody simp: route_if_id split: prod.split option.split)

lemma redb_current_Inr:
  "redb_current write i revision event st = Inr r \<Longrightarrow> bt_get (rs_receipts st) i = Some r"
  by (auto simp: redb_current_def split: option.splits sum.splits)

lemma set_signature_id [simp]: "rc_receipt_id (set_signature sig r) = rc_receipt_id r"
  by (simp add: set_signature_def)

lemma durable_signing:
  assumes "codec_laws L" "mirrored L s"
  shows "durable_step L s (redb_authorize_signing L io N write i revision event s)"
    "durable_step L s (redb_record_signer_retryable L io N write i revision event reason s)"
    "durable_step L s (redb_install_signed L io N write i revision event e s)"
    "durable_step L s (redb_record_signer_refusal L io N write i revision event reason s)"
  unfolding redb_authorize_signing_def redb_record_signer_retryable_def redb_install_signed_def redb_record_signer_refusal_def Let_def
  using assms mirrored_id [OF assms(2), of i]
  by (auto intro!: durable_try_same durable_commit_receipt durable_promote dest!: redb_current_Inr)

lemma durable_reservations:
  assumes "mirrored L s"
  shows "durable_step L s (redb_reserve_active edit author s)" "durable_step L s (redb_release_active n s)"
proof -
  have "mirrored L (s\<lparr>rd_state := (rd_state s)\<lparr>rs_next_reservation := a, rs_reservations := b\<rparr>\<rparr>)"
    "mirrored L (s\<lparr>rd_state := (rd_state s)\<lparr>rs_reservations := b\<rparr>\<rparr>)"
    "mirrored L (s\<lparr>rd_state := (rd_state s)\<lparr>rs_reservations := b\<rparr>, rd_changes := c\<rparr>)" for a b c
    using assms by (simp_all add: mirrored_def file_mirrors_def redb_snapshot_def)
  then show "durable_step L s (redb_reserve_active edit author s)" "durable_step L s (redb_release_active n s)"
    using assms unfolding redb_reserve_active_def redb_release_active_def Let_def
    by (auto intro!: durable_try_same durable_done split: option.split)
qed

subsection \<open>One operation of the store\<close>

text \<open>The operations of the write-store contract on this store, with the error of their transaction, if it fails.\<close>

fun redb_perform :: "redb_lib \<Rightarrow> string option \<Rightarrow> nostr_lib \<Rightarrow> store_op \<Rightarrow> redb_store \<Rightarrow> unit redb_step" where
  "redb_perform L io N (OpAccept intent) s = map_step (\<lambda>_. ()) (redb_accept L io intent s)"
| "redb_perform L io N (OpAcceptApplied now intent u source) s =
     map_step (\<lambda>_. ()) (redb_accept_semantic_inner L io N now None intent u source None s)"
| "redb_perform L io N (OpAcceptReserved now n intent u source route) s =
     map_step (\<lambda>_. ()) (redb_accept_semantic_inner L io N now (Some n) intent u source route s)"
| "redb_perform L io N (OpInstallSemantic now w i g src edits u source route) s =
     map_step (\<lambda>_. ()) (redb_install_semantic L io N now w i g src edits u source route s)"
| "redb_perform L io N (OpSemanticFailure w i g src source reason) s =
     map_step (\<lambda>_. ()) (redb_record_semantic_failure L io N w i g src source reason s)"
| "redb_perform L io N (OpReserve edit author) s = map_step (\<lambda>_. ()) (redb_reserve_active edit author s)"
| "redb_perform L io N (OpRelease n) s = redb_release_active n s"
| "redb_perform L io N (OpAuthorize w i g ev) s = map_step (\<lambda>_. ()) (redb_authorize_signing L io N w i g ev s)"
| "redb_perform L io N (OpInstallSigned w i g ev e) s = map_step (\<lambda>_. ()) (redb_install_signed L io N w i g ev e s)"
| "redb_perform L io N (OpSignerRefusal w i g ev reason) s = map_step (\<lambda>_. ()) (redb_record_signer_refusal L io N w i g ev reason s)"
| "redb_perform L io N (OpSignerRetryable w i g ev reason) s = map_step (\<lambda>_. ()) (redb_record_signer_retryable L io N w i g ev reason s)"
| "redb_perform L io N (OpRoute w i g ev plan) s = map_step (\<lambda>_. ()) (redb_apply_route L io N w i g ev plan s)"
| "redb_perform L io N (OpBegin w i g ev x n) s = map_step (\<lambda>_. ()) (redb_begin_attempt L io w i g ev x n s)"
| "redb_perform L io N (OpOutcome w i g ev x n out) s = map_step (\<lambda>_. ()) (redb_record_outcome L io w i g ev x n out s)"
| "redb_perform L io N (OpCancel i) s = map_step (\<lambda>_. ()) (redb_cancel L io i s)"
| "redb_perform L io N (OpRemove i) s = map_step (\<lambda>_. ()) (redb_remove_receipt L io i s)"

lemma durable_perform: "codec_laws L \<Longrightarrow> mirrored L s \<Longrightarrow> durable_step L s (redb_perform L io N op s)"
  by (cases op)
    (simp_all add: durable_accept durable_accept_semantic durable_install_semantic durable_semantic_failure durable_reservations
      durable_signing durable_apply_route durable_begin_attempt durable_record_outcome durable_cancel durable_remove_receipt)

end
