(* ===== verification/Redb_Reopen.thy ===== *)
theory Redb_Reopen
  imports Redb_Durability
begin

section \<open>Processes that end and processes that open the file\<close>

text \<open>
  A process creates the file, performs operations, and ends at any moment; the next one opens the
  file. Whatever transactions fail on the way, the file is the ledger of the process that wrote it,
  and a process that opens it has every receipt of that ledger.
\<close>

subsection \<open>Loading what was written\<close>

definition row_receipt :: "redb_lib \<Rightarrow> string \<Rightarrow> receipt option" where
  "row_receipt L b = (case rl_decode L b of Inl _ \<Rightarrow> None | Inr p \<Rightarrow> Some (pr_receipt p))"

definition row_custody :: "redb_lib \<Rightarrow> string \<Rightarrow> redb_custody option" where
  "row_custody L b = (case rl_decode L b of Inl _ \<Rightarrow> None | Inr p \<Rightarrow> pr_semantic p)"

lemma load_custody_Inr:
  assumes "load_custody i r semantic (rs, cs, ss) = Inr (rs', cs', ss')"
  shows "rs' = rs \<and> ss' = (case semantic of None \<Rightarrow> ss | Some c \<Rightarrow> bt_insert i c ss)"
  using assms by (auto simp: load_custody_def try_then_def split: option.splits if_splits sum.splits)

lemma load_row_Inr:
  assumes "load_row L i b (rs, cs, ss) = Inr (rs', cs', ss')"
  shows "\<exists>p. rl_decode L b = Inr p \<and> bt_get rs i = None \<and> rs' = bt_insert i (pr_receipt p) rs
    \<and> ss' = (case pr_semantic p of None \<Rightarrow> ss | Some c \<Rightarrow> bt_insert i c ss)"
  using assms by (auto simp: load_row_def Let_def try_then_def dest!: load_custody_Inr split: sum.splits if_splits)

lemma load_rows_Inr:
  assumes "load_rows L rows (rs, cs, ss) = Inr (rs', cs', ss')" "distinct (map fst rows)" "bt_wf rs" "bt_wf ss"
    and "\<forall>i\<in>fst ` set rows. bt_get ss i = None"
  shows "bt_wf rs' \<and> bt_wf ss'
    \<and> bt_get rs' i = (case map_of rows i of None \<Rightarrow> bt_get rs i | Some b \<Rightarrow> row_receipt L b)
    \<and> bt_get ss' i = (case map_of rows i of None \<Rightarrow> bt_get ss i | Some b \<Rightarrow> row_custody L b)"
  using assms
proof (induction L rows "(rs, cs, ss)" arbitrary: rs cs ss rule: load_rows.induct)
  case (2 L key b rows)
  obtain rs2 cs2 ss2 where row: "load_row L key b (rs, cs, ss) = Inr (rs2, cs2, ss2)"
    and rest: "load_rows L rows (rs2, cs2, ss2) = Inr (rs', cs', ss')"
    using 2(2) by (auto simp: try_then_def split: sum.splits)
  obtain p where p: "rl_decode L b = Inr p" "rs2 = bt_insert key (pr_receipt p) rs"
    "ss2 = (case pr_semantic p of None \<Rightarrow> ss | Some c \<Rightarrow> bt_insert key c ss)"
    using load_row_Inr [OF row] by blast
  have "bt_wf rs2" "bt_wf ss2" "\<forall>i\<in>fst ` set rows. bt_get ss2 i = None"
    using 2(3-6) by (auto simp: p(2,3) bt_wf_insert split: option.split)
  from 2(1) [OF rest _ this] 2(3)
  have "bt_wf rs' \<and> bt_wf ss'
    \<and> bt_get rs' i = (case map_of rows i of None \<Rightarrow> bt_get rs2 i | Some b \<Rightarrow> row_receipt L b)
    \<and> bt_get ss' i = (case map_of rows i of None \<Rightarrow> bt_get ss2 i | Some b \<Rightarrow> row_custody L b)" by simp
  moreover have "map_of rows key = None" using 2(3) by (simp add: map_of_eq_None_iff)
  ultimately show ?case using 2(6) p by (auto simp: row_receipt_def row_custody_def split: option.splits)
qed simp

text \<open>The ledger a process loads is the ledger the file mirrors.\<close>

lemma load_mirrored:
  assumes "file_mirrors L st d" "redb_load L N d = Inr (next_id, receipts, coordinates, semantics)"
  shows "next_id = rs_next_identity st" "receipts = rs_receipts st" "semantics = rs_semantics st"
proof -
  have wf: "bt_wf (du_rows d)" and rows: "\<And>i. map_option (rl_decode L) (bt_get (du_rows d) i)
      = map_option (\<lambda>r. Inr \<lparr>pr_receipt = r, pr_semantic = bt_get (rs_semantics st) i\<rparr>) (bt_get (rs_receipts st) i)"
    and custody: "\<And>i. bt_get (rs_receipts st) i = None \<Longrightarrow> bt_get (rs_semantics st) i = None"
    using assms(1) unfolding file_mirrors_def by blast+
  have load: "load_rows L (du_rows d) ([], [], []) = Inr (receipts, coordinates, semantics)" and ident: "du_next_id d = Some next_id"
    using assms(2) by (auto simp: redb_load_def try_then_def split: sum.splits if_splits prod.splits option.splits)
  note loaded = load_rows_Inr [OF load bt_wf_distinct [OF wf]]
  have "bt_get receipts i = bt_get (rs_receipts st) i \<and> bt_get semantics i = bt_get (rs_semantics st) i" for i
  proof (cases "bt_get (rs_receipts st) i")
    case None
    then have "bt_get (rs_semantics st) i = None" "map_of (du_rows d) i = None"
      using custody [of i] rows [of i] by (simp, simp add: bt_get_def)
    with None loaded [of i] show ?thesis by simp
  next
    case (Some r)
    then obtain b where "map_of (du_rows d) i = Some b" "rl_decode L b = Inr \<lparr>pr_receipt = r, pr_semantic = bt_get (rs_semantics st) i\<rparr>"
      using rows [of i] by (auto simp: bt_get_def)
    with Some loaded [of i] show ?thesis by (simp add: row_receipt_def row_custody_def)
  qed
  moreover have "bt_wf receipts" "bt_wf semantics" using loaded by simp_all
  ultimately show "receipts = rs_receipts st" "semantics = rs_semantics st"
    using assms(1) by (auto intro!: bt_eqI simp: file_mirrors_def)
  show "next_id = rs_next_identity st" using ident assms(1) by (simp add: file_mirrors_def)
qed

subsection \<open>Deliveries the last process did not finish\<close>

lemma recover_receipt_id [simp]: "rc_receipt_id (recover_receipt r) = rc_receipt_id r"
  by (simp add: recover_receipt_def)

lemma fold_release_frame [simp]:
  "rs_receipts (fold release_semantic_coordinate is st) = rs_receipts st" "rs_semantics (fold release_semantic_coordinate is st) = rs_semantics st"
  "rs_next_identity (fold release_semantic_coordinate is st) = rs_next_identity st"
  by (induction "is" arbitrary: st) simp_all

lemma bt_get_map: "bt_get (map (\<lambda>(i, r). (i, f r)) m) i = map_option f (bt_get m i)"
  by (induction m) (auto simp: bt_get_def)

lemma bt_wf_map: "bt_wf m \<Longrightarrow> bt_wf (map (\<lambda>(i, r). (i, f r)) m)"
  by (simp add: bt_wf_def comp_def case_prod_unfold)

lemma recover_delivery_fields:
  assumes "recover_ambiguous_delivery st = (is, st')"
  shows "rs_receipts st' = map (\<lambda>(i, r). (i, recover_receipt r)) (rs_receipts st)" "rs_semantics st' = rs_semantics st"
    "rs_next_identity st' = rs_next_identity st" "is = map rc_receipt_id (List.filter ambiguous (bt_values (rs_receipts st)))"
  using assms by (auto simp: recover_ambiguous_delivery_def Let_def)

lemma persist_rows_Inr:
  assumes "codec_laws L" "persist_rows L st is d = Inr d'" "\<And>i r. bt_get (rs_receipts st) i = Some r \<Longrightarrow> rc_receipt_id r = i"
  shows "du_tables d' = du_tables d \<and> du_version d' = du_version d \<and> du_next_id d' = du_next_id d \<and> (bt_wf (du_rows d) \<longrightarrow> bt_wf (du_rows d'))
    \<and> (\<forall>i. map_option (rl_decode L) (bt_get (du_rows d') i) = (if i \<in> set is
         then map_option (\<lambda>r. Inr \<lparr>pr_receipt = r, pr_semantic = bt_get (rs_semantics st) i\<rparr>) (bt_get (rs_receipts st) i)
         else map_option (rl_decode L) (bt_get (du_rows d) i)))"
  using assms(2)
proof (induction "is" arbitrary: d)
  case (Cons i "is")
  then obtain r b where r: "bt_get (rs_receipts st) i = Some r" "rl_encode L \<lparr>pr_receipt = r, pr_semantic = bt_get (rs_semantics st) i\<rparr> = Inr b"
    and rest: "persist_rows L st is (d\<lparr>du_rows := bt_insert i b (du_rows d)\<rparr>) = Inr d'"
    using assms(3) by (auto simp: try_then_def write_row_def split: sum.splits option.splits)
  have "rl_decode L b = Inr \<lparr>pr_receipt = r, pr_semantic = bt_get (rs_semantics st) i\<rparr>" using assms(1) r(2) by (simp add: codec_laws_def)
  then show ?case using Cons.IH [OF rest] r(1) by (auto simp: bt_wf_insert)
qed simp

lemma persist_mirrors:
  assumes "codec_laws L" "file_mirrors L st d" "recover_ambiguous_delivery st' = (is, st'')"
    "rs_receipts st' = rs_receipts st" "rs_semantics st' = rs_semantics st" "rs_next_identity st' = rs_next_identity st"
    "(if is = [] then Inr d else persist_existing L io st'' is d) = Inr d'"
  shows "file_mirrors L st'' d'"
proof -
  note fields = recover_delivery_fields [OF assms(3), unfolded assms(4-6)]
  have ids: "bt_get (rs_receipts st) i = Some r \<Longrightarrow> rc_receipt_id r = i" for i r using assms(2) by (simp add: file_mirrors_def)
  have written: "persist_rows L st'' is d = Inr d'" using assms(7)
    by (auto simp: persist_existing_def finish_transaction_def try_then_def split: if_splits sum.splits option.splits)
  have "bt_get (rs_receipts st'') i = Some r \<Longrightarrow> rc_receipt_id r = i" for i r by (auto simp: fields(1) bt_get_map ids)
  note rows = persist_rows_Inr [OF assms(1) written this]
  have kept: "recover_receipt r = r" if "i \<notin> set is" "bt_get (rs_receipts st) i = Some r" for i r
    using that ids [OF that(2)] bt_get_SomeD [OF that(2)] by (force simp: fields(4) recover_receipt_def bt_values_def)
  have "map_option (rl_decode L) (bt_get (du_rows d') i)
      = map_option (\<lambda>r. Inr \<lparr>pr_receipt = r, pr_semantic = bt_get (rs_semantics st'') i\<rparr>) (bt_get (rs_receipts st'') i)" for i
  proof (cases "i \<in> set is")
    case True
    then show ?thesis using rows by simp
  next
    case False
    with rows have "map_option (rl_decode L) (bt_get (du_rows d') i) = map_option (rl_decode L) (bt_get (du_rows d) i)"
      by simp
    then show ?thesis using assms(2) kept [OF False]
      by (cases "bt_get (rs_receipts st) i") (simp_all add: file_mirrors_def fields bt_get_map)
  qed
  then show ?thesis using assms(2) rows
    by (auto simp: file_mirrors_def fields bt_get_map bt_wf_map ids)
qed

subsection \<open>Signatures the last process had authorized\<close>

text \<open>What recovery does to a receipt whose signature was authorized when the process ended.\<close>

definition resigned :: "nostr_lib \<Rightarrow> redb_custody option \<Rightarrow> receipt \<Rightarrow> receipt \<Rightarrow> bool" where
  "resigned N custody r r' \<longleftrightarrow>
     (case custody of
        Some (edits, author, source, failed, Some (edit, u, _)) \<Rightarrow>
          revision_of r' = revision_of r + 1 \<and> lw_event (rc_current r') = Unsigned u \<and> signature_of r' = SigUnsigned
      | _ \<Rightarrow> r' = set_signature (SigRetryable (interrupted_text N r)) r)"

text \<open>The receipts of other writes, the custodies of other writes and the identity that comes next stay.\<close>

definition only_at :: "receipt_id \<Rightarrow> redb_store \<Rightarrow> redb_store \<Rightarrow> bool" where
  "only_at i s s' \<longleftrightarrow> rs_next_identity (rd_state s') = rs_next_identity (rd_state s)
     \<and> (\<forall>j. j \<noteq> i \<longrightarrow> bt_get (rs_receipts (rd_state s')) j = bt_get (rs_receipts (rd_state s)) j
          \<and> bt_get (rs_semantics (rd_state s')) j = bt_get (rs_semantics (rd_state s)) j)"

lemma commit_receipt_Inr:
  assumes "redb_commit_receipt L io r s = (Inr x, s')"
  shows "only_at (rc_receipt_id r) s s' \<and> bt_get (rs_receipts (rd_state s')) (rc_receipt_id r) = Some r"
  using assms by (auto simp: redb_commit_receipt_def Let_def try_in_def only_at_def split: sum.splits)

lemma install_custody_Inr:
  assumes "install_custody L io i r custody s = (Inr x, s')"
  shows "only_at i s s' \<and> bt_get (rs_receipts (rd_state s')) i = Some r"
  using assms by (auto simp: install_custody_def Let_def try_in_def only_at_def split: sum.splits)

lemma promote_Inr:
  assumes "redb_promote_successor L io N i s = (Inr x, s')" "bt_get (rs_receipts (rd_state s)) i = Some r"
  shows "only_at i s s' \<and> (\<exists>r'. bt_get (rs_receipts (rd_state s')) i = Some r' \<and> resigned N (bt_get (rs_semantics (rd_state s)) i) r r')"
proof -
  obtain edits author a b edit u source route revision current updated
    where custody: "bt_get (rs_semantics (rd_state s)) i = Some (edits, author, a, b, Some (edit, u, source, route))"
      and revision: "next_revision_id r = Inr revision"
      and current: "local_event (Unsigned u) (successor_publication i r revision (map_option fst source) (successor_destinations edit r)) = Inr current"
      and updated: "route_if N route (successor_receipt current r) = Inr updated"
      and inst: "install_custody L io i updated (case edit of None \<Rightarrow> edits | Some e \<Rightarrow> edits @ [e], author, source, None, None) s = (Inr x, s')"
    using assms by (auto simp: redb_promote_successor_def try_in_def Let_def split: option.splits sum.splits)
  have "resigned N (Some (edits, author, a, b, Some (edit, u, source, route))) r updated"
    using revision current route_if_frame [OF updated]
    by (auto simp: resigned_def route_frame_def revision_of_def signature_of_def successor_receipt_def successor_publication_def
        next_revision_id_def revision_checked_next_def bind_eq_Some_conv checked_add_u64_def nonzero_u64_def dest!: local_event_Inr split: option.splits if_splits)
  then show ?thesis using install_custody_Inr [OF inst] custody by auto
qed

lemma resigned_signature: "resigned N c r r' \<Longrightarrow> signature_of r' \<noteq> SigAuthorized"
  by (auto simp: resigned_def signature_of_def set_signature_def split: option.splits prod.splits)

lemma retryable_Inr:
  assumes "redb_record_signer_retryable L io N w i g ev (interrupted_text N r) s = (Inr x, s')"
    "bt_get (rs_receipts (rd_state s)) i = Some r" "rc_receipt_id r = i" "signature_of r = SigAuthorized"
  shows "only_at i s s' \<and> (\<exists>r'. bt_get (rs_receipts (rd_state s')) i = Some r' \<and> resigned N (bt_get (rs_semantics (rd_state s)) i) r r')"
proof -
  consider "has_successor i (rd_state s)" "redb_promote_successor L io N i s = (Inr x, s')"
    | "\<not> has_successor i (rd_state s)" "redb_commit_receipt L io (set_signature (SigRetryable (interrupted_text N r)) r) s = (Inr x, s')"
    using assms(1,2,4) by (auto simp: redb_record_signer_retryable_def Let_def try_in_def dest!: redb_current_Inr split: sum.splits if_splits)
  then show ?thesis
  proof cases
    case 1
    then show ?thesis using promote_Inr assms(2) by blast
  next
    case 2
    then have "resigned N (bt_get (rs_semantics (rd_state s)) i) r (set_signature (SigRetryable (interrupted_text N r)) r)"
      by (auto simp: resigned_def has_successor_def split: option.splits prod.splits)
    then show ?thesis using commit_receipt_Inr [OF 2(2)] assms(3) by auto
  qed
qed

lemma recover_signings_Inr:
  assumes "recover_signings L io N n rs s = (Inr x, s')" "distinct (map rc_receipt_id rs)"
    "\<forall>r\<in>set rs. bt_get (rs_receipts (rd_state s)) (rc_receipt_id r) = Some r \<and> signature_of r = SigAuthorized"
  shows "rs_next_identity (rd_state s') = rs_next_identity (rd_state s)
    \<and> (\<forall>i. i \<notin> rc_receipt_id ` set rs \<longrightarrow> bt_get (rs_receipts (rd_state s')) i = bt_get (rs_receipts (rd_state s)) i)
    \<and> (\<forall>r\<in>set rs. \<exists>r'. bt_get (rs_receipts (rd_state s')) (rc_receipt_id r) = Some r'
          \<and> resigned N (bt_get (rs_semantics (rd_state s)) (rc_receipt_id r)) r r')"
  using assms
proof (induction rs arbitrary: s n)
  case (Cons r rs)
  obtain y s2 where first: "redb_record_signer_retryable L (io n) N (rc_write_id r) (rc_receipt_id r)
      (pe_revision_id (lw_publication (rc_current r))) (lw_id (rc_current r)) (interrupted_text N r) s = (Inr y, s2)"
    and rest: "recover_signings L io N (Suc n) rs s2 = (Inr x, s')"
    using Cons.prems(1) by (auto split: prod.splits sum.splits)
  have step: "only_at (rc_receipt_id r) s s2 \<and> (\<exists>r'. bt_get (rs_receipts (rd_state s2)) (rc_receipt_id r) = Some r'
      \<and> resigned N (bt_get (rs_semantics (rd_state s)) (rc_receipt_id r)) r r')"
    using retryable_Inr [OF first] Cons.prems(3) by simp
  have other: "rc_receipt_id q \<noteq> rc_receipt_id r" if "q \<in> set rs" for q using that Cons.prems(2) by (auto simp: image_iff)
  have "\<forall>q\<in>set rs. bt_get (rs_receipts (rd_state s2)) (rc_receipt_id q) = Some q \<and> signature_of q = SigAuthorized"
    using Cons.prems(3) step other by (simp add: only_at_def)
  from Cons.IH [OF rest _ this] Cons.prems(2) step other show ?case
    by (auto simp: only_at_def)
qed simp

lemma recover_signings_mirrored:
  assumes "codec_laws L" "mirrored L s"
  shows "mirrored L (snd (recover_signings L io N n rs s))"
  using assms(2)
proof (induction rs arbitrary: s n)
  case (Cons r rs)
  have "mirrored L (snd (redb_record_signer_retryable L (io n) N (rc_write_id r) (rc_receipt_id r)
      (pe_revision_id (lw_publication (rc_current r))) (lw_id (rc_current r)) (interrupted_text N r) s))"
    using durable_signing(2) [OF assms(1) Cons.prems] by (simp add: durable_step_def)
  then show ?case using Cons.IH by (auto split: prod.split sum.split)
qed simp

subsection \<open>Opening\<close>

definition restored :: "nostr_lib \<Rightarrow> redb_state \<Rightarrow> redb_state \<Rightarrow> bool" where
  "restored N st st' \<longleftrightarrow> rs_next_identity st' = rs_next_identity st
     \<and> (\<forall>i. bt_get (rs_receipts st) i = None \<longrightarrow> bt_get (rs_receipts st') i = None)
     \<and> (\<forall>i r. bt_get (rs_receipts st) i = Some r \<longrightarrow> (\<exists>r'. bt_get (rs_receipts st') i = Some r'
          \<and> (if signature_of r = SigAuthorized then resigned N (bt_get (rs_semantics st) i) (recover_receipt r) r' else r' = recover_receipt r)))"

lemma recover_signature [simp]: "signature_of (recover_receipt r) = signature_of r"
  by (simp add: recover_receipt_def signature_of_def settle_def update_destinations_def)

lemma authorized_receipts:
  assumes "file_mirrors L st d"
  shows "distinct (map rc_receipt_id (List.filter P (bt_values (rs_receipts st))))"
    "\<forall>r\<in>set (List.filter P (bt_values (rs_receipts st))). bt_get (rs_receipts st) (rc_receipt_id r) = Some r"
proof -
  have wf: "bt_wf (rs_receipts st)" and ids: "\<And>i r. bt_get (rs_receipts st) i = Some r \<Longrightarrow> rc_receipt_id r = i"
    using assms by (simp_all add: file_mirrors_def)
  have get: "(i, r) \<in> set (rs_receipts st) \<Longrightarrow> bt_get (rs_receipts st) i = Some r" for i r using bt_get_Some_iff [OF wf] by blast
  have "map rc_receipt_id (bt_values (rs_receipts st)) = map fst (rs_receipts st)"
    unfolding bt_values_def map_map by (rule map_cong) (auto dest!: get ids)
  then have "distinct (map rc_receipt_id (bt_values (rs_receipts st)))" using bt_wf_distinct [OF wf] by simp
  then show "distinct (map rc_receipt_id (List.filter P (bt_values (rs_receipts st))))" by (rule distinct_map_filter)
  show "\<forall>r\<in>set (List.filter P (bt_values (rs_receipts st))). bt_get (rs_receipts st) (rc_receipt_id r) = Some r"
    using get ids by (fastforce simp: bt_values_def)
qed

lemma open_recovers:
  assumes "codec_laws L" "file_mirrors L st d" "recover_ambiguous_delivery st0 = (is, st1)"
    "rs_receipts st0 = rs_receipts st" "rs_semantics st0 = rs_semantics st" "rs_next_identity st0 = rs_next_identity st"
    "file_mirrors L st1 d1"
    "recover_authorized_signing L io N n \<lparr>rd_active = a, rd_terminal = t, rd_state = st1, rd_disk = d1, rd_latest = redb_snapshot st1,
       rd_changes = []\<rparr> = (Inr x, s')"
  shows "restored N st (rd_state s')"
proof -
  note fields = recover_delivery_fields [OF assms(3), unfolded assms(4-6)]
  define rs where "rs = List.filter (\<lambda>r. signature_of r = SigAuthorized) (bt_values (rs_receipts st1))"
  have get: "bt_get (rs_receipts st1) i = map_option recover_receipt (bt_get (rs_receipts st) i)" for i
    by (simp add: fields(1) bt_get_map)
  have ids: "bt_get (rs_receipts st) i = Some r \<Longrightarrow> rc_receipt_id r = i" for i r using assms(2) by (simp add: file_mirrors_def)
  have signings: "recover_signings L io N n rs \<lparr>rd_active = a, rd_terminal = t, rd_state = st1, rd_disk = d1,
      rd_latest = redb_snapshot st1, rd_changes = []\<rparr> = (Inr x, s')"
    using assms(8) by (simp add: recover_authorized_signing_def rs_def)
  have at: "\<forall>r\<in>set rs. bt_get (rs_receipts st1) (rc_receipt_id r) = Some r \<and> signature_of r = SigAuthorized" "distinct (map rc_receipt_id rs)"
    using authorized_receipts [OF assms(7)] unfolding rs_def by auto
  from recover_signings_Inr [OF signings this(2)] this(1)
  have res: "rs_next_identity (rd_state s') = rs_next_identity st1"
    "\<And>i. i \<notin> rc_receipt_id ` set rs \<Longrightarrow> bt_get (rs_receipts (rd_state s')) i = bt_get (rs_receipts st1) i"
    "\<And>r. r \<in> set rs \<Longrightarrow> \<exists>r'. bt_get (rs_receipts (rd_state s')) (rc_receipt_id r) = Some r' \<and> resigned N (bt_get (rs_semantics st1) (rc_receipt_id r)) r r'"
    by auto
  have listed: "i \<in> rc_receipt_id ` set rs \<longleftrightarrow> (\<exists>r. bt_get (rs_receipts st) i = Some r \<and> signature_of r = SigAuthorized)" for i
  proof
    assume "\<exists>r. bt_get (rs_receipts st) i = Some r \<and> signature_of r = SigAuthorized"
    then obtain r where "bt_get (rs_receipts st1) i = Some (recover_receipt r)" "signature_of r = SigAuthorized" "rc_receipt_id r = i"
      using get ids by auto
    then have "recover_receipt r \<in> set rs" "rc_receipt_id (recover_receipt r) = i"
      by (auto simp: rs_def bt_values_def dest!: bt_get_SomeD intro: rev_image_eqI)
    then show "i \<in> rc_receipt_id ` set rs" by blast
  qed (use at(1) get in auto)
  show ?thesis unfolding restored_def
  proof (intro conjI allI impI)
    show "rs_next_identity (rd_state s') = rs_next_identity st" using res(1) fields(3) by simp
    show "bt_get (rs_receipts (rd_state s')) i = None" if "bt_get (rs_receipts st) i = None" for i
      using that res(2) [of i] listed get by simp
    show "\<exists>r'. bt_get (rs_receipts (rd_state s')) i = Some r' \<and> (if signature_of r = SigAuthorized
        then resigned N (bt_get (rs_semantics st) i) (recover_receipt r) r' else r' = recover_receipt r)"
      if r: "bt_get (rs_receipts st) i = Some r" for i r
    proof (cases "signature_of r = SigAuthorized")
      case True
      have "recover_receipt r \<in> set rs" using r get [of i] True by (auto simp: rs_def bt_values_def dest!: bt_get_SomeD intro: rev_image_eqI)
      with res(3) [OF this] ids [OF r] True fields(2) show ?thesis by auto
    next
      case False
      with r listed have "i \<notin> rc_receipt_id ` set rs" by auto
      with res(2) get r False show ?thesis by auto
    qed
  qed
qed

lemma open_mirrored:
  assumes "codec_laws L" "file_mirrors L st d" "redb_open_bounded L io N False a t d = (x, d')"
  shows "\<exists>st'. file_mirrors L st' d' \<and> (\<forall>s'. x = Inr s' \<longrightarrow> rd_state s' = st' \<and> rd_disk s' = d' \<and> mirrored L s' \<and> restored N st st')"
proof -
  have init: "initialize_file L (io 0) False d = Inr d" using assms(2) by (simp add: initialize_file_def file_mirrors_def)
  show ?thesis
  proof (cases "redb_load L N d")
    case (Inl e)
    then show ?thesis using assms(2,3) init by (auto simp: redb_open_bounded_def)
  next
    case (Inr loaded)
    obtain next_id receipts coordinates semantics where l: "loaded = (next_id, receipts, coordinates, semantics)" by (cases loaded) auto
    note same = load_mirrored [OF assms(2) Inr [unfolded l]]
    define st0 where "st0 = \<lparr>rs_revision = 0, rs_next_identity = next_id, rs_next_reservation = 1, rs_reservations = [],
      rs_receipts = receipts, rs_coordinates = coordinates, rs_semantics = semantics\<rparr>"
    obtain recovered st1 where rec: "recover_ambiguous_delivery st0 = (recovered, st1)" by (cases "recover_ambiguous_delivery st0")
    have st0: "rs_receipts st0 = rs_receipts st" "rs_semantics st0 = rs_semantics st" "rs_next_identity st0 = rs_next_identity st"
      by (simp_all add: st0_def same)
    note opened = assms(3) [unfolded redb_open_bounded_def init try_in_simps Inr l prod.case st0_def [symmetric] rec Let_def]
    show ?thesis
    proof (cases "validate_recovered_bounds st1 a t")
      case (Inl e)
      then show ?thesis using assms(2) opened by auto
    next
      case bounds: (Inr _)
      show ?thesis
      proof (cases "if recovered = [] then Inr d else persist_existing L (io 1) st1 recovered d")
        case (Inl e)
        then show ?thesis using assms(2) opened bounds by auto
      next
        case (Inr d1)
        have mir: "file_mirrors L st1 d1" using persist_mirrors [OF assms(1,2) rec st0 Inr] .
        define s1 where "s1 = \<lparr>rd_active = a, rd_terminal = t, rd_state = st1, rd_disk = d1, rd_latest = redb_snapshot st1, rd_changes = []\<rparr>"
        have "mirrored L s1" by (simp add: s1_def mirrored_def mir)
        then have "mirrored L (snd (recover_authorized_signing L io N 2 s1))"
          unfolding recover_authorized_signing_def by (rule recover_signings_mirrored [OF assms(1)])
        moreover obtain y s2 where y: "recover_authorized_signing L io N 2 s1 = (y, s2)" by (cases "recover_authorized_signing L io N 2 s1")
        moreover have "x = map_sum id (\<lambda>_. s2) y \<and> d' = rd_disk s2"
          using opened bounds Inr y by (cases y) (auto simp: s1_def)
        moreover have "restored N st (rd_state s2)" if "y = Inr z" for z
          using open_recovers [OF assms(1,2) rec st0 mir] y that by (simp add: s1_def)
        ultimately show ?thesis by (cases y) (auto simp: mirrored_def)
      qed
    qed
  qed
qed

subsection \<open>Histories of one file\<close>

definition new_file :: durable where
  "new_file = \<lparr>du_tables = False, du_version = None, du_next_id = None, du_rows = []\<rparr>"

text \<open>
  The states of a running store, and the files a process leaves when it ends: between two
  operations, in one whose transaction did not commit, or in an opening that was refused.
\<close>

inductive redb_running :: "redb_lib \<Rightarrow> nostr_lib \<Rightarrow> redb_store \<Rightarrow> bool"
  and redb_left :: "redb_lib \<Rightarrow> nostr_lib \<Rightarrow> durable \<Rightarrow> bool" for L N where
  created: "redb_open_bounded L io N True a t new_file = (Inr s, d) \<Longrightarrow> redb_running L N s"
| performed: "redb_running L N s \<Longrightarrow> redb_running L N (snd (redb_perform L io N op s))"
| ended: "redb_running L N s \<Longrightarrow> redb_left L N (rd_disk s)"
| reopened: "redb_left L N d \<Longrightarrow> redb_open_bounded L io N False a t d = (Inr s, d') \<Longrightarrow> redb_running L N s"
| refused: "redb_left L N d \<Longrightarrow> redb_open_bounded L io N False a t d = (Inl e, d') \<Longrightarrow> redb_left L N d'"

lemma created_mirrored:
  assumes "codec_laws L" "redb_open_bounded L io N True a t new_file = (Inr s, d)"
  shows "mirrored L s"
proof -
  define f where "f = new_file\<lparr>du_tables := True, du_next_id := Some 1, du_version := Some SCHEMA_VERSION\<rparr>"
  define st where "st = \<lparr>rs_revision = 0, rs_next_identity = 1, rs_next_reservation = 1, rs_reservations = [], rs_receipts = [],
    rs_coordinates = [], rs_semantics = []\<rparr>"
  have "initialize_file L (io 0) True new_file = Inr f" "initialize_file L (io 0) False f = Inr f"
    using assms(2) by (auto simp: redb_open_bounded_def initialize_file_def finish_transaction_def f_def split: option.splits)
  then have "redb_open_bounded L io N False a t f = (Inr s, d)" using assms(2) by (simp add: redb_open_bounded_def)
  moreover have "file_mirrors L st f" by (simp add: file_mirrors_def f_def st_def new_file_def)
  ultimately show ?thesis using open_mirrored [OF assms(1)] by blast
qed

lemma history_mirrored:
  assumes "codec_laws L"
  shows "redb_running L N s \<Longrightarrow> mirrored L s" and "redb_left L N d \<Longrightarrow> \<exists>st. file_mirrors L st d"
proof (induction rule: redb_running_redb_left.inducts)
  case (created io a t s d)
  then show ?case by (rule created_mirrored [OF assms])
next
  case (performed s io op)
  then show ?case using durable_perform [OF assms] by (simp add: durable_step_def)
next
  case (ended s)
  then show ?case by (auto simp: mirrored_def)
next
  case (reopened d io a t s d')
  then show ?case using open_mirrored [OF assms] by blast
next
  case (refused d io a t e d')
  then show ?case using open_mirrored [OF assms] by blast
qed


lemma recover_outcomes:
  "bt_get (receipt_destinations (recover_receipt r)) x
     = (if bt_get (receipt_destinations r) x = Some Attempting then Some (Unknown ended_text) else bt_get (receipt_destinations r) x)"
proof (cases "ambiguous r")
  case True
  have "receipt_destinations (recover_receipt r)
      = map (\<lambda>(s, out). (s, if out = Attempting then Unknown ended_text else out)) (receipt_destinations r)"
    using True by (simp add: recover_receipt_def receipt_destinations_def settle_def update_destinations_def)
  then show ?thesis by (cases "bt_get (receipt_destinations r) x") (auto simp: bt_get_map)
next
  case False
  then have "bt_get (receipt_destinations r) x \<noteq> Some Attempting"
    by (force simp: ambiguous_def bt_values_def dest: bt_get_SomeD)
  with False show ?thesis by (simp add: recover_receipt_def)
qed

text \<open>
  (C6) A process that opens the file another one left has every receipt of it under the same identity and
  no other, and goes on with the same next identity. A receipt whose signature was not being made is
  as it was, except that a delivery begun and not finished is now unknown, so that it is not sent a
  second time as if it had never been sent. A receipt whose signature was being made may be signed
  again: the same revision with the interruption recorded, or the next revision when one waited.
\<close>

theorem reopened_store_restores_receipts:
  assumes "codec_laws L" "redb_running L N s" "redb_open_bounded L io N False a t (rd_disk s) = (Inr s', d')"
  shows "rs_next_identity (rd_state s') = rs_next_identity (rd_state s)
    \<and> (\<forall>i. redb_receipt i s' = None \<longleftrightarrow> redb_receipt i s = None)
    \<and> (\<forall>i r r'. redb_receipt i s = Some r \<longrightarrow> redb_receipt i s' = Some r' \<longrightarrow>
         signature_of r' \<noteq> SigAuthorized
         \<and> (signature_of r \<noteq> SigAuthorized \<longrightarrow>
              lw_event (rc_current r') = lw_event (rc_current r) \<and> revision_of r' = revision_of r \<and> signature_of r' = signature_of r
              \<and> rc_attempts r' = rc_attempts r
              \<and> (\<forall>x. bt_get (receipt_destinations r') x = (if bt_get (receipt_destinations r) x = Some Attempting
                    then Some (Unknown ended_text) else bt_get (receipt_destinations r) x)))
         \<and> (signature_of r = SigAuthorized \<longrightarrow> resigned N (bt_get (rs_semantics (rd_state s)) i) (recover_receipt r) r'))"
proof -
  have "mirrored L s" using history_mirrored(1) [OF assms(1,2)] .
  then have restored: "restored N (rd_state s) (rd_state s')"
    using open_mirrored [OF assms(1) _ assms(3), of "rd_state s"] by (auto simp: mirrored_def)
  have frame: "lw_event (rc_current (recover_receipt r)) = lw_event (rc_current r)" "revision_of (recover_receipt r) = revision_of r"
    "rc_attempts (recover_receipt r) = rc_attempts r" for r
    by (simp_all add: recover_receipt_def revision_of_def settle_def update_destinations_def)
  show ?thesis
  proof (intro conjI allI impI)
    show "rs_next_identity (rd_state s') = rs_next_identity (rd_state s)" using restored by (simp add: restored_def)
    show "redb_receipt i s' = None \<longleftrightarrow> redb_receipt i s = None" for i
      using restored unfolding restored_def redb_receipt_def by (metis not_None_eq)
  next
    fix i r r' assume r: "redb_receipt i s = Some r" "redb_receipt i s' = Some r'"
    then have kept: "if signature_of r = SigAuthorized then resigned N (bt_get (rs_semantics (rd_state s)) i) (recover_receipt r) r'
        else r' = recover_receipt r"
      using restored by (force simp: restored_def redb_receipt_def)
    then show "signature_of r' \<noteq> SigAuthorized" by (auto dest: resigned_signature split: if_splits)
    show "resigned N (bt_get (rs_semantics (rd_state s)) i) (recover_receipt r) r'" if "signature_of r = SigAuthorized" using kept that by simp
    assume "signature_of r \<noteq> SigAuthorized"
    with kept have "r' = recover_receipt r" by simp
    then show "lw_event (rc_current r') = lw_event (rc_current r)" "revision_of r' = revision_of r" "signature_of r' = signature_of r"
      "rc_attempts r' = rc_attempts r" "bt_get (receipt_destinations r') x = (if bt_get (receipt_destinations r) x = Some Attempting
        then Some (Unknown ended_text) else bt_get (receipt_destinations r) x)" for x
      by (simp_all add: frame recover_outcomes)
  qed
qed

end
