(* ===== verification/Redb_Properties.thy ===== *)
theory Redb_Properties
  imports Redb_Reopen
begin

section \<open>Runs of the durable write store\<close>

text \<open>
  Concrete histories of the store, and the ways in which what it writes keeps the next process
  from opening the file or a coordinate from having one owner.
\<close>

subsection \<open>A codec by table\<close>

text \<open>Rows numbered by their place in a list: an encoding that reads back what it wrote.\<close>

fun place :: "'a \<Rightarrow> 'a list \<Rightarrow> nat option" where
  "place x [] = None"
| "place x (y # ys) = (if x = y then Some 0 else map_option Suc (place x ys))"

definition table_lib :: "persisted_receipt list \<Rightarrow> redb_lib" where
  "table_lib rows = \<lparr>rl_encode = (\<lambda>p. case place p rows of None \<Rightarrow> Inl ''not in the table'' | Some n \<Rightarrow> Inr (replicate n CHR ''x'')),
     rl_decode = (\<lambda>b. if length b < length rows then Inr (rows ! length b) else Inl ''not in the table''), rl_no_table = ''no table''\<rparr>"

lemma place_nth: "place x xs = Some n \<Longrightarrow> n < length xs \<and> xs ! n = x"
  by (induction xs arbitrary: n) (auto split: if_splits)

lemma table_codec: "codec_laws (table_lib rows)"
  by (auto simp: codec_laws_def table_lib_def dest: place_nth split: option.splits)

definition redb_run :: "redb_lib \<Rightarrow> nostr_lib \<Rightarrow> store_op list \<Rightarrow> redb_store \<Rightarrow> redb_store" where
  "redb_run L N ops s = fold (\<lambda>op s. snd (redb_perform L None N op s)) ops s"

lemma running_run: "redb_running L N s \<Longrightarrow> redb_running L N (redb_run L N ops s)"
  unfolding redb_run_def by (induction ops arbitrary: s) (auto intro: redb_running_redb_left.performed)

text \<open>The store after a run from a new file, and the rows such runs write.\<close>

definition redb_started :: "redb_lib \<Rightarrow> store_op list \<Rightarrow> redb_store" where
  "redb_started L ops =
     (case redb_open_bounded L (\<lambda>_. None) sample_lib True 4 1 new_file of (Inr s, _) \<Rightarrow> redb_run L sample_lib ops s
      | (Inl _, d) \<Rightarrow> undefined)"

definition blank_lib :: redb_lib where
  "blank_lib = \<lparr>rl_encode = (\<lambda>_. Inr []), rl_decode = (\<lambda>_. Inl []), rl_no_table = []\<rparr>"

definition ledger_rows :: "redb_store \<Rightarrow> persisted_receipt list" where
  "ledger_rows s = map (\<lambda>(i, r). \<lparr>pr_receipt = r, pr_semantic = bt_get (rs_semantics (rd_state s)) i\<rparr>) (rs_receipts (rd_state s))"

definition run_rows :: "store_op list \<Rightarrow> persisted_receipt list" where
  "run_rows ops = concat (map (\<lambda>n. ledger_rows (redb_started blank_lib (take n ops))) [0..<Suc (length ops)])"

definition recovered_rows :: "persisted_receipt list \<Rightarrow> persisted_receipt list" where
  "recovered_rows rows = rows @ map (\<lambda>p. p\<lparr>pr_receipt := recover_receipt (pr_receipt p)\<rparr>) rows"

definition delivery_lib :: redb_lib where
  "delivery_lib = table_lib (recovered_rows (run_rows sample_run))"

lemma started_running:
  assumes "isl (fst (redb_open_bounded L (\<lambda>_. None) sample_lib True 4 1 new_file)) = False"
  shows "redb_running L sample_lib (redb_started L ops)"
proof -
  obtain s d where "redb_open_bounded L (\<lambda>_. None) sample_lib True 4 1 new_file = (Inr s, d)"
    using assms by (cases "redb_open_bounded L (\<lambda>_. None) sample_lib True 4 1 new_file"; cases "fst (redb_open_bounded L (\<lambda>_. None) sample_lib True 4 1 new_file)") auto
  moreover from this have "redb_running L sample_lib s" by (rule redb_running_redb_left.created)
  ultimately show ?thesis by (simp add: redb_started_def running_run)
qed

lemma new_file_opens: "isl (fst (redb_open_bounded L (\<lambda>_. None) sample_lib True 4 1 new_file)) = False"
  by (simp add: redb_open_bounded_def initialize_file_def finish_transaction_def new_file_def redb_load_def reconstructed_def try_then_def
      recover_ambiguous_delivery_def validate_recovered_bounds_def redb_active_count_def recover_authorized_signing_def bt_values_def bt_keys_def)

text \<open>The store in the middle of its first delivery.\<close>

abbreviation delivering :: redb_store where
  "delivering \<equiv> redb_started delivery_lib (take 4 sample_run)"


theorem reopened_store_restores_receipts_witness:
  "\<exists>s' d' r'. redb_open_bounded delivery_lib (\<lambda>_. None) sample_lib False 4 1 (rd_disk delivering) = (Inr s', d')
     \<and> redb_receipt 1 s' = Some r' \<and> bt_get (receipt_destinations r') ''wss://a'' = Some (Unknown ended_text)"
proof -
  have run: "codec_laws delivery_lib" "redb_running delivery_lib sample_lib delivering"
    using table_codec started_running [OF new_file_opens] by (simp_all add: delivery_lib_def)
  have before: "map_option (\<lambda>r. (bt_get (receipt_destinations r) ''wss://a'', signature_of r = SigAuthorized)) (redb_receipt 1 delivering)
      = Some (Some Attempting, False)" by code_simp
  have "(case redb_open_bounded delivery_lib (\<lambda>_. None) sample_lib False 4 1 (rd_disk delivering) of (Inr _, _) \<Rightarrow> True | _ \<Rightarrow> False)" by code_simp
  then obtain s' d' where opened: "redb_open_bounded delivery_lib (\<lambda>_. None) sample_lib False 4 1 (rd_disk delivering) = (Inr s', d')"
    by (auto split: prod.splits sum.splits)
  obtain r where r: "redb_receipt 1 delivering = Some r" "bt_get (receipt_destinations r) ''wss://a'' = Some Attempting"
    "signature_of r \<noteq> SigAuthorized" using before by auto
  note kept = reopened_store_restores_receipts [OF run opened]
  then obtain r' where "redb_receipt 1 s' = Some r'" using r(1) by (metis not_None_eq)
  with kept r opened show ?thesis by fastforce
qed

subsection \<open>A settled composition\<close>

text \<open>
  An edit is composed onto an open write, and the route given with it settles without a destination:
  the composition is committed without its custody, with a retired revision behind it. The validation
  of the next opening refuses such a row, and with it the whole file.
\<close>

definition settled_run :: "store_op list" where
  "settled_run =
     [OpAcceptApplied 5 sample_edit_intent (sample_revision 10) None, OpReserve sample_edit 7,
      OpAcceptReserved 5 1 sample_edit_intent (sample_revision 12) (Some (Unsigned (sample_revision 10))) (Some (plan_default\<lparr>rp_revision := 1\<rparr>))]"

definition settled_lib :: redb_lib where
  "settled_lib = table_lib (run_rows settled_run)"

theorem settled_composition_blocks_reopening:
  "map_option receipt_is_terminal (redb_receipt 1 (redb_started settled_lib settled_run)) = Some True
   \<and> fst (redb_open_bounded settled_lib (\<lambda>_. None) sample_lib False 4 1 (rd_disk (redb_started settled_lib settled_run)))
       = Inl (StoreRefused ''durable publication evidence has no semantic custody'')"
  by code_simp

subsection \<open>A coordinate that loses its owner\<close>

text \<open>
  A write that settles gives its coordinate free and keeps its custody. When its receipt is removed
  later, the coordinate is freed a second time, although another open write owns it by then: the next
  edit of the coordinate becomes a write of its own instead of a revision, and the two open writes at
  one coordinate keep the next process from opening the file.
\<close>

definition orphaning_run :: "store_op list" where
  "orphaning_run =
     [OpAcceptApplied 5 sample_edit_intent (sample_revision 10) None, OpRoute 1 1 1 110 (plan_default\<lparr>rp_revision := 1\<rparr>),
      OpAcceptApplied 5 sample_edit_intent (sample_revision 12) None, OpRemove 1,
      OpAcceptApplied 5 sample_edit_intent (sample_revision 13) None]"

definition orphaning_lib :: redb_lib where
  "orphaning_lib = table_lib (run_rows orphaning_run)"

theorem removed_receipt_frees_owned_coordinate:
  "rs_coordinates (rd_state (redb_started orphaning_lib (take 3 orphaning_run))) = [(edit_coordinate sample_edit 7, 2)]
   \<and> rs_coordinates (rd_state (redb_started orphaning_lib (take 4 orphaning_run))) = []
   \<and> map rc_receipt_id (redb_recover_open (redb_started orphaning_lib orphaning_run)) = [2, 3]
   \<and> fst (redb_open_bounded orphaning_lib (\<lambda>_. None) sample_lib False 4 1 (rd_disk (redb_started orphaning_lib orphaning_run)))
       = Inl (StoreRefused ''duplicate durable semantic coordinate owner'')"
  by code_simp

subsection \<open>A write cancelled while it was being signed\<close>

text \<open>
  Cancelling a write leaves its signature authorized. The next opening takes every authorized
  signature for one that was interrupted, is refused for the cancelled receipt, which is no longer
  current, and gives up: the file does not open until the row is gone.
\<close>

definition cancelling_run :: "store_op list" where
  "cancelling_run = [OpAccept sample_plain_intent, OpAuthorize 1 1 1 110, OpCancel 1]"

definition cancelling_lib :: redb_lib where
  "cancelling_lib = table_lib (run_rows cancelling_run)"

theorem cancelled_signing_blocks_reopening:
  "map_option rc_outcome (redb_receipt 1 (redb_started cancelling_lib cancelling_run)) = Some Cancelled
   \<and> fst (redb_open_bounded cancelling_lib (\<lambda>_. None) sample_lib False 4 1 (rd_disk (redb_started cancelling_lib cancelling_run)))
       = Inl (StoreRefused ''write revision is not current'')"
  by code_simp

subsection \<open>A file without tables\<close>

text \<open>
  A process that ends between the creation of the file and its first commit leaves a file that is
  there and has no tables; every later opening is refused.
\<close>

lemma interrupted_creation_never_opens:
  "redb_open_bounded L io N False a t new_file = (Inl (StoreRefused (rl_no_table L)), new_file)"
  by (simp add: redb_open_bounded_def initialize_file_def new_file_def)

end
