(* ===== verification/Observation_Delivery.thy ===== *)
theory Observation_Delivery
  imports Diagnostics Query_Standard
begin

section \<open>Delivery of one observation (\<open>fava-observe/src/sources.rs\<close>, \<open>observation.rs\<close>)\<close>

text \<open>
  The projection task of an observation merges its two local sources and the live events the
  registry keeps for it, evaluates the query after every change, and replaces the value of a watch
  channel; the application's handle reads that channel. One iteration of the loop is one step; the
  evaluator is the provider behind the \<open>QueryEvaluator\<close> trait and a parameter. Every wake of the
  loop evaluates, so the branch that would call \<open>rebase\<close> is never taken.
\<close>

subsection \<open>Sources\<close>

definition replace_source :: "source_snapshot \<Rightarrow> source_snapshot list \<Rightarrow> source_snapshot list" where
  "replace_source changed sources = replace_first (\<lambda>s. ss_kind s = ss_kind changed) changed sources"

definition refresh_live_snapshots :: "registry \<Rightarrow> observation_id \<Rightarrow> source_snapshot list \<Rightarrow> source_snapshot list" where
  "refresh_live_snapshots r i sources =
     List.filter (\<lambda>s. case ss_kind s of LiveRelay _ \<Rightarrow> False | _ \<Rightarrow> True) sources @ live_snapshots i r"

fun mark_source_closed :: "source_kind \<Rightarrow> source_termination_cause \<Rightarrow> source_snapshot list \<Rightarrow> source_snapshot list" where
  "mark_source_closed role cause [] = []"
| "mark_source_closed role cause (s # rest) =
     (if ss_kind s = role then s\<lparr>ss_status := SourceClosed cause\<rparr> # rest else s # mark_source_closed role cause rest)"

definition saturating_sub_u64 :: "u64 \<Rightarrow> u64 \<Rightarrow> u64" where
  "saturating_sub_u64 a b = (if b \<le> a then a - b else 0)"

text \<open>The revisions between two that were seen: \<open>report_skipped\<close> and \<open>report_delivery_gap\<close>.\<close>

definition skipped_between :: "u64 \<Rightarrow> u64 \<Rightarrow> u64" where
  "skipped_between previous current = saturating_sub_u64 (saturating_sub_u64 current previous) 1"

subsection \<open>Evidence and diagnostics\<close>

definition decorate :: "registry \<Rightarrow> observation_id \<Rightarrow> query_evidence \<Rightarrow> query_evidence" where
  "decorate r i e =
     (let owned = registry_evidence i r in
      e\<lparr>qe_relays := oe_relays owned, qe_plan := oe_plan owned,
        qe_shortfalls :=
          List.filter (\<lambda>x. case x of CoalescedUpdates _ \<Rightarrow> False | LiveRetentionLimit _ _ _ \<Rightarrow> False | _ \<Rightarrow> True) (qe_shortfalls e)
          @ oe_live_shortfalls owned
          @ (if oe_coalesced owned > 0 then [CoalescedUpdates (oe_coalesced owned)] else [])\<rparr>)"

definition query_fact ::
  "observation_id \<Rightarrow> u64 option \<Rightarrow> u64 option \<Rightarrow> relay_query_evidence list \<Rightarrow> u64 \<Rightarrow> query_diagnostic" where
  "query_fact i route_revision plan_revision relays coalesced =
     \<lparr>qd_observation = i, qd_route_revision = route_revision, qd_route_relays = map rqe_session relays,
      qd_demand = map (\<lambda>e. \<lparr>ld_session = rqe_session e,
          ld_branch = (case rqe_branches e of [] \<Rightarrow> 0 | b # _ \<Rightarrow> b), ld_state = rqe_state e\<rparr>) relays,
      qd_plan_revision = plan_revision, qd_wire = [],
      qd_shortfalls = List.map_filter (\<lambda>e. map_option rs_detail (rqe_shortfall e)) relays,
      qd_pending_operation = None, qd_coalesced_updates = coalesced\<rparr>"

text \<open>What the projections, the handles and the diagnostics share; \<open>dw_reports\<close> logs the calls of the coalescing report.\<close>

record delivery_world =
  dw_registry :: registry
  dw_diagnostics :: diagnostics
  dw_reports :: "u64 list"

definition publish_and ::
  "observation_id \<Rightarrow> observation_id \<Rightarrow> query_evidence \<Rightarrow> delivery_world \<Rightarrow> bool \<times> delivery_world" where
  "publish_and i diagnostic_id e w =
     (case with_publication_evidence diagnostic_id i (\<lambda>owned.
             query_fact diagnostic_id (oe_route_revision owned) (map_option dpe_revision (qe_plan e)) (qe_relays e) (oe_coalesced owned))
           (dw_registry w) of
        None \<Rightarrow> (False, w)
      | Some note \<Rightarrow> (True, w\<lparr>dw_diagnostics := publish_query note (dw_diagnostics w)\<rparr>))"

definition report_skipped :: "observation_id \<Rightarrow> u64 \<Rightarrow> u64 \<Rightarrow> delivery_world \<Rightarrow> delivery_world" where
  "report_skipped i previous current w =
     (let skipped = skipped_between previous current in
      if skipped = 0 then w
      else w\<lparr>dw_registry := record_coalesced i skipped (dw_registry w), dw_reports := dw_reports w @ [skipped]\<rparr>)"

definition report_delivery_gap :: "u64 \<Rightarrow> u64 \<Rightarrow> delivery_world \<Rightarrow> delivery_world" where
  "report_delivery_gap previous current w =
     (let skipped = skipped_between previous current in
      if skipped = 0 then w else w\<lparr>dw_reports := dw_reports w @ [skipped]\<rparr>)"

subsection \<open>The projection loop\<close>

type_synonym evaluator = "query \<Rightarrow> source_snapshot list \<Rightarrow> query_evaluation_error + query_snapshot"

text \<open>The watch channel the handle reads: every \<open>send_replace\<close> is a new version.\<close>

record projection =
  pj_id :: observation_id
  pj_diagnostic :: "observation_id option"
  pj_query :: query
  pj_sources :: "source_snapshot list"
  pj_cache_open :: bool
  pj_writes_open :: bool
  pj_revision :: u64
  pj_latest :: query_snapshot
  pj_version :: nat
  pj_running :: bool

datatype local_role = CacheRole | WritesRole

fun role_kind :: "local_role \<Rightarrow> source_kind" where
  "role_kind CacheRole = EventCache"
| "role_kind WritesRole = WriteStore"

datatype wake = WakeEnded | WakeEvidence | WakeChanged local_role source_snapshot | WakeClosed local_role source_termination_cause

text \<open>The guards of the \<open>select!\<close>: a source that reported its end is not polled again.\<close>

fun wake_enabled :: "projection \<Rightarrow> wake \<Rightarrow> bool" where
  "wake_enabled pj (WakeChanged CacheRole _) = pj_cache_open pj"
| "wake_enabled pj (WakeClosed CacheRole _) = pj_cache_open pj"
| "wake_enabled pj (WakeChanged WritesRole _) = pj_writes_open pj"
| "wake_enabled pj (WakeClosed WritesRole _) = pj_writes_open pj"
| "wake_enabled pj _ = True"

definition projection_ends :: "projection \<Rightarrow> delivery_world \<Rightarrow> projection \<times> delivery_world" where
  "projection_ends pj w =
     (pj\<lparr>pj_cache_open := False, pj_writes_open := False, pj_running := False\<rparr>,
      if pj_diagnostic pj = Some (pj_id pj) then w\<lparr>dw_diagnostics := forget_query (pj_id pj) (dw_diagnostics w)\<rparr> else w)"

definition close_role :: "local_role \<Rightarrow> projection \<Rightarrow> projection" where
  "close_role role pj = (case role of CacheRole \<Rightarrow> pj\<lparr>pj_cache_open := False\<rparr> | WritesRole \<Rightarrow> pj\<lparr>pj_writes_open := False\<rparr>)"

text \<open>The first half of an iteration: the sources after the wake.\<close>

fun take_wake :: "wake \<Rightarrow> projection \<Rightarrow> delivery_world \<Rightarrow> projection \<times> delivery_world" where
  "take_wake WakeEnded pj w = (pj, w)"
| "take_wake WakeEvidence pj w = (pj\<lparr>pj_sources := refresh_live_snapshots (dw_registry w) (pj_id pj) (pj_sources pj)\<rparr>, w)"
| "take_wake (WakeChanged role snapshot) pj w =
     (pj\<lparr>pj_sources := replace_source snapshot (pj_sources pj)\<rparr>,
      case List.find (\<lambda>s. ss_kind s = role_kind role) (pj_sources pj) of
        None \<Rightarrow> w
      | Some current \<Rightarrow> report_skipped (pj_id pj) (ss_revision current) (ss_revision snapshot) w)"
| "take_wake (WakeClosed role cause) pj w =
     ((close_role role pj)\<lparr>pj_sources := mark_source_closed (role_kind role) cause (pj_sources pj)\<rparr>, w)"

text \<open>The second half: evaluate, number, decorate, publish and replace.\<close>

definition send_latest :: "query_snapshot \<Rightarrow> projection \<Rightarrow> projection" where
  "send_latest snapshot pj = pj\<lparr>pj_latest := snapshot, pj_version := Suc (pj_version pj)\<rparr>"

definition deliver_next :: "evaluator \<Rightarrow> projection \<Rightarrow> delivery_world \<Rightarrow> projection \<times> delivery_world" where
  "deliver_next ev pj w =
     (case ev (pj_query pj) (pj_sources pj) of
        Inl _ \<Rightarrow> projection_ends pj w
      | Inr evaluated \<Rightarrow>
          (case checked_add_u64 (pj_revision pj) 1 of
             None \<Rightarrow> projection_ends pj w
           | Some bumped \<Rightarrow>
               let e = decorate (dw_registry w) (pj_id pj) (qs_evidence evaluated);
                   w = (case pj_diagnostic pj of None \<Rightarrow> w | Some d \<Rightarrow> snd (publish_and (pj_id pj) d e w))
               in (send_latest (evaluated\<lparr>qs_revision := bumped, qs_evidence := e\<rparr>) (pj\<lparr>pj_revision := bumped\<rparr>), w)))"

definition deliver_turn :: "evaluator \<Rightarrow> wake \<Rightarrow> projection \<Rightarrow> delivery_world \<Rightarrow> projection \<times> delivery_world" where
  "deliver_turn ev wake pj w =
     (if \<not> pj_running pj \<or> \<not> wake_enabled pj wake then (pj, w)
      else if wake = WakeEnded then projection_ends pj w
      else let (pj, w) = take_wake wake pj w in deliver_next ev pj w)"

definition project ::
  "observation_id \<Rightarrow> observation_id option \<Rightarrow> query \<Rightarrow> source_snapshot list \<Rightarrow> query_snapshot \<Rightarrow> projection" where
  "project i diagnostic q sources initial =
     \<lparr>pj_id = i, pj_diagnostic = diagnostic, pj_query = q, pj_sources = sources, pj_cache_open = True, pj_writes_open = True,
      pj_revision = 1, pj_latest = initial, pj_version = 0, pj_running = True\<rparr>"

subsection \<open>The handle\<close>

record handle =
  hd_seen :: nat
  hd_delivered :: u64

definition handle_new :: handle where
  "handle_new = \<lparr>hd_seen = 0, hd_delivered = 1\<rparr>"

text \<open>
  \<open>changed\<close> at a moment: \<open>None\<close> when it waits. The channel is closed for the reader when its task has
  ended and there is no unseen value.
\<close>

definition handle_changed ::
  "bool \<Rightarrow> projection \<Rightarrow> handle \<Rightarrow> delivery_world \<Rightarrow> (unit + query_snapshot) option \<times> handle \<times> delivery_world" where
  "handle_changed cancelled pj h w =
     (if cancelled then (Some (Inl ()), h, w)
      else if pj_version pj = hd_seen h then (if pj_running pj then (None, h, w) else (Some (Inl ()), h, w))
      else (Some (Inr (pj_latest pj)), \<lparr>hd_seen = pj_version pj, hd_delivered = qs_revision (pj_latest pj)\<rparr>,
            report_delivery_gap (hd_delivered h) (qs_revision (pj_latest pj)) w))"

text \<open>
  \<open>wait_until\<close> over the moments at which its handle is polled until the bound expires: the current
  snapshot first, then every snapshot that is delivered.
\<close>

fun wait_changed ::
  "(query_snapshot \<Rightarrow> bool) \<Rightarrow> (bool \<times> projection) list \<Rightarrow> handle \<Rightarrow> delivery_world
     \<Rightarrow> (unit + query_snapshot option) \<times> handle \<times> delivery_world" where
  "wait_changed P [] h w = (Inr None, h, w)"
| "wait_changed P ((cancelled, pj) # moments) h w =
     (case handle_changed cancelled pj h w of
        (None, h, w) \<Rightarrow> wait_changed P moments h w
      | (Some (Inl _), h, w) \<Rightarrow> (Inl (), h, w)
      | (Some (Inr s), h, w) \<Rightarrow> if P s then (Inr (Some s), h, w) else wait_changed P moments h w)"

definition wait_until ::
  "(query_snapshot \<Rightarrow> bool) \<Rightarrow> projection \<Rightarrow> (bool \<times> projection) list \<Rightarrow> handle \<Rightarrow> delivery_world
     \<Rightarrow> (unit + query_snapshot option) \<times> handle \<times> delivery_world" where
  "wait_until P pj moments h w =
     (if P (pj_latest pj) then (Inr (Some (pj_latest pj)), h, w) else wait_changed P moments h w)"

definition handle_close :: "observation_id \<Rightarrow> bool \<Rightarrow> delivery_world \<Rightarrow> delivery_world" where
  "handle_close i forget w =
     (let w = w\<lparr>dw_registry := registry_withdraw i (dw_registry w)\<rparr>
      in if forget then w\<lparr>dw_diagnostics := forget_query i (dw_diagnostics w)\<rparr> else w)"

subsection \<open>Turns, readers and other owners\<close>

datatype delivery_event = Turn wake | Elsewhere registry diagnostics | Poll bool

type_synonym delivery_run = "projection \<times> handle \<times> delivery_world \<times> query_snapshot list"

fun delivery_step :: "evaluator \<Rightarrow> delivery_event \<Rightarrow> delivery_run \<Rightarrow> delivery_run" where
  "delivery_step ev (Turn wake) (pj, h, w, seen) = (let (pj, w) = deliver_turn ev wake pj w in (pj, h, w, seen))"
| "delivery_step ev (Elsewhere r d) (pj, h, w, seen) = (pj, h, w\<lparr>dw_registry := r, dw_diagnostics := d\<rparr>, seen)"
| "delivery_step ev (Poll cancelled) (pj, h, w, seen) =
     (case handle_changed cancelled pj h w of
        (Some (Inr s), h, w) \<Rightarrow> (pj, h, w, seen @ [s])
      | (_, h, w) \<Rightarrow> (pj, h, w, seen))"

text \<open>What a local source last reported, as long as it had not reported its end.\<close>

fun last_report :: "local_role \<Rightarrow> delivery_event \<Rightarrow> source_snapshot \<times> bool \<Rightarrow> source_snapshot \<times> bool" where
  "last_report role (Turn (WakeChanged r s)) (cur, live) = (if r = role \<and> live then (s, live) else (cur, live))"
| "last_report role (Turn (WakeClosed r cause)) (cur, live) =
     (if r = role \<and> live then (cur\<lparr>ss_status := SourceClosed cause\<rparr>, False) else (cur, live))"
| "last_report role _ x = x"

text \<open>
  The live relay events of observation \<open>i\<close> that its last wake by evidence took from the registry, or
  those it started with.
\<close>

fun last_live :: "evaluator \<Rightarrow> observation_id \<Rightarrow> delivery_event list \<Rightarrow> delivery_run \<Rightarrow> source_snapshot list \<Rightarrow> source_snapshot list" where
  "last_live ev i [] x live = live"
| "last_live ev i (e # es) x live =
     last_live ev i es (delivery_step ev e x)
       (case e of Turn WakeEvidence \<Rightarrow> live_snapshots i (dw_registry (fst (snd (snd x)))) | _ \<Rightarrow> live)"

definition is_live_kind :: "source_snapshot \<Rightarrow> bool" where
  "is_live_kind s = (case ss_kind s of LiveRelay _ \<Rightarrow> True | _ \<Rightarrow> False)"

definition evaluates_to :: "evaluator \<Rightarrow> projection \<Rightarrow> bool" where
  "evaluates_to ev pj \<longleftrightarrow> (\<exists>s. ev (pj_query pj) (pj_sources pj) = Inr s \<and> qs_events (pj_latest pj) = qs_events s
     \<and> qe_sources (qs_evidence (pj_latest pj)) = qe_sources (qs_evidence s) \<and> qs_revision (pj_latest pj) = pj_revision pj)"

definition shows_reports ::
  "evaluator \<Rightarrow> observation_id \<Rightarrow> query \<Rightarrow> source_snapshot \<times> bool \<Rightarrow> source_snapshot \<times> bool \<Rightarrow> source_snapshot list \<Rightarrow> projection \<Rightarrow> bool" where
  "shows_reports ev i q cache writes live pj \<longleftrightarrow> pj_query pj = q \<and> pj_id pj = i \<and> list_all is_live_kind live
     \<and> (pj_running pj \<longrightarrow> evaluates_to ev pj \<and> pj_cache_open pj = snd cache \<and> pj_writes_open pj = snd writes
         \<and> ss_kind (fst cache) = EventCache \<and> ss_kind (fst writes) = WriteStore
         \<and> pj_sources pj = fst cache # fst writes # live)"

lemma live_kinds: "list_all is_live_kind (live_snapshots i r)"
  by (auto simp: live_snapshots_def is_live_kind_def list_all_iff split: option.splits)

lemma refresh_live: "list_all is_live_kind live \<Longrightarrow> ss_kind c = EventCache \<Longrightarrow> ss_kind x = WriteStore \<Longrightarrow>
    refresh_live_snapshots r i (c # x # live) = c # x # live_snapshots i r"
  by (induction live) (auto simp: refresh_live_snapshots_def is_live_kind_def split: source_kind.splits)

lemma decorate_sources [simp]: "qe_sources (decorate r i e) = qe_sources e"
  by (simp add: decorate_def Let_def)

lemma ends_not_running [simp]: "pj_running (fst (projection_ends pj w)) = False" "pj_query (fst (projection_ends pj w)) = pj_query pj"
  "pj_id (fst (projection_ends pj w)) = pj_id pj"
  by (simp_all add: projection_ends_def)

lemma deliver_next_evaluates:
  "pj_query (fst (deliver_next ev pj w)) = pj_query pj" "pj_id (fst (deliver_next ev pj w)) = pj_id pj"
  "pj_running (fst (deliver_next ev pj w)) \<Longrightarrow> evaluates_to ev (fst (deliver_next ev pj w))
     \<and> pj_cache_open (fst (deliver_next ev pj w)) = pj_cache_open pj \<and> pj_writes_open (fst (deliver_next ev pj w)) = pj_writes_open pj
     \<and> pj_sources (fst (deliver_next ev pj w)) = pj_sources pj \<and> pj_running pj"
  by (auto simp: deliver_next_def evaluates_to_def send_latest_def Let_def split: sum.splits option.splits)

lemma take_wake_fields [simp]:
  "pj_query (fst (take_wake wake pj w)) = pj_query pj" "pj_running (fst (take_wake wake pj w)) = pj_running pj"
  "pj_revision (fst (take_wake wake pj w)) = pj_revision pj" "pj_version (fst (take_wake wake pj w)) = pj_version pj"
  "pj_latest (fst (take_wake wake pj w)) = pj_latest pj" "pj_id (fst (take_wake wake pj w)) = pj_id pj"
  by (cases "(wake, pj, w)" rule: take_wake.cases; simp add: close_role_def split: local_role.split)+

text \<open>The sources after a wake: the two last reports, then live relays only.\<close>

lemma take_wake_sources:
  assumes "wake_enabled pj wake" "pj_sources pj = c # x # live" "list_all is_live_kind live" "ss_kind c = EventCache" "ss_kind x = WriteStore"
    and "\<And>role s. wake = WakeChanged role s \<Longrightarrow> ss_kind s = role_kind role"
    and "last_report CacheRole (Turn wake) (c, pj_cache_open pj) = (c', co)" "last_report WritesRole (Turn wake) (x, pj_writes_open pj) = (x', wo)"
  shows "ss_kind c' = EventCache \<and> ss_kind x' = WriteStore \<and> pj_cache_open (fst (take_wake wake pj w)) = co
    \<and> pj_writes_open (fst (take_wake wake pj w)) = wo
    \<and> pj_sources (fst (take_wake wake pj w))
        = c' # x' # (if wake = WakeEvidence then live_snapshots (pj_id pj) (dw_registry w) else live)"
proof (cases wake)
  case WakeEnded
  then show ?thesis using assms by auto
next
  case WakeEvidence
  then show ?thesis using assms by (auto simp: refresh_live live_kinds)
next
  case (WakeChanged role s)
  then show ?thesis using assms by (cases role) (auto simp: replace_source_def)
next
  case (WakeClosed role cause)
  then show ?thesis using assms by (cases role) (auto simp: close_role_def)
qed

lemma turn_shows_reports:
  assumes "shows_reports ev i q cache writes live pj" "\<And>role s. wake = WakeChanged role s \<Longrightarrow> ss_kind s = role_kind role"
  shows "shows_reports ev i q (last_report CacheRole (Turn wake) cache) (last_report WritesRole (Turn wake) writes)
    (if wake = WakeEvidence then live_snapshots i (dw_registry w) else live) (fst (deliver_turn ev wake pj w))"
proof (cases "pj_running pj \<and> wake_enabled pj wake \<and> wake \<noteq> WakeEnded")
  case False
  show ?thesis
  proof (cases "pj_running pj \<and> wake_enabled pj wake")
    case True
    with False have "wake = WakeEnded" by simp
    then show ?thesis using assms(1) True by (simp add: deliver_turn_def shows_reports_def)
  next
    case idle: False
    then have "last_report CacheRole (Turn wake) cache = cache \<and> last_report WritesRole (Turn wake) writes = writes \<and> wake \<noteq> WakeEvidence"
      if "pj_running pj"
      using that assms(1) by (cases "(pj, wake)" rule: wake_enabled.cases; cases cache; cases writes) (auto simp: shows_reports_def)
    then show ?thesis using assms(1) idle by (auto simp: deliver_turn_def shows_reports_def live_kinds)
  qed
next
  case True
  have v: "pj_sources pj = fst cache # fst writes # live" "list_all is_live_kind live" "ss_kind (fst cache) = EventCache"
    "ss_kind (fst writes) = WriteStore" "pj_cache_open pj = snd cache" "pj_writes_open pj = snd writes" "pj_query pj = q" "pj_id pj = i"
    using assms(1) True by (auto simp: shows_reports_def)
  obtain c' co x' wo where r: "last_report CacheRole (Turn wake) cache = (c', co)" "last_report WritesRole (Turn wake) writes = (x', wo)"
    by (cases "last_report CacheRole (Turn wake) cache"; cases "last_report WritesRole (Turn wake) writes")
  note sources = take_wake_sources [of pj wake "fst cache" "fst writes" live c' co x' wo w, OF _ v(1-4) assms(2)]
  have "deliver_turn ev wake pj w = deliver_next ev (fst (take_wake wake pj w)) (snd (take_wake wake pj w))"
    using True by (simp add: deliver_turn_def case_prod_unfold Let_def)
  then show ?thesis using True sources r v deliver_next_evaluates [of ev "fst (take_wake wake pj w)" "snd (take_wake wake pj w)"]
    by (simp add: shows_reports_def live_kinds)
qed

lemma run_shows_reports:
  assumes "shows_reports ev i q cache writes live pj" "\<forall>role s. Turn (WakeChanged role s) \<in> set es \<longrightarrow> ss_kind s = role_kind role"
  shows "shows_reports ev i q (fold (last_report CacheRole) es cache) (fold (last_report WritesRole) es writes)
    (last_live ev i es (pj, h, w, seen) live) (fst (fold (delivery_step ev) es (pj, h, w, seen)))"
  using assms
proof (induction es arbitrary: pj h w seen cache writes live)
  case (Cons e es)
  obtain pj' h' w' seen' where step: "delivery_step ev e (pj, h, w, seen) = (pj', h', w', seen')"
    by (cases "delivery_step ev e (pj, h, w, seen)")
  define live' where "live' = (case e of Turn WakeEvidence \<Rightarrow> live_snapshots i (dw_registry (fst (snd (snd (pj, h, w, seen))))) | _ \<Rightarrow> live)"
  have "shows_reports ev i q (last_report CacheRole e cache) (last_report WritesRole e writes) live' pj'"
  proof (cases e)
    case (Turn wake)
    then have "live' = (if wake = WakeEvidence then live_snapshots i (dw_registry w) else live)"
      by (cases wake) (simp_all add: live'_def)
    then show ?thesis using turn_shows_reports [OF Cons.prems(1), of wake w] Cons.prems(2) step Turn by (auto simp: case_prod_unfold Let_def)
  next
    case (Elsewhere r d)
    then show ?thesis using Cons.prems(1) step by (simp add: live'_def)
  next
    case (Poll c)
    then have "pj' = pj" using step by (auto split: prod.splits option.splits sum.splits)
    then show ?thesis using Cons.prems(1) Poll by (simp add: live'_def)
  qed
  then show ?case using Cons.IH [of "last_report CacheRole e cache" "last_report WritesRole e writes" live' pj' h' w' seen'] Cons.prems(2) step
    by (simp add: live'_def)
qed simp

text \<open>
  Whatever wakes a projection, in any order, and whatever other owners and the application do in
  between: while it runs, the snapshot it shows is exactly the evaluation of the query over the last
  report of each local source, with the end a source reported, and the live events the registry kept
  for this observation when evidence last woke it, and carries the number of that evaluation. The
  hypotheses on the start are what opening gives.
\<close>

theorem delivered_snapshot_is_evaluation:
  assumes "ss_kind c = EventCache" "ss_kind x = WriteStore" "list_all is_live_kind live"
    and "ev q (c # x # live) = Inr first" "initial = first\<lparr>qs_revision := 1, qs_evidence := decorate r i (qs_evidence first)\<rparr>"
    and "\<forall>role s. Turn (WakeChanged role s) \<in> set es \<longrightarrow> ss_kind s = role_kind role"
    and "fold (delivery_step ev) es (project i d q (c # x # live) initial, h, w, []) = (pj, h', w', seen)" "pj_running pj"
  shows "\<exists>evaluated. ev q (fst (fold (last_report CacheRole) es (c, True)) # fst (fold (last_report WritesRole) es (x, True))
        # last_live ev i es (project i d q (c # x # live) initial, h, w, []) live) = Inr evaluated
    \<and> qs_events (pj_latest pj) = qs_events evaluated \<and> qe_sources (qs_evidence (pj_latest pj)) = qe_sources (qs_evidence evaluated)
    \<and> qs_revision (pj_latest pj) = pj_revision pj"
proof -
  have "shows_reports ev i q (c, True) (x, True) live (project i d q (c # x # live) initial)"
    using assms(1-5) by (simp add: shows_reports_def project_def evaluates_to_def)
  from run_shows_reports [OF this assms(6), of h w "[]"] show ?thesis
    using assms(7,8) by (auto simp: shows_reports_def evaluates_to_def)
qed

subsection \<open>What a reader sees and misses\<close>

lemma skipped_between_exact:
  assumes "a < b"
  shows "skipped_between a b = of_nat (unat b - Suc (unat a))" "skipped_between a b = 0 \<longleftrightarrow> unat b = Suc (unat a)"
proof -
  have diff: "unat (b - a) = unat b - unat a" using assms by (simp add: unat_sub)
  have lt: "unat a < unat b" using assms by (simp add: word_less_nat_alt)
  with diff have pos: "1 \<le> b - a" by (simp add: word_le_nat_alt)
  have "skipped_between a b = b - a - 1" using less_imp_le [OF assms] pos by (simp add: skipped_between_def saturating_sub_u64_def)
  moreover have "unat (b - a - 1) = unat b - Suc (unat a)" using unat_sub [OF pos] diff by simp
  ultimately have u: "unat (skipped_between a b) = unat b - Suc (unat a)" by simp
  have "skipped_between a b = of_nat (unat (skipped_between a b))" by simp
  then show "skipped_between a b = of_nat (unat b - Suc (unat a))" by (simp only: u)
  show "skipped_between a b = 0 \<longleftrightarrow> unat b = Suc (unat a)" using u lt by (auto simp flip: unat_eq_0)
qed

text \<open>
  Between channel and handle: versions count the revisions that were sent, what was read is older
  than what comes, and nothing newer was read than what the handle says.
\<close>

definition reader_ok :: "delivery_run \<Rightarrow> bool" where
  "reader_ok x = (case x of (pj, h, w, seen) \<Rightarrow>
     unat (pj_revision pj) = Suc (pj_version pj) \<and> qs_revision (pj_latest pj) = pj_revision pj
     \<and> hd_seen h \<le> pj_version pj \<and> unat (hd_delivered h) = Suc (hd_seen h)
     \<and> sorted_wrt (\<lambda>a b. qs_revision a < qs_revision b) seen \<and> (\<forall>s\<in>set seen. qs_revision s \<le> hd_delivered h))"

lemma turn_versions:
  assumes "unat (pj_revision pj) = Suc (pj_version pj)" "qs_revision (pj_latest pj) = pj_revision pj" "deliver_turn ev wake pj w = (pj', w')"
  shows "unat (pj_revision pj') = Suc (pj_version pj') \<and> qs_revision (pj_latest pj') = pj_revision pj' \<and> pj_version pj \<le> pj_version pj'"
proof -
  have "unat (pj_revision (fst (deliver_next ev pj w))) = Suc (pj_version (fst (deliver_next ev pj w)))
      \<and> qs_revision (pj_latest (fst (deliver_next ev pj w))) = pj_revision (fst (deliver_next ev pj w))
      \<and> pj_version pj \<le> pj_version (fst (deliver_next ev pj w))"
    if "unat (pj_revision pj) = Suc (pj_version pj)" "qs_revision (pj_latest pj) = pj_revision pj" for pj w
    using that by (auto simp: deliver_next_def projection_ends_def send_latest_def Let_def checked_add_u64_Some_iff split: sum.splits option.splits)
  from this [of "fst (take_wake wake pj w)" "snd (take_wake wake pj w)"] show ?thesis
    using assms by (auto simp: deliver_turn_def projection_ends_def case_prod_unfold Let_def split: if_splits)
qed

lemma step_reader_ok: "reader_ok x \<Longrightarrow> reader_ok (delivery_step ev e x)"
proof (cases x)
  case (fields pj h w seen)
  assume ok: "reader_ok x"
  show ?thesis
  proof (cases e)
    case (Turn wake)
    obtain pj' w' where "deliver_turn ev wake pj w = (pj', w')" by (cases "deliver_turn ev wake pj w")
    then show ?thesis using ok turn_versions [of pj ev wake w pj' w'] by (auto simp: reader_ok_def fields Turn)
  next
    case (Elsewhere r d)
    then show ?thesis using ok by (simp add: reader_ok_def fields)
  next
    case (Poll c)
    have "hd_delivered h < qs_revision (pj_latest pj)" if "pj_version pj \<noteq> hd_seen h"
      using that ok by (auto simp: reader_ok_def fields word_less_nat_alt)
    then show ?thesis using ok
      by (auto simp: reader_ok_def fields Poll handle_changed_def sorted_wrt_append intro: order.strict_implies_order order.trans
          dest: order.strict_trans1)
  qed
qed

lemma run_reader_ok: "reader_ok x \<Longrightarrow> reader_ok (fold (delivery_step ev) es x)"
  by (induction es arbitrary: x) (simp_all add: step_reader_ok)

text \<open>
  (C37) Whatever happens between reads, an application reads every revision at most once and in order, the
  one it reads is the newest, and the count reported with a read is exactly the number of revisions
  that were sent since the last read and never read.
\<close>

theorem reader_misses_exactly_what_is_reported:
  assumes "qs_revision initial = 1" "fold (delivery_step ev) es (project i d q sources initial, handle_new, w, []) = (pj, h, w', seen)"
  shows "sorted_wrt (\<lambda>a b. qs_revision a < qs_revision b) seen
    \<and> (\<forall>s h2 w2. handle_changed c pj h w' = (Some (Inr s), h2, w2) \<longrightarrow>
         s = pj_latest pj \<and> (\<forall>old\<in>set seen. qs_revision old < qs_revision s) \<and> unat (qs_revision s) = Suc (pj_version pj)
         \<and> dw_reports w2 = dw_reports w' @ (if pj_version pj = Suc (hd_seen h) then [] else [of_nat (pj_version pj - Suc (hd_seen h))]))"
proof -
  have "reader_ok (project i d q sources initial, handle_new, w, [])"
    using assms(1) by (simp add: reader_ok_def project_def handle_new_def)
  from run_reader_ok [OF this, of ev es] have ok: "reader_ok (pj, h, w', seen)" using assms(2) by simp
  have gap: "skipped_between (hd_delivered h) (qs_revision (pj_latest pj)) = of_nat (pj_version pj - Suc (hd_seen h))"
    "skipped_between (hd_delivered h) (qs_revision (pj_latest pj)) = 0 \<longleftrightarrow> pj_version pj = Suc (hd_seen h)" if "pj_version pj \<noteq> hd_seen h"
  proof -
    have "hd_delivered h < qs_revision (pj_latest pj)" using ok that by (auto simp: reader_ok_def word_less_nat_alt)
    note skipped_between_exact [OF this]
    moreover have "unat (qs_revision (pj_latest pj)) - Suc (unat (hd_delivered h)) = pj_version pj - Suc (hd_seen h)"
      "unat (qs_revision (pj_latest pj)) = Suc (unat (hd_delivered h)) \<longleftrightarrow> pj_version pj = Suc (hd_seen h)"
      using ok by (auto simp: reader_ok_def)
    ultimately show "skipped_between (hd_delivered h) (qs_revision (pj_latest pj)) = of_nat (pj_version pj - Suc (hd_seen h))"
      "skipped_between (hd_delivered h) (qs_revision (pj_latest pj)) = 0 \<longleftrightarrow> pj_version pj = Suc (hd_seen h)" by simp_all
  qed
  show ?thesis
  proof (intro conjI allI impI)
    show "sorted_wrt (\<lambda>a b. qs_revision a < qs_revision b) seen" using ok by (simp add: reader_ok_def)
    fix s h2 w2 assume "handle_changed c pj h w' = (Some (Inr s), h2, w2)"
    then have r: "s = pj_latest pj" "pj_version pj \<noteq> hd_seen h" "w2 = report_delivery_gap (hd_delivered h) (qs_revision (pj_latest pj)) w'"
      by (auto simp: handle_changed_def split: if_splits)
    show "s = pj_latest pj" by fact
    have "hd_delivered h < qs_revision s" using ok r(1,2) by (auto simp: reader_ok_def word_less_nat_alt)
    then show "\<forall>old\<in>set seen. qs_revision old < qs_revision s" using ok by (auto simp: reader_ok_def intro: order.strict_trans1)
    show "unat (qs_revision s) = Suc (pj_version pj)" using ok r(1) by (simp add: reader_ok_def)
    show "dw_reports w2 = dw_reports w' @ (if pj_version pj = Suc (hd_seen h) then [] else [of_nat (pj_version pj - Suc (hd_seen h))])"
      using gap [OF r(2)] by (simp add: r(3) report_delivery_gap_def Let_def)
  qed
qed

subsection \<open>A concrete delivery\<close>

definition delivery_sources :: "source_snapshot list" where
  "delivery_sources = [source_snapshot_empty EventCache, source_snapshot_empty WriteStore]"

definition delivery_first :: query_snapshot where
  "delivery_first = snapshot_evaluated [] delivery_sources"

definition delivery_initial :: query_snapshot where
  "delivery_initial = delivery_first\<lparr>qs_revision := 1, qs_evidence := decorate registry_default 1 (qs_evidence delivery_first)\<rparr>"

definition delivery_start :: delivery_run where
  "delivery_start = (project 1 None query_events delivery_sources delivery_initial, handle_new,
     \<lparr>dw_registry = registry_default, dw_diagnostics = diagnostics_default, dw_reports = []\<rparr>, [])"

text \<open>Three changes of the cache, one of which skips a revision, before the application reads.\<close>

definition cache_at :: "u64 \<Rightarrow> source_snapshot" where
  "cache_at n = (source_snapshot_empty EventCache)\<lparr>ss_revision := n\<rparr>"

definition delivery_events :: "delivery_event list" where
  "delivery_events = [Turn (WakeChanged CacheRole (cache_at 1)), Turn (WakeChanged CacheRole (cache_at 3)), Turn (WakeChanged CacheRole (cache_at 4))]"

abbreviation delivered :: delivery_run where
  "delivered \<equiv> fold (delivery_step (evaluate sample_lib)) delivery_events delivery_start"

theorem delivered_snapshot_is_evaluation_witness:
  "\<exists>evaluated. evaluate sample_lib query_events [cache_at 4, source_snapshot_empty WriteStore] = Inr evaluated
    \<and> qs_events (pj_latest (fst delivered)) = qs_events evaluated"
proof -
  obtain pj h w seen where run: "delivered = (pj, h, w, seen)" by (cases delivered)
  have "pj_running (fst delivered)" "evaluate sample_lib query_events delivery_sources = Inr delivery_first"
    "fold (last_report CacheRole) delivery_events (source_snapshot_empty EventCache, True) = (cache_at 4, True)"
    "fold (last_report WritesRole) delivery_events (source_snapshot_empty WriteStore, True) = (source_snapshot_empty WriteStore, True)"
    by code_simp+
  moreover have "\<forall>role s. Turn (WakeChanged role s) \<in> set delivery_events \<longrightarrow> ss_kind s = role_kind role"
    by (auto simp: delivery_events_def cache_at_def source_snapshot_empty_def)
  moreover have "last_live (evaluate sample_lib) 1 delivery_events x [] = []" for x by (simp add: delivery_events_def)
  ultimately show ?thesis
    using delivered_snapshot_is_evaluation [of "source_snapshot_empty EventCache" "source_snapshot_empty WriteStore" "[]" "evaluate sample_lib"
      query_events delivery_first delivery_initial registry_default 1 delivery_events None handle_new
      "\<lparr>dw_registry = registry_default, dw_diagnostics = diagnostics_default, dw_reports = []\<rparr>" pj h w seen] run
    by (auto simp: delivery_sources_def delivery_start_def delivery_initial_def source_snapshot_empty_def [of EventCache] source_snapshot_empty_def [of WriteStore])
qed

theorem reader_misses_exactly_what_is_reported_witness:
  "case delivered of (pj, h, w, seen) \<Rightarrow> \<exists>h2 w2. handle_changed False pj h w = (Some (Inr (pj_latest pj)), h2, w2) \<and> dw_reports w2 = dw_reports w @ [2]"
proof -
  obtain pj h w seen where run: "delivered = (pj, h, w, seen)" by (cases delivered)
  have "pj_version (fst delivered) = 3 \<and> hd_seen (fst (snd delivered)) = 0" by code_simp
  then have versions: "pj_version pj = 3" "hd_seen h = 0" by (simp_all add: run)
  moreover have "qs_revision delivery_initial = 1" by (simp add: delivery_initial_def)
  moreover obtain h2 w2 where read: "handle_changed False pj h w = (Some (Inr (pj_latest pj)), h2, w2)"
    using versions by (simp add: handle_changed_def)
  ultimately show ?thesis
    using reader_misses_exactly_what_is_reported [of delivery_initial "evaluate sample_lib" delivery_events 1 None query_events delivery_sources
      "\<lparr>dw_registry = registry_default, dw_diagnostics = diagnostics_default, dw_reports = []\<rparr>" pj h w seen False] run
    by (auto simp: delivery_start_def)
qed

end
