(* ===== verification/Observation_Opening.thy ===== *)
theory Observation_Opening
  imports Observation_Delivery Routing Session
begin

section \<open>Opening observations (\<open>fava-observe/src/observer.rs\<close>, \<open>routes.rs\<close>)\<close>

text \<open>
  The synchronous open sequence: both local sources, the route binding, installation, fresh sources
  left out, demand, initial evaluation, delivery. \<open>observer\<close> holds the providers behind their traits
  and the builder the assembly configured; a router that panics makes the result \<open>None\<close>. Router
  inputs are opened by the observer itself; that call is an argument of the sequence and
  \<open>observe_open\<close> closes the circle with a bound on the depth. The runtime takes every task it is
  given.

  What has to be given back is followed to its owner. \<open>os_streams\<close> and \<open>os_routes\<close> count the change
  streams and the router sessions an open sequence holds itself. When it succeeds it moves them into
  tasks: task 0 of an observation is its projection, which owns both change streams, task 1 follows
  its route and owns the router session and the handles of the router inputs, task 2 is the loop of
  the current account. Withdrawing an observation cancels its tasks and drops what they own, so what
  is open is the two counts and the tasks in the records of the registry.
\<close>

subsection \<open>Values\<close>

datatype query_source_error = QuerySourceShut | QuerySourceRefused bounded_text

datatype observe_error =
    SourceOpenFailed source_kind query_source_error
  | EvaluationFailed query_evaluation_error
  | RelayRefused string
  | SessionUnconfigured
  | CurrentAccountUnstable
  | EngineClosed

datatype origin = OriginExplicit | OriginAutomatic

fun origin_at :: "origin \<Rightarrow> u64 \<Rightarrow> route_origin" where
  "origin_at OriginExplicit revision = RouteExplicit"
| "origin_at OriginAutomatic revision = RouteAutomatic revision"

fun origin_revision_of :: "origin \<Rightarrow> route_plan \<Rightarrow> u64 option" where
  "origin_revision_of OriginExplicit plan = None"
| "origin_revision_of OriginAutomatic plan = Some (rp_revision plan)"

record 's route_binding =
  rb_plan :: route_plan
  rb_session :: "'s opened_chain option"
  rb_inputs :: "query list"
  rb_origin :: origin

record 's observer =
  or_lib :: nostr_lib
  or_builder :: filter_builder
  or_event_cache :: "query \<Rightarrow> query_source_error + source_snapshot"
  or_write_store :: "query \<Rightarrow> query_source_error + source_snapshot"
  or_evaluator :: evaluator
  or_routers :: "'s router list"
  or_transport :: bool
  or_planner :: bool
  or_events :: "(relay_url \<Rightarrow> filter \<Rightarrow> event_cache_error + source_coverage option) option"
  or_engine_starts :: "observe_error + unit"

record observe_state =
  os_world :: delivery_world
  os_engine :: bool
  os_streams :: nat
  os_routes :: nat

type_synonym 'a observe_step = "(observe_error + 'a) \<times> observe_state"

subsection \<open>Route binding (\<open>routes.rs\<close>)\<close>

fun collect_all :: "('a \<Rightarrow> 'e + 'b) \<Rightarrow> 'a list \<Rightarrow> 'e + 'b list" where
  "collect_all f [] = Inr []"
| "collect_all f (x # xs) =
     (case f x of Inl e \<Rightarrow> Inl e | Inr y \<Rightarrow> (case collect_all f xs of Inl e \<Rightarrow> Inl e | Inr ys \<Rightarrow> Inr (y # ys)))"

definition relay_refusal :: "router_error \<Rightarrow> observe_error" where
  "relay_refusal e = RelayRefused (router_error_text e)"

definition route_bind ::
  "nostr_lib \<Rightarrow> query \<Rightarrow> 's router list \<Rightarrow> (query \<Rightarrow> observe_error + query_snapshot) \<Rightarrow> (observe_error + 's route_binding) option" where
  "route_bind N q routers snapshot =
     (case sp_acquisition (q_source q) of
        AcqExplicit relays \<Rightarrow>
          Some (case plan_explicit relays (request_targets N (Read q)) of
                  Inl e \<Rightarrow> Inl (relay_refusal e)
                | Inr plan \<Rightarrow> Inr \<lparr>rb_plan = plan, rb_session = None, rb_inputs = [], rb_origin = OriginExplicit\<rparr>)
      | AcqAutomatic \<Rightarrow>
          (case chain_queries N routers (Read q) of
             Inl e \<Rightarrow> Some (Inl (relay_refusal e))
           | Inr declared \<Rightarrow>
               (case collect_all (collect_all snapshot) declared of
                  Inl e \<Rightarrow> Some (Inl e)
                | Inr inputs \<Rightarrow>
                    (case chain_open N routers (Read q) inputs of
                       None \<Rightarrow> None
                     | Some (Inl e) \<Rightarrow> Some (Inl (relay_refusal e))
                     | Some (Inr oc) \<Rightarrow>
                         Some (case plan_from_contribution 1 (chain_current oc) of
                           Inl e \<Rightarrow> Inl (relay_refusal e)
                         | Inr plan \<Rightarrow> Inr \<lparr>rb_plan = plan, rb_session = Some oc, rb_inputs = concat declared,
                             rb_origin = OriginAutomatic\<rparr>)))))"

definition demand_for ::
  "filter_builder \<Rightarrow> observation_id \<Rightarrow> query_branch_id \<Rightarrow> query \<Rightarrow> route_plan \<Rightarrow> origin \<Rightarrow> wanted_relays" where
  "demand_for B i branch q plan org =
     map (\<lambda>(relay, _). (relay, demand_for_query B i branch q, origin_at org (rp_revision plan))) (rp_destinations plan)"

subsection \<open>Local evaluation\<close>

definition evaluate_initial :: "'s observer \<Rightarrow> query \<Rightarrow> source_snapshot list \<Rightarrow> observe_error + query_snapshot" where
  "evaluate_initial own q sources =
     (case or_evaluator own q sources of Inl e \<Rightarrow> Inl (EvaluationFailed e) | Inr s \<Rightarrow> Inr (s\<lparr>qs_revision := 1\<rparr>))"

text \<open>
  Both sources at one boundary, with the number of open change streams: the first is closed again
  when the second refuses.
\<close>

definition open_sources :: "'s observer \<Rightarrow> query \<Rightarrow> nat \<Rightarrow> (observe_error + source_snapshot \<times> source_snapshot) \<times> nat" where
  "open_sources own q streams =
     (case or_event_cache own q of
        Inl e \<Rightarrow> (Inl (SourceOpenFailed EventCache e), streams)
      | Inr cache \<Rightarrow>
          let streams = streams + 1 in
          (case or_write_store own q of
             Inl e \<Rightarrow> (Inl (SourceOpenFailed WriteStore e), streams - 1)
           | Inr writes \<Rightarrow> (Inr (cache, writes), streams + 1)))"

definition local_snapshot_from :: "'s observer \<Rightarrow> query \<Rightarrow> nat \<Rightarrow> (observe_error + query_snapshot) \<times> nat" where
  "local_snapshot_from own q streams =
     (case open_sources own q streams of
        (Inl e, streams) \<Rightarrow> (Inl e, streams)
      | (Inr (cache, writes), streams) \<Rightarrow> (evaluate_initial own q [cache, writes], streams - 2))"

definition local_snapshot :: "'s observer \<Rightarrow> query \<Rightarrow> observe_error + query_snapshot" where
  "local_snapshot own q = fst (local_snapshot_from own q 0)"

text \<open>A local snapshot gives both streams back, whether it succeeds or not, so a caller's count stays.\<close>

lemma local_snapshot_from: "local_snapshot_from own q streams = (local_snapshot own q, streams)"
  by (simp add: local_snapshot_def local_snapshot_from_def open_sources_def Let_def split: sum.split)

definition preview_routes :: "'s observer \<Rightarrow> query \<Rightarrow> (observe_error + route_plan) option" where
  "preview_routes own q =
     (case sp_acquisition (q_source q) of
        AcqExplicit relays \<Rightarrow>
          Some (case plan_explicit relays (request_targets (or_lib own) (Read q)) of
                  Inl e \<Rightarrow> Inl (relay_refusal e) | Inr plan \<Rightarrow> Inr plan)
      | AcqAutomatic \<Rightarrow>
          (case chain_queries (or_lib own) (or_routers own) (Read q) of
             Inl e \<Rightarrow> Some (Inl (relay_refusal e))
           | Inr declared \<Rightarrow>
               (case collect_all (collect_all (local_snapshot own)) declared of
                  Inl e \<Rightarrow> Some (Inl e)
                | Inr inputs \<Rightarrow>
                    map_option (\<lambda>answer. case answer of Inl e \<Rightarrow> Inl (relay_refusal e) | Inr plan \<Rightarrow> Inr plan)
                      (chain_preview (or_lib own) (or_routers own) (Read q) inputs))))"

definition ROOT_BRANCH :: query_branch_id where
  "ROOT_BRANCH = 0"

subsection \<open>Fresh sources\<close>

text \<open>Seconds of a \<open>Duration\<close> counted in nanoseconds.\<close>

definition as_secs :: "nat \<Rightarrow> nat" where
  "as_secs d = d div 1000000000"

definition still_fresh :: "timestamp \<Rightarrow> nat \<Rightarrow> event_cache_error + source_coverage option \<Rightarrow> bool" where
  "still_fresh opened_at age coverage =
     (case coverage of Inr (Some c) \<Rightarrow> unat (saturating_sub_u64 opened_at (sc_completed_at c)) \<le> as_secs age | _ \<Rightarrow> False)"

definition remove_fresh_sources ::
  "'s observer \<Rightarrow> timestamp \<Rightarrow> query \<Rightarrow> observation_id \<Rightarrow> query_branch_id \<Rightarrow> 's route_binding \<Rightarrow> 's route_binding" where
  "remove_fresh_sources own opened_at q i branch b =
     (case (q_freshness q, or_events own) of
        (MaxAge age, Some coverage) \<Rightarrow>
          let f = dm_filter (demand_for_query (or_builder own) i branch q)
          in b\<lparr>rb_plan := (rb_plan b)\<lparr>rp_destinations :=
               List.filter (\<lambda>(session, _). \<not> still_fresh opened_at age (coverage session f)) (rp_destinations (rb_plan b))\<rparr>\<rparr>
      | _ \<Rightarrow> b)"

subsection \<open>Demand and followed routes\<close>

record 's followed_route =
  fr_id :: observation_id
  fr_branch :: query_branch_id
  fr_request :: query
  fr_plan :: route_plan
  fr_origin :: origin
  fr_inputs :: "(observation_id \<times> bool) list"
  fr_session :: "'s opened_chain"

record 's opened =
  op_id :: observation_id
  op_projection :: projection
  op_route :: "'s followed_route option"

definition on_world :: "(delivery_world \<Rightarrow> delivery_world) \<Rightarrow> observe_state \<Rightarrow> observe_state" where
  "on_world f st = st\<lparr>os_world := f (os_world st)\<rparr>"

definition upd_registry :: "(registry \<Rightarrow> registry) \<Rightarrow> observe_state \<Rightarrow> observe_state" where
  "upd_registry f = on_world (\<lambda>w. w\<lparr>dw_registry := f (dw_registry w)\<rparr>)"

abbreviation registry_of :: "observe_state \<Rightarrow> registry" where
  "registry_of st \<equiv> dw_registry (os_world st)"

definition close_streams :: "observe_state \<Rightarrow> observe_state" where
  "close_streams st = st\<lparr>os_streams := os_streams st - 2\<rparr>"

text \<open>Moving both streams into the projection, and the session into the task that follows the route.\<close>

definition hand_streams :: "observation_id \<Rightarrow> observe_state \<Rightarrow> observe_state" where
  "hand_streams i st = upd_registry (registry_attach i 0) (st\<lparr>os_streams := os_streams st - 2\<rparr>)"

definition hand_route :: "observation_id \<Rightarrow> observe_state \<Rightarrow> observe_state" where
  "hand_route i st = upd_registry (registry_attach i 1) (st\<lparr>os_routes := os_routes st - 1\<rparr>)"

text \<open>An opened chain closes its sessions when it is closed and when it is dropped.\<close>

definition close_route :: "'s opened_chain option \<Rightarrow> observe_state \<Rightarrow> observe_state" where
  "close_route oc st = (case oc of None \<Rightarrow> st | Some _ \<Rightarrow> st\<lparr>os_routes := os_routes st - 1\<rparr>)"

definition start_engine :: "'s observer \<Rightarrow> observe_state \<Rightarrow> unit observe_step" where
  "start_engine own st =
     (if os_engine st then (Inr (), st)
      else if \<not> or_transport own then (Inl (RelayRefused ''live queries require a transport''), st)
      else if \<not> or_planner own then (Inl (RelayRefused ''live queries require a subscription planner''), st)
      else if or_events own = None then (Inl (RelayRefused ''live queries require an event cache''), st)
      else (or_engine_starts own, st\<lparr>os_engine := True\<rparr>))"

text \<open>Dropping a handle closes its observation; the flag says whether it owns the diagnostic record.\<close>

definition drop_inputs :: "(observation_id \<times> bool) list \<Rightarrow> observe_state \<Rightarrow> observe_state" where
  "drop_inputs hs st = on_world (fold (\<lambda>(i, forget). handle_close i forget) hs) st"

type_synonym input_opener = "query \<Rightarrow> observe_state \<Rightarrow> (observation_id \<times> bool) observe_step option"

fun open_inputs :: "input_opener \<Rightarrow> query list \<Rightarrow> (observation_id \<times> bool) list \<Rightarrow> observe_state \<Rightarrow> (observation_id \<times> bool) list observe_step option" where
  "open_inputs opener [] hs st = Some (Inr hs, st)"
| "open_inputs opener (q # qs) hs st =
     (case opener q st of
        None \<Rightarrow> None
      | Some (Inl e, st) \<Rightarrow> Some (Inl e, drop_inputs hs st)
      | Some (Inr h, st) \<Rightarrow> open_inputs opener qs (hs @ [h]) st)"

text \<open>\<open>follow_routes\<close>: when an input does not open, the session is dropped and nothing follows the route.\<close>

definition follow_routes ::
  "input_opener \<Rightarrow> observation_id \<Rightarrow> query_branch_id \<Rightarrow> query \<Rightarrow> 's route_binding \<Rightarrow> 's opened_chain \<Rightarrow> observe_state
     \<Rightarrow> ('s followed_route option \<times> observe_state) option" where
  "follow_routes opener i branch q b oc st =
     (case open_inputs opener (rb_inputs b) [] st of
        None \<Rightarrow> None
      | Some (Inl _, st) \<Rightarrow> Some (None, close_route (Some oc) st)
      | Some (Inr hs, st) \<Rightarrow>
          Some (Some \<lparr>fr_id = i, fr_branch = branch, fr_request = q, fr_plan = rb_plan b, fr_origin = rb_origin b, fr_inputs = hs,
                 fr_session = oc\<rparr>, hand_route i st))"

definition retain ::
  "'s observer \<Rightarrow> input_opener \<Rightarrow> observation_id \<Rightarrow> query_branch_id \<Rightarrow> query \<Rightarrow> 's route_binding \<Rightarrow> observe_state
     \<Rightarrow> ('s followed_route option \<times> observe_state) option" where
  "retain own opener i branch q b st =
     (let st = upd_registry (registry_assign i branch (q_access q) (demand_for (or_builder own) i branch q (rb_plan b) (rb_origin b))
                 (origin_revision_of (rb_origin b) (rb_plan b)) RouteWithdrawn) st
      in case rb_session b of None \<Rightarrow> Some (None, st) | Some oc \<Rightarrow> follow_routes opener i branch q b oc st)"

subsection \<open>The open sequence\<close>

definition is_live_query :: "query \<Rightarrow> bool" where
  "is_live_query q \<longleftrightarrow> q_freshness q \<noteq> CacheOnly \<and> \<not> matches_nothing q"

definition install_observation :: "observation_id option \<Rightarrow> observe_state \<Rightarrow> observation_id option \<times> observe_state" where
  "install_observation diagnostic st =
     (case (case diagnostic of Some public \<Rightarrow> registry_install_child public (registry_of st) | None \<Rightarrow> registry_install (registry_of st)) of
        (i, r) \<Rightarrow> (i, upd_registry (\<lambda>_. r) st))"

text \<open>The demand of a live query: its relays that are not fresh, and the route it follows.\<close>

definition install_demand ::
  "'s observer \<Rightarrow> input_opener \<Rightarrow> timestamp \<Rightarrow> observation_id \<Rightarrow> query \<Rightarrow> 's route_binding option \<Rightarrow> observe_state
     \<Rightarrow> 's followed_route option observe_step option" where
  "install_demand own opener now i q binding st =
     (case binding of
        None \<Rightarrow> Some (Inr None, st)
      | Some b \<Rightarrow>
          let b = remove_fresh_sources own now q i ROOT_BRANCH b in
          (case (if rp_destinations (rb_plan b) \<noteq> [] \<or> rb_session b \<noteq> None then start_engine own st else (Inr (), st)) of
             (Inl e, st) \<Rightarrow> Some (Inl e, close_route (rb_session b) (upd_registry (registry_withdraw i) (close_streams st)))
           | (Inr _, st) \<Rightarrow> map_option (\<lambda>(route, st). (Inr route, st)) (retain own opener i ROOT_BRANCH q b st)))"

text \<open>The task that follows a route is dropped with the handles of its inputs.\<close>

definition drop_route :: "'s followed_route option \<Rightarrow> observe_state \<Rightarrow> observe_state" where
  "drop_route route st = (case route of None \<Rightarrow> st | Some f \<Rightarrow> drop_inputs (fr_inputs f) st)"

text \<open>
  Closing an opened observation withdraws it: its tasks end, the projection with the two change
  streams and the task of its route with the router session and the inputs.
\<close>

definition close_opened :: "'s opened \<Rightarrow> observe_state \<Rightarrow> observe_state" where
  "close_opened op st = drop_route (op_route op) (on_world (handle_close (op_id op) False) st)"

definition first_delivery ::
  "'s observer \<Rightarrow> observation_id option \<Rightarrow> observation_id \<Rightarrow> query \<Rightarrow> source_snapshot list \<Rightarrow> 's followed_route option \<Rightarrow> observe_state
     \<Rightarrow> 's opened observe_step" where
  "first_delivery own diagnostic i q sources route st =
     (let sources = refresh_live_snapshots (registry_of st) i sources in
      case evaluate_initial own q sources of
        Inl e \<Rightarrow> (Inl e, drop_route route (upd_registry (registry_withdraw i) (close_streams st)))
      | Inr initial \<Rightarrow>
          let initial = initial\<lparr>qs_evidence := decorate (registry_of st) i (qs_evidence initial)\<rparr>;
              diagnostic_id = (if diagnostic = None then Some i else None);
              st = (case diagnostic_id of None \<Rightarrow> st | Some d \<Rightarrow> on_world (\<lambda>w. snd (publish_and i d (qs_evidence initial) w)) st)
          in (Inr \<lparr>op_id = i, op_projection = project i diagnostic_id q sources initial, op_route = route\<rparr>, hand_streams i st))"

definition open_concrete ::
  "'s observer \<Rightarrow> input_opener \<Rightarrow> timestamp \<Rightarrow> observation_id option \<Rightarrow> query \<Rightarrow> observe_state \<Rightarrow> 's opened observe_step option" where
  "open_concrete own opener now diagnostic q st =
     (case open_sources own q (os_streams st) of
        (Inl e, streams) \<Rightarrow> Some (Inl e, st\<lparr>os_streams := streams\<rparr>)
      | (Inr (cache, writes), streams) \<Rightarrow>
          let st = st\<lparr>os_streams := streams\<rparr> in
          (case (if is_live_query q then map_option (map_sum id Some) (route_bind (or_lib own) q (or_routers own) (local_snapshot own))
                 else Some (Inr None)) of
             None \<Rightarrow> None
           | Some (Inl e) \<Rightarrow> Some (Inl e, close_streams st)
           | Some (Inr binding) \<Rightarrow>
               let st = (case Option.bind binding rb_session of None \<Rightarrow> st | Some _ \<Rightarrow> st\<lparr>os_routes := os_routes st + 1\<rparr>) in
               (case install_observation diagnostic st of
                  (None, st) \<Rightarrow>
                    Some (Inl EngineClosed, close_route (Option.bind binding rb_session) (close_streams st))
                | (Some i, st) \<Rightarrow>
                    (case install_demand own opener now i q binding st of
                       None \<Rightarrow> None
                     | Some (Inl e, st) \<Rightarrow> Some (Inl e, st)
                     | Some (Inr route, st) \<Rightarrow> Some (first_delivery own diagnostic i q [cache, writes] route st)))))"

subsection \<open>A followed route\<close>

text \<open>
  One turn of \<open>follow_route_inputs\<close> over the current snapshots of its inputs: \<open>Some (None, _)\<close> when
  the loop ends and closes its session.
\<close>

definition follow_turn ::
  "filter_builder \<Rightarrow> query_snapshot list \<Rightarrow> 's followed_route \<Rightarrow> registry \<Rightarrow> ('s followed_route option \<times> registry) option" where
  "follow_turn B snapshots f r =
     (case chain_replace snapshots (fr_session f) of
        None \<Rightarrow> None
      | Some (Inl _, _) \<Rightarrow> Some (None, r)
      | Some (Inr contribution, oc) \<Rightarrow>
          let f = f\<lparr>fr_session := oc\<rparr> in
          if fr_inputs f = [] \<and> plan_from_contribution (rp_revision (fr_plan f)) contribution = Inr (fr_plan f) then Some (Some f, r)
          else (case checked_add_u64 (rp_revision (fr_plan f)) 1 of
             None \<Rightarrow> Some (None, r)
           | Some revision \<Rightarrow>
               (case plan_from_contribution revision contribution of
                  Inl _ \<Rightarrow> Some (None, r)
                | Inr plan \<Rightarrow>
                    Some (Some (f\<lparr>fr_plan := plan\<rparr>),
                      registry_assign (fr_id f) (fr_branch f) (q_access (fr_request f))
                        (demand_for B (fr_id f) (fr_branch f) (fr_request f) plan (fr_origin f)) (origin_revision_of (fr_origin f) plan)
                        RouteWithdrawn r))))"

subsection \<open>The current account (\<open>observer/current_account.rs\<close>)\<close>

definition bind_account :: "nostr_lib \<Rightarrow> query \<Rightarrow> public_key option \<Rightarrow> query" where
  "bind_account N q current = (let bound = bind_current_account N current q in if matches_nothing bound then cache_only bound else bound)"

definition CURRENT_ACCOUNT_OPEN_ATTEMPTS :: nat where
  "CURRENT_ACCOUNT_OPEN_ATTEMPTS = 64"

text \<open>
  The session moves while a child is opened: attempt \<open>k\<close> reads the selection at moment \<open>2 k\<close> and
  compares it at moment \<open>2 k + 1\<close>.
\<close>

fun open_stable_loop ::
  "'r observer \<Rightarrow> input_opener \<Rightarrow> timestamp \<Rightarrow> (nat \<Rightarrow> 's session) \<Rightarrow> observation_id \<Rightarrow> query \<Rightarrow> nat \<Rightarrow> nat \<Rightarrow> observe_state
     \<Rightarrow> ('r opened \<times> public_key option \<times> u64) observe_step option" where
  "open_stable_loop own opener now sessions parent q 0 n st = Some (Inl CurrentAccountUnstable, st)"
| "open_stable_loop own opener now sessions parent q (Suc attempts) n st =
     (let (account, revision) = current_account_snapshot (sessions n) in
      case open_concrete own opener now (Some parent) (bind_account (or_lib own) q account) st of
        None \<Rightarrow> None
      | Some (Inl e, st) \<Rightarrow> Some (Inl e, st)
      | Some (Inr child, st) \<Rightarrow>
          (case if_current_account (account, revision) () (sessions (Suc n)) of
             None \<Rightarrow> open_stable_loop own opener now sessions parent q attempts (n + 2) (close_opened child st)
           | Some _ \<Rightarrow>
               (case activate_child parent (op_id child) (registry_of st) of
                  (False, _) \<Rightarrow> Some (Inl EngineClosed, close_opened child st)
                | (True, r) \<Rightarrow>
                    Some (Inr (child, account, revision),
                      on_world (\<lambda>w. snd (publish_and (op_id child) parent (qs_evidence (pj_latest (op_projection child))) w))
                        (upd_registry (\<lambda>_. r) st)))))"

definition open_stable_current_child ::
  "'r observer \<Rightarrow> input_opener \<Rightarrow> timestamp \<Rightarrow> (nat \<Rightarrow> 's session) \<Rightarrow> observation_id \<Rightarrow> query \<Rightarrow> observe_state
     \<Rightarrow> ('r opened \<times> public_key option \<times> u64) observe_step option" where
  "open_stable_current_child own opener now sessions parent q st =
     open_stable_loop own opener now sessions parent q CURRENT_ACCOUNT_OPEN_ATTEMPTS 0 st"

text \<open>The variables of the loop \<open>run\<close>, with the child's handle, its two channels, and whether it still runs.\<close>

record 'r account_follow =
  af_parent :: observation_id
  af_query :: query
  af_child :: "'r opened"
  af_handle :: handle
  af_current :: "public_key option"
  af_revision :: u64
  af_delivered :: u64
  af_latest :: query_snapshot
  af_version :: nat
  af_synchronized :: "(public_key option \<times> u64) \<times> query_snapshot"
  af_running :: bool

definition revision_snapshot :: "u64 \<Rightarrow> query_snapshot \<Rightarrow> query_snapshot" where
  "revision_snapshot n s = s\<lparr>qs_revision := n\<rparr>"

definition open_current_account ::
  "'r observer \<Rightarrow> input_opener \<Rightarrow> timestamp \<Rightarrow> (nat \<Rightarrow> 's session) \<Rightarrow> query \<Rightarrow> observe_state \<Rightarrow> 'r account_follow observe_step option" where
  "open_current_account own opener now sessions q st =
     (case install_observation None st of
        (None, st) \<Rightarrow> Some (Inl EngineClosed, st)
      | (Some parent, st) \<Rightarrow>
          (case open_stable_current_child own opener now sessions parent q st of
             None \<Rightarrow> None
           | Some (Inl e, st) \<Rightarrow> Some (Inl e, upd_registry (registry_withdraw parent) st)
           | Some (Inr (child, current, revision), st) \<Rightarrow>
               let initial = revision_snapshot 1 (pj_latest (op_projection child))
               in Some (Inr \<lparr>af_parent = parent, af_query = q, af_child = child, af_handle = handle_new, af_current = current, af_revision = revision,
                    af_delivered = 1, af_latest = initial, af_version = 0, af_synchronized = ((current, revision), initial), af_running = True\<rparr>,
                  upd_registry (registry_attach parent 2) st)))"

text \<open>Sending under the selection it was prepared for, and under the gate of the active child.\<close>

definition send_account ::
  "'s session \<Rightarrow> public_key option \<times> u64 \<Rightarrow> observation_id \<Rightarrow> observation_id \<Rightarrow> query_snapshot \<Rightarrow> observe_state \<Rightarrow> bool \<times> observe_state" where
  "send_account session selection child parent snapshot st =
     (case if_current_account selection () session of
        None \<Rightarrow> (False, st)
      | Some _ \<Rightarrow> (case publish_and child parent (qs_evidence snapshot) (os_world st) of (sent, w) \<Rightarrow> (sent, st\<lparr>os_world := w\<rparr>)))"

definition account_sent :: "public_key option \<times> u64 \<Rightarrow> u64 \<Rightarrow> query_snapshot \<Rightarrow> 'r account_follow \<Rightarrow> 'r account_follow" where
  "account_sent selection n snapshot af =
     (let outbound = revision_snapshot n snapshot
      in af\<lparr>af_latest := outbound, af_version := Suc (af_version af), af_synchronized := (selection, outbound), af_delivered := n\<rparr>)"

text \<open>
  What happens around the loop \<open>run\<close>. The session signals, and is read then, while a child is opened and
  when the loop sends; the channel of the session closes; the child's projection takes a turn; the
  loop looks at the child's handle, which is cancelled when the engine is torn down or the child was
  retired from the registry.
\<close>

datatype 's account_event =
    Signalled "'s session" "nat \<Rightarrow> 's session" "'s session"
  | SessionGone
  | ChildTurn wake
  | ChildPolled bool "'s session"

text \<open>A loop that breaks drops the child it holds.\<close>

definition account_ends :: "'r account_follow \<Rightarrow> observe_state \<Rightarrow> 'r account_follow \<times> observe_state" where
  "account_ends af st = (af\<lparr>af_running := False\<rparr>, close_opened (af_child af) st)"

fun account_turn ::
  "'r observer \<Rightarrow> input_opener \<Rightarrow> timestamp \<Rightarrow> 's account_event \<Rightarrow> 'r account_follow \<Rightarrow> observe_state
     \<Rightarrow> ('r account_follow \<times> observe_state) option" where
  "account_turn own opener now (Signalled before opening sending) af st =
     (let (next_account, next_revision) = current_account_snapshot before in
      if next_revision = af_revision af then Some (af, st)
      else if next_account = af_current af then Some (af\<lparr>af_revision := next_revision\<rparr>, st)
      else (case open_stable_current_child own opener now opening (af_parent af) (af_query af) st of
          None \<Rightarrow> None
        | Some (Inl _, st) \<Rightarrow> Some (account_ends af st)
        | Some (Inr (child, account, revision), st) \<Rightarrow>
            (case checked_add_u64 (af_delivered af) 1 of
               None \<Rightarrow> Some (account_ends af (close_opened child st))
             | Some n \<Rightarrow>
                 let snapshot = pj_latest (op_projection child) in
                 (case send_account sending (account, revision) (op_id child) (af_parent af) snapshot st of
                    (False, st) \<Rightarrow> Some (af, close_opened child st)
                  | (True, st) \<Rightarrow>
                      Some ((account_sent (account, revision) n snapshot af)\<lparr>af_current := account, af_revision := revision,
                          af_child := child, af_handle := handle_new\<rparr>,
                        close_opened (af_child af) st)))))"
| "account_turn own opener now SessionGone af st = Some (account_ends af st)"
| "account_turn own opener now (ChildTurn wake) af st =
     (case deliver_turn (or_evaluator own) wake (op_projection (af_child af)) (os_world st) of
        (pj, w) \<Rightarrow> Some (af\<lparr>af_child := (af_child af)\<lparr>op_projection := pj\<rparr>\<rparr>, st\<lparr>os_world := w\<rparr>))"
| "account_turn own opener now (ChildPolled torn_down sending) af st =
     (case handle_changed (torn_down \<or> bt_get (rg_observations (registry_of st)) (op_id (af_child af)) = None)
             (op_projection (af_child af)) (af_handle af) (os_world st) of
        (None, h, w) \<Rightarrow> Some (af\<lparr>af_handle := h\<rparr>, st\<lparr>os_world := w\<rparr>)
      | (Some (Inl _), h, w) \<Rightarrow> Some (account_ends (af\<lparr>af_handle := h\<rparr>) (st\<lparr>os_world := w\<rparr>))
      | (Some (Inr snapshot), h, w) \<Rightarrow>
          let af = af\<lparr>af_handle := h\<rparr>; st = st\<lparr>os_world := w\<rparr> in
          (case checked_add_u64 (af_delivered af) 1 of
             None \<Rightarrow> Some (account_ends af st)
           | Some n \<Rightarrow>
               (case send_account sending (af_current af, af_revision af) (op_id (af_child af)) (af_parent af) snapshot st of
                  (False, st) \<Rightarrow> Some (af, st)
                | (True, st) \<Rightarrow> Some (account_sent (af_current af, af_revision af) n snapshot af, st))))"

text \<open>
  \<open>Observer::open\<close>, with a bound on how deep router inputs nest; the flag of a handle says that it
  owns its diagnostic record.
\<close>

datatype 'r observed = Concrete "'r opened" | Account "'r account_follow"

fun observed_handle :: "'r observed \<Rightarrow> observation_id \<times> bool" where
  "observed_handle (Concrete op) = (op_id op, False)"
| "observed_handle (Account af) = (af_parent af, True)"

fun observe_open ::
  "nat \<Rightarrow> 'r observer \<Rightarrow> (nat \<Rightarrow> 's session) option \<Rightarrow> timestamp \<Rightarrow> query \<Rightarrow> observe_state \<Rightarrow> 'r observed observe_step option" where
  "observe_open 0 own sessions now q st = None"
| "observe_open (Suc depth) own sessions now q st =
     (let opener = (\<lambda>q st. map_option (\<lambda>(x, st). (map_sum id observed_handle x, st)) (observe_open depth own sessions now q st)) in
      if depends_on_current_account q
      then (case sessions of
              None \<Rightarrow> Some (Inl SessionUnconfigured, st)
            | Some s \<Rightarrow> map_option (\<lambda>(x, st). (map_sum id Account x, st)) (open_current_account own opener now s q st))
      else map_option (\<lambda>(x, st). (map_sum id Concrete x, st)) (open_concrete own opener now None q st))"

subsection \<open>What an open observation shows\<close>

lemma on_world_fields [simp]:
  "os_streams (on_world f st) = os_streams st" "os_routes (on_world f st) = os_routes st" "os_world (on_world f st) = f (os_world st)"
  "os_streams (upd_registry g st) = os_streams st" "os_routes (upd_registry g st) = os_routes st"
  "registry_of (upd_registry g st) = g (registry_of st)" "dw_diagnostics (os_world (upd_registry g st)) = dw_diagnostics (os_world st)"
  "dw_reports (os_world (upd_registry g st)) = dw_reports (os_world st)"
  by (simp_all add: on_world_def upd_registry_def)

lemma publish_keeps_registry [simp]:
  "dw_registry (snd (publish_and i d e w)) = dw_registry w" "dw_reports (snd (publish_and i d e w)) = dw_reports w"
  by (simp_all add: publish_and_def split: option.split)

lemma attach_keeps_live [simp]: "live_snapshots i (registry_attach j t r) = live_snapshots i r"
  by (auto simp: live_snapshots_def registry_attach_def split: option.split)

lemma first_delivery_Inr:
  assumes "first_delivery own d i q sources route st = (Inr op, st')"
  shows "\<exists>first. or_evaluator own q (refresh_live_snapshots (registry_of st) i sources) = Inr first \<and> op_id op = i \<and> op_route op = route
    \<and> live_snapshots i (registry_of st') = live_snapshots i (registry_of st)
    \<and> op_projection op = project i (if d = None then Some i else None) q (refresh_live_snapshots (registry_of st) i sources)
        (first\<lparr>qs_revision := 1, qs_evidence := decorate (registry_of st) i (qs_evidence first)\<rparr>)"
  using assms by (auto simp: first_delivery_def evaluate_initial_def hand_streams_def Let_def split: sum.splits)

lemma open_sources_Inr:
  "open_sources own q n = (Inr (cache, writes), m) \<Longrightarrow> or_event_cache own q = Inr cache \<and> or_write_store own q = Inr writes \<and> m = n + 2"
  by (auto simp: open_sources_def Let_def split: sum.splits)

lemma open_concrete_Inr:
  assumes "open_concrete own opener now d q st = Some (Inr op, st')"
  shows "\<exists>cache writes i route st1. or_event_cache own q = Inr cache \<and> or_write_store own q = Inr writes
    \<and> first_delivery own d i q [cache, writes] route st1 = (Inr op, st')"
  using assms by (auto simp: open_concrete_def Let_def dest!: open_sources_Inr split: sum.splits option.splits prod.splits) blast+

text \<open>
  (C36) What opening gives, end to end: whatever the query routes to and whatever happens afterwards, an
  observation that was opened and still runs shows exactly the evaluation of its query over the last
  report of the event cache and of the write store it was opened on, followed by the live relay
  events the registry kept for this observation when evidence last woke it (or when it was opened).
\<close>

theorem opened_observation_shows_evaluation:
  assumes "\<And>q s. or_event_cache own q = Inr s \<Longrightarrow> ss_kind s = EventCache" "\<And>q s. or_write_store own q = Inr s \<Longrightarrow> ss_kind s = WriteStore"
    and "open_concrete own opener now d q st = Some (Inr op, st')"
    and "\<forall>role s. Turn (WakeChanged role s) \<in> set es \<longrightarrow> ss_kind s = role_kind role"
    and "fold (delivery_step (or_evaluator own)) es (op_projection op, h, w, []) = (pj, h', w', seen)" "pj_running pj"
  shows "\<exists>cache writes evaluated. or_event_cache own q = Inr cache \<and> or_write_store own q = Inr writes
    \<and> or_evaluator own q (fst (fold (last_report CacheRole) es (cache, True)) # fst (fold (last_report WritesRole) es (writes, True))
          # last_live (or_evaluator own) (op_id op) es (op_projection op, h, w, []) (live_snapshots (op_id op) (registry_of st')))
        = Inr evaluated
    \<and> qs_events (pj_latest pj) = qs_events evaluated \<and> qe_sources (qs_evidence (pj_latest pj)) = qe_sources (qs_evidence evaluated)
    \<and> qs_revision (pj_latest pj) = pj_revision pj"
proof -
  obtain cache writes i route st1 where opened: "or_event_cache own q = Inr cache" "or_write_store own q = Inr writes"
    and first: "first_delivery own d i q [cache, writes] route st1 = (Inr op, st')"
    using open_concrete_Inr [OF assms(3)] by blast
  then have kinds: "ss_kind cache = EventCache" "ss_kind writes = WriteStore" using assms(1,2) by blast+
  let ?live = "live_snapshots i (registry_of st1)"
  have live: "refresh_live_snapshots (registry_of st1) i [cache, writes] = cache # writes # ?live"
    using refresh_live [of "[]", OF _ kinds] by simp
  obtain s where s: "or_evaluator own q (cache # writes # ?live) = Inr s" and i: "op_id op = i" "live_snapshots i (registry_of st') = ?live"
    and pj: "op_projection op = project i (if d = None then Some i else None) q
      (cache # writes # ?live) (s\<lparr>qs_revision := 1, qs_evidence := decorate (registry_of st1) i (qs_evidence s)\<rparr>)"
    using first_delivery_Inr [OF first] unfolding live by blast
  note shown = delivered_snapshot_is_evaluation [where ev = "or_evaluator own" and q = q and c = cache and x = writes and live = ?live
      and first = s and r = "registry_of st1" and i = i, OF kinds live_kinds s refl assms(4)]
  from shown [OF assms(5) [unfolded pj] assms(6)] show ?thesis unfolding i pj using opened by blast
qed

subsection \<open>A refused opening\<close>

lemma start_engine_fields:
  "start_engine own st = (x, st') \<Longrightarrow> os_streams st' = os_streams st \<and> os_routes st' = os_routes st \<and> os_world st' = os_world st"
  by (auto simp: start_engine_def split: if_splits)

text \<open>
  The part of the registry's invariant an opening relies on, in terms of lookups only: identities are
  behind the counter, and the generations a root names are installed.
\<close>

definition registry_tidy :: "registry \<Rightarrow> bool" where
  "registry_tidy r \<longleftrightarrow> (\<forall>p pb. bt_get (rg_observations r) p = Some pb \<longrightarrow> p \<le> rg_next r \<and> bs_wf (ob_children pb)
     \<and> (\<forall>c\<in>set (ob_children pb). bt_get (rg_observations r) c \<noteq> None) \<and> (\<forall>c. ob_active_child pb = Some c \<longrightarrow> c \<in> set (ob_children pb)))"

lemma registry_inv_tidy: "registry_inv r \<Longrightarrow> registry_tidy r"
  unfolding registry_tidy_def
proof (intro allI impI)
  fix p pb assume inv: "registry_inv r" and pb: "bt_get (rg_observations r) p = Some pb"
  from registry_invD(4) [OF inv pb] show "p \<le> rg_next r \<and> bs_wf (ob_children pb)
      \<and> (\<forall>c\<in>set (ob_children pb). bt_get (rg_observations r) c \<noteq> None) \<and> (\<forall>c. ob_active_child pb = Some c \<longrightarrow> c \<in> set (ob_children pb))"
    using registry_invD(2) [OF inv pb] by (cases "ob_public pb = p") (auto simp: family_ok_def)
qed

lemma tidy_free: "registry_tidy r \<Longrightarrow> rg_next r < i \<Longrightarrow> bt_get (rg_observations r) i = None"
  unfolding registry_tidy_def by (meson leD not_None_eq)

lemma next_identity:
  assumes "unat n + 1 < 2 ^ 64"
  shows "n < saturating_add_u64 n 1" "unat (saturating_add_u64 n 1) = unat n + 1"
proof -
  have "saturating_add_u64 n 1 = n + 1" using assms by (simp add: saturating_add_u64_def checked_add_u64_def)
  moreover have "unat (n + 1) = unat n + 1" using assms by (subst unat_add_lem [THEN iffD1]) simp_all
  ultimately show "n < saturating_add_u64 n 1" "unat (saturating_add_u64 n 1) = unat n + 1" by (simp_all add: word_less_nat_alt)
qed

text \<open>
  A registry to which one observation was added, a root or a generation of one: it is as it was
  installed but for its demand and its tasks, and nothing else changed but the parent's list.
\<close>

definition only_fresh :: "observation_id \<Rightarrow> observation_id option \<Rightarrow> registry \<Rightarrow> registry \<Rightarrow> bool" where
  "only_fresh i public r r' \<longleftrightarrow> rg_next r' = i
     \<and> (\<exists>ob. bt_get (rg_observations r') i = Some ob \<and> same_family ob (fresh_observation i public) \<and> observation_ok ob)
     \<and> (\<forall>k. k \<noteq> i \<longrightarrow> bt_get (rg_observations r') k
          = map_option (\<lambda>ob. if public = Some k then ob\<lparr>ob_children := bs_insert i (ob_children ob)\<rparr> else ob) (bt_get (rg_observations r) k))"

lemma only_fresh_install:
  "install_for public r = (Some i, r1) \<Longrightarrow> bt_get (rg_observations r) i = None \<Longrightarrow> only_fresh i public r r1"
  by (auto simp: only_fresh_def install_for_def same_family_def map_option_case Let_def split: if_splits option.splits)

lemma only_fresh_assign:
  assumes "only_fresh i public r r1"
  shows "only_fresh i public r (registry_assign i branch acc wanted v wd r1)"
proof -
  obtain ob where ob: "bt_get (rg_observations r1) i = Some ob" "same_family ob (fresh_observation i public)" "observation_ok ob"
    using assms by (auto simp: only_fresh_def)
  obtain ob' c where c: "assign_observation branch acc wanted v wd ob = (ob', c)" by fastforce
  have frame: "rg_next (registry_assign i branch acc wanted v wd r1) = rg_next r1"
    using c ob(1) by (simp add: registry_assign_def announce_demand_def registry_bump_def wake_observation_def put_observation_def Let_def)
  from c assign_observation_ok [OF c ob(3)] show ?thesis
    using assms ob frame by (auto simp: only_fresh_def registry_assign_def same_family_def observation_ok_def Let_def)
qed

lemma only_fresh_attach: "only_fresh i public r r1 \<Longrightarrow> only_fresh i public r (registry_attach i t r1)"
  by (auto simp: only_fresh_def registry_attach_def same_family_def observation_ok_def)

lemma leave_joined:
  assumes "bs_wf (ob_children pb)" "i \<notin> set (ob_children pb)" "ob_active_child pb \<noteq> Some i"
  shows "leave_parent i (pb\<lparr>ob_children := bs_insert i (ob_children pb)\<rparr>) = pb"
proof -
  have "bs_diff (bs_insert i (ob_children pb)) [i] = ob_children pb"
    using assms(1,2) by (intro bs_eqI) (auto intro: bs_wf_diff bs_wf_insert)
  then show ?thesis using assms(3) by (simp add: leave_parent_def remove_child_def)
qed

lemma only_fresh_withdraw:
  assumes "only_fresh i public r r1" "registry_tidy r" "rg_next r < i"
  shows "bt_get (rg_observations (registry_withdraw i r1)) j = bt_get (rg_observations r) j" "rg_next (registry_withdraw i r1) = i"
proof -
  obtain ob where ob: "bt_get (rg_observations r1) i = Some ob" "ob_children ob = []" "ob_public ob = (case public of Some p \<Rightarrow> p | None \<Rightarrow> i)"
    using assms(1) by (auto simp: only_fresh_def same_family_def fresh_observation_def)
  let ?r = "end_observation i r1"
  have eq: "registry_withdraw i r1 = announce_demand (registry_bump (if ob_public ob \<noteq> i then modify_observation (ob_public ob) (leave_parent i) ?r else ?r))"
    by (simp add: registry_withdraw_def ob Let_def)
  then show "rg_next (registry_withdraw i r1) = i"
    using assms(1) by (simp add: only_fresh_def announce_demand_def registry_bump_def)
  have free: "bt_get (rg_observations r) i = None" using tidy_free assms(2,3) by blast
  have others: "bt_get (rg_observations r1) k = map_option (\<lambda>ob. if public = Some k then ob\<lparr>ob_children := bs_insert i (ob_children ob)\<rparr> else ob) (bt_get (rg_observations r) k)"
    if "k \<noteq> i" for k using assms(1) that by (simp add: only_fresh_def)
  have parent: "leave_parent i (pb\<lparr>ob_children := bs_insert i (ob_children pb)\<rparr>) = pb" if "bt_get (rg_observations r) p = Some pb" for p pb
  proof (rule leave_joined)
    note tidy = assms(2) [unfolded registry_tidy_def, rule_format, OF that]
    show "bs_wf (ob_children pb)" using tidy by blast
    show gone: "i \<notin> set (ob_children pb)" using tidy free by blast
    show "ob_active_child pb \<noteq> Some i" using tidy gone by blast
  qed
  show "bt_get (rg_observations (registry_withdraw i r1)) j = bt_get (rg_observations r) j"
    using free ob(3) others [of j] parent [of j]
    by (cases "bt_get (rg_observations r) j") (auto simp: eq announce_demand_def registry_bump_def split: option.splits)
qed

text \<open>A query whose routers, if it asks any, declare no queries of their own.\<close>

definition needs_no_input :: "'s observer \<Rightarrow> query \<Rightarrow> bool" where
  "needs_no_input own q \<longleftrightarrow> (is_live_query q \<longrightarrow> sp_acquisition (q_source q) = AcqAutomatic \<longrightarrow>
     (\<forall>declared. chain_queries (or_lib own) (or_routers own) (Read q) = Inr declared \<longrightarrow> concat declared = []))"

lemma bind_no_input:
  assumes "needs_no_input own q" "is_live_query q" "route_bind (or_lib own) q (or_routers own) snapshot = Some (Inr b)"
  shows "rb_inputs b = []"
  using assms by (auto simp: needs_no_input_def route_bind_def split: query_acquisition.splits sum.splits option.splits)

lemma fresh_keeps_session [simp]:
  "rb_session (remove_fresh_sources own now q i branch b) = rb_session b" "rb_inputs (remove_fresh_sources own now q i branch b) = rb_inputs b"
  by (auto simp: remove_fresh_sources_def Let_def split: freshness.split option.split)

text \<open>
  Nothing more is held than before: the streams and sessions of the sequence, every observation with
  the tasks that own the others, and what was published and reported.
\<close>

definition same_holdings :: "observe_state \<Rightarrow> observe_state \<Rightarrow> bool" where
  "same_holdings st st' \<longleftrightarrow> os_streams st' = os_streams st \<and> os_routes st' = os_routes st
     \<and> (\<forall>j. bt_get (rg_observations (registry_of st')) j = bt_get (rg_observations (registry_of st)) j)
     \<and> dw_diagnostics (os_world st') = dw_diagnostics (os_world st) \<and> dw_reports (os_world st') = dw_reports (os_world st)"

text \<open>The same after at most \<open>k\<close> identities were used.\<close>

definition settled :: "nat \<Rightarrow> observe_state \<Rightarrow> observe_state \<Rightarrow> bool" where
  "settled k st st' \<longleftrightarrow> same_holdings st st' \<and> rg_next (registry_of st) \<le> rg_next (registry_of st')
     \<and> unat (rg_next (registry_of st')) \<le> unat (rg_next (registry_of st)) + k"

lemma settled_trans: "settled k a b \<Longrightarrow> settled m b c \<Longrightarrow> settled (k + m) a c"
  by (auto simp: settled_def same_holdings_def)

lemma settled_tidy: "settled k a b \<Longrightarrow> registry_tidy (registry_of a) \<Longrightarrow> registry_tidy (registry_of b)"
  unfolding settled_def same_holdings_def registry_tidy_def by (auto intro: order.trans)

text \<open>An opening underway: what it added so far, with the streams and sessions it holds.\<close>

definition underway :: "observation_id \<Rightarrow> observation_id option \<Rightarrow> nat \<Rightarrow> nat \<Rightarrow> observe_state \<Rightarrow> observe_state \<Rightarrow> bool" where
  "underway i public streams routes st st1 \<longleftrightarrow> os_streams st1 = os_streams st + streams \<and> os_routes st1 = os_routes st + routes
     \<and> dw_diagnostics (os_world st1) = dw_diagnostics (os_world st) \<and> dw_reports (os_world st1) = dw_reports (os_world st)
     \<and> only_fresh i public (registry_of st) (registry_of st1)"

definition next_free :: "observe_state \<Rightarrow> observation_id \<Rightarrow> bool" where
  "next_free st i \<longleftrightarrow> registry_tidy (registry_of st) \<and> rg_next (registry_of st) < i \<and> unat i = unat (rg_next (registry_of st)) + 1"

lemma withdrawn_settled:
  assumes "underway i public a b st st1" "next_free st i"
    and "os_streams st2 = os_streams st" "os_routes st2 = os_routes st" "registry_of st2 = registry_withdraw i (registry_of st1)"
    and "dw_diagnostics (os_world st2) = dw_diagnostics (os_world st1)" "dw_reports (os_world st2) = dw_reports (os_world st1)"
  shows "settled 1 st st2"
  using assms only_fresh_withdraw [of i public "registry_of st" "registry_of st1"]
  by (auto simp: underway_def next_free_def settled_def same_holdings_def)

definition route_count :: "'s opened_chain option \<Rightarrow> nat" where
  "route_count oc = (case oc of None \<Rightarrow> 0 | Some _ \<Rightarrow> 1)"

lemma close_fields [simp]:
  "os_world (close_streams st) = os_world st" "os_streams (close_streams st) = os_streams st - 2" "os_routes (close_streams st) = os_routes st"
  "os_world (close_route oc st) = os_world st" "os_streams (close_route oc st) = os_streams st"
  "os_routes (close_route oc st) = os_routes st - route_count oc" "drop_inputs [] st = st"
  by (simp_all add: close_streams_def close_route_def route_count_def drop_inputs_def on_world_def split: option.split)

lemma demand_underway:
  assumes "install_demand own opener now i q binding st1 = Some (x, st2)" "\<And>b. binding = Some b \<Longrightarrow> rb_inputs b = []"
    and under: "underway i public 2 (route_count (Option.bind binding rb_session)) st st1" "next_free st i"
  shows "case x of Inl e \<Rightarrow> settled 1 st st2 | Inr route \<Rightarrow> underway i public 2 0 st st2 \<and> (\<forall>f. route = Some f \<longrightarrow> fr_inputs f = [])"
proof (cases binding)
  case None
  then show ?thesis using assms by (auto simp: install_demand_def route_count_def)
next
  case (Some b)
  define b' where "b' = remove_fresh_sources own now q i ROOT_BRANCH b"
  have b': "rb_session b' = rb_session b" "rb_inputs b' = []" using assms(2) [OF Some] by (simp_all add: b'_def)
  obtain y st3 where engine: "(if rp_destinations (rb_plan b') \<noteq> [] \<or> rb_session b' \<noteq> None then start_engine own st1 else (Inr (), st1)) = (y, st3)"
    by (cases "if rp_destinations (rb_plan b') \<noteq> [] \<or> rb_session b' \<noteq> None then start_engine own st1 else (Inr (), st1)")
  have "os_streams st3 = os_streams st1" "os_routes st3 = os_routes st1" "os_world st3 = os_world st1"
    using engine start_engine_fields [of own st1 y st3] by (auto split: if_splits)
  with under(1) have st3: "underway i public 2 (route_count (rb_session b)) st st3" by (simp add: underway_def Some)
  have eq: "install_demand own opener now i q binding st1 = (case (y, st3) of
      (Inl e, st) \<Rightarrow> Some (Inl e, close_route (rb_session b') (upd_registry (registry_withdraw i) (close_streams st)))
    | (Inr _, st) \<Rightarrow> map_option (\<lambda>(route, st). (Inr route, st)) (retain own opener i ROOT_BRANCH q b' st))"
    unfolding engine [symmetric] b'_def install_demand_def Some by (simp add: Let_def)
  show ?thesis
  proof (cases y)
    case (Inl e)
    have "settled 1 st (close_route (rb_session b) (upd_registry (registry_withdraw i) (close_streams st3)))"
      using st3 by (intro withdrawn_settled [OF st3 under(2)]) (simp_all add: underway_def)
    then show ?thesis using assms(1) eq b' Inl by auto
  next
    case (Inr u)
    then show ?thesis using assms(1) eq b' st3
      by (cases "rb_session b")
        (auto simp: retain_def follow_routes_def hand_route_def underway_def route_count_def upd_registry_def on_world_def Let_def
          intro!: only_fresh_assign only_fresh_attach)
  qed
qed

text \<open>The first evaluation, undone by its own refusal, and the opened generation, undone by closing it.\<close>

lemma first_delivery_settles:
  assumes "first_delivery own d i q sources route st1 = (x, st2)" "\<And>f. route = Some f \<Longrightarrow> fr_inputs f = []"
    and under: "underway i d 2 0 st st1" "next_free st i"
  shows "case x of Inl e \<Rightarrow> settled 1 st st2 | Inr op \<Rightarrow> d \<noteq> None \<longrightarrow> settled 1 st (close_opened op st2)"
proof -
  have dropped: "drop_route route s = s" for s using assms(2) by (cases route) (simp_all add: drop_route_def)
  show ?thesis
  proof (cases x)
    case (Inl e)
    then have "st2 = upd_registry (registry_withdraw i) (close_streams st1)"
      using assms(1) dropped by (auto simp: first_delivery_def Let_def split: sum.splits)
    moreover have "settled 1 st (upd_registry (registry_withdraw i) (close_streams st1))"
      using under(1) by (intro withdrawn_settled [OF under]) (simp_all add: underway_def)
    ultimately show ?thesis by (simp add: Inl)
  next
    case (Inr op)
    have "settled 1 st (close_opened op st2)" if "d \<noteq> None"
    proof -
      have st2: "st2 = hand_streams i st1" "op_id op = i" "op_route op = route"
        using assms(1) that Inr by (auto simp: first_delivery_def Let_def split: sum.splits)
      have "underway i d 0 0 st st2" using under(1) by (auto simp: underway_def st2(1) hand_streams_def upd_registry_def on_world_def intro: only_fresh_attach)
      from withdrawn_settled [OF this under(2)] this show ?thesis
        by (simp add: close_opened_def st2(2,3) dropped underway_def handle_close_def)
    qed
    then show ?thesis by (simp add: Inr)
  qed
qed

lemma install_fresh:
  assumes "install_observation d st1 = (Some i, st2)" "registry_of st1 = registry_of st"
    and "registry_tidy (registry_of st)" "unat (rg_next (registry_of st)) + 1 < 2 ^ 64"
  shows "next_free st i" "only_fresh i d (registry_of st) (registry_of st2)" "os_streams st2 = os_streams st1" "os_routes st2 = os_routes st1"
    "dw_diagnostics (os_world st2) = dw_diagnostics (os_world st1)" "dw_reports (os_world st2) = dw_reports (os_world st1)"
proof -
  have inst: "install_for d (registry_of st) = (Some i, registry_of st2)" and st2: "st2 = upd_registry (\<lambda>_. registry_of st2) st1"
    using assms(1,2) by (auto simp: install_observation_def registry_install_def registry_install_child_def split: option.splits prod.splits)
  then have i: "i = saturating_add_u64 (rg_next (registry_of st)) 1" by (auto simp: install_for_def Let_def split: if_splits)
  show free: "next_free st i" using next_identity [OF assms(4)] assms(3) by (simp add: next_free_def i)
  show "only_fresh i d (registry_of st) (registry_of st2)"
    using only_fresh_install [OF inst] free tidy_free by (auto simp: next_free_def)
  show "os_streams st2 = os_streams st1" "os_routes st2 = os_routes st1" "dw_diagnostics (os_world st2) = dw_diagnostics (os_world st1)"
    "dw_reports (os_world st2) = dw_reports (os_world st1)" by (subst st2, simp)+
qed

text \<open>The open sequence as a whole: a refusal leaves nothing behind, and neither does a generation that is closed again.\<close>

lemma bound_no_input:
  assumes "needs_no_input own q"
    and "(if is_live_query q then map_option (map_sum id Some) (route_bind (or_lib own) q (or_routers own) snapshot) else Some (Inr None)) = Some (Inr (Some b))"
  shows "rb_inputs b = []"
proof -
  from assms(2) obtain z where "is_live_query q" "route_bind (or_lib own) q (or_routers own) snapshot = Some z" "map_sum id Some z = Inr (Some b)"
    by (auto split: if_splits)
  then show ?thesis using bind_no_input [OF assms(1)] by (cases z) auto
qed

lemma open_concrete_settles:
  assumes "open_concrete own opener now d q st = Some (x, st')" "needs_no_input own q"
    and room: "registry_tidy (registry_of st)" "unat (rg_next (registry_of st)) + 1 < 2 ^ 64"
  shows "case x of Inl e \<Rightarrow> settled 1 st st' | Inr op \<Rightarrow> d \<noteq> None \<longrightarrow> settled 1 st (close_opened op st')"
proof -
  obtain y streams where src: "open_sources own q (os_streams st) = (y, streams)" by fastforce
  show ?thesis
  proof (cases y)
    case (Inl e)
    then have "streams = os_streams st" using src by (auto simp: open_sources_def Let_def split: sum.splits)
    then show ?thesis using assms(1) src Inl by (auto simp: open_concrete_def settled_def same_holdings_def)
  next
    case (Inr both)
    obtain cache writes where both: "both = (cache, writes)" by (cases both)
    define st0 where "st0 = st\<lparr>os_streams := streams\<rparr>"
    have streams: "streams = os_streams st + 2" using open_sources_Inr src Inr both by metis
    define bound where "bound = (if is_live_query q then map_option (map_sum id Some) (route_bind (or_lib own) q (or_routers own) (local_snapshot own))
        else Some (Inr None))"
    note sequence = assms(1) [unfolded open_concrete_def src Inr both sum.case prod.case st0_def [symmetric] bound_def [symmetric] Let_def]
    consider e where "bound = Some (Inl e)" | binding where "bound = Some (Inr binding)"
      using sequence by (cases bound) (auto split: sum.splits)
    then show ?thesis
    proof cases
      case 1
      then show ?thesis using sequence by (auto simp: settled_def same_holdings_def st0_def streams)
    next
      case (2 binding)
      let ?oc = "Option.bind binding rb_session"
      define st1 where "st1 = (case ?oc of None \<Rightarrow> st0 | Some _ \<Rightarrow> st0\<lparr>os_routes := os_routes st0 + 1\<rparr>)"
      have st1: "os_streams st1 = os_streams st + 2" "os_routes st1 = os_routes st + route_count ?oc" "os_world st1 = os_world st"
        by (simp_all add: st1_def st0_def streams route_count_def split: option.split)
      have no_input: "rb_inputs b = []" if "binding = Some b" for b
        using bound_no_input [OF assms(2), of "local_snapshot own" b] 2 that by (simp add: bound_def)
      obtain i st2 where install: "install_observation d st1 = (i, st2)" by fastforce
      note rest = sequence [unfolded 2 option.case sum.case st1_def [symmetric] install prod.case]
      show ?thesis
      proof (cases i)
        case None
        then have "os_world st2 = os_world st" "os_streams st2 = os_streams st1" "os_routes st2 = os_routes st1"
          using install st1(3) by (auto simp: install_observation_def registry_install_def registry_install_child_def install_for_def upd_registry_def on_world_def
              Let_def split: option.splits if_splits prod.splits)
        then show ?thesis using rest None st1 by (auto simp: settled_def same_holdings_def)
      next
        case (Some i')
        note fresh = install_fresh [OF install [unfolded Some] _ room, unfolded st1(3), OF refl]
        have under: "underway i' d 2 (route_count ?oc) st st2" using fresh st1 by (simp add: underway_def)
        obtain z st3 where demand: "install_demand own opener now i' q binding st2 = Some (z, st3)"
          using rest Some by (cases "install_demand own opener now i' q binding st2") auto
        note settles = demand_underway [OF demand no_input under fresh(1)]
        show ?thesis
        proof (cases z)
          case (Inl e)
          then show ?thesis using rest Some demand settles by auto
        next
          case (Inr route)
          then have "first_delivery own d i' q [cache, writes] route st3 = (x, st')" using rest Some demand by simp
          from first_delivery_settles [OF this _ _ fresh(1)] show ?thesis using settles Inr by simp
        qed
      qed
    qed
  qed
qed

lemma open_stable_settles:
  assumes "open_stable_loop own opener now sessions parent q attempts n st = Some (Inl e, st')"
    and "\<And>account. needs_no_input own (bind_account (or_lib own) q account)"
    and "registry_tidy (registry_of st)" "unat (rg_next (registry_of st)) + attempts < 2 ^ 64"
  shows "settled attempts st st'"
  using assms(1,3,4)
proof (induction attempts arbitrary: n st)
  case 0
  then show ?case by (simp add: settled_def same_holdings_def)
next
  case (Suc attempts)
  obtain account revision where selection: "current_account_snapshot (sessions n) = (account, revision)" by fastforce
  obtain x st1 where opened: "open_concrete own opener now (Some parent) (bind_account (or_lib own) q account) st = Some (x, st1)"
    using Suc.prems(1) selection by (auto split: option.splits)
  have once: "unat (rg_next (registry_of st)) + 1 < 2 ^ 64" using Suc.prems(3) by simp
  note settles = open_concrete_settles [OF opened assms(2) Suc.prems(2) once]
  have more: "settled 1 st s \<Longrightarrow> settled (Suc attempts) st s" for s by (auto simp: settled_def)
  show ?case
  proof (cases x)
    case (Inl e')
    then show ?thesis using Suc.prems(1) selection opened settles more by auto
  next
    case (Inr child)
    then have closed: "settled 1 st (close_opened child st1)" using settles by simp
    then have room: "unat (rg_next (registry_of (close_opened child st1))) + attempts < 2 ^ 64" using Suc.prems(3) by (simp add: settled_def)
    consider "open_stable_loop own opener now sessions parent q attempts (n + 2) (close_opened child st1) = Some (Inl e, st')"
      | "st' = close_opened child st1"
      using Suc.prems(1) selection opened Inr by (auto split: option.splits prod.splits bool.splits)
    then show ?thesis
    proof cases
      case 1
      from Suc.IH [OF 1 settled_tidy [OF closed Suc.prems(2)] room] settled_trans [OF closed] show ?thesis by fastforce
    next
      case 2
      then show ?thesis using closed more by simp
    qed
  qed
qed

lemma install_root_tidy:
  assumes "only_fresh i None r r1" "registry_tidy r" "rg_next r < i"
  shows "registry_tidy r1"
  unfolding registry_tidy_def
proof (intro allI impI)
  fix p pb assume pb: "bt_get (rg_observations r1) p = Some pb"
  show "p \<le> rg_next r1 \<and> bs_wf (ob_children pb) \<and> (\<forall>c\<in>set (ob_children pb). bt_get (rg_observations r1) c \<noteq> None)
      \<and> (\<forall>c. ob_active_child pb = Some c \<longrightarrow> c \<in> set (ob_children pb))"
  proof (cases "p = i")
    case True
    then show ?thesis using assms(1) pb by (auto simp: only_fresh_def same_family_def)
  next
    case False
    then have old: "bt_get (rg_observations r) p = Some pb" using assms(1) pb by (simp add: only_fresh_def option.map_ident)
    have kept: "bt_get (rg_observations r1) c \<noteq> None" if "bt_get (rg_observations r) c \<noteq> None" for c
      using assms(1) that by (cases "c = i") (auto simp: only_fresh_def)
    show ?thesis using assms(2) [unfolded registry_tidy_def, rule_format, OF old] assms(1,3) kept by (auto simp: only_fresh_def)
  qed
qed

lemma open_current_account_settles:
  assumes "open_current_account own opener now sessions q st = Some (Inl e, st')"
    and no_input: "\<And>account. needs_no_input own (bind_account (or_lib own) q account)"
    and tidy: "registry_tidy (registry_of st)" and room: "unat (rg_next (registry_of st)) + 1 + CURRENT_ACCOUNT_OPEN_ATTEMPTS < 2 ^ 64"
  shows "same_holdings st st'"
proof -
  obtain parent st1 where install: "install_observation None st = (Some parent, st1)"
    by (auto simp: install_observation_def registry_install_def install_for_def Let_def)
  have "unat (rg_next (registry_of st)) + 1 < 2 ^ 64" using room by simp
  note fresh = install_fresh [OF install refl tidy this]
  then have tidy1: "registry_tidy (registry_of st1)" using install_root_tidy tidy by (auto simp: next_free_def)
  obtain st2 where loop: "open_stable_current_child own opener now sessions parent q st1 = Some (Inl e, st2)"
    and st': "st' = upd_registry (registry_withdraw parent) st2"
    using assms(1) install by (auto simp: open_current_account_def Let_def split: option.splits sum.splits prod.splits)
  have "unat (rg_next (registry_of st1)) + CURRENT_ACCOUNT_OPEN_ATTEMPTS < 2 ^ 64"
    using fresh(1,2) room by (simp add: next_free_def only_fresh_def)
  note settles = open_stable_settles [OF loop [unfolded open_stable_current_child_def] no_input tidy1 this]
  have same: "bt_get (rg_observations (registry_of st2)) j = bt_get (rg_observations (registry_of st1)) j" for j
    using settles by (simp add: settled_def same_holdings_def)
  obtain ob where ob: "bt_get (rg_observations (registry_of st1)) parent = Some ob" "ob_public ob = parent" "ob_children ob = []"
    using fresh(2) by (auto simp: only_fresh_def same_family_def)
  have others: "bt_get (rg_observations (registry_of st1)) k = bt_get (rg_observations (registry_of st)) k" if "k \<noteq> parent" for k
    using fresh(2) that by (simp add: only_fresh_def option.map_ident)
  have "bt_get (rg_observations (registry_withdraw parent (registry_of st2))) j = bt_get (rg_observations (registry_of st)) j" for j
    using same ob others [of j] fresh(1) tidy_free [of "registry_of st" parent]
    by (simp add: registry_withdraw_def announce_demand_def registry_bump_def next_free_def Let_def)
  then show ?thesis using settles fresh by (simp add: st' settled_def same_holdings_def)
qed

text \<open>
  (C39) All or nothing: when opening is refused, at whichever step, no change stream and no router session
  stays open, every observation of the registry is as it was, with its tasks, and nothing was
  published. The first part is the open sequence, for a root and for a generation of the current
  account (a refused installation included), the second the opening of a query on the current account
  with all its attempts. The queries are those whose routers declare no queries of their own, and the
  counter of identities has room for one root and 64 generations.
\<close>

theorem refused_open_releases_everything:
  assumes "registry_inv (registry_of st)" "unat (rg_next (registry_of st)) + 65 < 2 ^ 64"
  shows "(needs_no_input own q \<longrightarrow> open_concrete own opener now diagnostic q st = Some (Inl e, st') \<longrightarrow> same_holdings st st')
    \<and> ((\<forall>account. needs_no_input own (bind_account (or_lib own) q account)) \<longrightarrow>
         open_current_account own opener now sessions q st = Some (Inl e, st') \<longrightarrow> same_holdings st st')"
proof (intro conjI impI)
  note tidy = registry_inv_tidy [OF assms(1)]
  show "same_holdings st st'" if "needs_no_input own q" "open_concrete own opener now diagnostic q st = Some (Inl e, st')"
    using open_concrete_settles [OF that(2,1) tidy] assms(2) by (simp add: settled_def)
  show "same_holdings st st'" if "\<forall>account. needs_no_input own (bind_account (or_lib own) q account)"
    "open_current_account own opener now sessions q st = Some (Inl e, st')"
    using open_current_account_settles [OF that(2) _ tidy] that(1) assms(2) by (simp add: CURRENT_ACCOUNT_OPEN_ATTEMPTS_def)
qed

subsection \<open>Preview and binding\<close>

text \<open>
  What \<open>preview_routes\<close> shows is the plan an observation of the same query is bound to, refusals and
  panics included, for explicit and automatic routing.
\<close>

theorem preview_shows_bound_routes:
  assumes "\<forall>r\<in>set (or_routers own). \<exists>contribute live. router_contract r contribute live"
  shows "preview_routes own q = map_option (map_sum id rb_plan) (route_bind (or_lib own) q (or_routers own) (local_snapshot own))"
  by (auto simp: preview_routes_def route_bind_def chain_open_agrees_preview [OF assms] split: query_acquisition.split sum.split option.split)

subsection \<open>Deliveries of the current account\<close>

text \<open>A snapshot that is the evaluator's answer to a query, whatever its number and its relay evidence.\<close>

definition answer_of :: "evaluator \<Rightarrow> query \<Rightarrow> query_snapshot \<Rightarrow> bool" where
  "answer_of ev q s \<longleftrightarrow> (\<exists>sources evaluated. ev q sources = Inr evaluated \<and> qs_events s = qs_events evaluated
     \<and> qe_sources (qs_evidence s) = qe_sources (qs_evidence evaluated))"

lemma answer_of_revision [simp]: "answer_of ev q (revision_snapshot n s) = answer_of ev q s"
  by (simp add: answer_of_def revision_snapshot_def)

lemma turn_answers:
  assumes "answer_of ev (pj_query pj) (pj_latest pj)"
  shows "pj_query (fst (deliver_turn ev wake pj w)) = pj_query pj" "answer_of ev (pj_query pj) (pj_latest (fst (deliver_turn ev wake pj w)))"
proof -
  have "answer_of ev (pj_query p) (pj_latest (fst (deliver_next ev p w')))" if "answer_of ev (pj_query p) (pj_latest p)" for p w'
    using that unfolding answer_of_def
    by (auto simp: deliver_next_def projection_ends_def send_latest_def Let_def split: sum.splits option.splits)
  from this [of "fst (take_wake wake pj w)" "snd (take_wake wake pj w)"] assms
  show "pj_query (fst (deliver_turn ev wake pj w)) = pj_query pj" "answer_of ev (pj_query pj) (pj_latest (fst (deliver_turn ev wake pj w)))"
    by (auto simp: deliver_turn_def projection_ends_def deliver_next_evaluates case_prod_unfold Let_def)
qed

lemma open_concrete_answers:
  assumes "open_concrete own opener now d q st = Some (Inr op, st')"
  shows "pj_query (op_projection op) = q \<and> answer_of (or_evaluator own) q (pj_latest (op_projection op))"
proof -
  obtain i sources route st1 where "first_delivery own d i q sources route st1 = (Inr op, st')"
    using open_concrete_Inr [OF assms] by blast
  from first_delivery_Inr [OF this] show ?thesis by (auto simp: project_def answer_of_def) (metis decorate_sources)
qed

lemma open_stable_answers:
  "open_stable_loop own opener now sessions parent q attempts n st = Some (Inr (child, account, revision), st') \<Longrightarrow>
     pj_query (op_projection child) = bind_account (or_lib own) q account
     \<and> answer_of (or_evaluator own) (bind_account (or_lib own) q account) (pj_latest (op_projection child))"
  by (induction attempts arbitrary: n st)
    (auto simp: Let_def dest!: open_concrete_answers split: prod.splits option.splits sum.splits bool.splits)

lemma send_account_current: "send_account session selection child parent snapshot st = (True, st') \<Longrightarrow> current_account_snapshot session = selection"
  by (auto simp: send_account_def if_current_account_def split: option.splits prod.splits if_splits)

text \<open>The session a turn compares with when it sends.\<close>

fun sending_session :: "'s account_event \<Rightarrow> 's session option" where
  "sending_session (Signalled before moments sending) = Some sending"
| "sending_session (ChildPolled torn_down sending) = Some sending"
| "sending_session SessionGone = None"
| "sending_session (ChildTurn wake) = None"

lemma account_sent_fields [simp]:
  "af_child (account_sent x n s af) = af_child af" "af_query (account_sent x n s af) = af_query af"
  "af_current (account_sent x n s af) = af_current af" "af_revision (account_sent x n s af) = af_revision af"
  "af_version (account_sent x n s af) = Suc (af_version af)" "af_delivered (account_sent x n s af) = n"
  "af_latest (account_sent x n s af) = revision_snapshot n s" "af_synchronized (account_sent x n s af) = (x, revision_snapshot n s)"
  by (simp_all add: account_sent_def Let_def)

text \<open>
  An observation of the current account through any events, while other owners change the rest of
  the state between them.
\<close>

inductive account_run :: "'r observer \<Rightarrow> query \<Rightarrow> 's account_event list \<Rightarrow> 'r account_follow \<Rightarrow> bool" for own q where
  account_opened: "open_current_account own opener now (sessions :: nat \<Rightarrow> 's session) q st = Some (Inr af, st') \<Longrightarrow>
    account_run own q ([] :: 's account_event list) af"
| account_moved: "account_run own q es af \<Longrightarrow> af_running af \<Longrightarrow> account_turn own opener now e af st = Some (af', st') \<Longrightarrow>
    account_run own q (es @ [e]) af'"

text \<open>What holds between events: the child stands for the account, and so does what can be read.\<close>

definition shows_account :: "'r observer \<Rightarrow> query \<Rightarrow> 'r account_follow \<Rightarrow> bool" where
  "shows_account own q af \<longleftrightarrow> af_query af = q \<and> pj_query (op_projection (af_child af)) = bind_account (or_lib own) q (af_current af)
     \<and> answer_of (or_evaluator own) (bind_account (or_lib own) q (af_current af)) (pj_latest (op_projection (af_child af)))
     \<and> answer_of (or_evaluator own) (bind_account (or_lib own) q (af_current af)) (af_latest af)
     \<and> fst (fst (af_synchronized af)) = af_current af \<and> snd (af_synchronized af) = af_latest af"

definition sent_as :: "public_key option \<times> u64 \<Rightarrow> 'r account_follow \<Rightarrow> 'r account_follow \<Rightarrow> bool" where
  "sent_as selection af af' \<longleftrightarrow> selection = (af_current af', af_revision af')
     \<and> af_latest af' = revision_snapshot (af_delivered af') (pj_latest (op_projection (af_child af')))
     \<and> af_synchronized af' = (selection, af_latest af') \<and> checked_add_u64 (af_delivered af) 1 = Some (af_delivered af')"

lemma account_turn_shows:
  assumes "account_turn own opener now e af st = Some (af', st')" "shows_account own q af"
  shows "shows_account own q af' \<and> (af_version af' = af_version af
    \<or> (\<exists>session. sending_session e = Some session \<and> sent_as (current_account_snapshot session) af af'))"
proof (cases e)
  case (Signalled before moments sending)
  show ?thesis using assms unfolding Signalled
    by (auto simp: shows_account_def sent_as_def account_ends_def open_stable_current_child_def Let_def
        dest: open_stable_answers send_account_current split: prod.splits if_splits option.splits sum.splits bool.splits)
next
  case SessionGone
  then show ?thesis using assms by (auto simp: shows_account_def account_ends_def)
next
  case (ChildTurn wake)
  have child: "answer_of (or_evaluator own) (pj_query (op_projection (af_child af))) (pj_latest (op_projection (af_child af)))"
    using assms(2) by (simp add: shows_account_def)
  show ?thesis using assms turn_answers [OF child, of wake "os_world st"] unfolding ChildTurn
    by (auto simp: shows_account_def split: prod.splits)
next
  case (ChildPolled torn_down sending)
  show ?thesis using assms unfolding ChildPolled
    by (auto simp: shows_account_def sent_as_def account_ends_def handle_changed_def Let_def
        split: prod.splits if_splits option.splits bool.splits) (auto dest: send_account_current)
qed

lemma account_run_shows: "account_run own q es af \<Longrightarrow> shows_account own q af"
proof (induction rule: account_run.induct)
  case (account_opened opener now sessions st af st')
  then show ?case
    by (auto simp: open_current_account_def open_stable_current_child_def shows_account_def Let_def
        dest!: open_stable_answers split: prod.splits option.splits sum.splits)
next
  case (account_moved es af opener now e st af' st')
  then show ?case using account_turn_shows by blast
qed

text \<open>
  (C38) An observation of the current account never shows the state of another account. Whatever events
  it went through, what can be read is the evaluator's answer to the query bound to the account it
  stands for, and is synchronized under that account. Whatever an event then delivers is the latest
  snapshot of the child bound to the account the session selects at that moment, in that very
  selection, numbered one higher than before.
\<close>

theorem account_delivery_is_current:
  assumes "account_run own q es af"
  shows "answer_of (or_evaluator own) (bind_account (or_lib own) q (af_current af)) (af_latest af)
    \<and> fst (fst (af_synchronized af)) = af_current af \<and> snd (af_synchronized af) = af_latest af
    \<and> (af_running af \<longrightarrow> account_turn own opener now e af st = Some (af', st') \<longrightarrow> af_version af' \<noteq> af_version af \<longrightarrow>
        (\<exists>session. sending_session e = Some session \<and> current_account_snapshot session = (af_current af', af_revision af'))
        \<and> pj_query (op_projection (af_child af')) = bind_account (or_lib own) q (af_current af')
        \<and> af_latest af' = revision_snapshot (af_delivered af') (pj_latest (op_projection (af_child af')))
        \<and> af_synchronized af' = ((af_current af', af_revision af'), af_latest af')
        \<and> checked_add_u64 (af_delivered af) 1 = Some (af_delivered af'))"
  using account_run_shows [OF assms] account_turn_shows [of own opener now e af st af' st' q]
  by (auto simp: shows_account_def sent_as_def)

text \<open>
  When the selection moves away and back before the loop looks, the loop takes over the new selection
  without delivering: what was synchronized names the old one, so that a caller of
  \<open>synchronize_current_account\<close> waits for the next change of the child.
\<close>

theorem reselected_account_not_synchronized:
  assumes "current_account_snapshot before = (af_current af, revision)" "revision \<noteq> af_revision af"
    and "af_synchronized af = ((af_current af, af_revision af), s)"
  shows "account_turn own opener now (Signalled before moments sending) af st = Some (af\<lparr>af_revision := revision\<rparr>, st)
    \<and> fst (af_synchronized (af\<lparr>af_revision := revision\<rparr>)) \<noteq> current_account_snapshot before"
  using assms by simp

subsection \<open>Fresh relays of a followed route\<close>

lemma constant_map_get: "bt_get (map (\<lambda>(k, _). (k, v)) m) s = map_option (\<lambda>_. v) (bt_get m s)"
  by (induction m) (auto simp: bt_get_def)

text \<open>
  Opening leaves out the relays whose last complete answer is young enough. A turn that follows the
  route assigns the whole plan again: a relay that was left out is demanded like every other as soon
  as the turn finds it in the contribution, whatever its age.
\<close>

theorem followed_route_demands_fresh_relays:
  assumes "chain_replace snapshots (fr_session f) = Some (Inr contribution, oc)"
    and "checked_add_u64 (rp_revision (fr_plan f)) 1 = Some revision" "plan_from_contribution revision contribution = Inr plan"
    and "plan_from_contribution (rp_revision (fr_plan f)) contribution \<noteq> Inr (fr_plan f)"
    and "bt_wf (rp_destinations plan)" "bt_get (rp_destinations plan) s \<noteq> None" "bt_get (rg_observations r) (fr_id f) = Some ob"
  shows "\<exists>f' r' ob' a. follow_turn B snapshots f r = Some (Some f', r') \<and> bt_get (rg_observations r') (fr_id f) = Some ob'
    \<and> bt_get (ob_relays ob') s = Some a \<and> ag_demand a = demand_for_query B (fr_id f) (fr_branch f) (fr_request f)"
proof -
  let ?wanted = "demand_for B (fr_id f) (fr_branch f) (fr_request f) plan (fr_origin f)"
  let ?w = "(demand_for_query B (fr_id f) (fr_branch f) (fr_request f), origin_at (fr_origin f) (rp_revision plan))"
  obtain ob' c where c: "assign_observation (fr_branch f) (q_access (fr_request f)) ?wanted (origin_revision_of (fr_origin f) plan) RouteWithdrawn ob = (ob', c)"
    by fastforce
  have wf: "bt_wf ?wanted" using assms(5) by (simp add: demand_for_def bt_wf_def comp_def case_prod_unfold)
  have "bt_get ?wanted s = Some ?w"
    using assms(6) by (auto simp: demand_for_def constant_map_get)
  then have "bt_get (ob_relays ob') s = Some (take_assigned (fr_branch f) s ?w (bt_get (ob_relays ob) s))"
    using assign_observation_relays(1) [OF wf c, of s] by simp
  moreover have "ag_demand (take_assigned (fr_branch f) s ?w x) = fst ?w" for x by (simp add: take_assigned_def split: option.split)
  ultimately show ?thesis using assms(1-4,7) c
    by (auto simp: follow_turn_def registry_assign_def Let_def split: option.split)
qed

subsection \<open>Concrete openings\<close>

definition plain_builder :: filter_builder where
  "plain_builder = \<lparr>fb_new = any_filter, fb_ids = (\<lambda>_ f. f), fb_authors = (\<lambda>_ f. f), fb_kinds = (\<lambda>_ f. f),
     fb_custom_tags = (\<lambda>_ _ f. f), fb_limit = (\<lambda>_ f. f)\<rparr>"

definition local_observer :: "unit observer" where
  "local_observer = \<lparr>or_lib = sample_lib, or_builder = plain_builder, or_event_cache = (\<lambda>_. Inr (source_snapshot_empty EventCache)),
     or_write_store = (\<lambda>_. Inr (source_snapshot_empty WriteStore)), or_evaluator = evaluate sample_lib, or_routers = [],
     or_transport = False, or_planner = False, or_events = None, or_engine_starts = Inr ()\<rparr>"

definition idle_state :: observe_state where
  "idle_state = \<lparr>os_world = \<lparr>dw_registry = registry_default, dw_diagnostics = diagnostics_default, dw_reports = []\<rparr>, os_engine = False,
     os_streams = 0, os_routes = 0\<rparr>"

definition no_inputs :: input_opener where
  "no_inputs q st = None"

text \<open>After a change of the cache a relay event reaches the observation and wakes its projection.\<close>

definition live_registry :: registry where
  "live_registry = record_live_event sample_lib 1 sample_relay_note
     (registry_assign 1 0 Unauthenticated (wants 1 [''wss://a'']) (Some 1) RouteWithdrawn (snd (registry_install registry_default)))"

definition woken_events :: "delivery_event list" where
  "woken_events = [Turn (WakeChanged CacheRole (cache_at 4))] @ [Elsewhere live_registry diagnostics_default, Turn WakeEvidence]"

lemma last_live_woken: "last_live ev i (es @ [Elsewhere r d, Turn WakeEvidence]) x live = live_snapshots i r"
proof (induction es arbitrary: x live)
  case Nil
  show ?case by (cases x) simp
qed simp

theorem opened_observation_shows_evaluation_witness:
  "\<exists>op st' pj h w seen evaluated. open_concrete local_observer no_inputs 5 None (cache_only query_events) idle_state = Some (Inr op, st')
     \<and> fold (delivery_step (evaluate sample_lib)) woken_events (op_projection op, handle_new, os_world st', []) = (pj, h, w, seen)
     \<and> evaluate sample_lib (cache_only query_events) (cache_at 4 # source_snapshot_empty WriteStore # live_snapshots 1 live_registry) = Inr evaluated
     \<and> qs_events (pj_latest pj) = qs_events evaluated \<and> map er_id (qs_events (pj_latest pj)) = [7]"
proof -
  let ?run = "\<lambda>op st'. fold (delivery_step (evaluate sample_lib)) woken_events (op_projection op, handle_new, os_world st', [])"
  have "case open_concrete local_observer no_inputs 5 None (cache_only query_events) idle_state of
      Some (Inr op, st') \<Rightarrow> (case ?run op st' of (pj, _, _, _) \<Rightarrow> op_id op = 1 \<and> pj_running pj \<and> map er_id (qs_events (pj_latest pj)) = [7])
    | _ \<Rightarrow> False" by code_simp
  then obtain op st' pj h w seen where opened: "open_concrete local_observer no_inputs 5 None (cache_only query_events) idle_state = Some (Inr op, st')"
    and run: "?run op st' = (pj, h, w, seen)" and runs: "op_id op = 1" "pj_running pj" "map er_id (qs_events (pj_latest pj)) = [7]"
    by (clarsimp split: option.splits prod.splits sum.splits) (metis prod.exhaust)
  have ev: "or_evaluator local_observer = evaluate sample_lib" by (simp add: local_observer_def)
  have last: "fold (last_report CacheRole) woken_events (source_snapshot_empty EventCache, True) = (cache_at 4, True)"
    "fold (last_report WritesRole) woken_events (source_snapshot_empty WriteStore, True) = (source_snapshot_empty WriteStore, True)"
    by (simp_all add: woken_events_def)
  have live: "last_live (evaluate sample_lib) 1 woken_events x y = live_snapshots 1 live_registry" for x y
    by (simp only: woken_events_def last_live_woken)
  have kinds: "\<forall>role s. Turn (WakeChanged role s) \<in> set woken_events \<longrightarrow> ss_kind s = role_kind role"
    by (auto simp: woken_events_def cache_at_def source_snapshot_empty_def)
  have "\<exists>cache writes evaluated. or_event_cache local_observer (cache_only query_events) = Inr cache
      \<and> or_write_store local_observer (cache_only query_events) = Inr writes
      \<and> evaluate sample_lib (cache_only query_events) (fst (fold (last_report CacheRole) woken_events (cache, True))
          # fst (fold (last_report WritesRole) woken_events (writes, True)) # live_snapshots 1 live_registry) = Inr evaluated
      \<and> qs_events (pj_latest pj) = qs_events evaluated"
    using opened_observation_shows_evaluation [of local_observer, OF _ _ opened kinds, unfolded ev, OF _ _ run] runs run
    by (auto simp: live local_observer_def source_snapshot_empty_def)
  then show ?thesis using opened run runs last by (auto simp: local_observer_def)
qed

text \<open>A session that moves, and an observer whose evaluator refuses.\<close>

definition restless :: "nat \<Rightarrow> nat session" where
  "restless k = (if even k then session_perform (SelectAccount 7) sample_session else session_built [] [] 0)"

definition account_query :: query where
  "account_query = cache_only (authors_current_account query_events)"

definition refusing_observer :: "unit observer" where
  "refusing_observer = local_observer\<lparr>or_evaluator := \<lambda>_ _. Inl MissingEventId\<rparr>"

lemma local_no_input: "needs_no_input local_observer q" "needs_no_input refusing_observer q"
  by (simp_all add: needs_no_input_def chain_queries_def refusing_observer_def local_observer_def split: sum.split)

text \<open>A generation whose root is gone is not installed; one whose first evaluation is refused is taken back with its root.\<close>

theorem refused_open_releases_everything_witness:
  "(\<exists>st'. open_concrete local_observer no_inputs 5 (Some 9) (cache_only query_events) idle_state = Some (Inl EngineClosed, st') \<and> same_holdings idle_state st')
   \<and> (\<exists>st'. open_current_account refusing_observer no_inputs 5 restless account_query idle_state = Some (Inl (EvaluationFailed MissingEventId), st')
        \<and> same_holdings idle_state st')"
proof -
  have "registry_inv (registry_of idle_state)" "unat (rg_next (registry_of idle_state)) + 65 < 2 ^ 64"
    by (simp_all add: idle_state_def registry_default_def registry_inv_def)
  note released = refused_open_releases_everything [of idle_state, OF this]
  have "case open_concrete local_observer no_inputs 5 (Some 9) (cache_only query_events) idle_state of Some (Inl EngineClosed, st') \<Rightarrow> True | _ \<Rightarrow> False"
    by code_simp
  then obtain st1 where one: "open_concrete local_observer no_inputs 5 (Some 9) (cache_only query_events) idle_state = Some (Inl EngineClosed, st1)"
    by (auto split: option.splits prod.splits sum.splits observe_error.splits)
  have "case open_current_account refusing_observer no_inputs 5 restless account_query idle_state of
      Some (Inl (EvaluationFailed e), st') \<Rightarrow> e = MissingEventId | _ \<Rightarrow> False" by code_simp
  then obtain st2 where two: "open_current_account refusing_observer no_inputs 5 restless account_query idle_state
      = Some (Inl (EvaluationFailed MissingEventId), st2)"
    by (auto split: option.splits prod.splits sum.splits observe_error.splits)
  have "same_holdings idle_state st1" using released one local_no_input by blast
  moreover have "same_holdings idle_state st2" using released two local_no_input by blast
  ultimately show ?thesis using one two by blast
qed

theorem preview_shows_bound_routes_witness:
  "preview_routes local_observer query_events
     = map_option (map_sum id rb_plan) (route_bind sample_lib query_events ([] :: unit router list) (local_snapshot local_observer))"
  using preview_shows_bound_routes [of local_observer query_events] by (simp add: local_observer_def)

text \<open>The session moves from one account to none: the loop switches to a child bound to no account.\<close>

theorem account_delivery_is_current_witness:
  "\<exists>af st af' st'. open_current_account local_observer no_inputs 5 (\<lambda>_. restless 0) account_query idle_state = Some (Inr af, st)
     \<and> account_turn local_observer no_inputs 5 (Signalled (restless 1) (\<lambda>_. restless 1) (restless 1)) af st = Some (af', st')
     \<and> af_current af = Some 7 \<and> af_current af' = None \<and> pj_query (op_projection (af_child af')) = bind_account sample_lib account_query None
     \<and> af_latest af' = revision_snapshot 2 (pj_latest (op_projection (af_child af')))"
proof -
  let ?e = "Signalled (restless 1) (\<lambda>_. restless 1) (restless 1)"
  have "case open_current_account local_observer no_inputs 5 (\<lambda>_. restless 0) account_query idle_state of
      Some (Inr af, st) \<Rightarrow> af_running af \<and> af_current af = Some 7
        \<and> (case account_turn local_observer no_inputs 5 ?e af st of
             Some (af', _) \<Rightarrow> af_version af' \<noteq> af_version af \<and> af_current af' = None \<and> af_delivered af' = 2 | None \<Rightarrow> False)
    | _ \<Rightarrow> False" by code_simp
  then obtain af st af' st' where opened: "open_current_account local_observer no_inputs 5 (\<lambda>_. restless 0) account_query idle_state = Some (Inr af, st)"
    and turn: "account_turn local_observer no_inputs 5 ?e af st = Some (af', st')"
    and sent: "af_running af" "af_current af = Some 7" "af_version af' \<noteq> af_version af" "af_current af' = None" "af_delivered af' = 2"
    by (auto simp del: account_turn.simps One_nat_def split: option.splits prod.splits sum.splits)
  from account_delivery_is_current [OF account_opened [OF opened], of no_inputs 5 ?e st af' st'] sent turn
  have "pj_query (op_projection (af_child af')) = bind_account (or_lib local_observer) account_query None"
    "af_latest af' = revision_snapshot 2 (pj_latest (op_projection (af_child af')))" by metis+
  then have "pj_query (op_projection (af_child af')) = bind_account sample_lib account_query None" by (simp add: local_observer_def)
  then show ?thesis using opened turn sent \<open>af_latest af' = _\<close> by blast
qed

end
