(* ===== verification/Observation_Returns.thy ===== *)
theory Observation_Returns
  imports Observation_Opening Routers
begin

section \<open>Opening an observation returns\<close>

text \<open>
  Opening a live query opens the queries its routers declare, and those may be routed again. The
  outbox policy asks its indexers explicitly and the hint policy reads only local sources, so with
  the policies of the repository the nesting ends at the second level.
\<close>

text \<open>The four policies, and queries that need no router input of their own.\<close>

definition is_policy :: "nostr_lib \<Rightarrow> router_session router \<Rightarrow> bool" where
  "is_policy N r \<longleftrightarrow> (\<exists>a. r = app_router N a) \<or> (\<exists>f. r = fallback_router N f) \<or> (\<exists>name. r = hint_router N name) \<or> (\<exists>ob. r = outbox_router_of N ob)"

definition is_direct :: "query \<Rightarrow> bool" where
  "is_direct q \<longleftrightarrow> \<not> depends_on_current_account q \<and> (q_freshness q = CacheOnly \<or> (\<exists>relays. sp_acquisition (q_source q) = AcqExplicit relays))"

lemma policy_contract: "is_policy N r \<Longrightarrow> \<exists>contribute live. router_contract r contribute live"
  unfolding is_policy_def using policy_contracts by metis

lemma policy_ascii: "is_policy N r \<Longrightarrow> speaks_ascii r"
  by (auto simp: is_policy_def policies_speak_ascii)

lemma policy_declares_direct:
  assumes "is_policy N r" "rt_queries r request up = Returned (Inr qs)" "q \<in> set qs"
  shows "is_direct q"
  using assms
  by (auto simp: is_policy_def is_direct_def app_router_def fallback_router_def hint_router_def outbox_router_of_def hint_queries_def
      outbox_query_def relay_lists_def query_kinds_def query_authors_def query_limit_def query_ids_def from_relays_def non_empty_relays_def
      with_relay_access_def cache_only_def max_age_def query_events_def selection_default_def depends_on_current_account_def Let_def
      split: if_splits sum.splits)

lemma declared_direct:
  assumes "\<forall>r\<in>set routers. is_policy N r" "queries_loop request c index routers = Inr declared"
  shows "\<forall>q\<in>set (concat declared). is_direct q"
  using assms
proof (induction routers arbitrary: index declared)
  case (Cons r routers)
  obtain qs qss where "rt_queries r request (upstream_plan index 1 c) = Returned (Inr qs)"
    and rest: "queries_loop request c (Suc index) routers = Inr qss" "declared = qs # qss"
    using Cons.prems(2) by (auto simp: isolate_def split: sum.splits outcome.splits)
  then have "\<forall>q\<in>set qs. is_direct q" using Cons.prems(1) policy_declares_direct by (metis list.set_intros(1))
  moreover have "\<forall>q\<in>set (concat qss). is_direct q" using Cons.IH [OF _ rest(1)] Cons.prems(1) by simp
  ultimately show ?case by (auto simp: rest(2))
qed simp

lemma chain_open_returns:
  assumes "\<forall>r\<in>set routers. is_policy N r"
  shows "chain_open N' routers request inputs \<noteq> None"
proof -
  have "chain_preview N' routers request inputs \<noteq> None"
  proof (cases "validate_names routers")
    case (Inr u)
    then have "\<forall>(r, i)\<in>set (zip routers inputs). speaks_ascii r \<and> length (rt_name r) \<le> MAX_TEXT_BYTES"
      using assms by (auto simp: validate_names_ok dest: set_zip_leftD policy_ascii)
    then obtain c where "preview_loop request 0 (zip routers inputs) (composer_new (length routers) (request_targets N' request)) = Some c"
      using preview_loop_returns composer_new_ok by blast
    then show ?thesis using Inr by (simp add: chain_preview_def)
  qed (simp add: chain_preview_def)
  moreover have "\<forall>r\<in>set routers. \<exists>contribute live. router_contract r contribute live" using assms policy_contract by blast
  ultimately show ?thesis by (auto simp: chain_open_agrees_preview split: option.splits)
qed

lemma route_bind_returns:
  assumes "\<forall>r\<in>set routers. is_policy N r"
  shows "route_bind N q routers snapshot \<noteq> None"
  by (auto simp: route_bind_def chain_open_returns [OF assms] split: query_acquisition.split sum.split option.split)

lemma bound_inputs_direct:
  assumes "\<forall>r\<in>set routers. is_policy N r" "route_bind N q routers snapshot = Some (Inr b)"
  shows "\<forall>q'\<in>set (rb_inputs b). is_direct q'"
  using assms declared_direct [OF assms(1)]
  by (auto simp: route_bind_def chain_queries_def split: query_acquisition.splits sum.splits option.splits)

lemma open_inputs_returns: "\<forall>q\<in>set qs. \<forall>st. opener q st \<noteq> None \<Longrightarrow> open_inputs opener qs hs st \<noteq> None"
  by (induction opener qs hs st rule: open_inputs.induct) (auto split: option.splits sum.splits)

lemma install_demand_returns:
  assumes "\<And>b q'. binding = Some b \<Longrightarrow> q' \<in> set (rb_inputs b) \<Longrightarrow> \<forall>st. opener q' st \<noteq> None"
  shows "install_demand own opener now i q binding st \<noteq> None"
proof (cases binding)
  case (Some b)
  have inputs: "open_inputs opener (rb_inputs b) hs st \<noteq> None" for hs st using open_inputs_returns assms Some by metis
  show ?thesis using Some
    by (auto simp: inputs install_demand_def retain_def follow_routes_def Let_def split: option.splits sum.splits prod.splits)
qed (simp add: install_demand_def)

lemma open_concrete_returns:
  assumes "\<forall>r\<in>set (or_routers own). is_policy (or_lib own) r"
    and "\<And>b q'. is_live_query q \<Longrightarrow> route_bind (or_lib own) q (or_routers own) (local_snapshot own) = Some (Inr b) \<Longrightarrow> q' \<in> set (rb_inputs b) \<Longrightarrow> \<forall>st. opener q' st \<noteq> None"
  shows "open_concrete own opener now d q st \<noteq> None"
proof -
  define bound where "bound = (if is_live_query q then map_option (map_sum id Some) (route_bind (or_lib own) q (or_routers own) (local_snapshot own))
      else Some (Inr None))"
  obtain x where bound: "bound = Some x" using route_bind_returns [OF assms(1), of q "local_snapshot own"] by (cases "is_live_query q") (auto simp: bound_def)
  have demand: "install_demand own opener now i q binding st \<noteq> None" if "x = Inr binding" for i binding st
  proof (rule install_demand_returns)
    fix b q' assume b: "binding = Some b" "q' \<in> set (rb_inputs b)"
    with bound that obtain y where "is_live_query q" "route_bind (or_lib own) q (or_routers own) (local_snapshot own) = Some y" "map_sum id Some y = Inr (Some b)"
      by (auto simp: bound_def split: if_splits)
    with b(2) show "\<forall>st. opener q' st \<noteq> None" using assms(2) by (cases y) auto
  qed
  show ?thesis unfolding open_concrete_def bound_def [symmetric] bound
    by (cases x) (auto simp: Let_def demand split: sum.split option.split prod.split)
qed

lemma direct_no_inputs: "is_direct q \<Longrightarrow> is_live_query q \<Longrightarrow> route_bind N q routers snapshot = Some (Inr b) \<Longrightarrow> rb_inputs b = []"
  by (auto simp: is_direct_def is_live_query_def route_bind_def split: sum.splits)

lemma observe_direct_returns:
  assumes "\<forall>r\<in>set (or_routers own). is_policy (or_lib own) r" "is_direct q"
  shows "observe_open (Suc n) own sessions now q st \<noteq> None"
proof -
  have "open_concrete own opener now d q st \<noteq> None" for opener d
  proof (rule open_concrete_returns [OF assms(1)])
    fix b q' assume "is_live_query q" "route_bind (or_lib own) q (or_routers own) (local_snapshot own) = Some (Inr b)" "q' \<in> set (rb_inputs b)"
    then have False using direct_no_inputs [OF assms(2)] by fastforce
    then show "\<forall>st. opener q' st \<noteq> None" ..
  qed
  then show ?thesis using assms(2) by (auto simp: is_direct_def Let_def)
qed

lemma open_stable_returns:
  assumes "\<And>account st. open_concrete own opener now (Some parent) (bind_account (or_lib own) q account) st \<noteq> None"
  shows "open_stable_loop own opener now sessions parent q attempts n st \<noteq> None"
  by (induction attempts arbitrary: n st) (auto simp: Let_def assms split: prod.split option.split sum.split bool.split)

text \<open>
  (C40) Opening any query on an observer that routes with the policies of the repository returns, with an
  observation or a refusal, at every depth from two on: routed queries, queries bound to the current
  account and the nested router inputs included.
\<close>

theorem observe_open_returns:
  assumes "\<forall>r\<in>set (or_routers own). is_policy (or_lib own) r"
  shows "\<exists>x st'. observe_open (Suc (Suc n)) own sessions now q st = Some (x, st')"
proof -
  define opener where "opener q st = map_option (\<lambda>(x, st). (map_sum id observed_handle x, st)) (observe_open (Suc n) own sessions now q st)" for q st
  have concrete: "open_concrete own opener now d q st \<noteq> None" for d q st
  proof (rule open_concrete_returns [OF assms])
    fix b q' assume "route_bind (or_lib own) q (or_routers own) (local_snapshot own) = Some (Inr b)" "q' \<in> set (rb_inputs b)"
    then have "is_direct q'" using bound_inputs_direct [OF assms] by blast
    then show "\<forall>st. opener q' st \<noteq> None" by (simp add: opener_def observe_direct_returns [OF assms] del: observe_open.simps)
  qed
  have account: "open_current_account own opener now s q st \<noteq> None" for s
    by (auto simp: open_current_account_def open_stable_current_child_def open_stable_returns [OF concrete] Let_def
        split: prod.split option.split sum.split)
  have "observe_open (Suc (Suc n)) own sessions now q st \<noteq> None"
    unfolding observe_open.simps(2) [of "Suc n"] opener_def [symmetric] Let_def
    by (simp add: concrete account del: not_None_eq split: option.split)
  then show ?thesis by (auto simp del: observe_open.simps)
qed

definition policy_observer :: "router_session observer" where
  "policy_observer = \<lparr>or_lib = sample_lib, or_builder = plain_builder, or_event_cache = (\<lambda>_. Inr (source_snapshot_empty EventCache)),
     or_write_store = (\<lambda>_. Inr (source_snapshot_empty WriteStore)), or_evaluator = evaluate sample_lib,
     or_routers = [hint_router sample_lib ''hints'', outbox_router_of sample_lib \<lparr>ob_name = ''outbox'', ob_indexers = [''wss://index'']\<rparr>],
     or_transport = True, or_planner = True, or_events = Some (\<lambda>_ _. Inr None), or_engine_starts = Inr ()\<rparr>"

definition author_query :: query where
  "author_query = query_events\<lparr>q_selection := selection_default\<lparr>sel_authors := Some [7]\<rparr>\<rparr>"

text \<open>The relay lists of an author are a query of their own: one level does not suffice, two do.\<close>

theorem observe_open_returns_witness:
  "observe_open 1 policy_observer (None :: (nat \<Rightarrow> unit session) option) 5 author_query idle_state = None
   \<and> (\<exists>x st'. observe_open 2 policy_observer (None :: (nat \<Rightarrow> unit session) option) 5 author_query idle_state = Some (x, st'))"
proof -
  have "\<forall>r\<in>set (or_routers policy_observer). is_policy (or_lib policy_observer) r"
    by (auto simp: policy_observer_def is_policy_def)
  from observe_open_returns [OF this, of 0 "None :: (nat \<Rightarrow> unit session) option" 5 author_query idle_state]
  have "\<exists>x st'. observe_open 2 policy_observer (None :: (nat \<Rightarrow> unit session) option) 5 author_query idle_state = Some (x, st')"
    by (simp only: numeral_2_eq_2)
  moreover have "observe_open 1 policy_observer (None :: (nat \<Rightarrow> unit session) option) 5 author_query idle_state = None"
    by code_simp
  ultimately show ?thesis by blast
qed

end
