(* ===== verification/Spec2Isabelle.thy ===== *)
theory Spec2Isabelle
  imports Fava_Prelude Relay Nostr_Lib Event_State Write_Values Query Query_Standard Event_Cache Routing Routers
    Write_Store Memory_Write_Store Write_Ledger Write_Runs Subscription_Properties Transport Delivery
    Observation_Registry Observation_Engine Observation_Runs Observation_Properties
    Edit_Protocols Contact_Lists Bookmarks Saved_Groups Simple_Groups Publication_Edits Publication_Properties
    Session Publication_Signing Publication_Runs Authentication Diagnostics
    Redb_Write_Store Redb_Recovery Redb_Durability Redb_Reopen Redb_Properties
    Observation_Delivery Observation_Opening Observation_Returns
begin

text \<open>
  Fava is an embeddable Nostr client engine: declarative live queries over local sources and
  relays, and durable writes that are routed, signed and delivered with a receipt per relay. This
  development models the engine crate by crate, with the definitions in the order of the code, and
  proves the properties each crate relies on.

  \<^bold>\<open>The program's parts and the theories that model them.\<close>

  \<^item> \<open>Fava_Prelude\<close>: machine integers at their width, checked and saturating arithmetic, the
    ordered maps and sets of \<open>std::collections\<close> as sorted association lists, \<open>Result\<close> chaining with
    \<open>try_in\<close>, decimal rendering, and the lemma collections the components share.
  \<^item> \<open>Nostr_Lib\<close>: the \<open>nostr\<close> crate is not part of the repository. Its events, filters and tags are
    data; hashing, signature checks, filter matching and key rendering are the fields of one record,
    which every definition that needs them takes as an argument.
  \<^item> \<open>Relay\<close> (\<open>fava-relay\<close>), \<open>Event_State\<close> (\<open>fava-state\<close>), \<open>Write_Values\<close> (\<open>fava-write\<close>) and
    \<open>Query\<close> (\<open>fava-query\<close>): the values the crates exchange, with their constructors' checks.
  \<^item> \<open>Query_Standard\<close> (\<open>fava-query-standard\<close>): the evaluation of a query over source snapshots.
  \<^item> \<open>Event_Cache\<close> (\<open>fava-ingest\<close>, \<open>fava-event-cache\<close>, \<open>fava-event-cache-memory\<close>): admission of
    relay frames and the bounded cache with deletion, replacement, expiry and coverage.
  \<^item> \<open>Routing\<close> (\<open>fava-routing\<close>) and \<open>Routers\<close> (\<open>fava-nip65\<close> and the four router crates): the chain
    with its failure isolation, and the policies.
  \<^item> \<open>Write_Store\<close> (\<open>fava-write-store\<close>), \<open>Memory_Write_Store\<close> (\<open>fava-write-store-memory\<close>): receipts,
    semantic edits, reservations, signing, routing, attempts, cancellation and recovery.
    \<open>Write_Ledger\<close> is the abstract ledger the store refines, \<open>Write_Runs\<close> what follows for runs.
  \<^item> \<open>Subscriptions\<close> (\<open>fava-subscriptions\<close>): demand, containment of filters and the conformance
    rules. \<open>Subscription_Planning\<close>, \<open>Subscription_Grouping\<close>, \<open>Subscriptions_Standard\<close>
    (\<open>fava-subscriptions-standard\<close>), \<open>Subscriptions_No_Grouping\<close> (\<open>fava-subscriptions-no-grouping\<close>):
    the two planners; \<open>Subscription_Properties\<close> what both guarantee.
  \<^item> \<open>Transport\<close> (\<open>fava-transport\<close>): mailboxes, the wire router, handles and challenges.
  \<^item> \<open>Delivery\<close> (\<open>fava-delivery-standard\<close>, \<open>fava-publisher-nip01\<close>,
    \<open>fava-publication/src/delivery.rs\<close>): the attempt policy, one publication, the destination lanes.
  \<^item> \<open>Redb_Write_Store\<close>, \<open>Redb_Recovery\<close> (\<open>fava-write-store-redb\<close>): the durable write store, every
    operation a transaction over the tables, and the opening of a file with the validation of its
    rows. \<open>Redb_Durability\<close> relates the file to the ledger in memory, \<open>Redb_Reopen\<close> follows a file
    through processes that end at any point, \<open>Redb_Properties\<close> holds concrete histories.
  \<^item> \<open>Edit_Protocols\<close>, \<open>Contact_Lists\<close> (\<open>fava-nip02\<close>), \<open>Bookmarks\<close> (\<open>fava-bookmarks\<close>),
    \<open>Saved_Groups\<close> and \<open>Simple_Groups\<close> (\<open>fava-simple-groups\<close>): the edit protocols with their byte
    codecs, decoders and appliers.
  \<^item> \<open>Session\<close> (\<open>fava-session\<close>, \<open>fava-signer\<close>, \<open>fava-signer-local\<close>): accounts, signer attachments and
    the current account. \<open>Authentication\<close> (\<open>fava-auth\<close>): answering the challenges of relays.
  \<^item> \<open>Publication_Edits\<close>, \<open>Publication_Signing\<close>, \<open>Publication_Runs\<close> (\<open>fava-publication\<close>): the
    application of edits to current state, recovery, signing, and the owner of one receipt with its
    route generations. \<open>Publication_Properties\<close> states what the edits of a sequence amount to.
  \<^item> \<open>Diagnostics\<close> (\<open>fava-diagnostics\<close>): the bounded facts the owners publish.
  \<^item> \<open>Observation_Registry\<close>, \<open>Observation_Engine\<close> (\<open>fava-observe\<close>: \<open>registry.rs\<close>, \<open>engine.rs\<close>,
    \<open>slot.rs\<close>, \<open>plan.rs\<close>, \<open>completions.rs\<close>): installed observations, and the reconciliation of their
    demand into relay work. \<open>Observation_Runs\<close> and \<open>Observation_Properties\<close> show what its runs keep.
  \<^item> \<open>Observation_Delivery\<close> (\<open>sources.rs\<close>, \<open>observation.rs\<close>): the projection task and the handle an
    application reads. \<open>Observation_Opening\<close> (\<open>observer.rs\<close>, \<open>routes.rs\<close>,
    \<open>observer/current_account.rs\<close>): the open sequence, followed routes, freshness and observations of
    the current account. \<open>Observation_Returns\<close> shows that opening ends.

  The publication owner drives a write store, the session, the routers and the destination lanes; the
  observation owner drives the query evaluator over the event cache and the write store, the
  planners and the relay sessions. Both publish to the diagnostics.

  \<^bold>\<open>State and effects.\<close> Every stateful object is a record; every method a function from the state to
  the result and the new state. A method that holds a mutex for its whole body is one step; methods
  that release it in between are several. Errors are the left side of a sum. Channels that only wake
  a reader are the value they hold, or a log of what was sent. Clocks, freshly observed values and the
  answers of a provider behind a trait are arguments.

  \<^bold>\<open>What the lemmas show.\<close> Each theory proves the invariant of its state and that its operations keep
  it, and then the properties that clients rely on: the write store refines an abstract ledger in
  which outcomes never change once they are terminal and identities are never reused; the cache never
  resurrects a deleted event, as long as the batches its callers decide themselves do not; an answer to
  a query is exactly justified by its sources, and complete; a planner's filters ask for exactly the
  demanded events and pass the conformance check; a wire frame reaches the handle that owns it and loss
  is counted exactly; a destination lane whose publisher answers ends with the verdict of the answers. Through every history of processes the durable file mirrors the ledger, and
  reopening restores every receipt. Whatever the publication owner and its providers do, receipts keep
  their history and only the current signer's signature of the authorized body enters the store. The
  engine ignores reports of superseded rounds, installs only conforming plans and admits only solicited
  events. An opened observation shows the evaluation of what its own sources reported last, its
  reader misses exactly what is reported as missed, an observation of the current account shows only
  what the child bound to that account evaluated and sends it only under that selection, and a refused
  open, of a root or of a generation, releases what it held. Some theorems exhibit a defect
  on a concrete history; they stand beside the component they concern.

  \<^bold>\<open>Interfaces\<close> are locales, interpreted on the model's own definitions: \<open>finite_map\<close> (ordered maps),
  \<open>router_contract\<close> (all four policies), \<open>event_cache\<close>, \<open>ledger_store\<close> (the ledger a write store
  refines), \<open>subscription_planner\<close> (both planners), \<open>edit_applier\<close> (contact lists, bookmarks, saved
  groups), \<open>generation_source\<close> (the session's attachments) and \<open>keyed_category\<close> (the diagnostic
  categories).

  \<^bold>\<open>Bounds and fuel.\<close> Bounds are those of the code (256 destinations, 4096 receipt bytes, 512 bytes of
  relay text, the cache bound). Recursion is structural or has a termination proof; the splitting of
  oversized requests terminates by a multiset order. \<open>run_destination\<close> carries fuel, one unit a round,
  and \<open>lane_settles\<close> shows that the attempts left plus two are enough. \<open>observe_open\<close> carries the depth
  of nested router inputs, and \<open>observe_open_returns\<close> shows that two levels are enough. The counters of
  \<open>reconcile_recovered\<close>, \<open>refresh_semantic\<close>, \<open>open_generation\<close>, \<open>initialize_semantic\<close> (257 rounds) and
  \<open>open_stable_loop\<close> (64 attempts) are the bounded loops of the code, with the error it returns at the
  end of them.

  \<^bold>\<open>Not modelled.\<close> The async runtime, sockets and TLS (\<open>fava-runtime\<close>, \<open>fava-transport-websocket\<close>,
  \<open>fava-wire\<close>) and the provider tasks of \<open>operations.rs\<close>: they move bytes and wake tasks, and their
  answers are arguments. The bytes of a redb file: rows are modelled, their JSON text is a parameter
  with its round trip as a hypothesis. The encoding of an event edit is modelled in the data model of
  \<open>serde\<close>, with the encoding of a kind, which is the \<open>nostr\<close> crate's, as a parameter. The persistent event cache, the fetch cache, the facade \<open>fava\<close>,
  test kits and examples.
\<close>

end
